(* ===== verification/Prelude.thy ===== *)
theory Prelude
  imports Main "HOL-Library.Code_Target_Nat"
begin

text \<open>
  Shared vocabulary of the development: Rust's integer types and their wrapping
  arithmetic, decimal printing as done by \<open>format!\<close>, the error type of the virtual machines
  with the sequencing combinator that plays the role of the \<open>?\<close> operator, growable vectors,
  and one generic loop with the locale that proves such loops terminate and keep an invariant.
\<close>

unbundle bit_operations_syntax

section \<open>Lemma collections\<close>

named_theorems wrap_simps \<open>equations about wrap-around arithmetic\<close>
named_theorems res_simps \<open>evaluation rules of the sequencing combinator\<close>

section \<open>Integers of the source\<close>

text \<open>
  \<open>i32\<close>, \<open>i64\<close> values are integers kept in range by the operations below; \<open>usize\<close>, \<open>u32\<close>
  and \<open>u64\<close> are natural numbers (the checked operations write their bound out).
\<close>

type_synonym i32 = int
type_synonym i64 = int
type_synonym usize = nat

definition is_i32 :: "int \<Rightarrow> bool" where
  "is_i32 v \<longleftrightarrow> - 2147483648 \<le> v \<and> v \<le> 2147483647"

definition is_i64 :: "int \<Rightarrow> bool" where
  "is_i64 v \<longleftrightarrow> - 9223372036854775808 \<le> v \<and> v \<le> 9223372036854775807"

definition i64_min :: int where
  "i64_min = - 9223372036854775808"

definition wrap32 :: "int \<Rightarrow> int" where
  "wrap32 x = (x + 2147483648) mod 4294967296 - 2147483648"

definition wrap64 :: "int \<Rightarrow> int" where
  "wrap64 x = (x + 9223372036854775808) mod 18446744073709551616 - 9223372036854775808"

lemma i64_min_nonzero [simp]: "i64_min \<noteq> 0" "0 \<noteq> i64_min" by (simp_all add: i64_min_def)

text \<open>\<open>as usize\<close> on a signed value: sign extension to 64 bits, read as unsigned.\<close>

definition as_usize :: "int \<Rightarrow> nat" where
  "as_usize x = nat (x mod 18446744073709551616)"

text \<open>\<open>as i32\<close> on an unsigned value: the low 32 bits, read as signed.\<close>

definition usize_as_i32 :: "nat \<Rightarrow> int" where
  "usize_as_i32 n = wrap32 (int n)"

text \<open>\<open>usize::checked_add\<close> on a 64-bit target.\<close>

definition checked_add :: "nat \<Rightarrow> nat \<Rightarrow> nat option" where
  "checked_add a b = (if a + b < 18446744073709551616 then Some (a + b) else None)"

text \<open>Rust's \<open>/\<close> on signed integers truncates towards zero.\<close>

definition trunc_div :: "int \<Rightarrow> int \<Rightarrow> int" where
  "trunc_div a b = sgn a * sgn b * (\<bar>a\<bar> div \<bar>b\<bar>)"

text \<open>
  The normalisation every backend applies to arithmetic results
  (\<open>normalize_i32\<close> in vm.rs, gc_vm.rs, optimizer.rs and oracle.rs).
\<close>

definition normalize_i32 :: "i64 \<Rightarrow> i64" where
  "normalize_i32 value =
     (let masked = value AND 0xFFFFFFFF
      in if masked > 0x7FFFFFFF then masked - 0x100000000 else masked)"

lemma wrap32_range [wrap_simps]: "is_i32 (wrap32 v)"
  by (simp add: is_i32_def wrap32_def)

lemma wrap32_id [wrap_simps]: "is_i32 v \<Longrightarrow> wrap32 v = v"
  by (simp add: is_i32_def wrap32_def)

lemma wrap32_add_multiple [wrap_simps]: "wrap32 (v + 4294967296 * k) = wrap32 v"
proof -
  have "v + 4294967296 * k + 2147483648 = v + 2147483648 + 4294967296 * k" by simp
  then show ?thesis by (simp only: wrap32_def mod_mult_self2)
qed

lemma wrap32_unique: "is_i32 w \<Longrightarrow> v = w + 4294967296 * k \<Longrightarrow> wrap32 v = w"
  by (simp add: wrap32_add_multiple wrap32_id)

lemma wrap64_id [wrap_simps]: "is_i64 v \<Longrightarrow> wrap64 v = v"
  by (simp add: is_i64_def wrap64_def)

lemma wrap64_range: "is_i64 (wrap64 v)"
  by (simp add: is_i64_def wrap64_def)

lemma wrap32_wrap64 [wrap_simps]: "wrap32 (wrap64 v) = wrap32 v"
proof -
  define q where "q = (v + 9223372036854775808) div 18446744073709551616"
  have "wrap64 v = v - 18446744073709551616 * q"
    unfolding wrap64_def q_def minus_mult_div_eq_mod [symmetric] by simp
  then have "wrap64 v = v + 4294967296 * (- 4294967296 * q)" by simp
  then show ?thesis by (simp only: wrap32_add_multiple)
qed

lemma normalize_i32_wrap32: "normalize_i32 v = wrap32 v"
proof -
  define r where "r = v mod 4294967296"
  define q where "q = v div 4294967296"
  have m: "v AND 0xFFFFFFFF = r"
    using take_bit_eq_mask [of 32 v] by (simp add: take_bit_eq_mod mask_eq_exp_minus_1 r_def)
  have bounds: "0 \<le> r" "r < 4294967296" by (simp_all add: r_def)
  have v: "v = r + 4294967296 * q" by (simp add: r_def q_def)
  show ?thesis
  proof (cases "r > 0x7FFFFFFF")
    case True
    have "wrap32 v = r - 4294967296"
      using bounds True by (intro wrap32_unique [where k = "q + 1"]) (simp_all add: is_i32_def v)
    with True show ?thesis by (simp add: normalize_i32_def Let_def m)
  next
    case False
    have "wrap32 v = r"
      using bounds False by (intro wrap32_unique [where k = q]) (simp_all add: is_i32_def v)
    with False show ?thesis by (simp add: normalize_i32_def Let_def m)
  qed
qed

lemma normalize_i32_range [simp]: "is_i32 (normalize_i32 v)"
  by (simp add: normalize_i32_wrap32 wrap_simps)

lemma normalize_i32_id [simp]: "is_i32 v \<Longrightarrow> normalize_i32 v = v"
  by (simp add: normalize_i32_wrap32 wrap_simps)

lemma normalize_i32_idem: "normalize_i32 (normalize_i32 v) = normalize_i32 v"
  by simp

lemma is_i32_01 [simp]: "is_i32 0" "is_i32 1"
  by (simp_all add: is_i32_def)

lemma is_i32_is_i64: "is_i32 v \<Longrightarrow> is_i64 v"
  by (simp add: is_i32_def is_i64_def)

lemma as_usize_id: "0 \<le> x \<Longrightarrow> is_i64 x \<Longrightarrow> as_usize x = nat x"
  by (simp add: as_usize_def is_i64_def)

lemma usize_as_i32_id: "n < 2147483648 \<Longrightarrow> usize_as_i32 n = int n"
  by (simp add: usize_as_i32_def wrap32_def)

lemma usize_as_i32_as_usize: "is_i32 a \<Longrightarrow> usize_as_i32 (as_usize a) = a"
proof -
  assume a: "is_i32 a"
  define q where "q = a div 18446744073709551616"
  have "a mod 18446744073709551616 = a + 4294967296 * (- 4294967296 * q)"
    unfolding q_def minus_mult_div_eq_mod [symmetric] by simp
  then have "wrap32 (a mod 18446744073709551616) = wrap32 a" by (simp only: wrap32_add_multiple)
  with a show ?thesis by (simp add: usize_as_i32_def as_usize_def wrap32_id)
qed

lemma as_usize_usize_as_i32: "n < 2147483648 \<Longrightarrow> as_usize (usize_as_i32 n) = n"
  by (simp add: usize_as_i32_id as_usize_id is_i64_def)

lemma trunc_div_1 [simp]: "trunc_div a 1 = a"
  by (cases a rule: linorder_cases [of _ 0]) (simp_all add: trunc_div_def)

lemma abs_trunc_div: "\<bar>trunc_div a b\<bar> \<le> \<bar>a\<bar>"
proof -
  have q: "0 \<le> \<bar>a\<bar> div \<bar>b\<bar>" "\<bar>a\<bar> div \<bar>b\<bar> \<le> \<bar>a\<bar>"
    using zdiv_mono2 [of "\<bar>a\<bar>" 1 "\<bar>b\<bar>"]
    by (cases "b = 0"; simp add: pos_imp_zdiv_nonneg_iff)+
  show ?thesis
    using q by (cases a rule: linorder_cases [of _ 0]; cases b rule: linorder_cases [of _ 0])
      (simp_all add: trunc_div_def)
qed

section \<open>Decimal printing\<close>

definition digit_char :: "nat \<Rightarrow> char" where
  "digit_char d = ''0123456789'' ! d"

fun show_nat :: "nat \<Rightarrow> string" where
  "show_nat n = (if n < 10 then [digit_char n] else show_nat (n div 10) @ [digit_char (n mod 10)])"

declare show_nat.simps [simp del]

definition show_int :: "int \<Rightarrow> string" where
  "show_int z = (if z < 0 then CHR ''-'' # show_nat (nat (- z)) else show_nat (nat z))"

text \<open>\<open>format!\<close>: the literal pieces and printed arguments in order.\<close>

definition fmt :: "string list \<Rightarrow> string" where
  "fmt parts = concat parts"

definition quoted :: "string \<Rightarrow> string" where
  "quoted s = CHR 0x27 # s @ [CHR 0x27]"

definition show_bool :: "bool \<Rightarrow> string" where
  "show_bool b = (if b then ''true'' else ''false'')"

section \<open>Results with a state: the question-mark operator\<close>

text \<open>
  A method \<open>fn f(&mut self) -> Result<A, E>\<close> becomes a function into
  \<open>('e + 'a) \<times> 's\<close>: the result and the state it leaves, also when it fails.
  \<open>bnd\<close> runs the rest of the method on success and returns early on failure.
\<close>

definition bnd :: "('e + 'a) \<times> 's \<Rightarrow> ('a \<Rightarrow> 's \<Rightarrow> ('e + 'b) \<times> 's) \<Rightarrow> ('e + 'b) \<times> 's" where
  "bnd r k = (case fst r of Inl e \<Rightarrow> (Inl e, snd r) | Inr a \<Rightarrow> k a (snd r))"

lemma bnd_simps [simp, res_simps]:
  "bnd (Inl e, s) k = (Inl e, s)"
  "bnd (Inr a, s) k = k a s"
  by (simp_all add: bnd_def)

lemma bnd_commute:
  assumes "r' = map_prod id h r" "\<And>a s. k' a (h s) = map_prod id h (k a s)"
  shows "bnd r' k' = map_prod id h (bnd r k)"
  using assms by (cases r; cases "fst r") (auto simp: bnd_def)

lemma bnd_Inr_conv:
  "bnd r k = (Inr b, t) \<longleftrightarrow> (\<exists>a s. r = (Inr a, s) \<and> k a s = (Inr b, t))"
  by (cases r; cases "fst r") (auto simp: bnd_def)

lemma bnd_Inl_conv:
  "bnd r k = (Inl e, t) \<longleftrightarrow> r = (Inl e, t) \<or> (\<exists>a s. r = (Inr a, s) \<and> k a s = (Inl e, t))"
  by (cases r; cases "fst r") (auto simp: bnd_def)

lemma bnd_cases:
  assumes "bnd r k = res"
  obtains (fail) e s where "r = (Inl e, s)" "res = (Inl e, s)"
    | (ok) a s where "r = (Inr a, s)" "res = k a s"
  using assms by (cases r; cases "fst r") (auto simp: bnd_def)

text \<open>Early return of a \<open>Result\<close> whose computation does not touch the state.\<close>

definition lift_res :: "'e + 'a \<Rightarrow> 's \<Rightarrow> ('e + 'a) \<times> 's" where
  "lift_res r s = (r, s)"

lemma lift_res_simps [simp, res_simps]: "lift_res r s = (r, s)"
  by (simp add: lift_res_def)

text \<open>
  Weakest preconditions: \<open>post r Q E\<close> says that \<open>Q\<close> holds of the value and state of a success and
  \<open>E\<close> of the error and state of a failure. The equations compute it through \<open>bnd\<close>.
\<close>

named_theorems wp_simps \<open>weakest preconditions of the operations\<close>

definition post :: "('e + 'a) \<times> 's \<Rightarrow> ('a \<Rightarrow> 's \<Rightarrow> bool) \<Rightarrow> ('e \<Rightarrow> 's \<Rightarrow> bool) \<Rightarrow> bool" where
  "post r Q E \<longleftrightarrow> (case fst r of Inl e \<Rightarrow> E e (snd r) | Inr a \<Rightarrow> Q a (snd r))"

lemma post_simps [simp, wp_simps]:
  "post (Inl e, s) Q E \<longleftrightarrow> E e s"
  "post (Inr a, s) Q E \<longleftrightarrow> Q a s"
  "post (bnd r k) Q E \<longleftrightarrow> post r (\<lambda>a t. post (k a t) Q E) E"
  by (cases "fst r"; simp add: post_def bnd_def)+

lemma post_if [wp_simps]:
  "post (if c then r else r') Q E \<longleftrightarrow> (c \<longrightarrow> post r Q E) \<and> (\<not> c \<longrightarrow> post r' Q E)"
  by simp

lemma post_mono:
  assumes "post r Q E"
    and "\<And>a t. Q a t \<Longrightarrow> Q' a t" and "\<And>e t. E e t \<Longrightarrow> E' e t"
  shows "post r Q' E'"
  using assms by (auto simp: post_def split: sum.splits)

lemma post_conj:
  "post r (\<lambda>a t. Q a t \<and> Q' a t) (\<lambda>e t. E e t \<and> E' e t) \<longleftrightarrow> post r Q E \<and> post r Q' E'"
  by (auto simp: post_def split: sum.splits)

lemma post_Inr: "post r Q E \<Longrightarrow> r = (Inr a, t) \<Longrightarrow> Q a t"
  by (simp add: post_def)

lemma post_Inl: "post r Q E \<Longrightarrow> r = (Inl e, t) \<Longrightarrow> E e t"
  by (simp add: post_def)

section \<open>Vectors addressed by index\<close>

text \<open>
  A \<open>Vec<i64>\<close> used as addressable storage: its length and its elements. Only indices
  below the length are meaningful; the models check the bound where Rust would panic.
\<close>

record vec64 =
  vlen :: nat
  vget :: "nat \<Rightarrow> i64"

definition vec_repeat :: "i64 \<Rightarrow> nat \<Rightarrow> vec64" where
  "vec_repeat x n = \<lparr>vlen = n, vget = (\<lambda>_. x)\<rparr>"

definition vec_set :: "vec64 \<Rightarrow> nat \<Rightarrow> i64 \<Rightarrow> vec64" where
  "vec_set v i x = v\<lparr>vget := (vget v)(i := x)\<rparr>"

definition vec_extend :: "vec64 \<Rightarrow> i64 \<Rightarrow> nat \<Rightarrow> vec64" where
  "vec_extend v x n =
     \<lparr>vlen = vlen v + n,
      vget = (\<lambda>i. if vlen v \<le> i \<and> i < vlen v + n then x else vget v i)\<rparr>"

lemma vec_simps [simp]:
  "vlen (vec_repeat x n) = n"
  "vget (vec_repeat x n) i = x"
  "vlen (vec_set v i x) = vlen v"
  "vget (vec_set v i x) j = (if j = i then x else vget v j)"
  "vlen (vec_extend v x n) = vlen v + n"
  "vget (vec_extend v x n) j = (if vlen v \<le> j \<and> j < vlen v + n then x else vget v j)"
  by (simp_all add: vec_repeat_def vec_set_def vec_extend_def)

section \<open>Loops\<close>

text \<open>
  \<open>loop { .. }\<close> with a body that either returns (\<open>Inl\<close>) or goes on with a new state
  (\<open>Inr\<close>). \<open>None\<close> is a loop that never returns.
\<close>

partial_function (option) iterate :: "('s \<Rightarrow> 'r + 's) \<Rightarrow> 's \<Rightarrow> 'r option" where
  "iterate step s = (case step s of Inl r \<Rightarrow> Some r | Inr t \<Rightarrow> iterate step t)"

declare iterate.simps [code]

lemma iterate_Inl: "step s = Inl r \<Longrightarrow> iterate step s = Some r"
  by (simp add: iterate.simps)

lemma iterate_Inr: "step s = Inr t \<Longrightarrow> iterate step s = iterate step t"
  by (simp add: iterate.simps [of step s])

text \<open>Two loops whose bodies correspond step by step return corresponding results.\<close>

lemma iterate_map:
  assumes ret: "iterate step s = Some r" and corr: "\<And>s. step' (h s) = map_sum g h (step s)"
  shows "iterate step' (h s) = Some (g r)"
proof -
  have "step = step \<longrightarrow> iterate step' (h s) = Some (g r)"
  proof (rule iterate.raw_induct [where P = "\<lambda>st x y. st = step \<longrightarrow> iterate step' (h x) = Some (g y)", OF _ ret])
    fix iter st x y
    assume "\<And>x b y. iter x b = Some y \<Longrightarrow> x = step \<longrightarrow> iterate step' (h b) = Some (g y)"
      and "(case st x of Inl r \<Rightarrow> Some r | Inr t \<Rightarrow> iter st t) = Some y"
    then show "st = step \<longrightarrow> iterate step' (h x) = Some (g y)"
      using corr [of x] by (auto simp: iterate.simps [of step' "h x"] split: sum.splits)
  qed
  then show ?thesis by simp
qed

text \<open>
  Related loops: when the bodies take related states to related results or related states, one
  loop returns if and only if the other does, with related results.
\<close>

lemma iterate_rel_returns:
  assumes rel: "R s s'" and body: "\<And>s s'. R s s' \<Longrightarrow> rel_sum Q R (step s) (step' s')"
    and ret: "iterate step s = Some r"
  shows "\<exists>r'. iterate step' s' = Some r' \<and> Q r r'"
proof -
  have "step = step \<longrightarrow> (\<forall>s'. R s s' \<longrightarrow> (\<exists>r'. iterate step' s' = Some r' \<and> Q r r'))"
  proof (rule iterate.raw_induct [where P = "\<lambda>st x y. st = step \<longrightarrow>
           (\<forall>s'. R x s' \<longrightarrow> (\<exists>r'. iterate step' s' = Some r' \<and> Q y r'))", OF _ ret], intro impI allI)
    fix iter st x y s'
    assume IH: "\<And>st x y. iter st x = Some y \<Longrightarrow>
             st = step \<longrightarrow> (\<forall>s'. R x s' \<longrightarrow> (\<exists>r'. iterate step' s' = Some r' \<and> Q y r'))"
      and ret: "(case st x of Inl r \<Rightarrow> Some r | Inr t \<Rightarrow> iter st t) = Some y"
      and st: "st = step" and R: "R x s'"
    from body [OF R] show "\<exists>r'. iterate step' s' = Some r' \<and> Q y r'"
    proof (cases rule: rel_sum.cases)
      case (1 r r')
      with ret st have "y = r" by simp
      with 1 show ?thesis by (simp add: iterate_Inl)
    next
      case (2 t t')
      with IH ret st have "\<exists>r'. iterate step' t' = Some r' \<and> Q y r'" by auto
      with 2 show ?thesis by (simp add: iterate_Inr [of step' s' t'])
    qed
  qed
  with rel show ?thesis by simp
qed

lemma iterate_rel:
  assumes rel: "R s s'" and body: "\<And>s s'. R s s' \<Longrightarrow> rel_sum Q R (step s) (step' s')"
  shows "rel_option Q (iterate step s) (iterate step' s')"
proof (cases "iterate step s")
  case (Some r)
  from iterate_rel_returns [where R = R and Q = Q and step = step and step' = step', OF rel body this] show ?thesis by (auto simp: Some)
next
  case None
  have "rel_sum Q\<inverse>\<inverse> R\<inverse>\<inverse> (step' t') (step t)" if "R\<inverse>\<inverse> t' t" for t t'
    using body [of t t'] that by (auto elim!: rel_sum.cases intro: rel_sum.intros)
  from iterate_rel_returns [where R = "R\<inverse>\<inverse>" and Q = "Q\<inverse>\<inverse>" and step = step' and step' = step and
        s = s' and s' = s, OF _ this] rel None
  show ?thesis by (cases "iterate step' s'") auto
qed

text \<open>A bounded number of turns, for arguments that relate several turns at once.\<close>

primrec turns :: "('s \<Rightarrow> 'r + 's) \<Rightarrow> nat \<Rightarrow> 's \<Rightarrow> 'r + 's" where
  "turns step 0 s = Inr s"
| "turns step (Suc n) s = (case step s of Inl r \<Rightarrow> Inl r | Inr t \<Rightarrow> turns step n t)"

lemma turns_add:
  "turns step (m + n) s = (case turns step m s of Inl r \<Rightarrow> Inl r | Inr t \<Rightarrow> turns step n t)"
  by (induction m arbitrary: s) (auto split: sum.split)

lemma iterate_turns:
  "iterate step s = (case turns step n s of Inl r \<Rightarrow> Some r | Inr t \<Rightarrow> iterate step t)"
proof (induction n arbitrary: s)
  case (Suc n)
  show ?case
    by (subst iterate.simps) (cases "step s"; simp add: Suc [symmetric])
qed simp

lemma iterate_returns_turns: "iterate step s = Some r \<Longrightarrow> \<exists>n. turns step n s = Inl r"
proof -
  assume ret: "iterate step s = Some r"
  have "step = step \<longrightarrow> (\<exists>n. turns step n s = Inl r)"
  proof (rule iterate.raw_induct [where P = "\<lambda>st x y. st = step \<longrightarrow> (\<exists>n. turns step n x = Inl y)", OF _ ret],
      rule impI)
    fix iter st x y
    assume "\<And>st x y. iter st x = Some y \<Longrightarrow> st = step \<longrightarrow> (\<exists>n. turns step n x = Inl y)"
      and "(case st x of Inl r \<Rightarrow> Some r | Inr t \<Rightarrow> iter st t) = Some y" and "st = step"
    then obtain n where "(case step x of Inl r \<Rightarrow> Inl r | Inr t \<Rightarrow> turns step n t) = Inl y"
      by (cases "step x") force+
    then have "turns step (Suc n) x = Inl y" by simp
    then show "\<exists>n. turns step n x = Inl y" by blast
  qed
  then show ?thesis by simp
qed

text \<open>
  A loop that another follows several turns at a time, at least one of its own: when the first
  returns a result of interest, so does the second. The second may skip turns altogether.
\<close>

lemma iterate_simulation:
  assumes rel: "R s s'" and ret: "iterate step s = Some r"
    and body: "\<And>s s' n. R s s' \<Longrightarrow> turns step n s = Inl r \<Longrightarrow>
      (\<exists>r'. turns step' 1 s' = Inl r' \<and> Q r r') \<or>
      (\<exists>k t j t'. 0 < k \<and> turns step k s = Inr t \<and> turns step' j s' = Inr t' \<and> R t t')"
  shows "\<exists>r'. iterate step' s' = Some r' \<and> Q r r'"
proof -
  from ret obtain n where "turns step n s = Inl r" using iterate_returns_turns [OF ret] by blast
  with rel show ?thesis
  proof (induction n arbitrary: s s' rule: less_induct)
    case (less n)
    from body [OF less.prems] show ?case
    proof (elim disjE exE conjE)
      fix r'
      assume "turns step' 1 s' = Inl r'" "Q r r'"
      then show ?thesis using iterate_turns [of step' s' 1] by auto
    next
      fix k t j t'
      assume k: "0 < k" "turns step k s = Inr t" and j: "turns step' j s' = Inr t'" and R: "R t t'"
      have kn: "k < n"
      proof (rule ccontr)
        assume "\<not> k < n"
        then have "turns step k s = Inl r"
          using turns_add [of step n "k - n" s] less.prems(2) by simp
        with k show False by simp
      qed
      have "turns step (n - k) t = Inl r"
        using turns_add [of step k "n - k" s] less.prems(2) k kn by simp
      then have "\<exists>r'. iterate step' t' = Some r' \<and> Q r r'"
        using less.IH [of "n - k" t t'] R k kn by simp
      then show ?thesis using iterate_turns [of step' s' j] j by simp
    qed
  qed
qed

text \<open>
  A loop whose body keeps an invariant and spends a budget returns, and it returns
  from a state that satisfies the invariant.
\<close>

locale bounded_loop =
  fixes step :: "'s \<Rightarrow> 'r + 's"
    and inv :: "'s \<Rightarrow> bool"
    and budget :: "'s \<Rightarrow> nat"
  assumes inv_step: "inv s \<Longrightarrow> step s = Inr t \<Longrightarrow> inv t"
    and budget_step: "inv s \<Longrightarrow> step s = Inr t \<Longrightarrow> budget t < budget s"
begin

lemma exit_state: "inv s \<Longrightarrow> \<exists>t r. inv t \<and> step t = Inl r \<and> iterate step s = Some r"
proof (induction "budget s" arbitrary: s rule: less_induct)
  case less
  show ?case
  proof (cases "step s")
    case (Inl r)
    with less.prems show ?thesis by (auto simp: iterate_Inl)
  next
    case (Inr t)
    with less show ?thesis by (simp add: iterate_Inr inv_step budget_step)
  qed
qed

lemma returns: "inv s \<Longrightarrow> \<exists>r. iterate step s = Some r"
  using exit_state by blast

lemma returns_with:
  assumes "inv s" and "iterate step s = Some r"
  obtains t where "inv t" "step t = Inl r"
  using exit_state [OF assms(1)] assms(2) by auto

end

end
