(* ===== verification/Bytecode.thy ===== *)
theory Bytecode
  imports Prelude
begin

text \<open>
  Data shared by the compiler, the verifier, the optimiser and the machines: the resource
  limits (limits.rs), the trap codes (vm.rs), opcodes, instructions and the compiled program
  (compiler.rs), and the events of an execution trace (trace.rs).

  A \<open>HashMap\<close> is an association list: \<open>map_of\<close> is the lookup, and the order of the list is
  the iteration order, which Rust leaves unspecified; statements over all lists therefore
  hold for every iteration order.
\<close>

section \<open>Limits\<close>

definition MAX_GLOBAL_SLOTS :: nat where "MAX_GLOBAL_SLOTS = 256"
definition MAX_LOCAL_SLOTS :: nat where "MAX_LOCAL_SLOTS = 1024"
definition MAX_FRAMES :: nat where "MAX_FRAMES = 100"
definition MAX_OPERAND_STACK :: nat where "MAX_OPERAND_STACK = 1000"
definition MAX_CYCLES :: nat where "MAX_CYCLES = 100000"
definition MAX_INSTRUCTIONS :: nat where "MAX_INSTRUCTIONS = 10000"
definition GC_THRESHOLD :: nat where "GC_THRESHOLD = 8"

definition usize_max :: nat where "usize_max = 18446744073709551615"

lemmas limit_defs = MAX_GLOBAL_SLOTS_def MAX_LOCAL_SLOTS_def MAX_FRAMES_def
  MAX_OPERAND_STACK_def MAX_CYCLES_def MAX_INSTRUCTIONS_def GC_THRESHOLD_def

section \<open>Trap codes and errors\<close>

datatype trap_code =
    TrapNone
  | DivideByZero
  | UndefinedLocal
  | ArrayOutOfBounds
  | StackOverflow
  | CycleLimit
  | UndefinedFunction
  | StackUnderflow
  | InvalidInstruction

text \<open>
  The error of a machine operation: a trap with its message, or a Rust panic (an index out
  of range, an \<open>unwrap\<close> of \<open>None\<close>, an arithmetic overflow in a checked operation). Panics
  are no results of the program; the development proves where they cannot happen.
\<close>

datatype vm_error = Trap trap_code string | Panic string

section \<open>Opcodes and instructions\<close>

datatype opcode =
    Op_LoadConst | Op_LoadLocal | Op_StoreLocal | Op_LoadGlobal | Op_StoreGlobal
  | Op_Add | Op_Sub | Op_Mul | Op_Div | Op_Neg
  | Op_Eq | Op_Ne | Op_Lt | Op_Gt | Op_Le | Op_Ge
  | Op_And | Op_Or | Op_Not
  | Op_Jump | Op_JumpIfFalse | Op_JumpIfTrue
  | Op_Call | Op_Return
  | Op_ArrayLoad | Op_ArrayStore | Op_ArrayNew | Op_LocalArrayLoad | Op_LocalArrayStore
  | Op_AllocArray
  | Op_Print | Op_Pop | Op_Dup | Op_Halt

record instruction =
  opcode :: opcode
  arg1 :: i32
  arg2 :: i32

definition Instruction_new :: "opcode \<Rightarrow> i32 \<Rightarrow> i32 \<Rightarrow> instruction" where
  "Instruction_new op a b = \<lparr>opcode = op, arg1 = a, arg2 = b\<rparr>"

definition Instruction_simple :: "opcode \<Rightarrow> instruction" where
  "Instruction_simple op = Instruction_new op 0 0"

lemma Instruction_simps [simp]:
  "opcode (Instruction_new op a b) = op"
  "arg1 (Instruction_new op a b) = a"
  "arg2 (Instruction_new op a b) = b"
  "opcode (Instruction_simple op) = op"
  "arg1 (Instruction_simple op) = 0"
  "arg2 (Instruction_simple op) = 0"
  by (simp_all add: Instruction_new_def Instruction_simple_def)

text \<open>\<open>format!("{:?}", opcode)\<close>.\<close>

fun opcode_name :: "opcode \<Rightarrow> string" where
  "opcode_name Op_LoadConst = ''LoadConst''"
| "opcode_name Op_LoadLocal = ''LoadLocal''"
| "opcode_name Op_StoreLocal = ''StoreLocal''"
| "opcode_name Op_LoadGlobal = ''LoadGlobal''"
| "opcode_name Op_StoreGlobal = ''StoreGlobal''"
| "opcode_name Op_Add = ''Add''"
| "opcode_name Op_Sub = ''Sub''"
| "opcode_name Op_Mul = ''Mul''"
| "opcode_name Op_Div = ''Div''"
| "opcode_name Op_Neg = ''Neg''"
| "opcode_name Op_Eq = ''Eq''"
| "opcode_name Op_Ne = ''Ne''"
| "opcode_name Op_Lt = ''Lt''"
| "opcode_name Op_Gt = ''Gt''"
| "opcode_name Op_Le = ''Le''"
| "opcode_name Op_Ge = ''Ge''"
| "opcode_name Op_And = ''And''"
| "opcode_name Op_Or = ''Or''"
| "opcode_name Op_Not = ''Not''"
| "opcode_name Op_Jump = ''Jump''"
| "opcode_name Op_JumpIfFalse = ''JumpIfFalse''"
| "opcode_name Op_JumpIfTrue = ''JumpIfTrue''"
| "opcode_name Op_Call = ''Call''"
| "opcode_name Op_Return = ''Return''"
| "opcode_name Op_ArrayLoad = ''ArrayLoad''"
| "opcode_name Op_ArrayStore = ''ArrayStore''"
| "opcode_name Op_ArrayNew = ''ArrayNew''"
| "opcode_name Op_LocalArrayLoad = ''LocalArrayLoad''"
| "opcode_name Op_LocalArrayStore = ''LocalArrayStore''"
| "opcode_name Op_AllocArray = ''AllocArray''"
| "opcode_name Op_Print = ''Print''"
| "opcode_name Op_Pop = ''Pop''"
| "opcode_name Op_Dup = ''Dup''"
| "opcode_name Op_Halt = ''Halt''"

section \<open>Compiled programs\<close>

record function_info =
  fi_name :: string
  fi_id :: usize
  entry_pc :: usize
  param_count :: usize
  local_count :: usize

record global_info =
  gi_name :: string
  gi_slot :: usize
  gi_is_array :: bool
  gi_array_size :: usize

record compiled_program =
  instructions :: "instruction list"
  prog_functions :: "(usize \<times> function_info) list"
  prog_globals :: "(string \<times> global_info) list"
  main_func_id :: usize
  prog_constants :: "i32 list"

definition fun_lookup :: "compiled_program \<Rightarrow> usize \<Rightarrow> function_info option" where
  "fun_lookup p i = map_of (prog_functions p) i"

section \<open>Trace events\<close>

datatype trace_outcome = OContinue | OJump | OExit | OTrap trap_code string

record trace_event =
  ev_cycle :: nat
  ev_pc :: usize
  ev_opcode :: string
  ev_arg1 :: i32
  ev_arg2 :: i32
  ev_stack_before :: "i64 list"
  ev_stack_after :: "i64 list"
  ev_frame_depth_before :: usize
  ev_frame_depth_after :: usize
  ev_next_pc :: usize
  ev_outcome :: trace_outcome

end
