(* ===== verification/Vm.thy ===== *)
theory Vm
  imports Bytecode
begin

text \<open>
  The reference stack machine (vm.rs). A \<open>vm\<close> record holds the fields of \<open>struct Vm\<close> that
  execution reads or writes; the program is a parameter, as \<open>&CompiledProgram\<close> is. The operand
  stack and the call stack are lists with the top first (the trace prints the operand stack in
  the order of the Rust vector). The unused \<open>allocator\<close> and \<open>gc\<close> fields, the \<open>debug\<close> output to
  stderr and the echo of \<open>Print\<close> to stdout are left out.
\<close>

section \<open>State\<close>

record call_frame =
  return_pc :: usize
  base_ptr :: usize
  frame_func :: usize

record vm =
  vm_stack :: "i64 list"
  vm_locals :: vec64
  vm_globals :: vec64
  vm_calls :: "call_frame list"
  vm_pc :: usize
  vm_cycles :: nat
  vm_max_cycles :: nat
  vm_output :: "string list"
  vm_trace :: "trace_event list option"

record vm_result =
  success :: bool
  return_value :: i64
  trap_code :: trap_code
  trap_message :: string
  res_cycles :: nat
  res_output :: "string list"
  res_pc :: usize
  stack_depth :: usize
  frame_depth :: usize

record trace_step =
  ts_pc :: usize
  ts_opcode :: opcode
  ts_arg1 :: i32
  ts_arg2 :: i32
  ts_stack_before :: "i64 list option"
  ts_frame_depth_before :: usize

type_synonym 'a vm_res = "(vm_error + 'a) \<times> vm"

definition vm_new :: vm where
  "vm_new =
     \<lparr>vm_stack = [], vm_locals = vec_repeat i64_min MAX_LOCAL_SLOTS,
      vm_globals = vec_repeat 0 MAX_GLOBAL_SLOTS, vm_calls = [], vm_pc = 0, vm_cycles = 0,
      vm_max_cycles = MAX_CYCLES, vm_output = [], vm_trace = None\<rparr>"

definition with_max_cycles :: "nat \<Rightarrow> vm \<Rightarrow> vm" where
  "with_max_cycles m s = s\<lparr>vm_max_cycles := m\<rparr>"

definition with_trace :: "vm \<Rightarrow> vm" where
  "with_trace s = s\<lparr>vm_trace := Some []\<rparr>"

definition trace_events :: "vm \<Rightarrow> trace_event list" where
  "trace_events s = (case vm_trace s of None \<Rightarrow> [] | Some events \<Rightarrow> events)"

text \<open>\<open>make_trap_result\<close> moves the output buffer out of the machine.\<close>

definition make_trap_result :: "trap_code \<Rightarrow> string \<Rightarrow> vm \<Rightarrow> vm_result \<times> vm" where
  "make_trap_result code msg s =
     (\<lparr>success = False, return_value = 0, trap_code = code, trap_message = msg,
       res_cycles = vm_cycles s, res_output = vm_output s, res_pc = vm_pc s,
       stack_depth = length (vm_stack s), frame_depth = length (vm_calls s)\<rparr>,
      s\<lparr>vm_output := []\<rparr>)"

section \<open>Operand stack and storage\<close>

definition pop :: "vm \<Rightarrow> i64 vm_res" where
  "pop s = (case vm_stack s of
     [] \<Rightarrow> (Inl (Trap StackUnderflow ''Stack underflow''), s)
   | v # st \<Rightarrow> (Inr v, s\<lparr>vm_stack := st\<rparr>))"

definition push :: "i64 \<Rightarrow> vm \<Rightarrow> unit vm_res" where
  "push v s =
     (if length (vm_stack s) \<ge> MAX_OPERAND_STACK
      then (Inl (Trap StackOverflow
              (fmt [''Operand stack overflow (max '', show_nat MAX_OPERAND_STACK,
                    '' entries)''])), s)
      else (Inr (), s\<lparr>vm_stack := v # vm_stack s\<rparr>))"

definition locals_get :: "vm \<Rightarrow> nat \<Rightarrow> vm_error + i64" where
  "locals_get s i = (if i < vlen (vm_locals s) then Inr (vget (vm_locals s) i)
                     else Inl (Panic ''index out of bounds''))"

definition locals_set :: "nat \<Rightarrow> i64 \<Rightarrow> vm \<Rightarrow> unit vm_res" where
  "locals_set i x s = (if i < vlen (vm_locals s)
                       then (Inr (), s\<lparr>vm_locals := vec_set (vm_locals s) i x\<rparr>)
                       else (Inl (Panic ''index out of bounds''), s))"

definition globals_get :: "vm \<Rightarrow> nat \<Rightarrow> vm_error + i64" where
  "globals_get s i = (if i < vlen (vm_globals s) then Inr (vget (vm_globals s) i)
                      else Inl (Panic ''index out of bounds''))"

definition globals_set :: "nat \<Rightarrow> i64 \<Rightarrow> vm \<Rightarrow> unit vm_res" where
  "globals_set i x s = (if i < vlen (vm_globals s)
                        then (Inr (), s\<lparr>vm_globals := vec_set (vm_globals s) i x\<rparr>)
                        else (Inl (Panic ''index out of bounds''), s))"

definition current_local_slot :: "compiled_program \<Rightarrow> i32 \<Rightarrow> vm \<Rightarrow> vm_error + usize" where
  "current_local_slot p raw_slot s =
     (if raw_slot < 0
      then Inl (Trap InvalidInstruction (fmt [''Negative local slot '', show_int raw_slot]))
      else case vm_calls s of
        [] \<Rightarrow> Inl (Trap InvalidInstruction ''No active call frame'')
      | frame # _ \<Rightarrow>
          (let relative_slot = nat raw_slot in
           case fun_lookup p (frame_func frame) of
             None \<Rightarrow> Inl (Trap UndefinedFunction
                       (fmt [''Undefined function '', show_nat (frame_func frame)]))
           | Some func \<Rightarrow>
               if relative_slot \<ge> local_count func
               then Inl (Trap InvalidInstruction
                      (fmt [''Local slot '', show_nat relative_slot,
                            '' out of range for function '', show_nat (frame_func frame), '' ('',
                            show_nat (local_count func), '' locals)'']))
               else case checked_add (base_ptr frame) relative_slot of
                 None \<Rightarrow> Inl (Trap StackOverflow ''Local slot overflow'')
               | Some slot \<Rightarrow>
                   if slot \<ge> MAX_LOCAL_SLOTS
                   then Inl (Trap StackOverflow
                          (fmt [''Local storage overflow (slot '', show_nat slot, '', max '',
                                show_nat MAX_LOCAL_SLOTS, '')'']))
                   else Inr slot))"

definition global_slot :: "i32 \<Rightarrow> vm \<Rightarrow> vm_error + usize" where
  "global_slot raw_slot s =
     (if raw_slot < 0
      then Inl (Trap InvalidInstruction (fmt [''Negative global slot '', show_int raw_slot]))
      else let slot = nat raw_slot in
        if slot \<ge> vlen (vm_globals s)
        then Inl (Trap InvalidInstruction
               (fmt [''Global slot '', show_nat slot, '' out of range ('',
                     show_nat (vlen (vm_globals s)), '' slots)'']))
        else Inr slot)"

definition array_size :: "i32 \<Rightarrow> vm_error + usize" where
  "array_size raw_size =
     (if raw_size < 0
      then Inl (Trap InvalidInstruction (fmt [''Negative array size '', show_int raw_size]))
      else Inr (nat raw_size))"

definition array_index :: "i64 \<Rightarrow> usize \<Rightarrow> vm_error + usize" where
  "array_index raw_index sz =
     (if raw_index < 0
      then Inl (Trap ArrayOutOfBounds
             (fmt [''Array index '', show_int raw_index, '' out of bounds (size '', show_nat sz,
                   '')'']))
      else let index = nat raw_index in
        if index \<ge> sz
        then Inl (Trap ArrayOutOfBounds
               (fmt [''Array index '', show_nat index, '' out of bounds (size '', show_nat sz,
                     '')'']))
        else Inr index)"

definition global_array_range :: "i32 \<Rightarrow> i32 \<Rightarrow> vm \<Rightarrow> vm_error + (usize \<times> usize)" where
  "global_array_range raw_base_slot raw_array_size s =
     (case global_slot raw_base_slot s of
        Inl e \<Rightarrow> Inl e
      | Inr base_slot \<Rightarrow>
          (case array_size raw_array_size of
             Inl e \<Rightarrow> Inl e
           | Inr sz \<Rightarrow>
               (case checked_add base_slot sz of
                  None \<Rightarrow> Inl (Trap InvalidInstruction ''Global array range overflow'')
                | Some range_end \<Rightarrow>
                    if range_end > vlen (vm_globals s)
                    then Inl (Trap InvalidInstruction
                           (fmt [''Global array range ['', show_nat base_slot, ''..'',
                                 show_nat range_end, '') exceeds '',
                                 show_nat (vlen (vm_globals s)), '' global slots'']))
                    else Inr (base_slot, sz))))"

definition local_array_base :: "usize \<Rightarrow> usize \<Rightarrow> vm \<Rightarrow> vm_error + usize" where
  "local_array_base ref_slot sz s =
     (case locals_get s ref_slot of
        Inl e \<Rightarrow> Inl e
      | Inr raw_base \<Rightarrow>
          if raw_base = i64_min
          then Inl (Trap UndefinedLocal (fmt [''Undefined local at slot '', show_nat ref_slot]))
          else if raw_base < 0
          then Inl (Trap InvalidInstruction (fmt [''Invalid local array base '',
                                                  show_int raw_base]))
          else let array_base = nat raw_base in
            (case checked_add array_base sz of
               None \<Rightarrow> Inl (Trap InvalidInstruction ''Local array range overflow'')
             | Some range_end \<Rightarrow>
                 if range_end > vlen (vm_locals s)
                 then Inl (Trap InvalidInstruction
                        (fmt [''Local array range ['', show_nat array_base, ''..'',
                              show_nat range_end, '') exceeds '', show_nat (vlen (vm_locals s)),
                              '' local slots'']))
                 else Inr array_base))"

section \<open>Instructions\<close>

text \<open>\<open>Ok(true)\<close> means: go on at the next instruction; \<open>Ok(false)\<close>: the program counter is set.\<close>

definition push_next :: "i64 \<Rightarrow> vm \<Rightarrow> bool vm_res" where
  "push_next v s = bnd (push v s) (\<lambda>_ s. (Inr True, s))"

definition binary_op :: "(i64 \<Rightarrow> i64 \<Rightarrow> i64) \<Rightarrow> vm \<Rightarrow> bool vm_res" where
  "binary_op f s =
     bnd (pop s) (\<lambda>b s.
     bnd (pop s) (\<lambda>a s.
     push_next (f a b) s))"

definition unary_op :: "(i64 \<Rightarrow> i64) \<Rightarrow> vm \<Rightarrow> bool vm_res" where
  "unary_op f s = bnd (pop s) (\<lambda>a s. push_next (f a) s)"

definition truth :: "bool \<Rightarrow> i64" where
  "truth b = (if b then 1 else 0)"

definition exec_load_local :: "compiled_program \<Rightarrow> i32 \<Rightarrow> vm \<Rightarrow> bool vm_res" where
  "exec_load_local p a1 s =
     bnd (lift_res (current_local_slot p a1 s) s) (\<lambda>slot s.
     bnd (lift_res (locals_get s slot) s) (\<lambda>v s.
     if v = i64_min
     then (Inl (Trap UndefinedLocal (fmt [''Undefined local at slot '', show_int a1])), s)
     else push_next v s))"

definition exec_store_local :: "compiled_program \<Rightarrow> i32 \<Rightarrow> vm \<Rightarrow> bool vm_res" where
  "exec_store_local p a1 s =
     bnd (pop s) (\<lambda>v s.
     bnd (lift_res (current_local_slot p a1 s) s) (\<lambda>slot s.
     bnd (locals_set slot v s) (\<lambda>_ s. (Inr True, s))))"

definition exec_load_global :: "i32 \<Rightarrow> vm \<Rightarrow> bool vm_res" where
  "exec_load_global a1 s =
     bnd (lift_res (global_slot a1 s) s) (\<lambda>slot s.
     bnd (lift_res (globals_get s slot) s) (\<lambda>v s.
     push_next v s))"

definition exec_store_global :: "i32 \<Rightarrow> vm \<Rightarrow> bool vm_res" where
  "exec_store_global a1 s =
     bnd (lift_res (global_slot a1 s) s) (\<lambda>slot s.
     bnd (pop s) (\<lambda>v s.
     bnd (globals_set slot v s) (\<lambda>_ s. (Inr True, s))))"

text \<open>
  \<open>i64::MIN / -1\<close> panics in every Rust build; \<open>-i64::MIN\<close> panics in builds with overflow checks.
\<close>

definition exec_div :: "vm \<Rightarrow> bool vm_res" where
  "exec_div s =
     bnd (pop s) (\<lambda>b s.
     bnd (pop s) (\<lambda>a s.
     if b = 0 then (Inl (Trap DivideByZero ''Division by zero''), s)
     else if a = i64_min \<and> b = - 1
     then (Inl (Panic ''attempt to divide with overflow''), s)
     else push_next (normalize_i32 (trunc_div a b)) s))"

definition exec_neg :: "vm \<Rightarrow> bool vm_res" where
  "exec_neg s =
     bnd (pop s) (\<lambda>a s.
     if a = i64_min then (Inl (Panic ''attempt to negate with overflow''), s)
     else push_next (normalize_i32 (- a)) s)"

definition jump_to :: "i32 \<Rightarrow> vm \<Rightarrow> bool vm_res" where
  "jump_to a1 s = (Inr False, s\<lparr>vm_pc := as_usize a1\<rparr>)"

definition exec_jump_if :: "(i64 \<Rightarrow> bool) \<Rightarrow> i32 \<Rightarrow> vm \<Rightarrow> bool vm_res" where
  "exec_jump_if taken a1 s =
     bnd (pop s) (\<lambda>cond s. if taken cond then jump_to a1 s else (Inr True, s))"

text \<open>
  The argument loop of \<open>Call\<close> runs over \<open>(0..arg_count).rev()\<close>: the last argument is on top.
\<close>

fun copy_args :: "nat \<Rightarrow> nat \<Rightarrow> vm \<Rightarrow> unit vm_res" where
  "copy_args new_base 0 s = (Inr (), s)"
| "copy_args new_base (Suc i) s =
     bnd (pop s) (\<lambda>arg s.
     bnd (locals_set (new_base + i) arg s) (\<lambda>_ s.
     copy_args new_base i s))"

fun clear_locals :: "nat list \<Rightarrow> nat \<Rightarrow> vm \<Rightarrow> unit vm_res" where
  "clear_locals [] new_base s = (Inr (), s)"
| "clear_locals (i # is) new_base s =
     bnd (locals_set (new_base + i) i64_min s) (\<lambda>_ s. clear_locals is new_base s)"

definition caller_base :: "vm \<Rightarrow> nat" where
  "caller_base s = (case vm_calls s of [] \<Rightarrow> 0 | f # _ \<Rightarrow> base_ptr f)"

definition caller_locals :: "compiled_program \<Rightarrow> vm \<Rightarrow> nat" where
  "caller_locals p s =
     (case fun_lookup p (case vm_calls s of [] \<Rightarrow> 0 | f # _ \<Rightarrow> frame_func f) of
        None \<Rightarrow> 0 | Some f \<Rightarrow> local_count f)"

definition enter_function :: "compiled_program \<Rightarrow> usize \<Rightarrow> usize \<Rightarrow> function_info \<Rightarrow> vm \<Rightarrow> bool vm_res" where
  "enter_function p func_id arg_count func s =
     (let new_base = caller_base s + caller_locals p s in
      case checked_add new_base (local_count func) of
        None \<Rightarrow> (Inl (Trap StackOverflow ''Local storage overflow''), s)
      | Some required_locals \<Rightarrow>
          if required_locals > MAX_LOCAL_SLOTS
          then (Inl (Trap StackOverflow
                  (fmt [''Local storage overflow (need '', show_nat required_locals, '' slots, max '',
                        show_nat MAX_LOCAL_SLOTS, '')''])), s)
          else
            bnd (copy_args new_base arg_count s) (\<lambda>_ s.
            bnd (clear_locals [arg_count..<local_count func] new_base s) (\<lambda>_ s.
            (Inr False,
             s\<lparr>vm_calls := \<lparr>return_pc = vm_pc s + 1, base_ptr = new_base, frame_func = func_id\<rparr>
                            # vm_calls s,
               vm_pc := entry_pc func\<rparr>))))"

definition exec_call :: "compiled_program \<Rightarrow> i32 \<Rightarrow> i32 \<Rightarrow> vm \<Rightarrow> bool vm_res" where
  "exec_call p a1 a2 s =
     (if a1 < 0
      then (Inl (Trap InvalidInstruction (fmt [''Negative function id '', show_int a1])), s)
      else if a2 < 0
      then (Inl (Trap InvalidInstruction (fmt [''Negative call argument count '', show_int a2])), s)
      else let func_id = nat a1; arg_count = nat a2 in
        case fun_lookup p func_id of
          None \<Rightarrow> (Inl (Trap UndefinedFunction (fmt [''Undefined function '',
                                                            show_nat func_id])), s)
        | Some func \<Rightarrow>
            if arg_count \<noteq> param_count func
            then (Inl (Trap InvalidInstruction
                    (fmt [''Call has '', show_nat arg_count, '' arguments but function '',
                          show_nat func_id, '' expects '', show_nat (param_count func)])), s)
            else if length (vm_calls s) \<ge> MAX_FRAMES
            then (Inl (Trap StackOverflow
                    (fmt [''Call stack overflow (max '', show_nat MAX_FRAMES, '' frames)''])), s)
            else enter_function p func_id arg_count func s)"

definition exec_return :: "vm \<Rightarrow> bool vm_res" where
  "exec_return s =
     bnd (pop s) (\<lambda>v s.
     case vm_calls s of
       [] \<Rightarrow> (Inl (Panic ''called Option::unwrap() on a None value''), s)
     | frame # rest \<Rightarrow>
         (let s = s\<lparr>vm_calls := rest\<rparr> in
          if return_pc frame = usize_max
          then bnd (push v s) (\<lambda>_ s. (Inr False, s))
          else bnd (push v s) (\<lambda>_ s. (Inr False, s\<lparr>vm_pc := return_pc frame\<rparr>))))"

definition exec_array_load :: "i32 \<Rightarrow> i32 \<Rightarrow> vm \<Rightarrow> bool vm_res" where
  "exec_array_load a1 a2 s =
     bnd (lift_res (global_array_range a1 a2 s) s) (\<lambda>range s.
     bnd (pop s) (\<lambda>raw s.
     bnd (lift_res (array_index raw (snd range)) s) (\<lambda>index s.
     bnd (lift_res (globals_get s (fst range + index)) s) (\<lambda>v s.
     push_next v s))))"

definition exec_array_store :: "i32 \<Rightarrow> i32 \<Rightarrow> vm \<Rightarrow> bool vm_res" where
  "exec_array_store a1 a2 s =
     bnd (lift_res (global_array_range a1 a2 s) s) (\<lambda>range s.
     bnd (pop s) (\<lambda>v s.
     bnd (pop s) (\<lambda>raw s.
     bnd (lift_res (array_index raw (snd range)) s) (\<lambda>index s.
     bnd (globals_set (fst range + index) v s) (\<lambda>_ s. (Inr True, s))))))"

definition exec_local_array_load :: "compiled_program \<Rightarrow> i32 \<Rightarrow> i32 \<Rightarrow> vm \<Rightarrow> bool vm_res" where
  "exec_local_array_load p a1 a2 s =
     bnd (lift_res (array_size a2) s) (\<lambda>sz s.
     bnd (pop s) (\<lambda>raw s.
     bnd (lift_res (array_index raw sz) s) (\<lambda>index s.
     bnd (lift_res (current_local_slot p a1 s) s) (\<lambda>ref_slot s.
     bnd (lift_res (local_array_base ref_slot sz s) s) (\<lambda>array_base s.
     bnd (lift_res (locals_get s (array_base + index)) s) (\<lambda>v s.
     push_next v s))))))"

definition exec_local_array_store :: "compiled_program \<Rightarrow> i32 \<Rightarrow> i32 \<Rightarrow> vm \<Rightarrow> bool vm_res" where
  "exec_local_array_store p a1 a2 s =
     bnd (lift_res (array_size a2) s) (\<lambda>sz s.
     bnd (pop s) (\<lambda>v s.
     bnd (pop s) (\<lambda>raw s.
     bnd (lift_res (array_index raw sz) s) (\<lambda>index s.
     bnd (lift_res (current_local_slot p a1 s) s) (\<lambda>ref_slot s.
     bnd (lift_res (local_array_base ref_slot sz s) s) (\<lambda>array_base s.
     bnd (locals_set (array_base + index) v s) (\<lambda>_ s. (Inr True, s))))))))"

definition exec_alloc_array :: "i32 \<Rightarrow> vm \<Rightarrow> bool vm_res" where
  "exec_alloc_array a1 s =
     bnd (lift_res (array_size a1) s) (\<lambda>sz s.
     let base = vlen (vm_locals s);
         s = s\<lparr>vm_locals := vec_extend (vm_locals s) 0 sz\<rparr>
     in push_next (int base) s)"

definition exec_print :: "vm \<Rightarrow> bool vm_res" where
  "exec_print s =
     bnd (pop s) (\<lambda>v s.
     (Inr True, s\<lparr>vm_output := vm_output s @ [fmt [''OUTPUT: '', show_int v]]\<rparr>))"

definition exec_pop :: "vm \<Rightarrow> bool vm_res" where
  "exec_pop s = bnd (pop s) (\<lambda>_ s. (Inr True, s))"

definition exec_dup :: "vm \<Rightarrow> bool vm_res" where
  "exec_dup s = (case vm_stack s of
     [] \<Rightarrow> (Inl (Trap StackUnderflow ''Stack underflow''), s)
   | v # _ \<Rightarrow> push_next v s)"

definition take_top :: "vm \<Rightarrow> i64 \<times> vm" where
  "take_top s = (case vm_stack s of [] \<Rightarrow> (0, s) | v # st \<Rightarrow> (v, s\<lparr>vm_stack := st\<rparr>))"

definition exec_halt :: "vm \<Rightarrow> bool vm_res" where
  "exec_halt s =
     (let r = take_top s; s = (snd r)\<lparr>vm_calls := []\<rparr>
      in bnd (push (fst r) s) (\<lambda>_ s. (Inr False, s)))"

fun execute_instruction :: "compiled_program \<Rightarrow> opcode \<Rightarrow> i32 \<Rightarrow> i32 \<Rightarrow> vm \<Rightarrow> bool vm_res" where
  "execute_instruction p Op_LoadConst a1 a2 s = push_next a1 s"
| "execute_instruction p Op_LoadLocal a1 a2 s = exec_load_local p a1 s"
| "execute_instruction p Op_StoreLocal a1 a2 s = exec_store_local p a1 s"
| "execute_instruction p Op_LoadGlobal a1 a2 s = exec_load_global a1 s"
| "execute_instruction p Op_StoreGlobal a1 a2 s = exec_store_global a1 s"
| "execute_instruction p Op_Add a1 a2 s = binary_op (\<lambda>a b. normalize_i32 (wrap64 (a + b))) s"
| "execute_instruction p Op_Sub a1 a2 s = binary_op (\<lambda>a b. normalize_i32 (wrap64 (a - b))) s"
| "execute_instruction p Op_Mul a1 a2 s = binary_op (\<lambda>a b. normalize_i32 (wrap64 (a * b))) s"
| "execute_instruction p Op_Div a1 a2 s = exec_div s"
| "execute_instruction p Op_Neg a1 a2 s = exec_neg s"
| "execute_instruction p Op_Eq a1 a2 s = binary_op (\<lambda>a b. truth (a = b)) s"
| "execute_instruction p Op_Ne a1 a2 s = binary_op (\<lambda>a b. truth (a \<noteq> b)) s"
| "execute_instruction p Op_Lt a1 a2 s = binary_op (\<lambda>a b. truth (a < b)) s"
| "execute_instruction p Op_Gt a1 a2 s = binary_op (\<lambda>a b. truth (a > b)) s"
| "execute_instruction p Op_Le a1 a2 s = binary_op (\<lambda>a b. truth (a \<le> b)) s"
| "execute_instruction p Op_Ge a1 a2 s = binary_op (\<lambda>a b. truth (a \<ge> b)) s"
| "execute_instruction p Op_And a1 a2 s = binary_op (\<lambda>a b. truth (a \<noteq> 0 \<and> b \<noteq> 0)) s"
| "execute_instruction p Op_Or a1 a2 s = binary_op (\<lambda>a b. truth (a \<noteq> 0 \<or> b \<noteq> 0)) s"
| "execute_instruction p Op_Not a1 a2 s = unary_op (\<lambda>a. truth (a = 0)) s"
| "execute_instruction p Op_Jump a1 a2 s = jump_to a1 s"
| "execute_instruction p Op_JumpIfFalse a1 a2 s = exec_jump_if (\<lambda>c. c = 0) a1 s"
| "execute_instruction p Op_JumpIfTrue a1 a2 s = exec_jump_if (\<lambda>c. c \<noteq> 0) a1 s"
| "execute_instruction p Op_Call a1 a2 s = exec_call p a1 a2 s"
| "execute_instruction p Op_Return a1 a2 s = exec_return s"
| "execute_instruction p Op_ArrayLoad a1 a2 s = exec_array_load a1 a2 s"
| "execute_instruction p Op_ArrayStore a1 a2 s = exec_array_store a1 a2 s"
| "execute_instruction p Op_LocalArrayLoad a1 a2 s = exec_local_array_load p a1 a2 s"
| "execute_instruction p Op_LocalArrayStore a1 a2 s = exec_local_array_store p a1 a2 s"
| "execute_instruction p Op_AllocArray a1 a2 s = exec_alloc_array a1 s"
| "execute_instruction p Op_ArrayNew a1 a2 s = exec_alloc_array a1 s"
| "execute_instruction p Op_Print a1 a2 s = exec_print s"
| "execute_instruction p Op_Pop a1 a2 s = exec_pop s"
| "execute_instruction p Op_Dup a1 a2 s = exec_dup s"
| "execute_instruction p Op_Halt a1 a2 s = exec_halt s"

section \<open>Validation and the run loop\<close>

definition validate_function :: "function_info \<Rightarrow> (trap_code \<times> string) option" where
  "validate_function func =
     (if param_count func > local_count func
      then Some (InvalidInstruction,
             fmt [''Function '', quoted (fi_name func), '' has '', show_nat (param_count func),
                  '' parameters but only '', show_nat (local_count func), '' local slots''])
      else if local_count func > MAX_LOCAL_SLOTS
      then Some (StackOverflow,
             fmt [''Function '', quoted (fi_name func), '' needs '', show_nat (local_count func),
                  '' local slots, max '', show_nat MAX_LOCAL_SLOTS])
      else None)"

fun first_error :: "('a \<Rightarrow> 'e option) \<Rightarrow> 'a list \<Rightarrow> 'e option" where
  "first_error f [] = None"
| "first_error f (x # xs) = (case f x of Some e \<Rightarrow> Some e | None \<Rightarrow> first_error f xs)"

fun required_global_slots :: "global_info list \<Rightarrow> nat \<Rightarrow> (trap_code \<times> string) + usize" where
  "required_global_slots [] max_slot = Inr max_slot"
| "required_global_slots (info # infos) max_slot =
     (if gi_is_array info \<and> gi_array_size info = 0
      then Inl (InvalidInstruction,
             fmt [''Global array '', quoted (gi_name info), '' has zero size''])
      else let width = (if gi_is_array info then gi_array_size info else 1) in
        case checked_add (gi_slot info) width of
          None \<Rightarrow> Inl (InvalidInstruction, ''Global storage range overflow'')
        | Some range_end \<Rightarrow> required_global_slots infos (max max_slot range_end))"

definition validate_program :: "compiled_program \<Rightarrow> (trap_code \<times> string) option" where
  "validate_program p =
     (if length (instructions p) > MAX_INSTRUCTIONS
      then Some (InvalidInstruction,
             fmt [''Instruction count '', show_nat (length (instructions p)),
                  '' exceeds limit '', show_nat MAX_INSTRUCTIONS])
      else case first_error validate_function (map snd (prog_functions p)) of
        Some e \<Rightarrow> Some e
      | None \<Rightarrow>
          (case required_global_slots (map snd (prog_globals p)) 0 of
             Inl e \<Rightarrow> Some e
           | Inr global_slots \<Rightarrow>
               if global_slots > MAX_GLOBAL_SLOTS
               then Some (InvalidInstruction,
                      fmt [''Global storage exceeds '', show_nat MAX_GLOBAL_SLOTS,
                           '' slots (needs '', show_nat global_slots, '')''])
               else None))"

definition record_trace :: "trace_step \<Rightarrow> trace_outcome \<Rightarrow> vm \<Rightarrow> vm" where
  "record_trace st outcome s =
     (case vm_trace s of
        None \<Rightarrow> s
      | Some events \<Rightarrow> s\<lparr>vm_trace := Some (events @
          [\<lparr>ev_cycle = vm_cycles s, ev_pc = ts_pc st, ev_opcode = opcode_name (ts_opcode st),
            ev_arg1 = ts_arg1 st, ev_arg2 = ts_arg2 st,
            ev_stack_before = (case ts_stack_before st of None \<Rightarrow> [] | Some xs \<Rightarrow> xs),
            ev_stack_after = rev (vm_stack s),
            ev_frame_depth_before = ts_frame_depth_before st,
            ev_frame_depth_after = length (vm_calls s),
            ev_next_pc = vm_pc s, ev_outcome = outcome\<rparr>])\<rparr>)"

text \<open>
  How a run ends: with a \<open>VmResult\<close> (\<open>Inr\<close>) or in a panic (\<open>Inl\<close>), together with the machine it
  leaves behind.
\<close>

type_synonym vm_exit = "(string + vm_result) \<times> vm"

definition finish :: "vm_result \<times> vm \<Rightarrow> vm_exit" where
  "finish r = (Inr (fst r), snd r)"

definition exit_result :: "vm \<Rightarrow> vm_result \<times> vm" where
  "exit_result s =
     (let r = take_top s; s = snd r
      in (\<lparr>success = True, return_value = fst r, trap_code = TrapNone, trap_message = [],
           res_cycles = vm_cycles s, res_output = vm_output s, res_pc = vm_pc s,
           stack_depth = length (vm_stack s), frame_depth = length (vm_calls s)\<rparr>,
          s\<lparr>vm_output := []\<rparr>))"

definition fetch_step :: "instruction \<Rightarrow> vm \<Rightarrow> trace_step" where
  "fetch_step instr s =
     \<lparr>ts_pc = vm_pc s, ts_opcode = opcode instr, ts_arg1 = arg1 instr, ts_arg2 = arg2 instr,
      ts_stack_before = map_option (\<lambda>_. rev (vm_stack s)) (vm_trace s),
      ts_frame_depth_before = length (vm_calls s)\<rparr>"

text \<open>
  One turn of the loop in \<open>run\<close>: \<open>Inl\<close> when it returns. \<open>after_instruction\<close> is the part after
  \<open>execute_instruction\<close>.
\<close>

definition after_instruction :: "trace_step \<Rightarrow> bool vm_res \<Rightarrow> vm_exit + vm" where
  "after_instruction st r =
     (let s2 = snd r in
      case fst r of
        Inl (Trap code msg) \<Rightarrow>
          Inl (finish (make_trap_result code msg (record_trace st (OTrap code msg) s2)))
      | Inl (Panic msg) \<Rightarrow> Inl (Inl msg, s2)
      | Inr advance \<Rightarrow>
          (let s3 = (if advance then s2\<lparr>vm_pc := vm_pc s2 + 1\<rparr> else s2);
               outcome = (if advance then OContinue else OJump)
           in if vm_calls s3 = []
              then Inl (finish (exit_result (record_trace st OExit s3)))
              else Inr (record_trace st outcome s3)))"

definition exec_current :: "compiled_program \<Rightarrow> vm \<Rightarrow> bool vm_res" where
  "exec_current p s =
     (let instr = instructions p ! vm_pc s
      in execute_instruction p (opcode instr) (arg1 instr) (arg2 instr)
           (s\<lparr>vm_cycles := vm_cycles s + 1\<rparr>))"

definition vm_step :: "compiled_program \<Rightarrow> vm \<Rightarrow> vm_exit + vm" where
  "vm_step p s =
     (if vm_max_cycles s > 0 \<and> vm_cycles s \<ge> vm_max_cycles s
      then Inl (finish (make_trap_result CycleLimit
             (fmt [''Cycle limit exceeded ('', show_nat (vm_max_cycles s), '' cycles)'']) s))
      else if vm_pc s \<ge> length (instructions p)
      then Inl (finish (make_trap_result InvalidInstruction
             (fmt [''PC out of bounds: '', show_nat (vm_pc s)]) s))
      else after_instruction (fetch_step (instructions p ! vm_pc s) s) (exec_current p s))"

definition vm_start :: "function_info \<Rightarrow> vm \<Rightarrow> vm" where
  "vm_start main_func s =
     s\<lparr>vm_pc := entry_pc main_func,
       vm_calls := \<lparr>return_pc = usize_max, base_ptr = 0, frame_func = fi_id main_func\<rparr>
                   # vm_calls s\<rparr>"

definition vm_run :: "compiled_program \<Rightarrow> vm \<Rightarrow> vm_exit option" where
  "vm_run p s =
     (case validate_program p of
        Some e \<Rightarrow> Some (finish (make_trap_result (fst e) (snd e) s))
      | None \<Rightarrow>
          (case fun_lookup p (main_func_id p) of
             None \<Rightarrow> Some (finish (make_trap_result UndefinedFunction ''No main function found'' s))
           | Some main_func \<Rightarrow>
               if local_count main_func > MAX_LOCAL_SLOTS
               then Some (finish (make_trap_result StackOverflow
                      (fmt [''Local storage overflow (need '', show_nat (local_count main_func),
                            '' slots, max '', show_nat MAX_LOCAL_SLOTS, '')'']) s))
               else iterate (vm_step p) (vm_start main_func s)))"

end
