(* ===== verification/Verifier.thy ===== *)
theory Verifier
  imports Vm
begin

text \<open>
  The bytecode verifier (verifier.rs): structural checks of the metadata, the division of the
  instructions into function ranges, the abstract interpretation of one function with its
  worklist, the frame-depth analysis of the call graph, and the backend eligibility report.

  \<open>Option\<close> results that abort with \<open>?\<close> after pushing an error are \<open>Rejected\<close> in the
  \<open>checked\<close> type, whose state is the pair of \<open>errors\<close> and \<open>possible_traps\<close> that the code
  threads by mutable reference; an index that Rust would check is \<open>Panicked\<close>.
\<close>

section \<open>Reports\<close>

record verification_error =
  ve_pc :: "usize option"
  ve_message :: string

definition VerificationError_new :: "usize option \<Rightarrow> string \<Rightarrow> verification_error" where
  "VerificationError_new pc msg = \<lparr>ve_pc = pc, ve_message = msg\<rparr>"

record backend_status =
  eligible :: bool
  reason :: "string option"

definition backend_yes :: backend_status where
  "backend_yes = \<lparr>eligible = True, reason = None\<rparr>"

definition backend_no :: "string \<Rightarrow> backend_status" where
  "backend_no r = \<lparr>eligible = False, reason = Some r\<rparr>"

record backend_eligibility =
  be_vm :: backend_status
  be_gc_vm :: backend_status
  be_optimized_vm :: backend_status
  be_jit :: backend_status

record function_verification =
  fv_id :: usize
  fv_name :: string
  fv_entry_pc :: usize
  fv_end_pc :: usize
  fv_reachable :: usize
  fv_max_stack_depth :: usize

record verification_report =
  rep_valid :: bool
  rep_errors :: "verification_error list"
  rep_functions :: "function_verification list"
  rep_possible_traps :: "trap_code list"
  rep_max_stack_depth :: usize
  rep_max_frame_depth :: "usize option"
  rep_backends :: backend_eligibility

section \<open>Abstract state and checking context\<close>

record abstract_state =
  abs_depth :: usize
  abs_init :: "bool list"

record function_range =
  range_id :: usize
  range_info :: function_info
  range_start :: usize
  range_end :: usize

record vlog =
  log_errors :: "verification_error list"
  log_traps :: "trap_code list"

record vstep =
  vs_state :: abstract_state
  vs_successors :: "usize list"
  vs_call_edges :: "(usize \<times> usize) list"

datatype stop = Rejected | Panicked string

type_synonym 'a checked = "(stop + 'a) \<times> vlog"

definition push_trap :: "trap_code \<Rightarrow> trap_code list \<Rightarrow> trap_code list" where
  "push_trap t traps = (if t \<in> set traps then traps else traps @ [t])"

definition add_error :: "usize option \<Rightarrow> string \<Rightarrow> vlog \<Rightarrow> vlog" where
  "add_error pc msg l = l\<lparr>log_errors := log_errors l @ [VerificationError_new pc msg]\<rparr>"

definition reject :: "usize \<Rightarrow> string \<Rightarrow> vlog \<Rightarrow> 'a checked" where
  "reject pc msg l = (Inl Rejected, add_error (Some pc) msg l)"

definition note_trap :: "trap_code \<Rightarrow> vlog \<Rightarrow> vlog" where
  "note_trap t l = l\<lparr>log_traps := push_trap t (log_traps l)\<rparr>"

definition pc_in_range :: "function_range \<Rightarrow> usize \<Rightarrow> bool" where
  "pc_in_range r pc \<longleftrightarrow> range_start r \<le> pc \<and> pc < range_end r"

section \<open>Operand checks\<close>

definition v_pop_stack :: "usize \<Rightarrow> abstract_state \<Rightarrow> usize \<Rightarrow> vlog \<Rightarrow> abstract_state checked" where
  "v_pop_stack pc st n l =
     (if abs_depth st < n
      then reject pc (fmt [''stack underflow: instruction needs '', show_nat n,
                           '' value(s), stack has '', show_nat (abs_depth st)]) l
      else (Inr (st\<lparr>abs_depth := abs_depth st - n\<rparr>), l))"

definition v_local_slot :: "function_range \<Rightarrow> usize \<Rightarrow> i32 \<Rightarrow> vlog \<Rightarrow> usize checked" where
  "v_local_slot r pc raw l =
     (if raw < 0 then reject pc (fmt [''negative local slot '', show_int raw]) l
      else if nat raw \<ge> local_count (range_info r)
      then reject pc (fmt [''local slot '', show_nat (nat raw), '' is outside function '',
                           quoted (fi_name (range_info r)), '' local count '',
                           show_nat (local_count (range_info r))]) l
      else (Inr (nat raw), l))"

definition v_global_slot :: "usize \<Rightarrow> i32 \<Rightarrow> vlog \<Rightarrow> usize checked" where
  "v_global_slot pc raw l =
     (if raw < 0 then reject pc (fmt [''negative global slot '', show_int raw]) l
      else if nat raw \<ge> MAX_GLOBAL_SLOTS
      then reject pc (fmt [''global slot '', show_nat (nat raw), '' exceeds limit '',
                           show_nat MAX_GLOBAL_SLOTS]) l
      else (Inr (nat raw), l))"

definition v_array_size :: "usize \<Rightarrow> i32 \<Rightarrow> vlog \<Rightarrow> usize checked" where
  "v_array_size pc raw l =
     (if raw \<le> 0
      then reject pc (fmt [''array size must be positive, got '', show_int raw]) l
      else (Inr (nat raw), l))"

definition saturating_add :: "usize \<Rightarrow> usize \<Rightarrow> usize" where
  "saturating_add a b = min (a + b) usize_max"

definition v_global_array_range ::
  "usize \<Rightarrow> i32 \<Rightarrow> i32 \<Rightarrow> vlog \<Rightarrow> (usize \<times> usize) checked" where
  "v_global_array_range pc raw_slot raw_size l =
     bnd (v_global_slot pc raw_slot l) (\<lambda>slot l.
     bnd (v_array_size pc raw_size l) (\<lambda>sz l.
     if saturating_add slot sz > MAX_GLOBAL_SLOTS
     then reject pc (fmt [''global array range '', show_nat slot, ''..'',
                          show_nat (saturating_add slot sz), '' exceeds limit '',
                          show_nat MAX_GLOBAL_SLOTS]) l
     else (Inr (slot, sz), l)))"

definition v_jump_target :: "function_range \<Rightarrow> usize \<Rightarrow> i32 \<Rightarrow> vlog \<Rightarrow> usize checked" where
  "v_jump_target r pc raw l =
     (if raw < 0 then reject pc (fmt [''negative jump target '', show_int raw]) l
      else if \<not> pc_in_range r (nat raw)
      then reject pc (fmt [''jump target '', show_nat (nat raw), '' is outside function '',
                           quoted (fi_name (range_info r)), '' range '', show_nat (range_start r),
                           ''..'', show_nat (range_end r)]) l
      else (Inr (nat raw), l))"

section \<open>One instruction\<close>

text \<open>
  The end of \<open>step_instruction\<close>: a non-terminal instruction falls through to the next one;
  \<open>net_effect\<close> is the common shape "pop some, push some" of most of its arms.
\<close>

definition grow :: "nat \<Rightarrow> abstract_state \<Rightarrow> abstract_state" where
  "grow n st = st\<lparr>abs_depth := abs_depth st + n\<rparr>"

definition fall_through :: "usize \<Rightarrow> abstract_state \<Rightarrow> vlog \<Rightarrow> vstep checked" where
  "fall_through pc st l =
     (Inr \<lparr>vs_state = st, vs_successors = [pc + 1], vs_call_edges = []\<rparr>, l)"

definition terminal :: "usize list \<Rightarrow> abstract_state \<Rightarrow> vlog \<Rightarrow> vstep checked" where
  "terminal succs st l = (Inr \<lparr>vs_state = st, vs_successors = succs, vs_call_edges = []\<rparr>, l)"

definition net_effect :: "usize \<Rightarrow> abstract_state \<Rightarrow> nat \<Rightarrow> nat \<Rightarrow> vlog \<Rightarrow> vstep checked" where
  "net_effect pc st pops pushes l =
     bnd (v_pop_stack pc st pops l) (\<lambda>st l. fall_through pc (grow pushes st) l)"

text \<open>\<open>if !state.initialized_locals[slot] { push_trap(UndefinedLocal) }\<close>\<close>

definition check_initialized :: "abstract_state \<Rightarrow> usize \<Rightarrow> vlog \<Rightarrow> unit checked" where
  "check_initialized st slot l =
     (if slot \<ge> length (abs_init st) then (Inl (Panicked ''index out of bounds''), l)
      else if \<not> abs_init st ! slot then (Inr (), note_trap UndefinedLocal l)
      else (Inr (), l))"

definition v_load_local :: "function_range \<Rightarrow> usize \<Rightarrow> i32 \<Rightarrow> abstract_state \<Rightarrow> vlog \<Rightarrow> vstep checked" where
  "v_load_local r pc a1 st l =
     bnd (v_local_slot r pc a1 l) (\<lambda>slot l.
     bnd (check_initialized st slot l) (\<lambda>_ l.
     fall_through pc (grow 1 st) l))"

definition v_store_local :: "function_range \<Rightarrow> usize \<Rightarrow> i32 \<Rightarrow> abstract_state \<Rightarrow> vlog \<Rightarrow> vstep checked" where
  "v_store_local r pc a1 st l =
     bnd (v_pop_stack pc st 1 l) (\<lambda>st l.
     bnd (v_local_slot r pc a1 l) (\<lambda>slot l.
     if slot \<ge> length (abs_init st) then (Inl (Panicked ''index out of bounds''), l)
     else fall_through pc (st\<lparr>abs_init := (abs_init st)[slot := True]\<rparr>) l))"

definition v_load_global :: "usize \<Rightarrow> i32 \<Rightarrow> abstract_state \<Rightarrow> vlog \<Rightarrow> vstep checked" where
  "v_load_global pc a1 st l =
     bnd (v_global_slot pc a1 l) (\<lambda>_ l. fall_through pc (grow 1 st) l)"

definition v_store_global :: "usize \<Rightarrow> i32 \<Rightarrow> abstract_state \<Rightarrow> vlog \<Rightarrow> vstep checked" where
  "v_store_global pc a1 st l =
     bnd (v_pop_stack pc st 1 l) (\<lambda>st l.
     bnd (v_global_slot pc a1 l) (\<lambda>_ l. fall_through pc st l))"

definition v_div :: "usize \<Rightarrow> abstract_state \<Rightarrow> vlog \<Rightarrow> vstep checked" where
  "v_div pc st l =
     bnd (v_pop_stack pc st 2 l) (\<lambda>st l.
     fall_through pc (grow 1 st) (note_trap DivideByZero l))"

definition v_jump :: "function_range \<Rightarrow> usize \<Rightarrow> i32 \<Rightarrow> abstract_state \<Rightarrow> vlog \<Rightarrow> vstep checked" where
  "v_jump r pc a1 st l =
     bnd (v_jump_target r pc a1 l) (\<lambda>target l.
     terminal [target] st (if as_usize a1 \<le> pc then note_trap CycleLimit l else l))"

definition v_jump_if :: "function_range \<Rightarrow> usize \<Rightarrow> i32 \<Rightarrow> abstract_state \<Rightarrow> vlog \<Rightarrow> vstep checked" where
  "v_jump_if r pc a1 st l =
     bnd (v_pop_stack pc st 1 l) (\<lambda>st l.
     bnd (v_jump_target r pc a1 l) (\<lambda>target l.
     terminal [target, pc + 1] st (if target \<le> pc then note_trap CycleLimit l else l)))"

definition v_call ::
  "compiled_program \<Rightarrow> function_range \<Rightarrow> usize \<Rightarrow> i32 \<Rightarrow> i32 \<Rightarrow> abstract_state \<Rightarrow> vlog \<Rightarrow> vstep checked" where
  "v_call p r pc a1 a2 st l =
     (if a1 < 0 then reject pc (fmt [''negative function id '', show_int a1]) l
      else if a2 < 0 then reject pc (fmt [''negative call argument count '', show_int a2]) l
      else case fun_lookup p (nat a1) of
        None \<Rightarrow> reject pc (fmt [''call to undefined function id '', show_nat (nat a1)]) l
      | Some callee \<Rightarrow>
          if nat a2 \<noteq> param_count callee
          then reject pc (fmt [''call to '', quoted (fi_name callee), '' has '', show_nat (nat a2),
                               '' args but expects '', show_nat (param_count callee)]) l
          else bnd (v_pop_stack pc st (nat a2) l) (\<lambda>st l.
            (Inr \<lparr>vs_state = grow 1 st, vs_successors = [pc + 1],
                  vs_call_edges = [(range_id r, nat a1)]\<rparr>, l)))"

definition v_return :: "usize \<Rightarrow> abstract_state \<Rightarrow> vlog \<Rightarrow> vstep checked" where
  "v_return pc st l = bnd (v_pop_stack pc st 1 l) (\<lambda>st l. terminal [] st l)"

definition v_array_load :: "usize \<Rightarrow> i32 \<Rightarrow> i32 \<Rightarrow> abstract_state \<Rightarrow> vlog \<Rightarrow> vstep checked" where
  "v_array_load pc a1 a2 st l =
     bnd (v_global_array_range pc a1 a2 l) (\<lambda>_ l.
     bnd (v_pop_stack pc st 1 l) (\<lambda>st l.
     fall_through pc (grow 1 st) (note_trap ArrayOutOfBounds l)))"

definition v_array_store :: "usize \<Rightarrow> i32 \<Rightarrow> i32 \<Rightarrow> abstract_state \<Rightarrow> vlog \<Rightarrow> vstep checked" where
  "v_array_store pc a1 a2 st l =
     bnd (v_global_array_range pc a1 a2 l) (\<lambda>_ l.
     bnd (v_pop_stack pc st 2 l) (\<lambda>st l.
     fall_through pc st (note_trap ArrayOutOfBounds l)))"

definition v_local_array_load ::
  "function_range \<Rightarrow> usize \<Rightarrow> i32 \<Rightarrow> i32 \<Rightarrow> abstract_state \<Rightarrow> vlog \<Rightarrow> vstep checked" where
  "v_local_array_load r pc a1 a2 st l =
     bnd (v_array_size pc a2 l) (\<lambda>_ l.
     bnd (v_local_slot r pc a1 l) (\<lambda>slot l.
     bnd (check_initialized st slot l) (\<lambda>_ l.
     bnd (v_pop_stack pc st 1 l) (\<lambda>st l.
     fall_through pc (grow 1 st) (note_trap ArrayOutOfBounds l)))))"

definition v_local_array_store ::
  "function_range \<Rightarrow> usize \<Rightarrow> i32 \<Rightarrow> i32 \<Rightarrow> abstract_state \<Rightarrow> vlog \<Rightarrow> vstep checked" where
  "v_local_array_store r pc a1 a2 st l =
     bnd (v_array_size pc a2 l) (\<lambda>_ l.
     bnd (v_local_slot r pc a1 l) (\<lambda>slot l.
     bnd (check_initialized st slot l) (\<lambda>_ l.
     bnd (v_pop_stack pc st 2 l) (\<lambda>st l.
     fall_through pc st (note_trap ArrayOutOfBounds l)))))"

definition v_alloc_array :: "usize \<Rightarrow> i32 \<Rightarrow> abstract_state \<Rightarrow> vlog \<Rightarrow> vstep checked" where
  "v_alloc_array pc a1 st l =
     bnd (v_array_size pc a1 l) (\<lambda>_ l. fall_through pc (grow 1 st) l)"

definition v_dup :: "usize \<Rightarrow> abstract_state \<Rightarrow> vlog \<Rightarrow> vstep checked" where
  "v_dup pc st l =
     (if abs_depth st = 0 then reject pc ''stack underflow on dup'' l
      else fall_through pc (grow 1 st) l)"

fun step_instruction ::
  "compiled_program \<Rightarrow> function_range \<Rightarrow> usize \<Rightarrow> opcode \<Rightarrow> i32 \<Rightarrow> i32 \<Rightarrow> abstract_state \<Rightarrow> vlog
     \<Rightarrow> vstep checked" where
  "step_instruction p r pc Op_LoadConst a1 a2 st l = fall_through pc (grow 1 st) l"
| "step_instruction p r pc Op_LoadLocal a1 a2 st l = v_load_local r pc a1 st l"
| "step_instruction p r pc Op_StoreLocal a1 a2 st l = v_store_local r pc a1 st l"
| "step_instruction p r pc Op_LoadGlobal a1 a2 st l = v_load_global pc a1 st l"
| "step_instruction p r pc Op_StoreGlobal a1 a2 st l = v_store_global pc a1 st l"
| "step_instruction p r pc Op_Add a1 a2 st l = net_effect pc st 2 1 l"
| "step_instruction p r pc Op_Sub a1 a2 st l = net_effect pc st 2 1 l"
| "step_instruction p r pc Op_Mul a1 a2 st l = net_effect pc st 2 1 l"
| "step_instruction p r pc Op_Eq a1 a2 st l = net_effect pc st 2 1 l"
| "step_instruction p r pc Op_Ne a1 a2 st l = net_effect pc st 2 1 l"
| "step_instruction p r pc Op_Lt a1 a2 st l = net_effect pc st 2 1 l"
| "step_instruction p r pc Op_Gt a1 a2 st l = net_effect pc st 2 1 l"
| "step_instruction p r pc Op_Le a1 a2 st l = net_effect pc st 2 1 l"
| "step_instruction p r pc Op_Ge a1 a2 st l = net_effect pc st 2 1 l"
| "step_instruction p r pc Op_And a1 a2 st l = net_effect pc st 2 1 l"
| "step_instruction p r pc Op_Or a1 a2 st l = net_effect pc st 2 1 l"
| "step_instruction p r pc Op_Div a1 a2 st l = v_div pc st l"
| "step_instruction p r pc Op_Neg a1 a2 st l = net_effect pc st 1 1 l"
| "step_instruction p r pc Op_Not a1 a2 st l = net_effect pc st 1 1 l"
| "step_instruction p r pc Op_Jump a1 a2 st l = v_jump r pc a1 st l"
| "step_instruction p r pc Op_JumpIfFalse a1 a2 st l = v_jump_if r pc a1 st l"
| "step_instruction p r pc Op_JumpIfTrue a1 a2 st l = v_jump_if r pc a1 st l"
| "step_instruction p r pc Op_Call a1 a2 st l = v_call p r pc a1 a2 st l"
| "step_instruction p r pc Op_Return a1 a2 st l = v_return pc st l"
| "step_instruction p r pc Op_ArrayLoad a1 a2 st l = v_array_load pc a1 a2 st l"
| "step_instruction p r pc Op_ArrayStore a1 a2 st l = v_array_store pc a1 a2 st l"
| "step_instruction p r pc Op_LocalArrayLoad a1 a2 st l = v_local_array_load r pc a1 a2 st l"
| "step_instruction p r pc Op_LocalArrayStore a1 a2 st l = v_local_array_store r pc a1 a2 st l"
| "step_instruction p r pc Op_ArrayNew a1 a2 st l = v_alloc_array pc a1 st l"
| "step_instruction p r pc Op_AllocArray a1 a2 st l = v_alloc_array pc a1 st l"
| "step_instruction p r pc Op_Print a1 a2 st l = net_effect pc st 1 0 l"
| "step_instruction p r pc Op_Pop a1 a2 st l = net_effect pc st 1 0 l"
| "step_instruction p r pc Op_Dup a1 a2 st l = v_dup pc st l"
| "step_instruction p r pc Op_Halt a1 a2 st l = terminal [] st l"

section \<open>The worklist of one function\<close>

record flow =
  fl_states :: "usize \<Rightarrow> abstract_state option"
  fl_reachable :: "usize set"
  fl_worklist :: "usize list"
  fl_max_depth :: usize
  fl_edges :: "(usize \<times> usize) list"
  fl_log :: vlog

record function_check =
  fc_summary :: function_verification
  fc_possible_traps :: "trap_code list"
  fc_call_edges :: "(usize \<times> usize) list"
  fc_errors :: "verification_error list"

definition flow_error :: "usize option \<Rightarrow> string \<Rightarrow> flow \<Rightarrow> flow" where
  "flow_error pc msg w = w\<lparr>fl_log := add_error pc msg (fl_log w)\<rparr>"

text \<open>
  The loop over \<open>existing.initialized_locals.iter_mut().zip(..)\<close>: the new vector; it changed iff
  it differs from the old one. \<open>zip\<close> stops at the shorter vector and leaves the rest alone.
\<close>

definition merge_init :: "bool list \<Rightarrow> bool list \<Rightarrow> bool list" where
  "merge_init dst src =
     map2 (\<and>) dst src @ drop (length src) dst"

definition merge_successor :: "function_range \<Rightarrow> usize \<Rightarrow> abstract_state \<Rightarrow> usize \<Rightarrow> flow \<Rightarrow> flow" where
  "merge_successor r pc st succ w =
     (if \<not> pc_in_range r succ
      then flow_error (Some pc)
             (fmt [''successor PC '', show_nat succ, '' leaves function '',
                   quoted (fi_name (range_info r)), '' range '', show_nat (range_start r), ''..'',
                   show_nat (range_end r)]) w
      else case fl_states w succ of
        Some existing \<Rightarrow>
          if abs_depth existing \<noteq> abs_depth st
          then flow_error (Some succ)
                 (fmt [''inconsistent stack depth at PC '', show_nat succ, '': saw '',
                       show_nat (abs_depth existing), '' and '', show_nat (abs_depth st)]) w
          else let merged = merge_init (abs_init existing) (abs_init st);
                   w' = w\<lparr>fl_states := (fl_states w)(succ \<mapsto> existing\<lparr>abs_init := merged\<rparr>)\<rparr>
            in if merged \<noteq> abs_init existing
               then w'\<lparr>fl_worklist := fl_worklist w' @ [succ]\<rparr>
               else w'
      | None \<Rightarrow>
          w\<lparr>fl_states := (fl_states w)(succ \<mapsto> st), fl_worklist := fl_worklist w @ [succ]\<rparr>)"

definition check_depth_limit :: "usize \<Rightarrow> abstract_state \<Rightarrow> flow \<Rightarrow> flow" where
  "check_depth_limit pc st w =
     (if abs_depth st > MAX_OPERAND_STACK
      then flow_error (Some pc)
             (fmt [''operand stack depth '', show_nat (abs_depth st), '' exceeds limit '',
                   show_nat MAX_OPERAND_STACK]) w
      else w)"

definition process_step :: "function_range \<Rightarrow> usize \<Rightarrow> vstep \<Rightarrow> flow \<Rightarrow> flow" where
  "process_step r pc step w =
     (let w = w\<lparr>fl_max_depth := max (fl_max_depth w) (abs_depth (vs_state step)),
                fl_edges := fl_edges w @ vs_call_edges step\<rparr>;
          w = check_depth_limit pc (vs_state step) w
      in fold (merge_successor r pc (vs_state step)) (vs_successors step) w)"

definition function_check_of :: "function_range \<Rightarrow> flow \<Rightarrow> function_check" where
  "function_check_of r w =
     \<lparr>fc_summary = \<lparr>fv_id = range_id r, fv_name = fi_name (range_info r),
        fv_entry_pc = range_start r, fv_end_pc = range_end r,
        fv_reachable = card (fl_reachable w), fv_max_stack_depth = fl_max_depth w\<rparr>,
      fc_possible_traps = log_traps (fl_log w), fc_call_edges = fl_edges w,
      fc_errors = log_errors (fl_log w)\<rparr>"

text \<open>One turn of \<open>while let Some(pc) = worklist.pop_front()\<close>; a panic is a result of its own.\<close>

definition process_pc :: "compiled_program \<Rightarrow> function_range \<Rightarrow> usize \<Rightarrow> flow \<Rightarrow> (string + function_check) + flow" where
  "process_pc p r pc w =
     (if \<not> pc_in_range r pc
      then Inr (flow_error (Some pc)
             (fmt [''control flow in function '', quoted (fi_name (range_info r)),
                   '' leaves range '', show_nat (range_start r), ''..'',
                   show_nat (range_end r)]) w)
      else case fl_states w pc of
        None \<Rightarrow> Inl (Inl ''no entry found for key'')
      | Some st \<Rightarrow>
          if pc \<ge> length (instructions p) then Inl (Inl ''index out of bounds'')
          else
            let w = w\<lparr>fl_reachable := insert pc (fl_reachable w),
                      fl_max_depth := max (fl_max_depth w) (abs_depth st)\<rparr>;
                i = instructions p ! pc;
                res = step_instruction p r pc (opcode i) (arg1 i) (arg2 i) st (fl_log w);
                w = w\<lparr>fl_log := snd res\<rparr>
            in case fst res of
                 Inl Rejected \<Rightarrow> Inr w
               | Inl (Panicked m) \<Rightarrow> Inl (Inl m)
               | Inr step \<Rightarrow> Inr (process_step r pc step w))"

definition flow_step :: "compiled_program \<Rightarrow> function_range \<Rightarrow> flow \<Rightarrow> (string + function_check) + flow" where
  "flow_step p r w =
     (case fl_worklist w of
        [] \<Rightarrow> Inl (Inr (function_check_of r w))
      | pc # rest \<Rightarrow> process_pc p r pc (w\<lparr>fl_worklist := rest\<rparr>))"

definition entry_state :: "function_info \<Rightarrow> abstract_state" where
  "entry_state info =
     \<lparr>abs_depth = 0, abs_init = map (\<lambda>i. i < param_count info) [0..<local_count info]\<rparr>"

definition flow_start :: "function_range \<Rightarrow> flow" where
  "flow_start r =
     \<lparr>fl_states = [range_start r \<mapsto> entry_state (range_info r)], fl_reachable = {},
      fl_worklist = [range_start r], fl_max_depth = 0, fl_edges = [],
      fl_log = \<lparr>log_errors = [], log_traps = []\<rparr>\<rparr>"

definition verify_function ::
  "compiled_program \<Rightarrow> function_range \<Rightarrow> (string + function_check) option" where
  "verify_function p r = iterate (flow_step p r) (flow_start r)"

section \<open>Metadata\<close>

definition global_width :: "global_info \<Rightarrow> usize" where
  "global_width info = (if gi_is_array info then gi_array_size info else 1)"

definition claim_slot :: "global_info \<Rightarrow> usize \<Rightarrow> usize set \<times> verification_error list \<Rightarrow>
    usize set \<times> verification_error list" where
  "claim_slot info slot c =
     (insert slot (fst c),
      if slot \<in> fst c
      then snd c @ [VerificationError_new None
             (fmt [''global '', quoted (gi_name info), '' overlaps slot '', show_nat slot])]
      else snd c)"

text \<open>The vector \<open>claimed\<close> is the set of the slots whose flag is set.\<close>

definition verify_global ::
  "global_info \<Rightarrow> usize set \<times> verification_error list \<Rightarrow> usize set \<times> verification_error list" where
  "verify_global info c =
     (if gi_is_array info \<and> gi_array_size info = 0
      then (fst c, snd c @ [VerificationError_new None
             (fmt [''global array '', quoted (gi_name info), '' has zero size''])])
      else case checked_add (gi_slot info) (global_width info) of
        None \<Rightarrow> (fst c, snd c @ [VerificationError_new None
             (fmt [''global '', quoted (gi_name info), '' storage range overflows usize''])])
      | Some slot_end \<Rightarrow>
          if slot_end > MAX_GLOBAL_SLOTS
          then (fst c, snd c @ [VerificationError_new None
             (fmt [''global '', quoted (gi_name info), '' uses slots '', show_nat (gi_slot info),
                   ''..'', show_nat slot_end, '', exceeding limit '',
                   show_nat MAX_GLOBAL_SLOTS])])
          else fold (claim_slot info) [gi_slot info..<slot_end] c)"

definition verify_global_metadata :: "global_info list \<Rightarrow> verification_error list" where
  "verify_global_metadata infos = snd (fold verify_global infos ({}, []))"

text \<open>\<open>function_ranges\<close>: the loop over the functions, then the ranges between sorted entries.\<close>

record range_scan =
  sc_entries :: "(usize \<times> usize \<times> function_info) list"
  sc_seen :: "usize set"
  sc_errors :: "verification_error list"

definition scan_error :: "bool \<Rightarrow> usize \<Rightarrow> string list \<Rightarrow> verification_error list" where
  "scan_error c pc msg = (if c then [VerificationError_new (Some pc) (fmt msg)] else [])"

definition scan_function :: "compiled_program \<Rightarrow> usize \<times> function_info \<Rightarrow> range_scan \<Rightarrow> range_scan" where
  "scan_function p f s =
     (let info = snd f; pc = entry_pc info;
          e1 = scan_error (param_count info > local_count info) pc
                 [''function '', quoted (fi_name info), '' has '', show_nat (param_count info),
                  '' params but only '', show_nat (local_count info), '' local slots''];
          e2 = scan_error (local_count info > MAX_LOCAL_SLOTS) pc
                 [''function '', quoted (fi_name info), '' needs '', show_nat (local_count info),
                  '' local slots, limit is '', show_nat MAX_LOCAL_SLOTS];
          e3 = scan_error (pc \<ge> length (instructions p)) pc
                 [''function '', quoted (fi_name info), '' entry PC is out of bounds''];
          e4 = scan_error (pc \<in> sc_seen s) pc [''duplicate function entry PC '', show_nat pc]
      in if pc \<ge> length (instructions p)
         then s\<lparr>sc_errors := sc_errors s @ e1 @ e2 @ e3\<rparr>
         else \<lparr>sc_entries = sc_entries s @ [(pc, fst f, info)], sc_seen = insert pc (sc_seen s),
                sc_errors = sc_errors s @ e1 @ e2 @ e4\<rparr>)"

fun ranges_of :: "usize \<Rightarrow> (usize \<times> usize \<times> function_info) list \<Rightarrow> function_range list" where
  "ranges_of code_end [] = []"
| "ranges_of code_end [(start, i, info)] =
     [\<lparr>range_id = i, range_info = info, range_start = start, range_end = code_end\<rparr>]"
| "ranges_of code_end ((start, i, info) # e # es) =
     \<lparr>range_id = i, range_info = info, range_start = start, range_end = fst e\<rparr>
     # ranges_of code_end (e # es)"

definition scan_functions :: "compiled_program \<Rightarrow> range_scan" where
  "scan_functions p =
     fold (scan_function p) (prog_functions p) \<lparr>sc_entries = [], sc_seen = {}, sc_errors = []\<rparr>"

definition function_ranges :: "compiled_program \<Rightarrow> function_range list \<times> verification_error list" where
  "function_ranges p =
     (ranges_of (length (instructions p)) (sort_key fst (sc_entries (scan_functions p))),
      sc_errors (scan_functions p))"

section \<open>Frame depth\<close>

text \<open>
  \<open>call_edges.entry(caller).or_default().push(callee)\<close> over the edges found in program order.
\<close>

definition callees :: "(usize \<times> usize) list \<Rightarrow> usize \<Rightarrow> usize list" where
  "callees edges i = map snd (filter (\<lambda>e. fst e = i) edges)"

text \<open>
  The depth-first \<open>visit\<close> with its \<open>visiting\<close> set and \<open>memo\<close> table, and its loop over the callees.
  The result is \<open>None\<close> when the fuel runs out; the fuel is spent once per nested call.
\<close>

record dfs =
  visiting :: "usize set"
  memo :: "usize \<Rightarrow> usize option option"

fun visit :: "nat \<Rightarrow> (usize \<times> usize) list \<Rightarrow> usize \<Rightarrow> dfs \<Rightarrow> (usize option \<times> dfs) option"
and visit_callees :: "nat \<Rightarrow> (usize \<times> usize) list \<Rightarrow> usize list \<Rightarrow> usize \<Rightarrow> dfs \<Rightarrow> (usize option \<times> dfs) option"
where
  "visit 0 edges func_id d = None"
| "visit (Suc n) edges func_id d =
     (case memo d func_id of
        Some depth \<Rightarrow> Some (depth, d)
      | None \<Rightarrow>
          if func_id \<in> visiting d
          then Some (None, d\<lparr>memo := (memo d)(func_id \<mapsto> None)\<rparr>)
          else case visit_callees n edges (callees edges func_id) 0
                      (d\<lparr>visiting := insert func_id (visiting d)\<rparr>) of
            None \<Rightarrow> None
          | Some (None, d) \<Rightarrow> Some (None, d)
          | Some (Some max_child_depth, d) \<Rightarrow>
              Some (Some (max_child_depth + 1),
                    \<lparr>visiting = visiting d - {func_id},
                     memo = (memo d)(func_id \<mapsto> Some (max_child_depth + 1))\<rparr>))"
| "visit_callees n edges [] max_child_depth d = Some (Some max_child_depth, d)"
| "visit_callees n edges (callee # cs) max_child_depth d =
     (case visit n edges callee d of
        None \<Rightarrow> None
      | Some (None, d) \<Rightarrow> Some (None, d)
      | Some (Some child_depth, d) \<Rightarrow> visit_callees n edges cs (max max_child_depth child_depth) d)"

text \<open>
  Nested calls visit different functions that occur in an edge, so one more than the number
  of edge targets, plus one for the start, is enough fuel.
\<close>

definition max_frame_depth :: "usize \<Rightarrow> (usize \<times> usize) list \<Rightarrow> usize option option" where
  "max_frame_depth main_id edges =
     map_option fst (visit (length edges + 2) edges main_id \<lparr>visiting = {}, memo = (\<lambda>_. None)\<rparr>)"

section \<open>Backend eligibility\<close>

fun jit_supports_opcode :: "opcode \<Rightarrow> bool" where
  "jit_supports_opcode opc =
     (opc \<in> {Op_LoadConst, Op_LoadLocal, Op_StoreLocal, Op_Add, Op_Sub, Op_Mul, Op_Neg, Op_Eq,
             Op_Ne, Op_Lt, Op_Gt, Op_Le, Op_Ge, Op_Not, Op_Pop, Op_Dup, Op_Return})"

definition trap_name :: "trap_code \<Rightarrow> string" where
  "trap_name t = (case t of
      TrapNone \<Rightarrow> ''None'' | DivideByZero \<Rightarrow> ''DivideByZero'' | UndefinedLocal \<Rightarrow> ''UndefinedLocal''
    | ArrayOutOfBounds \<Rightarrow> ''ArrayOutOfBounds'' | StackOverflow \<Rightarrow> ''StackOverflow''
    | CycleLimit \<Rightarrow> ''CycleLimit'' | UndefinedFunction \<Rightarrow> ''UndefinedFunction''
    | StackUnderflow \<Rightarrow> ''StackUnderflow'' | InvalidInstruction \<Rightarrow> ''InvalidInstruction'')"

fun join :: "string \<Rightarrow> string list \<Rightarrow> string" where
  "join sep [] = []"
| "join sep [x] = x"
| "join sep (x # y # ys) = fmt [x, sep, join sep (y # ys)]"

text \<open>The scan from the entry to the first \<open>Return\<close>: an unsupported opcode, or whether one is seen.\<close>

fun jit_scan :: "instruction list \<Rightarrow> backend_status" where
  "jit_scan [] = backend_no ''main function has no return''"
| "jit_scan (i # is) =
     (if \<not> jit_supports_opcode (opcode i)
      then backend_no (fmt [''unsupported opcode '', opcode_name (opcode i)])
      else if opcode i = Op_Return then backend_yes
      else jit_scan is)"

definition jit_status :: "compiled_program \<Rightarrow> trap_code list \<Rightarrow> backend_status" where
  "jit_status p traps =
     (if traps \<noteq> []
      then backend_no (fmt [''JIT requires trap-free bytecode; possible '',
                            join '', '' (map trap_name traps)])
      else if length (prog_functions p) \<noteq> 1
      then backend_no ''JIT requires exactly one function''
      else case fun_lookup p (main_func_id p) of
        None \<Rightarrow> backend_no ''missing main function metadata''
      | Some main_func \<Rightarrow> jit_scan (drop (entry_pc main_func) (instructions p)))"

definition backend_eligibility_of :: "compiled_program \<Rightarrow> bool \<Rightarrow> trap_code list \<Rightarrow> backend_eligibility" where
  "backend_eligibility_of p valid traps =
     (if \<not> valid
      then let rejected = backend_no ''verification errors''
           in \<lparr>be_vm = rejected, be_gc_vm = rejected, be_optimized_vm = rejected, be_jit = rejected\<rparr>
      else \<lparr>be_vm = backend_yes, be_gc_vm = backend_yes, be_optimized_vm = backend_yes,
            be_jit = jit_status p traps\<rparr>)"

section \<open>The whole verifier\<close>

fun verify_functions :: "compiled_program \<Rightarrow> function_range list \<Rightarrow> (string + function_check list) option" where
  "verify_functions p [] = Some (Inr [])"
| "verify_functions p (r # rs) =
     (case verify_function p r of
        None \<Rightarrow> None
      | Some (Inl m) \<Rightarrow> Some (Inl m)
      | Some (Inr c) \<Rightarrow>
          (case verify_functions p rs of
             None \<Rightarrow> None
           | Some (Inl m) \<Rightarrow> Some (Inl m)
           | Some (Inr cs) \<Rightarrow> Some (Inr (c # cs))))"

definition metadata_errors :: "compiled_program \<Rightarrow> verification_error list" where
  "metadata_errors p =
     verify_global_metadata (map snd (prog_globals p)) @
     (if prog_functions p = [] then [VerificationError_new None ''program has no functions''] else []) @
     (if fun_lookup p (main_func_id p) = None
      then [VerificationError_new None (fmt [''main function id '', show_nat (main_func_id p),
              '' is missing from function metadata''])] else []) @
     (if length (instructions p) > MAX_INSTRUCTIONS
      then [VerificationError_new None (fmt [''instruction count '', show_nat (length (instructions p)),
              '' exceeds limit '', show_nat MAX_INSTRUCTIONS])] else [])"

definition depth_traps :: "usize option \<Rightarrow> trap_code list \<Rightarrow> trap_code list" where
  "depth_traps depth traps =
     (case depth of
        None \<Rightarrow> push_trap StackOverflow traps
      | Some d \<Rightarrow> if d > MAX_FRAMES then push_trap StackOverflow traps else traps)"

definition report_of :: "compiled_program \<Rightarrow> verification_error list \<Rightarrow> function_check list \<Rightarrow> usize option
    \<Rightarrow> verification_report" where
  "report_of p metadata checks depth =
     (let errors = metadata @ concat (map fc_errors checks);
          traps = depth_traps depth
                    (fold push_trap (concat (map fc_possible_traps checks)) [])
      in \<lparr>rep_valid = (errors = []), rep_errors = errors, rep_functions = map fc_summary checks,
          rep_possible_traps = traps,
          rep_max_stack_depth = foldr max (map (fv_max_stack_depth \<circ> fc_summary) checks) 0,
          rep_max_frame_depth = depth,
          rep_backends = backend_eligibility_of p (errors = []) traps\<rparr>)"

text \<open>
  \<open>Verifier::verify\<close>. \<open>None\<close> would be a run that does not return and \<open>Inl\<close> a panic;
  \<open>Verifier_Props\<close> proves that neither happens.
\<close>

definition verify :: "compiled_program \<Rightarrow> (string + verification_report) option" where
  "verify p =
     (case verify_functions p (fst (function_ranges p)) of
        None \<Rightarrow> None
      | Some (Inl m) \<Rightarrow> Some (Inl m)
      | Some (Inr checks) \<Rightarrow>
          (case max_frame_depth (main_func_id p) (concat (map fc_call_edges checks)) of
             None \<Rightarrow> None
           | Some depth \<Rightarrow>
               Some (Inr (report_of p (metadata_errors p @ snd (function_ranges p)) checks depth))))"

end
