(* ===== verification/Verifier_Props.thy ===== *)
theory Verifier_Props
  imports Verifier
begin

text \<open>
  The verifier always answers: the worklist of every function terminates, the depth-first search
  has enough fuel, and no index is out of range. The logs of errors and possible traps only grow.
\<close>

section \<open>The log only grows\<close>

definition log_le :: "vlog \<Rightarrow> vlog \<Rightarrow> bool" where
  "log_le l l' \<longleftrightarrow> (log_errors l' = [] \<longrightarrow> log_errors l = []) \<and> set (log_traps l) \<subseteq> set (log_traps l')"

lemma log_le_refl [simp]: "log_le l l"
  by (simp add: log_le_def)

lemma log_le_trans: "log_le l l' \<Longrightarrow> log_le l' l'' \<Longrightarrow> log_le l l''"
  by (auto simp: log_le_def)

lemma set_push_trap [simp]: "set (push_trap t ts) = insert t (set ts)"
  by (auto simp: push_trap_def)

lemma log_simps [simp]:
  "log_errors (add_error pc m l) \<noteq> []"
  "log_traps (add_error pc m l) = log_traps l"
  "log_errors (note_trap t l) = log_errors l"
  "set (log_traps (note_trap t l)) = insert t (set (log_traps l))"
  "log_le l (add_error pc m l)" "log_le l (note_trap t l)"
  "log_le l (note_trap t (note_trap t' l))" "log_le l (add_error pc m (note_trap t l))"
  by (auto simp: add_error_def note_trap_def log_le_def)

lemma post_reject [wp_simps]: "post (reject pc m l) Q E \<longleftrightarrow> E Rejected (add_error (Some pc) m l)"
  by (simp add: reject_def)

lemmas check_defs = v_pop_stack_def v_local_slot_def v_global_slot_def v_array_size_def
  v_global_array_range_def v_jump_target_def

lemmas vstep_defs = fall_through_def terminal_def net_effect_def check_initialized_def grow_def
  v_load_local_def v_store_local_def v_load_global_def v_store_global_def v_div_def v_jump_def
  v_jump_if_def v_call_def v_return_def v_array_load_def v_array_store_def
  v_local_array_load_def v_local_array_store_def v_alloc_array_def v_dup_def

text \<open>
  The contract of \<open>step_instruction\<close>: it never panics on a state with one flag per local slot,
  keeps the number of flags, and reports an error whenever it rejects.
\<close>

lemma step_instruction_post:
  assumes "length (abs_init st) = local_count (range_info r)"
  shows "post (step_instruction p r pc opc a1 a2 st l)
     (\<lambda>step l'. length (abs_init (vs_state step)) = local_count (range_info r) \<and> log_le l l')
     (\<lambda>e l'. e = Rejected \<and> log_errors l' \<noteq> [] \<and> log_le l l')"
  using assms
  by (cases opc) (auto simp: vstep_defs check_defs wp_simps split: option.split)

section \<open>The worklist terminates\<close>

lemma merge_init_length [simp]: "length (merge_init dst src) = length dst"
  by (simp add: merge_init_def)

definition flags_set :: "bool list \<Rightarrow> nat" where
  "flags_set xs = length (filter id xs)"

lemma flags_set_le: "flags_set xs \<le> length xs"
  by (simp add: flags_set_def)

lemma merge_init_simps [simp]:
  "merge_init [] src = []"
  "merge_init dst [] = dst"
  "merge_init (d # dst) (s # src) = (d \<and> s) # merge_init dst src"
  by (simp_all add: merge_init_def)

lemma flags_set_merge: "flags_set (merge_init dst src) \<le> flags_set dst"
proof (induction dst arbitrary: src)
  case (Cons d dst)
  then show ?case by (cases src) (auto simp: flags_set_def le_SucI)
qed simp

lemma flags_set_merge_less: "merge_init dst src \<noteq> dst \<Longrightarrow> flags_set (merge_init dst src) < flags_set dst"
proof (induction dst arbitrary: src)
  case (Cons d dst)
  show ?case
  proof (cases src)
    case (Cons s ss)
    with Cons.IH [of ss] Cons.prems flags_set_merge [of dst ss] show ?thesis
      by (auto simp: flags_set_def)
  qed (use Cons.prems in simp)
qed simp

definition room :: "function_range \<Rightarrow> abstract_state option \<Rightarrow> nat" where
  "room r st = (case st of None \<Rightarrow> local_count (range_info r) + 1 | Some s \<Rightarrow> flags_set (abs_init s))"

lemma room_simps [simp]:
  "room r None = local_count (range_info r) + 1"
  "room r (Some st) = flags_set (abs_init st)"
  by (simp_all add: room_def)

definition flow_budget :: "function_range \<Rightarrow> flow \<Rightarrow> nat" where
  "flow_budget r w = (\<Sum>pc \<in> {range_start r..<range_end r}. room r (fl_states w pc)) + length (fl_worklist w)"

definition flow_ok :: "compiled_program \<Rightarrow> function_range \<Rightarrow> flow \<Rightarrow> bool" where
  "flow_ok p r w \<longleftrightarrow>
     range_end r \<le> length (instructions p) \<and>
     (\<forall>pc st. fl_states w pc = Some st \<longrightarrow> length (abs_init st) = local_count (range_info r)) \<and>
     (\<forall>pc \<in> set (fl_worklist w). fl_states w pc \<noteq> None)"

lemma sum_update:
  fixes f g :: "nat \<Rightarrow> nat"
  assumes "finite A" "x \<in> A" "\<And>y. y \<noteq> x \<Longrightarrow> g y = f y"
  shows "sum g A + f x = sum f A + g x"
proof -
  have "sum g (A - {x}) = sum f (A - {x})" using assms(3) by (intro sum.cong) auto
  with sum.remove [OF assms(1,2), of f] sum.remove [OF assms(1,2), of g] show ?thesis by simp
qed

lemma flow_error_simps [simp]:
  "fl_states (flow_error pc m w) = fl_states w" "fl_worklist (flow_error pc m w) = fl_worklist w"
  "fl_edges (flow_error pc m w) = fl_edges w" "fl_log (flow_error pc m w) = add_error pc m (fl_log w)"
  by (simp_all add: flow_error_def)

lemma flow_error_ok [simp]: "flow_ok p r (flow_error pc m w) = flow_ok p r w"
  "flow_budget r (flow_error pc m w) = flow_budget r w"
  by (simp_all add: flow_ok_def flow_budget_def)

lemma merge_successor_ok:
  assumes "flow_ok p r w" "length (abs_init st) = local_count (range_info r)"
  shows "flow_ok p r (merge_successor r pc st succ w)"
  using assms by (auto simp: merge_successor_def Let_def flow_ok_def split: option.split)

lemma merge_successor_budget:
  assumes "length (abs_init st) = local_count (range_info r)"
  shows "flow_budget r (merge_successor r pc st succ w) \<le> flow_budget r w"
proof (cases "pc_in_range r succ")
  case False
  then show ?thesis by (simp add: merge_successor_def)
next
  case True
  then have succ: "succ \<in> {range_start r..<range_end r}" by (simp add: pc_in_range_def)
  have sum: "(\<Sum>i \<in> {range_start r..<range_end r}. room r (((fl_states w)(succ \<mapsto> x)) i)) + room r (fl_states w succ)
      = (\<Sum>i \<in> {range_start r..<range_end r}. room r (fl_states w i)) + room r (Some x)" for x
    using sum_update [OF _ succ, of "\<lambda>i. room r (((fl_states w)(succ \<mapsto> x)) i)" "\<lambda>i. room r (fl_states w i)"]
    by simp
  show ?thesis
  proof (cases "fl_states w succ")
    case None
    with True sum [of st] flags_set_le [of "abs_init st"] assms show ?thesis
      by (simp add: merge_successor_def flow_budget_def del: fun_upd_apply)
  next
    case (Some existing)
    let ?m = "merge_init (abs_init existing) (abs_init st)"
    show ?thesis
    proof (cases "?m = abs_init existing")
      case same: True
      then have "existing\<lparr>abs_init := ?m\<rparr> = existing" by simp
      then have "(fl_states w)(succ \<mapsto> existing\<lparr>abs_init := ?m\<rparr>) = fl_states w"
        using Some by (metis fun_upd_triv)
      with True Some same show ?thesis
        by (simp add: merge_successor_def flow_budget_def Let_def del: fun_upd_apply)
    next
      case False
      with True Some sum [of "existing\<lparr>abs_init := ?m\<rparr>"]
        flags_set_merge_less [OF False] show ?thesis
        by (simp add: merge_successor_def flow_budget_def Let_def del: fun_upd_apply)
    qed
  qed
qed

lemma process_step_ok:
  assumes "flow_ok p r w" "length (abs_init (vs_state step)) = local_count (range_info r)"
  shows "flow_ok p r (process_step r pc step w) \<and> flow_budget r (process_step r pc step w) \<le> flow_budget r w"
proof -
  have fold: "flow_ok p r v \<Longrightarrow> flow_ok p r (fold (merge_successor r pc (vs_state step)) ss v) \<and>
      flow_budget r (fold (merge_successor r pc (vs_state step)) ss v) \<le> flow_budget r v" for ss v
  proof (induction ss arbitrary: v)
    case (Cons s ss)
    from Cons.IH [OF merge_successor_ok [OF Cons.prems assms(2), of pc s]]
      merge_successor_budget [OF assms(2), of pc s v]
    show ?case by fastforce
  qed simp
  let ?w = "check_depth_limit pc (vs_state step) (w\<lparr>fl_max_depth := max (fl_max_depth w) (abs_depth (vs_state step)),
              fl_edges := fl_edges w @ vs_call_edges step\<rparr>)"
  have w: "flow_ok p r ?w" "flow_budget r ?w = flow_budget r w"
    using assms(1) by (simp_all add: check_depth_limit_def flow_ok_def flow_budget_def)
  show ?thesis using fold [OF w(1)] w(2) by (simp add: process_step_def Let_def)
qed

lemma flow_step_inv:
  assumes "flow_ok p r w" "flow_step p r w = Inr v"
  shows "flow_ok p r v" "flow_budget r v < flow_budget r w"
proof -
  obtain pc rest where wl: "fl_worklist w = pc # rest"
    using assms(2) by (cases "fl_worklist w") (simp_all add: flow_step_def)
  let ?w = "w\<lparr>fl_worklist := rest\<rparr>"
  have ok: "flow_ok p r ?w" and less: "flow_budget r ?w < flow_budget r w"
    using assms(1) wl by (simp_all add: flow_ok_def flow_budget_def)
  have step: "process_pc p r pc ?w = Inr v" using assms(2) wl by (simp add: flow_step_def)
  have "flow_ok p r v \<and> flow_budget r v \<le> flow_budget r ?w"
  proof (cases "pc_in_range r pc")
    case False
    with step ok show ?thesis by (auto simp: process_pc_def)
  next
    case True
    from assms(1) wl obtain st where st: "fl_states w pc = Some st" "length (abs_init st) = local_count (range_info r)"
      by (auto simp: flow_ok_def)
    have pc: "pc < length (instructions p)" using True assms(1) by (simp add: pc_in_range_def flow_ok_def)
    let ?i = "instructions p ! pc"
    let ?v = "?w\<lparr>fl_reachable := insert pc (fl_reachable w), fl_max_depth := max (fl_max_depth w) (abs_depth st)\<rparr>"
    let ?res = "step_instruction p r pc (opcode ?i) (arg1 ?i) (arg2 ?i) st (fl_log w)"
    have vok: "flow_ok p r (?v\<lparr>fl_log := l\<rparr>)" "flow_budget r (?v\<lparr>fl_log := l\<rparr>) = flow_budget r ?w" for l
      using ok by (simp_all add: flow_ok_def flow_budget_def)
    show ?thesis
    proof (cases "fst ?res")
      case (Inl e)
      with step True st pc vok show ?thesis by (cases e) (auto simp: process_pc_def Let_def)
    next
      case (Inr s)
      then have s: "length (abs_init (vs_state s)) = local_count (range_info r)"
        using step_instruction_post [OF st(2), of p pc "opcode ?i" "arg1 ?i" "arg2 ?i" "fl_log w"]
        by (simp add: post_def)
      from Inr step True st pc have "v = process_step r pc s (?v\<lparr>fl_log := snd ?res\<rparr>)"
        by (simp add: process_pc_def Let_def)
      with process_step_ok [OF vok(1) s] vok(2) show ?thesis by auto
    qed
  qed
  with less show "flow_ok p r v" "flow_budget r v < flow_budget r w" by auto
qed

interpretation flow_loop: bounded_loop "flow_step p r" "flow_ok p r" "flow_budget r" for p r
  by unfold_locales (fact flow_step_inv)+

lemma flow_start_ok: "range_end r \<le> length (instructions p) \<Longrightarrow> flow_ok p r (flow_start r)"
  by (simp add: flow_ok_def flow_start_def entry_state_def)

lemma flow_step_no_panic:
  assumes "flow_ok p r w" "flow_step p r w = Inl x"
  shows "fl_worklist w = [] \<and> x = Inr (function_check_of r w)"
proof (cases "fl_worklist w")
  case Nil
  with assms(2) show ?thesis by (simp add: flow_step_def)
next
  case (Cons pc rest)
  from assms(1) Cons obtain st where st: "fl_states w pc = Some st" "length (abs_init st) = local_count (range_info r)"
    by (auto simp: flow_ok_def)
  let ?i = "instructions p ! pc"
  have "post (step_instruction p r pc (opcode ?i) (arg1 ?i) (arg2 ?i) st (fl_log w)) (\<lambda>_ _. True) (\<lambda>e _. e = Rejected)"
    by (rule post_mono [OF step_instruction_post [OF st(2)]]) auto
  then have False
    using assms Cons st
    by (auto simp: flow_step_def process_pc_def Let_def post_def flow_ok_def pc_in_range_def split: if_splits sum.splits stop.splits)
  then show ?thesis ..
qed

text \<open>The analysis of one function returns, from a fixpoint of the loop.\<close>

lemma verify_function_returns:
  assumes "range_end r \<le> length (instructions p)"
  obtains w where "flow_ok p r w" "fl_worklist w = []" "verify_function p r = Some (Inr (function_check_of r w))"
proof -
  obtain t x where t: "flow_ok p r t" "flow_step p r t = Inl x" "verify_function p r = Some x"
    using flow_loop.exit_state [OF flow_start_ok [OF assms]] unfolding verify_function_def by blast
  from flow_step_no_panic [OF t(1,2)] t that show ?thesis by blast
qed

section \<open>Function ranges\<close>

lemma ranges_of_end:
  "(\<forall>e \<in> set es. fst e \<le> n) \<Longrightarrow> r \<in> set (ranges_of n es) \<Longrightarrow> range_end r \<le> n"
  by (induction n es rule: ranges_of.induct) auto

lemma ranges_of_entry:
  "e \<in> set es \<Longrightarrow> \<exists>r \<in> set (ranges_of n es). range_start r = fst e \<and> range_id r = fst (snd e) \<and> range_info r = snd (snd e)"
  by (induction n es rule: ranges_of.induct) auto

lemma scan_entries:
  "set (sc_entries (fold (scan_function p) fs s)) =
     set (sc_entries s) \<union> {(entry_pc f, i, f) | i f. (i, f) \<in> set fs \<and> entry_pc f < length (instructions p)}"
  by (induction fs arbitrary: s) (auto simp: scan_function_def Let_def)

lemma function_ranges_end: "r \<in> set (fst (function_ranges p)) \<Longrightarrow> range_end r \<le> length (instructions p)"
  unfolding function_ranges_def fst_conv
  by (rule ranges_of_end [of "sort_key fst (sc_entries (scan_functions p))"])
    (auto simp: scan_functions_def scan_entries)

lemma verify_functions_returns:
  assumes "\<forall>r \<in> set rs. range_end r \<le> length (instructions p)"
  shows "\<exists>cs. verify_functions p rs = Some (Inr cs)"
  using assms
proof (induction rs)
  case (Cons r rs)
  obtain c where "verify_function p r = Some (Inr c)"
    using Cons.prems by (auto elim: verify_function_returns)
  with Cons show ?case by auto
qed simp

section \<open>The depth-first search has enough fuel\<close>

definition call_nodes :: "(usize \<times> usize) list \<Rightarrow> usize set" where
  "call_nodes edges = snd ` set edges"

lemma callees_nodes: "c \<in> set (callees edges i) \<longleftrightarrow> (i, c) \<in> set edges"
  by (force simp: callees_def)

lemma card_call_nodes: "card (call_nodes edges) \<le> length edges"
  unfolding call_nodes_def using card_image_le [of "set edges" snd] card_length [of edges] by simp

lemma visit_simps_Suc:
  "visit_callees n edges (c # cs) m d =
     (case visit n edges c d of
        None \<Rightarrow> None
      | Some (None, d) \<Rightarrow> Some (None, d)
      | Some (Some k, d) \<Rightarrow> visit_callees n edges cs (max m k) d)"
  by simp

text \<open>
  A successful visit leaves the \<open>visiting\<close> set as it found it; one call deeper means one more
  function in it.
\<close>

lemma visit_enough_fuel:
  "card (insert i (call_nodes edges) - visiting d) < n \<Longrightarrow>
     \<exists>r d'. visit n edges i d = Some (r, d') \<and> (r \<noteq> None \<longrightarrow> visiting d' = visiting d)"
proof (induction n arbitrary: i d)
  case (Suc n)
  have loop: "\<exists>r d'. visit_callees n edges cs m d0 = Some (r, d') \<and> (r \<noteq> None \<longrightarrow> visiting d' = visiting d0)"
    if "set cs \<subseteq> call_nodes edges" "card (call_nodes edges - visiting d0) < n" for cs m d0
    using that
  proof (induction cs arbitrary: m d0)
    case (Cons c cs)
    then have "insert c (call_nodes edges) = call_nodes edges" by auto
    with Suc.IH [of c d0] Cons.prems obtain r d1
      where v: "visit n edges c d0 = Some (r, d1)" "r \<noteq> None \<longrightarrow> visiting d1 = visiting d0" by auto
    with Cons.IH [of d1] Cons.prems show ?case by (cases r) auto
  qed simp
  show ?case
  proof (cases "memo d i = None \<and> i \<notin> visiting d")
    case False
    then show ?thesis by (auto split: option.split)
  next
    case True
    have "insert i (call_nodes edges) - visiting d = insert i (call_nodes edges - insert i (visiting d))"
      using True by auto
    moreover have "finite (call_nodes edges)" by (simp add: call_nodes_def)
    ultimately have "card (call_nodes edges - insert i (visiting d)) < n"
      using Suc.prems by simp
    then obtain r d' where "visit_callees n edges (callees edges i) 0 (d\<lparr>visiting := insert i (visiting d)\<rparr>) = Some (r, d')"
      "r \<noteq> None \<longrightarrow> visiting d' = insert i (visiting d)"
      using loop [of "callees edges i" "d\<lparr>visiting := insert i (visiting d)\<rparr>" 0]
      by (force simp: callees_nodes call_nodes_def)
    with True show ?thesis by (cases r) auto
  qed
qed simp

lemma max_frame_depth_returns: "\<exists>r. max_frame_depth m edges = Some r"
proof -
  have "card (insert m (call_nodes edges)) \<le> length edges + 1"
    using card_call_nodes [of edges] card_insert_le_m1 [of "Suc (length edges)" "call_nodes edges" m]
    by (simp add: call_nodes_def card_insert_if)
  then show ?thesis
    using visit_enough_fuel [of m edges "\<lparr>visiting = {}, memo = (\<lambda>_. None)\<rparr>" "length edges + 2"]
    by (auto simp: max_frame_depth_def)
qed

lemma verify_returns: "\<exists>rep. verify p = Some (Inr rep)"
proof -
  obtain cs where "verify_functions p (fst (function_ranges p)) = Some (Inr cs)"
    using verify_functions_returns function_ranges_end by blast
  moreover obtain d where "max_frame_depth (main_func_id p) (concat (map fc_call_edges cs)) = Some d"
    using max_frame_depth_returns by blast
  ultimately show ?thesis by (simp add: verify_def)
qed

end
