(* ===== verification/Vm_Props.thy ===== *)
theory Vm_Props
  imports Vm
begin

text \<open>
  Facts about the reference machine that need no assumption on the bytecode: which state
  an instruction may touch, the resource bounds it keeps, that a run with a cycle limit
  returns, and which panics are impossible.
\<close>

section \<open>Weakest preconditions of the machine's operations\<close>

lemma post_pop [wp_simps]:
  "post (pop s) Q E \<longleftrightarrow>
     (vm_stack s = [] \<longrightarrow> E (Trap StackUnderflow ''Stack underflow'') s) \<and>
     (\<forall>v st. vm_stack s = v # st \<longrightarrow> Q v (s\<lparr>vm_stack := st\<rparr>))"
  by (simp add: pop_def split: list.splits)

definition stack_overflow_error :: vm_error where
  "stack_overflow_error = Trap StackOverflow
     (fmt [''Operand stack overflow (max '', show_nat MAX_OPERAND_STACK, '' entries)''])"

lemma post_push [wp_simps]:
  "post (push v s) Q E \<longleftrightarrow>
     (length (vm_stack s) \<ge> MAX_OPERAND_STACK \<longrightarrow> E stack_overflow_error s) \<and>
     (length (vm_stack s) < MAX_OPERAND_STACK \<longrightarrow> Q () (s\<lparr>vm_stack := v # vm_stack s\<rparr>))"
  by (auto simp: push_def stack_overflow_error_def)

lemma post_push_next [wp_simps]:
  "post (push_next v s) Q E \<longleftrightarrow>
     (length (vm_stack s) \<ge> MAX_OPERAND_STACK \<longrightarrow> E stack_overflow_error s) \<and>
     (length (vm_stack s) < MAX_OPERAND_STACK \<longrightarrow> Q True (s\<lparr>vm_stack := v # vm_stack s\<rparr>))"
  by (simp add: push_next_def post_push)

lemma post_locals_set [wp_simps]:
  "post (locals_set i x s) Q E \<longleftrightarrow>
     (i < vlen (vm_locals s) \<longrightarrow> Q () (s\<lparr>vm_locals := vec_set (vm_locals s) i x\<rparr>)) \<and>
     (\<not> i < vlen (vm_locals s) \<longrightarrow> E (Panic ''index out of bounds'') s)"
  by (simp add: locals_set_def)

lemma post_globals_set [wp_simps]:
  "post (globals_set i x s) Q E \<longleftrightarrow>
     (i < vlen (vm_globals s) \<longrightarrow> Q () (s\<lparr>vm_globals := vec_set (vm_globals s) i x\<rparr>)) \<and>
     (\<not> i < vlen (vm_globals s) \<longrightarrow> E (Panic ''index out of bounds'') s)"
  by (simp add: globals_set_def)

lemma post_lift [wp_simps]:
  "post (r, s) Q E \<longleftrightarrow> (\<forall>e. r = Inl e \<longrightarrow> E e s) \<and> (\<forall>a. r = Inr a \<longrightarrow> Q a s)"
  by (cases r) simp_all

lemmas exec_defs = binary_op_def unary_op_def exec_load_local_def exec_store_local_def
  exec_load_global_def exec_store_global_def exec_div_def exec_neg_def jump_to_def
  exec_jump_if_def exec_return_def exec_array_load_def
  exec_array_store_def exec_local_array_load_def exec_local_array_store_def
  exec_alloc_array_def exec_print_def exec_pop_def exec_dup_def exec_halt_def take_top_def

section \<open>What the readers return\<close>

lemma current_local_slot_Inr:
  "current_local_slot p raw s = Inr slot \<Longrightarrow>
     slot < MAX_LOCAL_SLOTS \<and> 0 \<le> raw \<and>
     (\<exists>f fs fi. vm_calls s = f # fs \<and> fun_lookup p (frame_func f) = Some fi \<and>
        nat raw < local_count fi \<and> slot = base_ptr f + nat raw)"
  by (auto simp: current_local_slot_def checked_add_def Let_def split: if_splits list.splits option.splits)

lemma current_local_slot_not_panic: "current_local_slot p raw s \<noteq> Inl (Panic m)"
  by (auto simp: current_local_slot_def Let_def split: list.splits option.splits)

lemma global_slot_Inr: "global_slot raw s = Inr slot \<longleftrightarrow> 0 \<le> raw \<and> slot = nat raw \<and> slot < vlen (vm_globals s)"
  by (auto simp: global_slot_def Let_def)

lemma global_slot_not_panic: "global_slot raw s \<noteq> Inl (Panic m)"
  by (auto simp: global_slot_def Let_def)

lemma array_size_Inr: "array_size raw = Inr n \<longleftrightarrow> 0 \<le> raw \<and> n = nat raw"
  by (auto simp: array_size_def)

lemma array_size_not_panic: "array_size raw \<noteq> Inl (Panic m)"
  by (simp add: array_size_def)

lemma array_index_Inr: "array_index raw n = Inr i \<longleftrightarrow> 0 \<le> raw \<and> i = nat raw \<and> i < n"
  by (auto simp: array_index_def Let_def)

lemma array_index_not_panic: "array_index raw n \<noteq> Inl (Panic m)"
  by (auto simp: array_index_def Let_def)

lemma global_array_range_Inr:
  "global_array_range raw_base raw_size s = Inr rng \<Longrightarrow>
     0 \<le> raw_base \<and> 0 \<le> raw_size \<and> rng = (nat raw_base, nat raw_size) \<and>
     fst rng + snd rng \<le> vlen (vm_globals s)"
  by (auto simp: global_array_range_def global_slot_Inr array_size_Inr split: sum.splits option.splits
      if_splits) (auto simp: checked_add_def split: if_splits)

lemma global_array_range_not_panic: "global_array_range a b s \<noteq> Inl (Panic m)"
  by (auto simp: global_array_range_def global_slot_not_panic array_size_not_panic
      split: sum.splits option.splits)

lemma locals_get_Inr: "locals_get s i = Inr v \<longleftrightarrow> i < vlen (vm_locals s) \<and> v = vget (vm_locals s) i"
  by (auto simp: locals_get_def)

lemma locals_get_Inl: "locals_get s i = Inl e \<longleftrightarrow> \<not> i < vlen (vm_locals s) \<and> e = Panic ''index out of bounds''"
  by (auto simp: locals_get_def)

lemma globals_get_Inr: "globals_get s i = Inr v \<longleftrightarrow> i < vlen (vm_globals s) \<and> v = vget (vm_globals s) i"
  by (auto simp: globals_get_def)

lemma globals_get_Inl: "globals_get s i = Inl e \<longleftrightarrow> \<not> i < vlen (vm_globals s) \<and> e = Panic ''index out of bounds''"
  by (auto simp: globals_get_def)

lemma local_array_base_Inr:
  "local_array_base r n s = Inr b \<Longrightarrow>
     r < vlen (vm_locals s) \<and> 0 \<le> vget (vm_locals s) r \<and> b = nat (vget (vm_locals s) r) \<and>
     b + n \<le> vlen (vm_locals s)"
  by (auto simp: local_array_base_def locals_get_Inr Let_def split: sum.splits option.splits if_splits)
     (auto simp: checked_add_def split: if_splits)

lemma local_array_base_panic:
  "local_array_base r n s = Inl (Panic m) \<Longrightarrow> \<not> r < vlen (vm_locals s)"
  by (auto simp: local_array_base_def locals_get_def Let_def split: option.splits if_splits)

lemmas reader_Inr = current_local_slot_Inr global_slot_Inr array_size_Inr array_index_Inr
  global_array_range_Inr locals_get_Inr globals_get_Inr local_array_base_Inr

lemmas reader_not_panic = current_local_slot_not_panic global_slot_not_panic array_size_not_panic
  array_index_not_panic global_array_range_not_panic

section \<open>The argument loops of a call\<close>

lemma post_copy_args:
  assumes "new_base + n \<le> vlen (vm_locals s)"
    and "\<And>st ls. length (vm_stack s) \<ge> n \<Longrightarrow> st = drop n (vm_stack s) \<Longrightarrow> vlen ls = vlen (vm_locals s) \<Longrightarrow>
          (\<And>j. vget ls j = (if new_base \<le> j \<and> j < new_base + n
                         then vm_stack s ! (new_base + n - 1 - j) else vget (vm_locals s) j)) \<Longrightarrow>
          Q () (s\<lparr>vm_stack := st, vm_locals := ls\<rparr>)"
    and "\<And>ls. length (vm_stack s) < n \<Longrightarrow> vlen ls = vlen (vm_locals s) \<Longrightarrow>
          E (Trap StackUnderflow ''Stack underflow'') (s\<lparr>vm_stack := [], vm_locals := ls\<rparr>)"
  shows "post (copy_args new_base n s) Q E"
  using assms
proof (induction n arbitrary: s)
  case 0
  have "Q () (s\<lparr>vm_stack := vm_stack s, vm_locals := vm_locals s\<rparr>)"
    by (rule "0.prems"(2)) auto
  then show ?case by simp
next
  case (Suc n)
  show ?case
  proof (cases "vm_stack s")
    case Nil
    have "E (Trap StackUnderflow ''Stack underflow'') (s\<lparr>vm_stack := [], vm_locals := vm_locals s\<rparr>)"
      by (rule Suc.prems(3)) (simp_all add: Nil)
    moreover have "s\<lparr>vm_stack := [], vm_locals := vm_locals s\<rparr> = s"
      using Nil by (cases s) simp
    ultimately show ?thesis by (simp add: post_pop Nil)
  next
    case (Cons v st)
    let ?t = "s\<lparr>vm_stack := st, vm_locals := vec_set (vm_locals s) (new_base + n) v\<rparr>"
    have bound: "new_base + n < vlen (vm_locals s)" using Suc.prems(1) by simp
    have "post (copy_args new_base n ?t) Q E"
    proof (rule Suc.IH, goal_cases)
      case 1
      then show ?case using bound by simp
    next
      case (2 st' ls)
      have "Q () (s\<lparr>vm_stack := st', vm_locals := ls\<rparr>)"
        by (rule Suc.prems(2)) (use 2 Cons in \<open>auto simp: nth_Cons' Suc_diff_le\<close>)
      then show ?case by simp
    next
      case (3 ls)
      have "E (Trap StackUnderflow ''Stack underflow'') (s\<lparr>vm_stack := [], vm_locals := ls\<rparr>)"
        by (rule Suc.prems(3)) (use 3 Cons in auto)
      then show ?case by simp
    qed
    then show ?thesis using Cons bound by (simp add: post_pop post_locals_set)
  qed
qed

lemma post_clear_locals:
  assumes "\<And>i. i \<in> set is \<Longrightarrow> new_base + i < vlen (vm_locals s)"
    and "\<And>ls. vlen ls = vlen (vm_locals s) \<Longrightarrow>
          (\<And>j. vget ls j = (if \<exists>i\<in>set is. j = new_base + i then i64_min else vget (vm_locals s) j)) \<Longrightarrow>
          Q () (s\<lparr>vm_locals := ls\<rparr>)"
  shows "post (clear_locals is new_base s) Q E"
  using assms
proof (induction "is" arbitrary: s)
  case Nil
  have "Q () (s\<lparr>vm_locals := vm_locals s\<rparr>)" by (rule Nil.prems(2)) auto
  then show ?case by simp
next
  case (Cons i "is")
  let ?t = "s\<lparr>vm_locals := vec_set (vm_locals s) (new_base + i) i64_min\<rparr>"
  have "post (clear_locals is new_base ?t) Q E"
  proof (rule Cons.IH, goal_cases)
    case (1 j)
    then show ?case using Cons.prems(1) by simp
  next
    case (2 ls)
    have "Q () (s\<lparr>vm_locals := ls\<rparr>)"
      by (rule Cons.prems(2)) (use 2 in auto)
    then show ?case by simp
  qed
  then show ?case using Cons.prems(1) by (simp add: post_locals_set)
qed

section \<open>What an instruction leaves alone\<close>

definition same_control :: "vm \<Rightarrow> vm \<Rightarrow> bool" where
  "same_control s t \<longleftrightarrow>
     vm_cycles t = vm_cycles s \<and> vm_max_cycles t = vm_max_cycles s \<and> vm_trace t = vm_trace s \<and>
     vlen (vm_globals t) = vlen (vm_globals s) \<and> vlen (vm_locals s) \<le> vlen (vm_locals t)"

lemma same_control_trans: "same_control s t \<Longrightarrow> same_control t u \<Longrightarrow> same_control s u"
  by (simp add: same_control_def)

definition same_frames :: "vm \<Rightarrow> vm \<Rightarrow> bool" where
  "same_frames s t \<longleftrightarrow> same_control s t \<and> vlen (vm_locals t) = vlen (vm_locals s) \<and>
     vm_calls t = vm_calls s \<and> vm_pc t = vm_pc s \<and>
     vm_output t = vm_output s \<and> vm_globals t = vm_globals s \<and>
     length (vm_stack t) \<le> length (vm_stack s)"

lemma same_frames_refl [simp]: "same_frames s s"
  by (simp add: same_frames_def same_control_def)

lemma same_frames_trans: "same_frames s t \<Longrightarrow> same_frames t u \<Longrightarrow> same_frames s u"
  by (auto simp: same_frames_def dest: same_control_trans)

lemma copy_args_frames:
  "post (copy_args b n s) (\<lambda>_ t. same_frames s t) (\<lambda>_ t. same_frames s t)"
proof (induction n arbitrary: s)
  case (Suc n)
  have step: "post (copy_args b n t) (\<lambda>_ u. same_frames s u) (\<lambda>_ u. same_frames s u)"
    if "same_frames s t" for t
    using Suc.IH by (rule post_mono) (use that same_frames_trans in blast)+
  show ?case
    by (auto simp: wp_simps intro!: step) (auto simp: same_frames_def same_control_def)
qed simp

lemma clear_locals_frames:
  "post (clear_locals is b s) (\<lambda>_ t. same_frames s t) (\<lambda>_ t. same_frames s t)"
proof (induction "is" arbitrary: s)
  case (Cons i "is")
  have step: "post (clear_locals is b t) (\<lambda>_ u. same_frames s u) (\<lambda>_ u. same_frames s u)"
    if "same_frames s t" for t
    using Cons.IH by (rule post_mono) (use that same_frames_trans in blast)+
  show ?case
    by (auto simp: wp_simps intro!: step) (auto simp: same_frames_def same_control_def)
qed simp

text \<open>The two loops of a call in sequence, as \<open>enter_function\<close> runs them.\<close>

lemma call_loops_frames:
  assumes Q: "\<And>t. same_frames s t \<Longrightarrow> Q () t" and E: "\<And>e t. same_frames s t \<Longrightarrow> E e t"
  shows "post (copy_args b n s) (\<lambda>_ t. post (clear_locals is b t) Q E) E"
proof (rule post_mono [OF copy_args_frames])
  fix u :: unit and t
  assume t: "same_frames s t"
  show "post (clear_locals is b t) Q E"
    by (rule post_mono [OF clear_locals_frames]) (auto intro!: Q E same_frames_trans [OF t])
qed (rule E)

lemma enter_function_post:
  assumes E: "\<And>e t. same_frames s t \<Longrightarrow> E e t"
    and Q: "\<And>t. same_frames s t \<Longrightarrow>
           caller_base s + caller_locals p s + local_count f \<le> MAX_LOCAL_SLOTS \<Longrightarrow>
           Q False (t\<lparr>vm_calls := \<lparr>return_pc = vm_pc s + 1, base_ptr = caller_base s + caller_locals p s,
                               frame_func = i\<rparr> # vm_calls s, vm_pc := entry_pc f\<rparr>)"
  shows "post (enter_function p i n f s) Q E"
proof -
  have loops: "post (copy_args b n s) (\<lambda>_ t. post (clear_locals is b t)
      (\<lambda>_ t. Q False (t\<lparr>vm_calls := \<lparr>return_pc = vm_pc t + 1,
              base_ptr = caller_base s + caller_locals p s, frame_func = i\<rparr> # vm_calls t,
              vm_pc := entry_pc f\<rparr>)) E) E"
    if "caller_base s + caller_locals p s + local_count f \<le> MAX_LOCAL_SLOTS" for b "is"
  proof (rule call_loops_frames)
    fix t
    assume t: "same_frames s t"
    then have "vm_pc t = vm_pc s" "vm_calls t = vm_calls s" by (simp_all add: same_frames_def)
    with Q [OF t that] show "Q False (t\<lparr>vm_calls := \<lparr>return_pc = vm_pc t + 1,
              base_ptr = caller_base s + caller_locals p s, frame_func = i\<rparr> # vm_calls t,
              vm_pc := entry_pc f\<rparr>)" by simp
  qed (rule E)
  show ?thesis
    using loops by (simp add: enter_function_def checked_add_def Let_def E)
qed

lemma exec_call_post:
  assumes E: "\<And>e t. same_frames s t \<Longrightarrow> E e t"
    and Q: "\<And>f t. same_frames s t \<Longrightarrow> 0 \<le> a1 \<Longrightarrow> fun_lookup p (nat a1) = Some f \<Longrightarrow>
           length (vm_calls s) < MAX_FRAMES \<Longrightarrow>
           caller_base s + caller_locals p s + local_count f \<le> MAX_LOCAL_SLOTS \<Longrightarrow>
           Q False (t\<lparr>vm_calls := \<lparr>return_pc = vm_pc s + 1, base_ptr = caller_base s + caller_locals p s,
                               frame_func = nat a1\<rparr> # vm_calls s, vm_pc := entry_pc f\<rparr>)"
  shows "post (exec_call p a1 a2 s) Q E"
  by (simp add: exec_call_def Let_def E split: option.split)
     (auto intro!: enter_function_post E Q)

lemma same_control_refl [simp]: "same_control s s"
  by (simp add: same_control_def)

lemma execute_same_control:
  "post (execute_instruction p opc a1 a2 s) (\<lambda>_ t. same_control s t) (\<lambda>_ t. same_control s t)"
proof (cases "opc = Op_Call")
  case True
  then show ?thesis
    by (auto simp: same_frames_def same_control_def intro!: exec_call_post)
next
  case False
  then show ?thesis
    by (cases opc) (auto simp: exec_defs wp_simps same_control_def Let_def split: list.split)
qed

section \<open>Resource bounds\<close>

definition vm_ok :: "vm \<Rightarrow> bool" where
  "vm_ok s \<longleftrightarrow>
     length (vm_stack s) \<le> MAX_OPERAND_STACK \<and> length (vm_calls s) \<le> MAX_FRAMES \<and>
     vlen (vm_globals s) = MAX_GLOBAL_SLOTS \<and> MAX_LOCAL_SLOTS \<le> vlen (vm_locals s)"

lemma vm_ok_new: "vm_ok vm_new"
  by (simp add: vm_ok_def vm_new_def)

lemma same_frames_ok: "same_frames s t \<Longrightarrow> vm_ok s \<Longrightarrow> vm_ok t"
  by (auto simp: same_frames_def same_control_def vm_ok_def)

lemma execute_ok:
  assumes "vm_ok s"
  shows "post (execute_instruction p opc a1 a2 s) (\<lambda>_ t. vm_ok t) (\<lambda>_ t. vm_ok t)"
proof (cases "opc = Op_Call")
  case True
  have "post (exec_call p a1 a2 s) (\<lambda>_ t. vm_ok t) (\<lambda>_ t. vm_ok t)"
  proof (rule exec_call_post)
    fix e t
    assume "same_frames s t"
    then show "vm_ok t" using assms by (rule same_frames_ok)
  next
    fix f t
    assume t: "same_frames s t" and depth: "length (vm_calls s) < MAX_FRAMES"
    from t assms have "vm_ok t" by (rule same_frames_ok)
    with depth show "vm_ok (t\<lparr>vm_calls := \<lparr>return_pc = vm_pc s + 1,
        base_ptr = caller_base s + caller_locals p s, frame_func = nat a1\<rparr> # vm_calls s,
        vm_pc := entry_pc f\<rparr>)"
      by (simp add: vm_ok_def)
  qed
  with True show ?thesis by simp
next
  case False
  with assms show ?thesis
    by (cases opc) (auto simp: exec_defs wp_simps vm_ok_def Let_def split: list.split)
qed

lemma record_trace_fields [simp]:
  "vm_stack (record_trace st oc s) = vm_stack s" "vm_locals (record_trace st oc s) = vm_locals s"
  "vm_globals (record_trace st oc s) = vm_globals s" "vm_calls (record_trace st oc s) = vm_calls s"
  "vm_pc (record_trace st oc s) = vm_pc s" "vm_cycles (record_trace st oc s) = vm_cycles s"
  "vm_max_cycles (record_trace st oc s) = vm_max_cycles s"
  "vm_output (record_trace st oc s) = vm_output s"
  by (simp_all add: record_trace_def split: option.split)

section \<open>The loop\<close>

lemma exec_current_same_control:
  "post (exec_current p s) (\<lambda>_ t. same_control (s\<lparr>vm_cycles := vm_cycles s + 1\<rparr>) t)
     (\<lambda>_ t. same_control (s\<lparr>vm_cycles := vm_cycles s + 1\<rparr>) t)"
  unfolding exec_current_def Let_def by (rule execute_same_control)

lemma exec_current_ok:
  "vm_ok s \<Longrightarrow> post (exec_current p s) (\<lambda>_ t. vm_ok t) (\<lambda>_ t. vm_ok t)"
  unfolding exec_current_def Let_def by (rule execute_ok) (simp add: vm_ok_def)

text \<open>What a turn of the loop that goes on has done, and how a turn can end the run.\<close>

lemma after_instruction_Inr:
  assumes "after_instruction st r = Inr t"
  obtains advance u oc where "r = (Inr advance, u)" "vm_calls u \<noteq> []"
    "t = record_trace st oc (if advance then u\<lparr>vm_pc := vm_pc u + 1\<rparr> else u)"
proof (cases "fst r")
  case (Inl e)
  with assms show ?thesis by (cases e) (simp_all add: after_instruction_def Let_def)
next
  case (Inr advance)
  with assms that [of advance "snd r" "if advance then OContinue else OJump"] show ?thesis
    by (cases r) (auto simp: after_instruction_def Let_def split: if_splits)
qed

lemma after_instruction_Inl:
  assumes "after_instruction st r = Inl x"
  obtains (trap) code msg u where "r = (Inl (Trap code msg), u)"
      "x = finish (make_trap_result code msg (record_trace st (OTrap code msg) u))"
    | (panic) msg u where "r = (Inl (Panic msg), u)" "x = (Inl msg, u)"
    | (exit) advance u where "r = (Inr advance, u)" "vm_calls u = []"
      "x = finish (exit_result (record_trace st OExit
             (if advance then u\<lparr>vm_pc := vm_pc u + 1\<rparr> else u)))"
proof (cases "fst r")
  case (Inl e)
  show ?thesis
  proof (cases e)
    case (Trap code msg)
    with Inl assms trap [of code msg "snd r"] show ?thesis
      by (cases r) (simp add: after_instruction_def Let_def)
  next
    case (Panic msg)
    with Inl assms panic [of msg "snd r"] show ?thesis
      by (cases r) (simp add: after_instruction_def Let_def)
  qed
next
  case (Inr advance)
  with assms exit [of advance "snd r"] show ?thesis
    by (cases r) (auto simp: after_instruction_def Let_def split: if_splits)
qed

lemma vm_step_Inr:
  assumes "vm_step p s = Inr t"
  obtains advance u st oc where
    "vm_pc s < length (instructions p)"
    "vm_max_cycles s > 0 \<Longrightarrow> vm_cycles s < vm_max_cycles s"
    "exec_current p s = (Inr advance, u)" "vm_calls u \<noteq> []"
    "t = record_trace st oc (if advance then u\<lparr>vm_pc := vm_pc u + 1\<rparr> else u)"
    "st = fetch_step (instructions p ! vm_pc s) s"
  using assms unfolding vm_step_def
  by (auto split: if_splits elim!: after_instruction_Inr)

lemma vm_step_Inl:
  assumes "vm_step p s = Inl r"
  obtains (limit) msg where "vm_max_cycles s > 0" "vm_cycles s \<ge> vm_max_cycles s"
      "r = finish (make_trap_result CycleLimit msg s)"
    | (bad_pc) msg where "\<not> vm_pc s < length (instructions p)"
      "r = finish (make_trap_result InvalidInstruction msg s)"
    | (instr) st where "vm_pc s < length (instructions p)"
      "vm_max_cycles s > 0 \<Longrightarrow> vm_cycles s < vm_max_cycles s"
      "after_instruction st (exec_current p s) = Inl r" "st = fetch_step (instructions p ! vm_pc s) s"
proof (cases "vm_max_cycles s > 0 \<and> vm_cycles s \<ge> vm_max_cycles s")
  case True
  with assms limit show ?thesis unfolding vm_step_def by auto
next
  case False
  show ?thesis
  proof (cases "vm_pc s < length (instructions p)")
    case True
    with False assms instr show ?thesis by (auto simp: vm_step_def)
  next
    case pc: False
    with False assms bad_pc show ?thesis by (auto simp: vm_step_def)
  qed
qed

text \<open>
  The machine's loop meets the interface of a bounded loop whenever a cycle limit is set: every
  turn spends a cycle.
\<close>

definition cycles_left :: "vm \<Rightarrow> nat" where
  "cycles_left s = vm_max_cycles s - vm_cycles s"

lemma vm_step_counts:
  assumes "vm_step p s = Inr t"
  shows "vm_cycles t = vm_cycles s + 1" "vm_max_cycles t = vm_max_cycles s"
proof -
  from assms obtain advance u st oc where u: "exec_current p s = (Inr advance, u)"
    and t: "t = record_trace st oc (if advance then u\<lparr>vm_pc := vm_pc u + 1\<rparr> else u)"
    by (rule vm_step_Inr)
  from post_Inr [OF exec_current_same_control u]
  have "vm_cycles u = vm_cycles s + 1" "vm_max_cycles u = vm_max_cycles s"
    by (simp_all add: same_control_def)
  with t show "vm_cycles t = vm_cycles s + 1" "vm_max_cycles t = vm_max_cycles s" by simp_all
qed

lemma vm_ok_pc_trace [simp]: "vm_ok (record_trace st oc s) = vm_ok s" "vm_ok (s\<lparr>vm_pc := i\<rparr>) = vm_ok s"
  by (simp_all add: vm_ok_def)

lemma vm_step_ok:
  assumes "vm_ok s" "vm_step p s = Inr t"
  shows "vm_ok t"
proof -
  from assms(2) obtain advance u st oc where u: "exec_current p s = (Inr advance, u)"
    and t: "t = record_trace st oc (if advance then u\<lparr>vm_pc := vm_pc u + 1\<rparr> else u)"
    by (rule vm_step_Inr)
  from post_Inr [OF exec_current_ok [OF assms(1)] u] t show ?thesis by simp
qed

definition running :: "nat \<Rightarrow> vm \<Rightarrow> bool" where
  "running k s \<longleftrightarrow> 0 < k \<and> vm_max_cycles s = k \<and> vm_cycles s \<le> k \<and> vm_ok s"

lemma vm_step_running:
  assumes "running k s" "vm_step p s = Inr t"
  shows "running k t" "cycles_left t < cycles_left s"
proof -
  from assms(2) have "vm_max_cycles s > 0 \<Longrightarrow> vm_cycles s < vm_max_cycles s"
    by (rule vm_step_Inr)
  then show "running k t" "cycles_left t < cycles_left s"
    using assms vm_step_counts [OF assms(2)] vm_step_ok [OF _ assms(2)]
    by (auto simp: running_def cycles_left_def)
qed

interpretation vm_loop: bounded_loop "vm_step p" "running k" cycles_left for p k
  by unfold_locales (fact vm_step_running)+

section \<open>The exact effect of a call\<close>

definition functions_valid :: "compiled_program \<Rightarrow> bool" where
  "functions_valid p \<longleftrightarrow>
     (\<forall>f \<in> set (map snd (prog_functions p)). param_count f \<le> local_count f)"

lemma fun_lookup_valid:
  "functions_valid p \<Longrightarrow> fun_lookup p i = Some f \<Longrightarrow> param_count f \<le> local_count f"
  by (force simp: functions_valid_def fun_lookup_def dest: map_of_SomeD)

text \<open>
  The locals after a call: the arguments in order in the first slots of the new frame, the
  other slots of the frame undefined, everything else untouched.
\<close>

definition call_locals :: "nat \<Rightarrow> nat \<Rightarrow> nat \<Rightarrow> i64 list \<Rightarrow> vec64 \<Rightarrow> vec64" where
  "call_locals b n l st v =
     v\<lparr>vget := (\<lambda>j. if b \<le> j \<and> j < b + n then st ! (b + n - 1 - j)
                   else if b + n \<le> j \<and> j < b + l then i64_min else vget v j)\<rparr>"

lemma call_locals_simps [simp]:
  "vlen (call_locals b n l st v) = vlen v"
  "vget (call_locals b n l st v) j =
     (if b \<le> j \<and> j < b + n then st ! (b + n - 1 - j)
      else if b + n \<le> j \<and> j < b + l then i64_min else vget v j)"
  by (simp_all add: call_locals_def)

lemma vec64_eqI: "vlen v = vlen w \<Longrightarrow> (\<And>i. vget v i = vget w i) \<Longrightarrow> (v::vec64) = w"
  by (cases v; cases w) auto

lemma post_enter_function:
  assumes ok: "MAX_LOCAL_SLOTS \<le> vlen (vm_locals s)" and valid: "n \<le> local_count f"
    and E: "\<And>m. E (Trap StackOverflow m) s"
    and under: "\<And>ls. length (vm_stack s) < n \<Longrightarrow> vlen ls = vlen (vm_locals s) \<Longrightarrow>
           E (Trap StackUnderflow ''Stack underflow'') (s\<lparr>vm_stack := [], vm_locals := ls\<rparr>)"
    and Q: "caller_base s + caller_locals p s + local_count f \<le> MAX_LOCAL_SLOTS \<Longrightarrow>
           n \<le> length (vm_stack s) \<Longrightarrow>
           Q False (s\<lparr>vm_stack := drop n (vm_stack s),
              vm_locals := call_locals (caller_base s + caller_locals p s) n (local_count f)
                             (vm_stack s) (vm_locals s),
              vm_calls := \<lparr>return_pc = vm_pc s + 1, base_ptr = caller_base s + caller_locals p s,
                             frame_func = i\<rparr> # vm_calls s,
              vm_pc := entry_pc f\<rparr>)"
  shows "post (enter_function p i n f s) Q E"
proof -
  let ?b = "caller_base s + caller_locals p s"
  let ?l = "call_locals ?b n (local_count f) (vm_stack s) (vm_locals s)"
  let ?fr = "\<lparr>return_pc = vm_pc s + 1, base_ptr = ?b, frame_func = i\<rparr>"
  have "post (copy_args ?b n s) (\<lambda>_ t. post (clear_locals [n..<local_count f] ?b t)
      (\<lambda>_ t. Q False (t\<lparr>vm_calls := \<lparr>return_pc = vm_pc t + 1, base_ptr = ?b, frame_func = i\<rparr> # vm_calls t,
              vm_pc := entry_pc f\<rparr>)) E) E"
    if fits: "?b + local_count f \<le> MAX_LOCAL_SLOTS"
  proof -
    have len: "?b + local_count f \<le> vlen (vm_locals s)"
      using fits ok by simp
    show ?thesis
    proof (rule post_copy_args)
      show "?b + n \<le> vlen (vm_locals s)" using len valid by simp
    next
      fix st and ls :: vec64
      assume st: "length (vm_stack s) \<ge> n" "st = drop n (vm_stack s)"
        and ls: "vlen ls = vlen (vm_locals s)"
          "\<And>j. vget ls j = (if ?b \<le> j \<and> j < ?b + n then vm_stack s ! (?b + n - 1 - j)
                            else vget (vm_locals s) j)"
      show "post (clear_locals [n..<local_count f] ?b (s\<lparr>vm_stack := st, vm_locals := ls\<rparr>))
          (\<lambda>_ t. Q False (t\<lparr>vm_calls := \<lparr>return_pc = vm_pc t + 1, base_ptr = ?b, frame_func = i\<rparr>
                  # vm_calls t, vm_pc := entry_pc f\<rparr>)) E"
      proof (rule post_clear_locals)
        fix j
        assume "j \<in> set [n..<local_count f]"
        then show "?b + j < vlen (vm_locals (s\<lparr>vm_stack := st, vm_locals := ls\<rparr>))"
          using len ls by simp
      next
        fix ls' :: vec64
        assume ls': "vlen ls' = vlen (vm_locals (s\<lparr>vm_stack := st, vm_locals := ls\<rparr>))"
          "\<And>j. vget ls' j = (if \<exists>i\<in>set [n..<local_count f]. j = ?b + i then i64_min
                  else vget (vm_locals (s\<lparr>vm_stack := st, vm_locals := ls\<rparr>)) j)"
        have idx: "(\<exists>i\<in>{n..<local_count f}. j = ?b + i) \<longleftrightarrow> ?b + n \<le> j \<and> j < ?b + local_count f" for j
          by (auto intro!: bexI [of _ "j - ?b"])
        have "ls' = ?l"
          by (rule vec64_eqI) (simp_all add: ls' ls idx)
        with Q [OF fits st(1)] st(2)
        show "Q False (s\<lparr>vm_stack := st, vm_locals := ls, vm_locals := ls'\<rparr>
          \<lparr>vm_calls := \<lparr>return_pc = vm_pc (s\<lparr>vm_stack := st, vm_locals := ls, vm_locals := ls'\<rparr>) + 1,
             base_ptr = ?b, frame_func = i\<rparr>
             # vm_calls (s\<lparr>vm_stack := st, vm_locals := ls, vm_locals := ls'\<rparr>), vm_pc := entry_pc f\<rparr>)"
          by simp
      qed
    qed (rule under)
  qed
  then show ?thesis
    by (simp add: enter_function_def checked_add_def Let_def E)
qed

lemma post_exec_call:
  assumes ok: "vm_ok s" and valid: "functions_valid p"
    and E: "\<And>c m. c \<noteq> StackUnderflow \<Longrightarrow> E (Trap c m) s"
    and under: "\<And>f ls. fun_lookup p (nat a1) = Some f \<Longrightarrow> nat a2 = param_count f \<Longrightarrow> 0 \<le> a1 \<Longrightarrow> 0 \<le> a2 \<Longrightarrow>
           length (vm_stack s) < param_count f \<Longrightarrow> vlen ls = vlen (vm_locals s) \<Longrightarrow>
           E (Trap StackUnderflow ''Stack underflow'') (s\<lparr>vm_stack := [], vm_locals := ls\<rparr>)"
    and Q: "\<And>f. 0 \<le> a1 \<Longrightarrow> 0 \<le> a2 \<Longrightarrow> fun_lookup p (nat a1) = Some f \<Longrightarrow> nat a2 = param_count f \<Longrightarrow>
           length (vm_calls s) < MAX_FRAMES \<Longrightarrow>
           caller_base s + caller_locals p s + local_count f \<le> MAX_LOCAL_SLOTS \<Longrightarrow>
           param_count f \<le> length (vm_stack s) \<Longrightarrow>
           Q False (s\<lparr>vm_stack := drop (param_count f) (vm_stack s),
              vm_locals := call_locals (caller_base s + caller_locals p s) (param_count f)
                             (local_count f) (vm_stack s) (vm_locals s),
              vm_calls := \<lparr>return_pc = vm_pc s + 1, base_ptr = caller_base s + caller_locals p s,
                             frame_func = nat a1\<rparr> # vm_calls s,
              vm_pc := entry_pc f\<rparr>)"
  shows "post (exec_call p a1 a2 s) Q E"
proof -
  have "MAX_LOCAL_SLOTS \<le> vlen (vm_locals s)" using ok by (simp add: vm_ok_def)
  then show ?thesis
    by (simp add: exec_call_def Let_def E split: option.split)
      (auto intro!: post_enter_function E under Q fun_lookup_valid [OF valid])
qed

section \<open>The exact effect of the array instructions\<close>

lemma vm_ok_fields: "vm_ok s \<Longrightarrow> vlen (vm_globals s) = MAX_GLOBAL_SLOTS" "vm_ok s \<Longrightarrow> MAX_LOCAL_SLOTS \<le> vlen (vm_locals s)"
  by (simp_all add: vm_ok_def)

lemma current_local_slot_stack [simp]:
  "current_local_slot p a (s\<lparr>vm_stack := st\<rparr>) = current_local_slot p a s"
  unfolding current_local_slot_def by simp

lemma array_index_Inl: "array_index raw n = Inl e \<Longrightarrow> \<exists>m. e = Trap ArrayOutOfBounds m"
  by (auto simp: array_index_def Let_def split: if_splits)
lemma local_array_base_Inl: "local_array_base r n s = Inl e \<Longrightarrow> r < vlen (vm_locals s) \<Longrightarrow>
  (\<exists>m. e = Trap InvalidInstruction m) \<or> (vget (vm_locals s) r = i64_min \<and> (\<exists>m. e = Trap UndefinedLocal m))"
  by (auto simp: local_array_base_def locals_get_def Let_def split: if_splits option.splits)

lemma post_array_load:
  assumes "global_array_range a1 a2 s = Inr (b, n)" "b + n \<le> vlen (vm_globals s)"
    "length (vm_stack s) \<le> MAX_OPERAND_STACK" "vm_stack s = raw # st"
    "\<And>m. E (Trap ArrayOutOfBounds m) (s\<lparr>vm_stack := st\<rparr>)"
    "0 \<le> raw \<Longrightarrow> nat raw < n \<Longrightarrow> Q True (s\<lparr>vm_stack := vget (vm_globals s) (b + nat raw) # st\<rparr>)"
  shows "post (exec_array_load a1 a2 s) Q E"
proof (cases "array_index raw n")
  case (Inl e)
  with assms show ?thesis by (auto simp: exec_array_load_def wp_simps dest: array_index_Inl)
next
  case (Inr i)
  then have i: "0 \<le> raw" "i = nat raw" "nat raw < n" by (auto simp: array_index_Inr)
  then have "b + i < vlen (vm_globals s)" using assms(2) by linarith
  with assms Inr i show ?thesis by (simp add: exec_array_load_def globals_get_def wp_simps)
qed

lemma post_array_store:
  assumes "global_array_range a1 a2 s = Inr (b, n)" "b + n \<le> vlen (vm_globals s)"
    "vm_stack s = v # raw # st"
    "\<And>m. E (Trap ArrayOutOfBounds m) (s\<lparr>vm_stack := st\<rparr>)"
    "0 \<le> raw \<Longrightarrow> nat raw < n \<Longrightarrow> Q True (s\<lparr>vm_stack := st, vm_globals := vec_set (vm_globals s) (b + nat raw) v\<rparr>)"
  shows "post (exec_array_store a1 a2 s) Q E"
proof (cases "array_index raw n")
  case (Inl e)
  with assms show ?thesis by (auto simp: exec_array_store_def wp_simps dest: array_index_Inl)
next
  case (Inr i)
  then have i: "0 \<le> raw" "i = nat raw" "nat raw < n" by (auto simp: array_index_Inr)
  then have "b + i < vlen (vm_globals s)" using assms(2) by linarith
  with assms Inr i show ?thesis by (simp add: exec_array_store_def wp_simps)
qed

lemma post_local_array_load:
  assumes "0 \<le> a2" "current_local_slot p a1 s = Inr slot" "slot < vlen (vm_locals s)"
    "length (vm_stack s) \<le> MAX_OPERAND_STACK" "vm_stack s = raw # st"
    "\<And>m. E (Trap ArrayOutOfBounds m) (s\<lparr>vm_stack := st\<rparr>)"
    "\<And>m. vget (vm_locals s) slot = i64_min \<Longrightarrow> E (Trap UndefinedLocal m) (s\<lparr>vm_stack := st\<rparr>)"
    "\<And>m. E (Trap InvalidInstruction m) (s\<lparr>vm_stack := st\<rparr>)"
    "\<And>i. i < vlen (vm_locals s) \<Longrightarrow> Q True (s\<lparr>vm_stack := vget (vm_locals s) i # st\<rparr>)"
  shows "post (exec_local_array_load p a1 a2 s) Q E"
proof (cases "array_index raw (nat a2)")
  case (Inl e)
  with assms show ?thesis by (auto simp: exec_local_array_load_def array_size_def wp_simps dest: array_index_Inl)
next
  case (Inr i)
  then have i: "0 \<le> raw" "i = nat raw" "nat raw < nat a2" by (auto simp: array_index_Inr)
  let ?s = "s\<lparr>vm_stack := st\<rparr>"
  have slot: "current_local_slot p a1 ?s = Inr slot" using assms(2) by simp
  show ?thesis
  proof (cases "local_array_base slot (nat a2) ?s")
    case base: (Inl e)
    with local_array_base_Inl [OF base] assms Inr i slot show ?thesis
      by (auto simp: exec_local_array_load_def array_size_def wp_simps)
  next
    case base: (Inr b)
    have "i < nat a2" using i(2,3) by (simp only:)
    moreover have "b + nat a2 \<le> vlen (vm_locals s)" using local_array_base_Inr [OF base] by simp
    ultimately have "b + i < vlen (vm_locals s)" by linarith
    with base assms Inr i slot show ?thesis
      by (simp add: exec_local_array_load_def array_size_def locals_get_def wp_simps)
  qed
qed

lemma post_local_array_store:
  assumes "0 \<le> a2" "current_local_slot p a1 s = Inr slot" "slot < vlen (vm_locals s)"
    "vm_stack s = v # raw # st"
    "\<And>m. E (Trap ArrayOutOfBounds m) (s\<lparr>vm_stack := st\<rparr>)"
    "\<And>m. vget (vm_locals s) slot = i64_min \<Longrightarrow> E (Trap UndefinedLocal m) (s\<lparr>vm_stack := st\<rparr>)"
    "\<And>m. E (Trap InvalidInstruction m) (s\<lparr>vm_stack := st\<rparr>)"
    "\<And>i. i < vlen (vm_locals s) \<Longrightarrow> Q True (s\<lparr>vm_stack := st, vm_locals := vec_set (vm_locals s) i v\<rparr>)"
  shows "post (exec_local_array_store p a1 a2 s) Q E"
proof (cases "array_index raw (nat a2)")
  case (Inl e)
  with assms show ?thesis by (auto simp: exec_local_array_store_def array_size_def wp_simps dest: array_index_Inl)
next
  case (Inr i)
  then have i: "0 \<le> raw" "i = nat raw" "nat raw < nat a2" by (auto simp: array_index_Inr)
  let ?s = "s\<lparr>vm_stack := st\<rparr>"
  have slot: "current_local_slot p a1 ?s = Inr slot" using assms(2) by simp
  show ?thesis
  proof (cases "local_array_base slot (nat a2) ?s")
    case base: (Inl e)
    with local_array_base_Inl [OF base] assms Inr i slot show ?thesis
      by (auto simp: exec_local_array_store_def array_size_def wp_simps)
  next
    case base: (Inr b)
    have "i < nat a2" using i(2,3) by (simp only:)
    moreover have "b + nat a2 \<le> vlen (vm_locals s)" using local_array_base_Inr [OF base] by simp
    ultimately have "b + i < vlen (vm_locals s)" by linarith
    with base assms Inr i slot show ?thesis
      by (simp add: exec_local_array_store_def array_size_def wp_simps)
  qed
qed
section \<open>Invariants on the values in the machine\<close>

text \<open>
  \<open>values_sat P\<close>: every value on the operand stack and in a global satisfies \<open>P\<close>, and every local
  slot does or holds the undefined marker.
\<close>

definition values_sat :: "(i64 \<Rightarrow> bool) \<Rightarrow> vm \<Rightarrow> bool" where
  "values_sat P s \<longleftrightarrow>
     (\<forall>v \<in> set (vm_stack s). P v) \<and> (\<forall>i. P (vget (vm_globals s) i)) \<and>
     (\<forall>i. vget (vm_locals s) i = i64_min \<or> P (vget (vm_locals s) i))"

lemma truth_i32 [simp]: "is_i32 (truth b)"
  by (simp add: truth_def)

locale value_invariant =
  fixes P :: "i64 \<Rightarrow> bool" and fits :: "nat \<Rightarrow> bool"
  assumes i32_ok: "is_i32 v \<Longrightarrow> P v"
    and base_ok: "fits n \<Longrightarrow> P (int n)"
begin

lemma new_ok: "values_sat P vm_new"
  by (simp add: values_sat_def vm_new_def i32_ok)

lemma stack_hd: "values_sat P s \<Longrightarrow> vm_stack s = v # st \<Longrightarrow> P v"
  by (simp add: values_sat_def)

lemma call_ok:
  assumes "values_sat P s" "n \<le> length (vm_stack s)"
  shows "values_sat P (s\<lparr>vm_stack := drop n (vm_stack s),
           vm_locals := call_locals b n l (vm_stack s) (vm_locals s), vm_calls := c, vm_pc := q\<rparr>)"
  using assms by (auto simp: values_sat_def dest: in_set_dropD)

lemma execute_values:
  assumes "values_sat P s" "vm_ok s" "functions_valid p" "is_i32 a1" "fits (vlen (vm_locals s))"
    and "opc \<noteq> Op_LocalArrayLoad"
  shows "post (execute_instruction p opc a1 a2 s) (\<lambda>_ t. values_sat P t) (\<lambda>_ _. True)"
proof (cases "opc = Op_Call")
  case True
  with assms show ?thesis by (auto intro!: post_exec_call call_ok)
next
  case False
  with assms show ?thesis
    by (cases opc) (auto simp: exec_defs wp_simps values_sat_def i32_ok base_ok Let_def
        globals_get_Inr locals_get_Inr split: list.split)
qed

end

text \<open>No value on the stack or in a global is the undefined marker.\<close>

interpretation defined_values: value_invariant "\<lambda>v. v \<noteq> i64_min" "\<lambda>_. True"
  by unfold_locales (auto simp: is_i32_def i64_min_def)

text \<open>All values are 32-bit integers, as long as the local storage is smaller than that.\<close>

interpretation small_values: value_invariant is_i32 "\<lambda>n. n \<le> 2147483647"
  by unfold_locales (auto simp: is_i32_def)

section \<open>Panics\<close>

text \<open>
  Indexing, unwrapping and storage never panic; the only instructions that can are \<open>Div\<close> and
  \<open>Neg\<close>, on the undefined marker.
\<close>

lemma execute_panics:
  assumes ok: "vm_ok s" and valid: "functions_valid p" and calls: "vm_calls s \<noteq> []"
  shows "post (execute_instruction p opc a1 a2 s) (\<lambda>_ _. True)
     (\<lambda>e _. \<forall>m. e = Panic m \<longrightarrow> opc \<in> {Op_Div, Op_Neg} \<and> i64_min \<in> set (vm_stack s))"
proof (cases "opc = Op_Call")
  case True
  with assms show ?thesis by (auto intro!: post_exec_call)
next
  case False
  with assms show ?thesis
    by (cases opc)
      (auto simp: exec_defs wp_simps vm_ok_def Let_def reader_not_panic stack_overflow_error_def
        locals_get_Inl globals_get_Inl global_slot_Inr array_index_Inr array_size_Inr
        dest!: current_local_slot_Inr local_array_base_panic local_array_base_Inr
          global_array_range_Inr
        split: list.split)
qed

text \<open>
  Instruction operands are \<open>i32\<close> fields in the source; \<open>typed_program\<close> states their range.
\<close>

definition typed_program :: "compiled_program \<Rightarrow> bool" where
  "typed_program p \<longleftrightarrow> (\<forall>i \<in> set (instructions p). is_i32 (arg1 i) \<and> is_i32 (arg2 i))"

definition uses_opcode :: "compiled_program \<Rightarrow> opcode \<Rightarrow> bool" where
  "uses_opcode p opc \<longleftrightarrow> (\<exists>i \<in> set (instructions p). opcode i = opc)"

lemma first_error_None: "first_error f xs = None \<longleftrightarrow> (\<forall>x \<in> set xs. f x = None)"
  by (induction xs) (auto split: option.split)

section \<open>Runs without panics\<close>

lemma validate_program_functions: "validate_program p = None \<Longrightarrow> functions_valid p"
  by (auto simp: validate_program_def first_error_None functions_valid_def validate_function_def
      split: if_splits option.splits)

lemma values_sat_fields [simp]:
  "values_sat P (s\<lparr>vm_cycles := c\<rparr>) = values_sat P s" "values_sat P (s\<lparr>vm_pc := i\<rparr>) = values_sat P s"
  "values_sat P (record_trace st oc s) = values_sat P s"
  by (simp_all add: values_sat_def)

definition panic_free :: "compiled_program \<Rightarrow> vm \<Rightarrow> bool" where
  "panic_free p s \<longleftrightarrow> (\<exists>k. running k s) \<and> functions_valid p \<and> typed_program p \<and>
     \<not> uses_opcode p Op_LocalArrayLoad \<and> values_sat (\<lambda>v. v \<noteq> i64_min) s \<and> vm_calls s \<noteq> []"

lemma exec_current_values:
  assumes "panic_free p s" "vm_pc s < length (instructions p)"
  shows "post (exec_current p s) (\<lambda>_ t. values_sat (\<lambda>v. v \<noteq> i64_min) t) (\<lambda>e _. \<forall>m. e \<noteq> Panic m)"
proof -
  let ?i = "instructions p ! vm_pc s" and ?s = "s\<lparr>vm_cycles := vm_cycles s + 1\<rparr>"
  have i: "?i \<in> set (instructions p)" using assms(2) by simp
  have s: "vm_ok ?s" "values_sat (\<lambda>v. v \<noteq> i64_min) ?s" "vm_calls ?s \<noteq> []" "functions_valid p"
    "is_i32 (arg1 ?i)" "opcode ?i \<noteq> Op_LocalArrayLoad"
    using assms(1) i by (auto simp: panic_free_def running_def vm_ok_def typed_program_def uses_opcode_def)
  from s(2) have "i64_min \<notin> set (vm_stack ?s)" by (auto simp: values_sat_def)
  then show ?thesis
    using defined_values.execute_values [OF s(2,1,4,5) _ s(6), of "arg2 ?i"]
      execute_panics [OF s(1,4,3), of "opcode ?i" "arg1 ?i" "arg2 ?i"]
    by (auto simp: exec_current_def Let_def post_def split: sum.splits)
qed

interpretation panic_loop: bounded_loop "vm_step p" "panic_free p" cycles_left for p
proof
  fix p s t
  assume s: "panic_free p s" and t: "vm_step p s = (Inr t :: vm_exit + vm)"
  from t obtain a u st oc where u: "vm_pc s < length (instructions p)" "exec_current p s = (Inr a, u)" "vm_calls u \<noteq> []"
    "t = record_trace st oc (if a then u\<lparr>vm_pc := vm_pc u + 1\<rparr> else u)"
    by (rule vm_step_Inr)
  from s obtain k where "running k s" by (auto simp: panic_free_def)
  note run = vm_step_running [OF this t]
  from post_Inr [OF exec_current_values [OF s u(1)] u(2)] u(3,4) s
  have "values_sat (\<lambda>v. v \<noteq> i64_min) t" "vm_calls t \<noteq> []" by simp_all
  with run(1) s show "panic_free p t" unfolding panic_free_def by blast
  show "cycles_left t < cycles_left s" by (rule run(2))
qed

lemma panic_free_exit: "panic_free p s \<Longrightarrow> vm_step p s = Inl x \<Longrightarrow> \<exists>res t. x = (Inr res, t)"
  by (erule vm_step_Inl)
    (auto simp: finish_def elim!: after_instruction_Inl dest: post_Inl [OF exec_current_values])

section \<open>Resource bounds of a result\<close>

definition within_limits :: "nat \<Rightarrow> vm_exit \<Rightarrow> bool" where
  "within_limits k x \<longleftrightarrow> (\<forall>res. fst x = Inr res \<longrightarrow>
     res_cycles res \<le> k \<and> stack_depth res \<le> MAX_OPERAND_STACK \<and> frame_depth res \<le> MAX_FRAMES)"

lemma trap_within_limits:
  "vm_ok s \<Longrightarrow> vm_cycles s \<le> k \<Longrightarrow> within_limits k (finish (make_trap_result c m s))"
  by (simp add: within_limits_def finish_def make_trap_result_def vm_ok_def)

lemma exit_within_limits:
  "vm_ok s \<Longrightarrow> vm_cycles s \<le> k \<Longrightarrow> within_limits k (finish (exit_result s))"
  by (auto simp: within_limits_def finish_def exit_result_def take_top_def vm_ok_def Let_def split: list.split)

lemma running_exit_limits:
  assumes "running k s" "vm_step p s = Inl x"
  shows "within_limits k x"
  using assms(2)
proof (cases rule: vm_step_Inl)
  case (instr st)
  have less: "vm_cycles s + 1 \<le> k" using instr(2) assms(1) by (simp add: running_def)
  have ok: "vm_ok s" using assms(1) by (simp add: running_def)
  note ctl = exec_current_same_control [of p s] and vok = exec_current_ok [OF ok, of p]
  from instr(3) show ?thesis
  proof (cases rule: after_instruction_Inl)
    case (trap code msg u)
    with post_Inl [OF ctl trap(1)] post_Inl [OF vok trap(1)] less show ?thesis
      by (auto simp: same_control_def intro!: trap_within_limits)
  next
    case (panic msg u)
    then show ?thesis by (simp add: within_limits_def)
  next
    case (exit a u)
    with post_Inr [OF ctl exit(1)] post_Inr [OF vok exit(1)] less show ?thesis
      by (auto simp: same_control_def intro!: exit_within_limits)
  qed
qed (use assms(1) in \<open>auto simp: running_def intro!: trap_within_limits\<close>)

lemma vm_new_fields [simp]:
  "vm_ok (with_max_cycles k vm_new)" "vm_cycles (with_max_cycles k vm_new) = 0"
  "vm_max_cycles (with_max_cycles k vm_new) = k" "vm_calls (with_max_cycles k vm_new) = []"
  "values_sat (\<lambda>v. v \<noteq> i64_min) (with_max_cycles k vm_new)"
  using vm_ok_new by (simp_all add: with_max_cycles_def vm_new_def vm_ok_def values_sat_def)

lemma vm_start_fields [simp]:
  "vm_cycles (vm_start m s) = vm_cycles s" "vm_max_cycles (vm_start m s) = vm_max_cycles s"
  "vm_calls (vm_start m s) \<noteq> []" "values_sat P (vm_start m s) = values_sat P s"
  by (simp_all add: vm_start_def values_sat_def)

lemma running_start: "0 < k \<Longrightarrow> running k (vm_start m (with_max_cycles k vm_new))"
  by (simp add: running_def vm_start_def with_max_cycles_def vm_new_def vm_ok_def limit_defs)

lemma run_within_limits:
  assumes "0 < k"
  shows "\<exists>x. vm_run p (with_max_cycles k vm_new) = Some x \<and> within_limits k x"
proof -
  have loop: "\<exists>x. iterate (vm_step p) (vm_start m (with_max_cycles k vm_new)) = Some x \<and> within_limits k x" for m
    using vm_loop.exit_state [OF running_start [OF assms]] running_exit_limits by blast
  have trap: "\<exists>x. Some (finish (make_trap_result c m (with_max_cycles k vm_new))) = Some x \<and> within_limits k x" for c m
    using trap_within_limits by simp
  show ?thesis
    unfolding vm_run_def by (auto simp only: loop trap split: option.split if_split)
qed

text \<open>
  C11: A run of the machine with a cycle limit always returns, and a result it returns respects the
  resource limits: at most \<open>k\<close> cycles, 1000 operands and 100 frames.
\<close>

theorem vm_run_within_limits:
  assumes "0 < k"
  shows "\<exists>x. vm_run p (with_max_cycles k vm_new) = Some x \<and> within_limits k x"
  using assms by (rule run_within_limits)

text \<open>
  C19: A run with a cycle limit of any program without \<open>LocalArrayLoad\<close>, verified or not, returns
  a \<open>VmResult\<close>: no index, no \<open>unwrap\<close> and no arithmetic of the machine panics.
\<close>

theorem vm_run_no_panic:
  assumes "0 < k" "typed_program p" "\<not> uses_opcode p Op_LocalArrayLoad"
  shows "\<exists>res t. vm_run p (with_max_cycles k vm_new) = Some (Inr res, t)"
proof -
  have "\<exists>res t. iterate (vm_step p) (vm_start m (with_max_cycles k vm_new)) = Some (Inr res, t)"
    if "functions_valid p" for m
  proof -
    have "panic_free p (vm_start m (with_max_cycles k vm_new))"
      using assms that running_start [OF assms(1)] by (auto simp: panic_free_def)
    from panic_loop.exit_state [OF this] panic_free_exit show ?thesis by metis
  qed
  then show ?thesis
    by (auto simp: vm_run_def finish_def dest: validate_program_functions split: option.split)
qed

section \<open>Tracing does not influence a run\<close>

definition forget_trace :: "vm \<Rightarrow> vm" where
  "forget_trace s = s\<lparr>vm_trace := None\<rparr>"

lemma forget_trace_fields [simp]:
  "vm_stack (forget_trace s) = vm_stack s" "vm_locals (forget_trace s) = vm_locals s"
  "vm_globals (forget_trace s) = vm_globals s" "vm_calls (forget_trace s) = vm_calls s"
  "vm_pc (forget_trace s) = vm_pc s" "vm_cycles (forget_trace s) = vm_cycles s"
  "vm_max_cycles (forget_trace s) = vm_max_cycles s" "vm_output (forget_trace s) = vm_output s"
  "vm_trace (forget_trace s) = None"
  "(forget_trace s)\<lparr>vm_stack := st\<rparr> = forget_trace (s\<lparr>vm_stack := st\<rparr>)"
  "(forget_trace s)\<lparr>vm_locals := ls\<rparr> = forget_trace (s\<lparr>vm_locals := ls\<rparr>)"
  "(forget_trace s)\<lparr>vm_globals := gs\<rparr> = forget_trace (s\<lparr>vm_globals := gs\<rparr>)"
  "(forget_trace s)\<lparr>vm_calls := cs\<rparr> = forget_trace (s\<lparr>vm_calls := cs\<rparr>)"
  "(forget_trace s)\<lparr>vm_pc := i\<rparr> = forget_trace (s\<lparr>vm_pc := i\<rparr>)"
  "(forget_trace s)\<lparr>vm_cycles := c\<rparr> = forget_trace (s\<lparr>vm_cycles := c\<rparr>)"
  "(forget_trace s)\<lparr>vm_output := out\<rparr> = forget_trace (s\<lparr>vm_output := out\<rparr>)"
  by (simp_all add: forget_trace_def)

lemma forget_trace_readers [simp]:
  "current_local_slot p a (forget_trace s) = current_local_slot p a s"
  "global_slot a (forget_trace s) = global_slot a s"
  "global_array_range a b (forget_trace s) = global_array_range a b s"
  "locals_get (forget_trace s) i = locals_get s i"
  "globals_get (forget_trace s) i = globals_get s i"
  "local_array_base i n (forget_trace s) = local_array_base i n s"
  "caller_base (forget_trace s) = caller_base s" "caller_locals p (forget_trace s) = caller_locals p s"
  unfolding current_local_slot_def global_slot_def global_array_range_def locals_get_def globals_get_def
    local_array_base_def caller_base_def caller_locals_def forget_trace_fields by (rule refl)+

lemma forget_trace_ops [simp]:
  "pop (forget_trace s) = map_prod id forget_trace (pop s)"
  "push v (forget_trace s) = map_prod id forget_trace (push v s)"
  "locals_set i v (forget_trace s) = map_prod id forget_trace (locals_set i v s)"
  "globals_set i v (forget_trace s) = map_prod id forget_trace (globals_set i v s)"
  by (simp_all add: pop_def push_def locals_set_def globals_set_def split: list.split)

lemma forget_trace_push_next [simp]:
  "push_next v (forget_trace s) = map_prod id forget_trace (push_next v s)"
  by (auto simp: push_next_def intro!: bnd_commute)

lemma forget_trace_copy_args [simp]:
  "copy_args b n (forget_trace s) = map_prod id forget_trace (copy_args b n s)"
  by (induction n arbitrary: s) (auto intro!: bnd_commute)

lemma forget_trace_clear_locals [simp]:
  "clear_locals is b (forget_trace s) = map_prod id forget_trace (clear_locals is b s)"
  by (induction "is" arbitrary: s) (auto intro!: bnd_commute)

lemma forget_trace_call [simp]:
  "exec_call p a1 a2 (forget_trace s) = map_prod id forget_trace (exec_call p a1 a2 s)"
  by (auto simp: exec_call_def enter_function_def Let_def intro!: bnd_commute split: option.split)

lemma forget_trace_execute:
  "execute_instruction p opc a1 a2 (forget_trace s) = map_prod id forget_trace (execute_instruction p opc a1 a2 s)"
  by (cases opc) (auto simp: exec_defs Let_def intro!: bnd_commute split: list.split)

lemma record_trace_forget [simp]:
  "record_trace st oc (forget_trace s) = forget_trace s"
  "forget_trace (record_trace st oc s) = forget_trace s"
  by (simp_all add: record_trace_def forget_trace_def split: option.split)

lemma forget_trace_results [simp]:
  "finish (make_trap_result c m (forget_trace s)) = map_prod id forget_trace (finish (make_trap_result c m s))"
  "finish (make_trap_result c m (record_trace st oc s)) =
     map_prod id (\<lambda>t. (record_trace st oc s)\<lparr>vm_output := []\<rparr>) (finish (make_trap_result c m s))"
  "finish (exit_result (forget_trace s)) = map_prod id forget_trace (finish (exit_result s))"
  by (simp_all add: finish_def make_trap_result_def exit_result_def take_top_def Let_def split: list.split)

lemma exit_result_record [simp]:
  "map_prod id forget_trace (finish (exit_result (record_trace st oc s))) = map_prod id forget_trace (finish (exit_result s))"
  by (auto simp: finish_def exit_result_def take_top_def Let_def record_trace_def forget_trace_def
      split: list.split option.split)

lemma after_instruction_forget:
  "after_instruction st' (map_prod id forget_trace r) =
     map_sum (map_prod id forget_trace) forget_trace (after_instruction st r)"
proof (cases r)
  case (Pair x t)
  show ?thesis
  proof (cases x)
    case (Inl e)
    then show ?thesis
      by (cases e) (simp_all add: Pair after_instruction_def finish_def make_trap_result_def forget_trace_def
          record_trace_def split: option.split)
  next
    case (Inr a)
    then show ?thesis by (simp add: Pair after_instruction_def Let_def)
  qed
qed

lemma vm_step_forget:
  "vm_step p (forget_trace s) = map_sum (map_prod id forget_trace) forget_trace (vm_step p s)"
proof -
  have "exec_current p (forget_trace s) = map_prod id forget_trace (exec_current p s)"
    by (simp add: exec_current_def Let_def forget_trace_execute)
  then show ?thesis
    by (auto simp: vm_step_def simp del: forget_trace_execute intro: after_instruction_forget)
qed

lemma running_trace [simp]: "running k (vm_start m (with_trace s)) = running k (vm_start m s)"
  by (simp add: running_def vm_start_def with_trace_def vm_ok_def)

text \<open>
  C21: Tracing does not influence a run: the traced run ends with the same result and, but for the
  recorded events, in the same machine as the run without a trace.
\<close>

theorem vm_trace_transparent:
  assumes "0 < k"
  shows "vm_run p (with_max_cycles k vm_new) =
     map_option (map_prod id forget_trace) (vm_run p (with_trace (with_max_cycles k vm_new)))"
proof -
  let ?s = "with_max_cycles k vm_new"
  have start: "vm_start m ?s = forget_trace (vm_start m (with_trace ?s))" for m
    by (simp add: vm_start_def with_trace_def with_max_cycles_def vm_new_def forget_trace_def)
  have s: "?s = forget_trace (with_trace ?s)"
    by (simp add: with_trace_def with_max_cycles_def vm_new_def forget_trace_def)
  have loop: "iterate (vm_step p) (vm_start m ?s) =
      map_option (map_prod id forget_trace) (iterate (vm_step p) (vm_start m (with_trace ?s)))" for m
  proof -
    obtain x where x: "iterate (vm_step p) (vm_start m (with_trace ?s)) = Some x"
      using vm_loop.returns [of k "vm_start m (with_trace ?s)" p] running_start [OF assms] by auto
    from iterate_map [where h = forget_trace, OF this vm_step_forget] x show ?thesis
      unfolding start by (simp add: id_def)
  qed
  have trap: "Some (finish (make_trap_result c m ?s)) =
      map_option (map_prod id forget_trace) (Some (finish (make_trap_result c m (with_trace ?s))))" for c m
    by (subst s) simp
  show ?thesis
    unfolding vm_run_def using loop trap by (simp split: option.split)
qed

section \<open>The trace is the path of the run\<close>

definition follows :: "trace_event \<Rightarrow> trace_event \<Rightarrow> bool" where
  "follows a b \<longleftrightarrow> ev_cycle b = ev_cycle a + 1 \<and> ev_pc b = ev_next_pc a \<and>
     ev_stack_before b = ev_stack_after a \<and> ev_frame_depth_before b = ev_frame_depth_after a"

definition trace_ends_at :: "vm \<Rightarrow> trace_event \<Rightarrow> bool" where
  "trace_ends_at s e \<longleftrightarrow> ev_cycle e = vm_cycles s \<and> ev_next_pc e = vm_pc s \<and>
     ev_stack_after e = rev (vm_stack s) \<and> ev_frame_depth_after e = length (vm_calls s)"

definition path_so_far :: "vm \<Rightarrow> trace_event list \<Rightarrow> bool" where
  "path_so_far s evs \<longleftrightarrow> length evs = vm_cycles s \<and> successively follows evs \<and>
     (evs \<noteq> [] \<longrightarrow> trace_ends_at s (last evs))"

lemma path_so_far_record:
  assumes "path_so_far s evs" "vm_trace s = Some evs"
    "vm_cycles u = vm_cycles s + 1" "vm_trace u = vm_trace s" "st = fetch_step i s"
  shows "\<exists>evs'. vm_trace (record_trace st oc u) = Some evs' \<and> path_so_far (record_trace st oc u) evs'"
  using assms
  by (auto simp: record_trace_def path_so_far_def successively_append_iff follows_def trace_ends_at_def
      fetch_step_def)

definition traced :: "nat \<Rightarrow> vm \<Rightarrow> bool" where
  "traced k s \<longleftrightarrow> running k s \<and> (\<exists>evs. vm_trace s = Some evs \<and> path_so_far s evs)"

lemma exec_current_control:
  assumes "exec_current p s = (x, u)"
  shows "vm_cycles u = vm_cycles s + 1" "vm_trace u = vm_trace s"
proof -
  have "same_control (s\<lparr>vm_cycles := vm_cycles s + 1\<rparr>) u"
    using post_Inl [OF exec_current_same_control] post_Inr [OF exec_current_same_control] assms
    by (cases x) blast+
  then show "vm_cycles u = vm_cycles s + 1" "vm_trace u = vm_trace s"
    by (simp_all add: same_control_def)
qed

lemma traced_step:
  assumes "traced k s" "vm_step p s = Inr t"
  shows "traced k t"
proof -
  from assms(2) obtain a u st oc where u: "exec_current p s = (Inr a, u)"
    and t: "t = record_trace st oc (if a then u\<lparr>vm_pc := vm_pc u + 1\<rparr> else u)"
    and st: "st = fetch_step (instructions p ! vm_pc s) s"
    by (rule vm_step_Inr)
  from assms(1) obtain evs where evs: "vm_trace s = Some evs" "path_so_far s evs" by (auto simp: traced_def)
  have "\<exists>evs'. vm_trace t = Some evs' \<and> path_so_far t evs'"
    unfolding t by (rule path_so_far_record [OF evs(2,1) _ _ st]) (simp_all add: exec_current_control [OF u])
  moreover have "running k t" using assms vm_step_running by (auto simp: traced_def)
  ultimately show ?thesis by (simp add: traced_def)
qed

interpretation traced_loop: bounded_loop "vm_step p" "traced k" cycles_left for p k
proof
  fix p k s t
  assume "traced k s" "vm_step p s = (Inr t :: vm_exit + vm)"
  then show "traced k t" "cycles_left t < cycles_left s"
    using traced_step vm_step_running(2) unfolding traced_def by blast+
qed

text \<open>A trace is complete when it has one event per executed instruction, each following the last.\<close>

definition complete_trace :: "vm_exit \<Rightarrow> bool" where
  "complete_trace x \<longleftrightarrow> (\<forall>res. fst x = Inr res \<longrightarrow>
     length (trace_events (snd x)) = res_cycles res \<and> successively follows (trace_events (snd x)))"

lemma complete_trap: "vm_trace u = Some evs \<Longrightarrow> path_so_far u evs \<Longrightarrow> complete_trace (finish (make_trap_result c m u))"
  by (simp add: complete_trace_def finish_def make_trap_result_def trace_events_def path_so_far_def)

lemma complete_exit: "vm_trace u = Some evs \<Longrightarrow> path_so_far u evs \<Longrightarrow> complete_trace (finish (exit_result u))"
  by (auto simp: complete_trace_def finish_def exit_result_def take_top_def Let_def trace_events_def path_so_far_def
      split: list.split)

lemma traced_exit:
  assumes "traced k s" "vm_step p s = Inl x"
  shows "complete_trace x"
proof -
  from assms(1) obtain evs where evs: "vm_trace s = Some evs" "path_so_far s evs" by (auto simp: traced_def)
  from assms(2) show ?thesis
  proof (cases rule: vm_step_Inl)
    case (instr st)
    from instr(3) show ?thesis
    proof (cases rule: after_instruction_Inl)
      case (trap code msg u)
      from path_so_far_record [OF evs(2,1) _ _ instr(4), of u] exec_current_control [OF trap(1)] trap(2)
      show ?thesis by (metis complete_trap)
    next
      case (panic msg u)
      then show ?thesis by (simp add: complete_trace_def)
    next
      case (exit a u)
      let ?u = "if a then u\<lparr>vm_pc := vm_pc u + 1\<rparr> else u"
      have "vm_cycles ?u = vm_cycles s + 1" "vm_trace ?u = vm_trace s"
        using exec_current_control [OF exit(1)] by simp_all
      from path_so_far_record [OF evs(2,1) this instr(4)] exit(3) show ?thesis by (metis complete_exit)
    qed
  qed (use evs in \<open>auto intro: complete_trap\<close>)
qed

lemma traced_run_complete:
  assumes "0 < k"
  shows "\<exists>x. vm_run p (with_trace (with_max_cycles k vm_new)) = Some x \<and> complete_trace x"
proof -
  let ?s = "with_trace (with_max_cycles k vm_new)"
  have "traced k (vm_start m ?s)" for m
    using running_start [OF assms]
    by (simp add: traced_def path_so_far_def) (simp add: vm_start_def with_trace_def)
  then have loop: "\<exists>x. iterate (vm_step p) (vm_start m ?s) = Some x \<and> complete_trace x" for m
    using traced_loop.exit_state traced_exit by metis
  have "path_so_far ?s []" "vm_trace ?s = Some []"
    by (simp_all add: path_so_far_def with_trace_def with_max_cycles_def vm_new_def)
  then have trap: "\<exists>x. Some (finish (make_trap_result c m ?s)) = Some x \<and> complete_trace x" for c m
    using complete_trap by blast
  show ?thesis
    unfolding vm_run_def by (auto simp only: loop trap split: option.split if_split)
qed

text \<open>
  C20: The recorded trace has exactly one event per executed cycle, and every event starts where the
  previous one ended: same program counter, operand stack and frame depth.
\<close>

theorem vm_trace_complete:
  assumes "0 < k"
  shows "\<exists>x. vm_run p (with_trace (with_max_cycles k vm_new)) = Some x \<and> complete_trace x"
  using assms by (rule traced_run_complete)

section \<open>Call and return\<close>


section \<open>Witnesses\<close>

text \<open>A function \<open>add\<close> called by \<open>main\<close>, as the compiler lays it out.\<close>

definition call_program :: compiled_program where
  "call_program =
     \<lparr>instructions =
        [Instruction_new Op_LoadLocal 0 0, Instruction_new Op_LoadLocal 1 0,
         Instruction_simple Op_Add, Instruction_simple Op_Return,
         Instruction_new Op_LoadConst 40 0, Instruction_new Op_LoadConst 2 0,
         Instruction_new Op_Call 0 2, Instruction_new Op_StoreLocal 0 0,
         Instruction_new Op_LoadLocal 0 0, Instruction_simple Op_Return],
      prog_functions =
        [(0, \<lparr>fi_name = ''add'', fi_id = 0, entry_pc = 0, param_count = 2, local_count = 2\<rparr>),
         (1, \<lparr>fi_name = ''main'', fi_id = 1, entry_pc = 4, param_count = 0, local_count = 1\<rparr>)],
      prog_globals = [], main_func_id = 1, prog_constants = []\<rparr>"

theorem vm_run_within_limits_witness:
  "\<exists>x. vm_run call_program (with_max_cycles 50 vm_new) = Some x \<and> within_limits 50 x"
  by (rule vm_run_within_limits) simp

theorem vm_run_no_panic_witness:
  "\<exists>res t. vm_run call_program (with_max_cycles 50 vm_new) = Some (Inr res, t)"
  by (rule vm_run_no_panic)
    (simp_all add: call_program_def typed_program_def uses_opcode_def is_i32_def)

theorem vm_trace_transparent_witness:
  "vm_run call_program (with_max_cycles 50 vm_new) =
     map_option (map_prod id forget_trace) (vm_run call_program (with_trace (with_max_cycles 50 vm_new)))"
  by (rule vm_trace_transparent) simp

theorem vm_trace_complete_witness:
  "\<exists>x. vm_run call_program (with_trace (with_max_cycles 50 vm_new)) = Some x \<and> complete_trace x"
  by (rule vm_trace_complete) simp

text \<open>The call in \<open>call_program\<close>, and the state in which its callee returns.\<close>

definition before_call :: vm where
  "before_call = vm_new\<lparr>vm_stack := [2, 40], vm_pc := 6,
     vm_calls := [\<lparr>return_pc = usize_max, base_ptr = 0, frame_func = 1\<rparr>]\<rparr>"

definition after_call :: vm where
  "after_call = snd (exec_call call_program 0 2 before_call)"

definition before_return :: vm where
  "before_return = after_call\<lparr>vm_stack := [42], vm_pc := 3\<rparr>"


end
