(* ===== verification/Verifier_Sound.thy ===== *)
theory Verifier_Sound
  imports Verifier_Props Vm_Props
begin

text \<open>
  Soundness of the verifier for the reference machine. The fixpoint of the worklist is a
  certificate: an abstract state per reachable program counter that every instruction respects.
  A machine whose frames agree with the certificate keeps agreeing with it, and the traps of an
  instruction that agrees with it are those the report allows.
\<close>

section \<open>Certificates\<close>

definition init_le :: "bool list \<Rightarrow> bool list \<Rightarrow> bool" where
  "init_le xs ys \<longleftrightarrow> length xs = length ys \<and> (\<forall>i < length xs. xs ! i \<longrightarrow> ys ! i)"

lemma init_le_refl [simp]: "init_le xs xs"
  by (simp add: init_le_def)

lemma init_le_trans: "init_le xs ys \<Longrightarrow> init_le ys zs \<Longrightarrow> init_le xs zs"
  by (simp add: init_le_def)

lemma merge_init_nth:
  "length dst = length src \<Longrightarrow> i < length dst \<Longrightarrow> merge_init dst src ! i \<longleftrightarrow> dst ! i \<and> src ! i"
  by (simp add: merge_init_def nth_append)

lemma merge_init_le:
  assumes "length dst = length src"
  shows "init_le (merge_init dst src) dst" "init_le (merge_init dst src) src"
  using assms by (simp_all add: init_le_def merge_init_nth)

definition refines :: "abstract_state \<Rightarrow> abstract_state \<Rightarrow> bool" where
  "refines s t \<longleftrightarrow> abs_depth s = abs_depth t \<and> init_le (abs_init s) (abs_init t)"

lemma refines_refl [simp]: "refines s s"
  by (simp add: refines_def)

lemma refines_trans: "refines s t \<Longrightarrow> refines t u \<Longrightarrow> refines s u"
  by (auto simp: refines_def intro: init_le_trans)

type_synonym cert = "usize \<Rightarrow> abstract_state option"

definition flows_to :: "cert \<Rightarrow> usize \<Rightarrow> abstract_state \<Rightarrow> bool" where
  "flows_to S pc st \<longleftrightarrow> (\<exists>s. S pc = Some s \<and> refines s st)"

text \<open>
  \<open>accepted\<close>: the abstract step of an instruction succeeds, with possible traps among \<open>T\<close>,
  and \<open>checked_at\<close>: its effect is recorded in the certificate.
\<close>

definition accepted ::
  "compiled_program \<Rightarrow> function_range \<Rightarrow> trap_code set \<Rightarrow> usize \<Rightarrow> abstract_state \<Rightarrow> vstep \<Rightarrow> bool" where
  "accepted p r T pc st step \<longleftrightarrow>
     (\<exists>l l'. step_instruction p r pc (opcode (instructions p ! pc)) (arg1 (instructions p ! pc))
              (arg2 (instructions p ! pc)) st l = (Inr step, l') \<and> set (log_traps l') \<subseteq> T)"

definition checked_at ::
  "compiled_program \<Rightarrow> function_range \<Rightarrow> trap_code set \<Rightarrow> (usize \<times> usize) set \<Rightarrow> cert \<Rightarrow> usize \<Rightarrow> abstract_state \<Rightarrow> bool"
where
  "checked_at p r T E S pc st \<longleftrightarrow>
     pc_in_range r pc \<and>
     (\<exists>step. accepted p r T pc st step \<and> set (vs_call_edges step) \<subseteq> E \<and>
        (\<forall>succ \<in> set (vs_successors step). flows_to S succ (vs_state step)))"

definition certified_range ::
  "compiled_program \<Rightarrow> function_range \<Rightarrow> trap_code set \<Rightarrow> (usize \<times> usize) set \<Rightarrow> cert \<Rightarrow> bool" where
  "certified_range p r T E S \<longleftrightarrow>
     flows_to S (range_start r) (entry_state (range_info r)) \<and>
     (\<forall>pc st. S pc = Some st \<longrightarrow>
        length (abs_init st) = local_count (range_info r) \<and> checked_at p r T E S pc st)"

definition cert_le :: "cert \<Rightarrow> cert \<Rightarrow> bool" where
  "cert_le S S' \<longleftrightarrow> (\<forall>pc st. S pc = Some st \<longrightarrow> (\<exists>st'. S' pc = Some st' \<and> refines st' st))"

lemma cert_le_refl [simp]: "cert_le S S"
  by (simp add: cert_le_def)

lemma flows_to_mono: "flows_to S pc st \<Longrightarrow> cert_le S S' \<Longrightarrow> flows_to S' pc st"
  unfolding flows_to_def cert_le_def by (meson refines_trans)

lemma checked_at_mono:
  "checked_at p r T E S pc st \<Longrightarrow> T \<subseteq> T' \<Longrightarrow> E \<subseteq> E' \<Longrightarrow> cert_le S S' \<Longrightarrow> checked_at p r T' E' S' pc st"
  unfolding checked_at_def accepted_def by (meson flows_to_mono order_trans)

section \<open>The worklist computes a certificate\<close>

definition flow_clean :: "flow \<Rightarrow> bool" where
  "flow_clean w \<longleftrightarrow> log_errors (fl_log w) = []"

definition flow_sound :: "compiled_program \<Rightarrow> function_range \<Rightarrow> flow \<Rightarrow> bool" where
  "flow_sound p r w \<longleftrightarrow>
     (flow_clean w \<longrightarrow>
        flows_to (fl_states w) (range_start r) (entry_state (range_info r)) \<and>
        (\<forall>pc st. fl_states w pc = Some st \<longrightarrow> pc \<in> set (fl_worklist w) \<or>
           checked_at p r (set (log_traps (fl_log w))) (set (fl_edges w)) (fl_states w) pc st))"

text \<open>What merging one successor does when it reports no error.\<close>

definition extends :: "flow \<Rightarrow> flow \<Rightarrow> bool" where
  "extends w w' \<longleftrightarrow>
     (flow_clean w' \<longrightarrow> flow_clean w) \<and>
     set (log_traps (fl_log w)) \<subseteq> set (log_traps (fl_log w')) \<and>
     set (fl_edges w) \<subseteq> set (fl_edges w') \<and> cert_le (fl_states w) (fl_states w') \<and>
     set (fl_worklist w) \<subseteq> set (fl_worklist w') \<and>
     (\<forall>pc. fl_states w' pc \<noteq> fl_states w pc \<longrightarrow> pc \<in> set (fl_worklist w'))"

lemma extends_refl [simp]: "extends w w"
  by (simp add: extends_def)

lemma cert_le_trans: "cert_le S S' \<Longrightarrow> cert_le S' S'' \<Longrightarrow> cert_le S S''"
  unfolding cert_le_def by (meson refines_trans)

lemma extends_trans: "extends w w' \<Longrightarrow> extends w' w'' \<Longrightarrow> extends w w''"
  unfolding extends_def by (metis cert_le_trans order_trans subset_iff)

lemma extends_checked:
  assumes "extends w w'"
    and "checked_at p r (set (log_traps (fl_log w))) (set (fl_edges w)) (fl_states w) pc st"
  shows "checked_at p r (set (log_traps (fl_log w'))) (set (fl_edges w')) (fl_states w') pc st"
  using assms by (auto simp: extends_def elim: checked_at_mono)

lemma cert_le_upd: "S pc = None \<or> (\<exists>st. S pc = Some st \<and> refines st' st) \<Longrightarrow> cert_le S (S(pc \<mapsto> st'))"
  by (auto simp: cert_le_def)

lemma merge_successor_extends:
  assumes "flow_ok p r w" "length (abs_init st) = local_count (range_info r)"
  shows "extends w (merge_successor r pc st succ w)"
    and "flow_clean (merge_successor r pc st succ w) \<Longrightarrow> flows_to (fl_states (merge_successor r pc st succ w)) succ st"
proof -
  have len: "fl_states w succ = Some e \<Longrightarrow> length (abs_init e) = length (abs_init st)" for e
    using assms by (auto simp: flow_ok_def)
  show "extends w (merge_successor r pc st succ w)"
    using len
    by (auto simp: merge_successor_def extends_def flow_clean_def Let_def refines_def merge_init_le
        intro!: cert_le_upd split: option.split)
  have "init_le (abs_init e) (abs_init st)"
    if "fl_states w succ = Some e" "merge_init (abs_init e) (abs_init st) = abs_init e" for e
    using merge_init_le(2) [OF len [OF that(1)]] that(2) by simp
  then show "flow_clean (merge_successor r pc st succ w) \<Longrightarrow> flows_to (fl_states (merge_successor r pc st succ w)) succ st"
    using len
    by (auto simp: merge_successor_def flow_clean_def Let_def refines_def flows_to_def merge_init_le
        split: option.splits if_splits)
qed

lemma fold_merge_extends:
  assumes "flow_ok p r w" "length (abs_init st) = local_count (range_info r)"
  shows "extends w (fold (merge_successor r pc st) ss w) \<and>
    (flow_clean (fold (merge_successor r pc st) ss w) \<longrightarrow>
       (\<forall>succ \<in> set ss. flows_to (fl_states (fold (merge_successor r pc st) ss w)) succ st))"
  using assms(1)
proof (induction ss arbitrary: w)
  case (Cons s ss)
  let ?w = "merge_successor r pc st s w"
  have ih: "extends ?w (fold (merge_successor r pc st) ss ?w)"
    "flow_clean (fold (merge_successor r pc st) ss ?w) \<longrightarrow>
       (\<forall>succ \<in> set ss. flows_to (fl_states (fold (merge_successor r pc st) ss ?w)) succ st)"
    using Cons.IH [OF merge_successor_ok [OF Cons.prems assms(2)]] by blast+
  let ?u = "fold (merge_successor r pc st) ss ?w"
  have w: "extends w ?w" "flow_clean ?w \<Longrightarrow> flows_to (fl_states ?w) s st"
    using merge_successor_extends [OF Cons.prems assms(2)] by blast+
  have "flows_to (fl_states ?u) s st" if "flow_clean ?u"
    by (rule flows_to_mono [OF w(2)]) (use ih(1) that in \<open>simp_all add: extends_def\<close>)
  with ih extends_trans [OF w(1) ih(1)] show ?case by simp
qed simp

lemma process_step_extends:
  assumes "flow_ok p r w" "length (abs_init (vs_state step)) = local_count (range_info r)"
  shows "extends w (process_step r pc step w)"
    "flow_clean (process_step r pc step w) \<Longrightarrow> succ \<in> set (vs_successors step) \<Longrightarrow>
       flows_to (fl_states (process_step r pc step w)) succ (vs_state step)"
    "set (vs_call_edges step) \<subseteq> set (fl_edges (process_step r pc step w))"
proof -
  let ?w = "check_depth_limit pc (vs_state step) (w\<lparr>fl_max_depth := max (fl_max_depth w) (abs_depth (vs_state step)),
              fl_edges := fl_edges w @ vs_call_edges step\<rparr>)"
  have w: "flow_ok p r ?w" "extends w ?w" "set (vs_call_edges step) \<subseteq> set (fl_edges ?w)"
    using assms(1) by (auto simp: check_depth_limit_def flow_ok_def extends_def flow_clean_def)
  note f = fold_merge_extends [OF w(1) assms(2), of pc "vs_successors step"]
  show "extends w (process_step r pc step w)"
    using f w(2) by (auto simp: process_step_def Let_def intro: extends_trans)
  show "flow_clean (process_step r pc step w) \<Longrightarrow> succ \<in> set (vs_successors step) \<Longrightarrow>
       flows_to (fl_states (process_step r pc step w)) succ (vs_state step)"
    using f by (auto simp: process_step_def Let_def)
  show "set (vs_call_edges step) \<subseteq> set (fl_edges (process_step r pc step w))"
    using f w(3) by (auto simp: process_step_def Let_def extends_def)
qed

lemma flow_step_sound:
  assumes "flow_ok p r w" "flow_sound p r w" "flow_step p r w = Inr v"
  shows "flow_sound p r v"
proof -
  obtain pc rest where wl: "fl_worklist w = pc # rest"
    using assms(3) by (cases "fl_worklist w") (simp_all add: flow_step_def)
  have step: "process_pc p r pc (w\<lparr>fl_worklist := rest\<rparr>) = Inr v"
    using assms(3) wl by (simp add: flow_step_def)
  show ?thesis
  proof (cases "pc_in_range r pc")
    case False
    with step have "\<not> flow_clean v" by (auto simp: process_pc_def flow_clean_def)
    then show ?thesis by (simp add: flow_sound_def)
  next
    case True
    from assms(1) wl obtain st where st: "fl_states w pc = Some st" "length (abs_init st) = local_count (range_info r)"
      by (auto simp: flow_ok_def)
    have pc: "pc < length (instructions p)" using True assms(1) by (simp add: pc_in_range_def flow_ok_def)
    let ?i = "instructions p ! pc"
    let ?res = "step_instruction p r pc (opcode ?i) (arg1 ?i) (arg2 ?i) st (fl_log w)"
    let ?v = "w\<lparr>fl_worklist := rest, fl_reachable := insert pc (fl_reachable w),
                fl_max_depth := max (fl_max_depth w) (abs_depth st), fl_log := snd ?res\<rparr>"
    have res: "post ?res (\<lambda>s l'. length (abs_init (vs_state s)) = local_count (range_info r) \<and> log_le (fl_log w) l')
        (\<lambda>e l'. e = Rejected \<and> log_errors l' \<noteq> [] \<and> log_le (fl_log w) l')"
      by (rule step_instruction_post [OF st(2)])
    show ?thesis
    proof (cases "fst ?res")
      case (Inl e)
      then have "v = ?v" "log_errors (snd ?res) \<noteq> []"
        using step True st pc res by (auto simp: process_pc_def Let_def post_def)
      then show ?thesis by (simp add: flow_sound_def flow_clean_def)
    next
      case (Inr s)
      then have s: "length (abs_init (vs_state s)) = local_count (range_info r)" "log_le (fl_log w) (snd ?res)"
        using res by (simp_all add: post_def)
      have v: "v = process_step r pc s ?v"
        using Inr step True st pc by (simp add: process_pc_def Let_def)
      have ok: "flow_ok p r ?v" using assms(1) wl by (simp add: flow_ok_def)
      note ext = process_step_extends [OF ok s(1), of pc, folded v]
      have eq: "?res = (Inr s, snd ?res)" using Inr by (cases ?res) simp
      have here: "checked_at p r (set (log_traps (fl_log v))) (set (fl_edges v)) (fl_states v) pc st" if "flow_clean v"
        unfolding checked_at_def accepted_def
      proof (intro conjI exI [of _ s] ballI)
        show "\<exists>l l'. step_instruction p r pc (opcode ?i) (arg1 ?i) (arg2 ?i) st l = (Inr s, l') \<and>
            set (log_traps l') \<subseteq> set (log_traps (fl_log v))"
          using eq ext(1) by (intro exI [of _ "fl_log w"] exI [of _ "snd ?res"]) (auto simp: extends_def)
      qed (use True ext that in auto)
      show ?thesis
        unfolding flow_sound_def
      proof (intro impI conjI allI)
        assume clean: "flow_clean v"
        then have "flow_clean w" using ext(1) s(2) by (auto simp: extends_def flow_clean_def log_le_def)
        then have old: "flows_to (fl_states w) (range_start r) (entry_state (range_info r))"
          "\<And>q t. fl_states w q = Some t \<Longrightarrow> q \<in> set (fl_worklist w) \<or>
             checked_at p r (set (log_traps (fl_log w))) (set (fl_edges w)) (fl_states w) q t"
          using assms(2) by (auto simp: flow_sound_def)
        show "flows_to (fl_states v) (range_start r) (entry_state (range_info r))"
          by (rule flows_to_mono [OF old(1)]) (use ext(1) in \<open>auto simp: extends_def\<close>)
        fix q t
        assume t: "fl_states v q = Some t"
        show "q \<in> set (fl_worklist v) \<or>
          checked_at p r (set (log_traps (fl_log v))) (set (fl_edges v)) (fl_states v) q t"
        proof (cases "fl_states v q = fl_states w q")
          case False
          then show ?thesis using ext(1) by (auto simp: extends_def)
        next
          case same: True
          have T: "checked_at p r (set (log_traps (fl_log v))) (set (fl_edges v)) (fl_states v) q t"
            if "checked_at p r (set (log_traps (fl_log w))) (set (fl_edges w)) (fl_states w) q t"
            by (rule checked_at_mono [OF that]) (use ext(1) s(2) in \<open>auto simp: extends_def log_le_def\<close>)
          show ?thesis
          proof (cases "q = pc")
            case True
            then show ?thesis using here [OF clean] same st t by simp
          next
            case False
            then show ?thesis using old(2) [of q t] same t T wl ext(1) by (auto simp: extends_def)
          qed
        qed
      qed
    qed
  qed
qed

text \<open>The loop with the stronger invariant is a bounded loop as well.\<close>

interpretation sound_loop: bounded_loop "flow_step p r" "\<lambda>w. flow_ok p r w \<and> flow_sound p r w" "flow_budget r" for p r
  by unfold_locales (auto intro: flow_step_inv flow_step_sound)

lemma verify_function_certifies:
  assumes "range_end r \<le> length (instructions p)" "verify_function p r = Some (Inr c)" "fc_errors c = []"
  shows "\<exists>S. certified_range p r (set (fc_possible_traps c)) (set (fc_call_edges c)) S"
proof -
  have "flow_ok p r (flow_start r) \<and> flow_sound p r (flow_start r)"
    using assms(1) by (simp add: flow_start_ok) (simp add: flow_sound_def flow_start_def flows_to_def)
  from sound_loop.exit_state [OF this] obtain w where
    w: "flow_ok p r w" "flow_sound p r w" "flow_step p r w = Inl (Inr c)"
    using assms(2) unfolding verify_function_def by auto
  from flow_step_no_panic [OF w(1,3)] have nil: "fl_worklist w = []" and c: "c = function_check_of r w"
    by auto
  have "flow_clean w" using assms(3) by (simp add: c function_check_of_def flow_clean_def)
  with w(2) have "flows_to (fl_states w) (range_start r) (entry_state (range_info r))"
    "\<And>pc st. fl_states w pc = Some st \<Longrightarrow>
       checked_at p r (set (log_traps (fl_log w))) (set (fl_edges w)) (fl_states w) pc st"
    by (auto simp: flow_sound_def nil)
  with w(1) show ?thesis
    by (intro exI [of _ "fl_states w"])
      (auto simp: certified_range_def c function_check_of_def flow_ok_def)
qed

end
