(* ===== verification/Verified_Runs.thy ===== *)
theory Verified_Runs
  imports Verifier_Sound
begin

text \<open>
  Runs of verified programs. A machine is \<open>typed\<close> when every frame stands at a program
  counter that the verifier certified for its function, the operand stack holds at least what
  the certificates of all frames expect, and the locals they call initialised are defined.
  Steps of the machine keep it typed, and a trap of a typed machine is one the report allows.
\<close>

section \<open>The certificate of a program\<close>

definition certified ::
  "compiled_program \<Rightarrow> trap_code set \<Rightarrow> (usize \<times> usize) set \<Rightarrow> (usize \<Rightarrow> cert) \<Rightarrow> bool" where
  "certified p T E C \<longleftrightarrow>
     length (instructions p) \<le> MAX_INSTRUCTIONS \<and> functions_valid p \<and>
     (\<forall>i f. fun_lookup p i = Some f \<longrightarrow>
        param_count f \<le> local_count f \<and> local_count f \<le> MAX_LOCAL_SLOTS \<and>
        (\<exists>r. range_id r = i \<and> range_info r = f \<and> range_start r = entry_pc f \<and>
             range_end r \<le> length (instructions p) \<and> certified_range p r T E (C i)))"

lemma certified_range_mono:
  assumes "certified_range p r T E S" "T \<subseteq> T'" "E \<subseteq> E'"
  shows "certified_range p r T' E' S"
  using assms checked_at_mono [OF _ assms(2,3) cert_le_refl] by (simp add: certified_range_def)

lemma scan_errors:
  "sc_errors (fold (scan_function p) fs s) = [] \<Longrightarrow>
     sc_errors s = [] \<and>
     (\<forall>(i, f) \<in> set fs. param_count f \<le> local_count f \<and> local_count f \<le> MAX_LOCAL_SLOTS \<and>
        entry_pc f < length (instructions p))"
proof (induction fs arbitrary: s)
  case (Cons x fs)
  from Cons.IH [of "scan_function p x s"] Cons.prems show ?case
    by (auto simp: scan_function_def scan_error_def Let_def split: if_splits)
qed simp

lemma verify_functions_Inr:
  "verify_functions p rs = Some (Inr cs) \<Longrightarrow> r \<in> set rs \<Longrightarrow>
     \<exists>c \<in> set cs. verify_function p r = Some (Inr c)"
  by (induction rs arbitrary: cs) (auto split: option.splits sum.splits)

lemma set_fold_push_trap: "set (fold push_trap ts acc) = set acc \<union> set ts"
  by (induction ts arbitrary: acc) auto

lemma set_depth_traps: "set ts \<subseteq> set (depth_traps d ts)"
  by (auto simp: depth_traps_def split: option.split)

lemma report_simps [simp]:
  "rep_valid (report_of p es cs d) \<longleftrightarrow> es = [] \<and> (\<forall>c \<in> set cs. fc_errors c = [])"
  "rep_max_frame_depth (report_of p es cs d) = d"
  "rep_possible_traps (report_of p es cs d) = depth_traps d (fold push_trap (concat (map fc_possible_traps cs)) [])"
  by (auto simp: report_of_def Let_def)

text \<open>A valid report comes with a certificate and with the call graph of the depth analysis.\<close>

lemma verify_certified:
  assumes "verify p = Some (Inr rep)" "rep_valid rep"
  obtains C edges where "certified p (set (rep_possible_traps rep)) (set edges) C"
    "max_frame_depth (main_func_id p) edges = Some (rep_max_frame_depth rep)"
    "fun_lookup p (main_func_id p) \<noteq> None"
proof -
  obtain cs d where cs: "verify_functions p (fst (function_ranges p)) = Some (Inr cs)"
    and d: "max_frame_depth (main_func_id p) (concat (map fc_call_edges cs)) = Some d"
    and rep: "rep = report_of p (metadata_errors p @ snd (function_ranges p)) cs d"
    using assms(1) by (auto simp: verify_def split: option.splits sum.splits)
  let ?T = "set (rep_possible_traps rep)"
  let ?E = "set (concat (map fc_call_edges cs))"
  have len: "length (instructions p) \<le> MAX_INSTRUCTIONS" and main: "fun_lookup p (main_func_id p) \<noteq> None"
    using assms(2) by (auto simp: rep metadata_errors_def split: if_splits)
  have scan: "sc_errors (scan_functions p) = []"
    using assms(2) by (auto simp: rep function_ranges_def)
  have valid: "functions_valid p"
    using scan by (auto simp: functions_valid_def scan_functions_def dest!: scan_errors)
  have fn: "param_count f \<le> local_count f \<and> local_count f \<le> MAX_LOCAL_SLOTS \<and>
        (\<exists>r S. range_id r = i \<and> range_info r = f \<and> range_start r = entry_pc f \<and>
             range_end r \<le> length (instructions p) \<and> certified_range p r ?T ?E S)"
    if f: "fun_lookup p i = Some f" for i f
  proof -
    have mem: "(i, f) \<in> set (prog_functions p)" using f by (auto simp: fun_lookup_def dest: map_of_SomeD)
    with scan have f_ok: "param_count f \<le> local_count f" "local_count f \<le> MAX_LOCAL_SLOTS"
      "entry_pc f < length (instructions p)"
      by (auto simp: scan_functions_def dest: scan_errors)
    have "(entry_pc f, i, f) \<in> set (sort_key fst (sc_entries (scan_functions p)))"
      using mem f_ok(3) by (auto simp: scan_functions_def scan_entries)
    from ranges_of_entry [OF this] obtain r where r: "r \<in> set (fst (function_ranges p))"
      "range_start r = entry_pc f" "range_id r = i" "range_info r = f"
      by (auto simp: function_ranges_def)
    have rend: "range_end r \<le> length (instructions p)" by (rule function_ranges_end [OF r(1)])
    from verify_functions_Inr [OF cs r(1)] obtain c where c: "c \<in> set cs" "verify_function p r = Some (Inr c)"
      by blast
    have "fc_errors c = []" using c(1) assms(2) by (simp add: rep)
    from verify_function_certifies [OF rend c(2) this] obtain S
      where S: "certified_range p r (set (fc_possible_traps c)) (set (fc_call_edges c)) S" by blast
    have "set (fc_possible_traps c) \<subseteq> ?T" "set (fc_call_edges c) \<subseteq> ?E"
      using c(1) set_depth_traps by (fastforce simp: rep set_fold_push_trap)+
    from certified_range_mono [OF S this] have "certified_range p r ?T ?E S" .
    with r rend f_ok show ?thesis by blast
  qed
  define C where "C i = (SOME S. \<exists>f r. fun_lookup p i = Some f \<and> range_id r = i \<and> range_info r = f \<and> range_start r = entry_pc f \<and>
             range_end r \<le> length (instructions p) \<and> certified_range p r ?T ?E S)" for i
  have "certified p ?T ?E C"
    unfolding certified_def
  proof (intro conjI allI impI len valid)
    fix i f
    assume f: "fun_lookup p i = Some f"
    from fn [OF f] show "param_count f \<le> local_count f" "local_count f \<le> MAX_LOCAL_SLOTS" by auto
    from fn [OF f] f have "\<exists>S f r. fun_lookup p i = Some f \<and> range_id r = i \<and> range_info r = f \<and> range_start r = entry_pc f \<and>
             range_end r \<le> length (instructions p) \<and> certified_range p r ?T ?E S" by blast
    from someI_ex [OF this, folded C_def] f
    show "\<exists>r. range_id r = i \<and> range_info r = f \<and> range_start r = entry_pc f \<and>
             range_end r \<le> length (instructions p) \<and> certified_range p r ?T ?E (C i)" by auto
  qed
  with d main that [of "concat (map fc_call_edges cs)" C] rep show ?thesis by simp
qed

section \<open>Call depth\<close>

declare visit.simps [simp del] visit_callees.simps [simp del]

text \<open>\<open>calls_within E k i\<close>: every chain of calls that starts in \<open>i\<close> has at most \<open>k\<close> functions.\<close>

fun calls_within :: "(usize \<times> usize) set \<Rightarrow> nat \<Rightarrow> usize \<Rightarrow> bool" where
  "calls_within E 0 i = False"
| "calls_within E (Suc k) i = (\<forall>c. (i, c) \<in> E \<longrightarrow> calls_within E k c)"

lemma calls_within_mono: "calls_within E k i \<Longrightarrow> k \<le> k' \<Longrightarrow> calls_within E k' i"
proof (induction k arbitrary: k' i)
  case (Suc k)
  then show ?case by (cases k') auto
qed simp

definition memo_ok :: "(usize \<times> usize) list \<Rightarrow> dfs \<Rightarrow> bool" where
  "memo_ok edges d \<longleftrightarrow> (\<forall>i k. memo d i = Some (Some k) \<longrightarrow> calls_within (set edges) k i)"

lemma visit_correct:
  shows "visit n edges i d = Some (Some k, d') \<Longrightarrow> memo_ok edges d \<Longrightarrow>
      memo_ok edges d' \<and> calls_within (set edges) k i"
    and "visit_callees n edges cs m d = Some (Some k, d') \<Longrightarrow> memo_ok edges d \<Longrightarrow>
      memo_ok edges d' \<and> m \<le> k \<and> (\<forall>c \<in> set cs. calls_within (set edges) k c)"
proof (induction n edges i d and n edges cs m d arbitrary: k d' and k d' rule: visit_visit_callees.induct)
  case (2 n edges i d)
  show ?case
  proof (cases "memo d i")
    case (Some depth)
    with "2.prems" have "d' = d" "memo d i = Some (Some k)" by (simp_all add: visit.simps)
    with "2.prems"(2) show ?thesis by (simp add: memo_ok_def)
  next
    case None
    let ?d = "d\<lparr>visiting := insert i (visiting d)\<rparr>"
    from None "2.prems"(1) have i: "i \<notin> visiting d" by (auto simp: visit.simps)
    with None "2.prems"(1) obtain x d1
      where x: "visit_callees n edges (callees edges i) 0 ?d = Some (x, d1)"
      by (auto simp: visit.simps split: option.splits)
    with None i "2.prems"(1) obtain m where m: "x = Some m" by (cases x) (auto simp: visit.simps)
    have kd: "k = m + 1" "d' = \<lparr>visiting = visiting d1 - {i}, memo = (memo d1)(i \<mapsto> Some (m + 1))\<rparr>"
      using None i x m "2.prems"(1) by (auto simp: visit.simps)
    have "memo_ok edges ?d" using "2.prems"(2) by (simp add: memo_ok_def)
    with "2.IH" [OF None i] x m
    have "memo_ok edges d1" "\<forall>c \<in> set (callees edges i). calls_within (set edges) m c" by blast+
    with kd show ?thesis by (auto simp: memo_ok_def callees_nodes)
  qed
next
  case (4 n edges callee cs m d)
  from "4.prems"(1) obtain x d1 where x: "visit n edges callee d = Some (x, d1)"
    by (auto simp: visit_callees.simps split: option.splits)
  with "4.prems"(1) obtain j where j: "visit n edges callee d = Some (Some j, d1)"
    by (cases x) (auto simp: visit_callees.simps)
  with "4.prems"(1) have rest: "visit_callees n edges cs (max m j) d1 = Some (Some k, d')"
    by (simp add: visit_callees.simps)
  have callee: "memo_ok edges d1" "calls_within (set edges) j callee"
    using "4.IH"(1) [OF j] "4.prems"(2) by blast+
  from "4.IH"(2) [OF j refl refl rest callee(1)]
  have "memo_ok edges d'" "max m j \<le> k" "\<forall>c \<in> set cs. calls_within (set edges) k c" by blast+
  with callee(2) show ?case by (auto intro: calls_within_mono)
qed (simp_all add: visit.simps visit_callees.simps)

lemma max_frame_depth_correct:
  "max_frame_depth m edges = Some (Some k) \<Longrightarrow> calls_within (set edges) k m"
  by (auto simp: max_frame_depth_def memo_ok_def dest!: visit_correct(1))

section \<open>Typed machines\<close>

text \<open>
  \<open>LocalArrayLoad\<close> may read an undefined slot through an invalid base and push the undefined
  marker, so what the certificate says of initialised locals is claimed for the other programs.
\<close>

definition strict :: "compiled_program \<Rightarrow> bool" where
  "strict p \<longleftrightarrow> \<not> uses_opcode p Op_LocalArrayLoad"

definition initialised :: "compiled_program \<Rightarrow> vec64 \<Rightarrow> nat \<Rightarrow> bool list \<Rightarrow> bool" where
  "initialised p ls b flags \<longleftrightarrow>
     (strict p \<longrightarrow> (\<forall>i < length flags. flags ! i \<longrightarrow> vget ls (b + i) \<noteq> i64_min))"

inductive typed_frames ::
  "compiled_program \<Rightarrow> (usize \<times> usize) set \<Rightarrow> (usize \<Rightarrow> cert) \<Rightarrow> vec64 \<Rightarrow> call_frame \<Rightarrow> call_frame list \<Rightarrow> nat \<Rightarrow> bool"
  for p E C ls where
  bottom: "return_pc f = usize_max \<Longrightarrow> frame_func f = main_func_id p \<Longrightarrow> typed_frames p E C ls f [] 0"
| caller: "return_pc f < length (instructions p) \<Longrightarrow> C (frame_func g) (return_pc f) = Some st \<Longrightarrow>
    1 \<le> abs_depth st \<Longrightarrow> fun_lookup p (frame_func g) = Some fi \<Longrightarrow>
    base_ptr g + local_count fi \<le> base_ptr f \<Longrightarrow> (frame_func g, frame_func f) \<in> E \<Longrightarrow>
    initialised p ls (base_ptr g) (abs_init st) \<Longrightarrow> length (abs_init st) = local_count fi \<Longrightarrow>
    typed_frames p E C ls g gs n \<Longrightarrow> typed_frames p E C ls f (g # gs) (n + (abs_depth st - 1))"

inductive_cases typed_frames_NilE: "typed_frames p E C ls f [] n"
inductive_cases typed_frames_ConsE: "typed_frames p E C ls f (g # gs) n"

definition defined_values :: "compiled_program \<Rightarrow> vm \<Rightarrow> bool" where
  "defined_values p s \<longleftrightarrow> (strict p \<longrightarrow> values_sat (\<lambda>v. v \<noteq> i64_min) s)"

definition top_typed ::
  "compiled_program \<Rightarrow> (usize \<Rightarrow> cert) \<Rightarrow> vm \<Rightarrow> call_frame \<Rightarrow> abstract_state \<Rightarrow> function_info \<Rightarrow> nat \<Rightarrow> bool" where
  "top_typed p C s f st fi n \<longleftrightarrow>
     C (frame_func f) (vm_pc s) = Some st \<and> fun_lookup p (frame_func f) = Some fi \<and>
     base_ptr f + local_count fi \<le> MAX_LOCAL_SLOTS \<and>
     initialised p (vm_locals s) (base_ptr f) (abs_init st) \<and> abs_depth st + n \<le> length (vm_stack s)"

definition typed :: "compiled_program \<Rightarrow> (usize \<times> usize) set \<Rightarrow> (usize \<Rightarrow> cert) \<Rightarrow> vm \<Rightarrow> bool" where
  "typed p E C s \<longleftrightarrow> vm_ok s \<and> defined_values p s \<and>
     (\<exists>f fs st fi n. vm_calls s = f # fs \<and> top_typed p C s f st fi n \<and>
        typed_frames p E C (vm_locals s) f fs n)"

text \<open>Frames only depend on the slots below the base of the frame above, and only on being defined.\<close>

definition keeps_defined :: "vec64 \<Rightarrow> vec64 \<Rightarrow> bool" where
  "keeps_defined ls ls' \<longleftrightarrow> (\<forall>j. vget ls j \<noteq> i64_min \<longrightarrow> vget ls' j \<noteq> i64_min)"

lemma typed_frames_mono:
  "typed_frames p E C ls f fs n \<Longrightarrow>
     (\<And>j. strict p \<Longrightarrow> j < base_ptr f \<Longrightarrow> vget ls j \<noteq> i64_min \<Longrightarrow> vget ls' j \<noteq> i64_min) \<Longrightarrow> typed_frames p E C ls' f fs n"
proof (induction rule: typed_frames.induct)
  case (caller f g st fi gs n)
  from caller.prems caller.hyps have "initialised p ls' (base_ptr g) (abs_init st)"
    by (auto simp: initialised_def)
  moreover have "typed_frames p E C ls' g gs n"
    by (rule caller.IH) (use caller.prems caller.hyps in auto)
  ultimately show ?case using caller.hyps by (intro typed_frames.caller)
qed (rule typed_frames.bottom)

text \<open>The frames of a typed machine form a chain of calls from the main function.\<close>

lemma typed_frames_chain:
  "typed_frames p E C ls f fs n \<Longrightarrow> calls_within E k (main_func_id p) \<Longrightarrow>
     length fs < k \<and> calls_within E (k - length fs) (frame_func f)"
proof (induction rule: typed_frames.induct)
  case (caller f g st fi gs n)
  then obtain j where j: "k - length gs = Suc j" by (cases "k - length gs") auto
  with caller have "calls_within E j (frame_func f)" by auto
  then have "j \<noteq> 0" by (cases j) auto
  moreover from j have "k - length (g # gs) = j" by simp
  ultimately show ?case using j \<open>calls_within E j (frame_func f)\<close> by auto
qed (auto intro: gr0I)

section \<open>Instructions inside a frame\<close>

text \<open>The traps a valid report admits.\<close>

definition admitted :: "compiled_program \<Rightarrow> trap_code set \<Rightarrow> trap_code \<Rightarrow> bool" where
  "admitted p T c \<longleftrightarrow>
     c \<in> {StackOverflow, CycleLimit} \<or> (c \<in> {DivideByZero, ArrayOutOfBounds} \<and> c \<in> T) \<or>
     (c = UndefinedLocal \<and> (c \<in> T \<or> \<not> strict p)) \<or>
     (c = InvalidInstruction \<and> (uses_opcode p Op_LocalArrayLoad \<or> uses_opcode p Op_LocalArrayStore))"

definition admitted_error :: "compiled_program \<Rightarrow> trap_code set \<Rightarrow> vm_error \<Rightarrow> bool" where
  "admitted_error p T e \<longleftrightarrow> (\<forall>c m. e = Trap c m \<longrightarrow> admitted p T c)"

lemma current_local_slot_typed:
  assumes "vm_calls s = f # fs" "fun_lookup p (frame_func f) = Some fi"
    "0 \<le> raw" "nat raw < local_count fi" "base_ptr f + local_count fi \<le> MAX_LOCAL_SLOTS"
  shows "current_local_slot p raw s = Inr (base_ptr f + nat raw)"
  using assms by (simp add: current_local_slot_def Let_def checked_add_def limit_defs)

lemma defined_hd: "vm_stack s = i64_min # st \<Longrightarrow> defined_values p s \<Longrightarrow> \<not> strict p"
  by (auto simp: defined_values_def values_sat_def)
lemma saturating_add_le [simp]:
  "saturating_add a b \<le> MAX_GLOBAL_SLOTS \<longleftrightarrow> a + b \<le> MAX_GLOBAL_SLOTS"
  "MAX_GLOBAL_SLOTS < saturating_add a b \<longleftrightarrow> MAX_GLOBAL_SLOTS < a + b"
  by (auto simp: saturating_add_def limit_defs usize_max_def)

lemma global_slot_typed: "0 \<le> raw \<Longrightarrow> nat raw < MAX_GLOBAL_SLOTS \<Longrightarrow> vm_ok s \<Longrightarrow>
    global_slot raw s = Inr (nat raw)"
  by (simp add: global_slot_Inr vm_ok_def)

lemma globals_get_typed: "i < MAX_GLOBAL_SLOTS \<Longrightarrow> vm_ok s \<Longrightarrow> globals_get s i = Inr (vget (vm_globals s) i)"
  by (simp add: globals_get_Inr vm_ok_def)

lemma global_array_range_typed:
  "0 \<le> a \<Longrightarrow> 0 < b \<Longrightarrow> nat a < MAX_GLOBAL_SLOTS \<Longrightarrow> nat a + nat b \<le> MAX_GLOBAL_SLOTS \<Longrightarrow>
     vm_ok s \<Longrightarrow> global_array_range a b s = Inr (nat a, nat b)"
  by (simp add: global_array_range_def global_slot_typed array_size_def checked_add_def limit_defs vm_ok_def)

text \<open>
  An instruction other than \<open>Call\<close>, \<open>Return\<close> and \<open>Halt\<close> in a typed machine: it goes on to a
  successor of the abstract step, with an operand stack as high as the abstract one says, or
  traps as the report admits.
\<close>

definition within_frame :: "compiled_program \<Rightarrow> usize \<Rightarrow> call_frame \<Rightarrow> vstep \<Rightarrow> nat \<Rightarrow> vm \<Rightarrow> bool \<Rightarrow> vm \<Rightarrow> bool" where
  "within_frame p pc f step n s advance t \<longleftrightarrow>
     vm_calls t = vm_calls s \<and>
     (if advance then vm_pc t = vm_pc s \<and> pc + 1 \<in> set (vs_successors step)
      else vm_pc t \<in> set (vs_successors step)) \<and>
     abs_depth (vs_state step) + n \<le> length (vm_stack t) \<and>
     (strict p \<longrightarrow> keeps_defined (vm_locals s) (vm_locals t)) \<and>
     initialised p (vm_locals t) (base_ptr f) (abs_init (vs_state step))"

lemma jump_target_typed:
  "range_end r \<le> MAX_INSTRUCTIONS \<Longrightarrow> pc_in_range r (nat a) \<Longrightarrow> \<not> a < 0 \<Longrightarrow> as_usize a = nat a"
  by (rule as_usize_id) (auto simp: pc_in_range_def limit_defs is_i64_def)

lemmas typing_defs = vstep_defs check_defs reject_def bnd_Inr_conv admitted_error_def admitted_def
  stack_overflow_error_def within_frame_def keeps_defined_def initialised_def

lemma within_frame_step:
  assumes "step_instruction p r pc opc a1 a2 st l = (Inr step, l')" "set (log_traps l') \<subseteq> T"
    and "vm_calls s = f # fs" "fun_lookup p (frame_func f) = Some (range_info r)"
    and "base_ptr f + local_count (range_info r) \<le> MAX_LOCAL_SLOTS"
    and "length (abs_init st) = local_count (range_info r)" "range_end r \<le> MAX_INSTRUCTIONS"
    and "initialised p (vm_locals s) (base_ptr f) (abs_init st)" "abs_depth st + n \<le> length (vm_stack s)"
    and "vm_ok s" "defined_values p s"
    and "opc = Op_LocalArrayLoad \<Longrightarrow> uses_opcode p Op_LocalArrayLoad"
    and "opc = Op_LocalArrayStore \<Longrightarrow> uses_opcode p Op_LocalArrayStore"
    and "opc \<noteq> Op_Call" "opc \<noteq> Op_Return" "opc \<noteq> Op_Halt"
  shows "post (execute_instruction p opc a1 a2 s) (within_frame p pc f step n s) (\<lambda>e _. admitted_error p T e)"
  using assms(1-13)
proof (cases opc)
  case Op_Dup
  with assms show ?thesis
    by (cases "vm_stack s")
      (auto simp: typing_defs exec_defs wp_simps split: if_splits)
next
  case Op_ArrayLoad
  have op: "0 \<le> a1" "nat a1 < MAX_GLOBAL_SLOTS" "0 < a2" "nat a1 + nat a2 \<le> MAX_GLOBAL_SLOTS"
    "1 \<le> abs_depth st" "ArrayOutOfBounds \<in> T" "vs_successors step = [pc + 1]"
    "abs_depth (vs_state step) = abs_depth st" "abs_init (vs_state step) = abs_init st"
    using assms(1,2) Op_ArrayLoad by (auto simp: vstep_defs check_defs reject_def bnd_Inr_conv split: if_splits)
  obtain raw stk where stk: "vm_stack s = raw # stk" using assms(9) op(5) by (cases "vm_stack s") auto
  have len: "nat a1 + nat a2 \<le> vlen (vm_globals s)" using op(4) assms(10) by (simp add: vm_ok_fields)
  have small: "length (vm_stack s) \<le> MAX_OPERAND_STACK" using assms(10) by (simp add: vm_ok_def)
  show ?thesis
    unfolding Op_ArrayLoad execute_instruction.simps
    by (rule post_array_load [OF global_array_range_typed len small stk])
      (use assms op stk in \<open>auto simp: within_frame_def keeps_defined_def admitted_error_def admitted_def\<close>)
next
  case Op_ArrayStore
  have op: "0 \<le> a1" "nat a1 < MAX_GLOBAL_SLOTS" "0 < a2" "nat a1 + nat a2 \<le> MAX_GLOBAL_SLOTS"
    "2 \<le> abs_depth st" "ArrayOutOfBounds \<in> T" "vs_successors step = [pc + 1]"
    "abs_depth (vs_state step) = abs_depth st - 2" "abs_init (vs_state step) = abs_init st"
    using assms(1,2) Op_ArrayStore by (auto simp: vstep_defs check_defs reject_def bnd_Inr_conv split: if_splits)
  obtain v raw stk where stk: "vm_stack s = v # raw # stk"
    using assms(9) op(5) by (cases "vm_stack s"; cases "tl (vm_stack s)") auto
  have len: "nat a1 + nat a2 \<le> vlen (vm_globals s)" using op(4) assms(10) by (simp add: vm_ok_fields)
  show ?thesis
    unfolding Op_ArrayStore execute_instruction.simps
    by (rule post_array_store [OF global_array_range_typed len stk])
      (use assms op stk in \<open>auto simp: within_frame_def keeps_defined_def admitted_error_def admitted_def\<close>)
next
  case Op_LocalArrayLoad
  have op: "0 \<le> a1" "nat a1 < local_count (range_info r)" "0 < a2" "1 \<le> abs_depth st"
    "ArrayOutOfBounds \<in> T" "vs_successors step = [pc + 1]"
    "abs_depth (vs_state step) = abs_depth st" "abs_init (vs_state step) = abs_init st"
    using assms(1,2) Op_LocalArrayLoad by (auto simp: vstep_defs check_defs reject_def bnd_Inr_conv split: if_splits)
  obtain raw stk where stk: "vm_stack s = raw # stk" using assms(9) op(4) by (cases "vm_stack s") auto
  have slot: "current_local_slot p a1 s = Inr (base_ptr f + nat a1)"
    by (rule current_local_slot_typed) (use assms op in auto)
  have bound: "base_ptr f + nat a1 < vlen (vm_locals s)" using assms(5) op(2) vm_ok_fields(2) [OF assms(10)] by simp
  have small: "length (vm_stack s) \<le> MAX_OPERAND_STACK" using assms(10) by (simp add: vm_ok_def)
  show ?thesis
    unfolding Op_LocalArrayLoad execute_instruction.simps
    by (rule post_local_array_load [OF _ slot bound small stk])
      (use assms op stk Op_LocalArrayLoad in
        \<open>auto simp: within_frame_def keeps_defined_def admitted_error_def admitted_def strict_def\<close>)
next
  case Op_LocalArrayStore
  have op: "0 \<le> a1" "nat a1 < local_count (range_info r)" "0 < a2" "2 \<le> abs_depth st"
    "ArrayOutOfBounds \<in> T" "vs_successors step = [pc + 1]" "\<not> abs_init st ! nat a1 \<longrightarrow> UndefinedLocal \<in> T"
    "abs_depth (vs_state step) = abs_depth st - 2" "abs_init (vs_state step) = abs_init st"
    using assms(1,2) Op_LocalArrayStore by (auto simp: vstep_defs check_defs reject_def bnd_Inr_conv split: if_splits)
  obtain v raw stk where stk: "vm_stack s = v # raw # stk"
    using assms(9) op(4) by (cases "vm_stack s"; cases "tl (vm_stack s)") auto
  have slot: "current_local_slot p a1 s = Inr (base_ptr f + nat a1)"
    by (rule current_local_slot_typed) (use assms op in auto)
  have bound: "base_ptr f + nat a1 < vlen (vm_locals s)" using assms(5) op(2) vm_ok_fields(2) [OF assms(10)] by simp
  have v: "strict p \<Longrightarrow> v \<noteq> i64_min" using stk assms(11) by (auto dest: defined_hd)
  have undef: "vget (vm_locals s) (base_ptr f + nat a1) = i64_min \<Longrightarrow> UndefinedLocal \<in> T \<or> \<not> strict p"
    using op(2,7) assms(6,8) by (auto simp: initialised_def)
  show ?thesis
    unfolding Op_LocalArrayStore execute_instruction.simps
    by (rule post_local_array_store [OF _ slot bound stk])
      (use assms op stk v undef Op_LocalArrayStore in
        \<open>auto simp: within_frame_def keeps_defined_def initialised_def admitted_error_def admitted_def\<close>)
next
  case Op_Call
  with assms(14) show ?thesis by simp
next
  case Op_Return
  with assms(15) show ?thesis by simp
next
  case Op_Halt
  with assms(16) show ?thesis by simp
qed (auto simp: typing_defs exec_defs wp_simps current_local_slot_typed locals_get_Inr locals_get_Inl
      global_slot_typed globals_get_typed jump_target_typed vm_ok_fields array_size_def
      dest: defined_hd split: if_splits)

section \<open>Steps of a typed machine\<close>

lemma certified_at:
  assumes "certified p T E C" "C i pc = Some st" "fun_lookup p i = Some fi"
  obtains r step l l' where "range_id r = i" "range_info r = fi" "range_end r \<le> length (instructions p)"
    "pc < length (instructions p)" "length (abs_init st) = local_count fi"
    "step_instruction p r pc (opcode (instructions p ! pc)) (arg1 (instructions p ! pc))
       (arg2 (instructions p ! pc)) st l = (Inr step, l')"
    "set (log_traps l') \<subseteq> T" "set (vs_call_edges step) \<subseteq> E"
    "\<And>succ. succ \<in> set (vs_successors step) \<Longrightarrow> flows_to (C i) succ (vs_state step)"
proof -
  obtain r where r: "range_id r = i" "range_info r = fi" "range_end r \<le> length (instructions p)"
    "certified_range p r T E (C i)"
    using assms(1,3) by (auto simp: certified_def)
  with assms(2) have "length (abs_init st) = local_count fi" "checked_at p r T E (C i) pc st"
    by (auto simp: certified_range_def)
  with r that show ?thesis by (auto simp: checked_at_def accepted_def pc_in_range_def)
qed

lemma flows_to_initialised:
  assumes "flows_to S pc st" "initialised p ls b (abs_init st)"
  obtains st' where "S pc = Some st'" "abs_depth st' = abs_depth st" "initialised p ls b (abs_init st')"
    "length (abs_init st') = length (abs_init st)"
  using assms by (auto simp: flows_to_def refines_def init_le_def initialised_def)

definition next_vm :: "bool \<Rightarrow> vm \<Rightarrow> vm" where
  "next_vm advance t = (if advance then t\<lparr>vm_pc := vm_pc t + 1\<rparr> else t)"

lemma next_vm_simps [simp]:
  "vm_stack (next_vm a t) = vm_stack t" "vm_calls (next_vm a t) = vm_calls t"
  "vm_locals (next_vm a t) = vm_locals t" "vm_globals (next_vm a t) = vm_globals t"
  "vm_ok (next_vm a t) = vm_ok t" "defined_values p (next_vm a t) = defined_values p t"
  "next_vm False t = t"
  by (simp_all add: next_vm_def defined_values_def values_sat_def)

text \<open>Reaching a program counter of the certificate in the current frame.\<close>

lemma typed_intro:
  assumes "vm_ok t" "defined_values p t" "vm_calls t = f # fs" "fun_lookup p (frame_func f) = Some fi"
    "base_ptr f + local_count fi \<le> MAX_LOCAL_SLOTS" "flows_to (C (frame_func f)) (vm_pc t) st"
    "initialised p (vm_locals t) (base_ptr f) (abs_init st)" "abs_depth st + n \<le> length (vm_stack t)"
    "typed_frames p E C (vm_locals t) f fs n"
  shows "typed p E C t"
proof -
  from assms(6,7) obtain st' where "C (frame_func f) (vm_pc t) = Some st'" "abs_depth st' = abs_depth st"
    "initialised p (vm_locals t) (base_ptr f) (abs_init st')" by (rule flows_to_initialised)
  with assms show ?thesis unfolding typed_def top_typed_def by fastforce
qed

lemma typed_within_frame:
  assumes "within_frame p (vm_pc s) f step n s a t" "vm_calls s = f # fs" "fun_lookup p (frame_func f) = Some fi"
    "base_ptr f + local_count fi \<le> MAX_LOCAL_SLOTS" "typed_frames p E C (vm_locals s) f fs n"
    "\<And>succ. succ \<in> set (vs_successors step) \<Longrightarrow> flows_to (C (frame_func f)) succ (vs_state step)"
    "vm_ok t" "defined_values p t"
  shows "typed p E C (next_vm a t)"
proof (rule typed_intro)
  show "typed_frames p E C (vm_locals (next_vm a t)) f fs n"
    using assms(1) by (intro typed_frames_mono [OF assms(5)]) (auto simp: within_frame_def keeps_defined_def)
  show "flows_to (C (frame_func f)) (vm_pc (next_vm a t)) (vs_state step)"
    using assms(1,6) by (auto simp: within_frame_def next_vm_def split: if_splits)
qed (use assms in \<open>auto simp: within_frame_def\<close>)

text \<open>A call whose operands the verifier accepted can only fail by running out of frames or locals.\<close>

lemma post_exec_call_accepted:
  assumes ok: "vm_ok s" and valid: "functions_valid p"
    and call: "0 \<le> a1" "0 \<le> a2" "fun_lookup p (nat a1) = Some f" "nat a2 = param_count f"
      "param_count f \<le> length (vm_stack s)"
    and E: "\<And>m. E (Trap StackOverflow m) s"
    and Q: "caller_base s + caller_locals p s + local_count f \<le> MAX_LOCAL_SLOTS \<Longrightarrow>
           Q False (s\<lparr>vm_stack := drop (param_count f) (vm_stack s),
              vm_locals := call_locals (caller_base s + caller_locals p s) (param_count f)
                             (local_count f) (vm_stack s) (vm_locals s),
              vm_calls := \<lparr>return_pc = vm_pc s + 1, base_ptr = caller_base s + caller_locals p s,
                             frame_func = nat a1\<rparr> # vm_calls s,
              vm_pc := entry_pc f\<rparr>)"
  shows "post (exec_call p a1 a2 s) Q E"
  using call
  by (simp add: exec_call_def Let_def E)
     (auto intro!: post_enter_function vm_ok_fields(2) [OF ok] E Q fun_lookup_valid [OF valid])

lemma initialised_call:
  assumes "\<forall>v \<in> set (take n stk). strict p \<longrightarrow> v \<noteq> i64_min" "n \<le> length stk" "n \<le> local_count f" "param_count f = n"
  shows "initialised p (call_locals b n (local_count f) stk ls) b (abs_init (entry_state f))"
proof -
  have "stk ! (n - 1 - i) \<in> set (take n stk)" if "i < n" for i
    using that assms(2) by (auto simp: in_set_conv_nth intro!: exI [of _ "n - 1 - i"])
  with assms show ?thesis by (force simp: initialised_def entry_state_def)
qed

lemma typed_call:
  assumes "typed p E C s" "certified p T E C" "opcode (instructions p ! vm_pc s) = Op_Call"
  shows "post (execute_instruction p Op_Call (arg1 (instructions p ! vm_pc s)) (arg2 (instructions p ! vm_pc s)) s)
     (\<lambda>a t. vm_ok t \<longrightarrow> defined_values p t \<longrightarrow> typed p E C (next_vm a t)) (\<lambda>e _. admitted_error p T e)"
proof -
  let ?a1 = "arg1 (instructions p ! vm_pc s)" and ?a2 = "arg2 (instructions p ! vm_pc s)"
  from assms(1) obtain f fs st fi n where s: "vm_ok s" "defined_values p s" "vm_calls s = f # fs"
    "C (frame_func f) (vm_pc s) = Some st" "fun_lookup p (frame_func f) = Some fi"
    "base_ptr f + local_count fi \<le> MAX_LOCAL_SLOTS" "initialised p (vm_locals s) (base_ptr f) (abs_init st)"
    "abs_depth st + n \<le> length (vm_stack s)" "typed_frames p E C (vm_locals s) f fs n"
    by (auto simp: typed_def top_typed_def)
  from certified_at [OF assms(2) s(4,5)] obtain r step l l' where c: "range_id r = frame_func f" "range_info r = fi"
    "range_end r \<le> length (instructions p)" "length (abs_init st) = local_count fi"
    "step_instruction p r (vm_pc s) Op_Call ?a1 ?a2 st l = (Inr step, l')"
    "set (vs_call_edges step) \<subseteq> E"
    "\<And>succ. succ \<in> set (vs_successors step) \<Longrightarrow> flows_to (C (frame_func f)) succ (vs_state step)"
    using assms(3) by metis
  from c(5) obtain g where g: "0 \<le> ?a1" "0 \<le> ?a2" "fun_lookup p (nat ?a1) = Some g" "nat ?a2 = param_count g"
    "param_count g \<le> abs_depth st"
    and step: "step = \<lparr>vs_state = grow 1 (st\<lparr>abs_depth := abs_depth st - param_count g\<rparr>),
        vs_successors = [vm_pc s + 1], vs_call_edges = [(range_id r, nat ?a1)]\<rparr>"
    by (auto simp: v_call_def v_pop_stack_def reject_def bnd_Inr_conv split: if_splits option.splits)
  from assms(2) have valid: "functions_valid p" by (simp add: certified_def)
  have pl: "param_count g \<le> local_count g" by (rule fun_lookup_valid [OF valid g(3)])
  have base: "caller_base s + caller_locals p s = base_ptr f + local_count fi"
    using s(3,5) by (simp add: caller_base_def caller_locals_def)
  from c(7) [of "vm_pc s + 1"] step have "flows_to (C (frame_func f)) (vm_pc s + 1) (grow 1 (st\<lparr>abs_depth := abs_depth st - param_count g\<rparr>))"
    by simp
  moreover have "initialised p (vm_locals s) (base_ptr f) (abs_init (grow 1 (st\<lparr>abs_depth := abs_depth st - param_count g\<rparr>)))"
    using s(7) by (simp add: grow_def)
  ultimately obtain st' where st': "C (frame_func f) (vm_pc s + 1) = Some st'"
    "abs_depth st' = abs_depth st - param_count g + 1"
    "initialised p (vm_locals s) (base_ptr f) (abs_init st')" "length (abs_init st') = local_count fi"
    by (rule flows_to_initialised) (simp add: grow_def c(4))
  from certified_at [OF assms(2) st'(1) s(5)] have pc': "vm_pc s + 1 < length (instructions p)" by metis
  obtain rg where rg: "range_info rg = g" "range_start rg = entry_pc g" "certified_range p rg T E (C (nat ?a1))"
    using assms(2) g(3) by (auto simp: certified_def)
  have len: "param_count g \<le> length (vm_stack s)" using g(5) s(8) by simp
  show ?thesis
    unfolding execute_instruction.simps
  proof (rule post_exec_call_accepted [OF s(1) valid g(1-4) len], goal_cases)
    case (1 m)
    then show ?case by (simp add: admitted_error_def admitted_def)
  next
    case 2
    let ?b = "caller_base s + caller_locals p s"
    let ?ls = "call_locals ?b (param_count g) (local_count g) (vm_stack s) (vm_locals s)"
    let ?fr = "\<lparr>return_pc = vm_pc s + 1, base_ptr = ?b, frame_func = nat ?a1\<rparr>"
    have keep: "vget ?ls j = vget (vm_locals s) j" if "j < ?b" for j using that by simp
    have frames: "typed_frames p E C ?ls ?fr (f # fs) (n + (abs_depth st' - 1))"
    proof (rule typed_frames.caller)
      show "typed_frames p E C ?ls f fs n"
        by (rule typed_frames_mono [OF s(9)]) (use base keep in auto)
      show "initialised p ?ls (base_ptr f) (abs_init st')"
        using st'(3,4) keep base by (auto simp: initialised_def)
      show "(frame_func f, frame_func ?fr) \<in> E" using c(1,6) step by simp
    qed (use pc' st' s base in auto)
    have init: "initialised p ?ls ?b (abs_init (entry_state g))"
      by (rule initialised_call) (use len pl s(2) in \<open>auto simp: defined_values_def values_sat_def dest: in_set_takeD\<close>)
    have depth: "abs_depth (entry_state g) + (n + (abs_depth st' - 1)) \<le> length (drop (param_count g) (vm_stack s))"
      using s(8) st'(2) g(5) by (simp add: entry_state_def)
    show ?case
    proof (intro impI)
      let ?t = "s\<lparr>vm_stack := drop (param_count g) (vm_stack s), vm_locals := ?ls, vm_calls := ?fr # vm_calls s, vm_pc := entry_pc g\<rparr>"
      assume t: "vm_ok ?t" "defined_values p ?t"
      show "typed p E C (next_vm False ?t)"
        by (rule typed_intro [where f = ?fr and fs = "f # fs" and fi = g and st = "entry_state g" and n = "n + (abs_depth st' - 1)"])
          (use t g(3) 2 rg init depth frames s(3) in \<open>auto simp: certified_range_def\<close>)
    qed
  qed
qed

lemma typed_return:
  assumes "typed p E C s" "certified p T E C" "opcode (instructions p ! vm_pc s) = Op_Return"
  shows "post (execute_instruction p Op_Return a1 a2 s)
     (\<lambda>a t. vm_ok t \<longrightarrow> defined_values p t \<longrightarrow> vm_calls t = [] \<or> typed p E C (next_vm a t)) (\<lambda>e _. admitted_error p T e)"
proof -
  from assms(1) obtain f fs st fi n where s: "vm_ok s" "defined_values p s" "vm_calls s = f # fs"
    "C (frame_func f) (vm_pc s) = Some st" "fun_lookup p (frame_func f) = Some fi"
    "base_ptr f + local_count fi \<le> MAX_LOCAL_SLOTS" "initialised p (vm_locals s) (base_ptr f) (abs_init st)"
    "abs_depth st + n \<le> length (vm_stack s)" "typed_frames p E C (vm_locals s) f fs n"
    by (auto simp: typed_def top_typed_def)
  from certified_at [OF assms(2) s(4,5)] obtain r step l l' where
    "step_instruction p r (vm_pc s) Op_Return (arg1 (instructions p ! vm_pc s)) (arg2 (instructions p ! vm_pc s)) st l = (Inr step, l')"
    using assms(3) by metis
  then have "1 \<le> abs_depth st"
    by (auto simp: v_return_def v_pop_stack_def reject_def bnd_Inr_conv split: if_splits)
  with s(8) obtain v stk where stk: "vm_stack s = v # stk" by (cases "vm_stack s") auto
  have small: "length stk < MAX_OPERAND_STACK" using s(1) stk by (simp add: vm_ok_def)
  show ?thesis
  proof (cases fs)
    case Nil
    then have "return_pc f = usize_max" using s(9) by (auto elim: typed_frames_NilE)
    with stk small s(3) Nil show ?thesis by (simp add: exec_return_def wp_simps)
  next
    case (Cons g gs)
    from s(9) [unfolded Cons] obtain sg fg n' where g: "return_pc f < length (instructions p)"
      "C (frame_func g) (return_pc f) = Some sg" "1 \<le> abs_depth sg" "fun_lookup p (frame_func g) = Some fg"
      "base_ptr g + local_count fg \<le> base_ptr f" "initialised p (vm_locals s) (base_ptr g) (abs_init sg)"
      "typed_frames p E C (vm_locals s) g gs n'" "n = n' + abs_depth sg - Suc 0"
      by (auto elim: typed_frames_ConsE)
    have "length (instructions p) \<le> MAX_INSTRUCTIONS" using assms(2) by (simp add: certified_def)
    with g(1) have ret: "return_pc f \<noteq> usize_max" by (auto simp: limit_defs usize_max_def)
    let ?t = "s\<lparr>vm_calls := fs, vm_stack := v # stk, vm_pc := return_pc f\<rparr>"
    have "typed p E C ?t" if "vm_ok ?t" "defined_values p ?t"
    proof (rule typed_intro [where f = g and fs = gs and fi = fg and st = sg and n = n'])
      show "abs_depth sg + n' \<le> length (vm_stack ?t)"
        using s(8) stk g(3,8) \<open>1 \<le> abs_depth st\<close> by simp
    qed (use that Cons g s(6) in \<open>auto simp: flows_to_def intro: order_trans\<close>)
    with stk small s(3) ret show ?thesis by (simp add: exec_return_def wp_simps Let_def)
  qed
qed

lemma typed_execute:
  assumes "typed p E C s" "certified p T E C" "instr = instructions p ! vm_pc s"
  shows "post (execute_instruction p (opcode instr) (arg1 instr) (arg2 instr) s)
     (\<lambda>a t. vm_ok t \<longrightarrow> defined_values p t \<longrightarrow> vm_calls t = [] \<or> typed p E C (next_vm a t)) (\<lambda>e _. admitted_error p T e)"
proof -
  from assms(1) obtain f fs st fi n where s: "vm_ok s" "defined_values p s" "vm_calls s = f # fs"
    "C (frame_func f) (vm_pc s) = Some st" "fun_lookup p (frame_func f) = Some fi"
    "base_ptr f + local_count fi \<le> MAX_LOCAL_SLOTS" "initialised p (vm_locals s) (base_ptr f) (abs_init st)"
    "abs_depth st + n \<le> length (vm_stack s)" "typed_frames p E C (vm_locals s) f fs n"
    by (auto simp: typed_def top_typed_def)
  from certified_at [OF assms(2) s(4,5)] obtain r step l l' where c: "range_info r = fi"
    "range_end r \<le> length (instructions p)" "vm_pc s < length (instructions p)" "length (abs_init st) = local_count fi"
    "step_instruction p r (vm_pc s) (opcode instr) (arg1 instr) (arg2 instr) st l = (Inr step, l')"
    "set (log_traps l') \<subseteq> T"
    "\<And>succ. succ \<in> set (vs_successors step) \<Longrightarrow> flows_to (C (frame_func f)) succ (vs_state step)"
    using assms(3) by metis
  have "instr \<in> set (instructions p)" using c(3) assms(3) by simp
  then have uses: "opcode instr = op \<Longrightarrow> uses_opcode p op" for op by (auto simp: uses_opcode_def)
  have short: "range_end r \<le> MAX_INSTRUCTIONS" using c(2) assms(2) by (simp add: certified_def)
  show ?thesis
  proof (cases "opcode instr \<in> {Op_Call, Op_Return, Op_Halt}")
    case True
    have small: "length stk < MAX_OPERAND_STACK" if "vm_stack s = v # stk" for v stk
      using s(1) that by (simp add: vm_ok_def)
    have "post (execute_instruction p Op_Halt (arg1 instr) (arg2 instr) s)
     (\<lambda>a t. vm_ok t \<longrightarrow> defined_values p t \<longrightarrow> vm_calls t = [] \<or> typed p E C (next_vm a t)) (\<lambda>e _. admitted_error p T e)"
      by (cases "vm_stack s") (auto simp: exec_halt_def take_top_def Let_def wp_simps admitted_error_def
          admitted_def stack_overflow_error_def)
    moreover have "post (execute_instruction p Op_Call (arg1 instr) (arg2 instr) s)
     (\<lambda>a t. vm_ok t \<longrightarrow> defined_values p t \<longrightarrow> vm_calls t = [] \<or> typed p E C (next_vm a t)) (\<lambda>e _. admitted_error p T e)"
      if "opcode instr = Op_Call"
      by (rule post_mono [OF typed_call [OF assms(1,2) that [unfolded assms(3)], folded assms(3)]]) auto
    ultimately show ?thesis using True typed_return [OF assms(1,2)] assms(3) by auto
  next
    case False
    have "post (execute_instruction p (opcode instr) (arg1 instr) (arg2 instr) s)
        (within_frame p (vm_pc s) f step n s) (\<lambda>e _. admitted_error p T e)"
      by (rule within_frame_step [OF c(5,6) s(3)]) (use s c short uses False in auto)
    then show ?thesis
    proof (rule post_mono)
      fix a t
      assume "within_frame p (vm_pc s) f step n s a t"
      from typed_within_frame [OF this s(3,5,6,9) c(7)]
      show "vm_ok t \<longrightarrow> defined_values p t \<longrightarrow> vm_calls t = [] \<or> typed p E C (next_vm a t)" by auto
    qed
  qed
qed

text \<open>The trap, the panic and the next state of one turn.\<close>

lemma typed_cycles [simp]: "typed p E C (s\<lparr>vm_cycles := c\<rparr>) = typed p E C s"
  by (simp add: typed_def top_typed_def defined_values_def values_sat_def vm_ok_def)

lemma typed_record_trace [simp]: "typed p E C (record_trace st oc s) = typed p E C s"
  by (simp add: typed_def top_typed_def defined_values_def values_sat_def)

lemma execute_defined_values:
  assumes "defined_values p s" "vm_ok s" "functions_valid p" "is_i32 a1" "opc = Op_LocalArrayLoad \<Longrightarrow> \<not> strict p"
  shows "post (execute_instruction p opc a1 a2 s) (\<lambda>_ t. defined_values p t) (\<lambda>_ _. True)"
proof (cases "strict p")
  case False
  then show ?thesis by (auto simp: defined_values_def post_def split: sum.splits)
next
  case True
  with assms defined_values.execute_values [of s p a1 opc a2] show ?thesis
    by (auto simp: defined_values_def)
qed

lemma typed_pc: "typed p E C s \<Longrightarrow> certified p T E C \<Longrightarrow> vm_pc s < length (instructions p)"
  by (auto simp: typed_def top_typed_def elim: certified_at)

lemma typed_step:
  assumes "typed p E C s" "certified p T E C" "typed_program p"
  shows "post (exec_current p s) (\<lambda>a t. vm_calls t = [] \<or> typed p E C (next_vm a t))
     (\<lambda>e _. admitted_error p T e \<and> (\<forall>m. e = Panic m \<longrightarrow> \<not> strict p))"
proof -
  let ?i = "instructions p ! vm_pc s" and ?s = "s\<lparr>vm_cycles := vm_cycles s + 1\<rparr>"
  have i: "?i \<in> set (instructions p)" using typed_pc [OF assms(1,2)] by simp
  have s: "vm_ok ?s" "defined_values p ?s" "vm_calls ?s \<noteq> []" "typed p E C ?s"
    using assms(1) by (auto simp: typed_def defined_values_def values_sat_def vm_ok_def top_typed_def)
  have valid: "functions_valid p" using assms(2) by (simp add: certified_def)
  have "post (exec_current p s)
     (\<lambda>a t. ((vm_ok t \<longrightarrow> defined_values p t \<longrightarrow> vm_calls t = [] \<or> typed p E C (next_vm a t)) \<and> vm_ok t) \<and> defined_values p t)
     (\<lambda>e t. (admitted_error p T e \<and> vm_ok t) \<and> True)"
    unfolding exec_current_def Let_def post_conj
    using typed_execute [OF s(4) assms(2)] execute_ok [OF s(1)]
      execute_defined_values [OF s(2,1) valid, of "arg1 ?i" "opcode ?i" "arg2 ?i"] i assms(3)
    by (auto simp: typed_program_def strict_def uses_opcode_def)
  moreover have "post (exec_current p s) (\<lambda>_ _. True) (\<lambda>e _. \<forall>m. e = Panic m \<longrightarrow> \<not> strict p)"
    unfolding exec_current_def Let_def
    by (rule post_mono [OF execute_panics [OF s(1) valid s(3)]])
      (use s(2) in \<open>auto simp: defined_values_def values_sat_def\<close>)
  ultimately show ?thesis
    by (auto simp: post_def split: sum.splits)
qed

section \<open>The VM's own validation\<close>

text \<open>A program the verifier accepts also passes the validation at the start of a run.\<close>

lemma claim_slot_errors: "\<exists>es. snd (fold (claim_slot info) slots c) = snd c @ es"
proof (induction slots arbitrary: c)
  case (Cons a slots)
  from Cons.IH [of "claim_slot info a c"] show ?case by (auto simp: claim_slot_def)
qed simp

lemma verify_global_errors: "\<exists>es. snd (verify_global info c) = snd c @ es"
  using claim_slot_errors [of info _ c] by (auto simp: verify_global_def split: option.split)

lemma verify_globals_errors: "\<exists>es. snd (fold verify_global infos c) = snd c @ es"
proof (induction infos arbitrary: c)
  case (Cons a infos)
  from Cons.IH [of "verify_global a c"] verify_global_errors [of a c] show ?case by auto
qed simp

lemma verify_global_fits:
  assumes "snd (verify_global info c) = []"
  shows "\<not> (gi_is_array info \<and> gi_array_size info = 0)"
    "\<exists>e. checked_add (gi_slot info) (global_width info) = Some e \<and> e \<le> MAX_GLOBAL_SLOTS"
  using assms by (auto simp: verify_global_def split: if_splits option.splits)

lemma required_global_slots_fit:
  "snd (fold verify_global infos c) = [] \<Longrightarrow> m \<le> MAX_GLOBAL_SLOTS \<Longrightarrow>
     \<exists>n. required_global_slots infos m = Inr n \<and> n \<le> MAX_GLOBAL_SLOTS"
proof (induction infos arbitrary: c m)
  case (Cons info infos)
  have "snd (verify_global info c) = []"
    using verify_globals_errors [of infos "verify_global info c"] Cons.prems(1) by auto
  from verify_global_fits [OF this] obtain e where "\<not> (gi_is_array info \<and> gi_array_size info = 0)"
    "checked_add (gi_slot info) (global_width info) = Some e" "e \<le> MAX_GLOBAL_SLOTS" by blast
  with Cons.IH [of "verify_global info c" "max m e"] Cons.prems show ?case
    by (auto simp: global_width_def Let_def)
qed simp

lemma verified_validates:
  assumes "verify p = Some (Inr rep)" "rep_valid rep"
  shows "validate_program p = None"
proof -
  obtain cs d where rep: "rep = report_of p (metadata_errors p @ snd (function_ranges p)) cs d"
    using assms(1) by (auto simp: verify_def split: option.splits sum.splits)
  have "length (instructions p) \<le> MAX_INSTRUCTIONS" "verify_global_metadata (map snd (prog_globals p)) = []"
    using assms(2) by (auto simp: rep metadata_errors_def split: if_splits)
  moreover have "sc_errors (scan_functions p) = []" using assms(2) by (simp add: rep function_ranges_def)
  then have "first_error validate_function (map snd (prog_functions p)) = None"
    by (force simp: scan_functions_def first_error_None validate_function_def dest!: scan_errors)
  ultimately show ?thesis
    using required_global_slots_fit [of "map snd (prog_globals p)" "({}, [])" 0]
    by (auto simp: validate_program_def verify_global_metadata_def)
qed

section \<open>Runs\<close>

lemma typed_start:
  assumes "certified p T E C" "fun_lookup p (main_func_id p) = Some m" "fi_id m = main_func_id p" "param_count m = 0"
  shows "typed p E C (vm_start m (with_max_cycles k vm_new))"
proof -
  let ?s = "vm_start m (with_max_cycles k vm_new)"
  let ?f = "\<lparr>return_pc = usize_max, base_ptr = 0, frame_func = main_func_id p\<rparr>"
  from assms obtain r where r: "range_info r = m" "range_start r = entry_pc m" "certified_range p r T E (C (main_func_id p))"
    and m: "local_count m \<le> MAX_LOCAL_SLOTS" "param_count m \<le> local_count m"
    by (auto simp: certified_def)
  have calls: "vm_calls ?s = [?f]" using assms(3) by (simp add: vm_start_def with_max_cycles_def vm_new_def)
  show ?thesis
  proof (rule typed_intro [OF _ _ calls, where n = 0])
    show "flows_to (C (frame_func ?f)) (vm_pc ?s) (entry_state m)"
      using r by (simp add: certified_range_def vm_start_def)
    show "initialised p (vm_locals ?s) (base_ptr ?f) (abs_init (entry_state m))"
      using assms(4) by (simp add: initialised_def entry_state_def)
    show "defined_values p ?s"
      by (simp add: defined_values_def values_sat_def vm_start_def with_max_cycles_def vm_new_def)
    show "typed_frames p E C (vm_locals ?s) ?f [] 0"
      by (rule typed_frames.bottom) simp_all
    show "vm_ok ?s"
      by (simp add: vm_ok_def vm_start_def with_max_cycles_def vm_new_def limit_defs)
  qed (use assms m in \<open>auto simp: entry_state_def\<close>)
qed

text \<open>
  The run loop once more, with the invariant of typed machines; the certificate is a parameter of
  the invariant because a report only promises that there is one.
\<close>

definition verified_state ::
  "compiled_program \<Rightarrow> trap_code set \<Rightarrow> (usize \<times> usize) set \<Rightarrow> (usize \<Rightarrow> cert) \<Rightarrow> vm \<Rightarrow> bool" where
  "verified_state p T E C s \<longleftrightarrow>
     certified p T E C \<and> typed_program p \<and> typed p E C s \<and> (\<exists>k. running k s)"

lemma typed_vm_step:
  assumes "typed p E C s" "certified p T E C" "typed_program p" "vm_step p s = Inr t"
  shows "typed p E C t"
proof -
  from assms(4) obtain a u st oc where u: "exec_current p s = (Inr a, u)" "vm_calls u \<noteq> []"
    and t: "t = record_trace st oc (if a then u\<lparr>vm_pc := vm_pc u + 1\<rparr> else u)"
    by (rule vm_step_Inr)
  from post_Inr [OF typed_step [OF assms(1-3)] u(1)] u(2) t show ?thesis by (simp add: next_vm_def)
qed

interpretation verified_loop: bounded_loop "vm_step p" "verified_state p T E C" cycles_left for p T E C
proof
  fix p T E C s t
  assume "verified_state p T E C s" "vm_step p s = (Inr t :: vm_exit + vm)"
  then show "verified_state p T E C t" "cycles_left t < cycles_left s"
    using typed_vm_step vm_step_running unfolding verified_state_def by blast+
qed

text \<open>How a run of a typed machine can end.\<close>

definition allowed_exit :: "compiled_program \<Rightarrow> trap_code set \<Rightarrow> vm_exit \<Rightarrow> bool" where
  "allowed_exit p T x \<longleftrightarrow>
     (case fst x of
        Inl m \<Rightarrow> uses_opcode p Op_LocalArrayLoad
      | Inr res \<Rightarrow> success res \<or> admitted p T (trap_code res))"

lemma typed_exit:
  assumes "verified_state p T E C s" "vm_step p s = Inl x"
  shows "allowed_exit p T x"
  using assms(2)
proof (cases rule: vm_step_Inl)
  case (limit msg)
  then show ?thesis by (simp add: allowed_exit_def finish_def make_trap_result_def admitted_def)
next
  case (bad_pc msg)
  with assms(1) typed_pc show ?thesis by (auto simp: verified_state_def)
next
  case (instr st)
  have step: "post (exec_current p s) (\<lambda>a t. vm_calls t = [] \<or> typed p E C (next_vm a t))
     (\<lambda>e _. admitted_error p T e \<and> (\<forall>m. e = Panic m \<longrightarrow> \<not> strict p))"
    using assms(1) by (intro typed_step) (auto simp: verified_state_def)
  from instr(3) show ?thesis
  proof (cases rule: after_instruction_Inl)
    case (trap code msg u)
    with post_Inl [OF step trap(1)] show ?thesis
      by (simp add: allowed_exit_def finish_def make_trap_result_def admitted_error_def)
  next
    case (panic msg u)
    with post_Inl [OF step panic(1)] show ?thesis by (simp add: allowed_exit_def strict_def)
  next
    case (exit a u)
    then show ?thesis by (simp add: allowed_exit_def finish_def exit_result_def Let_def)
  qed
qed

lemma main_func_certified:
  "certified p T E C \<Longrightarrow> fun_lookup p (main_func_id p) = Some m \<Longrightarrow> local_count m \<le> MAX_LOCAL_SLOTS"
  by (auto simp: certified_def)

text \<open>The metadata of the main function as the compiler writes it and semantic analysis demands it.\<close>

definition main_ok :: "compiled_program \<Rightarrow> bool" where
  "main_ok p \<longleftrightarrow>
     (\<forall>m. fun_lookup p (main_func_id p) = Some m \<longrightarrow> fi_id m = main_func_id p \<and> param_count m = 0)"

lemma verified_run:
  assumes "verify p = Some (Inr rep)" "rep_valid rep" "typed_program p" "main_ok p" "0 < k"
  shows "\<exists>x. vm_run p (with_max_cycles k vm_new) = Some x \<and> allowed_exit p (set (rep_possible_traps rep)) x"
proof -
  obtain C edges m where c: "certified p (set (rep_possible_traps rep)) (set edges) C"
    and m: "fun_lookup p (main_func_id p) = Some m"
    using verify_certified [OF assms(1,2)] by blast
  have main: "fi_id m = main_func_id p" "param_count m = 0"
    using assms(4) m by (simp_all add: main_ok_def)
  let ?s = "vm_start m (with_max_cycles k vm_new)"
  have "verified_state p (set (rep_possible_traps rep)) (set edges) C ?s"
    using c assms(3) typed_start [OF c m main] running_start [OF assms(5)]
    by (auto simp: verified_state_def)
  from verified_loop.exit_state [OF this] obtain t x where
    "verified_state p (set (rep_possible_traps rep)) (set edges) C t" "vm_step p t = Inl x"
    "iterate (vm_step p) ?s = Some x" by blast
  with typed_exit verified_validates [OF assms(1,2)] m main_func_certified [OF c m]
  show ?thesis by (auto simp: vm_run_def)
qed

section \<open>Depth of the call stack\<close>

lemma execute_calls:
  "post (execute_instruction p opc a1 a2 s) (\<lambda>_ _. True) (\<lambda>_ t. length (vm_calls t) \<le> length (vm_calls s))"
proof (cases "opc = Op_Call")
  case True
  then show ?thesis by (auto simp: same_frames_def intro!: exec_call_post)
next
  case False
  then show ?thesis
    by (cases opc) (auto simp: exec_defs wp_simps Let_def split: list.split)
qed

lemma typed_depth:
  assumes "typed p E C s" "calls_within E d (main_func_id p)"
  shows "length (vm_calls s) \<le> d"
proof -
  from assms(1) obtain f fs n where "vm_calls s = f # fs" "typed_frames p E C (vm_locals s) f fs n"
    by (auto simp: typed_def)
  with typed_frames_chain [OF _ assms(2)] show ?thesis by fastforce
qed

lemma typed_exit_depth:
  assumes "verified_state p T E C s" "calls_within E d (main_func_id p)" "vm_step p s = Inl x" "fst x = Inr res"
  shows "frame_depth res \<le> d"
proof -
  have s: "length (vm_calls s) \<le> d" using typed_depth assms(1,2) by (auto simp: verified_state_def)
  have calls: "post (exec_current p s) (\<lambda>_ _. True) (\<lambda>_ t. length (vm_calls t) \<le> length (vm_calls s))"
    unfolding exec_current_def Let_def using execute_calls by (rule post_mono) simp_all
  from assms(3) show ?thesis
  proof (cases rule: vm_step_Inl)
    case (instr st)
    from instr(3) show ?thesis
    proof (cases rule: after_instruction_Inl)
      case (trap code msg u)
      with post_Inl [OF calls trap(1)] s assms(4) show ?thesis
        by (auto simp: finish_def make_trap_result_def)
    next
      case (panic msg u)
      with assms(4) show ?thesis by simp
    next
      case (exit a u)
      with assms(4) show ?thesis
        by (auto simp: finish_def exit_result_def take_top_def Let_def split: list.splits)
    qed
  qed (use s assms(4) in \<open>auto simp: finish_def make_trap_result_def\<close>)
qed

lemma verified_run_depth:
  assumes "verify p = Some (Inr rep)" "rep_valid rep" "typed_program p" "main_ok p" "0 < k"
    "rep_max_frame_depth rep = Some d" "vm_run p (with_max_cycles k vm_new) = Some (Inr res, t)"
  shows "frame_depth res \<le> d"
proof -
  obtain C edges m where c: "certified p (set (rep_possible_traps rep)) (set edges) C"
    "max_frame_depth (main_func_id p) edges = Some (rep_max_frame_depth rep)"
    and m: "fun_lookup p (main_func_id p) = Some m"
    using verify_certified [OF assms(1,2)] by blast
  have main: "fi_id m = main_func_id p" "param_count m = 0"
    using assms(4) m by (simp_all add: main_ok_def)
  have within: "calls_within (set edges) d (main_func_id p)"
    using c(2) assms(6) by (auto intro: max_frame_depth_correct)
  let ?s = "vm_start m (with_max_cycles k vm_new)"
  have start: "verified_state p (set (rep_possible_traps rep)) (set edges) C ?s"
    using c(1) assms(3) typed_start [OF c(1) m main] running_start [OF assms(5)]
    by (auto simp: verified_state_def)
  have "iterate (vm_step p) ?s = Some (Inr res, t)"
    using assms(7) m verified_validates [OF assms(1,2)] main_func_certified [OF c(1) m] by (simp add: vm_run_def)
  from verified_loop.returns_with [OF start this] obtain u where
    "verified_state p (set (rep_possible_traps rep)) (set edges) C u" "vm_step p u = Inl (Inr res, t)" .
  from typed_exit_depth [OF this(1) within this(2)] show ?thesis by simp
qed

section \<open>Properties\<close>



text \<open>
  C10: The frame depth of the report is an upper bound: when the call graph is acyclic, no run of a
  verified program ever has more frames than \<open>max_frame_depth\<close> says.
\<close>

theorem verifier_frame_depth:
  assumes "verify p = Some (Inr rep)" "rep_valid rep" "typed_program p" "main_ok p" "0 < k"
    "rep_max_frame_depth rep = Some d" "vm_run p (with_max_cycles k vm_new) = Some (Inr res, t)"
  shows "frame_depth res \<le> d"
  using assms by (rule verified_run_depth)

text \<open>
  C22: The verifier subsumes the checks the machine makes before a run: a program with a valid report
  passes \<open>validate_program\<close>.
\<close>

theorem verifier_implies_validation:
  assumes "verify p = Some (Inr rep)" "rep_valid rep"
  shows "validate_program p = None"
  using assms by (rule verified_validates)

lemma call_program_verified:
  obtains rep where "verify call_program = Some (Inr rep)" "rep_valid rep" "rep_max_frame_depth rep = Some 2"
proof -
  obtain rep where rep: "verify call_program = Some (Inr rep)" using verify_returns by blast
  moreover have "map_option (map_sum id (\<lambda>r. (rep_valid r, rep_max_frame_depth r))) (verify call_program)
      = Some (Inr (True, Some 2))" by code_simp
  ultimately show ?thesis using that by simp
qed

lemma call_program_ok: "typed_program call_program" "main_ok call_program"
  by (simp_all add: typed_program_def main_ok_def call_program_def is_i32_def fun_lookup_def)


theorem verifier_frame_depth_witness:
  "\<exists>res t. vm_run call_program (with_max_cycles 50 vm_new) = Some (Inr res, t) \<and> frame_depth res \<le> 2"
proof -
  obtain rep where rep: "verify call_program = Some (Inr rep)" "rep_valid rep" "rep_max_frame_depth rep = Some 2"
    by (rule call_program_verified)
  have "map_option (\<lambda>x. map_sum id success (fst x)) (vm_run call_program (with_max_cycles 50 vm_new)) = Some (Inr True)"
    by code_simp
  then obtain x where x: "vm_run call_program (with_max_cycles 50 vm_new) = Some x" "map_sum id success (fst x) = Inr True"
    by auto
  then obtain res t where run: "vm_run call_program (with_max_cycles 50 vm_new) = Some (Inr res, t)"
    by (cases x; cases "fst x") auto
  with verifier_frame_depth [OF rep(1,2) call_program_ok _ rep(3) run] show ?thesis by auto
qed

theorem verifier_implies_validation_witness: "validate_program call_program = None"
  by (rule call_program_verified) (rule verifier_implies_validation)

section \<open>Where the verifier says less than it seems to\<close>

text \<open>A program whose only function is \<open>main\<close>.\<close>

definition single_main :: "usize \<Rightarrow> usize \<Rightarrow> instruction list \<Rightarrow> compiled_program" where
  "single_main params locals code =
     \<lparr>instructions = code,
      prog_functions = [(0, \<lparr>fi_name = ''main'', fi_id = 0, entry_pc = 0, param_count = params,
                             local_count = locals\<rparr>)],
      prog_globals = [], main_func_id = 0, prog_constants = []\<rparr>"

definition verdict :: "compiled_program \<Rightarrow> (bool \<times> trap_code list) option" where
  "verdict p = (case verify p of Some (Inr rep) \<Rightarrow> Some (rep_valid rep, rep_possible_traps rep) | _ \<Rightarrow> None)"

definition outcome :: "compiled_program \<Rightarrow> nat \<Rightarrow> (string + (bool \<times> trap_code)) option" where
  "outcome p k = map_option (map_sum id (\<lambda>r. (success r, trap_code r)) \<circ> fst)
     (vm_run p (with_max_cycles k vm_new))"

text \<open>
  \<open>LocalArrayLoad\<close> on a slot that holds a plain integer is accepted. It can read an undefined slot
  and push the undefined marker \<open>i64::MIN\<close>, which \<open>Div\<close> by \<open>-1\<close> turns into a panic.
\<close>

definition panicking_program :: compiled_program where
  "panicking_program = single_main 0 1
     [Instruction_new Op_LoadConst 5 0, Instruction_new Op_StoreLocal 0 0,
      Instruction_new Op_LoadConst 0 0, Instruction_new Op_LocalArrayLoad 0 1,
      Instruction_new Op_LoadConst (- 1) 0, Instruction_simple Op_Div, Instruction_simple Op_Return]"

text \<open>
  C27: A program with a valid report can panic the machine (an integer slot used as a local array;
  the exception in the soundness statement is needed).
\<close>

theorem verified_program_can_panic:
  "verdict panicking_program = Some (True, [ArrayOutOfBounds, DivideByZero]) \<and>
   outcome panicking_program 100 = Some (Inl ''attempt to divide with overflow'')"
  by code_simp

text \<open>
  \<open>main\<close> and \<open>f\<close> each fit into the 1024 local slots, their frames together do not.
\<close>

definition deep_locals_program :: compiled_program where
  "deep_locals_program =
     \<lparr>instructions = [Instruction_new Op_Call 1 0, Instruction_simple Op_Return,
                      Instruction_new Op_LoadConst 0 0, Instruction_simple Op_Return],
      prog_functions =
        [(0, \<lparr>fi_name = ''main'', fi_id = 0, entry_pc = 0, param_count = 0, local_count = 1000\<rparr>),
         (1, \<lparr>fi_name = ''f'', fi_id = 1, entry_pc = 2, param_count = 0, local_count = 25\<rparr>)],
      prog_globals = [], main_func_id = 0, prog_constants = []\<rparr>"

lemma entry_depth [simp]: "abs_depth (entry_state f) = 0" by (simp add: entry_state_def)

lemmas flow_eval = verify_function_def iterate.simps [of "flow_step p r" for p r] flow_step_def flow_start_def process_pc_def pc_in_range_def Let_def
  vstep_defs v_pop_stack_def process_step_def check_depth_limit_def limit_defs merge_successor_def function_check_of_def

lemma deep_verify: "verdict deep_locals_program = Some (True, [])"
proof -
  let ?f = "\<lparr>fi_name = ''main'', fi_id = 0, entry_pc = 0, param_count = 0, local_count = 1000\<rparr>"
  let ?g = "\<lparr>fi_name = ''f'', fi_id = 1, entry_pc = 2, param_count = 0, local_count = 25\<rparr>"
  let ?r = "\<lparr>range_id = 0, range_info = ?f, range_start = 0, range_end = 2\<rparr>"
  let ?q = "\<lparr>range_id = 1, range_info = ?g, range_start = 2, range_end = 4\<rparr>"
  have r: "function_ranges deep_locals_program = ([?r, ?q], [])" by code_simp
  have m: "metadata_errors deep_locals_program = []" by code_simp
  obtain c where c: "verify_function deep_locals_program ?r = Some (Inr c)" "fc_errors c = []"
    "fc_possible_traps c = []" "fc_call_edges c = [(0, 1)]"
    by (simp add: flow_eval deep_locals_program_def fun_lookup_def)
  obtain d where d: "verify_function deep_locals_program ?q = Some (Inr d)" "fc_errors d = []"
    "fc_possible_traps d = []" "fc_call_edges d = []"
    by (simp add: flow_eval deep_locals_program_def fun_lookup_def)
  have "max_frame_depth 0 [(0, 1)] = Some (Some 2)" by code_simp
  moreover have "main_func_id deep_locals_program = 0" by (simp add: deep_locals_program_def)
  ultimately show ?thesis
    using r m c d by (simp add: verdict_def verify_def report_of_def Let_def depth_traps_def limit_defs)
qed
text \<open>
  C29: The report says that a program cannot trap although it runs out of local storage: the
  verifier checks the locals of each function, the machine the sum over the frames.
\<close>

theorem verified_program_can_overflow_locals:
  "verdict deep_locals_program = Some (True, []) \<and>
   outcome deep_locals_program 100 = Some (Inr (False, StackOverflow))"
proof
  show "outcome deep_locals_program 100 = Some (Inr (False, StackOverflow))" by code_simp
qed (rule deep_verify)

end
