(* ===== verification/Lexer.thy ===== *)
theory Lexer
  imports Prelude
begin

text \<open>
  Tokens (token.rs) and the lexical analyser (lexer.rs). The source is the list of bytes of the
  input; a byte read \<open>as char\<close> is the code point with that number. Lines and columns are \<open>u32\<close> in
  the code; they are natural numbers here, so the model speaks of sources below four gigabytes.
\<close>

section \<open>Tokens\<close>

record span =
  sp_line :: nat
  sp_column :: nat

definition Span_new :: "nat \<Rightarrow> nat \<Rightarrow> span" where
  "Span_new line column = \<lparr>sp_line = line, sp_column = column\<rparr>"

definition show_span :: "span \<Rightarrow> string" where
  "show_span sp = fmt [show_nat (sp_line sp), '':'', show_nat (sp_column sp)]"

datatype token_kind =
    T_IntLiteral i32 | T_BoolLiteral bool | T_Identifier string
  | T_Int | T_Bool | T_If | T_Else | T_While | T_Func | T_Return | T_Print
  | T_Plus | T_Minus | T_Star | T_Slash
  | T_Eq | T_Ne | T_Lt | T_Gt | T_Le | T_Ge
  | T_And | T_Or | T_Not
  | T_Assign
  | T_LParen | T_RParen | T_LBrace | T_RBrace | T_LBracket | T_RBracket | T_Semicolon | T_Comma
  | T_Eof | T_Error string

text \<open>\<open>impl Display for TokenKind\<close>.\<close>

fun show_token :: "token_kind \<Rightarrow> string" where
  "show_token (T_IntLiteral n) = fmt [''INT('', show_int n, '')'']"
| "show_token (T_BoolLiteral b) = fmt [''BOOL('', show_bool b, '')'']"
| "show_token (T_Identifier s) = fmt [''IDENT('', s, '')'']"
| "show_token T_Int = ''int''"
| "show_token T_Bool = ''bool''"
| "show_token T_If = ''if''"
| "show_token T_Else = ''else''"
| "show_token T_While = ''while''"
| "show_token T_Func = ''func''"
| "show_token T_Return = ''return''"
| "show_token T_Print = ''print''"
| "show_token T_Plus = ''+''"
| "show_token T_Minus = ''-''"
| "show_token T_Star = ''*''"
| "show_token T_Slash = ''/''"
| "show_token T_Eq = ''==''"
| "show_token T_Ne = ''!=''"
| "show_token T_Lt = ''<''"
| "show_token T_Gt = ''>''"
| "show_token T_Le = ''<=''"
| "show_token T_Ge = ''>=''"
| "show_token T_And = ''&&''"
| "show_token T_Or = ''||''"
| "show_token T_Not = ''!''"
| "show_token T_Assign = ''=''"
| "show_token T_LParen = ''(''"
| "show_token T_RParen = '')''"
| "show_token T_LBrace = ''{''"
| "show_token T_RBrace = ''}''"
| "show_token T_LBracket = ''[''"
| "show_token T_RBracket = '']''"
| "show_token T_Semicolon = '';''"
| "show_token T_Comma = '',''"
| "show_token T_Eof = ''EOF''"
| "show_token (T_Error m) = fmt [''ERROR('', m, '')'']"

record token =
  kind :: token_kind
  token_span :: span

definition Token_new :: "token_kind \<Rightarrow> span \<Rightarrow> token" where
  "Token_new k sp = \<lparr>kind = k, token_span = sp\<rparr>"

section \<open>Lexer state\<close>

record lexer =
  lx_source :: string
  lx_pos :: nat
  lx_line :: nat
  lx_column :: nat

definition Lexer_new :: "string \<Rightarrow> lexer" where
  "Lexer_new src = \<lparr>lx_source = src, lx_pos = 0, lx_line = 1, lx_column = 1\<rparr>"

definition byte_at :: "string \<Rightarrow> nat \<Rightarrow> char option" where
  "byte_at src i = (if i < length src then Some (src ! i) else None)"

definition current :: "lexer \<Rightarrow> char option" where
  "current l = byte_at (lx_source l) (lx_pos l)"

definition peek :: "lexer \<Rightarrow> char option" where
  "peek l = byte_at (lx_source l) (lx_pos l + 1)"

definition advance :: "lexer \<Rightarrow> lexer" where
  "advance l = (case current l of
     None \<Rightarrow> l
   | Some ch \<Rightarrow>
       if ch = CHR 0x0A
       then l\<lparr>lx_pos := lx_pos l + 1, lx_line := lx_line l + 1, lx_column := 1\<rparr>
       else l\<lparr>lx_pos := lx_pos l + 1, lx_column := lx_column l + 1\<rparr>)"

definition bytes_left :: "lexer \<Rightarrow> nat" where
  "bytes_left l = length (lx_source l) - lx_pos l"

lemma advance_source [simp]: "lx_source (advance l) = lx_source l"
  by (simp add: advance_def split: option.split)

lemma advance_pos: "current l = Some c \<Longrightarrow> lx_pos (advance l) = lx_pos l + 1"
  by (simp add: advance_def)

lemma current_Some: "current l = Some c \<longleftrightarrow> lx_pos l < length (lx_source l) \<and> c = lx_source l ! lx_pos l"
  by (auto simp: current_def byte_at_def)

lemma left_advance: "current l = Some c \<Longrightarrow> bytes_left (advance l) < bytes_left l"
  by (auto simp: bytes_left_def advance_pos current_Some)

section \<open>Character classes\<close>

definition is_space :: "char \<Rightarrow> bool" where
  "is_space c \<longleftrightarrow> c \<in> {CHR '' '', CHR 0x09, CHR 0x0A, CHR 0x0D}"

definition is_digit :: "char \<Rightarrow> bool" where
  "is_digit c \<longleftrightarrow> 48 \<le> (of_char c :: nat) \<and> (of_char c :: nat) \<le> 57"

definition is_alpha :: "char \<Rightarrow> bool" where
  "is_alpha c \<longleftrightarrow> (let n = of_char c :: nat in 65 \<le> n \<and> n \<le> 90 \<or> 97 \<le> n \<and> n \<le> 122)"

definition is_name_char :: "char \<Rightarrow> bool" where
  "is_name_char c \<longleftrightarrow> is_alpha c \<or> is_digit c \<or> c = CHR ''_''"

section \<open>Scanning\<close>

text \<open>\<open>while\<close> the current byte satisfies \<open>P\<close>, advance.\<close>

function advance_while :: "(char \<Rightarrow> bool) \<Rightarrow> lexer \<Rightarrow> lexer" where
  "advance_while P l =
     (case current l of
        Some ch \<Rightarrow> if P ch then advance_while P (advance l) else l
      | None \<Rightarrow> l)"
  by pat_completeness auto

termination by (relation "measure (\<lambda>(P, l). bytes_left l)") (auto simp: left_advance)

declare advance_while.simps [simp del]

lemma advance_while_source [simp]: "lx_source (advance_while P l) = lx_source l"
  by (induction P l rule: advance_while.induct)
    (subst advance_while.simps, auto split: option.split)

lemma advance_while_left: "bytes_left (advance_while P l) \<le> bytes_left l"
proof (induction P l rule: advance_while.induct)
  case (1 P l)
  show ?case
  proof (cases "current l")
    case None
    then show ?thesis by (simp add: advance_while.simps)
  next
    case (Some c)
    with 1 [OF Some] left_advance [OF Some] show ?thesis
      by (cases "P c") (simp_all add: advance_while.simps [of P l])
  qed
qed

lemma advance_while_progress: "current l = Some c \<Longrightarrow> P c \<Longrightarrow> bytes_left (advance_while P l) < bytes_left l"
  using advance_while_left [of P "advance l"] left_advance [of l c]
  by (simp add: advance_while.simps [of P l])

definition at_comment :: "lexer \<Rightarrow> bool" where
  "at_comment l \<longleftrightarrow> current l = Some (CHR ''/'') \<and> peek l = Some (CHR ''/'')"

function skip_whitespace_and_comments :: "lexer \<Rightarrow> lexer" where
  "skip_whitespace_and_comments l =
     (let l = advance_while is_space l in
      if at_comment l
      then skip_whitespace_and_comments (advance_while (\<lambda>c. c \<noteq> CHR 0x0A) l)
      else l)"
  by pat_completeness auto

termination
proof (relation "measure bytes_left", goal_cases)
  case (2 l x)
  then have "bytes_left (advance_while (\<lambda>c. c \<noteq> CHR 0x0A) x) < bytes_left x"
    by (intro advance_while_progress) (auto simp: at_comment_def)
  with 2 advance_while_left [of is_space l] show ?case by simp
qed simp

declare skip_whitespace_and_comments.simps [simp del]

definition here :: "lexer \<Rightarrow> span" where
  "here l = Span_new (lx_line l) (lx_column l)"

text \<open>
  \<open>value.wrapping_mul(10).wrapping_add((ch - b'0') as i32)\<close> for every digit.
\<close>

definition digit_value :: "char \<Rightarrow> int" where
  "digit_value c = int (of_char c) - 48"

function scan_digits :: "i32 \<Rightarrow> lexer \<Rightarrow> i32 \<times> lexer" where
  "scan_digits v l =
     (case current l of
        Some ch \<Rightarrow>
          if is_digit ch
          then scan_digits (wrap32 (wrap32 (v * 10) + digit_value ch)) (advance l)
          else (v, l)
      | None \<Rightarrow> (v, l))"
  by pat_completeness auto

termination by (relation "measure (\<lambda>(v, l). bytes_left l)") (auto simp: left_advance)

declare scan_digits.simps [simp del]

definition scan_number :: "lexer \<Rightarrow> token \<times> lexer" where
  "scan_number l =
     (let r = scan_digits 0 l in (Token_new (T_IntLiteral (fst r)) (here l), snd r))"

definition source_text :: "nat \<Rightarrow> lexer \<Rightarrow> string" where
  "source_text start l = take (lx_pos l - start) (drop start (lx_source l))"

definition word_kind :: "string \<Rightarrow> token_kind" where
  "word_kind txt =
     (if txt = ''int'' then T_Int
      else if txt = ''bool'' then T_Bool
      else if txt = ''if'' then T_If
      else if txt = ''else'' then T_Else
      else if txt = ''while'' then T_While
      else if txt = ''func'' then T_Func
      else if txt = ''return'' then T_Return
      else if txt = ''print'' then T_Print
      else if txt = ''true'' then T_BoolLiteral True
      else if txt = ''false'' then T_BoolLiteral False
      else T_Identifier txt)"

definition scan_identifier_or_keyword :: "lexer \<Rightarrow> token \<times> lexer" where
  "scan_identifier_or_keyword l =
     (let l' = advance_while is_name_char l
      in (Token_new (word_kind (source_text (lx_pos l) l')) (here l), l'))"

definition two_char_kind :: "char \<Rightarrow> char option \<Rightarrow> token_kind option" where
  "two_char_kind ch next =
     (if ch = CHR ''='' \<and> next = Some (CHR ''='') then Some T_Eq
      else if ch = CHR ''!'' \<and> next = Some (CHR ''='') then Some T_Ne
      else if ch = CHR ''<'' \<and> next = Some (CHR ''='') then Some T_Le
      else if ch = CHR ''>'' \<and> next = Some (CHR ''='') then Some T_Ge
      else if ch = CHR ''&'' \<and> next = Some (CHR ''&'') then Some T_And
      else if ch = CHR ''|'' \<and> next = Some (CHR ''|'') then Some T_Or
      else None)"

definition one_char_kind :: "char \<Rightarrow> token_kind" where
  "one_char_kind ch =
     (if ch = CHR ''+'' then T_Plus
      else if ch = CHR ''-'' then T_Minus
      else if ch = CHR ''*'' then T_Star
      else if ch = CHR ''/'' then T_Slash
      else if ch = CHR ''<'' then T_Lt
      else if ch = CHR ''>'' then T_Gt
      else if ch = CHR ''!'' then T_Not
      else if ch = CHR ''='' then T_Assign
      else if ch = CHR ''('' then T_LParen
      else if ch = CHR '')'' then T_RParen
      else if ch = CHR ''{'' then T_LBrace
      else if ch = CHR ''}'' then T_RBrace
      else if ch = CHR ''['' then T_LBracket
      else if ch = CHR '']'' then T_RBracket
      else if ch = CHR '';'' then T_Semicolon
      else if ch = CHR '','' then T_Comma
      else T_Error (fmt [''Unexpected character: '', [ch]]))"

definition next_token :: "lexer \<Rightarrow> token \<times> lexer" where
  "next_token l0 =
     (let l = skip_whitespace_and_comments l0 in
      case current l of
        None \<Rightarrow> (Token_new T_Eof (here l), l)
      | Some ch \<Rightarrow>
          if is_digit ch then scan_number l
          else if is_alpha ch \<or> ch = CHR ''_'' then scan_identifier_or_keyword l
          else case two_char_kind ch (peek l) of
            Some k \<Rightarrow> (Token_new k (here l), advance (advance l))
          | None \<Rightarrow> (Token_new (one_char_kind ch) (here l), advance l))"

lemma skip_source [simp]: "lx_source (skip_whitespace_and_comments l) = lx_source l"
proof (induction l rule: skip_whitespace_and_comments.induct)
  case (1 l)
  then show ?case by (subst skip_whitespace_and_comments.simps) (simp add: Let_def)
qed

lemma skip_left: "bytes_left (skip_whitespace_and_comments l) \<le> bytes_left l"
proof (induction l rule: skip_whitespace_and_comments.induct)
  case (1 l)
  have "bytes_left (advance_while P (advance_while is_space l)) \<le> bytes_left l" for P
    using advance_while_left [of P "advance_while is_space l"] advance_while_left [of is_space l] by simp
  with 1 advance_while_left [of is_space l] show ?case
    by (subst skip_whitespace_and_comments.simps) (auto simp: Let_def intro: order_trans)
qed

lemma scan_digits_left: "bytes_left (snd (scan_digits v l)) \<le> bytes_left l"
proof (induction v l rule: scan_digits.induct)
  case (1 v l)
  show ?case
  proof (cases "current l")
    case (Some c)
    with 1 [OF Some] left_advance [OF Some] show ?thesis
      by (cases "is_digit c") (simp_all add: scan_digits.simps [of v l])
  qed (simp add: scan_digits.simps)
qed

lemma scan_digits_progress: "current l = Some c \<Longrightarrow> is_digit c \<Longrightarrow> bytes_left (snd (scan_digits v l)) < bytes_left l"
  using scan_digits_left [of "wrap32 (wrap32 (v * 10) + digit_value c)" "advance l"] left_advance [of l c]
  by (simp add: scan_digits.simps [of v l])

lemma left_advance_le: "bytes_left (advance l) \<le> bytes_left l"
proof (cases "current l")
  case None
  then show ?thesis by (simp add: advance_def)
qed (auto dest: left_advance)

lemma next_token_progress: "kind (fst (next_token l)) \<noteq> T_Eof \<Longrightarrow> bytes_left (snd (next_token l)) < bytes_left l"
proof -
  let ?l = "skip_whitespace_and_comments l"
  assume tok: "kind (fst (next_token l)) \<noteq> T_Eof"
  show ?thesis
  proof (cases "current ?l")
    case None
    with tok show ?thesis by (simp add: next_token_def Token_new_def Let_def)
  next
    case (Some c)
    have "is_alpha c \<or> c = CHR ''_'' \<Longrightarrow> is_name_char c" by (auto simp: is_name_char_def)
    then have "bytes_left (snd (next_token l)) < bytes_left ?l"
      using Some scan_digits_progress [OF Some, of 0] advance_while_progress [OF Some, of is_name_char]
        left_advance [OF Some] left_advance_le [of "advance ?l"]
      by (auto simp: next_token_def scan_number_def scan_identifier_or_keyword_def Let_def split: option.split)
    with skip_left [of l] show ?thesis by simp
  qed
qed

text \<open>The loop of \<open>tokenize\<close>.\<close>

function tokenize_from :: "lexer \<Rightarrow> token list" where
  "tokenize_from l =
     (let r = next_token l
      in if kind (fst r) = T_Eof then [fst r] else fst r # tokenize_from (snd r))"
  by pat_completeness auto

termination by (relation "measure bytes_left") (auto simp: next_token_progress)

declare tokenize_from.simps [simp del]

definition tokenize :: "string \<Rightarrow> token list" where
  "tokenize src = tokenize_from (Lexer_new src)"

end
