(* ===== verification/Ast.thy ===== *)
theory Ast
  imports Lexer
begin

text \<open>
  The abstract syntax tree (ast.rs). Constructor arguments are the fields of the source's variants
  in their order; the last one is the span.
\<close>

datatype ty = Ty_Int | Ty_Bool | Ty_Void | Ty_Error

datatype binary_op =
    Bin_Add | Bin_Sub | Bin_Mul | Bin_Div
  | Bin_Eq | Bin_Ne | Bin_Lt | Bin_Gt | Bin_Le | Bin_Ge
  | Bin_And | Bin_Or

datatype unary_op = Un_Neg | Un_Not

datatype expr =
    E_IntLiteral i32 span
  | E_BoolLiteral bool span
  | E_Identifier string span
  | E_Binary binary_op expr expr span
  | E_Unary unary_op expr span
  | E_Call string "expr list" span
  | E_ArrayIndex string expr span

fun expr_span :: "expr \<Rightarrow> span" where
  "expr_span (E_IntLiteral v sp) = sp"
| "expr_span (E_BoolLiteral v sp) = sp"
| "expr_span (E_Identifier n sp) = sp"
| "expr_span (E_Binary op l r sp) = sp"
| "expr_span (E_Unary op e sp) = sp"
| "expr_span (E_Call n args sp) = sp"
| "expr_span (E_ArrayIndex n i sp) = sp"

datatype stmt =
    S_VarDecl ty string "expr option" "i32 option" span
  | S_Assign string "expr option" expr span
  | S_If expr "stmt list" "stmt list option" span
  | S_While expr "stmt list" span
  | S_Return expr span
  | S_Print expr span
  | S_ExprStmt expr span

fun stmt_span :: "stmt \<Rightarrow> span" where
  "stmt_span (S_VarDecl t n i a sp) = sp"
| "stmt_span (S_Assign t i v sp) = sp"
| "stmt_span (S_If c t e sp) = sp"
| "stmt_span (S_While c b sp) = sp"
| "stmt_span (S_Return v sp) = sp"
| "stmt_span (S_Print v sp) = sp"
| "stmt_span (S_ExprStmt e sp) = sp"

record param =
  par_type :: ty
  par_name :: string
  par_span :: span

record func =
  fn_name :: string
  fn_params :: "param list"
  fn_body :: "stmt list"
  fn_span :: span

record global_var =
  gv_type :: ty
  gv_name :: string
  gv_init :: "expr option"
  gv_array_size :: "i32 option"
  gv_span :: span

record program =
  p_globals :: "global_var list"
  p_functions :: "func list"

end
