(* ===== verification/Parser.thy ===== *)
theory Parser
  imports Ast
begin

text \<open>
  The recursive descent parser (parser.rs). The parser state is the token vector and the position;
  every parsing function returns a result and the state it leaves. An index out of the token
  vector is \<open>ParsePanic\<close>. The recursion is bounded by fuel, and running out of it is an outcome
  of its own (\<open>ParseFuel\<close>) that \<open>Parser_Props\<close> excludes for the fuel used here.

  The six functions from \<open>parse_or\<close> to \<open>parse_multiplicative\<close> have one shape: an operand of the
  next level, then operators of this level with further operands. They are \<open>parse_binary\<close> and its
  loop \<open>parse_binary_rest\<close> at the levels 0 to 5.
\<close>

section \<open>State and errors\<close>

record parser =
  ps_tokens :: "token list"
  ps_pos :: nat

definition Parser_new :: "token list \<Rightarrow> parser" where
  "Parser_new ts = \<lparr>ps_tokens = ts, ps_pos = 0\<rparr>"

text \<open>\<open>Unexpected_token k\<close> stands for the formatted \<open>"Unexpected token: {:?}"\<close>.\<close>

datatype parse_message = Message string | Unexpected_token token_kind

datatype parse_stop = ParseError parse_message span | ParsePanic string | ParseFuel

type_synonym 'a parsing = "(parse_stop + 'a) \<times> parser"

definition token_at :: "nat \<Rightarrow> parser \<Rightarrow> token" where
  "token_at offset p =
     (if ps_pos p + offset < length (ps_tokens p) then ps_tokens p ! (ps_pos p + offset)
      else last (ps_tokens p))"

definition cur :: "parser \<Rightarrow> token" where
  "cur p = token_at 0 p"

definition cur_kind :: "parser \<Rightarrow> token_kind" where
  "cur_kind p = kind (cur p)"

definition cur_span :: "parser \<Rightarrow> span" where
  "cur_span p = token_span (cur p)"

text \<open>\<open>self.pos += 1\<close> and the reference \<open>&self.tokens[self.pos - 1]\<close> that is then formed.\<close>

definition take_token :: "parser \<Rightarrow> unit parsing" where
  "take_token p =
     (if ps_pos p < length (ps_tokens p) then (Inr (), p\<lparr>ps_pos := ps_pos p + 1\<rparr>)
      else (Inl (ParsePanic ''index out of bounds''), p\<lparr>ps_pos := ps_pos p + 1\<rparr>))"

definition padvance :: "parser \<Rightarrow> unit parsing" where
  "padvance p =
     (if cur_kind p = T_Eof
      then if 0 < ps_pos p \<and> ps_pos p \<le> length (ps_tokens p) then (Inr (), p)
           else (Inl (ParsePanic ''index out of bounds''), p)
      else take_token p)"

definition parse_error :: "string \<Rightarrow> parser \<Rightarrow> 'a parsing" where
  "parse_error msg p = (Inl (ParseError (Message msg) (cur_span p)), p)"

text \<open>
  \<open>check\<close> compares discriminants; the kinds it is called with carry no data. \<open>match_token\<close> answers
  whether the token was there.
\<close>

definition match_token :: "token_kind \<Rightarrow> parser \<Rightarrow> bool parsing" where
  "match_token k p =
     (if cur_kind p = k then bnd (take_token p) (\<lambda>_ p. (Inr True, p)) else (Inr False, p))"

definition expect :: "token_kind \<Rightarrow> string \<Rightarrow> parser \<Rightarrow> unit parsing" where
  "expect k msg p = (if cur_kind p = k then take_token p else parse_error msg p)"

definition expected :: "string \<Rightarrow> string" where
  "expected txt = fmt [''Expected '', quoted txt]"

definition expect_identifier :: "string \<Rightarrow> parser \<Rightarrow> string parsing" where
  "expect_identifier msg p =
     (case cur_kind p of
        T_Identifier s \<Rightarrow> bnd (padvance p) (\<lambda>_ p. (Inr s, p))
      | _ \<Rightarrow> parse_error msg p)"

section \<open>Expressions\<close>

text \<open>The operators of a level of precedence.\<close>

definition level_op :: "nat \<Rightarrow> token_kind \<Rightarrow> binary_op option" where
  "level_op lvl k =
     (if lvl = 0 then (if k = T_Or then Some Bin_Or else None)
      else if lvl = 1 then (if k = T_And then Some Bin_And else None)
      else if lvl = 2 then
        (if k = T_Eq then Some Bin_Eq else if k = T_Ne then Some Bin_Ne else None)
      else if lvl = 3 then
        (if k = T_Lt then Some Bin_Lt else if k = T_Gt then Some Bin_Gt
         else if k = T_Le then Some Bin_Le else if k = T_Ge then Some Bin_Ge else None)
      else if lvl = 4 then
        (if k = T_Plus then Some Bin_Add else if k = T_Minus then Some Bin_Sub else None)
      else (if k = T_Star then Some Bin_Mul else if k = T_Slash then Some Bin_Div else None))"

fun parse_expr :: "nat \<Rightarrow> parser \<Rightarrow> expr parsing"
and parse_binary :: "nat \<Rightarrow> nat \<Rightarrow> parser \<Rightarrow> expr parsing"
and parse_binary_rest :: "nat \<Rightarrow> nat \<Rightarrow> expr \<Rightarrow> parser \<Rightarrow> expr parsing"
and parse_unary :: "nat \<Rightarrow> parser \<Rightarrow> expr parsing"
and parse_primary :: "nat \<Rightarrow> parser \<Rightarrow> expr parsing"
and parse_args :: "nat \<Rightarrow> parser \<Rightarrow> expr list parsing"
and parse_args_rest :: "nat \<Rightarrow> expr list \<Rightarrow> parser \<Rightarrow> expr list parsing"
where
  "parse_expr 0 p = (Inl ParseFuel, p)"
| "parse_expr (Suc n) p = parse_binary n 0 p"
| "parse_binary 0 lvl p = (Inl ParseFuel, p)"
| "parse_binary (Suc n) lvl p =
     bnd (if lvl < 5 then parse_binary n (lvl + 1) p else parse_unary n p) (\<lambda>left p.
     parse_binary_rest n lvl left p)"
| "parse_binary_rest 0 lvl left p = (Inl ParseFuel, p)"
| "parse_binary_rest (Suc n) lvl left p =
     (case level_op lvl (cur_kind p) of
        None \<Rightarrow> (Inr left, p)
      | Some op \<Rightarrow>
          bnd (take_token p) (\<lambda>_ p.
          bnd (if lvl < 5 then parse_binary n (lvl + 1) p else parse_unary n p) (\<lambda>right p.
          parse_binary_rest n lvl (E_Binary op left right (expr_span left)) p)))"
| "parse_unary 0 p = (Inl ParseFuel, p)"
| "parse_unary (Suc n) p =
     bnd (match_token T_Minus p) (\<lambda>minus p1.
     if minus
     then bnd (parse_unary n p1) (\<lambda>e p2. (Inr (E_Unary Un_Neg e (cur_span p)), p2))
     else bnd (match_token T_Not p1) (\<lambda>nt p2.
       if nt then bnd (parse_unary n p2) (\<lambda>e p3. (Inr (E_Unary Un_Not e (cur_span p)), p3))
       else parse_primary n p2))"
| "parse_primary 0 p = (Inl ParseFuel, p)"
| "parse_primary (Suc n) p =
     (case cur_kind p of
        T_IntLiteral v \<Rightarrow> bnd (padvance p) (\<lambda>_ q. (Inr (E_IntLiteral v (cur_span p)), q))
      | T_BoolLiteral b \<Rightarrow> bnd (padvance p) (\<lambda>_ q. (Inr (E_BoolLiteral b (cur_span p)), q))
      | T_Identifier name \<Rightarrow>
          bnd (padvance p) (\<lambda>_ q.
          bnd (match_token T_LParen q) (\<lambda>call q.
          if call
          then bnd (parse_args n q) (\<lambda>args q.
               bnd (expect T_RParen (expected '')'') q) (\<lambda>_ q.
               (Inr (E_Call name args (cur_span p)), q)))
          else bnd (match_token T_LBracket q) (\<lambda>idx q.
          if idx
          then bnd (parse_expr n q) (\<lambda>index q.
               bnd (expect T_RBracket (expected '']'') q) (\<lambda>_ q.
               (Inr (E_ArrayIndex name index (cur_span p)), q)))
          else (Inr (E_Identifier name (cur_span p)), q))))
      | _ \<Rightarrow>
          bnd (match_token T_LParen p) (\<lambda>paren q.
          if paren
          then bnd (parse_expr n q) (\<lambda>e q.
               bnd (expect T_RParen (expected '')'') q) (\<lambda>_ q. (Inr e, q)))
          else (Inl (ParseError (Unexpected_token (cur_kind q)) (cur_span q)), q)))"
| "parse_args 0 p = (Inl ParseFuel, p)"
| "parse_args (Suc n) p =
     (if cur_kind p = T_RParen then (Inr [], p)
      else bnd (parse_expr n p) (\<lambda>e p. parse_args_rest n [e] p))"
| "parse_args_rest 0 args p = (Inl ParseFuel, p)"
| "parse_args_rest (Suc n) args p =
     bnd (match_token T_Comma p) (\<lambda>comma p.
     if comma then bnd (parse_expr n p) (\<lambda>e p. parse_args_rest n (args @ [e]) p)
     else (Inr args, p))"

text \<open>Ten units of fuel per token are enough for an expression.\<close>

definition expr_fuel :: "parser \<Rightarrow> nat" where
  "expr_fuel p = 10 * length (ps_tokens p) + 10"

definition expression :: "parser \<Rightarrow> expr parsing" where
  "expression p = parse_expr (expr_fuel p) p"

section \<open>Declarations\<close>

definition parse_type :: "parser \<Rightarrow> ty parsing" where
  "parse_type p =
     (if cur_kind p = T_Int then bnd (padvance p) (\<lambda>_ p. (Inr Ty_Int, p))
      else if cur_kind p = T_Bool then bnd (padvance p) (\<lambda>_ p. (Inr Ty_Bool, p))
      else parse_error ''Expected type (int or bool)'' p)"

text \<open>
  The part shared by \<open>parse_global\<close> and \<open>parse_var_decl\<close> after the name: an array size or an
  initialiser, then the semicolon.
\<close>

definition parse_decl_tail :: "parser \<Rightarrow> (expr option \<times> i32 option) parsing" where
  "parse_decl_tail p =
     bnd (match_token T_LBracket p) (\<lambda>bracket p.
     bnd (if bracket
          then case cur_kind p of
              T_IntLiteral sz \<Rightarrow>
                bnd (padvance p) (\<lambda>_ p.
                bnd (expect T_RBracket (expected '']'') p) (\<lambda>_ p. (Inr (None, Some sz), p)))
            | _ \<Rightarrow> parse_error ''Expected array size'' p
          else bnd (match_token T_Assign p) (\<lambda>assign p.
            if assign then bnd (expression p) (\<lambda>e p. (Inr (Some e, None), p))
            else (Inr (None, None), p))) (\<lambda>decl p.
     bnd (expect T_Semicolon (expected '';'') p) (\<lambda>_ p. (Inr decl, p))))"

definition parse_global :: "parser \<Rightarrow> global_var parsing" where
  "parse_global p =
     bnd (parse_type p) (\<lambda>t q.
     bnd (expect_identifier ''Expected identifier'' q) (\<lambda>name q.
     bnd (parse_decl_tail q) (\<lambda>decl q.
     (Inr \<lparr>gv_type = t, gv_name = name, gv_init = fst decl, gv_array_size = snd decl,
           gv_span = cur_span p\<rparr>, q))))"

definition parse_var_decl :: "parser \<Rightarrow> stmt parsing" where
  "parse_var_decl p =
     bnd (parse_type p) (\<lambda>t q.
     bnd (expect_identifier ''Expected identifier'' q) (\<lambda>name q.
     bnd (parse_decl_tail q) (\<lambda>decl q.
     (Inr (S_VarDecl t name (fst decl) (snd decl) (cur_span p)), q))))"

definition parse_param :: "parser \<Rightarrow> param parsing" where
  "parse_param p =
     bnd (parse_type p) (\<lambda>t q.
     bnd (expect_identifier ''Expected parameter name'' q) (\<lambda>name q.
     (Inr \<lparr>par_type = t, par_name = name, par_span = cur_span p\<rparr>, q)))"

section \<open>Statements\<close>

text \<open>
  The look-ahead for \<open>name[..] =\<close>: scan from the bracket at \<open>offset\<close> for its partner. The scan
  runs over the tokens that are left and ends at the latest at the end-of-file token that stands
  in for everything beyond the vector (\<open>ParseFuel\<close> cannot be reported from a \<open>bool\<close>: without
  an end-of-file token the Rust loop would not end).
\<close>

fun bracket_scan :: "nat \<Rightarrow> nat \<Rightarrow> nat \<Rightarrow> parser \<Rightarrow> bool" where
  "bracket_scan 0 depth offset p = False"
| "bracket_scan (Suc n) depth offset p =
     (case kind (token_at offset p) of
        T_LBracket \<Rightarrow> bracket_scan n (depth + 1) (offset + 1) p
      | T_RBracket \<Rightarrow>
          if depth - 1 = 0 then kind (token_at (offset + 1) p) = T_Assign
          else bracket_scan n (depth - 1) (offset + 1) p
      | T_Eof \<Rightarrow> False
      | _ \<Rightarrow> bracket_scan n depth (offset + 1) p)"

definition is_assignment_start :: "parser \<Rightarrow> bool" where
  "is_assignment_start p =
     (case cur_kind p of
        T_Identifier _ \<Rightarrow>
          if kind (token_at 1 p) = T_Assign then True
          else if kind (token_at 1 p) \<noteq> T_LBracket then False
          else bracket_scan (length (ps_tokens p) + 1) 0 1 p
      | _ \<Rightarrow> False)"

definition parse_assignment :: "parser \<Rightarrow> stmt parsing" where
  "parse_assignment p =
     bnd (expect_identifier ''Expected identifier'' p) (\<lambda>name q.
     bnd (match_token T_LBracket q) (\<lambda>bracket q.
     if bracket
     then bnd (expression q) (\<lambda>index q.
          bnd (expect T_RBracket (expected '']'') q) (\<lambda>_ q.
          bnd (expect T_Assign (expected ''='') q) (\<lambda>_ q.
          bnd (expression q) (\<lambda>v q.
          bnd (expect T_Semicolon (expected '';'') q) (\<lambda>_ q.
          (Inr (S_Assign name (Some index) v (cur_span p)), q))))))
     else bnd (match_token T_Assign q) (\<lambda>assign q.
     if assign
     then bnd (expression q) (\<lambda>v q.
          bnd (expect T_Semicolon (expected '';'') q) (\<lambda>_ q.
          (Inr (S_Assign name None v (cur_span p)), q)))
     else parse_error ''Expected assignment'' q)))"

definition parse_return :: "parser \<Rightarrow> stmt parsing" where
  "parse_return p =
     bnd (expect T_Return (expected ''return'') p) (\<lambda>_ q.
     bnd (expression q) (\<lambda>v q.
     bnd (expect T_Semicolon (expected '';'') q) (\<lambda>_ q. (Inr (S_Return v (cur_span p)), q))))"

definition parse_print :: "parser \<Rightarrow> stmt parsing" where
  "parse_print p =
     bnd (expect T_Print (expected ''print'') p) (\<lambda>_ q.
     bnd (expression q) (\<lambda>v q.
     bnd (expect T_Semicolon (expected '';'') q) (\<lambda>_ q. (Inr (S_Print v (cur_span p)), q))))"

definition parse_expr_stmt :: "parser \<Rightarrow> stmt parsing" where
  "parse_expr_stmt p =
     bnd (expression p) (\<lambda>e q.
     bnd (expect T_Semicolon (expected '';'') q) (\<lambda>_ q. (Inr (S_ExprStmt e (cur_span p)), q)))"

text \<open>\<open>keyword ( condition )\<close>, the head of \<open>if\<close> and \<open>while\<close>.\<close>

definition parse_condition :: "token_kind \<Rightarrow> string \<Rightarrow> parser \<Rightarrow> expr parsing" where
  "parse_condition k msg p =
     bnd (expect k msg p) (\<lambda>_ p.
     bnd (expect T_LParen (expected ''('') p) (\<lambda>_ p.
     bnd (expression p) (\<lambda>c p.
     bnd (expect T_RParen (expected '')'') p) (\<lambda>_ p. (Inr c, p)))))"

text \<open>The two compound statements; \<open>block\<close> stands for \<open>self.parse_block()\<close>.\<close>

definition parse_if :: "(parser \<Rightarrow> stmt list parsing) \<Rightarrow> parser \<Rightarrow> stmt parsing" where
  "parse_if block p =
     bnd (parse_condition T_If (expected ''if'') p) (\<lambda>c q.
     bnd (block q) (\<lambda>then_body q.
     bnd (match_token T_Else q) (\<lambda>els q.
     if els
     then bnd (block q) (\<lambda>else_body q.
          (Inr (S_If c then_body (Some else_body) (cur_span p)), q))
     else (Inr (S_If c then_body None (cur_span p)), q))))"

definition parse_while :: "(parser \<Rightarrow> stmt list parsing) \<Rightarrow> parser \<Rightarrow> stmt parsing" where
  "parse_while block p =
     bnd (parse_condition T_While (expected ''while'') p) (\<lambda>c q.
     bnd (block q) (\<lambda>body q. (Inr (S_While c body (cur_span p)), q)))"

definition starts_expr :: "token_kind \<Rightarrow> bool" where
  "starts_expr k =
     (case k of T_Identifier _ \<Rightarrow> True | T_IntLiteral _ \<Rightarrow> True | T_BoolLiteral _ \<Rightarrow> True
      | T_LParen \<Rightarrow> True | T_Minus \<Rightarrow> True | T_Not \<Rightarrow> True | _ \<Rightarrow> False)"

fun parse_stmt :: "nat \<Rightarrow> parser \<Rightarrow> stmt parsing"
and parse_block :: "nat \<Rightarrow> parser \<Rightarrow> stmt list parsing"
and parse_stmts :: "nat \<Rightarrow> stmt list \<Rightarrow> parser \<Rightarrow> stmt list parsing"
where
  "parse_stmt 0 p = (Inl ParseFuel, p)"
| "parse_stmt (Suc n) p =
     (if cur_kind p = T_Int \<or> cur_kind p = T_Bool then parse_var_decl p
      else if cur_kind p = T_If then parse_if (parse_block n) p
      else if cur_kind p = T_While then parse_while (parse_block n) p
      else if cur_kind p = T_Return then parse_return p
      else if cur_kind p = T_Print then parse_print p
      else if is_assignment_start p then parse_assignment p
      else if starts_expr (cur_kind p) then parse_expr_stmt p
      else parse_error ''Expected statement'' p)"
| "parse_block 0 p = (Inl ParseFuel, p)"
| "parse_block (Suc n) p =
     bnd (expect T_LBrace (expected ''{'') p) (\<lambda>_ p.
     bnd (parse_stmts n [] p) (\<lambda>stmts p.
     bnd (expect T_RBrace (expected ''}'') p) (\<lambda>_ p. (Inr stmts, p))))"
| "parse_stmts 0 stmts p = (Inl ParseFuel, p)"
| "parse_stmts (Suc n) stmts p =
     (if cur_kind p = T_RBrace \<or> cur_kind p = T_Eof then (Inr stmts, p)
      else bnd (parse_stmt n p) (\<lambda>s p. parse_stmts n (stmts @ [s]) p))"

section \<open>Functions and programs\<close>

definition stmt_fuel :: "parser \<Rightarrow> nat" where
  "stmt_fuel p = 3 * length (ps_tokens p) + 3"

fun parse_params_rest :: "nat \<Rightarrow> param list \<Rightarrow> parser \<Rightarrow> param list parsing" where
  "parse_params_rest 0 params p = (Inl ParseFuel, p)"
| "parse_params_rest (Suc n) params p =
     bnd (match_token T_Comma p) (\<lambda>comma p.
     if comma then bnd (parse_param p) (\<lambda>x p. parse_params_rest n (params @ [x]) p)
     else (Inr params, p))"

definition parse_params :: "parser \<Rightarrow> param list parsing" where
  "parse_params p =
     (if cur_kind p = T_RParen then (Inr [], p)
      else bnd (parse_param p) (\<lambda>x p. parse_params_rest (length (ps_tokens p) + 1) [x] p))"

definition parse_function :: "parser \<Rightarrow> func parsing" where
  "parse_function p =
     bnd (expect T_Func (expected ''func'') p) (\<lambda>_ q.
     bnd (expect_identifier ''Expected function name'' q) (\<lambda>name q.
     bnd (expect T_LParen (expected ''('') q) (\<lambda>_ q.
     bnd (parse_params q) (\<lambda>params q.
     bnd (expect T_RParen (expected '')'') q) (\<lambda>_ q.
     bnd (parse_block (stmt_fuel q) q) (\<lambda>body q.
     (Inr \<lparr>fn_name = name, fn_params = params, fn_body = body, fn_span = cur_span p\<rparr>, q)))))))"

fun parse_items :: "nat \<Rightarrow> program \<Rightarrow> parser \<Rightarrow> program parsing" where
  "parse_items 0 prog p = (Inl ParseFuel, p)"
| "parse_items (Suc n) prog p =
     (if cur_kind p = T_Eof then (Inr prog, p)
      else if cur_kind p = T_Func then
        bnd (parse_function p) (\<lambda>f p.
        parse_items n (prog\<lparr>p_functions := p_functions prog @ [f]\<rparr>) p)
      else if cur_kind p = T_Int \<or> cur_kind p = T_Bool then
        bnd (parse_global p) (\<lambda>g p.
        parse_items n (prog\<lparr>p_globals := p_globals prog @ [g]\<rparr>) p)
      else parse_error ''Expected function or global declaration'' p)"

definition parse_tokens :: "token list \<Rightarrow> parse_stop + program" where
  "parse_tokens ts =
     (if ts = [] then Inl (ParsePanic ''attempt to subtract with overflow'')
      else fst (parse_items (length ts + 1) \<lparr>p_globals = [], p_functions = []\<rparr> (Parser_new ts)))"

end
