(* ===== verification/Lexer_Props.thy ===== *)
theory Lexer_Props
  imports Lexer
begin

text \<open>
  The lexer ends with exactly one end-of-file token, its spans increase, and printing tokens
  separated by blanks and lexing the text again gives the tokens back. Integer literals are read
  modulo \<open>2 ^ 32\<close>.
\<close>

section \<open>The rest of the input\<close>

definition rest :: "lexer \<Rightarrow> string" where
  "rest l = drop (lx_pos l) (lx_source l)"

lemma current_rest: "current l = (case rest l of [] \<Rightarrow> None | c # cs \<Rightarrow> Some c)"
proof (cases "lx_pos l < length (lx_source l)")
  case True
  then show ?thesis by (simp add: current_def byte_at_def rest_def Cons_nth_drop_Suc [symmetric])
qed (simp add: current_def byte_at_def rest_def)

lemma peek_rest: "peek l = (case rest l of c # d # cs \<Rightarrow> Some d | _ \<Rightarrow> None)"
proof (cases "lx_pos l + 1 < length (lx_source l)")
  case True
  then show ?thesis by (simp add: peek_def byte_at_def rest_def Cons_nth_drop_Suc [symmetric])
next
  case False
  then have "length (rest l) \<le> 1" by (simp add: rest_def)
  with False show ?thesis by (auto simp: peek_def byte_at_def split: list.splits)
qed

lemma rest_advance [simp]: "rest (advance l) = tl (rest l)"
  by (cases "rest l") (auto simp: advance_def current_rest rest_def drop_Suc, (metis list.sel(3) tl_drop)+)

lemma rest_advance_while [simp]: "rest (advance_while P l) = dropWhile P (rest l)"
proof (induction P l rule: advance_while.induct)
  case (1 P l)
  show ?case
  proof (cases "rest l")
    case (Cons c cs)
    with 1 [of c] show ?thesis by (simp add: advance_while.simps [of P l] current_rest)
  qed (simp add: advance_while.simps [of P l] current_rest)
qed

lemma lx_pos_advance_while:
  "lx_pos (advance_while P l) = lx_pos l + length (takeWhile P (rest l))"
proof (induction P l rule: advance_while.induct)
  case (1 P l)
  show ?case
  proof (cases "rest l")
    case (Cons c cs)
    with 1 [of c] show ?thesis by (simp add: advance_while.simps [of P l] current_rest advance_pos)
  qed (simp add: advance_while.simps [of P l] current_rest)
qed

lemma source_text_advance_while:
  "source_text (lx_pos l) (advance_while P l) = takeWhile P (rest l)"
  by (simp add: source_text_def lx_pos_advance_while rest_def [symmetric] takeWhile_eq_take [symmetric])

lemma scan_digits_rest:
  "rest (snd (scan_digits v l)) = dropWhile is_digit (rest l) \<and>
   fst (scan_digits v l) =
     foldl (\<lambda>v c. wrap32 (wrap32 (v * 10) + digit_value c)) v (takeWhile is_digit (rest l))"
proof (induction v l rule: scan_digits.induct)
  case (1 v l)
  show ?case
  proof (cases "rest l")
    case (Cons c cs)
    with 1 [of c] show ?thesis by (simp add: scan_digits.simps [of v l] current_rest)
  qed (simp add: scan_digits.simps [of v l] current_rest)
qed

section \<open>The shape of the token list\<close>

lemma tokenize_from_last:
  "\<exists>ts t. tokenize_from l = ts @ [t] \<and> kind t = T_Eof \<and> (\<forall>x \<in> set ts. kind x \<noteq> T_Eof)"
proof (induction l rule: tokenize_from.induct)
  case (1 l)
  show ?case
  proof (cases "kind (fst (next_token l)) = T_Eof")
    case True
    then show ?thesis by (intro exI [of _ "[]"] exI [of _ "fst (next_token l)"]) (simp add: tokenize_from.simps)
  next
    case False
    from 1 [OF refl False] obtain ts t where
      "tokenize_from (snd (next_token l)) = ts @ [t]" "kind t = T_Eof" "\<forall>x \<in> set ts. kind x \<noteq> T_Eof" by blast
    with False show ?thesis
      by (intro exI [of _ "fst (next_token l) # ts"] exI [of _ t]) (simp add: tokenize_from.simps [of l] Let_def)
  qed
qed

text \<open>
  C25: \<open>tokenize\<close> terminates on every input; its list ends with an end-of-file token and has no other.
\<close>

theorem tokenize_ends_with_eof:
  "\<exists>ks. map kind (tokenize src) = ks @ [T_Eof] \<and> T_Eof \<notin> set ks"
proof -
  obtain ts t where "tokenize src = ts @ [t]" "kind t = T_Eof" "\<forall>x \<in> set ts. kind x \<noteq> T_Eof"
    unfolding tokenize_def using tokenize_from_last by blast
  then show ?thesis by (intro exI [of _ "map kind ts"]) auto
qed

section \<open>Positions\<close>

definition span_less :: "span \<Rightarrow> span \<Rightarrow> bool" where
  "span_less a b \<longleftrightarrow> sp_line a < sp_line b \<or> sp_line a = sp_line b \<and> sp_column a < sp_column b"

definition span_le :: "span \<Rightarrow> span \<Rightarrow> bool" where
  "span_le a b \<longleftrightarrow> sp_line a < sp_line b \<or> sp_line a = sp_line b \<and> sp_column a \<le> sp_column b"

lemma span_le_refl [simp]: "span_le a a"
  by (simp add: span_le_def)

lemma span_trans:
  "span_le a b \<Longrightarrow> span_le b c \<Longrightarrow> span_le a c"
  "span_less a b \<Longrightarrow> span_le b c \<Longrightarrow> span_less a c"
  "span_le a b \<Longrightarrow> span_less b c \<Longrightarrow> span_less a c"
  by (auto simp: span_le_def span_less_def)

lemma span_less_le: "span_less a b \<Longrightarrow> span_le a b"
  by (auto simp: span_le_def span_less_def)

lemma here_advance: "current l = Some c \<Longrightarrow> span_less (here l) (here (advance l))"
  by (simp add: here_def advance_def Span_new_def span_less_def)

lemma here_advance_le: "span_le (here l) (here (advance l))"
proof (cases "current l")
  case None
  then show ?thesis by (simp add: advance_def)
qed (auto dest: here_advance span_less_le)

lemma here_advance_while: "span_le (here l) (here (advance_while P l))"
proof (induction P l rule: advance_while.induct)
  case (1 P l)
  show ?case
  proof (cases "current l")
    case (Some c)
    with 1 [OF Some] here_advance_le [of l] show ?thesis
      by (auto simp: advance_while.simps [of P l] intro: span_trans)
  qed (simp add: advance_while.simps [of P l])
qed

lemma here_skip: "span_le (here l) (here (skip_whitespace_and_comments l))"
proof (induction l rule: skip_whitespace_and_comments.induct)
  case (1 l)
  have le: "span_le (here l) (here (advance_while is_space l))" by (rule here_advance_while)
  have "span_le (here l) (here (advance_while P (advance_while is_space l)))" for P
    by (rule span_trans(1) [OF le here_advance_while])
  with 1 le show ?case
    by (subst skip_whitespace_and_comments.simps) (auto simp: Let_def intro: span_trans)
qed

lemma here_scan_digits: "span_le (here l) (here (snd (scan_digits v l)))"
proof (induction v l rule: scan_digits.induct)
  case (1 v l)
  show ?case
  proof (cases "current l")
    case (Some c)
    with 1 [OF Some] here_advance_le [of l] show ?thesis
      by (auto simp: scan_digits.simps [of v l] intro: span_trans)
  qed (simp add: scan_digits.simps [of v l])
qed

lemma next_token_span:
  "span_le (here l) (token_span (fst (next_token l)))"
  "kind (fst (next_token l)) \<noteq> T_Eof \<Longrightarrow> span_less (token_span (fst (next_token l))) (here (snd (next_token l)))"
proof -
  let ?l = "skip_whitespace_and_comments l"
  have span: "token_span (fst (next_token l)) = here ?l"
    by (simp add: next_token_def Let_def Token_new_def scan_number_def scan_identifier_or_keyword_def
        split: option.split)
  show "span_le (here l) (token_span (fst (next_token l)))"
    using here_skip [of l] by (simp add: span)
  assume tok: "kind (fst (next_token l)) \<noteq> T_Eof"
  show "span_less (token_span (fst (next_token l))) (here (snd (next_token l)))"
  proof (cases "current ?l")
    case None
    with tok show ?thesis by (simp add: next_token_def Token_new_def Let_def)
  next
    case (Some c)
    have name: "is_alpha c \<or> c = CHR ''_'' \<Longrightarrow> is_name_char c" by (auto simp: is_name_char_def)
    have "span_less (here ?l) (here (advance (advance ?l)))"
      using here_advance [OF Some] here_advance_le by (rule span_trans)
    moreover have "is_digit c \<Longrightarrow> span_less (here ?l) (here (snd (scan_digits 0 ?l)))"
      using here_advance [OF Some] here_scan_digits [of "advance ?l"] Some
      by (simp add: scan_digits.simps [of 0 ?l] span_trans)
    moreover have "is_name_char c \<Longrightarrow> span_less (here ?l) (here (advance_while is_name_char ?l))"
      using here_advance [OF Some] here_advance_while [of "advance ?l" is_name_char] Some
      by (simp add: advance_while.simps [of _ ?l] span_trans)
    ultimately show ?thesis
      using Some here_advance [OF Some] name
      by (auto simp: next_token_def scan_number_def scan_identifier_or_keyword_def Let_def Token_new_def
          split: option.split)
  qed
qed

lemma tokenize_from_spans:
  "sorted_wrt span_less (map token_span (tokenize_from l)) \<and>
   (\<forall>t \<in> set (tokenize_from l). span_le (here l) (token_span t))"
proof (induction l rule: tokenize_from.induct)
  case (1 l)
  show ?case
  proof (cases "kind (fst (next_token l)) = T_Eof")
    case True
    then show ?thesis by (simp add: tokenize_from.simps [of l] next_token_span(1))
  next
    case False
    note ih = 1 [OF refl False]
    have "span_less (token_span (fst (next_token l))) (token_span t)"
      if "t \<in> set (tokenize_from (snd (next_token l)))" for t
      using next_token_span(2) [OF False] ih that span_trans(2) by blast
    with ih False next_token_span(1) [of l] show ?thesis
      by (auto simp: tokenize_from.simps [of l] Let_def dest: span_less_le intro: span_trans)
  qed
qed


section \<open>Integer literals\<close>

definition decimal :: "string \<Rightarrow> nat" where
  "decimal ds = foldl (\<lambda>v c. v * 10 + nat (digit_value c)) 0 ds"

lemma wrap32_add_wrap: "wrap32 (wrap32 a + b) = wrap32 (a + b)"
proof -
  define q where "q = (a + 2147483648) div 4294967296"
  have "wrap32 a = a - 4294967296 * q"
    unfolding wrap32_def q_def minus_mult_div_eq_mod [symmetric] by simp
  then have "wrap32 a + b = a + b + 4294967296 * (- q)" by simp
  then show ?thesis by (simp only: wrap32_add_multiple)
qed

lemma wrap32_mult_wrap: "wrap32 (wrap32 a * b) = wrap32 (a * b)"
proof -
  define q where "q = (a + 2147483648) div 4294967296"
  have eq: "wrap32 a = a - 4294967296 * q"
    unfolding wrap32_def q_def minus_mult_div_eq_mod [symmetric] by simp
  have "wrap32 a * b = a * b + 4294967296 * (- q * b)"
    unfolding eq by (simp add: algebra_simps)
  then show ?thesis by (simp only: wrap32_add_multiple)
qed

lemma scan_digits_decimal:
  assumes "\<forall>c \<in> set ds. is_digit c"
  shows "foldl (\<lambda>v c. wrap32 (wrap32 (v * 10) + digit_value c)) (wrap32 (int v)) ds
    = wrap32 (int (foldl (\<lambda>v c. v * 10 + nat (digit_value c)) v ds))"
  using assms
proof (induction ds arbitrary: v)
  case (Cons c ds)
  then have "0 \<le> digit_value c" by (auto simp: digit_value_def is_digit_def)
  then obtain d where d: "digit_value c = int d" by (metis nonneg_int_cases)
  have "wrap32 (wrap32 (wrap32 (int v) * 10) + int d) = wrap32 (int (v * 10 + d))"
    by (simp add: wrap32_mult_wrap wrap32_add_wrap)
  with Cons d show ?case by (simp del: of_nat_add of_nat_mult)
qed simp

text \<open>
  C26: A run of decimal digits followed by something else is read as one integer literal: its
  value modulo \<open>2 ^ 32\<close>, as a signed number.
\<close>

theorem next_token_number:
  assumes "rest l = ds @ r" "ds \<noteq> []" "\<forall>c \<in> set ds. is_digit c" "r = [] \<or> \<not> is_digit (hd r)"
  shows "kind (fst (next_token l)) = T_IntLiteral (wrap32 (int (decimal ds))) \<and> rest (snd (next_token l)) = r"
proof -
  obtain c cs where ds: "ds = c # cs" using assms(2) by (cases ds) auto
  have c: "is_digit c" using assms(3) ds by simp
  then have "\<not> is_space c" "c \<noteq> CHR ''/''" by (auto simp: is_digit_def is_space_def)
  then have "advance_while is_space l = l" "\<not> at_comment l"
    using assms(1) ds by (simp_all add: advance_while.simps [of _ l] current_rest at_comment_def)
  then have skip: "skip_whitespace_and_comments l = l"
    by (subst skip_whitespace_and_comments.simps) simp
  have tw: "takeWhile is_digit (rest l) = ds" "dropWhile is_digit (rest l) = r"
    using assms by (auto simp: takeWhile_append2 dropWhile_append2 takeWhile_eq_Nil_iff dropWhile_eq_self_iff)
  have "wrap32 0 = 0" by (simp add: wrap32_def)
  with scan_digits_rest [of 0 l] scan_digits_decimal [OF assms(3), of 0] tw
  have "fst (scan_digits 0 l) = wrap32 (int (decimal ds))" "rest (snd (scan_digits 0 l)) = r"
    by (simp_all add: decimal_def)
  then show ?thesis
    using assms(1) ds c by (simp add: next_token_def skip current_rest scan_number_def Token_new_def Let_def)
qed

theorem next_token_number_witness:
  "kind (fst (next_token (Lexer_new ''2147483648;''))) = T_IntLiteral (- 2147483648)"
proof -
  have "rest (Lexer_new ''2147483648;'') = ''2147483648'' @ '';''" by (simp add: rest_def Lexer_new_def)
  from next_token_number [OF this] show ?thesis
    by (simp add: is_digit_def decimal_def digit_value_def wrap32_def)
qed

section \<open>Printing and lexing\<close>

text \<open>The source text of a token, for the tokens that have one.\<close>

fun spelling :: "token_kind \<Rightarrow> string" where
  "spelling (T_IntLiteral n) = show_int n"
| "spelling (T_BoolLiteral b) = show_bool b"
| "spelling (T_Identifier s) = s"
| "spelling k = show_token k"

fun printable :: "token_kind \<Rightarrow> bool" where
  "printable (T_IntLiteral n) \<longleftrightarrow> 0 \<le> n \<and> is_i32 n"
| "printable (T_Identifier s) \<longleftrightarrow>
     s \<noteq> [] \<and> (is_alpha (hd s) \<or> hd s = CHR ''_'') \<and> (\<forall>c \<in> set s. is_name_char c) \<and>
     word_kind s = T_Identifier s"
| "printable T_Eof \<longleftrightarrow> False"
| "printable (T_Error m) \<longleftrightarrow> False"
| "printable k \<longleftrightarrow> True"

definition print_tokens :: "token_kind list \<Rightarrow> string" where
  "print_tokens ks = concat (map (\<lambda>k. spelling k @ '' '') ks)"

lemma digit_char_digit: "d < 10 \<Longrightarrow> is_digit (digit_char d) \<and> digit_value (digit_char d) = int d"
proof -
  assume "d < 10"
  then have "d \<in> {0, 1, 2, 3, 4, 5, 6, 7, 8, 9}" by auto
  then show ?thesis by (auto simp: digit_char_def is_digit_def digit_value_def)
qed

lemma show_nat_digits: "show_nat n \<noteq> [] \<and> (\<forall>c \<in> set (show_nat n). is_digit c)"
proof (induction n rule: show_nat.induct)
  case (1 n)
  then show ?case
    by (cases "n < 10") (auto simp: show_nat.simps [of n] digit_char_digit)
qed

lemma decimal_show_nat: "decimal (show_nat n) = n"
proof (induction n rule: show_nat.induct)
  case (1 n)
  show ?case
  proof (cases "n < 10")
    case True
    then show ?thesis using digit_char_digit [of n] by (simp add: show_nat.simps [of n] decimal_def)
  next
    case False
    have "n mod 10 < 10" by simp
    with 1 [OF False] False digit_char_digit [of "n mod 10"] show ?thesis
      by (simp add: show_nat.simps [of n] decimal_def)
  qed
qed

text \<open>Blanks before a token are skipped.\<close>

lemma skip_blank:
  assumes "rest l = '' '' @ r"
  shows "next_token l = next_token (advance l)"
proof -
  have "advance_while is_space l = advance_while is_space (advance l)"
    using assms by (simp add: advance_while.simps [of _ l] current_rest is_space_def)
  then have "skip_whitespace_and_comments l = skip_whitespace_and_comments (advance l)"
    by (simp add: skip_whitespace_and_comments.simps)
  then show ?thesis by (simp add: next_token_def)
qed

lemma skip_id:
  assumes "rest l = c # cs" "\<not> is_space c" "c = CHR ''/'' \<Longrightarrow> cs = [] \<or> hd cs \<noteq> CHR ''/''"
  shows "skip_whitespace_and_comments l = l"
proof -
  have "advance_while is_space l = l" "\<not> at_comment l"
    using assms by (auto simp: advance_while.simps [of _ l] current_rest peek_rest at_comment_def split: list.split)
  then show ?thesis by (subst skip_whitespace_and_comments.simps) simp
qed

lemma next_token_word:
  assumes "rest l = s @ r" "s \<noteq> []" "is_alpha (hd s) \<or> hd s = CHR ''_''" "\<forall>c \<in> set s. is_name_char c"
    "r = [] \<or> \<not> is_name_char (hd r)"
  shows "kind (fst (next_token l)) = word_kind s \<and> rest (snd (next_token l)) = r"
proof -
  obtain c cs where s: "s = c # cs" using assms(2) by (cases s) auto
  have c: "is_alpha c \<or> c = CHR ''_''" using assms(3) s by simp
  then have "\<not> is_space c" "c \<noteq> CHR ''/''" "\<not> is_digit c"
    by (auto simp: is_alpha_def is_digit_def is_space_def Let_def)
  moreover from this have "skip_whitespace_and_comments l = l"
    using assms(1) s by (intro skip_id [of _ c "cs @ r"]) auto
  moreover have "takeWhile is_name_char (rest l) = s" "dropWhile is_name_char (rest l) = r"
    using assms by (auto simp: takeWhile_append2 dropWhile_append2 takeWhile_eq_Nil_iff dropWhile_eq_self_iff)
  ultimately show ?thesis
    using assms(1) s c source_text_advance_while [of l is_name_char]
    by (simp add: next_token_def current_rest scan_identifier_or_keyword_def Token_new_def Let_def)
qed

text \<open>The tokens that are operators or delimiters.\<close>

definition symbols :: "token_kind list" where
  "symbols = [T_Plus, T_Minus, T_Star, T_Slash, T_Eq, T_Ne, T_Lt, T_Gt, T_Le, T_Ge, T_And, T_Or, T_Not,
     T_Assign, T_LParen, T_RParen, T_LBrace, T_RBrace, T_LBracket, T_RBracket, T_Semicolon, T_Comma]"

lemma symbol_chars [simp]:
  "c \<in> set ''+-*/=!<>&|(){}[];,'' \<Longrightarrow> \<not> is_space c \<and> \<not> is_digit c \<and> \<not> is_alpha c \<and> c \<noteq> CHR ''_''"
  by (auto simp: is_space_def is_digit_def is_alpha_def Let_def)

lemma next_token_symbol:
  assumes "k \<in> set symbols" "rest l = spelling k @ '' '' @ r"
  shows "kind (fst (next_token l)) = k \<and> rest (snd (next_token l)) = '' '' @ r"
proof -
  have "skip_whitespace_and_comments l = l"
    using assms by (intro skip_id [of l "hd (rest l)" "tl (rest l)"]) (auto simp: symbols_def is_space_def)
  with assms show ?thesis
    by (auto simp: symbols_def next_token_def current_rest peek_rest two_char_kind_def one_char_kind_def
        Token_new_def is_digit_def is_alpha_def)
qed

text \<open>The reserved words.\<close>

definition reserved_words :: "token_kind list" where
  "reserved_words = [T_BoolLiteral True, T_BoolLiteral False, T_Int, T_Bool, T_If, T_Else, T_While, T_Func,
     T_Return, T_Print]"

lemma keyword_spelling:
  "k \<in> set reserved_words \<Longrightarrow> spelling k \<noteq> [] \<and> is_alpha (hd (spelling k)) \<and>
     (\<forall>c \<in> set (spelling k). is_name_char c) \<and> word_kind (spelling k) = k"
  by (auto simp: reserved_words_def word_kind_def show_bool_def is_alpha_def is_name_char_def Let_def)

lemma printable_cases:
  assumes "printable k"
  obtains "k \<in> set symbols" | "k \<in> set reserved_words" | n where "k = T_IntLiteral (int n)" "is_i32 (int n)"
    | s where "k = T_Identifier s" "printable (T_Identifier s)"
proof (cases k)
  case (T_IntLiteral n)
  with assms obtain m where "n = int m" using nonneg_int_cases by auto
  with T_IntLiteral assms that show ?thesis by auto
next
  case (T_BoolLiteral b)
  with that show ?thesis by (cases b) (auto simp: reserved_words_def)
qed (use assms that in \<open>auto simp: symbols_def reserved_words_def\<close>)

lemma show_int_nat: "show_int (int n) = show_nat n"
  by (simp add: show_int_def)

lemma next_token_printable:
  assumes "printable k" "rest l = spelling k @ '' '' @ r"
  shows "kind (fst (next_token l)) = k \<and> rest (snd (next_token l)) = '' '' @ r"
  using assms(1)
proof (cases rule: printable_cases)
  case 1
  with assms show ?thesis by (intro next_token_symbol)
next
  case 2
  from keyword_spelling [OF this] assms next_token_word [of l "spelling k" "'' '' @ r"] show ?thesis
    by (auto simp: is_name_char_def is_alpha_def is_digit_def)
next
  case (3 n)
  from show_nat_digits [of n] assms 3 next_token_number [of l "show_nat n" "'' '' @ r"] show ?thesis
    by (auto simp: show_int_nat decimal_show_nat is_digit_def wrap32_id)
next
  case (4 s)
  with assms next_token_word [of l s "'' '' @ r"] show ?thesis
    by (auto simp: is_name_char_def is_alpha_def is_digit_def)
qed

lemma tokenize_from_print:
  assumes "list_all printable ks" "rest l = print_tokens ks \<or> rest l = '' '' @ print_tokens ks"
  shows "map kind (tokenize_from l) = ks @ [T_Eof]"
  using assms
proof (induction ks arbitrary: l)
  case Nil
  then have "rest l = [] \<or> rest l = '' ''" by (simp add: print_tokens_def)
  then have "kind (fst (next_token l)) = T_Eof"
  proof
    assume "rest l = []"
    moreover from this have "skip_whitespace_and_comments l = l"
      by (subst skip_whitespace_and_comments.simps)
        (simp add: advance_while.simps [of _ l] current_rest at_comment_def)
    ultimately show ?thesis by (simp add: next_token_def current_rest Token_new_def Let_def)
  next
    assume r: "rest l = '' ''"
    then have "rest (advance l) = []" by simp
    moreover from this have "skip_whitespace_and_comments (advance l) = advance l"
      by (subst skip_whitespace_and_comments.simps)
        (simp add: advance_while.simps [of _ "advance l"] current_rest at_comment_def)
    ultimately have "kind (fst (next_token (advance l))) = T_Eof"
      by (simp add: next_token_def current_rest Token_new_def Let_def)
    with skip_blank [of l "[]"] r show ?thesis by simp
  qed
  then show ?case by (simp add: tokenize_from.simps [of l])
next
  case (Cons k ks)
  let ?r = "print_tokens ks"
  have split: "print_tokens (k # ks) = spelling k @ '' '' @ ?r" by (simp add: print_tokens_def)
  have tok: "kind (fst (next_token l)) = k \<and> rest (snd (next_token l)) = '' '' @ ?r"
  proof (cases "rest l = print_tokens (k # ks)")
    case True
    with Cons.prems(1) show ?thesis by (intro next_token_printable) (simp_all add: split)
  next
    case False
    with Cons.prems(2) have r: "rest l = '' '' @ spelling k @ '' '' @ ?r" by (simp add: split)
    then have "rest (advance l) = spelling k @ '' '' @ ?r" by simp
    with Cons.prems(1) have "kind (fst (next_token (advance l))) = k \<and> rest (snd (next_token (advance l))) = '' '' @ ?r"
      by (intro next_token_printable) simp_all
    with skip_blank [of l "spelling k @ '' '' @ ?r"] r show ?thesis by simp
  qed
  have "k \<noteq> T_Eof" using Cons.prems(1) by auto
  with tok Cons.IH [of "snd (next_token l)"] Cons.prems(1) show ?case
    by (simp add: tokenize_from.simps [of l] Let_def)
qed

text \<open>
  C16: Round trip of the lexer: the text of any list of tokens (integer literals in the range of
  \<open>i32\<close>, identifiers that are no reserved word), each followed by a blank, lexes to these tokens.
\<close>

theorem tokenize_print_tokens:
  assumes "list_all printable ks"
  shows "map kind (tokenize (print_tokens ks)) = ks @ [T_Eof]"
  unfolding tokenize_def
  by (rule tokenize_from_print [OF assms]) (simp add: rest_def Lexer_new_def)

theorem tokenize_print_tokens_witness:
  "map kind (tokenize (print_tokens [T_Return, T_IntLiteral 42, T_Slash, T_Identifier ''x1'', T_Semicolon]))
     = [T_Return, T_IntLiteral 42, T_Slash, T_Identifier ''x1'', T_Semicolon, T_Eof]"
  using tokenize_print_tokens [of "[T_Return, T_IntLiteral 42, T_Slash, T_Identifier ''x1'', T_Semicolon]"]
  by (simp add: is_i32_def word_kind_def is_alpha_def is_digit_def is_name_char_def Let_def)

end
