(* ===== verification/Parser_Props.thy ===== *)
theory Parser_Props
  imports Parser Lexer_Props
begin

text \<open>
  The parser always answers: on the tokens of any source the fuel suffices and no index is out of
  range, so the result is a program or a parse error.
\<close>

declare One_nat_def [simp del]

section \<open>Reading tokens\<close>

text \<open>A state that stands inside a token vector closed by an end-of-file token.\<close>

definition ready :: "parser \<Rightarrow> bool" where
  "ready p \<longleftrightarrow> ps_pos p < length (ps_tokens p) \<and> kind (last (ps_tokens p)) = T_Eof"

definition tokens_left :: "parser \<Rightarrow> nat" where
  "tokens_left p = length (ps_tokens p) - ps_pos p"

text \<open>\<open>advanced k p q\<close>: \<open>q\<close> is ready and has read at least \<open>k\<close> tokens more than \<open>p\<close>.\<close>

definition advanced :: "nat \<Rightarrow> parser \<Rightarrow> parser \<Rightarrow> bool" where
  "advanced k p q \<longleftrightarrow> ready q \<and> ps_tokens q = ps_tokens p \<and> ps_pos p + k \<le> ps_pos q"

definition is_parse_error :: "parse_stop \<Rightarrow> bool" where
  "is_parse_error e \<longleftrightarrow> (\<exists>m sp. e = ParseError m sp)"

text \<open>The contract of a parsing function.\<close>

definition parses :: "nat \<Rightarrow> parser \<Rightarrow> 'a parsing \<Rightarrow> bool" where
  "parses k p r \<longleftrightarrow> post r (\<lambda>_ q. advanced k p q) (\<lambda>e _. is_parse_error e)"

lemma is_parse_error_simp [simp]: "is_parse_error (ParseError m sp)"
  by (simp add: is_parse_error_def)

lemma advanced_refl: "ready p \<Longrightarrow> advanced 0 p p"
  by (simp add: advanced_def)

lemma advanced_trans: "advanced j p q \<Longrightarrow> advanced k q r \<Longrightarrow> advanced (j + k) p r"
  by (simp add: advanced_def)

lemma advanced_mono: "advanced j p q \<Longrightarrow> k \<le> j \<Longrightarrow> advanced k p q"
  by (simp add: advanced_def)

lemma advanced_left: "advanced k p q \<Longrightarrow> tokens_left q + k \<le> tokens_left p"
  by (auto simp: advanced_def tokens_left_def ready_def)

lemma advanced_ready: "advanced k p q \<Longrightarrow> ready q"
  by (simp add: advanced_def)

lemma parses_return [simp]: "parses k p (Inr a, q) \<longleftrightarrow> advanced k p q"
  "parses k p (Inl e, q) \<longleftrightarrow> is_parse_error e"
  by (simp_all add: parses_def)

text \<open>Sequencing adds up the tokens read.\<close>

lemma parses_bnd:
  assumes "parses j p r" "\<And>a q. advanced j p q \<Longrightarrow> parses k p (f a q)"
  shows "parses k p (bnd r f)"
  using assms(1) unfolding parses_def post_simps
  by (rule post_mono) (use assms(2) in \<open>auto simp: parses_def\<close>)

lemma parses_from: "advanced j p q \<Longrightarrow> parses i q r \<Longrightarrow> k \<le> j + i \<Longrightarrow> parses k p r"
  unfolding parses_def by (erule post_mono) (auto intro: advanced_mono advanced_trans)

lemma cur_not_eof:
  assumes "ready p" "cur_kind p \<noteq> T_Eof"
  shows "ps_pos p + 1 < length (ps_tokens p)"
proof (rule ccontr)
  assume "\<not> ps_pos p + 1 < length (ps_tokens p)"
  with assms(1) have "length (ps_tokens p) - 1 = ps_pos p" by (auto simp: ready_def)
  with assms(1) have "last (ps_tokens p) = ps_tokens p ! ps_pos p"
    by (metis last_conv_nth less_nat_zero_code list.size(3) ready_def)
  with assms show False by (simp add: ready_def cur_kind_def cur_def token_at_def)
qed

lemma parses_take: "ready p \<Longrightarrow> cur_kind p \<noteq> T_Eof \<Longrightarrow> parses 1 p (take_token p)"
  using cur_not_eof [of p] by (simp add: take_token_def ready_def advanced_def)

lemma parses_padvance: "ready p \<Longrightarrow> cur_kind p \<noteq> T_Eof \<Longrightarrow> parses 1 p (padvance p)"
  by (simp add: padvance_def parses_take)

lemma parses_match: "ready p \<Longrightarrow> k \<noteq> T_Eof \<Longrightarrow>
    post (match_token k p) (\<lambda>yes q. if yes then cur_kind p = k \<and> advanced 1 p q else q = p) (\<lambda>e _. is_parse_error e)"
  using cur_not_eof [of p] by (simp add: match_token_def take_token_def ready_def advanced_def)

lemma parses_match_bnd:
  assumes "ready p" "k \<noteq> T_Eof"
    "\<And>q. cur_kind p = k \<Longrightarrow> advanced 1 p q \<Longrightarrow> parses j p (f True q)"
    "cur_kind p \<noteq> k \<Longrightarrow> parses j p (f False p)"
  shows "parses j p (bnd (match_token k p) f)"
  using assms cur_not_eof [of p]
  by (simp add: match_token_def take_token_def ready_def advanced_def)

lemma parses_expect: "ready p \<Longrightarrow> k \<noteq> T_Eof \<Longrightarrow> parses 1 p (expect k msg p)"
  by (simp add: expect_def parses_take parse_error_def)

lemma parses_error [simp]: "parses k p (parse_error msg q)"
  by (simp add: parse_error_def)

lemma parses_identifier: "ready p \<Longrightarrow> parses 1 p (expect_identifier msg p)"
proof (cases "cur_kind p")
  case (T_Identifier s)
  assume "ready p"
  with T_Identifier have "parses 1 p (padvance p)" by (simp add: parses_padvance)
  then show ?thesis
    by (simp add: expect_identifier_def T_Identifier) (erule parses_bnd, simp)
qed (simp_all add: expect_identifier_def)

section \<open>Expressions\<close>

lemma level_op_not_eof: "level_op lvl k = Some op \<Longrightarrow> k \<noteq> T_Eof"
  by (auto simp: level_op_def split: if_splits)

text \<open>Enough fuel for each of the seven functions, from the number of tokens left.\<close>

definition fuel_ok :: "nat \<Rightarrow> bool" where
  "fuel_ok n \<longleftrightarrow> (\<forall>p. ready p \<longrightarrow>
     (10 * tokens_left p + 9 \<le> n \<longrightarrow> parses 1 p (parse_expr n p)) \<and>
     (\<forall>lvl. 10 * tokens_left p + (8 - lvl) \<le> n \<longrightarrow> lvl \<le> 5 \<longrightarrow> parses 1 p (parse_binary n lvl p)) \<and>
     (\<forall>lvl left. 10 * tokens_left p + 1 \<le> n \<longrightarrow> lvl \<le> 5 \<longrightarrow> parses 0 p (parse_binary_rest n lvl left p)) \<and>
     (10 * tokens_left p + 2 \<le> n \<longrightarrow> parses 1 p (parse_unary n p)) \<and>
     (10 * tokens_left p + 1 \<le> n \<longrightarrow> parses 1 p (parse_primary n p)) \<and>
     (10 * tokens_left p + 10 \<le> n \<longrightarrow> parses 0 p (parse_args n p)) \<and>
     (\<forall>args. 10 * tokens_left p + 1 \<le> n \<longrightarrow> parses 0 p (parse_args_rest n args p)))"

lemma fuel_okD:
  assumes "fuel_ok n" "ready p"
  shows "10 * tokens_left p + 9 \<le> n \<Longrightarrow> parses 1 p (parse_expr n p)"
    "10 * tokens_left p + (8 - lvl) \<le> n \<Longrightarrow> lvl \<le> 5 \<Longrightarrow> parses 1 p (parse_binary n lvl p)"
    "10 * tokens_left p + 1 \<le> n \<Longrightarrow> lvl \<le> 5 \<Longrightarrow> parses 0 p (parse_binary_rest n lvl left p)"
    "10 * tokens_left p + 2 \<le> n \<Longrightarrow> parses 1 p (parse_unary n p)"
    "10 * tokens_left p + 1 \<le> n \<Longrightarrow> parses 1 p (parse_primary n p)"
    "10 * tokens_left p + 10 \<le> n \<Longrightarrow> parses 0 p (parse_args n p)"
    "10 * tokens_left p + 1 \<le> n \<Longrightarrow> parses 0 p (parse_args_rest n args p)"
  using assms unfolding fuel_ok_def by blast+

lemma operand_parses:
  assumes "fuel_ok n" "ready p" "10 * tokens_left p + (7 - lvl) \<le> n" "lvl \<le> 5"
  shows "parses 1 p (if lvl < 5 then parse_binary n (lvl + 1) p else parse_unary n p)"
  using assms by (auto intro!: fuel_okD(2,4))

lemma parses_binary_Suc:
  assumes "fuel_ok n" "ready p" "10 * tokens_left p + (8 - lvl) \<le> Suc n" "lvl \<le> 5"
  shows "parses 1 p (parse_binary (Suc n) lvl p)"
  unfolding parse_binary.simps
proof (rule parses_bnd)
  show "parses 1 p (if lvl < 5 then parse_binary n (lvl + 1) p else parse_unary n p)"
    by (rule operand_parses) (use assms in auto)
next
  fix left q
  assume q: "advanced 1 p q"
  from advanced_left [OF q] assms have "parses 0 q (parse_binary_rest n lvl left q)"
    by (intro fuel_okD(3) advanced_ready [OF q]) auto
  with q show "parses 1 p (parse_binary_rest n lvl left q)" by (rule parses_from) simp
qed

lemma parses_binary_rest_Suc:
  assumes "fuel_ok n" "ready p" "10 * tokens_left p + 1 \<le> Suc n" "lvl \<le> 5"
  shows "parses 0 p (parse_binary_rest (Suc n) lvl left p)"
proof (cases "level_op lvl (cur_kind p)")
  case None
  with assms(2) show ?thesis by (simp add: advanced_refl)
next
  case (Some op)
  have "parses 0 p (bnd (take_token p) (\<lambda>_ p.
          bnd (if lvl < 5 then parse_binary n (lvl + 1) p else parse_unary n p) (\<lambda>right p.
          parse_binary_rest n lvl (E_Binary op left right (expr_span left)) p)))"
  proof (rule parses_bnd [OF parses_take [OF assms(2) level_op_not_eof [OF Some]]])
    fix u q
    assume q: "advanced 1 p q"
    have "parses 0 q (bnd (if lvl < 5 then parse_binary n (lvl + 1) q else parse_unary n q) (\<lambda>right p.
          parse_binary_rest n lvl (E_Binary op left right (expr_span left)) p))"
    proof (rule parses_bnd)
      show "parses 1 q (if lvl < 5 then parse_binary n (lvl + 1) q else parse_unary n q)"
        by (rule operand_parses [OF assms(1) advanced_ready [OF q] _ assms(4)])
          (use advanced_left [OF q] assms in auto)
    next
      fix right r
      assume r: "advanced 1 q r"
      from advanced_left [OF r] advanced_left [OF q] assms
      have "parses 0 r (parse_binary_rest n lvl (E_Binary op left right (expr_span left)) r)"
        by (intro fuel_okD(3) advanced_ready [OF r]) auto
      with r show "parses 0 q (parse_binary_rest n lvl (E_Binary op left right (expr_span left)) r)"
        by (rule parses_from) simp
    qed
    with q show "parses 0 p (bnd (if lvl < 5 then parse_binary n (lvl + 1) q else parse_unary n q) (\<lambda>right p.
          parse_binary_rest n lvl (E_Binary op left right (expr_span left)) p))"
      by (rule parses_from) simp
  qed
  with Some show ?thesis by simp
qed

lemma parses_unary_Suc:
  assumes "fuel_ok n" "ready p" "10 * tokens_left p + 2 \<le> Suc n"
  shows "parses 1 p (parse_unary (Suc n) p)"
proof -
  have sub: "parses 1 p (bnd (parse_unary n q) (\<lambda>e r. (Inr (E_Unary op e sp), r)))" if q: "advanced 1 p q" for q op sp
  proof (rule parses_from [OF q])
    show "parses 1 q (bnd (parse_unary n q) (\<lambda>e r. (Inr (E_Unary op e sp), r)))"
      by (rule parses_bnd [OF fuel_okD(4) [OF assms(1) advanced_ready [OF q]]])
        (use advanced_left [OF q] assms in auto)
  qed simp
  have "parses 1 p (parse_primary n p)" by (rule fuel_okD(5)) (use assms in auto)
  with sub show ?thesis
    unfolding parse_unary.simps using assms(2)
    by (auto intro!: parses_match_bnd)
qed

text \<open>The sequencing rules seen from the state in between.\<close>

definition reads :: "nat \<Rightarrow> parser \<Rightarrow> parser \<Rightarrow> bool" where
  "reads k q s \<longleftrightarrow> ready s \<and> tokens_left s + k \<le> tokens_left q \<and> ps_tokens s = ps_tokens q"

lemma advanced_reads: "advanced k q s \<Longrightarrow> reads k q s"
  using advanced_left by (auto simp: reads_def advanced_def)

lemma readsD: "reads k q s \<Longrightarrow> ready s" "reads k q s \<Longrightarrow> tokens_left s + k \<le> tokens_left q"
  "reads k q s \<Longrightarrow> ps_tokens s = ps_tokens q"
  by (simp_all add: reads_def)

lemma parses_seq1:
  assumes "parses 1 q r" "\<And>a s. reads 1 q s \<Longrightarrow> parses 0 s (f a s)" "k \<le> 1"
  shows "parses k q (bnd r f)"
  by (rule parses_bnd [OF assms(1)], rule parses_from, assumption, rule assms(2), erule advanced_reads)
    (use assms(3) in simp)

lemma parses_seq0:
  assumes "parses 0 q r" "\<And>a s. reads 0 q s \<Longrightarrow> parses k s (f a s)"
  shows "parses k q (bnd r f)"
  by (rule parses_bnd [OF assms(1)], rule parses_from, assumption, rule assms(2), erule advanced_reads) simp

lemma parses_match_seq:
  assumes "ready q" "t \<noteq> T_Eof" "\<And>s. reads 1 q s \<Longrightarrow> parses 0 s (f True s)" "k \<le> 1" "parses k q (f False q)"
  shows "parses k q (bnd (match_token t q) f)"
proof (rule parses_match_bnd [OF assms(1,2)])
  fix s
  assume s: "advanced 1 q s"
  from s assms(3) [OF advanced_reads [OF s]] show "parses k q (f True s)"
    by (rule parses_from) (use assms(4) in simp)
qed (rule assms(5))

lemma parses_done [simp]: "ready q \<Longrightarrow> parses 0 q (Inr a, q)"
  by (simp add: advanced_refl)

lemma parses_weaken: "parses 1 q r \<Longrightarrow> parses 0 q r"
  unfolding parses_def by (erule post_mono) (auto intro: advanced_mono)

lemmas parsing_rules = parses_seq1 [OF parses_expect] parses_seq1 [OF parses_padvance]
  parses_seq1 [OF parses_identifier] parses_match_seq

lemma parses_primary_Suc:
  assumes "fuel_ok n" "ready p" "10 * tokens_left p + 1 \<le> Suc n"
  shows "parses 1 p (parse_primary (Suc n) p)"
proof -
  have expr: "ready q \<Longrightarrow> tokens_left q + 1 \<le> tokens_left p \<Longrightarrow> parses 1 q (parse_expr n q)" for q
    using assms by (intro fuel_okD(1)) auto
  have args: "ready q \<Longrightarrow> tokens_left q + 1 \<le> tokens_left p \<Longrightarrow> parses 0 q (parse_args n q)" for q
    using assms by (intro fuel_okD(6)) auto
  note step = parsing_rules parses_seq1 [OF expr] parses_seq0 [OF args]
  show ?thesis
    by (cases "cur_kind p") (use assms(2) in \<open>auto simp: reads_def advanced_refl intro!: step\<close>)
qed

lemma parses_args_Suc:
  assumes "fuel_ok n" "ready p" "10 * tokens_left p + 10 \<le> Suc n"
  shows "parses 0 p (parse_args (Suc n) p)"
proof -
  have expr: "parses 1 p (parse_expr n p)"
    using assms by (intro fuel_okD(1)) auto
  have rest: "ready q \<Longrightarrow> tokens_left q + 1 \<le> tokens_left p \<Longrightarrow> parses 0 q (parse_args_rest n args q)" for q args
    using assms by (intro fuel_okD(7)) auto
  show ?thesis
    using assms(2) by (auto simp: reads_def advanced_refl intro!: parses_seq1 [OF expr] rest)
qed

lemma parses_args_rest_Suc:
  assumes "fuel_ok n" "ready p" "10 * tokens_left p + 1 \<le> Suc n"
  shows "parses 0 p (parse_args_rest (Suc n) args p)"
proof -
  have expr: "ready q \<Longrightarrow> tokens_left q + 1 \<le> tokens_left p \<Longrightarrow> parses 1 q (parse_expr n q)" for q
    using assms by (intro fuel_okD(1)) auto
  have rest: "ready q \<Longrightarrow> tokens_left q + 1 \<le> tokens_left p \<Longrightarrow> parses 0 q (parse_args_rest n args q)" for q args
    using assms by (intro fuel_okD(7)) auto
  show ?thesis
    using assms(2) by (auto simp: reads_def advanced_refl intro!: parsing_rules parses_seq1 [OF expr] rest)
qed

lemma all_fuel_ok: "fuel_ok n"
proof (induction n)
  case 0
  then show ?case by (auto simp: fuel_ok_def ready_def tokens_left_def)
next
  case (Suc n)
  show ?case
    unfolding fuel_ok_def
  proof (intro allI impI conjI)
    fix p
    assume p: "ready p" "10 * tokens_left p + 9 \<le> Suc n"
    then show "parses 1 p (parse_expr (Suc n) p)"
      using fuel_okD(2) [OF Suc p(1), of 0] by simp
  qed (assumption | rule parses_binary_Suc [OF Suc] parses_binary_rest_Suc [OF Suc] parses_unary_Suc [OF Suc]
      parses_primary_Suc [OF Suc] parses_args_Suc [OF Suc] parses_args_rest_Suc [OF Suc])+
qed

lemma parses_expression: "ready p \<Longrightarrow> parses 1 p (expression p)"
  unfolding expression_def
  by (rule fuel_okD(1) [OF all_fuel_ok]) (simp_all add: expr_fuel_def tokens_left_def)

section \<open>Declarations and statements\<close>

lemma parses_type: "ready p \<Longrightarrow> parses 1 p (parse_type p)"
  by (auto simp: parse_type_def reads_def advanced_refl intro!: parsing_rules)

lemmas decl_rules = parsing_rules parses_seq1 [OF parses_expression] parses_seq1 [OF parses_type]

lemma parses_decl_tail: "ready p \<Longrightarrow> parses 1 p (parse_decl_tail p)"
proof -
  assume p: "ready p"
  have tail: "parses k q (bnd (expect T_Semicolon m q) (\<lambda>_ p. (Inr d, p)))" if "ready q" "k \<le> 1" for k q m and d :: "expr option \<times> i32 option"
    using that by (auto simp: reads_def advanced_refl intro!: parsing_rules)
  have size: "parses 0 q (case cur_kind q of
              T_IntLiteral sz \<Rightarrow>
                bnd (padvance q) (\<lambda>_ p.
                bnd (expect T_RBracket m p) (\<lambda>_ p. (Inr (None :: expr option, Some sz), p)))
            | _ \<Rightarrow> parse_error m' q)" if "ready q" for q m m'
    using that by (cases "cur_kind q") (auto simp: reads_def advanced_refl intro!: parsing_rules)
  have init: "parses 0 q (bnd (match_token T_Assign q) (\<lambda>assign p.
            if assign then bnd (expression p) (\<lambda>e p. (Inr (Some e, None), p))
            else (Inr (None, None :: i32 option), p)))" if "ready q" for q
    using that by (auto simp: reads_def advanced_refl intro!: decl_rules)
  show ?thesis
    unfolding parse_decl_tail_def
    using p by (auto simp: reads_def intro!: parses_match_seq parses_seq0 [OF size] parses_seq0 [OF init] tail)
qed

lemma parses_global: "ready p \<Longrightarrow> parses 1 p (parse_global p)"
  by (auto simp: parse_global_def reads_def advanced_refl intro!: decl_rules parses_seq1 [OF parses_decl_tail])

lemma parses_var_decl: "ready p \<Longrightarrow> parses 1 p (parse_var_decl p)"
  by (auto simp: parse_var_decl_def reads_def advanced_refl intro!: decl_rules parses_seq1 [OF parses_decl_tail])

lemma parses_param: "ready p \<Longrightarrow> parses 1 p (parse_param p)"
  by (auto simp: parse_param_def reads_def advanced_refl intro!: decl_rules)

lemma parses_simple_stmts:
  "ready p \<Longrightarrow> parses 1 p (parse_assignment p)"
  "ready p \<Longrightarrow> parses 1 p (parse_return p)"
  "ready p \<Longrightarrow> parses 1 p (parse_print p)"
  "ready p \<Longrightarrow> parses 1 p (parse_expr_stmt p)"
  "ready p \<Longrightarrow> parses 1 p (parse_condition T_If m p)"
  "ready p \<Longrightarrow> parses 1 p (parse_condition T_While m p)"
  by (auto simp: parse_assignment_def parse_return_def parse_print_def parse_expr_stmt_def parse_condition_def
      reads_def advanced_refl intro!: decl_rules)

definition stmt_fuel_ok :: "nat \<Rightarrow> bool" where
  "stmt_fuel_ok n \<longleftrightarrow> (\<forall>p. ready p \<longrightarrow>
     (3 * tokens_left p + 1 \<le> n \<longrightarrow> parses 1 p (parse_stmt n p)) \<and>
     (3 * tokens_left p + 1 \<le> n \<longrightarrow> parses 1 p (parse_block n p)) \<and>
     (\<forall>stmts. 3 * tokens_left p + 2 \<le> n \<longrightarrow> parses 0 p (parse_stmts n stmts p)))"

lemma stmt_fuel_okD:
  assumes "stmt_fuel_ok n" "ready p"
  shows "3 * tokens_left p + 1 \<le> n \<Longrightarrow> parses 1 p (parse_stmt n p)"
    "3 * tokens_left p + 1 \<le> n \<Longrightarrow> parses 1 p (parse_block n p)"
    "3 * tokens_left p + 2 \<le> n \<Longrightarrow> parses 0 p (parse_stmts n stmts p)"
  using assms unfolding stmt_fuel_ok_def by blast+

lemma parses_stmt_Suc:
  assumes "stmt_fuel_ok n" "ready p" "3 * tokens_left p + 1 \<le> Suc n"
  shows "parses 1 p (parse_stmt (Suc n) p)"
proof -
  have block: "ready q \<Longrightarrow> tokens_left q + 1 \<le> tokens_left p \<Longrightarrow> parses 1 q (parse_block n q)" for q
    using assms by (intro stmt_fuel_okD(2)) auto
  show ?thesis
    using assms(2)
    by (auto simp: parse_if_def parse_while_def reads_def advanced_refl parses_simple_stmts parses_var_decl
        intro!: parses_seq1 [OF parses_simple_stmts(5)] parses_seq1 [OF parses_simple_stmts(6)]
          parses_seq1 [OF block] parses_match_seq)
qed

lemma parses_block_Suc:
  assumes "stmt_fuel_ok n" "ready p" "3 * tokens_left p + 1 \<le> Suc n"
  shows "parses 1 p (parse_block (Suc n) p)"
proof -
  have stmts: "ready q \<Longrightarrow> tokens_left q + 1 \<le> tokens_left p \<Longrightarrow> parses 0 q (parse_stmts n ss q)" for q ss
    using assms by (intro stmt_fuel_okD(3)) auto
  show ?thesis
    using assms(2) by (auto simp: reads_def advanced_refl intro!: parsing_rules parses_seq0 [OF stmts])
qed

lemma parses_stmts_Suc:
  assumes "stmt_fuel_ok n" "ready p" "3 * tokens_left p + 2 \<le> Suc n"
  shows "parses 0 p (parse_stmts (Suc n) ss p)"
proof -
  have stmt: "parses 1 p (parse_stmt n p)"
    using assms by (intro stmt_fuel_okD(1)) auto
  have stmts: "ready q \<Longrightarrow> tokens_left q + 1 \<le> tokens_left p \<Longrightarrow> parses 0 q (parse_stmts n ss q)" for q ss
    using assms by (intro stmt_fuel_okD(3)) auto
  show ?thesis
    using assms(2) by (auto simp: reads_def advanced_refl intro!: parses_seq1 [OF stmt] stmts)
qed

lemma all_stmt_fuel_ok: "stmt_fuel_ok n"
proof (induction n)
  case 0
  then show ?case by (auto simp: stmt_fuel_ok_def ready_def tokens_left_def)
next
  case (Suc n)
  then show ?case
    unfolding stmt_fuel_ok_def [of "Suc n"]
    by (blast intro: parses_stmt_Suc parses_block_Suc parses_stmts_Suc)
qed

lemma parses_block: "ready p \<Longrightarrow> parses 1 p (parse_block (stmt_fuel p) p)"
  by (rule stmt_fuel_okD(2) [OF all_stmt_fuel_ok]) (simp_all add: stmt_fuel_def tokens_left_def)

section \<open>Programs\<close>

lemma parses_params_rest:
  "ready p \<Longrightarrow> tokens_left p \<le> n \<Longrightarrow> parses 0 p (parse_params_rest n params p)"
proof (induction n arbitrary: params p)
  case 0
  then show ?case by (simp add: ready_def tokens_left_def)
next
  case (Suc n)
  then show ?case
    by (auto simp: reads_def advanced_refl intro!: parsing_rules parses_seq1 [OF parses_param] Suc.IH)
qed

lemma parses_params: "ready p \<Longrightarrow> parses 0 p (parse_params p)"
  by (auto simp: parse_params_def reads_def advanced_refl tokens_left_def
      intro!: parses_seq1 [OF parses_param] parses_params_rest)

lemma parses_function: "ready p \<Longrightarrow> parses 1 p (parse_function p)"
  by (auto simp: parse_function_def reads_def advanced_refl
      intro!: parsing_rules parses_seq0 [OF parses_params] parses_seq1 [OF parses_block])

lemma parses_items: "ready p \<Longrightarrow> tokens_left p \<le> n \<Longrightarrow> parses 0 p (parse_items n prog p)"
proof (induction n arbitrary: prog p)
  case 0
  then show ?case by (simp add: ready_def tokens_left_def)
next
  case (Suc n)
  then show ?case
    by (auto simp: reads_def advanced_refl
        intro!: parses_seq1 [OF parses_function] parses_seq1 [OF parses_global] Suc.IH)
qed


end
