(* ===== verification/Compiler.thy ===== *)
theory Compiler
  imports Ast Bytecode "HOL-Library.AList"
begin

text \<open>
  The bytecode compiler (compiler.rs): global and function numbering, local slots, code generation
  with back-patched jumps. The compiler state is threaded through; a lookup \<open>map[key]\<close> of a missing
  key is a panic (\<open>Inl\<close>). The string arena only feeds allocation statistics and is left out.
\<close>

section \<open>State\<close>

record local_var =
  lv_slot :: usize
  lv_is_array :: bool
  lv_array_size :: usize

record compiler =
  c_instructions :: "instruction list"
  c_functions :: "(usize \<times> function_info) list"
  c_globals :: "(string \<times> global_info) list"
  c_func_ids :: "(string \<times> usize) list"
  c_locals :: "(string \<times> local_var) list"
  c_next_local :: usize
  c_next_global :: usize
  c_next_func :: usize
  c_main :: "usize option"
  c_constants :: "i32 list"

type_synonym 'a compiling = "(string + 'a) \<times> compiler"

definition Compiler_new :: compiler where
  "Compiler_new =
     \<lparr>c_instructions = [], c_functions = [], c_globals = [], c_func_ids = [], c_locals = [],
      c_next_local = 0, c_next_global = 0, c_next_func = 0, c_main = None, c_constants = []\<rparr>"

definition current_pc :: "compiler \<Rightarrow> usize" where
  "current_pc c = length (c_instructions c)"

definition emit :: "opcode \<Rightarrow> i32 \<Rightarrow> i32 \<Rightarrow> compiler \<Rightarrow> compiler" where
  "emit op a b c = c\<lparr>c_instructions := c_instructions c @ [Instruction_new op a b]\<rparr>"

definition emit_simple :: "opcode \<Rightarrow> compiler \<Rightarrow> compiler" where
  "emit_simple op c = emit op 0 0 c"

definition patch :: "usize \<Rightarrow> i32 \<Rightarrow> compiler \<Rightarrow> compiler" where
  "patch pc a c =
     c\<lparr>c_instructions := (c_instructions c)[pc := (c_instructions c ! pc)\<lparr>arg1 := a\<rparr>]\<rparr>"

definition compiled_ok :: "compiler \<Rightarrow> unit compiling" where
  "compiled_ok c = (Inr (), c)"

definition index_map :: "(string \<times> 'v) list \<Rightarrow> string \<Rightarrow> compiler \<Rightarrow> 'v compiling" where
  "index_map m k c = (case map_of m k of None \<Rightarrow> (Inl ''no entry found for key'', c) | Some v \<Rightarrow> (Inr v, c))"

section \<open>Expressions\<close>

definition binary_opcode :: "binary_op \<Rightarrow> opcode" where
  "binary_opcode op = (case op of
      Bin_Add \<Rightarrow> Op_Add | Bin_Sub \<Rightarrow> Op_Sub | Bin_Mul \<Rightarrow> Op_Mul | Bin_Div \<Rightarrow> Op_Div
    | Bin_Eq \<Rightarrow> Op_Eq | Bin_Ne \<Rightarrow> Op_Ne | Bin_Lt \<Rightarrow> Op_Lt | Bin_Gt \<Rightarrow> Op_Gt
    | Bin_Le \<Rightarrow> Op_Le | Bin_Ge \<Rightarrow> Op_Ge | Bin_And \<Rightarrow> Op_And | Bin_Or \<Rightarrow> Op_Or)"

definition unary_opcode :: "unary_op \<Rightarrow> opcode" where
  "unary_opcode op = (case op of Un_Neg \<Rightarrow> Op_Neg | Un_Not \<Rightarrow> Op_Not)"

definition emit_load :: "string \<Rightarrow> compiler \<Rightarrow> compiler" where
  "emit_load name c =
     (case map_of (c_locals c) name of
        Some local \<Rightarrow> emit Op_LoadLocal (usize_as_i32 (lv_slot local)) 0 c
      | None \<Rightarrow>
          (case map_of (c_globals c) name of
             Some global \<Rightarrow> emit Op_LoadGlobal (usize_as_i32 (gi_slot global)) 0 c
           | None \<Rightarrow> c))"

definition emit_array_load :: "string \<Rightarrow> compiler \<Rightarrow> compiler" where
  "emit_array_load name c =
     (case map_of (c_locals c) name of
        Some local \<Rightarrow>
          emit Op_LocalArrayLoad (usize_as_i32 (lv_slot local)) (usize_as_i32 (lv_array_size local)) c
      | None \<Rightarrow>
          (case map_of (c_globals c) name of
             Some global \<Rightarrow>
               emit Op_ArrayLoad (usize_as_i32 (gi_slot global)) (usize_as_i32 (gi_array_size global)) c
           | None \<Rightarrow> c))"

text \<open>The end of a short-circuit operator, after its right operand; \<open>v\<close> is the short-cut value.\<close>

definition finish_short_circuit :: "usize \<Rightarrow> i32 \<Rightarrow> compiler \<Rightarrow> compiler" where
  "finish_short_circuit jump_short v c =
     (let c = emit_simple Op_Ne (emit Op_LoadConst 0 0 c);
          jump_end = current_pc c;
          c = emit Op_Jump 0 0 c;
          c = patch jump_short (usize_as_i32 (current_pc c)) c;
          c = emit Op_LoadConst v 0 c
      in patch jump_end (usize_as_i32 (current_pc c)) c)"

fun compile_expr :: "expr \<Rightarrow> compiler \<Rightarrow> unit compiling"
and compile_args :: "expr list \<Rightarrow> compiler \<Rightarrow> unit compiling"
where
  "compile_expr (E_IntLiteral v sp) c = compiled_ok (emit Op_LoadConst v 0 c)"
| "compile_expr (E_BoolLiteral b sp) c = compiled_ok (emit Op_LoadConst (if b then 1 else 0) 0 c)"
| "compile_expr (E_Identifier name sp) c = compiled_ok (emit_load name c)"
| "compile_expr (E_Binary op l r sp) c =
     (if op = Bin_And \<or> op = Bin_Or
      then bnd (compile_expr l c) (\<lambda>_ c.
           let jump_short = current_pc c in
           bnd (compile_expr r (emit (if op = Bin_And then Op_JumpIfFalse else Op_JumpIfTrue) 0 0 c)) (\<lambda>_ c.
           compiled_ok (finish_short_circuit jump_short (if op = Bin_And then 0 else 1) c)))
      else bnd (compile_expr l c) (\<lambda>_ c.
           bnd (compile_expr r c) (\<lambda>_ c.
           compiled_ok (emit_simple (binary_opcode op) c))))"
| "compile_expr (E_Unary op e sp) c =
     bnd (compile_expr e c) (\<lambda>_ c. compiled_ok (emit_simple (unary_opcode op) c))"
| "compile_expr (E_Call name args sp) c =
     bnd (compile_args args c) (\<lambda>_ c.
     bnd (index_map (c_func_ids c) name c) (\<lambda>func_id c.
     compiled_ok (emit Op_Call (usize_as_i32 func_id) (usize_as_i32 (length args)) c)))"
| "compile_expr (E_ArrayIndex name index sp) c =
     bnd (compile_expr index c) (\<lambda>_ c. compiled_ok (emit_array_load name c))"
| "compile_args [] c = compiled_ok c"
| "compile_args (a # as) c = bnd (compile_expr a c) (\<lambda>_ c. compile_args as c)"

section \<open>Local variables\<close>

text \<open>\<open>array_size.map(|s| s as usize).unwrap_or(0)\<close>.\<close>

definition decl_size :: "i32 option \<Rightarrow> usize" where
  "decl_size sz = (case sz of None \<Rightarrow> 0 | Some s \<Rightarrow> as_usize s)"

definition declare_local :: "string \<Rightarrow> i32 option \<Rightarrow> compiler \<Rightarrow> compiler" where
  "declare_local name sz c =
     (if map_of (c_locals c) name = None
      then c\<lparr>c_locals := AList.update name
               \<lparr>lv_slot = c_next_local c, lv_is_array = (sz \<noteq> None), lv_array_size = decl_size sz\<rparr>
               (c_locals c),
             c_next_local := c_next_local c + 1\<rparr>
      else c)"

fun collect_local_decls :: "stmt list \<Rightarrow> compiler \<Rightarrow> compiler" where
  "collect_local_decls [] c = c"
| "collect_local_decls (S_VarDecl t name i sz sp # ss) c = collect_local_decls ss (declare_local name sz c)"
| "collect_local_decls (S_If cond th el sp # ss) c =
     (let c = collect_local_decls th c;
          c = (case el of None \<Rightarrow> c | Some e \<Rightarrow> collect_local_decls e c)
      in collect_local_decls ss c)"
| "collect_local_decls (S_While cond body sp # ss) c =
     collect_local_decls ss (collect_local_decls body c)"
| "collect_local_decls (s # ss) c = collect_local_decls ss c"

section \<open>Statements\<close>

definition compile_decl :: "string \<Rightarrow> expr option \<Rightarrow> i32 option \<Rightarrow> compiler \<Rightarrow> unit compiling" where
  "compile_decl name init sz c =
     bnd (let c = declare_local name sz c in index_map (c_locals c) name c) (\<lambda>local c.
     if lv_is_array local
     then compiled_ok (emit Op_StoreLocal (usize_as_i32 (lv_slot local)) 0
            (emit Op_AllocArray (usize_as_i32 (lv_array_size local)) 0 c))
     else case init of
       None \<Rightarrow> compiled_ok c
     | Some e \<Rightarrow>
         bnd (compile_expr e c) (\<lambda>_ c.
         compiled_ok (emit Op_StoreLocal (usize_as_i32 (lv_slot local)) 0 c)))"

definition compile_assign :: "string \<Rightarrow> expr option \<Rightarrow> expr \<Rightarrow> compiler \<Rightarrow> unit compiling" where
  "compile_assign target idx v c =
     (case map_of (c_locals c) target of
        Some local \<Rightarrow>
          (case idx of
             Some i \<Rightarrow>
               bnd (compile_expr i c) (\<lambda>_ c.
               bnd (compile_expr v c) (\<lambda>_ c.
               compiled_ok (emit Op_LocalArrayStore (usize_as_i32 (lv_slot local))
                      (usize_as_i32 (lv_array_size local)) c)))
           | None \<Rightarrow>
               bnd (compile_expr v c) (\<lambda>_ c.
               compiled_ok (emit Op_StoreLocal (usize_as_i32 (lv_slot local)) 0 c)))
      | None \<Rightarrow>
          (case map_of (c_globals c) target of
             Some global \<Rightarrow>
               (case idx of
                  Some i \<Rightarrow>
                    bnd (compile_expr i c) (\<lambda>_ c.
                    bnd (compile_expr v c) (\<lambda>_ c.
                    compiled_ok (emit Op_ArrayStore (usize_as_i32 (gi_slot global))
                           (usize_as_i32 (gi_array_size global)) c)))
                | None \<Rightarrow>
                    bnd (compile_expr v c) (\<lambda>_ c.
                    compiled_ok (emit Op_StoreGlobal (usize_as_i32 (gi_slot global)) 0 c)))
           | None \<Rightarrow> compiled_ok c))"

definition patch_here :: "usize \<Rightarrow> compiler \<Rightarrow> compiler" where
  "patch_here pc c = patch pc (usize_as_i32 (current_pc c)) c"

fun compile_stmt :: "stmt \<Rightarrow> compiler \<Rightarrow> unit compiling"
and compile_stmts :: "stmt list \<Rightarrow> compiler \<Rightarrow> unit compiling"
where
  "compile_stmt (S_VarDecl t name init sz sp) c = compile_decl name init sz c"
| "compile_stmt (S_Assign target idx v sp) c = compile_assign target idx v c"
| "compile_stmt (S_If cond th el sp) c =
     bnd (compile_expr cond c) (\<lambda>_ c.
     let jump_to_else = current_pc c in
     bnd (compile_stmts th (emit Op_JumpIfFalse 0 0 c)) (\<lambda>_ c.
     case el of
       Some ss \<Rightarrow>
         (let jump_to_end = current_pc c in
          bnd (compile_stmts ss (patch_here jump_to_else (emit Op_Jump 0 0 c))) (\<lambda>_ c.
          compiled_ok (patch_here jump_to_end c)))
     | None \<Rightarrow> compiled_ok (patch_here jump_to_else c)))"
| "compile_stmt (S_While cond body sp) c =
     (let loop_pc = current_pc c in
      bnd (compile_expr cond c) (\<lambda>_ c.
      let jump_to_exit = current_pc c in
      bnd (compile_stmts body (emit Op_JumpIfFalse 0 0 c)) (\<lambda>_ c.
      compiled_ok (patch_here jump_to_exit (emit Op_Jump (usize_as_i32 loop_pc) 0 c)))))"
| "compile_stmt (S_Return v sp) c = bnd (compile_expr v c) (\<lambda>_ c. compiled_ok (emit_simple Op_Return c))"
| "compile_stmt (S_Print v sp) c = bnd (compile_expr v c) (\<lambda>_ c. compiled_ok (emit_simple Op_Print c))"
| "compile_stmt (S_ExprStmt e sp) c = bnd (compile_expr e c) (\<lambda>_ c. compiled_ok (emit_simple Op_Pop c))"
| "compile_stmts [] c = compiled_ok c"
| "compile_stmts (s # ss) c = bnd (compile_stmt s c) (\<lambda>_ c. compile_stmts ss c)"

section \<open>Functions and programs\<close>

definition collect_global :: "global_var \<Rightarrow> compiler \<Rightarrow> compiler" where
  "collect_global g c =
     (let slot = c_next_global c;
          width = (case gv_array_size g of Some n \<Rightarrow> as_usize n | None \<Rightarrow> 1);
          sz = (case gv_array_size g of Some n \<Rightarrow> as_usize n | None \<Rightarrow> 0)
      in c\<lparr>c_next_global := slot + width,
           c_globals := AList.update (gv_name g)
             \<lparr>gi_name = gv_name g, gi_slot = slot, gi_is_array = (gv_array_size g \<noteq> None),
              gi_array_size = sz\<rparr> (c_globals c)\<rparr>)"

definition register_function :: "func \<Rightarrow> compiler \<Rightarrow> compiler" where
  "register_function f c =
     (let i = c_next_func c
      in c\<lparr>c_next_func := i + 1, c_func_ids := AList.update (fn_name f) i (c_func_ids c),
           c_main := (if fn_name f = ''main'' then Some i else c_main c)\<rparr>)"

definition add_param :: "param \<Rightarrow> compiler \<Rightarrow> compiler" where
  "add_param x c =
     c\<lparr>c_locals := AList.update (par_name x)
         \<lparr>lv_slot = c_next_local c, lv_is_array = False, lv_array_size = 0\<rparr> (c_locals c),
       c_next_local := c_next_local c + 1\<rparr>"

fun compile_global_inits :: "global_var list \<Rightarrow> compiler \<Rightarrow> unit compiling" where
  "compile_global_inits [] c = compiled_ok c"
| "compile_global_inits (g # gs) c =
     (case gv_init g of
        None \<Rightarrow> compile_global_inits gs c
      | Some init \<Rightarrow>
          bnd (compile_expr init c) (\<lambda>_ c.
          bnd (index_map (c_globals c) (gv_name g) c) (\<lambda>info c.
          compile_global_inits gs (emit Op_StoreGlobal (usize_as_i32 (gi_slot info)) 0 c))))"

definition compile_function :: "program \<Rightarrow> func \<Rightarrow> compiler \<Rightarrow> unit compiling" where
  "compile_function prog f c =
     bnd (index_map (c_func_ids c) (fn_name f) c) (\<lambda>func_id c.
     let entry = current_pc c;
         nparams = length (fn_params f);
         c = fold add_param (fn_params f) (c\<lparr>c_locals := [], c_next_local := 0\<rparr>);
         c = collect_local_decls (fn_body f) c;
         locals = c_next_local c;
         c = c\<lparr>c_next_local := nparams,
               c_locals := filter (\<lambda>e. lv_slot (snd e) < nparams) (c_locals c)\<rparr>
     in bnd (if fn_name f = ''main'' then compile_global_inits (p_globals prog) c else compiled_ok c) (\<lambda>_ c.
        bnd (compile_stmts (fn_body f) c) (\<lambda>_ c.
        let c = emit_simple Op_Return (emit Op_LoadConst 0 0 c)
        in compiled_ok (c\<lparr>c_functions := AList.update func_id
             \<lparr>fi_name = fn_name f, fi_id = func_id, entry_pc = entry, param_count = nparams,
              local_count = locals\<rparr> (c_functions c)\<rparr>))))"

fun compile_functions :: "program \<Rightarrow> func list \<Rightarrow> compiler \<Rightarrow> unit compiling" where
  "compile_functions prog [] c = compiled_ok c"
| "compile_functions prog (f # fs) c =
     bnd (compile_function prog f c) (\<lambda>_ c. compile_functions prog fs c)"

definition program_of :: "compiler \<Rightarrow> compiled_program" where
  "program_of c =
     \<lparr>instructions = c_instructions c, prog_functions = c_functions c, prog_globals = c_globals c,
      main_func_id = (case c_main c of None \<Rightarrow> 0 | Some i \<Rightarrow> i), prog_constants = c_constants c\<rparr>"

definition compile :: "program \<Rightarrow> string + compiled_program" where
  "compile prog =
     fst (bnd (compile_functions prog (p_functions prog)
            (fold register_function (p_functions prog)
              (fold collect_global (p_globals prog) Compiler_new)))
          (\<lambda>_ c. (Inr (program_of c), c)))"

end
