(* ===== verification/Sema.thy ===== *)
theory Sema
  imports Ast Bytecode
begin

text \<open>
  The semantic analyser (sema.rs): scopes, type checking, slot limits. The analyser state is
  threaded through; errors are collected and never stop the analysis. A scope is the list of its
  symbols, the latest first; the chain of parents is a list with the nearest first.
\<close>

section \<open>State\<close>

record symbol =
  sym_name :: string
  sym_type :: ty
  sym_is_global :: bool
  sym_is_array :: bool
  sym_array_size :: i32
  sym_is_function :: bool
  sym_param_types :: "ty list"

record semantic_error =
  se_message :: string
  se_span :: span

type_synonym symbols = "(string \<times> symbol) list"

record sema =
  sa_scope :: symbols
  sa_parents :: "symbols list"
  sa_functions :: symbols
  sa_errors :: "semantic_error list"
  sa_current_function :: "string option"
  sa_local_names :: "string set"
  sa_local_slots :: usize

definition SemanticAnalyzer_new :: sema where
  "SemanticAnalyzer_new =
     \<lparr>sa_scope = [], sa_parents = [], sa_functions = [], sa_errors = [],
      sa_current_function = None, sa_local_names = {}, sa_local_slots = 0\<rparr>"

definition sema_error :: "string \<Rightarrow> span \<Rightarrow> sema \<Rightarrow> sema" where
  "sema_error msg sp s = s\<lparr>sa_errors := sa_errors s @ [\<lparr>se_message = msg, se_span = sp\<rparr>]\<rparr>"

text \<open>\<open>if !ok { self.error(msg, span) }\<close>.\<close>

definition require :: "bool \<Rightarrow> string \<Rightarrow> span \<Rightarrow> sema \<Rightarrow> sema" where
  "require ok msg sp s = (if ok then s else sema_error msg sp s)"

definition push_scope :: "sema \<Rightarrow> sema" where
  "push_scope s = s\<lparr>sa_scope := [], sa_parents := sa_scope s # sa_parents s\<rparr>"

definition pop_scope :: "sema \<Rightarrow> sema" where
  "pop_scope s =
     (case sa_parents s of [] \<Rightarrow> s | p # ps \<Rightarrow> s\<lparr>sa_scope := p, sa_parents := ps\<rparr>)"

fun lookup_in :: "symbols list \<Rightarrow> string \<Rightarrow> symbol option" where
  "lookup_in [] n = None"
| "lookup_in (sc # scs) n = (case map_of sc n of Some sm \<Rightarrow> Some sm | None \<Rightarrow> lookup_in scs n)"

definition scope_lookup :: "sema \<Rightarrow> string \<Rightarrow> symbol option" where
  "scope_lookup s n = lookup_in (sa_scope s # sa_parents s) n"

text \<open>\<open>Scope::define\<close>: whether the symbol is new in the innermost scope; only then it is inserted.\<close>

definition scope_define :: "symbol \<Rightarrow> sema \<Rightarrow> bool \<times> sema" where
  "scope_define sm s =
     (if map_of (sa_scope s) (sym_name sm) \<noteq> None then (False, s)
      else (True, s\<lparr>sa_scope := (sym_name sm, sm) # sa_scope s\<rparr>))"

definition define_or_error :: "symbol \<Rightarrow> string \<Rightarrow> span \<Rightarrow> sema \<Rightarrow> sema" where
  "define_or_error sm msg sp s =
     (let r = scope_define sm s in require (fst r) msg sp (snd r))"

definition show_ty :: "ty \<Rightarrow> string" where
  "show_ty t = (case t of Ty_Int \<Rightarrow> ''Int'' | Ty_Bool \<Rightarrow> ''Bool'' | Ty_Void \<Rightarrow> ''Void'' | Ty_Error \<Rightarrow> ''Error'')"

section \<open>Expressions\<close>

text \<open>\<open>t == expected || t == Type::Error\<close>, and the types a condition may have.\<close>

definition fits :: "ty \<Rightarrow> ty \<Rightarrow> bool" where
  "fits t expected \<longleftrightarrow> t = expected \<or> t = Ty_Error"

definition truthy :: "ty \<Rightarrow> bool" where
  "truthy t \<longleftrightarrow> t \<in> {Ty_Int, Ty_Bool, Ty_Error}"

definition check_binary :: "binary_op \<Rightarrow> ty \<Rightarrow> ty \<Rightarrow> span \<Rightarrow> sema \<Rightarrow> ty \<times> sema" where
  "check_binary op lt rt sp s =
     (if op \<in> {Bin_Add, Bin_Sub, Bin_Mul, Bin_Div}
      then (Ty_Int, require (fits rt Ty_Int) ''Arithmetic operator requires int operands'' sp
             (require (fits lt Ty_Int) ''Arithmetic operator requires int operands'' sp s))
      else if op \<in> {Bin_Lt, Bin_Gt, Bin_Le, Bin_Ge}
      then (Ty_Bool, require (fits rt Ty_Int) ''Comparison operator requires int operands'' sp
             (require (fits lt Ty_Int) ''Comparison operator requires int operands'' sp s))
      else if op \<in> {Bin_Eq, Bin_Ne}
      then (Ty_Bool, require (lt = rt \<or> lt = Ty_Error \<or> rt = Ty_Error)
             ''Equality operator requires same types'' sp s)
      else (Ty_Bool, require (truthy rt) ''Logical operator requires int or bool'' sp
             (require (truthy lt) ''Logical operator requires int or bool'' sp s)))"

definition check_unary :: "unary_op \<Rightarrow> ty \<Rightarrow> span \<Rightarrow> sema \<Rightarrow> ty \<times> sema" where
  "check_unary op t sp s = (case op of
      Un_Neg \<Rightarrow> (Ty_Int, require (fits t Ty_Int) ''Negation requires int operand'' sp s)
    | Un_Not \<Rightarrow> (Ty_Bool, require (truthy t) ''Logical not requires int or bool'' sp s))"

definition check_identifier :: "string \<Rightarrow> span \<Rightarrow> sema \<Rightarrow> ty \<times> sema" where
  "check_identifier name sp s =
     (case scope_lookup s name of
        None \<Rightarrow> (Ty_Error, sema_error (fmt [''Undefined variable: '', name]) sp s)
      | Some sm \<Rightarrow>
          if sym_is_function sm
          then (Ty_Error, sema_error (fmt [''Cannot use function as value: '', name]) sp s)
          else if sym_is_array sm
          then (Ty_Error, sema_error (fmt [''Cannot use array without index: '', name]) sp s)
          else (sym_type sm, s))"

definition check_argument :: "nat \<Rightarrow> ty \<Rightarrow> ty \<Rightarrow> span \<Rightarrow> sema \<Rightarrow> sema" where
  "check_argument i t expected_ty sp s =
     require (fits t expected_ty)
       (fmt [''Argument '', show_nat (i + 1), '' type mismatch: expected '', show_ty expected_ty,
             '', got '', show_ty t]) sp s"

fun analyze_expr :: "expr \<Rightarrow> sema \<Rightarrow> ty \<times> sema"
and analyze_args :: "nat \<Rightarrow> expr list \<Rightarrow> ty list \<Rightarrow> span \<Rightarrow> sema \<Rightarrow> sema"
where
  "analyze_expr (E_IntLiteral v sp) s = (Ty_Int, s)"
| "analyze_expr (E_BoolLiteral b sp) s = (Ty_Bool, s)"
| "analyze_expr (E_Identifier name sp) s = check_identifier name sp s"
| "analyze_expr (E_Binary op l r sp) s =
     (case analyze_expr l s of (lt, s) \<Rightarrow>
      case analyze_expr r s of (rt, s) \<Rightarrow> check_binary op lt rt sp s)"
| "analyze_expr (E_Unary op e sp) s = (case analyze_expr e s of (t, s) \<Rightarrow> check_unary op t sp s)"
| "analyze_expr (E_Call name args sp) s =
     (case map_of (sa_functions s) name of
        None \<Rightarrow> (Ty_Error, sema_error (fmt [''Undefined function: '', name]) sp s)
      | Some f \<Rightarrow>
          if length args \<noteq> length (sym_param_types f)
          then (Ty_Int, sema_error
                 (fmt [''Wrong number of arguments: expected '', show_nat (length (sym_param_types f)),
                       '', got '', show_nat (length args)]) sp s)
          else (Ty_Int, analyze_args 0 args (sym_param_types f) sp s))"
| "analyze_expr (E_ArrayIndex name index sp) s =
     (case scope_lookup s name of
        None \<Rightarrow> (Ty_Error, sema_error (fmt [''Undefined variable: '', name]) sp s)
      | Some sm \<Rightarrow>
          if \<not> sym_is_array sm
          then (Ty_Error, sema_error (fmt [''Cannot index non-array: '', name]) sp s)
          else case analyze_expr index s of (t, s) \<Rightarrow>
            (sym_type sm, require (fits t Ty_Int) ''Array index must be int'' sp s))"
| "analyze_args i (a # as) (t # ts) sp s =
     (case analyze_expr a s of (at, s) \<Rightarrow> analyze_args (i + 1) as ts sp (check_argument i at t sp s))"
| "analyze_args i as ts sp s = s"

section \<open>Storage limits\<close>

definition validate_array_size :: "string \<Rightarrow> i32 option \<Rightarrow> span \<Rightarrow> sema \<Rightarrow> usize option \<times> sema" where
  "validate_array_size name sz sp s =
     (case sz of
        None \<Rightarrow> (None, s)
      | Some n \<Rightarrow>
          if n > 0 then (Some (as_usize n), s)
          else (None, sema_error (fmt [''Array size for '', quoted name, '' must be positive'']) sp s))"

definition add_global_slots :: "string \<Rightarrow> usize \<Rightarrow> span \<Rightarrow> usize \<Rightarrow> sema \<Rightarrow> usize \<times> sema" where
  "add_global_slots name slots sp global_slots s =
     (if slots = 0 then (global_slots, s)
      else case checked_add global_slots slots of
        None \<Rightarrow> (global_slots, sema_error ''Global storage size overflow'' sp s)
      | Some next_slots \<Rightarrow>
          (next_slots, require (next_slots \<le> MAX_GLOBAL_SLOTS)
             (fmt [''Global storage exceeds '', show_nat MAX_GLOBAL_SLOTS, '' slots at '', quoted name,
                   '' (needs '', show_nat next_slots, '')'']) sp s))"

definition check_local_slot_limit :: "span \<Rightarrow> sema \<Rightarrow> sema" where
  "check_local_slot_limit sp s =
     require (sa_local_slots s \<le> MAX_LOCAL_SLOTS)
       (fmt [''Local storage exceeds '', show_nat MAX_LOCAL_SLOTS, '' slots in function '',
             quoted (case sa_current_function s of None \<Rightarrow> ''<unknown>'' | Some f \<Rightarrow> f),
             '' (needs '', show_nat (sa_local_slots s), '')'']) sp s"

definition add_local_slot :: "string \<Rightarrow> span \<Rightarrow> sema \<Rightarrow> sema" where
  "add_local_slot name sp s =
     (if name \<in> sa_local_names s then s
      else check_local_slot_limit sp
             (s\<lparr>sa_local_names := insert name (sa_local_names s),
                sa_local_slots := min (sa_local_slots s + 1) usize_max\<rparr>))"

section \<open>Statements\<close>

definition mismatch :: "ty \<Rightarrow> ty \<Rightarrow> string" where
  "mismatch t expected_ty =
     fmt [''Type mismatch: cannot assign '', show_ty t, '' to '', show_ty expected_ty]"

definition variable_symbol :: "string \<Rightarrow> ty \<Rightarrow> bool \<Rightarrow> i32 option \<Rightarrow> usize option \<Rightarrow> symbol" where
  "variable_symbol name t global sz checked =
     \<lparr>sym_name = name, sym_type = t, sym_is_global = global, sym_is_array = (sz \<noteq> None),
      sym_array_size = (case checked of None \<Rightarrow> 0 | Some n \<Rightarrow> usize_as_i32 n),
      sym_is_function = False, sym_param_types = []\<rparr>"

definition check_value :: "expr \<Rightarrow> ty \<Rightarrow> span \<Rightarrow> sema \<Rightarrow> sema" where
  "check_value e expected_ty sp s =
     (case analyze_expr e s of (t, s) \<Rightarrow> require (fits t expected_ty) (mismatch t expected_ty) sp s)"

definition analyze_decl :: "ty \<Rightarrow> string \<Rightarrow> expr option \<Rightarrow> i32 option \<Rightarrow> span \<Rightarrow> sema \<Rightarrow> sema" where
  "analyze_decl t name init sz sp s =
     (if scope_lookup s name \<noteq> None
      then sema_error (fmt [''Variable shadows existing symbol: '', name]) sp s
      else case validate_array_size name sz sp s of (checked, s) \<Rightarrow>
        let s = add_local_slot name sp s;
            s = define_or_error (variable_symbol name t False sz checked)
                  (fmt [''Duplicate variable: '', name]) sp s
        in (case init of None \<Rightarrow> s | Some e \<Rightarrow> check_value e t sp s))"

definition analyze_assign :: "string \<Rightarrow> expr option \<Rightarrow> expr \<Rightarrow> span \<Rightarrow> sema \<Rightarrow> sema" where
  "analyze_assign target idx v sp s =
     (case scope_lookup s target of
        None \<Rightarrow> sema_error (fmt [''Undefined variable: '', target]) sp s
      | Some sm \<Rightarrow>
          if sym_is_function sm
          then sema_error (fmt [''Cannot assign to function: '', target]) sp s
          else case idx of
            Some i \<Rightarrow>
              (case analyze_expr i s of (t, s) \<Rightarrow>
               let s = require (fits t Ty_Int) ''Array index must be an integer'' sp s;
                   s = require (sym_is_array sm) (fmt [''Cannot index non-array: '', target]) sp s
               in check_value v (sym_type sm) sp s)
          | None \<Rightarrow>
              if sym_is_array sm
              then sema_error (fmt [''Cannot assign to array without index: '', target]) sp s
              else check_value v (sym_type sm) sp s)"

definition analyze_condition :: "expr \<Rightarrow> span \<Rightarrow> sema \<Rightarrow> sema" where
  "analyze_condition e sp s =
     (case analyze_expr e s of (t, s) \<Rightarrow> require (truthy t) ''Condition must be int or bool'' sp s)"

fun analyze_stmt :: "stmt \<Rightarrow> sema \<Rightarrow> sema"
and analyze_stmts :: "stmt list \<Rightarrow> sema \<Rightarrow> sema"
where
  "analyze_stmt (S_VarDecl t name init sz sp) s = analyze_decl t name init sz sp s"
| "analyze_stmt (S_Assign target idx v sp) s = analyze_assign target idx v sp s"
| "analyze_stmt (S_If cond th el sp) s =
     (let s = pop_scope (analyze_stmts th (push_scope (analyze_condition cond sp s)))
      in case el of
           None \<Rightarrow> s
         | Some ss \<Rightarrow> pop_scope (analyze_stmts ss (push_scope s)))"
| "analyze_stmt (S_While cond body sp) s =
     pop_scope (analyze_stmts body (push_scope (analyze_condition cond sp s)))"
| "analyze_stmt (S_Return v sp) s =
     (case analyze_expr v s of (t, s) \<Rightarrow> require (fits t Ty_Int) ''Return value must be int'' sp s)"
| "analyze_stmt (S_Print v sp) s = snd (analyze_expr v s)"
| "analyze_stmt (S_ExprStmt e sp) s = snd (analyze_expr e s)"
| "analyze_stmts [] s = s"
| "analyze_stmts (st # ss) s = analyze_stmts ss (analyze_stmt st s)"

section \<open>Functions and programs\<close>

definition analyze_param :: "param \<Rightarrow> sema \<Rightarrow> sema" where
  "analyze_param p s =
     (if scope_lookup s (par_name p) \<noteq> None
      then sema_error (fmt [''Parameter shadows existing symbol: '', par_name p]) (par_span p) s
      else define_or_error (variable_symbol (par_name p) (par_type p) False None None)
             (fmt [''Duplicate parameter: '', par_name p]) (par_span p) s)"

definition analyze_function :: "func \<Rightarrow> sema \<Rightarrow> sema" where
  "analyze_function f s =
     (let s = s\<lparr>sa_current_function := Some (fn_name f),
                sa_local_names := par_name ` set (fn_params f),
                sa_local_slots := length (fn_params f)\<rparr>;
          s = push_scope (check_local_slot_limit (fn_span f) s);
          s = fold analyze_param (fn_params f) s;
          s = pop_scope (analyze_stmts (fn_body f) s)
      in s\<lparr>sa_current_function := None\<rparr>)"

definition declare_global :: "global_var \<Rightarrow> usize \<times> sema \<Rightarrow> usize \<times> sema" where
  "declare_global g gs =
     (case validate_array_size (gv_name g) (gv_array_size g) (gv_span g) (snd gs) of (checked, s) \<Rightarrow>
      let slot_count = (if gv_array_size g \<noteq> None
                        then (case checked of None \<Rightarrow> 0 | Some n \<Rightarrow> n) else 1)
      in case add_global_slots (gv_name g) slot_count (gv_span g) (fst gs) s of (global_slots, s) \<Rightarrow>
        (global_slots,
         define_or_error (variable_symbol (gv_name g) (gv_type g) True (gv_array_size g) checked)
           (fmt [''Duplicate global variable: '', gv_name g]) (gv_span g) s))"

definition function_symbol :: "func \<Rightarrow> symbol" where
  "function_symbol f =
     \<lparr>sym_name = fn_name f, sym_type = Ty_Int, sym_is_global = False, sym_is_array = False,
      sym_array_size = 0, sym_is_function = True,
      sym_param_types = map par_type (fn_params f)\<rparr>"

definition declare_function :: "func \<Rightarrow> sema \<Rightarrow> sema" where
  "declare_function f s =
     (if map_of (sa_functions s) (fn_name f) \<noteq> None
      then sema_error (fmt [''Duplicate function: '', fn_name f]) (fn_span f) s
      else define_or_error (function_symbol f)
             (fmt [''Duplicate top-level symbol: '', fn_name f]) (fn_span f)
             (s\<lparr>sa_functions := (fn_name f, function_symbol f) # sa_functions s\<rparr>))"

definition check_global_init :: "global_var \<Rightarrow> sema \<Rightarrow> sema" where
  "check_global_init g s =
     (case gv_init g of None \<Rightarrow> s | Some e \<Rightarrow> check_value e (gv_type g) (gv_span g) s)"

definition collect_declarations :: "program \<Rightarrow> sema \<Rightarrow> sema" where
  "collect_declarations prog s =
     (let s = snd (fold declare_global (p_globals prog) (0, s));
          s = fold declare_function (p_functions prog) s
      in fold check_global_init (p_globals prog) s)"

definition check_main :: "sema \<Rightarrow> sema" where
  "check_main s =
     (case map_of (sa_functions s) ''main'' of
        None \<Rightarrow> sema_error (fmt [''Program must define a '', quoted ''main'', '' function'']) (Span_new 0 0) s
      | Some f \<Rightarrow> require (sym_param_types f = [])
                  (fmt [quoted ''main'', '' function must take no parameters'']) (Span_new 0 0) s)"

definition analyze :: "program \<Rightarrow> semantic_error list + unit" where
  "analyze prog =
     (let s = fold analyze_function (p_functions prog)
                (check_main (collect_declarations prog SemanticAnalyzer_new))
      in if sa_errors s = [] then Inr () else Inl (sa_errors s))"

end
