(* ===== verification/Well_Formed.thy ===== *)
theory Well_Formed
  imports Sema
begin

text \<open>
  The static semantics of MiniLang as a specification: a type for every expression in a flat
  environment, the conditions on statements, functions and programs. No scopes, no error lists and
  no running counters; \<open>Sema_Props\<close> proves that the analyser accepts exactly these programs.
\<close>

type_synonym env = "string \<Rightarrow> symbol option"

definition operand_ok :: "binary_op \<Rightarrow> ty \<Rightarrow> ty \<Rightarrow> bool" where
  "operand_ok op lt rt \<longleftrightarrow>
     (if op \<in> {Bin_Eq, Bin_Ne} then lt = rt \<or> lt = Ty_Error \<or> rt = Ty_Error
      else if op \<in> {Bin_And, Bin_Or} then truthy lt \<and> truthy rt
      else fits lt Ty_Int \<and> fits rt Ty_Int)"

definition binary_type :: "binary_op \<Rightarrow> ty" where
  "binary_type op = (if op \<in> {Bin_Add, Bin_Sub, Bin_Mul, Bin_Div} then Ty_Int else Ty_Bool)"

fun type_of :: "env \<Rightarrow> env \<Rightarrow> expr \<Rightarrow> ty option"
and args_ok :: "env \<Rightarrow> env \<Rightarrow> expr list \<Rightarrow> ty list \<Rightarrow> bool"
where
  "type_of G F (E_IntLiteral v sp) = Some Ty_Int"
| "type_of G F (E_BoolLiteral b sp) = Some Ty_Bool"
| "type_of G F (E_Identifier n sp) =
     (case G n of None \<Rightarrow> None
      | Some y \<Rightarrow> if sym_is_function y \<or> sym_is_array y then None else Some (sym_type y))"
| "type_of G F (E_Binary op l r sp) =
     (case (type_of G F l, type_of G F r) of
        (Some lt, Some rt) \<Rightarrow> if operand_ok op lt rt then Some (binary_type op) else None
      | _ \<Rightarrow> None)"
| "type_of G F (E_Unary op e sp) =
     (case type_of G F e of None \<Rightarrow> None
      | Some t \<Rightarrow> (case op of
            Un_Neg \<Rightarrow> if fits t Ty_Int then Some Ty_Int else None
          | Un_Not \<Rightarrow> if truthy t then Some Ty_Bool else None))"
| "type_of G F (E_Call n args sp) =
     (case F n of None \<Rightarrow> None
      | Some f \<Rightarrow> if args_ok G F args (sym_param_types f) then Some Ty_Int else None)"
| "type_of G F (E_ArrayIndex n i sp) =
     (case G n of None \<Rightarrow> None
      | Some y \<Rightarrow>
          (case type_of G F i of None \<Rightarrow> None
           | Some t \<Rightarrow> if sym_is_array y \<and> fits t Ty_Int then Some (sym_type y) else None))"
| "args_ok G F [] ts \<longleftrightarrow> ts = []"
| "args_ok G F (a # as) ts \<longleftrightarrow>
     (case ts of [] \<Rightarrow> False
      | t # ts \<Rightarrow> (case type_of G F a of None \<Rightarrow> False | Some at \<Rightarrow> fits at t) \<and> args_ok G F as ts)"

definition has_type :: "env \<Rightarrow> env \<Rightarrow> expr \<Rightarrow> ty \<Rightarrow> bool" where
  "has_type G F e t \<longleftrightarrow> (case type_of G F e of None \<Rightarrow> False | Some t' \<Rightarrow> fits t' t)"

definition condition_ok :: "env \<Rightarrow> env \<Rightarrow> expr \<Rightarrow> bool" where
  "condition_ok G F e \<longleftrightarrow> (case type_of G F e of None \<Rightarrow> False | Some t \<Rightarrow> truthy t)"

definition size_ok :: "i32 option \<Rightarrow> bool" where
  "size_ok sz \<longleftrightarrow> (case sz of None \<Rightarrow> True | Some n \<Rightarrow> n > 0)"

text \<open>The symbol of a declaration whose size is acceptable.\<close>

definition declared :: "string \<Rightarrow> ty \<Rightarrow> bool \<Rightarrow> i32 option \<Rightarrow> symbol" where
  "declared n t global sz = variable_symbol n t global sz (map_option as_usize sz)"

definition value_ok :: "env \<Rightarrow> env \<Rightarrow> expr option \<Rightarrow> ty \<Rightarrow> bool" where
  "value_ok G F init t \<longleftrightarrow> (case init of None \<Rightarrow> True | Some e \<Rightarrow> has_type G F e t)"

definition assign_ok :: "env \<Rightarrow> env \<Rightarrow> string \<Rightarrow> expr option \<Rightarrow> expr \<Rightarrow> bool" where
  "assign_ok G F target idx v \<longleftrightarrow>
     (case G target of None \<Rightarrow> False
      | Some y \<Rightarrow>
          \<not> sym_is_function y \<and> (sym_is_array y \<longleftrightarrow> idx \<noteq> None) \<and>
          (case idx of None \<Rightarrow> True | Some i \<Rightarrow> has_type G F i Ty_Int) \<and> has_type G F v (sym_type y))"

text \<open>What a statement adds to the environment of the statements after it.\<close>

fun bind_stmt :: "stmt \<Rightarrow> env \<Rightarrow> env" where
  "bind_stmt (S_VarDecl t n init sz sp) G = G(n \<mapsto> declared n t False sz)"
| "bind_stmt _ G = G"

fun stmt_ok :: "env \<Rightarrow> env \<Rightarrow> stmt \<Rightarrow> bool"
and stmts_ok :: "env \<Rightarrow> env \<Rightarrow> stmt list \<Rightarrow> bool"
where
  "stmt_ok G F (S_VarDecl t n init sz sp) \<longleftrightarrow>
     G n = None \<and> size_ok sz \<and> value_ok (G(n \<mapsto> declared n t False sz)) F init t"
| "stmt_ok G F (S_Assign target idx v sp) \<longleftrightarrow> assign_ok G F target idx v"
| "stmt_ok G F (S_If c th el sp) \<longleftrightarrow>
     condition_ok G F c \<and> stmts_ok G F th \<and> (case el of None \<Rightarrow> True | Some ss \<Rightarrow> stmts_ok G F ss)"
| "stmt_ok G F (S_While c body sp) \<longleftrightarrow> condition_ok G F c \<and> stmts_ok G F body"
| "stmt_ok G F (S_Return v sp) \<longleftrightarrow> has_type G F v Ty_Int"
| "stmt_ok G F (S_Print v sp) \<longleftrightarrow> type_of G F v \<noteq> None"
| "stmt_ok G F (S_ExprStmt e sp) \<longleftrightarrow> type_of G F e \<noteq> None"
| "stmts_ok G F [] \<longleftrightarrow> True"
| "stmts_ok G F (s # ss) \<longleftrightarrow> stmt_ok G F s \<and> stmts_ok (bind_stmt s G) F ss"

text \<open>The names a body declares, at any depth; each needs one slot of the frame.\<close>

fun names_of :: "stmt \<Rightarrow> string set"
and names_of_list :: "stmt list \<Rightarrow> string set"
where
  "names_of (S_VarDecl t n init sz sp) = {n}"
| "names_of (S_If c th el sp) =
     names_of_list th \<union> (case el of None \<Rightarrow> {} | Some ss \<Rightarrow> names_of_list ss)"
| "names_of (S_While c body sp) = names_of_list body"
| "names_of (S_Assign target idx v sp) = {}"
| "names_of (S_Return v sp) = {}"
| "names_of (S_Print v sp) = {}"
| "names_of (S_ExprStmt e sp) = {}"
| "names_of_list [] = {}"
| "names_of_list (s # ss) = names_of s \<union> names_of_list ss"

definition frame_slots :: "func \<Rightarrow> nat" where
  "frame_slots f = length (fn_params f) + card (names_of_list (fn_body f) - par_name ` set (fn_params f))"

definition global_symbol :: "global_var \<Rightarrow> symbol" where
  "global_symbol g = declared (gv_name g) (gv_type g) True (gv_array_size g)"

definition global_slots :: "global_var \<Rightarrow> nat" where
  "global_slots g = (case gv_array_size g of None \<Rightarrow> 1 | Some n \<Rightarrow> as_usize n)"

definition top_symbols :: "program \<Rightarrow> symbols" where
  "top_symbols prog =
     map (\<lambda>g. (gv_name g, global_symbol g)) (p_globals prog) @
     map (\<lambda>f. (fn_name f, function_symbol f)) (p_functions prog)"

definition top_env :: "program \<Rightarrow> env" where
  "top_env prog = map_of (top_symbols prog)"

definition function_env :: "program \<Rightarrow> env" where
  "function_env prog = map_of (map (\<lambda>f. (fn_name f, function_symbol f)) (p_functions prog))"

definition bind_param :: "param \<Rightarrow> env \<Rightarrow> env" where
  "bind_param x G = G(par_name x \<mapsto> declared (par_name x) (par_type x) False None)"

definition function_ok :: "program \<Rightarrow> func \<Rightarrow> bool" where
  "function_ok prog f \<longleftrightarrow>
     distinct (map par_name (fn_params f)) \<and>
     (\<forall>x \<in> set (fn_params f). top_env prog (par_name x) = None) \<and>
     stmts_ok (fold bind_param (fn_params f) (top_env prog)) (function_env prog) (fn_body f) \<and>
     frame_slots f \<le> MAX_LOCAL_SLOTS"

definition global_ok :: "program \<Rightarrow> global_var \<Rightarrow> bool" where
  "global_ok prog g \<longleftrightarrow>
     size_ok (gv_array_size g) \<and> value_ok (top_env prog) (function_env prog) (gv_init g) (gv_type g)"

definition has_main :: "program \<Rightarrow> bool" where
  "has_main prog \<longleftrightarrow> (\<exists>f \<in> set (p_functions prog). fn_name f = ''main'' \<and> fn_params f = [])"

definition well_formed :: "program \<Rightarrow> bool" where
  "well_formed prog \<longleftrightarrow>
     distinct (map fst (top_symbols prog)) \<and>
     has_main prog \<and>
     sum_list (map global_slots (p_globals prog)) \<le> MAX_GLOBAL_SLOTS \<and>
     (\<forall>g \<in> set (p_globals prog). global_ok prog g) \<and>
     (\<forall>f \<in> set (p_functions prog). function_ok prog f)"

end
