(* ===== verification/Sema_Props.thy ===== *)
theory Sema_Props
  imports Well_Formed
begin

text \<open>
  The analyser against the specification of \<open>Well_Formed\<close>: every routine either adds no error and
  moves to the state the specification describes, or adds at least one error. A locale states this
  contract once and lifts it to the loops over declarations, parameters and functions.
\<close>

section \<open>Outcomes\<close>

definition grows :: "sema \<Rightarrow> sema \<Rightarrow> bool" where
  "grows s t \<longleftrightarrow> (\<exists>es. sa_errors t = sa_errors s @ es)"

text \<open>\<open>outcome ok s t u\<close>: from \<open>s\<close> the routine went to \<open>t\<close>; to \<open>u\<close> if \<open>ok\<close>, with a new error if not.\<close>

definition outcome :: "bool \<Rightarrow> sema \<Rightarrow> sema \<Rightarrow> sema \<Rightarrow> bool" where
  "outcome ok s t u \<longleftrightarrow>
     (if ok then t = u \<and> sa_errors u = sa_errors s else grows s t \<and> sa_errors t \<noteq> sa_errors s)"

lemma grows_refl [simp]: "grows s s" by (simp add: grows_def)

lemma grows_trans: "grows s t \<Longrightarrow> grows t u \<Longrightarrow> grows s u" by (auto simp: grows_def)

lemma grows_fails: "sa_errors t \<noteq> sa_errors s \<Longrightarrow> grows s t \<Longrightarrow> grows t u \<Longrightarrow> sa_errors u \<noteq> sa_errors s"
  by (auto simp: grows_def)

lemma outcome_grows: "outcome ok s t u \<Longrightarrow> grows s t"
  by (auto simp: outcome_def grows_def split: if_splits)

lemma outcome_trans:
  assumes "outcome a s t u" "a \<Longrightarrow> outcome b u v w" "\<not> a \<Longrightarrow> grows t v"
  shows "outcome (a \<and> b) s v w"
  using assms by (cases a; cases b) (auto simp: outcome_def grows_def)

lemma outcome_cont:
  assumes "outcome a s t u" "a \<Longrightarrow> outcome b u (k u) w" "\<And>v. grows v (k v)"
  shows "outcome (a \<and> b) s (k t) w"
  using assms by (intro outcome_trans [OF assms(1)]) (auto simp: outcome_def)

lemma grows_errors_cong: "sa_errors t = sa_errors t' \<Longrightarrow> grows s t = grows s t'" by (simp add: grows_def)

lemma sema_error_grows [simp]: "grows s (sema_error m sp s)" "sa_errors (sema_error m sp s) \<noteq> sa_errors s"
  by (simp_all add: grows_def sema_error_def)

lemma outcome_error [simp]: "outcome False s (sema_error m sp s) u" by (simp add: outcome_def)

lemma outcome_refl [simp]: "outcome True s s s" by (simp add: outcome_def)

lemma require_simps [simp]: "require True m sp s = s" "require False m sp s = sema_error m sp s"
  by (simp_all add: require_def)

lemma outcome_require: "outcome ok s (require ok m sp s) s"
  by (simp add: outcome_def require_def)

lemma require_grows [simp]: "grows s (require ok m sp s)"
  by (cases ok) (simp_all add: require_def)

lemma lookup_update [simp]:
  "scope_lookup (s\<lparr>sa_errors := es\<rparr>) = scope_lookup s"
  by (rule ext) (simp add: scope_lookup_def)

section \<open>Expressions\<close>

definition G_of :: "sema \<Rightarrow> env" where "G_of s = scope_lookup s"
definition F_of :: "sema \<Rightarrow> env" where "F_of s = map_of (sa_functions s)"

definition types :: "sema \<Rightarrow> ty option \<Rightarrow> ty \<times> sema \<Rightarrow> bool" where
  "types s x r \<longleftrightarrow> outcome (x \<noteq> None) s (snd r) s \<and> (\<forall>t. x = Some t \<longrightarrow> fst r = t)"


lemma require_grows_trans: "grows s t \<Longrightarrow> grows s (require ok m sp t)"
  using grows_trans require_grows by blast

lemma check_grows:
  "grows s t \<Longrightarrow> grows s (snd (check_binary op lt rt sp t))" "grows s t \<Longrightarrow> grows s (snd (check_unary u ty sp t))"
  "grows s t \<Longrightarrow> grows s (snd (check_identifier n sp t))" "grows s t \<Longrightarrow> grows s (check_argument i ty ty' sp t)"
  by (auto simp: check_binary_def check_unary_def check_identifier_def check_argument_def
      intro!: require_grows_trans intro: grows_trans split: unary_op.split option.split)

lemma analyze_expr_step: "grows s (snd (analyze_expr e s))"
  and analyze_args_step: "grows s (analyze_args i as ts sp s)"
proof (induction e s and i as ts sp s rule: analyze_expr_analyze_args.induct)
  case (4 op l r sp s)
  then show ?case by (auto split: prod.split intro!: check_grows intro: grows_trans)
next
  case (8 i a as t ts sp s)
  then show ?case by (auto split: prod.split) (meson grows_trans grows_refl check_grows)
qed (auto split: prod.split option.split intro!: check_grows require_grows_trans)

lemma analyze_expr_grows: "grows s t \<Longrightarrow> grows s (snd (analyze_expr e t))"
  and analyze_args_grows: "grows s t \<Longrightarrow> grows s (analyze_args i as ts sp t)"
  using analyze_expr_step analyze_args_step grows_trans by blast+

lemma types_error [simp]: "types s None (t, sema_error m sp s)"
  by (simp add: types_def)

lemma types_pure [simp]: "types s (Some t) (t, s)"
  by (simp add: types_def outcome_def)

lemma types_bind:
  assumes "types s a r" "\<And>t. a = Some t \<Longrightarrow> types s (f t) (k t s)" "\<And>t u. grows u (snd (k t u))"
  shows "types s (case a of None \<Rightarrow> None | Some t \<Rightarrow> f t) (case r of (t, u) \<Rightarrow> k t u)"
proof (cases r)
  case (Pair t u)
  show ?thesis
  proof (cases a)
    case None
    with assms(1) Pair have "grows s u" "sa_errors u \<noteq> sa_errors s"
      by (auto simp: types_def outcome_def)
    with None Pair assms(3) [of u t] show ?thesis
      by (auto simp: types_def outcome_def dest: grows_fails intro: grows_trans)
  next
    case (Some t')
    with assms(1) Pair have "t = t'" "u = s" by (auto simp: types_def outcome_def)
    with assms(2) Some Pair show ?thesis by simp
  qed
qed

lemma types_require: "types s (if ok then Some t else None) (t, require ok m sp s)"
  by (simp add: types_def require_def)

lemma types_binary:
  "types s (if operand_ok op lt rt then Some (binary_type op) else None) (check_binary op lt rt sp s)"
  unfolding check_binary_def operand_ok_def binary_type_def
  by (cases op) (auto simp: types_def outcome_def require_def sema_error_def grows_def)

lemma types_unary:
  "types s (case u of Un_Neg \<Rightarrow> if fits t Ty_Int then Some Ty_Int else None
                    | Un_Not \<Rightarrow> if truthy t then Some Ty_Bool else None) (check_unary u t sp s)"
  by (cases u) (simp_all only: check_unary_def types_require unary_op.case)

lemma types_identifier:
  "types s (case G_of s n of None \<Rightarrow> None
      | Some y \<Rightarrow> if sym_is_function y \<or> sym_is_array y then None else Some (sym_type y)) (check_identifier n sp s)"
  by (simp add: check_identifier_def G_of_def split: option.split)

lemma types_args: "outcome ok s t s \<Longrightarrow> types s (if ok then Some ty else None) (ty, t)"
  by (cases ok) (simp_all add: types_def)

lemma type_of_cases:
  "(case (x, y) of (Some a, Some b) \<Rightarrow> f a b | _ \<Rightarrow> None) =
   (case x of None \<Rightarrow> None | Some a \<Rightarrow> (case y of None \<Rightarrow> None | Some b \<Rightarrow> f a b))"
  by (simp split: option.split)

lemma types_argument:
  assumes "types s x r" "outcome b s (k s) s" "\<And>u. grows u (k u)"
  shows "outcome ((case x of None \<Rightarrow> False | Some at \<Rightarrow> fits at t) \<and> b) s
    (case r of (at, u) \<Rightarrow> k (check_argument i at t sp u)) s"
proof (cases r)
  case (Pair at u)
  have arg: "outcome (case x of None \<Rightarrow> False | Some at \<Rightarrow> fits at t) s (check_argument i at t sp u) s"
    using assms(1) Pair
    by (cases x) (auto simp: types_def outcome_def check_argument_def require_def sema_error_def grows_def)
  show ?thesis unfolding Pair prod.case by (rule outcome_cont [OF arg]) (simp_all add: assms(2,3))
qed

lemma analyze_binary_types:
  assumes "types s (type_of G F l) (analyze_expr l s)" "types s (type_of G F r) (analyze_expr r s)"
  shows "types s (type_of G F (E_Binary op l r sp)) (analyze_expr (E_Binary op l r sp) s)"
  unfolding type_of.simps analyze_expr.simps type_of_cases
proof (intro types_bind assms types_binary)
  show "grows u (snd (case analyze_expr r u of (rt, s) \<Rightarrow> check_binary op lt rt sp s))" for lt u
    using analyze_expr_step [of u r] by (auto split: prod.split intro: check_grows)
qed (auto intro: check_grows)

lemma args_ok_length: "args_ok G F as ts \<Longrightarrow> length as = length ts"
  by (induction as arbitrary: ts) (auto split: list.splits)

lemma analyze_call_types:
  assumes "\<And>f. F n = Some f \<Longrightarrow> length args = length (sym_param_types f) \<Longrightarrow>
      outcome (args_ok G F args (sym_param_types f)) s (analyze_args 0 args (sym_param_types f) sp s) s"
    and "F = F_of s"
  shows "types s (type_of G F (E_Call n args sp)) (analyze_expr (E_Call n args sp) s)"
proof (cases "F n")
  case None
  with assms(2) show ?thesis by (simp add: F_of_def)
next
  case (Some f)
  then have eq: "map_of (sa_functions s) n = Some f" using assms(2) by (simp add: F_of_def)
  show ?thesis
  proof (cases "length args = length (sym_param_types f)")
    case True
    then show ?thesis using types_args [OF assms(1) [OF Some True]] Some eq by simp
  next
    case False
    then have "\<not> args_ok G F args (sym_param_types f)" by (auto dest: args_ok_length)
    with False Some eq show ?thesis by simp
  qed
qed

lemma analyze_index_types:
  assumes "types s (type_of G F i) (analyze_expr i s)" "G = G_of s"
  shows "types s (type_of G F (E_ArrayIndex n i sp)) (analyze_expr (E_ArrayIndex n i sp) s)"
proof (cases "G n")
  case None
  with assms(2) show ?thesis by (simp add: G_of_def)
next
  case (Some y)
  then have eq: "scope_lookup s n = Some y" using assms(2) by (simp add: G_of_def)
  show ?thesis
  proof (cases "sym_is_array y")
    case True
    show ?thesis
      unfolding type_of.simps analyze_expr.simps Some eq option.case using True
      by (auto intro!: types_bind assms(1) types_require require_grows_trans simp del: if_split)
  next
    case False
    with Some eq show ?thesis by (simp split: option.split)
  qed
qed

lemma analyze_expr_in_types:
  shows "G = G_of s \<Longrightarrow> F = F_of s \<Longrightarrow> types s (type_of G F e) (analyze_expr e s)"
    and "G' = G_of s \<Longrightarrow> F' = F_of s \<Longrightarrow> length as = length ts \<Longrightarrow>
      outcome (args_ok G' F' as ts) s (analyze_args i as ts sp s) s"
proof (induction G F e and G' F' as ts arbitrary: and i sp rule: type_of_args_ok.induct)
  case (4 G F op l r sp)
  then show ?case by (intro analyze_binary_types) simp_all
next
  case (5 G F op e sp)
  then show ?case by (auto intro!: types_bind types_unary check_grows)
next
  case (6 G F n args sp)
  then show ?case by (intro analyze_call_types) auto
next
  case (7 G F n i sp)
  show ?case
  proof (cases "G n")
    case None
    with 7 show ?thesis by (simp add: G_of_def)
  next
    case (Some y)
    with 7 show ?thesis by (intro analyze_index_types) auto
  qed
next
  case (9 G F a as ts)
  then obtain t ts' where ts: "ts = t # ts'" by (cases ts) auto
  with 9 have "types s (type_of G F a) (analyze_expr a s)"
    "outcome (args_ok G F as ts') s (analyze_args (i + 1) as ts' sp s) s" by auto
  from types_argument [where k = "\<lambda>u. analyze_args (i + 1) as ts' sp u", OF this] ts show ?case by (simp add: analyze_args_step)
qed (simp_all add: types_identifier)

lemmas analyze_expr_types = analyze_expr_in_types(1) [OF refl refl]

section \<open>Statements\<close>

lemma same_errors [simp]:
  "sa_errors (push_scope s) = sa_errors s" "sa_errors (pop_scope s) = sa_errors s"
  "sa_errors (snd (scope_define y s)) = sa_errors s"
  by (simp_all add: push_scope_def pop_scope_def scope_define_def split: list.split)

lemma grows_scopes [simp]:
  "grows s (push_scope t) = grows s t" "grows s (pop_scope t) = grows s t"
  "grows (push_scope s) t = grows s t" "grows s (snd (scope_define y t)) = grows s t"
  by (simp_all add: grows_def)

named_theorems growth \<open>routines of the analyser only add errors\<close>

lemmas [growth] = require_grows_trans analyze_expr_grows

lemma validate_grows [growth]: "grows s t \<Longrightarrow> grows s (snd (validate_array_size n sz sp t))"
  by (auto simp: validate_array_size_def intro: grows_trans split: option.split)

lemma local_grows [growth]:
  "grows s t \<Longrightarrow> grows s (check_local_slot_limit sp t)" "grows s t \<Longrightarrow> grows s (add_local_slot n sp t)"
  by (auto simp: check_local_slot_limit_def add_local_slot_def grows_def require_def sema_error_def)

lemma define_grows [growth]: "grows s t \<Longrightarrow> grows s (define_or_error y m sp t)"
  by (simp add: define_or_error_def Let_def require_grows_trans)

lemma value_grows [growth]: "grows s t \<Longrightarrow> grows s (check_value e ty sp t)"
  using analyze_expr_grows [of s t e] by (auto simp: check_value_def split: prod.split intro: growth)

lemma error_grows [growth]: "grows s t \<Longrightarrow> grows s (sema_error m sp t)"
  using grows_trans sema_error_grows by blast

lemma decl_grows [growth]: "grows s t \<Longrightarrow> grows s (analyze_decl ty n init sz sp t)"
  using validate_grows [of s t n sz sp]
  by (auto simp: analyze_decl_def Let_def split: prod.split option.split intro!: growth)

lemma assign_grows [growth]: "grows s t \<Longrightarrow> grows s (analyze_assign target idx v sp t)"
  using analyze_expr_grows [of s t "the idx"]
  by (auto simp: analyze_assign_def Let_def split: prod.split option.split intro!: growth)

lemma condition_grows [growth]: "grows s t \<Longrightarrow> grows s (analyze_condition e sp t)"
  using analyze_expr_grows [of s t e] by (auto simp: analyze_condition_def split: prod.split intro: growth)

lemma analyze_stmt_grows [growth]: "grows s t \<Longrightarrow> grows s (analyze_stmt st t)"
  and analyze_stmts_grows [growth]: "grows s t \<Longrightarrow> grows s (analyze_stmts ss t)"
proof (induction st t and ss t rule: analyze_stmt_analyze_stmts.induct)
  case (3 cond th el sp t)
  then show ?case by (auto simp: Let_def growth split: option.split)
next
  case (5 v sp t)
  then show ?case using analyze_expr_grows [of s t v] by (auto split: prod.split intro: growth)
qed (auto intro: growth)

text \<open>The state after declarations: their symbols, their names and the slots of the new names.\<close>

definition grown :: "symbols \<Rightarrow> string set \<Rightarrow> sema \<Rightarrow> sema" where
  "grown B N s = s\<lparr>sa_scope := B @ sa_scope s, sa_local_names := sa_local_names s \<union> N,
     sa_local_slots := sa_local_slots s + card (N - sa_local_names s)\<rparr>"

definition slots_ok :: "string set \<Rightarrow> sema \<Rightarrow> bool" where
  "slots_ok N s \<longleftrightarrow> sa_local_slots s + card (N - sa_local_names s) \<le> MAX_LOCAL_SLOTS"

fun new_symbols :: "stmt \<Rightarrow> symbols" where
  "new_symbols (S_VarDecl t n init sz sp) = [(n, declared n t False sz)]"
| "new_symbols _ = []"

fun new_symbols_of :: "stmt list \<Rightarrow> symbols" where
  "new_symbols_of [] = []"
| "new_symbols_of (st # ss) = new_symbols_of ss @ new_symbols st"

lemma finite_names [simp]: "finite (names_of st)" "finite (names_of_list ss)"
  by (induction st and ss rule: names_of_names_of_list.induct) (auto split: option.split)

lemma card_split: "finite N \<Longrightarrow> finite N' \<Longrightarrow> card (N - A) + card (N' - (A \<union> N)) = card (N \<union> N' - A)"
  by (subst card_Un_disjoint [symmetric]) (auto intro: arg_cong [where f = card])

lemma grown_grown: "finite N \<Longrightarrow> finite N' \<Longrightarrow> grown B' N' (grown B N s) = grown (B' @ B) (N \<union> N') s"
  using card_split [of N N' "sa_local_names s"] by (simp add: grown_def Un_assoc add.assoc)

lemma slots_ok_Un:
  "finite N \<Longrightarrow> finite N' \<Longrightarrow> slots_ok (N \<union> N') s \<longleftrightarrow> slots_ok N s \<and> slots_ok N' (grown B N s)"
  using card_split [of N N' "sa_local_names s"] by (auto simp: slots_ok_def grown_def)

lemma grown_simps [simp]:
  "grown [] {} s = s" "F_of (grown B N s) = F_of s" "sa_errors (grown B N s) = sa_errors s"
  "slots_ok {} s \<longleftrightarrow> sa_local_slots s \<le> MAX_LOCAL_SLOTS"
  "sa_local_slots (grown B N s) \<le> MAX_LOCAL_SLOTS \<longleftrightarrow> slots_ok N s"
  by (simp_all add: grown_def F_of_def slots_ok_def)

lemma G_of_grown [simp]: "G_of (grown (new_symbols st) N s) = bind_stmt st (G_of s)"
  by (cases st) (auto simp: grown_def G_of_def scope_lookup_def)

lemma scope_simps [simp]:
  "G_of (push_scope s) = G_of s" "F_of (push_scope s) = F_of s" "slots_ok N (push_scope s) = slots_ok N s"
  "pop_scope (grown B N (push_scope s)) = grown [] N s" "G_of (grown [] N s) = G_of s"
  "sa_local_slots (push_scope s) = sa_local_slots s"
  by (auto simp: push_scope_def pop_scope_def grown_def G_of_def F_of_def scope_lookup_def slots_ok_def)

lemma outcome_cong: "outcome a s t u \<Longrightarrow> a = b \<Longrightarrow> (a \<Longrightarrow> u = u') \<Longrightarrow> outcome b s t u'"
  by (auto simp: outcome_def)

lemma outcome_map:
  "outcome a s t u \<Longrightarrow> (\<And>v. sa_errors (h v) = sa_errors v) \<Longrightarrow> outcome a s (h t) (h u)"
  by (auto simp: outcome_def grows_def split: if_splits)

lemma outcome_start: "sa_errors s = sa_errors s' \<Longrightarrow> outcome a s t u \<Longrightarrow> outcome a s' t u"
  by (auto simp: outcome_def grows_def)

lemma outcome_pop: "outcome a (push_scope s) t u \<Longrightarrow> outcome a s (pop_scope t) (pop_scope u)"
  by (rule outcome_start, rule same_errors, rule outcome_map) simp_all

lemma outcome_value: "types s x r \<Longrightarrow>
    outcome (case x of None \<Rightarrow> False | Some t \<Rightarrow> P t) s (case r of (t, u) \<Rightarrow> require (P t) (m t) sp u) s"
  by (cases r; cases x) (auto simp: types_def outcome_def require_def sema_error_def grows_def)

lemma check_value_outcome: "outcome (has_type (G_of s) (F_of s) e t) s (check_value e t sp s) s"
  unfolding has_type_def check_value_def by (intro outcome_value analyze_expr_types)

lemma condition_outcome: "outcome (condition_ok (G_of s) (F_of s) e) s (analyze_condition e sp s) s"
  unfolding condition_ok_def analyze_condition_def by (intro outcome_value analyze_expr_types)

lemma return_outcome: "outcome (has_type (G_of s) (F_of s) e Ty_Int) s (analyze_stmt (S_Return e sp) s) s"
  unfolding has_type_def analyze_stmt.simps by (intro outcome_value analyze_expr_types)

lemma typed_outcome: "outcome (\<exists>t. type_of (G_of s) (F_of s) e = Some t) s (snd (analyze_expr e s)) s"
  using analyze_expr_types [of s e] by (simp add: types_def)

lemma assign_outcome:
  "outcome (assign_ok (G_of s) (F_of s) target idx v) s (analyze_assign target idx v sp s) s"
proof (cases "scope_lookup s target")
  case None
  then show ?thesis by (simp add: assign_ok_def analyze_assign_def G_of_def)
next
  case (Some y)
  then have y: "G_of s target = Some y" by (simp add: G_of_def)
  show ?thesis
  proof (cases "sym_is_function y \<or> (idx = None \<and> sym_is_array y)")
    case True
    with Some y show ?thesis by (auto simp: assign_ok_def analyze_assign_def)
  next
    case False
    note fn = this
    show ?thesis
    proof (cases idx)
      case None
      with fn Some y show ?thesis using check_value_outcome
        by (simp add: assign_ok_def analyze_assign_def)
    next
      case (Some i)
      have "outcome (has_type (G_of s) (F_of s) i Ty_Int) s
          (case analyze_expr i s of (t, u) \<Rightarrow> require (fits t Ty_Int) m sp u) s" for m
        unfolding has_type_def by (intro outcome_value analyze_expr_types)
      then have "outcome (has_type (G_of s) (F_of s) i Ty_Int \<and> sym_is_array y \<and> has_type (G_of s) (F_of s) v (sym_type y)) s
          ((\<lambda>u. check_value v (sym_type y) sp (require (sym_is_array y) m' sp u))
             (case analyze_expr i s of (t, u) \<Rightarrow> require (fits t Ty_Int) m sp u)) s" for m m'
        by (rule outcome_cont) (auto intro!: outcome_cont [OF outcome_require] check_value_outcome growth)
      with fn Some y \<open>scope_lookup s target = Some y\<close> show ?thesis
        by (cases "analyze_expr i s") (auto simp: assign_ok_def analyze_assign_def Let_def conj_left_commute)
    qed
  qed
qed

lemma validate_outcome:
  "outcome (size_ok sz) s (snd (validate_array_size n sz sp s)) s"
  "size_ok sz \<Longrightarrow> fst (validate_array_size n sz sp s) = map_option as_usize sz"
  by (auto simp: validate_array_size_def size_ok_def outcome_def split: option.split)

lemma add_local_outcome:
  "sa_local_slots s \<le> MAX_LOCAL_SLOTS \<Longrightarrow> outcome (slots_ok {n} s) s (add_local_slot n sp s) (grown [] {n} s)"
proof (cases "n \<in> sa_local_names s")
  case True
  then show "sa_local_slots s \<le> MAX_LOCAL_SLOTS \<Longrightarrow> ?thesis"
    by (simp add: add_local_slot_def slots_ok_def grown_def insert_absorb outcome_def)
next
  case False
  then have "card ({n} - sa_local_names s) = 1" by (simp add: insert_Diff_if)
  moreover assume "sa_local_slots s \<le> MAX_LOCAL_SLOTS"
  ultimately show ?thesis
    using False by (auto simp: add_local_slot_def slots_ok_def grown_def check_local_slot_limit_def outcome_def
        require_def sema_error_def grows_def limit_defs usize_max_def min_def)
qed

text \<open>A declaration: its size, its slot, its symbol and its initialiser, each after the ones before.\<close>

lemma define_outcome:
  "scope_lookup s (sym_name y) = None \<Longrightarrow> define_or_error y m sp s = s\<lparr>sa_scope := (sym_name y, y) # sa_scope s\<rparr>"
  by (simp add: define_or_error_def scope_define_def scope_lookup_def Let_def split: option.splits)

lemma decl_step_outcome:
  assumes "sa_local_slots s \<le> MAX_LOCAL_SLOTS" "G_of s n = None"
  shows "outcome (size_ok sz \<and> slots_ok {n} s) s
    (case validate_array_size n sz sp s of (checked, u) \<Rightarrow>
       define_or_error (variable_symbol n t False sz checked) m sp (add_local_slot n sp u))
    (grown [(n, declared n t False sz)] {n} s)"
proof (cases "validate_array_size n sz sp s")
  case (Pair c u)
  show ?thesis
  proof (cases "size_ok sz \<and> slots_ok {n} s")
    case True
    with Pair have u: "u = s" "c = map_option as_usize sz"
      using validate_outcome [where sz = sz and s = s and n = n and sp = sp] by (simp_all add: outcome_def)
    have "add_local_slot n sp s = grown [] {n} s"
      using add_local_outcome [OF assms(1), where n = n and sp = sp] True by (simp add: outcome_def)
    moreover have "scope_lookup (grown [] {n} s) n = None" using assms(2) by (simp flip: G_of_def)
    ultimately show ?thesis
      using True by (simp add: Pair u outcome_def define_outcome variable_symbol_def declared_def)
        (simp add: grown_def)
  next
    case False
    have "grows s u" "size_ok sz \<or> sa_errors u \<noteq> sa_errors s" "size_ok sz \<Longrightarrow> u = s"
      using validate_outcome(1) [where sz = sz and s = s and n = n and sp = sp] Pair by (auto simp: outcome_def split: if_splits)
    moreover have "\<not> slots_ok {n} s \<Longrightarrow> sa_errors (add_local_slot n sp s) \<noteq> sa_errors s"
      using add_local_outcome [OF assms(1), where n = n and sp = sp] by (simp add: outcome_def)
    ultimately have "sa_errors (add_local_slot n sp u) \<noteq> sa_errors s" "grows s (add_local_slot n sp u)"
      using False grows_fails [OF _ _ local_grows(2) [OF grows_refl], of u s n sp] by (auto intro: growth)
    then show ?thesis
      using False grows_fails [OF _ _ define_grows [OF grows_refl]]
      by (auto simp: Pair outcome_def intro: growth)
  qed
qed

lemma decl_outcome:
  assumes "sa_local_slots s \<le> MAX_LOCAL_SLOTS"
  shows "outcome (stmt_ok (G_of s) (F_of s) (S_VarDecl t n init sz sp) \<and> slots_ok {n} s) s
    (analyze_decl t n init sz sp s) (grown [(n, declared n t False sz)] {n} s)"
proof (cases "G_of s n")
  case (Some y)
  then show ?thesis by (simp add: analyze_decl_def flip: G_of_def)
next
  case None
  let ?t = "grown [(n, declared n t False sz)] {n} s"
  let ?init = "\<lambda>u. case init of None \<Rightarrow> u | Some e \<Rightarrow> check_value e t sp u"
  let ?m = "fmt [''Duplicate variable: '', n]"
  have G: "G_of ?t = (G_of s)(n \<mapsto> declared n t False sz)"
    using G_of_grown [of "S_VarDecl t n init sz sp" "{n}" s] by simp
  have "outcome (value_ok (G_of ?t) (F_of ?t) init t) ?t (?init ?t) ?t"
    using check_value_outcome [of ?t] by (cases init) (simp_all add: value_ok_def)
  then have "outcome ((size_ok sz \<and> slots_ok {n} s) \<and> value_ok (G_of ?t) (F_of ?t) init t) s
      (?init (case validate_array_size n sz sp s of (checked, u) \<Rightarrow>
        define_or_error (variable_symbol n t False sz checked) ?m sp (add_local_slot n sp u))) ?t"
    by (intro outcome_cont [OF decl_step_outcome [OF assms None]]) (auto intro: growth split: option.split)
  moreover have "analyze_decl t n init sz sp s =
      ?init (case validate_array_size n sz sp s of (checked, u) \<Rightarrow>
        define_or_error (variable_symbol n t False sz checked) ?m sp (add_local_slot n sp u))"
    using None by (simp add: analyze_decl_def Let_def split: prod.split flip: G_of_def)
  ultimately show ?thesis
    using None by (auto simp: G elim!: outcome_cong)
qed

text \<open>A block: its declarations are gone after it, their slots are not.\<close>

definition block_outcome :: "sema \<Rightarrow> stmt list \<Rightarrow> bool" where
  "block_outcome s ss \<longleftrightarrow>
     outcome (stmts_ok (G_of s) (F_of s) ss \<and> slots_ok (names_of_list ss) s) s
       (pop_scope (analyze_stmts ss (push_scope s))) (grown [] (names_of_list ss) s)"

lemma block_outcomeI:
  assumes "G = G_of s" "F = F_of s"
    and "outcome (stmts_ok G F ss \<and> slots_ok (names_of_list ss) (push_scope s)) (push_scope s)
      (analyze_stmts ss (push_scope s)) (grown (new_symbols_of ss) (names_of_list ss) (push_scope s))"
  shows "block_outcome s ss"
  using outcome_pop [OF assms(3)] by (simp add: block_outcome_def assms)

lemma if_outcome:
  assumes "block_outcome s th" "\<And>ss. el = Some ss \<Longrightarrow> slots_ok (names_of_list th) s \<Longrightarrow>
      block_outcome (grown [] (names_of_list th) s) ss"
    and "sa_local_slots s \<le> MAX_LOCAL_SLOTS"
  shows "outcome (stmt_ok (G_of s) (F_of s) (S_If c th el sp) \<and> slots_ok (names_of (S_If c th el sp)) s) s
    (analyze_stmt (S_If c th el sp) s) (grown [] (names_of (S_If c th el sp)) s)"
proof -
  let ?N = "names_of_list th"
  have "outcome (condition_ok (G_of s) (F_of s) c \<and> stmts_ok (G_of s) (F_of s) th \<and> slots_ok ?N s) s
      (pop_scope (analyze_stmts th (push_scope (analyze_condition c sp s)))) (grown [] ?N s)"
    using assms(1) unfolding block_outcome_def
    by (intro outcome_cont [OF condition_outcome]) (auto intro: growth)
  note th = this
  show ?thesis
  proof (cases el)
    case None
    with th show ?thesis by (simp add: conj_assoc)
  next
    case (Some ss)
    have "outcome ((condition_ok (G_of s) (F_of s) c \<and> stmts_ok (G_of s) (F_of s) th \<and> slots_ok ?N s) \<and>
        stmts_ok (G_of s) (F_of s) ss \<and> slots_ok (names_of_list ss) (grown [] ?N s)) s
        (analyze_stmt (S_If c th el sp) s) (grown [] (names_of_list ss) (grown [] ?N s))"
      using outcome_cont [OF th, where k = "\<lambda>u. pop_scope (analyze_stmts ss (push_scope u))"] assms(2) [OF Some]
      by (simp add: Some block_outcome_def growth)
    then show ?thesis
      by (rule outcome_cong) (auto simp: Some grown_grown slots_ok_Un [where B = "[]"])
  qed
qed

lemma while_outcome:
  assumes "block_outcome s body"
  shows "outcome (stmt_ok (G_of s) (F_of s) (S_While c body sp) \<and> slots_ok (names_of_list body) s) s
    (analyze_stmt (S_While c body sp) s) (grown [] (names_of_list body) s)"
proof -
  have "outcome (condition_ok (G_of s) (F_of s) c \<and> stmts_ok (G_of s) (F_of s) body \<and> slots_ok (names_of_list body) s) s
      (pop_scope (analyze_stmts body (push_scope (analyze_condition c sp s)))) (grown [] (names_of_list body) s)"
    using assms unfolding block_outcome_def
    by (intro outcome_cont [OF condition_outcome]) (auto intro: growth)
  then show ?thesis by (simp add: conj_assoc)
qed

lemma cons_outcome:
  assumes "outcome (stmt_ok (G_of s) (F_of s) st \<and> slots_ok (names_of st) s) s (analyze_stmt st s)
      (grown (new_symbols st) (names_of st) s)"
    and "slots_ok (names_of st) s \<Longrightarrow>
      outcome (stmts_ok (bind_stmt st (G_of s)) (F_of s) ss \<and>
          slots_ok (names_of_list ss) (grown (new_symbols st) (names_of st) s))
        (grown (new_symbols st) (names_of st) s)
        (analyze_stmts ss (grown (new_symbols st) (names_of st) s))
        (grown (new_symbols_of ss) (names_of_list ss) (grown (new_symbols st) (names_of st) s))"
  shows "outcome (stmts_ok (G_of s) (F_of s) (st # ss) \<and> slots_ok (names_of_list (st # ss)) s) s
    (analyze_stmts (st # ss) s) (grown (new_symbols_of (st # ss)) (names_of_list (st # ss)) s)"
proof -
  have "outcome ((stmt_ok (G_of s) (F_of s) st \<and> slots_ok (names_of st) s) \<and>
        stmts_ok (bind_stmt st (G_of s)) (F_of s) ss \<and>
          slots_ok (names_of_list ss) (grown (new_symbols st) (names_of st) s)) s
      (analyze_stmts (st # ss) s)
      (grown (new_symbols_of ss) (names_of_list ss) (grown (new_symbols st) (names_of st) s))"
    using outcome_cont [OF assms(1), where k = "analyze_stmts ss"] assms(2) by (simp add: growth)
  then show ?thesis
    by (rule outcome_cong) (auto simp: grown_grown slots_ok_Un [where B = "new_symbols st"])
qed

lemma analyze_stmt_outcome_in:
  shows "G = G_of s \<Longrightarrow> F = F_of s \<Longrightarrow> sa_local_slots s \<le> MAX_LOCAL_SLOTS \<Longrightarrow>
      outcome (stmt_ok G F st \<and> slots_ok (names_of st) s) s (analyze_stmt st s)
        (grown (new_symbols st) (names_of st) s)"
    and "G' = G_of s' \<Longrightarrow> F' = F_of s' \<Longrightarrow> sa_local_slots s' \<le> MAX_LOCAL_SLOTS \<Longrightarrow>
      outcome (stmts_ok G' F' ss \<and> slots_ok (names_of_list ss) s') s' (analyze_stmts ss s')
        (grown (new_symbols_of ss) (names_of_list ss) s')"
proof (induction G F st and G' F' ss arbitrary: s and s' rule: stmt_ok_stmts_ok.induct)
  case (1 G F t n init sz sp)
  then show ?case using decl_outcome by simp
next
  case (2 G F target idx v sp)
  then show ?case using assign_outcome by simp
next
  case (3 G F c th el sp)
  have "block_outcome s th"
    by (rule block_outcomeI [OF 3(3,4)], rule 3(1)) (simp_all add: 3(3-5))
  moreover have "block_outcome (grown [] (names_of_list th) s) ss"
    if "el = Some ss" "slots_ok (names_of_list th) s" for ss
    by (rule block_outcomeI [of G _ F], rule_tac [3] 3(2) [OF that(1)]) (simp_all add: 3(3,4) that(2))
  ultimately show ?case
    using if_outcome [of s th el c sp] 3(3-5) by simp
next
  case (4 G F c body sp)
  have "block_outcome s body"
    by (rule block_outcomeI [OF 4(2,3)], rule 4(1)) (simp_all add: 4(2-4))
  then show ?case using while_outcome [of s body c sp] 4(2,3) by simp
next
  case (5 G F v sp)
  then show ?case using return_outcome by simp
next
  case (9 G F st ss)
  have "outcome (stmts_ok (G_of s') (F_of s') (st # ss) \<and> slots_ok (names_of_list (st # ss)) s') s'
    (analyze_stmts (st # ss) s') (grown (new_symbols_of (st # ss)) (names_of_list (st # ss)) s')"
    by (rule cons_outcome; (rule 9(1) [unfolded 9(3,4)] | rule 9(2) [unfolded 9(3,4)]))
      (simp_all add: 9(5))
  then show ?case by (simp only: 9(3,4))
qed (simp_all add: typed_outcome)

lemmas analyze_stmts_outcome = analyze_stmt_outcome_in(2) [OF refl refl]

section \<open>Loops over declarations\<close>

text \<open>
  The interface between a routine of the analyser and the loop that calls it: on an item that is
  \<open>ok\<close> it goes to a known state and reports nothing, on any other item it reports something.
\<close>

fun all_ok :: "('a \<Rightarrow> 's \<Rightarrow> bool) \<Rightarrow> ('a \<Rightarrow> 's \<Rightarrow> 's) \<Rightarrow> 'a list \<Rightarrow> 's \<Rightarrow> bool" where
  "all_ok ok goto [] s \<longleftrightarrow> True"
| "all_ok ok goto (x # xs) s \<longleftrightarrow> ok x s \<and> all_ok ok goto xs (goto x s)"

locale checker =
  fixes run :: "'a \<Rightarrow> 's \<Rightarrow> 's"
    and errs :: "'s \<Rightarrow> semantic_error list"
    and ok :: "'a \<Rightarrow> 's \<Rightarrow> bool"
    and goto :: "'a \<Rightarrow> 's \<Rightarrow> 's"
    and inv :: "'s \<Rightarrow> bool"
  assumes run_grows: "\<exists>es. errs (run x s) = errs s @ es"
    and run_ok: "inv s \<Longrightarrow> ok x s \<Longrightarrow> run x s = goto x s \<and> errs (goto x s) = errs s \<and> inv (goto x s)"
    and run_fails: "inv s \<Longrightarrow> \<not> ok x s \<Longrightarrow> errs (run x s) \<noteq> errs s"
begin

lemma loop_grows: "\<exists>es. errs (fold run xs s) = errs s @ es"
proof (induction xs arbitrary: s)
  case (Cons x xs)
  from run_grows [of x s] Cons [of "run x s"] show ?case by auto
qed simp

lemma loop_ok:
  "inv s \<Longrightarrow> all_ok ok goto xs s \<Longrightarrow>
   fold run xs s = fold goto xs s \<and> errs (fold goto xs s) = errs s \<and> inv (fold goto xs s)"
  by (induction xs arbitrary: s) (simp_all add: run_ok)

lemma loop_fails: "inv s \<Longrightarrow> \<not> all_ok ok goto xs s \<Longrightarrow> errs (fold run xs s) \<noteq> errs s"
proof (induction xs arbitrary: s)
  case (Cons x xs)
  show ?case
  proof (cases "ok x s")
    case True
    with Cons run_ok [OF Cons.prems(1) True] show ?thesis by fastforce
  next
    case False
    obtain es fs where "errs (run x s) = errs s @ es" "errs (fold run xs (run x s)) = errs (run x s) @ fs"
      using run_grows loop_grows by metis
    with run_fails [OF Cons.prems(1) False] show ?thesis by auto
  qed
qed simp

end

text \<open>Items that need a fresh key and then occupy it.\<close>

lemma all_ok_fresh:
  assumes "\<And>x s. env (goto x s) = (env s)(key x \<mapsto> val x)"
  shows "all_ok (\<lambda>x s. env s (key x) = None) goto xs s \<longleftrightarrow>
    distinct (map key xs) \<and> (\<forall>x \<in> set xs. env s (key x) = None)"
proof (induction xs arbitrary: s)
  case (Cons a xs)
  have "(\<forall>x \<in> set xs. env (goto a s) (key x) = None) \<longleftrightarrow>
      key a \<notin> key ` set xs \<and> (\<forall>x \<in> set xs. env s (key x) = None)"
    unfolding assms by (simp add: image_iff) metis
  with Cons show ?case by auto
qed simp

text \<open>Parameters.\<close>

definition add_symbol :: "string \<Rightarrow> symbol \<Rightarrow> sema \<Rightarrow> sema" where
  "add_symbol n y s = s\<lparr>sa_scope := (n, y) # sa_scope s\<rparr>"

lemma add_symbol_simps [simp]:
  "sa_errors (add_symbol n y s) = sa_errors s" "G_of (add_symbol n y s) = (G_of s)(n \<mapsto> y)"
  "F_of (add_symbol n y s) = F_of s" "sa_parents (add_symbol n y s) = sa_parents s"
  "sa_scope (add_symbol n y s) = (n, y) # sa_scope s" "sa_functions (add_symbol n y s) = sa_functions s"
  by (auto simp: add_symbol_def G_of_def F_of_def scope_lookup_def)

lemma grown_nil: "grown [(n, y)] {} s = add_symbol n y s"
  by (simp add: grown_def add_symbol_def)

definition enter_param :: "param \<Rightarrow> sema \<Rightarrow> sema" where
  "enter_param x = add_symbol (par_name x) (declared (par_name x) (par_type x) False None)"

lemma declared_name [simp]: "sym_name (declared n t g sz) = n" "sym_name (variable_symbol n t g sz c) = n"
  by (simp_all add: declared_def variable_symbol_def)

lemma param_outcome:
  "outcome (G_of s (par_name x) = None) s (analyze_param x s) (enter_param x s)"
  by (auto simp: analyze_param_def enter_param_def outcome_def G_of_def define_outcome add_symbol_def declared_def)

interpretation params: checker analyze_param sa_errors "\<lambda>x s. G_of s (par_name x) = None" enter_param "\<lambda>_. True"
  using param_outcome outcome_grows
  by unfold_locales (fastforce simp: outcome_def grows_def)+

lemma params_all_ok:
  "all_ok (\<lambda>x s. G_of s (par_name x) = None) enter_param xs s \<longleftrightarrow>
   distinct (map par_name xs) \<and> (\<forall>x \<in> set xs. G_of s (par_name x) = None)"
  by (rule all_ok_fresh [where val = "\<lambda>x. declared (par_name x) (par_type x) False None"])
    (simp add: enter_param_def fun_eq_iff)

lemma params_env:
  "G_of (fold enter_param xs s) = fold bind_param xs (G_of s)" "F_of (fold enter_param xs s) = F_of s"
  by (induction xs arbitrary: s) (simp_all add: enter_param_def bind_param_def)

lemma params_grown: "\<exists>B. fold enter_param xs s = grown B {} s"
proof (induction xs arbitrary: s)
  case Nil
  show ?case by (rule exI [of _ "[]"]) simp
next
  case (Cons x xs)
  from Cons [of "enter_param x s"] obtain B where
    "fold enter_param xs (enter_param x s) = grown B {} (enter_param x s)" by blast
  then have "fold enter_param (x # xs) s =
      grown (B @ [(par_name x, declared (par_name x) (par_type x) False None)]) {} s"
    by (simp add: enter_param_def grown_grown flip: grown_nil)
  then show ?case ..
qed

text \<open>Function bodies.\<close>

definition frame_ok :: "func \<Rightarrow> sema \<Rightarrow> bool" where
  "frame_ok f s \<longleftrightarrow>
     distinct (map par_name (fn_params f)) \<and> (\<forall>x \<in> set (fn_params f). G_of s (par_name x) = None) \<and>
     stmts_ok (fold bind_param (fn_params f) (G_of s)) (F_of s) (fn_body f) \<and>
     frame_slots f \<le> MAX_LOCAL_SLOTS"

definition leave_function :: "func \<Rightarrow> sema \<Rightarrow> sema" where
  "leave_function f s = s\<lparr>sa_current_function := None,
     sa_local_names := par_name ` set (fn_params f) \<union> names_of_list (fn_body f),
     sa_local_slots := frame_slots f\<rparr>"

lemma limit_outcome:
  "outcome (sa_local_slots s \<le> MAX_LOCAL_SLOTS) s (check_local_slot_limit sp s) s"
  by (simp add: check_local_slot_limit_def outcome_require)

lemma params_outcome:
  "outcome (distinct (map par_name xs) \<and> (\<forall>x \<in> set xs. G_of s (par_name x) = None)) s
    (fold analyze_param xs s) (fold enter_param xs s)"
  using params.loop_ok [where s = s and xs = xs] params.loop_fails [where s = s and xs = xs]
    params.loop_grows [where s = s and xs = xs]
  by (auto simp: outcome_def grows_def params_all_ok)

lemma fold_param_grows [growth]: "grows s t \<Longrightarrow> grows s (fold analyze_param xs t)"
  using params.loop_grows [where s = t and xs = xs] by (auto simp: grows_def)

lemma function_outcome: "outcome (frame_ok f s) s (analyze_function f s) (leave_function f s)"
proof -
  let ?ps = "fn_params f" and ?N = "names_of_list (fn_body f)"
  let ?s = "s\<lparr>sa_current_function := Some (fn_name f), sa_local_names := par_name ` set ?ps,
      sa_local_slots := length ?ps\<rparr>"
  let ?p = "push_scope ?s"
  let ?body = "\<lambda>u. (pop_scope (analyze_stmts (fn_body f) u))\<lparr>sa_current_function := None\<rparr>"
  have env: "G_of ?p = G_of s" "F_of ?p = F_of s"
    by (auto simp: G_of_def F_of_def scope_lookup_def push_scope_def)
  obtain B where B: "fold enter_param ?ps ?p = grown B {} ?p" using params_grown by blast
  let ?q = "grown B {} ?p"
  let ?params = "distinct (map par_name ?ps) \<and> (\<forall>x \<in> set ?ps. G_of s (par_name x) = None)"
    and ?stmts = "stmts_ok (fold bind_param ?ps (G_of s)) (F_of s) (fn_body f) \<and> slots_ok ?N ?q"
  have params: "outcome ?params ?s (fold analyze_param ?ps ?p) ?q"
    using outcome_start [OF _ params_outcome [of ?ps ?p], of ?s] env B by simp
  have stmts: "outcome ?stmts ?q (?body ?q)
      ((pop_scope (grown (new_symbols_of (fn_body f)) ?N ?q))\<lparr>sa_current_function := None\<rparr>)"
    if "length ?ps \<le> MAX_LOCAL_SLOTS"
  proof -
    have "G_of ?q = fold bind_param ?ps (G_of s)" "F_of ?q = F_of s"
      using params_env [of ?ps ?p] B env by simp_all
    moreover have "sa_local_slots ?q \<le> MAX_LOCAL_SLOTS"
      using that by (simp add: grown_def push_scope_def)
    ultimately show ?thesis
      using analyze_stmts_outcome [of ?q "fn_body f"] by (intro outcome_map [where h = "\<lambda>u. (pop_scope u)\<lparr>sa_current_function := None\<rparr>"]) simp_all
  qed
  have limit: "outcome (length ?ps \<le> MAX_LOCAL_SLOTS) ?s (check_local_slot_limit (fn_span f) ?s) ?s"
    using limit_outcome [of ?s "fn_span f"] by simp
  have start: "outcome (length ?ps \<le> MAX_LOCAL_SLOTS \<and> ?params) ?s
      (fold analyze_param ?ps (push_scope (check_local_slot_limit (fn_span f) ?s))) ?q"
    by (rule outcome_cont [OF limit, where k = "\<lambda>u. fold analyze_param ?ps (push_scope u)", OF params])
      (simp add: growth)
  have "outcome ((length ?ps \<le> MAX_LOCAL_SLOTS \<and> ?params) \<and> ?stmts) ?s
      (?body (fold analyze_param ?ps (push_scope (check_local_slot_limit (fn_span f) ?s))))
      ((pop_scope (grown (new_symbols_of (fn_body f)) ?N ?q))\<lparr>sa_current_function := None\<rparr>)"
  proof (rule outcome_cont [OF start, where k = ?body])
    show "grows v (?body v)" for v
      using analyze_stmts_grows [OF grows_refl, of v "fn_body f"] by (auto simp: grows_def)
  qed (simp add: stmts)
  then have "outcome ((length ?ps \<le> MAX_LOCAL_SLOTS \<and> ?params) \<and> ?stmts) s (analyze_function f s)
      ((pop_scope (grown (new_symbols_of (fn_body f)) ?N ?q))\<lparr>sa_current_function := None\<rparr>)"
    unfolding analyze_function_def Let_def by (rule outcome_start [rotated]) simp
  moreover have "(pop_scope (grown C ?N ?q))\<lparr>sa_current_function := None\<rparr> = leave_function f s" for C
    by (simp add: grown_grown leave_function_def frame_slots_def) (simp add: grown_def)
  moreover have "slots_ok ?N ?q \<longleftrightarrow> frame_slots f \<le> MAX_LOCAL_SLOTS"
    by (simp add: slots_ok_def grown_def push_scope_def frame_slots_def)
  ultimately show ?thesis
    by (auto simp: frame_ok_def frame_slots_def elim!: outcome_cong)
qed

interpretation bodies: checker analyze_function sa_errors frame_ok leave_function "\<lambda>_. True"
  using function_outcome outcome_grows
  by unfold_locales (fastforce simp: outcome_def grows_def)+

lemma leave_function_env [simp]:
  "G_of (leave_function f s) = G_of s" "F_of (leave_function f s) = F_of s"
  by (auto simp: leave_function_def G_of_def F_of_def scope_lookup_def)

text \<open>Items whose condition does not change along the loop.\<close>

lemma all_ok_stable:
  assumes "\<And>x y s. ok x (goto y s) \<longleftrightarrow> ok x s"
  shows "all_ok ok goto xs s \<longleftrightarrow> (\<forall>x \<in> set xs. ok x s)"
  by (induction xs arbitrary: s) (auto simp: assms)

lemma bodies_all_ok: "all_ok frame_ok leave_function fs s \<longleftrightarrow> (\<forall>f \<in> set fs. frame_ok f s)"
  by (rule all_ok_stable) (simp add: frame_ok_def)

text \<open>Initialisers of globals.\<close>

definition init_ok :: "global_var \<Rightarrow> sema \<Rightarrow> bool" where
  "init_ok g s \<longleftrightarrow> value_ok (G_of s) (F_of s) (gv_init g) (gv_type g)"

lemma init_outcome: "outcome (init_ok g s) s (check_global_init g s) s"
  using check_value_outcome [of s] by (cases "gv_init g") (simp_all add: init_ok_def value_ok_def check_global_init_def)

interpretation inits: checker check_global_init sa_errors init_ok "\<lambda>_ s. s" "\<lambda>_. True"
  using init_outcome outcome_grows
  by unfold_locales (fastforce simp: outcome_def grows_def)+

lemma inits_all_ok: "all_ok init_ok (\<lambda>_ s. s) gs s \<longleftrightarrow> (\<forall>g \<in> set gs. init_ok g s)"
  by (rule all_ok_stable) simp

lemma fold_id: "fold (\<lambda>_ s. s) xs s = s"
  by (induction xs) simp_all

text \<open>Names of functions.\<close>

definition name_free :: "func \<Rightarrow> sema \<Rightarrow> bool" where
  "name_free f s \<longleftrightarrow> F_of s (fn_name f) = None \<and> map_of (sa_scope s) (fn_name f) = None"

definition enter_function_name :: "func \<Rightarrow> sema \<Rightarrow> sema" where
  "enter_function_name f s =
     add_symbol (fn_name f) (function_symbol f)
       (s\<lparr>sa_functions := (fn_name f, function_symbol f) # sa_functions s\<rparr>)"

lemma function_symbol_name [simp]: "sym_name (function_symbol f) = fn_name f"
  by (simp add: function_symbol_def)

lemma define_fresh:
  "outcome (map_of (sa_scope s) (sym_name y) = None) s (define_or_error y m sp s) (add_symbol (sym_name y) y s)"
  by (auto simp: define_or_error_def scope_define_def outcome_def add_symbol_def)

lemma name_outcome: "outcome (name_free f s) s (declare_function f s) (enter_function_name f s)"
proof (cases "F_of s (fn_name f)")
  case None
  let ?s = "s\<lparr>sa_functions := (fn_name f, function_symbol f) # sa_functions s\<rparr>"
  have "outcome (map_of (sa_scope ?s) (fn_name f) = None) ?s
      (define_or_error (function_symbol f) m sp ?s) (add_symbol (fn_name f) (function_symbol f) ?s)" for m sp
    using define_fresh [of ?s "function_symbol f"] by simp
  from outcome_start [OF _ this, of s] None show ?thesis
    by (simp add: name_free_def declare_function_def enter_function_name_def F_of_def)
qed (simp add: name_free_def declare_function_def F_of_def)

interpretation names: checker declare_function sa_errors name_free enter_function_name "\<lambda>_. True"
  using name_outcome outcome_grows
  by unfold_locales (fastforce simp: outcome_def grows_def)+

text \<open>Globals, with the running count of slots.\<close>

definition global_free :: "global_var \<Rightarrow> usize \<times> sema \<Rightarrow> bool" where
  "global_free g c \<longleftrightarrow>
     size_ok (gv_array_size g) \<and> fst c + global_slots g \<le> MAX_GLOBAL_SLOTS \<and>
     map_of (sa_scope (snd c)) (gv_name g) = None"

definition enter_global :: "global_var \<Rightarrow> usize \<times> sema \<Rightarrow> usize \<times> sema" where
  "enter_global g c = (fst c + global_slots g, add_symbol (gv_name g) (global_symbol g) (snd c))"

lemma add_slots_outcome:
  assumes "n \<le> MAX_GLOBAL_SLOTS"
  shows "outcome (n + k \<le> MAX_GLOBAL_SLOTS) s (snd (add_global_slots name k sp n s)) s"
    and "n + k \<le> MAX_GLOBAL_SLOTS \<Longrightarrow> fst (add_global_slots name k sp n s) = n + k"
  using assms by (auto simp: add_global_slots_def outcome_def require_def checked_add_def limit_defs split: option.split)

lemma add_slots_grows: "grows s t \<Longrightarrow> grows s (snd (add_global_slots name k sp n t))"
  by (auto simp: add_global_slots_def intro: growth split: option.split)

definition declared_slots :: "global_var \<Rightarrow> usize option \<Rightarrow> usize" where
  "declared_slots g checked =
     (if gv_array_size g \<noteq> None then (case checked of None \<Rightarrow> 0 | Some n \<Rightarrow> n) else 1)"

lemma pair_steps:
  "global_free g (n, s) \<longleftrightarrow> size_ok (gv_array_size g) \<and> n + global_slots g \<le> MAX_GLOBAL_SLOTS \<and>
     map_of (sa_scope s) (gv_name g) = None"
  "enter_global g (n, s) = (n + global_slots g, add_symbol (gv_name g) (global_symbol g) s)"
  by (simp_all add: global_free_def enter_global_def)

lemma global_outcome:
  assumes "fst c \<le> MAX_GLOBAL_SLOTS"
  shows "outcome (global_free g c) (snd c) (snd (declare_global g c)) (snd (enter_global g c)) \<and>
    (global_free g c \<longrightarrow> fst (declare_global g c) = fst (enter_global g c))"
proof -
  obtain n s where c: "c = (n, s)" by (cases c)
  obtain ch u where v: "validate_array_size (gv_name g) (gv_array_size g) (gv_span g) s = (ch, u)" by fastforce
  obtain m w where a: "add_global_slots (gv_name g) (declared_slots g ch) (gv_span g) n u = (m, w)" by fastforce
  let ?y = "variable_symbol (gv_name g) (gv_type g) True (gv_array_size g) ch"
    and ?msg = "fmt [''Duplicate global variable: '', gv_name g]"
  have run: "declare_global g (n, s) = (m, define_or_error ?y ?msg (gv_span g) w)"
    using v a by (simp add: declare_global_def declared_slots_def)
  have valid: "outcome (size_ok (gv_array_size g)) s u s"
    using validate_outcome(1) [where s = s and sz = "gv_array_size g"] v by (metis snd_conv)
  have slots: "outcome (n + declared_slots g ch \<le> MAX_GLOBAL_SLOTS) u w u"
    "n + declared_slots g ch \<le> MAX_GLOBAL_SLOTS \<Longrightarrow> m = n + declared_slots g ch"
    using add_slots_outcome [where n = n and k = "declared_slots g ch" and s = u and name = "gv_name g" and sp = "gv_span g"]
      a assms c by simp_all
  have fresh: "outcome (map_of (sa_scope w) (gv_name g) = None) w (define_or_error ?y ?msg (gv_span g) w)
      (add_symbol (gv_name g) ?y w)"
    using define_fresh [of w ?y] by simp
  show ?thesis
  proof (cases "size_ok (gv_array_size g)")
    case True
    then have "u = s" "ch = map_option as_usize (gv_array_size g)"
      using valid validate_outcome(2) [OF True, where s = s and n = "gv_name g" and sp = "gv_span g"] v by (simp_all add: outcome_def)
    moreover from this have "declared_slots g ch = global_slots g" "?y = global_symbol g"
      by (auto simp: declared_slots_def global_slots_def global_symbol_def declared_def split: option.split)
    ultimately show ?thesis
      using True slots fresh grows_fails [OF _ outcome_grows [OF slots(1)] define_grows [OF grows_refl]]
      unfolding c run pair_steps fst_conv snd_conv
      by (cases "n + global_slots g \<le> MAX_GLOBAL_SLOTS") (auto simp: outcome_def intro: growth)
  next
    case False
    then have "grows s u" "sa_errors u \<noteq> sa_errors s" using valid by (simp_all add: outcome_def)
    moreover have "grows u (define_or_error ?y ?msg (gv_span g) w)"
      using slots(1) by (auto intro: growth dest: outcome_grows)
    ultimately show ?thesis
      using False unfolding c run pair_steps fst_conv snd_conv
      by (auto simp: outcome_def dest: grows_fails intro: grows_trans)
  qed
qed

lemma declare_global_grows: "grows (snd c) (snd (declare_global g c))"
proof -
  obtain ch u where v: "validate_array_size (gv_name g) (gv_array_size g) (gv_span g) (snd c) = (ch, u)" by fastforce
  obtain m w where a: "add_global_slots (gv_name g) (declared_slots g ch) (gv_span g) (fst c) u = (m, w)" by fastforce
  have "grows (snd c) u" using validate_grows [OF grows_refl] v by (metis snd_conv)
  then have "grows (snd c) w" using add_slots_grows a by (metis snd_conv)
  with v a show ?thesis by (simp add: declare_global_def declared_slots_def growth)
qed

interpretation globals: checker declare_global "\<lambda>c. sa_errors (snd c)" global_free enter_global
  "\<lambda>c. fst c \<le> MAX_GLOBAL_SLOTS"
proof
  show "\<exists>es. sa_errors (snd (declare_global g c)) = sa_errors (snd c) @ es" for g c
    using declare_global_grows by (simp add: grows_def)
  show "declare_global g c = enter_global g c \<and> sa_errors (snd (enter_global g c)) = sa_errors (snd c) \<and>
      fst (enter_global g c) \<le> MAX_GLOBAL_SLOTS"
    if "fst c \<le> MAX_GLOBAL_SLOTS" "global_free g c" for g c
    using global_outcome [OF that(1), of g] that(2) by (simp add: outcome_def prod_eq_iff) (simp add: global_free_def enter_global_def)
  show "sa_errors (snd (declare_global g c)) \<noteq> sa_errors (snd c)"
    if "fst c \<le> MAX_GLOBAL_SLOTS" "\<not> global_free g c" for g c
    using global_outcome [OF that(1), of g] that(2) by (simp add: outcome_def)
qed

section \<open>The whole analysis\<close>

lemma scope_of_symbols: "map_of (rev xs @ ys) k = None \<longleftrightarrow> map_of xs k = None \<and> map_of ys k = None"
  by (auto simp: map_of_eq_None_iff)

lemma globals_state:
  "fold enter_global gs (n, s) =
     (n + sum_list (map global_slots gs),
      s\<lparr>sa_scope := rev (map (\<lambda>g. (gv_name g, global_symbol g)) gs) @ sa_scope s\<rparr>)"
  by (induction gs arbitrary: n s) (simp_all add: enter_global_def add_symbol_def add.assoc)

lemma globals_all_ok:
  assumes "n \<le> MAX_GLOBAL_SLOTS"
  shows "all_ok global_free enter_global gs (n, s) \<longleftrightarrow>
   (\<forall>g \<in> set gs. size_ok (gv_array_size g)) \<and> n + sum_list (map global_slots gs) \<le> MAX_GLOBAL_SLOTS \<and>
   distinct (map gv_name gs) \<and> (\<forall>g \<in> set gs. map_of (sa_scope s) (gv_name g) = None)"
  using assms
proof (induction gs arbitrary: n s)
  case (Cons g gs)
  have fresh: "(\<forall>x \<in> set gs. map_of (sa_scope (add_symbol (gv_name g) y s)) (gv_name x) = None) \<longleftrightarrow>
      gv_name g \<notin> gv_name ` set gs \<and> (\<forall>x \<in> set gs. map_of (sa_scope s) (gv_name x) = None)" for y
    by (simp add: image_iff) metis
  show ?case
  proof (cases "n + global_slots g \<le> MAX_GLOBAL_SLOTS")
    case True
    from Cons.IH [OF this, of "add_symbol (gv_name g) (global_symbol g) s"] show ?thesis
      using True by (auto simp: fresh pair_steps add.assoc simp del: add_symbol_simps)
  qed (simp add: pair_steps)
qed simp

lemma names_state:
  "fold enter_function_name fs s =
     s\<lparr>sa_scope := rev (map (\<lambda>f. (fn_name f, function_symbol f)) fs) @ sa_scope s,
       sa_functions := rev (map (\<lambda>f. (fn_name f, function_symbol f)) fs) @ sa_functions s\<rparr>"
  by (induction fs arbitrary: s) (simp_all add: enter_function_name_def add_symbol_def)

lemma names_all_ok:
  "all_ok name_free enter_function_name fs s \<longleftrightarrow>
   distinct (map fn_name fs) \<and> (\<forall>f \<in> set fs. F_of s (fn_name f) = None \<and> map_of (sa_scope s) (fn_name f) = None)"
proof (induction fs arbitrary: s)
  case (Cons f fs)
  let ?t = "enter_function_name f s"
  have "(\<forall>x \<in> set fs. F_of ?t (fn_name x) = None \<and> map_of (sa_scope ?t) (fn_name x) = None) \<longleftrightarrow>
      fn_name f \<notin> fn_name ` set fs \<and>
      (\<forall>x \<in> set fs. F_of s (fn_name x) = None \<and> map_of (sa_scope s) (fn_name x) = None)"
    by (simp add: enter_function_name_def F_of_def image_iff) metis
  with Cons show ?case by (auto simp: name_free_def)
qed simp

definition main_free :: "sema \<Rightarrow> bool" where
  "main_free s \<longleftrightarrow> (case F_of s ''main'' of None \<Rightarrow> False | Some y \<Rightarrow> sym_param_types y = [])"

lemma main_outcome: "outcome (main_free s) s (check_main s) s"
  unfolding main_free_def check_main_def F_of_def by (auto split: option.split intro: outcome_require)

text \<open>The states between the passes, for a program without errors.\<close>

definition after_globals :: "program \<Rightarrow> sema" where
  "after_globals prog = snd (fold enter_global (p_globals prog) (0, SemanticAnalyzer_new))"

definition after_names :: "program \<Rightarrow> sema" where
  "after_names prog = fold enter_function_name (p_functions prog) (after_globals prog)"

lemma loop_outcome:
  assumes "checker run sa_errors ok goto (\<lambda>_. True)"
  shows "outcome (all_ok ok goto xs s) s (fold run xs s) (fold goto xs s)"
  using checker.loop_ok [OF assms] checker.loop_fails [OF assms] checker.loop_grows [OF assms, of xs s]
  by (auto simp: outcome_def grows_def)

lemma fold_grows [growth]:
  "grows s t \<Longrightarrow> grows s (fold declare_function fs t)" "grows s t \<Longrightarrow> grows s (fold check_global_init gs t)"
  "grows s t \<Longrightarrow> grows s (fold analyze_function fs t)" "grows s t \<Longrightarrow> grows s (check_main t)"
  using names.loop_grows [of fs t] inits.loop_grows [of gs t] bodies.loop_grows [of fs t]
    outcome_grows [OF main_outcome [of t]]
  by (auto simp: grows_def)

lemma globals_outcome:
  "outcome (all_ok global_free enter_global gs (0, s)) s (snd (fold declare_global gs (0, s))) (snd (fold enter_global gs (0, s)))"
  using globals.loop_ok [of "(0, s)" gs] globals.loop_fails [of "(0, s)" gs] globals.loop_grows [of gs "(0, s)"]
  by (auto simp: outcome_def grows_def)

definition passes :: "program \<Rightarrow> bool" where
  "passes prog \<longleftrightarrow>
     all_ok global_free enter_global (p_globals prog) (0, SemanticAnalyzer_new) \<and>
     all_ok name_free enter_function_name (p_functions prog) (after_globals prog) \<and>
     (\<forall>g \<in> set (p_globals prog). init_ok g (after_names prog)) \<and> main_free (after_names prog) \<and>
     (\<forall>f \<in> set (p_functions prog). frame_ok f (after_names prog))"

lemma analyze_passes: "analyze prog = Inr () \<longleftrightarrow> passes prog"
proof -
  let ?new = SemanticAnalyzer_new and ?gs = "p_globals prog" and ?fs = "p_functions prog"
  let ?a = "after_globals prog" and ?b = "after_names prog"
  have 1: "outcome (all_ok global_free enter_global ?gs (0, ?new)) ?new (snd (fold declare_global ?gs (0, ?new))) ?a"
    unfolding after_globals_def by (rule globals_outcome)
  have 2: "outcome (all_ok name_free enter_function_name ?fs ?a) ?a (fold declare_function ?fs ?a) ?b"
    unfolding after_names_def by (rule loop_outcome [OF names.checker_axioms])
  have 3: "outcome (\<forall>g \<in> set ?gs. init_ok g ?b) ?b (fold check_global_init ?gs ?b) ?b"
    using loop_outcome [OF inits.checker_axioms, of ?gs ?b] by (simp add: inits_all_ok fold_id)
  have 4: "outcome (\<forall>f \<in> set ?fs. frame_ok f ?b) ?b (fold analyze_function ?fs ?b) (fold leave_function ?fs ?b)"
    using loop_outcome [OF bodies.checker_axioms, of ?fs ?b] by (simp add: bodies_all_ok)
  note 12 = outcome_cont [OF 1, where k = "fold declare_function ?fs", OF 2]
  note 123 = outcome_cont [OF 12, where k = "fold check_global_init ?gs", OF _ 3]
  note 1234 = outcome_cont [OF 123, where k = check_main, OF _ _ main_outcome]
  note 12345 = outcome_cont [OF 1234, where k = "fold analyze_function ?fs", OF _ _ _ 4]
  have "outcome (passes prog) ?new
      (fold analyze_function ?fs (check_main (collect_declarations prog ?new))) (fold leave_function ?fs ?b)"
    unfolding collect_declarations_def Let_def
    by (rule outcome_cong, rule 12345) (auto simp: passes_def growth)
  moreover have "sa_errors ?new = []" by (simp add: SemanticAnalyzer_new_def)
  ultimately show ?thesis
    by (auto simp: analyze_def Let_def outcome_def split: if_splits)
qed

section \<open>Agreement with the specification\<close>

lemma map_of_rev: "distinct (map fst xs) \<Longrightarrow> map_of (rev xs) = map_of xs"
  by (rule map_of_eqI) (auto simp: rev_map [symmetric])

lemma after_globals_simps:
  "sa_scope (after_globals prog) = rev (map (\<lambda>g. (gv_name g, global_symbol g)) (p_globals prog))"
  "sa_functions (after_globals prog) = []" "sa_parents (after_globals prog) = []"
  by (simp_all add: after_globals_def globals_state SemanticAnalyzer_new_def)

lemma after_names_env:
  assumes "distinct (map fst (top_symbols prog))"
  shows "G_of (after_names prog) = top_env prog" "F_of (after_names prog) = function_env prog"
proof -
  let ?g = "map (\<lambda>g. (gv_name g, global_symbol g)) (p_globals prog)"
    and ?f = "map (\<lambda>f. (fn_name f, function_symbol f)) (p_functions prog)"
  have top: "top_symbols prog = ?g @ ?f" by (simp add: top_symbols_def)
  have "scope_lookup (after_names prog) n = map_of (rev (top_symbols prog)) n" for n
    by (simp add: after_names_def names_state after_globals_simps scope_lookup_def top map_add_def split: option.split)
  with map_of_rev [OF assms] show "G_of (after_names prog) = top_env prog"
    by (auto simp: G_of_def top_env_def)
  have "distinct (map fst ?f)" using assms by (simp add: top)
  from map_of_rev [OF this] show "F_of (after_names prog) = function_env prog"
    by (simp add: F_of_def after_names_def names_state after_globals_simps function_env_def)
qed

lemma disjoint_image: "A \<inter> f ` B = {} \<longleftrightarrow> (\<forall>x \<in> B. f x \<notin> A)"
  by blast

lemma names_distinct:
  "distinct (map fst (top_symbols prog)) \<longleftrightarrow>
   distinct (map gv_name (p_globals prog)) \<and>
   all_ok name_free enter_function_name (p_functions prog) (after_globals prog)"
proof -
  have "map fst (top_symbols prog) = map gv_name (p_globals prog) @ map fn_name (p_functions prog)"
    by (simp add: top_symbols_def)
  moreover have "map_of (rev (map (\<lambda>g. (gv_name g, global_symbol g)) gs)) k = None \<longleftrightarrow> k \<notin> gv_name ` set gs" for gs k
    by (simp add: map_of_eq_None_iff image_image)
  ultimately show ?thesis
    unfolding names_all_ok after_globals_simps F_of_def by (simp add: disjoint_image)
qed

lemma main_spec:
  assumes "distinct (map fst (top_symbols prog))"
  shows "main_free (after_names prog) \<longleftrightarrow> has_main prog"
proof -
  let ?fs = "map (\<lambda>f. (fn_name f, function_symbol f)) (p_functions prog)"
  have dist: "distinct (map fst ?fs)"
    using assms by (simp add: top_symbols_def)
  have params: "sym_param_types (function_symbol f) = [] \<longleftrightarrow> fn_params f = []" for f
    by (simp add: function_symbol_def)
  have "has_main prog \<longleftrightarrow> (\<exists>y. (''main'', y) \<in> set ?fs \<and> sym_param_types y = [])"
    using params by (simp add: has_main_def image_iff) metis
  also have "\<dots> \<longleftrightarrow> (\<exists>y. map_of ?fs ''main'' = Some y \<and> sym_param_types y = [])"
    using map_of_eq_Some_iff [OF dist] by simp
  also have "\<dots> \<longleftrightarrow> main_free (after_names prog)"
    unfolding main_free_def after_names_env [OF assms] function_env_def by (simp split: option.split)
  finally show ?thesis ..
qed

lemma analyze_well_formed: "analyze prog = Inr () \<longleftrightarrow> well_formed prog"
proof (cases "distinct (map fst (top_symbols prog))")
  case True
  then have "all_ok name_free enter_function_name (p_functions prog) (after_globals prog)"
    "distinct (map gv_name (p_globals prog))" by (simp_all add: names_distinct)
  with True show ?thesis
    unfolding analyze_passes passes_def well_formed_def
    by (auto simp: globals_all_ok main_spec after_names_env init_ok_def frame_ok_def global_ok_def function_ok_def
        SemanticAnalyzer_new_def)
next
  case False
  then show ?thesis
    unfolding analyze_passes passes_def well_formed_def
    by (auto simp: globals_all_ok names_distinct)
qed

text \<open>
  C8: The semantic analyser accepts exactly the well-formed programs: names are unique, \<open>main\<close> exists
  and has no parameters, sizes are positive and slots within their limits, and every global, function
  body and expression is well typed in a flat environment of the names in scope.
\<close>

theorem analyze_iff_well_formed: "analyze prog = Inr () \<longleftrightarrow> well_formed prog"
  by (rule analyze_well_formed)

end
