(* ===== verification/Optimizer.thy ===== *)
theory Optimizer
  imports Bytecode
begin

text \<open>
  The bytecode optimiser (optimizer.rs): the three passes that look at a window of two or three
  instructions, and the elimination of unreachable instructions with its worklist.
\<close>

section \<open>State\<close>

record optimization_stats =
  constants_folded :: usize
  dead_instructions_removed :: usize
  strength_reductions :: usize
  peephole_optimizations :: usize
  instructions_before :: usize
  instructions_after :: usize

definition stats_default :: optimization_stats where
  "stats_default =
     \<lparr>constants_folded = 0, dead_instructions_removed = 0, strength_reductions = 0,
      peephole_optimizations = 0, instructions_before = 0, instructions_after = 0\<rparr>"

section \<open>Window passes\<close>

text \<open>
  The three passes share one loop: at index \<open>i\<close> a window is matched against the remaining
  instructions; a match replaces the first \<open>k\<close> of them by others and counts, otherwise one
  instruction is copied. A pattern is a function of the index and the remaining instructions.
\<close>

type_synonym pattern = "nat \<Rightarrow> instruction list \<Rightarrow> (instruction list \<times> nat) option"

function window_pass :: "pattern \<Rightarrow> nat \<Rightarrow> instruction list \<Rightarrow> instruction list \<times> nat" where
  "window_pass w i [] = ([], 0)"
| "window_pass w i (x # xs) =
     (case w i (x # xs) of
        Some (emitted, k) \<Rightarrow>
          (let r = window_pass w (i + k) (drop (k - 1) xs) in (emitted @ fst r, snd r + 1))
      | None \<Rightarrow> (let r = window_pass w (i + 1) xs in (x # fst r, snd r)))"
  by pat_completeness auto
termination by (relation "measure (\<lambda>(_, _, is). length is)") auto

definition folded_value :: "opcode \<Rightarrow> i64 \<Rightarrow> i64 \<Rightarrow> i64 option" where
  "folded_value op a b =
     (case op of
        Op_Add \<Rightarrow> Some (normalize_i32 (wrap64 (a + b)))
      | Op_Sub \<Rightarrow> Some (normalize_i32 (wrap64 (a - b)))
      | Op_Mul \<Rightarrow> Some (normalize_i32 (wrap64 (a * b)))
      | Op_Div \<Rightarrow> (if b \<noteq> 0 \<and> \<not> (a = - 2147483648 \<and> b = - 1) then Some (trunc_div a b) else None)
      | Op_Eq \<Rightarrow> Some (if a = b then 1 else 0)
      | Op_Ne \<Rightarrow> Some (if a \<noteq> b then 1 else 0)
      | Op_Lt \<Rightarrow> Some (if a < b then 1 else 0)
      | Op_Gt \<Rightarrow> Some (if a > b then 1 else 0)
      | Op_Le \<Rightarrow> Some (if a \<le> b then 1 else 0)
      | Op_Ge \<Rightarrow> Some (if a \<ge> b then 1 else 0)
      | _ \<Rightarrow> None)"

definition fold_triple :: "instruction list \<Rightarrow> instruction option" where
  "fold_triple is =
     (case is of
        i0 # i1 # i2 # _ \<Rightarrow>
          (if opcode i0 = Op_LoadConst \<and> opcode i1 = Op_LoadConst
           then map_option (\<lambda>v. Instruction_new Op_LoadConst (wrap32 v) 0)
                  (folded_value (opcode i2) (arg1 i0) (arg1 i1))
           else None)
      | _ \<Rightarrow> None)"

definition fold_pair :: "instruction list \<Rightarrow> instruction option" where
  "fold_pair is =
     (case is of
        i0 # i1 # _ \<Rightarrow>
          (if opcode i0 = Op_LoadConst \<and> opcode i1 = Op_Neg
           then Some (Instruction_new Op_LoadConst (wrap32 (normalize_i32 (- arg1 i0))) 0)
           else if opcode i0 = Op_LoadConst \<and> opcode i1 = Op_Not
           then Some (Instruction_new Op_LoadConst (if arg1 i0 = 0 then 1 else 0) 0)
           else None)
      | _ \<Rightarrow> None)"

definition fold_window :: pattern where
  "fold_window i is =
     (case fold_triple is of
        Some v \<Rightarrow> Some ([v], 3)
      | None \<Rightarrow> (case fold_pair is of Some v \<Rightarrow> Some ([v], 2) | None \<Rightarrow> None))"

definition strength_window :: pattern where
  "strength_window i is =
     (case is of
        i0 # i1 # _ \<Rightarrow>
          (if opcode i0 = Op_LoadConst \<and> arg1 i0 = 0 \<and> opcode i1 = Op_Mul
           then Some ([Instruction_new Op_Pop 0 0, Instruction_new Op_LoadConst 0 0], 2)
           else if opcode i0 = Op_LoadConst \<and> arg1 i0 = 1 \<and> opcode i1 = Op_Mul then Some ([], 2)
           else if opcode i0 = Op_LoadConst \<and> arg1 i0 = 0 \<and> opcode i1 = Op_Add then Some ([], 2)
           else if opcode i0 = Op_LoadConst \<and> arg1 i0 = 0 \<and> opcode i1 = Op_Sub then Some ([], 2)
           else if opcode i0 = Op_LoadConst \<and> arg1 i0 = 1 \<and> opcode i1 = Op_Div then Some ([], 2)
           else None)
      | _ \<Rightarrow> None)"

definition peephole_window :: pattern where
  "peephole_window i is =
     (case is of
        i0 # i1 # _ \<Rightarrow>
          (if opcode i0 = Op_LoadConst \<and> opcode i1 = Op_Pop then Some ([], 2)
           else if opcode i0 = Op_Jump \<and> arg1 i0 = usize_as_i32 (i + 1) then Some ([], 1)
           else None)
      | _ \<Rightarrow> None)"

type_synonym 'a opt = "'a \<times> optimization_stats"

definition constant_folding :: "instruction list \<Rightarrow> optimization_stats \<Rightarrow> instruction list opt" where
  "constant_folding is st =
     (let r = window_pass fold_window 0 is
      in (fst r, st\<lparr>constants_folded := constants_folded st + snd r\<rparr>))"

definition strength_reduction :: "instruction list \<Rightarrow> optimization_stats \<Rightarrow> instruction list opt" where
  "strength_reduction is st =
     (let r = window_pass strength_window 0 is
      in (fst r, st\<lparr>strength_reductions := strength_reductions st + snd r\<rparr>))"

definition peephole_optimization :: "instruction list \<Rightarrow> optimization_stats \<Rightarrow> instruction list opt" where
  "peephole_optimization is st =
     (let r = window_pass peephole_window 0 is
      in (fst r, st\<lparr>peephole_optimizations := peephole_optimizations st + snd r\<rparr>))"

definition is_jump :: "opcode \<Rightarrow> bool" where
  "is_jump op \<longleftrightarrow> op = Op_Jump \<or> op = Op_JumpIfFalse \<or> op = Op_JumpIfTrue"

definition can_run_size_changing_passes ::
    "instruction list \<Rightarrow> (usize \<times> function_info) list \<Rightarrow> bool" where
  "can_run_size_changing_passes is fs \<longleftrightarrow>
     length fs = 1 \<and> \<not> list_ex (\<lambda>instr. is_jump (opcode instr)) is"

section \<open>Elimination of unreachable instructions\<close>

text \<open>
  The worklist is a \<open>Vec\<close> used as a stack, here with the top first; the set of reachable
  program counters is the list of the counters inserted so far, each once.
\<close>

definition successors :: "nat \<Rightarrow> instruction \<Rightarrow> nat list" where
  "successors pc instr =
     (case opcode instr of
        Op_Jump \<Rightarrow> [as_usize (arg1 instr)]
      | Op_JumpIfFalse \<Rightarrow> [as_usize (arg1 instr), pc + 1]
      | Op_JumpIfTrue \<Rightarrow> [as_usize (arg1 instr), pc + 1]
      | Op_Return \<Rightarrow> []
      | Op_Halt \<Rightarrow> []
      | _ \<Rightarrow> [pc + 1])"

definition reach_step ::
    "instruction list \<Rightarrow> nat list \<times> nat list \<Rightarrow> nat list + (nat list \<times> nat list)" where
  "reach_step is w =
     (case w of (worklist, reachable) \<Rightarrow>
        (case worklist of
           [] \<Rightarrow> Inl reachable
         | pc # rest \<Rightarrow>
             if pc \<ge> length is \<or> pc \<in> set reachable then Inr (rest, reachable)
             else Inr (successors pc (is ! pc) @ rest, pc # reachable)))"

definition find_reachable ::
    "instruction list \<Rightarrow> (usize \<times> function_info) list \<Rightarrow> nat list option" where
  "find_reachable is fs =
     iterate (reach_step is) (rev (map (\<lambda>(_, func). entry_pc func) fs), [])"

fun number_reachable :: "nat list \<Rightarrow> nat list \<Rightarrow> nat \<Rightarrow> (nat \<Rightarrow> nat option) \<Rightarrow> nat \<Rightarrow> nat option" where
  "number_reachable reachable [] new_pc m = m"
| "number_reachable reachable (old_pc # pcs) new_pc m =
     (if old_pc \<in> set reachable
      then number_reachable reachable pcs (new_pc + 1) (m(old_pc \<mapsto> new_pc))
      else number_reachable reachable pcs new_pc m)"

definition old_to_new :: "nat list \<Rightarrow> nat \<Rightarrow> nat \<Rightarrow> nat option" where
  "old_to_new reachable n = number_reachable reachable [0..<n] 0 (\<lambda>_. None)"

definition remap_instruction :: "(nat \<Rightarrow> nat option) \<Rightarrow> instruction \<Rightarrow> instruction" where
  "remap_instruction m instr =
     (if is_jump (opcode instr)
      then let new_target = (case m (as_usize (arg1 instr)) of
                 Some t \<Rightarrow> t | None \<Rightarrow> as_usize (arg1 instr))
           in Instruction_new (opcode instr) (usize_as_i32 new_target) (arg2 instr)
      else instr)"

fun keep_reachable ::
    "nat list \<Rightarrow> (nat \<Rightarrow> nat option) \<Rightarrow> nat \<Rightarrow> instruction list \<Rightarrow> optimization_stats \<Rightarrow> instruction list opt" where
  "keep_reachable reachable m pc [] st = ([], st)"
| "keep_reachable reachable m pc (instr # is) st =
     (if pc \<notin> set reachable
      then keep_reachable reachable m (pc + 1) is
             (st\<lparr>dead_instructions_removed := dead_instructions_removed st + 1\<rparr>)
      else apfst (Cons (remap_instruction m instr)) (keep_reachable reachable m (pc + 1) is st))"

fun move_entries ::
    "(nat \<Rightarrow> nat option) \<Rightarrow> (usize \<times> function_info) list \<Rightarrow> (usize \<times> function_info) list" where
  "move_entries m [] = []"
| "move_entries m ((i, func) # fs) =
     (case m (entry_pc func) of
        Some new_entry \<Rightarrow> (i, func\<lparr>entry_pc := new_entry\<rparr>) # move_entries m fs
      | None \<Rightarrow> move_entries m fs)"

definition dead_code_elimination ::
    "instruction list \<Rightarrow> (usize \<times> function_info) list \<Rightarrow> optimization_stats \<Rightarrow>
     (instruction list \<times> (usize \<times> function_info) list) opt option" where
  "dead_code_elimination is fs st =
     (if is = [] then Some ((is, fs), st)
      else map_option (\<lambda>reachable.
             if length reachable = length is then ((is, fs), st)
             else let m = old_to_new reachable (length is);
                      r = keep_reachable reachable m 0 is st
                  in ((fst r, move_entries m fs), snd r))
           (find_reachable is fs))"

section \<open>All passes\<close>

definition window_passes ::
    "instruction list \<Rightarrow> (usize \<times> function_info) list \<Rightarrow> optimization_stats \<Rightarrow> instruction list opt" where
  "window_passes is fs st =
     (if can_run_size_changing_passes is fs
      then let (is1, st1) = constant_folding is st;
               (is2, st2) = strength_reduction is1 st1
           in peephole_optimization is2 st2
      else (is, st))"

definition optimize :: "compiled_program \<Rightarrow> optimization_stats \<Rightarrow> compiled_program opt option" where
  "optimize p st =
     (let (is, st1) = window_passes (instructions p) (prog_functions p)
            (st\<lparr>instructions_before := length (instructions p)\<rparr>)
      in map_option (\<lambda>((is', fs'), st2).
           (p\<lparr>instructions := is', prog_functions := fs'\<rparr>,
            st2\<lparr>instructions_after := length is'\<rparr>))
         (dead_code_elimination is (prog_functions p) st1))"

end
