(* ===== verification/Relocation.thy ===== *)
theory Relocation
  imports Vm_Props Optimizer
begin

text \<open>
  Running moved code: the same instructions at other program counters. The locale
  \<open>relocation\<close> relates a program to one whose functions start at moved entries; in it, one
  instruction has the same effect on both machines up to the counters, whatever the pass that
  moved the code. Both the elimination of dead code and the window passes rest on it.
\<close>

section \<open>Moved machines\<close>

definition move_frame :: "(nat \<Rightarrow> nat) \<Rightarrow> call_frame \<Rightarrow> call_frame" where
  "move_frame pos f =
     f\<lparr>return_pc := (if return_pc f = usize_max then usize_max else pos (return_pc f))\<rparr>"

text \<open>The machine with its program counter \<open>x\<close>, its cycle count \<open>c\<close> and its return addresses moved.\<close>

definition relocate :: "(nat \<Rightarrow> nat) \<Rightarrow> nat \<Rightarrow> nat \<Rightarrow> vm \<Rightarrow> vm" where
  "relocate pos x c s =
     s\<lparr>vm_pc := x, vm_cycles := c, vm_calls := List.map (move_frame pos) (vm_calls s)\<rparr>"

lemma move_frame_fields [simp]:
  "base_ptr (move_frame pos f) = base_ptr f" "frame_func (move_frame pos f) = frame_func f"
  "return_pc (move_frame pos f) = (if return_pc f = usize_max then usize_max else pos (return_pc f))"
  by (simp_all add: move_frame_def)

lemma relocate_fields [simp]:
  "vm_stack (relocate pos x c s) = vm_stack s" "vm_locals (relocate pos x c s) = vm_locals s"
  "vm_globals (relocate pos x c s) = vm_globals s" "vm_pc (relocate pos x c s) = x"
  "vm_calls (relocate pos x c s) = List.map (move_frame pos) (vm_calls s)"
  "vm_cycles (relocate pos x c s) = c"
  "vm_max_cycles (relocate pos x c s) = vm_max_cycles s" "vm_output (relocate pos x c s) = vm_output s"
  "vm_trace (relocate pos x c s) = vm_trace s"
  "(relocate pos x c s)\<lparr>vm_stack := st\<rparr> = relocate pos x c (s\<lparr>vm_stack := st\<rparr>)"
  "(relocate pos x c s)\<lparr>vm_locals := ls\<rparr> = relocate pos x c (s\<lparr>vm_locals := ls\<rparr>)"
  "(relocate pos x c s)\<lparr>vm_globals := gs\<rparr> = relocate pos x c (s\<lparr>vm_globals := gs\<rparr>)"
  "(relocate pos x c s)\<lparr>vm_output := out\<rparr> = relocate pos x c (s\<lparr>vm_output := out\<rparr>)"
  "(relocate pos x c s)\<lparr>vm_pc := i\<rparr> = relocate pos i c s"
  "(relocate pos x c s)\<lparr>vm_cycles := d\<rparr> = relocate pos x d s"
  "(relocate pos x c s)\<lparr>vm_calls := []\<rparr> = relocate pos x c (s\<lparr>vm_calls := []\<rparr>)"
  by (simp_all add: relocate_def)

lemma relocate_readers [simp]:
  "locals_get (relocate pos x c s) i = locals_get s i"
  "globals_get (relocate pos x c s) i = globals_get s i"
  "global_slot a (relocate pos x c s) = global_slot a s"
  "global_array_range a b (relocate pos x c s) = global_array_range a b s"
  "local_array_base i n (relocate pos x c s) = local_array_base i n s"
  unfolding locals_get_def globals_get_def global_slot_def global_array_range_def
    local_array_base_def relocate_fields by (rule refl)+

lemma relocate_ops [simp]:
  "pop (relocate pos x c s) = map_prod id (relocate pos x c) (pop s)"
  "push v (relocate pos x c s) = map_prod id (relocate pos x c) (push v s)"
  "locals_set i v (relocate pos x c s) = map_prod id (relocate pos x c) (locals_set i v s)"
  "globals_set i v (relocate pos x c s) = map_prod id (relocate pos x c) (globals_set i v s)"
  by (simp_all add: pop_def push_def locals_set_def globals_set_def split: list.split)

lemma relocate_push_next [simp]:
  "push_next v (relocate pos x c s) = map_prod id (relocate pos x c) (push_next v s)"
  by (auto simp: push_next_def intro!: bnd_commute)

lemma relocate_copy_args [simp]:
  "copy_args b n (relocate pos x c s) = map_prod id (relocate pos x c) (copy_args b n s)"
  by (induction n arbitrary: s) (auto intro!: bnd_commute)

lemma relocate_clear_locals [simp]:
  "clear_locals is b (relocate pos x c s) = map_prod id (relocate pos x c) (clear_locals is b s)"
  by (induction "is" arbitrary: s) (auto intro!: bnd_commute)

lemma relocate_enter:
  assumes "pos r = x + 1" "r \<noteq> usize_max"
  shows "(relocate pos x c s)\<lparr>vm_calls := \<lparr>return_pc = Suc x, base_ptr = b, frame_func = i\<rparr>
           # List.map (move_frame pos) (vm_calls s), vm_pc := e\<rparr> =
    relocate pos e c (s\<lparr>vm_calls := \<lparr>return_pc = r, base_ptr = b, frame_func = i\<rparr> # vm_calls s, vm_pc := q\<rparr>)"
  using assms by (simp add: relocate_def move_frame_def)

text \<open>Instructions that neither jump nor enter or leave a single frame.\<close>

definition straight :: "opcode \<Rightarrow> bool" where
  "straight op \<longleftrightarrow> \<not> is_jump op \<and> op \<noteq> Op_Call \<and> op \<noteq> Op_Return"

text \<open>How a turn of the loop goes on, or how the run ends, after an instruction on the moved machine.\<close>

definition move_exit :: "(nat \<Rightarrow> nat) \<Rightarrow> nat \<Rightarrow> nat \<Rightarrow> vm_exit \<Rightarrow> vm_exit" where
  "move_exit pos x c e = (map_sum id (\<lambda>r. r\<lparr>res_pc := x, res_cycles := c\<rparr>) (fst e), relocate pos x c (snd e))"

text \<open>The outcome of a run: everything the result holds but the final program counter and the message.\<close>

definition outcome_of :: "vm_exit \<Rightarrow> string + vm_result" where
  "outcome_of e = map_sum id (\<lambda>r. r\<lparr>res_pc := 0, trap_message := []\<rparr>) (fst e)"

definition same_outcome :: "vm_exit \<Rightarrow> vm_exit \<Rightarrow> bool" where
  "same_outcome e e' \<longleftrightarrow> outcome_of e = outcome_of e'"

lemma same_outcome_refl [simp]: "same_outcome e e"
  by (simp add: same_outcome_def)

lemma same_outcome_moved:
  "(\<And>r. fst e = Inr r \<Longrightarrow> res_cycles r = c) \<Longrightarrow> same_outcome e (move_exit pos x c e)"
  by (cases "fst e") (auto simp: same_outcome_def outcome_of_def move_exit_def)

lemma trap_moved [simp]:
  "finish (make_trap_result code msg (relocate pos x c s)) = move_exit pos x c (finish (make_trap_result code msg s))"
  by (simp add: finish_def make_trap_result_def move_exit_def)

lemma exit_moved [simp]:
  "finish (exit_result (relocate pos x c s)) = move_exit pos x c (finish (exit_result s))"
  by (simp add: finish_def exit_result_def move_exit_def take_top_def Let_def split: list.split)

lemma after_moved:
  assumes "vm_trace t = None" and y: "y = (if res = Inr True then x + 1 else x)"
  shows "after_instruction st' (res, relocate pos x c t) =
    map_sum (move_exit pos y c) (relocate pos y c) (after_instruction st (res, t))"
proof -
  have rec: "record_trace u oc t = t" "record_trace u oc (relocate pos z c t) = relocate pos z c t"
    "record_trace u oc (t\<lparr>vm_pc := i\<rparr>) = t\<lparr>vm_pc := i\<rparr>" for u oc z i
    using assms(1) by (simp_all add: record_trace_def)
  have pc: "relocate pos z c (t\<lparr>vm_pc := i\<rparr>) = relocate pos z c t" for z i
    by (simp add: relocate_def)
  show ?thesis
  proof (cases res)
    case (Inl e)
    then show ?thesis
      by (cases e) (simp_all add: after_instruction_def rec y move_exit_def)
  next
    case (Inr b)
    then show ?thesis
      by (cases b) (simp_all add: after_instruction_def rec y pc move_exit_def Let_def
          finish_def exit_result_def take_top_def split: list.split)
  qed
qed

lemma after_Inr_iff:
  assumes "vm_trace t = None"
  shows "after_instruction st (res, t) = Inr u \<longleftrightarrow>
    vm_calls t \<noteq> [] \<and> (res = Inr True \<and> u = t\<lparr>vm_pc := vm_pc t + 1\<rparr> \<or> res = Inr False \<and> u = t)"
proof (cases res)
  case (Inl e)
  then show ?thesis by (cases e) (simp_all add: after_instruction_def)
next
  case (Inr b)
  with assms show ?thesis by (cases b) (auto simp: after_instruction_def record_trace_def Let_def)
qed

lemma after_Inl_cycles:
  assumes "vm_trace t = None" "after_instruction st (res, t) = Inl e" "fst e = Inr r"
  shows "res_cycles r = vm_cycles t"
  using assms
  by (cases rule: after_instruction_Inl [OF assms(2)])
    (auto simp: finish_def make_trap_result_def exit_result_def take_top_def record_trace_def Let_def
      split: list.splits)

text \<open>The same instruction, but for the target of a jump.\<close>

definition moved_instruction :: "instruction \<Rightarrow> instruction \<Rightarrow> bool" where
  "moved_instruction i i' \<longleftrightarrow> opcode i' = opcode i \<and> arg2 i' = arg2 i \<and>
     (\<not> is_jump (opcode i) \<longrightarrow> arg1 i' = arg1 i)"

definition targets_of :: "vm \<Rightarrow> nat set" where
  "targets_of s = return_pc ` set (vm_calls s) - {usize_max}"

text \<open>What the groups of instructions do to the program counter and the frames.\<close>

lemma straight_control:
  assumes "straight opc"
  shows "post (execute_instruction p opc a1 a2 s)
     (\<lambda>b t. vm_pc t = vm_pc s \<and> (b \<and> vm_calls t = vm_calls s \<or> \<not> b \<and> vm_calls t = []))
     (\<lambda>_ t. vm_pc t = vm_pc s \<and> (vm_calls t = vm_calls s \<or> vm_calls t = []))"
  using assms
  by (cases opc) (auto simp: straight_def is_jump_def exec_defs wp_simps Let_def split: list.split)

lemma failed_control:
  "post (exec_call p a1 a2 s) (\<lambda>_ _. True) (\<lambda>_ t. vm_pc t = vm_pc s \<and> vm_calls t = vm_calls s)"
  "post (exec_return s) (\<lambda>_ _. True) (\<lambda>_ t. vm_pc t = vm_pc s \<and> set (vm_calls t) \<subseteq> set (vm_calls s))"
  by (rule exec_call_post) (auto simp: same_frames_def exec_return_def wp_simps Let_def split: list.split)

lemma jump_control:
  assumes "is_jump opc"
  shows "post (execute_instruction p opc a1 a2 s)
     (\<lambda>b t. vm_calls t = vm_calls s \<and> vm_pc t = (if b then vm_pc s else as_usize a1))
     (\<lambda>_ t. vm_pc t = vm_pc s \<and> vm_calls t = vm_calls s)"
  using assms by (auto simp: is_jump_def exec_defs wp_simps)

lemma jump_moved:
  assumes "is_jump opc"
  shows "execute_instruction p' opc a1' a2' (relocate pos x c s) =
    (case execute_instruction p opc a1 a2 s of
       (res, t) \<Rightarrow> (res, relocate pos (if res = Inr False then as_usize a1' else x) c t))"
  using assms by (cases "vm_stack s") (auto simp: is_jump_def exec_jump_if_def jump_to_def pop_def)

locale relocation =
  fixes p p' :: compiled_program and pos :: "nat \<Rightarrow> nat"
  assumes lookup: "fun_lookup p' i =
      map_option (\<lambda>f. f\<lparr>entry_pc := pos (entry_pc f)\<rparr>) (fun_lookup p i)"
begin

lemma slot_moved [simp]:
  "current_local_slot p' a (relocate pos x c s) = current_local_slot p a s"
  by (simp add: current_local_slot_def lookup Let_def split: list.split option.split)

lemma caller_moved [simp]:
  "caller_base (relocate pos x c s) = caller_base s"
  "caller_locals p' (relocate pos x c s) = caller_locals p s"
  by (simp_all add: caller_base_def caller_locals_def lookup split: list.split option.split)

lemma straight_moved:
  assumes "straight opc"
  shows "execute_instruction p' opc a1 a2 (relocate pos x c s) =
    map_prod id (relocate pos x c) (execute_instruction p opc a1 a2 s)"
  using assms
  by (cases opc) (auto simp: straight_def is_jump_def exec_defs Let_def intro!: bnd_commute split: list.split)

text \<open>A call that fails, and one that succeeds: the return address is moved with the code.\<close>

lemma loops_moved:
  assumes "copy_args b n s = (Inr (), u)" "clear_locals is b u = (Inr (), v)"
  shows "vm_pc v = vm_pc s" "vm_calls v = vm_calls s"
  using post_Inr [OF copy_args_frames assms(1)] post_Inr [OF clear_locals_frames assms(2)]
  by (simp_all add: same_frames_def)

lemma enter_moved:
  assumes x: "pos (vm_pc s + 1) = x + 1" "vm_pc s + 1 \<noteq> usize_max"
    and enter: "enter_function p i n f s = (res, t)"
  shows "case res of
      Inl e \<Rightarrow> enter_function p' i n (f\<lparr>entry_pc := e'\<rparr>) (relocate pos x c s) = (Inl e, relocate pos x c t)
    | Inr b \<Rightarrow> \<not> b \<and> vm_pc t = entry_pc f \<and>
        (\<exists>fr. vm_calls t = fr # vm_calls s \<and> return_pc fr = vm_pc s + 1) \<and>
        enter_function p' i n (f\<lparr>entry_pc := e'\<rparr>) (relocate pos x c s) = (Inr False, relocate pos e' c t)"
proof (cases "checked_add (caller_base s + caller_locals p s) (local_count f)")
  case None
  with enter show ?thesis by (auto simp: enter_function_def)
next
  case (Some req)
  show ?thesis
  proof (cases "req > MAX_LOCAL_SLOTS")
    case True
    with Some enter show ?thesis by (auto simp: enter_function_def)
  next
    case False
    let ?b = "caller_base s + caller_locals p s" and ?is = "[n..<local_count f]"
    note [simp] = enter_function_def Some False Let_def
    obtain r1 u where r1: "copy_args ?b n s = (r1, u)" by fastforce
    obtain r2 v where r2: "clear_locals ?is ?b u = (r2, v)" by fastforce
    show ?thesis
    proof (cases r1)
      case (Inl e)
      with enter r1 show ?thesis by auto
    next
      case Inr1: (Inr y)
      show ?thesis
      proof (cases r2)
        case (Inl e)
        with enter r1 r2 Inr1 show ?thesis by auto
      next
        case (Inr z)
        have "copy_args ?b n s = (Inr (), u)" "clear_locals ?is ?b u = (Inr (), v)"
          using r1 r2 Inr Inr1 by simp_all
        note v = loops_moved [OF this]
        with enter r1 r2 Inr Inr1
        have t: "res = Inr False" "t = v\<lparr>vm_calls := \<lparr>return_pc = vm_pc s + 1, base_ptr = ?b, frame_func = i\<rparr>
            # vm_calls s, vm_pc := entry_pc f\<rparr>"
          by auto
        show ?thesis
          using r1 r2 Inr Inr1 v relocate_enter [where pos = pos and x = x and s = v and c = c and b = ?b and i = i and e = e', OF x] by (simp add: t)
      qed
    qed
  qed
qed

lemma call_moved:
  assumes x: "pos (vm_pc s + 1) = x + 1" "vm_pc s + 1 \<noteq> usize_max"
    and call: "exec_call p a1 a2 s = (res, t)"
  shows "case res of
      Inl e \<Rightarrow> exec_call p' a1 a2 (relocate pos x c s) = (Inl e, relocate pos x c t)
    | Inr b \<Rightarrow> \<not> b \<and> (\<exists>f. fun_lookup p (nat a1) = Some f \<and> vm_pc t = entry_pc f \<and>
        (\<exists>fr. vm_calls t = fr # vm_calls s \<and> return_pc fr = vm_pc s + 1) \<and>
        exec_call p' a1 a2 (relocate pos x c s) = (Inr False, relocate pos (pos (entry_pc f)) c t))"
proof (cases "a1 < 0 \<or> a2 < 0")
  case True
  with call show ?thesis by (auto simp: exec_call_def split: if_splits)
next
  case False
  show ?thesis
  proof (cases "fun_lookup p (nat a1)")
    case None
    with call False show ?thesis by (auto simp: exec_call_def lookup)
  next
    case (Some f)
    show ?thesis
    proof (cases "nat a2 \<noteq> param_count f \<or> length (vm_calls s) \<ge> MAX_FRAMES")
      case True
      with call False Some show ?thesis by (auto simp: exec_call_def lookup Let_def split: if_splits)
    next
      case ok: False
      with call False Some have "enter_function p (nat a1) (nat a2) f s = (res, t)"
        by (simp add: exec_call_def Let_def)
      from enter_moved [OF x this, of "pos (entry_pc f)" c] ok False Some show ?thesis
        by (auto simp: exec_call_def lookup Let_def split: sum.splits)
    qed
  qed
qed

text \<open>Returns: the address comes from the frame, where it is moved already.\<close>

lemma return_moved:
  assumes frames: "\<And>f. f \<in> set (vm_calls s) \<Longrightarrow> return_pc f \<noteq> usize_max \<Longrightarrow> pos (return_pc f) \<noteq> usize_max"
    and ret: "exec_return s = (res, t)"
  shows "case res of
      Inl e \<Rightarrow> exec_return (relocate pos x c s) = (Inl e, relocate pos x c t)
    | Inr b \<Rightarrow> \<not> b \<and> set (vm_calls t) \<subseteq> set (vm_calls s) \<and>
        (\<exists>x'. exec_return (relocate pos x c s) = (Inr False, relocate pos x' c t) \<and>
          (x' = x \<and> vm_pc t = vm_pc s \<or> vm_pc t \<in> targets_of s \<and> x' = pos (vm_pc t)))"
proof (cases "vm_stack s")
  case Nil
  with ret show ?thesis by (auto simp: exec_return_def pop_def)
next
  case (Cons v st)
  show ?thesis
  proof (cases "vm_calls s")
    case Nil
    with Cons ret show ?thesis by (auto simp: exec_return_def pop_def)
  next
    case calls: (Cons fr rest)
    with frames [of fr] have fr: "return_pc fr \<noteq> usize_max \<Longrightarrow> pos (return_pc fr) \<noteq> usize_max" by simp
    show ?thesis
    proof (cases "length st < MAX_OPERAND_STACK")
      case True
      show ?thesis
      proof (cases "return_pc fr = usize_max")
        case sentinel: True
        have "exec_return (relocate pos x c s) = (Inr False, relocate pos x c t)"
          using True Cons calls ret sentinel
          by (cases s) (auto simp: exec_return_def pop_def push_def relocate_def Let_def)
        moreover have "res = Inr False" "vm_pc t = vm_pc s" "set (vm_calls t) \<subseteq> set (vm_calls s)"
          using True Cons calls ret sentinel by (auto simp: exec_return_def pop_def push_def Let_def)
        ultimately show ?thesis by auto
      next
        case False
        have "exec_return (relocate pos x c s) = (Inr False, relocate pos (pos (return_pc fr)) c t)"
          using True Cons calls ret fr False
          by (cases s) (auto simp: exec_return_def pop_def push_def relocate_def Let_def)
        moreover have "res = Inr False" "vm_pc t = return_pc fr" "set (vm_calls t) \<subseteq> set (vm_calls s)"
          using True Cons calls ret False by (auto simp: exec_return_def pop_def push_def Let_def)
        moreover have "return_pc fr \<in> targets_of s" using False calls by (simp add: targets_of_def)
        ultimately show ?thesis by auto
      qed
    next
      case False
      with Cons calls ret fr show ?thesis
        by (cases s) (auto simp: exec_return_def pop_def push_def relocate_def Let_def split: if_splits)
    qed
  qed
qed

text \<open>One instruction at a program counter and at the moved one.\<close>

lemma exec_moved:
  assumes k: "instructions p ! vm_pc s = i" "instructions p' ! x = i'" "moved_instruction i i'"
    and call: "opcode i = Op_Call \<Longrightarrow> pos (vm_pc s + 1) = x + 1 \<and> vm_pc s + 1 \<noteq> usize_max"
    and frames: "\<And>r. r \<in> targets_of s \<Longrightarrow> pos r \<noteq> usize_max"
    and exec: "exec_current p s = (res, t)"
  shows "\<exists>x'. exec_current p' (relocate pos x c s) = (res, relocate pos x' (Suc c) t) \<and>
      targets_of t \<subseteq> targets_of s \<union> (if opcode i = Op_Call then {vm_pc s + 1} else {}) \<and>
      (if res = Inr False \<and> vm_calls t \<noteq> []
       then x' = x \<and> vm_pc t = vm_pc s \<or>
            is_jump (opcode i) \<and> vm_pc t = as_usize (arg1 i) \<and> x' = as_usize (arg1 i') \<or>
            (\<exists>j f. fun_lookup p j = Some f \<and> vm_pc t = entry_pc f \<and> x' = pos (entry_pc f)) \<or>
            vm_pc t \<in> targets_of s \<and> x' = pos (vm_pc t)
       else res \<noteq> Inr False \<longrightarrow> x' = x \<and> vm_pc t = vm_pc s)"
proof -
  let ?s = "s\<lparr>vm_cycles := vm_cycles s + 1\<rparr>"
  have s: "relocate pos x d (s\<lparr>vm_cycles := e\<rparr>) = relocate pos x d s" for d e by (simp add: relocate_def)
  have e: "execute_instruction p (opcode i) (arg1 i) (arg2 i) ?s = (res, t)"
    using exec k(1) by (simp add: exec_current_def Let_def)
  have e': "exec_current p' (relocate pos x c s) =
      execute_instruction p' (opcode i) (arg1 i') (arg2 i) (relocate pos x (Suc c) ?s)"
    using k(2,3) by (simp add: exec_current_def Let_def moved_instruction_def s)
  have arg1: "\<not> is_jump (opcode i) \<Longrightarrow> arg1 i' = arg1 i"
    using k(3) by (simp add: moved_instruction_def)
  consider "straight (opcode i)" | "is_jump (opcode i)" | "opcode i = Op_Call" | "opcode i = Op_Return"
    unfolding straight_def by blast
  then show ?thesis
  proof cases
    case 1
    then have "exec_current p' (relocate pos x c s) = (res, relocate pos x (Suc c) t)"
      using e e' arg1 straight_moved [OF 1, of "arg1 i" "arg2 i" x "Suc c" ?s] by (simp add: straight_def)
    moreover have "vm_pc t = vm_pc s \<and> (vm_calls t = vm_calls s \<and> res \<noteq> Inr False \<or> vm_calls t = [])"
      using straight_control [OF 1, of p "arg1 i" "arg2 i" ?s] e by (cases res) auto
    ultimately show ?thesis by (auto simp: targets_of_def)
  next
    case 2
    then have "exec_current p' (relocate pos x c s) =
        (res, relocate pos (if res = Inr False then as_usize (arg1 i') else x) (Suc c) t)"
      using e e' jump_moved [OF 2, of p' "arg1 i'" "arg2 i" pos x "Suc c" ?s p "arg1 i" "arg2 i"] by simp
    moreover have "vm_calls t = vm_calls s \<and> vm_pc t = (if res = Inr False then as_usize (arg1 i) else vm_pc s)"
      using jump_control [OF 2, of p "arg1 i" "arg2 i" ?s] e by (cases res) auto
    ultimately show ?thesis using 2 by (auto simp: targets_of_def)
  next
    case 3
    then have call: "exec_call p (arg1 i) (arg2 i) ?s = (res, t)" using e by simp
    have x: "pos (vm_pc ?s + 1) = x + 1" "vm_pc ?s + 1 \<noteq> usize_max" using assms(4) [OF 3] by simp_all
    note moved = call_moved [where c = "Suc c", OF x call]
    have not_jump: "\<not> is_jump (opcode i)" using 3 by (simp add: is_jump_def)
    show ?thesis
    proof (cases res)
      case (Inl err)
      with post_Inl [OF failed_control(1)] call have "vm_pc t = vm_pc s \<and> vm_calls t = vm_calls s" by fastforce
      with moved Inl 3 e' arg1 not_jump show ?thesis by (auto simp: targets_of_def)
    next
      case (Inr b)
      with moved 3 e' arg1 not_jump show ?thesis by (fastforce simp: targets_of_def)
    qed
  next
    case 4
    then have ret: "exec_return ?s = (res, t)" using e by simp
    have fr: "f \<in> set (vm_calls ?s) \<Longrightarrow> return_pc f \<noteq> usize_max \<Longrightarrow> pos (return_pc f) \<noteq> usize_max" for f
      using frames by (auto simp: targets_of_def)
    note moved = return_moved [where c = "Suc c" and x = x, OF fr ret]
    have not_jump: "\<not> is_jump (opcode i)" using 4 by (simp add: is_jump_def)
    show ?thesis
    proof (cases res)
      case (Inl err)
      with post_Inl [OF failed_control(2)] ret have "vm_pc t = vm_pc s \<and> set (vm_calls t) \<subseteq> set (vm_calls s)"
        by fastforce
      with moved Inl 4 e' arg1 not_jump show ?thesis by (auto simp: targets_of_def)
    next
      case (Inr b)
      with moved 4 e' arg1 not_jump show ?thesis by (auto simp: targets_of_def)
    qed
  qed
qed

end

text \<open>The model's own instance: the functions as the elimination of dead code moves them.\<close>

lemma move_entries_lookup:
  assumes "\<And>i f. (i, f) \<in> set fs \<Longrightarrow> m (entry_pc f) = Some (pos (entry_pc f))"
  shows "map_of (move_entries m fs) i = map_option (\<lambda>f. f\<lparr>entry_pc := pos (entry_pc f)\<rparr>) (map_of fs i)"
  using assms
proof (induction fs)
  case (Cons jf fs)
  obtain j f where jf: "jf = (j, f)" by fastforce
  with Cons.prems [of j f] have "m (entry_pc f) = Some (pos (entry_pc f))" by simp
  moreover have "map_of (move_entries m fs) i = map_option (\<lambda>f. f\<lparr>entry_pc := pos (entry_pc f)\<rparr>) (map_of fs i)"
    using Cons.prems by (intro Cons.IH) (metis list.set_intros(2))
  ultimately show ?case using jf by simp
qed simp

definition moved_program :: "compiled_program \<Rightarrow> (nat \<Rightarrow> nat) \<Rightarrow> instruction list \<Rightarrow> compiled_program" where
  "moved_program p pos is =
     p\<lparr>instructions := is, prog_functions := move_entries (\<lambda>e. Some (pos e)) (prog_functions p)\<rparr>"

interpretation moved: relocation p "moved_program p pos is" pos for p pos "is"
  by unfold_locales (simp add: fun_lookup_def moved_program_def move_entries_lookup [where pos = pos])

lemma moved_program_simps [simp]:
  "instructions (moved_program p pos is) = is" "prog_globals (moved_program p pos is) = prog_globals p"
  "main_func_id (moved_program p pos is) = main_func_id p"
  "prog_functions (moved_program p pos is) = move_entries (\<lambda>e. Some (pos e)) (prog_functions p)"
  by (simp_all add: moved_program_def)

lemma move_entries_cong:
  assumes "\<And>i f. (i, f) \<in> set fs \<Longrightarrow> m (entry_pc f) = Some (pos (entry_pc f))"
  shows "move_entries m fs = move_entries (\<lambda>e. Some (pos e)) fs"
  using assms
proof (induction fs)
  case (Cons jf fs)
  obtain j f where "jf = (j, f)" by fastforce
  with Cons.prems [of j f] Cons show ?case by (auto simp del: split_paired_All)
qed simp

lemma moved_validate:
  assumes "validate_program p = None" "length is \<le> length (instructions p)"
  shows "validate_program (moved_program p pos is) = None"
proof -
  have "first_error validate_function (List.map snd (move_entries (\<lambda>e. Some (pos e)) fs)) =
      first_error validate_function (List.map snd fs)" for fs
    by (induction fs) (auto simp: validate_function_def)
  then show ?thesis
    using assms unfolding validate_program_def moved_program_simps by (simp split: if_splits)
qed

end
