(* ===== verification/Window_Props.thy ===== *)
theory Window_Props
  imports Relocation
begin

text \<open>
  The window passes of the optimiser. A pattern that replaces instructions by others with the same
  effect on 32-bit values may be applied throughout a program without jumps: every successful run
  stays successful, with the same result. The locale \<open>window_rewrite\<close> proves it once for the loop
  that the passes share; the three patterns of optimizer.rs are its interpretations.
\<close>

section \<open>Blocks of stack instructions\<close>

definition stack_op :: "opcode \<Rightarrow> bool" where
  "stack_op op \<longleftrightarrow> op \<in> {Op_LoadConst, Op_Add, Op_Sub, Op_Mul, Op_Div, Op_Neg, Op_Eq, Op_Ne, Op_Lt, Op_Gt,
     Op_Le, Op_Ge, Op_Not, Op_Pop}"

fun run_block :: "compiled_program \<Rightarrow> instruction list \<Rightarrow> vm \<Rightarrow> unit vm_res" where
  "run_block p [] s = (Inr (), s)"
| "run_block p (i # is) s =
     bnd (execute_instruction p (opcode i) (arg1 i) (arg2 i) s) (\<lambda>_ s. run_block p is s)"

lemma stack_op_straight: "stack_op op \<Longrightarrow> straight op"
  by (auto simp: stack_op_def straight_def is_jump_def)

lemma stack_op_effect:
  assumes "stack_op op"
  shows "post (execute_instruction p op a1 a2 s)
    (\<lambda>b t. b \<and> t = s\<lparr>vm_stack := vm_stack t\<rparr>) (\<lambda>e t. t = s\<lparr>vm_stack := vm_stack t\<rparr>)"
  using assms by (auto simp: stack_op_def exec_defs wp_simps)

interpretation unmoved: relocation p p id for p
proof
  fix i
  show "fun_lookup p i = map_option (\<lambda>f. f\<lparr>entry_pc := id (entry_pc f)\<rparr>) (fun_lookup p i)"
    by (cases "fun_lookup p i") simp_all
qed

definition advance :: "nat \<Rightarrow> nat \<Rightarrow> vm \<Rightarrow> vm" where
  "advance x c s = s\<lparr>vm_pc := x, vm_cycles := c\<rparr>"

lemma relocate_id: "relocate id x c s = advance x c s"
  by (simp add: relocate_def advance_def map_idI [where f = "move_frame id"] move_frame_def)

lemma advance_simps [simp]:
  "advance x c (advance y d s) = advance x c s" "advance (vm_pc s) (vm_cycles s) s = s"
  "relocate pos x c (advance y d s) = relocate pos x c s"
  "vm_stack (advance x c s) = vm_stack s" "vm_calls (advance x c s) = vm_calls s"
  "vm_trace (advance x c s) = vm_trace s" "vm_pc (advance x c s) = x" "vm_cycles (advance x c s) = c"
  "vm_max_cycles (advance x c s) = vm_max_cycles s"
  by (simp_all add: advance_def relocate_def)

lemma advance_straight:
  "straight opc \<Longrightarrow> execute_instruction p opc a1 a2 (advance x c s) =
     map_prod id (advance x c) (execute_instruction p opc a1 a2 s)"
  using unmoved.straight_moved [of opc p a1 a2 x c s] by (simp add: relocate_id [abs_def])

lemma relocation_block:
  assumes "relocation p p' pos" "\<forall>i \<in> set blk. stack_op (opcode i)"
  shows "run_block p' blk (relocate pos x c s) = map_prod id (relocate pos x c) (run_block p blk s)"
  using assms(2)
proof (induction blk arbitrary: s)
  case (Cons i blk)
  then show ?case
    by (auto simp: relocation.straight_moved [OF assms(1) stack_op_straight, unfolded id_def]
        intro!: bnd_commute [unfolded id_def])
qed simp

lemma advance_block:
  "\<forall>i \<in> set blk. stack_op (opcode i) \<Longrightarrow>
     run_block p blk (advance x c s) = map_prod id (advance x c) (run_block p blk s)"
  using relocation_block [OF unmoved.relocation_axioms] by (simp add: relocate_id [abs_def])

lemma take_Suc_drop:
  assumes "take (length (x # xs)) (drop n ys) = x # xs"
  shows "n < length ys" "ys ! n = x" "take (length xs) (drop (Suc n) ys) = xs"
proof -
  show n: "n < length ys" using assms by (cases "n < length ys") simp_all
  then have "drop n ys = ys ! n # drop (Suc n) ys" by (rule Cons_nth_drop_Suc [symmetric])
  with assms show "ys ! n = x" "take (length xs) (drop (Suc n) ys) = xs" by simp_all
qed

definition succeeds :: "vm_exit \<Rightarrow> bool" where
  "succeeds e \<longleftrightarrow> (\<exists>r. fst e = Inr r \<and> success r)"

lemma trap_not_success [simp]: "\<not> succeeds (finish (make_trap_result c m s))"
  by (simp add: succeeds_def finish_def make_trap_result_def)

definition in_budget :: "nat \<Rightarrow> vm \<Rightarrow> bool" where
  "in_budget n s \<longleftrightarrow> vm_max_cycles s = 0 \<or> vm_cycles s + n \<le> vm_max_cycles s"

lemma stack_op_step:
  assumes "vm_pc s < length (instructions p)" "instructions p ! vm_pc s = i" "stack_op (opcode i)"
    and "vm_trace s = None" "vm_calls s \<noteq> []" "in_budget 1 s"
    and "execute_instruction p (opcode i) (arg1 i) (arg2 i) s = (Inr b, t)"
  shows "vm_step p s = Inr (advance (vm_pc s + 1) (vm_cycles s + 1) t)"
proof -
  have "execute_instruction p (opcode i) (arg1 i) (arg2 i) (advance (vm_pc s) (vm_cycles s + 1) s) =
      (Inr b, advance (vm_pc s) (vm_cycles s + 1) t)"
    using advance_straight [OF stack_op_straight [OF assms(3)]] assms(7) by simp
  moreover have "advance (vm_pc s) (vm_cycles s + 1) s = s\<lparr>vm_cycles := vm_cycles s + 1\<rparr>"
    by (simp add: advance_def)
  ultimately have e: "exec_current p s = (Inr b, advance (vm_pc s) (vm_cycles s + 1) t)"
    using assms(2) by (simp add: exec_current_def Let_def)
  have t: "b" "t = s\<lparr>vm_stack := vm_stack t\<rparr>"
    using post_Inr [OF stack_op_effect [OF assms(3)] assms(7)] by auto
  then have t': "vm_calls t = vm_calls s" "vm_trace t = None"
    using assms(4) by (metis vm.select_convs vm.surjective vm.update_convs(1))+
  have "\<not> (0 < vm_max_cycles s \<and> vm_max_cycles s \<le> vm_cycles s)" using assms(6) by (auto simp: in_budget_def)
  then have "vm_step p s = after_instruction (fetch_step i s) (Inr b, advance (vm_pc s) (vm_cycles s + 1) t)"
    using assms(1,2) e by (auto simp: vm_step_def)
  moreover have "\<dots> = Inr (advance (vm_pc s + 1) (vm_cycles s + 1) t)"
    using t t' assms(5) by (simp add: after_Inr_iff) (simp add: advance_def)
  ultimately show ?thesis by simp
qed

lemma turns_block:
  assumes "take (length blk) (drop (vm_pc s) (instructions p)) = blk" "\<forall>i \<in> set blk. stack_op (opcode i)"
    and "vm_trace s = None" "vm_calls s \<noteq> []" "in_budget (length blk) s"
    and "run_block p blk s = (Inr (), t)"
  shows "turns (vm_step p) (length blk) s = Inr (advance (vm_pc s + length blk) (vm_cycles s + length blk) t)"
  using assms
proof (induction blk arbitrary: s t)
  case (Cons i blk)
  from Cons.prems(6) obtain b u where u: "execute_instruction p (opcode i) (arg1 i) (arg2 i) s = (Inr b, u)"
      "run_block p blk u = (Inr (), t)"
    by (auto simp: bnd_Inr_conv)
  have pc: "vm_pc s < length (instructions p)" "instructions p ! vm_pc s = i"
    and rest: "take (length blk) (drop (Suc (vm_pc s)) (instructions p)) = blk"
    using take_Suc_drop [OF Cons.prems(1)] by simp_all
  have op: "stack_op (opcode i)" "\<forall>i \<in> set blk. stack_op (opcode i)" using Cons.prems(2) by simp_all
  let ?s = "advance (vm_pc s + 1) (vm_cycles s + 1) u"
  have step: "vm_step p s = Inr ?s"
    using Cons.prems(5) by (intro stack_op_step [OF pc op(1) Cons.prems(3,4) _ u(1)]) (auto simp: in_budget_def)
  have us: "u = s\<lparr>vm_stack := vm_stack u\<rparr>" using post_Inr [OF stack_op_effect [OF op(1)] u(1)] by simp
  have same: "vm_max_cycles u = vm_max_cycles s" "vm_calls u = vm_calls s" "vm_trace u = vm_trace s"
    by (subst us, simp)+
  have "run_block p blk ?s = (Inr (), advance (vm_pc s + 1) (vm_cycles s + 1) t)"
    using advance_block [OF op(2)] u(2) by simp
  then have "turns (vm_step p) (length blk) ?s = Inr (advance (vm_pc ?s + length blk) (vm_cycles ?s + length blk)
      (advance (vm_pc s + 1) (vm_cycles s + 1) t))"
    using Cons.prems(3-5) same op(2) rest by (intro Cons.IH) (auto simp: in_budget_def)
  with step show ?case by simp
qed simp

text \<open>Before a success, a block runs to its end, within the cycle limit.\<close>

lemma step_before_success:
  assumes "turns (vm_step p) n s = Inl r" "succeeds r" "vm_pc s < length (instructions p)"
    "instructions p ! vm_pc s = i" "stack_op (opcode i)" "vm_trace s = None" "vm_calls s \<noteq> []"
  obtains b t where "in_budget 1 s" "execute_instruction p (opcode i) (arg1 i) (arg2 i) s = (Inr b, t)"
proof -
  obtain m where n: "n = Suc m" using assms(1) by (cases n) auto
  have budget: "in_budget 1 s"
    using assms(1,2) by (auto simp: n in_budget_def vm_step_def split: if_splits)
  obtain res t where e: "execute_instruction p (opcode i) (arg1 i) (arg2 i) s = (res, t)" by fastforce
  show ?thesis
  proof (cases res)
    case (Inl err)
    have "execute_instruction p (opcode i) (arg1 i) (arg2 i) (advance (vm_pc s) (vm_cycles s + 1) s) =
        (Inl err, advance (vm_pc s) (vm_cycles s + 1) t)"
      using advance_straight [OF stack_op_straight [OF assms(5)]] e Inl by simp
    then have "exec_current p s = (Inl err, advance (vm_pc s) (vm_cycles s + 1) t)"
      using assms(4) by (simp add: exec_current_def Let_def advance_def)
    then have "\<not> succeeds r"
      using assms(1,3) by (cases err) (auto simp: n vm_step_def after_instruction_def succeeds_def
          finish_def make_trap_result_def Let_def split: if_splits)
    with assms(2) show ?thesis by simp
  next
    case (Inr b)
    with that budget e show ?thesis by simp
  qed
qed

lemma block_before_success:
  assumes "take (length blk) (drop (vm_pc s) (instructions p)) = blk" "\<forall>i \<in> set blk. stack_op (opcode i)"
    and "vm_trace s = None" "vm_calls s \<noteq> []" and "turns (vm_step p) n s = Inl r" "succeeds r"
  shows "\<exists>t. in_budget (length blk) s \<and> run_block p blk s = (Inr (), t)"
  using assms
proof (induction blk arbitrary: s n)
  case Nil
  then obtain m where "n = Suc m" by (cases n) auto
  with Nil.prems show ?case by (auto simp: in_budget_def vm_step_def split: if_splits)
next
  case (Cons i blk)
  note pc = take_Suc_drop [OF Cons.prems(1)]
  have op: "stack_op (opcode i)" "\<forall>i \<in> set blk. stack_op (opcode i)" using Cons.prems(2) by simp_all
  from step_before_success [OF Cons.prems(5,6) pc(1,2) op(1) Cons.prems(3,4)] obtain b u where
    budget: "in_budget 1 s" and u: "execute_instruction p (opcode i) (arg1 i) (arg2 i) s = (Inr b, u)" by blast
  let ?s = "advance (vm_pc s + 1) (vm_cycles s + 1) u"
  have step: "vm_step p s = Inr ?s"
    by (rule stack_op_step [OF pc(1,2) op(1) Cons.prems(3,4) budget u])
  have us: "u = s\<lparr>vm_stack := vm_stack u\<rparr>" using post_Inr [OF stack_op_effect [OF op(1)] u] by simp
  have same: "vm_max_cycles u = vm_max_cycles s" "vm_calls u = vm_calls s" "vm_trace u = vm_trace s"
    by (subst us, simp)+
  obtain m where "turns (vm_step p) m ?s = Inl r"
    using Cons.prems(5) step by (cases n) auto
  then obtain t where t: "in_budget (length blk) ?s" "run_block p blk ?s = (Inr (), t)"
    using Cons.IH [of ?s m] op(2) pc(3) same Cons.prems by auto
  from t(2) advance_block [OF op(2), of p "vm_pc s + 1" "vm_cycles s + 1" u]
  have "\<exists>t. run_block p blk u = (Inr (), t)" by (cases "run_block p blk u") auto
  with t(1) u same show ?case by (auto simp: in_budget_def)
qed

section \<open>Positions\<close>

text \<open>
  Where the loop of a window pass stands in the old and in the new code, turn by turn. The new
  position of an old one is looked up in this list.
\<close>

function boundaries :: "pattern \<Rightarrow> nat \<Rightarrow> nat \<Rightarrow> instruction list \<Rightarrow> (nat \<times> nat) list" where
  "boundaries w i j [] = [(i, j)]"
| "boundaries w i j (x # xs) =
     (i, j) # (case w i (x # xs) of
        Some (emitted, k) \<Rightarrow> boundaries w (i + k) (j + length emitted) (drop (k - 1) xs)
      | None \<Rightarrow> boundaries w (i + 1) (j + 1) xs)"
  by pat_completeness auto
termination by (relation "measure (\<lambda>(_, _, _, is). length is)") auto

definition new_position :: "pattern \<Rightarrow> instruction list \<Rightarrow> nat \<Rightarrow> nat" where
  "new_position w is b = (case map_of (boundaries w 0 0 is) b of Some y \<Rightarrow> y | None \<Rightarrow> 0)"

definition jump_free :: "instruction list \<Rightarrow> bool" where
  "jump_free is \<longleftrightarrow> (\<forall>i \<in> set is. \<not> is_jump (opcode i))"

lemma jump_free_simps [simp]:
  "jump_free []" "jump_free (x # xs) \<longleftrightarrow> \<not> is_jump (opcode x) \<and> jump_free xs"
  "jump_free xs \<Longrightarrow> jump_free (drop k xs)"
  by (auto simp: jump_free_def dest: in_set_dropD)

text \<open>A pattern that keeps the effect of a window on 32-bit values.\<close>

locale window_rewrite =
  fixes w :: pattern
  assumes size: "w i is = Some (em, k) \<Longrightarrow> jump_free is \<Longrightarrow> 0 < k \<and> k \<le> length is \<and> length em \<le> k"
    and ops: "w i is = Some (em, k) \<Longrightarrow> jump_free is \<Longrightarrow>
      (\<forall>x \<in> set (take k is). stack_op (opcode x)) \<and>
      (\<forall>x \<in> set em. stack_op (opcode x) \<and> is_i32 (arg1 x) \<and> is_i32 (arg2 x))"
    and effect: "w i is = Some (em, k) \<Longrightarrow> jump_free is \<Longrightarrow> \<forall>v \<in> set (vm_stack s). is_i32 v \<Longrightarrow>
      run_block p (take k is) s = (Inr (), t) \<Longrightarrow> run_block p em s = (Inr (), t)"
begin

text \<open>One turn of the loop, in the old code and in the new.\<close>

lemma turn_None:
  assumes "w i (x # xs) = None"
  shows "boundaries w i j (x # xs) = (i, j) # boundaries w (i + 1) (j + 1) xs"
    and "fst (window_pass w i (x # xs)) = x # fst (window_pass w (i + 1) xs)"
  using assms by (simp_all add: Let_def)

lemma turn_Some:
  assumes "w i (x # xs) = Some (em, k)" "jump_free (x # xs)"
  shows "boundaries w i j (x # xs) = (i, j) # boundaries w (i + k) (j + length em) (drop k (x # xs))"
    and "fst (window_pass w i (x # xs)) = em @ fst (window_pass w (i + k) (drop k (x # xs)))"
proof -
  have "drop (k - 1) xs = drop k (x # xs)" using size [OF assms] by (simp add: drop_Cons')
  with assms(1) show "boundaries w i j (x # xs) = (i, j) # boundaries w (i + k) (j + length em) (drop k (x # xs))"
    "fst (window_pass w i (x # xs)) = em @ fst (window_pass w (i + k) (drop k (x # xs)))"
    by (simp_all add: Let_def)
qed

lemma pass_induct [consumes 1, case_names Nil None Some]:
  assumes "jump_free is"
    and "\<And>i j. P i j []"
    and "\<And>i j x xs. w i (x # xs) = None \<Longrightarrow> jump_free xs \<Longrightarrow> \<not> is_jump (opcode x) \<Longrightarrow>
      P (i + 1) (j + 1) xs \<Longrightarrow> P i j (x # xs)"
    and "\<And>i j x xs em k. w i (x # xs) = Some (em, k) \<Longrightarrow> jump_free (x # xs) \<Longrightarrow> 0 < k \<Longrightarrow>
      k \<le> length (x # xs) \<Longrightarrow> length em \<le> k \<Longrightarrow>
      P (i + k) (j + length em) (drop k (x # xs)) \<Longrightarrow> P i j (x # xs)"
  shows "P i j is"
  using assms(1)
proof (induction "length is" arbitrary: i j "is" rule: less_induct)
  case less
  show ?case
  proof (cases "is")
    case Nil
    with assms(2) show ?thesis by simp
  next
    case (Cons x xs)
    show ?thesis
    proof (cases "w i is")
      case None
      with less Cons assms(3) show ?thesis by simp
    next
      case (Some a)
      obtain em k where a: "a = (em, k)" by fastforce
      with size [of i "is" em k] Some less have k: "0 < k" "k \<le> length is" "length em \<le> k" by simp_all
      then have "P (i + k) (j + length em) (drop k is)" using less Cons by simp
      with assms(4) [of i x xs em k j] Some a k less.prems Cons show ?thesis by simp
    qed
  qed
qed

lemma pass_length: "jump_free is \<Longrightarrow> length (fst (window_pass w i is)) \<le> length is" for j :: nat
proof (induction i j "is" rule: pass_induct)
  case (Some i j x xs em k)
  then show ?case using turn_Some [OF Some(1,2)] by (simp del: window_pass.simps)
qed (simp_all add: turn_None del: window_pass.simps(2))

lemma boundary:
  assumes "jump_free is" "(b, y) \<in> set (boundaries w i j is)"
  shows "i \<le> b \<and> b \<le> i + length is \<and> j \<le> y \<and> y - j \<le> length (fst (window_pass w i is)) \<and>
    fst (window_pass w b (drop (b - i) is)) = drop (y - j) (fst (window_pass w i is))"
  using assms
proof (induction i j "is" rule: pass_induct)
  case (None i j x xs)
  show ?case
  proof (cases "(b, y) = (i, j)")
    case False
    with None show ?thesis
      by (auto simp: turn_None [OF None(1)] drop_Cons' diff_le_mono simp del: window_pass.simps boundaries.simps)
  qed simp
next
  case (Some i j x xs em k)
  show ?case
  proof (cases "(b, y) = (i, j)")
    case False
    with Some show ?thesis
      by (auto simp: turn_Some [OF Some(1,2)] simp del: window_pass.simps boundaries.simps drop_Cons')
  qed simp
qed simp

lemma boundary_next:
  assumes "jump_free is" "(b, y) \<in> set (boundaries w i j is)" "b < i + length is"
  shows "case w b (drop (b - i) is) of
      None \<Rightarrow> (b + 1, y + 1) \<in> set (boundaries w i j is)
    | Some (em, k) \<Rightarrow> (b + k, y + length em) \<in> set (boundaries w i j is)"
  using assms
proof (induction i j "is" rule: pass_induct)
  case (None i j x xs)
  have first: "(i, j) \<in> set (boundaries w i j is)" for i j "is" by (cases "is") simp_all
  show ?case
  proof (cases "(b, y) = (i, j)")
    case True
    with None first [of "i + 1" "j + 1" xs] show ?thesis by (simp add: turn_None [OF None(1)] del: boundaries.simps)
  next
    case False
    with None have b: "(b, y) \<in> set (boundaries w (i + 1) (j + 1) xs)"
      by (auto simp: turn_None [OF None(1)] simp del: boundaries.simps)
    from boundary [OF None(2) this] have "i + 1 \<le> b" by simp
    then have "drop (b - i) (x # xs) = drop (b - (i + 1)) xs" by (simp add: drop_Cons')
    with None b show ?thesis
      by (auto simp: turn_None [OF None(1)] simp del: boundaries.simps split: option.split)
  qed
next
  case (Some i j x xs em k)
  have first: "(i, j) \<in> set (boundaries w i j is)" for i j "is" by (cases "is") simp_all
  note turn = turn_Some [OF Some(1,2)]
  show ?case
  proof (cases "(b, y) = (i, j)")
    case True
    with Some(1) first [of "i + k" "j + length em" "drop k (x # xs)"] show ?thesis
      by (simp add: turn del: boundaries.simps)
  next
    case False
    with Some have b: "(b, y) \<in> set (boundaries w (i + k) (j + length em) (drop k (x # xs)))"
      by (auto simp: turn simp del: boundaries.simps)
    from boundary [OF _ this] Some(2) have "i + k \<le> b" by simp
    then have d: "drop (b - (i + k)) (drop k (x # xs)) = drop (b - i) (x # xs)" by (simp add: algebra_simps del: drop_Cons')
    have "b < i + k + length (drop k (x # xs))" using Some by simp
    from Some.IH [OF b this] show ?thesis
      unfolding d by (auto simp: turn simp del: boundaries.simps split: option.split)
  qed
qed simp

lemma boundary_unique:
  assumes "jump_free is" "(b, y) \<in> set (boundaries w i j is)"
  shows "map_of (boundaries w i j is) b = Some y"
  using assms
proof (induction i j "is" rule: pass_induct)
  case (None i j x xs)
  show ?case
  proof (cases "(b, y) = (i, j)")
    case False
    with None have "(b, y) \<in> set (boundaries w (i + 1) (j + 1) xs)"
      by (auto simp: turn_None [OF None(1)] simp del: boundaries.simps)
    with boundary [OF None(2) this] None show ?thesis
      by (auto simp: turn_None [OF None(1)] simp del: boundaries.simps)
  qed simp
next
  case (Some i j x xs em k)
  note turn = turn_Some [OF Some(1,2)]
  show ?case
  proof (cases "(b, y) = (i, j)")
    case False
    with Some have b: "(b, y) \<in> set (boundaries w (i + k) (j + length em) (drop k (x # xs)))"
      by (auto simp: turn simp del: boundaries.simps)
    with boundary [OF _ this] Some show ?thesis
      by (auto simp: turn simp del: boundaries.simps)
  qed simp
qed simp

text \<open>The same facts about a whole pass, by position.\<close>

abbreviation out :: "instruction list \<Rightarrow> instruction list" where
  "out is \<equiv> fst (window_pass w 0 is)"

definition stop :: "instruction list \<Rightarrow> nat \<Rightarrow> bool" where
  "stop is b \<longleftrightarrow> b \<in> fst ` set (boundaries w 0 0 is)"

lemma stop_position: "jump_free is \<Longrightarrow> stop is b \<Longrightarrow> (b, new_position w is b) \<in> set (boundaries w 0 0 is)"
  by (auto simp: stop_def new_position_def boundary_unique)

lemma stop_0 [simp]: "stop is 0" "new_position w is 0 = 0"
  by (cases "is"; simp add: stop_def new_position_def)+

lemma stop_range:
  assumes "jump_free is" "stop is b"
  shows "b \<le> length is" "new_position w is b \<le> length (out is)"
    "drop (new_position w is b) (out is) = fst (window_pass w b (drop b is))"
  using boundary [OF assms(1) stop_position [OF assms]] by simp_all

lemma stop_next:
  assumes "jump_free is" "stop is b" "b < length is"
  shows "case w b (drop b is) of
      None \<Rightarrow> stop is (b + 1) \<and> new_position w is (b + 1) = new_position w is b + 1 \<and>
        new_position w is b < length (out is) \<and> out is ! new_position w is b = is ! b
    | Some (em, k) \<Rightarrow> stop is (b + k) \<and> new_position w is (b + k) = new_position w is b + length em \<and>
        take (length em) (drop (new_position w is b) (out is)) = em"
proof -
  have next_pos: "stop is b'" "new_position w is b' = y'" if "(b', y') \<in> set (boundaries w 0 0 is)" for b' y'
    using that boundary_unique [OF assms(1) that] by (force simp: stop_def new_position_def)+
  have drop: "drop b is = is ! b # drop (Suc b) is" using assms(3) by (simp add: Cons_nth_drop_Suc)
  have free: "jump_free (is ! b # drop (Suc b) is)" using assms(1) drop by (metis jump_free_simps(3))
  note here = boundary_next [OF assms(1) stop_position [OF assms(1,2)]]
  show ?thesis
  proof (cases "w b (drop b is)")
    case None
    then have "w b (is ! b # drop (Suc b) is) = None" by (simp add: drop)
    from turn_None(2) [OF this] stop_range(3) [OF assms(1,2)]
    have d: "drop (new_position w is b) (out is) = is ! b # fst (window_pass w (b + 1) (drop (Suc b) is))"
      by (simp add: drop)
    then have "new_position w is b < length (out is)" by (metis drop_eq_Nil leI list.distinct(1))
    moreover have "out is ! new_position w is b = is ! b" using d by (rule nth_via_drop)
    ultimately show ?thesis using here None assms(3) next_pos by simp
  next
    case (Some a)
    obtain em k where a: "a = (em, k)" by fastforce
    with Some have "w b (is ! b # drop (Suc b) is) = Some (em, k)" by (simp add: drop)
    from turn_Some(2) [OF this free] stop_range(3) [OF assms(1,2)]
    have "take (length em) (drop (new_position w is b) (out is)) = em" by (simp add: drop)
    with here Some a assms(3) next_pos show ?thesis by simp
  qed
qed

end

section \<open>Programs a pass may rewrite\<close>

text \<open>
  A valid program without jumps whose functions start at the first instruction, and which handles
  32-bit values only: it allocates no arrays and does not read locals through a reference.
\<close>

definition scalar_program :: "compiled_program \<Rightarrow> bool" where
  "scalar_program p \<longleftrightarrow>
     (\<forall>i \<in> set (instructions p). opcode i \<notin> {Op_LocalArrayLoad, Op_AllocArray, Op_ArrayNew})"

definition foldable :: "compiled_program \<Rightarrow> bool" where
  "foldable p \<longleftrightarrow> validate_program p = None \<and> typed_program p \<and> scalar_program p \<and>
     jump_free (instructions p) \<and> (\<forall>(_, f) \<in> set (prog_functions p). entry_pc f = 0)"

definition int_state :: "vm \<Rightarrow> bool" where
  "int_state s \<longleftrightarrow> vm_ok s \<and> values_sat is_i32 s \<and> vlen (vm_locals s) = MAX_LOCAL_SLOTS"

lemma locals_kept:
  assumes "opc \<notin> {Op_AllocArray, Op_ArrayNew}"
  shows "post (execute_instruction p opc a1 a2 s) (\<lambda>_ t. vlen (vm_locals t) = vlen (vm_locals s)) (\<lambda>_ _. True)"
proof (cases "opc = Op_Call")
  case True
  then show ?thesis by (auto simp: same_frames_def intro!: exec_call_post)
next
  case False
  with assms show ?thesis
    by (cases opc) (auto simp: exec_defs wp_simps Let_def split: list.split)
qed

lemma int_execute:
  assumes "int_state s" "functions_valid p" "is_i32 a1" "opc \<notin> {Op_LocalArrayLoad, Op_AllocArray, Op_ArrayNew}"
    and "execute_instruction p opc a1 a2 s = (Inr b, t)"
  shows "int_state t"
  using assms(1,4) post_Inr [OF execute_ok assms(5)] post_Inr [OF locals_kept assms(5)]
    post_Inr [OF small_values.execute_values [OF _ _ assms(2,3)] assms(5)]
  by (simp add: int_state_def limit_defs)

lemma int_state_fields [simp]:
  "int_state (s\<lparr>vm_cycles := c\<rparr>) = int_state s" "int_state (s\<lparr>vm_pc := i\<rparr>) = int_state s"
  "int_state (advance i c s) = int_state s"
  by (simp_all add: int_state_def vm_ok_def values_sat_def advance_def)

lemma int_block:
  assumes "\<forall>i \<in> set blk. stack_op (opcode i) \<and> is_i32 (arg1 i)" "functions_valid p" "int_state s"
    and "run_block p blk s = (Inr (), t)"
  shows "int_state t"
  using assms
proof (induction blk arbitrary: s)
  case (Cons i blk)
  from Cons.prems(4) obtain b u where u: "execute_instruction p (opcode i) (arg1 i) (arg2 i) s = (Inr b, u)"
      "run_block p blk u = (Inr (), t)"
    by (auto simp: bnd_Inr_conv)
  have "int_state u"
    using Cons.prems(1) by (intro int_execute [OF Cons.prems(3,2) _ _ u(1)]) (auto simp: stack_op_def)
  with Cons u(2) show ?case by simp
qed simp

lemma block_control:
  assumes "\<forall>i \<in> set blk. stack_op (opcode i)" "run_block p blk s = (Inr (), t)"
  shows "t = s\<lparr>vm_stack := vm_stack t\<rparr>"
  using assms
proof (induction blk arbitrary: s)
  case (Cons i blk)
  from Cons.prems(2) obtain b u where u: "execute_instruction p (opcode i) (arg1 i) (arg2 i) s = (Inr b, u)"
      "run_block p blk u = (Inr (), t)"
    by (auto simp: bnd_Inr_conv)
  have "stack_op (opcode i)" using Cons.prems(1) by simp
  from post_Inr [OF stack_op_effect [OF this] u(1)] Cons.IH [OF _ u(2)] Cons.prems(1)
  show ?case by (metis list.set_intros(2) vm.surjective vm.update_convs(1) vm.select_convs(1))
qed simp

lemma validate_program_length: "validate_program p = None \<Longrightarrow> length (instructions p) \<le> MAX_INSTRUCTIONS"
  by (simp add: validate_program_def split: if_splits)

lemma int_state_start: "int_state (vm_start f (with_max_cycles k vm_new))"
  by (auto simp: int_state_def vm_ok_def values_sat_def vm_start_def with_max_cycles_def vm_new_def limit_defs
      i64_min_def is_i32_def)

text \<open>Two successes with the same result, the second in no more cycles.\<close>

definition same_success :: "vm_exit \<Rightarrow> vm_exit \<Rightarrow> bool" where
  "same_success e e' \<longleftrightarrow> (\<exists>r r'. fst e = Inr r \<and> fst e' = Inr r' \<and> success r \<and>
     r'\<lparr>res_pc := 0, res_cycles := 0, trap_message := []\<rparr> =
       r\<lparr>res_pc := 0, res_cycles := 0, trap_message := []\<rparr> \<and> res_cycles r' \<le> res_cycles r)"

lemma same_success_trans: "same_success e e' \<Longrightarrow> same_success e' e'' \<Longrightarrow> same_success e e''"
  unfolding same_success_def by (metis Inr_inject order_trans)

lemma same_success_succeeds:
  assumes "same_success e e'"
  shows "succeeds e" "succeeds e'"
proof -
  from assms obtain r r' where r: "fst e = Inr r" "fst e' = Inr r'" "success r"
      "r'\<lparr>res_pc := 0, res_cycles := 0, trap_message := []\<rparr> =
       r\<lparr>res_pc := 0, res_cycles := 0, trap_message := []\<rparr>"
    by (auto simp: same_success_def)
  from r(3,4) have "success r'" by (cases r; cases r') simp
  with r show "succeeds e" "succeeds e'" by (auto simp: succeeds_def)
qed

lemma same_success_moved:
  assumes "succeeds e" "\<And>r. fst e = Inr r \<Longrightarrow> c \<le> res_cycles r"
  shows "same_success e (move_exit pos x c e)"
  using assms by (cases "fst e") (auto simp: same_success_def succeeds_def move_exit_def)

section \<open>Running the rewritten program\<close>

lemma advance_relocate [simp]: "advance x c (relocate pos y d s) = relocate pos x c s"
  by (simp add: advance_def relocate_def)

context window_rewrite
begin

definition rewritten :: "compiled_program \<Rightarrow> compiled_program" where
  "rewritten p = moved_program p (new_position w (instructions p)) (out (instructions p))"

definition in_step :: "compiled_program \<Rightarrow> vm \<Rightarrow> vm \<Rightarrow> bool" where
  "in_step p s s' \<longleftrightarrow> (let pos = new_position w (instructions p) in
     (\<exists>c. s' = relocate pos (pos (vm_pc s)) c s \<and> c \<le> vm_cycles s) \<and>
     stop (instructions p) (vm_pc s) \<and> targets_of s \<subseteq> {b. stop (instructions p) b} \<and>
     vm_trace s = None \<and> vm_calls s \<noteq> [] \<and> int_state s)"

text \<open>A window: both machines run a block.\<close>

lemma window_in_step:
  assumes p: "foldable p" and rel: "in_step p s s'" and pc: "vm_pc s < length (instructions p)"
    and win: "w (vm_pc s) (drop (vm_pc s) (instructions p)) = Some (em, k)"
    and run: "turns (vm_step p) n s = Inl r" "succeeds r"
  shows "\<exists>t t'. 0 < k \<and> turns (vm_step p) k s = Inr t \<and>
    turns (vm_step (rewritten p)) (length em) s' = Inr t' \<and> in_step p t t'"
proof -
  let ?is = "instructions p" and ?pos = "new_position w (instructions p)"
  let ?blk = "take k (drop (vm_pc s) ?is)"
  from p have free: "jump_free ?is" and valid: "functions_valid p" and typed: "typed_program p"
    by (auto simp: foldable_def dest: validate_program_functions)
  then have free': "jump_free (drop (vm_pc s) ?is)" by simp
  from rel obtain c where s': "s' = relocate ?pos (?pos (vm_pc s)) c s" and c: "c \<le> vm_cycles s"
    and st: "stop ?is (vm_pc s)" "vm_trace s = None" "vm_calls s \<noteq> []" "int_state s"
      "targets_of s \<subseteq> {b. stop ?is b}"
    by (auto simp: in_step_def Let_def)
  from size [OF win free'] have k: "0 < k" "length ?blk = k" "length em \<le> k" by auto
  have ops: "\<forall>x \<in> set ?blk. stack_op (opcode x)" "\<forall>x \<in> set em. stack_op (opcode x)"
    using window_rewrite.ops [OF window_rewrite_axioms win free'] by auto
  have blk: "take (length ?blk) (drop (vm_pc s) ?is) = ?blk" by (simp only: k(2))
  from block_before_success [OF blk ops(1) st(2,3) run] obtain t where
    budget: "in_budget k s" and t: "run_block p ?blk s = (Inr (), t)"
    using k(2) by auto
  have old: "turns (vm_step p) k s = Inr (advance (vm_pc s + k) (vm_cycles s + k) t)"
    using turns_block [OF blk ops(1) st(2,3) _ t] budget unfolding k(2) by blast
  have ints: "\<forall>v \<in> set (vm_stack s). is_i32 v" using st(4) by (simp add: int_state_def values_sat_def)
  have "run_block p em s = (Inr (), t)" by (rule effect [OF win free' ints t])
  then have em: "run_block (rewritten p) em s' = (Inr (), relocate ?pos (?pos (vm_pc s)) c t)"
    using relocation_block [OF moved.relocation_axioms ops(2)] by (simp add: rewritten_def s')
  note next_stop = stop_next [OF free st(1) pc, unfolded win, simplified]
  have "in_budget (length em) s'" using budget c k(3) by (auto simp: in_budget_def s')
  then have new: "turns (vm_step (rewritten p)) (length em) s' =
      Inr (relocate ?pos (?pos (vm_pc s) + length em) (c + length em) t)"
    using turns_block [OF _ ops(2) _ _ _ em] next_stop st by (simp add: rewritten_def s')
  have "t = s\<lparr>vm_stack := vm_stack t\<rparr>" by (rule block_control [OF ops(1) t])
  then have same: "vm_calls t = vm_calls s" "vm_trace t = None" using st(2)
    by (metis vm.select_convs vm.surjective vm.update_convs(1))+
  have "\<forall>x \<in> set ?blk. stack_op (opcode x) \<and> is_i32 (arg1 x)"
    using ops(1) typed by (auto simp: typed_program_def dest!: in_set_takeD in_set_dropD)
  then have "int_state t" by (rule int_block [OF _ valid st(4) t])
  then have "in_step p (advance (vm_pc s + k) (vm_cycles s + k) t)
      (relocate ?pos (?pos (vm_pc s) + length em) (c + length em) t)"
    using next_stop same st c k(3) by (auto simp: in_step_def Let_def targets_of_def intro!: exI [of _ "c + length em"])
  with old new k(1) show ?thesis by blast
qed

text \<open>A copied instruction: both machines run it.\<close>

lemma copied_in_step:
  assumes p: "foldable p" and rel: "in_step p s s'" and pc: "vm_pc s < length (instructions p)"
    and win: "w (vm_pc s) (drop (vm_pc s) (instructions p)) = None"
    and limit: "in_budget 1 s"
  shows "(\<forall>r. vm_step p s = Inl r \<longrightarrow> succeeds r \<longrightarrow>
      (\<exists>r'. turns (vm_step (rewritten p)) 1 s' = Inl r' \<and> same_success r r')) \<and>
    (\<forall>t. vm_step p s = Inr t \<longrightarrow>
      (\<exists>t'. turns (vm_step (rewritten p)) 1 s' = Inr t' \<and> in_step p t t'))"
proof -
  let ?is = "instructions p" and ?pos = "new_position w (instructions p)"
  let ?k = "vm_pc s"
  let ?i = "?is ! ?k"
  from p have free: "jump_free ?is" and valid: "functions_valid p" and typed: "typed_program p"
    and scalar: "scalar_program p" and small: "length ?is \<le> MAX_INSTRUCTIONS"
    and entry0: "\<And>j f. fun_lookup p j = Some f \<Longrightarrow> entry_pc f = 0"
    by (auto simp: foldable_def fun_lookup_def dest: validate_program_functions validate_program_length
        map_of_SomeD)
  from rel obtain c where s': "s' = relocate ?pos (?pos ?k) c s" and c: "c \<le> vm_cycles s"
    and st: "stop ?is ?k" "vm_trace s = None" "vm_calls s \<noteq> []" "int_state s"
      "targets_of s \<subseteq> {b. stop ?is b}"
    by (auto simp: in_step_def Let_def)
  note next_stop = stop_next [OF free st(1) pc, unfolded win, simplified]
  have i: "?i \<in> set ?is" using pc by simp
  then have no_jump: "\<not> is_jump (opcode ?i)" using free by (simp add: jump_free_def)
  have bound: "stop ?is b \<Longrightarrow> b < usize_max \<and> ?pos b < usize_max" for b
    using stop_range [OF free, of b] pass_length [OF free, of 0] small by (simp add: limit_defs usize_max_def)
  obtain res t where exec: "exec_current p s = (res, t)" by fastforce
  have code: "instructions (rewritten p) ! ?pos ?k = ?i" using next_stop by (simp add: rewritten_def)
  have "\<exists>x'. exec_current (rewritten p) s' = (res, relocate ?pos x' (Suc c) t) \<and>
      targets_of t \<subseteq> targets_of s \<union> (if opcode ?i = Op_Call then {?k + 1} else {}) \<and>
      (if res = Inr False \<and> vm_calls t \<noteq> []
       then x' = ?pos ?k \<and> vm_pc t = ?k \<or>
            is_jump (opcode ?i) \<and> vm_pc t = as_usize (arg1 ?i) \<and> x' = as_usize (arg1 ?i) \<or>
            (\<exists>j f. fun_lookup p j = Some f \<and> vm_pc t = entry_pc f \<and> x' = ?pos (entry_pc f)) \<or>
            vm_pc t \<in> targets_of s \<and> x' = ?pos (vm_pc t)
       else res \<noteq> Inr False \<longrightarrow> x' = ?pos ?k \<and> vm_pc t = ?k)"
    unfolding s' rewritten_def
  proof (rule moved.exec_moved [OF refl _ _ _ _ exec])
    show "instructions (moved_program p ?pos (out ?is)) ! ?pos ?k = ?i"
      using code by (simp add: rewritten_def)
    show "moved_instruction ?i ?i" by (simp add: moved_instruction_def)
    show "?pos (?k + 1) = ?pos ?k + 1 \<and> ?k + 1 \<noteq> usize_max" using next_stop bound [of "?k + 1"] by simp
    show "?pos r \<noteq> usize_max" if "r \<in> targets_of s" for r using that st(5) bound [of r] by auto
  qed
  then obtain x' where e: "exec_current (rewritten p) s' = (res, relocate ?pos x' (Suc c) t)"
    and tgt: "targets_of t \<subseteq> targets_of s \<union> (if opcode ?i = Op_Call then {?k + 1} else {})"
    and x': "if res = Inr False \<and> vm_calls t \<noteq> []
       then x' = ?pos ?k \<and> vm_pc t = ?k \<or>
            is_jump (opcode ?i) \<and> vm_pc t = as_usize (arg1 ?i) \<and> x' = as_usize (arg1 ?i) \<or>
            (\<exists>j f. fun_lookup p j = Some f \<and> vm_pc t = entry_pc f \<and> x' = ?pos (entry_pc f)) \<or>
            vm_pc t \<in> targets_of s \<and> x' = ?pos (vm_pc t)
       else res \<noteq> Inr False \<longrightarrow> x' = ?pos ?k \<and> vm_pc t = ?k" by blast
  have t: "vm_cycles t = Suc (vm_cycles s)" "vm_trace t = None"
    using exec_current_control [OF exec] st(2) by simp_all
  let ?st = "fetch_step ?i s" and ?y = "if res = Inr True then x' + 1 else x'"
  have lim: "\<not> (0 < vm_max_cycles s \<and> vm_max_cycles s \<le> vm_cycles s)"
      "\<not> (0 < vm_max_cycles s' \<and> vm_max_cycles s' \<le> vm_cycles s')"
    using limit c by (auto simp: in_budget_def s')
  have old: "vm_step p s = after_instruction ?st (res, t)"
    using pc lim(1) exec by (auto simp: vm_step_def)
  have "vm_pc s' < length (instructions (rewritten p))" using next_stop by (simp add: s' rewritten_def)
  then have "vm_step (rewritten p) s' =
      after_instruction (fetch_step (instructions (rewritten p) ! vm_pc s') s') (exec_current (rewritten p) s')"
    using lim(2) by (auto simp: vm_step_def)
  then have new: "vm_step (rewritten p) s' =
      map_sum (move_exit ?pos ?y (Suc c)) (relocate ?pos ?y (Suc c)) (after_instruction ?st (res, t))"
    by (simp only: e after_moved [OF t(2) refl, where st = ?st])
  show ?thesis
  proof (intro conjI allI impI)
    fix r
    assume r: "vm_step p s = Inl r" "succeeds r"
    with old have a: "after_instruction ?st (res, t) = Inl r" by simp
    with new have "turns (vm_step (rewritten p)) 1 s' = Inl (move_exit ?pos ?y (Suc c) r)" by simp
    moreover have "same_success r (move_exit ?pos ?y (Suc c) r)"
      using r(2) after_Inl_cycles [OF t(2) a] c t(1) by (intro same_success_moved) simp_all
    ultimately show "\<exists>r'. turns (vm_step (rewritten p)) 1 s' = Inl r' \<and> same_success r r'" by blast
  next
    fix u
    assume u: "vm_step p s = Inr u"
    with old have "after_instruction ?st (res, t) = Inr u" by simp
    then have u': "vm_calls t \<noteq> []" "res = Inr True \<and> u = t\<lparr>vm_pc := vm_pc t + 1\<rparr> \<or> res = Inr False \<and> u = t"
      by (simp_all add: after_Inr_iff [OF t(2)])
    have "\<exists>b. execute_instruction p (opcode ?i) (arg1 ?i) (arg2 ?i) (s\<lparr>vm_cycles := vm_cycles s + 1\<rparr>) = (Inr b, t)"
      using exec u'(2) by (auto simp: exec_current_def Let_def)
    then have int: "int_state t"
      using int_execute [of "s\<lparr>vm_cycles := vm_cycles s + 1\<rparr>" p "arg1 ?i" "opcode ?i"] st(4) valid typed scalar i
      by (auto simp: typed_program_def scalar_program_def)
    have "stop ?is (vm_pc u) \<and> ?y = ?pos (vm_pc u)"
      using u'(2)
    proof (elim disjE conjE)
      assume "res = Inr True" "u = t\<lparr>vm_pc := vm_pc t + 1\<rparr>"
      with x' next_stop show ?thesis by simp
    next
      assume res: "res = Inr False" "u = t"
      with x' u'(1) no_jump consider "x' = ?pos ?k" "vm_pc t = ?k"
        | j f where "fun_lookup p j = Some f" "vm_pc t = entry_pc f" "x' = ?pos (entry_pc f)"
        | "vm_pc t \<in> targets_of s" "x' = ?pos (vm_pc t)"
        by auto
      then show ?thesis using st(1,5) res entry0 by cases auto
    qed
    moreover have "targets_of u = targets_of t" "vm_trace u = None" "vm_calls u \<noteq> []" "int_state u"
      "vm_cycles u = Suc (vm_cycles s)"
      using u' int t by (auto simp: targets_of_def)
    moreover have "targets_of t \<subseteq> {b. stop ?is b}" using tgt st(5) next_stop by (auto split: if_splits)
    ultimately have "in_step p u (relocate ?pos ?y (Suc c) u)"
      using c by (auto simp: in_step_def Let_def)
    moreover have "turns (vm_step (rewritten p)) 1 s' = Inr (relocate ?pos ?y (Suc c) u)"
      using new \<open>after_instruction ?st (res, t) = Inr u\<close> by simp
    ultimately show "\<exists>t'. turns (vm_step (rewritten p)) 1 s' = Inr t' \<and> in_step p u t'" by blast
  qed
qed

lemma run_in_step:
  assumes p: "foldable p" and rel: "in_step p s s'" and ret: "iterate (vm_step p) s = Some e" "succeeds e"
  shows "\<exists>e'. iterate (vm_step (rewritten p)) s' = Some e' \<and> same_success e e'"
proof (rule iterate_simulation [where R = "in_step p", OF rel ret(1)])
  fix s s' n
  assume rel: "in_step p s s'" and run: "turns (vm_step p) n s = Inl e"
  obtain m where n: "n = Suc m" using run by (cases n) auto
  have limit: "in_budget 1 s" and pc: "vm_pc s < length (instructions p)"
    using run ret(2) by (auto simp: n in_budget_def vm_step_def split: if_splits)
  show "(\<exists>r'. turns (vm_step (rewritten p)) 1 s' = Inl r' \<and> same_success e r') \<or>
    (\<exists>k t j t'. 0 < k \<and> turns (vm_step p) k s = Inr t \<and> turns (vm_step (rewritten p)) j s' = Inr t' \<and> in_step p t t')"
  proof (cases "w (vm_pc s) (drop (vm_pc s) (instructions p))")
    case (Some a)
    obtain em k where "a = (em, k)" by fastforce
    with window_in_step [OF p rel pc _ run ret(2)] Some show ?thesis by blast
  next
    case None
    note step = copied_in_step [OF p rel pc None limit]
    show ?thesis
    proof (cases "vm_step p s")
      case (Inl r)
      with run n have "r = e" by simp
      with step Inl ret(2) show ?thesis by blast
    next
      case (Inr t)
      with step obtain t' where "turns (vm_step (rewritten p)) 1 s' = Inr t'" "in_step p t t'" by blast
      moreover have "turns (vm_step p) 1 s = Inr t" using Inr by simp
      ultimately show ?thesis by (metis zero_less_one)
    qed
  qed
qed

text \<open>The rewritten program is again one a pass may rewrite.\<close>

lemma pass_instructions:
  "jump_free is \<Longrightarrow> \<forall>x \<in> set (fst (window_pass w i is)).
     x \<in> set is \<or> stack_op (opcode x) \<and> is_i32 (arg1 x) \<and> is_i32 (arg2 x)" for j :: nat
proof (induction i j "is" rule: pass_induct)
  case (None i j x xs)
  then show ?case by (simp add: turn_None del: window_pass.simps)
next
  case (Some i j x xs em k)
  have "set (drop k (x # xs)) \<subseteq> set (x # xs)" by (rule set_drop_subset)
  with Some.IH ops [OF Some(1,2)] show ?case
    unfolding turn_Some(2) [OF Some(1,2)] set_append by blast
qed simp

lemma rewritten_program:
  assumes "foldable p"
  shows "rewritten p = p\<lparr>instructions := out (instructions p)\<rparr>"
proof -
  have "move_entries (\<lambda>e. Some (new_position w (instructions p) e)) fs = fs"
    if "\<forall>(_, f) \<in> set fs. entry_pc f = 0" for fs
    using that by (induction fs) (auto simp: split_beta)
  with assms show ?thesis by (simp add: rewritten_def moved_program_def foldable_def)
qed

lemma rewritten_foldable:
  assumes "foldable p"
  shows "foldable (rewritten p)"
proof -
  from assms have free: "jump_free (instructions p)" by (simp add: foldable_def)
  note new = pass_instructions [OF free, of 0]
  have "validate_program (rewritten p) = None"
    using assms pass_length [OF free] unfolding rewritten_def by (intro moved_validate) (simp_all add: foldable_def)
  moreover have "typed_program (rewritten p)" "scalar_program (rewritten p)" "jump_free (instructions (rewritten p))"
    using assms new
    by (auto simp: rewritten_program foldable_def typed_program_def scalar_program_def jump_free_def stack_op_def
        is_jump_def)
  ultimately show ?thesis
    using assms unfolding foldable_def by (auto simp: rewritten_program [OF assms])
qed

lemma pass_preserves_success:
  assumes p: "foldable p" and run: "vm_run p (with_max_cycles k vm_new) = Some e" "succeeds e"
  shows "\<exists>e'. vm_run (rewritten p) (with_max_cycles k vm_new) = Some e' \<and> same_success e e'"
proof -
  let ?s = "with_max_cycles k vm_new"
  from run obtain f where f: "fun_lookup p (main_func_id p) = Some f"
      "iterate (vm_step p) (vm_start f ?s) = Some e" "local_count f \<le> MAX_LOCAL_SLOTS"
    by (auto simp: vm_run_def split: option.splits if_splits)
  have entry: "entry_pc f = 0" using p f(1) by (auto simp: foldable_def fun_lookup_def dest: map_of_SomeD)
  have "in_step p (vm_start f ?s) (vm_start f ?s)"
    using entry int_state_start [of f k]
    by (auto simp: in_step_def Let_def vm_start_def with_max_cycles_def vm_new_def relocate_def move_frame_def
        targets_of_def)
  from run_in_step [OF p this f(2) run(2)] obtain e' where
    "iterate (vm_step (rewritten p)) (vm_start f ?s) = Some e'" "same_success e e'" by blast
  moreover have "fun_lookup (rewritten p) (main_func_id (rewritten p)) = Some f"
    using f(1) by (simp add: rewritten_program [OF p] fun_lookup_def)
  moreover have "validate_program (rewritten p) = None" using rewritten_foldable [OF p] by (simp add: foldable_def)
  ultimately show ?thesis using f(3) by (auto simp: vm_run_def)
qed

end

section \<open>The three passes\<close>

lemma wrap32_bool [simp]: "wrap32 (if b then 1 else 0) = (if b then 1 else 0)" "wrap32 0 = 0" "wrap32 1 = 1"
  by (simp_all add: wrap32_def)

lemma wrap32_wrap32 [simp]: "wrap32 (wrap32 v) = wrap32 v"
  by (simp add: wrap32_id wrap32_range)

lemma wrap32_normalize [simp]: "wrap32 (normalize_i32 v) = normalize_i32 v"
  by (simp add: wrap32_id)

text \<open>What the machine computes for a binary instruction is what the optimiser folds.\<close>

lemma load_effect:
  "run_block p (i # is) s = (Inr (), t) \<longleftrightarrow>
     length (vm_stack s) < MAX_OPERAND_STACK \<and> run_block p is (s\<lparr>vm_stack := arg1 i # vm_stack s\<rparr>) = (Inr (), t)"
  if "opcode i = Op_LoadConst"
  using that by (auto simp: push_next_def push_def)

lemma single_effect:
  "run_block p [i] s = (Inr (), t) \<longleftrightarrow> (\<exists>b. execute_instruction p (opcode i) (arg1 i) (arg2 i) s = (Inr b, t))"
  by (auto simp: bnd_Inr_conv)

lemma folded_effect:
  assumes v: "folded_value op a b = Some v"
    and run: "execute_instruction p op c d (s\<lparr>vm_stack := b # a # st\<rparr>) = (Inr u, t)" and s: "vm_stack s = st"
  shows "t = s\<lparr>vm_stack := wrap32 v # st\<rparr>"
  using v run s
  by (cases op) (auto simp: folded_value_def push_next_def push_def binary_op_def exec_div_def pop_def truth_def
      normalize_i32_wrap32 split: if_splits)

lemma fold_triple_Some:
  assumes "fold_triple is = Some v"
  obtains i0 i1 i2 rest x where "is = i0 # i1 # i2 # rest" "opcode i0 = Op_LoadConst" "opcode i1 = Op_LoadConst"
    "folded_value (opcode i2) (arg1 i0) (arg1 i1) = Some x" "v = Instruction_new Op_LoadConst (wrap32 x) 0"
  using assms by (auto simp: fold_triple_def split: list.splits if_splits)

lemma fold_pair_Some:
  assumes "fold_pair is = Some v"
  obtains i0 i1 rest where "is = i0 # i1 # rest" "opcode i0 = Op_LoadConst"
    "opcode i1 = Op_Neg \<and> v = Instruction_new Op_LoadConst (wrap32 (normalize_i32 (- arg1 i0))) 0 \<or>
     opcode i1 = Op_Not \<and> v = Instruction_new Op_LoadConst (if arg1 i0 = 0 then 1 else 0) 0"
  using assms by (auto simp: fold_pair_def split: list.splits if_splits)

lemma fold_window_Some:
  assumes "fold_window i is = Some (em, k)"
  obtains (triple) v where "fold_triple is = Some v" "em = [v]" "k = 3"
    | (pair) v where "fold_pair is = Some v" "em = [v]" "k = 2"
  using assms by (auto simp: fold_window_def split: option.splits)

lemma stack_op_intros: "stack_op Op_LoadConst" "stack_op Op_Neg" "stack_op Op_Not"
  by (simp_all add: stack_op_def)

lemma folded_op: "folded_value op a b = Some v \<Longrightarrow> stack_op op"
  by (cases op) (auto simp: folded_value_def stack_op_def)

interpretation folding: window_rewrite fold_window
proof
  fix i "is" em k
  assume w: "fold_window i is = Some (em, k)"
  from w show "0 < k \<and> k \<le> length is \<and> length em \<le> k"
    by (cases rule: fold_window_Some) (auto elim!: fold_triple_Some fold_pair_Some)
  from w show "(\<forall>x \<in> set (take k is). stack_op (opcode x)) \<and>
      (\<forall>x \<in> set em. stack_op (opcode x) \<and> is_i32 (arg1 x) \<and> is_i32 (arg2 x))"
    by (cases rule: fold_window_Some)
      (auto elim!: fold_triple_Some fold_pair_Some simp: folded_op wrap32_range stack_op_intros)
  fix s t :: vm and p
  assume run: "run_block p (take k is) s = (Inr (), t)"
  from w show "run_block p em s = (Inr (), t)"
  proof (cases rule: fold_window_Some)
    case (triple v)
    then obtain i0 i1 i2 rest x where tr: "is = i0 # i1 # i2 # rest" "opcode i0 = Op_LoadConst"
      "opcode i1 = Op_LoadConst" "folded_value (opcode i2) (arg1 i0) (arg1 i1) = Some x"
      "v = Instruction_new Op_LoadConst (wrap32 x) 0" by (elim fold_triple_Some)
    with run triple obtain b where "length (vm_stack s) < MAX_OPERAND_STACK"
      "execute_instruction p (opcode i2) (arg1 i2) (arg2 i2) (s\<lparr>vm_stack := arg1 i1 # arg1 i0 # vm_stack s\<rparr>) = (Inr b, t)"
      by (auto simp: load_effect single_effect simp del: run_block.simps(2))
    with folded_effect [OF tr(4) this(2) refl] triple tr show ?thesis
      by (simp add: load_effect del: run_block.simps(2))
  next
    case (pair v)
    then obtain i0 i1 rest where pr: "is = i0 # i1 # rest" "opcode i0 = Op_LoadConst"
      "opcode i1 = Op_Neg \<and> v = Instruction_new Op_LoadConst (wrap32 (normalize_i32 (- arg1 i0))) 0 \<or>
       opcode i1 = Op_Not \<and> v = Instruction_new Op_LoadConst (if arg1 i0 = 0 then 1 else 0) 0"
      by (elim fold_pair_Some)
    with run pair show ?thesis
      by (auto simp: push_next_def push_def exec_neg_def unary_op_def pop_def truth_def bnd_Inr_conv split: if_splits)
  qed
qed

interpretation strength: window_rewrite strength_window
proof
  fix i "is" em k
  assume w: "strength_window i is = Some (em, k)"
  from w show "0 < k \<and> k \<le> length is \<and> length em \<le> k"
    "(\<forall>x \<in> set (take k is). stack_op (opcode x)) \<and>
      (\<forall>x \<in> set em. stack_op (opcode x) \<and> is_i32 (arg1 x) \<and> is_i32 (arg2 x))"
    by (auto simp: strength_window_def stack_op_def split: list.splits if_splits)
  fix s t :: vm and p
  assume ints: "\<forall>v \<in> set (vm_stack s). is_i32 v" and run: "run_block p (take k is) s = (Inr (), t)"
  from w run ints show "run_block p em s = (Inr (), t)"
    by (cases "vm_stack s")
      (auto simp: strength_window_def push_next_def push_def binary_op_def exec_div_def exec_pop_def pop_def
        is_i32_is_i64 wrap64_id split: list.splits if_splits)
qed

interpretation peephole: window_rewrite peephole_window
proof
  fix i "is" em k
  assume w: "peephole_window i is = Some (em, k)" and free: "jump_free is"
  from w free show "0 < k \<and> k \<le> length is \<and> length em \<le> k"
    "(\<forall>x \<in> set (take k is). stack_op (opcode x)) \<and>
      (\<forall>x \<in> set em. stack_op (opcode x) \<and> is_i32 (arg1 x) \<and> is_i32 (arg2 x))"
    by (auto simp: peephole_window_def stack_op_def is_jump_def split: list.splits if_splits)
  fix s t :: vm and p
  assume run: "run_block p (take k is) s = (Inr (), t)"
  from w free run show "run_block p em s = (Inr (), t)"
    by (auto simp: peephole_window_def push_next_def push_def exec_pop_def pop_def is_jump_def
        split: list.splits if_splits)
qed

end
