(* ===== verification/Dce_Props.thy ===== *)
theory Dce_Props
  imports Relocation
begin

text \<open>
  The elimination of unreachable instructions: its worklist returns the reachable program
  counters, the remaining code is the reachable code moved together, and the machine runs it with
  the same outcome, turn by turn.
\<close>

section \<open>The worklist\<close>

text \<open>
  \<open>closed\<close>: the counters \<open>from\<close> lie among those already found, those still to visit and those
  outside the code.
\<close>

definition found :: "instruction list \<Rightarrow> nat list \<Rightarrow> nat list \<Rightarrow> nat set" where
  "found is wl R = set wl \<union> set R \<union> {length is..}"

definition reach_inv :: "instruction list \<Rightarrow> nat set \<Rightarrow> nat list \<times> nat list \<Rightarrow> bool" where
  "reach_inv is entries w \<longleftrightarrow> (case w of (wl, R) \<Rightarrow>
     set R \<subseteq> {..<length is} \<and> distinct R \<and> entries \<subseteq> found is wl R \<and>
     (\<forall>pc \<in> set R. set (successors pc (is ! pc)) \<subseteq> found is wl R))"

definition reach_budget :: "instruction list \<Rightarrow> nat list \<times> nat list \<Rightarrow> nat" where
  "reach_budget is w = (case w of (wl, R) \<Rightarrow> 3 * (length is - length R) + length wl)"

lemma length_successors: "length (successors pc i) \<le> 2"
  by (auto simp: successors_def split: opcode.split)

interpretation reach_loop: bounded_loop "reach_step is" "reach_inv is entries" "reach_budget is" for "is" entries
proof
  fix "is" :: "instruction list" and entries w and w' :: "nat list \<times> nat list"
  assume inv: "reach_inv is entries w" and step: "reach_step is w = Inr w'"
  from step obtain pc wl R where w: "w = (pc # wl, R)"
    by (cases w) (auto simp: reach_step_def split: list.splits)
  show "reach_inv is entries w'"
  proof (cases "pc \<ge> length is \<or> pc \<in> set R")
    case True
    with inv step show ?thesis by (auto simp: w reach_step_def reach_inv_def found_def)
  next
    case False
    let ?wl = "successors pc (is ! pc) @ wl"
    have grow: "found is (pc # wl) R \<subseteq> found is ?wl (pc # R)" "set (successors pc (is ! pc)) \<subseteq> found is ?wl (pc # R)"
      by (auto simp: found_def)
    have w': "w' = (?wl, pc # R)" using step False by (simp add: w reach_step_def)
    have "entries \<subseteq> found is ?wl (pc # R)"
      using inv grow(1) by (auto simp: w reach_inv_def)
    moreover have "\<forall>q \<in> set (pc # R). set (successors q (is ! q)) \<subseteq> found is ?wl (pc # R)"
    proof
      fix q
      assume "q \<in> set (pc # R)"
      then consider "q = pc" | "q \<in> set R" by auto
      then show "set (successors q (is ! q)) \<subseteq> found is ?wl (pc # R)"
      proof cases
        case 2
        then have "set (successors q (is ! q)) \<subseteq> found is (pc # wl) R" using inv by (simp add: w reach_inv_def)
        with grow(1) show ?thesis by (rule subset_trans [rotated])
      qed (simp add: grow)
    qed
    ultimately show ?thesis using inv False by (simp add: w w' reach_inv_def)
  qed
  show "reach_budget is w' < reach_budget is w"
  proof (cases "pc \<ge> length is \<or> pc \<in> set R")
    case True
    with step show ?thesis by (auto simp: w reach_step_def reach_budget_def)
  next
    case False
    have "distinct (pc # R)" "set (pc # R) \<subseteq> {..<length is}"
      using inv False by (auto simp: w reach_inv_def)
    then have "length (pc # R) \<le> length is"
      using card_mono [of "{..<length is}" "set (pc # R)"] by (simp add: distinct_card)
    with False step length_successors [of pc "is ! pc"] show ?thesis
      by (auto simp: w reach_step_def reach_budget_def)
  qed
qed

text \<open>What the worklist computes.\<close>

definition reachable_code :: "instruction list \<Rightarrow> nat set \<Rightarrow> nat list \<Rightarrow> bool" where
  "reachable_code is entries R \<longleftrightarrow>
     set R \<subseteq> {..<length is} \<and> distinct R \<and> (\<forall>e \<in> entries. e < length is \<longrightarrow> e \<in> set R) \<and>
     (\<forall>pc \<in> set R. \<forall>q \<in> set (successors pc (is ! pc)). q < length is \<longrightarrow> q \<in> set R)"

abbreviation entries_of :: "(usize \<times> function_info) list \<Rightarrow> nat set" where
  "entries_of fs \<equiv> (\<lambda>(_, f). entry_pc f) ` set fs"

lemma find_reachable_returns:
  "\<exists>R. find_reachable is fs = Some R \<and> reachable_code is (entries_of fs) R"
proof -
  have "reach_inv is (entries_of fs) (rev (map (\<lambda>(_, func). entry_pc func) fs), [])"
    by (auto simp: reach_inv_def found_def)
  from reach_loop.exit_state [OF this] obtain w R where
    w: "reach_inv is (entries_of fs) w" "reach_step is w = Inl R" "find_reachable is fs = Some R"
    unfolding find_reachable_def by blast
  then have "reachable_code is (entries_of fs) R"
    by (fastforce simp: reach_step_def reach_inv_def found_def reachable_code_def split: list.splits if_splits)
  with w show ?thesis by blast
qed

section \<open>Moving the reachable code together\<close>

definition rank :: "nat list \<Rightarrow> nat \<Rightarrow> nat" where
  "rank R pc = length (filter (\<lambda>q. q \<in> set R) [0..<pc])"

lemma rank_0 [simp]: "rank R 0 = 0"
  by (simp add: rank_def)

lemma rank_Suc: "rank R (Suc pc) = (if pc \<in> set R then Suc (rank R pc) else rank R pc)"
  by (simp add: rank_def)

lemma rank_mono: "a \<le> b \<Longrightarrow> rank R a \<le> rank R b"
  by (rule lift_Suc_mono_le [of "rank R"]) (simp_all add: rank_Suc)

lemma rank_le: "rank R pc \<le> pc"
  by (induction pc) (auto simp: rank_Suc)

lemma number_reachable_rank:
  "number_reachable R [a..<a + n] (rank R a) m pc =
     (if a \<le> pc \<and> pc < a + n \<and> pc \<in> set R then Some (rank R pc) else m pc)"
proof (induction n arbitrary: a m)
  case (Suc n)
  have "[a..<a + Suc n] = a # [Suc a..<Suc a + n]" by (simp add: upt_rec)
  then show ?case
    using Suc [of "Suc a"] by (cases "a \<in> set R") (auto simp: Suc_le_eq rank_Suc)
qed auto

lemma old_to_new_rank:
  "old_to_new R n pc = (if pc < n \<and> pc \<in> set R then Some (rank R pc) else None)"
  using number_reachable_rank [of R 0 n "\<lambda>_. None" pc] by (simp add: old_to_new_def)

lemma keep_reachable_nth:
  assumes "k < length is" "a + k \<in> set R"
  shows "rank R (a + k) - rank R a < length (fst (keep_reachable R m a is st)) \<and>
    fst (keep_reachable R m a is st) ! (rank R (a + k) - rank R a) = remap_instruction m (is ! k)"
  using assms
proof (induction "is" arbitrary: a k st)
  case (Cons i "is")
  show ?case
  proof (cases k)
    case 0
    with Cons.prems show ?thesis by simp
  next
    case (Suc j)
    define b where "b = Suc a + j"
    have "rank R (Suc a) \<le> rank R b" unfolding b_def by (rule rank_mono) simp
    moreover have "a + k = b" using Suc by (simp add: b_def)
    moreover have nth: "rank R b - rank R (Suc a) < length (fst (keep_reachable R m (Suc a) is st')) \<and>
        fst (keep_reachable R m (Suc a) is st') ! (rank R b - rank R (Suc a)) = remap_instruction m (is ! j)" for st'
      using Cons.IH [of j "Suc a" st'] Cons.prems Suc by (simp add: b_def)
    ultimately show ?thesis
    proof (cases "a \<in> set R")
      case True
      define d where "d = rank R b - rank R (Suc a)"
      have "rank R b - rank R a = Suc d"
        using True \<open>rank R (Suc a) \<le> rank R b\<close> by (simp add: d_def rank_Suc [of R a])
      with True Suc \<open>a + k = b\<close> nth [of st] show ?thesis by (simp add: d_def [symmetric])
    next
      case False
      with Suc \<open>a + k = b\<close> nth show ?thesis by (simp add: rank_Suc [of R a])
    qed
  qed
qed simp

lemma length_keep_reachable:
  "rank R a + length (fst (keep_reachable R m a is st)) = rank R (a + length is)"
proof (induction "is" arbitrary: a st)
  case (Cons i "is")
  show ?case using Cons [of "Suc a"] by (cases "a \<in> set R") (simp_all add: rank_Suc)
qed simp

section \<open>Running the remaining code\<close>

text \<open>
  What the compiler produces and the verifier checks: the entries lie in the code, the operands are
  32-bit integers, and the code is not too long. \<open>dce_program\<close> is the program with its reachable
  code \<open>R\<close> only.
\<close>

definition entries_in_range :: "compiled_program \<Rightarrow> bool" where
  "entries_in_range p \<longleftrightarrow> (\<forall>(_, f) \<in> set (prog_functions p). entry_pc f < length (instructions p))"

definition dce_ok :: "compiled_program \<Rightarrow> nat list \<Rightarrow> bool" where
  "dce_ok p R \<longleftrightarrow> reachable_code (instructions p) (entries_of (prog_functions p)) R \<and>
     entries_in_range p \<and> typed_program p \<and> length (instructions p) \<le> MAX_INSTRUCTIONS"

definition dce_code :: "compiled_program \<Rightarrow> nat list \<Rightarrow> instruction list" where
  "dce_code p R = fst (keep_reachable R (old_to_new R (length (instructions p))) 0 (instructions p) stats_default)"

abbreviation dce_program :: "compiled_program \<Rightarrow> nat list \<Rightarrow> compiled_program" where
  "dce_program p R \<equiv> moved_program p (rank R) (dce_code p R)"

lemma keep_reachable_stats: "fst (keep_reachable R m a is st) = fst (keep_reachable R m a is st')"
  by (induction "is" arbitrary: a st st') auto

lemma new_length: "length (dce_code p R) = rank R (length (instructions p))"
  using length_keep_reachable [of R 0 _ "instructions p" stats_default] by (simp add: dce_code_def)

lemma new_nth:
  assumes "k < length (instructions p)" "k \<in> set R"
  shows "rank R k < length (dce_code p R)"
    and "dce_code p R ! rank R k = remap_instruction (old_to_new R (length (instructions p))) (instructions p ! k)"
  using keep_reachable_nth [of k "instructions p" 0 R _ stats_default] assms by (simp_all add: dce_code_def)

text \<open>Corresponding program counters: a reachable one and its rank, or two outside the code.\<close>

definition at :: "compiled_program \<Rightarrow> nat list \<Rightarrow> nat \<Rightarrow> nat \<Rightarrow> bool" where
  "at p R k x \<longleftrightarrow> (if k < length (instructions p) then k \<in> set R \<and> x = rank R k
                   else length (dce_code p R) \<le> x)"

definition live :: "compiled_program \<Rightarrow> nat list \<Rightarrow> nat set" where
  "live p R = {k. k \<le> length (instructions p) \<and> (k < length (instructions p) \<longrightarrow> k \<in> set R)}"

lemma live_at: "k \<in> live p R \<Longrightarrow> at p R k (rank R k)"
  by (auto simp: live_def at_def new_length)

lemma live_successor:
  assumes "dce_ok p R" "k \<in> set R" "q \<in> set (successors k (instructions p ! k))" "q \<le> length (instructions p)"
  shows "q \<in> live p R"
  using assms by (auto simp: reachable_code_def dce_ok_def live_def)

lemma live_entry: "dce_ok p R \<Longrightarrow> fun_lookup p j = Some f \<Longrightarrow> entry_pc f \<in> live p R"
  by (fastforce simp: dce_ok_def entries_in_range_def live_def reachable_code_def fun_lookup_def dest: map_of_SomeD)

lemma at_jump:
  assumes ok: "dce_ok p R" and k: "k \<in> set R" "k < length (instructions p)"
    and i: "instructions p ! k = i" "is_jump (opcode i)"
  shows "at p R (as_usize (arg1 i)) (as_usize (arg1 (dce_code p R ! rank R k)))"
proof -
  let ?n = "length (instructions p)" and ?t = "as_usize (arg1 i)"
  have t: "?t \<in> set (successors k i)" using i(2) by (auto simp: is_jump_def successors_def)
  have a: "is_i32 (arg1 i)" and small: "?n \<le> MAX_INSTRUCTIONS"
    using ok k(2) i(1) by (auto simp: typed_program_def dce_ok_def)
  have i': "arg1 (dce_code p R ! rank R k) =
      usize_as_i32 (case old_to_new R ?n ?t of Some t \<Rightarrow> t | None \<Rightarrow> ?t)"
    using new_nth(2) [OF k(2,1)] i by (simp add: remap_instruction_def Let_def)
  show ?thesis
  proof (cases "?t < ?n")
    case True
    have "rank R ?t < 2147483648" using rank_le [of R ?t] True small by (simp add: limit_defs)
    moreover have "?t \<in> set R"
      using live_successor [OF ok k(1)] t True i(1) by (fastforce simp: live_def)
    ultimately show ?thesis
      using True by (simp add: i' old_to_new_rank at_def as_usize_usize_as_i32)
  next
    case False
    then have "length (dce_code p R) \<le> ?t" using rank_le [of R ?n] by (simp add: new_length)
    with False show ?thesis by (simp add: i' old_to_new_rank usize_as_i32_as_usize [OF a] at_def)
  qed
qed

lemma live_next:
  assumes "dce_ok p R" "k \<in> set R" "k < length (instructions p)"
    and "opcode (instructions p ! k) \<notin> {Op_Jump, Op_Return, Op_Halt}"
  shows "k + 1 \<in> live p R"
  using assms(4) by (intro live_successor [OF assms(1,2)])
    (use assms(3) in \<open>auto simp: successors_def split: opcode.split\<close>)

text \<open>Corresponding machines.\<close>

definition related :: "compiled_program \<Rightarrow> nat list \<Rightarrow> vm \<Rightarrow> vm \<Rightarrow> bool" where
  "related p R s s' \<longleftrightarrow>
     (\<exists>x. s' = relocate (rank R) x (vm_cycles s) s \<and> at p R (vm_pc s) x) \<and>
     vm_trace s = None \<and> targets_of s \<subseteq> live p R"

lemma live_max: "dce_ok p R \<Longrightarrow> k \<in> live p R \<Longrightarrow> k < usize_max \<and> rank R k \<noteq> usize_max"
  using rank_le [of R k] by (auto simp: live_def dce_ok_def limit_defs usize_max_def)

lemma remap_moved: "moved_instruction i (remap_instruction m i)"
  by (simp add: moved_instruction_def remap_instruction_def Let_def)

lemma advance_opcode:
  "post (execute_instruction p opc a1 a2 s) (\<lambda>b _. b \<longrightarrow> opc \<notin> {Op_Jump, Op_Return, Op_Halt}) (\<lambda>_ _. True)"
proof (cases "opc \<in> {Op_Jump, Op_Return, Op_Halt}")
  case True
  then show ?thesis
    by (auto simp: jump_to_def exec_return_def exec_halt_def take_top_def wp_simps Let_def split: list.split)
qed (simp add: post_def split: sum.split)

text \<open>One instruction keeps the machines related.\<close>

lemma related_exec:
  assumes ok: "dce_ok p R" and rel: "related p R s s'" and k: "vm_pc s < length (instructions p)"
    and exec: "exec_current p s = (res, t)"
  obtains x' where "exec_current (dce_program p R) s' = (res, relocate (rank R) x' (vm_cycles t) t)"
    and "vm_trace t = None" and "targets_of t \<subseteq> live p R"
    and "res = Inr False \<Longrightarrow> vm_calls t \<noteq> [] \<Longrightarrow> at p R (vm_pc t) x'"
    and "res = Inr True \<Longrightarrow> at p R (vm_pc t + 1) (x' + 1)"
proof -
  let ?k = "vm_pc s" and ?p' = "dce_program p R"
  let ?i = "instructions p ! ?k"
  from rel k have s': "s' = relocate (rank R) (rank R ?k) (vm_cycles s) s" and kR: "?k \<in> set R"
    by (auto simp: related_def at_def)
  note i' = new_nth(2) [OF k kR]
  have x: "instructions ?p' ! rank R ?k = remap_instruction (old_to_new R (length (instructions p))) ?i"
    using i' by simp
  have next_live: "opcode ?i \<notin> {Op_Jump, Op_Return, Op_Halt} \<Longrightarrow> ?k + 1 \<in> live p R"
    using live_next [OF ok kR k] by simp
  have call: "opcode ?i = Op_Call \<Longrightarrow> rank R (?k + 1) = rank R ?k + 1 \<and> ?k + 1 \<noteq> usize_max"
    using live_max [OF ok next_live] kR by (auto simp: rank_Suc)
  have frames: "r \<in> targets_of s \<Longrightarrow> rank R r \<noteq> usize_max" for r
    using rel live_max [OF ok] by (auto simp: related_def)
  from moved.exec_moved [OF refl x remap_moved call frames exec, of "vm_cycles s"] obtain x' where
    e: "exec_current ?p' s' = (res, relocate (rank R) x' (Suc (vm_cycles s)) t)" and
    tgt: "targets_of t \<subseteq> targets_of s \<union> (if opcode ?i = Op_Call then {?k + 1} else {})" and
    pc: "if res = Inr False \<and> vm_calls t \<noteq> []
       then x' = rank R ?k \<and> vm_pc t = ?k \<or>
            is_jump (opcode ?i) \<and> vm_pc t = as_usize (arg1 ?i) \<and> x' = as_usize (arg1 (dce_code p R ! rank R ?k)) \<or>
            (\<exists>j f. fun_lookup p j = Some f \<and> vm_pc t = entry_pc f \<and> x' = rank R (entry_pc f)) \<or>
            vm_pc t \<in> targets_of s \<and> x' = rank R (vm_pc t)
       else res \<noteq> Inr False \<longrightarrow> x' = rank R ?k \<and> vm_pc t = ?k"
    unfolding s' i' by blast
  note t = exec_current_control [OF exec]
  show ?thesis
  proof
    show "exec_current ?p' s' = (res, relocate (rank R) x' (vm_cycles t) t)" using e t by simp
    show "vm_trace t = None" using rel t by (simp add: related_def)
    show "targets_of t \<subseteq> live p R" using tgt rel next_live by (auto simp: related_def split: if_splits)
    show "at p R (vm_pc t) x'" if jumped: "res = Inr False" "vm_calls t \<noteq> []"
    proof -
      have here: "at p R ?k (rank R ?k)" using kR k by (simp add: at_def)
      consider "x' = rank R ?k" "vm_pc t = ?k"
        | "is_jump (opcode ?i)" "vm_pc t = as_usize (arg1 ?i)" "x' = as_usize (arg1 (dce_code p R ! rank R ?k))"
        | j f where "fun_lookup p j = Some f" "vm_pc t = entry_pc f" "x' = rank R (entry_pc f)"
        | "vm_pc t \<in> targets_of s" "x' = rank R (vm_pc t)"
        using pc [unfolded if_P [OF conjI [OF jumped]]] by blast
      then show ?thesis
      proof cases
        case 2
        with at_jump [OF ok kR k refl] show ?thesis by simp
      next
        case 3
        with live_at [OF live_entry [OF ok]] show ?thesis by simp
      next
        case 4
        with rel live_at show ?thesis by (auto simp: related_def)
      qed (use here in simp)
    qed
    show "at p R (vm_pc t + 1) (x' + 1)" if res: "res = Inr True"
    proof -
      have "opcode ?i \<notin> {Op_Jump, Op_Return, Op_Halt}"
        using post_Inr [OF advance_opcode exec [unfolded exec_current_def Let_def res]] by blast
      from live_at [OF next_live [OF this]] kR pc res show ?thesis by (simp add: rank_Suc)
    qed
  qed
qed

lemma related_step:
  assumes ok: "dce_ok p R" and rel: "related p R s s'"
  shows "rel_sum same_outcome (related p R) (vm_step p s) (vm_step (dce_program p R) s')"
proof -
  let ?p' = "dce_program p R"
  from rel obtain x where s': "s' = relocate (rank R) x (vm_cycles s) s" and x: "at p R (vm_pc s) x"
    by (auto simp: related_def)
  consider "vm_max_cycles s > 0 \<and> vm_cycles s \<ge> vm_max_cycles s"
    | "\<not> (vm_max_cycles s > 0 \<and> vm_cycles s \<ge> vm_max_cycles s)" "vm_pc s \<ge> length (instructions p)"
    | "\<not> (vm_max_cycles s > 0 \<and> vm_cycles s \<ge> vm_max_cycles s)" "vm_pc s < length (instructions p)"
    by linarith
  then show ?thesis
  proof cases
    case 1
    then show ?thesis
      by (simp add: vm_step_def s' same_outcome_moved finish_def make_trap_result_def move_exit_def
          same_outcome_def outcome_of_def)
  next
    case 2
    with x show ?thesis
      by (simp add: vm_step_def s' at_def finish_def make_trap_result_def same_outcome_def outcome_of_def)
  next
    case 3
    obtain res t where exec: "exec_current p s = (res, t)" by fastforce
    from related_exec [OF ok rel 3(2) exec] obtain x' where
      e: "exec_current ?p' s' = (res, relocate (rank R) x' (vm_cycles t) t)" "vm_trace t = None"
        "targets_of t \<subseteq> live p R"
      and pc: "res = Inr False \<Longrightarrow> vm_calls t \<noteq> [] \<Longrightarrow> at p R (vm_pc t) x'"
        "res = Inr True \<Longrightarrow> at p R (vm_pc t + 1) (x' + 1)" by metis
    let ?st = "fetch_step (instructions p ! vm_pc s) s"
    let ?y = "if res = Inr True then x' + 1 else x'"
    have step: "vm_step p s = after_instruction ?st (res, t)"
      using 3 exec by (auto simp: vm_step_def)
    have "vm_pc s' < length (instructions ?p')" "\<not> (vm_max_cycles s' > 0 \<and> vm_cycles s' \<ge> vm_max_cycles s')"
      using x 3 new_nth(1) by (auto simp: s' at_def)
    then have "vm_step ?p' s' = after_instruction (fetch_step (instructions ?p' ! vm_pc s') s') (exec_current ?p' s')"
      by (auto simp: vm_step_def)
    then have "vm_step ?p' s' = map_sum (move_exit (rank R) ?y (vm_cycles t)) (relocate (rank R) ?y (vm_cycles t))
        (after_instruction ?st (res, t))"
      by (simp only: e(1) after_moved [OF e(2) refl, where st = ?st])
    moreover have "related p R u (relocate (rank R) ?y (vm_cycles t) u)" if "after_instruction ?st (res, t) = Inr u" for u
    proof -
      have u: "vm_cycles u = vm_cycles t" "vm_trace u = None" "targets_of u = targets_of t"
        "at p R (vm_pc u) ?y"
        using that e(2) pc by (auto simp: after_Inr_iff [OF e(2)] targets_of_def)
      with e(3) show ?thesis unfolding related_def by auto
    qed
    moreover have "same_outcome r (move_exit (rank R) ?y (vm_cycles t) r)" if "after_instruction ?st (res, t) = Inl r" for r
      using after_Inl_cycles [OF e(2) that] by (intro same_outcome_moved) simp
    ultimately show ?thesis
      unfolding step by (cases "after_instruction ?st (res, t)") simp_all
  qed
qed

section \<open>The pass\<close>

lemma dead_code_elimination_result:
  assumes "entries_in_range p" "typed_program p" "length (instructions p) \<le> MAX_INSTRUCTIONS"
  obtains (unchanged) st' where "dead_code_elimination (instructions p) (prog_functions p) st =
      Some ((instructions p, prog_functions p), st')"
    | (moved) R st' where "dce_ok p R" "dead_code_elimination (instructions p) (prog_functions p) st =
      Some ((dce_code p R, prog_functions (dce_program p R)), st')"
proof (cases "instructions p = []")
  case True
  then show ?thesis by (intro unchanged) (simp add: dead_code_elimination_def)
next
  case False
  obtain R where R: "find_reachable (instructions p) (prog_functions p) = Some R"
      "reachable_code (instructions p) (entries_of (prog_functions p)) R"
    using find_reachable_returns by blast
  show ?thesis
  proof (cases "length R = length (instructions p)")
    case True
    with R False show ?thesis by (intro unchanged) (simp add: dead_code_elimination_def)
  next
    case part: False
    have ok: "dce_ok p R" using assms R by (simp add: dce_ok_def)
    have entry: "old_to_new R (length (instructions p)) (entry_pc f) = Some (rank R (entry_pc f))"
      if "(i, f) \<in> set (prog_functions p)" for i f
      using that assms(1) R(2) by (force simp: old_to_new_rank entries_in_range_def reachable_code_def)
    have "move_entries (old_to_new R (length (instructions p))) (prog_functions p) = prog_functions (dce_program p R)"
      using move_entries_cong [where pos = "rank R", OF entry] by simp
    then show ?thesis
      using R(1) False part ok keep_reachable_stats [of R _ 0 "instructions p" st stats_default]
      by (intro moved [of R]) (simp_all add: dead_code_elimination_def dce_code_def Let_def)
  qed
qed

lemma vm_run_moved:
  assumes ok: "dce_ok p R" and valid: "validate_program p = None"
    and s: "vm_calls s = []" "vm_trace s = None"
  shows "rel_option same_outcome (vm_run p s) (vm_run (dce_program p R) s)"
proof -
  have "validate_program (dce_program p R) = None"
    using valid rank_le by (intro moved_validate) (simp_all add: new_length)
  moreover have "fun_lookup (dce_program p R) i = map_option (\<lambda>f. f\<lparr>entry_pc := rank R (entry_pc f)\<rparr>) (fun_lookup p i)" for i
    by (rule moved.lookup)
  moreover have "rel_option same_outcome (iterate (vm_step p) (vm_start f s))
      (iterate (vm_step (dce_program p R)) (vm_start (f\<lparr>entry_pc := rank R (entry_pc f)\<rparr>) s))"
    if "fun_lookup p (main_func_id p) = Some f" for f
  proof (rule iterate_rel [where R = "related p R"])
    show "related p R (vm_start f s) (vm_start (f\<lparr>entry_pc := rank R (entry_pc f)\<rparr>) s)"
      using live_at [OF live_entry [OF ok that]] s
      by (auto simp: related_def vm_start_def relocate_def move_frame_def targets_of_def)
  qed (rule related_step [OF ok])
  ultimately show ?thesis using valid by (simp add: vm_run_def split: option.split)
qed

text \<open>
  C7: Eliminating dead code preserves runs: the pass returns, and the program it leaves runs, from a
  new machine with any cycle limit or none, to the same outcome: the same value, output, trap,
  cycle count and depths, the same panic, or no end in both.
\<close>

theorem dead_code_elimination_preserves_runs:
  assumes "validate_program p = None" "typed_program p" "entries_in_range p"
  shows "\<exists>is fs st'. dead_code_elimination (instructions p) (prog_functions p) st = Some ((is, fs), st') \<and>
    rel_option same_outcome (vm_run p (with_max_cycles k vm_new))
      (vm_run (p\<lparr>instructions := is, prog_functions := fs\<rparr>) (with_max_cycles k vm_new))"
proof -
  have small: "length (instructions p) \<le> MAX_INSTRUCTIONS"
    using assms(1) by (simp add: validate_program_def split: if_splits)
  from assms(3,2) small show ?thesis
  proof (cases rule: dead_code_elimination_result [of p st])
    case (unchanged st')
    then show ?thesis by (auto intro: option.rel_refl)
  next
    case (moved R st')
    have "p\<lparr>instructions := dce_code p R, prog_functions := prog_functions (dce_program p R)\<rparr> = dce_program p R"
      by (simp add: moved_program_def)
    with moved vm_run_moved [OF moved(1) assms(1), of "with_max_cycles k vm_new"] show ?thesis
      by (auto simp: with_max_cycles_def vm_new_def)
  qed
qed

end
