(* ===== verification/Optimizer_Props.thy ===== *)
theory Optimizer_Props
  imports Window_Props Dce_Props
begin

text \<open>
  The optimiser as a whole: its four passes in sequence keep the result of every successful run,
  and the one gap of the window passes, the entry of the function that they do not move.
\<close>

section \<open>Sequences of passes\<close>

lemma same_outcome_success:
  assumes "same_outcome e e'" "succeeds e"
  shows "same_success e e'"
proof -
  from assms obtain r r' where r: "fst e = Inr r" "fst e' = Inr r'" "success r"
      and eq: "r\<lparr>res_pc := 0, trap_message := []\<rparr> = r'\<lparr>res_pc := 0, trap_message := []\<rparr>"
    by (cases "fst e'") (auto simp: same_outcome_def outcome_of_def succeeds_def)
  from eq have "r'\<lparr>res_pc := 0, res_cycles := 0, trap_message := []\<rparr> =
       r\<lparr>res_pc := 0, res_cycles := 0, trap_message := []\<rparr> \<and> res_cycles r' \<le> res_cycles r"
    by (cases r; cases r') simp
  with r show ?thesis by (simp add: same_success_def)
qed

lemma dead_code_success:
  assumes "typed_program p" "entries_in_range p"
    and run: "vm_run p (with_max_cycles k vm_new) = Some e" "succeeds e"
  shows "\<exists>is fs st' e'. dead_code_elimination (instructions p) (prog_functions p) st = Some ((is, fs), st') \<and>
    vm_run (p\<lparr>instructions := is, prog_functions := fs\<rparr>) (with_max_cycles k vm_new) = Some e' \<and> same_success e e'"
proof -
  let ?s = "with_max_cycles k vm_new"
  have valid: "validate_program p = None" using run by (auto simp: vm_run_def split: option.splits)
  from assms(2,1) validate_program_length [OF valid] show ?thesis
  proof (cases rule: dead_code_elimination_result [of p st])
    case (unchanged st')
    have "same_success e e" using run(2) by (auto simp: same_success_def succeeds_def)
    with unchanged run(1) show ?thesis by (cases e) auto
  next
    case (moved R st')
    have p': "p\<lparr>instructions := dce_code p R, prog_functions := prog_functions (dce_program p R)\<rparr> = dce_program p R"
      by (simp add: moved_program_def)
    have "rel_option same_outcome (vm_run p ?s) (vm_run (dce_program p R) ?s)"
      by (rule vm_run_moved [OF moved(1) valid]) (simp_all add: with_max_cycles_def vm_new_def)
    with run(1) obtain e' where e': "vm_run (dce_program p R) ?s = Some e'" "same_outcome e e'"
      by (auto elim: option.rel_cases)
    from e'(2) run(2) have "same_success e e'" by (rule same_outcome_success)
    with moved(2) e'(1) p' show ?thesis by metis
  qed
qed

definition window_code :: "instruction list \<Rightarrow> instruction list" where
  "window_code is = fst (window_pass peephole_window 0 (fst (window_pass strength_window 0
     (fst (window_pass fold_window 0 is)))))"

lemma window_passes_code:
  "fst (window_passes is fs st) = (if can_run_size_changing_passes is fs then window_code is else is)"
  by (simp add: window_passes_def window_code_def constant_folding_def strength_reduction_def
      peephole_optimization_def Let_def)

lemma window_success:
  assumes p: "foldable p" and run: "vm_run p (with_max_cycles k vm_new) = Some e" "succeeds e"
  obtains e' where "foldable (p\<lparr>instructions := window_code (instructions p)\<rparr>)"
    "vm_run (p\<lparr>instructions := window_code (instructions p)\<rparr>) (with_max_cycles k vm_new) = Some e'"
    "same_success e e'"
proof -
  define p1 where "p1 = folding.rewritten p"
  define p2 where "p2 = strength.rewritten p1"
  define p3 where "p3 = peephole.rewritten p2"
  have f: "foldable p1" "foldable p2" "foldable p3"
    using p folding.rewritten_foldable strength.rewritten_foldable peephole.rewritten_foldable
    by (simp_all add: p1_def p2_def p3_def)
  from folding.pass_preserves_success [OF p run] obtain e1 where
    e1: "vm_run p1 (with_max_cycles k vm_new) = Some e1" "same_success e e1" by (auto simp: p1_def)
  from strength.pass_preserves_success [OF f(1) e1(1)] same_success_succeeds [OF e1(2)] obtain e2 where
    e2: "vm_run p2 (with_max_cycles k vm_new) = Some e2" "same_success e1 e2" by (auto simp: p2_def)
  from peephole.pass_preserves_success [OF f(2) e2(1)] same_success_succeeds [OF e2(2)] obtain e3 where
    e3: "vm_run p3 (with_max_cycles k vm_new) = Some e3" "same_success e2 e3" by (auto simp: p3_def)
  have "p1 = p\<lparr>instructions := fst (window_pass fold_window 0 (instructions p))\<rparr>"
    unfolding p1_def by (rule folding.rewritten_program [OF p])
  moreover have "p2 = p1\<lparr>instructions := fst (window_pass strength_window 0 (instructions p1))\<rparr>"
    unfolding p2_def by (rule strength.rewritten_program [OF f(1)])
  moreover have "p3 = p2\<lparr>instructions := fst (window_pass peephole_window 0 (instructions p2))\<rparr>"
    unfolding p3_def by (rule peephole.rewritten_program [OF f(2)])
  ultimately have "p3 = p\<lparr>instructions := window_code (instructions p)\<rparr>"
    by (simp add: window_code_def)
  with that f(3) e3(1) same_success_trans [OF e1(2) same_success_trans [OF e2(2) e3(2)]] show ?thesis by simp
qed

section \<open>The optimiser\<close>

lemma optimize_keeps_success:
  assumes "typed_program p" "entries_in_range p"
    and "can_run_size_changing_passes (instructions p) (prog_functions p) \<Longrightarrow>
      scalar_program p \<and> (\<forall>(_, f) \<in> set (prog_functions p). entry_pc f = 0)"
    and "vm_run p (with_max_cycles k vm_new) = Some e" "succeeds e"
  shows "\<exists>q st' e'. optimize p st = Some (q, st') \<and> vm_run q (with_max_cycles k vm_new) = Some e' \<and>
    same_success e e'"
proof -
  let ?st = "st\<lparr>instructions_before := length (instructions p)\<rparr>"
  define is1 where "is1 = fst (window_passes (instructions p) (prog_functions p) ?st)"
  define st1 where "st1 = snd (window_passes (instructions p) (prog_functions p) ?st)"
  let ?p = "p\<lparr>instructions := is1\<rparr>"
  have "typed_program ?p \<and> entries_in_range ?p \<and>
      (\<exists>e'. vm_run ?p (with_max_cycles k vm_new) = Some e' \<and> same_success e e')"
  proof (cases "can_run_size_changing_passes (instructions p) (prog_functions p)")
    case True
    have "validate_program p = None" using assms(4,5) by (auto simp: vm_run_def split: option.splits)
    with True assms(1,3) have "foldable p"
      by (auto simp: foldable_def can_run_size_changing_passes_def jump_free_def list_ex_iff)
    from window_success [OF this assms(4,5)] obtain e' where e': "foldable ?p"
      "vm_run ?p (with_max_cycles k vm_new) = Some e'" "same_success e e'"
      using True by (auto simp: is1_def window_passes_code)
    from e'(2) same_success_succeeds(2) [OF e'(3)] e'(1) have "is1 \<noteq> []"
      by (auto simp: vm_run_def vm_start_def vm_step_def iterate.simps [of "vm_step ?p"] with_max_cycles_def
          split: option.splits if_splits)
    with e' show ?thesis by (auto simp: foldable_def entries_in_range_def)
  next
    case False
    then have "is1 = instructions p" by (simp add: is1_def window_passes_code)
    then have "?p = p" by simp
    moreover have "same_success e e" using assms(5) by (auto simp: same_success_def succeeds_def)
    ultimately show ?thesis using assms(1,2,4) by auto
  qed
  then obtain e1 where e1: "typed_program ?p" "entries_in_range ?p"
    "vm_run ?p (with_max_cycles k vm_new) = Some e1" "same_success e e1" by blast
  from dead_code_success [OF e1(1-3) same_success_succeeds(2) [OF e1(4)], of st1] obtain "is" fs st2 e2 where
    dce: "dead_code_elimination is1 (prog_functions p) st1 = Some ((is, fs), st2)"
      "vm_run (p\<lparr>instructions := is, prog_functions := fs\<rparr>) (with_max_cycles k vm_new) = Some e2" "same_success e1 e2"
    by auto
  have "optimize p st = Some (p\<lparr>instructions := is, prog_functions := fs\<rparr>, st2\<lparr>instructions_after := length is\<rparr>)"
    using dce(1) by (simp add: optimize_def is1_def st1_def split_beta)
  with dce(2) same_success_trans [OF e1(4) dce(3)] show ?thesis by blast
qed


section \<open>Instances\<close>

definition main_at :: "usize \<Rightarrow> instruction list \<Rightarrow> compiled_program" where
  "main_at entry code =
     \<lparr>instructions = code,
      prog_functions = [(0, \<lparr>fi_name = ''main'', fi_id = 0, entry_pc = entry, param_count = 0, local_count = 0\<rparr>)],
      prog_globals = [], main_func_id = 0, prog_constants = []\<rparr>"

definition result_of :: "compiled_program \<Rightarrow> (string + (bool \<times> i64 \<times> string list)) option" where
  "result_of p = map_option (map_sum id (\<lambda>r. (success r, return_value r, res_output r)) \<circ> fst)
     (vm_run p (with_max_cycles 100 vm_new))"

lemma result_of_success:
  assumes "result_of p = Some (Inr (True, v, out))"
  obtains e where "vm_run p (with_max_cycles 100 vm_new) = Some e" "succeeds e"
proof -
  from assms obtain e where e: "vm_run p (with_max_cycles 100 vm_new) = Some e"
    "map_sum id (\<lambda>r. (success r, return_value r, res_output r)) (fst e) = Inr (True, v, out)"
    by (auto simp: result_of_def)
  from e(2) have "succeeds e" by (cases "fst e") (auto simp: succeeds_def)
  with e(1) that show ?thesis by blast
qed

text \<open>\<open>(6 * 7 * 1) + 0\<close>, with unreachable code after the return.\<close>

definition folding_program :: compiled_program where
  "folding_program = main_at 0
     [Instruction_new Op_LoadConst 6 0, Instruction_new Op_LoadConst 7 0, Instruction_simple Op_Mul,
      Instruction_new Op_LoadConst 1 0, Instruction_simple Op_Mul, Instruction_new Op_LoadConst 0 0,
      Instruction_simple Op_Add, Instruction_simple Op_Return, Instruction_new Op_LoadConst 0 0,
      Instruction_simple Op_Return]"

lemmas folding_program_simps = folding_program_def main_at_def typed_program_def is_i32_def
  entries_in_range_def scalar_program_def


theorem dead_code_elimination_preserves_runs_witness:
  "\<exists>is fs st'. dead_code_elimination (instructions folding_program) (prog_functions folding_program) stats_default =
      Some ((is, fs), st') \<and>
    rel_option same_outcome (vm_run folding_program (with_max_cycles 100 vm_new))
      (vm_run (folding_program\<lparr>instructions := is, prog_functions := fs\<rparr>) (with_max_cycles 100 vm_new))"
proof -
  have "validate_program folding_program = None" by code_simp
  then show ?thesis
    by (rule dead_code_elimination_preserves_runs) (simp_all add: folding_program_simps)
qed

section \<open>What the optimiser does to concrete programs\<close>

definition optimized_result :: "compiled_program \<Rightarrow> (opcode \<times> i32) list option" where
  "optimized_result p = map_option (\<lambda>(q, _). List.map (\<lambda>i. (opcode i, arg1 i)) (instructions q)) (optimize p stats_default)"

lemma optimized_folding_program:
  "optimized_result folding_program = Some [(Op_LoadConst, 42), (Op_Return, 0)]"
  by code_simp

text \<open>
  A function that starts behind code which a pass shortens. The window passes do not move its entry.
\<close>

definition late_entry_program :: compiled_program where
  "late_entry_program = main_at 3
     [Instruction_new Op_LoadConst 1 0, Instruction_new Op_LoadConst 2 0, Instruction_simple Op_Add,
      Instruction_new Op_LoadConst 5 0, Instruction_simple Op_Print, Instruction_new Op_LoadConst 7 0,
      Instruction_simple Op_Return]"

text \<open>
  C28: The window passes leave the entry of a function where it was: a program whose function does not
  start at the first instruction can lose its output, silently, when it is optimised.
\<close>

theorem optimize_misplaces_late_entry:
  "result_of late_entry_program = Some (Inr (True, 7, [''OUTPUT: 5''])) \<and>
   (case optimize late_entry_program stats_default of
      Some (q, _) \<Rightarrow> result_of q | None \<Rightarrow> None) = Some (Inr (True, 7, []))"
  by code_simp

end
