(* ===== verification/Gc_Vm.thy ===== *)
theory Gc_Vm
  imports Vm
begin

text \<open>
  The garbage collecting machine (gc_vm.rs): values are integers or references to arrays on a
  heap, frames own their locals, and an allocation collects unreachable arrays once enough are
  live. Stacks are lists with the top first, as in Vm. Array ids are \<open>u32\<close>; the \<open>debug\<close> output and
  the unused bump allocator are left out.
\<close>

section \<open>Values, arrays and frames\<close>

datatype gc_value = GInt i64 | GArray nat

fun as_int :: "gc_value \<Rightarrow> i64 option" where
  "as_int (GInt v) = Some v"
| "as_int (GArray _) = None"

fun is_truthy :: "gc_value \<Rightarrow> bool" where
  "is_truthy (GInt v) = (v \<noteq> 0)"
| "is_truthy (GArray _) = True"

fun to_i64 :: "gc_value \<Rightarrow> i64" where
  "to_i64 (GInt v) = v"
| "to_i64 (GArray i) = int i"

record heap_array =
  arr_data :: "i64 list"
  arr_marked :: bool

definition HeapArray_new :: "nat \<Rightarrow> heap_array" where
  "HeapArray_new n = \<lparr>arr_data = replicate n 0, arr_marked = False\<rparr>"

record gc_frame =
  gf_return_pc :: usize
  gf_locals :: "gc_value list"
  gf_init :: "bool list"

definition GcCallFrame_new :: "nat \<Rightarrow> usize \<Rightarrow> gc_frame" where
  "GcCallFrame_new n ret =
     \<lparr>gf_return_pc = ret, gf_locals = replicate n (GInt 0), gf_init = replicate n False\<rparr>"

definition frame_get :: "gc_frame \<Rightarrow> nat \<Rightarrow> gc_value option" where
  "frame_get f slot =
     (if slot \<ge> length (gf_locals f) \<or> \<not> gf_init f ! slot then None else Some (gf_locals f ! slot))"

text \<open>\<open>set\<close> and \<open>init_param\<close> are the same code.\<close>

definition frame_set :: "nat \<Rightarrow> gc_value \<Rightarrow> gc_frame \<Rightarrow> gc_frame" where
  "frame_set slot v f =
     (if slot < length (gf_locals f)
      then f\<lparr>gf_locals := (gf_locals f)[slot := v], gf_init := (gf_init f)[slot := True]\<rparr>
      else f)"

record gc_vm_result =
  gr_success :: bool
  gr_return_value :: i64
  gr_trap_code :: trap_code
  gr_trap_message :: string
  gr_cycles :: nat
  gr_output :: "string list"
  gr_pc :: usize
  gr_stack_depth :: usize
  gr_frame_depth :: usize
  gr_collections :: usize
  gr_objects_freed :: usize
  gr_heap_arrays_allocated :: usize

record gc_vm =
  gv_stack :: "gc_value list"
  gv_globals :: "gc_value list"
  gv_calls :: "gc_frame list"
  gv_heap :: "heap_array option list"
  gv_free :: "nat list"
  gv_next_id :: nat
  gv_pc :: usize
  gv_cycles :: nat
  gv_max_cycles :: nat
  gv_output :: "string list"
  gv_collections :: usize
  gv_objects_freed :: usize
  gv_threshold :: usize
  gv_trace :: "trace_event list option"

type_synonym 'a gc_res = "(vm_error + 'a) \<times> gc_vm"

definition gc_new :: gc_vm where
  "gc_new =
     \<lparr>gv_stack = [], gv_globals = replicate MAX_GLOBAL_SLOTS (GInt 0), gv_calls = [], gv_heap = [],
      gv_free = [], gv_next_id = 0, gv_pc = 0, gv_cycles = 0, gv_max_cycles = MAX_CYCLES,
      gv_output = [], gv_collections = 0, gv_objects_freed = 0, gv_threshold = GC_THRESHOLD,
      gv_trace = None\<rparr>"

definition gc_with_max_cycles :: "nat \<Rightarrow> gc_vm \<Rightarrow> gc_vm" where
  "gc_with_max_cycles m s = s\<lparr>gv_max_cycles := m\<rparr>"

definition gc_with_trace :: "gc_vm \<Rightarrow> gc_vm" where
  "gc_with_trace s = s\<lparr>gv_trace := Some []\<rparr>"

definition gc_trace_events :: "gc_vm \<Rightarrow> trace_event list" where
  "gc_trace_events s = (case gv_trace s of Some events \<Rightarrow> events | None \<Rightarrow> [])"

section \<open>The collector\<close>

text \<open>The references among some values, in order.\<close>

fun refs :: "gc_value list \<Rightarrow> nat list" where
  "refs [] = []"
| "refs (GArray i # vs) = i # refs vs"
| "refs (GInt _ # vs) = refs vs"

fun frame_refs :: "gc_value list \<Rightarrow> bool list \<Rightarrow> nat list" where
  "frame_refs (v # vs) (b # bs) = (if b then refs [v] @ frame_refs vs bs else frame_refs vs bs)"
| "frame_refs _ _ = []"

definition ids_to_mark :: "gc_vm \<Rightarrow> nat list" where
  "ids_to_mark s =
     refs (rev (gv_stack s)) @ refs (gv_globals s) @
     concat (List.map (\<lambda>f. frame_refs (gf_locals f) (gf_init f)) (rev (gv_calls s)))"

definition clear_marks :: "heap_array option list \<Rightarrow> heap_array option list" where
  "clear_marks heap = List.map (map_option (\<lambda>a. a\<lparr>arr_marked := False\<rparr>)) heap"

definition mark :: "nat \<Rightarrow> heap_array option list \<Rightarrow> heap_array option list" where
  "mark i heap =
     (if i < length heap
      then heap[i := map_option (\<lambda>a. a\<lparr>arr_marked := True\<rparr>) (heap ! i)]
      else heap)"

text \<open>Sweeping pushes the index of each freed slot onto the free list.\<close>

fun sweep :: "nat \<Rightarrow> heap_array option list \<Rightarrow> nat list \<Rightarrow> nat \<Rightarrow> heap_array option list \<times> nat list \<times> nat" where
  "sweep i [] free freed = ([], free, freed)"
| "sweep i (slot # slots) free freed =
     (case slot of
        Some arr \<Rightarrow>
          if \<not> arr_marked arr then apfst (Cons None) (sweep (i + 1) slots (i # free) (freed + 1))
          else apfst (Cons slot) (sweep (i + 1) slots free freed)
      | None \<Rightarrow> apfst (Cons None) (sweep (i + 1) slots free freed))"

definition collect_garbage :: "gc_vm \<Rightarrow> gc_vm" where
  "collect_garbage s =
     (let marked = fold mark (ids_to_mark s) (clear_marks (gv_heap s));
          (heap, free, freed) = sweep 0 marked (gv_free s) 0
      in s\<lparr>gv_collections := gv_collections s + 1, gv_heap := heap, gv_free := free,
           gv_objects_freed := gv_objects_freed s + freed\<rparr>)"

text \<open>
  An array takes the free slot freed last, or a new one at the end of the heap. The subtraction of
  lengths and the \<open>u32\<close> counter panic in builds with overflow checks.
\<close>

definition alloc_array :: "nat \<Rightarrow> gc_vm \<Rightarrow> nat gc_res" where
  "alloc_array n s =
     (if length (gv_free s) > length (gv_heap s)
      then (Inl (Panic ''attempt to subtract with overflow''), s)
      else
        let s = (if length (gv_heap s) - length (gv_free s) \<ge> gv_threshold s
                 then collect_garbage s else s);
            arr = Some (HeapArray_new n)
        in case gv_free s of
          slot # free \<Rightarrow>
            (let s = s\<lparr>gv_free := free\<rparr>
             in if slot < length (gv_heap s) then (Inr slot, s\<lparr>gv_heap := (gv_heap s)[slot := arr]\<rparr>)
                else (Inl (Panic ''index out of bounds''), s))
        | [] \<Rightarrow>
            (let i = gv_next_id s
             in if i + 1 \<ge> 4294967296 then (Inl (Panic ''attempt to add with overflow''), s)
                else let s = s\<lparr>gv_next_id := i + 1\<rparr>
                  in if i < length (gv_heap s) then (Inr i, s\<lparr>gv_heap := (gv_heap s)[i := arr]\<rparr>)
                     else (Inr i, s\<lparr>gv_heap := gv_heap s @ [arr]\<rparr>)))"

definition get_array :: "gc_vm \<Rightarrow> nat \<Rightarrow> heap_array option" where
  "get_array s i = (if i < length (gv_heap s) then gv_heap s ! i else None)"

definition set_array :: "nat \<Rightarrow> heap_array \<Rightarrow> gc_vm \<Rightarrow> gc_vm" where
  "set_array i a s = s\<lparr>gv_heap := (gv_heap s)[i := Some a]\<rparr>"

section \<open>Operand stack and storage\<close>

definition gc_pop :: "gc_vm \<Rightarrow> gc_value gc_res" where
  "gc_pop s = (case gv_stack s of
     [] \<Rightarrow> (Inl (Trap StackUnderflow ''Stack underflow''), s)
   | v # st \<Rightarrow> (Inr v, s\<lparr>gv_stack := st\<rparr>))"

definition gc_push :: "gc_value \<Rightarrow> gc_vm \<Rightarrow> unit gc_res" where
  "gc_push v s =
     (if length (gv_stack s) \<ge> MAX_OPERAND_STACK
      then (Inl (Trap StackOverflow
              (fmt [''Operand stack overflow (max '', show_nat MAX_OPERAND_STACK,
                    '' entries)''])), s)
      else (Inr (), s\<lparr>gv_stack := v # gv_stack s\<rparr>))"

definition pop_int :: "gc_vm \<Rightarrow> i64 gc_res" where
  "pop_int s = bnd (gc_pop s) (\<lambda>v s. (Inr (to_i64 v), s))"

definition gc_push_next :: "gc_value \<Rightarrow> gc_vm \<Rightarrow> bool gc_res" where
  "gc_push_next v s = bnd (gc_push v s) (\<lambda>_ s. (Inr True, s))"

definition current_frame :: "gc_vm \<Rightarrow> vm_error + gc_frame" where
  "current_frame s = (case gv_calls s of
     [] \<Rightarrow> Inl (Trap InvalidInstruction ''No active call frame'') | f # _ \<Rightarrow> Inr f)"

definition set_current_frame :: "(gc_frame \<Rightarrow> gc_frame) \<Rightarrow> gc_vm \<Rightarrow> unit gc_res" where
  "set_current_frame g s = (case gv_calls s of
     [] \<Rightarrow> (Inl (Trap InvalidInstruction ''No active call frame''), s)
   | f # fs \<Rightarrow> (Inr (), s\<lparr>gv_calls := g f # fs\<rparr>))"

definition gc_local_slot :: "i32 \<Rightarrow> gc_vm \<Rightarrow> vm_error + usize" where
  "gc_local_slot raw_slot s =
     (if raw_slot < 0
      then Inl (Trap InvalidInstruction (fmt [''Negative local slot '', show_int raw_slot]))
      else let slot = nat raw_slot in
        case current_frame s of
          Inl e \<Rightarrow> Inl e
        | Inr frame \<Rightarrow>
            if slot \<ge> length (gf_locals frame)
            then Inl (Trap InvalidInstruction
                   (fmt [''Local slot '', show_nat slot, '' out of range ('',
                         show_nat (length (gf_locals frame)), '' locals)'']))
            else Inr slot)"

definition gc_global_slot :: "i32 \<Rightarrow> gc_vm \<Rightarrow> vm_error + usize" where
  "gc_global_slot raw_slot s =
     (if raw_slot < 0
      then Inl (Trap InvalidInstruction (fmt [''Negative global slot '', show_int raw_slot]))
      else let slot = nat raw_slot in
        if slot \<ge> length (gv_globals s)
        then Inl (Trap InvalidInstruction
               (fmt [''Global slot '', show_nat slot, '' out of range ('',
                     show_nat (length (gv_globals s)), '' slots)'']))
        else Inr slot)"

text \<open>\<open>array_size\<close> and \<open>array_index\<close> of the two machines are the same code.\<close>

definition gc_array_range :: "i32 \<Rightarrow> i32 \<Rightarrow> gc_vm \<Rightarrow> vm_error + (usize \<times> usize)" where
  "gc_array_range raw_base_slot raw_array_size s =
     (case gc_global_slot raw_base_slot s of
        Inl e \<Rightarrow> Inl e
      | Inr base_slot \<Rightarrow>
          (case array_size raw_array_size of
             Inl e \<Rightarrow> Inl e
           | Inr sz \<Rightarrow>
               (case checked_add base_slot sz of
                  None \<Rightarrow> Inl (Trap InvalidInstruction ''Global array range overflow'')
                | Some range_end \<Rightarrow>
                    if range_end > length (gv_globals s)
                    then Inl (Trap InvalidInstruction
                           (fmt [''Global array range ['', show_nat base_slot, ''..'',
                                 show_nat range_end, '') exceeds '',
                                 show_nat (length (gv_globals s)), '' global slots'']))
                    else Inr (base_slot, sz))))"

section \<open>Instructions\<close>

definition gc_binary_op :: "(i64 \<Rightarrow> i64 \<Rightarrow> i64) \<Rightarrow> gc_vm \<Rightarrow> bool gc_res" where
  "gc_binary_op f s =
     bnd (pop_int s) (\<lambda>b s.
     bnd (pop_int s) (\<lambda>a s.
     gc_push_next (GInt (f a b)) s))"

definition gc_logic_op :: "(bool \<Rightarrow> bool \<Rightarrow> bool) \<Rightarrow> gc_vm \<Rightarrow> bool gc_res" where
  "gc_logic_op f s =
     bnd (gc_pop s) (\<lambda>b s.
     bnd (gc_pop s) (\<lambda>a s.
     gc_push_next (GInt (truth (f (is_truthy a) (is_truthy b)))) s))"

definition gc_exec_not :: "gc_vm \<Rightarrow> bool gc_res" where
  "gc_exec_not s = bnd (gc_pop s) (\<lambda>a s. gc_push_next (GInt (truth (\<not> is_truthy a))) s)"

definition gc_exec_div :: "gc_vm \<Rightarrow> bool gc_res" where
  "gc_exec_div s =
     bnd (pop_int s) (\<lambda>b s.
     bnd (pop_int s) (\<lambda>a s.
     if b = 0 then (Inl (Trap DivideByZero ''Division by zero''), s)
     else if a = i64_min \<and> b = - 1
     then (Inl (Panic ''attempt to divide with overflow''), s)
     else gc_push_next (GInt (normalize_i32 (trunc_div a b))) s))"

definition gc_exec_neg :: "gc_vm \<Rightarrow> bool gc_res" where
  "gc_exec_neg s =
     bnd (pop_int s) (\<lambda>a s.
     if a = i64_min then (Inl (Panic ''attempt to negate with overflow''), s)
     else gc_push_next (GInt (normalize_i32 (- a))) s)"

definition gc_load_local :: "i32 \<Rightarrow> gc_vm \<Rightarrow> bool gc_res" where
  "gc_load_local a1 s =
     bnd (lift_res (gc_local_slot a1 s) s) (\<lambda>slot s.
     bnd (lift_res (current_frame s) s) (\<lambda>frame s.
     case frame_get frame slot of
       Some v \<Rightarrow> gc_push_next v s
     | None \<Rightarrow> (Inl (Trap UndefinedLocal (fmt [''Undefined local at slot '', show_int a1])), s)))"

definition gc_store_local :: "i32 \<Rightarrow> gc_vm \<Rightarrow> bool gc_res" where
  "gc_store_local a1 s =
     bnd (lift_res (gc_local_slot a1 s) s) (\<lambda>slot s.
     bnd (gc_pop s) (\<lambda>v s.
     bnd (set_current_frame (frame_set slot v) s) (\<lambda>_ s. (Inr True, s))))"

definition gc_load_global :: "i32 \<Rightarrow> gc_vm \<Rightarrow> bool gc_res" where
  "gc_load_global a1 s =
     bnd (lift_res (gc_global_slot a1 s) s) (\<lambda>slot s. gc_push_next (gv_globals s ! slot) s)"

definition gc_store_global :: "i32 \<Rightarrow> gc_vm \<Rightarrow> bool gc_res" where
  "gc_store_global a1 s =
     bnd (lift_res (gc_global_slot a1 s) s) (\<lambda>slot s.
     bnd (gc_pop s) (\<lambda>v s.
     (Inr True, s\<lparr>gv_globals := (gv_globals s)[slot := v]\<rparr>)))"

definition gc_jump_to :: "i32 \<Rightarrow> gc_vm \<Rightarrow> bool gc_res" where
  "gc_jump_to a1 s = (Inr False, s\<lparr>gv_pc := as_usize a1\<rparr>)"

definition gc_jump_if :: "(bool \<Rightarrow> bool) \<Rightarrow> i32 \<Rightarrow> gc_vm \<Rightarrow> bool gc_res" where
  "gc_jump_if taken a1 s =
     bnd (gc_pop s) (\<lambda>cond s. if taken (is_truthy cond) then gc_jump_to a1 s else (Inr True, s))"

text \<open>The arguments are popped into a vector that is then reversed.\<close>

fun pop_args :: "nat \<Rightarrow> gc_value list \<Rightarrow> gc_vm \<Rightarrow> gc_value list gc_res" where
  "pop_args 0 args s = (Inr args, s)"
| "pop_args (Suc n) args s = bnd (gc_pop s) (\<lambda>v s. pop_args n (args @ [v]) s)"

fun init_params :: "nat \<Rightarrow> gc_value list \<Rightarrow> gc_frame \<Rightarrow> gc_frame" where
  "init_params i [] f = f"
| "init_params i (v # vs) f = init_params (i + 1) vs (frame_set i v f)"

definition gc_exec_call :: "compiled_program \<Rightarrow> i32 \<Rightarrow> i32 \<Rightarrow> gc_vm \<Rightarrow> bool gc_res" where
  "gc_exec_call p a1 a2 s =
     (if a1 < 0
      then (Inl (Trap InvalidInstruction (fmt [''Negative function id '', show_int a1])), s)
      else if a2 < 0
      then (Inl (Trap InvalidInstruction (fmt [''Negative call argument count '', show_int a2])), s)
      else let func_id = nat a1; arg_count = nat a2 in
        case fun_lookup p func_id of
          None \<Rightarrow> (Inl (Trap UndefinedFunction (fmt [''Undefined function '',
                                                            show_nat func_id])), s)
        | Some func \<Rightarrow>
            if length (gv_calls s) \<ge> MAX_FRAMES
            then (Inl (Trap StackOverflow
                    (fmt [''Call stack overflow (max '', show_nat MAX_FRAMES, '' frames)''])), s)
            else if arg_count \<noteq> param_count func
            then (Inl (Trap InvalidInstruction
                    (fmt [''Call has '', show_nat arg_count, '' arguments but function '',
                          show_nat func_id, '' expects '', show_nat (param_count func)])), s)
            else bnd (pop_args arg_count [] s) (\<lambda>args s.
              let new_frame = init_params 0 (rev args) (GcCallFrame_new (local_count func) (gv_pc s + 1))
              in (Inr False, s\<lparr>gv_calls := new_frame # gv_calls s, gv_pc := entry_pc func\<rparr>)))"

definition gc_exec_return :: "gc_vm \<Rightarrow> bool gc_res" where
  "gc_exec_return s =
     bnd (gc_pop s) (\<lambda>v s.
     case gv_calls s of
       [] \<Rightarrow> (Inl (Panic ''called Option::unwrap() on a None value''), s)
     | frame # rest \<Rightarrow>
         (let s = s\<lparr>gv_calls := rest\<rparr> in
          if gf_return_pc frame = usize_max
          then bnd (gc_push v s) (\<lambda>_ s. (Inr False, s))
          else bnd (gc_push v (s\<lparr>gv_pc := gf_return_pc frame\<rparr>)) (\<lambda>_ s. (Inr False, s))))"

definition index_error :: "nat \<Rightarrow> nat \<Rightarrow> vm_error" where
  "index_error index n = Trap ArrayOutOfBounds
     (fmt [''Array index '', show_nat index, '' out of bounds (size '', show_nat n, '')''])"

definition invalid_reference :: vm_error where
  "invalid_reference = Trap InvalidInstruction ''Invalid array reference''"

definition load_element :: "nat \<Rightarrow> nat \<Rightarrow> gc_vm \<Rightarrow> vm_error + gc_value" where
  "load_element i index s =
     (case get_array s i of
        Some arr \<Rightarrow> (if index < length (arr_data arr) then Inr (GInt (arr_data arr ! index))
                     else Inl (index_error index (length (arr_data arr))))
      | None \<Rightarrow> Inl invalid_reference)"

definition store_element :: "nat \<Rightarrow> nat \<Rightarrow> i64 \<Rightarrow> gc_vm \<Rightarrow> unit gc_res" where
  "store_element i index v s =
     (case get_array s i of
        Some arr \<Rightarrow>
          (if index < length (arr_data arr)
           then (Inr (), set_array i (arr\<lparr>arr_data := (arr_data arr)[index := v]\<rparr>) s)
           else (Inl (index_error index (length (arr_data arr))), s))
      | None \<Rightarrow> (Inl invalid_reference, s))"

definition gc_array_load :: "i32 \<Rightarrow> i32 \<Rightarrow> gc_vm \<Rightarrow> bool gc_res" where
  "gc_array_load a1 a2 s =
     bnd (lift_res (gc_array_range a1 a2 s) s) (\<lambda>range s.
     bnd (pop_int s) (\<lambda>raw s.
     bnd (lift_res (array_index raw (snd range)) s) (\<lambda>index s.
     bnd (lift_res (case gv_globals s ! fst range of
            GArray i \<Rightarrow> load_element i index s
          | GInt _ \<Rightarrow> Inr (gv_globals s ! (fst range + index))) s) (\<lambda>v s.
     gc_push_next v s))))"

definition gc_array_store :: "i32 \<Rightarrow> i32 \<Rightarrow> gc_vm \<Rightarrow> bool gc_res" where
  "gc_array_store a1 a2 s =
     bnd (lift_res (gc_array_range a1 a2 s) s) (\<lambda>range s.
     bnd (pop_int s) (\<lambda>v s.
     bnd (pop_int s) (\<lambda>raw s.
     bnd (lift_res (array_index raw (snd range)) s) (\<lambda>index s.
     bnd (case gv_globals s ! fst range of
            GArray i \<Rightarrow> store_element i index v s
          | GInt _ \<Rightarrow> (Inr (), s\<lparr>gv_globals := (gv_globals s)[fst range + index := GInt v]\<rparr>)) (\<lambda>_ s.
     (Inr True, s))))))"

definition gc_local_array_load :: "i32 \<Rightarrow> i32 \<Rightarrow> gc_vm \<Rightarrow> bool gc_res" where
  "gc_local_array_load a1 a2 s =
     bnd (lift_res (gc_local_slot a1 s) s) (\<lambda>base s.
     bnd (lift_res (array_size a2) s) (\<lambda>sz s.
     bnd (pop_int s) (\<lambda>raw s.
     bnd (lift_res (array_index raw sz) s) (\<lambda>index s.
     bnd (lift_res (current_frame s) s) (\<lambda>frame s.
     bnd (lift_res (case frame_get frame base of
            Some (GArray i) \<Rightarrow> load_element i index s
          | Some (GInt v) \<Rightarrow> Inr (GInt v)
          | None \<Rightarrow> Inl (Trap UndefinedLocal (fmt [''Undefined local at slot '', show_nat base]))) s) (\<lambda>v s.
     gc_push_next v s))))))"

definition gc_local_array_store :: "i32 \<Rightarrow> i32 \<Rightarrow> gc_vm \<Rightarrow> bool gc_res" where
  "gc_local_array_store a1 a2 s =
     bnd (lift_res (gc_local_slot a1 s) s) (\<lambda>base s.
     bnd (lift_res (array_size a2) s) (\<lambda>sz s.
     bnd (pop_int s) (\<lambda>v s.
     bnd (pop_int s) (\<lambda>raw s.
     bnd (lift_res (array_index raw sz) s) (\<lambda>index s.
     bnd (lift_res (current_frame s) s) (\<lambda>frame s.
     case frame_get frame base of
       Some (GArray i) \<Rightarrow> bnd (store_element i index v s) (\<lambda>_ s. (Inr True, s))
     | _ \<Rightarrow> (Inl (Trap InvalidInstruction ''Expected array reference''), s)))))))"

definition gc_alloc_array :: "i32 \<Rightarrow> gc_vm \<Rightarrow> bool gc_res" where
  "gc_alloc_array a1 s =
     bnd (lift_res (array_size a1) s) (\<lambda>n s.
     bnd (alloc_array n s) (\<lambda>i s.
     gc_push_next (GArray i) s))"

definition gc_exec_print :: "gc_vm \<Rightarrow> bool gc_res" where
  "gc_exec_print s =
     bnd (pop_int s) (\<lambda>v s.
     (Inr True, s\<lparr>gv_output := gv_output s @ [fmt [''OUTPUT: '', show_int v]]\<rparr>))"

definition gc_exec_pop :: "gc_vm \<Rightarrow> bool gc_res" where
  "gc_exec_pop s = bnd (gc_pop s) (\<lambda>_ s. (Inr True, s))"

definition gc_exec_dup :: "gc_vm \<Rightarrow> bool gc_res" where
  "gc_exec_dup s = (case gv_stack s of
     [] \<Rightarrow> (Inl (Trap StackUnderflow ''Stack underflow on DUP''), s)
   | v # _ \<Rightarrow> gc_push_next v s)"

definition gc_exec_halt :: "gc_vm \<Rightarrow> bool gc_res" where
  "gc_exec_halt s = (Inr False, s\<lparr>gv_calls := []\<rparr>)"

fun gc_execute :: "compiled_program \<Rightarrow> opcode \<Rightarrow> i32 \<Rightarrow> i32 \<Rightarrow> gc_vm \<Rightarrow> bool gc_res" where
  "gc_execute p Op_LoadConst a1 a2 s = gc_push_next (GInt a1) s"
| "gc_execute p Op_LoadLocal a1 a2 s = gc_load_local a1 s"
| "gc_execute p Op_StoreLocal a1 a2 s = gc_store_local a1 s"
| "gc_execute p Op_LoadGlobal a1 a2 s = gc_load_global a1 s"
| "gc_execute p Op_StoreGlobal a1 a2 s = gc_store_global a1 s"
| "gc_execute p Op_Add a1 a2 s = gc_binary_op (\<lambda>a b. normalize_i32 (wrap64 (a + b))) s"
| "gc_execute p Op_Sub a1 a2 s = gc_binary_op (\<lambda>a b. normalize_i32 (wrap64 (a - b))) s"
| "gc_execute p Op_Mul a1 a2 s = gc_binary_op (\<lambda>a b. normalize_i32 (wrap64 (a * b))) s"
| "gc_execute p Op_Div a1 a2 s = gc_exec_div s"
| "gc_execute p Op_Neg a1 a2 s = gc_exec_neg s"
| "gc_execute p Op_Eq a1 a2 s = gc_binary_op (\<lambda>a b. truth (a = b)) s"
| "gc_execute p Op_Ne a1 a2 s = gc_binary_op (\<lambda>a b. truth (a \<noteq> b)) s"
| "gc_execute p Op_Lt a1 a2 s = gc_binary_op (\<lambda>a b. truth (a < b)) s"
| "gc_execute p Op_Gt a1 a2 s = gc_binary_op (\<lambda>a b. truth (a > b)) s"
| "gc_execute p Op_Le a1 a2 s = gc_binary_op (\<lambda>a b. truth (a \<le> b)) s"
| "gc_execute p Op_Ge a1 a2 s = gc_binary_op (\<lambda>a b. truth (a \<ge> b)) s"
| "gc_execute p Op_And a1 a2 s = gc_logic_op (\<and>) s"
| "gc_execute p Op_Or a1 a2 s = gc_logic_op (\<or>) s"
| "gc_execute p Op_Not a1 a2 s = gc_exec_not s"
| "gc_execute p Op_Jump a1 a2 s = gc_jump_to a1 s"
| "gc_execute p Op_JumpIfFalse a1 a2 s = gc_jump_if (\<lambda>c. \<not> c) a1 s"
| "gc_execute p Op_JumpIfTrue a1 a2 s = gc_jump_if (\<lambda>c. c) a1 s"
| "gc_execute p Op_Call a1 a2 s = gc_exec_call p a1 a2 s"
| "gc_execute p Op_Return a1 a2 s = gc_exec_return s"
| "gc_execute p Op_ArrayLoad a1 a2 s = gc_array_load a1 a2 s"
| "gc_execute p Op_ArrayStore a1 a2 s = gc_array_store a1 a2 s"
| "gc_execute p Op_LocalArrayLoad a1 a2 s = gc_local_array_load a1 a2 s"
| "gc_execute p Op_LocalArrayStore a1 a2 s = gc_local_array_store a1 a2 s"
| "gc_execute p Op_AllocArray a1 a2 s = gc_alloc_array a1 s"
| "gc_execute p Op_ArrayNew a1 a2 s = gc_alloc_array a1 s"
| "gc_execute p Op_Print a1 a2 s = gc_exec_print s"
| "gc_execute p Op_Pop a1 a2 s = gc_exec_pop s"
| "gc_execute p Op_Dup a1 a2 s = gc_exec_dup s"
| "gc_execute p Op_Halt a1 a2 s = gc_exec_halt s"

section \<open>Validation and the run loop\<close>

text \<open>The validation of the two machines is the same code.\<close>

definition gc_validate_program :: "compiled_program \<Rightarrow> (trap_code \<times> string) option" where
  "gc_validate_program p = validate_program p"

definition stack_as_i64 :: "gc_vm \<Rightarrow> i64 list" where
  "stack_as_i64 s = List.map to_i64 (rev (gv_stack s))"

definition gc_make_trap_result :: "trap_code \<Rightarrow> string \<Rightarrow> gc_vm \<Rightarrow> gc_vm_result \<times> gc_vm" where
  "gc_make_trap_result code msg s =
     (\<lparr>gr_success = False, gr_return_value = 0, gr_trap_code = code, gr_trap_message = msg,
       gr_cycles = gv_cycles s, gr_output = gv_output s, gr_pc = gv_pc s,
       gr_stack_depth = length (gv_stack s), gr_frame_depth = length (gv_calls s),
       gr_collections = gv_collections s, gr_objects_freed = gv_objects_freed s,
       gr_heap_arrays_allocated = gv_next_id s\<rparr>,
      s\<lparr>gv_output := []\<rparr>)"

definition gc_record_trace :: "trace_step \<Rightarrow> trace_outcome \<Rightarrow> gc_vm \<Rightarrow> gc_vm" where
  "gc_record_trace st outcome s =
     (case gv_trace s of
        None \<Rightarrow> s
      | Some events \<Rightarrow> s\<lparr>gv_trace := Some (events @
          [\<lparr>ev_cycle = gv_cycles s, ev_pc = ts_pc st, ev_opcode = opcode_name (ts_opcode st),
            ev_arg1 = ts_arg1 st, ev_arg2 = ts_arg2 st,
            ev_stack_before = (case ts_stack_before st of None \<Rightarrow> [] | Some xs \<Rightarrow> xs),
            ev_stack_after = stack_as_i64 s,
            ev_frame_depth_before = ts_frame_depth_before st,
            ev_frame_depth_after = length (gv_calls s),
            ev_next_pc = gv_pc s, ev_outcome = outcome\<rparr>])\<rparr>)"

type_synonym gc_exit = "(string + gc_vm_result) \<times> gc_vm"

definition gc_finish :: "gc_vm_result \<times> gc_vm \<Rightarrow> gc_exit" where
  "gc_finish r = (Inr (fst r), snd r)"

definition gc_take_top :: "gc_vm \<Rightarrow> i64 \<times> gc_vm" where
  "gc_take_top s = (case gv_stack s of [] \<Rightarrow> (0, s) | v # st \<Rightarrow> (to_i64 v, s\<lparr>gv_stack := st\<rparr>))"

definition gc_exit_result :: "gc_vm \<Rightarrow> gc_vm_result \<times> gc_vm" where
  "gc_exit_result s =
     (let r = gc_take_top s; s = snd r
      in (\<lparr>gr_success = True, gr_return_value = fst r, gr_trap_code = TrapNone, gr_trap_message = [],
           gr_cycles = gv_cycles s, gr_output = gv_output s, gr_pc = gv_pc s,
           gr_stack_depth = length (gv_stack s), gr_frame_depth = length (gv_calls s),
           gr_collections = gv_collections s, gr_objects_freed = gv_objects_freed s,
           gr_heap_arrays_allocated = gv_next_id s\<rparr>,
          s\<lparr>gv_output := []\<rparr>))"

definition gc_fetch_step :: "instruction \<Rightarrow> gc_vm \<Rightarrow> trace_step" where
  "gc_fetch_step instr s =
     \<lparr>ts_pc = gv_pc s, ts_opcode = opcode instr, ts_arg1 = arg1 instr, ts_arg2 = arg2 instr,
      ts_stack_before = map_option (\<lambda>_. stack_as_i64 s) (gv_trace s),
      ts_frame_depth_before = length (gv_calls s)\<rparr>"

definition gc_after_instruction :: "trace_step \<Rightarrow> bool gc_res \<Rightarrow> gc_exit + gc_vm" where
  "gc_after_instruction st r =
     (let s2 = snd r in
      case fst r of
        Inl (Trap code msg) \<Rightarrow>
          Inl (gc_finish (gc_make_trap_result code msg (gc_record_trace st (OTrap code msg) s2)))
      | Inl (Panic msg) \<Rightarrow> Inl (Inl msg, s2)
      | Inr advance \<Rightarrow>
          (let s3 = (if advance then s2\<lparr>gv_pc := gv_pc s2 + 1\<rparr> else s2);
               outcome = (if advance then OContinue else OJump)
           in if gv_calls s3 = []
              then Inl (gc_finish (gc_exit_result (gc_record_trace st OExit s3)))
              else Inr (gc_record_trace st outcome s3)))"

definition gc_exec_current :: "compiled_program \<Rightarrow> gc_vm \<Rightarrow> bool gc_res" where
  "gc_exec_current p s =
     (let instr = instructions p ! gv_pc s
      in gc_execute p (opcode instr) (arg1 instr) (arg2 instr)
           (s\<lparr>gv_cycles := gv_cycles s + 1\<rparr>))"

definition gc_step :: "compiled_program \<Rightarrow> gc_vm \<Rightarrow> gc_exit + gc_vm" where
  "gc_step p s =
     (if gv_max_cycles s > 0 \<and> gv_cycles s \<ge> gv_max_cycles s
      then Inl (gc_finish (gc_make_trap_result CycleLimit
             (fmt [''Cycle limit exceeded ('', show_nat (gv_max_cycles s), '' cycles)'']) s))
      else if gv_pc s \<ge> length (instructions p)
      then Inl (gc_finish (gc_make_trap_result InvalidInstruction
             (fmt [''PC out of bounds: '', show_nat (gv_pc s)]) s))
      else gc_after_instruction (gc_fetch_step (instructions p ! gv_pc s) s) (gc_exec_current p s))"

text \<open>Global arrays live on the heap; their first slot holds the reference.\<close>

fun init_globals :: "global_info list \<Rightarrow> gc_vm \<Rightarrow> unit gc_res" where
  "init_globals [] s = (Inr (), s)"
| "init_globals (info # infos) s =
     (if gi_is_array info
      then bnd (alloc_array (gi_array_size info) s) (\<lambda>i s.
        if gi_slot info < length (gv_globals s)
        then init_globals infos (s\<lparr>gv_globals := (gv_globals s)[gi_slot info := GArray i]\<rparr>)
        else (Inl (Panic ''index out of bounds''), s))
      else init_globals infos s)"

definition gc_start :: "function_info \<Rightarrow> gc_vm \<Rightarrow> gc_vm" where
  "gc_start main_func s =
     s\<lparr>gv_pc := entry_pc main_func,
       gv_calls := GcCallFrame_new (local_count main_func) usize_max # gv_calls s\<rparr>"

definition gc_run :: "compiled_program \<Rightarrow> gc_vm \<Rightarrow> gc_exit option" where
  "gc_run p s =
     (case gc_validate_program p of
        Some e \<Rightarrow> Some (gc_finish (gc_make_trap_result (fst e) (snd e) s))
      | None \<Rightarrow>
          (case fun_lookup p (main_func_id p) of
             None \<Rightarrow> Some (gc_finish (gc_make_trap_result UndefinedFunction ''No main function found'' s))
           | Some main_func \<Rightarrow>
               (case init_globals (List.map snd (prog_globals p)) s of
                  (Inl (Panic msg), s) \<Rightarrow> Some (Inl msg, s)
                | (Inl (Trap code msg), s) \<Rightarrow> Some (gc_finish (gc_make_trap_result code msg s))
                | (Inr _, s) \<Rightarrow> iterate (gc_step p) (gc_start main_func s))))"

definition gc_stats :: "gc_vm \<Rightarrow> string" where
  "gc_stats s =
     fmt [''GC Statistics:'', [CHR 10], ''  Collections: '', show_nat (gv_collections s), [CHR 10],
          ''  Objects freed: '', show_nat (gv_objects_freed s), [CHR 10],
          ''  Heap arrays allocated: '', show_nat (gv_next_id s), [CHR 10],
          ''  Currently live: '', show_nat (length (filter (\<lambda>a. a \<noteq> None) (gv_heap s)))]"

end
