(* ===== verification/Gc_Props.thy ===== *)
theory Gc_Props
  imports Gc_Vm Vm_Props
begin

text \<open>
  The garbage collecting machine never follows a dangling reference: a heap invariant that the
  collector establishes and every instruction keeps. The collector frees exactly the arrays that
  no root refers to.
\<close>

section \<open>Roots and live arrays\<close>

definition roots :: "gc_vm \<Rightarrow> nat set" where
  "roots s = set (ids_to_mark s)"

definition live :: "gc_vm \<Rightarrow> nat set" where
  "live s = {i. i < length (gv_heap s) \<and> gv_heap s ! i \<noteq> None}"

definition vals_refs :: "gc_value list \<Rightarrow> nat set" where
  "vals_refs vs = {i. GArray i \<in> set vs}"

definition frame_roots :: "gc_frame \<Rightarrow> nat set" where
  "frame_roots f = {i. \<exists>k < length (gf_locals f). gf_init f ! k \<and> gf_locals f ! k = GArray i}"

lemma set_refs [simp]: "set (refs vs) = vals_refs vs"
  by (induction vs rule: refs.induct) (auto simp: vals_refs_def)

lemma vals_refs_simps [simp]:
  "vals_refs [] = {}" "vals_refs (GInt v # vs) = vals_refs vs"
  "vals_refs (GArray i # vs) = insert i (vals_refs vs)" "vals_refs (rev vs) = vals_refs vs"
  by (auto simp: vals_refs_def)

lemma set_frame_refs:
  "length bs = length vs \<Longrightarrow> set (frame_refs vs bs) = {i. \<exists>k < length vs. bs ! k \<and> vs ! k = GArray i}"
proof (induction vs bs rule: frame_refs.induct)
  case (1 v vs b bs)
  have split: "(\<exists>k < length (v # vs). (b # bs) ! k \<and> (v # vs) ! k = GArray i) \<longleftrightarrow>
      b \<and> v = GArray i \<or> (\<exists>k < length vs. bs ! k \<and> vs ! k = GArray i)" for i
    by (auto simp: less_Suc_eq_0_disj)
  show ?case using 1 unfolding split by (cases v) auto
qed auto

definition frames_ok :: "gc_vm \<Rightarrow> bool" where
  "frames_ok s \<longleftrightarrow> (\<forall>f \<in> set (gv_calls s). length (gf_init f) = length (gf_locals f))"

lemma roots_frames:
  "frames_ok s \<Longrightarrow>
     roots s = vals_refs (gv_stack s) \<union> vals_refs (gv_globals s) \<union> (\<Union>f \<in> set (gv_calls s). frame_roots f)"
  by (auto simp: roots_def ids_to_mark_def frames_ok_def frame_roots_def set_frame_refs)

text \<open>The heap: the free list names exactly the empty slots, once each.\<close>

definition heap_ok :: "gc_vm \<Rightarrow> bool" where
  "heap_ok s \<longleftrightarrow> distinct (gv_free s) \<and>
     set (gv_free s) = {i. i < length (gv_heap s) \<and> gv_heap s ! i = None} \<and>
     gv_next_id s = length (gv_heap s)"

definition gc_ok :: "gc_vm \<Rightarrow> bool" where
  "gc_ok s \<longleftrightarrow> heap_ok s \<and> frames_ok s \<and> roots s \<subseteq> live s \<and>
     length (gv_globals s) = MAX_GLOBAL_SLOTS \<and> length (gv_stack s) \<le> MAX_OPERAND_STACK \<and>
     length (gv_calls s) \<le> MAX_FRAMES"

section \<open>The collector\<close>

lemma length_mark [simp]: "length (mark i h) = length h"
  by (simp add: mark_def)

lemma length_marks [simp]: "length (fold mark is h) = length h"
  by (induction "is" arbitrary: h) auto

lemma mark_nth:
  "k < length h \<Longrightarrow> mark i h ! k = (if k = i then map_option (\<lambda>a. a\<lparr>arr_marked := True\<rparr>) (h ! k) else h ! k)"
  by (auto simp: mark_def)

lemma marks_nth:
  "k < length h \<Longrightarrow> fold mark is h ! k =
     (if k \<in> set is then map_option (\<lambda>a. a\<lparr>arr_marked := True\<rparr>) (h ! k) else h ! k)"
proof (induction "is" arbitrary: h)
  case (Cons i "is")
  then show ?case by (cases "h ! k") (auto simp: mark_nth)
qed simp

definition swept :: "heap_array option \<Rightarrow> heap_array option" where
  "swept slot = (case slot of Some a \<Rightarrow> if arr_marked a then Some a else None | None \<Rightarrow> None)"

definition garbage :: "heap_array option \<Rightarrow> bool" where
  "garbage slot \<longleftrightarrow> slot \<noteq> None \<and> swept slot = None"

lemma sweep_Cons:
  "sweep i (slot # slots) free n =
     apfst (Cons (swept slot)) (if garbage slot then sweep (i + 1) slots (i # free) (n + 1)
                                else sweep (i + 1) slots free n)"
  by (simp add: swept_def garbage_def split: option.split)

lemma sweep_heap: "fst (sweep i h free n) = List.map swept h"
  by (induction h arbitrary: i free n) (simp_all add: sweep_Cons del: sweep.simps(2))

lemma garbage_Cons:
  "{k + i | k. k < length (slot # slots) \<and> garbage ((slot # slots) ! k)} =
     (if garbage slot then {i} else {}) \<union> {k + Suc i | k. k < length slots \<and> garbage (slots ! k)}"
  by (auto simp: less_Suc_eq_0_disj)

lemma sweep_free:
  "\<exists>new. fst (snd (sweep i h free n)) = new @ free \<and> distinct new \<and>
     set new = {k + i | k. k < length h \<and> garbage (h ! k)}"
proof (induction h arbitrary: i free n)
  case (Cons slot slots)
  show ?case
  proof (cases "garbage slot")
    case True
    from Cons.IH [of "Suc i" "i # free" "n + 1"] obtain new where
      new: "fst (snd (sweep (Suc i) slots (i # free) (n + 1))) = new @ i # free" "distinct new"
        "set new = {k + Suc i | k. k < length slots \<and> garbage (slots ! k)}" by auto
    then have "distinct (new @ [i])" "set (new @ [i]) = {k + i | k. k < length (slot # slots) \<and> garbage ((slot # slots) ! k)}"
      unfolding garbage_Cons using True by auto
    moreover have "fst (snd (sweep i (slot # slots) free n)) = (new @ [i]) @ free"
      using new(1) True by (simp add: sweep_Cons del: sweep.simps(2))
    ultimately show ?thesis by metis
  next
    case False
    with Cons.IH [of "Suc i" free n] show ?thesis
      unfolding garbage_Cons by (simp add: sweep_Cons del: sweep.simps(2))
  qed
qed simp

lemma sweep_freed: "snd (snd (sweep i h free n)) = n + length (filter garbage h)"
  by (induction h arbitrary: i free n) (simp_all add: sweep_Cons del: sweep.simps(2))

text \<open>What a collection leaves: the arrays the roots refer to, with their elements.\<close>

definition marked_heap :: "gc_vm \<Rightarrow> heap_array option list" where
  "marked_heap s = fold mark (ids_to_mark s) (clear_marks (gv_heap s))"

lemma marked_heap_nth:
  "k < length (gv_heap s) \<Longrightarrow> marked_heap s ! k = map_option (\<lambda>a. a\<lparr>arr_marked := k \<in> roots s\<rparr>) (gv_heap s ! k)"
  by (cases "gv_heap s ! k") (auto simp: marked_heap_def clear_marks_def marks_nth roots_def)

lemma length_marked_heap [simp]: "length (marked_heap s) = length (gv_heap s)"
  by (simp add: marked_heap_def clear_marks_def)

lemma collect_fields:
  "collect_garbage s = s\<lparr>gv_collections := gv_collections s + 1,
     gv_heap := fst (sweep 0 (marked_heap s) (gv_free s) 0),
     gv_free := fst (snd (sweep 0 (marked_heap s) (gv_free s) 0)),
     gv_objects_freed := gv_objects_freed s + snd (snd (sweep 0 (marked_heap s) (gv_free s) 0))\<rparr>"
  by (simp add: collect_garbage_def marked_heap_def Let_def split_beta)

lemma collect_heap:
  assumes "k < length (gv_heap s)"
  shows "gv_heap (collect_garbage s) ! k =
    (if k \<in> roots s then map_option (\<lambda>a. a\<lparr>arr_marked := True\<rparr>) (gv_heap s ! k) else None)"
  using assms
  by (cases "gv_heap s ! k") (simp_all add: collect_fields sweep_heap marked_heap_nth swept_def)

lemma length_collect [simp]: "length (gv_heap (collect_garbage s)) = length (gv_heap s)"
  by (simp add: collect_fields sweep_heap)

lemma collect_live: "live (collect_garbage s) = live s \<inter> roots s"
  by (auto simp: live_def collect_heap split: if_splits)

lemma collect_None:
  "k < length (gv_heap s) \<Longrightarrow> gv_heap (collect_garbage s) ! k = None \<longleftrightarrow> gv_heap s ! k = None \<or> k \<notin> roots s"
  by (simp add: collect_heap)

lemma collect_roots [simp]: "roots (collect_garbage s) = roots s"
  by (simp add: roots_def ids_to_mark_def collect_fields)

lemma collect_free:
  assumes "heap_ok s"
  shows "distinct (gv_free (collect_garbage s)) \<and>
    set (gv_free (collect_garbage s)) = {i. i < length (gv_heap s) \<and> gv_heap (collect_garbage s) ! i = None}"
proof -
  from sweep_free [of 0 "marked_heap s" "gv_free s" 0] obtain new where
    new: "gv_free (collect_garbage s) = new @ gv_free s" "distinct new"
      "set new = {k. k < length (gv_heap s) \<and> garbage (marked_heap s ! k)}"
    by (auto simp: collect_fields)
  have "garbage (marked_heap s ! k) \<longleftrightarrow> gv_heap s ! k \<noteq> None \<and> k \<notin> roots s" if "k < length (gv_heap s)" for k
    using that by (cases "gv_heap s ! k") (auto simp: marked_heap_nth garbage_def swept_def)
  then have "set new = {k. k < length (gv_heap s) \<and> gv_heap s ! k \<noteq> None \<and> k \<notin> roots s}"
    unfolding new(3) by blast
  then have "set new = {k. k < length (gv_heap s) \<and> gv_heap s ! k \<noteq> None \<and> k \<notin> roots s}" .
  moreover have "distinct (gv_free s)" "set (gv_free s) = {i. i < length (gv_heap s) \<and> gv_heap s ! i = None}"
    using assms by (simp_all add: heap_ok_def)
  ultimately have "distinct (new @ gv_free s)"
      "set (new @ gv_free s) = {i. i < length (gv_heap s) \<and> (gv_heap s ! i = None \<or> i \<notin> roots s)}"
    using new(2) by (simp, blast, simp, blast)
  with new(1) show ?thesis by (auto simp: collect_None)
qed

lemma collect_heap_ok: "heap_ok s \<Longrightarrow> heap_ok (collect_garbage s)"
  using collect_free [of s] by (simp add: heap_ok_def) (simp add: collect_fields)

lemma collect_ok: "gc_ok s \<Longrightarrow> gc_ok (collect_garbage s)"
proof -
  assume s: "gc_ok s"
  then have "heap_ok (collect_garbage s)" "roots (collect_garbage s) \<subseteq> live (collect_garbage s)"
    by (auto simp: gc_ok_def collect_live intro: collect_heap_ok)
  with s show ?thesis by (simp add: gc_ok_def) (simp add: collect_fields frames_ok_def)
qed

section \<open>Allocation\<close>

text \<open>What an operation on the heap leaves alone.\<close>

definition same_outside_heap :: "gc_vm \<Rightarrow> gc_vm \<Rightarrow> bool" where
  "same_outside_heap s t \<longleftrightarrow>
     gv_stack t = gv_stack s \<and> gv_globals t = gv_globals s \<and> gv_calls t = gv_calls s \<and>
     gv_pc t = gv_pc s \<and> gv_cycles t = gv_cycles s \<and> gv_max_cycles t = gv_max_cycles s \<and>
     gv_output t = gv_output s \<and> gv_trace t = gv_trace s \<and> gv_threshold t = gv_threshold s"

lemma same_outside_roots: "same_outside_heap s t \<Longrightarrow> roots t = roots s"
  by (simp add: same_outside_heap_def roots_def ids_to_mark_def)

lemma collect_outside: "same_outside_heap s (collect_garbage s)"
  by (simp add: same_outside_heap_def collect_fields)

text \<open>An allocation yields an array that no root refers to yet, and keeps what the roots refer to.\<close>

definition elements :: "gc_vm \<Rightarrow> nat \<Rightarrow> i64 list option" where
  "elements s i = map_option arr_data (get_array s i)"

lemma collect_elements: "i \<in> roots s \<Longrightarrow> elements (collect_garbage s) i = elements s i"
  by (cases "i < length (gv_heap s)"; cases "gv_heap s ! i") (simp_all add: elements_def get_array_def collect_heap)

definition allocated :: "nat \<Rightarrow> gc_vm \<Rightarrow> nat \<Rightarrow> gc_vm \<Rightarrow> bool" where
  "allocated n s i t \<longleftrightarrow>
     gc_ok t \<and> same_outside_heap s t \<and> i \<in> live t \<and> i \<notin> roots s \<and> elements t i = Some (replicate n 0) \<and>
     (\<forall>j \<in> roots s. elements t j = elements s j) \<and> length (gv_heap t) \<le> Suc (length (gv_heap s))"

lemma alloc_reuse:
  assumes ok: "gc_ok s" and free: "gv_free s = i # free"
  shows "i < length (gv_heap s)"
    and "allocated n s i (s\<lparr>gv_free := free, gv_heap := (gv_heap s)[i := Some (HeapArray_new n)]\<rparr>)"
proof -
  from ok free have i: "i < length (gv_heap s)" "gv_heap s ! i = None" "i \<notin> set free" "distinct free"
      "set (gv_free s) = {i. i < length (gv_heap s) \<and> gv_heap s ! i = None}"
    by (auto simp: gc_ok_def heap_ok_def)
  then show "i < length (gv_heap s)" by simp
  let ?t = "s\<lparr>gv_free := free, gv_heap := (gv_heap s)[i := Some (HeapArray_new n)]\<rparr>"
  have outside: "same_outside_heap s ?t" by (simp add: same_outside_heap_def)
  have live: "live ?t = insert i (live s)" using i by (auto simp: live_def nth_list_update)
  have "i \<notin> live s" using i by (simp add: live_def)
  moreover have rl: "roots s \<subseteq> live s" using ok by (simp add: gc_ok_def)
  ultimately have not_root: "i \<notin> roots s" by blast
  have "set free = set (gv_free s) - {i}" using free i(3) by auto
  then have "heap_ok ?t" using ok i by (auto simp: heap_ok_def gc_ok_def nth_list_update)
  with ok rl live same_outside_roots [OF outside] have "gc_ok ?t" by (auto simp: gc_ok_def frames_ok_def)
  then show "allocated n s i ?t"
    using outside live not_root i
    by (auto simp: allocated_def elements_def get_array_def HeapArray_new_def nth_list_update)
qed

lemma alloc_grow:
  assumes ok: "gc_ok s" and free: "gv_free s = []"
  shows "gv_next_id s = length (gv_heap s)"
    and "allocated n s (length (gv_heap s))
      (s\<lparr>gv_next_id := gv_next_id s + 1, gv_heap := gv_heap s @ [Some (HeapArray_new n)]\<rparr>)"
proof -
  from ok show nid: "gv_next_id s = length (gv_heap s)" by (simp add: gc_ok_def heap_ok_def)
  let ?t = "s\<lparr>gv_next_id := gv_next_id s + 1, gv_heap := gv_heap s @ [Some (HeapArray_new n)]\<rparr>"
  let ?i = "length (gv_heap s)"
  have outside: "same_outside_heap s ?t" by (simp add: same_outside_heap_def)
  have live: "live ?t = insert ?i (live s)" by (auto simp: live_def nth_append less_Suc_eq)
  have rl: "roots s \<subseteq> live s" using ok by (simp add: gc_ok_def)
  then have not_root: "?i \<notin> roots s" by (auto simp: live_def)
  have full: "j < ?i \<Longrightarrow> gv_heap s ! j \<noteq> None" for j using ok free by (auto simp: gc_ok_def heap_ok_def)
  then have "heap_ok ?t" using free nid by (auto simp: heap_ok_def nth_append less_Suc_eq)
  with ok rl live same_outside_roots [OF outside] have "gc_ok ?t" by (auto simp: gc_ok_def frames_ok_def)
  moreover have "elements ?t j = elements s j" if "j \<in> roots s" for j
    using that rl by (auto simp: elements_def get_array_def nth_append live_def)
  ultimately show "allocated n s ?i ?t"
    using outside live not_root
    by (auto simp: allocated_def elements_def get_array_def HeapArray_new_def nth_append)
qed

lemma post_alloc:
  assumes ok: "gc_ok s" and small: "length (gv_heap s) + 1 < 4294967296"
    and Q: "\<And>i t. allocated n s i t \<Longrightarrow> Q i t"
  shows "post (alloc_array n s) Q E"
proof -
  let ?s = "if length (gv_heap s) - length (gv_free s) \<ge> gv_threshold s then collect_garbage s else s"
  have s': "gc_ok ?s" "same_outside_heap s ?s" "length (gv_heap ?s) = length (gv_heap s)"
    and kept: "\<And>j. j \<in> roots s \<Longrightarrow> elements ?s j = elements s j"
    using ok collect_ok collect_outside by (auto simp: same_outside_heap_def collect_elements)
  have alloc: "allocated n s i t" if "allocated n ?s i t" for i t
    using that s' kept same_outside_roots [OF s'(2)] unfolding allocated_def same_outside_heap_def by auto
  have "card (set (gv_free s)) \<le> card {..<length (gv_heap s)}"
    using ok by (intro card_mono) (auto simp: gc_ok_def heap_ok_def)
  then have no_underflow: "\<not> length (gv_free s) > length (gv_heap s)"
    using ok distinct_card [of "gv_free s"] by (simp add: gc_ok_def heap_ok_def)
  show ?thesis
  proof (cases "gv_free ?s")
    case Nil
    with alloc_grow [OF s'(1) Nil] no_underflow small s'(3) Q alloc show ?thesis
      by (simp add: alloc_array_def Let_def)
  next
    case (Cons i free)
    with alloc_reuse [OF s'(1) Cons] no_underflow s'(3) Q alloc show ?thesis
      by (simp add: alloc_array_def Let_def)
  qed
qed

section \<open>Weakest preconditions\<close>

named_theorems gc_wp \<open>weakest preconditions of the operations of the machine\<close>

lemma post_gc_pop [gc_wp]:
  "post (gc_pop s) Q E \<longleftrightarrow>
     (gv_stack s = [] \<longrightarrow> E (Trap StackUnderflow ''Stack underflow'') s) \<and>
     (\<forall>v st. gv_stack s = v # st \<longrightarrow> Q v (s\<lparr>gv_stack := st\<rparr>))"
  by (simp add: gc_pop_def split: list.splits)

lemma post_pop_int [gc_wp]:
  "post (pop_int s) Q E \<longleftrightarrow>
     (gv_stack s = [] \<longrightarrow> E (Trap StackUnderflow ''Stack underflow'') s) \<and>
     (\<forall>v st. gv_stack s = v # st \<longrightarrow> Q (to_i64 v) (s\<lparr>gv_stack := st\<rparr>))"
  by (simp add: pop_int_def post_gc_pop)

lemma post_gc_push [gc_wp]:
  "post (gc_push v s) Q E \<longleftrightarrow>
     (length (gv_stack s) \<ge> MAX_OPERAND_STACK \<longrightarrow> E stack_overflow_error s) \<and>
     (length (gv_stack s) < MAX_OPERAND_STACK \<longrightarrow> Q () (s\<lparr>gv_stack := v # gv_stack s\<rparr>))"
  by (auto simp: gc_push_def stack_overflow_error_def)

lemma post_gc_push_next [gc_wp]:
  "post (gc_push_next v s) Q E \<longleftrightarrow>
     (length (gv_stack s) \<ge> MAX_OPERAND_STACK \<longrightarrow> E stack_overflow_error s) \<and>
     (length (gv_stack s) < MAX_OPERAND_STACK \<longrightarrow> Q True (s\<lparr>gv_stack := v # gv_stack s\<rparr>))"
  by (simp add: gc_push_next_def post_gc_push)

lemma post_gc_lift [gc_wp]:
  "post (r, s) Q E \<longleftrightarrow> (\<forall>e. r = Inl e \<longrightarrow> E e s) \<and> (\<forall>a. r = Inr a \<longrightarrow> Q a s)"
  by (cases r) simp_all

lemma post_set_current_frame [gc_wp]:
  "post (set_current_frame g s) Q E \<longleftrightarrow>
     (gv_calls s = [] \<longrightarrow> E (Trap InvalidInstruction ''No active call frame'') s) \<and>
     (\<forall>f fs. gv_calls s = f # fs \<longrightarrow> Q () (s\<lparr>gv_calls := g f # fs\<rparr>))"
  by (simp add: set_current_frame_def split: list.splits)

lemma post_store_element [gc_wp]:
  "post (store_element i k v s) Q E \<longleftrightarrow>
     (get_array s i = None \<longrightarrow> E invalid_reference s) \<and>
     (\<forall>a. get_array s i = Some a \<longrightarrow>
        (k < length (arr_data a) \<longrightarrow> Q () (set_array i (a\<lparr>arr_data := (arr_data a)[k := v]\<rparr>) s)) \<and>
        (\<not> k < length (arr_data a) \<longrightarrow> E (index_error k (length (arr_data a))) s))"
  by (simp add: store_element_def split: option.split)

lemma post_pop_args:
  "post (pop_args n args s) Q E \<longleftrightarrow>
     (n \<le> length (gv_stack s) \<longrightarrow> Q (args @ take n (gv_stack s)) (s\<lparr>gv_stack := drop n (gv_stack s)\<rparr>)) \<and>
     (length (gv_stack s) < n \<longrightarrow> E (Trap StackUnderflow ''Stack underflow'') (s\<lparr>gv_stack := []\<rparr>))"
proof (induction n arbitrary: args s)
  case 0
  have "s\<lparr>gv_stack := gv_stack s\<rparr> = s" by simp
  then show ?case by simp
next
  case (Suc n)
  show ?case
  proof (cases "gv_stack s")
    case Nil
    then have "E e (s\<lparr>gv_stack := []\<rparr>) = E e s" for e by (cases s) simp
    with Nil show ?thesis by (simp add: post_gc_pop)
  next
    case (Cons v st)
    with Suc show ?thesis by (simp add: gc_wp)
  qed
qed

lemmas gc_exec_defs = gc_binary_op_def gc_logic_op_def gc_exec_not_def gc_exec_div_def gc_exec_neg_def
  gc_load_local_def gc_store_local_def gc_load_global_def gc_store_global_def gc_jump_to_def gc_jump_if_def
  gc_exec_return_def gc_array_load_def gc_array_store_def gc_local_array_load_def gc_local_array_store_def
  gc_alloc_array_def gc_exec_print_def gc_exec_pop_def gc_exec_dup_def gc_exec_halt_def

section \<open>What the readers return\<close>

lemma gc_local_slot_Inr:
  "gc_local_slot raw s = Inr slot \<Longrightarrow>
     \<exists>f fs. gv_calls s = f # fs \<and> slot < length (gf_locals f) \<and> 0 \<le> raw \<and> slot = nat raw"
  by (auto simp: gc_local_slot_def current_frame_def Let_def split: if_splits list.splits)

lemma gc_global_slot_Inr: "gc_global_slot raw s = Inr slot \<longleftrightarrow> 0 \<le> raw \<and> slot = nat raw \<and> slot < length (gv_globals s)"
  by (auto simp: gc_global_slot_def Let_def)

lemma gc_array_range_Inr:
  "gc_array_range raw_base raw_size s = Inr rng \<Longrightarrow>
     0 \<le> raw_base \<and> 0 \<le> raw_size \<and> rng = (nat raw_base, nat raw_size) \<and>
     nat raw_base + nat raw_size \<le> length (gv_globals s) \<and> nat raw_base < length (gv_globals s)"
  by (auto simp: gc_array_range_def gc_global_slot_Inr array_size_Inr checked_add_def
      split: sum.splits option.splits if_splits)

lemma current_frame_Inr: "current_frame s = Inr f \<longleftrightarrow> (\<exists>fs. gv_calls s = f # fs)"
  by (simp add: current_frame_def split: list.split)

lemma load_element_Inr:
  "load_element i k s = Inr v \<longleftrightarrow> (\<exists>a. get_array s i = Some a \<and> k < length (arr_data a) \<and> v = GInt (arr_data a ! k))"
  by (auto simp: load_element_def split: option.split)

text \<open>Every error but that of a dangling reference.\<close>

definition harmless :: "vm_error \<Rightarrow> bool" where
  "harmless e \<longleftrightarrow> e \<noteq> invalid_reference"

lemma harmless_errors [simp]:
  "harmless (Trap StackUnderflow m)" "harmless (Trap StackOverflow m)" "harmless (Trap UndefinedFunction m)"
  "harmless (Trap ArrayOutOfBounds m)" "harmless (Trap DivideByZero m)" "harmless (Trap UndefinedLocal m)"
  "harmless (Trap InvalidInstruction ''No active call frame'')"
  "harmless (Trap InvalidInstruction ''Expected array reference'')"
  "harmless (Trap InvalidInstruction ''Global array range overflow'')"
  "harmless stack_overflow_error" "harmless (index_error k n)" "harmless (Panic m)"
  by (simp_all add: harmless_def invalid_reference_def stack_overflow_error_def index_error_def)

lemma harmless_readers:
  "gc_local_slot raw s = Inl e \<Longrightarrow> harmless e" "gc_global_slot raw s = Inl e \<Longrightarrow> harmless e"
  "gc_array_range a b s = Inl e \<Longrightarrow> harmless e" "current_frame s = Inl e \<Longrightarrow> harmless e"
  "array_size n = Inl e \<Longrightarrow> harmless e" "array_index i k = Inl e \<Longrightarrow> harmless e"
proof -
  show "gc_local_slot raw s = Inl e \<Longrightarrow> harmless e"
    by (auto simp: gc_local_slot_def current_frame_def Let_def harmless_def invalid_reference_def fmt_def
        split: if_splits list.splits)
  show glob: "gc_global_slot raw s = Inl e \<Longrightarrow> harmless e" for raw e
    by (auto simp: gc_global_slot_def Let_def harmless_def invalid_reference_def fmt_def split: if_splits)
  show size: "array_size n = Inl e \<Longrightarrow> harmless e" for n e
    by (auto simp: array_size_def harmless_def invalid_reference_def fmt_def split: if_splits)
  show "gc_array_range a b s = Inl e \<Longrightarrow> harmless e"
    by (auto simp: gc_array_range_def glob size split: sum.splits option.splits if_splits)
      (simp add: harmless_def invalid_reference_def fmt_def)
  show "current_frame s = Inl e \<Longrightarrow> harmless e"
    by (auto simp: current_frame_def split: list.splits)
  show "array_index i k = Inl e \<Longrightarrow> harmless e"
    by (auto simp: array_index_def Let_def split: if_splits)
qed

section \<open>Every instruction keeps the invariant\<close>

lemma gc_ok_refs:
  assumes "gc_ok s"
  shows "vals_refs (gv_stack s) \<subseteq> live s" "vals_refs (gv_globals s) \<subseteq> live s"
    "f \<in> set (gv_calls s) \<Longrightarrow> frame_roots f \<subseteq> live s"
    "f \<in> set (gv_calls s) \<Longrightarrow> length (gf_init f) = length (gf_locals f)"
  using assms roots_frames [of s] by (auto simp: gc_ok_def frames_ok_def)

lemma gc_okI:
  assumes "heap_ok s" "\<And>f. f \<in> set (gv_calls s) \<Longrightarrow> length (gf_init f) = length (gf_locals f)"
    and "vals_refs (gv_stack s) \<subseteq> live s" "vals_refs (gv_globals s) \<subseteq> live s"
    and "\<And>f. f \<in> set (gv_calls s) \<Longrightarrow> frame_roots f \<subseteq> live s"
    and "length (gv_globals s) = MAX_GLOBAL_SLOTS" "length (gv_stack s) \<le> MAX_OPERAND_STACK"
    and "length (gv_calls s) \<le> MAX_FRAMES"
  shows "gc_ok s"
proof -
  have ok: "frames_ok s" using assms(2) by (simp add: frames_ok_def)
  have "roots s \<subseteq> live s"
    unfolding roots_frames [OF ok] using assms(3-5) by (intro Un_least UN_least)
  with ok assms show ?thesis by (simp add: gc_ok_def)
qed

lemma live_fields [simp]:
  "live (s\<lparr>gv_stack := st\<rparr>) = live s" "live (s\<lparr>gv_globals := gs\<rparr>) = live s" "live (s\<lparr>gv_calls := cs\<rparr>) = live s"
  "live (s\<lparr>gv_pc := i\<rparr>) = live s" "live (s\<lparr>gv_cycles := c\<rparr>) = live s" "live (s\<lparr>gv_output := out\<rparr>) = live s"
  "live (s\<lparr>gv_trace := tr\<rparr>) = live s"
  by (simp_all add: live_def)

lemma gc_ok_stack:
  "gc_ok s \<Longrightarrow> vals_refs st \<subseteq> live s \<Longrightarrow> length st \<le> MAX_OPERAND_STACK \<Longrightarrow> gc_ok (s\<lparr>gv_stack := st\<rparr>)"
  using gc_ok_refs [of s] by (intro gc_okI) (auto simp: gc_ok_def heap_ok_def)

lemma gc_ok_globals:
  "gc_ok s \<Longrightarrow> vals_refs gs \<subseteq> live s \<Longrightarrow> length gs = length (gv_globals s) \<Longrightarrow> gc_ok (s\<lparr>gv_globals := gs\<rparr>)"
  using gc_ok_refs [of s] by (intro gc_okI) (auto simp: gc_ok_def heap_ok_def)

lemma gc_ok_calls:
  "gc_ok s \<Longrightarrow> \<forall>f \<in> set cs. frame_roots f \<subseteq> live s \<and> length (gf_init f) = length (gf_locals f) \<Longrightarrow>
     length cs \<le> MAX_FRAMES \<Longrightarrow> gc_ok (s\<lparr>gv_calls := cs\<rparr>)"
  using gc_ok_refs [of s] by (intro gc_okI) (auto simp: gc_ok_def heap_ok_def)

lemma gc_ok_fields [simp]:
  "gc_ok (s\<lparr>gv_pc := i\<rparr>) = gc_ok s" "gc_ok (s\<lparr>gv_cycles := c\<rparr>) = gc_ok s"
  "gc_ok (s\<lparr>gv_output := out\<rparr>) = gc_ok s" "gc_ok (s\<lparr>gv_trace := tr\<rparr>) = gc_ok s"
  by (simp_all add: gc_ok_def heap_ok_def frames_ok_def roots_def ids_to_mark_def)

lemma gc_ok_set_array:
  assumes "gc_ok s" "get_array s i = Some a"
  shows "gc_ok (set_array i b s)"
proof -
  from assms(2) have i: "i < length (gv_heap s)" "gv_heap s ! i \<noteq> None"
    by (auto simp: get_array_def split: if_splits)
  then have "live (set_array i b s) = live s" by (auto simp: live_def set_array_def nth_list_update)
  moreover have "heap_ok (set_array i b s)"
    using assms(1) i by (auto simp: gc_ok_def heap_ok_def set_array_def nth_list_update)
  ultimately show ?thesis
    using assms(1) by (simp add: gc_ok_def) (simp add: set_array_def frames_ok_def roots_def ids_to_mark_def)
qed

lemma vals_refs_update: "vals_refs (xs[k := v]) \<subseteq> vals_refs [v] \<union> vals_refs xs"
  by (cases v) (auto simp: vals_refs_def dest!: set_update_subset_insert [THEN subsetD])

lemma vals_refs_nth: "k < length xs \<Longrightarrow> vals_refs [xs ! k] \<subseteq> vals_refs xs"
  by (cases "xs ! k") (auto simp: vals_refs_def dest: nth_mem)

lemma vals_refs_Cons: "vals_refs (v # vs) = vals_refs [v] \<union> vals_refs vs"
  by (cases v) auto

lemma frame_get_refs: "frame_get f k = Some v \<Longrightarrow> vals_refs [v] \<subseteq> frame_roots f"
  by (cases v) (auto simp: frame_get_def frame_roots_def not_le intro!: exI [of _ k] split: if_splits)

lemma frame_set_ok:
  assumes "length (gf_init f) = length (gf_locals f)"
  shows "length (gf_init (frame_set k v f)) = length (gf_locals (frame_set k v f))"
    and "frame_roots (frame_set k v f) \<subseteq> vals_refs [v] \<union> frame_roots f"
  using assms by (cases v; auto simp: frame_set_def frame_roots_def nth_list_update split: if_splits)+

lemma length_frame_set [simp]: "length (gf_locals (frame_set k v f)) = length (gf_locals f)"
  by (simp add: frame_set_def)

lemma init_params_ok:
  assumes "length (gf_init f) = length (gf_locals f)"
  shows "length (gf_init (init_params i vs f)) = length (gf_locals (init_params i vs f)) \<and>
    frame_roots (init_params i vs f) \<subseteq> vals_refs vs \<union> frame_roots f"
  using assms
proof (induction i vs f rule: init_params.induct)
  case (2 i v vs f)
  then show ?case using frame_set_ok [of f i v] vals_refs_Cons [of v vs] by auto
qed simp

lemma new_frame_ok [simp]:
  "length (gf_init (GcCallFrame_new n r)) = length (gf_locals (GcCallFrame_new n r))"
  "frame_roots (GcCallFrame_new n r) = {}"
  by (auto simp: GcCallFrame_new_def frame_roots_def)

lemma live_get_array: "i \<in> live s \<Longrightarrow> get_array s i \<noteq> None"
  by (simp add: live_def get_array_def)

lemma live_heap: "gv_heap t = gv_heap s \<Longrightarrow> live t = live s"
  by (simp add: live_def)

text \<open>Values an instruction pushes refer to live arrays.\<close>

lemma gc_ok_push:
  assumes "gc_ok s" "st = v # st'" "vals_refs [v] \<subseteq> live s" "vals_refs st' \<subseteq> vals_refs (gv_stack s)"
    "length st' < MAX_OPERAND_STACK"
  shows "gc_ok (s\<lparr>gv_stack := st\<rparr>)"
  using assms gc_ok_refs(1) [OF assms(1)] vals_refs_Cons [of v st'] by (intro gc_ok_stack) auto

lemma gc_ok_pop: "gc_ok s \<Longrightarrow> gv_stack s = v # st \<Longrightarrow> gc_ok (s\<lparr>gv_stack := st\<rparr>) \<and> vals_refs [v] \<subseteq> live s"
  using gc_ok_refs(1) [of s] vals_refs_Cons [of v st]
  by (auto intro!: gc_ok_stack simp: gc_ok_def [of s])

lemma gc_ok_push_next:
  assumes "gc_ok s" "vals_refs [v] \<subseteq> live s"
  shows "post (gc_push_next v s) (\<lambda>_ t. gc_ok t) (\<lambda>e t. gc_ok t \<and> harmless e)"
  using assms by (auto simp: post_gc_push_next intro: gc_ok_push)

definition step_ok :: "'a gc_res \<Rightarrow> bool" where
  "step_ok r \<longleftrightarrow> post r (\<lambda>_ t. gc_ok t) (\<lambda>e t. gc_ok t \<and> harmless e)"

lemma step_ok_simps [simp]:
  "step_ok (Inr a, s) \<longleftrightarrow> gc_ok s" "step_ok (Inl e, s) \<longleftrightarrow> gc_ok s \<and> harmless e"
  by (simp_all add: step_ok_def)

lemma step_ok_bnd:
  "post r (\<lambda>a t. step_ok (k a t)) (\<lambda>e t. gc_ok t \<and> harmless e) \<Longrightarrow> step_ok (bnd r k)"
  by (simp add: step_ok_def)

definition same_frame_state :: "gc_vm \<Rightarrow> gc_vm \<Rightarrow> bool" where
  "same_frame_state s t \<longleftrightarrow> gv_heap t = gv_heap s \<and> gv_calls t = gv_calls s \<and> gv_globals t = gv_globals s \<and>
     gv_pc t = gv_pc s"

lemma step_ok_pop:
  assumes "gc_ok s"
    and "\<And>v t. gc_ok t \<Longrightarrow> vals_refs [v] \<subseteq> live t \<Longrightarrow> same_frame_state s t \<Longrightarrow>
      length (gv_stack t) < MAX_OPERAND_STACK \<Longrightarrow> step_ok (k v t)"
  shows "step_ok (bnd (gc_pop s) k)"
  using assms(1) gc_ok_pop [OF assms(1)]
  by (intro step_ok_bnd) (auto simp: post_gc_pop same_frame_state_def gc_ok_def [of s] intro!: assms(2))

lemma step_ok_pop_int:
  assumes "gc_ok s"
    and "\<And>v t. gc_ok t \<Longrightarrow> same_frame_state s t \<Longrightarrow> length (gv_stack t) < MAX_OPERAND_STACK \<Longrightarrow> step_ok (k v t)"
  shows "step_ok (bnd (pop_int s) k)"
  using assms(1) gc_ok_pop [OF assms(1)]
  by (intro step_ok_bnd) (auto simp: post_pop_int same_frame_state_def gc_ok_def [of s] intro!: assms(2))

lemma step_ok_lift:
  assumes "gc_ok s" "\<And>e. r = Inl e \<Longrightarrow> harmless e" "\<And>a. r = Inr a \<Longrightarrow> step_ok (k a s)"
  shows "step_ok (bnd (r, s) k)"
  using assms by (intro step_ok_bnd) (simp add: post_gc_lift)

lemma step_ok_readers:
  "gc_ok s \<Longrightarrow> (\<And>a. gc_local_slot raw t = Inr a \<Longrightarrow> step_ok (k0 a s)) \<Longrightarrow> step_ok (bnd (gc_local_slot raw t, s) k0)"
  "gc_ok s \<Longrightarrow> (\<And>a. gc_global_slot raw t = Inr a \<Longrightarrow> step_ok (k1 a s)) \<Longrightarrow> step_ok (bnd (gc_global_slot raw t, s) k1)"
  "gc_ok s \<Longrightarrow> (\<And>a. gc_array_range x y t = Inr a \<Longrightarrow> step_ok (k2 a s)) \<Longrightarrow> step_ok (bnd (gc_array_range x y t, s) k2)"
  "gc_ok s \<Longrightarrow> (\<And>a. current_frame t = Inr a \<Longrightarrow> step_ok (k3 a s)) \<Longrightarrow> step_ok (bnd (current_frame t, s) k3)"
  "gc_ok s \<Longrightarrow> (\<And>a. array_size z = Inr a \<Longrightarrow> step_ok (k4 a s)) \<Longrightarrow> step_ok (bnd (array_size z, s) k4)"
  "gc_ok s \<Longrightarrow> (\<And>a. array_index j n = Inr a \<Longrightarrow> step_ok (k5 a s)) \<Longrightarrow> step_ok (bnd (array_index j n, s) k5)"
  by (rule step_ok_lift; auto dest: harmless_readers)+

lemma step_ok_push_next:
  "gc_ok s \<Longrightarrow> vals_refs [v] \<subseteq> live s \<Longrightarrow> step_ok (gc_push_next v s)"
  unfolding step_ok_def by (rule gc_ok_push_next)

lemma step_ok_push_int [simp]: "gc_ok s \<Longrightarrow> step_ok (gc_push_next (GInt v) s)"
  by (rule step_ok_push_next) simp_all

lemma step_ok_store:
  assumes "gc_ok s" "i \<in> live s"
    and "\<And>t. gc_ok t \<Longrightarrow> step_ok (k t)"
  shows "step_ok (bnd (store_element i n v s) (\<lambda>_. k))"
  using assms(1) live_get_array [OF assms(2)]
  by (intro step_ok_bnd) (auto simp: post_store_element intro!: assms(3) gc_ok_set_array)

text \<open>An element that is loaded is an integer.\<close>

lemma load_element_ok:
  assumes "i \<in> live s"
  shows "load_element i k s = Inl e \<Longrightarrow> harmless e" "load_element i k s = Inr v \<Longrightarrow> vals_refs [v] = {}"
  using live_get_array [OF assms] by (auto simp: load_element_def split: option.splits if_splits)

lemma step_ok_load:
  assumes "gc_ok s" "i \<in> live s"
  shows "step_ok (bnd (load_element i k s, s) gc_push_next)"
  using assms(1) load_element_ok [OF assms(2)] by (auto intro!: step_ok_lift step_ok_push_next)

lemma frame_ref_live:
  "gc_ok s \<Longrightarrow> gv_calls s = f # fs \<Longrightarrow> frame_get f k = Some v \<Longrightarrow> vals_refs [v] \<subseteq> live s"
  using frame_get_refs gc_ok_refs(3) [of s f] by fastforce

lemma global_ref_live: "gc_ok s \<Longrightarrow> k < length (gv_globals s) \<Longrightarrow> vals_refs [gv_globals s ! k] \<subseteq> live s"
  using vals_refs_nth gc_ok_refs(2) [of s] by fastforce

lemma gc_load_local_ok: "gc_ok s \<Longrightarrow> step_ok (gc_load_local a1 s)"
  unfolding gc_load_local_def
  by (auto intro!: step_ok_readers step_ok_push_next dest: frame_ref_live [THEN subsetD]
      simp: current_frame_Inr split: option.split)

lemma set_frame_ok:
  assumes "gc_ok s" "vals_refs [v] \<subseteq> live s"
  shows "step_ok (bnd (set_current_frame (frame_set k v) s) (\<lambda>_ s. (Inr True, s)))"
proof (intro step_ok_bnd, simp add: post_set_current_frame assms(1), intro allI impI)
  fix f fs
  assume calls: "gv_calls s = f # fs"
  note fs = gc_ok_refs(3,4) [OF assms(1), unfolded calls]
  show "gc_ok (s\<lparr>gv_calls := frame_set k v f # fs\<rparr>)"
  proof (intro gc_ok_calls ballI)
    fix g
    assume "g \<in> set (frame_set k v f # fs)"
    then consider "g = frame_set k v f" | "g \<in> set fs" by auto
    then show "frame_roots g \<subseteq> live s \<and> length (gf_init g) = length (gf_locals g)"
      by cases (use assms(2) fs [of f] fs [of g] frame_set_ok [of f k v] in auto)
  qed (use assms(1) calls in \<open>auto simp: gc_ok_def [of s]\<close>)
qed

lemma gc_store_local_ok: "gc_ok s \<Longrightarrow> step_ok (gc_store_local a1 s)"
  unfolding gc_store_local_def
  by (auto intro!: step_ok_readers step_ok_pop set_frame_ok)

lemma gc_load_global_ok: "gc_ok s \<Longrightarrow> step_ok (gc_load_global a1 s)"
  unfolding gc_load_global_def
  by (auto intro!: step_ok_readers step_ok_push_next dest: global_ref_live [THEN subsetD] simp: gc_global_slot_Inr)

lemma gc_store_global_ok: "gc_ok s \<Longrightarrow> step_ok (gc_store_global a1 s)"
  unfolding gc_store_global_def lift_res_simps
proof (intro step_ok_readers step_ok_pop, simp_all)
  fix k v t
  assume "gc_ok t" "vals_refs [v] \<subseteq> live t"
  then show "gc_ok (t\<lparr>gv_globals := (gv_globals t)[k := v]\<rparr>)"
    using vals_refs_update [of "gv_globals t" k v] gc_ok_refs(2) [of t] by (intro gc_ok_globals) auto
qed

lemma gc_array_load_ok: "gc_ok s \<Longrightarrow> step_ok (gc_array_load a1 a2 s)"
  unfolding gc_array_load_def lift_res_simps
proof (intro step_ok_readers step_ok_pop_int, simp_all)
  fix rng raw index t
  assume t: "gc_ok s" "gc_ok t" "same_frame_state s t" and rng: "gc_array_range a1 a2 s = Inr rng"
    and index: "array_index raw (snd rng) = Inr index"
  have range: "fst rng < length (gv_globals t)" "fst rng + index < length (gv_globals t)"
    using gc_array_range_Inr [OF rng] index t(3) by (auto simp: same_frame_state_def array_index_Inr)
  show "step_ok (bnd ((case gv_globals t ! fst rng of GInt x \<Rightarrow> Inr (gv_globals t ! (fst rng + index))
      | GArray i \<Rightarrow> load_element i index t), t) gc_push_next)"
  proof (cases "gv_globals t ! fst rng")
    case (GInt x)
    with t(2) step_ok_push_next [OF t(2) global_ref_live [OF t(2) range(2)]] show ?thesis by simp
  next
    case (GArray i)
    with global_ref_live [OF t(2) range(1)] have "i \<in> live t" by simp
    with step_ok_load GArray t(2) show ?thesis by simp
  qed
qed

lemma gc_array_store_ok: "gc_ok s \<Longrightarrow> step_ok (gc_array_store a1 a2 s)"
  unfolding gc_array_store_def lift_res_simps
proof (intro step_ok_readers step_ok_pop_int, simp_all)
  fix rng v raw index t u
  assume t: "gc_ok u" "same_frame_state s t" "same_frame_state t u" and rng: "gc_array_range a1 a2 s = Inr rng"
    and index: "array_index raw (snd rng) = Inr index"
  have range: "fst rng < length (gv_globals u)"
    using gc_array_range_Inr [OF rng] t by (auto simp: same_frame_state_def)
  show "step_ok (bnd (case gv_globals u ! fst rng of
        GInt x \<Rightarrow> (Inr (), u\<lparr>gv_globals := (gv_globals u)[fst rng + index := GInt v]\<rparr>)
      | GArray i \<Rightarrow> store_element i index v u) (\<lambda>_. Pair (Inr True)))"
  proof (cases "gv_globals u ! fst rng")
    case (GInt x)
    have "vals_refs ((gv_globals u)[fst rng + index := GInt v]) \<subseteq> live u"
      using vals_refs_update [of "gv_globals u" "fst rng + index" "GInt v"] gc_ok_refs(2) [OF t(1)] by auto
    with t GInt show ?thesis by (simp add: gc_ok_globals)
  next
    case (GArray i)
    with global_ref_live [OF t(1) range] have "i \<in> live u" by simp
    with GArray t(1) show ?thesis by (auto intro: step_ok_store)
  qed
qed

lemma gc_local_array_load_ok: "gc_ok s \<Longrightarrow> step_ok (gc_local_array_load a1 a2 s)"
  unfolding gc_local_array_load_def lift_res_simps
proof (intro step_ok_readers step_ok_pop_int, simp_all)
  fix slot sz raw index t frame
  assume t: "gc_ok t" and frame: "current_frame t = Inr frame"
  show "step_ok (bnd ((case frame_get frame slot of
        None \<Rightarrow> Inl (Trap UndefinedLocal (fmt [''Undefined local at slot '', show_nat slot]))
      | Some (GInt v) \<Rightarrow> Inr (GInt v) | Some (GArray i) \<Rightarrow> load_element i index t), t) gc_push_next)"
  proof (cases "frame_get frame slot")
    case None
    with t show ?thesis by simp
  next
    case (Some w)
    show ?thesis
    proof (cases w)
      case (GArray i)
      from frame frame_ref_live [OF t _ Some] GArray have "i \<in> live t" by (auto simp: current_frame_Inr)
      with step_ok_load GArray Some t show ?thesis by simp
    qed (use Some t in simp)
  qed
qed

lemma gc_local_array_store_ok: "gc_ok s \<Longrightarrow> step_ok (gc_local_array_store a1 a2 s)"
  unfolding gc_local_array_store_def lift_res_simps
proof (intro step_ok_readers step_ok_pop_int, simp_all)
  fix slot sz v raw index t frame
  assume t: "gc_ok t" and frame: "current_frame t = Inr frame"
  show "step_ok (case frame_get frame slot of
      Some (GArray i) \<Rightarrow> bnd (store_element i index v t) (\<lambda>_. Pair (Inr True))
    | _ \<Rightarrow> (Inl (Trap InvalidInstruction ''Expected array reference''), t))"
  proof (cases "frame_get frame slot")
    case None
    with t show ?thesis by simp
  next
    case (Some w)
    show ?thesis
    proof (cases w)
      case (GArray i)
      from frame frame_ref_live [OF t _ Some] GArray have "i \<in> live t" by (auto simp: current_frame_Inr)
      with GArray Some t show ?thesis by (auto intro: step_ok_store)
    qed (use Some t in simp)
  qed
qed

lemma allocated_outside: "allocated n s i t \<Longrightarrow> gc_ok t \<and> i \<in> live t"
  by (simp add: allocated_def)

lemma gc_alloc_array_ok:
  assumes "gc_ok s" "length (gv_heap s) + 1 < 4294967296"
  shows "step_ok (gc_alloc_array a1 s)"
  unfolding gc_alloc_array_def lift_res_simps
  using assms
  by (intro step_ok_readers step_ok_bnd post_alloc) (auto dest!: allocated_outside intro!: step_ok_push_next)

lemma gc_exec_call_ok: "gc_ok s \<Longrightarrow> step_ok (gc_exec_call p a1 a2 s)"
proof -
  assume s: "gc_ok s"
  have h: "harmless (Trap InvalidInstruction (fmt (x # xs)))" if "x \<noteq> []" "hd x \<noteq> CHR ''I''" for x xs
    using that by (cases x) (auto simp: harmless_def invalid_reference_def fmt_def)
  have enter: "step_ok (bnd (pop_args n [] s) (\<lambda>args s. (Inr False,
      s\<lparr>gv_calls := init_params 0 (rev args) (GcCallFrame_new l (gv_pc s + 1)) # gv_calls s, gv_pc := e\<rparr>)))"
    if depth: "length (gv_calls s) < MAX_FRAMES" for n l e
  proof -
    let ?f = "init_params 0 (rev (take n (gv_stack s))) (GcCallFrame_new l (gv_pc s + 1))"
    let ?s = "s\<lparr>gv_stack := drop n (gv_stack s)\<rparr>"
    have sub: "vals_refs (take n (gv_stack s)) \<subseteq> live s" "vals_refs (drop n (gv_stack s)) \<subseteq> live s"
      using gc_ok_refs(1) [OF s] by (auto simp: vals_refs_def dest: in_set_takeD in_set_dropD)
    then have t: "gc_ok ?s" using s by (intro gc_ok_stack) (auto simp: gc_ok_def)
    have f: "frame_roots ?f \<subseteq> live s \<and> length (gf_init ?f) = length (gf_locals ?f)"
      using init_params_ok [OF new_frame_ok(1) [of l "gv_pc s + 1"], of 0 "rev (take n (gv_stack s))"] sub(1)
      by auto
    have "gc_ok (?s\<lparr>gv_calls := ?f # gv_calls s\<rparr>)"
      using f gc_ok_refs(3,4) [OF s] depth by (intro gc_ok_calls [OF t]) auto
    moreover have "gc_ok (s\<lparr>gv_stack := []\<rparr>)" using s by (intro gc_ok_stack) simp_all
    ultimately show ?thesis by (intro step_ok_bnd) (simp add: post_pop_args)
  qed
  show ?thesis
    using s enter by (auto simp: gc_exec_call_def Let_def h split: option.split)
qed

lemma gc_exec_return_ok: "gc_ok s \<Longrightarrow> step_ok (gc_exec_return s)"
  unfolding gc_exec_return_def
proof (rule step_ok_pop, assumption)
  fix v t
  assume t: "gc_ok t" "vals_refs [v] \<subseteq> live t" "length (gv_stack t) < MAX_OPERAND_STACK"
  have popped: "gc_ok (t\<lparr>gv_calls := fs\<rparr>)" if "gv_calls t = f # fs" for f fs
    using t(1) gc_ok_refs(3,4) [OF t(1)] that by (intro gc_ok_calls) (auto simp: gc_ok_def [of t])
  have push: "post (gc_push v u) (\<lambda>_ w. gc_ok w) (\<lambda>e w. gc_ok w \<and> harmless e)"
    if "gc_ok u" "live u = live t" for u
    using that t(2) by (auto simp: post_gc_push intro: gc_ok_push)
  show "step_ok (case gv_calls t of
      [] \<Rightarrow> (Inl (Panic ''called Option::unwrap() on a None value''), t)
    | frame # rest \<Rightarrow>
        let s = t\<lparr>gv_calls := rest\<rparr>
        in if gf_return_pc frame = usize_max then bnd (gc_push v s) (\<lambda>_ s. (Inr False, s))
           else bnd (gc_push v (s\<lparr>gv_pc := gf_return_pc frame\<rparr>)) (\<lambda>_ s. (Inr False, s)))"
    using t(1) popped by (auto simp: Let_def intro!: step_ok_bnd push split: list.split)
qed

lemma gc_execute_ok:
  assumes "gc_ok s" "length (gv_heap s) + 1 < 4294967296"
  shows "step_ok (gc_execute p opc a1 a2 s)"
proof -
  have dup: "step_ok (gc_exec_dup s)"
    using assms(1) gc_ok_pop [OF assms(1)]
    by (auto simp: gc_exec_dup_def intro!: step_ok_push_next split: list.split)
  have halt: "step_ok (gc_exec_halt s)"
    using assms(1) by (auto simp: gc_exec_halt_def intro!: gc_ok_calls)
  show ?thesis
    using assms dup halt
    by (cases opc)
      (auto intro!: gc_load_local_ok gc_store_local_ok gc_load_global_ok gc_store_global_ok gc_array_load_ok
        gc_array_store_ok gc_local_array_load_ok gc_local_array_store_ok gc_alloc_array_ok gc_exec_call_ok
        gc_exec_return_ok step_ok_pop step_ok_pop_int
        simp: gc_binary_op_def gc_logic_op_def gc_exec_not_def gc_exec_div_def gc_exec_neg_def
          gc_jump_to_def gc_jump_if_def gc_exec_print_def gc_exec_pop_def)
qed

section \<open>Counters\<close>

definition gc_same_control :: "gc_vm \<Rightarrow> gc_vm \<Rightarrow> bool" where
  "gc_same_control s t \<longleftrightarrow>
     gv_cycles t = gv_cycles s \<and> gv_max_cycles t = gv_max_cycles s \<and> gv_trace t = gv_trace s \<and>
     length (gv_heap t) \<le> length (gv_heap s) + 1"

lemma alloc_control:
  "post (alloc_array n s) (\<lambda>_ t. same_outside_heap s t \<and> length (gv_heap t) \<le> length (gv_heap s) + 1)
     (\<lambda>_ t. same_outside_heap s t \<and> length (gv_heap t) \<le> length (gv_heap s) + 1)"
proof -
  let ?s = "if length (gv_heap s) - length (gv_free s) \<ge> gv_threshold s then collect_garbage s else s"
  have s': "same_outside_heap s ?s" "length (gv_heap ?s) = length (gv_heap s)"
    using collect_outside by (auto simp: same_outside_heap_def)
  have "same_outside_heap s s" by (simp add: same_outside_heap_def)
  with s' show ?thesis
    by (cases "gv_free ?s") (simp_all add: alloc_array_def Let_def same_outside_heap_def)
qed

lemma gc_execute_control:
  "post (gc_execute p opc a1 a2 s) (\<lambda>_ t. gc_same_control s t) (\<lambda>_ t. gc_same_control s t)"
proof (cases "opc = Op_AllocArray \<or> opc = Op_ArrayNew")
  case True
  have "post (gc_alloc_array a1 s) (\<lambda>_ t. gc_same_control s t) (\<lambda>_ t. gc_same_control s t)"
    by (auto simp: gc_alloc_array_def gc_wp gc_same_control_def same_outside_heap_def
        intro!: post_mono [OF alloc_control])
  with True show ?thesis by auto
next
  case False
  then show ?thesis
    by (cases opc) (auto simp: gc_exec_defs gc_exec_call_def gc_wp post_pop_args gc_same_control_def set_array_def Let_def
        split: list.split option.split gc_value.split)
qed

section \<open>Integers\<close>

text \<open>
  No value and no element is \<open>i64::MIN\<close>, the one integer on which \<open>Div\<close> and \<open>Neg\<close> panic: results are
  32-bit integers, and a reference that is read as an integer is its index.
\<close>

definition no_min :: "gc_value \<Rightarrow> bool" where
  "no_min v \<longleftrightarrow> to_i64 v \<noteq> i64_min"

definition heap_ints :: "gc_vm \<Rightarrow> bool" where
  "heap_ints s \<longleftrightarrow> (\<forall>a. Some a \<in> set (gv_heap s) \<longrightarrow> i64_min \<notin> set (arr_data a))"

definition ints_ok :: "gc_vm \<Rightarrow> bool" where
  "ints_ok s \<longleftrightarrow> (\<forall>v \<in> set (gv_stack s) \<union> set (gv_globals s). no_min v) \<and>
     (\<forall>f \<in> set (gv_calls s). \<forall>v \<in> set (gf_locals f). no_min v) \<and> heap_ints s"

lemma no_min_simps [simp]:
  "no_min (GArray i)" "is_i32 v \<Longrightarrow> no_min (GInt v)" "no_min (GInt v) \<longleftrightarrow> v \<noteq> i64_min"
  by (auto simp: no_min_def is_i32_def i64_min_def)

lemma truth_not_min [simp]: "truth b \<noteq> i64_min" "normalize_i32 v \<noteq> i64_min"
  using normalize_i32_range [of v] by (auto simp: truth_def is_i32_def i64_min_def)

lemma collect_ints:
  assumes "heap_ints s"
  shows "heap_ints (collect_garbage s)"
  unfolding heap_ints_def
proof (intro allI impI)
  fix a
  assume "Some a \<in> set (gv_heap (collect_garbage s))"
  then obtain k where k: "k < length (gv_heap s)" "gv_heap (collect_garbage s) ! k = Some a"
    by (auto simp: in_set_conv_nth)
  then obtain b where b: "gv_heap s ! k = Some b" "arr_data a = arr_data b"
    by (auto simp: collect_heap split: if_splits)
  from b(1) k(1) have "Some b \<in> set (gv_heap s)" by (metis nth_mem)
  with assms b(2) show "i64_min \<notin> set (arr_data a)" by (simp add: heap_ints_def)
qed

lemma alloc_ints: "heap_ints s \<Longrightarrow> post (alloc_array n s) (\<lambda>_ t. heap_ints t) (\<lambda>_ _. True)"
proof -
  assume s: "heap_ints s"
  let ?s = "if length (gv_heap s) - length (gv_free s) \<ge> gv_threshold s then collect_garbage s else s"
  have "heap_ints ?s" using s collect_ints by simp
  then have "Some a \<in> set (gv_heap ?s) \<Longrightarrow> i64_min \<notin> set (arr_data a)" for a by (simp add: heap_ints_def)
  moreover have "i64_min \<notin> set (arr_data (HeapArray_new n))" by (simp add: HeapArray_new_def)
  ultimately show ?thesis
    by (cases "gv_free ?s") (auto simp: alloc_array_def Let_def heap_ints_def dest!: set_update_subset_insert [THEN subsetD])
qed

lemma set_array_ints:
  assumes "heap_ints s" "get_array s i = Some a" "v \<noteq> i64_min"
  shows "heap_ints (set_array i (a\<lparr>arr_data := (arr_data a)[k := v]\<rparr>) s)"
proof -
  have "Some a \<in> set (gv_heap s)" using assms(2) by (auto simp: get_array_def split: if_splits) (metis nth_mem)
  then have "i64_min \<notin> set ((arr_data a)[k := v])"
    using assms(1,3) by (auto simp: heap_ints_def dest!: set_update_subset_insert [THEN subsetD])
  with assms(1) show ?thesis
    by (auto simp: heap_ints_def set_array_def dest!: set_update_subset_insert [THEN subsetD])
qed

lemma load_element_ints: "heap_ints s \<Longrightarrow> load_element i k s = Inr v \<Longrightarrow> no_min v"
  by (auto simp: load_element_Inr get_array_def heap_ints_def split: if_splits) (metis nth_mem)

end
