(* ===== verification/Gc_Runs.thy ===== *)
theory Gc_Runs
  imports Gc_Props
begin

text \<open>
  Runs of the garbage collecting machine: no instruction produces the one integer on which
  arithmetic panics, the heap stays small because a collection reuses every array that no root
  refers to, and so every run with a cycle limit returns without a panic.
\<close>

section \<open>Integers of every instruction\<close>

lemma heap_ints_fields [simp]:
  "heap_ints (s\<lparr>gv_stack := st\<rparr>) = heap_ints s" "heap_ints (s\<lparr>gv_globals := gs\<rparr>) = heap_ints s"
  "heap_ints (s\<lparr>gv_calls := cs\<rparr>) = heap_ints s" "heap_ints (s\<lparr>gv_pc := i\<rparr>) = heap_ints s"
  "heap_ints (s\<lparr>gv_cycles := c\<rparr>) = heap_ints s" "heap_ints (s\<lparr>gv_output := out\<rparr>) = heap_ints s"
  "heap_ints (s\<lparr>gv_trace := tr\<rparr>) = heap_ints s"
  by (simp_all add: heap_ints_def)

lemma set_array_fields [simp]:
  "gv_stack (set_array i a s) = gv_stack s" "gv_globals (set_array i a s) = gv_globals s"
  "gv_calls (set_array i a s) = gv_calls s" "gv_pc (set_array i a s) = gv_pc s"
  by (simp_all add: set_array_def)

lemma readers_stack [simp]:
  "get_array (s\<lparr>gv_stack := st\<rparr>) i = get_array s i" "load_element i k (s\<lparr>gv_stack := st\<rparr>) = load_element i k s"
  "current_frame (s\<lparr>gv_stack := st\<rparr>) = current_frame s"
  by (simp_all add: get_array_def load_element_def current_frame_def)

definition not_panic :: "vm_error \<Rightarrow> bool" where
  "not_panic e \<longleftrightarrow> (\<forall>m. e \<noteq> Panic m)"

lemma not_panic_simps [simp]:
  "not_panic (Trap c m)" "\<not> not_panic (Panic m)" "not_panic stack_overflow_error" "not_panic invalid_reference"
  "not_panic (index_error k n)"
  by (simp_all add: not_panic_def stack_overflow_error_def invalid_reference_def index_error_def)

lemma gc_readers_not_panic:
  "gc_local_slot raw s = Inl e \<Longrightarrow> not_panic e" "gc_global_slot raw s = Inl e \<Longrightarrow> not_panic e"
  "gc_array_range a b s = Inl e \<Longrightarrow> not_panic e" "current_frame s = Inl e \<Longrightarrow> not_panic e"
  "array_size n = Inl e \<Longrightarrow> not_panic e" "array_index i k = Inl e \<Longrightarrow> not_panic e"
  "load_element j n' s = Inl e \<Longrightarrow> not_panic e"
  by (auto simp: gc_local_slot_def gc_global_slot_def gc_array_range_def current_frame_def load_element_def
      array_size_def array_index_def Let_def split: if_splits list.splits sum.splits option.splits)

lemma no_min_to_i64: "no_min v \<Longrightarrow> to_i64 v \<noteq> i64_min"
  by (simp add: no_min_def)

lemma frame_get_mem: "frame_get f k = Some v \<Longrightarrow> v \<in> set (gf_locals f)"
  by (auto simp: frame_get_def split: if_splits)

lemma frame_get_ints: "frame_get f k = Some v \<Longrightarrow> \<forall>v \<in> set (gf_locals f). no_min v \<Longrightarrow> no_min v"
  using frame_get_mem by blast

lemma min_not_i32 [simp]: "\<not> is_i32 i64_min"
  by (simp add: is_i32_def i64_min_def)

lemma frame_set_mem: "v' \<in> set (gf_locals (frame_set k v f)) \<Longrightarrow> v' = v \<or> v' \<in> set (gf_locals f)"
  by (auto simp: frame_set_def dest!: set_update_subset_insert [THEN subsetD] split: if_splits)

lemma init_params_mem:
  "v \<in> set (gf_locals (init_params i vs f)) \<Longrightarrow> v \<in> set vs \<or> v \<in> set (gf_locals f)"
  by (induction i vs f rule: init_params.induct) (auto dest: frame_set_mem)

lemma new_frame_mem: "v \<in> set (gf_locals (GcCallFrame_new n r)) \<Longrightarrow> v = GInt 0"
  by (simp add: GcCallFrame_new_def)

lemma update_mem: "v \<in> set (xs[k := x]) \<Longrightarrow> v = x \<or> v \<in> set xs"
  using set_update_subset_insert [of xs k x] by auto

lemma ints_ok_I:
  "(\<And>v. v \<in> set (gv_stack s) \<Longrightarrow> no_min v) \<Longrightarrow> (\<And>v. v \<in> set (gv_globals s) \<Longrightarrow> no_min v) \<Longrightarrow>
   (\<And>f v. f \<in> set (gv_calls s) \<Longrightarrow> v \<in> set (gf_locals f) \<Longrightarrow> no_min v) \<Longrightarrow> heap_ints s \<Longrightarrow> ints_ok s"
  by (auto simp: ints_ok_def)

lemma gc_alloc_array_ints:
  assumes "gc_ok s" "ints_ok s" "length (gv_heap s) + 1 < 4294967296"
  shows "post (gc_alloc_array a1 s) (\<lambda>_ t. ints_ok t) (\<lambda>e _. not_panic e)"
proof -
  have "post (alloc_array n s) (\<lambda>i t. allocated n s i t \<and> heap_ints t) (\<lambda>e _. not_panic e)" for n
  proof -
    have "post (alloc_array n s) (allocated n s) (\<lambda>_ _. False)" by (rule post_alloc [OF assms(1,3)])
    moreover have "post (alloc_array n s) (\<lambda>_ t. heap_ints t) (\<lambda>_ _. True)"
      using assms(2) by (simp add: alloc_ints ints_ok_def)
    ultimately show ?thesis by (auto simp: post_def split: sum.splits)
  qed
  note alloc = this
  have step: "post (gc_push_next (GArray i) t) (\<lambda>_ t. ints_ok t) (\<lambda>e _. not_panic e)"
    if "allocated n s i t \<and> heap_ints t" for n i t
    using that assms(2) by (auto simp: gc_wp ints_ok_def allocated_def same_outside_heap_def)
  have "post (bnd (alloc_array n s) (\<lambda>i. gc_push_next (GArray i))) (\<lambda>_ t. ints_ok t) (\<lambda>e _. not_panic e)" for n
    unfolding post_simps by (rule post_mono [OF alloc]) (auto intro: step)
  then show ?thesis
    unfolding gc_alloc_array_def by (auto simp: post_gc_lift dest: gc_readers_not_panic)
qed

lemma gc_call_ints:
  assumes "gc_ok s" "ints_ok s"
  shows "post (gc_exec_call p a1 a2 s) (\<lambda>_ t. ints_ok t) (\<lambda>e _. not_panic e)"
  using assms(2) set_take_subset [of _ "gv_stack s"]
  by (auto simp: gc_exec_call_def Let_def gc_wp post_pop_args ints_ok_def split: option.split
      dest!: init_params_mem dest: new_frame_mem in_set_dropD) blast

lemma set_array_ints_ok:
  "ints_ok s \<Longrightarrow> get_array s i = Some a \<Longrightarrow> v \<noteq> i64_min \<Longrightarrow>
     ints_ok (set_array i (a\<lparr>arr_data := (arr_data a)[k := v]\<rparr>) s)"
  using set_array_ints [of s i a v k] unfolding ints_ok_def by (simp add: set_array_def)

lemma ints_ok_stack: "ints_ok (s\<lparr>gv_stack := st\<rparr>) \<longleftrightarrow> (\<forall>v \<in> set st. no_min v) \<and> ints_ok (s\<lparr>gv_stack := []\<rparr>)"
  by (auto simp: ints_ok_def)

lemma gc_array_load_ints:
  assumes "ints_ok s"
  shows "post (gc_array_load a1 a2 s) (\<lambda>_ t. ints_ok t) (\<lambda>e _. not_panic e)"
  using assms
  by (auto simp: gc_array_load_def gc_wp ints_ok_def array_index_Inr split: gc_value.splits
      dest!: gc_array_range_Inr dest: gc_readers_not_panic load_element_ints)

lemma gc_array_store_ints:
  assumes "ints_ok s"
  shows "post (gc_array_store a1 a2 s) (\<lambda>_ t. ints_ok t) (\<lambda>e _. not_panic e)"
  using assms
  by (auto simp: gc_array_store_def gc_wp ints_ok_def no_min_to_i64 split: gc_value.splits
      dest!: update_mem intro!: set_array_ints dest: gc_readers_not_panic)

lemma gc_local_array_load_ints:
  assumes "ints_ok s"
  shows "post (gc_local_array_load a1 a2 s) (\<lambda>_ t. ints_ok t) (\<lambda>e _. not_panic e)"
  using assms
  by (auto simp: gc_local_array_load_def gc_wp ints_ok_def current_frame_Inr split: option.splits gc_value.splits
      dest: gc_readers_not_panic load_element_ints frame_get_ints)

lemma gc_local_array_store_ints:
  assumes "ints_ok s"
  shows "post (gc_local_array_store a1 a2 s) (\<lambda>_ t. ints_ok t) (\<lambda>e _. not_panic e)"
  using assms
  by (auto simp: gc_local_array_store_def gc_wp ints_ok_def no_min_to_i64 split: option.splits gc_value.splits
      intro!: set_array_ints dest: gc_readers_not_panic)

lemma gc_execute_ints:
  assumes "gc_ok s" "ints_ok s" "gv_calls s \<noteq> []" "is_i32 a1" "length (gv_heap s) + 1 < 4294967296"
  shows "post (gc_execute p opc a1 a2 s) (\<lambda>_ t. ints_ok t) (\<lambda>e _. not_panic e)"
proof -
  note ints = assms(2) [unfolded ints_ok_def]
  consider "opc \<in> {Op_Call, Op_AllocArray, Op_ArrayNew, Op_ArrayLoad, Op_ArrayStore, Op_LocalArrayLoad, Op_LocalArrayStore}"
    | "opc \<notin> {Op_Call, Op_AllocArray, Op_ArrayNew, Op_ArrayLoad, Op_ArrayStore, Op_LocalArrayLoad, Op_LocalArrayStore}" by blast
  then show ?thesis
  proof cases
    case 1
    with assms show ?thesis
      by (auto intro!: gc_call_ints gc_alloc_array_ints gc_array_load_ints gc_array_store_ints
          gc_local_array_load_ints gc_local_array_store_ints)
  next
    case 2
    with ints assms(3,4) show ?thesis
      by (cases opc)
        (auto simp: gc_exec_defs gc_wp ints_ok_def Let_def no_min_to_i64 gc_global_slot_Inr current_frame_Inr split: list.split option.split
          dest: gc_readers_not_panic frame_get_ints frame_set_mem dest!: update_mem)
  qed
qed

section \<open>The size of the heap\<close>

text \<open>
  An allocation lengthens the heap only when no slot is free: either fewer arrays than the threshold
  exist, or a collection has just left only arrays that a root refers to.
\<close>

definition MAX_ROOTS :: nat where
  "MAX_ROOTS = MAX_OPERAND_STACK + MAX_GLOBAL_SLOTS + MAX_FRAMES * MAX_LOCAL_SLOTS"

definition heap_small :: "gc_vm \<Rightarrow> bool" where
  "heap_small s \<longleftrightarrow> gv_threshold s = GC_THRESHOLD \<and> length (gv_heap s) \<le> MAX_ROOTS + 1 \<and>
     (\<forall>f \<in> set (gv_calls s). length (gf_locals f) \<le> MAX_LOCAL_SLOTS)"

lemma heap_small_u32: "heap_small s \<Longrightarrow> length (gv_heap s) + 1 < 4294967296"
  by (simp add: heap_small_def MAX_ROOTS_def limit_defs)

lemma card_vals_refs: "finite (vals_refs vs) \<and> card (vals_refs vs) \<le> length vs"
proof -
  have "vals_refs vs \<subseteq> (\<lambda>v. case v of GArray i \<Rightarrow> i | GInt _ \<Rightarrow> 0) ` set vs"
    by (force simp: vals_refs_def)
  then have "finite (vals_refs vs)" "card (vals_refs vs) \<le> card (set vs)"
    by (auto intro: finite_subset surj_card_le)
  then show ?thesis using card_length [of vs] by linarith
qed

lemma frame_roots_subset: "frame_roots f \<subseteq> vals_refs (gf_locals f)"
  by (auto simp: frame_roots_def vals_refs_def) (metis nth_mem)

lemma card_frame_roots: "card (frame_roots f) \<le> length (gf_locals f)"
  using card_mono [OF _ frame_roots_subset [of f]] card_vals_refs [of "gf_locals f"] by linarith

lemma card_roots:
  assumes "gc_ok s" "heap_small s"
  shows "finite (roots s)" "card (roots s) \<le> MAX_ROOTS"
proof -
  let ?F = "\<Union>f \<in> set (gv_calls s). frame_roots f"
  have ok: "frames_ok s" "length (gv_stack s) \<le> MAX_OPERAND_STACK" "length (gv_globals s) = MAX_GLOBAL_SLOTS"
    "length (gv_calls s) \<le> MAX_FRAMES"
    using assms(1) by (simp_all add: gc_ok_def)
  have "card ?F \<le> (\<Sum>f \<in> set (gv_calls s). card (frame_roots f))"
    by (rule card_UN_le) simp
  also have "\<dots> \<le> (\<Sum>f \<in> set (gv_calls s). MAX_LOCAL_SLOTS)"
    using assms(2) card_frame_roots by (intro sum_mono) (fastforce simp: heap_small_def intro: order_trans)
  also have "\<dots> \<le> MAX_FRAMES * MAX_LOCAL_SLOTS"
    using card_length [of "gv_calls s"] ok(4) by simp
  finally have F: "card ?F \<le> MAX_FRAMES * MAX_LOCAL_SLOTS" .
  show "finite (roots s)" by (simp add: roots_def)
  have "card (roots s) \<le> card (vals_refs (gv_stack s)) + card (vals_refs (gv_globals s)) + card ?F"
    unfolding roots_frames [OF ok(1)] by (rule order_trans [OF card_Un_le add_right_mono [OF card_Un_le]])
  with F card_vals_refs [of "gv_stack s"] card_vals_refs [of "gv_globals s"] ok
  show "card (roots s) \<le> MAX_ROOTS" by (simp add: MAX_ROOTS_def)
qed

lemma alloc_heap_length:
  assumes ok: "gc_ok s" and small: "heap_small s"
  shows "post (alloc_array n s) (\<lambda>_ t. length (gv_heap t) \<le> MAX_ROOTS + 1) (\<lambda>_ _. True)"
proof (cases "length (gv_heap s) - length (gv_free s) \<ge> gv_threshold s")
  case True
  let ?s = "collect_garbage s"
  have "length (gv_heap s) \<le> MAX_ROOTS" if "gv_free ?s = []"
  proof -
    have "heap_ok ?s" using collect_ok [OF ok] by (simp add: gc_ok_def)
    with that have "live ?s = {..<length (gv_heap ?s)}" by (auto simp: heap_ok_def live_def)
    then have "{..<length (gv_heap s)} \<subseteq> roots s" by (auto simp: collect_live)
    with card_roots [OF ok small] card_mono [of "roots s" "{..<length (gv_heap s)}"] show ?thesis by simp
  qed
  with True small show ?thesis
    by (cases "gv_free ?s") (auto simp: alloc_array_def Let_def heap_small_def)
next
  case False
  with small show ?thesis
    by (cases "gv_free s")
      (auto simp: alloc_array_def Let_def heap_small_def MAX_ROOTS_def limit_defs)
qed

lemma alloc_small:
  assumes "gc_ok s" "heap_small s"
  shows "post (alloc_array n s) (\<lambda>_ t. heap_small t) (\<lambda>_ _. True)"
proof -
  have "post (alloc_array n s) (\<lambda>_ t. same_outside_heap s t \<and> length (gv_heap t) \<le> MAX_ROOTS + 1) (\<lambda>_ _. True)"
    using alloc_heap_length [OF assms, of n] alloc_control [of n s] by (auto simp: post_def split: sum.splits)
  then show ?thesis
    by (rule post_mono) (use assms(2) in \<open>auto simp: same_outside_heap_def heap_small_def\<close>)
qed

definition functions_small :: "compiled_program \<Rightarrow> bool" where
  "functions_small p \<longleftrightarrow> (\<forall>f \<in> set (map snd (prog_functions p)). local_count f \<le> MAX_LOCAL_SLOTS)"

lemma fun_lookup_small: "functions_small p \<Longrightarrow> fun_lookup p i = Some f \<Longrightarrow> local_count f \<le> MAX_LOCAL_SLOTS"
  by (force simp: functions_small_def fun_lookup_def dest: map_of_SomeD)

lemma validate_functions_small: "validate_program p = None \<Longrightarrow> functions_small p"
  by (auto simp: validate_program_def first_error_None functions_small_def validate_function_def
      split: if_splits option.splits)

lemma heap_small_fields [simp]:
  "heap_small (s\<lparr>gv_stack := st\<rparr>) = heap_small s" "heap_small (s\<lparr>gv_globals := gs\<rparr>) = heap_small s"
  "heap_small (s\<lparr>gv_pc := i\<rparr>) = heap_small s" "heap_small (s\<lparr>gv_cycles := c\<rparr>) = heap_small s"
  "heap_small (s\<lparr>gv_output := out\<rparr>) = heap_small s" "heap_small (s\<lparr>gv_trace := tr\<rparr>) = heap_small s"
  by (simp_all add: heap_small_def)

lemma length_init_params [simp]: "length (gf_locals (init_params i vs f)) = length (gf_locals f)"
  by (induction i vs f rule: init_params.induct) simp_all

lemma length_new_frame [simp]: "length (gf_locals (GcCallFrame_new n r)) = n"
  by (simp add: GcCallFrame_new_def)

lemma gc_execute_small:
  assumes "gc_ok s" "heap_small s" "functions_small p"
  shows "post (gc_execute p opc a1 a2 s) (\<lambda>_ t. heap_small t) (\<lambda>_ _. True)"
proof (cases "opc = Op_AllocArray \<or> opc = Op_ArrayNew")
  case True
  have "post (gc_alloc_array a1 s) (\<lambda>_ t. heap_small t) (\<lambda>_ _. True)"
    by (auto simp: gc_alloc_array_def gc_wp intro!: post_mono [OF alloc_small [OF assms(1,2)]])
  with True show ?thesis by auto
next
  case False
  with assms(2,3) show ?thesis
    by (cases opc) (auto simp: gc_exec_defs gc_exec_call_def gc_wp post_pop_args heap_small_def set_array_def Let_def
        fun_lookup_small split: list.split option.split gc_value.split)
qed

section \<open>One turn of the run loop\<close>

lemma gc_record_trace_fields [simp]:
  "gv_stack (gc_record_trace st oc s) = gv_stack s" "gv_globals (gc_record_trace st oc s) = gv_globals s"
  "gv_calls (gc_record_trace st oc s) = gv_calls s" "gv_heap (gc_record_trace st oc s) = gv_heap s"
  "gv_cycles (gc_record_trace st oc s) = gv_cycles s" "gv_pc (gc_record_trace st oc s) = gv_pc s"
  "gv_max_cycles (gc_record_trace st oc s) = gv_max_cycles s" "gv_output (gc_record_trace st oc s) = gv_output s"
  "gc_ok (gc_record_trace st oc s) = gc_ok s" "heap_small (gc_record_trace st oc s) = heap_small s"
  "ints_ok (gc_record_trace st oc s) = ints_ok s"
  by (simp_all add: gc_record_trace_def ints_ok_def split: option.split)

lemma ints_ok_fields [simp]:
  "ints_ok (s\<lparr>gv_pc := i\<rparr>) = ints_ok s" "ints_ok (s\<lparr>gv_cycles := c\<rparr>) = ints_ok s"
  by (simp_all add: ints_ok_def)

lemma gc_after_instruction_Inr:
  assumes "gc_after_instruction st r = Inr t"
  obtains advance u oc where "r = (Inr advance, u)" "gv_calls u \<noteq> []"
    "t = gc_record_trace st oc (if advance then u\<lparr>gv_pc := gv_pc u + 1\<rparr> else u)"
proof (cases "fst r")
  case (Inl e)
  with assms show ?thesis by (cases e) (auto simp: gc_after_instruction_def Let_def)
next
  case (Inr advance)
  with assms that [of advance "snd r" "if advance then OContinue else OJump"] show ?thesis
    by (cases r) (auto simp: gc_after_instruction_def Let_def split: if_splits)
qed

lemma gc_after_instruction_Inl:
  assumes "gc_after_instruction st r = Inl x"
  obtains (trap) code msg u where "r = (Inl (Trap code msg), u)"
      "x = gc_finish (gc_make_trap_result code msg (gc_record_trace st (OTrap code msg) u))"
    | (panic) msg u where "r = (Inl (Panic msg), u)" "x = (Inl msg, u)"
    | (exit) advance u where "r = (Inr advance, u)" "gv_calls u = []"
      "x = gc_finish (gc_exit_result (gc_record_trace st OExit
             (if advance then u\<lparr>gv_pc := gv_pc u + 1\<rparr> else u)))"
proof (cases "fst r")
  case (Inl e)
  show ?thesis
  proof (cases e)
    case (Trap code msg)
    with Inl assms trap [of code msg "snd r"] show ?thesis
      by (cases r) (simp add: gc_after_instruction_def Let_def)
  next
    case (Panic msg)
    with Inl assms panic [of msg "snd r"] show ?thesis
      by (cases r) (simp add: gc_after_instruction_def Let_def)
  qed
next
  case (Inr advance)
  with assms exit [of advance "snd r"] show ?thesis
    by (cases r) (auto simp: gc_after_instruction_def Let_def split: if_splits)
qed

lemma gc_step_Inr:
  assumes "gc_step p s = Inr t"
  obtains advance u st oc where
    "gv_pc s < length (instructions p)"
    "gv_max_cycles s > 0 \<Longrightarrow> gv_cycles s < gv_max_cycles s"
    "gc_exec_current p s = (Inr advance, u)" "gv_calls u \<noteq> []"
    "t = gc_record_trace st oc (if advance then u\<lparr>gv_pc := gv_pc u + 1\<rparr> else u)"
  using assms unfolding gc_step_def
  by (auto split: if_splits elim!: gc_after_instruction_Inr)

lemma gc_step_Inl:
  assumes "gc_step p s = Inl r"
  obtains (limit) msg where "gv_max_cycles s > 0" "gv_cycles s \<ge> gv_max_cycles s"
      "r = gc_finish (gc_make_trap_result CycleLimit (''Cycle limit exceeded ('' @ msg) s)"
    | (bad_pc) msg where "\<not> gv_pc s < length (instructions p)"
      "r = gc_finish (gc_make_trap_result InvalidInstruction (''PC out of bounds: '' @ msg) s)"
    | (instr) st where "gv_pc s < length (instructions p)"
      "gv_max_cycles s > 0 \<Longrightarrow> gv_cycles s < gv_max_cycles s"
      "gc_after_instruction st (gc_exec_current p s) = Inl r"
proof (cases "gv_max_cycles s > 0 \<and> gv_cycles s \<ge> gv_max_cycles s")
  case True
  with assms limit show ?thesis unfolding gc_step_def by (auto simp: fmt_def)
next
  case False
  show ?thesis
  proof (cases "gv_pc s < length (instructions p)")
    case True
    with False assms instr show ?thesis by (auto simp: gc_step_def)
  next
    case pc: False
    with False assms bad_pc show ?thesis by (auto simp: gc_step_def fmt_def)
  qed
qed

section \<open>The invariant of a run\<close>

definition gc_running :: "compiled_program \<Rightarrow> gc_vm \<Rightarrow> bool" where
  "gc_running p s \<longleftrightarrow> gc_ok s \<and> ints_ok s \<and> heap_small s \<and> gv_calls s \<noteq> [] \<and> typed_program p \<and>
     functions_small p \<and> (gv_max_cycles s > 0 \<longrightarrow> gv_cycles s \<le> gv_max_cycles s)"

lemma gc_exec_current_post:
  assumes "gc_running p s" "gv_pc s < length (instructions p)"
  shows "post (gc_exec_current p s)
    (\<lambda>_ t. gc_ok t \<and> ints_ok t \<and> heap_small t \<and> gv_cycles t = gv_cycles s + 1 \<and> gv_max_cycles t = gv_max_cycles s)
    (\<lambda>e t. gc_ok t \<and> harmless e \<and> not_panic e \<and> gv_cycles t = gv_cycles s + 1 \<and> gv_max_cycles t = gv_max_cycles s)"
proof -
  let ?i = "instructions p ! gv_pc s" and ?s = "s\<lparr>gv_cycles := gv_cycles s + 1\<rparr>"
  have i: "?i \<in> set (instructions p)" using assms(2) by simp
  have s: "gc_ok ?s" "ints_ok ?s" "gv_calls ?s \<noteq> []" "is_i32 (arg1 ?i)" "heap_small ?s" "functions_small p"
    using assms(1) i by (auto simp: gc_running_def typed_program_def)
  note small = heap_small_u32 [OF s(5)]
  show ?thesis
    using gc_execute_ok [OF s(1) small, of p "opcode ?i" "arg1 ?i" "arg2 ?i"]
      gc_execute_ints [OF s(1-4) small, of p "opcode ?i" "arg2 ?i"]
      gc_execute_small [OF s(1,5,6), of "opcode ?i" "arg1 ?i" "arg2 ?i"]
      gc_execute_control [of p "opcode ?i" "arg1 ?i" "arg2 ?i" ?s]
    by (auto simp: gc_exec_current_def Let_def post_def step_ok_def gc_same_control_def split: sum.splits)
qed

lemma gc_step_running:
  assumes "gc_running p s" "gc_step p s = Inr t"
  shows "gc_running p t" "gv_cycles t = gv_cycles s + 1" "gv_max_cycles t = gv_max_cycles s"
    "gv_max_cycles s > 0 \<Longrightarrow> gv_cycles s < gv_max_cycles s"
proof -
  show "gv_max_cycles s > 0 \<Longrightarrow> gv_cycles s < gv_max_cycles s"
    using assms(2) by (rule gc_step_Inr)
  note limit = this
  from assms(2) have "gc_running p t \<and> gv_cycles t = gv_cycles s + 1 \<and> gv_max_cycles t = gv_max_cycles s"
  proof (cases rule: gc_step_Inr)
    case (1 a u st oc)
    from post_Inr [OF gc_exec_current_post [OF assms(1) 1(1)] 1(3)] 1(4,5) assms(1) limit
    show ?thesis by (auto simp: gc_running_def)
  qed
  then show "gc_running p t" "gv_cycles t = gv_cycles s + 1" "gv_max_cycles t = gv_max_cycles s" by simp_all
qed

definition gc_cycles_left :: "gc_vm \<Rightarrow> nat" where
  "gc_cycles_left s = gv_max_cycles s - gv_cycles s"

interpretation gc_loop: bounded_loop "gc_step p" "\<lambda>s. gc_running p s \<and> gv_max_cycles s = k \<and> 0 < k" gc_cycles_left for p k
proof
  fix p k s t
  assume s: "gc_running p s \<and> gv_max_cycles s = k \<and> 0 < k" and t: "gc_step p s = (Inr t :: gc_exit + gc_vm)"
  then have "gc_running p s" by simp
  note run = gc_step_running [OF this t]
  with s show "gc_running p t \<and> gv_max_cycles t = k \<and> 0 < k" by simp
  from s run show "gc_cycles_left t < gc_cycles_left s" by (simp add: gc_cycles_left_def)
qed

text \<open>What a run ends in.\<close>

definition gc_outcome_ok :: "nat \<Rightarrow> gc_exit \<Rightarrow> bool" where
  "gc_outcome_ok k x \<longleftrightarrow> (\<exists>res t. x = (Inr res, t) \<and> gr_cycles res \<le> k \<and> gr_stack_depth res \<le> MAX_OPERAND_STACK \<and>
     gr_frame_depth res \<le> MAX_FRAMES \<and> (gr_trap_code res, gr_trap_message res) \<noteq> (InvalidInstruction, ''Invalid array reference''))"

lemma gc_trap_ok:
  "gc_ok s \<Longrightarrow> gv_cycles s \<le> k \<Longrightarrow> (c, m) \<noteq> (InvalidInstruction, ''Invalid array reference'') \<Longrightarrow>
     gc_outcome_ok k (gc_finish (gc_make_trap_result c m s))"
  by (simp add: gc_outcome_ok_def gc_finish_def gc_make_trap_result_def gc_ok_def)

lemma gc_exit_ok:
  "gc_ok s \<Longrightarrow> gv_cycles s \<le> k \<Longrightarrow> gc_outcome_ok k (gc_finish (gc_exit_result s))"
  by (auto simp: gc_outcome_ok_def gc_finish_def gc_exit_result_def gc_take_top_def gc_ok_def Let_def split: list.split)

lemma gc_running_exit:
  assumes "gc_running p s" "gc_step p s = Inl x" "gv_max_cycles s = k" "0 < k"
  shows "gc_outcome_ok k x"
  using assms(2)
proof (cases rule: gc_step_Inl)
  case (instr st)
  note post = gc_exec_current_post [OF assms(1) instr(1)]
  have less: "gv_cycles s + 1 \<le> k" using instr(2) assms(3,4) by simp
  from instr(3) show ?thesis
  proof (cases rule: gc_after_instruction_Inl)
    case (trap code msg u)
    with post_Inl [OF post trap(1)] less show ?thesis
      by (auto intro!: gc_trap_ok simp: harmless_def invalid_reference_def)
  next
    case (panic msg u)
    with post_Inl [OF post panic(1)] show ?thesis by simp
  next
    case (exit a u)
    with post_Inr [OF post exit(1)] less show ?thesis by (auto intro!: gc_exit_ok)
  qed
qed (use assms in \<open>auto simp: gc_running_def intro!: gc_trap_ok\<close>)

section \<open>The start of a run\<close>

lemma required_slots:
  "required_global_slots infos m = Inr n \<Longrightarrow> m \<le> n \<and> (\<forall>info \<in> set infos. gi_slot info < n)"
proof (induction infos arbitrary: m)
  case (Cons info infos)
  then show ?case
    by (fastforce simp: checked_add_def Let_def split: if_splits option.splits)
qed simp

lemma validate_slots:
  "validate_program p = None \<Longrightarrow> info \<in> set (map snd (prog_globals p)) \<Longrightarrow> gi_slot info < MAX_GLOBAL_SLOTS"
  by (force simp: validate_program_def split: if_splits option.splits sum.splits dest!: required_slots)

definition gc_ready :: "gc_vm \<Rightarrow> bool" where
  "gc_ready s \<longleftrightarrow> gc_ok s \<and> ints_ok s \<and> heap_small s \<and> gv_calls s = []"

lemma gc_ready_set_global:
  assumes "gc_ready s" "i \<in> live s"
  shows "gc_ready (s\<lparr>gv_globals := (gv_globals s)[k := GArray i]\<rparr>)"
proof -
  have "vals_refs ((gv_globals s)[k := GArray i]) \<subseteq> live s"
    using vals_refs_update [of "gv_globals s" k "GArray i"] gc_ok_refs(2) [of s] assms by (auto simp: gc_ready_def)
  with assms show ?thesis
    by (auto simp: gc_ready_def ints_ok_def intro!: gc_ok_globals dest!: update_mem)
qed

lemma alloc_ready:
  assumes "gc_ready s"
  shows "post (alloc_array n s) (\<lambda>i t. gc_ready t \<and> i \<in> live t \<and> gv_max_cycles t = gv_max_cycles s \<and>
    gv_cycles t = gv_cycles s) (\<lambda>_ _. False)"
proof -
  from assms have s: "gc_ok s" "heap_small s" "heap_ints s" by (simp_all add: gc_ready_def ints_ok_def)
  have "post (alloc_array n s) (allocated n s) (\<lambda>_ _. False)"
    by (rule post_alloc [OF s(1) heap_small_u32 [OF s(2)]])
  moreover note alloc_ints [OF s(3), of n] alloc_small [OF s(1,2), of n]
  ultimately show ?thesis
    using assms by (auto simp: post_def gc_ready_def allocated_def same_outside_heap_def ints_ok_def split: sum.splits)
qed

lemma init_globals_ready:
  assumes "gc_ready s" "\<forall>info \<in> set infos. gi_slot info < MAX_GLOBAL_SLOTS"
  shows "post (init_globals infos s) (\<lambda>_ t. gc_ready t \<and> gv_max_cycles t = gv_max_cycles s \<and> gv_cycles t = gv_cycles s)
    (\<lambda>_ _. False)"
  using assms
proof (induction infos arbitrary: s)
  case (Cons info infos)
  show ?case
  proof (cases "gi_is_array info")
    case True
    have "post (bnd (alloc_array (gi_array_size info) s) (\<lambda>i s.
        if gi_slot info < length (gv_globals s)
        then init_globals infos (s\<lparr>gv_globals := (gv_globals s)[gi_slot info := GArray i]\<rparr>)
        else (Inl (Panic ''index out of bounds''), s)))
      (\<lambda>_ t. gc_ready t \<and> gv_max_cycles t = gv_max_cycles s \<and> gv_cycles t = gv_cycles s) (\<lambda>_ _. False)"
      unfolding post_simps
    proof (rule post_mono [OF alloc_ready [OF Cons.prems(1)]])
      fix i t
      assume t: "gc_ready t \<and> i \<in> live t \<and> gv_max_cycles t = gv_max_cycles s \<and> gv_cycles t = gv_cycles s"
      then have "gi_slot info < length (gv_globals t)" using Cons.prems(2) by (auto simp: gc_ready_def gc_ok_def)
      with t Cons.IH [OF gc_ready_set_global, of t i "gi_slot info"] Cons.prems(2)
      show "post (if gi_slot info < length (gv_globals t)
          then init_globals infos (t\<lparr>gv_globals := (gv_globals t)[gi_slot info := GArray i]\<rparr>)
          else (Inl (Panic ''index out of bounds''), t))
        (\<lambda>_ t. gc_ready t \<and> gv_max_cycles t = gv_max_cycles s \<and> gv_cycles t = gv_cycles s) (\<lambda>_ _. False)"
        by simp
    qed simp
    with True show ?thesis by simp
  next
    case False
    with Cons show ?thesis by simp
  qed
qed simp

text \<open>A fresh machine with a cycle limit, with or without a trace.\<close>

definition gc_machine :: "nat \<Rightarrow> bool \<Rightarrow> gc_vm" where
  "gc_machine k tr = (if tr then gc_with_trace else (\<lambda>s. s)) (gc_with_max_cycles k gc_new)"

lemma gc_machine_ready: "gc_ready (gc_machine k tr)" "gv_max_cycles (gc_machine k tr) = k" "gv_cycles (gc_machine k tr) = 0"
proof -
  have "vals_refs (replicate n (GInt 0)) = {}" for n by (auto simp: vals_refs_def)
  then show "gc_ready (gc_machine k tr)"
    by (auto simp: gc_ready_def gc_machine_def gc_with_trace_def gc_with_max_cycles_def gc_new_def ints_ok_def
        heap_ints_def heap_small_def heap_ok_def i64_min_def intro!: gc_okI)
  show "gv_max_cycles (gc_machine k tr) = k" "gv_cycles (gc_machine k tr) = 0"
    by (simp_all add: gc_machine_def gc_with_trace_def gc_with_max_cycles_def gc_new_def)
qed

lemma gc_start_running:
  assumes "gc_ready s" "gv_cycles s = 0" "typed_program p" "validate_program p = None" "fun_lookup p m = Some f"
  shows "gc_running p (gc_start f s)"
proof -
  note small = validate_functions_small [OF assms(4)]
  have "gc_ok (s\<lparr>gv_calls := [GcCallFrame_new (local_count f) usize_max]\<rparr>)"
    using assms(1) by (intro gc_ok_calls) (auto simp: gc_ready_def MAX_FRAMES_def)
  then have "gc_ok (gc_start f s)" using assms(1) by (simp add: gc_start_def gc_ready_def gc_ok_def heap_ok_def frames_ok_def roots_def ids_to_mark_def live_def)
  with assms small fun_lookup_small [OF small assms(5)] show ?thesis
    by (auto simp: gc_running_def gc_ready_def gc_start_def ints_ok_def heap_ints_def heap_small_def i64_min_def GcCallFrame_new_def)
qed

lemma required_slots_message: "required_global_slots infos m = Inl e \<Longrightarrow> hd (snd e) = CHR ''G''"
  by (induction infos arbitrary: m)
    (auto simp: checked_add_def Let_def fmt_def split: if_splits option.splits)

lemma first_error_Some: "first_error f xs = Some e \<Longrightarrow> \<exists>x \<in> set xs. f x = Some e"
  by (induction xs) (auto split: option.splits)

lemma validate_message: "validate_program p = Some e \<Longrightarrow> snd e \<noteq> ''Invalid array reference''"
  by (auto simp: validate_program_def validate_function_def fmt_def
      dest!: first_error_Some required_slots_message split: if_splits option.splits sum.splits)

text \<open>The states in which a run can execute an instruction.\<close>

inductive gc_reachable :: "compiled_program \<Rightarrow> gc_vm \<Rightarrow> gc_vm \<Rightarrow> bool" for p s0 where
  start: "gc_validate_program p = None \<Longrightarrow> fun_lookup p (main_func_id p) = Some f \<Longrightarrow>
    init_globals (map snd (prog_globals p)) s0 = (Inr (), s) \<Longrightarrow> gc_reachable p s0 (gc_start f s)"
| turn: "gc_reachable p s0 s \<Longrightarrow> gc_step p s = Inr t \<Longrightarrow> gc_reachable p s0 t"

lemma init_machine:
  assumes "validate_program p = None"
  obtains s where "init_globals (map snd (prog_globals p)) (gc_machine k tr) = (Inr (), s)"
    "gc_ready s" "gv_max_cycles s = k" "gv_cycles s = 0"
proof -
  have "post (init_globals (map snd (prog_globals p)) (gc_machine k tr))
     (\<lambda>_ t. gc_ready t \<and> gv_max_cycles t = k \<and> gv_cycles t = 0) (\<lambda>_ _. False)"
    using init_globals_ready [OF gc_machine_ready(1) ballI, of "map snd (prog_globals p)" k tr] validate_slots [OF assms]
    by (simp add: gc_machine_ready(2,3))
  then show ?thesis
    using that by (cases "init_globals (map snd (prog_globals p)) (gc_machine k tr)"; cases "fst (init_globals (map snd (prog_globals p)) (gc_machine k tr))") auto
qed

lemma reachable_running:
  assumes "gc_reachable p (gc_machine k tr) s" "typed_program p"
  shows "gc_running p s"
  using assms(1)
proof induction
  case (start f s)
  from start(1) have valid: "validate_program p = None" by (simp add: gc_validate_program_def)
  from init_machine [OF valid, of k tr] start(3) have "gc_ready s" "gv_cycles s = 0" by auto
  then show ?case using gc_start_running valid start(2) assms(2) by blast
next
  case (turn s t)
  then show ?case by (blast intro: gc_step_running(1))
qed

section \<open>Properties\<close>

lemma gc_run_returns:
  assumes "typed_program p" "0 < k"
  shows "\<exists>res t. gc_run p (gc_machine k tr) = Some (Inr res, t) \<and> gr_cycles res \<le> k \<and>
    gr_stack_depth res \<le> MAX_OPERAND_STACK \<and> gr_frame_depth res \<le> MAX_FRAMES \<and>
    (gr_trap_code res, gr_trap_message res) \<noteq> (InvalidInstruction, ''Invalid array reference'')"
proof (cases "gc_validate_program p")
  case (Some e)
  then have "(fst e, snd e) \<noteq> (InvalidInstruction, ''Invalid array reference'')"
    by (auto simp: gc_validate_program_def dest: validate_message)
  with Some show ?thesis
    by (cases e) (simp add: gc_run_def gc_finish_def gc_make_trap_result_def gc_machine_def gc_with_trace_def gc_with_max_cycles_def gc_new_def)
next
  case None
  then have valid: "validate_program p = None" by (simp add: gc_validate_program_def)
  show ?thesis
  proof (cases "fun_lookup p (main_func_id p)")
    case no_main: None
    with None show ?thesis
      by (simp add: gc_run_def gc_finish_def gc_make_trap_result_def gc_machine_def gc_with_trace_def gc_with_max_cycles_def gc_new_def)
  next
    case (Some f)
    from init_machine [OF valid, of k tr] obtain s where
      s: "init_globals (map snd (prog_globals p)) (gc_machine k tr) = (Inr (), s)" "gc_ready s"
        "gv_max_cycles s = k" "gv_cycles s = 0" .
    have "gc_running p (gc_start f s)" by (rule gc_start_running [OF s(2,4) assms(1) valid Some])
    moreover have "gv_max_cycles (gc_start f s) = k" using s(3) by (simp add: gc_start_def)
    ultimately obtain u r where u: "gc_running p u" "gv_max_cycles u = k" "gc_step p u = Inl r"
        "iterate (gc_step p) (gc_start f s) = Some r"
      using gc_loop.exit_state [of p "gc_start f s" k] assms(2) by auto
    have "gc_outcome_ok k r" by (rule gc_running_exit [OF u(1,3,2) assms(2)])
    then show ?thesis using None Some s(1) u(4) by (auto simp: gc_run_def gc_outcome_ok_def)
  qed
qed

text \<open>
  C12: a run of the garbage collecting machine with a cycle limit always returns, without a panic, within the
  limits on cycles, operands and frames, and never stops because an array reference has become
  invalid.
\<close>

theorem gc_run_safe:
  assumes "typed_program p" "0 < k"
  shows "\<exists>res t. gc_run p (gc_machine k tr) = Some (Inr res, t) \<and> gr_cycles res \<le> k \<and>
    gr_stack_depth res \<le> MAX_OPERAND_STACK \<and> gr_frame_depth res \<le> MAX_FRAMES \<and>
    (gr_trap_code res, gr_trap_message res) \<noteq> (InvalidInstruction, ''Invalid array reference'')"
  using assms by (rule gc_run_returns)

text \<open>
  C13: in every state a run can reach, each reference on the stack, in a global or in an initialised local
  names an array of the heap, the free list holds exactly the empty slots of the heap, each once,
  and the heap has at most one slot more than a machine within its limits can have references.
\<close>

theorem gc_no_dangling_references:
  assumes "gc_reachable p (gc_machine k tr) s" "typed_program p"
  shows "(\<forall>i \<in> set (ids_to_mark s). get_array s i \<noteq> None) \<and> distinct (gv_free s) \<and>
    set (gv_free s) = {i. i < length (gv_heap s) \<and> get_array s i = None} \<and>
    length (gv_heap s) \<le> MAX_OPERAND_STACK + MAX_GLOBAL_SLOTS + MAX_FRAMES * MAX_LOCAL_SLOTS + 1"
  using reachable_running [OF assms]
  by (auto simp: gc_running_def gc_ok_def heap_ok_def live_def roots_def get_array_def heap_small_def MAX_ROOTS_def)

text \<open>
  C14: a collection in a reachable state keeps every array that a root refers to, with its elements, and
  frees every other array: it counts them, and their slots join the free list, which again
  holds exactly the empty slots.
\<close>

theorem collect_garbage_exact:
  assumes "gc_reachable p (gc_machine k tr) s" "typed_program p"
  shows "(\<forall>i. map_option arr_data (get_array (collect_garbage s) i) =
      (if i \<in> set (ids_to_mark s) then map_option arr_data (get_array s i) else None)) \<and>
    gv_objects_freed (collect_garbage s) =
      gv_objects_freed s + card {i. get_array s i \<noteq> None \<and> i \<notin> set (ids_to_mark s)} \<and>
    distinct (gv_free (collect_garbage s)) \<and>
    set (gv_free (collect_garbage s)) = {i. i < length (gv_heap s) \<and> get_array (collect_garbage s) i = None}"
proof -
  have ok: "heap_ok s" using reachable_running [OF assms] by (simp add: gc_running_def gc_ok_def)
  have "map_option arr_data (get_array (collect_garbage s) i) =
      (if i \<in> roots s then map_option arr_data (get_array s i) else None)" for i
    by (cases "i < length (gv_heap s)"; cases "gv_heap s ! i") (simp_all add: get_array_def collect_heap)
  moreover have "{k. k < length (gv_heap s) \<and> garbage (marked_heap s ! k)} = {i. get_array s i \<noteq> None \<and> i \<notin> roots s}"
    by (auto simp: get_array_def marked_heap_nth garbage_def swept_def)
  then have "gv_objects_freed (collect_garbage s) =
      gv_objects_freed s + card {i. get_array s i \<noteq> None \<and> i \<notin> roots s}"
    by (simp add: collect_fields sweep_freed length_filter_conv_card)
  ultimately show ?thesis
    using collect_free [OF ok] unfolding roots_def by (auto simp: get_array_def)
qed

text \<open>
  C15: an allocation in a reachable state succeeds, with a collection or without: the new array is one
  that no root refers to, of the right size and all zero, and no array that a root refers to changes.
\<close>

theorem alloc_array_fresh:
  assumes "gc_reachable p (gc_machine k tr) s" "typed_program p"
  shows "\<exists>i t. alloc_array n s = (Inr i, t) \<and> i \<notin> set (ids_to_mark s) \<and>
    map_option arr_data (get_array t i) = Some (replicate n 0) \<and>
    (\<forall>j \<in> set (ids_to_mark s). map_option arr_data (get_array t j) = map_option arr_data (get_array s j))"
proof -
  have s: "gc_ok s" "heap_small s" using reachable_running [OF assms] by (simp_all add: gc_running_def)
  have "post (alloc_array n s) (allocated n s) (\<lambda>_ _. False)"
    by (rule post_alloc [OF s(1) heap_small_u32 [OF s(2)]])
  then obtain i t where "alloc_array n s = (Inr i, t)" "allocated n s i t"
    by (auto simp: post_def prod_eq_iff split: sum.splits)
  then show ?thesis by (auto simp: allocated_def elements_def roots_def)
qed

section \<open>Witnesses\<close>

text \<open>A program with a global array that drops the reference to a second array.\<close>

definition gc_demo :: compiled_program where
  "gc_demo = \<lparr>instructions =
       [\<lparr>opcode = Op_AllocArray, arg1 = 3, arg2 = 0\<rparr>, \<lparr>opcode = Op_Pop, arg1 = 0, arg2 = 0\<rparr>,
        \<lparr>opcode = Op_Halt, arg1 = 0, arg2 = 0\<rparr>],
     prog_functions = [(0, \<lparr>fi_name = ''main'', fi_id = 0, entry_pc = 0, param_count = 0, local_count = 1\<rparr>)],
     prog_globals = [(''a'', \<lparr>gi_name = ''a'', gi_slot = 0, gi_is_array = True, gi_array_size = 2\<rparr>)],
     main_func_id = 0, prog_constants = []\<rparr>"

definition gc_demo_start :: gc_vm where
  "gc_demo_start = gc_start \<lparr>fi_name = ''main'', fi_id = 0, entry_pc = 0, param_count = 0, local_count = 1\<rparr>
     (snd (init_globals (map snd (prog_globals gc_demo)) (gc_machine 50 False)))"

definition gc_demo_state :: gc_vm where
  "gc_demo_state = projr (gc_step gc_demo (projr (gc_step gc_demo gc_demo_start)))"

lemma gc_demo_typed: "typed_program gc_demo"
  by (simp add: typed_program_def gc_demo_def is_i32_def)

lemma gc_demo_reachable: "gc_reachable gc_demo (gc_machine 50 False) gc_demo_state"
proof -
  have step: "gc_step gc_demo s = Inr (projr (gc_step gc_demo s))" if "\<not> isl (gc_step gc_demo s)" for s
    using that by (cases "gc_step gc_demo s") auto
  have "fst (init_globals (map snd (prog_globals gc_demo)) (gc_machine 50 False)) = Inr ()" by code_simp
  then have "init_globals (map snd (prog_globals gc_demo)) (gc_machine 50 False) =
      (Inr (), snd (init_globals (map snd (prog_globals gc_demo)) (gc_machine 50 False)))"
    by (simp add: prod_eq_iff)
  moreover have "gc_validate_program gc_demo = None" by code_simp
  moreover have "fun_lookup gc_demo (main_func_id gc_demo) =
      Some \<lparr>fi_name = ''main'', fi_id = 0, entry_pc = 0, param_count = 0, local_count = 1\<rparr>"
    by (simp add: gc_demo_def fun_lookup_def)
  ultimately have "gc_reachable gc_demo (gc_machine 50 False) gc_demo_start"
    unfolding gc_demo_start_def by (rule gc_reachable.start [rotated 2])
  moreover have "\<not> isl (gc_step gc_demo gc_demo_start)" by code_simp
  moreover have "\<not> isl (gc_step gc_demo (projr (gc_step gc_demo gc_demo_start)))" by code_simp
  ultimately show ?thesis
    unfolding gc_demo_state_def by (blast intro: gc_reachable.turn step)
qed

theorem gc_run_safe_witness:
  "\<exists>res t. gc_run gc_demo (gc_machine 50 False) = Some (Inr res, t) \<and> gr_cycles res \<le> 50"
  using gc_run_safe [OF gc_demo_typed, of 50 False] by auto

theorem gc_no_dangling_references_witness:
  "ids_to_mark gc_demo_state = [0] \<and> get_array gc_demo_state 0 \<noteq> None"
proof -
  have "ids_to_mark gc_demo_state = [0]" by code_simp
  with gc_no_dangling_references [OF gc_demo_reachable gc_demo_typed] show ?thesis by simp
qed

theorem collect_garbage_exact_witness:
  "map_option arr_data (get_array (collect_garbage gc_demo_state) 0) = Some [0, 0] \<and>
   get_array gc_demo_state 1 \<noteq> None \<and> get_array (collect_garbage gc_demo_state) 1 = None"
proof -
  have roots: "ids_to_mark gc_demo_state = [0]" by code_simp
  moreover have "map_option arr_data (get_array gc_demo_state 0) = Some [0, 0]" by code_simp
  moreover have "\<not> Option.is_none (get_array gc_demo_state 1)" by code_simp
  moreover have "map_option arr_data (get_array (collect_garbage gc_demo_state) i) =
      (if i \<in> set (ids_to_mark gc_demo_state) then map_option arr_data (get_array gc_demo_state i) else None)" for i
    using collect_garbage_exact [OF gc_demo_reachable gc_demo_typed] by blast
  from this [of 0] this [of 1] calculation show ?thesis by (simp add: Option.is_none_def)
qed

theorem alloc_array_fresh_witness:
  "\<exists>i t. alloc_array 5 gc_demo_state = (Inr i, t) \<and> i \<noteq> 0 \<and> map_option arr_data (get_array t i) = Some (replicate 5 0)"
proof -
  have roots: "ids_to_mark gc_demo_state = [0]" by code_simp
  with alloc_array_fresh [OF gc_demo_reachable gc_demo_typed, of 5] show ?thesis by auto
qed

end
