(* ===== verification/Direct_Code.thy ===== *)
theory Direct_Code
  imports Compiler Well_Formed
begin

text \<open>
  The code of the compiler without its patching: a direct description of the instructions of an
  expression, a statement and a function, with the targets of jumps computed from the lengths of
  the parts. The compiler appends exactly this code.
\<close>

section \<open>The code of a part\<close>

text \<open>What code generation looks names up in: locals with the next free slot, globals, function ids.\<close>

type_synonym local_env = "(string \<Rightarrow> local_var option) \<times> nat"
type_synonym global_env = "(string \<Rightarrow> global_info option) \<times> (string \<Rightarrow> nat option)"

definition load_code :: "(string \<Rightarrow> local_var option) \<Rightarrow> global_env \<Rightarrow> string \<Rightarrow> instruction list" where
  "load_code L g name =
     (case L name of
        Some l \<Rightarrow> [Instruction_new Op_LoadLocal (usize_as_i32 (lv_slot l)) 0]
      | None \<Rightarrow>
          (case fst g name of
             Some x \<Rightarrow> [Instruction_new Op_LoadGlobal (usize_as_i32 (gi_slot x)) 0]
           | None \<Rightarrow> []))"

definition array_load_code :: "(string \<Rightarrow> local_var option) \<Rightarrow> global_env \<Rightarrow> string \<Rightarrow> instruction list" where
  "array_load_code L g name =
     (case L name of
        Some l \<Rightarrow>
          [Instruction_new Op_LocalArrayLoad (usize_as_i32 (lv_slot l)) (usize_as_i32 (lv_array_size l))]
      | None \<Rightarrow>
          (case fst g name of
             Some x \<Rightarrow> [Instruction_new Op_ArrayLoad (usize_as_i32 (gi_slot x)) (usize_as_i32 (gi_array_size x))]
           | None \<Rightarrow> []))"

fun expr_code :: "(string \<Rightarrow> local_var option) \<Rightarrow> global_env \<Rightarrow> nat \<Rightarrow> expr \<Rightarrow> instruction list"
and args_code :: "(string \<Rightarrow> local_var option) \<Rightarrow> global_env \<Rightarrow> nat \<Rightarrow> expr list \<Rightarrow> instruction list"
where
  "expr_code L g pc (E_IntLiteral v sp) = [Instruction_new Op_LoadConst v 0]"
| "expr_code L g pc (E_BoolLiteral b sp) = [Instruction_new Op_LoadConst (if b then 1 else 0) 0]"
| "expr_code L g pc (E_Identifier name sp) = load_code L g name"
| "expr_code L g pc (E_Binary op l r sp) =
     (let cl = expr_code L g pc l in
      if op = Bin_And \<or> op = Bin_Or
      then let cr = expr_code L g (pc + length cl + 1) r;
               short = pc + length cl + 1 + length cr + 3;
               v = (if op = Bin_And then 0 else 1)
        in cl @ Instruction_new (if op = Bin_And then Op_JumpIfFalse else Op_JumpIfTrue) (usize_as_i32 short) 0 #
           cr @ [Instruction_new Op_LoadConst 0 0, Instruction_new Op_Ne 0 0,
                 Instruction_new Op_Jump (usize_as_i32 (short + 1)) 0, Instruction_new Op_LoadConst v 0]
      else cl @ expr_code L g (pc + length cl) r @ [Instruction_new (binary_opcode op) 0 0])"
| "expr_code L g pc (E_Unary op e sp) = expr_code L g pc e @ [Instruction_new (unary_opcode op) 0 0]"
| "expr_code L g pc (E_Call name args sp) =
     args_code L g pc args @
     [Instruction_new Op_Call (usize_as_i32 (the (snd g name))) (usize_as_i32 (length args))]"
| "expr_code L g pc (E_ArrayIndex name index sp) = expr_code L g pc index @ array_load_code L g name"
| "args_code L g pc [] = []"
| "args_code L g pc (a # as) =
     (let ca = expr_code L g pc a in ca @ args_code L g (pc + length ca) as)"

definition bind_local :: "string \<Rightarrow> i32 option \<Rightarrow> local_env \<Rightarrow> local_env" where
  "bind_local name sz E =
     (if fst E name = None
      then ((fst E)(name \<mapsto> \<lparr>lv_slot = snd E, lv_is_array = (sz \<noteq> None), lv_array_size = decl_size sz\<rparr>),
            snd E + 1)
      else E)"

fun bind_locals :: "stmt \<Rightarrow> local_env \<Rightarrow> local_env"
and bind_locals_list :: "stmt list \<Rightarrow> local_env \<Rightarrow> local_env"
where
  "bind_locals (S_VarDecl t name i sz sp) E = bind_local name sz E"
| "bind_locals (S_If cond th el sp) E =
     (let E = bind_locals_list th E in case el of None \<Rightarrow> E | Some ss \<Rightarrow> bind_locals_list ss E)"
| "bind_locals (S_While cond body sp) E = bind_locals_list body E"
| "bind_locals (S_Assign target idx v sp) E = E"
| "bind_locals (S_Return v sp) E = E"
| "bind_locals (S_Print v sp) E = E"
| "bind_locals (S_ExprStmt e sp) E = E"
| "bind_locals_list [] E = E"
| "bind_locals_list (s # ss) E = bind_locals_list ss (bind_locals s E)"

definition store_local :: "local_var \<Rightarrow> instruction" where
  "store_local l = Instruction_new Op_StoreLocal (usize_as_i32 (lv_slot l)) 0"

definition decl_code :: "local_env \<Rightarrow> global_env \<Rightarrow> nat \<Rightarrow> string \<Rightarrow> expr option \<Rightarrow> i32 option \<Rightarrow> instruction list" where
  "decl_code E g pc name init sz =
     (let L = fst (bind_local name sz E); l = the (L name) in
      if lv_is_array l
      then [Instruction_new Op_AllocArray (usize_as_i32 (lv_array_size l)) 0, store_local l]
      else case init of None \<Rightarrow> [] | Some e \<Rightarrow> expr_code L g pc e @ [store_local l])"

definition store_instr :: "(string \<Rightarrow> local_var option) \<Rightarrow> global_env \<Rightarrow> string \<Rightarrow> bool \<Rightarrow> instruction option" where
  "store_instr L g target indexed =
     (case L target of
        Some l \<Rightarrow>
          Some (if indexed
                then Instruction_new Op_LocalArrayStore (usize_as_i32 (lv_slot l)) (usize_as_i32 (lv_array_size l))
                else store_local l)
      | None \<Rightarrow>
          map_option (\<lambda>x.
            if indexed
            then Instruction_new Op_ArrayStore (usize_as_i32 (gi_slot x)) (usize_as_i32 (gi_array_size x))
            else Instruction_new Op_StoreGlobal (usize_as_i32 (gi_slot x)) 0) (fst g target))"

definition assign_code ::
  "(string \<Rightarrow> local_var option) \<Rightarrow> global_env \<Rightarrow> nat \<Rightarrow> string \<Rightarrow> expr option \<Rightarrow> expr \<Rightarrow> instruction list" where
  "assign_code L g pc target idx v =
     (case store_instr L g target (idx \<noteq> None) of
        None \<Rightarrow> []
      | Some st \<Rightarrow>
          (let ci = (case idx of None \<Rightarrow> [] | Some i \<Rightarrow> expr_code L g pc i)
           in ci @ expr_code L g (pc + length ci) v @ [st]))"

fun stmt_code :: "local_env \<Rightarrow> global_env \<Rightarrow> nat \<Rightarrow> stmt \<Rightarrow> instruction list"
and stmts_code :: "local_env \<Rightarrow> global_env \<Rightarrow> nat \<Rightarrow> stmt list \<Rightarrow> instruction list"
where
  "stmt_code E g pc (S_VarDecl t name init sz sp) = decl_code E g pc name init sz"
| "stmt_code E g pc (S_Assign target idx v sp) = assign_code (fst E) g pc target idx v"
| "stmt_code E g pc (S_If cond th el sp) =
     (let cc = expr_code (fst E) g pc cond;
          ct = stmts_code E g (pc + length cc + 1) th;
          after_then = pc + length cc + 1 + length ct
      in case el of
           None \<Rightarrow> cc @ Instruction_new Op_JumpIfFalse (usize_as_i32 after_then) 0 # ct
         | Some ss \<Rightarrow>
             (let ce = stmts_code (bind_locals_list th E) g (after_then + 1) ss
              in cc @ Instruction_new Op_JumpIfFalse (usize_as_i32 (after_then + 1)) 0 #
                 ct @ Instruction_new Op_Jump (usize_as_i32 (after_then + 1 + length ce)) 0 # ce))"
| "stmt_code E g pc (S_While cond body sp) =
     (let cc = expr_code (fst E) g pc cond;
          cb = stmts_code E g (pc + length cc + 1) body
      in cc @ Instruction_new Op_JumpIfFalse (usize_as_i32 (pc + length cc + 1 + length cb + 1)) 0 #
         cb @ [Instruction_new Op_Jump (usize_as_i32 pc) 0])"
| "stmt_code E g pc (S_Return v sp) = expr_code (fst E) g pc v @ [Instruction_new Op_Return 0 0]"
| "stmt_code E g pc (S_Print v sp) = expr_code (fst E) g pc v @ [Instruction_new Op_Print 0 0]"
| "stmt_code E g pc (S_ExprStmt e sp) = expr_code (fst E) g pc e @ [Instruction_new Op_Pop 0 0]"
| "stmts_code E g pc [] = []"
| "stmts_code E g pc (s # ss) =
     (let cs = stmt_code E g pc s in cs @ stmts_code (bind_locals s E) g (pc + length cs) ss)"

section \<open>The compiler appends this code\<close>

abbreviation pc_of :: "compiler \<Rightarrow> nat" where "pc_of c \<equiv> length (c_instructions c)"

definition local_env :: "compiler \<Rightarrow> local_env" where
  "local_env c = (map_of (c_locals c), c_next_local c)"

definition global_env :: "compiler \<Rightarrow> global_env" where
  "global_env c = (map_of (c_globals c), map_of (c_func_ids c))"

definition append_code :: "instruction list \<Rightarrow> compiler \<Rightarrow> compiler" where
  "append_code is c = c\<lparr>c_instructions := c_instructions c @ is\<rparr>"

lemma append_code_simps [simp]:
  "c_instructions (append_code is c) = c_instructions c @ is" "c_locals (append_code is c) = c_locals c"
  "c_next_local (append_code is c) = c_next_local c" "c_globals (append_code is c) = c_globals c"
  "c_func_ids (append_code is c) = c_func_ids c" "append_code [] c = c"
  "append_code js (append_code is c) = append_code (is @ js) c"
  "global_env (append_code is c) = global_env c" "local_env (append_code is c) = local_env c"
  by (simp_all add: append_code_def global_env_def local_env_def)

lemma emit_append [simp]: "emit op a b c = append_code [Instruction_new op a b] c"
  by (simp add: emit_def append_code_def)

lemma emit_simple_append [simp]: "emit_simple op c = append_code [Instruction_new op 0 0] c"
  by (simp add: emit_simple_def)

lemma current_pc_append [simp]: "current_pc (append_code is c) = current_pc c + length is"
  by (simp add: current_pc_def)

lemma current_pc_patch [simp]: "current_pc (patch i a c) = current_pc c"
  by (simp add: patch_def current_pc_def)

lemma patch_append:
  "i = current_pc c + length xs \<Longrightarrow>
     patch i a (append_code (xs @ y # ys) c) = append_code (xs @ y\<lparr>arg1 := a\<rparr> # ys) c"
  by (simp add: patch_def append_code_def current_pc_def list_update_append)

lemma arg1_new [simp]: "(Instruction_new op a b)\<lparr>arg1 := x\<rparr> = Instruction_new op x b"
  by (simp add: Instruction_new_def)

lemma emit_load_append: "emit_load name c = append_code (load_code (map_of (c_locals c)) (global_env c) name) c"
  by (simp add: emit_load_def load_code_def global_env_def split: option.split)

lemma emit_array_load_append:
  "emit_array_load name c = append_code (array_load_code (map_of (c_locals c)) (global_env c) name) c"
  by (simp add: emit_array_load_def array_load_code_def global_env_def split: option.split)

lemma index_map_Inr: "index_map m k c = (Inr v, d) \<longleftrightarrow> map_of m k = Some v \<and> d = c"
  by (auto simp: index_map_def split: option.split)

lemma compiled_ok_Inr: "compiled_ok c = (Inr u, d) \<longleftrightarrow> d = c"
  by (auto simp: compiled_ok_def)

lemma short_circuit_append:
  assumes "n = length xs" "length js = m"
  shows "finish_short_circuit (current_pc c + n) v (append_code (xs @ Instruction_new op 0 0 # js) c) =
    append_code (xs @ Instruction_new op (usize_as_i32 (current_pc c + n + 1 + m + 3)) 0 # js @
      [Instruction_new Op_LoadConst 0 0, Instruction_new Op_Ne 0 0,
       Instruction_new Op_Jump (usize_as_i32 (current_pc c + n + 1 + m + 4)) 0, Instruction_new Op_LoadConst v 0]) c"
proof -
  let ?ret = "[Instruction_new Op_LoadConst 0 0, Instruction_new Op_Ne 0 0]"
  let ?short = "usize_as_i32 (current_pc c + n + 1 + m + 3)"
  have "patch (current_pc c + n) ?short (append_code (xs @ Instruction_new op 0 0 # js @ ?ret @ [Instruction_new Op_Jump 0 0]) c) =
      append_code (xs @ Instruction_new op ?short 0 # js @ ?ret @ [Instruction_new Op_Jump 0 0]) c"
    by (subst patch_append) (simp_all add: assms)
  moreover have "finish_short_circuit (current_pc c + n) v (append_code (xs @ Instruction_new op 0 0 # js) c) =
      patch (current_pc c + n + 1 + m + 2) (usize_as_i32 (current_pc c + n + 1 + m + 4))
        (append_code [Instruction_new Op_LoadConst v 0] (patch (current_pc c + n) ?short
          (append_code (xs @ Instruction_new op 0 0 # js @ ?ret @ [Instruction_new Op_Jump 0 0]) c)))"
    unfolding finish_short_circuit_def Let_def
    by (simp add: assms algebra_simps eval_nat_numeral)
  moreover have "patch (current_pc c + n + 1 + m + 2) a
      (append_code ((xs @ J # js @ ?ret) @ Instruction_new Op_Jump 0 0 # k) c) =
      append_code ((xs @ J # js @ ?ret) @ Instruction_new Op_Jump a 0 # k) c" for a k J
    by (subst patch_append) (simp_all add: assms)
  ultimately show ?thesis
    by simp
qed

lemma compile_expr_append:
  "compile_expr e c = (Inr u, d) \<Longrightarrow> d = append_code (expr_code (map_of (c_locals c)) (global_env c) (pc_of c) e) c"
  "compile_args es c = (Inr u, d) \<Longrightarrow> d = append_code (args_code (map_of (c_locals c)) (global_env c) (pc_of c) es) c"
proof (induction e c and es c arbitrary: u d and u d rule: compile_expr_compile_args.induct)
  case (4 op l r sp c)
  let ?L = "map_of (c_locals c)" and ?g = "global_env c"
  let ?cl = "expr_code ?L ?g (pc_of c) l"
  show ?case
  proof (cases "op = Bin_And \<or> op = Bin_Or")
    case True
    let ?J = "if op = Bin_And then Op_JumpIfFalse else Op_JumpIfTrue"
    let ?cr = "expr_code ?L ?g (pc_of c + length ?cl + 1) r"
    from True "4.prems" obtain c1 c2 where
      c1: "compile_expr l c = (Inr (), c1)" and
      c2: "compile_expr r (append_code [Instruction_new ?J 0 0] c1) = (Inr (), c2)" and
      d: "d = finish_short_circuit (current_pc c1) (if op = Bin_And then 0 else 1) c2"
      by (auto simp: bnd_Inr_conv Let_def compiled_ok_Inr)
    from "4.IH"(1) [OF True c1] have e1: "c1 = append_code ?cl c" .
    from "4.IH"(2) [OF True refl, of c1] c2 have "c2 = append_code (?cl @ Instruction_new ?J 0 0 # ?cr) c"
      by (simp add: e1)
    with d True short_circuit_append [OF refl refl, where c = c and xs = ?cl and js = ?cr and op = ?J] show ?thesis
      by (simp add: e1 Let_def current_pc_def eval_nat_numeral)
  next
    case False
    with "4.prems" obtain c1 c2 where
      c1: "compile_expr l c = (Inr (), c1)" and c2: "compile_expr r c1 = (Inr (), c2)" and
      d: "d = append_code [Instruction_new (binary_opcode op) 0 0] c2"
      by (auto simp: bnd_Inr_conv Let_def compiled_ok_Inr)
    from False "4.IH"(3) [OF False c1] "4.IH"(4) [OF False c2] d show ?thesis by (simp add: Let_def)
  qed
next
  case (6 name args sp c)
  then show ?case
    by (fastforce simp: bnd_Inr_conv compiled_ok_Inr index_map_Inr global_env_def)
qed (fastforce simp: bnd_Inr_conv compiled_ok_Inr Let_def emit_load_append emit_array_load_append)+

section \<open>Statements\<close>

lemma local_env_simps [simp]: "fst (local_env c) = map_of (c_locals c)" "snd (local_env c) = c_next_local c"
  by (simp_all add: local_env_def)

lemma declare_local_env: "local_env (declare_local name sz c) = bind_local name sz (local_env c)"
  by (auto simp: declare_local_def bind_local_def local_env_def update_conv')

lemma declare_local_same [simp]:
  "c_instructions (declare_local name sz c) = c_instructions c" "global_env (declare_local name sz c) = global_env c"
  by (simp_all add: declare_local_def global_env_def)

text \<open>A state after code was appended and locals were bound: everything else is unchanged.\<close>

definition extends :: "instruction list \<Rightarrow> local_env \<Rightarrow> compiler \<Rightarrow> compiler \<Rightarrow> bool" where
  "extends is E c d \<longleftrightarrow> c_instructions d = c_instructions c @ is \<and> local_env d = E \<and>
     c_functions d = c_functions c \<and> c_globals d = c_globals c \<and> c_func_ids d = c_func_ids c \<and>
     c_next_global d = c_next_global c \<and> c_next_func d = c_next_func c \<and> c_main d = c_main c \<and>
     c_constants d = c_constants c"

lemma extends_append: "d = append_code is c \<Longrightarrow> extends is (local_env c) c d"
  by (simp add: extends_def append_code_def local_env_def)

lemma extends_code_trans:
  "extends is E c d \<Longrightarrow> extends js E' d e \<Longrightarrow> extends (is @ js) E' c e"
  by (simp add: extends_def)

lemma extends_global_env: "extends is E c d \<Longrightarrow> global_env d = global_env c"
  by (simp add: extends_def global_env_def)

lemma extends_code: "extends is E c d \<Longrightarrow> extends (is @ js) E c (append_code js d)"
  by (simp add: extends_def) (simp add: append_code_def)

lemma extends_patch:
  "extends (xs @ y # ys) E c d \<Longrightarrow> i = pc_of c + length xs \<Longrightarrow> extends (xs @ y\<lparr>arg1 := a\<rparr> # ys) E c (patch i a d)"
  by (simp add: extends_def patch_def local_env_def list_update_append)

lemma extends_pc: "extends is E c d \<Longrightarrow> pc_of d = pc_of c + length is"
  by (simp add: extends_def)

lemma extends_local_env: "extends is E c d \<Longrightarrow> local_env d = E"
  by (simp add: extends_def)

lemma extends_locals: "extends is E c d \<Longrightarrow> map_of (c_locals d) = fst E"
  by (auto simp: extends_def local_env_def)

lemma expr_extends:
  "compile_expr e c = (Inr u, d) \<Longrightarrow>
     extends (expr_code (map_of (c_locals c)) (global_env c) (pc_of c) e) (local_env c) c d"
  by (rule extends_append) (rule compile_expr_append)

lemma bind_local_Some: "\<exists>l. fst (bind_local name sz E) name = Some l"
  by (auto simp: bind_local_def)

lemma compile_decl_extends:
  assumes "compile_decl name init sz c = (Inr u, d)"
  shows "extends (decl_code (local_env c) (global_env c) (pc_of c) name init sz) (bind_local name sz (local_env c)) c d"
proof -
  let ?c = "declare_local name sz c"
  obtain l where l: "fst (bind_local name sz (local_env c)) name = Some l" using bind_local_Some by blast
  have "map_of (c_locals ?c) = fst (local_env ?c)" by simp
  then have L: "map_of (c_locals ?c) = fst (bind_local name sz (local_env c))" by (simp only: declare_local_env)
  have start: "extends [] (bind_local name sz (local_env c)) c ?c"
    by (simp add: extends_def declare_local_env) (simp add: declare_local_def)
  show ?thesis
  proof (cases "lv_is_array l \<or> init = None")
    case True
    with assms l L show ?thesis
      by (auto simp: compile_decl_def bnd_Inr_conv index_map_Inr compiled_ok_Inr Let_def decl_code_def store_local_def
          intro: start extends_code [OF start, simplified] split: if_splits option.splits)
  next
    case False
    then obtain e where e: "init = Some e" by auto
    with False assms l L obtain c1 where c1: "compile_expr e ?c = (Inr (), c1)" and d: "d = append_code [store_local l] c1"
      by (auto simp: compile_decl_def bnd_Inr_conv index_map_Inr compiled_ok_Inr Let_def store_local_def)
    from extends_code_trans [OF start expr_extends [OF c1]] have "extends (expr_code (fst (bind_local name sz (local_env c)))
        (global_env c) (pc_of c) e) (bind_local name sz (local_env c)) c c1"
      by (simp add: L declare_local_env)
    from extends_code [OF this] False e l d show ?thesis by (simp add: decl_code_def Let_def)
  qed
qed

lemma compile_assign_store:
  "compile_assign target idx v c =
     (case store_instr (map_of (c_locals c)) (global_env c) target (idx \<noteq> None) of
        None \<Rightarrow> compiled_ok c
      | Some st \<Rightarrow>
          bnd (case idx of None \<Rightarrow> compiled_ok c | Some i \<Rightarrow> compile_expr i c) (\<lambda>_ c.
          bnd (compile_expr v c) (\<lambda>_ c. compiled_ok (append_code [st] c))))"
  by (simp add: compile_assign_def store_instr_def store_local_def global_env_def compiled_ok_def split: option.split)

lemma extends_code_refl: "extends [] (local_env c) c c"
  by (simp add: extends_def)

lemma compile_assign_extends:
  assumes "compile_assign target idx v c = (Inr u, d)"
  shows "extends (assign_code (map_of (c_locals c)) (global_env c) (pc_of c) target idx v) (local_env c) c d"
proof (cases "store_instr (map_of (c_locals c)) (global_env c) target (idx \<noteq> None)")
  case None
  with assms have "d = c" by (simp add: compile_assign_store compiled_ok_Inr)
  with None show ?thesis by (simp add: assign_code_def extends_code_refl)
next
  case (Some st)
  let ?ci = "case idx of None \<Rightarrow> [] | Some i \<Rightarrow> expr_code (map_of (c_locals c)) (global_env c) (pc_of c) i"
  from Some assms obtain c1 c2 where
    c1: "(case idx of None \<Rightarrow> compiled_ok c | Some e \<Rightarrow> compile_expr e c) = (Inr (), c1)"
    and c2: "compile_expr v c1 = (Inr (), c2)" and d: "d = append_code [st] c2"
    by (auto simp: compile_assign_store bnd_Inr_conv compiled_ok_Inr)
  have e1: "extends ?ci (local_env c) c c1"
    using c1 expr_extends extends_code_refl [of c] by (cases idx) (auto simp: compiled_ok_Inr)
  from extends_code [OF extends_code_trans [OF e1 expr_extends [OF c2]], of "[st]"] show ?thesis
    using Some d extends_local_env [OF e1]
    by (simp add: assign_code_def Let_def extends_locals [OF e1] extends_pc [OF e1] extends_global_env [OF e1])
qed

lemma compile_stmt_extends:
  "compile_stmt st c = (Inr u, d) \<Longrightarrow>
     extends (stmt_code (local_env c) (global_env c) (pc_of c) st) (bind_locals st (local_env c)) c d"
  "compile_stmts ss c = (Inr u, d) \<Longrightarrow>
     extends (stmts_code (local_env c) (global_env c) (pc_of c) ss) (bind_locals_list ss (local_env c)) c d"
proof (induction st c and ss c arbitrary: u d and u d rule: compile_stmt_compile_stmts.induct)
  case 1 then show ?case by (simp add: compile_decl_extends)
next
  case 2 then show ?case using compile_assign_extends by simp
next
  case (3 cond th el sp c)
  let ?E = "local_env c" and ?g = "global_env c"
  let ?cc = "expr_code (map_of (c_locals c)) ?g (pc_of c) cond"
  let ?jf = "\<lambda>a. Instruction_new Op_JumpIfFalse a 0" and ?j = "\<lambda>a. Instruction_new Op_Jump a 0"
  let ?ct = "stmts_code ?E ?g (pc_of c + length ?cc + 1) th"
  from "3.prems" obtain c1 c2 where c1: "compile_expr cond c = (Inr (), c1)"
    and c2: "compile_stmts th (append_code [?jf 0] c1) = (Inr (), c2)"
    and d: "(case el of
       Some ss \<Rightarrow>
         (let jump_to_end = current_pc c2 in
          bnd (compile_stmts ss (patch_here (current_pc c1) (emit Op_Jump 0 0 c2))) (\<lambda>_ c.
          compiled_ok (patch_here jump_to_end c)))
     | None \<Rightarrow> compiled_ok (patch_here (current_pc c1) c2)) = (Inr u, d)"
    by (auto simp: bnd_Inr_conv) (auto simp: Let_def bnd_Inr_conv)
  note e0 = expr_extends [OF c1]
  note e1 = extends_code [OF e0, of "[?jf 0]"]
  have e2: "extends (?cc @ ?jf 0 # ?ct) (bind_locals_list th ?E) c c2"
    using extends_code_trans [OF e1 "3.IH"(1) [OF refl c2 [folded emit_append], unfolded emit_append]]
    by (simp add: extends_local_env [OF e0] extends_pc [OF e0] extends_global_env [OF e0])
  note p1 = extends_pc [OF e0] and p2 = extends_pc [OF e2]
  show ?case
  proof (cases el)
    case None
    with d extends_patch [OF e2, of "current_pc c1" "usize_as_i32 (current_pc c2)"] show ?thesis
      by (simp add: compiled_ok_Inr patch_here_def current_pc_def p1 p2 Let_def algebra_simps)
  next
    case (Some ss)
    let ?after = "pc_of c + length ?cc + 1 + length ?ct + 1"
    let ?c2 = "patch_here (current_pc c1) (append_code [?j 0] c2)"
    let ?ce = "stmts_code (bind_locals_list th ?E) ?g ?after ss"
    from Some d obtain c3 where c3: "compile_stmts ss ?c2 = (Inr (), c3)" and d: "d = patch_here (current_pc c2) c3"
      by (auto simp: bnd_Inr_conv compiled_ok_Inr)
    have e3: "extends (?cc @ ?jf (usize_as_i32 ?after) # ?ct @ [?j 0]) (bind_locals_list th ?E) c ?c2"
      using extends_patch [OF extends_code [OF e2, of "[?j 0]", simplified], of "current_pc c1" "usize_as_i32 ?after"]
      by (simp add: patch_here_def current_pc_def p1 p2 add.assoc)
    have e4: "extends (?cc @ ?jf (usize_as_i32 ?after) # ?ct @ ?j 0 # ?ce)
        (bind_locals_list ss (bind_locals_list th ?E)) c c3"
      using extends_code_trans [OF e3 "3.IH"(2) [OF refl Some refl c3 [folded emit_append], unfolded emit_append]]
      by (simp add: extends_local_env [OF e3] extends_pc [OF e3] extends_global_env [OF e3] add.assoc)
    have "extends ((?cc @ ?jf (usize_as_i32 ?after) # ?ct) @ ?j (usize_as_i32 (current_pc c3)) # ?ce)
        (bind_locals_list ss (bind_locals_list th ?E)) c d"
      unfolding d patch_here_def
      using extends_patch [of "?cc @ ?jf (usize_as_i32 ?after) # ?ct" "?j 0" ?ce _ c c3 "current_pc c2"] e4
      by (simp add: current_pc_def p2)
    with Some show ?thesis
      by (simp add: current_pc_def extends_pc [OF e4] Let_def add.assoc)
  qed
next
  case (4 cond body sp c)
  let ?E = "local_env c" and ?g = "global_env c"
  let ?cc = "expr_code (map_of (c_locals c)) ?g (pc_of c) cond"
  let ?jf = "\<lambda>a. Instruction_new Op_JumpIfFalse a 0" and ?j = "\<lambda>a. Instruction_new Op_Jump a 0"
  let ?cb = "stmts_code ?E ?g (pc_of c + length ?cc + 1) body"
  from "4.prems" obtain c1 c2 where c1: "compile_expr cond c = (Inr (), c1)"
    and c2: "compile_stmts body (append_code [?jf 0] c1) = (Inr (), c2)"
    and d: "d = patch_here (current_pc c1) (append_code [?j (usize_as_i32 (pc_of c))] c2)"
    by (auto simp: bnd_Inr_conv Let_def compiled_ok_Inr current_pc_def)
  note e0 = expr_extends [OF c1]
  note e1 = extends_code [OF e0, of "[?jf 0]"]
  have e2: "extends (?cc @ ?jf 0 # ?cb) (bind_locals_list body ?E) c c2"
    using extends_code_trans [OF e1 "4.IH"(1) [OF refl refl c2 [folded emit_append], unfolded emit_append]]
    by (simp add: extends_local_env [OF e0] extends_pc [OF e0] extends_global_env [OF e0])
  from extends_patch [OF extends_code [OF e2, of "[?j (usize_as_i32 (pc_of c))]", simplified], of "current_pc c1"
      "usize_as_i32 (current_pc c2 + 1)"] d
  show ?case
    by (simp add: patch_here_def current_pc_def extends_pc [OF e0] extends_pc [OF e2] Let_def algebra_simps)
next
  case (5 v sp c)
  then show ?case
    by (auto simp: bnd_Inr_conv compiled_ok_Inr intro: extends_code expr_extends)
next
  case (6 v sp c)
  then show ?case
    by (auto simp: bnd_Inr_conv compiled_ok_Inr intro: extends_code expr_extends)
next
  case (7 e sp c)
  then show ?case
    by (auto simp: bnd_Inr_conv compiled_ok_Inr intro: extends_code expr_extends)
next
  case (8 c)
  then show ?case by (simp add: compiled_ok_Inr extends_code_refl)
next
  case (9 s ss c)
  from "9.prems" obtain c1 where c1: "compile_stmt s c = (Inr (), c1)" and c2: "compile_stmts ss c1 = (Inr (), d)"
    by (auto simp: bnd_Inr_conv)
  note e1 = "9.IH"(1) [OF c1]
  from extends_code_trans [OF e1 "9.IH"(2) [OF c2]] show ?case
    by (simp add: Let_def extends_local_env [OF e1] extends_pc [OF e1] extends_global_env [OF e1])
qed

section \<open>Functions\<close>

definition param_locals :: "param list \<Rightarrow> local_env \<Rightarrow> local_env" where
  "param_locals ps E = fold (\<lambda>x E. ((fst E)(par_name x \<mapsto>
     \<lparr>lv_slot = snd E, lv_is_array = False, lv_array_size = 0\<rparr>), snd E + 1)) ps E"

definition param_env :: "func \<Rightarrow> local_env" where
  "param_env f = param_locals (fn_params f) (\<lambda>_. None, 0)"

text \<open>The frame of a function: a slot for every name.\<close>

definition frame_env :: "func \<Rightarrow> local_env" where
  "frame_env f = bind_locals_list (fn_body f) (param_env f)"

fun init_code :: "(string \<Rightarrow> local_var option) \<Rightarrow> global_env \<Rightarrow> nat \<Rightarrow> global_var list \<Rightarrow> instruction list" where
  "init_code L g pc [] = []"
| "init_code L g pc (x # xs) =
     (case gv_init x of
        None \<Rightarrow> init_code L g pc xs
      | Some e \<Rightarrow>
          (let ce = expr_code L g pc e @
                 [Instruction_new Op_StoreGlobal (usize_as_i32 (gi_slot (the (fst g (gv_name x))))) 0]
           in ce @ init_code L g (pc + length ce) xs))"

definition prologue_code :: "global_var list \<Rightarrow> global_env \<Rightarrow> nat \<Rightarrow> func \<Rightarrow> instruction list" where
  "prologue_code gs g pc f = (if fn_name f = ''main'' then init_code (fst (param_env f)) g pc gs else [])"

definition function_code :: "global_var list \<Rightarrow> global_env \<Rightarrow> nat \<Rightarrow> func \<Rightarrow> instruction list" where
  "function_code gs g pc f =
     (let cp = prologue_code gs g pc f
      in cp @ stmts_code (param_env f) g (pc + length cp) (fn_body f) @
         [Instruction_new Op_LoadConst 0 0, Instruction_new Op_Return 0 0])"

lemma collect_local_env: "local_env (collect_local_decls ss c) = bind_locals_list ss (local_env c)"
proof (induction ss c rule: collect_local_decls.induct)
  case (3 cond th el sp ss c)
  then show ?case by (cases el) (simp_all add: Let_def)
qed (simp_all add: declare_local_env)

text \<open>A name keeps the slot it got; new names get the slots from the next free one on.\<close>

definition slots_below :: "local_env \<Rightarrow> bool" where
  "slots_below E \<longleftrightarrow> (\<forall>n l. fst E n = Some l \<longrightarrow> lv_slot l < snd E)"

definition env_le :: "local_env \<Rightarrow> local_env \<Rightarrow> bool" where
  "env_le E E' \<longleftrightarrow> snd E \<le> snd E' \<and> (\<forall>n l. fst E n = Some l \<longrightarrow> fst E' n = Some l) \<and>
     (\<forall>n l. fst E n = None \<longrightarrow> fst E' n = Some l \<longrightarrow> snd E \<le> lv_slot l)"

lemma env_le_refl [simp]: "env_le E E"
  by (simp add: env_le_def)

lemma env_le_trans [trans]: "env_le E E' \<Longrightarrow> env_le E' E'' \<Longrightarrow> env_le E E''"
proof -
  assume a: "env_le E E'" and b: "env_le E' E''"
  have "snd E \<le> lv_slot l" if "fst E n = None" "fst E'' n = Some l" for n l
    using that a b unfolding env_le_def by (cases "fst E' n") (force, force)
  with a b show ?thesis unfolding env_le_def by auto
qed

lemma bind_local_le: "env_le E (bind_local n sz E)"
  by (auto simp: env_le_def bind_local_def)

lemma bind_locals_le: "env_le E (bind_locals st E)" "env_le E (bind_locals_list ss E)"
proof (induction st E and ss E rule: bind_locals_bind_locals_list.induct)
  case (2 cond th el sp E)
  then show ?case by (cases "bind_locals_list th E"; cases el) (auto intro: env_le_trans)
qed (auto simp: bind_local_le intro: env_le_trans)

subsection \<open>The locals of a function\<close>

lemma local_env_eqI: "local_env c = E \<longleftrightarrow> map_of (c_locals c) = fst E \<and> c_next_local c = snd E"
  by (auto simp: local_env_def)

lemma add_param_env:
  "local_env (fold add_param ps c) = param_locals ps (local_env c)"
  by (induction ps arbitrary: c) (simp_all add: param_locals_def add_param_def local_env_def update_conv')

lemma param_locals_slots:
  "slots_below E \<Longrightarrow> slots_below (param_locals ps E) \<and> snd (param_locals ps E) = snd E + length ps"
proof (induction ps arbitrary: E)
  case (Cons x ps)
  let ?E = "((fst E)(par_name x \<mapsto> \<lparr>lv_slot = snd E, lv_is_array = False, lv_array_size = 0\<rparr>), snd E + 1)"
  from Cons.prems have "slots_below ?E" by (force simp: slots_below_def)
  from Cons.IH [OF this] show ?case by (simp add: param_locals_def)
qed (simp add: param_locals_def)

lemma param_env_slots: "slots_below (param_env f)" "snd (param_env f) = length (fn_params f)"
proof -
  have "slots_below (\<lambda>_. None, 0)" by (simp add: slots_below_def)
  from param_locals_slots [OF this, of "fn_params f"]
  show "slots_below (param_env f)" "snd (param_env f) = length (fn_params f)" by (simp_all add: param_env_def)
qed

definition same_tables :: "compiler \<Rightarrow> compiler \<Rightarrow> bool" where
  "same_tables c d \<longleftrightarrow> c_globals d = c_globals c \<and> c_func_ids d = c_func_ids c \<and>
     c_next_global d = c_next_global c \<and> c_next_func d = c_next_func c \<and> c_main d = c_main c \<and>
     c_constants d = c_constants c"

definition same_code :: "compiler \<Rightarrow> compiler \<Rightarrow> bool" where
  "same_code c d \<longleftrightarrow> same_tables c d \<and> c_instructions d = c_instructions c \<and> c_functions d = c_functions c"

lemma same_code_refl [simp]: "same_code c c"
  by (simp add: same_code_def same_tables_def)

lemma add_params_same: "same_code c (fold add_param ps c)"
  by (induction ps arbitrary: c) (force simp: same_code_def same_tables_def add_param_def)+

lemma declare_local_same_code: "same_code c (declare_local n sz c)"
  by (simp add: same_code_def same_tables_def declare_local_def)

lemma same_code_trans: "same_code c d \<Longrightarrow> same_code d e \<Longrightarrow> same_code c e"
  by (simp add: same_code_def same_tables_def)

lemma collect_same_code: "same_code c (collect_local_decls ss c)"
proof (induction ss c rule: collect_local_decls.induct)
  case (3 cond th el sp ss c)
  then show ?case by (cases el) (simp_all add: Let_def, (meson same_code_trans)+)
qed (auto simp: Let_def intro: declare_local_same_code same_code_trans)

lemma distinct_keys:
  "distinct (map fst (c_locals c)) \<Longrightarrow> distinct (map fst (c_locals (fold add_param ps c)))"
  "distinct (map fst (c_locals c)) \<Longrightarrow> distinct (map fst (c_locals (collect_local_decls ss c)))"
proof -
  show "distinct (map fst (c_locals c)) \<Longrightarrow> distinct (map fst (c_locals (fold add_param ps c)))"
    by (induction ps arbitrary: c) (simp_all add: add_param_def distinct_update)
  show "distinct (map fst (c_locals c)) \<Longrightarrow> distinct (map fst (c_locals (collect_local_decls ss c)))"
  proof (induction ss c rule: collect_local_decls.induct)
    case (3 cond th el sp ss c)
    then show ?case by (cases el) (simp_all add: Let_def)
  qed (simp_all add: Let_def declare_local_def distinct_update)
qed

lemma map_of_filter_snd:
  "distinct (map fst xs) \<Longrightarrow>
     map_of (filter (\<lambda>e. P (snd e)) xs) k = (case map_of xs k of None \<Rightarrow> None | Some v \<Rightarrow> if P v then Some v else None)"
  by (induction xs) (auto split: option.split simp: map_of_eq_None_iff)

lemma restricted_locals:
  assumes E: "env_le E (local_env c)" and slots: "slots_below E" and keys: "distinct (map fst (c_locals c))"
  shows "map_of (filter (\<lambda>e. lv_slot (snd e) < snd E) (c_locals c)) = fst E"
proof
  fix n
  note m = map_of_filter_snd [OF keys, of "\<lambda>l. lv_slot l < snd E" n]
  show "map_of (filter (\<lambda>e. lv_slot (snd e) < snd E) (c_locals c)) n = fst E n"
  proof (cases "fst E n")
    case None
    with E have "snd E \<le> lv_slot l" if "map_of (c_locals c) n = Some l" for l
      using that by (simp add: env_le_def)
    with None show ?thesis by (simp add: m split: option.split) (meson not_le)
  next
    case (Some l)
    with E slots show ?thesis by (simp add: m env_le_def slots_below_def)
  qed
qed

text \<open>The locals while the body of a function is compiled, before its first statement.\<close>

definition enter_body :: "func \<Rightarrow> compiler \<Rightarrow> compiler" where
  "enter_body f c =
     (let c = collect_local_decls (fn_body f) (fold add_param (fn_params f) (c\<lparr>c_locals := [], c_next_local := 0\<rparr>))
      in c\<lparr>c_next_local := length (fn_params f),
           c_locals := filter (\<lambda>e. lv_slot (snd e) < length (fn_params f)) (c_locals c)\<rparr>)"

lemma enter_body_env: "local_env (enter_body f c) = param_env f"
proof -
  let ?c = "fold add_param (fn_params f) (c\<lparr>c_locals := [], c_next_local := 0\<rparr>)"
  have p: "local_env ?c = param_env f"
    by (simp add: add_param_env param_env_def) (simp add: local_env_def)
  have "env_le (param_env f) (local_env (collect_local_decls (fn_body f) ?c))"
    by (simp add: collect_local_env p bind_locals_le)
  from restricted_locals [OF this param_env_slots(1)] show ?thesis
    by (simp add: enter_body_def Let_def local_env_def param_env_slots distinct_keys prod_eq_iff)
qed

lemma collected_slots:
  "c_next_local (collect_local_decls (fn_body f) (fold add_param (fn_params f) (c\<lparr>c_locals := [], c_next_local := 0\<rparr>))) =
     snd (frame_env f)"
proof -
  let ?c = "fold add_param (fn_params f) (c\<lparr>c_locals := [], c_next_local := 0\<rparr>)"
  have p: "local_env ?c = param_env f"
    by (simp add: add_param_env param_env_def) (simp add: local_env_def)
  have "local_env (collect_local_decls (fn_body f) ?c) = frame_env f"
    by (simp add: collect_local_env p frame_env_def)
  then show ?thesis by (metis local_env_simps(2))
qed

lemma enter_body_same: "same_code c (enter_body f c)"
proof -
  have "same_code c (c\<lparr>c_locals := [], c_next_local := 0\<rparr>)" by (simp add: same_code_def same_tables_def)
  from same_code_trans [OF same_code_trans [OF this add_params_same] collect_same_code] show ?thesis
    by (simp add: enter_body_def Let_def same_code_def same_tables_def)
qed

subsection \<open>The code of a function\<close>

lemma compile_inits_extends:
  "compile_global_inits gs c = (Inr u, d) \<Longrightarrow>
     extends (init_code (map_of (c_locals c)) (global_env c) (pc_of c) gs) (local_env c) c d"
proof (induction gs arbitrary: c)
  case (Cons x gs)
  show ?case
  proof (cases "gv_init x")
    case None
    with Cons show ?thesis by simp
  next
    case (Some e)
    with Cons.prems obtain c1 i where c1: "compile_expr e c = (Inr (), c1)"
      and i: "map_of (c_globals c1) (gv_name x) = Some i"
      and d: "compile_global_inits gs (append_code [Instruction_new Op_StoreGlobal (usize_as_i32 (gi_slot i)) 0] c1) = (Inr u, d)"
      by (auto simp: bnd_Inr_conv index_map_Inr)
    note e1 = expr_extends [OF c1]
    have g: "fst (global_env c) (gv_name x) = Some i"
      using i extends_global_env [OF e1] by (simp add: global_env_def)
    note e2 = extends_code [OF e1, of "[Instruction_new Op_StoreGlobal (usize_as_i32 (gi_slot i)) 0]"]
    from extends_code_trans [OF e2 Cons.IH [OF d]] Some show ?thesis
      by (simp add: Let_def extends_locals [OF e1] extends_global_env [OF e1] extends_local_env [OF e1] g extends_pc [OF e1])
  qed
qed (simp add: compiled_ok_Inr extends_code_refl)

definition info_of :: "nat \<Rightarrow> nat \<Rightarrow> func \<Rightarrow> function_info" where
  "info_of i entry f =
     \<lparr>fi_name = fn_name f, fi_id = i, entry_pc = entry, param_count = length (fn_params f),
      local_count = snd (frame_env f)\<rparr>"

lemma compile_function_eq:
  "compile_function prog f c =
     bnd (index_map (c_func_ids c) (fn_name f) c) (\<lambda>func_id c.
     bnd (if fn_name f = ''main'' then compile_global_inits (p_globals prog) (enter_body f c)
          else compiled_ok (enter_body f c)) (\<lambda>_ d.
     bnd (compile_stmts (fn_body f) d) (\<lambda>_ d.
     compiled_ok ((append_code [Instruction_new Op_LoadConst 0 0, Instruction_new Op_Return 0 0] d)
       \<lparr>c_functions := AList.update func_id (info_of func_id (pc_of c) f) (c_functions d)\<rparr>))))"
  by (simp add: compile_function_def enter_body_def Let_def collected_slots info_of_def current_pc_def append_code_def
      cong: if_cong)

lemma compile_function_code:
  assumes ok: "compile_function prog f c = (Inr u, d)" and id: "map_of (c_func_ids c) (fn_name f) = Some i"
  shows "same_tables c d \<and>
    c_instructions d = c_instructions c @ function_code (p_globals prog) (global_env c) (pc_of c) f \<and>
    c_functions d = AList.update i (info_of i (pc_of c) f) (c_functions c)"
proof -
  let ?c = "enter_body f c"
  from ok id obtain c1 c2 where
    c1: "(if fn_name f = ''main'' then compile_global_inits (p_globals prog) ?c else compiled_ok ?c) = (Inr (), c1)"
    and c2: "compile_stmts (fn_body f) c1 = (Inr (), c2)"
    and d: "d = (append_code [Instruction_new Op_LoadConst 0 0, Instruction_new Op_Return 0 0] c2)
       \<lparr>c_functions := AList.update i (info_of i (pc_of c) f) (c_functions c2)\<rparr>"
    by (auto simp: compile_function_eq bnd_Inr_conv index_map_Inr compiled_ok_Inr)
  have same: "pc_of ?c = pc_of c" "global_env ?c = global_env c" "map_of (c_locals ?c) = fst (param_env f)"
    using enter_body_same [of c f] enter_body_env [of f c]
    by (simp_all add: same_code_def same_tables_def global_env_def local_env_eqI)
  have e1: "extends (prologue_code (p_globals prog) (global_env c) (pc_of c) f) (param_env f) ?c c1"
    using c1 compile_inits_extends [of "p_globals prog" ?c "()" c1] extends_code_refl [of ?c]
    by (auto simp: prologue_code_def same enter_body_env compiled_ok_Inr split: if_splits)
  from extends_code_trans [OF e1 compile_stmt_extends(2) [OF c2]]
  have "extends (prologue_code (p_globals prog) (global_env c) (pc_of c) f @
      stmts_code (param_env f) (global_env c) (pc_of c + length (prologue_code (p_globals prog) (global_env c) (pc_of c) f))
        (fn_body f)) (frame_env f) ?c c2"
    by (simp add: extends_local_env [OF e1] extends_global_env [OF e1] extends_pc [OF e1] same frame_env_def)
  then show ?thesis
    using enter_body_same [of c f]
    by (simp add: d function_code_def Let_def extends_def same_code_def same_tables_def append_code_def)
qed

text \<open>A program: the functions one after the other.\<close>

fun functions_code :: "global_var list \<Rightarrow> global_env \<Rightarrow> nat \<Rightarrow> func list \<Rightarrow> instruction list" where
  "functions_code gs g pc [] = []"
| "functions_code gs g pc (f # fs) =
     (let cf = function_code gs g pc f in cf @ functions_code gs g (pc + length cf) fs)"

fun function_table :: "global_var list \<Rightarrow> global_env \<Rightarrow> nat \<Rightarrow> nat \<Rightarrow> func list \<Rightarrow> (nat \<times> function_info) list" where
  "function_table gs g i pc [] = []"
| "function_table gs g i pc (f # fs) =
     (i, info_of i pc f) # function_table gs g (i + 1) (pc + length (function_code gs g pc f)) fs"

fun global_table :: "nat \<Rightarrow> global_var list \<Rightarrow> (string \<times> global_info) list" where
  "global_table slot [] = []"
| "global_table slot (g # gs) =
     (gv_name g,
      \<lparr>gi_name = gv_name g, gi_slot = slot, gi_is_array = (gv_array_size g \<noteq> None),
       gi_array_size = decl_size (gv_array_size g)\<rparr>) #
     global_table (slot + (case gv_array_size g of Some n \<Rightarrow> as_usize n | None \<Rightarrow> 1)) gs"

fun function_ids :: "nat \<Rightarrow> func list \<Rightarrow> (string \<times> nat) list" where
  "function_ids i [] = []"
| "function_ids i (f # fs) = (fn_name f, i) # function_ids (i + 1) fs"

definition program_env :: "program \<Rightarrow> global_env" where
  "program_env prog = (map_of (global_table 0 (p_globals prog)), map_of (function_ids 0 (p_functions prog)))"

definition direct_program :: "program \<Rightarrow> compiled_program" where
  "direct_program prog =
     \<lparr>instructions = functions_code (p_globals prog) (program_env prog) 0 (p_functions prog),
      prog_functions = function_table (p_globals prog) (program_env prog) 0 0 (p_functions prog),
      prog_globals = global_table 0 (p_globals prog),
      main_func_id = (case snd (program_env prog) ''main'' of None \<Rightarrow> 0 | Some i \<Rightarrow> i),
      prog_constants = []\<rparr>"

lemma update_fresh: "k \<notin> fst ` set xs \<Longrightarrow> AList.update k v xs = xs @ [(k, v)]"
  by (induction xs) auto

lemma function_ids_keys [simp]: "map fst (function_ids i fs) = map fn_name fs"
  by (induction fs arbitrary: i) auto

lemma global_table_keys [simp]: "map fst (global_table i gs) = map gv_name gs"
  by (induction gs arbitrary: i) auto

lemma collect_globals_table:
  "distinct (map gv_name gs) \<Longrightarrow> fst ` set (c_globals c) \<inter> gv_name ` set gs = {} \<Longrightarrow>
     \<exists>n. fold collect_global gs c = c\<lparr>c_globals := c_globals c @ global_table (c_next_global c) gs, c_next_global := n\<rparr>"
proof (induction gs arbitrary: c)
  case Nil
  show ?case by (rule exI [of _ "c_next_global c"]) simp
next
  case (Cons g gs)
  from Cons.prems have k: "gv_name g \<notin> fst ` set (c_globals c)" by auto
  let ?c = "collect_global g c"
  have c: "?c = c\<lparr>c_globals := c_globals c @ [(gv_name g,
      \<lparr>gi_name = gv_name g, gi_slot = c_next_global c, gi_is_array = (gv_array_size g \<noteq> None),
       gi_array_size = decl_size (gv_array_size g)\<rparr>)],
      c_next_global := c_next_global c + (case gv_array_size g of Some n \<Rightarrow> as_usize n | None \<Rightarrow> 1)\<rparr>"
    by (simp add: collect_global_def Let_def update_fresh [OF k] decl_size_def)
  have "fst ` set (c_globals ?c) \<inter> gv_name ` set gs = {}" using Cons.prems by (auto simp: c)
  with Cons.prems obtain n where "fold collect_global gs ?c =
      ?c\<lparr>c_globals := c_globals ?c @ global_table (c_next_global ?c) gs, c_next_global := n\<rparr>"
    using Cons.IH [of ?c] by auto
  then show ?case by (auto simp: c)
qed

lemma register_functions_ids:
  "distinct (map fn_name fs) \<Longrightarrow> fst ` set (c_func_ids c) \<inter> fn_name ` set fs = {} \<Longrightarrow>
     \<exists>n. fold register_function fs c = c\<lparr>c_func_ids := c_func_ids c @ function_ids (c_next_func c) fs, c_next_func := n,
       c_main := (case map_of (function_ids (c_next_func c) fs) ''main'' of None \<Rightarrow> c_main c | Some i \<Rightarrow> Some i)\<rparr>"
proof (induction fs arbitrary: c)
  case Nil
  show ?case by (rule exI [of _ "c_next_func c"]) simp
next
  case (Cons f fs)
  from Cons.prems have k: "fn_name f \<notin> fst ` set (c_func_ids c)" by auto
  let ?c = "register_function f c"
  have c: "?c = c\<lparr>c_func_ids := c_func_ids c @ [(fn_name f, c_next_func c)], c_next_func := c_next_func c + 1,
      c_main := (if fn_name f = ''main'' then Some (c_next_func c) else c_main c)\<rparr>"
    by (simp add: register_function_def Let_def update_fresh [OF k])
  have "fst ` set (c_func_ids ?c) \<inter> fn_name ` set fs = {}" using Cons.prems by (auto simp: c)
  with Cons.prems obtain n where "fold register_function fs ?c = ?c\<lparr>c_func_ids := c_func_ids ?c @ function_ids (c_next_func ?c) fs,
      c_next_func := n, c_main := (case map_of (function_ids (c_next_func ?c) fs) ''main'' of None \<Rightarrow> c_main ?c | Some i \<Rightarrow> Some i)\<rparr>"
    using Cons.IH [of ?c] by auto
  moreover have "map_of (function_ids j fs) (fn_name f) = None" for j
    using Cons.prems(1) by (simp add: map_of_eq_None_iff flip: set_map)
  ultimately show ?case by (cases "map_of (function_ids (Suc (c_next_func c)) fs) ''main''") (auto simp: c)
qed

lemma compile_functions_code:
  "compile_functions prog fs c = (Inr u, d) \<Longrightarrow> \<forall>(n, i) \<in> set (function_ids k fs). map_of (c_func_ids c) n = Some i \<Longrightarrow>
     \<forall>i \<in> fst ` set (c_functions c). i < k \<Longrightarrow>
     same_tables c d \<and>
     c_instructions d = c_instructions c @ functions_code (p_globals prog) (global_env c) (pc_of c) fs \<and>
     c_functions d = c_functions c @ function_table (p_globals prog) (global_env c) k (pc_of c) fs"
proof (induction fs arbitrary: c k)
  case Nil
  then show ?case by (simp add: compiled_ok_Inr same_tables_def)
next
  case (Cons f fs)
  from Cons.prems(1) obtain c1 where c1: "compile_function prog f c = (Inr (), c1)"
    and d: "compile_functions prog fs c1 = (Inr u, d)"
    by (auto simp: bnd_Inr_conv)
  from Cons.prems(2) have "map_of (c_func_ids c) (fn_name f) = Some k" by simp
  note f = compile_function_code [OF c1 this]
  have fresh: "k \<notin> fst ` set (c_functions c)" using Cons.prems(3) by auto
  from f have env: "global_env c1 = global_env c" by (simp add: same_tables_def global_env_def)
  from f Cons.prems(2) have "\<forall>(n, i) \<in> set (function_ids (k + 1) fs). map_of (c_func_ids c1) n = Some i"
    by (simp add: same_tables_def)
  moreover from f Cons.prems(3) have "\<forall>i \<in> fst ` set (c_functions c1). i < k + 1"
    by (auto simp: update_fresh [OF fresh] less_Suc_eq)
  ultimately show ?case
    using Cons.IH [OF d] f env by (simp add: same_tables_def update_fresh [OF fresh] Let_def)
qed

text \<open>Globals and functions with distinct names: what the compiler starts code generation with.\<close>

definition collected :: "program \<Rightarrow> compiler" where
  "collected prog = fold register_function (p_functions prog) (fold collect_global (p_globals prog) Compiler_new)"

lemma collected_state:
  assumes "distinct (map gv_name (p_globals prog))" "distinct (map fn_name (p_functions prog))"
  shows "\<exists>n n'. collected prog = Compiler_new\<lparr>c_globals := global_table 0 (p_globals prog), c_next_global := n,
    c_func_ids := function_ids 0 (p_functions prog), c_next_func := n',
    c_main := map_of (function_ids 0 (p_functions prog)) ''main''\<rparr>"
proof -
  obtain n where n: "fold collect_global (p_globals prog) Compiler_new =
      Compiler_new\<lparr>c_globals := global_table 0 (p_globals prog), c_next_global := n\<rparr>" (is "_ = ?c")
    using collect_globals_table [OF assms(1), of Compiler_new] by (auto simp: Compiler_new_def)
  have "fst ` set (c_func_ids ?c) \<inter> fn_name ` set (p_functions prog) = {}" by (simp add: Compiler_new_def)
  from register_functions_ids [OF assms(2) this] show ?thesis
    unfolding collected_def n by (auto simp: Compiler_new_def split: option.splits)
qed

lemma map_of_function_ids:
  "distinct (map fn_name fs) \<Longrightarrow> (n, i) \<in> set (function_ids k fs) \<Longrightarrow> map_of (function_ids k fs) n = Some i"
  by (rule map_of_is_SomeI) simp_all

lemma compile_code:
  assumes names: "distinct (map gv_name (p_globals prog))" "distinct (map fn_name (p_functions prog))"
    and ok: "compile prog = Inr cp"
  shows "cp = direct_program prog"
proof -
  obtain n n' where c: "collected prog = Compiler_new\<lparr>c_globals := global_table 0 (p_globals prog), c_next_global := n,
    c_func_ids := function_ids 0 (p_functions prog), c_next_func := n',
    c_main := map_of (function_ids 0 (p_functions prog)) ''main''\<rparr>"
    using collected_state [OF names] by blast
  from ok obtain d where d: "compile_functions prog (p_functions prog) (collected prog) = (Inr (), d)" and cp: "cp = program_of d"
    by (cases "compile_functions prog (p_functions prog) (collected prog)")
      (auto simp: compile_def bnd_def simp flip: collected_def split: sum.splits)
  have "\<forall>(n, i) \<in> set (function_ids 0 (p_functions prog)). map_of (c_func_ids (collected prog)) n = Some i"
    by (auto simp: c intro: map_of_function_ids [OF names(2)])
  moreover have "\<forall>i \<in> fst ` set (c_functions (collected prog)). i < 0" by (simp add: c Compiler_new_def)
  moreover have "global_env (collected prog) = program_env prog" by (simp add: c global_env_def program_env_def)
  ultimately show ?thesis
    using compile_functions_code [OF d] cp
    by (simp add: program_of_def direct_program_def c Compiler_new_def same_tables_def program_env_def)
qed

section \<open>Well-formed programs compile\<close>

lemma compile_expr_ids:
  "compile_expr e c = (Inr u, d) \<Longrightarrow> c_func_ids d = c_func_ids c"
  by (drule compile_expr_append(1)) simp

lemma type_of_binaryE:
  assumes "type_of G F (E_Binary op l r sp) = Some t"
  obtains lt rt where "type_of G F l = Some lt" "type_of G F r = Some rt" "operand_ok op lt rt" "t = binary_type op"
  using assms by (auto split: option.splits if_splits)

lemma compile_expr_succeeds:
  "type_of G F e = Some t \<Longrightarrow> dom F \<subseteq> dom (map_of (c_func_ids c)) \<Longrightarrow> \<exists>d. compile_expr e c = (Inr (), d)"
  "args_ok G F es ts \<Longrightarrow> dom F \<subseteq> dom (map_of (c_func_ids c)) \<Longrightarrow> \<exists>d. compile_args es c = (Inr (), d)"
proof (induction e c and es c arbitrary: t and ts rule: compile_expr_compile_args.induct)
  case (4 op l r sp c)
  from "4.prems"(1) obtain lt rt where t: "type_of G F l = Some lt" "type_of G F r = Some rt"
    by (rule type_of_binaryE)
  show ?case
  proof (cases "op = Bin_And \<or> op = Bin_Or")
    case True
    obtain c1 where c1: "compile_expr l c = (Inr (), c1)" using "4.IH"(1) [OF True t(1) "4.prems"(2)] ..
    let ?c = "emit (if op = Bin_And then Op_JumpIfFalse else Op_JumpIfTrue) 0 0 c1"
    have "dom F \<subseteq> dom (map_of (c_func_ids ?c))" using "4.prems"(2) by (simp add: compile_expr_ids [OF c1])
    from "4.IH"(2) [OF True refl t(2) this] True c1 show ?thesis by (auto simp: compiled_ok_def)
  next
    case False
    obtain c1 where c1: "compile_expr l c = (Inr (), c1)" using "4.IH"(3) [OF False t(1) "4.prems"(2)] ..
    have "dom F \<subseteq> dom (map_of (c_func_ids c1))" using "4.prems"(2) by (simp add: compile_expr_ids [OF c1])
    from "4.IH"(4) [OF False t(2) this] False c1 show ?thesis by (auto simp: compiled_ok_def)
  qed
next
  case (5 op e sp c)
  from "5.prems"(1) obtain t' where "type_of G F e = Some t'" by (auto split: option.splits)
  from "5.IH" [OF this "5.prems"(2)] show ?case by (auto simp: compiled_ok_def)
next
  case (6 name args sp c)
  from "6.prems"(1) obtain f where f: "F name = Some f" "args_ok G F args (sym_param_types f)"
    by (auto split: option.splits if_splits)
  obtain c1 where c1: "compile_args args c = (Inr (), c1)" using "6.IH" [OF f(2) "6.prems"(2)] ..
  have "c_func_ids c1 = c_func_ids c" using compile_expr_append(2) [OF c1] by simp
  moreover obtain i where "map_of (c_func_ids c) name = Some i" using f(1) "6.prems"(2) by (metis domD domI subsetD)
  ultimately show ?case by (simp add: c1 index_map_def compiled_ok_def)
next
  case (7 name index sp c)
  from "7.prems"(1) obtain t' where "type_of G F index = Some t'" by (auto split: option.splits)
  from "7.IH" [OF this "7.prems"(2)] show ?case by (auto simp: compiled_ok_def)
next
  case (9 a as c)
  from "9.prems"(1) obtain t' ts' where t: "type_of G F a = Some t'" "args_ok G F as ts'"
    by (auto split: list.splits option.splits)
  obtain c1 where c1: "compile_expr a c = (Inr (), c1)" using "9.IH"(1) [OF t(1) "9.prems"(2)] ..
  have "dom F \<subseteq> dom (map_of (c_func_ids c1))" using "9.prems"(2) by (simp add: compile_expr_ids [OF c1])
  from "9.IH"(2) [OF t(2) this] c1 show ?case by auto
qed (auto simp: compiled_ok_def)

text \<open>The functions a state knows cover those of an environment.\<close>

definition knows :: "compiler \<Rightarrow> env \<Rightarrow> bool" where
  "knows c F \<longleftrightarrow> dom F \<subseteq> dom (map_of (c_func_ids c))"

lemma knows_simps [simp]:
  "knows (append_code is c) F = knows c F" "knows (patch i a c) F = knows c F" "knows (patch_here i c) F = knows c F"
  "knows (declare_local n sz c) F = knows c F" "knows (emit op a b c) F = knows c F"
  by (simp_all add: knows_def patch_def patch_here_def declare_local_def)

lemma extends_knows: "extends is E c d \<Longrightarrow> knows d F = knows c F"
  by (simp add: extends_def knows_def)

lemma compiles_expr:
  assumes "type_of G F e \<noteq> None" "knows c F"
  obtains d where "compile_expr e c = (Inr (), d)" "knows d F"
proof -
  from assms(1) obtain t where "type_of G F e = Some t" by auto
  from compile_expr_succeeds(1) [OF this] assms(2) obtain d where d: "compile_expr e c = (Inr (), d)"
    unfolding knows_def by blast
  with assms(2) show ?thesis by (intro that [OF d]) (simp add: knows_def compile_expr_ids)
qed

lemma typed_conditions:
  "condition_ok G F e \<Longrightarrow> \<exists>t. type_of G F e = Some t" "has_type G F e t \<Longrightarrow> \<exists>t. type_of G F e = Some t"
  by (auto simp: condition_ok_def has_type_def split: option.splits)

lemma compiles_decl:
  assumes ok: "stmt_ok G F (S_VarDecl t n init sz sp)" and c: "knows c F"
  shows "\<exists>d. compile_decl n init sz c = (Inr (), d)"
proof -
  obtain l where l: "map_of (c_locals (declare_local n sz c)) n = Some l"
    using bind_local_Some [of n sz "local_env c"] by (metis declare_local_env local_env_simps(1))
  show ?thesis
  proof (cases init)
    case (Some e)
    with ok have "type_of (G(n \<mapsto> declared n t False sz)) F e \<noteq> None"
      by (auto simp: value_ok_def dest!: typed_conditions)
    moreover have "knows (declare_local n sz c) F" using c by simp
    ultimately obtain d where "compile_expr e (declare_local n sz c) = (Inr (), d)" by (rule compiles_expr)
    with Some l show ?thesis by (simp add: compile_decl_def index_map_def Let_def compiled_ok_def)
  qed (simp add: compile_decl_def index_map_def Let_def compiled_ok_def l)
qed

lemma compiles_assign:
  assumes ok: "assign_ok G F target idx v" and c: "knows c F"
  shows "\<exists>d. compile_assign target idx v c = (Inr (), d)"
proof -
  from ok have v: "type_of G F v \<noteq> None" by (auto simp: assign_ok_def dest!: typed_conditions split: option.splits)
  obtain c1 where c1: "(case idx of None \<Rightarrow> compiled_ok c | Some i \<Rightarrow> compile_expr i c) = (Inr (), c1)" and k: "knows c1 F"
  proof (cases idx)
    case None
    with c show ?thesis by (intro that [of c]) (simp_all add: compiled_ok_def)
  next
    case (Some i)
    with ok have "type_of G F i \<noteq> None" by (auto simp: assign_ok_def dest!: typed_conditions split: option.splits)
    from compiles_expr [OF this c] obtain d where "compile_expr i c = (Inr (), d)" "knows d F" .
    with Some show ?thesis by (intro that [of d]) simp_all
  qed
  from compiles_expr [OF v k] obtain c2 where "compile_expr v c1 = (Inr (), c2)" by blast
  with c1 show ?thesis by (auto simp: compile_assign_store compiled_ok_def split: option.split)
qed

lemma compile_stmt_succeeds:
  "stmt_ok G F st \<Longrightarrow> knows c F \<Longrightarrow> \<exists>d. compile_stmt st c = (Inr (), d)"
  "stmts_ok G F ss \<Longrightarrow> knows c F \<Longrightarrow> \<exists>d. compile_stmts ss c = (Inr (), d)"
proof (induction st c and ss c arbitrary: G and G rule: compile_stmt_compile_stmts.induct)
  case 1 then show ?case using compiles_decl by simp
next
  case 2 then show ?case by (simp add: compiles_assign)
next
  case (3 cond th el sp c)
  from "3.prems"(1) have ok: "type_of G F cond \<noteq> None" "stmts_ok G F th" by (auto dest!: typed_conditions)
  obtain c1 where c1: "compile_expr cond c = (Inr (), c1)" "knows c1 F" using compiles_expr [OF ok(1) "3.prems"(2)] .
  let ?c1 = "emit Op_JumpIfFalse 0 0 c1"
  have "knows ?c1 F" using c1 by simp
  from "3.IH"(1) [OF refl ok(2) this] obtain c2 where c2: "compile_stmts th ?c1 = (Inr (), c2)" ..
  have k2: "knows c2 F" using extends_knows [OF compile_stmt_extends(2) [OF c2]] c1(2) by simp
  show ?case
  proof (cases el)
    case (Some ss)
    let ?c2 = "patch_here (current_pc c1) (emit Op_Jump 0 0 c2)"
    from Some "3.prems"(1) have "stmts_ok G F ss" by simp
    moreover have "knows ?c2 F" using k2 by simp
    ultimately obtain c3 where "compile_stmts ss ?c2 = (Inr (), c3)" using "3.IH"(2) [OF refl Some refl] by blast
    with c1 c2 Some show ?thesis by (simp add: compiled_ok_def Let_def)
  qed (use c1 c2 in \<open>simp add: compiled_ok_def\<close>)
next
  case (4 cond body sp c)
  from "4.prems"(1) have ok: "type_of G F cond \<noteq> None" "stmts_ok G F body" by (auto dest!: typed_conditions)
  obtain c1 where c1: "compile_expr cond c = (Inr (), c1)" "knows c1 F" using compiles_expr [OF ok(1) "4.prems"(2)] .
  have "knows (emit Op_JumpIfFalse 0 0 c1) F" using c1 by simp
  from "4.IH" [OF refl refl ok(2) this] c1 show ?case by (auto simp: compiled_ok_def Let_def)
next
  case (5 v sp c)
  then have "type_of G F v \<noteq> None" by (auto dest!: typed_conditions)
  from compiles_expr [OF this "5.prems"(2)] obtain d where "compile_expr v c = (Inr (), d)" .
  then show ?case by (simp add: compiled_ok_def)
next
  case (6 v sp c)
  then have "type_of G F v \<noteq> None" by simp
  from compiles_expr [OF this "6.prems"(2)] obtain d where "compile_expr v c = (Inr (), d)" .
  then show ?case by (simp add: compiled_ok_def)
next
  case (7 e sp c)
  then have "type_of G F e \<noteq> None" by simp
  from compiles_expr [OF this "7.prems"(2)] obtain d where "compile_expr e c = (Inr (), d)" .
  then show ?case by (simp add: compiled_ok_def)
next
  case (8 c)
  then show ?case by (simp add: compiled_ok_def)
next
  case (9 s ss c)
  from "9.prems" obtain c1 where c1: "compile_stmt s c = (Inr (), c1)" using "9.IH"(1) by fastforce
  have "knows c1 F" using extends_knows [OF compile_stmt_extends(1) [OF c1]] "9.prems"(2) by simp
  with "9.prems" "9.IH"(2) c1 show ?case by fastforce
qed

lemma compiles_inits:
  "\<forall>g \<in> set gs. value_ok G F (gv_init g) (gv_type g) \<and> map_of (c_globals c) (gv_name g) \<noteq> None \<Longrightarrow> knows c F \<Longrightarrow>
     \<exists>d. compile_global_inits gs c = (Inr (), d)"
proof (induction gs arbitrary: c)
  case (Cons g gs)
  show ?case
  proof (cases "gv_init g")
    case (Some e)
    with Cons.prems(1) have "type_of G F e \<noteq> None" by (auto simp: value_ok_def dest!: typed_conditions)
    from compiles_expr [OF this Cons.prems(2)] obtain c1 where c1: "compile_expr e c = (Inr (), c1)" "knows c1 F" .
    have same: "c_globals c1 = c_globals c" using compile_expr_append(1) [OF c1(1)] by simp
    with Cons.prems(1) obtain i where "map_of (c_globals c1) (gv_name g) = Some i" by auto
    moreover have "\<exists>d. compile_global_inits gs (emit op a b c1) = (Inr (), d)" for op a b
      using Cons.prems c1 same by (intro Cons.IH) simp_all
    ultimately show ?thesis using Some c1 by (simp add: index_map_def)
  qed (use Cons in simp)
qed (simp add: compiled_ok_def)

lemma compile_function_succeeds:
  assumes f: "function_ok prog f" and gs: "\<forall>g \<in> set (p_globals prog). global_ok prog g \<and> map_of (c_globals c) (gv_name g) \<noteq> None"
    and F: "knows c (function_env prog)" and id: "map_of (c_func_ids c) (fn_name f) = Some i"
  shows "\<exists>d. compile_function prog f c = (Inr (), d)"
proof -
  let ?c = "enter_body f c"
  have same: "c_func_ids ?c = c_func_ids c" "c_globals ?c = c_globals c"
    using enter_body_same [of c f] by (simp_all add: same_code_def same_tables_def)
  have F': "knows ?c (function_env prog)" using F by (simp add: knows_def same)
  have gs': "\<forall>g \<in> set (p_globals prog). value_ok (top_env prog) (function_env prog) (gv_init g) (gv_type g) \<and>
      map_of (c_globals ?c) (gv_name g) \<noteq> None"
    using gs by (simp add: global_ok_def same)
  obtain c1 where c1: "(if fn_name f = ''main'' then compile_global_inits (p_globals prog) ?c else compiled_ok ?c) = (Inr (), c1)"
    using compiles_inits [OF gs' F'] by (cases "fn_name f = ''main''") (auto simp: compiled_ok_def)
  have "knows c1 (function_env prog)"
    using c1 F' extends_knows [OF compile_inits_extends] by (auto simp: compiled_ok_Inr split: if_splits)
  with f obtain c2 where "compile_stmts (fn_body f) c1 = (Inr (), c2)"
    using compile_stmt_succeeds(2) by (fastforce simp: function_ok_def)
  with c1 id show ?thesis by (simp add: compile_function_eq index_map_def compiled_ok_def)
qed

lemma compile_functions_succeeds:
  "\<forall>f \<in> set fs. function_ok prog f \<and> map_of (c_func_ids c) (fn_name f) \<noteq> None \<Longrightarrow>
   \<forall>g \<in> set (p_globals prog). global_ok prog g \<and> map_of (c_globals c) (gv_name g) \<noteq> None \<Longrightarrow>
   knows c (function_env prog) \<Longrightarrow> \<exists>d. compile_functions prog fs c = (Inr (), d)"
proof (induction fs arbitrary: c)
  case (Cons f fs)
  from Cons.prems(1) obtain i where f: "function_ok prog f" and i: "map_of (c_func_ids c) (fn_name f) = Some i" by auto
  obtain c1 where c1: "compile_function prog f c = (Inr (), c1)"
    using compile_function_succeeds [OF f Cons.prems(2,3) i] ..
  have same: "c_func_ids c1 = c_func_ids c" "c_globals c1 = c_globals c"
    using compile_function_code [OF c1 i] by (simp_all add: same_tables_def)
  obtain d where "compile_functions prog fs c1 = (Inr (), d)"
    using Cons.IH [of c1] Cons.prems same by (auto simp: knows_def)
  with c1 show ?case by simp
qed (simp add: compiled_ok_def)

lemma well_formed_names:
  assumes "well_formed prog"
  shows "distinct (map gv_name (p_globals prog))" "distinct (map fn_name (p_functions prog))"
  using assms by (simp_all add: well_formed_def top_symbols_def comp_def)

lemma map_of_keys: "map_of xs k = None \<longleftrightarrow> k \<notin> set (map fst xs)"
  by (simp add: map_of_eq_None_iff)

lemma compile_well_formed:
  assumes wf: "well_formed prog"
  shows "compile prog = Inr (direct_program prog)"
proof -
  note names = well_formed_names [OF wf]
  obtain n n' where c: "collected prog = Compiler_new\<lparr>c_globals := global_table 0 (p_globals prog), c_next_global := n,
    c_func_ids := function_ids 0 (p_functions prog), c_next_func := n',
    c_main := map_of (function_ids 0 (p_functions prog)) ''main''\<rparr>"
    using collected_state [OF names] by blast
  have "dom (function_env prog) \<subseteq> dom (map_of (function_ids 0 (p_functions prog)))"
    by (simp add: function_env_def dom_map_of_conv_image_fst comp_def image_image flip: set_map)
  then have k: "knows (collected prog) (function_env prog)" by (simp add: knows_def c)
  have "\<exists>d. compile_functions prog (p_functions prog) (collected prog) = (Inr (), d)"
    using wf k by (intro compile_functions_succeeds) (simp_all only: well_formed_def c, simp_all add: map_of_keys del: not_None_eq)
  then obtain d where d: "compile_functions prog (p_functions prog) (collected prog) = (Inr (), d)" ..
  then have "compile prog = Inr (program_of d)" by (simp add: compile_def flip: collected_def)
  with compile_code [OF names this] show ?thesis by simp
qed

end
