(* ===== verification/Oracle.thy ===== *)
theory Oracle
  imports Ast Vm
begin

text \<open>
  The reference interpreter of syntax trees (oracle.rs): names are looked up in scopes, every
  expression, statement and call spends a cycle, calls push a frame. A \<open>HashMap\<close> is a partial
  function, since the interpreter never iterates over one. The loops of the source are recursive
  functions; they end because the cycles are limited.
\<close>

section \<open>State\<close>

datatype oracle_slot = SScalar "i64 option" | SArray "i64 list"

type_synonym oracle_scope = "string \<Rightarrow> oracle_slot option"

text \<open>The scopes of a frame, the innermost first.\<close>

record oracle_frame =
  of_scopes :: "oracle_scope list"

datatype control = CContinue | CReturn i64

record oracle_outcome =
  oo_success :: bool
  oo_return_value :: i64
  oo_trap_code :: trap_code
  oo_trap_message :: string
  oo_output :: "string list"

record ast_oracle =
  os_globals :: oracle_scope
  os_frames :: "oracle_frame list"
  os_output :: "string list"
  os_cycles :: nat

type_synonym 'a oracle_res = "(vm_error + 'a) \<times> ast_oracle"

definition outcome_ok :: "i64 \<Rightarrow> string list \<Rightarrow> oracle_outcome" where
  "outcome_ok v out =
     \<lparr>oo_success = True, oo_return_value = v, oo_trap_code = TrapNone, oo_trap_message = [], oo_output = out\<rparr>"

definition outcome_trap :: "trap_code \<Rightarrow> string \<Rightarrow> string list \<Rightarrow> oracle_outcome" where
  "outcome_trap code msg out =
     \<lparr>oo_success = False, oo_return_value = 0, oo_trap_code = code, oo_trap_message = msg, oo_output = out\<rparr>"

text \<open>\<open>vec![0; size as usize]\<close>, whose capacity overflows when the size is negative.\<close>

definition zero_array :: "i32 \<Rightarrow> vm_error + oracle_slot" where
  "zero_array n = (if n < 0 then Inl (Panic ''capacity overflow'') else Inr (SArray (replicate (nat n) 0)))"

fun declare_globals :: "global_var list \<Rightarrow> oracle_scope \<Rightarrow> vm_error + oracle_scope" where
  "declare_globals [] m = Inr m"
| "declare_globals (g # gs) m =
     (case (case gv_array_size g of Some n \<Rightarrow> zero_array n | None \<Rightarrow> Inr (SScalar (Some 0))) of
        Inl e \<Rightarrow> Inl e
      | Inr slot \<Rightarrow> declare_globals gs (m(gv_name g \<mapsto> slot)))"

definition function_named :: "program \<Rightarrow> string \<Rightarrow> func option" where
  "function_named p name = map_of (rev (map (\<lambda>f. (fn_name f, f)) (p_functions p))) name"

definition oracle_new :: "oracle_scope \<Rightarrow> ast_oracle" where
  "oracle_new globals = \<lparr>os_globals = globals, os_frames = [], os_output = [], os_cycles = 0\<rparr>"

section \<open>Names\<close>

fun lookup_scopes :: "oracle_scope list \<Rightarrow> oracle_scope" where
  "lookup_scopes [] name = None"
| "lookup_scopes (sc # scs) name = (case sc name of Some slot \<Rightarrow> Some slot | None \<Rightarrow> lookup_scopes scs name)"

definition lookup_slot :: "ast_oracle \<Rightarrow> string \<Rightarrow> oracle_slot option" where
  "lookup_slot s name =
     (case os_frames s of
        [] \<Rightarrow> os_globals s name
      | f # _ \<Rightarrow>
          (case lookup_scopes (of_scopes f) name of
             Some slot \<Rightarrow> Some slot
           | None \<Rightarrow> os_globals s name))"

text \<open>Writing through \<open>lookup_slot_mut\<close>: into the innermost scope that has the name.\<close>

fun set_scopes :: "string \<Rightarrow> oracle_slot \<Rightarrow> oracle_scope list \<Rightarrow> oracle_scope list" where
  "set_scopes name slot [] = []"
| "set_scopes name slot (sc # scs) =
     (if sc name \<noteq> None then sc(name \<mapsto> slot) # scs else sc # set_scopes name slot scs)"

definition set_slot :: "string \<Rightarrow> oracle_slot \<Rightarrow> ast_oracle \<Rightarrow> ast_oracle" where
  "set_slot name slot s =
     (case os_frames s of
        [] \<Rightarrow> s\<lparr>os_globals := (os_globals s)(name \<mapsto> slot)\<rparr>
      | f # fs \<Rightarrow>
          if lookup_scopes (of_scopes f) name \<noteq> None
          then s\<lparr>os_frames := f\<lparr>of_scopes := set_scopes name slot (of_scopes f)\<rparr> # fs\<rparr>
          else s\<lparr>os_globals := (os_globals s)(name \<mapsto> slot)\<rparr>)"

text \<open>\<open>current_scope_mut()?.insert(name, slot)\<close>.\<close>

definition insert_slot :: "string \<Rightarrow> oracle_slot \<Rightarrow> ast_oracle \<Rightarrow> unit oracle_res" where
  "insert_slot name slot s =
     (case os_frames s of
        [] \<Rightarrow> (Inl (Trap InvalidInstruction ''No active call frame''), s)
      | f # fs \<Rightarrow>
          (case of_scopes f of
             [] \<Rightarrow> (Inl (Trap InvalidInstruction ''No active scope''), s)
           | sc # scs \<Rightarrow> (Inr (), s\<lparr>os_frames := f\<lparr>of_scopes := sc(name \<mapsto> slot) # scs\<rparr> # fs\<rparr>)))"

definition declare_or_update :: "string \<Rightarrow> oracle_slot \<Rightarrow> ast_oracle \<Rightarrow> unit oracle_res" where
  "declare_or_update name slot s =
     (if lookup_slot s name \<noteq> None then (Inr (), set_slot name slot s) else insert_slot name slot s)"

definition undefined_variable :: "string \<Rightarrow> vm_error" where
  "undefined_variable name = Trap InvalidInstruction (fmt [''Undefined variable '', name])"

definition read_scalar :: "string \<Rightarrow> ast_oracle \<Rightarrow> vm_error + i64" where
  "read_scalar name s =
     (case lookup_slot s name of
        Some (SScalar (Some v)) \<Rightarrow> Inr v
      | Some (SScalar None) \<Rightarrow> Inl (Trap UndefinedLocal (fmt [''Undefined local '', name]))
      | Some (SArray _) \<Rightarrow>
          Inl (Trap InvalidInstruction (fmt [''Cannot use array '', name, '' without index'']))
      | None \<Rightarrow> Inl (undefined_variable name))"

definition oracle_index_error :: "nat \<Rightarrow> nat \<Rightarrow> vm_error" where
  "oracle_index_error index len = Trap ArrayOutOfBounds
     (fmt [''Array index '', show_nat index, '' out of bounds (size '', show_nat len, '')''])"

definition read_array :: "string \<Rightarrow> nat \<Rightarrow> ast_oracle \<Rightarrow> vm_error + i64" where
  "read_array name index s =
     (case lookup_slot s name of
        Some (SArray vs) \<Rightarrow>
          if index < length vs then Inr (vs ! index) else Inl (oracle_index_error index (length vs))
      | Some (SScalar _) \<Rightarrow> Inl (Trap InvalidInstruction (fmt [''Cannot index non-array '', name]))
      | None \<Rightarrow> Inl (undefined_variable name))"

definition assign_scalar :: "string \<Rightarrow> i64 \<Rightarrow> ast_oracle \<Rightarrow> unit oracle_res" where
  "assign_scalar name v s =
     (case lookup_slot s name of
        Some (SScalar _) \<Rightarrow> (Inr (), set_slot name (SScalar (Some (normalize_i32 v))) s)
      | Some (SArray _) \<Rightarrow>
          (Inl (Trap InvalidInstruction (fmt [''Cannot assign array '', name, '' without index''])), s)
      | None \<Rightarrow> (Inl (undefined_variable name), s))"

definition assign_global_scalar :: "string \<Rightarrow> i64 \<Rightarrow> ast_oracle \<Rightarrow> unit oracle_res" where
  "assign_global_scalar name v s =
     (case os_globals s name of
        Some (SScalar _) \<Rightarrow>
          (Inr (), s\<lparr>os_globals := (os_globals s)(name \<mapsto> SScalar (Some (normalize_i32 v)))\<rparr>)
      | Some (SArray _) \<Rightarrow>
          (Inl (Trap InvalidInstruction (fmt [''Cannot initialize array '', name, '' as scalar''])), s)
      | None \<Rightarrow> (Inl (Trap InvalidInstruction (fmt [''Undefined global '', name])), s))"

definition assign_array :: "string \<Rightarrow> nat \<Rightarrow> i64 \<Rightarrow> ast_oracle \<Rightarrow> unit oracle_res" where
  "assign_array name index v s =
     (case lookup_slot s name of
        Some (SArray vs) \<Rightarrow>
          if index < length vs then (Inr (), set_slot name (SArray (vs[index := normalize_i32 v])) s)
          else (Inl (oracle_index_error index (length vs)), s)
      | Some (SScalar _) \<Rightarrow>
          (Inl (Trap InvalidInstruction (fmt [''Cannot index non-array '', name])), s)
      | None \<Rightarrow> (Inl (undefined_variable name), s))"

definition checked_array_index :: "i64 \<Rightarrow> vm_error + nat" where
  "checked_array_index raw =
     (if raw < 0
      then Inl (Trap ArrayOutOfBounds (fmt [''Array index '', show_int raw, '' out of bounds'']))
      else Inr (nat raw))"

text \<open>The counter is a saturating \<open>u64\<close>.\<close>

definition tick :: "ast_oracle \<Rightarrow> unit oracle_res" where
  "tick s =
     (let s = s\<lparr>os_cycles := min (os_cycles s + 1) 18446744073709551615\<rparr>
      in if os_cycles s > MAX_CYCLES
         then (Inl (Trap CycleLimit (fmt [''Cycle limit exceeded ('', show_nat MAX_CYCLES, '')''])), s)
         else (Inr (), s))"

section \<open>Operators\<close>

definition eval_binary :: "binary_op \<Rightarrow> i64 \<Rightarrow> i64 \<Rightarrow> vm_error + i64" where
  "eval_binary op a b = (case op of
      Bin_Add \<Rightarrow> Inr (normalize_i32 (wrap64 (a + b)))
    | Bin_Sub \<Rightarrow> Inr (normalize_i32 (wrap64 (a - b)))
    | Bin_Mul \<Rightarrow> Inr (normalize_i32 (wrap64 (a * b)))
    | Bin_Div \<Rightarrow>
        if b = 0 then Inl (Trap DivideByZero ''Division by zero'')
        else if a = i64_min \<and> b = - 1 then Inl (Panic ''attempt to divide with overflow'')
        else Inr (normalize_i32 (trunc_div a b))
    | Bin_Eq \<Rightarrow> Inr (truth (a = b)) | Bin_Ne \<Rightarrow> Inr (truth (a \<noteq> b))
    | Bin_Lt \<Rightarrow> Inr (truth (a < b)) | Bin_Gt \<Rightarrow> Inr (truth (a > b))
    | Bin_Le \<Rightarrow> Inr (truth (a \<le> b)) | Bin_Ge \<Rightarrow> Inr (truth (a \<ge> b))
    | Bin_And \<Rightarrow> Inl (Panic ''internal error: entered unreachable code'')
    | Bin_Or \<Rightarrow> Inl (Panic ''internal error: entered unreachable code''))"

definition eval_unary :: "unary_op \<Rightarrow> i64 \<Rightarrow> vm_error + i64" where
  "eval_unary op a = (case op of
      Un_Neg \<Rightarrow> if a = i64_min then Inl (Panic ''attempt to negate with overflow'')
                else Inr (normalize_i32 (- a))
    | Un_Not \<Rightarrow> Inr (truth (a = 0)))"

section \<open>Frames\<close>

fun bind_params :: "param list \<Rightarrow> i64 list \<Rightarrow> oracle_scope \<Rightarrow> oracle_scope" where
  "bind_params (x # xs) (v # vs) m = bind_params xs vs (m(par_name x \<mapsto> SScalar (Some (normalize_i32 v))))"
| "bind_params _ _ m = m"

definition push_frame :: "func \<Rightarrow> i64 list \<Rightarrow> ast_oracle \<Rightarrow> ast_oracle" where
  "push_frame f args s =
     s\<lparr>os_frames := \<lparr>of_scopes = [bind_params (fn_params f) args (\<lambda>_. None)]\<rparr> # os_frames s\<rparr>"

definition pop_frame :: "ast_oracle \<Rightarrow> ast_oracle" where
  "pop_frame s = s\<lparr>os_frames := tl (os_frames s)\<rparr>"

definition returned :: "control \<Rightarrow> i64" where
  "returned ctl = normalize_i32 (case ctl of CReturn v \<Rightarrow> v | CContinue \<Rightarrow> 0)"

section \<open>Expressions and statements\<close>

lemma bnd_cong [fundef_cong]:
  "r = r' \<Longrightarrow> (\<And>a s. r' = (Inr a, s) \<Longrightarrow> k a s = k' a s) \<Longrightarrow> bnd r k = bnd r' k'"
  by (cases r'; cases "fst r'") (auto simp: bnd_def)

definition ensure_declared :: "string \<Rightarrow> ast_oracle \<Rightarrow> unit oracle_res" where
  "ensure_declared name s =
     (if lookup_slot s name = None then insert_slot name (SScalar None) s else (Inr (), s))"

definition oracle_print :: "i64 \<Rightarrow> ast_oracle \<Rightarrow> control oracle_res" where
  "oracle_print v s = (Inr CContinue, s\<lparr>os_output := os_output s @ [fmt [''OUTPUT: '', show_int v]]\<rparr>)"

definition continue :: "unit \<Rightarrow> ast_oracle \<Rightarrow> control oracle_res" where
  "continue u s = (Inr CContinue, s)"

function eval_expr :: "program \<Rightarrow> expr \<Rightarrow> ast_oracle \<Rightarrow> i64 oracle_res"
and eval_args :: "program \<Rightarrow> expr list \<Rightarrow> ast_oracle \<Rightarrow> i64 list oracle_res"
and call_function :: "program \<Rightarrow> string \<Rightarrow> i64 list \<Rightarrow> ast_oracle \<Rightarrow> i64 oracle_res"
and exec_block :: "program \<Rightarrow> stmt list \<Rightarrow> ast_oracle \<Rightarrow> control oracle_res"
and exec_stmt :: "program \<Rightarrow> stmt \<Rightarrow> ast_oracle \<Rightarrow> control oracle_res"
and exec_while :: "program \<Rightarrow> expr \<Rightarrow> stmt list \<Rightarrow> ast_oracle \<Rightarrow> control oracle_res"
where
  "eval_expr p (E_IntLiteral v sp) s = bnd (tick s) (\<lambda>_ s. (Inr v, s))"
| "eval_expr p (E_BoolLiteral b sp) s = bnd (tick s) (\<lambda>_ s. (Inr (truth b), s))"
| "eval_expr p (E_Identifier name sp) s = bnd (tick s) (\<lambda>_ s. lift_res (read_scalar name s) s)"
| "eval_expr p (E_Binary op l r sp) s =
     bnd (tick s) (\<lambda>_ s.
     bnd (eval_expr p l s) (\<lambda>a s.
     if op = Bin_And then
       if a = 0 then (Inr 0, s) else bnd (eval_expr p r s) (\<lambda>b s. (Inr (truth (b \<noteq> 0)), s))
     else if op = Bin_Or then
       if a \<noteq> 0 then (Inr 1, s) else bnd (eval_expr p r s) (\<lambda>b s. (Inr (truth (b \<noteq> 0)), s))
     else bnd (eval_expr p r s) (\<lambda>b s. lift_res (eval_binary op a b) s)))"
| "eval_expr p (E_Unary op e sp) s =
     bnd (tick s) (\<lambda>_ s. bnd (eval_expr p e s) (\<lambda>a s. lift_res (eval_unary op a) s))"
| "eval_expr p (E_Call name args sp) s =
     bnd (tick s) (\<lambda>_ s. bnd (eval_args p args s) (\<lambda>vs s. call_function p name vs s))"
| "eval_expr p (E_ArrayIndex name index sp) s =
     bnd (tick s) (\<lambda>_ s.
     bnd (eval_expr p index s) (\<lambda>raw s.
     bnd (lift_res (checked_array_index raw) s) (\<lambda>i s.
     lift_res (read_array name i s) s)))"
| "eval_args p [] s = (Inr [], s)"
| "eval_args p (a # as) s =
     bnd (eval_expr p a s) (\<lambda>v s. bnd (eval_args p as s) (\<lambda>vs s. (Inr (v # vs), s)))"
| "call_function p name args s =
     bnd (tick s) (\<lambda>_ s.
     if length (os_frames s) \<ge> MAX_FRAMES
     then (Inl (Trap StackOverflow
             (fmt [''Call stack overflow (max '', show_nat MAX_FRAMES, '' frames)''])), s)
     else case function_named p name of
       None \<Rightarrow> (Inl (Trap UndefinedFunction (fmt [''Undefined function '', name])), s)
     | Some f \<Rightarrow>
         if length args \<noteq> length (fn_params f)
         then (Inl (Trap InvalidInstruction
                 (fmt [''Call has '', show_nat (length args), '' arguments but function '', name,
                       '' expects '', show_nat (length (fn_params f))])), s)
         else bnd (exec_block p (fn_body f) (push_frame f args s)) (\<lambda>ctl s.
              (Inr (returned ctl), pop_frame s)))"
| "exec_block p [] s = (Inr CContinue, s)"
| "exec_block p (st # ss) s =
     bnd (exec_stmt p st s) (\<lambda>ctl s.
     if ctl = CContinue then exec_block p ss s else (Inr ctl, s))"
| "exec_stmt p (S_VarDecl t name init sz sp) s =
     bnd (tick s) (\<lambda>_ s.
     case sz of
       Some n \<Rightarrow>
         bnd (lift_res (zero_array n) s) (\<lambda>slot s. bnd (declare_or_update name slot s) continue)
     | None \<Rightarrow>
         (case init of
            Some e \<Rightarrow>
              bnd (ensure_declared name s) (\<lambda>_ s.
              bnd (eval_expr p e s) (\<lambda>v s.
              bnd (assign_scalar name v s) continue))
          | None \<Rightarrow> bnd (ensure_declared name s) continue))"
| "exec_stmt p (S_Assign target idx v sp) s =
     bnd (tick s) (\<lambda>_ s.
     case idx of
       Some i \<Rightarrow>
         bnd (eval_expr p i s) (\<lambda>raw s.
         bnd (lift_res (checked_array_index raw) s) (\<lambda>index s.
         bnd (eval_expr p v s) (\<lambda>x s.
         bnd (assign_array target index x s) continue)))
     | None \<Rightarrow>
         bnd (eval_expr p v s) (\<lambda>x s. bnd (assign_scalar target x s) continue))"
| "exec_stmt p (S_If cond th el sp) s =
     bnd (tick s) (\<lambda>_ s.
     bnd (eval_expr p cond s) (\<lambda>v s.
     if v \<noteq> 0 then exec_block p th s
     else case el of Some ss \<Rightarrow> exec_block p ss s | None \<Rightarrow> (Inr CContinue, s)))"
| "exec_stmt p (S_While cond body sp) s = bnd (tick s) (\<lambda>_ s. exec_while p cond body s)"
| "exec_stmt p (S_Return v sp) s =
     bnd (tick s) (\<lambda>_ s. bnd (eval_expr p v s) (\<lambda>x s. (Inr (CReturn x), s)))"
| "exec_stmt p (S_Print v sp) s =
     bnd (tick s) (\<lambda>_ s. bnd (eval_expr p v s) oracle_print)"
| "exec_stmt p (S_ExprStmt e sp) s =
     bnd (tick s) (\<lambda>_ s. bnd (eval_expr p e s) (\<lambda>_ s. (Inr CContinue, s)))"
| "exec_while p cond body s =
     bnd (eval_expr p cond s) (\<lambda>v s.
     if v \<noteq> 0
     then bnd (exec_block p body s) (\<lambda>ctl s.
          if ctl = CContinue then exec_while p cond body s else (Inr ctl, s))
     else (Inr CContinue, s))"
  by pat_completeness auto


section \<open>Termination\<close>

text \<open>Expressions and statements spend cycles, and a success has not spent more than there are.\<close>

definition spends :: "ast_oracle \<Rightarrow> ast_oracle \<Rightarrow> bool" where
  "spends s t \<longleftrightarrow> os_cycles s < os_cycles t \<and> os_cycles t \<le> MAX_CYCLES"

definition spending :: "ast_oracle \<Rightarrow> 'a oracle_res \<Rightarrow> bool" where
  "spending s r \<longleftrightarrow> (\<forall>a t. r = (Inr a, t) \<longrightarrow> spends s t)"

definition lasting :: "ast_oracle \<Rightarrow> 'a oracle_res \<Rightarrow> bool" where
  "lasting s r \<longleftrightarrow> (\<forall>a t. r = (Inr a, t) \<longrightarrow> os_cycles s = os_cycles t \<or> spends s t)"

lemma tick_Inr: "tick s = (Inr u, t) \<longleftrightarrow> os_cycles s < MAX_CYCLES \<and> t = s\<lparr>os_cycles := os_cycles s + 1\<rparr>"
  by (auto simp: tick_def Let_def MAX_CYCLES_def split: if_splits)

named_theorems spend_intros \<open>cycles of compound computations\<close>

lemma spending_bnd [spend_intros]:
  "spending s r \<Longrightarrow> (\<And>a t. r = (Inr a, t) \<Longrightarrow> lasting t (k a t)) \<Longrightarrow> spending s (bnd r k)"
  by (fastforce simp: spending_def lasting_def bnd_Inr_conv spends_def)

lemma lasting_bnd [spend_intros]:
  "lasting s r \<Longrightarrow> (\<And>a t. r = (Inr a, t) \<Longrightarrow> lasting t (k a t)) \<Longrightarrow> lasting s (bnd r k)"
  by (fastforce simp: spending_def lasting_def bnd_Inr_conv spends_def)

lemma spending_tick [spend_intros]: "spending s (tick s)"
  by (auto simp: spending_def spends_def tick_Inr)

lemma lasting_simps [simp]:
  "lasting s (Inl e, t)" "lasting s (Inr a, t) \<longleftrightarrow> os_cycles s = os_cycles t \<or> spends s t"
  "lasting s (r, s)"
  by (auto simp: lasting_def)

lemma lasting_spending: "spending s r \<Longrightarrow> lasting s r"
  by (simp add: spending_def lasting_def)

lemma lasting_calls [spend_intros]:
  "spending s (eval_expr p e s) \<Longrightarrow> lasting s (eval_expr p e s)"
  "spending s (call_function p name args s) \<Longrightarrow> lasting s (call_function p name args s)"
  "spending s (exec_stmt p st s) \<Longrightarrow> lasting s (exec_stmt p st s)"
  "spending s (exec_while p cond body s) \<Longrightarrow> lasting s (exec_while p cond body s)"
  by (simp_all add: lasting_spending)

lemma lasting_steps [simp]:
  "lasting s (insert_slot n x s)" "lasting s (declare_or_update n x s)" "lasting s (ensure_declared n s)"
  "lasting s (assign_scalar n v s)" "lasting s (assign_array n i v s)" "lasting s (oracle_print v s)"
  "lasting s (continue u s)"
  by (auto simp: insert_slot_def declare_or_update_def ensure_declared_def assign_scalar_def assign_array_def
      set_slot_def oracle_print_def continue_def split: list.splits option.splits if_splits oracle_slot.splits)

lemma frame_cycles [simp]: "os_cycles (push_frame f vs s) = os_cycles s" "os_cycles (pop_frame s) = os_cycles s"
  by (simp_all add: push_frame_def pop_frame_def)

lemma lasting_push_frame [simp]: "lasting (push_frame f vs s) r = lasting s r"
  by (simp add: lasting_def spends_def)

lemma spent:
  "eval_expr_eval_args_call_function_exec_block_exec_stmt_exec_while_dom (Inl (Inl (p, e, s))) \<Longrightarrow>
     spending s (eval_expr p e s)"
  "eval_expr_eval_args_call_function_exec_block_exec_stmt_exec_while_dom (Inl (Inr (Inl (p, es, s)))) \<Longrightarrow>
     lasting s (eval_args p es s)"
  "eval_expr_eval_args_call_function_exec_block_exec_stmt_exec_while_dom (Inl (Inr (Inr (p, name, args, s)))) \<Longrightarrow>
     spending s (call_function p name args s)"
  "eval_expr_eval_args_call_function_exec_block_exec_stmt_exec_while_dom (Inr (Inl (p, ss, s))) \<Longrightarrow>
     lasting s (exec_block p ss s)"
  "eval_expr_eval_args_call_function_exec_block_exec_stmt_exec_while_dom (Inr (Inr (Inl (p, st, s)))) \<Longrightarrow>
     spending s (exec_stmt p st s)"
  "eval_expr_eval_args_call_function_exec_block_exec_stmt_exec_while_dom (Inr (Inr (Inr (p, cond, body, s)))) \<Longrightarrow>
     spending s (exec_while p cond body s)"
proof (induction rule: eval_expr_eval_args_call_function_exec_block_exec_stmt_exec_while.pinduct)
  case 1
  then show ?case
    by (auto simp: eval_expr.psimps split: option.split intro!: spend_intros)
next
  case 2
  then show ?case
    by (auto simp: eval_expr.psimps split: option.split intro!: spend_intros)
next
  case 3
  then show ?case
    by (auto simp: eval_expr.psimps split: option.split intro!: spend_intros)
next
  case 4
  then show ?case
    by (auto simp: eval_expr.psimps split: option.split intro!: spend_intros)
next
  case 5
  then show ?case
    by (auto simp: eval_expr.psimps split: option.split intro!: spend_intros)
next
  case 6
  then show ?case
    by (auto simp: eval_expr.psimps split: option.split intro!: spend_intros)
next
  case 7
  then show ?case
    by (auto simp: eval_expr.psimps split: option.split intro!: spend_intros)
next
  case 8
  then show ?case
    by (auto simp: eval_args.psimps split: option.split intro!: spend_intros)
next
  case 9
  then show ?case
    by (auto simp: eval_args.psimps split: option.split intro!: spend_intros)
next
  case 10
  then show ?case
    by (auto simp: call_function.psimps split: option.split intro!: spend_intros)
next
  case 11
  then show ?case
    by (auto simp: exec_block.psimps split: option.split intro!: spend_intros)
next
  case 12
  then show ?case
    by (auto simp: exec_block.psimps split: option.split intro!: spend_intros)
next
  case 13
  then show ?case
    by (auto simp: exec_stmt.psimps split: option.split intro!: spend_intros)
next
  case 14
  then show ?case
    by (auto simp: exec_stmt.psimps split: option.split intro!: spend_intros)
next
  case 15
  then show ?case
    by (auto simp: exec_stmt.psimps split: option.split intro!: spend_intros)
next
  case 16
  then show ?case
    by (auto simp: exec_stmt.psimps split: option.split intro!: spend_intros)
next
  case 17
  then show ?case
    by (auto simp: exec_stmt.psimps split: option.split intro!: spend_intros)
next
  case 18
  then show ?case
    by (auto simp: exec_stmt.psimps split: option.split intro!: spend_intros)
next
  case 19
  then show ?case
    by (auto simp: exec_stmt.psimps split: option.split intro!: spend_intros)
next
  case 20
  then show ?case
    by (auto simp: exec_while.psimps split: option.split intro!: spend_intros)
qed

lemma spent_cycles:
  "eval_expr p e s = (Inr v, t) \<Longrightarrow>
     eval_expr_eval_args_call_function_exec_block_exec_stmt_exec_while_dom (Inl (Inl (p, e, s))) \<Longrightarrow>
     os_cycles s < os_cycles t \<and> os_cycles t \<le> MAX_CYCLES"
  "eval_args p es s = (Inr vs, t) \<Longrightarrow>
     eval_expr_eval_args_call_function_exec_block_exec_stmt_exec_while_dom (Inl (Inr (Inl (p, es, s)))) \<Longrightarrow>
     os_cycles s \<le> os_cycles t"
  "exec_block p ss s = (Inr c, t) \<Longrightarrow>
     eval_expr_eval_args_call_function_exec_block_exec_stmt_exec_while_dom (Inr (Inl (p, ss, s))) \<Longrightarrow>
     os_cycles s \<le> os_cycles t"
  "exec_stmt p st s = (Inr c, t) \<Longrightarrow>
     eval_expr_eval_args_call_function_exec_block_exec_stmt_exec_while_dom (Inr (Inr (Inl (p, st, s)))) \<Longrightarrow>
     os_cycles s < os_cycles t \<and> os_cycles t \<le> MAX_CYCLES"
  "ensure_declared n s = (Inr u, t) \<Longrightarrow> os_cycles t = os_cycles s"
  using spent [of p] by (fastforce simp: spending_def lasting_def spends_def ensure_declared_def insert_slot_def
      split: if_splits list.splits)+

termination eval_expr
  by (relation "measures [
    \<lambda>x. MAX_CYCLES - (case x of
        Inl (Inl (p, e, s)) \<Rightarrow> os_cycles s | Inl (Inr (Inl (p, es, s))) \<Rightarrow> os_cycles s
      | Inl (Inr (Inr (p, name, args, s))) \<Rightarrow> os_cycles s | Inr (Inl (p, ss, s)) \<Rightarrow> os_cycles s
      | Inr (Inr (Inl (p, st, s))) \<Rightarrow> os_cycles s | Inr (Inr (Inr (p, cond, body, s))) \<Rightarrow> os_cycles s),
    \<lambda>x. case x of
        Inl (Inl (p, e, s)) \<Rightarrow> 0 | Inl (Inr (Inl (p, es, s))) \<Rightarrow> Suc (length es)
      | Inl (Inr (Inr (p, name, args, s))) \<Rightarrow> 0 | Inr (Inl (p, ss, s)) \<Rightarrow> Suc (length ss)
      | Inr (Inr (Inl (p, st, s))) \<Rightarrow> 0 | Inr (Inr (Inr (p, cond, body, s))) \<Rightarrow> 1]")
    (simp_all add: tick_Inr, (force dest!: spent_cycles)+)

section \<open>A whole program\<close>

fun initialize_globals :: "program \<Rightarrow> global_var list \<Rightarrow> ast_oracle \<Rightarrow> unit oracle_res" where
  "initialize_globals p [] s = (Inr (), s)"
| "initialize_globals p (g # gs) s =
     (case gv_init g of
        None \<Rightarrow> initialize_globals p gs s
      | Some e \<Rightarrow>
          bnd (eval_expr p e s) (\<lambda>v s.
          bnd (assign_global_scalar (gv_name g) v s) (\<lambda>_ s.
          initialize_globals p gs s)))"

text \<open>A panic is the left alternative.\<close>

definition oracle_run :: "program \<Rightarrow> ast_oracle \<Rightarrow> string + oracle_outcome" where
  "oracle_run p s =
     (case bnd (initialize_globals p (p_globals p) s) (\<lambda>_ s. call_function p ''main'' [] s) of
        (Inr v, s) \<Rightarrow> Inr (outcome_ok v (os_output s))
      | (Inl (Trap code msg), s) \<Rightarrow> Inr (outcome_trap code msg (os_output s))
      | (Inl (Panic msg), s) \<Rightarrow> Inl msg)"

definition run_ast_oracle :: "program \<Rightarrow> string + oracle_outcome" where
  "run_ast_oracle p =
     (case declare_globals (p_globals p) (\<lambda>_. None) of
        Inr globals \<Rightarrow> oracle_run p (oracle_new globals)
      | Inl (Panic msg) \<Rightarrow> Inl msg
      | Inl (Trap code msg) \<Rightarrow> Inl msg)"

end
