(* ===== verification/Type_Safety.thy ===== *)
theory Type_Safety
  imports Oracle Sema_Props
begin

text \<open>
  Type safety of MiniLang: a program the analyser accepts never panics the reference interpreter,
  and stops only for the reasons the language has. The interpreter keeps one scope per call, so
  variables of sibling blocks share a slot; a program is required to give such variables one size.
\<close>

section \<open>The variables of a function\<close>

fun decls_of :: "stmt \<Rightarrow> (string \<times> i32 option) list"
and decls_of_list :: "stmt list \<Rightarrow> (string \<times> i32 option) list"
where
  "decls_of (S_VarDecl t n init sz sp) = [(n, sz)]"
| "decls_of (S_If c th el sp) =
     decls_of_list th @ (case el of None \<Rightarrow> [] | Some ss \<Rightarrow> decls_of_list ss)"
| "decls_of (S_While c body sp) = decls_of_list body"
| "decls_of (S_Assign target idx v sp) = []"
| "decls_of (S_Return v sp) = []"
| "decls_of (S_Print v sp) = []"
| "decls_of (S_ExprStmt e sp) = []"
| "decls_of_list [] = []"
| "decls_of_list (s # ss) = decls_of s @ decls_of_list ss"

type_synonym sizes = "string \<Rightarrow> i32 option option"

definition var_sizes :: "func \<Rightarrow> sizes" where
  "var_sizes f = map_of (map (\<lambda>x. (par_name x, None)) (fn_params f) @ decls_of_list (fn_body f))"

definition global_sizes :: "program \<Rightarrow> sizes" where
  "global_sizes p = map_of (map (\<lambda>g. (gv_name g, gv_array_size g)) (p_globals p))"

text \<open>All declarations of a name in a function agree on its size.\<close>

definition uniform_decls :: "func \<Rightarrow> bool" where
  "uniform_decls f \<longleftrightarrow> list_all (\<lambda>d. var_sizes f (fst d) = Some (snd d)) (decls_of_list (fn_body f))"

text \<open>
  What a parsed program satisfies (literals and sizes are 32-bit values, an array has no initialiser)
  and, with \<open>m\<close> false, that no call names \<open>main\<close>.
\<close>

definition i32_option :: "i32 option \<Rightarrow> bool" where
  "i32_option sz \<longleftrightarrow> (case sz of None \<Rightarrow> True | Some n \<Rightarrow> is_i32 n)"

fun expr_plain :: "bool \<Rightarrow> expr \<Rightarrow> bool" and args_plain :: "bool \<Rightarrow> expr list \<Rightarrow> bool" where
  "expr_plain m (E_IntLiteral v sp) \<longleftrightarrow> is_i32 v"
| "expr_plain m (E_BoolLiteral b sp) \<longleftrightarrow> True"
| "expr_plain m (E_Identifier n sp) \<longleftrightarrow> True"
| "expr_plain m (E_Binary op l r sp) \<longleftrightarrow> expr_plain m l \<and> expr_plain m r"
| "expr_plain m (E_Unary op e sp) \<longleftrightarrow> expr_plain m e"
| "expr_plain m (E_Call n args sp) \<longleftrightarrow> (m \<or> n \<noteq> ''main'') \<and> args_plain m args"
| "expr_plain m (E_ArrayIndex n i sp) \<longleftrightarrow> expr_plain m i"
| "args_plain m [] \<longleftrightarrow> True"
| "args_plain m (a # as) \<longleftrightarrow> expr_plain m a \<and> args_plain m as"

definition opt_plain :: "bool \<Rightarrow> expr option \<Rightarrow> bool" where
  "opt_plain m init \<longleftrightarrow> (case init of None \<Rightarrow> True | Some e \<Rightarrow> expr_plain m e)"

fun stmt_plain :: "bool \<Rightarrow> stmt \<Rightarrow> bool" and stmts_plain :: "bool \<Rightarrow> stmt list \<Rightarrow> bool" where
  "stmt_plain m (S_VarDecl t n init sz sp) \<longleftrightarrow> opt_plain m init \<and> i32_option sz"
| "stmt_plain m (S_Assign target idx v sp) \<longleftrightarrow> opt_plain m idx \<and> expr_plain m v"
| "stmt_plain m (S_If c th el sp) \<longleftrightarrow>
     expr_plain m c \<and> stmts_plain m th \<and> (case el of None \<Rightarrow> True | Some ss \<Rightarrow> stmts_plain m ss)"
| "stmt_plain m (S_While c body sp) \<longleftrightarrow> expr_plain m c \<and> stmts_plain m body"
| "stmt_plain m (S_Return v sp) \<longleftrightarrow> expr_plain m v"
| "stmt_plain m (S_Print v sp) \<longleftrightarrow> expr_plain m v"
| "stmt_plain m (S_ExprStmt e sp) \<longleftrightarrow> expr_plain m e"
| "stmts_plain m [] \<longleftrightarrow> True"
| "stmts_plain m (s # ss) \<longleftrightarrow> stmt_plain m s \<and> stmts_plain m ss"

definition program_plain :: "bool \<Rightarrow> program \<Rightarrow> bool" where
  "program_plain m p \<longleftrightarrow>
     list_all (\<lambda>g. opt_plain m (gv_init g) \<and> i32_option (gv_array_size g) \<and>
       (gv_array_size g = None \<or> gv_init g = None)) (p_globals p) \<and>
     list_all (\<lambda>f. stmts_plain m (fn_body f)) (p_functions p)"

definition typed_source :: "bool \<Rightarrow> program \<Rightarrow> bool" where
  "typed_source m p \<longleftrightarrow> well_formed p \<and> program_plain m p \<and> list_all uniform_decls (p_functions p)"

section \<open>Typed states\<close>

definition slot_fits :: "i32 option \<Rightarrow> oracle_slot \<Rightarrow> bool" where
  "slot_fits sz slot \<longleftrightarrow>
     (case slot of
        SScalar v \<Rightarrow> sz = None \<and> (\<forall>x. v = Some x \<longrightarrow> is_i32 x)
      | SArray vs \<Rightarrow> (\<exists>n. sz = Some n \<and> 0 < n \<and> is_i32 n \<and> length vs = nat n) \<and> (\<forall>x \<in> set vs. is_i32 x))"

definition globals_fit :: "program \<Rightarrow> oracle_scope \<Rightarrow> bool" where
  "globals_fit p gl \<longleftrightarrow>
     (\<forall>n. case global_sizes p n of
            None \<Rightarrow> gl n = None
          | Some sz \<Rightarrow> \<exists>slot. gl n = Some slot \<and> slot_fits sz slot \<and> slot \<noteq> SScalar None)"

definition scope_fits :: "sizes \<Rightarrow> oracle_scope \<Rightarrow> bool" where
  "scope_fits V sc \<longleftrightarrow> (\<forall>n slot. sc n = Some slot \<longrightarrow> (\<exists>sz. V n = Some sz \<and> slot_fits sz slot))"

definition top_scope :: "ast_oracle \<Rightarrow> oracle_scope" where
  "top_scope s = (case os_frames s of f # _ \<Rightarrow> (case of_scopes f of [sc] \<Rightarrow> sc | _ \<Rightarrow> Map.empty) | [] \<Rightarrow> Map.empty)"

text \<open>A typed state: \<open>V\<close> gives the variables of the running function, none while globals are initialised.\<close>

definition state_fits :: "program \<Rightarrow> sizes \<Rightarrow> ast_oracle \<Rightarrow> bool" where
  "state_fits p V s \<longleftrightarrow>
     globals_fit p (os_globals s) \<and> scope_fits V (top_scope s) \<and>
     (case os_frames s of [] \<Rightarrow> V = Map.empty | f # _ \<Rightarrow> \<exists>sc. of_scopes f = [sc]) \<and>
     (\<forall>n. V n \<noteq> None \<longrightarrow> global_sizes p n = None)"

definition size_at :: "program \<Rightarrow> sizes \<Rightarrow> sizes" where
  "size_at p V n = (case V n of Some sz \<Rightarrow> Some sz | None \<Rightarrow> global_sizes p n)"

definition env_fits :: "program \<Rightarrow> sizes \<Rightarrow> env \<Rightarrow> bool" where
  "env_fits p V G \<longleftrightarrow>
     (\<forall>n y. G n = Some y \<longrightarrow>
        (if sym_is_function y then \<not> sym_is_array y
         else \<exists>sz. size_at p V n = Some sz \<and> sym_is_array y = (sz \<noteq> None)))"

text \<open>The variables of the environment have been declared.\<close>

definition scoped :: "sizes \<Rightarrow> env \<Rightarrow> ast_oracle \<Rightarrow> bool" where
  "scoped V G s \<longleftrightarrow> (\<forall>n. G n \<noteq> None \<longrightarrow> V n \<noteq> None \<longrightarrow> top_scope s n \<noteq> None)"

definition typed_state :: "program \<Rightarrow> sizes \<Rightarrow> env \<Rightarrow> ast_oracle \<Rightarrow> bool" where
  "typed_state p V G s \<longleftrightarrow> state_fits p V s \<and> env_fits p V G \<and> scoped V G s"

lemma lookup_top:
  "state_fits p V s \<Longrightarrow>
     lookup_slot s n = (case top_scope s n of Some slot \<Rightarrow> Some slot | None \<Rightarrow> os_globals s n)"
  by (auto simp: lookup_slot_def top_scope_def state_fits_def split: list.splits option.splits)

lemma lookup_fits:
  assumes s: "state_fits p V s" and l: "lookup_slot s n = Some slot"
  obtains sz where "size_at p V n = Some sz" "slot_fits sz slot"
proof (cases "top_scope s n")
  case None
  with s l have g: "os_globals s n = Some slot" by (simp add: lookup_top)
  from s have "case global_sizes p n of None \<Rightarrow> os_globals s n = None
      | Some sz \<Rightarrow> \<exists>slot. os_globals s n = Some slot \<and> slot_fits sz slot \<and> slot \<noteq> SScalar None"
    by (simp add: state_fits_def globals_fit_def)
  with g obtain sz where sz: "global_sizes p n = Some sz" "slot_fits sz slot" by (auto split: option.splits)
  moreover have "V n = None" using s sz(1) by (auto simp: state_fits_def)
  ultimately show ?thesis using that by (simp add: size_at_def)
next
  case (Some slot')
  with s l have "top_scope s n = Some slot" by (simp add: lookup_top)
  with s obtain sz where "V n = Some sz" "slot_fits sz slot" unfolding state_fits_def scope_fits_def by blast
  with that show ?thesis by (simp add: size_at_def)
qed

lemma typed_lookup:
  assumes s: "typed_state p V G s" and y: "G n = Some y" "\<not> sym_is_function y"
  obtains slot sz where "lookup_slot s n = Some slot" "size_at p V n = Some sz" "slot_fits sz slot"
    "sym_is_array y = (sz \<noteq> None)"
proof -
  from s y obtain sz where sz: "size_at p V n = Some sz" "sym_is_array y = (sz \<noteq> None)"
    unfolding typed_state_def env_fits_def by (metis (full_types))
  from s have st: "state_fits p V s" by (simp add: typed_state_def)
  have "lookup_slot s n \<noteq> None"
  proof (cases "V n")
    case None
    with sz have "global_sizes p n = Some sz" by (simp add: size_at_def)
    with st have "os_globals s n \<noteq> None" by (force simp: state_fits_def globals_fit_def split: option.splits)
    then show ?thesis by (simp add: lookup_top [OF st] split: option.split)
  next
    case (Some sz')
    with s y have "top_scope s n \<noteq> None" by (auto simp: typed_state_def scoped_def)
    then show ?thesis by (auto simp: lookup_top [OF st])
  qed
  then obtain slot where l: "lookup_slot s n = Some slot" by auto
  from lookup_fits [OF st l] obtain sz' where "size_at p V n = Some sz'" "slot_fits sz' slot" .
  with sz l show ?thesis by (intro that) auto
qed

section \<open>Safe results\<close>

text \<open>The ways a typed program stops.\<close>

definition language_error :: "vm_error \<Rightarrow> bool" where
  "language_error e \<longleftrightarrow>
     (\<exists>code msg. e = Trap code msg \<and>
        code \<in> {DivideByZero, ArrayOutOfBounds, UndefinedLocal, StackOverflow, CycleLimit})"

definition safe :: "'a oracle_res \<Rightarrow> ('a \<Rightarrow> ast_oracle \<Rightarrow> bool) \<Rightarrow> bool" where
  "safe r Q \<longleftrightarrow> post r Q (\<lambda>e t. language_error e)"

lemma safe_bnd:
  assumes "safe r Q" "\<And>a t. r = (Inr a, t) \<Longrightarrow> Q a t \<Longrightarrow> safe (k a t) R"
  shows "safe (bnd r k) R"
  using assms by (cases r; cases "fst r") (auto simp: safe_def)

lemma safe_Inr [simp]: "safe (Inr a, t) Q = Q a t"
  by (simp add: safe_def)

lemma safe_Inl [simp]: "safe (Inl e, t) Q = language_error e"
  by (simp add: safe_def)

lemma safe_mono: "safe r Q \<Longrightarrow> (\<And>a t. r = (Inr a, t) \<Longrightarrow> Q a t \<Longrightarrow> R a t) \<Longrightarrow> safe r R"
  by (cases r; cases "fst r") (auto simp: safe_def)

lemma safe_result: "safe r Q \<Longrightarrow> r = (Inr a, t) \<Longrightarrow> Q a t"
  by (simp add: safe_def)

lemma language_error_simps [simp]:
  "language_error (Trap code msg) \<longleftrightarrow>
     code \<in> {DivideByZero, ArrayOutOfBounds, UndefinedLocal, StackOverflow, CycleLimit}"
  "\<not> language_error (Panic msg)"
  by (simp_all add: language_error_def)

text \<open>Only the cycles differ.\<close>

lemma safe_tick:
  assumes "\<And>t. tick s = (Inr (), t) \<Longrightarrow> t = s\<lparr>os_cycles := os_cycles s + 1\<rparr> \<Longrightarrow> safe (k () t) Q"
  shows "safe (bnd (tick s) k) Q"
proof (cases "os_cycles s < MAX_CYCLES")
  case True
  then have "tick s = (Inr (), s\<lparr>os_cycles := os_cycles s + 1\<rparr>)" by (simp add: tick_Inr)
  with assms show ?thesis by simp
next
  case False
  then show ?thesis by (simp add: tick_def Let_def MAX_CYCLES_def)
qed

lemma typed_state_cycles [simp]:
  "top_scope (s\<lparr>os_cycles := c\<rparr>) = top_scope s" "typed_state p V G (s\<lparr>os_cycles := c\<rparr>) = typed_state p V G s"
  "state_fits p V (s\<lparr>os_cycles := c\<rparr>) = state_fits p V s" "scoped V G (s\<lparr>os_cycles := c\<rparr>) = scoped V G s"
  "lookup_slot (s\<lparr>os_cycles := c\<rparr>) = lookup_slot s"
  by (simp_all add: top_scope_def typed_state_def state_fits_def scoped_def lookup_slot_def fun_eq_iff split: list.split option.split)

text \<open>An expression changes globals, output and cycles only.\<close>

definition value_safe :: "program \<Rightarrow> sizes \<Rightarrow> env \<Rightarrow> ast_oracle \<Rightarrow> i64 oracle_res \<Rightarrow> bool" where
  "value_safe p V G s r \<longleftrightarrow> safe r (\<lambda>v t. is_i32 v \<and> typed_state p V G t \<and> os_frames t = os_frames s)"

lemma typed_globals:
  "typed_state p V G s \<Longrightarrow> globals_fit p (os_globals t) \<Longrightarrow> os_frames t = os_frames s \<Longrightarrow> typed_state p V G t"
  by (simp add: typed_state_def state_fits_def scoped_def top_scope_def)

lemma typed_globals_fit: "typed_state p V G s \<Longrightarrow> globals_fit p (os_globals s)"
  by (simp add: typed_state_def state_fits_def)

lemma read_scalar_safe:
  assumes s: "typed_state p V G s" and y: "G n = Some y" "\<not> sym_is_function y" "\<not> sym_is_array y"
  shows "safe (read_scalar n s, s) (\<lambda>v t. is_i32 v \<and> t = s)"
proof -
  from typed_lookup [OF s y(1,2)] y(3) obtain slot where "lookup_slot s n = Some slot" "slot_fits None slot" by metis
  then show ?thesis
    by (auto simp: read_scalar_def slot_fits_def split: oracle_slot.splits option.splits)
qed

lemma read_array_safe:
  assumes s: "typed_state p V G s" and y: "G n = Some y" "\<not> sym_is_function y" "sym_is_array y"
  shows "safe (read_array n i s, s) (\<lambda>v t. is_i32 v \<and> t = s)"
proof -
  from typed_lookup [OF s y(1,2)] y(3) obtain slot sz where "lookup_slot s n = Some slot" "slot_fits sz slot" "sz \<noteq> None"
    by metis
  then show ?thesis
    by (auto simp: read_array_def slot_fits_def oracle_index_error_def split: oracle_slot.splits option.splits)
qed

lemma checked_index_safe: "safe (checked_array_index v, s) (\<lambda>i t. t = s \<and> int i = v)"
  by (simp add: checked_array_index_def)

lemma i32_values [simp]: "is_i32 (truth b)" "is_i32 a \<Longrightarrow> a \<noteq> i64_min"
  by (auto simp: truth_def is_i32_def i64_min_def)

lemma eval_binary_safe:
  assumes "is_i32 a" "is_i32 b" "op \<noteq> Bin_And" "op \<noteq> Bin_Or"
  shows "safe (eval_binary op a b, s) (\<lambda>v t. is_i32 v \<and> t = s)"
  using assms by (cases op) (simp_all add: eval_binary_def)

lemma eval_unary_safe: "is_i32 a \<Longrightarrow> safe (eval_unary op a, s) (\<lambda>v t. is_i32 v \<and> t = s)"
  by (cases op) (simp_all add: eval_unary_def)

section \<open>Writing a variable\<close>

definition put_slot :: "string \<Rightarrow> oracle_slot \<Rightarrow> ast_oracle \<Rightarrow> ast_oracle" where
  "put_slot n slot s =
     s\<lparr>os_frames := (hd (os_frames s))\<lparr>of_scopes := [(top_scope s)(n \<mapsto> slot)]\<rparr> # tl (os_frames s)\<rparr>"

lemma put_slot_simps [simp]:
  "top_scope (put_slot n slot s) = (top_scope s)(n \<mapsto> slot)" "os_globals (put_slot n slot s) = os_globals s"
  "tl (os_frames (put_slot n slot s)) = tl (os_frames s)" "os_frames (put_slot n slot s) \<noteq> []"
  "os_output (put_slot n slot s) = os_output s" "os_cycles (put_slot n slot s) = os_cycles s"
  by (simp_all add: put_slot_def top_scope_def)

lemma top_scope_frame:
  assumes "state_fits p V s" "os_frames s \<noteq> []"
  obtains f fs where "os_frames s = f # fs" "of_scopes f = [top_scope s]"
  using assms by (cases "os_frames s") (auto simp: state_fits_def top_scope_def)

lemma set_slot_local:
  assumes s: "state_fits p V s" and n: "top_scope s n \<noteq> None"
  shows "set_slot n slot s = put_slot n slot s"
proof -
  from n have "os_frames s \<noteq> []" by (auto simp: top_scope_def)
  from top_scope_frame [OF s this] obtain f fs where "os_frames s = f # fs" "of_scopes f = [top_scope s]" .
  with n show ?thesis by (auto simp: set_slot_def put_slot_def)
qed

lemma set_slot_global:
  assumes s: "state_fits p V s" and n: "top_scope s n = None"
  shows "set_slot n slot s = s\<lparr>os_globals := (os_globals s)(n \<mapsto> slot)\<rparr>"
proof (cases "os_frames s")
  case (Cons f fs)
  with s n have "lookup_scopes (of_scopes f) n = None" by (auto simp: state_fits_def top_scope_def)
  with Cons show ?thesis by (simp add: set_slot_def)
qed (simp add: set_slot_def)

lemma put_slot_fits:
  "state_fits p V s \<Longrightarrow> V n = Some sz \<Longrightarrow> slot_fits sz slot \<Longrightarrow> os_frames s \<noteq> [] \<Longrightarrow> state_fits p V (put_slot n slot s)"
  by (auto simp: state_fits_def scope_fits_def) (auto simp: put_slot_def)

text \<open>What a statement leaves: a typed state of the same call, with no fewer variables.\<close>

definition moves :: "program \<Rightarrow> sizes \<Rightarrow> ast_oracle \<Rightarrow> ast_oracle \<Rightarrow> bool" where
  "moves p V s t \<longleftrightarrow> state_fits p V t \<and> os_frames t \<noteq> [] \<and> tl (os_frames t) = tl (os_frames s) \<and>
     dom (top_scope s) \<subseteq> dom (top_scope t)"

lemma moves_trans: "moves p V s t \<Longrightarrow> moves p V t u \<Longrightarrow> moves p V s u"
  by (auto simp: moves_def)

lemma typed_moves: "typed_state p V G s \<Longrightarrow> moves p V s t \<Longrightarrow> typed_state p V G t"
  by (force simp: typed_state_def moves_def scoped_def)

lemma moves_frames: "typed_state p V G t \<Longrightarrow> os_frames t = os_frames s \<Longrightarrow> os_frames s \<noteq> [] \<Longrightarrow> moves p V s t"
  by (simp add: moves_def typed_state_def top_scope_def)

lemma moves_put:
  "state_fits p V s \<Longrightarrow> V n = Some sz \<Longrightarrow> slot_fits sz slot \<Longrightarrow> os_frames s \<noteq> [] \<Longrightarrow> moves p V s (put_slot n slot s)"
  by (auto simp: moves_def put_slot_fits)

lemma globals_fit_update:
  assumes "globals_fit p gl" "global_sizes p n = Some sz" "slot_fits sz slot" "slot \<noteq> SScalar None"
  shows "globals_fit p (gl(n \<mapsto> slot))"
  unfolding globals_fit_def
proof
  fix k
  show "case global_sizes p k of None \<Rightarrow> (gl(n \<mapsto> slot)) k = None
      | Some sz \<Rightarrow> \<exists>slot'. (gl(n \<mapsto> slot)) k = Some slot' \<and> slot_fits sz slot' \<and> slot' \<noteq> SScalar None"
    using assms(1) [unfolded globals_fit_def, THEN spec, of k] assms(2-4)
    by (cases "k = n"; cases "global_sizes p k") simp_all
qed

lemma set_slot_moves:
  assumes s: "state_fits p V s" "os_frames s \<noteq> []" and l: "lookup_slot s n \<noteq> None"
    and sz: "size_at p V n = Some sz" "slot_fits sz slot" "slot \<noteq> SScalar None"
  shows "moves p V s (set_slot n slot s)"
proof (cases "top_scope s n")
  case None
  with l s have "os_globals s n \<noteq> None" by (simp add: lookup_top)
  with s have g: "global_sizes p n \<noteq> None" by (force simp: state_fits_def globals_fit_def split: option.splits)
  with s have "V n = None" by (auto simp: state_fits_def)
  with sz g have W: "global_sizes p n = Some sz" by (simp add: size_at_def)
  let ?t = "s\<lparr>os_globals := (os_globals s)(n \<mapsto> slot)\<rparr>"
  have "globals_fit p (os_globals ?t)"
    using s(1) sz W by (simp add: state_fits_def globals_fit_update)
  moreover have "top_scope ?t = top_scope s" by (simp add: top_scope_def)
  ultimately have "moves p V s ?t" using s by (simp add: moves_def state_fits_def)
  then show ?thesis by (simp add: set_slot_global [OF s(1) None])
next
  case (Some slot')
  with s(1) obtain sz' where "V n = Some sz'" unfolding state_fits_def scope_fits_def by blast
  with sz have "V n = Some sz" by (simp add: size_at_def)
  with s sz Some show ?thesis by (simp add: set_slot_local moves_put)
qed

lemma declare_local:
  assumes s: "state_fits p V s" "os_frames s \<noteq> []" and n: "V n \<noteq> None"
  shows "declare_or_update n slot s = (Inr (), put_slot n slot s)"
    and "ensure_declared n s = (Inr (), if top_scope s n = None then put_slot n (SScalar None) s else s)"
proof -
  obtain f fs where f: "os_frames s = f # fs" "of_scopes f = [top_scope s]" using top_scope_frame [OF s] .
  from s n have "os_globals s n = None" by (force simp: state_fits_def globals_fit_def split: option.splits)
  then have l: "lookup_slot s n = top_scope s n" by (simp add: lookup_top [OF s(1)] split: option.split)
  have i: "insert_slot n x s = (Inr (), put_slot n x s)" for x
    using f by (simp add: insert_slot_def put_slot_def)
  show "declare_or_update n slot s = (Inr (), put_slot n slot s)"
    using set_slot_local [OF s(1)] by (simp add: declare_or_update_def l i)
  show "ensure_declared n s = (Inr (), if top_scope s n = None then put_slot n (SScalar None) s else s)"
    by (simp add: ensure_declared_def l i)
qed

section \<open>Facts of the static semantics\<close>

definition decls_fit :: "sizes \<Rightarrow> (string \<times> i32 option) list \<Rightarrow> bool" where
  "decls_fit V ds \<longleftrightarrow> (\<forall>(n, sz) \<in> set ds. V n = Some sz)"

lemma decls_fit_simps [simp]:
  "decls_fit V []" "decls_fit V ((n, sz) # ds) \<longleftrightarrow> V n = Some sz \<and> decls_fit V ds"
  "decls_fit V (ds @ es) \<longleftrightarrow> decls_fit V ds \<and> decls_fit V es"
  by (auto simp: decls_fit_def)

lemma bind_stmt_other: "G n \<noteq> None \<Longrightarrow> stmt_ok G F st \<Longrightarrow> bind_stmt st G n = G n"
  by (cases st) auto

text \<open>Declared names are new in the environment of their statement.\<close>

lemma declared_new:
  "stmt_ok G F st \<Longrightarrow> (n, sz) \<in> set (decls_of st) \<Longrightarrow> G n = None"
  "stmts_ok G F ss \<Longrightarrow> (n, sz) \<in> set (decls_of_list ss) \<Longrightarrow> G n = None"
proof (induction st and ss arbitrary: G and G rule: decls_of_decls_of_list.induct)
  case (2 c th el sp)
  then show ?case by (cases el) auto
next
  case (9 s ss)
  have "stmt_ok G F s" "stmts_ok (bind_stmt s G) F ss" using "9.prems"(1) by simp_all
  moreover have "(n, sz) \<in> set (decls_of s) \<or> (n, sz) \<in> set (decls_of_list ss)" using "9.prems"(2) by simp
  ultimately show ?case using "9.IH" bind_stmt_other [of G n F s] by metis
qed auto

lemma global_sizes_env:
  assumes "well_formed p"
  shows "global_sizes p n = Some sz \<Longrightarrow> \<exists>y. top_env p n = Some y \<and> \<not> sym_is_function y \<and> sym_is_array y = (sz \<noteq> None)"
    and "top_env p n = Some y \<Longrightarrow> sym_is_function y \<Longrightarrow> \<not> sym_is_array y"
    and "top_env p n = Some y \<Longrightarrow> \<not> sym_is_function y \<Longrightarrow> \<exists>sz. global_sizes p n = Some sz \<and> sym_is_array y = (sz \<noteq> None)"
proof -
  have d: "distinct (map fst (top_symbols p))" using assms by (simp add: well_formed_def)
  have gs: "distinct (map fst (map (\<lambda>g. (gv_name g, gv_array_size g)) (p_globals p)))"
    using d by (simp add: top_symbols_def comp_def)
  show "global_sizes p n = Some sz \<Longrightarrow> \<exists>y. top_env p n = Some y \<and> \<not> sym_is_function y \<and> sym_is_array y = (sz \<noteq> None)"
  proof -
    assume "global_sizes p n = Some sz"
    then have "(n, sz) \<in> set (map (\<lambda>g. (gv_name g, gv_array_size g)) (p_globals p))"
      using gs by (simp add: global_sizes_def)
    then obtain g where g: "g \<in> set (p_globals p)" "n = gv_name g" "sz = gv_array_size g" by auto
    then have "(n, global_symbol g) \<in> set (top_symbols p)" by (auto simp: top_symbols_def)
    with d have "top_env p n = Some (global_symbol g)" by (simp add: top_env_def)
    with g show ?thesis by (simp add: global_symbol_def declared_def variable_symbol_def)
  qed
  show "top_env p n = Some y \<Longrightarrow> sym_is_function y \<Longrightarrow> \<not> sym_is_array y"
    by (drule map_of_SomeD [of "top_symbols p", folded top_env_def])
      (auto simp: top_symbols_def function_symbol_def global_symbol_def declared_def variable_symbol_def)
  show "top_env p n = Some y \<Longrightarrow> \<not> sym_is_function y \<Longrightarrow> \<exists>sz. global_sizes p n = Some sz \<and> sym_is_array y = (sz \<noteq> None)"
  proof -
    assume y: "top_env p n = Some y" "\<not> sym_is_function y"
    then have "(n, y) \<in> set (top_symbols p)" using d by (simp add: top_env_def)
    with y(2) obtain g where g: "g \<in> set (p_globals p)" "n = gv_name g" "y = global_symbol g"
      by (auto simp: top_symbols_def function_symbol_def)
    then have "(n, gv_array_size g) \<in> set (map (\<lambda>g. (gv_name g, gv_array_size g)) (p_globals p))" by auto
    with gs have "global_sizes p n = Some (gv_array_size g)" unfolding global_sizes_def by (rule map_of_is_SomeI)
    with g show ?thesis by (simp add: global_symbol_def declared_def variable_symbol_def)
  qed
qed

text \<open>The environment a body starts with.\<close>

definition body_env :: "program \<Rightarrow> func \<Rightarrow> env" where
  "body_env p f = fold bind_param (fn_params f) (top_env p)"

lemma fold_bind_param:
  "fold bind_param ps G n =
     (if n \<in> par_name ` set ps then (fold bind_param ps G n) else G n)"
  "n \<in> par_name ` set ps \<Longrightarrow> \<exists>y. fold bind_param ps G n = Some y \<and> \<not> sym_is_function y \<and> \<not> sym_is_array y"
proof -
  show "fold bind_param ps G n = (if n \<in> par_name ` set ps then (fold bind_param ps G n) else G n)"
    by (induction ps arbitrary: G) (auto simp: bind_param_def)
  show "n \<in> par_name ` set ps \<Longrightarrow> \<exists>y. fold bind_param ps G n = Some y \<and> \<not> sym_is_function y \<and> \<not> sym_is_array y"
  proof (induction ps rule: rev_induct)
    case (snoc x ps)
    then show ?case by (auto simp: bind_param_def declared_def variable_symbol_def)
  qed simp
qed

lemma var_sizes_param: "n \<in> par_name ` set (fn_params f) \<Longrightarrow> var_sizes f n = Some None"
proof -
  have "n \<in> par_name ` set ps \<Longrightarrow> map_of (map (\<lambda>x. (par_name x, None)) ps @ ds) n = Some None" for ps ds
    by (induction ps) auto
  then show "n \<in> par_name ` set (fn_params f) \<Longrightarrow> var_sizes f n = Some None" by (simp add: var_sizes_def)
qed

lemma var_sizes_dom:
  "var_sizes f n \<noteq> None \<longleftrightarrow> n \<in> par_name ` set (fn_params f) \<or> n \<in> fst ` set (decls_of_list (fn_body f))"
  by (auto simp: var_sizes_def map_of_eq_None_iff image_iff simp flip: not_None_eq)

lemma function_facts:
  assumes p: "typed_source m p" and f: "f \<in> set (p_functions p)"
  shows "stmts_ok (body_env p f) (function_env p) (fn_body f)" "stmts_plain m (fn_body f)"
    "decls_fit (var_sizes f) (decls_of_list (fn_body f))"
    "var_sizes f n \<noteq> None \<Longrightarrow> top_env p n = None"
    "env_fits p (var_sizes f) (body_env p f)"
    "distinct (map par_name (fn_params f))" "frame_slots f \<le> MAX_LOCAL_SLOTS"
proof -
  from p f have ok: "function_ok p f" and wf: "well_formed p" by (auto simp: typed_source_def well_formed_def)
  from ok show stmts: "stmts_ok (body_env p f) (function_env p) (fn_body f)"
    and "distinct (map par_name (fn_params f))" "frame_slots f \<le> MAX_LOCAL_SLOTS"
    by (simp_all add: function_ok_def body_env_def)
  from p f show "stmts_plain m (fn_body f)" by (auto simp: typed_source_def program_plain_def list_all_iff)
  from p f show "decls_fit (var_sizes f) (decls_of_list (fn_body f))"
    by (fastforce simp: typed_source_def uniform_decls_def decls_fit_def list_all_iff)
  have params: "top_env p n = None" if "n \<in> par_name ` set (fn_params f)" for n
    using ok that by (auto simp: function_ok_def)
  have new: "top_env p n = None" if n: "var_sizes f n \<noteq> None" for n
  proof (cases "n \<in> par_name ` set (fn_params f)")
    case False
    with n obtain sz where "(n, sz) \<in> set (decls_of_list (fn_body f))" unfolding var_sizes_dom by auto
    from declared_new(2) [OF stmts this] have "body_env p f n = None" .
    with False show ?thesis unfolding body_env_def by (subst (asm) fold_bind_param(1)) simp
  qed (simp add: params)
  then show "var_sizes f n \<noteq> None \<Longrightarrow> top_env p n = None" .
  show "env_fits p (var_sizes f) (body_env p f)"
    unfolding env_fits_def
  proof (intro allI impI)
    fix n y
    assume y: "body_env p f n = Some y"
    show "if sym_is_function y then \<not> sym_is_array y
      else \<exists>sz. size_at p (var_sizes f) n = Some sz \<and> sym_is_array y = (sz \<noteq> None)"
    proof (cases "n \<in> par_name ` set (fn_params f)")
      case True
      with fold_bind_param(2) [OF this, of "top_env p"] y show ?thesis
        by (simp add: body_env_def size_at_def var_sizes_param)
    next
      case False
      with y have t: "top_env p n = Some y" unfolding body_env_def by (subst (asm) fold_bind_param(1)) simp
      with new [of n] have "var_sizes f n = None" by (cases "var_sizes f n") auto
      with global_sizes_env(2,3) [OF wf t] show ?thesis by (simp add: size_at_def)
    qed
  qed
qed

lemma vars_not_global:
  assumes p: "typed_source m p" and f: "f \<in> set (p_functions p)" and n: "var_sizes f n \<noteq> None"
  shows "global_sizes p n = None"
proof (rule ccontr)
  assume "global_sizes p n \<noteq> None"
  then obtain sz where sz: "global_sizes p n = Some sz" by auto
  from p have "well_formed p" by (simp add: typed_source_def)
  from global_sizes_env(1) [OF this sz] function_facts(4) [OF p f n] show False by auto
qed

lemma function_env_Some:
  assumes p: "typed_source m p" and y: "function_env p name = Some y"
  obtains f where "f \<in> set (p_functions p)" "fn_name f = name" "function_named p name = Some f"
    "sym_param_types y = map par_type (fn_params f)"
proof -
  have d: "distinct (map fn_name (p_functions p))"
    using p by (simp add: typed_source_def well_formed_def top_symbols_def comp_def)
  from y have "(name, y) \<in> set (map (\<lambda>f. (fn_name f, function_symbol f)) (p_functions p))"
    unfolding function_env_def by (rule map_of_SomeD)
  then obtain f where f: "f \<in> set (p_functions p)" "fn_name f = name" "y = function_symbol f" by auto
  have "map_of (rev (map (\<lambda>f. (fn_name f, f)) (p_functions p))) name = Some f"
    using d f by (intro map_of_is_SomeI) (auto simp: comp_def rev_map [symmetric])
  then show ?thesis using f by (intro that) (simp_all add: function_named_def function_symbol_def)
qed

text \<open>The state in which a body starts.\<close>

lemma top_scope_push [simp]: "top_scope (push_frame f vs s) = bind_params (fn_params f) vs Map.empty"
  by (simp add: top_scope_def push_frame_def)

lemma bind_params_slots:
  "\<forall>n slot. m n = Some slot \<longrightarrow> slot_fits None slot \<Longrightarrow> bind_params ps vs m n = Some slot \<Longrightarrow>
     slot_fits None slot \<and> (m n = Some slot \<or> n \<in> par_name ` set ps)"
proof (induction ps vs m rule: bind_params.induct)
  case (1 x xs v vs m)
  from "1.prems"(1) have "\<forall>n slot. (m(par_name x \<mapsto> SScalar (Some (normalize_i32 v)))) n = Some slot \<longrightarrow> slot_fits None slot"
    by (auto simp: slot_fits_def)
  from "1.IH" [OF this "1.prems"(2) [unfolded bind_params.simps]] show ?case by (auto split: if_splits)
qed auto

lemma bind_params_dom:
  "length ps = length vs \<Longrightarrow> n \<in> par_name ` set ps \<or> m n \<noteq> None \<Longrightarrow> bind_params ps vs m n \<noteq> None"
  by (induction ps vs m rule: bind_params.induct) auto

lemma pushed_typed:
  assumes p: "typed_source m p" and f: "f \<in> set (p_functions p)" and gl: "globals_fit p (os_globals s)"
    and args: "length (fn_params f) = length vs"
  shows "typed_state p (var_sizes f) (body_env p f) (push_frame f vs s)"
proof -
  let ?t = "push_frame f vs s"
  have "scope_fits (var_sizes f) (top_scope ?t)"
    using bind_params_slots [of Map.empty "fn_params f" vs] by (auto simp: scope_fits_def var_sizes_param)
  moreover have "os_globals ?t = os_globals s" "os_frames ?t = \<lparr>of_scopes = [top_scope ?t]\<rparr> # os_frames s"
    by (simp_all only: top_scope_push) (simp_all add: push_frame_def)
  ultimately have "state_fits p (var_sizes f) ?t"
    using gl vars_not_global [OF p f] by (simp add: state_fits_def)
  moreover have "scoped (var_sizes f) (body_env p f) ?t"
    unfolding scoped_def
  proof (intro allI impI)
    fix n
    assume n: "body_env p f n \<noteq> None" "var_sizes f n \<noteq> None"
    then have "n \<in> par_name ` set (fn_params f)"
      using function_facts(4) [OF p f n(2)] fold_bind_param(1) [of "fn_params f" "top_env p" n]
      by (auto simp: body_env_def split: if_splits)
    then show "top_scope ?t n \<noteq> None" using bind_params_dom [OF args, of n Map.empty] by simp
  qed
  ultimately show ?thesis using function_facts(5) [OF p f] by (simp add: typed_state_def)
qed

section \<open>Execution keeps types\<close>

definition i32_control :: "control \<Rightarrow> bool" where
  "i32_control ctl \<longleftrightarrow> (case ctl of CContinue \<Rightarrow> True | CReturn v \<Rightarrow> is_i32 v)"

lemma i32_control_simps [simp]: "i32_control CContinue" "i32_control (CReturn v) = is_i32 v"
  by (simp_all add: i32_control_def)

definition args_safe :: "program \<Rightarrow> sizes \<Rightarrow> env \<Rightarrow> ast_oracle \<Rightarrow> nat \<Rightarrow> i64 list oracle_res \<Rightarrow> bool" where
  "args_safe p V G s k r \<longleftrightarrow>
     safe r (\<lambda>vs t. length vs = k \<and> (\<forall>v \<in> set vs. is_i32 v) \<and> typed_state p V G t \<and> os_frames t = os_frames s)"

definition call_safe :: "program \<Rightarrow> ast_oracle \<Rightarrow> i64 oracle_res \<Rightarrow> bool" where
  "call_safe p s r \<longleftrightarrow> safe r (\<lambda>v t. is_i32 v \<and> globals_fit p (os_globals t) \<and> os_frames t = os_frames s)"

definition block_safe :: "program \<Rightarrow> sizes \<Rightarrow> ast_oracle \<Rightarrow> control oracle_res \<Rightarrow> bool" where
  "block_safe p V s r \<longleftrightarrow> safe r (\<lambda>ctl t. i32_control ctl \<and> moves p V s t)"

definition stmt_safe :: "program \<Rightarrow> sizes \<Rightarrow> env \<Rightarrow> stmt \<Rightarrow> ast_oracle \<Rightarrow> control oracle_res \<Rightarrow> bool" where
  "stmt_safe p V G st s r \<longleftrightarrow>
     safe r (\<lambda>ctl t. i32_control ctl \<and> moves p V s t \<and> (ctl = CContinue \<longrightarrow> typed_state p V (bind_stmt st G) t))"

lemma env_fits_bind:
  assumes "env_fits p V G" "V n = Some sz"
  shows "env_fits p V (G(n \<mapsto> declared n t False sz))"
  unfolding env_fits_def
proof (intro allI impI)
  fix k y
  assume y: "(G(n \<mapsto> declared n t False sz)) k = Some y"
  show "if sym_is_function y then \<not> sym_is_array y
    else \<exists>sz. size_at p V k = Some sz \<and> sym_is_array y = (sz \<noteq> None)"
  proof (cases "k = n")
    case True
    with y assms(2) show ?thesis by (auto simp: size_at_def declared_def variable_symbol_def)
  next
    case False
    with y have "G k = Some y" by simp
    with assms(1) show ?thesis unfolding env_fits_def by blast
  qed
qed

lemma bind_typed:
  "typed_state p V G u \<Longrightarrow> V n = Some sz \<Longrightarrow> top_scope u n \<noteq> None \<Longrightarrow>
     typed_state p V (G(n \<mapsto> declared n t False sz)) u"
  by (simp add: typed_state_def env_fits_bind) (simp add: scoped_def)

lemma moves_value:
  "typed_state p V G t \<Longrightarrow> os_frames t = os_frames s1 \<Longrightarrow> s1 = s\<lparr>os_cycles := c\<rparr> \<Longrightarrow> os_frames s1 \<noteq> [] \<Longrightarrow> moves p V s t"
  by (rule moves_frames) simp_all

declare call_function.simps [simp del] exec_while.simps [simp del]

lemma execution_safe:
  "typed_source m p \<Longrightarrow> type_of G (function_env p) e = Some ty \<Longrightarrow> expr_plain m e \<Longrightarrow> typed_state p V G s \<Longrightarrow>
     value_safe p V G s (eval_expr p e s)"
  "typed_source m p \<Longrightarrow> args_ok G (function_env p) es ts \<Longrightarrow> args_plain m es \<Longrightarrow> typed_state p V G s \<Longrightarrow>
     args_safe p V G s (length es) (eval_args p es s)"
  "typed_source m p \<Longrightarrow> function_env p name = Some y \<Longrightarrow> length args = length (sym_param_types y) \<Longrightarrow>
     globals_fit p (os_globals s) \<Longrightarrow> call_safe p s (call_function p name args s)"
  "typed_source m p \<Longrightarrow> stmts_ok G (function_env p) ss \<Longrightarrow> stmts_plain m ss \<Longrightarrow> decls_fit V (decls_of_list ss) \<Longrightarrow>
     typed_state p V G s \<Longrightarrow> os_frames s \<noteq> [] \<Longrightarrow> block_safe p V s (exec_block p ss s)"
  "typed_source m p \<Longrightarrow> stmt_ok G (function_env p) st \<Longrightarrow> stmt_plain m st \<Longrightarrow> decls_fit V (decls_of st) \<Longrightarrow>
     typed_state p V G s \<Longrightarrow> os_frames s \<noteq> [] \<Longrightarrow> stmt_safe p V G st s (exec_stmt p st s)"
  "typed_source m p \<Longrightarrow> condition_ok G (function_env p) cond \<Longrightarrow> expr_plain m cond \<Longrightarrow>
     stmts_ok G (function_env p) body \<Longrightarrow> stmts_plain m body \<Longrightarrow> decls_fit V (decls_of_list body) \<Longrightarrow>
     typed_state p V G s \<Longrightarrow> os_frames s \<noteq> [] \<Longrightarrow> block_safe p V s (exec_while p cond body s)"
proof (induction p e s and p es s and p name args s and p ss s and p st s and p cond body s
    arbitrary: G V ty and G V ts and y and G V and G V and G V
    rule: eval_expr_eval_args_call_function_exec_block_exec_stmt_exec_while.induct)
  case (1 p v sp s)
  show ?case unfolding eval_expr.simps value_safe_def by (rule safe_tick) (use 1 in simp)
next
  case (2 p b sp s)
  show ?case unfolding eval_expr.simps value_safe_def by (rule safe_tick) (use 2 in simp)
next
  case (3 p name sp s)
  from "3.prems"(2) obtain y where y: "G name = Some y" "\<not> sym_is_function y" "\<not> sym_is_array y"
    by (auto split: option.splits if_splits)
  show ?case
    unfolding eval_expr.simps value_safe_def lift_res_def
    by (rule safe_tick, rule safe_mono, rule read_scalar_safe [where G = G and p = p and V = V, OF _ y]) (use "3.prems"(4) in simp_all)
next
  case (4 p op l r sp s)
  from "4.prems"(2) obtain lt rt where t: "type_of G (function_env p) l = Some lt" "type_of G (function_env p) r = Some rt"
    by (auto split: option.splits if_splits)
  from "4.prems"(3) have pl: "expr_plain m l" "expr_plain m r" by simp_all
  show ?case
    unfolding eval_expr.simps value_safe_def
  proof (rule safe_tick)
    fix s1 assume s1: "tick s = (Inr (), s1)" "s1 = s\<lparr>os_cycles := os_cycles s + 1\<rparr>"
    with "4.prems"(4) have ty: "typed_state p V G s1" and fr: "os_frames s1 = os_frames s" by simp_all
    show "safe (bnd (eval_expr p l s1) (\<lambda>a s.
        if op = Bin_And then if a = 0 then (Inr 0, s) else bnd (eval_expr p r s) (\<lambda>b s. (Inr (truth (b \<noteq> 0)), s))
        else if op = Bin_Or then if a \<noteq> 0 then (Inr 1, s) else bnd (eval_expr p r s) (\<lambda>b s. (Inr (truth (b \<noteq> 0)), s))
        else bnd (eval_expr p r s) (\<lambda>b s. lift_res (eval_binary op a b) s)))
        (\<lambda>v t. is_i32 v \<and> typed_state p V G t \<and> os_frames t = os_frames s)"
    proof (rule safe_bnd [OF "4.IH"(1) [OF s1(1) "4.prems"(1) t(1) pl(1) ty, unfolded value_safe_def]])
      fix a s2 assume s2: "eval_expr p l s1 = (Inr a, s2)" "is_i32 a \<and> typed_state p V G s2 \<and> os_frames s2 = os_frames s1"
      then have ty2: "typed_state p V G s2" by simp
      have logical: "safe (bnd (eval_expr p r s2) (\<lambda>b s. (Inr (truth (b \<noteq> 0)), s)))
          (\<lambda>v t. is_i32 v \<and> typed_state p V G t \<and> os_frames t = os_frames s)"
        if "value_safe p V G s2 (eval_expr p r s2)"
        by (rule safe_bnd [OF that [unfolded value_safe_def]]) (use s2(2) fr in simp)
      show "safe (if op = Bin_And then if a = 0 then (Inr 0, s2) else bnd (eval_expr p r s2) (\<lambda>b s. (Inr (truth (b \<noteq> 0)), s))
        else if op = Bin_Or then if a \<noteq> 0 then (Inr 1, s2) else bnd (eval_expr p r s2) (\<lambda>b s. (Inr (truth (b \<noteq> 0)), s))
        else bnd (eval_expr p r s2) (\<lambda>b s. lift_res (eval_binary op a b) s))
        (\<lambda>v t. is_i32 v \<and> typed_state p V G t \<and> os_frames t = os_frames s)"
      proof (cases "op = Bin_And \<or> op = Bin_Or")
        case True
        have "value_safe p V G s2 (eval_expr p r s2)" if "op = Bin_And" "a \<noteq> 0"
          by (rule "4.IH"(2) [OF s1(1) s2(1) that "4.prems"(1) t(2) pl(2) ty2])
        moreover have "value_safe p V G s2 (eval_expr p r s2)" if "op = Bin_Or" "a = 0"
          by (rule "4.IH"(3) [OF s1(1) s2(1) _ _ _ "4.prems"(1) t(2) pl(2) ty2]) (use that in simp_all)
        ultimately show ?thesis using True s2(2) fr logical by auto
      next
        case False
        then have op: "op \<noteq> Bin_And" "op \<noteq> Bin_Or" by simp_all
        have "safe (bnd (eval_expr p r s2) (\<lambda>b s. lift_res (eval_binary op a b) s))
            (\<lambda>v t. is_i32 v \<and> typed_state p V G t \<and> os_frames t = os_frames s)"
        proof (rule safe_bnd [OF "4.IH"(4) [OF s1(1) s2(1) op "4.prems"(1) t(2) pl(2) ty2, unfolded value_safe_def]])
          fix b s3 assume "is_i32 b \<and> typed_state p V G s3 \<and> os_frames s3 = os_frames s2"
          then show "safe (lift_res (eval_binary op a b) s3) (\<lambda>v t. is_i32 v \<and> typed_state p V G t \<and> os_frames t = os_frames s)"
            using eval_binary_safe [of a b op s3] op s2(2) fr by (auto elim!: safe_mono)
        qed
        then show ?thesis by (simp only: op if_False)
      qed
    qed
  qed
next
  case (5 p op e sp s)
  from "5.prems"(2) obtain t where t: "type_of G (function_env p) e = Some t" by (auto split: option.splits)
  show ?case
    unfolding eval_expr.simps value_safe_def
  proof (rule safe_tick)
    fix s1 assume s1: "tick s = (Inr (), s1)" "s1 = s\<lparr>os_cycles := os_cycles s + 1\<rparr>"
    with "5.prems"(4) have ty: "typed_state p V G s1" and fr: "os_frames s1 = os_frames s" by simp_all
    have pl: "expr_plain m e" using "5.prems"(3) by simp
    show "safe (bnd (eval_expr p e s1) (\<lambda>a. lift_res (eval_unary op a)))
        (\<lambda>v t. is_i32 v \<and> typed_state p V G t \<and> os_frames t = os_frames s)"
    proof (rule safe_bnd [OF "5.IH" [OF s1(1) "5.prems"(1) t pl ty, unfolded value_safe_def]])
      fix a s2 assume "is_i32 a \<and> typed_state p V G s2 \<and> os_frames s2 = os_frames s1"
      then show "safe (lift_res (eval_unary op a) s2) (\<lambda>v t. is_i32 v \<and> typed_state p V G t \<and> os_frames t = os_frames s)"
        using eval_unary_safe [of a op s2] fr by (auto elim!: safe_mono)
    qed
  qed
next
  case (6 p name args sp s)
  from "6.prems"(2) obtain y where y: "function_env p name = Some y" "args_ok G (function_env p) args (sym_param_types y)"
    by (auto split: option.splits if_splits)
  from "6.prems"(3) have pl: "args_plain m args" by simp
  show ?case
    unfolding eval_expr.simps value_safe_def
  proof (rule safe_tick)
    fix s1 assume s1: "tick s = (Inr (), s1)" "s1 = s\<lparr>os_cycles := os_cycles s + 1\<rparr>"
    with "6.prems"(4) have ty: "typed_state p V G s1" and fr: "os_frames s1 = os_frames s" by simp_all
    show "safe (bnd (eval_args p args s1) (call_function p name))
        (\<lambda>v t. is_i32 v \<and> typed_state p V G t \<and> os_frames t = os_frames s)"
    proof (rule safe_bnd [OF "6.IH"(1) [OF s1(1) "6.prems"(1) y(2) pl ty, unfolded args_safe_def]])
      fix vs s2 assume s2: "eval_args p args s1 = (Inr vs, s2)"
        "length vs = length args \<and> (\<forall>v \<in> set vs. is_i32 v) \<and> typed_state p V G s2 \<and> os_frames s2 = os_frames s1"
      then have "length vs = length (sym_param_types y)" using args_ok_length [OF y(2)] by simp
      from "6.IH"(2) [OF s1(1) s2(1) "6.prems"(1) y(1) this] s2(2) have "call_safe p s2 (call_function p name vs s2)"
        by (blast dest: typed_globals_fit)
      then show "safe (call_function p name vs s2) (\<lambda>v t. is_i32 v \<and> typed_state p V G t \<and> os_frames t = os_frames s)"
        unfolding call_safe_def by (rule safe_mono) (use s2(2) fr typed_globals in auto)
    qed
  qed
next
  case (7 p name index sp s)
  from "7.prems"(2) obtain y t where y: "G name = Some y" "sym_is_array y" and t: "type_of G (function_env p) index = Some t"
    by (auto split: option.splits if_splits)
  from y "7.prems"(4) have nf: "\<not> sym_is_function y" by (auto simp: typed_state_def env_fits_def)
  from "7.prems"(3) have pl: "expr_plain m index" by simp
  show ?case
    unfolding eval_expr.simps value_safe_def
  proof (rule safe_tick)
    fix s1 assume s1: "tick s = (Inr (), s1)" "s1 = s\<lparr>os_cycles := os_cycles s + 1\<rparr>"
    with "7.prems"(4) have ty: "typed_state p V G s1" and fr: "os_frames s1 = os_frames s" by simp_all
    show "safe (bnd (eval_expr p index s1) (\<lambda>raw s.
        bnd (lift_res (checked_array_index raw) s) (\<lambda>i s. lift_res (read_array name i s) s)))
        (\<lambda>v t. is_i32 v \<and> typed_state p V G t \<and> os_frames t = os_frames s)"
    proof (rule safe_bnd [OF "7.IH" [OF s1(1) "7.prems"(1) t pl ty, unfolded value_safe_def]])
      fix raw s2 assume s2: "is_i32 raw \<and> typed_state p V G s2 \<and> os_frames s2 = os_frames s1"
      have "safe (read_array name i s2, s2) (\<lambda>v t. is_i32 v \<and> t = s2)" for i
        by (rule read_array_safe [where G = G and p = p and V = V, OF _ y(1) nf y(2)]) (use s2 in simp)
      then have "safe (read_array name i s2, s2) (\<lambda>v t. is_i32 v \<and> typed_state p V G t \<and> os_frames t = os_frames s)" for i
        by (rule safe_mono) (use s2 fr in simp)
      then show "safe (bnd (lift_res (checked_array_index raw) s2) (\<lambda>i s. lift_res (read_array name i s) s))
          (\<lambda>v t. is_i32 v \<and> typed_state p V G t \<and> os_frames t = os_frames s)"
        by (simp add: checked_array_index_def)
    qed
  qed
next
  case (8 p s)
  then show ?case by (simp add: args_safe_def)
next
  case (9 p a as s)
  from "9.prems"(2) obtain t ts' where t: "type_of G (function_env p) a = Some t" "args_ok G (function_env p) as ts'"
    by (auto split: list.splits option.splits)
  from "9.prems"(3) have pl: "expr_plain m a" "args_plain m as" by simp_all
  show ?case
    unfolding eval_args.simps args_safe_def
  proof (rule safe_bnd [OF "9.IH"(1) [OF "9.prems"(1) t(1) pl(1) "9.prems"(4), unfolded value_safe_def]])
    fix v s1 assume s1: "eval_expr p a s = (Inr v, s1)" "is_i32 v \<and> typed_state p V G s1 \<and> os_frames s1 = os_frames s"
    then have ty: "typed_state p V G s1" by simp
    show "safe (bnd (eval_args p as s1) (\<lambda>vs s. (Inr (v # vs), s)))
        (\<lambda>vs t. length vs = length (a # as) \<and> (\<forall>v \<in> set vs. is_i32 v) \<and> typed_state p V G t \<and> os_frames t = os_frames s)"
      by (rule safe_bnd [OF "9.IH"(2) [OF s1(1) "9.prems"(1) t(2) pl(2) ty, unfolded args_safe_def]]) (use s1(2) in simp)
  qed
next
  case (10 p name args s)
  obtain f where f: "f \<in> set (p_functions p)" "fn_name f = name" "function_named p name = Some f"
    "sym_param_types y = map par_type (fn_params f)"
    by (rule function_env_Some [OF "10.prems"(1,2)])
  from f(4) "10.prems"(3) have len: "length args = length (fn_params f)" by simp
  show ?case
    unfolding call_function.simps call_safe_def
  proof (rule safe_tick)
    fix s1 assume s1: "tick s = (Inr (), s1)" "s1 = s\<lparr>os_cycles := os_cycles s + 1\<rparr>"
    with "10.prems"(4) have gl: "globals_fit p (os_globals s1)" and fr: "os_frames s1 = os_frames s" by simp_all
    let ?s = "push_frame f args s1"
    have ty: "typed_state p (var_sizes f) (body_env p f) ?s"
      by (rule pushed_typed [OF "10.prems"(1) f(1) gl]) (simp add: len)
    have "safe (bnd (exec_block p (fn_body f) ?s) (\<lambda>ctl s. (Inr (returned ctl), pop_frame s)))
        (\<lambda>v t. is_i32 v \<and> globals_fit p (os_globals t) \<and> os_frames t = os_frames s)"
      if ok: "\<not> MAX_FRAMES \<le> length (os_frames s1)"
    proof -
      have b: "block_safe p (var_sizes f) ?s (exec_block p (fn_body f) ?s)"
        by (rule "10.IH" [OF s1(1) ok f(3) _ "10.prems"(1) function_facts(1-3) [OF "10.prems"(1) f(1)] ty])
          (simp_all add: len push_frame_def)
      show ?thesis
        by (rule safe_bnd [OF b [unfolded block_safe_def]])
          (use fr in \<open>simp add: returned_def moves_def state_fits_def pop_frame_def push_frame_def\<close>)
    qed
    then show "safe (if MAX_FRAMES \<le> length (os_frames s1)
          then (Inl (Trap StackOverflow (fmt [''Call stack overflow (max '', show_nat MAX_FRAMES, '' frames)''])), s1)
          else case function_named p name of
            None \<Rightarrow> (Inl (Trap UndefinedFunction (fmt [''Undefined function '', name])), s1)
          | Some f \<Rightarrow>
              if length args \<noteq> length (fn_params f)
              then (Inl (Trap InvalidInstruction
                      (fmt [''Call has '', show_nat (length args), '' arguments but function '', name,
                            '' expects '', show_nat (length (fn_params f))])), s1)
              else bnd (exec_block p (fn_body f) (push_frame f args s1)) (\<lambda>ctl s. (Inr (returned ctl), pop_frame s)))
        (\<lambda>v t. is_i32 v \<and> globals_fit p (os_globals t) \<and> os_frames t = os_frames s)"
      by (simp add: f(3) len)
  qed
next
  case (11 p s)
  then show ?case by (simp add: block_safe_def moves_def typed_state_def)
next
  case (12 p st ss s)
  from "12.prems"(2) have ok: "stmt_ok G (function_env p) st" "stmts_ok (bind_stmt st G) (function_env p) ss" by simp_all
  from "12.prems"(3,4) have pl: "stmt_plain m st" "stmts_plain m ss" and d: "decls_fit V (decls_of st)" "decls_fit V (decls_of_list ss)"
    by simp_all
  show ?case
    unfolding exec_block.simps block_safe_def
  proof (rule safe_bnd [OF "12.IH"(1) [OF "12.prems"(1) ok(1) pl(1) d(1) "12.prems"(5,6), unfolded stmt_safe_def]])
    fix ctl s1 assume s1: "exec_stmt p st s = (Inr ctl, s1)"
      "i32_control ctl \<and> moves p V s s1 \<and> (ctl = CContinue \<longrightarrow> typed_state p V (bind_stmt st G) s1)"
    have "safe (exec_block p ss s1) (\<lambda>ctl t. i32_control ctl \<and> moves p V s t)" if c: "ctl = CContinue"
    proof -
      from s1(2) c have ty: "typed_state p V (bind_stmt st G) s1" and ne: "os_frames s1 \<noteq> []" by (simp_all add: moves_def)
      show ?thesis
        by (rule safe_mono [OF "12.IH"(2) [OF s1(1) c "12.prems"(1) ok(2) pl(2) d(2) ty ne, unfolded block_safe_def]])
          (use s1(2) moves_trans in blast)
    qed
    with s1(2) show "safe (if ctl = CContinue then exec_block p ss s1 else (Inr ctl, s1))
        (\<lambda>ctl t. i32_control ctl \<and> moves p V s t)" by simp
  qed
next
  case (13 p t name init sz sp s)
  let ?G = "G(name \<mapsto> declared name t False sz)"
  from "13.prems"(2-4) have new: "G name = None" and szok: "size_ok sz" and val: "value_ok ?G (function_env p) init t"
    and pl: "opt_plain m init" "i32_option sz" and V: "V name = Some sz" by simp_all
  show ?case
    unfolding exec_stmt.simps stmt_safe_def
  proof (rule safe_tick)
    fix s1 assume s1: "tick s = (Inr (), s1)" "s1 = s\<lparr>os_cycles := os_cycles s + 1\<rparr>"
    with "13.prems"(5,6) have ty: "typed_state p V G s1" and st: "state_fits p V s1" and ne: "os_frames s1 \<noteq> []"
      by (simp_all add: typed_state_def)
    have stmt: "moves p V s t" if "moves p V s1 t" for t using that s1(2) by (simp add: moves_def)
    have bound: "typed_state p V ?G u" if "moves p V s1 u" "top_scope u name \<noteq> None" for u
      using typed_moves [OF ty that(1)] V that(2) by (rule bind_typed)
    let ?Q = "\<lambda>ctl t'. i32_control ctl \<and> moves p V s t' \<and>
        (ctl = CContinue \<longrightarrow> typed_state p V (bind_stmt (S_VarDecl t name init sz sp) G) t')"
    have okQ: "?Q CContinue u" if "moves p V s1 u" "top_scope u name \<noteq> None" for u
      using bound [OF that] stmt [OF that(1)] by simp
    let ?s = "if top_scope s1 name = None then put_slot name (SScalar None) s1 else s1"
    have moved: "moves p V s1 ?s \<and> top_scope ?s name \<noteq> None" if "sz = None"
      using moves_put [OF st V _ ne, of "SScalar None"] that moves_frames [OF ty refl ne] by (simp add: slot_fits_def)
    show "safe (case sz of
        Some n \<Rightarrow> bnd (lift_res (zero_array n) s1) (\<lambda>slot s. bnd (declare_or_update name slot s) continue)
      | None \<Rightarrow>
          (case init of
             Some e \<Rightarrow> bnd (ensure_declared name s1) (\<lambda>_ s. bnd (eval_expr p e s) (\<lambda>v s. bnd (assign_scalar name v s) continue))
           | None \<Rightarrow> bnd (ensure_declared name s1) continue)) ?Q"
    proof (cases sz)
      case (Some n)
      with szok pl have n: "0 < n" "is_i32 n" by (simp_all add: size_ok_def i32_option_def)
      let ?slot = "SArray (replicate (nat n) 0)"
      have "slot_fits sz ?slot" using Some n by (simp add: slot_fits_def)
      from moves_put [OF st V this ne] have "?Q CContinue (put_slot name ?slot s1)" by (rule okQ) simp
      with Some n V show ?thesis by (simp add: zero_array_def declare_local(1) [OF st ne] continue_def)
    next
      case None
      from moved [OF None] have mv: "moves p V s1 ?s" and nm: "top_scope ?s name \<noteq> None" by simp_all
      have ens: "ensure_declared name s1 = (Inr (), ?s)" using declare_local(2) [OF st ne] V by simp
      show ?thesis
      proof (cases init)
        case init: None
        with None ens okQ [OF mv nm] show ?thesis by (simp add: continue_def)
      next
        case (Some e)
        have te: "typed_state p V ?G ?s" by (rule bound [OF mv nm])
        from val Some obtain ty' where ty': "type_of ?G (function_env p) e = Some ty'"
          by (auto simp: value_ok_def has_type_def split: option.splits)
        from pl Some have ple: "expr_plain m e" by (simp add: opt_plain_def)
        note ev = "13.IH" [OF s1(1) None Some ens "13.prems"(1) ty' ple te]
        have "safe (bnd (eval_expr p e ?s) (\<lambda>v s. bnd (assign_scalar name v s) continue)) ?Q"
        proof (rule safe_bnd [OF ev [unfolded value_safe_def]])
          fix v s2 assume s2: "is_i32 v \<and> typed_state p V ?G s2 \<and> os_frames s2 = os_frames ?s"
          then have st2: "state_fits p V s2" and ne2: "os_frames s2 \<noteq> []" and nm2: "top_scope s2 name \<noteq> None"
            using mv nm by (simp_all add: typed_state_def moves_def top_scope_def)
          have mv2: "moves p V ?s s2" using s2 mv moves_frames [of p V ?G s2 ?s] unfolding moves_def by blast
          from nm2 obtain slot where sl: "top_scope s2 name = Some slot" by auto
          with st2 obtain sz' where "V name = Some sz'" "slot_fits sz' slot" unfolding state_fits_def scope_fits_def by blast
          with V None obtain w where "slot = SScalar w" by (auto simp: slot_fits_def split: oracle_slot.splits)
          with sl have "lookup_slot s2 name = Some (SScalar w)" by (simp add: lookup_top [OF st2])
          then have asg: "assign_scalar name v s2 = (Inr (), put_slot name (SScalar (Some (normalize_i32 v))) s2)"
            using set_slot_local [OF st2 nm2] by (simp add: assign_scalar_def)
          have "moves p V s2 (put_slot name (SScalar (Some (normalize_i32 v))) s2)"
            using None by (intro moves_put [OF st2 V _ ne2]) (simp add: slot_fits_def)
          from okQ [OF moves_trans [OF mv moves_trans [OF mv2 this]]] asg
          show "safe (bnd (assign_scalar name v s2) continue) ?Q" by (simp add: continue_def)
        qed
        with None Some ens show ?thesis by simp
      qed
    qed
  qed
next
  case (14 p target idx v sp s)
  from "14.prems"(2) obtain y where y: "G target = Some y" "\<not> sym_is_function y" "sym_is_array y \<longleftrightarrow> idx \<noteq> None"
    and ti: "case idx of None \<Rightarrow> True | Some i \<Rightarrow> has_type G (function_env p) i Ty_Int"
    and tv: "has_type G (function_env p) v (sym_type y)"
    by (auto simp: assign_ok_def split: option.splits)
  from tv obtain tv' where tv': "type_of G (function_env p) v = Some tv'" by (auto simp: has_type_def split: option.splits)
  from "14.prems"(3) have pl: "opt_plain m idx" "expr_plain m v" by simp_all
  show ?case
    unfolding exec_stmt.simps stmt_safe_def
  proof (rule safe_tick)
    fix s1 assume s1: "tick s = (Inr (), s1)" "s1 = s\<lparr>os_cycles := os_cycles s + 1\<rparr>"
    with "14.prems"(5,6) have ty: "typed_state p V G s1" and ne: "os_frames s1 \<noteq> []" by simp_all
    let ?Q = "\<lambda>ctl t. i32_control ctl \<and> moves p V s t \<and>
        (ctl = CContinue \<longrightarrow> typed_state p V (bind_stmt (S_Assign target idx v sp) G) t)"
    have okQ: "?Q CContinue t" if "typed_state p V G s2" "os_frames s2 = os_frames s1" "moves p V s2 t" for s2 t
      using that s1(2) moves_trans [OF moves_frames [OF that(1,2) ne] that(3)] typed_moves [OF that(1,3)]
      by (simp add: moves_def)
    have store: "?Q CContinue (set_slot target slot s2)"
      if s2: "typed_state p V G s2" "os_frames s2 = os_frames s1" and l: "lookup_slot s2 target \<noteq> None"
        and sz: "size_at p V target = Some sz" "slot_fits sz slot" "slot \<noteq> SScalar None" for s2 slot sz
    proof (rule okQ [OF s2 set_slot_moves [OF _ _ l sz]])
      show "state_fits p V s2" "os_frames s2 \<noteq> []" using s2 ne by (simp_all add: typed_state_def)
    qed
    show "safe (case idx of
        Some i \<Rightarrow>
          bnd (eval_expr p i s1) (\<lambda>raw s.
          bnd (lift_res (checked_array_index raw) s) (\<lambda>index s.
          bnd (eval_expr p v s) (\<lambda>x s.
          bnd (assign_array target index x s) continue)))
      | None \<Rightarrow> bnd (eval_expr p v s1) (\<lambda>x s. bnd (assign_scalar target x s) continue)) ?Q"
    proof (cases idx)
      case None
      have "safe (bnd (eval_expr p v s1) (\<lambda>x s. bnd (assign_scalar target x s) continue)) ?Q"
      proof (rule safe_bnd [OF "14.IH"(1) [OF s1(1) None "14.prems"(1) tv' pl(2) ty, unfolded value_safe_def]])
        fix x s2 assume s2: "is_i32 x \<and> typed_state p V G s2 \<and> os_frames s2 = os_frames s1"
        then have t2: "typed_state p V G s2" "os_frames s2 = os_frames s1" by simp_all
        from typed_lookup [OF t2(1) y(1,2)] None y(3) obtain slot where
          l: "lookup_slot s2 target = Some slot" "size_at p V target = Some None" "slot_fits None slot" by metis
        from l(3) obtain w where "slot = SScalar w" by (auto simp: slot_fits_def split: oracle_slot.splits)
        with l store [OF t2 _ l(2), of "SScalar (Some (normalize_i32 x))"]
        show "safe (bnd (assign_scalar target x s2) continue) ?Q"
          by (simp add: assign_scalar_def continue_def slot_fits_def)
      qed
      with None show ?thesis by simp
    next
      case (Some i)
      with ti obtain ti' where ti': "type_of G (function_env p) i = Some ti'" by (auto simp: has_type_def split: option.splits)
      from pl Some have pli: "expr_plain m i" by (simp add: opt_plain_def)
      have "safe (bnd (eval_expr p i s1) (\<lambda>raw s.
          bnd (lift_res (checked_array_index raw) s) (\<lambda>index s.
          bnd (eval_expr p v s) (\<lambda>x s. bnd (assign_array target index x s) continue)))) ?Q"
      proof (rule safe_bnd [OF "14.IH"(2) [OF s1(1) Some "14.prems"(1) ti' pli ty, unfolded value_safe_def]])
        fix raw s2 assume s2: "eval_expr p i s1 = (Inr raw, s2)" "is_i32 raw \<and> typed_state p V G s2 \<and> os_frames s2 = os_frames s1"
        then have t2: "typed_state p V G s2" "os_frames s2 = os_frames s1" by simp_all
        show "safe (bnd (lift_res (checked_array_index raw) s2) (\<lambda>index s.
            bnd (eval_expr p v s) (\<lambda>x s. bnd (assign_array target index x s) continue))) ?Q"
        proof (cases "raw < 0")
          case False
          then have c: "lift_res (checked_array_index raw) s2 = (Inr (nat raw), s2)" by (simp add: checked_array_index_def)
          have "safe (bnd (eval_expr p v s2) (\<lambda>x s. bnd (assign_array target (nat raw) x s) continue)) ?Q"
          proof (rule safe_bnd [OF "14.IH"(3) [OF s1(1) Some s2(1) c "14.prems"(1) tv' pl(2) t2(1), unfolded value_safe_def]])
            fix x s3 assume s3: "is_i32 x \<and> typed_state p V G s3 \<and> os_frames s3 = os_frames s2"
            then have t3: "typed_state p V G s3" "os_frames s3 = os_frames s1" using t2 by simp_all
            from typed_lookup [OF t3(1) y(1,2)] obtain slot sz where
              l: "lookup_slot s3 target = Some slot" "size_at p V target = Some sz" "slot_fits sz slot"
                "sym_is_array y = (sz \<noteq> None)" .
            have "sz \<noteq> None" using l(4) y(3) Some by simp
            with l(3) obtain vs where vs: "slot = SArray vs" by (auto simp: slot_fits_def split: oracle_slot.splits)
            have "slot_fits sz (SArray (vs[nat raw := normalize_i32 x]))"
              using l(3) vs by (auto simp: slot_fits_def dest!: set_update_subset_insert [THEN subsetD])
            with l vs store [OF t3 _ l(2), of "SArray (vs[nat raw := normalize_i32 x])"]
            show "safe (bnd (assign_array target (nat raw) x s3) continue) ?Q"
              by (simp add: assign_array_def continue_def oracle_index_error_def)
          qed
          with c show ?thesis by simp
        qed (simp add: checked_array_index_def)
      qed
      with Some show ?thesis by simp
    qed
  qed
next
  case (15 p cond th el sp s)
  from "15.prems"(2) obtain tc where tc: "type_of G (function_env p) cond = Some tc" and ok: "stmts_ok G (function_env p) th"
    by (auto simp: condition_ok_def split: option.splits)
  from "15.prems"(3,4) have pl: "expr_plain m cond" "stmts_plain m th" and d: "decls_fit V (decls_of_list th)" by simp_all
  show ?case
    unfolding exec_stmt.simps stmt_safe_def
  proof (rule safe_tick)
    fix s1 assume s1: "tick s = (Inr (), s1)" "s1 = s\<lparr>os_cycles := os_cycles s + 1\<rparr>"
    with "15.prems"(5,6) have ty: "typed_state p V G s1" and ne: "os_frames s1 \<noteq> []" by simp_all
    let ?Q = "\<lambda>ctl t. i32_control ctl \<and> moves p V s t \<and>
        (ctl = CContinue \<longrightarrow> typed_state p V (bind_stmt (S_If cond th el sp) G) t)"
    show "safe (bnd (eval_expr p cond s1) (\<lambda>v s.
        if v \<noteq> 0 then exec_block p th s else case el of Some ss \<Rightarrow> exec_block p ss s | None \<Rightarrow> (Inr CContinue, s))) ?Q"
    proof (rule safe_bnd [OF "15.IH"(1) [OF s1(1) "15.prems"(1) tc pl(1) ty, unfolded value_safe_def]])
      fix v s2 assume s2: "eval_expr p cond s1 = (Inr v, s2)" "is_i32 v \<and> typed_state p V G s2 \<and> os_frames s2 = os_frames s1"
      then have t2: "typed_state p V G s2" "os_frames s2 \<noteq> []" using ne by simp_all
      have mv: "moves p V s1 s2" using s2 ne moves_frames by blast
      have post: "?Q ctl t" if "i32_control ctl" "moves p V s2 t" for ctl t
        using that s1(2) moves_trans [OF mv that(2)] typed_moves [OF t2(1) that(2)] by (simp add: moves_def)
      have blk: "safe r ?Q" if "block_safe p V s2 r" for r
        by (rule safe_mono [OF that [unfolded block_safe_def]]) (use post in blast)
      show "safe (if v \<noteq> 0 then exec_block p th s2 else case el of Some ss \<Rightarrow> exec_block p ss s2 | None \<Rightarrow> (Inr CContinue, s2)) ?Q"
      proof (cases "v \<noteq> 0")
        case True
        with blk [OF "15.IH"(2) [OF s1(1) s2(1) True "15.prems"(1) ok pl(2) d t2]] show ?thesis by simp
      next
        case False
        show ?thesis
        proof (cases el)
          case None
          have "moves p V s2 s2" using t2 by (simp add: moves_def typed_state_def)
          with False None post [of CContinue s2] show ?thesis by simp
        next
          case (Some ss)
          with "15.prems"(2-4) have "stmts_ok G (function_env p) ss" "stmts_plain m ss" "decls_fit V (decls_of_list ss)" by simp_all
          from blk [OF "15.IH"(3) [OF s1(1) s2(1) False Some "15.prems"(1) this t2]] False Some show ?thesis by simp
        qed
      qed
    qed
  qed
next
  case (16 p cond body sp s)
  from "16.prems"(2-4) have ok: "condition_ok G (function_env p) cond" "stmts_ok G (function_env p) body"
    and pl: "expr_plain m cond" "stmts_plain m body" and d: "decls_fit V (decls_of_list body)" by simp_all
  show ?case
    unfolding exec_stmt.simps stmt_safe_def
  proof (rule safe_tick)
    fix s1 assume s1: "tick s = (Inr (), s1)" "s1 = s\<lparr>os_cycles := os_cycles s + 1\<rparr>"
    with "16.prems"(5,6) have ty: "typed_state p V G s1" and ne: "os_frames s1 \<noteq> []" by simp_all
    show "safe (exec_while p cond body s1) (\<lambda>ctl t. i32_control ctl \<and> moves p V s t \<and>
        (ctl = CContinue \<longrightarrow> typed_state p V (bind_stmt (S_While cond body sp) G) t))"
      by (rule safe_mono [OF "16.IH" [OF s1(1) "16.prems"(1) ok(1) pl(1) ok(2) pl(2) d ty ne, unfolded block_safe_def]])
        (use typed_moves [OF ty] s1(2) in \<open>auto simp: moves_def\<close>)
  qed
next
  case (17 p v sp s)
  from "17.prems"(2) obtain t where t: "type_of G (function_env p) v = Some t" by (auto simp: has_type_def split: option.splits)
  show ?case
    unfolding exec_stmt.simps stmt_safe_def
  proof (rule safe_tick)
    fix s1 assume s1: "tick s = (Inr (), s1)" "s1 = s\<lparr>os_cycles := os_cycles s + 1\<rparr>"
    with "17.prems"(3,5,6) have ty: "expr_plain m v" "typed_state p V G s1" and ne: "os_frames s1 \<noteq> []" by simp_all
    show "safe (bnd (eval_expr p v s1) (\<lambda>x s. (Inr (CReturn x), s))) (\<lambda>ctl t. i32_control ctl \<and> moves p V s t \<and>
        (ctl = CContinue \<longrightarrow> typed_state p V (bind_stmt (S_Return v sp) G) t))"
    proof (rule safe_bnd [OF "17.IH" [OF s1(1) "17.prems"(1) t ty, unfolded value_safe_def]])
      fix x s2 assume s2: "is_i32 x \<and> typed_state p V G s2 \<and> os_frames s2 = os_frames s1"
      with moves_value [OF _ _ s1(2) ne, of p V G s2] show "safe (Inr (CReturn x), s2) (\<lambda>ctl t. i32_control ctl \<and> moves p V s t \<and>
        (ctl = CContinue \<longrightarrow> typed_state p V (bind_stmt (S_Return v sp) G) t))" by simp
    qed
  qed
next
  case (18 p v sp s)
  from "18.prems"(2) obtain t where t: "type_of G (function_env p) v = Some t" by auto
  show ?case
    unfolding exec_stmt.simps stmt_safe_def
  proof (rule safe_tick)
    fix s1 assume s1: "tick s = (Inr (), s1)" "s1 = s\<lparr>os_cycles := os_cycles s + 1\<rparr>"
    with "18.prems"(3,5,6) have ty: "expr_plain m v" "typed_state p V G s1" and ne: "os_frames s1 \<noteq> []" by simp_all
    show "safe (bnd (eval_expr p v s1) oracle_print) (\<lambda>ctl t. i32_control ctl \<and> moves p V s t \<and>
        (ctl = CContinue \<longrightarrow> typed_state p V (bind_stmt (S_Print v sp) G) t))"
    proof (rule safe_bnd [OF "18.IH" [OF s1(1) "18.prems"(1) t ty, unfolded value_safe_def]])
      fix x s2 assume s2: "is_i32 x \<and> typed_state p V G s2 \<and> os_frames s2 = os_frames s1"
      let ?t = "s2\<lparr>os_output := os_output s2 @ [fmt [''OUTPUT: '', show_int x]]\<rparr>"
      have "os_globals ?t = os_globals s2" "os_frames ?t = os_frames s2" by simp_all
      with s2 have "typed_state p V G ?t" using typed_globals typed_globals_fit by metis
      with s2 moves_value [OF _ _ s1(2) ne, of p V G ?t] show "safe (oracle_print x s2) (\<lambda>ctl t. i32_control ctl \<and> moves p V s t \<and>
          (ctl = CContinue \<longrightarrow> typed_state p V (bind_stmt (S_Print v sp) G) t))"
        by (simp add: oracle_print_def)
    qed
  qed
next
  case (19 p e sp s)
  from "19.prems"(2) obtain t where t: "type_of G (function_env p) e = Some t" by auto
  show ?case
    unfolding exec_stmt.simps stmt_safe_def
  proof (rule safe_tick)
    fix s1 assume s1: "tick s = (Inr (), s1)" "s1 = s\<lparr>os_cycles := os_cycles s + 1\<rparr>"
    with "19.prems"(3,5,6) have ty: "expr_plain m e" "typed_state p V G s1" and ne: "os_frames s1 \<noteq> []" by simp_all
    show "safe (bnd (eval_expr p e s1) (\<lambda>_ s. (Inr CContinue, s))) (\<lambda>ctl t. i32_control ctl \<and> moves p V s t \<and>
        (ctl = CContinue \<longrightarrow> typed_state p V (bind_stmt (S_ExprStmt e sp) G) t))"
    proof (rule safe_bnd [OF "19.IH" [OF s1(1) "19.prems"(1) t ty, unfolded value_safe_def]])
      fix x s2 assume s2: "is_i32 x \<and> typed_state p V G s2 \<and> os_frames s2 = os_frames s1"
      with moves_value [OF _ _ s1(2) ne, of p V G s2] show "safe (Inr CContinue, s2) (\<lambda>ctl t. i32_control ctl \<and> moves p V s t \<and>
        (ctl = CContinue \<longrightarrow> typed_state p V (bind_stmt (S_ExprStmt e sp) G) t))" by simp
    qed
  qed
next
  case (20 p cond body s)
  from "20.prems"(2) obtain tc where tc: "type_of G (function_env p) cond = Some tc"
    by (auto simp: condition_ok_def split: option.splits)
  show ?case
    unfolding exec_while.simps [of p cond body s] block_safe_def
  proof (rule safe_bnd [OF "20.IH"(1) [OF "20.prems"(1) tc "20.prems"(3,7), unfolded value_safe_def]])
    fix v s1 assume s1: "eval_expr p cond s = (Inr v, s1)" "is_i32 v \<and> typed_state p V G s1 \<and> os_frames s1 = os_frames s"
    then have t1: "typed_state p V G s1" "os_frames s1 \<noteq> []" using "20.prems"(8) by simp_all
    have mv: "moves p V s s1" using s1(2) "20.prems"(8) moves_frames by blast
    have "safe (bnd (exec_block p body s1) (\<lambda>ctl s. if ctl = CContinue then exec_while p cond body s else (Inr ctl, s)))
        (\<lambda>ctl t. i32_control ctl \<and> moves p V s t)" if v: "v \<noteq> 0"
    proof (rule safe_bnd [OF "20.IH"(2) [OF s1(1) v "20.prems"(1,4-6) t1, unfolded block_safe_def]])
      fix ctl s2 assume s2: "exec_block p body s1 = (Inr ctl, s2)" "i32_control ctl \<and> moves p V s1 s2"
      then have mv2: "moves p V s s2" using moves_trans [OF mv] by blast
      have "safe (exec_while p cond body s2) (\<lambda>ctl t. i32_control ctl \<and> moves p V s t)" if c: "ctl = CContinue"
      proof -
        have t2: "typed_state p V G s2" "os_frames s2 \<noteq> []"
          using typed_moves [OF t1(1)] s2(2) by (simp_all add: moves_def)
        show ?thesis
          by (rule safe_mono [OF "20.IH"(3) [OF s1(1) v s2(1) c "20.prems"(1-6) t2, unfolded block_safe_def]])
            (use moves_trans [OF mv2] in blast)
      qed
      then show "safe (if ctl = CContinue then exec_while p cond body s2 else (Inr ctl, s2))
          (\<lambda>ctl t. i32_control ctl \<and> moves p V s t)" using s2(2) mv2 by simp
    qed
    then show "safe (if v \<noteq> 0 then bnd (exec_block p body s1) (\<lambda>ctl s. if ctl = CContinue then exec_while p cond body s else (Inr ctl, s))
        else (Inr CContinue, s1)) (\<lambda>ctl t. i32_control ctl \<and> moves p V s t)"
      using mv by simp
  qed
qed

section \<open>Whole programs\<close>

lemma globals_facts:
  assumes p: "typed_source m p" and g: "g \<in> set (p_globals p)"
  shows "global_sizes p (gv_name g) = Some (gv_array_size g)" "size_ok (gv_array_size g)" "i32_option (gv_array_size g)"
    "value_ok (top_env p) (function_env p) (gv_init g) (gv_type g)" "opt_plain m (gv_init g)"
    "gv_init g \<noteq> None \<Longrightarrow> gv_array_size g = None"
proof -
  have d: "distinct (map fst (map (\<lambda>g. (gv_name g, gv_array_size g)) (p_globals p)))"
    using p by (simp add: typed_source_def well_formed_def top_symbols_def comp_def)
  have "(gv_name g, gv_array_size g) \<in> set (map (\<lambda>g. (gv_name g, gv_array_size g)) (p_globals p))" using g by auto
  with d show "global_sizes p (gv_name g) = Some (gv_array_size g)" unfolding global_sizes_def by (rule map_of_is_SomeI)
  from p g have "global_ok p g" by (auto simp: typed_source_def well_formed_def)
  then show "size_ok (gv_array_size g)" "value_ok (top_env p) (function_env p) (gv_init g) (gv_type g)"
    by (simp_all add: global_ok_def)
  from p g show "i32_option (gv_array_size g)" "opt_plain m (gv_init g)" "gv_init g \<noteq> None \<Longrightarrow> gv_array_size g = None"
    by (auto simp: typed_source_def program_plain_def list_all_iff)
qed

lemma declare_globals_slots:
  assumes "\<forall>g \<in> set gs. size_ok (gv_array_size g) \<and> i32_option (gv_array_size g)"
    and "distinct (map gv_name gs)"
  shows "\<exists>gl. declare_globals gs m = Inr gl \<and> (\<forall>n. n \<notin> gv_name ` set gs \<longrightarrow> gl n = m n) \<and>
    (\<forall>g \<in> set gs. gl (gv_name g) = Some (case gv_array_size g of None \<Rightarrow> SScalar (Some 0) | Some n \<Rightarrow> SArray (replicate (nat n) 0)))"
  using assms
proof (induction gs arbitrary: m)
  case (Cons g gs)
  let ?slot = "case gv_array_size g of None \<Rightarrow> SScalar (Some 0) | Some n \<Rightarrow> SArray (replicate (nat n) 0)"
  have "declare_globals (g # gs) m = declare_globals gs (m(gv_name g \<mapsto> ?slot))"
    using Cons.prems(1) by (auto simp: zero_array_def size_ok_def split: option.split)
  moreover have "\<exists>gl. declare_globals gs (m(gv_name g \<mapsto> ?slot)) = Inr gl \<and>
    (\<forall>n. n \<notin> gv_name ` set gs \<longrightarrow> gl n = (m(gv_name g \<mapsto> ?slot)) n) \<and>
    (\<forall>g \<in> set gs. gl (gv_name g) = Some (case gv_array_size g of None \<Rightarrow> SScalar (Some 0) | Some n \<Rightarrow> SArray (replicate (nat n) 0)))"
    using Cons.prems by (intro Cons.IH) simp_all
  then obtain gl where gl: "declare_globals gs (m(gv_name g \<mapsto> ?slot)) = Inr gl"
    "\<forall>n. n \<notin> gv_name ` set gs \<longrightarrow> gl n = (m(gv_name g \<mapsto> ?slot)) n"
    "\<forall>g \<in> set gs. gl (gv_name g) = Some (case gv_array_size g of None \<Rightarrow> SScalar (Some 0) | Some n \<Rightarrow> SArray (replicate (nat n) 0))"
    by blast
  moreover have "gl (gv_name g) = Some ?slot" using gl(2) Cons.prems(2) by simp
  ultimately show ?case by simp
qed simp

lemma initial_globals:
  assumes p: "typed_source m p"
  obtains gl where "declare_globals (p_globals p) Map.empty = Inr gl" "globals_fit p gl"
    "\<forall>g \<in> set (p_globals p). gl (gv_name g) =
       Some (case gv_array_size g of None \<Rightarrow> SScalar (Some 0) | Some n \<Rightarrow> SArray (replicate (nat n) 0))"
proof -
  have ok: "\<forall>g \<in> set (p_globals p). size_ok (gv_array_size g) \<and> i32_option (gv_array_size g)"
    using globals_facts [OF p] by blast
  have d: "distinct (map gv_name (p_globals p))"
    using p by (simp add: typed_source_def well_formed_def top_symbols_def comp_def)
  from declare_globals_slots [OF ok d, of Map.empty] obtain gl where gl: "declare_globals (p_globals p) Map.empty = Inr gl"
    "\<forall>n. n \<notin> gv_name ` set (p_globals p) \<longrightarrow> gl n = None"
    "\<forall>g \<in> set (p_globals p). gl (gv_name g) =
       Some (case gv_array_size g of None \<Rightarrow> SScalar (Some 0) | Some n \<Rightarrow> SArray (replicate (nat n) 0))"
    by auto
  have "globals_fit p gl"
    unfolding globals_fit_def
  proof
    fix n
    show "case global_sizes p n of None \<Rightarrow> gl n = None
        | Some sz \<Rightarrow> \<exists>slot. gl n = Some slot \<and> slot_fits sz slot \<and> slot \<noteq> SScalar None"
    proof (cases "global_sizes p n")
      case None
      then have "n \<notin> gv_name ` set (p_globals p)" using globals_facts(1) [OF p] by force
      with None gl(2) show ?thesis by simp
    next
      case (Some sz)
      then have "(n, sz) \<in> set (map (\<lambda>g. (gv_name g, gv_array_size g)) (p_globals p))"
        unfolding global_sizes_def by (rule map_of_SomeD)
      then obtain g where g: "g \<in> set (p_globals p)" "n = gv_name g" "sz = gv_array_size g" by auto
      with gl(3) globals_facts(2,3) [OF p g(1)] Some show ?thesis
        by (auto simp: slot_fits_def size_ok_def i32_option_def split: option.splits)
    qed
  qed
  with gl that show ?thesis by blast
qed

lemma top_typed:
  assumes p: "typed_source m p" and gl: "globals_fit p (os_globals s)" and fr: "os_frames s = []"
  shows "typed_state p Map.empty (top_env p) s"
proof -
  from p have wf: "well_formed p" by (simp add: typed_source_def)
  have "env_fits p Map.empty (top_env p)"
    using global_sizes_env(2,3) [OF wf] by (auto simp: env_fits_def size_at_def)
  with gl fr show ?thesis by (simp add: typed_state_def state_fits_def scope_fits_def top_scope_def scoped_def)
qed

lemma initialize_globals_safe:
  assumes p: "typed_source m p" and gs: "set gs \<subseteq> set (p_globals p)"
    and s: "globals_fit p (os_globals s)" "os_frames s = []"
  shows "safe (initialize_globals p gs s) (\<lambda>u t. globals_fit p (os_globals t) \<and> os_frames t = [])"
  using gs s
proof (induction gs arbitrary: s)
  case (Cons g gs)
  show ?case
  proof (cases "gv_init g")
    case None
    with Cons show ?thesis by simp
  next
    case (Some e)
    from Cons.prems(1) have g: "g \<in> set (p_globals p)" by simp
    note facts = globals_facts [OF p g]
    from facts(4) Some obtain t where t: "type_of (top_env p) (function_env p) e = Some t"
      by (auto simp: value_ok_def has_type_def split: option.splits)
    from facts(5) Some have pl: "expr_plain m e" by (simp add: opt_plain_def)
    have sz: "global_sizes p (gv_name g) = Some None" using facts(1,6) Some by simp
    have "safe (bnd (eval_expr p e s) (\<lambda>v s. bnd (assign_global_scalar (gv_name g) v s) (\<lambda>_ s. initialize_globals p gs s)))
        (\<lambda>u t. globals_fit p (os_globals t) \<and> os_frames t = [])"
    proof (rule safe_bnd [OF execution_safe(1) [OF p t pl top_typed [OF p Cons.prems(2,3)], unfolded value_safe_def]])
      fix v s1 assume s1: "is_i32 v \<and> typed_state p Map.empty (top_env p) s1 \<and> os_frames s1 = os_frames s"
      then have fit: "globals_fit p (os_globals s1)" using typed_globals_fit by blast
      from fit have "case global_sizes p (gv_name g) of None \<Rightarrow> os_globals s1 (gv_name g) = None
          | Some sz \<Rightarrow> \<exists>slot. os_globals s1 (gv_name g) = Some slot \<and> slot_fits sz slot \<and> slot \<noteq> SScalar None"
        by (simp add: globals_fit_def)
      then obtain slot where slot: "os_globals s1 (gv_name g) = Some slot" "slot_fits None slot" by (auto simp: sz)
      then obtain w where w: "os_globals s1 (gv_name g) = Some (SScalar w)"
        by (auto simp: slot_fits_def split: oracle_slot.splits)
      let ?t = "s1\<lparr>os_globals := (os_globals s1)(gv_name g \<mapsto> SScalar (Some (normalize_i32 v)))\<rparr>"
      have fit': "globals_fit p (os_globals ?t)" using globals_fit_update [OF fit sz] by (simp add: slot_fits_def)
      have fr: "os_frames ?t = []" and sub: "set gs \<subseteq> set (p_globals p)" using s1 Cons.prems by simp_all
      from w Cons.IH [OF sub fit' fr] show "safe (bnd (assign_global_scalar (gv_name g) v s1) (\<lambda>_ s. initialize_globals p gs s))
          (\<lambda>u t. globals_fit p (os_globals t) \<and> os_frames t = [])"
        by (simp add: assign_global_scalar_def)
    qed
    with Some show ?thesis by simp
  qed
qed simp

lemma main_function:
  assumes "well_formed p"
  obtains y where "function_env p ''main'' = Some y" "sym_param_types y = []"
proof -
  from assms obtain f where f: "f \<in> set (p_functions p)" "fn_name f = ''main''" "fn_params f = []"
    by (auto simp: well_formed_def has_main_def)
  have d: "distinct (map fst (map (\<lambda>f. (fn_name f, function_symbol f)) (p_functions p)))"
    using assms by (simp add: well_formed_def top_symbols_def comp_def)
  have "(''main'', function_symbol f) \<in> set (map (\<lambda>f. (fn_name f, function_symbol f)) (p_functions p))"
    using f by force
  with d have "function_env p ''main'' = Some (function_symbol f)" unfolding function_env_def by (rule map_of_is_SomeI)
  with f that show ?thesis by (simp add: function_symbol_def)
qed

lemma oracle_outcome:
  assumes p: "typed_source m p"
  shows "\<exists>out. run_ast_oracle p = Inr out \<and>
    (if oo_success out then is_i32 (oo_return_value out)
     else oo_trap_code out \<in> {DivideByZero, ArrayOutOfBounds, UndefinedLocal, StackOverflow, CycleLimit})"
proof -
  obtain gl where gl: "declare_globals (p_globals p) Map.empty = Inr gl" "globals_fit p gl"
    using initial_globals [OF p] by blast
  obtain y where y: "function_env p ''main'' = Some y" "sym_param_types y = []"
    using p main_function [of p] by (auto simp: typed_source_def)
  let ?s = "oracle_new gl"
  have "safe (bnd (initialize_globals p (p_globals p) ?s) (\<lambda>_ s. call_function p ''main'' [] s)) (\<lambda>v t. is_i32 v)"
  proof (rule safe_bnd [OF initialize_globals_safe [OF p subset_refl]])
    fix u :: unit and t :: ast_oracle
    assume "globals_fit p (os_globals t) \<and> os_frames t = []"
    with execution_safe(3) [OF p y(1), of "[]" t] y(2) have "call_safe p t (call_function p ''main'' [] t)" by simp
    then show "safe (call_function p ''main'' [] t) (\<lambda>v t. is_i32 v)"
      unfolding call_safe_def by (rule safe_mono) simp
  qed (use gl in \<open>simp_all add: oracle_new_def\<close>)
  then show ?thesis
    unfolding run_ast_oracle_def gl(1) safe_def post_def sum.case oracle_run_def
    by (cases "bnd (initialize_globals p (p_globals p) ?s) (\<lambda>_ s. call_function p ''main'' [] s)";
        cases "fst (bnd (initialize_globals p (p_globals p) ?s) (\<lambda>_ s. call_function p ''main'' [] s))")
      (auto simp: language_error_def outcome_ok_def outcome_trap_def)
qed

end
