(* ===== verification/Code_Runs.thy ===== *)
theory Code_Runs
  imports Direct_Code Type_Safety
begin

text \<open>
  Runs of compiled code, instruction by instruction: what a turn of the machine does at a known
  instruction, in a form that the correctness of the compiler can be put together from.
\<close>

section \<open>Runs up to a resource limit\<close>

text \<open>A run may stop early on a full stack or when the cycles, if limited, are spent.\<close>

definition resource_stop :: "nat \<Rightarrow> vm_exit \<Rightarrow> bool" where
  "resource_stop m x \<longleftrightarrow>
     (case fst x of
        Inl _ \<Rightarrow> False
      | Inr r \<Rightarrow> \<not> success r \<and> (trap_code r = StackOverflow \<or> trap_code r = CycleLimit \<and> 0 < m))"

definition leads :: "compiled_program \<Rightarrow> nat \<Rightarrow> vm \<Rightarrow> (vm_exit + vm \<Rightarrow> bool) \<Rightarrow> bool" where
  "leads p m v Q \<longleftrightarrow>
     (\<exists>n. case turns (vm_step p) n v of
            Inl x \<Rightarrow> resource_stop m x \<or> Q (Inl x)
          | Inr w \<Rightarrow> Q (Inr w))"

lemma leads_refl: "Q (Inr v) \<Longrightarrow> leads p m v Q"
  unfolding leads_def by (rule exI [of _ 0]) simp

lemma leads_step: "vm_step p v = Inr w \<Longrightarrow> leads p m w Q \<Longrightarrow> leads p m v Q"
  unfolding leads_def by (elim exE, rule_tac x = "Suc n" in exI) simp

lemma leads_stop: "vm_step p v = Inl x \<Longrightarrow> resource_stop m x \<or> Q (Inl x) \<Longrightarrow> leads p m v Q"
  unfolding leads_def by (rule exI [of _ 1]) simp

lemma leads_trans:
  assumes v: "leads p m v Q" and go: "\<And>w. Q (Inr w) \<Longrightarrow> leads p m w R" and stop: "\<And>x. Q (Inl x) \<Longrightarrow> R (Inl x)"
  shows "leads p m v R"
proof -
  from v obtain n where n: "case turns (vm_step p) n v of Inl x \<Rightarrow> resource_stop m x \<or> Q (Inl x) | Inr w \<Rightarrow> Q (Inr w)"
    unfolding leads_def by blast
  show ?thesis
  proof (cases "turns (vm_step p) n v")
    case (Inl x)
    with n have "resource_stop m x \<or> R (Inl x)" using stop [of x] by auto
    with Inl show ?thesis unfolding leads_def by (intro exI [of _ n]) simp
  next
    case (Inr w)
    with n go have "leads p m w R" by simp
    then obtain k where "case turns (vm_step p) k w of Inl x \<Rightarrow> resource_stop m x \<or> R (Inl x) | Inr w \<Rightarrow> R (Inr w)"
      unfolding leads_def by blast
    with Inr show ?thesis
      unfolding leads_def by (intro exI [of _ "n + k"]) (simp add: turns_add)
  qed
qed

section \<open>One turn\<close>

definition at :: "compiled_program \<Rightarrow> nat \<Rightarrow> instruction \<Rightarrow> bool" where
  "at p pc i \<longleftrightarrow> pc < length (instructions p) \<and> instructions p ! pc = i"

text \<open>A machine with limit \<open>m\<close>, without a trace, in a call.\<close>

definition steady :: "nat \<Rightarrow> vm \<Rightarrow> bool" where
  "steady m v \<longleftrightarrow> vm_trace v = None \<and> vm_max_cycles v = m \<and> vm_calls v \<noteq> []"

definition counted :: "vm \<Rightarrow> vm" where
  "counted v = v\<lparr>vm_cycles := vm_cycles v + 1\<rparr>"

lemma counted_simps [simp]:
  "vm_stack (counted v) = vm_stack v" "vm_locals (counted v) = vm_locals v" "vm_globals (counted v) = vm_globals v"
  "vm_calls (counted v) = vm_calls v" "vm_pc (counted v) = vm_pc v" "vm_output (counted v) = vm_output v"
  "vm_max_cycles (counted v) = vm_max_cycles v" "vm_trace (counted v) = vm_trace v"
  by (simp_all add: counted_def)

lemma vm_step_at:
  assumes "at p (vm_pc v) i"
  shows "vm_step p v =
    (if vm_max_cycles v > 0 \<and> vm_cycles v \<ge> vm_max_cycles v
     then Inl (finish (make_trap_result CycleLimit
            (fmt [''Cycle limit exceeded ('', show_nat (vm_max_cycles v), '' cycles)'']) v))
     else after_instruction (fetch_step i v) (execute_instruction p (opcode i) (arg1 i) (arg2 i) (counted v)))"
  using assms by (simp add: vm_step_def at_def exec_current_def counted_def Let_def)

lemma cycle_stop: "resource_stop m (finish (make_trap_result CycleLimit msg v)) \<longleftrightarrow> 0 < m"
  by (simp add: resource_stop_def finish_def make_trap_result_def)

lemma record_trace_None: "vm_trace v = None \<Longrightarrow> record_trace st out v = v"
  by (simp add: record_trace_def)

lemma leads_next:
  assumes i: "at p (vm_pc v) i" and v: "steady m v"
    and ex: "execute_instruction p (opcode i) (arg1 i) (arg2 i) (counted v) = (Inr adv, w)"
    and w: "steady m w" and go: "leads p m (if adv then w\<lparr>vm_pc := vm_pc w + 1\<rparr> else w) Q"
  shows "leads p m v Q"
proof (cases "vm_max_cycles v > 0 \<and> vm_cycles v \<ge> vm_max_cycles v")
  case True
  with v show ?thesis by (intro leads_stop [OF vm_step_at [OF i, unfolded if_P [OF True]]]) (simp add: cycle_stop steady_def)
next
  case False
  have "vm_step p v = Inr (if adv then w\<lparr>vm_pc := vm_pc w + 1\<rparr> else w)"
    using w by (simp add: vm_step_at [OF i] if_not_P [OF False] ex after_instruction_def Let_def steady_def record_trace_def)
  from leads_step [OF this go] show ?thesis .
qed

lemma leads_trap:
  assumes i: "at p (vm_pc v) i" and v: "steady m v"
    and ex: "execute_instruction p (opcode i) (arg1 i) (arg2 i) (counted v) = (Inl (Trap code msg), w)"
    and w: "vm_trace w = None" and Q: "code = StackOverflow \<or> Q (Inl (finish (make_trap_result code msg w)))"
  shows "leads p m v Q"
proof (cases "vm_max_cycles v > 0 \<and> vm_cycles v \<ge> vm_max_cycles v")
  case True
  with v show ?thesis by (intro leads_stop [OF vm_step_at [OF i, unfolded if_P [OF True]]]) (simp add: cycle_stop steady_def)
next
  case False
  have "vm_step p v = Inl (finish (make_trap_result code msg w))"
    using w by (simp add: vm_step_at [OF i] if_not_P [OF False] ex after_instruction_def Let_def record_trace_def)
  then show ?thesis
    by (rule leads_stop) (use Q in \<open>auto simp: resource_stop_def finish_def make_trap_result_def\<close>)
qed

lemma leads_exit:
  assumes i: "at p (vm_pc v) i" and v: "steady m v"
    and ex: "execute_instruction p (opcode i) (arg1 i) (arg2 i) (counted v) = (Inr False, w)"
    and w: "vm_trace w = None" "vm_calls w = []" and Q: "Q (Inl (finish (exit_result w)))"
  shows "leads p m v Q"
proof (cases "vm_max_cycles v > 0 \<and> vm_cycles v \<ge> vm_max_cycles v")
  case True
  with v show ?thesis by (intro leads_stop [OF vm_step_at [OF i, unfolded if_P [OF True]]]) (simp add: cycle_stop steady_def)
next
  case False
  have "vm_step p v = Inl (finish (exit_result w))"
    using w by (simp add: vm_step_at [OF i] if_not_P [OF False] ex after_instruction_def Let_def record_trace_def)
  then show ?thesis by (rule leads_stop) (use Q in simp)
qed

section \<open>Tracking a result of the interpreter\<close>

text \<open>
  The errors of the interpreter the machine reproduces. The others are its own cycle limit and a
  negative index, which it finds before the value to store is computed, and the machine after.
\<close>

definition comparable :: "vm_error \<Rightarrow> bool" where
  "comparable e \<longleftrightarrow>
     (\<exists>code msg. e = Trap code msg \<and> code \<in> {DivideByZero, UndefinedLocal, StackOverflow}) \<or>
     (\<exists>i n. e = oracle_index_error i n)"

definition stops_as :: "vm_error \<Rightarrow> string list \<Rightarrow> vm_exit \<Rightarrow> bool" where
  "stops_as e out x \<longleftrightarrow>
     (case (e, fst x) of
        (Trap code _, Inr r) \<Rightarrow> \<not> success r \<and> return_value r = 0 \<and> trap_code r = code \<and> res_output r = out
      | _ \<Rightarrow> False)"

definition tracks ::
  "compiled_program \<Rightarrow> nat \<Rightarrow> vm \<Rightarrow> 'a oracle_res \<Rightarrow> ('a \<Rightarrow> ast_oracle \<Rightarrow> vm \<Rightarrow> bool) \<Rightarrow> bool" where
  "tracks p m v r Q \<longleftrightarrow>
     (case fst r of
        Inr x \<Rightarrow> leads p m v (\<lambda>out. \<exists>w. out = Inr w \<and> Q x (snd r) w)
      | Inl e \<Rightarrow> comparable e \<longrightarrow> leads p m v (\<lambda>out. \<exists>x. out = Inl x \<and> stops_as e (os_output (snd r)) x))"

lemma tracks_bnd:
  assumes r: "tracks p m v r Q" and k: "\<And>x t w. r = (Inr x, t) \<Longrightarrow> Q x t w \<Longrightarrow> tracks p m w (k x t) R"
  shows "tracks p m v (bnd r k) R"
proof (cases "fst r")
  case (Inl e)
  with r show ?thesis by (simp add: tracks_def bnd_def)
next
  case (Inr x)
  then have res: "r = (Inr x, snd r)" by (cases r) simp
  from r Inr have l: "leads p m v (\<lambda>out. \<exists>w. out = Inr w \<and> Q x (snd r) w)" by (simp add: tracks_def)
  have k': "tracks p m w (k x (snd r)) R" if "Q x (snd r) w" for w using k [OF res that] .
  have "bnd r k = k x (snd r)" by (simp add: bnd_def Inr)
  moreover have "tracks p m v (k x (snd r)) R"
    unfolding tracks_def
    by (cases "fst (k x (snd r))"; auto intro!: leads_trans [OF l] dest!: k' simp: tracks_def)
  ultimately show ?thesis by simp
qed

lemma tracks_tick:
  assumes "\<And>t. tick s = (Inr (), t) \<Longrightarrow> t = s\<lparr>os_cycles := os_cycles s + 1\<rparr> \<Longrightarrow> tracks p m v (k () t) R"
  shows "tracks p m v (bnd (tick s) k) R"
proof (cases "os_cycles s < MAX_CYCLES")
  case True
  then have "tick s = (Inr (), s\<lparr>os_cycles := os_cycles s + 1\<rparr>)" by (simp add: tick_Inr)
  with assms show ?thesis by simp
next
  case False
  then show ?thesis
    by (simp add: tick_def Let_def MAX_CYCLES_def tracks_def comparable_def oracle_index_error_def)
qed

lemma tracks_Inr: "Q x t v \<Longrightarrow> tracks p m v (Inr x, t) Q"
  by (auto simp: tracks_def intro: leads_refl)

lemma tracks_leads:
  "leads p m v (\<lambda>out. \<exists>w. out = Inr w \<and> P w) \<Longrightarrow> (\<And>w. P w \<Longrightarrow> tracks p m w r Q) \<Longrightarrow> tracks p m v r Q"
  unfolding tracks_def by (cases "fst r"; auto intro!: leads_trans [of p m v "\<lambda>out. \<exists>w. out = Inr w \<and> P w"])

lemma tracks_mono:
  "tracks p m v r Q \<Longrightarrow> (\<And>x t w. r = (Inr x, t) \<Longrightarrow> Q x t w \<Longrightarrow> R x t w) \<Longrightarrow> tracks p m v r R"
  by (cases r; cases "fst r") (auto simp: tracks_def intro: leads_refl elim!: leads_trans)

lemma tracks_next:
  assumes "at p (vm_pc v) i" "steady m v"
    "execute_instruction p (opcode i) (arg1 i) (arg2 i) (counted v) = (Inr adv, w)" "steady m w"
    "tracks p m (if adv then w\<lparr>vm_pc := vm_pc w + 1\<rparr> else w) r Q"
  shows "tracks p m v r Q"
  using assms by (cases "fst r") (auto simp: tracks_def intro: leads_next)

lemma tracks_overflow:
  assumes "at p (vm_pc v) i" "steady m v"
    "execute_instruction p (opcode i) (arg1 i) (arg2 i) (counted v) = (Inl (Trap StackOverflow msg), w)" "vm_trace w = None"
  shows "tracks p m v r Q"
  using assms by (cases "fst r") (auto simp: tracks_def intro: leads_trap)

lemma tracks_trap:
  assumes "at p (vm_pc v) i" "steady m v"
    "execute_instruction p (opcode i) (arg1 i) (arg2 i) (counted v) = (Inl (Trap code msg'), w)" "vm_trace w = None"
    "vm_output w = os_output t"
  shows "tracks p m v (Inl (Trap code msg), t) Q"
  using assms by (auto simp: tracks_def stops_as_def finish_def make_trap_result_def intro!: leads_trap)

lemma tracks_incomparable: "\<not> comparable e \<Longrightarrow> tracks p m v (Inl e, t) Q"
  by (simp add: tracks_def)

text \<open>An instruction that ends by pushing \<open>x\<close>.\<close>

lemma tracks_push:
  assumes i: "at p (vm_pc v) i" and v: "steady m v"
    and ex: "execute_instruction p (opcode i) (arg1 i) (arg2 i) (counted v) = push_next x w"
    and w: "steady m w" and go: "tracks p m (w\<lparr>vm_stack := x # vm_stack w, vm_pc := vm_pc w + 1\<rparr>) r Q"
  shows "tracks p m v r Q"
proof (cases "length (vm_stack w) \<ge> MAX_OPERAND_STACK")
  case True
  then show ?thesis
    using w by (intro tracks_overflow [OF i v]) (simp_all add: ex push_next_def push_def steady_def, auto)
next
  case False
  then have "execute_instruction p (opcode i) (arg1 i) (arg2 i) (counted v) = (Inr True, w\<lparr>vm_stack := x # vm_stack w\<rparr>)"
    by (simp add: ex push_next_def push_def)
  from tracks_next [OF i v this] go w show ?thesis by (simp add: steady_def)
qed

end
