(* ===== verification/Code_Layout.thy ===== *)
theory Code_Layout
  imports Code_Runs
begin

text \<open>
  Where the compiler puts things: the slots of the locals of a function and of the globals, and the
  code of every function in the program.
\<close>

section \<open>Local slots\<close>

definition kind_of :: "local_var \<Rightarrow> bool \<times> nat" where
  "kind_of l = (lv_is_array l, lv_array_size l)"

lemma bind_local_kind:
  "map_option kind_of (fst (bind_local n sz E) k) =
     (case fst E k of Some l \<Rightarrow> Some (kind_of l)
      | None \<Rightarrow> if k = n then Some (sz \<noteq> None, decl_size sz) else None)"
  by (auto simp: bind_local_def kind_of_def split: option.split)

lemma bind_locals_kind:
  "map_option kind_of (fst (bind_locals st E) k) =
     (case fst E k of Some l \<Rightarrow> Some (kind_of l)
      | None \<Rightarrow> map_option (\<lambda>sz. (sz \<noteq> None, decl_size sz)) (map_of (decls_of st) k))"
  "map_option kind_of (fst (bind_locals_list ss E) k) =
     (case fst E k of Some l \<Rightarrow> Some (kind_of l)
      | None \<Rightarrow> map_option (\<lambda>sz. (sz \<noteq> None, decl_size sz)) (map_of (decls_of_list ss) k))"
proof (induction st E and ss E rule: bind_locals_bind_locals_list.induct)
  case (1 t n i sz sp E)
  show ?case by (simp add: bind_local_kind split: option.split)
next
  case (2 cond th el sp E)
  then show ?case
  proof (cases el)
    case (Some ss)
    let ?E = "bind_locals_list th E"
    have "map_option kind_of (fst (bind_locals_list ss ?E) k) =
        (case fst ?E k of Some l \<Rightarrow> Some (kind_of l)
         | None \<Rightarrow> map_option (\<lambda>sz. (sz \<noteq> None, decl_size sz)) (map_of (decls_of_list ss) k))"
      using "2.IH"(2) Some by (cases ?E) simp
    with Some "2.IH"(1) show ?thesis by (cases "fst ?E k") (auto simp: Let_def map_add_def split: option.splits)
  qed (simp split: option.split)
next
  case (9 s ss E)
  then show ?case
    by (cases "fst (bind_locals s E) k") (auto simp: map_add_def split: option.splits)
qed (auto split: option.split)

lemma param_locals_kind:
  "map_option kind_of (fst (param_locals ps E) k) =
     (if k \<in> par_name ` set ps then Some (False, 0) else map_option kind_of (fst E k))"
  by (induction ps arbitrary: E) (auto simp: param_locals_def kind_of_def)

lemma frame_env_kind:
  "map_option kind_of (fst (frame_env f) k) = map_option (\<lambda>sz. (sz \<noteq> None, decl_size sz)) (var_sizes f k)"
proof (cases "k \<in> par_name ` set (fn_params f)")
  case True
  then have "map_option kind_of (fst (param_env f) k) = Some (False, 0)" by (simp add: param_env_def param_locals_kind)
  with True show ?thesis
    by (auto simp: frame_env_def bind_locals_kind var_sizes_param decl_size_def split: option.splits)
next
  case False
  then have "map_option kind_of (fst (param_env f) k) = None" by (simp add: param_env_def param_locals_kind)
  moreover have "var_sizes f k = map_of (decls_of_list (fn_body f)) k"
    using False by (auto simp: var_sizes_def map_add_def map_of_eq_None_iff split: option.split dest!: map_of_SomeD)
  ultimately show ?thesis by (simp add: frame_env_def bind_locals_kind split: option.split)
qed

lemma frame_env_var:
  assumes "var_sizes f k = Some sz"
  obtains l where "fst (frame_env f) k = Some l" "lv_is_array l = (sz \<noteq> None)" "lv_array_size l = decl_size sz"
  using frame_env_kind [of f k] assms by (auto simp: kind_of_def)

lemma frame_env_None: "var_sizes f k = None \<longleftrightarrow> fst (frame_env f) k = None"
  using frame_env_kind [of f k] by (cases "fst (frame_env f) k"; cases "var_sizes f k") auto

text \<open>Different names have different slots.\<close>

definition slots_distinct :: "local_env \<Rightarrow> bool" where
  "slots_distinct E \<longleftrightarrow> slots_below E \<and>
     (\<forall>n n' l l'. fst E n = Some l \<longrightarrow> fst E n' = Some l' \<longrightarrow> lv_slot l = lv_slot l' \<longrightarrow> n = n')"

lemma slots_distinct_add:
  "slots_distinct E \<Longrightarrow> lv_slot l = snd E \<Longrightarrow> slots_distinct ((fst E)(n \<mapsto> l), snd E + 1)"
  by (force simp: slots_distinct_def slots_below_def)

lemma bind_local_distinct: "slots_distinct E \<Longrightarrow> slots_distinct (bind_local n sz E)"
  using slots_distinct_add [of E _ n] by (simp add: bind_local_def)

lemma bind_locals_distinct:
  "slots_distinct E \<Longrightarrow> slots_distinct (bind_locals st E)"
  "slots_distinct E \<Longrightarrow> slots_distinct (bind_locals_list ss E)"
proof (induction st E and ss E rule: bind_locals_bind_locals_list.induct)
  case (2 cond th el sp E)
  then show ?case by (cases "bind_locals_list th E"; cases el) auto
qed (auto simp: bind_local_distinct)

lemma param_locals_distinct: "slots_distinct E \<Longrightarrow> slots_distinct (param_locals ps E)"
proof (induction ps arbitrary: E)
  case (Cons x ps)
  from Cons.IH [OF slots_distinct_add [OF Cons.prems, of "\<lparr>lv_slot = snd E, lv_is_array = False, lv_array_size = 0\<rparr>" "par_name x"]]
  show ?case by (simp add: param_locals_def)
qed (simp add: param_locals_def)

lemma frame_env_distinct: "slots_distinct (frame_env f)"
  by (simp add: frame_env_def param_env_def bind_locals_distinct param_locals_distinct)
    (intro bind_locals_distinct param_locals_distinct, simp add: slots_distinct_def slots_below_def)

lemma frame_slot_less: "fst (frame_env f) n = Some l \<Longrightarrow> lv_slot l < snd (frame_env f)"
  using frame_env_distinct [of f] by (auto simp: slots_distinct_def slots_below_def)

lemma frame_slot_inj: "fst (frame_env f) n = Some l \<Longrightarrow> fst (frame_env f) n' = Some l' \<Longrightarrow> lv_slot l = lv_slot l' \<Longrightarrow> n = n'"
  using frame_env_distinct [of f] by (auto simp: slots_distinct_def)

section \<open>The size of a frame\<close>

lemma bind_local_dom: "dom (fst (bind_local n sz E)) = insert n (dom (fst E))"
  by (auto simp: bind_local_def)

lemma bind_locals_dom:
  "dom (fst (bind_locals st E)) = dom (fst E) \<union> names_of st"
  "dom (fst (bind_locals_list ss E)) = dom (fst E) \<union> names_of_list ss"
proof (induction st E and ss E rule: bind_locals_bind_locals_list.induct)
  case (2 cond th el sp E)
  then show ?case by (cases "bind_locals_list th E"; cases el) auto
qed (auto simp: bind_local_dom)

lemma bind_locals_count:
  "snd (bind_locals st E) = snd E + card (names_of st - dom (fst E))"
  "snd (bind_locals_list ss E) = snd E + card (names_of_list ss - dom (fst E))"
proof (induction st E and ss E rule: bind_locals_bind_locals_list.induct)
  case (1 t n i sz sp E)
  show ?case by (cases "fst E n") (auto simp: bind_local_def card_insert_if insert_Diff_if)
next
  case (2 cond th el sp E)
  show ?case
  proof (cases el)
    case (Some ss)
    let ?E = "bind_locals_list th E"
    have "snd (bind_locals_list ss ?E) = snd ?E + card (names_of_list ss - dom (fst ?E))"
      using "2.IH"(2) Some by (cases ?E) simp
    with Some "2.IH"(1) show ?thesis
      using card_split [of "names_of_list th" "names_of_list ss" "dom (fst E)"] by (simp add: Let_def bind_locals_dom)
  qed (use "2.IH"(1) in simp)
next
  case (9 s ss E)
  then show ?case using card_split [of "names_of s" "names_of_list ss" "dom (fst E)"] by (simp add: bind_locals_dom)
qed auto

lemma param_env_dom: "dom (fst (param_env f)) = par_name ` set (fn_params f)"
proof -
  have "dom (fst (param_locals ps E)) = dom (fst E) \<union> par_name ` set ps" for ps E
    by (induction ps arbitrary: E) (auto simp: param_locals_def)
  then show ?thesis by (simp add: param_env_def)
qed

lemma frame_env_size: "snd (frame_env f) = frame_slots f"
  by (simp add: frame_env_def bind_locals_count param_env_dom param_env_slots frame_slots_def)

text \<open>Parameters have the first slots, in order.\<close>

lemma param_locals_slot:
  "distinct (map par_name ps) \<Longrightarrow> i < length ps \<Longrightarrow>
     fst (param_locals ps E) (par_name (ps ! i)) = Some \<lparr>lv_slot = snd E + i, lv_is_array = False, lv_array_size = 0\<rparr>"
proof (induction ps arbitrary: E i)
  case (Cons x ps)
  let ?E = "((fst E)(par_name x \<mapsto> \<lparr>lv_slot = snd E, lv_is_array = False, lv_array_size = 0\<rparr>), snd E + 1)"
  have step: "param_locals (x # ps) E = param_locals ps ?E" by (simp add: param_locals_def)
  show ?case
  proof (cases i)
    case 0
    have "par_name x \<notin> par_name ` set qs \<Longrightarrow> fst (param_locals qs E') (par_name x) = fst E' (par_name x)" for qs E'
      by (induction qs arbitrary: E') (auto simp: param_locals_def)
    from this [of ps ?E] Cons.prems 0 show ?thesis by (simp add: step)
  next
    case (Suc j)
    with Cons.IH [of j ?E] Cons.prems show ?thesis by (simp add: step)
  qed
qed simp

section \<open>Global slots\<close>

definition global_width :: "global_info \<Rightarrow> nat" where
  "global_width x = (if gi_is_array x then gi_array_size x else 1)"

lemma global_table_kind:
  "map_option (\<lambda>x. (gi_is_array x, gi_array_size x)) (map_of (global_table k gs) n) =
     map_option (\<lambda>sz. (sz \<noteq> None, decl_size sz)) (map_of (map (\<lambda>g. (gv_name g, gv_array_size g)) gs) n)"
  by (induction gs arbitrary: k) auto

lemma global_table_range:
  "map_of (global_table k gs) n = Some x \<Longrightarrow> k \<le> gi_slot x \<and> gi_slot x + global_width x \<le> k + sum_list (map global_slots gs)"
proof (induction gs arbitrary: k)
  case (Cons g gs)
  show ?case
  proof (cases "n = gv_name g")
    case True
    with Cons.prems show ?thesis
      by (auto simp: global_width_def global_slots_def decl_size_def split: option.split)
  next
    case False
    with Cons.prems Cons.IH [of "k + global_slots g"] show ?thesis by (simp add: global_slots_def)
  qed
qed simp

lemma global_table_disjoint:
  "map_of (global_table k gs) n = Some x \<Longrightarrow> map_of (global_table k gs) n' = Some x' \<Longrightarrow> n \<noteq> n' \<Longrightarrow>
     gi_slot x + global_width x \<le> gi_slot x' \<or> gi_slot x' + global_width x' \<le> gi_slot x"
proof (induction gs arbitrary: k)
  case (Cons g gs)
  let ?k = "k + global_slots g"
  have first: "gi_slot y + global_width y = ?k" if "map_of (global_table k (g # gs)) (gv_name g) = Some y" for y
    using that by (auto simp: global_width_def global_slots_def decl_size_def split: option.split)
  have rest: "map_of (global_table ?k gs) j = Some y" if "map_of (global_table k (g # gs)) j = Some y" "j \<noteq> gv_name g" for j y
    using that by (simp add: global_slots_def)
  show ?case
  proof (cases "n = gv_name g \<or> n' = gv_name g")
    case True
    then show ?thesis
    proof
      assume n: "n = gv_name g"
      from first Cons.prems(1) n have "gi_slot x + global_width x = ?k" by blast
      with global_table_range [OF rest [OF Cons.prems(2)]] Cons.prems(3) n show ?thesis by auto
    next
      assume n: "n' = gv_name g"
      from first Cons.prems(2) n have "gi_slot x' + global_width x' = ?k" by blast
      with global_table_range [OF rest [OF Cons.prems(1)]] Cons.prems(3) n show ?thesis by auto
    qed
  next
    case False
    with Cons.IH [OF rest [OF Cons.prems(1)] rest [OF Cons.prems(2)]] Cons.prems(3) show ?thesis by blast
  qed
qed simp

lemma program_global:
  assumes p: "typed_source c p" and sz: "global_sizes p n = Some sz"
  obtains x where "fst (program_env p) n = Some x" "gi_is_array x = (sz \<noteq> None)" "gi_array_size x = decl_size sz"
    "gi_slot x + global_width x \<le> MAX_GLOBAL_SLOTS"
proof -
  from sz global_table_kind [of 0 "p_globals p" n] obtain x where x: "map_of (global_table 0 (p_globals p)) n = Some x"
    "gi_is_array x = (sz \<noteq> None)" "gi_array_size x = decl_size sz"
    by (auto simp: global_sizes_def)
  from p have "sum_list (map global_slots (p_globals p)) \<le> MAX_GLOBAL_SLOTS"
    by (simp add: typed_source_def well_formed_def)
  with global_table_range [OF x(1)] x that show ?thesis by (simp add: program_env_def)
qed

lemma program_global_sizes:
  assumes "fst (program_env p) n = Some x"
  obtains sz where "global_sizes p n = Some sz" "gi_is_array x = (sz \<noteq> None)" "gi_array_size x = decl_size sz"
proof -
  let ?sz = "map_of (map (\<lambda>g. (gv_name g, gv_array_size g)) (p_globals p)) n"
  from global_table_kind [of 0 "p_globals p" n] assms
  have "Some (gi_is_array x, gi_array_size x) = map_option (\<lambda>sz. (sz \<noteq> None, decl_size sz)) ?sz"
    by (simp add: program_env_def)
  with that show ?thesis by (cases ?sz) (simp_all add: global_sizes_def)
qed

lemma program_globals_disjoint:
  "fst (program_env p) n = Some x \<Longrightarrow> fst (program_env p) n' = Some x' \<Longrightarrow> n \<noteq> n' \<Longrightarrow>
     gi_slot x + global_width x \<le> gi_slot x' \<or> gi_slot x' + global_width x' \<le> gi_slot x"
  by (simp add: program_env_def global_table_disjoint)

section \<open>Code\<close>

definition code_at :: "compiled_program \<Rightarrow> nat \<Rightarrow> instruction list \<Rightarrow> bool" where
  "code_at p pc is \<longleftrightarrow> (\<exists>pre post. instructions p = pre @ is @ post \<and> length pre = pc)"

lemma code_at_append: "code_at p pc (xs @ ys) \<Longrightarrow> code_at p pc xs \<and> code_at p (pc + length xs) ys"
  unfolding code_at_def
proof (elim exE conjE)
  fix pre post assume a: "instructions p = pre @ (xs @ ys) @ post" "length pre = pc"
  show "(\<exists>pre post. instructions p = pre @ xs @ post \<and> length pre = pc) \<and>
      (\<exists>pre post. instructions p = pre @ ys @ post \<and> length pre = pc + length xs)"
    by (rule conjI, rule exI [of _ pre], rule exI [of _ "ys @ post"], use a in simp,
        rule exI [of _ "pre @ xs"], rule exI [of _ post], use a in simp)
qed

lemma code_at_Cons: "code_at p pc (i # is) \<Longrightarrow> at p pc i \<and> code_at p (pc + 1) is"
  using code_at_append [of p pc "[i]" "is"] by (auto simp: code_at_def at_def nth_append)

lemma code_at_bound: "code_at p pc is \<Longrightarrow> pc + length is \<le> length (instructions p)"
  by (auto simp: code_at_def)

lemma function_ids_nth:
  "distinct (map fn_name fs) \<Longrightarrow> i < length fs \<Longrightarrow> map_of (function_ids k fs) (fn_name (fs ! i)) = Some (k + i)"
proof (induction fs arbitrary: k i)
  case (Cons f fs)
  show ?case
  proof (cases i)
    case (Suc j)
    with Cons.prems have "j < length fs" "fn_name f \<notin> fn_name ` set fs" by simp_all
    then have "fn_name (fs ! j) \<noteq> fn_name f" by (metis imageI nth_mem)
    with Suc Cons.prems Cons.IH [of j "k + 1"] show ?thesis by simp
  qed simp
qed simp

lemma function_placed:
  "i < length fs \<Longrightarrow> \<exists>pre post entry.
     functions_code gs g pc fs = pre @ function_code gs g entry (fs ! i) @ post \<and> entry = pc + length pre \<and>
     map_of (function_table gs g k pc fs) (k + i) = Some (info_of (k + i) entry (fs ! i))"
proof (induction fs arbitrary: k i pc)
  case (Cons f fs)
  let ?cf = "function_code gs g pc f"
  show ?case
  proof (cases i)
    case 0
    then show ?thesis
      by (intro exI [of _ "[]"] exI [of _ "functions_code gs g (pc + length ?cf) fs"] exI [of _ pc]) (simp add: Let_def)
  next
    case (Suc j)
    with Cons.IH [of j "pc + length ?cf" "k + 1"] Cons.prems obtain pre post entry where
      h: "functions_code gs g (pc + length ?cf) fs = pre @ function_code gs g entry (fs ! j) @ post"
        "entry = pc + length ?cf + length pre"
        "map_of (function_table gs g (k + 1) (pc + length ?cf) fs) (k + 1 + j) = Some (info_of (k + 1 + j) entry (fs ! j))"
      by auto
    show ?thesis
      by (intro exI [of _ "?cf @ pre"] exI [of _ post] exI [of _ entry]) (use h Suc in \<open>simp add: Let_def\<close>)
  qed
qed simp

lemma function_code_nonempty: "2 \<le> length (function_code gs g pc f)"
  by (simp add: function_code_def Let_def)

lemma functions_code_length: "length fs \<le> length (functions_code gs g pc fs)"
proof (induction fs arbitrary: pc)
  case (Cons f fs)
  from Cons [of "pc + length (function_code gs g pc f)"] function_code_nonempty [of gs g pc f] show ?case
    by (simp add: Let_def)
qed simp

lemma program_function:
  assumes p: "typed_source c p" and f: "f \<in> set (p_functions p)"
  obtains i entry where "snd (program_env p) (fn_name f) = Some i" "i < length (instructions (direct_program p))"
    "fun_lookup (direct_program p) i = Some (info_of i entry f)"
    "code_at (direct_program p) entry (function_code (p_globals p) (program_env p) entry f)"
proof -
  from f obtain i where i: "i < length (p_functions p)" "p_functions p ! i = f" by (auto simp: in_set_conv_nth)
  have d: "distinct (map fn_name (p_functions p))"
    using p well_formed_names(2) by (simp add: typed_source_def)
  from function_placed [OF i(1), of "p_globals p" "program_env p" 0 0] i(2) obtain pre post entry where
    h: "functions_code (p_globals p) (program_env p) 0 (p_functions p) =
        pre @ function_code (p_globals p) (program_env p) entry f @ post" "entry = length pre"
      "map_of (function_table (p_globals p) (program_env p) 0 0 (p_functions p)) i = Some (info_of i entry f)"
    by auto
  show ?thesis
  proof (rule that)
    show "snd (program_env p) (fn_name f) = Some i"
      using function_ids_nth [OF d i(1), of 0] i(2) by (simp add: program_env_def)
    show "i < length (instructions (direct_program p))"
      using i(1) functions_code_length [of "p_functions p"] by (simp add: direct_program_def le_trans less_le_trans)
    show "fun_lookup (direct_program p) i = Some (info_of i entry f)"
      using h(3) by (simp add: fun_lookup_def direct_program_def)
    show "code_at (direct_program p) entry (function_code (p_globals p) (program_env p) entry f)"
      using h(1,2) by (auto simp: code_at_def direct_program_def)
  qed
qed

end
