(* ===== verification/Code_Steps.thy ===== *)
theory Code_Steps
  imports Code_Layout
begin

text \<open>
  The relation between a state of the interpreter and a state of the machine that runs the compiled
  program, and the instructions that read and write variables.
\<close>

section \<open>Related states\<close>

abbreviation loc :: "vm \<Rightarrow> nat \<Rightarrow> i64" where "loc v i \<equiv> vget (vm_locals v) i"
abbreviation glob :: "vm \<Rightarrow> nat \<Rightarrow> i64" where "glob v i \<equiv> vget (vm_globals v) i"

text \<open>
  A local in its slot of the frame at \<open>base\<close>: an undefined one is the marker, an array is the address
  \<open>ad\<close> of its elements, which lie at \<open>A\<close> or above.
\<close>

definition local_rel :: "vm \<Rightarrow> nat \<Rightarrow> nat \<Rightarrow> local_var \<Rightarrow> oracle_slot option \<Rightarrow> nat \<Rightarrow> bool" where
  "local_rel v base A l slot ad \<longleftrightarrow>
     (case slot of
        None \<Rightarrow> loc v (base + lv_slot l) = i64_min
      | Some (SScalar None) \<Rightarrow> loc v (base + lv_slot l) = i64_min
      | Some (SScalar (Some x)) \<Rightarrow> loc v (base + lv_slot l) = x
      | Some (SArray vs) \<Rightarrow>
          loc v (base + lv_slot l) = int ad \<and> A \<le> ad \<and> ad + length vs \<le> vlen (vm_locals v) \<and>
          (\<forall>i < length vs. loc v (ad + i) = vs ! i))"

definition arrays_apart :: "oracle_scope \<Rightarrow> (string \<Rightarrow> nat) \<Rightarrow> bool" where
  "arrays_apart sc ad \<longleftrightarrow>
     (\<forall>n n' vs vs'. sc n = Some (SArray vs) \<longrightarrow> sc n' = Some (SArray vs') \<longrightarrow> n \<noteq> n' \<longrightarrow>
        ad n + length vs \<le> ad n' \<or> ad n' + length vs' \<le> ad n)"

definition frame_rel :: "func \<Rightarrow> oracle_scope \<Rightarrow> nat \<Rightarrow> nat \<Rightarrow> vm \<Rightarrow> bool" where
  "frame_rel f sc base A v \<longleftrightarrow>
     (\<exists>ad. arrays_apart sc ad \<and> dom sc \<subseteq> dom (fst (frame_env f)) \<and>
        (\<forall>n l. fst (frame_env f) n = Some l \<longrightarrow> local_rel v base A l (sc n) (ad n)))"

definition globals_rel :: "program \<Rightarrow> oracle_scope \<Rightarrow> vm \<Rightarrow> bool" where
  "globals_rel p gl v \<longleftrightarrow>
     (\<forall>n x. fst (program_env p) n = Some x \<longrightarrow>
        (case gl n of
           Some (SScalar (Some y)) \<Rightarrow> glob v (gi_slot x) = y
         | Some (SArray vs) \<Rightarrow> (\<forall>i < length vs. glob v (gi_slot x + i) = vs ! i)
         | _ \<Rightarrow> True))"

text \<open>The machine is in a call of \<open>f\<close> whose frame begins at \<open>base\<close>.\<close>

definition in_frame :: "program \<Rightarrow> func \<Rightarrow> nat \<Rightarrow> vm \<Rightarrow> bool" where
  "in_frame p f base v \<longleftrightarrow>
     (\<exists>fr rest entry. vm_calls v = fr # rest \<and> base_ptr fr = base \<and>
        fun_lookup (direct_program p) (frame_func fr) = Some (info_of (frame_func fr) entry f)) \<and>
     base + snd (frame_env f) \<le> MAX_LOCAL_SLOTS \<and> f \<in> set (p_functions p)"

definition state_rel :: "program \<Rightarrow> nat \<Rightarrow> func \<Rightarrow> nat \<Rightarrow> nat \<Rightarrow> ast_oracle \<Rightarrow> vm \<Rightarrow> bool" where
  "state_rel p m f base A s v \<longleftrightarrow>
     steady m v \<and> in_frame p f base v \<and> frame_rel f (top_scope s) base A v \<and> globals_rel p (os_globals s) v \<and>
     vm_output v = os_output s \<and> length (os_frames s) \<le> length (vm_calls v) \<and>
     vlen (vm_globals v) = MAX_GLOBAL_SLOTS \<and> MAX_LOCAL_SLOTS \<le> A \<and> A \<le> vlen (vm_locals v) \<and>
     vlen (vm_locals v) \<le> MAX_LOCAL_SLOTS + os_cycles s * 2147483648 \<and> os_cycles s \<le> MAX_CYCLES"

lemma state_rel_cong:
  "vm_locals w = vm_locals v \<Longrightarrow> vm_globals w = vm_globals v \<Longrightarrow> vm_calls w = vm_calls v \<Longrightarrow>
     vm_output w = vm_output v \<Longrightarrow> vm_trace w = vm_trace v \<Longrightarrow> vm_max_cycles w = vm_max_cycles v \<Longrightarrow>
     state_rel p m f base A s w = state_rel p m f base A s v"
  by (simp add: state_rel_def steady_def in_frame_def frame_rel_def local_rel_def globals_rel_def
      cong: option.case_cong oracle_slot.case_cong)

lemma state_rel_simps [simp]:
  "state_rel p m f base A s (counted v) = state_rel p m f base A s v"
  "state_rel p m f base A s (v\<lparr>vm_stack := st\<rparr>) = state_rel p m f base A s v"
  "state_rel p m f base A s (v\<lparr>vm_pc := pc\<rparr>) = state_rel p m f base A s v"
  by (rule state_rel_cong; simp)+

lemma state_rel_tick:
  "state_rel p m f base A s v \<Longrightarrow> os_cycles s < MAX_CYCLES \<Longrightarrow> state_rel p m f base A (s\<lparr>os_cycles := os_cycles s + 1\<rparr>) v"
  by (simp add: state_rel_def)

lemma state_rel_steady: "state_rel p m f base A s v \<Longrightarrow> steady m v"
  by (simp add: state_rel_def)

lemma steady_simps [simp]:
  "steady m (counted v) = steady m v" "steady m (v\<lparr>vm_stack := st\<rparr>) = steady m v" "steady m (v\<lparr>vm_pc := pc\<rparr>) = steady m v"
  "steady m (v\<lparr>vm_locals := ls\<rparr>) = steady m v" "steady m (v\<lparr>vm_globals := gs\<rparr>) = steady m v"
  "steady m (v\<lparr>vm_output := out\<rparr>) = steady m v"
  by (simp_all add: steady_def)

text \<open>The storage a caller relies on: below \<open>L\<close>, and the arrays below \<open>B\<close>.\<close>

definition keeps :: "nat \<Rightarrow> nat \<Rightarrow> vm \<Rightarrow> vm \<Rightarrow> bool" where
  "keeps L B v w \<longleftrightarrow>
     vlen (vm_locals v) \<le> vlen (vm_locals w) \<and>
     (\<forall>i. i < L \<or> (MAX_LOCAL_SLOTS \<le> i \<and> i < B) \<longrightarrow> loc w i = loc v i)"

lemma keeps_same: "vm_locals w = vm_locals v \<Longrightarrow> keeps L B v w"
  by (simp add: keeps_def)

lemma keeps_trans: "keeps L B v w \<Longrightarrow> keeps L' B' w u \<Longrightarrow> L \<le> L' \<Longrightarrow> B \<le> B' \<Longrightarrow> keeps L B v u"
  by (auto simp: keeps_def)

lemma keeps_less: "keeps L B v w \<Longrightarrow> L' \<le> L \<Longrightarrow> B' \<le> B \<Longrightarrow> keeps L' B' v w"
  by (auto simp: keeps_def)

text \<open>A frame survives what happens above it.\<close>

lemma frame_rel_keeps:
  assumes fr: "frame_rel f sc base A v" and k: "keeps (base + snd (frame_env f)) (vlen (vm_locals v)) v w"
    and A: "MAX_LOCAL_SLOTS \<le> A"
  shows "frame_rel f sc base A w"
proof -
  from fr obtain ad where ap: "arrays_apart sc ad" "dom sc \<subseteq> dom (fst (frame_env f))"
    and l: "\<And>n l. fst (frame_env f) n = Some l \<Longrightarrow> local_rel v base A l (sc n) (ad n)"
    by (auto simp: frame_rel_def)
  have "local_rel w base A l (sc n) (ad n)" if n: "fst (frame_env f) n = Some l" for n l
  proof -
    have slot: "loc w (base + lv_slot l) = loc v (base + lv_slot l)"
      using k frame_slot_less [OF n] by (simp add: keeps_def)
    have arr: "loc w i = loc v i" if "A \<le> i" "i < vlen (vm_locals v)" for i
      using k A that by (auto simp: keeps_def)
    have len: "vlen (vm_locals v) \<le> vlen (vm_locals w)" using k by (simp add: keeps_def)
    from l [OF n] slot arr len show ?thesis
      by (auto simp: local_rel_def split: option.splits oracle_slot.splits)
  qed
  with ap show ?thesis unfolding frame_rel_def by blast
qed

lemma counted_stack [simp]: "(counted v)\<lparr>vm_stack := vm_stack v\<rparr> = counted v"
  by (simp add: counted_def)

section \<open>Evaluation steps\<close>

definition arrives ::
  "program \<Rightarrow> nat \<Rightarrow> func \<Rightarrow> nat \<Rightarrow> nat \<Rightarrow> vm \<Rightarrow> i64 list \<Rightarrow> nat \<Rightarrow> ast_oracle \<Rightarrow> vm \<Rightarrow> bool" where
  "arrives p m f base A v st pc t w \<longleftrightarrow>
     state_rel p m f base A t w \<and> vm_stack w = st \<and> vm_pc w = pc \<and> vm_calls w = vm_calls v \<and>
     keeps (base + snd (frame_env f)) (vlen (vm_locals v)) v w"

lemma arrives_refl: "state_rel p m f base A s v \<Longrightarrow> arrives p m f base A v (vm_stack v) (vm_pc v) s v"
  by (simp add: arrives_def keeps_same)

lemma arrives_trans:
  "arrives p m f base A v st pc t w \<Longrightarrow> arrives p m f base A w st' pc' t' w' \<Longrightarrow> arrives p m f base A v st' pc' t' w'"
  unfolding arrives_def by (auto intro: keeps_trans simp: keeps_def)

lemma arrives_rel: "arrives p m f base A v st pc t w \<Longrightarrow> state_rel p m f base A t w"
  by (simp add: arrives_def)

text \<open>An instruction that takes operands off the stack and pushes a value.\<close>

lemma tracks_value:
  assumes i: "at (direct_program p) (vm_pc v) i" and rel: "state_rel p m f base A s v"
    and ex: "execute_instruction (direct_program p) (opcode i) (arg1 i) (arg2 i) (counted v) =
      push_next x ((counted v)\<lparr>vm_stack := st\<rparr>)"
  shows "tracks (direct_program p) m v (Inr x, s) (\<lambda>x t w. t = s \<and> arrives p m f base A v (x # st) (vm_pc v + 1) t w)"
proof (rule tracks_push [OF i state_rel_steady [OF rel] ex])
  show "steady m ((counted v)\<lparr>vm_stack := st\<rparr>)" using state_rel_steady [OF rel] by simp
  let ?w = "(counted v)\<lparr>vm_stack := x # st, vm_pc := vm_pc v + 1\<rparr>"
  have "arrives p m f base A v (x # st) (vm_pc v + 1) s ?w"
    using rel by (simp add: arrives_def keeps_same)
  then show "tracks (direct_program p) m
      ((counted v)\<lparr>vm_stack := st, vm_stack := x # vm_stack ((counted v)\<lparr>vm_stack := st\<rparr>),
        vm_pc := vm_pc ((counted v)\<lparr>vm_stack := st\<rparr>) + 1\<rparr>) (Inr x, s)
      (\<lambda>x t w. t = s \<and> arrives p m f base A v (x # st) (vm_pc v + 1) t w)"
    by (intro tracks_Inr) simp
qed

lemma tracks_error:
  assumes i: "at (direct_program p) (vm_pc v) i" and rel: "state_rel p m f base A s v"
    and ex: "execute_instruction (direct_program p) (opcode i) (arg1 i) (arg2 i) (counted v) = (Inl (Trap code msg'), w)"
    and r: "r = Inl (Trap code msg)" and w: "vm_trace w = vm_trace v" "vm_output w = vm_output v"
  shows "tracks (direct_program p) m v (r, s) Q"
  unfolding r by (rule tracks_trap [OF i state_rel_steady [OF rel] ex]) (use rel w in \<open>simp_all add: state_rel_def steady_def\<close>)

section \<open>Variables\<close>

lemma local_slot:
  assumes rel: "state_rel p m f base A s v" and l: "fst (frame_env f) n = Some l" and w: "vm_calls w = vm_calls v"
  shows "current_local_slot (direct_program p) (usize_as_i32 (lv_slot l)) w = Inr (base + lv_slot l)"
    and "base + lv_slot l < MAX_LOCAL_SLOTS" and "base + lv_slot l < vlen (vm_locals v)"
proof -
  from rel have b: "base + snd (frame_env f) \<le> MAX_LOCAL_SLOTS" "MAX_LOCAL_SLOTS \<le> vlen (vm_locals v)"
    by (simp_all add: state_rel_def in_frame_def)
  with frame_slot_less [OF l] show less: "base + lv_slot l < MAX_LOCAL_SLOTS" "base + lv_slot l < vlen (vm_locals v)" by simp_all
  then have "lv_slot l < 2147483648" by (simp add: limit_defs)
  with rel w less frame_slot_less [OF l] show "current_local_slot (direct_program p) (usize_as_i32 (lv_slot l)) w = Inr (base + lv_slot l)"
    by (auto simp: current_local_slot_def usize_as_i32_id state_rel_def in_frame_def info_of_def checked_add_def limit_defs Let_def)
qed

lemma frame_local:
  assumes "state_rel p m f base A s v"
  obtains ad where "arrays_apart (top_scope s) ad"
    "\<And>n l. fst (frame_env f) n = Some l \<Longrightarrow> local_rel v base A l (top_scope s n) (ad n)"
  using assms by (auto simp: state_rel_def frame_rel_def)

text \<open>The names code generation sees agree with the frame, for every name of the environment.\<close>

definition covers :: "sizes \<Rightarrow> env \<Rightarrow> func \<Rightarrow> (string \<Rightarrow> local_var option) \<Rightarrow> bool" where
  "covers V G f L \<longleftrightarrow>
     (\<forall>n. G n \<noteq> None \<longrightarrow> (if V n = None then L n = None else L n \<noteq> None)) \<and>
     (\<forall>n l. L n = Some l \<longrightarrow> fst (frame_env f) n = Some l)"

text \<open>Where a variable of the environment is, for the interpreter and for the machine.\<close>

lemma variable_cases:
  assumes p: "typed_source c p" and rel: "state_rel p m f base A s v" and ty: "typed_state p V G s"
    and y: "G n = Some y" "\<not> sym_is_function y" and cov: "covers V G f L" and V: "V = Map.empty \<or> V = var_sizes f"
  obtains
    (local) l sz slot where "L n = Some l" "fst (frame_env f) n = Some l" "sym_is_array y = (sz \<noteq> None)"
      "lv_array_size l = decl_size sz" "lookup_slot s n = Some slot" "top_scope s n = Some slot" "slot_fits sz slot"
      "V n = Some sz"
  | (global) x sz slot where "L n = None" "fst (program_env p) n = Some x" "sym_is_array y = (sz \<noteq> None)"
      "gi_array_size x = decl_size sz" "gi_is_array x = (sz \<noteq> None)" "gi_slot x + global_width x \<le> MAX_GLOBAL_SLOTS"
      "lookup_slot s n = Some slot" "os_globals s n = Some slot" "slot_fits sz slot" "slot \<noteq> SScalar None"
      "global_sizes p n = Some sz" "top_scope s n = None"
proof (cases "V n")
  case None
  from typed_lookup [OF ty y] obtain slot sz where sl: "lookup_slot s n = Some slot" "size_at p V n = Some sz"
    "slot_fits sz slot" "sym_is_array y = (sz \<noteq> None)" .
  from sl(2) None have W: "global_sizes p n = Some sz" by (simp add: size_at_def)
  obtain x where x: "fst (program_env p) n = Some x" "gi_is_array x = (sz \<noteq> None)" "gi_array_size x = decl_size sz"
    "gi_slot x + global_width x \<le> MAX_GLOBAL_SLOTS"
    using program_global [OF p W] .
  have st: "state_fits p V s" using ty by (simp add: typed_state_def)
  then have top: "top_scope s n = None" using None by (force simp: state_fits_def scope_fits_def)
  then have og: "os_globals s n = Some slot" using sl(1) by (simp add: lookup_top [OF st])
  have "slot \<noteq> SScalar None"
    using st W og by (auto simp: state_fits_def globals_fit_def dest: spec [of _ n])
  moreover have "L n = None" using cov y(1) None by (auto simp: covers_def)
  ultimately show ?thesis using global x sl og W top by blast
next
  case (Some sz)
  from ty y(1) Some obtain slot where slot: "top_scope s n = Some slot" by (auto simp: typed_state_def scoped_def)
  have st: "state_fits p V s" using ty by (simp add: typed_state_def)
  then have fit: "slot_fits sz slot" using slot Some by (force simp: state_fits_def scope_fits_def)
  have look: "lookup_slot s n = Some slot" using slot by (simp add: lookup_top [OF st])
  from cov y(1) Some obtain l where l: "L n = Some l" "fst (frame_env f) n = Some l" by (force simp: covers_def)
  from V Some have "var_sizes f n = Some sz" by auto
  then have "lv_array_size l = decl_size sz" using frame_env_var [of f n sz] l(2) by auto
  moreover have "sym_is_array y = (sz \<noteq> None)"
    using ty y Some by (auto simp: typed_state_def env_fits_def size_at_def dest!: spec [of _ n])
  ultimately show ?thesis using local l slot fit look Some by blast
qed

lemma global_slot_at:
  assumes rel: "state_rel p m f base A s v" and w: "vm_globals w = vm_globals v" and k: "k < MAX_GLOBAL_SLOTS"
  shows "global_slot (usize_as_i32 k) w = Inr k" "globals_get w k = Inr (glob v k)"
proof -
  from k have "k < 2147483648" by (simp add: limit_defs)
  with rel w k show "global_slot (usize_as_i32 k) w = Inr k"
    by (simp add: global_slot_def usize_as_i32_id state_rel_def Let_def)
  from rel w k show "globals_get w k = Inr (glob v k)" by (simp add: globals_get_def state_rel_def)
qed

lemma load_tracks:
  assumes p: "typed_source c p" and rel: "state_rel p m f base A s v" and ty: "typed_state p V G s"
    and y: "G n = Some y" "\<not> sym_is_function y" "\<not> sym_is_array y"
    and cov: "covers V G f L" and V: "V = Map.empty \<or> V = var_sizes f"
    and code: "code_at (direct_program p) (vm_pc v) (load_code L (program_env p) n)"
  shows "tracks (direct_program p) m v (read_scalar n s, s) (\<lambda>x t w. t = s \<and>
    arrives p m f base A v (x # vm_stack v) (vm_pc v + length (load_code L (program_env p) n)) t w)"
proof (rule variable_cases [OF p rel ty y(1,2) cov V])
  fix l sz slot
  assume h: "L n = Some l" "fst (frame_env f) n = Some l" "sym_is_array y = (sz \<noteq> None)" "lookup_slot s n = Some slot"
    "top_scope s n = Some slot" "slot_fits sz slot"
  let ?i = "Instruction_new Op_LoadLocal (usize_as_i32 (lv_slot l)) 0"
  from code h(1) have i: "at (direct_program p) (vm_pc v) ?i" by (auto simp: load_code_def dest: code_at_Cons)
  from h(3,6) y(3) obtain z where z: "slot = SScalar z" "\<forall>x. z = Some x \<longrightarrow> is_i32 x"
    by (auto simp: slot_fits_def split: oracle_slot.splits)
  obtain ad where "local_rel v base A l (top_scope s n) (ad n)" using frame_local [OF rel] h(2) by metis
  then have lr: "loc v (base + lv_slot l) = (case z of None \<Rightarrow> i64_min | Some x \<Rightarrow> x)"
    using h(5) z(1) by (auto simp: local_rel_def split: option.splits)
  note slot = local_slot [OF rel h(2)]
  have get: "locals_get (counted v) (base + lv_slot l) = Inr (loc v (base + lv_slot l))"
    using slot(3) by (simp add: locals_get_def)
  show ?thesis
  proof (cases z)
    case None
    have "execute_instruction (direct_program p) (opcode ?i) (arg1 ?i) (arg2 ?i) (counted v) =
        (Inl (Trap UndefinedLocal (fmt [''Undefined local at slot '', show_int (usize_as_i32 (lv_slot l))])), counted v)"
      using None lr by (simp add: exec_load_local_def slot(1) get)
    moreover have "read_scalar n s = Inl (Trap UndefinedLocal (fmt [''Undefined local '', n]))"
      using None h(4) z(1) by (simp add: read_scalar_def)
    ultimately show ?thesis by (rule tracks_error [OF i rel]) simp_all
  next
    case (Some x)
    with z have "x \<noteq> i64_min" by simp
    then have "execute_instruction (direct_program p) (opcode ?i) (arg1 ?i) (arg2 ?i) (counted v) =
        push_next x ((counted v)\<lparr>vm_stack := vm_stack v\<rparr>)"
      using Some lr by (simp add: exec_load_local_def slot(1) get)
    from tracks_value [OF i rel this] Some h(1,4) z(1) show ?thesis
      by (simp add: read_scalar_def load_code_def)
  qed
next
  fix x sz slot
  assume h: "L n = None" "fst (program_env p) n = Some x" "sym_is_array y = (sz \<noteq> None)" "gi_is_array x = (sz \<noteq> None)"
    "gi_slot x + global_width x \<le> MAX_GLOBAL_SLOTS" "lookup_slot s n = Some slot" "os_globals s n = Some slot"
    "slot_fits sz slot" "slot \<noteq> SScalar None"
  let ?i = "Instruction_new Op_LoadGlobal (usize_as_i32 (gi_slot x)) 0"
  from code h(1,2) have i: "at (direct_program p) (vm_pc v) ?i" by (auto simp: load_code_def dest: code_at_Cons)
  from h(3,8,9) y(3) obtain z where z: "slot = SScalar (Some z)"
    by (auto simp: slot_fits_def split: oracle_slot.splits)
  from h(3,4,5) y(3) have k: "gi_slot x < MAX_GLOBAL_SLOTS" by (simp add: global_width_def)
  note slot = global_slot_at [OF rel _ k, of "counted v", simplified]
  have "glob v (gi_slot x) = z" using rel h(2,7) z by (force simp: state_rel_def globals_rel_def split: option.splits)
  then have "execute_instruction (direct_program p) (opcode ?i) (arg1 ?i) (arg2 ?i) (counted v) =
      push_next z ((counted v)\<lparr>vm_stack := vm_stack v\<rparr>)"
    by (simp add: exec_load_global_def slot)
  from tracks_value [OF i rel this] h(1,2,6) z show ?thesis
    by (simp add: read_scalar_def load_code_def)
qed

lemma size_operand:
  assumes "slot_fits (Some n) slot"
  shows "usize_as_i32 (decl_size (Some n)) = n" "0 < n" "n < 2147483648" "decl_size (Some n) = nat n"
proof -
  from assms have n: "0 < n" "is_i32 n" by (auto simp: slot_fits_def split: oracle_slot.splits)
  then show "0 < n" "n < 2147483648" by (auto simp: is_i32_def)
  from n show "usize_as_i32 (decl_size (Some n)) = n" by (simp add: decl_size_def usize_as_i32_as_usize)
  from n show "decl_size (Some n) = nat n" by (simp add: decl_size_def as_usize_id is_i32_is_i64)
qed

text \<open>The elements of a local array, from the reference in its slot.\<close>

lemma local_array_at:
  assumes rel: "state_rel p m f base A s v" and l: "fst (frame_env f) n = Some l"
    and sc: "top_scope s n = Some (SArray vs)" and w: "vm_locals w = vm_locals v" and len: "length vs = k" "k < 2147483648"
  obtains a where "local_array_base (base + lv_slot l) k w = Inr a" "a + k \<le> vlen (vm_locals v)" "A \<le> a"
    "\<forall>i < k. locals_get w (a + i) = Inr (vs ! i)"
proof -
  obtain ad where "local_rel v base A l (top_scope s n) (ad n)" using frame_local [OF rel] l by metis
  then have a: "loc v (base + lv_slot l) = int (ad n)" "A \<le> ad n" "ad n + length vs \<le> vlen (vm_locals v)"
    "\<And>i. i < length vs \<Longrightarrow> loc v (ad n + i) = vs ! i"
    using sc by (simp_all add: local_rel_def)
  have bound: "vlen (vm_locals v) < 18446744073709551616"
    using rel by (simp add: state_rel_def limit_defs)
  have "local_array_base (base + lv_slot l) k w = Inr (ad n)"
    using local_slot(3) [OF rel l refl] a(1,3) bound w len
    by (simp add: local_array_base_def locals_get_def i64_min_def checked_add_def)
  then show ?thesis
    using a len w that [of "ad n"] by (simp add: locals_get_def)
qed

lemma array_load_tracks:
  assumes p: "typed_source c p" and rel: "state_rel p m f base A s v" and ty: "typed_state p V G s"
    and y: "G n = Some y" "\<not> sym_is_function y" "sym_is_array y"
    and cov: "covers V G f L" and V: "V = Map.empty \<or> V = var_sizes f"
    and code: "code_at (direct_program p) (vm_pc v) (array_load_code L (program_env p) n)"
    and st: "vm_stack v = int i # st"
  shows "tracks (direct_program p) m v (read_array n i s, s) (\<lambda>x t w. t = s \<and>
    arrives p m f base A v (x # st) (vm_pc v + length (array_load_code L (program_env p) n)) t w)"
proof (rule variable_cases [OF p rel ty y(1,2) cov V])
  fix l sz slot
  assume h: "L n = Some l" "fst (frame_env f) n = Some l" "sym_is_array y = (sz \<noteq> None)" "lv_array_size l = decl_size sz"
    "lookup_slot s n = Some slot" "top_scope s n = Some slot" "slot_fits sz slot"
  from h(3) y(3) obtain k where k: "sz = Some k" by auto
  note sz = size_operand [OF h(7) [unfolded k]]
  from h(7) k obtain vs where vs: "slot = SArray vs" "length vs = nat k" by (auto simp: slot_fits_def split: oracle_slot.splits)
  let ?i = "Instruction_new Op_LocalArrayLoad (usize_as_i32 (lv_slot l)) k"
  from code h(1,4) k sz(1) have at: "at (direct_program p) (vm_pc v) ?i"
    by (auto simp: array_load_code_def dest: code_at_Cons)
  have size: "array_size k = Inr (nat k)" using sz(2) by (simp add: array_size_def)
  show ?thesis
  proof (cases "i < nat k")
    case True
    have same: "vm_locals ((counted v)\<lparr>vm_stack := st\<rparr>) = vm_locals v" and less: "nat k < 2147483648"
      using sz(3) by simp_all
    obtain a where a: "local_array_base (base + lv_slot l) (nat k) ((counted v)\<lparr>vm_stack := st\<rparr>) = Inr a"
      "a + nat k \<le> vlen (vm_locals v)" "A \<le> a"
      "\<forall>j < nat k. locals_get ((counted v)\<lparr>vm_stack := st\<rparr>) (a + j) = Inr (vs ! j)"
      by (rule local_array_at [OF rel h(2) h(6) [unfolded vs(1)] same vs(2) less])
    have "execute_instruction (direct_program p) (opcode ?i) (arg1 ?i) (arg2 ?i) (counted v) =
        push_next (vs ! i) ((counted v)\<lparr>vm_stack := st\<rparr>)"
      using True a by (simp add: exec_local_array_load_def size pop_def st array_index_def Let_def
          local_slot(1) [OF rel h(2)])
    from tracks_value [OF at rel this] True h(1,5) vs show ?thesis
      by (simp add: read_array_def array_load_code_def)
  next
    case False
    then have "execute_instruction (direct_program p) (opcode ?i) (arg1 ?i) (arg2 ?i) (counted v) =
        (Inl (Trap ArrayOutOfBounds (fmt [''Array index '', show_nat i, '' out of bounds (size '', show_nat (nat k), '')''])),
         (counted v)\<lparr>vm_stack := st\<rparr>)"
      by (simp add: exec_local_array_load_def size pop_def st array_index_def Let_def)
    moreover have "read_array n i s = Inl (oracle_index_error i (nat k))" using False h(5) vs by (simp add: read_array_def)
    ultimately show ?thesis unfolding oracle_index_error_def by (rule tracks_error [OF at rel]) simp_all
  qed
next
  fix x sz slot
  assume h: "L n = None" "fst (program_env p) n = Some x" "sym_is_array y = (sz \<noteq> None)" "gi_array_size x = decl_size sz"
    "gi_is_array x = (sz \<noteq> None)" "gi_slot x + global_width x \<le> MAX_GLOBAL_SLOTS" "lookup_slot s n = Some slot"
    "os_globals s n = Some slot" "slot_fits sz slot"
  from h(3) y(3) obtain k where k: "sz = Some k" by auto
  note sz = size_operand [OF h(9) [unfolded k]]
  from h(9) k obtain vs where vs: "slot = SArray vs" "length vs = nat k" by (auto simp: slot_fits_def split: oracle_slot.splits)
  let ?i = "Instruction_new Op_ArrayLoad (usize_as_i32 (gi_slot x)) k"
  from code h(1,2,4) k sz(1) have at: "at (direct_program p) (vm_pc v) ?i"
    by (auto simp: array_load_code_def dest: code_at_Cons)
  have range: "gi_slot x + nat k \<le> MAX_GLOBAL_SLOTS" using h(4,5,6) k sz(4) by (simp add: global_width_def)
  with sz(2) have less: "gi_slot x < MAX_GLOBAL_SLOTS" by simp
  have rng: "global_array_range (usize_as_i32 (gi_slot x)) k (counted v) = Inr (gi_slot x, nat k)"
    using global_slot_at(1) [OF rel _ less, of "counted v"] range sz(2) rel
    by (simp add: global_array_range_def array_size_def checked_add_def limit_defs state_rel_def)
  show ?thesis
  proof (cases "i < nat k")
    case True
    have "glob v (gi_slot x + i) = vs ! i"
      using rel h(2,8) vs True by (auto simp: state_rel_def globals_rel_def dest!: spec [of _ n])
    then have "execute_instruction (direct_program p) (opcode ?i) (arg1 ?i) (arg2 ?i) (counted v) =
        push_next (vs ! i) ((counted v)\<lparr>vm_stack := st\<rparr>)"
      using True range global_slot_at(2) [OF rel, of "(counted v)\<lparr>vm_stack := st\<rparr>" "gi_slot x + i"]
      by (simp add: exec_array_load_def rng pop_def st array_index_def Let_def)
    from tracks_value [OF at rel this] True h(1,2,7) vs show ?thesis
      by (simp add: read_array_def array_load_code_def)
  next
    case False
    then have "execute_instruction (direct_program p) (opcode ?i) (arg1 ?i) (arg2 ?i) (counted v) =
        (Inl (Trap ArrayOutOfBounds (fmt [''Array index '', show_nat i, '' out of bounds (size '', show_nat (nat k), '')''])),
         (counted v)\<lparr>vm_stack := st\<rparr>)"
      by (simp add: exec_array_load_def rng pop_def st array_index_def Let_def)
    moreover have "read_array n i s = Inl (oracle_index_error i (nat k))" using False h(7) vs by (simp add: read_array_def)
    ultimately show ?thesis unfolding oracle_index_error_def by (rule tracks_error [OF at rel]) simp_all
  qed
qed

end
