(* ===== verification/Code_Stores.thy ===== *)
theory Code_Stores
  imports Code_Steps
begin

text \<open>
  The instructions that write variables, and that related states stay related.
\<close>

section \<open>Writing to a frame\<close>

lemma frame_store_scalar:
  assumes fr: "frame_rel f sc base A v" and l: "fst (frame_env f) n = Some l" and A: "MAX_LOCAL_SLOTS \<le> A"
    and b: "base + snd (frame_env f) \<le> MAX_LOCAL_SLOTS"
  shows "frame_rel f (sc(n \<mapsto> SScalar (Some x))) base A (v\<lparr>vm_locals := vec_set (vm_locals v) (base + lv_slot l) x\<rparr>)"
proof -
  let ?w = "v\<lparr>vm_locals := vec_set (vm_locals v) (base + lv_slot l) x\<rparr>"
  from fr obtain ad where ap: "arrays_apart sc ad" and dm: "dom sc \<subseteq> dom (fst (frame_env f))"
    and lr: "\<And>n l. fst (frame_env f) n = Some l \<Longrightarrow> local_rel v base A l (sc n) (ad n)"
    by (auto simp: frame_rel_def)
  have less: "base + lv_slot l < MAX_LOCAL_SLOTS" using frame_slot_less [OF l] b by simp
  have "local_rel ?w base A l' ((sc(n \<mapsto> SScalar (Some x))) n') (ad n')" if l': "fst (frame_env f) n' = Some l'" for n' l'
  proof (cases "n' = n")
    case True
    with l l' show ?thesis by (simp add: local_rel_def)
  next
    case False
    with frame_slot_inj [OF l l'] have "lv_slot l' \<noteq> lv_slot l" by auto
    with lr [OF l'] False less A show ?thesis
      by (auto simp: local_rel_def split: option.splits oracle_slot.splits)
  qed
  moreover have "dom (sc(n \<mapsto> SScalar (Some x))) \<subseteq> dom (fst (frame_env f))" using dm l by auto
  moreover have "arrays_apart (sc(n \<mapsto> SScalar (Some x))) ad" using ap by (simp add: arrays_apart_def)
  ultimately show ?thesis unfolding frame_rel_def by blast
qed

lemma frame_declare_scalar:
  assumes fr: "frame_rel f sc base A v" and n: "sc n = None" and l: "fst (frame_env f) n = Some l"
  shows "frame_rel f (sc(n \<mapsto> SScalar None)) base A v"
proof -
  from fr obtain ad where ap: "arrays_apart sc ad" and dm: "dom sc \<subseteq> dom (fst (frame_env f))"
    and lr: "\<And>n l. fst (frame_env f) n = Some l \<Longrightarrow> local_rel v base A l (sc n) (ad n)"
    by (auto simp: frame_rel_def)
  have "local_rel v base A l ((sc(n \<mapsto> SScalar None)) n') (ad n')" if "fst (frame_env f) n' = Some l" for n' l
    using lr [OF that] n by (auto simp: local_rel_def)
  moreover have "dom (sc(n \<mapsto> SScalar None)) \<subseteq> dom (fst (frame_env f))" using dm l by auto
  moreover have "arrays_apart (sc(n \<mapsto> SScalar None)) ad" using ap by (simp add: arrays_apart_def)
  ultimately show ?thesis unfolding frame_rel_def by blast
qed

text \<open>A new array at the end of the locals, its address stored in the slot.\<close>

lemma frame_store_array:
  assumes fr: "frame_rel f sc base A v" and l: "fst (frame_env f) n = Some l" and A: "MAX_LOCAL_SLOTS \<le> A"
    "A \<le> vlen (vm_locals v)" and b: "base + snd (frame_env f) \<le> MAX_LOCAL_SLOTS"
  shows "frame_rel f (sc(n \<mapsto> SArray (replicate k 0))) base A
    (v\<lparr>vm_locals := vec_set (vec_extend (vm_locals v) 0 k) (base + lv_slot l) (int (vlen (vm_locals v)))\<rparr>)"
proof -
  let ?w = "v\<lparr>vm_locals := vec_set (vec_extend (vm_locals v) 0 k) (base + lv_slot l) (int (vlen (vm_locals v)))\<rparr>"
  from fr obtain ad where ap: "arrays_apart sc ad" and dm: "dom sc \<subseteq> dom (fst (frame_env f))"
    and lr: "\<And>n l. fst (frame_env f) n = Some l \<Longrightarrow> local_rel v base A l (sc n) (ad n)"
    by (auto simp: frame_rel_def)
  have less: "base + lv_slot l < MAX_LOCAL_SLOTS" using frame_slot_less [OF l] b by simp
  let ?ad = "ad(n := vlen (vm_locals v))"
  have "local_rel ?w base A l' ((sc(n \<mapsto> SArray (replicate k 0))) n') (?ad n')" if l': "fst (frame_env f) n' = Some l'" for n' l'
  proof (cases "n' = n")
    case True
    with l l' A less show ?thesis by (simp add: local_rel_def)
  next
    case False
    with frame_slot_inj [OF l l'] have "lv_slot l' \<noteq> lv_slot l" by auto
    moreover have "base + lv_slot l' < vlen (vm_locals v)" using frame_slot_less [OF l'] b A by simp
    ultimately show ?thesis using lr [OF l'] False less A
      by (auto simp: local_rel_def split: option.splits oracle_slot.splits)
  qed
  moreover have "dom (sc(n \<mapsto> SArray (replicate k 0))) \<subseteq> dom (fst (frame_env f))" using dm l by auto
  moreover have "arrays_apart (sc(n \<mapsto> SArray (replicate k 0))) ?ad"
  proof -
    have top: "ad n' + length vs \<le> vlen (vm_locals v)" if n': "sc n' = Some (SArray vs)" for n' vs
    proof -
      from dm n' obtain l' where "fst (frame_env f) n' = Some l'" by blast
      from lr [OF this] n' show ?thesis by (simp add: local_rel_def)
    qed
    show ?thesis
      unfolding arrays_apart_def
    proof (intro allI impI)
      fix n1 n2 vs1 vs2
      assume "(sc(n \<mapsto> SArray (replicate k 0))) n1 = Some (SArray vs1)" "(sc(n \<mapsto> SArray (replicate k 0))) n2 = Some (SArray vs2)"
        "n1 \<noteq> n2"
      then show "?ad n1 + length vs1 \<le> ?ad n2 \<or> ?ad n2 + length vs2 \<le> ?ad n1"
        using ap top [of n1 vs1] top [of n2 vs2] unfolding arrays_apart_def by (auto split: if_splits)
    qed
  qed
  ultimately show ?thesis unfolding frame_rel_def by blast
qed

text \<open>An element of an array.\<close>

lemma frame_store_element:
  assumes fr: "frame_rel f sc base A v" and l: "fst (frame_env f) n = Some l" and A: "MAX_LOCAL_SLOTS \<le> A"
    and b: "base + snd (frame_env f) \<le> MAX_LOCAL_SLOTS" and sc: "sc n = Some (SArray vs)" and i: "i < length vs"
    and a: "loc v (base + lv_slot l) = int a"
  shows "frame_rel f (sc(n \<mapsto> SArray (vs[i := x]))) base A (v\<lparr>vm_locals := vec_set (vm_locals v) (a + i) x\<rparr>)"
proof -
  let ?w = "v\<lparr>vm_locals := vec_set (vm_locals v) (a + i) x\<rparr>"
  from fr obtain ad where ap: "arrays_apart sc ad" and dm: "dom sc \<subseteq> dom (fst (frame_env f))"
    and lr: "\<And>n l. fst (frame_env f) n = Some l \<Longrightarrow> local_rel v base A l (sc n) (ad n)"
    by (auto simp: frame_rel_def)
  from lr [OF l] sc a have ad: "ad n = a" "A \<le> a" by (simp_all add: local_rel_def)
  have "local_rel ?w base A l' ((sc(n \<mapsto> SArray (vs[i := x]))) n') (ad n')" if l': "fst (frame_env f) n' = Some l'" for n' l'
  proof -
    have slot: "loc ?w (base + lv_slot l') = loc v (base + lv_slot l')"
      using frame_slot_less [OF l'] b A ad by simp
    show ?thesis
    proof (cases "n' = n")
      case True
      with lr [OF l'] sc slot ad i show ?thesis by (auto simp: local_rel_def nth_list_update)
    next
      case False
      have "loc ?w (ad n' + j) = loc v (ad n' + j)" if "sc n' = Some (SArray vs')" "j < length vs'" for vs' j
      proof -
        from ap sc that(1) False ad have "ad n' + length vs' \<le> a \<or> a + length vs \<le> ad n'"
          unfolding arrays_apart_def by blast
        with that(2) i show ?thesis by auto
      qed
      with lr [OF l'] False slot show ?thesis
        by (auto simp: local_rel_def split: option.splits oracle_slot.splits)
    qed
  qed
  moreover have "dom (sc(n \<mapsto> SArray (vs[i := x]))) \<subseteq> dom (fst (frame_env f))" using dm l by auto
  moreover have "arrays_apart (sc(n \<mapsto> SArray (vs[i := x]))) ad"
    using ap sc unfolding arrays_apart_def by (auto split: if_splits)
  ultimately show ?thesis unfolding frame_rel_def by blast
qed

section \<open>Writing to globals\<close>

lemma globals_store:
  assumes gr: "globals_rel p gl v" and fit: "globals_fit p gl" and x: "fst (program_env p) n = Some x"
    and slot: "slot_fits sz slot" "global_sizes p n = Some sz" "slot \<noteq> SScalar None"
    and k: "gi_slot x \<le> k" "k < gi_slot x + global_width x"
    and new: "case slot of SScalar w \<Rightarrow> k = gi_slot x \<and> w = Some y
      | SArray vs \<Rightarrow> \<forall>i < length vs. vs ! i = (if gi_slot x + i = k then y else glob v (gi_slot x + i))"
  shows "globals_rel p (gl(n \<mapsto> slot)) (v\<lparr>vm_globals := vec_set (vm_globals v) k y\<rparr>)"
  unfolding globals_rel_def
proof (intro allI impI)
  let ?w = "v\<lparr>vm_globals := vec_set (vm_globals v) k y\<rparr>"
  fix n' x' assume x': "fst (program_env p) n' = Some x'"
  show "case (gl(n \<mapsto> slot)) n' of
      Some (SScalar (Some y)) \<Rightarrow> glob ?w (gi_slot x') = y
    | Some (SArray vs) \<Rightarrow> \<forall>i < length vs. glob ?w (gi_slot x' + i) = vs ! i
    | _ \<Rightarrow> True"
  proof (cases "n' = n")
    case True
    with x x' new show ?thesis by (auto split: oracle_slot.splits option.splits)
  next
    case False
    from x' obtain sz' where sz': "global_sizes p n' = Some sz'" "gi_is_array x' = (sz' \<noteq> None)" "gi_array_size x' = decl_size sz'"
      by (rule program_global_sizes)
    from fit sz'(1) obtain slot' where s': "gl n' = Some slot'" "slot_fits sz' slot'"
      by (auto simp: globals_fit_def dest!: spec [of _ n'])
    have width: "case slot' of SScalar w \<Rightarrow> global_width x' = 1 | SArray vs \<Rightarrow> length vs = global_width x'"
    proof (cases slot')
      case (SScalar w)
      with s'(2) sz'(2) show ?thesis by (simp add: slot_fits_def global_width_def)
    next
      case (SArray vs)
      with s'(2) obtain k where k: "sz' = Some k" "length vs = nat k" by (auto simp: slot_fits_def)
      with size_operand(4) [of k slot'] s'(2) sz'(2,3) SArray show ?thesis by (simp add: global_width_def)
    qed
    from program_globals_disjoint [OF x x'] False k have apart: "k \<noteq> gi_slot x' + j" if "j < global_width x'" for j
      using that by auto
    from gr x' s'(1) width apart [of 0] apart False show ?thesis
      by (auto simp: globals_rel_def split: oracle_slot.splits option.splits dest!: spec [of _ n'])
  qed
qed

section \<open>Store instructions\<close>

lemma rel_cong:
  "vm_globals w = vm_globals v \<Longrightarrow> globals_rel p gl w = globals_rel p gl v"
  "vm_locals w = vm_locals v \<Longrightarrow> frame_rel f sc base A w = frame_rel f sc base A v"
  by (simp_all add: globals_rel_def frame_rel_def local_rel_def cong: option.case_cong oracle_slot.case_cong)

definition stored ::
  "program \<Rightarrow> nat \<Rightarrow> func \<Rightarrow> nat \<Rightarrow> nat \<Rightarrow> vm \<Rightarrow> i64 list \<Rightarrow> nat \<Rightarrow> ast_oracle \<Rightarrow> vm \<Rightarrow> bool" where
  "stored p m f base A v st pc t w \<longleftrightarrow>
     state_rel p m f base A t w \<and> vm_stack w = st \<and> vm_pc w = pc \<and> vm_calls w = vm_calls v \<and> keeps base A v w"

lemma state_rel_update:
  assumes "state_rel p m f base A s v" "steady m w" "vm_calls w = vm_calls v" "vm_output w = os_output t"
    "frame_rel f (top_scope t) base A w" "globals_rel p (os_globals t) w" "length (os_frames t) = length (os_frames s)"
    "vlen (vm_globals w) = vlen (vm_globals v)" "vlen (vm_locals v) \<le> vlen (vm_locals w)"
    "vlen (vm_locals w) \<le> MAX_LOCAL_SLOTS + os_cycles t * 2147483648" "os_cycles t = os_cycles s"
  shows "state_rel p m f base A t w"
  using assms by (simp add: state_rel_def in_frame_def)

lemma tracks_stored:
  assumes i: "at (direct_program p) (vm_pc v) i" and rel: "state_rel p m f base A s v"
    and ex: "execute_instruction (direct_program p) (opcode i) (arg1 i) (arg2 i) (counted v) = (Inr True, w)"
    and new: "state_rel p m f base A t w" "vm_stack w = st" "vm_pc w = vm_pc v" "vm_calls w = vm_calls v" "keeps base A v w"
  shows "tracks (direct_program p) m v (Inr u, t) (\<lambda>u t w. stored p m f base A v st (vm_pc v + 1) t w)"
proof (rule tracks_next [OF i state_rel_steady [OF rel] ex state_rel_steady [OF new(1)]])
  have "keeps base A v (w\<lparr>vm_pc := vm_pc w + 1\<rparr>)" using new(5) by (simp add: keeps_def)
  with new show "tracks (direct_program p) m (if True then w\<lparr>vm_pc := vm_pc w + 1\<rparr> else w) (Inr u, t)
      (\<lambda>u t w. stored p m f base A v st (vm_pc v + 1) t w)"
    by (intro tracks_Inr) (simp add: stored_def)
qed

lemma put_slot_frames: "os_frames s \<noteq> [] \<Longrightarrow> length (os_frames (put_slot n slot s)) = length (os_frames s)"
  by (cases "os_frames s") (simp_all add: put_slot_def)

lemma scope_frames: "top_scope s n \<noteq> None \<Longrightarrow> os_frames s \<noteq> []"
  by (auto simp: top_scope_def)

text \<open>A local array store writes at or above \<open>A\<close>, a scalar store in the frame.\<close>

lemma local_store_rel:
  assumes rel: "state_rel p m f base A s v" and l: "fst (frame_env f) n = Some l" and fr: "os_frames s \<noteq> []"
    and w: "w = (counted v)\<lparr>vm_stack := st, vm_locals := vec_set (vm_locals v) k y\<rparr>"
    and k: "base \<le> k" "k < MAX_LOCAL_SLOTS \<or> A \<le> k"
    and new: "frame_rel f ((top_scope s)(n \<mapsto> slot)) base A (v\<lparr>vm_locals := vec_set (vm_locals v) k y\<rparr>)"
  shows "state_rel p m f base A (put_slot n slot s) w \<and> keeps base A v w"
proof
  have "frame_rel f ((top_scope s)(n \<mapsto> slot)) base A w"
    using new by (subst (asm) rel_cong(2) [of w, symmetric]) (simp_all add: w)
  moreover have "globals_rel p (os_globals s) w"
    using rel rel_cong(1) [of w v] by (simp add: state_rel_def w)
  ultimately show "state_rel p m f base A (put_slot n slot s) w"
    using rel fr by (intro state_rel_update [OF rel]) (simp_all add: w put_slot_frames state_rel_def)
  show "keeps base A v w" using k by (auto simp: keeps_def w)
qed

lemma assign_scalar_tracks:
  assumes p: "typed_source c p" and rel: "state_rel p m f base A s v" and ty: "typed_state p V G s"
    and y: "G n = Some y" "\<not> sym_is_function y" "\<not> sym_is_array y"
    and cov: "covers V G f L" and V: "V = Map.empty \<or> V = var_sizes f"
    and code: "store_instr L (program_env p) n False = Some i" "at (direct_program p) (vm_pc v) i"
    and st: "vm_stack v = x # st" and x: "is_i32 x"
  shows "tracks (direct_program p) m v (assign_scalar n x s) (\<lambda>u t w. stored p m f base A v st (vm_pc v + 1) t w)"
proof (rule variable_cases [OF p rel ty y(1,2) cov V])
  have sf: "state_fits p V s" using ty by (simp add: typed_state_def)
  fix l sz slot
  assume h: "L n = Some l" "fst (frame_env f) n = Some l" "sym_is_array y = (sz \<noteq> None)" "lookup_slot s n = Some slot"
    "top_scope s n = Some slot" "slot_fits sz slot"
  from code h(1) have i: "i = Instruction_new Op_StoreLocal (usize_as_i32 (lv_slot l)) 0"
    by (simp add: store_instr_def store_local_def)
  from h(3,6) y(3) obtain z where z: "slot = SScalar z" by (auto simp: slot_fits_def split: oracle_slot.splits)
  have asg: "assign_scalar n x s = (Inr (), put_slot n (SScalar (Some x)) s)"
    using h(4,5) z x set_slot_local [OF sf, of n] by (simp add: assign_scalar_def)
  let ?w = "(counted v)\<lparr>vm_stack := st, vm_locals := vec_set (vm_locals v) (base + lv_slot l) x\<rparr>"
  note slot = local_slot [OF rel h(2)]
  have ex: "execute_instruction (direct_program p) (opcode i) (arg1 i) (arg2 i) (counted v) = (Inr True, ?w)"
    using slot(3) by (simp add: i exec_store_local_def pop_def st slot(1) locals_set_def)
  have "frame_rel f ((top_scope s)(n \<mapsto> SScalar (Some x))) base A (v\<lparr>vm_locals := vec_set (vm_locals v) (base + lv_slot l) x\<rparr>)"
    using rel by (intro frame_store_scalar [OF _ h(2)]) (simp_all add: state_rel_def in_frame_def)
  from local_store_rel [OF rel h(2) scope_frames refl _ _ this] h(5) slot(2)
  have "state_rel p m f base A (put_slot n (SScalar (Some x)) s) ?w \<and> keeps base A v ?w" by auto
  then show ?thesis unfolding asg by (intro tracks_stored [OF code(2) rel ex]) simp_all
next
  have sf: "state_fits p V s" using ty by (simp add: typed_state_def)
  fix g sz slot
  assume h: "L n = None" "fst (program_env p) n = Some g" "sym_is_array y = (sz \<noteq> None)" "gi_is_array g = (sz \<noteq> None)"
    "gi_slot g + global_width g \<le> MAX_GLOBAL_SLOTS" "lookup_slot s n = Some slot" "os_globals s n = Some slot"
    "slot_fits sz slot" "global_sizes p n = Some sz" "top_scope s n = None"
  from code h(1,2) have i: "i = Instruction_new Op_StoreGlobal (usize_as_i32 (gi_slot g)) 0"
    by (simp add: store_instr_def)
  from h(3,8) y(3) obtain z where z: "slot = SScalar z" "sz = None" by (auto simp: slot_fits_def split: oracle_slot.splits)
  let ?t = "s\<lparr>os_globals := (os_globals s)(n \<mapsto> SScalar (Some x))\<rparr>"
  have asg: "assign_scalar n x s = (Inr (), ?t)"
    using h(6,10) z x set_slot_global [OF sf, of n] by (simp add: assign_scalar_def)
  from h(4,5) z have k: "gi_slot g < MAX_GLOBAL_SLOTS" by (simp add: global_width_def)
  let ?w = "(counted v)\<lparr>vm_stack := st, vm_globals := vec_set (vm_globals v) (gi_slot g) x\<rparr>"
  have ex: "execute_instruction (direct_program p) (opcode i) (arg1 i) (arg2 i) (counted v) = (Inr True, ?w)"
    using k rel global_slot_at(1) [OF rel _ k, of "counted v"]
    by (simp add: i exec_store_global_def pop_def st globals_set_def state_rel_def)
  have "globals_rel p ((os_globals s)(n \<mapsto> SScalar (Some x))) (v\<lparr>vm_globals := vec_set (vm_globals v) (gi_slot g) x\<rparr>)"
    using rel sf x z h(4,9)
    by (intro globals_store [OF _ _ h(2)]) (simp_all add: state_rel_def state_fits_def slot_fits_def global_width_def)
  then have gr: "globals_rel p (os_globals ?t) ?w" by (subst (asm) rel_cong(1) [of ?w, symmetric]) simp_all
  have fr: "frame_rel f (top_scope ?t) base A ?w"
    using rel rel_cong(2) [of ?w v] by (simp add: state_rel_def top_scope_def)
  have "state_rel p m f base A ?t ?w"
    using gr fr rel by (intro state_rel_update [OF rel]) (simp_all add: state_rel_def)
  then show ?thesis unfolding asg by (intro tracks_stored [OF code(2) rel ex]) (simp_all add: keeps_same)
qed

lemma assign_array_tracks:
  assumes p: "typed_source c p" and rel: "state_rel p m f base A s v" and ty: "typed_state p V G s"
    and y: "G n = Some y" "\<not> sym_is_function y" "sym_is_array y"
    and cov: "covers V G f L" and V: "V = Map.empty \<or> V = var_sizes f"
    and code: "store_instr L (program_env p) n True = Some i" "at (direct_program p) (vm_pc v) i"
    and st: "vm_stack v = x # int j # st" and x: "is_i32 x"
  shows "tracks (direct_program p) m v (assign_array n j x s) (\<lambda>u t w. stored p m f base A v st (vm_pc v + 1) t w)"
proof (rule variable_cases [OF p rel ty y(1,2) cov V])
  have sf: "state_fits p V s" using ty by (simp add: typed_state_def)
  fix l sz slot
  assume h: "L n = Some l" "fst (frame_env f) n = Some l" "sym_is_array y = (sz \<noteq> None)" "lv_array_size l = decl_size sz"
    "lookup_slot s n = Some slot" "top_scope s n = Some slot" "slot_fits sz slot"
  from h(3) y(3) obtain k where k: "sz = Some k" by auto
  note sz = size_operand [OF h(7) [unfolded k]]
  from h(7) k obtain vs where vs: "slot = SArray vs" "length vs = nat k" by (auto simp: slot_fits_def split: oracle_slot.splits)
  from code h(1,4) k sz(1) have i: "i = Instruction_new Op_LocalArrayStore (usize_as_i32 (lv_slot l)) k"
    by (simp add: store_instr_def)
  have size: "array_size k = Inr (nat k)" using sz(2) by (simp add: array_size_def)
  show ?thesis
  proof (cases "j < nat k")
    case True
    have same: "vm_locals ((counted v)\<lparr>vm_stack := st\<rparr>) = vm_locals v" and less: "nat k < 2147483648"
      using sz(3) by simp_all
    obtain a where a: "local_array_base (base + lv_slot l) (nat k) ((counted v)\<lparr>vm_stack := st\<rparr>) = Inr a"
      "a + nat k \<le> vlen (vm_locals v)" "A \<le> a"
      "\<forall>j < nat k. locals_get ((counted v)\<lparr>vm_stack := st\<rparr>) (a + j) = Inr (vs ! j)"
      by (rule local_array_at [OF rel h(2) h(6) [unfolded vs(1)] same vs(2) less])
    have ref: "loc v (base + lv_slot l) = int a"
      using a(1) local_slot(3) [OF rel h(2) refl]
      by (auto simp: local_array_base_def locals_get_def Let_def split: if_splits option.splits)
    let ?w = "(counted v)\<lparr>vm_stack := st, vm_locals := vec_set (vm_locals v) (a + j) x\<rparr>"
    have ex: "execute_instruction (direct_program p) (opcode i) (arg1 i) (arg2 i) (counted v) = (Inr True, ?w)"
      using True a by (simp add: i exec_local_array_store_def size pop_def st array_index_def Let_def
          local_slot(1) [OF rel h(2)] locals_set_def)
    have asg: "assign_array n j x s = (Inr (), put_slot n (SArray (vs[j := x])) s)"
      using True h(5,6) vs x set_slot_local [OF sf, of n] by (simp add: assign_array_def)
    have fr: "frame_rel f ((top_scope s)(n \<mapsto> SArray (vs[j := x]))) base A (v\<lparr>vm_locals := vec_set (vm_locals v) (a + j) x\<rparr>)"
      using rel True vs h(6) ref
      by (intro frame_store_element [OF _ h(2)]) (simp_all add: state_rel_def in_frame_def)
    have "base \<le> a" using rel a(3) by (simp add: state_rel_def in_frame_def)
    then have "state_rel p m f base A (put_slot n (SArray (vs[j := x])) s) ?w \<and> keeps base A v ?w"
      using a(3) h(6) by (intro local_store_rel [OF rel h(2) scope_frames refl _ _ fr]) auto
    then show ?thesis unfolding asg by (intro tracks_stored [OF code(2) rel ex]) simp_all
  next
    case False
    then have ex: "execute_instruction (direct_program p) (opcode i) (arg1 i) (arg2 i) (counted v) =
        (Inl (Trap ArrayOutOfBounds (fmt [''Array index '', show_nat j, '' out of bounds (size '', show_nat (nat k), '')''])),
         (counted v)\<lparr>vm_stack := st\<rparr>)"
      by (simp add: i exec_local_array_store_def size pop_def st array_index_def Let_def)
    have asg: "assign_array n j x s = (Inl (oracle_index_error j (nat k)), s)" using False h(5) vs by (simp add: assign_array_def)
    show ?thesis unfolding asg oracle_index_error_def by (rule tracks_error [OF code(2) rel ex refl]) simp_all
  qed
next
  have sf: "state_fits p V s" using ty by (simp add: typed_state_def)
  fix g sz slot
  assume h: "L n = None" "fst (program_env p) n = Some g" "sym_is_array y = (sz \<noteq> None)" "gi_array_size g = decl_size sz"
    "gi_is_array g = (sz \<noteq> None)" "gi_slot g + global_width g \<le> MAX_GLOBAL_SLOTS" "lookup_slot s n = Some slot"
    "os_globals s n = Some slot" "slot_fits sz slot" "global_sizes p n = Some sz" "top_scope s n = None"
  from h(3) y(3) obtain k where k: "sz = Some k" by auto
  note sz = size_operand [OF h(9) [unfolded k]]
  from h(9) k obtain vs where vs: "slot = SArray vs" "length vs = nat k" by (auto simp: slot_fits_def split: oracle_slot.splits)
  from code h(1,2,4) k sz(1) have i: "i = Instruction_new Op_ArrayStore (usize_as_i32 (gi_slot g)) k"
    by (simp add: store_instr_def)
  have width: "global_width g = nat k" using h(4,5) k sz(4) by (simp add: global_width_def)
  with h(6) sz(2) have less: "gi_slot g < MAX_GLOBAL_SLOTS" by simp
  have rng: "global_array_range (usize_as_i32 (gi_slot g)) k (counted v) = Inr (gi_slot g, nat k)"
    using global_slot_at(1) [OF rel _ less, of "counted v"] h(6) width sz(2) rel
    by (simp add: global_array_range_def array_size_def checked_add_def limit_defs state_rel_def)
  show ?thesis
  proof (cases "j < nat k")
    case True
    let ?w = "(counted v)\<lparr>vm_stack := st, vm_globals := vec_set (vm_globals v) (gi_slot g + j) x\<rparr>"
    have ex: "execute_instruction (direct_program p) (opcode i) (arg1 i) (arg2 i) (counted v) = (Inr True, ?w)"
      using True h(6) width rel
      by (simp add: i exec_array_store_def rng pop_def st array_index_def Let_def globals_set_def state_rel_def)
    let ?t = "s\<lparr>os_globals := (os_globals s)(n \<mapsto> SArray (vs[j := x]))\<rparr>"
    have asg: "assign_array n j x s = (Inr (), ?t)"
      using True h(7,11) vs x set_slot_global [OF sf, of n] by (simp add: assign_array_def)
    have old: "glob v (gi_slot g + i) = vs ! i" if "i < nat k" for i
      using rel h(2,8) vs that by (auto simp: state_rel_def globals_rel_def dest!: spec [of _ n])
    have fit: "slot_fits sz (SArray (vs[j := x]))"
      using h(9) vs x by (auto simp: slot_fits_def dest!: set_update_subset_insert [THEN subsetD])
    have "globals_rel p ((os_globals s)(n \<mapsto> SArray (vs[j := x]))) (v\<lparr>vm_globals := vec_set (vm_globals v) (gi_slot g + j) x\<rparr>)"
      using rel sf True width vs(2) old
      by (intro globals_store [OF _ _ h(2) fit h(10)]) (auto simp: state_rel_def state_fits_def nth_list_update)
    then have gr: "globals_rel p (os_globals ?t) ?w" by (subst (asm) rel_cong(1) [of ?w, symmetric]) simp_all
    have fr: "frame_rel f (top_scope ?t) base A ?w"
      using rel rel_cong(2) [of ?w v] by (simp add: state_rel_def top_scope_def)
    have "state_rel p m f base A ?t ?w"
      using gr fr rel by (intro state_rel_update [OF rel]) (simp_all add: state_rel_def)
    then show ?thesis unfolding asg by (intro tracks_stored [OF code(2) rel ex]) (simp_all add: keeps_same)
  next
    case False
    then have ex: "execute_instruction (direct_program p) (opcode i) (arg1 i) (arg2 i) (counted v) =
        (Inl (Trap ArrayOutOfBounds (fmt [''Array index '', show_nat j, '' out of bounds (size '', show_nat (nat k), '')''])),
         (counted v)\<lparr>vm_stack := st\<rparr>)"
      by (simp add: i exec_array_store_def rng pop_def st array_index_def Let_def)
    have asg: "assign_array n j x s = (Inl (oracle_index_error j (nat k)), s)" using False h(7) vs by (simp add: assign_array_def)
    show ?thesis unfolding asg oracle_index_error_def by (rule tracks_error [OF code(2) rel ex refl]) simp_all
  qed
qed

text \<open>The declaration of an array: allocate, then store the reference.\<close>

lemma declare_array_tracks:
  assumes rel: "state_rel p m f base A s v" and l: "fst (frame_env f) n = Some l" and fr: "os_frames s \<noteq> []"
    and k: "0 < k" "k < 2147483648" and room: "vlen (vm_locals v) + 2147483648 \<le> MAX_LOCAL_SLOTS + os_cycles s * 2147483648"
    and code: "code_at (direct_program p) (vm_pc v) [Instruction_new Op_AllocArray k 0, store_local l]"
  shows "tracks (direct_program p) m v (Inr u, put_slot n (SArray (replicate (nat k) 0)) s)
    (\<lambda>u t w. stored p m f base A v (vm_stack v) (vm_pc v + 2) t w)"
proof -
  let ?i = "Instruction_new Op_AllocArray k 0" and ?j = "store_local l"
  let ?slot = "SArray (replicate (nat k) 0)" and ?a = "vlen (vm_locals v)"
  from code have i: "at (direct_program p) (vm_pc v) ?i" and j: "at (direct_program p) (vm_pc v + 1) ?j"
    by (auto dest!: code_at_Cons)
  let ?v = "(counted v)\<lparr>vm_locals := vec_extend (vm_locals v) 0 (nat k)\<rparr>"
  have ex: "execute_instruction (direct_program p) (opcode ?i) (arg1 ?i) (arg2 ?i) (counted v) = push_next (int ?a) ?v"
    using k(1) by (simp add: exec_alloc_array_def array_size_def Let_def)
  let ?w = "?v\<lparr>vm_stack := int ?a # vm_stack ?v, vm_pc := vm_pc ?v + 1\<rparr>"
  note slot = local_slot [OF rel l]
  let ?u = "(counted ?w)\<lparr>vm_stack := vm_stack v, vm_locals := vec_set (vec_extend (vm_locals v) 0 (nat k)) (base + lv_slot l) (int ?a)\<rparr>"
  have ex2: "execute_instruction (direct_program p) (opcode ?j) (arg1 ?j) (arg2 ?j) (counted ?w) = (Inr True, ?u)"
    using slot(3) [OF refl] by (simp add: store_local_def exec_store_local_def pop_def slot(1) locals_set_def)
  have "frame_rel f ((top_scope s)(n \<mapsto> ?slot)) base A
      (v\<lparr>vm_locals := vec_set (vec_extend (vm_locals v) 0 (nat k)) (base + lv_slot l) (int ?a)\<rparr>)"
    using rel by (intro frame_store_array [OF _ l]) (simp_all add: state_rel_def in_frame_def)
  then have "frame_rel f ((top_scope s)(n \<mapsto> ?slot)) base A ?u" by (subst (asm) rel_cong(2) [of ?u, symmetric]) simp_all
  moreover have "globals_rel p (os_globals s) ?u" using rel rel_cong(1) [of ?u v] by (simp add: state_rel_def)
  moreover have "nat k \<le> 2147483648" using k by simp
  ultimately have new: "state_rel p m f base A (put_slot n ?slot s) ?u"
    using rel fr room by (intro state_rel_update [OF rel]) (simp_all add: put_slot_frames state_rel_def)
  have "MAX_LOCAL_SLOTS \<le> A" "A \<le> ?a" "base + lv_slot l < MAX_LOCAL_SLOTS"
    using rel slot(2) [OF refl] by (simp_all add: state_rel_def)
  then have kp: "keeps base A v ?u" by (auto simp: keeps_def)
  have go: "tracks (direct_program p) m ?w (Inr u, put_slot n ?slot s)
      (\<lambda>u t w. stored p m f base A v (vm_stack v) (vm_pc v + 2) t w)"
  proof (rule tracks_next [where adv = True and w = ?u])
    show "at (direct_program p) (vm_pc ?w) ?j" using j by simp
    show "steady m ?w" using state_rel_steady [OF rel] by simp
    show "execute_instruction (direct_program p) (opcode ?j) (arg1 ?j) (arg2 ?j) (counted ?w) = (Inr True, ?u)" by (rule ex2)
    show "steady m ?u" using state_rel_steady [OF rel] by simp
    have "keeps base A v (?u\<lparr>vm_pc := vm_pc ?u + 1\<rparr>)" using kp by (simp add: keeps_def)
    then show "tracks (direct_program p) m (if True then ?u\<lparr>vm_pc := vm_pc ?u + 1\<rparr> else ?u) (Inr u, put_slot n ?slot s)
        (\<lambda>u t w. stored p m f base A v (vm_stack v) (vm_pc v + 2) t w)"
      using new by (intro tracks_Inr) (simp add: stored_def)
  qed
  show ?thesis
    by (rule tracks_push [OF i state_rel_steady [OF rel] ex _ go]) (use state_rel_steady [OF rel] in simp)
qed

end
