(* ===== verification/Code_Calls.thy ===== *)
theory Code_Calls
  imports Code_Stores Vm_Props
begin

text \<open>
  Control in compiled code: jumps, branches, the entry of a function and its return, each seen from
  the interpreter.
\<close>

section \<open>Steps that keep the state\<close>

lemma tracks_go:
  assumes i: "at (direct_program p) (vm_pc v) i" and rel: "state_rel p m f base A s v"
    and ex: "execute_instruction (direct_program p) (opcode i) (arg1 i) (arg2 i) (counted v) =
      (Inr adv, (counted v)\<lparr>vm_stack := st, vm_pc := q\<rparr>)"
    and go: "\<And>w. arrives p m f base A v st (if adv then q + 1 else q) s w \<Longrightarrow> tracks (direct_program p) m w r Q"
  shows "tracks (direct_program p) m v r Q"
proof (rule tracks_next [OF i state_rel_steady [OF rel] ex])
  show "steady m ((counted v)\<lparr>vm_stack := st, vm_pc := q\<rparr>)" using state_rel_steady [OF rel] by simp
  show "tracks (direct_program p) m
      (if adv then (counted v)\<lparr>vm_stack := st, vm_pc := q\<rparr>\<lparr>vm_pc := vm_pc ((counted v)\<lparr>vm_stack := st, vm_pc := q\<rparr>) + 1\<rparr>
       else (counted v)\<lparr>vm_stack := st, vm_pc := q\<rparr>) r Q"
    by (rule go) (use rel in \<open>simp add: arrives_def keeps_same\<close>)
qed

lemma counted_update: "(counted v)\<lparr>vm_stack := vm_stack v, vm_pc := q\<rparr> = (counted v)\<lparr>vm_pc := q\<rparr>"
  "(counted v)\<lparr>vm_stack := st, vm_pc := vm_pc v\<rparr> = (counted v)\<lparr>vm_stack := st\<rparr>"
  by (simp_all add: counted_def)

lemma jump_tracks:
  assumes i: "at (direct_program p) (vm_pc v) (Instruction_new Op_Jump (usize_as_i32 k) 0)"
    and rel: "state_rel p m f base A s v" and k: "k < 2147483648"
    and go: "\<And>w. arrives p m f base A v (vm_stack v) k s w \<Longrightarrow> tracks (direct_program p) m w r Q"
  shows "tracks (direct_program p) m v r Q"
  by (rule tracks_go [OF i rel, where adv = False and q = k and st = "vm_stack v"])
    (simp_all add: jump_to_def as_usize_usize_as_i32 k counted_update go)

lemma branch_tracks:
  assumes i: "at (direct_program p) (vm_pc v) (Instruction_new op (usize_as_i32 k) 0)"
    and op: "op = Op_JumpIfFalse \<and> taken = (x = 0) \<or> op = Op_JumpIfTrue \<and> taken = (x \<noteq> 0)"
    and rel: "state_rel p m f base A s v" and k: "k < 2147483648" and st: "vm_stack v = x # st"
    and go: "\<And>w. arrives p m f base A v st (if taken then k else vm_pc v + 1) s w \<Longrightarrow> tracks (direct_program p) m w r Q"
  shows "tracks (direct_program p) m v r Q"
proof (cases taken)
  case True
  with op show ?thesis
    by (intro tracks_go [OF i rel, where adv = False and q = k and st = st])
      (auto simp: exec_jump_if_def pop_def st jump_to_def as_usize_usize_as_i32 k go)
next
  case False
  with op show ?thesis
    by (intro tracks_go [OF i rel, where adv = True and q = "vm_pc v" and st = st])
      (auto simp: exec_jump_if_def pop_def st counted_update go)
qed

section \<open>Entering a function\<close>

lemma called_scope:
  assumes d: "distinct (map par_name ps)" and len: "length ps = length vs" and i: "i < length ps"
  shows "bind_params ps vs m (par_name (ps ! i)) = Some (SScalar (Some (normalize_i32 (vs ! i))))"
  using d len i
proof (induction ps vs m arbitrary: i rule: bind_params.induct)
  case (1 x xs v vs m)
  have other: "n \<notin> par_name ` set ys \<Longrightarrow> bind_params ys us m' n = m' n" for ys us m' n
    by (induction ys us m' rule: bind_params.induct) auto
  show ?case
  proof (cases i)
    case 0
    with 1 show ?thesis by (simp add: other)
  next
    case (Suc j)
    have "bind_params xs vs (m(par_name x \<mapsto> SScalar (Some (normalize_i32 v)))) (par_name (xs ! j)) =
        Some (SScalar (Some (normalize_i32 (vs ! j))))"
      by (rule "1.IH") (use "1.prems" Suc in simp_all)
    with Suc show ?thesis by simp
  qed
qed auto

lemma called_scope_dom:
  "n \<notin> par_name ` set ps \<Longrightarrow> bind_params ps vs m n = m n"
  by (induction ps vs m rule: bind_params.induct) auto

lemma param_slot:
  assumes d: "distinct (map par_name (fn_params g))" and i: "i < length (fn_params g)"
    and l: "fst (frame_env g) (par_name (fn_params g ! i)) = Some l"
  shows "lv_slot l = i"
proof -
  have "fst (param_env g) (par_name (fn_params g ! i)) = Some \<lparr>lv_slot = i, lv_is_array = False, lv_array_size = 0\<rparr>"
    using param_locals_slot [OF d i, of "(\<lambda>_. None, 0)"] by (simp add: param_env_def)
  then have "fst (frame_env g) (par_name (fn_params g ! i)) = Some \<lparr>lv_slot = i, lv_is_array = False, lv_array_size = 0\<rparr>"
    using bind_locals_le(2) [of "param_env g" "fn_body g"] by (simp add: env_le_def frame_env_def)
  with l show ?thesis by auto
qed

lemma other_slot:
  assumes l: "fst (frame_env g) n = Some l" and n: "n \<notin> par_name ` set (fn_params g)"
  shows "length (fn_params g) \<le> lv_slot l"
proof -
  have "fst (param_env g) n = None" using n param_env_dom [of g] by auto
  with bind_locals_le(2) [of "param_env g" "fn_body g"] l show ?thesis
    by (auto simp: env_le_def frame_env_def param_env_slots)
qed

text \<open>The frame of a new call.\<close>

lemma called_frame:
  assumes d: "distinct (map par_name (fn_params g))" and len: "length (fn_params g) = length args"
    and args: "\<forall>x \<in> set args. is_i32 x"
    and w: "vm_locals w = call_locals b (length args) (snd (frame_env g)) (rev args @ st) ls"
  shows "frame_rel g (bind_params (fn_params g) args Map.empty) b A w"
proof -
  let ?sc = "bind_params (fn_params g) args Map.empty"
  have scalar: "\<exists>z. slot = SScalar z" if "?sc n = Some slot" for n slot
    using bind_params_slots [of Map.empty "fn_params g" args n slot] that
    by (auto simp: slot_fits_def split: oracle_slot.splits)
  have "local_rel w b A l (?sc n) ad" if l: "fst (frame_env g) n = Some l" for n l ad
  proof (cases "n \<in> par_name ` set (fn_params g)")
    case True
    then obtain i where i: "i < length (fn_params g)" "n = par_name (fn_params g ! i)" by (auto simp: in_set_conv_nth)
    from param_slot [OF d i(1)] l i(2) have slot: "lv_slot l = i" by simp
    from args i(1) len have v: "normalize_i32 (args ! i) = args ! i" by simp
    have "length args - Suc i < length args" using i(1) len by simp
    then have "(rev args @ st) ! (length args - Suc i) = args ! i" using i(1) len by (simp add: nth_append rev_nth)
    with called_scope [OF d len i(1)] i slot v len show ?thesis
      by (simp add: local_rel_def w)
  next
    case False
    with other_slot [OF l False] frame_slot_less [OF l] len show ?thesis
      by (simp add: local_rel_def called_scope_dom w)
  qed
  moreover have "arrays_apart ?sc (\<lambda>_. 0)"
    unfolding arrays_apart_def using scalar by blast
  moreover have "dom ?sc \<subseteq> dom (fst (frame_env g))"
  proof
    fix n assume n: "n \<in> dom ?sc"
    have "n \<in> par_name ` set (fn_params g)"
    proof (rule ccontr)
      assume "n \<notin> par_name ` set (fn_params g)"
      from called_scope_dom [OF this, of args Map.empty] n show False by (simp add: dom_def)
    qed
    then have "n \<in> dom (fst (param_env g))" by (simp add: param_env_dom del: image_iff)
    then show "n \<in> dom (fst (frame_env g))"
      using bind_locals_le(2) [of "param_env g" "fn_body g"] by (auto simp: env_le_def frame_env_def)
  qed
  ultimately show ?thesis unfolding frame_rel_def by blast
qed


text \<open>A new frame, the state of the interpreter after \<open>push_frame\<close>.\<close>

definition entered :: "program \<Rightarrow> nat \<Rightarrow> func \<Rightarrow> nat \<Rightarrow> vm \<Rightarrow> i64 list \<Rightarrow> func \<Rightarrow> nat \<Rightarrow> nat \<Rightarrow> ast_oracle \<Rightarrow> vm \<Rightarrow> bool" where
  "entered p m f base v st g i entry t w \<longleftrightarrow>
     state_rel p m g (base + snd (frame_env f)) (vlen (vm_locals v)) t w \<and> vm_stack w = st \<and> vm_pc w = entry \<and>
     vm_calls w = \<lparr>return_pc = vm_pc v + 1, base_ptr = base + snd (frame_env f), frame_func = i\<rparr> # vm_calls v \<and>
     keeps (base + snd (frame_env f)) (vlen (vm_locals v)) v w"

lemma call_tracks:
  assumes p: "typed_source c p" and rel: "state_rel p m f base A s v" and g: "g \<in> set (p_functions p)"
    and i: "i < 2147483648" "fun_lookup (direct_program p) i = Some (info_of i entry g)"
    and at: "at (direct_program p) (vm_pc v) (Instruction_new Op_Call (usize_as_i32 i) (usize_as_i32 (length args)))"
    and args: "length args = length (fn_params g)" "\<forall>x \<in> set args. is_i32 x" and st: "vm_stack v = rev args @ st"
    and go: "\<And>w. length (vm_calls v) < MAX_FRAMES \<Longrightarrow>
      entered p m f base v st g i entry (push_frame g args s) w \<Longrightarrow> tracks (direct_program p) m w r Q"
  shows "tracks (direct_program p) m v r Q"
proof -
  let ?p = "direct_program p" and ?g = "info_of i entry g" and ?b = "base + snd (frame_env f)"
  note facts = function_facts [OF p g]
  have "length (fn_params g) \<le> snd (frame_env g)"
    using bind_locals_le(2) [of "param_env g" "fn_body g"] by (simp add: env_le_def frame_env_def param_env_slots)
  then have n: "length args \<le> local_count ?g" "length args < 2147483648"
    using facts(7) args(1) by (simp_all add: info_of_def frame_env_size limit_defs)
  have caller: "caller_base (counted v) = base" "caller_locals ?p (counted v) = snd (frame_env f)"
    using rel by (auto simp: state_rel_def in_frame_def caller_base_def caller_locals_def info_of_def)
  have code: "execute_instruction ?p Op_Call (usize_as_i32 i) (usize_as_i32 (length args)) (counted v) =
      (if MAX_FRAMES \<le> length (vm_calls v)
       then (Inl (Trap StackOverflow (fmt [''Call stack overflow (max '', show_nat MAX_FRAMES, '' frames)''])), counted v)
       else enter_function ?p i (length args) ?g (counted v))"
    using i n args(1) by (simp add: exec_call_def usize_as_i32_id Let_def) (simp add: info_of_def)
  let ?w = "(counted v)\<lparr>vm_stack := st,
      vm_locals := call_locals ?b (length args) (local_count ?g) (vm_stack v) (vm_locals v),
      vm_calls := \<lparr>return_pc = vm_pc v + 1, base_ptr = ?b, frame_func = i\<rparr> # vm_calls v, vm_pc := entry\<rparr>"
  have new: "entered p m f base v st g i entry (push_frame g args s) ?w" if fits: "?b + local_count ?g \<le> MAX_LOCAL_SLOTS"
  proof -
    have "frame_rel g (top_scope (push_frame g args s)) ?b (vlen (vm_locals v)) ?w"
      unfolding top_scope_push
      by (rule called_frame [OF facts(6) args(1) [symmetric] args(2)]) (simp add: st info_of_def)
    moreover have "in_frame p g ?b ?w" using i(2) fits g by (simp add: in_frame_def) (simp add: info_of_def)
    moreover have "globals_rel p (os_globals (push_frame g args s)) ?w"
      using rel rel_cong(1) [of ?w v] by (simp add: state_rel_def push_frame_def)
    ultimately have "state_rel p m g ?b (vlen (vm_locals v)) (push_frame g args s) ?w"
      using rel by (simp add: state_rel_def steady_def) (simp add: push_frame_def)
    moreover have "keeps ?b (vlen (vm_locals v)) v ?w" using fits n(1) by (auto simp: keeps_def)
    ultimately show ?thesis by (simp add: entered_def)
  qed
  show ?thesis
  proof (cases "MAX_FRAMES \<le> length (vm_calls v)")
    case True
    show ?thesis
      by (rule tracks_overflow [where w = "counted v", OF at state_rel_steady [OF rel]])
        (use True state_rel_steady [OF rel] in \<open>simp_all add: code steady_def del: execute_instruction.simps\<close>)
  next
    case False
    have len: "MAX_LOCAL_SLOTS \<le> vlen (vm_locals (counted v))" using rel by (simp add: state_rel_def)
    have "post (enter_function ?p i (length args) ?g (counted v))
        (\<lambda>b w. \<not> b \<and> w = ?w \<and> ?b + local_count ?g \<le> MAX_LOCAL_SLOTS) (\<lambda>e w. (\<exists>msg. e = Trap StackOverflow msg) \<and> w = counted v)"
      by (rule post_enter_function [OF len n(1)]) (use st in \<open>simp_all add: caller info_of_def\<close>)
    then consider msg where "enter_function ?p i (length args) ?g (counted v) = (Inl (Trap StackOverflow msg), counted v)"
      | "enter_function ?p i (length args) ?g (counted v) = (Inr False, ?w)" "?b + local_count ?g \<le> MAX_LOCAL_SLOTS"
      by (cases "enter_function ?p i (length args) ?g (counted v)";
          cases "fst (enter_function ?p i (length args) ?g (counted v))") auto
    then show ?thesis
    proof cases
      case 1
      show ?thesis
        by (rule tracks_overflow [where w = "counted v", OF at state_rel_steady [OF rel]])
          (use False 1 state_rel_steady [OF rel] in \<open>simp_all add: code steady_def del: execute_instruction.simps\<close>)
    next
      case 2
      note e = new [OF 2(2)]
      have stw: "steady m ?w" using state_rel_steady [OF rel] by (simp add: steady_def)
      show ?thesis
        by (rule tracks_next [OF at state_rel_steady [OF rel] _ stw, where adv = False])
          (use False 2(1) go [OF _ e] in \<open>simp_all add: code del: execute_instruction.simps\<close>)
    qed
  qed
qed


text \<open>The return to the caller, where the interpreter pops its frame.\<close>

lemma return_tracks:
  assumes rel: "state_rel p m f base A s v" and e: "entered p m f base v st g i entry s' u"
    and now: "state_rel p m g (base + snd (frame_env f)) (vlen (vm_locals v)) t w"
    and k: "keeps (base + snd (frame_env f)) (vlen (vm_locals v)) u w" and calls: "vm_calls w = vm_calls u"
    and stack: "vm_stack w = x # st" and at: "at (direct_program p) (vm_pc w) (Instruction_new Op_Return 0 0)"
    and frames: "tl (os_frames t) = os_frames s" and pc: "vm_pc v + 1 < usize_max"
  shows "tracks (direct_program p) m w (Inr x, pop_frame t)
    (\<lambda>x t w. arrives p m f base A v (x # st) (vm_pc v + 1) t w)"
proof -
  let ?w = "(counted w)\<lparr>vm_stack := x # st, vm_calls := vm_calls v, vm_pc := vm_pc v + 1\<rparr>"
  have kv: "keeps (base + snd (frame_env f)) (vlen (vm_locals v)) v w"
    using e k unfolding entered_def by (blast intro: keeps_trans)
  have k': "keeps (base + snd (frame_env f)) (vlen (vm_locals v)) v ?w" using kv by (simp add: keeps_def)
  have "frame_rel f (top_scope s) base A v" "MAX_LOCAL_SLOTS \<le> A" using rel by (simp_all add: state_rel_def)
  from frame_rel_keeps [OF this(1) k' this(2)] have fr: "frame_rel f (top_scope (pop_frame t)) base A ?w" using frames by (simp add: top_scope_def pop_frame_def)
  have gr: "globals_rel p (os_globals (pop_frame t)) ?w"
    using now rel_cong(1) [of ?w w] by (simp add: state_rel_def pop_frame_def)
  have fm: "in_frame p f base ?w" using rel by (simp add: state_rel_def in_frame_def)
  have le: "A \<le> vlen (vm_locals w)" "length (os_frames (pop_frame t)) \<le> length (vm_calls v)"
    using rel kv frames by (simp_all add: state_rel_def keeps_def pop_frame_def)
  have "state_rel p m f base A (pop_frame t) ?w"
    unfolding state_rel_def using fr gr fm le now rel by (simp add: state_rel_def steady_def) (simp add: pop_frame_def)
  with k' have arr: "arrives p m f base A v (x # st) (vm_pc v + 1) (pop_frame t) ?w" by (simp add: arrives_def)
  have top: "vm_calls w = \<lparr>return_pc = vm_pc v + 1, base_ptr = base + snd (frame_env f), frame_func = i\<rparr> # vm_calls v"
    using e calls by (simp add: entered_def)
  have ret: "execute_instruction (direct_program p) Op_Return 0 0 (counted w) =
      (if MAX_OPERAND_STACK \<le> length st then (Inl (Trap StackOverflow (fmt [''Operand stack overflow (max '', show_nat MAX_OPERAND_STACK, '' entries)''])),
         (counted w)\<lparr>vm_stack := st, vm_calls := vm_calls v\<rparr>)
       else (Inr False, ?w))"
    using pc by (simp add: exec_return_def pop_def stack top push_def Let_def)
  show ?thesis
  proof (cases "MAX_OPERAND_STACK \<le> length st")
    case True
    show ?thesis
      by (rule tracks_overflow [where w = "(counted w)\<lparr>vm_stack := st, vm_calls := vm_calls v\<rparr>", OF at state_rel_steady [OF now]])
        (use True state_rel_steady [OF now] in \<open>simp_all add: ret steady_def del: execute_instruction.simps\<close>)
  next
    case False
    have "steady m ?w" using arr by (auto simp: arrives_def dest: state_rel_steady)
    then show ?thesis
      by (intro tracks_next [where adv = False and w = ?w, OF at state_rel_steady [OF now]])
        (use False arr in \<open>simp_all add: ret tracks_Inr del: execute_instruction.simps\<close>)
  qed
qed

end
