(* ===== verification/Code_Exprs.thy ===== *)
theory Code_Exprs
  imports Code_Calls
begin

text \<open>
  The setting in which compiled code is compared with the interpreter, and the code of operators.
\<close>

section \<open>The setting\<close>

definition no_inits :: "program \<Rightarrow> bool" where
  "no_inits p \<longleftrightarrow> list_all (\<lambda>g. gv_init g = None) (p_globals p)"

text \<open>
  The initialisers of globals are part of the code of \<open>main\<close>. So either \<open>main\<close> is not called or there
  are no initialisers, with \<open>c\<close> telling which.
\<close>

definition compilable :: "bool \<Rightarrow> program \<Rightarrow> bool" where
  "compilable c p \<longleftrightarrow> typed_source c p \<and> (c \<longrightarrow> no_inits p) \<and> length (instructions (direct_program p)) \<le> MAX_INSTRUCTIONS"

definition related ::
  "program \<Rightarrow> nat \<Rightarrow> sizes \<Rightarrow> env \<Rightarrow> func \<Rightarrow> (string \<Rightarrow> local_var option) \<Rightarrow> nat \<Rightarrow> nat \<Rightarrow> ast_oracle \<Rightarrow> vm \<Rightarrow> bool" where
  "related p m V G f L base A s v \<longleftrightarrow>
     typed_state p V G s \<and> covers V G f L \<and> (V = Map.empty \<or> V = var_sizes f) \<and> state_rel p m f base A s v"

lemma compilable_typed: "compilable c p \<Longrightarrow> typed_source c p"
  by (simp add: compilable_def)

lemma relatedD:
  assumes "related p m V G f L base A s v"
  shows "typed_state p V G s" "covers V G f L" "V = Map.empty \<or> V = var_sizes f" "state_rel p m f base A s v"
  using assms by (simp_all add: related_def)

lemma related_tick: "tick s = (Inr (), t) \<Longrightarrow> related p m V G f L base A s v \<Longrightarrow> related p m V G f L base A t v"
  by (auto simp: tick_Inr related_def dest: state_rel_tick)

lemma related_arrives:
  "related p m V G f L base A s v \<Longrightarrow> typed_state p V G t \<Longrightarrow> arrives p m f base A v st pc t w \<Longrightarrow>
     related p m V G f L base A t w"
  by (simp add: related_def arrives_rel)

lemma tracks_then:
  "tracks p m v (Inr x, s) Q' \<Longrightarrow> (\<And>w. Q' x s w \<Longrightarrow> tracks p m w r Q) \<Longrightarrow> tracks p m v r Q"
  by (rule tracks_leads [of p m v "Q' x s"]) (simp add: tracks_def)

section \<open>Operators\<close>

lemma binary_tracks:
  assumes i: "at (direct_program p) (vm_pc v) (Instruction_new (binary_opcode op) 0 0)"
    and rel: "state_rel p m f base A s v" and st: "vm_stack v = b # a # st"
    and ab: "is_i32 a" "is_i32 b" and op: "op \<noteq> Bin_And" "op \<noteq> Bin_Or"
  shows "tracks (direct_program p) m v (eval_binary op a b, s)
    (\<lambda>x t w. t = s \<and> arrives p m f base A v (x # st) (vm_pc v + 1) t w)"
proof (cases "op = Bin_Div \<and> b = 0")
  case True
  have "execute_instruction (direct_program p) Op_Div 0 0 (counted v) =
      (Inl (Trap DivideByZero ''Division by zero''), (counted v)\<lparr>vm_stack := st\<rparr>)"
    using True by (simp add: exec_div_def pop_def st)
  then have "execute_instruction (direct_program p) (opcode (Instruction_new (binary_opcode op) 0 0))
      (arg1 (Instruction_new (binary_opcode op) 0 0)) (arg2 (Instruction_new (binary_opcode op) 0 0)) (counted v) =
      (Inl (Trap DivideByZero ''Division by zero''), (counted v)\<lparr>vm_stack := st\<rparr>)"
    using True by (simp add: binary_opcode_def)
  from tracks_error [OF i rel this refl] True show ?thesis by (simp add: eval_binary_def)
next
  case False
  obtain x where x: "eval_binary op a b = Inr x"
    "execute_instruction (direct_program p) (binary_opcode op) 0 0 (counted v) = push_next x ((counted v)\<lparr>vm_stack := st\<rparr>)"
    using False ab op by (cases op) (auto simp: eval_binary_def binary_opcode_def Vm.binary_op_def exec_div_def pop_def st)
  then show ?thesis using tracks_value [OF i rel, of x st] by simp
qed

lemma unary_tracks:
  assumes i: "at (direct_program p) (vm_pc v) (Instruction_new (unary_opcode op) 0 0)"
    and rel: "state_rel p m f base A s v" and st: "vm_stack v = a # st" and a: "is_i32 a"
  shows "tracks (direct_program p) m v (eval_unary op a, s)
    (\<lambda>x t w. t = s \<and> arrives p m f base A v (x # st) (vm_pc v + 1) t w)"
proof -
  obtain x where x: "eval_unary op a = Inr x"
    "execute_instruction (direct_program p) (unary_opcode op) 0 0 (counted v) = push_next x ((counted v)\<lparr>vm_stack := st\<rparr>)"
    using a by (cases op) (auto simp: eval_unary_def unary_opcode_def exec_neg_def Vm.unary_op_def pop_def st)
  then show ?thesis using tracks_value [OF i rel, of x st] by simp
qed

lemma const_tracks:
  assumes "at (direct_program p) (vm_pc v) (Instruction_new Op_LoadConst x 0)" "state_rel p m f base A s v"
  shows "tracks (direct_program p) m v (Inr x, s)
    (\<lambda>x t w. t = s \<and> arrives p m f base A v (x # vm_stack v) (vm_pc v + 1) t w)"
  by (rule tracks_value [OF assms]) simp

text \<open>The normalisation of the right operand of a logical operator.\<close>

lemma normalise_tracks:
  assumes code: "code_at (direct_program p) (vm_pc v)
      [Instruction_new Op_LoadConst 0 0, Instruction_new Op_Ne 0 0, Instruction_new Op_Jump (usize_as_i32 k) 0]"
    and rel: "state_rel p m f base A s v" and st: "vm_stack v = b # st" and b: "is_i32 b" and k: "k < 2147483648"
  shows "tracks (direct_program p) m v (Inr (truth (b \<noteq> 0)), s)
    (\<lambda>x t w. t = s \<and> arrives p m f base A v (x # st) k t w)"
proof -
  from code have i: "at (direct_program p) (vm_pc v) (Instruction_new Op_LoadConst 0 0)"
    "at (direct_program p) (vm_pc v + 1) (Instruction_new (binary_opcode Bin_Ne) 0 0)"
    "at (direct_program p) (vm_pc v + 1 + 1) (Instruction_new Op_Jump (usize_as_i32 k) 0)"
    by (auto dest!: code_at_Cons simp: binary_opcode_def)
  show ?thesis
  proof (rule tracks_then [OF const_tracks [OF i(1) rel]], elim conjE)
    fix w assume w: "arrives p m f base A v (0 # vm_stack v) (vm_pc v + 1) s w"
    then have w': "vm_pc w = vm_pc v + 1" "vm_stack w = 0 # b # st" by (simp_all add: arrives_def st)
    have "tracks (direct_program p) m w (Inr (truth (b \<noteq> 0)), s)
        (\<lambda>x t u. t = s \<and> arrives p m f base A w (x # st) (vm_pc w + 1) t u)"
      using binary_tracks [OF _ arrives_rel [OF w] w'(2), of Bin_Ne] i(2) b w'(1) by (simp add: eval_binary_def)
    then show "tracks (direct_program p) m w (Inr (truth (b \<noteq> 0)), s) (\<lambda>x t w. t = s \<and> arrives p m f base A v (x # st) k t w)"
    proof (rule tracks_then, elim conjE)
      fix u assume u: "arrives p m f base A w (truth (b \<noteq> 0) # st) (vm_pc w + 1) s u"
      then have u': "vm_pc u = vm_pc v + 1 + 1" "vm_stack u = truth (b \<noteq> 0) # st" by (simp_all add: arrives_def w')
      show "tracks (direct_program p) m u (Inr (truth (b \<noteq> 0)), s) (\<lambda>x t w. t = s \<and> arrives p m f base A v (x # st) k t w)"
        by (rule jump_tracks [OF _ arrives_rel [OF u] k])
          (use i(3) u' arrives_trans [OF w arrives_trans [OF u]] in \<open>auto intro: tracks_Inr\<close>)
    qed
  qed
qed


section \<open>Expressions\<close>

abbreviation code_of :: "program \<Rightarrow> (string \<Rightarrow> local_var option) \<Rightarrow> vm \<Rightarrow> expr \<Rightarrow> instruction list" where
  "code_of p L v e \<equiv> expr_code L (program_env p) (vm_pc v) e"

definition value_tracks ::
  "program \<Rightarrow> nat \<Rightarrow> func \<Rightarrow> nat \<Rightarrow> nat \<Rightarrow> (string \<Rightarrow> local_var option) \<Rightarrow> expr \<Rightarrow> ast_oracle \<Rightarrow> vm \<Rightarrow> bool" where
  "value_tracks p m f base A L e s v \<longleftrightarrow>
     tracks (direct_program p) m v (eval_expr p e s)
       (\<lambda>x t w. arrives p m f base A v (x # vm_stack v) (vm_pc v + length (code_of p L v e)) t w)"

lemma tracks_ticked:
  assumes "related p m V G f L base A s v"
    "\<And>t. tick s = (Inr (), t) \<Longrightarrow> related p m V G f L base A t v \<Longrightarrow> os_frames t = os_frames s \<Longrightarrow> tracks (direct_program p) m v (k () t) R"
  shows "tracks (direct_program p) m v (bnd (tick s) k) R"
proof (rule tracks_tick)
  fix t assume t: "tick s = (Inr (), t)" "t = s\<lparr>os_cycles := os_cycles s + 1\<rparr>"
  show "tracks (direct_program p) m v (k () t) R"
    by (rule assms(2) [OF t(1) related_tick [OF t(1) assms(1)]]) (simp add: t(2))
qed

text \<open>After an expression, its value is on the stack and the states are typed and related.\<close>

lemma value_step:
  assumes c: "compilable c p" and e: "type_of G (function_env p) e = Some ty" "expr_plain c e"
    and rel: "related p m V G f L base A s v" and tr: "value_tracks p m f base A L e s v"
    and k: "\<And>x t w. eval_expr p e s = (Inr x, t) \<Longrightarrow> is_i32 x \<Longrightarrow> os_frames t = os_frames s \<Longrightarrow>
      related p m V G f L base A t w \<Longrightarrow>
      arrives p m f base A v (x # vm_stack v) (vm_pc v + length (code_of p L v e)) t w \<Longrightarrow>
      vm_stack w = x # vm_stack v \<Longrightarrow> vm_pc w = vm_pc v + length (code_of p L v e) \<Longrightarrow> tracks (direct_program p) m w (k x t) R"
  shows "tracks (direct_program p) m v (bnd (eval_expr p e s) k) R"
proof (rule tracks_bnd [OF tr [unfolded value_tracks_def]])
  fix x t w
  assume ev: "eval_expr p e s = (Inr x, t)" and a: "arrives p m f base A v (x # vm_stack v) (vm_pc v + length (code_of p L v e)) t w"
  from execution_safe(1) [OF compilable_typed [OF c] e relatedD(1) [OF rel]] ev
  have "is_i32 x" "typed_state p V G t" "os_frames t = os_frames s" by (auto simp: value_safe_def)
  with ev a related_arrives [OF rel _ a] show "tracks (direct_program p) m w (k x t) R"
    by (intro k) (simp_all add: arrives_def)
qed

lemma code_length:
  assumes "compilable c p" "code_at (direct_program p) pc is"
  shows "pc + length is < 2147483648"
  using assms code_at_bound [OF assms(2)] by (simp add: compilable_def limit_defs)

lemma binary_case:
  assumes c: "compilable c p" and t: "type_of G (function_env p) l = Some lt" "type_of G (function_env p) r = Some rt"
    and pl: "expr_plain c l" "expr_plain c r" and rel: "related p m V G f L base A s v"
    and code: "code_at (direct_program p) (vm_pc v) (code_of p L v (E_Binary op l r sp))"
    and op: "op \<noteq> Bin_And" "op \<noteq> Bin_Or" and l: "value_tracks p m f base A L l s v"
    and r: "\<And>a t w. eval_expr p l s = (Inr a, t) \<Longrightarrow> related p m V G f L base A t w \<Longrightarrow>
      code_at (direct_program p) (vm_pc w) (code_of p L w r) \<Longrightarrow> value_tracks p m f base A L r t w"
  shows "tracks (direct_program p) m v (bnd (eval_expr p l s) (\<lambda>a s. bnd (eval_expr p r s) (\<lambda>b s. lift_res (eval_binary op a b) s)))
    (\<lambda>x t w. arrives p m f base A v (x # vm_stack v) (vm_pc v + length (code_of p L v (E_Binary op l r sp))) t w)"
proof (rule value_step [OF c t(1) pl(1) rel l])
  let ?p = "direct_program p" and ?cl = "code_of p L v l"
  fix a t1 w1
  assume 1: "eval_expr p l s = (Inr a, t1)" "is_i32 a" "related p m V G f L base A t1 w1"
    and a1: "arrives p m f base A v (a # vm_stack v) (vm_pc v + length ?cl) t1 w1"
    and w1: "vm_stack w1 = a # vm_stack v" "vm_pc w1 = vm_pc v + length ?cl"
  let ?cr = "code_of p L w1 r" and ?i = "Instruction_new (binary_opcode op) 0 0"
  have split: "code_of p L v (E_Binary op l r sp) = ?cl @ ?cr @ [?i]" using op by (simp add: Let_def w1(2))
  from code have cr: "code_at ?p (vm_pc w1) ?cr" and ci: "at ?p (vm_pc w1 + length ?cr) ?i"
    unfolding split by (auto dest!: code_at_append code_at_Cons simp: w1(2))
  show "tracks ?p m w1 (bnd (eval_expr p r t1) (\<lambda>b s. lift_res (eval_binary op a b) s))
      (\<lambda>x t w. arrives p m f base A v (x # vm_stack v) (vm_pc v + length (code_of p L v (E_Binary op l r sp))) t w)"
  proof (rule value_step [OF c t(2) pl(2) 1(3) r [OF 1(1) 1(3) cr]])
    fix b t2 w2
    assume 2: "is_i32 b" "related p m V G f L base A t2 w2"
      and a2: "arrives p m f base A w1 (b # vm_stack w1) (vm_pc w1 + length ?cr) t2 w2"
      and w2: "vm_stack w2 = b # vm_stack w1" "vm_pc w2 = vm_pc w1 + length ?cr"
    have st: "vm_stack w2 = b # a # vm_stack v" and i: "at ?p (vm_pc w2) ?i" using w1 w2 ci by simp_all
    show "tracks ?p m w2 (lift_res (eval_binary op a b) t2)
        (\<lambda>x t w. arrives p m f base A v (x # vm_stack v) (vm_pc v + length (code_of p L v (E_Binary op l r sp))) t w)"
      unfolding lift_res_def
    proof (rule tracks_mono [OF binary_tracks [OF i relatedD(4) [OF 2(2)] st 1(2) 2(1) op]])
      fix x t w
      assume a3: "t = t2 \<and> arrives p m f base A w2 (x # vm_stack v) (vm_pc w2 + 1) t w"
      have "vm_pc v + length (code_of p L v (E_Binary op l r sp)) = vm_pc w2 + 1" unfolding split using w1(2) w2(2) by simp
      with arrives_trans [OF a1 arrives_trans [OF a2 conjunct2 [OF a3]]]
      show "arrives p m f base A v (x # vm_stack v) (vm_pc v + length (code_of p L v (E_Binary op l r sp))) t w"
        by (simp only:)
    qed
  qed
qed


text \<open>The short circuit: when the left operand decides, the right one is skipped.\<close>

definition decides :: "binary_op \<Rightarrow> i64 \<Rightarrow> bool" where
  "decides op a \<longleftrightarrow> (if op = Bin_And then a = 0 else a \<noteq> 0)"

definition decided :: "binary_op \<Rightarrow> i64" where
  "decided op = (if op = Bin_And then 0 else 1)"

lemma logical_case:
  assumes c: "compilable c p" and t: "type_of G (function_env p) l = Some lt" "type_of G (function_env p) r = Some rt"
    and pl: "expr_plain c l" "expr_plain c r" and rel: "related p m V G f L base A s v"
    and code: "code_at (direct_program p) (vm_pc v) (code_of p L v (E_Binary op l r sp))"
    and op: "op = Bin_And \<or> op = Bin_Or" and l: "value_tracks p m f base A L l s v"
    and r: "\<And>a t w. eval_expr p l s = (Inr a, t) \<Longrightarrow> \<not> decides op a \<Longrightarrow> related p m V G f L base A t w \<Longrightarrow>
      code_at (direct_program p) (vm_pc w) (code_of p L w r) \<Longrightarrow> value_tracks p m f base A L r t w"
  shows "tracks (direct_program p) m v
    (bnd (eval_expr p l s) (\<lambda>a s. if decides op a then (Inr (decided op), s)
       else bnd (eval_expr p r s) (\<lambda>b s. (Inr (truth (b \<noteq> 0)), s))))
    (\<lambda>x t w. arrives p m f base A v (x # vm_stack v) (vm_pc v + length (code_of p L v (E_Binary op l r sp))) t w)"
proof (rule value_step [OF c t(1) pl(1) rel l])
  let ?p = "direct_program p" and ?cl = "code_of p L v l"
  let ?goal = "\<lambda>x t w. arrives p m f base A v (x # vm_stack v) (vm_pc v + length (code_of p L v (E_Binary op l r sp))) t w"
  fix a t1 w1
  assume 1: "eval_expr p l s = (Inr a, t1)" "is_i32 a" "related p m V G f L base A t1 w1"
    and a1: "arrives p m f base A v (a # vm_stack v) (vm_pc v + length ?cl) t1 w1"
    and w1: "vm_stack w1 = a # vm_stack v" "vm_pc w1 = vm_pc v + length ?cl"
  let ?cr = "expr_code L (program_env p) (vm_pc w1 + 1) r"
  let ?short = "vm_pc w1 + 1 + length ?cr + 3" and ?J = "if op = Bin_And then Op_JumpIfFalse else Op_JumpIfTrue"
  let ?ret = "[Instruction_new Op_LoadConst 0 0, Instruction_new Op_Ne 0 0, Instruction_new Op_Jump (usize_as_i32 (?short + 1)) 0]"
  have split: "code_of p L v (E_Binary op l r sp) =
      ?cl @ [Instruction_new ?J (usize_as_i32 ?short) 0] @ ?cr @ ?ret @ [Instruction_new Op_LoadConst (decided op) 0]"
    using op by (auto simp: Let_def w1(2) decided_def)
  from code_length [OF c code] have short: "?short + 1 < 2147483648" unfolding split using w1(2) by simp
  have len: "vm_pc v + length (code_of p L v (E_Binary op l r sp)) = ?short + 1" unfolding split using w1(2) by simp
  from code_at_append [OF code [unfolded split]] w1(2)
  have rest: "code_at ?p (vm_pc w1) (Instruction_new ?J (usize_as_i32 ?short) 0 #
      ?cr @ ?ret @ [Instruction_new Op_LoadConst (decided op) 0])" by simp
  note rest' = conjunct2 [OF code_at_Cons [OF rest]]
  note tail = conjunct2 [OF code_at_append [OF rest']]
  have j: "at ?p (vm_pc w1) (Instruction_new ?J (usize_as_i32 ?short) 0)" using code_at_Cons [OF rest] by simp
  have cr: "code_at ?p (vm_pc w1 + 1) ?cr" using code_at_append [OF rest'] by simp
  have ret: "code_at ?p (vm_pc w1 + 1 + length ?cr) ?ret" using code_at_append [OF tail] by simp
  have const: "at ?p ?short (Instruction_new Op_LoadConst (decided op) 0)"
    using code_at_Cons [OF conjunct2 [OF code_at_append [OF tail]]] by (simp add: eval_nat_numeral)
  have taken: "?J = Op_JumpIfFalse \<and> decides op a = (a = 0) \<or> ?J = Op_JumpIfTrue \<and> decides op a = (a \<noteq> 0)"
    by (simp add: decides_def)
  show "tracks ?p m w1 (if decides op a then (Inr (decided op), t1)
      else bnd (eval_expr p r t1) (\<lambda>b s. (Inr (truth (b \<noteq> 0)), s))) ?goal"
  proof (rule branch_tracks [OF j taken relatedD(4) [OF 1(3)] _ w1(1)])
    show "?short < 2147483648" using short by simp
  next
    fix w2 assume a2: "arrives p m f base A w1 (vm_stack v) (if decides op a then ?short else vm_pc w1 + 1) t1 w2"
    show "tracks ?p m w2 (if decides op a then (Inr (decided op), t1)
      else bnd (eval_expr p r t1) (\<lambda>b s. (Inr (truth (b \<noteq> 0)), s))) ?goal"
    proof (cases "decides op a")
      case True
      with a2 have w2: "vm_pc w2 = ?short" "vm_stack w2 = vm_stack v" by (simp_all add: arrives_def)
      have i: "at ?p (vm_pc w2) (Instruction_new Op_LoadConst (decided op) 0)" using const w2(1) by simp
      have "tracks ?p m w2 (Inr (decided op), t1) ?goal"
        by (rule tracks_mono [OF const_tracks [OF i arrives_rel [OF a2]]], elim conjE, unfold len,
            rule arrives_trans [OF a1 arrives_trans [OF a2]], simp only: w2)
      with True show ?thesis by simp
    next
      case False
      with a2 have w2: "vm_pc w2 = vm_pc w1 + 1" "vm_stack w2 = vm_stack v" by (simp_all add: arrives_def)
      from 1(3) a2 have rel2: "related p m V G f L base A t1 w2" by (blast intro: related_arrives relatedD(1))
      have cr2: "code_at ?p (vm_pc w2) (code_of p L w2 r)" using cr w2(1) by simp
      have "tracks ?p m w2 (bnd (eval_expr p r t1) (\<lambda>b s. (Inr (truth (b \<noteq> 0)), s))) ?goal"
      proof (rule value_step [OF c t(2) pl(2) rel2 r [OF 1(1) False rel2 cr2]])
        fix b t2 w3
        assume 2: "is_i32 b" "related p m V G f L base A t2 w3"
          and a3: "arrives p m f base A w2 (b # vm_stack w2) (vm_pc w2 + length (code_of p L w2 r)) t2 w3"
          and w3: "vm_stack w3 = b # vm_stack w2" "vm_pc w3 = vm_pc w2 + length (code_of p L w2 r)"
        have ret': "code_at ?p (vm_pc w3) ?ret" using ret w2(1) w3(2) by simp
        show "tracks ?p m w3 (Inr (truth (b \<noteq> 0)), t2) ?goal"
          by (rule tracks_mono [OF normalise_tracks [OF ret' relatedD(4) [OF 2(2)] w3(1) 2(1) short]], elim conjE, unfold len,
              rule arrives_trans [OF a1 arrives_trans [OF a2 arrives_trans [OF a3]]], simp only: w2)
      qed
      with False show ?thesis by simp
    qed
  qed
qed


text \<open>A negative index is an error the machine may reach later, or not at all.\<close>

lemma show_nat_first: "\<exists>d rest. show_nat n = digit_char d # rest \<and> d < 10"
proof (induction n rule: show_nat.induct)
  case (1 n)
  then show ?case by (subst show_nat.simps) (cases "n < 10"; force)
qed

lemma negative_index:
  assumes "raw < 0"
  shows "\<not> comparable (Trap ArrayOutOfBounds (fmt [''Array index '', show_int raw, '' out of bounds'']))"
proof -
  have d: "digit_char d \<noteq> CHR ''-''" if "d < 10" for d
    using that by (auto simp: digit_char_def less_Suc_eq numeral_eq_Suc)
  have "show_nat i \<noteq> CHR ''-'' # rest" for i rest using show_nat_first [of i] d by (metis list.inject)
  then show ?thesis
    using assms show_nat_first by (auto simp: comparable_def oracle_index_error_def show_int_def fmt_def append_eq_Cons_conv)
qed

end
