(* ===== verification/Code_Stmts.thy ===== *)
theory Code_Stmts
  imports Code_Exprs
begin

text \<open>
  The code of statements. An execution of a statement in a call leaves the storage below its frame
  and the stack alone, and either goes on behind the code or stands at a return with the value on
  the stack.
\<close>

section \<open>What a statement leaves\<close>

definition finishes ::
  "program \<Rightarrow> nat \<Rightarrow> func \<Rightarrow> nat \<Rightarrow> nat \<Rightarrow> vm \<Rightarrow> i64 list \<Rightarrow> nat \<Rightarrow> control \<Rightarrow> ast_oracle \<Rightarrow> vm \<Rightarrow> bool" where
  "finishes p m f base A v st pc ctl t w \<longleftrightarrow>
     state_rel p m f base A t w \<and> vm_calls w = vm_calls v \<and> keeps base A v w \<and>
     (case ctl of
        CContinue \<Rightarrow> vm_stack w = st \<and> vm_pc w = pc
      | CReturn x \<Rightarrow> vm_stack w = x # st \<and> at (direct_program p) (vm_pc w) (Instruction_new Op_Return 0 0))"

lemma finishes_CContinue:
  "finishes p m f base A v st pc CContinue t w \<longleftrightarrow> stored p m f base A v st pc t w"
  by (auto simp: finishes_def stored_def)

text \<open>A later start of the same call.\<close>

definition within :: "nat \<Rightarrow> nat \<Rightarrow> vm \<Rightarrow> vm \<Rightarrow> bool" where
  "within base A v w \<longleftrightarrow> keeps base A v w \<and> vm_calls w = vm_calls v"

lemma arrives_within: "arrives p m f base A v st pc t w \<Longrightarrow> state_rel p m f base A s v \<Longrightarrow> within base A v w"
  by (auto simp: arrives_def within_def state_rel_def elim: keeps_less)

lemma stored_within: "stored p m f base A v st pc t w \<Longrightarrow> within base A v w"
  by (simp add: stored_def within_def)

lemma finishes_within: "finishes p m f base A v st pc ctl t w \<Longrightarrow> within base A v w"
  by (simp add: finishes_def within_def)

lemma within_trans: "within base A u v \<Longrightarrow> within base A v w \<Longrightarrow> within base A u w"
  by (auto simp: within_def intro: keeps_trans)

lemma finishes_later: "within base A v u \<Longrightarrow> finishes p m f base A u st pc ctl t w \<Longrightarrow> finishes p m f base A v st pc ctl t w"
  by (auto simp: finishes_def within_def intro: keeps_trans)

lemma tracks_later:
  "within base A v u \<Longrightarrow> tracks q m u r (finishes p m f base A u st pc) \<Longrightarrow> tracks q m u r (finishes p m f base A v st pc)"
  by (erule tracks_mono) (rule finishes_later)

lemma stored_later: "within base A v u \<Longrightarrow> stored p m f base A u st pc t w \<Longrightarrow> stored p m f base A v st pc t w"
  using finishes_later [of base A v u p m f st pc CContinue t w] by (simp add: finishes_CContinue)

lemma tracks_continue:
  assumes "tracks q m u r (\<lambda>_ t w. stored p m f base A u st pc t w)" "within base A v u"
  shows "tracks q m u (bnd r continue) (finishes p m f base A v st pc)"
proof (rule tracks_bnd [OF assms(1)])
  fix x t w assume "stored p m f base A u st pc t w"
  from stored_later [OF assms(2) this] show "tracks q m w (continue x t) (finishes p m f base A v st pc)"
    unfolding continue_def by (intro tracks_Inr) (simp add: finishes_CContinue)
qed

section \<open>The names in scope\<close>

lemma covers_frame:
  assumes "\<forall>n l. L n = Some l \<longrightarrow> fst (frame_env f) n = Some l" "\<forall>n. G n \<noteq> None \<longrightarrow> var_sizes f n \<noteq> None \<longrightarrow> L n \<noteq> None"
  shows "covers (var_sizes f) G f L"
  unfolding covers_def
proof (intro conjI allI impI)
  fix n assume "G n \<noteq> None"
  moreover have "L n = None" if "var_sizes f n = None"
    using that assms(1) frame_env_None [of f n] by (cases "L n") auto
  ultimately show "if var_sizes f n = None then L n = None else L n \<noteq> None" using assms(2) by simp
qed (use assms(1) in blast)

lemma covers_grow:
  assumes c: "covers (var_sizes f) G f (fst E)" and E: "env_le E E'" "env_le E' (frame_env f)"
    and G: "\<forall>n. G' n \<noteq> None \<longrightarrow> G n \<noteq> None \<or> fst E' n \<noteq> None"
  shows "covers (var_sizes f) G' f (fst E')"
proof (rule covers_frame; intro allI impI)
  fix n l assume "fst E' n = Some l"
  then show "fst (frame_env f) n = Some l" using E(2) by (simp add: env_le_def)
next
  fix n assume n: "G' n \<noteq> None" "var_sizes f n \<noteq> None"
  have "fst E' n \<noteq> None" if "fst E n \<noteq> None" using that E(1) by (auto simp: env_le_def)
  moreover have "fst E n \<noteq> None" if "G n \<noteq> None" using c n(2) that unfolding covers_def by metis
  ultimately show "fst E' n \<noteq> None" using G n(1) by blast
qed

lemma covers_stmt:
  assumes "covers (var_sizes f) G f (fst E)" "env_le (bind_locals st E) (frame_env f)"
  shows "covers (var_sizes f) (bind_stmt st G) f (fst (bind_locals st E))"
proof (rule covers_grow [OF assms(1) bind_locals_le(1) assms(2)], intro allI impI)
  fix n assume "bind_stmt st G n \<noteq> None"
  then show "G n \<noteq> None \<or> fst (bind_locals st E) n \<noteq> None"
    using bind_local_Some by (cases st) (auto split: if_splits)
qed

text \<open>The store instruction of an assignment exists.\<close>

lemma store_instr_Some:
  assumes c: "compilable c p" and rel: "related p m V G f L base A s v" and y: "G n = Some y" "\<not> sym_is_function y"
  obtains i where "store_instr L (program_env p) n b = Some i"
  using that
  by (rule variable_cases [OF compilable_typed [OF c] relatedD(4,1) [OF rel] y relatedD(2,3) [OF rel]])
    (simp_all add: store_instr_def)

section \<open>Simple statements\<close>

lemma pop_tracks:
  assumes i: "at (direct_program p) (vm_pc v) (Instruction_new Op_Pop 0 0)" and rel: "state_rel p m f base A s v"
    and st: "vm_stack v = x # st"
  shows "tracks (direct_program p) m v (Inr CContinue, s) (finishes p m f base A v st (vm_pc v + 1))"
proof -
  let ?w = "(counted v)\<lparr>vm_stack := st\<rparr>"
  have "tracks (direct_program p) m v (Inr u, s) (\<lambda>u t w. stored p m f base A v st (vm_pc v + 1) t w)" for u :: unit
    by (intro tracks_stored [OF i rel, where w = ?w]) (simp_all add: exec_pop_def pop_def st keeps_same rel)
  then show ?thesis by (rule tracks_then) (simp add: tracks_Inr finishes_CContinue)
qed

lemma print_tracks:
  assumes i: "at (direct_program p) (vm_pc v) (Instruction_new Op_Print 0 0)" and rel: "state_rel p m f base A s v"
    and st: "vm_stack v = x # st"
  shows "tracks (direct_program p) m v (oracle_print x s) (finishes p m f base A v st (vm_pc v + 1))"
proof -
  let ?t = "s\<lparr>os_output := os_output s @ [fmt [''OUTPUT: '', show_int x]]\<rparr>"
  let ?w = "(counted v)\<lparr>vm_stack := st, vm_output := vm_output v @ [fmt [''OUTPUT: '', show_int x]]\<rparr>"
  have "globals_rel p (os_globals ?t) ?w" "frame_rel f (top_scope ?t) base A ?w"
    using rel rel_cong [of ?w v] by (simp_all add: state_rel_def top_scope_def)
  then have "state_rel p m f base A ?t ?w"
    using rel by (intro state_rel_update [OF rel]) (simp_all add: state_rel_def)
  then have "tracks (direct_program p) m v (Inr u, ?t) (\<lambda>u t w. stored p m f base A v st (vm_pc v + 1) t w)" for u :: unit
    by (intro tracks_stored [OF i rel, where w = ?w]) (simp_all add: exec_print_def pop_def st keeps_same)
  then show ?thesis
    unfolding oracle_print_def by (rule tracks_then) (simp add: tracks_Inr finishes_CContinue)
qed


section \<open>Statements made of expressions\<close>

abbreviation stmt_length :: "program \<Rightarrow> local_env \<Rightarrow> vm \<Rightarrow> stmt \<Rightarrow> nat" where
  "stmt_length p E v st \<equiv> length (stmt_code E (program_env p) (vm_pc v) st)"

text \<open>A statement that evaluates an expression and then runs one more instruction.\<close>

lemma value_then:
  assumes c: "compilable c p" and e: "type_of G (function_env p) e = Some ty" "expr_plain c e"
    and rel: "related p m V G f L base A s v" and tr: "value_tracks p m f base A L e s v"
    and code: "code_at (direct_program p) (vm_pc v) (code_of p L v e @ [i])"
    and k: "\<And>x t w. is_i32 x \<Longrightarrow> related p m V G f L base A t w \<Longrightarrow> at (direct_program p) (vm_pc w) i \<Longrightarrow>
      vm_stack w = x # vm_stack v \<Longrightarrow> os_frames t = os_frames s \<Longrightarrow>
      tracks (direct_program p) m w (k x t) (finishes p m f base A w (vm_stack v) (vm_pc w + 1))"
  shows "tracks (direct_program p) m v (bnd (eval_expr p e s) k)
    (finishes p m f base A v (vm_stack v) (vm_pc v + length (code_of p L v e @ [i])))"
proof (rule value_step [OF c e rel tr])
  fix x t w
  assume h: "is_i32 x" "related p m V G f L base A t w" "os_frames t = os_frames s"
    "arrives p m f base A v (x # vm_stack v) (vm_pc v + length (code_of p L v e)) t w"
    "vm_stack w = x # vm_stack v" "vm_pc w = vm_pc v + length (code_of p L v e)"
  have i: "at (direct_program p) (vm_pc w) i"
    using code_at_Cons [OF conjunct2 [OF code_at_append [OF code]]] h(6) by simp
  have pc: "vm_pc v + length (code_of p L v e @ [i]) = vm_pc w + 1" using h(6) by simp
  show "tracks (direct_program p) m w (k x t)
      (finishes p m f base A v (vm_stack v) (vm_pc v + length (code_of p L v e @ [i])))"
    unfolding pc by (rule tracks_later [OF arrives_within [OF h(4) relatedD(4) [OF rel]] k [OF h(1,2) i h(5,3)]])
qed

lemma return_case:
  assumes c: "compilable c p" and e: "type_of G (function_env p) e = Some ty" "expr_plain c e"
    and rel: "related p m V G f (fst E) base A s v" and tr: "value_tracks p m f base A (fst E) e s v"
    and code: "code_at (direct_program p) (vm_pc v) (stmt_code E (program_env p) (vm_pc v) (S_Return e sp))"
  shows "tracks (direct_program p) m v (bnd (eval_expr p e s) (\<lambda>x s. (Inr (CReturn x), s)))
    (finishes p m f base A v (vm_stack v) (vm_pc v + stmt_length p E v (S_Return e sp)))"
  unfolding stmt_code.simps
  by (rule value_then [OF c e rel tr code [unfolded stmt_code.simps]])
    (auto simp: finishes_def keeps_same dest: relatedD(4) intro!: tracks_Inr)

lemma print_case:
  assumes c: "compilable c p" and e: "type_of G (function_env p) e = Some ty" "expr_plain c e"
    and rel: "related p m V G f (fst E) base A s v" and tr: "value_tracks p m f base A (fst E) e s v"
    and code: "code_at (direct_program p) (vm_pc v) (stmt_code E (program_env p) (vm_pc v) (S_Print e sp))"
  shows "tracks (direct_program p) m v (bnd (eval_expr p e s) oracle_print)
    (finishes p m f base A v (vm_stack v) (vm_pc v + stmt_length p E v (S_Print e sp)))"
  unfolding stmt_code.simps
  by (rule value_then [OF c e rel tr code [unfolded stmt_code.simps]]) (rule print_tracks [OF _ relatedD(4)])

lemma expression_case:
  assumes c: "compilable c p" and e: "type_of G (function_env p) e = Some ty" "expr_plain c e"
    and rel: "related p m V G f (fst E) base A s v" and tr: "value_tracks p m f base A (fst E) e s v"
    and code: "code_at (direct_program p) (vm_pc v) (stmt_code E (program_env p) (vm_pc v) (S_ExprStmt e sp))"
  shows "tracks (direct_program p) m v (bnd (eval_expr p e s) (\<lambda>_ s. (Inr CContinue, s)))
    (finishes p m f base A v (vm_stack v) (vm_pc v + stmt_length p E v (S_ExprStmt e sp)))"
  unfolding stmt_code.simps
  by (rule value_then [OF c e rel tr code [unfolded stmt_code.simps]]) (rule pop_tracks [OF _ relatedD(4)])

text \<open>An assignment to a variable, also the one of an initialiser.\<close>

lemma scalar_case:
  assumes c: "compilable c p" and e: "type_of G (function_env p) e = Some ty" "expr_plain c e"
    and rel: "related p m V G f L base A s v" and tr: "value_tracks p m f base A L e s v"
    and y: "G n = Some y" "\<not> sym_is_function y" "\<not> sym_is_array y"
    and i: "store_instr L (program_env p) n False = Some i"
    and code: "code_at (direct_program p) (vm_pc v) (code_of p L v e @ [i])"
  shows "tracks (direct_program p) m v (bnd (eval_expr p e s) (\<lambda>x s. bnd (assign_scalar n x s) continue))
    (finishes p m f base A v (vm_stack v) (vm_pc v + length (code_of p L v e @ [i])))"
proof (rule value_then [OF c e rel tr code])
  fix x t w
  assume h: "is_i32 x" "related p m V G f L base A t w" "at (direct_program p) (vm_pc w) i" "vm_stack w = x # vm_stack v"
  show "tracks (direct_program p) m w (bnd (assign_scalar n x t) continue)
      (finishes p m f base A w (vm_stack v) (vm_pc w + 1))"
    by (rule tracks_continue [OF assign_scalar_tracks [OF compilable_typed [OF c] relatedD(4,1) [OF h(2)] y
          relatedD(2,3) [OF h(2)] i h(3,4,1)]]) (simp add: within_def keeps_same)
qed


text \<open>An assignment to an element of an array.\<close>

lemma element_case:
  assumes c: "compilable c p" and ei: "type_of G (function_env p) i = Some ti" "expr_plain c i"
    and ev: "type_of G (function_env p) e = Some te" "expr_plain c e"
    and rel: "related p m V G f L base A s v" and tri: "value_tracks p m f base A L i s v"
    and tre: "\<And>raw t w. eval_expr p i s = (Inr raw, t) \<Longrightarrow> 0 \<le> raw \<Longrightarrow> related p m V G f L base A t w \<Longrightarrow>
      code_at (direct_program p) (vm_pc w) (code_of p L w e) \<Longrightarrow> value_tracks p m f base A L e t w"
    and y: "G n = Some y" "\<not> sym_is_function y" "sym_is_array y"
    and st: "store_instr L (program_env p) n True = Some j"
    and code: "code_at (direct_program p) (vm_pc v)
      (code_of p L v i @ expr_code L (program_env p) (vm_pc v + length (code_of p L v i)) e @ [j])"
  shows "tracks (direct_program p) m v
    (bnd (eval_expr p i s) (\<lambda>raw s. bnd (lift_res (checked_array_index raw) s) (\<lambda>k s.
       bnd (eval_expr p e s) (\<lambda>x s. bnd (assign_array n k x s) continue))))
    (finishes p m f base A v (vm_stack v) (vm_pc v +
       length (code_of p L v i @ expr_code L (program_env p) (vm_pc v + length (code_of p L v i)) e @ [j])))"
proof (rule value_step [OF c ei rel tri])
  let ?p = "direct_program p"
  let ?goal = "finishes p m f base A v (vm_stack v) (vm_pc v +
       length (code_of p L v i @ expr_code L (program_env p) (vm_pc v + length (code_of p L v i)) e @ [j]))"
  fix raw t w
  assume 1: "eval_expr p i s = (Inr raw, t)" "related p m V G f L base A t w"
    "arrives p m f base A v (raw # vm_stack v) (vm_pc v + length (code_of p L v i)) t w"
    "vm_stack w = raw # vm_stack v" "vm_pc w = vm_pc v + length (code_of p L v i)"
  have code2: "code_at ?p (vm_pc w) (code_of p L w e @ [j])" using code_at_append [OF code] 1(5) by simp
  have code3: "code_at ?p (vm_pc w) (code_of p L w e)" using code_at_append [OF code2] by simp
  have pc: "vm_pc v + length (code_of p L v i @ expr_code L (program_env p) (vm_pc v + length (code_of p L v i)) e @ [j]) =
      vm_pc w + length (code_of p L w e @ [j])" using 1(5) by simp
  show "tracks ?p m w (bnd (lift_res (checked_array_index raw) t) (\<lambda>k s.
       bnd (eval_expr p e s) (\<lambda>x s. bnd (assign_array n k x s) continue))) ?goal"
  proof (cases "raw < 0")
    case True
    from negative_index [OF True] show ?thesis
      by (simp add: checked_array_index_def True tracks_incomparable)
  next
    case False
    then have raw: "0 \<le> raw" "raw = int (nat raw)" by simp_all
    have "tracks ?p m w (bnd (eval_expr p e t) (\<lambda>x s. bnd (assign_array n (nat raw) x s) continue)) ?goal"
      unfolding pc
    proof (rule value_step [OF c ev 1(2) tre [OF 1(1) raw(1) 1(2) code3]])
      fix x t' w'
      assume 2: "is_i32 x" "related p m V G f L base A t' w'"
        "arrives p m f base A w (x # vm_stack w) (vm_pc w + length (code_of p L w e)) t' w'"
        "vm_stack w' = x # vm_stack w" "vm_pc w' = vm_pc w + length (code_of p L w e)"
      have jj: "at ?p (vm_pc w') j" using code_at_Cons [OF conjunct2 [OF code_at_append [OF code2]]] 2(5) by simp
      have stk: "vm_stack w' = x # int (nat raw) # vm_stack v" using 1(4) 2(4) raw by simp
      have wi: "within base A v w'"
        by (rule within_trans [OF arrives_within [OF 1(3) relatedD(4) [OF rel]] arrives_within [OF 2(3) relatedD(4) [OF 1(2)]]])
      have pc': "vm_pc w + length (code_of p L w e @ [j]) = vm_pc w' + 1" using 2(5) by simp
      show "tracks ?p m w' (bnd (assign_array n (nat raw) x t') continue)
          (finishes p m f base A v (vm_stack v) (vm_pc w + length (code_of p L w e @ [j])))"
        unfolding pc'
        by (rule tracks_continue [OF assign_array_tracks [OF compilable_typed [OF c] relatedD(4,1) [OF 2(2)] y
              relatedD(2,3) [OF 2(2)] st jj stk 2(1)] wi])
    qed
    with False show ?thesis by (simp add: checked_array_index_def)
  qed
qed

section \<open>Declarations\<close>

lemma declared_rel:
  assumes rel: "state_rel p m f base A s v" and n: "top_scope s n = None" and l: "fst (frame_env f) n = Some l"
    and fr: "os_frames s \<noteq> []"
  shows "state_rel p m f base A (put_slot n (SScalar None) s) v"
proof (rule state_rel_update [OF rel])
  show "frame_rel f (top_scope (put_slot n (SScalar None) s)) base A v"
    using rel n l by (simp add: state_rel_def frame_declare_scalar)
qed (use rel fr in \<open>simp_all add: state_rel_def put_slot_frames\<close>)

text \<open>The slot of a declared variable.\<close>

lemma declared_slot:
  assumes E: "env_le (bind_local n sz E) (frame_env f)" and V: "var_sizes f n = Some sz"
  obtains l where "fst (bind_local n sz E) n = Some l" "fst (frame_env f) n = Some l" "lv_is_array l = (sz \<noteq> None)"
    "lv_array_size l = decl_size sz"
proof -
  obtain l where l: "fst (bind_local n sz E) n = Some l" using bind_local_Some by blast
  with E have "fst (frame_env f) n = Some l" by (simp add: env_le_def)
  with frame_env_var [OF V] l that show ?thesis by auto
qed

lemma array_declaration:
  assumes rel: "related p m (var_sizes f) G f (fst E) base A s v" and fr: "os_frames s \<noteq> []"
    and E: "env_le (bind_local n (Some k) E) (frame_env f)" and V: "var_sizes f n = Some (Some k)"
    and k: "0 < k" "is_i32 k"
    and room: "vlen (vm_locals v) + 2147483648 \<le> MAX_LOCAL_SLOTS + os_cycles s * 2147483648"
    and code: "code_at (direct_program p) (vm_pc v) (decl_code E (program_env p) (vm_pc v) n init (Some k))"
  shows "tracks (direct_program p) m v (bnd (lift_res (zero_array k) s) (\<lambda>slot s. bnd (declare_or_update n slot s) continue))
    (finishes p m f base A v (vm_stack v) (vm_pc v + length (decl_code E (program_env p) (vm_pc v) n init (Some k))))"
proof -
  obtain l where l: "fst (bind_local n (Some k) E) n = Some l" "fst (frame_env f) n = Some l" "lv_is_array l"
    "lv_array_size l = decl_size (Some k)" by (rule declared_slot [OF E V]) simp
  have "slot_fits (Some k) (SArray (replicate (nat k) 0))" using k by (simp add: slot_fits_def)
  note sz = size_operand [OF this]
  have split: "decl_code E (program_env p) (vm_pc v) n init (Some k) = [Instruction_new Op_AllocArray k 0, store_local l]"
    using l sz(1) by (simp add: decl_code_def)
  have st: "state_fits p (var_sizes f) s" using relatedD(1) [OF rel] by (simp add: typed_state_def)
  have "declare_or_update n slot s = (Inr (), put_slot n slot s)" for slot
    by (rule declare_local(1) [OF st fr]) (simp add: V)
  then have run: "bnd (lift_res (zero_array k) s) (\<lambda>slot s. bnd (declare_or_update n slot s) continue) =
      bnd (Inr (), put_slot n (SArray (replicate (nat k) 0)) s) continue"
    using k by (simp add: zero_array_def)
  show ?thesis
    unfolding run split
    by (rule tracks_continue, rule tracks_mono [OF declare_array_tracks [OF relatedD(4) [OF rel] l(2) fr k(1) sz(3) room
          code [unfolded split]]]) (simp_all add: within_def keeps_same)
qed

lemma scalar_declaration:
  assumes c: "compilable c p" and rel: "related p m (var_sizes f) G f (fst E) base A s v" and fr: "os_frames s \<noteq> []"
    and E: "env_le (bind_local n None E) (frame_env f)" and V: "var_sizes f n = Some None"
    and init: "\<And>e. init = Some e \<Longrightarrow> (\<exists>ty. type_of (G(n \<mapsto> declared n t False None)) (function_env p) e = Some ty) \<and> expr_plain c e"
    and tr: "\<And>e u t'. init = Some e \<Longrightarrow> ensure_declared n s = (Inr u, t') \<Longrightarrow>
      related p m (var_sizes f) (G(n \<mapsto> declared n t False None)) f (fst (bind_local n None E)) base A t' v \<Longrightarrow>
      code_at (direct_program p) (vm_pc v) (code_of p (fst (bind_local n None E)) v e) \<Longrightarrow>
      value_tracks p m f base A (fst (bind_local n None E)) e t' v"
    and code: "code_at (direct_program p) (vm_pc v) (decl_code E (program_env p) (vm_pc v) n init None)"
  shows "tracks (direct_program p) m v
    (case init of
       Some e \<Rightarrow> bnd (ensure_declared n s) (\<lambda>_ s. bnd (eval_expr p e s) (\<lambda>x s. bnd (assign_scalar n x s) continue))
     | None \<Rightarrow> bnd (ensure_declared n s) continue)
    (finishes p m f base A v (vm_stack v) (vm_pc v + length (decl_code E (program_env p) (vm_pc v) n init None)))"
proof -
  let ?L = "fst (bind_local n None E)" and ?G = "G(n \<mapsto> declared n t False None)"
  obtain l where l: "?L n = Some l" "fst (frame_env f) n = Some l" "\<not> lv_is_array l"
    by (rule declared_slot [OF E V]) simp
  have st: "state_fits p (var_sizes f) s" using relatedD(1) [OF rel] by (simp add: typed_state_def)
  let ?s = "if top_scope s n = None then put_slot n (SScalar None) s else s"
  have ens: "ensure_declared n s = (Inr (), ?s)" using declare_local(2) [OF st fr] V by simp
  have rs: "state_rel p m f base A ?s v"
    using declared_rel [OF relatedD(4) [OF rel] _ l(2) fr] relatedD(4) [OF rel] by simp
  have mv: "moves p (var_sizes f) s ?s"
    using moves_put [OF st V _ fr, of "SScalar None"] moves_frames [OF relatedD(1) [OF rel] refl fr] by (simp add: slot_fits_def)
  have ty: "typed_state p (var_sizes f) ?G ?s"
    by (rule bind_typed [OF typed_moves [OF relatedD(1) [OF rel] mv] V]) simp
  have cov: "covers (var_sizes f) ?G f ?L"
    using covers_grow [OF relatedD(2) [OF rel] bind_local_le E, of ?G] l(1) by (simp split: if_splits)
  have new: "related p m (var_sizes f) ?G f ?L base A ?s v" using ty cov rs by (simp add: related_def)
  show ?thesis
  proof (cases init)
    case None
    then have "decl_code E (program_env p) (vm_pc v) n init None = []" using l by (simp add: decl_code_def)
    then show ?thesis
      using None ens rs by (simp add: continue_def finishes_def keeps_same tracks_Inr)
  next
    case (Some e)
    have split: "decl_code E (program_env p) (vm_pc v) n init None = code_of p ?L v e @ [store_local l]"
      using l Some by (simp add: decl_code_def)
    from init [OF Some] obtain ty where e: "type_of ?G (function_env p) e = Some ty" "expr_plain c e" by blast
    have "code_at (direct_program p) (vm_pc v) (code_of p ?L v e)"
      using code_at_append [OF code [unfolded split]] by simp
    note ev = tr [OF Some ens new this]
    have y: "?G n = Some (declared n t False None)" "\<not> sym_is_function (declared n t False None)"
      "\<not> sym_is_array (declared n t False None)" by (simp_all add: declared_def variable_symbol_def)
    have i: "store_instr ?L (program_env p) n False = Some (store_local l)" using l by (simp add: store_instr_def)
    from scalar_case [OF c e new ev y i code [unfolded split]] show ?thesis
      unfolding split unfolding Some by (simp only: option.case ens bnd_simps)
  qed
qed


section \<open>Blocks, branches and loops\<close>

definition block_tracks ::
  "program \<Rightarrow> nat \<Rightarrow> func \<Rightarrow> nat \<Rightarrow> nat \<Rightarrow> local_env \<Rightarrow> stmt list \<Rightarrow> ast_oracle \<Rightarrow> vm \<Rightarrow> bool" where
  "block_tracks p m f base A E ss s v \<longleftrightarrow>
     tracks (direct_program p) m v (exec_block p ss s)
       (finishes p m f base A v (vm_stack v) (vm_pc v + length (stmts_code E (program_env p) (vm_pc v) ss)))"

definition stmt_tracks ::
  "program \<Rightarrow> nat \<Rightarrow> func \<Rightarrow> nat \<Rightarrow> nat \<Rightarrow> local_env \<Rightarrow> stmt \<Rightarrow> ast_oracle \<Rightarrow> vm \<Rightarrow> bool" where
  "stmt_tracks p m f base A E st s v \<longleftrightarrow>
     tracks (direct_program p) m v (exec_stmt p st s)
       (finishes p m f base A v (vm_stack v) (vm_pc v + stmt_length p E v st))"

definition while_tracks ::
  "program \<Rightarrow> nat \<Rightarrow> func \<Rightarrow> nat \<Rightarrow> nat \<Rightarrow> local_env \<Rightarrow> expr \<Rightarrow> stmt list \<Rightarrow> span \<Rightarrow> ast_oracle \<Rightarrow> vm \<Rightarrow> bool" where
  "while_tracks p m f base A E cond body sp s v \<longleftrightarrow>
     tracks (direct_program p) m v (exec_while p cond body s)
       (finishes p m f base A v (vm_stack v) (vm_pc v + stmt_length p E v (S_While cond body sp)))"

text \<open>After a block has gone on, at its end.\<close>

lemma finishes_at:
  "finishes p m f base A v st pc CContinue t w \<Longrightarrow> state_rel p m f base A t w \<and> vm_stack w = st \<and> vm_pc w = pc"
  by (simp add: finishes_def)

lemma finishes_return:
  "finishes p m f base A v st pc (CReturn x) t w = finishes p m f base A v st pc' (CReturn x) t w"
  by (simp add: finishes_def)

text \<open>What follows a statement or a block is skipped when it returns.\<close>

lemma tracks_sequence:
  assumes r: "tracks q m u r (finishes p m f base A u st pc)" and u: "within base A v u"
    and k: "\<And>t w. r = (Inr CContinue, t) \<Longrightarrow> finishes p m f base A u st pc CContinue t w \<Longrightarrow> within base A v w \<Longrightarrow>
      vm_stack w = st \<Longrightarrow> vm_pc w = pc \<Longrightarrow> tracks q m w (k t) (finishes p m f base A w st pc')"
  shows "tracks q m u (bnd r (\<lambda>ctl s. if ctl = CContinue then k s else (Inr ctl, s))) (finishes p m f base A v st pc')"
proof (rule tracks_bnd [OF r])
  fix ctl t w
  assume h: "r = (Inr ctl, t)" "finishes p m f base A u st pc ctl t w"
  have w: "within base A v w" by (rule within_trans [OF u finishes_within [OF h(2)]])
  show "tracks q m w (if ctl = CContinue then k t else (Inr ctl, t)) (finishes p m f base A v st pc')"
  proof (cases ctl)
    case CContinue
    with h finishes_at [of p m f base A u st pc t w] have "tracks q m w (k t) (finishes p m f base A w st pc')"
      by (intro k [OF _ _ w]) simp_all
    from tracks_later [OF w this] CContinue show ?thesis by simp
  next
    case (CReturn x)
    with h(2) finishes_return [of p m f base A u st pc x t w pc'] have "finishes p m f base A u st pc' ctl t w" by simp
    from finishes_later [OF u this] CReturn show ?thesis by (simp add: tracks_Inr)
  qed
qed

text \<open>The typing of what follows.\<close>

lemma related_finishes:
  "typed_state p (var_sizes f) G t \<Longrightarrow> covers (var_sizes f) G f L \<Longrightarrow> finishes p m f base A v st pc ctl t w \<Longrightarrow>
     related p m (var_sizes f) G f L base A t w"
  by (simp add: related_def finishes_def)

lemma block_case:
  assumes c: "compilable c p" and ok: "stmt_ok G (function_env p) st" "stmt_plain c st" "decls_fit (var_sizes f) (decls_of st)"
    and rel: "related p m (var_sizes f) G f (fst E) base A s v" and fr: "os_frames s \<noteq> []"
    and E: "env_le (bind_locals st E) (frame_env f)"
    and code: "code_at (direct_program p) (vm_pc v) (stmts_code E (program_env p) (vm_pc v) (st # ss))"
    and st: "stmt_tracks p m f base A E st s v"
    and ss: "\<And>t w. exec_stmt p st s = (Inr CContinue, t) \<Longrightarrow> os_frames t \<noteq> [] \<Longrightarrow>
      related p m (var_sizes f) (bind_stmt st G) f (fst (bind_locals st E)) base A t w \<Longrightarrow>
      code_at (direct_program p) (vm_pc w) (stmts_code (bind_locals st E) (program_env p) (vm_pc w) ss) \<Longrightarrow>
      block_tracks p m f base A (bind_locals st E) ss t w"
  shows "block_tracks p m f base A E (st # ss) s v"
  unfolding block_tracks_def exec_block.simps
proof (rule tracks_sequence [OF st [unfolded stmt_tracks_def]])
  show "within base A v v" by (simp add: within_def keeps_same)
next
  let ?cs = "stmt_code E (program_env p) (vm_pc v) st"
  fix t w
  assume h: "exec_stmt p st s = (Inr CContinue, t)"
    "finishes p m f base A v (vm_stack v) (vm_pc v + length ?cs) CContinue t w" "vm_stack w = vm_stack v" "vm_pc w = vm_pc v + length ?cs"
  from execution_safe(5) [OF compilable_typed [OF c] ok relatedD(1) [OF rel] fr] h(1)
  have "typed_state p (var_sizes f) (bind_stmt st G) t" "os_frames t \<noteq> []" by (auto simp: stmt_safe_def moves_def)
  note t = this related_finishes [OF this(1) covers_stmt [OF relatedD(2) [OF rel] E] h(2)]
  have rest: "code_at (direct_program p) (vm_pc w) (stmts_code (bind_locals st E) (program_env p) (vm_pc w) ss)"
    using code_at_append [of "direct_program p" "vm_pc v" ?cs] code h(4) by (simp add: Let_def)
  have "vm_pc v + length (stmts_code E (program_env p) (vm_pc v) (st # ss)) =
      vm_pc w + length (stmts_code (bind_locals st E) (program_env p) (vm_pc w) ss)" using h(4) by (simp add: Let_def)
  with ss [OF h(1) t(2,3) rest] h(3)
  show "tracks (direct_program p) m w (exec_block p ss t) (finishes p m f base A w (vm_stack v)
      (vm_pc v + length (stmts_code E (program_env p) (vm_pc v) (st # ss))))"
    by (simp add: block_tracks_def)
qed

end
