(* ===== verification/Code_Control.thy ===== *)
theory Code_Control
  imports Code_Stmts
begin

text \<open>
  The code of branches, loops and calls, given that the parts are tracked.
\<close>

lemma tracks_extend:
  assumes "tracks q m v r Q" "\<And>x t w. r = (Inr x, t) \<Longrightarrow> Q x t w \<Longrightarrow> tracks q m w (Inr x, t) R"
  shows "tracks q m v r R"
proof -
  have "bnd r (\<lambda>x t. (Inr x, t)) = r" by (cases r; cases "fst r") auto
  with tracks_bnd [OF assms(1), of "\<lambda>x t. (Inr x, t)" R] assms(2) show ?thesis by simp
qed

section \<open>Branches\<close>

text \<open>A condition and the conditional jump after it.\<close>

lemma condition_step:
  assumes c: "compilable c p" and e: "type_of G (function_env p) cond = Some ty" "expr_plain c cond"
    and rel: "related p m V G f L base A s v" and tr: "value_tracks p m f base A L cond s v" and fr: "os_frames s \<noteq> []"
    and code: "code_at (direct_program p) (vm_pc v)
      (code_of p L v cond @ Instruction_new Op_JumpIfFalse (usize_as_i32 target) 0 # rest)" and target: "target < 2147483648"
    and k: "\<And>x t w. eval_expr p cond s = (Inr x, t) \<Longrightarrow> os_frames t \<noteq> [] \<Longrightarrow> related p m V G f L base A t w \<Longrightarrow>
      within base A v w \<Longrightarrow> vm_stack w = vm_stack v \<Longrightarrow>
      vm_pc w = (if x = 0 then target else vm_pc v + length (code_of p L v cond) + 1) \<Longrightarrow>
      (x \<noteq> 0 \<Longrightarrow> code_at (direct_program p) (vm_pc w) rest) \<Longrightarrow> tracks (direct_program p) m w (k x t) R"
  shows "tracks (direct_program p) m v (bnd (eval_expr p cond s) k) R"
proof (rule value_step [OF c e rel tr])
  fix x t w
  assume h: "eval_expr p cond s = (Inr x, t)" "os_frames t = os_frames s" "related p m V G f L base A t w"
    "arrives p m f base A v (x # vm_stack v) (vm_pc v + length (code_of p L v cond)) t w"
    "vm_stack w = x # vm_stack v" "vm_pc w = vm_pc v + length (code_of p L v cond)"
  note j = code_at_Cons [OF conjunct2 [OF code_at_append [OF code]]]
  have i: "at (direct_program p) (vm_pc w) (Instruction_new Op_JumpIfFalse (usize_as_i32 target) 0)"
    using j h(6) by simp
  show "tracks (direct_program p) m w (k x t) R"
  proof (rule branch_tracks [where taken = "x = 0", OF i _ relatedD(4) [OF h(3)] target h(5)])
    fix w2 assume w2: "arrives p m f base A w (vm_stack v) (if x = 0 then target else vm_pc w + 1) t w2"
    show "tracks (direct_program p) m w2 (k x t) R"
    proof (rule k [OF h(1)])
      show "related p m V G f L base A t w2" by (rule related_arrives [OF h(3) relatedD(1) [OF h(3)] w2])
      show "within base A v w2"
        by (rule within_trans [OF arrives_within [OF h(4) relatedD(4) [OF rel]] arrives_within [OF w2 relatedD(4) [OF h(3)]]])
      show "os_frames t \<noteq> []" using h(2) fr by simp
      show "code_at (direct_program p) (vm_pc w2) rest" if "x \<noteq> 0"
        using w2 h(6) j that by (simp add: arrives_def)
    qed (use w2 h(6) in \<open>simp_all add: arrives_def\<close>)
  qed simp
qed

lemma if_case:
  assumes c: "compilable c p" and e: "type_of G (function_env p) cond = Some ty" "expr_plain c cond"
    and rel: "related p m (var_sizes f) G f (fst E) base A s v" and fr: "os_frames s \<noteq> []"
    and tr: "value_tracks p m f base A (fst E) cond s v"
    and code: "code_at (direct_program p) (vm_pc v) (stmt_code E (program_env p) (vm_pc v) (S_If cond th None sp))"
    and th: "\<And>x t w. eval_expr p cond s = (Inr x, t) \<Longrightarrow> x \<noteq> 0 \<Longrightarrow> os_frames t \<noteq> [] \<Longrightarrow>
      related p m (var_sizes f) G f (fst E) base A t w \<Longrightarrow>
      code_at (direct_program p) (vm_pc w) (stmts_code E (program_env p) (vm_pc w) th) \<Longrightarrow> block_tracks p m f base A E th t w"
  shows "tracks (direct_program p) m v
    (bnd (eval_expr p cond s) (\<lambda>x s. if x \<noteq> 0 then exec_block p th s else (Inr CContinue, s)))
    (finishes p m f base A v (vm_stack v) (vm_pc v + stmt_length p E v (S_If cond th None sp)))"
proof -
  let ?p = "direct_program p" and ?cc = "code_of p (fst E) v cond"
  let ?ct = "stmts_code E (program_env p) (vm_pc v + length ?cc + 1) th"
  let ?stop = "vm_pc v + length ?cc + 1 + length ?ct"
  have split: "stmt_code E (program_env p) (vm_pc v) (S_If cond th None sp) =
      ?cc @ Instruction_new Op_JumpIfFalse (usize_as_i32 ?stop) 0 # ?ct" by (simp add: Let_def)
  have len: "vm_pc v + stmt_length p E v (S_If cond th None sp) = ?stop" unfolding split by simp
  have target: "?stop < 2147483648" using code_length [OF c code] unfolding len .
  show ?thesis
    unfolding len
  proof (rule condition_step [OF c e rel tr fr code [unfolded split] target])
    fix x t w
    assume h: "eval_expr p cond s = (Inr x, t)" "os_frames t \<noteq> []" "related p m (var_sizes f) G f (fst E) base A t w"
      "within base A v w" "vm_stack w = vm_stack v" "vm_pc w = (if x = 0 then ?stop else vm_pc v + length ?cc + 1)"
      "x \<noteq> 0 \<Longrightarrow> code_at ?p (vm_pc w) ?ct"
    show "tracks ?p m w (if x \<noteq> 0 then exec_block p th t else (Inr CContinue, t)) (finishes p m f base A v (vm_stack v) ?stop)"
    proof (cases "x = 0")
      case True
      with h relatedD(4) [OF h(3)] show ?thesis by (simp add: tracks_Inr finishes_def within_def)
    next
      case False
      with h(6,7) have "code_at ?p (vm_pc w) (stmts_code E (program_env p) (vm_pc w) th)" by simp
      from th [OF h(1) False h(2,3) this] tracks_later [OF h(4)] False h(5,6) show ?thesis
        by (simp add: block_tracks_def)
    qed
  qed
qed

lemma if_else_case:
  assumes c: "compilable c p" and e: "type_of G (function_env p) cond = Some ty" "expr_plain c cond"
    and rel: "related p m (var_sizes f) G f (fst E) base A s v" and fr: "os_frames s \<noteq> []"
    and tr: "value_tracks p m f base A (fst E) cond s v"
    and E: "env_le (bind_locals_list th E) (frame_env f)"
    and code: "code_at (direct_program p) (vm_pc v) (stmt_code E (program_env p) (vm_pc v) (S_If cond th (Some el) sp))"
    and th: "\<And>x t w. eval_expr p cond s = (Inr x, t) \<Longrightarrow> x \<noteq> 0 \<Longrightarrow> os_frames t \<noteq> [] \<Longrightarrow>
      related p m (var_sizes f) G f (fst E) base A t w \<Longrightarrow>
      code_at (direct_program p) (vm_pc w) (stmts_code E (program_env p) (vm_pc w) th) \<Longrightarrow> block_tracks p m f base A E th t w"
    and el: "\<And>x t w. eval_expr p cond s = (Inr x, t) \<Longrightarrow> \<not> x \<noteq> 0 \<Longrightarrow> os_frames t \<noteq> [] \<Longrightarrow>
      related p m (var_sizes f) G f (fst (bind_locals_list th E)) base A t w \<Longrightarrow>
      code_at (direct_program p) (vm_pc w) (stmts_code (bind_locals_list th E) (program_env p) (vm_pc w) el) \<Longrightarrow>
      block_tracks p m f base A (bind_locals_list th E) el t w"
  shows "tracks (direct_program p) m v
    (bnd (eval_expr p cond s) (\<lambda>x s. if x \<noteq> 0 then exec_block p th s else exec_block p el s))
    (finishes p m f base A v (vm_stack v) (vm_pc v + stmt_length p E v (S_If cond th (Some el) sp)))"
proof -
  let ?p = "direct_program p" and ?cc = "code_of p (fst E) v cond" and ?E = "bind_locals_list th E"
  let ?ct = "stmts_code E (program_env p) (vm_pc v + length ?cc + 1) th"
  let ?jump = "vm_pc v + length ?cc + 1 + length ?ct"
  let ?ce = "stmts_code ?E (program_env p) (?jump + 1) el"
  let ?stop = "?jump + 1 + length ?ce"
  have split: "stmt_code E (program_env p) (vm_pc v) (S_If cond th (Some el) sp) =
      ?cc @ Instruction_new Op_JumpIfFalse (usize_as_i32 (?jump + 1)) 0 #
      ?ct @ Instruction_new Op_Jump (usize_as_i32 ?stop) 0 # ?ce" by (simp add: Let_def)
  have len: "vm_pc v + stmt_length p E v (S_If cond th (Some el) sp) = ?stop" unfolding split by simp
  have target: "?stop < 2147483648" using code_length [OF c code] unfolding len .
  then have target': "?jump + 1 < 2147483648" by simp
  from code_at_append [OF conjunct2 [OF code_at_Cons [OF conjunct2 [OF code_at_append [OF code [unfolded split]]]]]]
  have jump: "code_at ?p ?jump (Instruction_new Op_Jump (usize_as_i32 ?stop) 0 # ?ce)" by simp
  show ?thesis
    unfolding len
  proof (rule condition_step [OF c e rel tr fr code [unfolded split] target'])
    fix x t w
    assume h: "eval_expr p cond s = (Inr x, t)" "os_frames t \<noteq> []" "related p m (var_sizes f) G f (fst E) base A t w"
      "within base A v w" "vm_stack w = vm_stack v" "vm_pc w = (if x = 0 then ?jump + 1 else vm_pc v + length ?cc + 1)"
      "x \<noteq> 0 \<Longrightarrow> code_at ?p (vm_pc w) (?ct @ Instruction_new Op_Jump (usize_as_i32 ?stop) 0 # ?ce)"
    show "tracks ?p m w (if x \<noteq> 0 then exec_block p th t else exec_block p el t) (finishes p m f base A v (vm_stack v) ?stop)"
    proof (cases "x = 0")
      case True
      have "covers (var_sizes f) G f (fst ?E)"
        by (rule covers_grow [OF relatedD(2) [OF h(3)] bind_locals_le(2) E]) simp
      with h(3) have "related p m (var_sizes f) G f (fst ?E) base A t w" by (simp add: related_def)
      moreover have "code_at ?p (vm_pc w) (stmts_code ?E (program_env p) (vm_pc w) el)"
        using jump h(6) True by (auto dest: code_at_Cons)
      ultimately have "block_tracks p m f base A ?E el t w" using el [OF h(1)] True h(2) by simp
      with tracks_later [OF h(4)] True h(5,6) show ?thesis by (simp add: block_tracks_def)
    next
      case False
      with h(6) have pc: "vm_pc w = vm_pc v + length ?cc + 1" by simp
      have "code_at ?p (vm_pc w) (stmts_code E (program_env p) (vm_pc w) th)"
        using code_at_append [OF h(7) [OF False]] pc by simp
      note b = th [OF h(1) False h(2,3) this, unfolded block_tracks_def]
      have "tracks ?p m w (exec_block p th t) (finishes p m f base A w (vm_stack v) ?stop)"
      proof (rule tracks_extend [OF b])
        fix ctl t' w'
        assume f: "finishes p m f base A w (vm_stack w) (vm_pc w + length (stmts_code E (program_env p) (vm_pc w) th)) ctl t' w'"
        show "tracks ?p m w' (Inr ctl, t') (finishes p m f base A w (vm_stack v) ?stop)"
        proof (cases ctl)
          case CContinue
          with finishes_at f h(5) pc have w': "state_rel p m f base A t' w'" "vm_stack w' = vm_stack v" "vm_pc w' = ?jump" by auto
          have i: "at ?p (vm_pc w') (Instruction_new Op_Jump (usize_as_i32 ?stop) 0)" using jump w'(3) by (auto dest: code_at_Cons)
          show ?thesis
          proof (rule jump_tracks [OF i w'(1) target])
            fix u assume u: "arrives p m f base A w' (vm_stack w') ?stop t' u"
            have "within base A w u" by (rule within_trans [OF finishes_within [OF f] arrives_within [OF u w'(1)]])
            with u w'(2) CContinue show "tracks ?p m u (Inr ctl, t') (finishes p m f base A w (vm_stack v) ?stop)"
              by (simp add: tracks_Inr finishes_def within_def arrives_def)
          qed
        next
          case (CReturn x)
          with f h(5) finishes_return show ?thesis by (intro tracks_Inr) metis
        qed
      qed
      from tracks_later [OF h(4) this] False show ?thesis by simp
    qed
  qed
qed


section \<open>Loops\<close>

lemma while_case:
  assumes c: "compilable c p" and e: "type_of G (function_env p) cond = Some ty" "expr_plain c cond"
    and body: "stmts_ok G (function_env p) ss" "stmts_plain c ss" "decls_fit (var_sizes f) (decls_of_list ss)"
    and rel: "related p m (var_sizes f) G f (fst E) base A s v" and fr: "os_frames s \<noteq> []"
    and tr: "value_tracks p m f base A (fst E) cond s v"
    and code: "code_at (direct_program p) (vm_pc v) (stmt_code E (program_env p) (vm_pc v) (S_While cond ss sp))"
    and bl: "\<And>x t w. eval_expr p cond s = (Inr x, t) \<Longrightarrow> x \<noteq> 0 \<Longrightarrow> os_frames t \<noteq> [] \<Longrightarrow>
      related p m (var_sizes f) G f (fst E) base A t w \<Longrightarrow>
      code_at (direct_program p) (vm_pc w) (stmts_code E (program_env p) (vm_pc w) ss) \<Longrightarrow> block_tracks p m f base A E ss t w"
    and again: "\<And>x t ctl t' w. eval_expr p cond s = (Inr x, t) \<Longrightarrow> x \<noteq> 0 \<Longrightarrow> exec_block p ss t = (Inr ctl, t') \<Longrightarrow>
      ctl = CContinue \<Longrightarrow> os_frames t' \<noteq> [] \<Longrightarrow> related p m (var_sizes f) G f (fst E) base A t' w \<Longrightarrow>
      code_at (direct_program p) (vm_pc w) (stmt_code E (program_env p) (vm_pc w) (S_While cond ss sp)) \<Longrightarrow>
      while_tracks p m f base A E cond ss sp t' w"
  shows "while_tracks p m f base A E cond ss sp s v"
proof -
  let ?p = "direct_program p" and ?cc = "code_of p (fst E) v cond"
  let ?cb = "stmts_code E (program_env p) (vm_pc v + length ?cc + 1) ss"
  let ?jump = "vm_pc v + length ?cc + 1 + length ?cb"
  have split: "stmt_code E (program_env p) (vm_pc v) (S_While cond ss sp) =
      ?cc @ Instruction_new Op_JumpIfFalse (usize_as_i32 (?jump + 1)) 0 #
      ?cb @ [Instruction_new Op_Jump (usize_as_i32 (vm_pc v)) 0]" by (simp add: Let_def)
  have len: "vm_pc v + stmt_length p E v (S_While cond ss sp) = ?jump + 1" unfolding split by simp
  have target: "?jump + 1 < 2147483648" using code_length [OF c code] unfolding len .
  then have start: "vm_pc v < 2147483648" by simp
  from code_at_Cons [OF conjunct2 [OF code_at_append [OF conjunct2 [OF code_at_Cons [OF conjunct2 [OF code_at_append
    [OF code [unfolded split]]]]]]]]
  have jump: "at ?p ?jump (Instruction_new Op_Jump (usize_as_i32 (vm_pc v)) 0)" by simp
  have "tracks ?p m v
    (bnd (eval_expr p cond s) (\<lambda>x s.
     if x \<noteq> 0 then bnd (exec_block p ss s) (\<lambda>ctl s. if ctl = CContinue then exec_while p cond ss s else (Inr ctl, s))
     else (Inr CContinue, s)))
    (finishes p m f base A v (vm_stack v) (?jump + 1))"
  proof (rule condition_step [OF c e rel tr fr code [unfolded split] target])
    fix x t w
    assume h: "eval_expr p cond s = (Inr x, t)" "os_frames t \<noteq> []" "related p m (var_sizes f) G f (fst E) base A t w"
      "within base A v w" "vm_stack w = vm_stack v" "vm_pc w = (if x = 0 then ?jump + 1 else vm_pc v + length ?cc + 1)"
      "x \<noteq> 0 \<Longrightarrow> code_at ?p (vm_pc w) (?cb @ [Instruction_new Op_Jump (usize_as_i32 (vm_pc v)) 0])"
    show "tracks ?p m w (if x \<noteq> 0
        then bnd (exec_block p ss t) (\<lambda>ctl s. if ctl = CContinue then exec_while p cond ss s else (Inr ctl, s))
        else (Inr CContinue, t)) (finishes p m f base A v (vm_stack v) (?jump + 1))"
    proof (cases "x = 0")
      case True
      with h relatedD(4) [OF h(3)] show ?thesis by (simp add: tracks_Inr finishes_def within_def)
    next
      case False
      with h(6) have pc: "vm_pc w = vm_pc v + length ?cc + 1" by simp
      have cb: "code_at ?p (vm_pc w) (stmts_code E (program_env p) (vm_pc w) ss)"
        using code_at_append [OF h(7) [OF False]] pc by simp
      have b: "tracks ?p m w (exec_block p ss t) (finishes p m f base A w (vm_stack v) ?jump)"
        using bl [OF h(1) False h(2,3) cb] h(5) pc by (simp add: block_tracks_def)
      have "tracks ?p m w (bnd (exec_block p ss t) (\<lambda>ctl s. if ctl = CContinue then exec_while p cond ss s else (Inr ctl, s)))
          (finishes p m f base A v (vm_stack v) (?jump + 1))"
      proof (rule tracks_sequence [OF b h(4)])
        fix t' w'
        assume r: "exec_block p ss t = (Inr CContinue, t')" "finishes p m f base A w (vm_stack v) ?jump CContinue t' w'"
          "vm_stack w' = vm_stack v" "vm_pc w' = ?jump"
        from execution_safe(4) [OF compilable_typed [OF c] body relatedD(1) [OF h(3)] h(2)] r(1)
        have mv: "moves p (var_sizes f) t t'" by (simp add: block_safe_def)
        then have t': "typed_state p (var_sizes f) G t'" "os_frames t' \<noteq> []"
          using typed_moves [OF relatedD(1) [OF h(3)]] by (simp_all add: moves_def)
        note rel' = related_finishes [OF t'(1) relatedD(2) [OF rel] r(2)]
        have i: "at ?p (vm_pc w') (Instruction_new Op_Jump (usize_as_i32 (vm_pc v)) 0)" using jump r(4) by simp
        show "tracks ?p m w' (exec_while p cond ss t') (finishes p m f base A w' (vm_stack v) (?jump + 1))"
        proof (rule jump_tracks [OF i relatedD(4) [OF rel'] start])
          fix u assume u: "arrives p m f base A w' (vm_stack w') (vm_pc v) t' u"
          have ru: "related p m (var_sizes f) G f (fst E) base A t' u" by (rule related_arrives [OF rel' t'(1) u])
          from u r(3) have u': "vm_pc u = vm_pc v" "vm_stack u = vm_stack v" by (simp_all add: arrives_def)
          from again [OF h(1) False r(1) refl t'(2) ru] code u' len
          have "tracks ?p m u (exec_while p cond ss t') (finishes p m f base A u (vm_stack v) (?jump + 1))"
            by (simp add: while_tracks_def del: stmt_code.simps)
          then show "tracks ?p m u (exec_while p cond ss t') (finishes p m f base A w' (vm_stack v) (?jump + 1))"
            by (rule tracks_later [OF arrives_within [OF u relatedD(4) [OF rel']]])
        qed
      qed
      with False show ?thesis by simp
    qed
  qed
  then show ?thesis unfolding while_tracks_def len exec_while.simps [of p cond ss s] .
qed

section \<open>Calls\<close>

lemma code_at_entry:
  assumes c: "compilable c p" and g: "g \<in> set (p_functions p)" and m: "c \<or> fn_name g \<noteq> ''main''"
  obtains i entry where "snd (program_env p) (fn_name g) = Some i" "i < 2147483648"
    "fun_lookup (direct_program p) i = Some (info_of i entry g)"
    "code_at (direct_program p) entry (stmts_code (param_env g) (program_env p) entry (fn_body g) @
       [Instruction_new Op_LoadConst 0 0, Instruction_new Op_Return 0 0])"
proof -
  obtain i entry where h: "snd (program_env p) (fn_name g) = Some i" "i < length (instructions (direct_program p))"
    "fun_lookup (direct_program p) i = Some (info_of i entry g)"
    "code_at (direct_program p) entry (function_code (p_globals p) (program_env p) entry g)"
    by (rule program_function [OF compilable_typed [OF c] g])
  have none: "list_all (\<lambda>x. gv_init x = None) gs \<Longrightarrow> init_code L e pc gs = []" for L e pc gs
    by (induction gs) auto
  have "prologue_code (p_globals p) (program_env p) entry g = []"
    using c m by (auto simp: prologue_code_def compilable_def no_inits_def intro: none)
  with h show ?thesis
    using c by (intro that [of i entry]) (simp_all add: function_code_def Let_def compilable_def limit_defs)
qed

text \<open>A body, from the entry of its function to the return, and back in the caller.\<close>

lemma body_returns:
  assumes c: "compilable c p" and rel: "state_rel p m f base A s v" and g: "g \<in> set (p_functions p)"
    and at: "vm_pc v < length (instructions (direct_program p))"
    and e: "entered p m f base v st g i entry (push_frame g args s) w" and gl: "globals_fit p (os_globals s)"
    and args: "length args = length (fn_params g)"
    and code: "code_at (direct_program p) entry (stmts_code (param_env g) (program_env p) entry (fn_body g) @
       [Instruction_new Op_LoadConst 0 0, Instruction_new Op_Return 0 0])"
    and body: "\<And>base A v. related p m (var_sizes g) (body_env p g) g (fst (param_env g)) base A (push_frame g args s) v \<Longrightarrow>
      code_at (direct_program p) (vm_pc v) (stmts_code (param_env g) (program_env p) (vm_pc v) (fn_body g)) \<Longrightarrow>
      block_tracks p m g base A (param_env g) (fn_body g) (push_frame g args s) v"
  shows "tracks (direct_program p) m w
    (bnd (exec_block p (fn_body g) (push_frame g args s)) (\<lambda>ctl s. (Inr (returned ctl), pop_frame s)))
    (\<lambda>x t w. arrives p m f base A v (x # st) (vm_pc v + 1) t w)"
proof -
  let ?p = "direct_program p" and ?s = "push_frame g args s" and ?b = "base + snd (frame_env f)" and ?A = "vlen (vm_locals v)"
  note facts = function_facts [OF compilable_typed [OF c] g]
  have ty: "typed_state p (var_sizes g) (body_env p g) ?s"
    by (rule pushed_typed [OF compilable_typed [OF c] g gl]) (simp add: args)
  have "covers (var_sizes g) (body_env p g) g (fst (param_env g))"
  proof (rule covers_frame; intro allI impI)
    fix n l assume "fst (param_env g) n = Some l"
    then show "fst (frame_env g) n = Some l"
      using bind_locals_le(2) [of "param_env g" "fn_body g"] by (simp add: env_le_def frame_env_def)
  next
    fix n assume "body_env p g n \<noteq> None" "var_sizes g n \<noteq> None"
    then have "n \<in> par_name ` set (fn_params g)"
      using facts(4) [of n] fold_bind_param(1) [of "fn_params g" "top_env p" n] by (auto simp: body_env_def split: if_splits)
    then show "fst (param_env g) n \<noteq> None" unfolding param_env_dom [symmetric] by auto
  qed
  with ty e have r: "related p m (var_sizes g) (body_env p g) g (fst (param_env g)) ?b ?A ?s w"
    and w: "vm_pc w = entry" "vm_stack w = st" by (simp_all add: related_def entered_def)
  let ?n = "length (stmts_code (param_env g) (program_env p) entry (fn_body g))"
  have b: "tracks ?p m w (exec_block p (fn_body g) ?s) (finishes p m g ?b ?A w st (entry + ?n))"
    using body [OF r] code_at_append [OF code] w by (simp add: block_tracks_def)
  have tail: "code_at ?p (entry + ?n) [Instruction_new Op_LoadConst 0 0, Instruction_new Op_Return 0 0]"
    using code_at_append [OF code] by simp
  have ne: "os_frames ?s \<noteq> []" by (simp add: push_frame_def)
  show ?thesis
  proof (rule tracks_bnd [OF b])
    fix ctl t u
    assume h: "exec_block p (fn_body g) ?s = (Inr ctl, t)" "finishes p m g ?b ?A w st (entry + ?n) ctl t u"
    from execution_safe(4) [OF compilable_typed [OF c] facts(1,2,3) ty ne] h(1)
    have mv: "i32_control ctl" "moves p (var_sizes g) ?s t" by (auto simp: block_safe_def)
    then have frames: "tl (os_frames t) = os_frames s" by (simp add: moves_def push_frame_def)
    have pc: "vm_pc v + 1 < usize_max" using c at by (simp add: compilable_def limit_defs usize_max_def)
    from h(2) have u: "state_rel p m g ?b ?A t u" "vm_calls u = vm_calls w" "keeps ?b ?A w u" by (simp_all add: finishes_def)
    show "tracks ?p m u (Inr (returned ctl), pop_frame t) (\<lambda>x t w. arrives p m f base A v (x # st) (vm_pc v + 1) t w)"
    proof (cases ctl)
      case (CReturn x)
      with mv(1) h(2) have x: "returned ctl = x" "vm_stack u = x # st" "at ?p (vm_pc u) (Instruction_new Op_Return 0 0)"
        by (simp_all add: returned_def finishes_def)
      show ?thesis unfolding x(1) by (rule return_tracks [OF rel e u(1) u(3,2) x(2,3) frames pc])
    next
      case CContinue
      with finishes_at h(2) have u': "vm_stack u = st" "vm_pc u = entry + ?n" by auto
      have i: "at ?p (vm_pc u) (Instruction_new Op_LoadConst 0 0)" and j: "at ?p (vm_pc u + 1) (Instruction_new Op_Return 0 0)"
        using tail u'(2) by (auto dest!: code_at_Cons)
      have ret: "returned ctl = 0" by (simp add: CContinue returned_def normalize_i32_id)
      show ?thesis
        unfolding ret
      proof (rule tracks_then [OF const_tracks [OF i u(1)]], elim conjE)
        fix x assume x: "arrives p m g ?b ?A u (0 # vm_stack u) (vm_pc u + 1) t x"
        then have x': "vm_stack x = 0 # st" "at ?p (vm_pc x) (Instruction_new Op_Return 0 0)" "vm_calls x = vm_calls w"
          using u' u(2) j by (simp_all add: arrives_def)
        have "within ?b ?A w x"
          by (rule within_trans [OF finishes_within [OF h(2)] arrives_within [OF x u(1)]])
        then have k: "keeps ?b ?A w x" by (simp add: within_def)
        show "tracks ?p m x (Inr 0, pop_frame t) (\<lambda>x t w. arrives p m f base A v (x # st) (vm_pc v + 1) t w)"
          by (rule return_tracks [OF rel e arrives_rel [OF x] k x'(3,1,2) frames pc])
      qed
    qed
  qed
qed

end
