(* ===== verification/Code_Simulation.thy ===== *)
theory Code_Simulation
  imports Code_Control
begin

text \<open>
  The simulation of the interpreter by the machine that runs the compiled code, by induction over the
  recursion of the interpreter.
\<close>

lemma call_case:
  assumes c: "compilable c p" and y: "function_env p name = Some y" and len: "length args = length (sym_param_types y)"
    and args: "\<forall>x \<in> set args. is_i32 x" and gl: "globals_fit p (os_globals s)" and m: "c \<or> name \<noteq> ''main''"
    and rel: "state_rel p m f base A s v" and st: "vm_stack v = rev args @ st"
    and at: "at (direct_program p) (vm_pc v)
      (Instruction_new Op_Call (usize_as_i32 (the (snd (program_env p) name))) (usize_as_i32 (length args)))"
    and body: "\<And>t g base A v. tick s = (Inr (), t) \<Longrightarrow> \<not> MAX_FRAMES \<le> length (os_frames t) \<Longrightarrow>
      function_named p name = Some g \<Longrightarrow> \<not> length args \<noteq> length (fn_params g) \<Longrightarrow>
      g \<in> set (p_functions p) \<Longrightarrow>
      related p m (var_sizes g) (body_env p g) g (fst (param_env g)) base A (push_frame g args t) v \<Longrightarrow>
      code_at (direct_program p) (vm_pc v) (stmts_code (param_env g) (program_env p) (vm_pc v) (fn_body g)) \<Longrightarrow>
      block_tracks p m g base A (param_env g) (fn_body g) (push_frame g args t) v"
  shows "tracks (direct_program p) m v (call_function p name args s)
    (\<lambda>x t w. arrives p m f base A v (x # st) (vm_pc v + 1) t w)"
proof -
  let ?p = "direct_program p"
  obtain g where g: "g \<in> set (p_functions p)" "fn_name g = name" "function_named p name = Some g"
    "sym_param_types y = map par_type (fn_params g)"
    by (rule function_env_Some [OF compilable_typed [OF c] y])
  from g(4) len have n: "length args = length (fn_params g)" by simp
  obtain i entry where i: "snd (program_env p) (fn_name g) = Some i" "i < 2147483648"
    "fun_lookup ?p i = Some (info_of i entry g)"
    "code_at ?p entry (stmts_code (param_env g) (program_env p) entry (fn_body g) @
       [Instruction_new Op_LoadConst 0 0, Instruction_new Op_Return 0 0])"
    by (rule code_at_entry [OF c g(1)]) (use m g(2) in simp_all)
  have call: "at ?p (vm_pc v) (Instruction_new Op_Call (usize_as_i32 i) (usize_as_i32 (length args)))"
    using at i(1) g(2) by simp
  have pc: "vm_pc v < length (instructions ?p)" using at by (simp add: at_def)
  show ?thesis
    unfolding call_function.simps
  proof (rule tracks_tick)
    fix t assume t: "tick s = (Inr (), t)" "t = s\<lparr>os_cycles := os_cycles s + 1\<rparr>"
    then have rt: "state_rel p m f base A t v" and gt: "globals_fit p (os_globals t)"
      using state_rel_tick [OF rel] gl by (simp_all add: tick_Inr)
    let ?r = "if MAX_FRAMES \<le> length (os_frames t)
        then (Inl (Trap StackOverflow (fmt [''Call stack overflow (max '', show_nat MAX_FRAMES, '' frames)''])), t)
        else bnd (exec_block p (fn_body g) (push_frame g args t)) (\<lambda>ctl s. (Inr (returned ctl), pop_frame s))"
    have "tracks ?p m v ?r (\<lambda>x t w. arrives p m f base A v (x # st) (vm_pc v + 1) t w)"
    proof (rule call_tracks [OF compilable_typed [OF c] rt g(1) i(2,3) call n args st])
      fix w assume frames: "length (vm_calls v) < MAX_FRAMES" and e: "entered p m f base v st g i entry (push_frame g args t) w"
      from frames rt have room: "\<not> MAX_FRAMES \<le> length (os_frames t)" by (simp add: state_rel_def)
      have "tracks ?p m w (bnd (exec_block p (fn_body g) (push_frame g args t)) (\<lambda>ctl s. (Inr (returned ctl), pop_frame s)))
          (\<lambda>x t w. arrives p m f base A v (x # st) (vm_pc v + 1) t w)"
        by (rule body_returns [OF c rt g(1) pc e gt n i(4)])
          (rule body [OF t(1) room g(3) _ g(1)], simp_all add: n)
      with room show "tracks ?p m w ?r (\<lambda>x t w. arrives p m f base A v (x # st) (vm_pc v + 1) t w)" by simp
    qed
    then show "tracks ?p m v (if MAX_FRAMES \<le> length (os_frames t)
          then (Inl (Trap StackOverflow (fmt [''Call stack overflow (max '', show_nat MAX_FRAMES, '' frames)''])), t)
          else case function_named p name of
            None \<Rightarrow> (Inl (Trap UndefinedFunction (fmt [''Undefined function '', name])), t)
          | Some f \<Rightarrow>
              if length args \<noteq> length (fn_params f)
              then (Inl (Trap InvalidInstruction
                      (fmt [''Call has '', show_nat (length args), '' arguments but function '', name,
                            '' expects '', show_nat (length (fn_params f))])), t)
              else bnd (exec_block p (fn_body f) (push_frame f args t)) (\<lambda>ctl s. (Inr (returned ctl), pop_frame s)))
        (\<lambda>x t w. arrives p m f base A v (x # st) (vm_pc v + 1) t w)"
      by (simp only: g(3) n option.case simp_thms if_False)
  qed
qed

text \<open>Reading an element: a negative index is an error of its own.\<close>

lemma index_case:
  assumes c: "compilable c p" and e: "type_of G (function_env p) i = Some ty" "expr_plain c i"
    and rel: "related p m V G f L base A s v" and tr: "value_tracks p m f base A L i s v"
    and y: "G n = Some y" "\<not> sym_is_function y" "sym_is_array y"
    and code: "code_at (direct_program p) (vm_pc v) (code_of p L v (E_ArrayIndex n i sp))"
  shows "tracks (direct_program p) m v
    (bnd (eval_expr p i s) (\<lambda>raw s. bnd (lift_res (checked_array_index raw) s) (\<lambda>k s. lift_res (read_array n k s) s)))
    (\<lambda>x t w. arrives p m f base A v (x # vm_stack v) (vm_pc v + length (code_of p L v (E_ArrayIndex n i sp))) t w)"
proof (rule value_step [OF c e rel tr])
  let ?p = "direct_program p" and ?load = "array_load_code L (program_env p) n"
  fix raw t w
  assume h: "related p m V G f L base A t w"
    "arrives p m f base A v (raw # vm_stack v) (vm_pc v + length (code_of p L v i)) t w"
    "vm_stack w = raw # vm_stack v" "vm_pc w = vm_pc v + length (code_of p L v i)"
  have load: "code_at ?p (vm_pc w) ?load"
    using code_at_append [of ?p "vm_pc v" "code_of p L v i" ?load] code h(4) by simp
  show "tracks ?p m w (bnd (lift_res (checked_array_index raw) t) (\<lambda>k s. lift_res (read_array n k s) s))
      (\<lambda>x t w. arrives p m f base A v (x # vm_stack v) (vm_pc v + length (code_of p L v (E_ArrayIndex n i sp))) t w)"
  proof (cases "raw < 0")
    case True
    from negative_index [OF True] show ?thesis by (simp add: checked_array_index_def True tracks_incomparable)
  next
    case False
    then have st: "vm_stack w = int (nat raw) # vm_stack v" using h(3) by simp
    have "tracks ?p m w (read_array n (nat raw) t, t)
        (\<lambda>x t w. arrives p m f base A v (x # vm_stack v) (vm_pc v + length (code_of p L v (E_ArrayIndex n i sp))) t w)"
    proof (rule tracks_mono [OF array_load_tracks [OF compilable_typed [OF c] relatedD(4,1) [OF h(1)] y relatedD(2,3) [OF h(1)]
          load st]])
      fix x t' w'
      assume "t' = t \<and> arrives p m f base A w (x # vm_stack v) (vm_pc w + length ?load) t' w'"
      then have "arrives p m f base A v (x # vm_stack v) (vm_pc w + length ?load) t' w'"
        using arrives_trans [OF h(2)] by blast
      with h(4) show "arrives p m f base A v (x # vm_stack v) (vm_pc v + length (code_of p L v (E_ArrayIndex n i sp))) t' w'"
        by (simp add: add.assoc)
    qed
    with False show ?thesis by (simp add: checked_array_index_def)
  qed
qed

definition args_track ::
  "program \<Rightarrow> nat \<Rightarrow> func \<Rightarrow> nat \<Rightarrow> nat \<Rightarrow> (string \<Rightarrow> local_var option) \<Rightarrow> expr list \<Rightarrow> ast_oracle \<Rightarrow> vm \<Rightarrow> bool" where
  "args_track p m f base A L es s v \<longleftrightarrow>
     tracks (direct_program p) m v (eval_args p es s)
       (\<lambda>xs t w. arrives p m f base A v (rev xs @ vm_stack v)
          (vm_pc v + length (args_code L (program_env p) (vm_pc v) es)) t w)"

lemma args_case:
  assumes c: "compilable c p" and e: "type_of G (function_env p) a = Some ty" "expr_plain c a"
    and rel: "related p m V G f L base A s v" and tr: "value_tracks p m f base A L a s v"
    and code: "code_at (direct_program p) (vm_pc v) (args_code L (program_env p) (vm_pc v) (a # as))"
    and rest: "\<And>x t w. eval_expr p a s = (Inr x, t) \<Longrightarrow> related p m V G f L base A t w \<Longrightarrow>
      code_at (direct_program p) (vm_pc w) (args_code L (program_env p) (vm_pc w) as) \<Longrightarrow> args_track p m f base A L as t w"
  shows "args_track p m f base A L (a # as) s v"
  unfolding args_track_def eval_args.simps
proof (rule value_step [OF c e rel tr])
  let ?p = "direct_program p"
  fix x t w
  assume h: "eval_expr p a s = (Inr x, t)" "related p m V G f L base A t w"
    "arrives p m f base A v (x # vm_stack v) (vm_pc v + length (code_of p L v a)) t w"
    "vm_stack w = x # vm_stack v" "vm_pc w = vm_pc v + length (code_of p L v a)"
  have split: "args_code L (program_env p) (vm_pc v) (a # as) = code_of p L v a @ args_code L (program_env p) (vm_pc w) as"
    using h(5) by (simp add: Let_def)
  have "code_at ?p (vm_pc w) (args_code L (program_env p) (vm_pc w) as)"
    using code_at_append [OF code [unfolded split]] h(5) by simp
  note r = rest [OF h(1,2) this, unfolded args_track_def]
  have pc: "vm_pc v + length (args_code L (program_env p) (vm_pc v) (a # as)) =
      vm_pc w + length (args_code L (program_env p) (vm_pc w) as)" unfolding split using h(5) by simp
  show "tracks ?p m w (bnd (eval_args p as t) (\<lambda>xs s. (Inr (x # xs), s)))
      (\<lambda>xs t w. arrives p m f base A v (rev xs @ vm_stack v)
        (vm_pc v + length (args_code L (program_env p) (vm_pc v) (a # as))) t w)"
    unfolding pc
  proof (rule tracks_bnd [OF r])
    fix xs t' w'
    assume "arrives p m f base A w (rev xs @ vm_stack w) (vm_pc w + length (args_code L (program_env p) (vm_pc w) as)) t' w'"
    from arrives_trans [OF h(3) this] h(4)
    show "tracks ?p m w' (Inr (x # xs), t') (\<lambda>xs t u. arrives p m f base A v (rev xs @ vm_stack v)
        (vm_pc w + length (args_code L (program_env p) (vm_pc w) as)) t u)"
      by (intro tracks_Inr) simp
  qed
qed


section \<open>The simulation\<close>

lemma frame_env_body: "env_le (bind_locals_list (fn_body f) (param_env f)) (frame_env f)"
  by (simp add: frame_env_def)

lemma simulation:
  "compilable c p \<Longrightarrow> type_of G (function_env p) e = Some ty \<Longrightarrow> expr_plain c e \<Longrightarrow> related p m V G f L base A s v \<Longrightarrow>
     code_at (direct_program p) (vm_pc v) (code_of p L v e) \<Longrightarrow> value_tracks p m f base A L e s v"
  "compilable c p \<Longrightarrow> args_ok G (function_env p) es ts \<Longrightarrow> args_plain c es \<Longrightarrow> related p m V G f L base A s v \<Longrightarrow>
     code_at (direct_program p) (vm_pc v) (args_code L (program_env p) (vm_pc v) es) \<Longrightarrow> args_track p m f base A L es s v"
  "compilable c p \<Longrightarrow> function_env p name = Some y \<Longrightarrow> length args = length (sym_param_types y) \<Longrightarrow>
     \<forall>x \<in> set args. is_i32 x \<Longrightarrow> globals_fit p (os_globals s) \<Longrightarrow> c \<or> name \<noteq> ''main'' \<Longrightarrow>
     state_rel p m f base A s v \<Longrightarrow> vm_stack v = rev args @ st \<Longrightarrow>
     at (direct_program p) (vm_pc v)
       (Instruction_new Op_Call (usize_as_i32 (the (snd (program_env p) name))) (usize_as_i32 (length args))) \<Longrightarrow>
     tracks (direct_program p) m v (call_function p name args s)
       (\<lambda>x t w. arrives p m f base A v (x # st) (vm_pc v + 1) t w)"
  "compilable c p \<Longrightarrow> stmts_ok G (function_env p) ss \<Longrightarrow> stmts_plain c ss \<Longrightarrow>
     decls_fit (var_sizes f) (decls_of_list ss) \<Longrightarrow> related p m (var_sizes f) G f (fst E) base A s v \<Longrightarrow> os_frames s \<noteq> [] \<Longrightarrow>
     env_le (bind_locals_list ss E) (frame_env f) \<Longrightarrow>
     code_at (direct_program p) (vm_pc v) (stmts_code E (program_env p) (vm_pc v) ss) \<Longrightarrow> block_tracks p m f base A E ss s v"
  "compilable c p \<Longrightarrow> stmt_ok G (function_env p) stm \<Longrightarrow> stmt_plain c stm \<Longrightarrow>
     decls_fit (var_sizes f) (decls_of stm) \<Longrightarrow> related p m (var_sizes f) G f (fst E) base A s v \<Longrightarrow> os_frames s \<noteq> [] \<Longrightarrow>
     env_le (bind_locals stm E) (frame_env f) \<Longrightarrow>
     code_at (direct_program p) (vm_pc v) (stmt_code E (program_env p) (vm_pc v) stm) \<Longrightarrow> stmt_tracks p m f base A E stm s v"
  "compilable c p \<Longrightarrow> condition_ok G (function_env p) cond \<Longrightarrow> expr_plain c cond \<Longrightarrow>
     stmts_ok G (function_env p) body \<Longrightarrow> stmts_plain c body \<Longrightarrow> decls_fit (var_sizes f) (decls_of_list body) \<Longrightarrow>
     related p m (var_sizes f) G f (fst E) base A s v \<Longrightarrow> os_frames s \<noteq> [] \<Longrightarrow>
     env_le (bind_locals_list body E) (frame_env f) \<Longrightarrow>
     code_at (direct_program p) (vm_pc v) (stmt_code E (program_env p) (vm_pc v) (S_While cond body sp)) \<Longrightarrow>
     while_tracks p m f base A E cond body sp s v"
proof (induction p e s and p es s and p name args s and p ss s and p stm s and p cond body s
    arbitrary: G V f L base A v ty and G V f L base A v ts and f base A v y st and G f E base A v and G f E base A v
      and G f E base A v sp
    rule: eval_expr_eval_args_call_function_exec_block_exec_stmt_exec_while.induct)
  case (1 p x sp s)
  from "1.prems"(5) have i: "at (direct_program p) (vm_pc v) (Instruction_new Op_LoadConst x 0)" by (auto dest: code_at_Cons)
  show ?case
    unfolding value_tracks_def eval_expr.simps
  proof (rule tracks_ticked [OF "1.prems"(4)])
    fix t assume "related p m V G f L base A t v"
    from const_tracks [OF i relatedD(4) [OF this]]
    show "tracks (direct_program p) m v (Inr x, t)
        (\<lambda>xa t w. arrives p m f base A v (xa # vm_stack v) (vm_pc v + length (code_of p L v (E_IntLiteral x sp))) t w)"
      by (rule tracks_mono) simp
  qed
next
  case (2 p b sp s)
  from "2.prems"(5) have i: "at (direct_program p) (vm_pc v) (Instruction_new Op_LoadConst (truth b) 0)"
    by (auto simp: truth_def dest: code_at_Cons)
  show ?case
    unfolding value_tracks_def eval_expr.simps
  proof (rule tracks_ticked [OF "2.prems"(4)])
    fix t assume "related p m V G f L base A t v"
    from const_tracks [OF i relatedD(4) [OF this]]
    show "tracks (direct_program p) m v (Inr (truth b), t)
        (\<lambda>x t w. arrives p m f base A v (x # vm_stack v) (vm_pc v + length (code_of p L v (E_BoolLiteral b sp))) t w)"
      by (rule tracks_mono) simp
  qed
next
  case (3 p name sp s)
  from "3.prems"(2) obtain y where y: "G name = Some y" "\<not> sym_is_function y" "\<not> sym_is_array y"
    by (auto split: option.splits if_splits)
  show ?case
    unfolding value_tracks_def eval_expr.simps lift_res_def
  proof (rule tracks_ticked [OF "3.prems"(4)])
    fix t assume t: "related p m V G f L base A t v"
    from load_tracks [OF compilable_typed [OF "3.prems"(1)] relatedD(4,1) [OF t] y relatedD(2,3) [OF t]] "3.prems"(5)
    have "tracks (direct_program p) m v (read_scalar name t, t) (\<lambda>x u w. u = t \<and>
        arrives p m f base A v (x # vm_stack v) (vm_pc v + length (code_of p L v (E_Identifier name sp))) u w)" by simp
    then show "tracks (direct_program p) m v (read_scalar name t, t)
        (\<lambda>x t w. arrives p m f base A v (x # vm_stack v) (vm_pc v + length (code_of p L v (E_Identifier name sp))) t w)"
      by (rule tracks_mono) blast
  qed
next
  case (4 p op l r sp s)
  from "4.prems"(2) obtain lt rt where t: "type_of G (function_env p) l = Some lt" "type_of G (function_env p) r = Some rt"
    by (auto split: option.splits if_splits)
  from "4.prems"(3) have pl: "expr_plain c l" "expr_plain c r" by simp_all
  have cl: "code_at (direct_program p) (vm_pc v) (code_of p L v l)"
    using "4.prems"(5) by (auto simp: Let_def split: if_splits dest: code_at_append)
  show ?case
    unfolding value_tracks_def eval_expr.simps
  proof (rule tracks_ticked [OF "4.prems"(4)])
    fix s1 assume s1: "tick s = (Inr (), s1)" and rel: "related p m V G f L base A s1 v"
    note l = "4.IH"(1) [OF s1 "4.prems"(1) t(1) pl(1) rel cl]
    let ?goal = "\<lambda>x t w. arrives p m f base A v (x # vm_stack v) (vm_pc v + length (code_of p L v (E_Binary op l r sp))) t w"
    let ?run = "bnd (eval_expr p l s1) (\<lambda>a s.
        if op = Bin_And then if a = 0 then (Inr 0, s) else bnd (eval_expr p r s) (\<lambda>b s. (Inr (truth (b \<noteq> 0)), s))
        else if op = Bin_Or then if a \<noteq> 0 then (Inr 1, s) else bnd (eval_expr p r s) (\<lambda>b s. (Inr (truth (b \<noteq> 0)), s))
        else bnd (eval_expr p r s) (\<lambda>b s. lift_res (eval_binary op a b) s))"
    show "tracks (direct_program p) m v ?run ?goal"
    proof (cases "op = Bin_And \<or> op = Bin_Or")
      case True
      have "?run = bnd (eval_expr p l s1) (\<lambda>a s. if decides op a then (Inr (decided op), s)
          else bnd (eval_expr p r s) (\<lambda>b s. (Inr (truth (b \<noteq> 0)), s)))"
        using True by (auto simp: decides_def decided_def cong: if_cong)
      also have "tracks (direct_program p) m v \<dots> ?goal"
      proof (rule logical_case [OF "4.prems"(1) t pl rel "4.prems"(5) True l])
        fix a t w
        assume h: "eval_expr p l s1 = (Inr a, t)" "\<not> decides op a" "related p m V G f L base A t w"
          "code_at (direct_program p) (vm_pc w) (code_of p L w r)"
        from True show "value_tracks p m f base A L r t w"
        proof
          assume o: "op = Bin_And"
          show ?thesis
            by (rule "4.IH"(2) [OF s1 h(1) o _ "4.prems"(1) \<open>type_of G (function_env p) r = Some rt\<close> pl(2) h(3,4)])
              (use h(2) o in \<open>simp add: decides_def\<close>)
        next
          assume o: "op = Bin_Or"
          show ?thesis
            by (rule "4.IH"(3) [OF s1 h(1) _ o _ "4.prems"(1) \<open>type_of G (function_env p) r = Some rt\<close> pl(2) h(3,4)])
              (use h(2) o in \<open>simp_all add: decides_def\<close>)
        qed
      qed
      finally show ?thesis .
    next
      case False
      then have op: "op \<noteq> Bin_And" "op \<noteq> Bin_Or" by simp_all
      have "tracks (direct_program p) m v
          (bnd (eval_expr p l s1) (\<lambda>a s. bnd (eval_expr p r s) (\<lambda>b s. lift_res (eval_binary op a b) s))) ?goal"
        by (rule binary_case [OF "4.prems"(1) t pl rel "4.prems"(5) op l])
          (rule "4.IH"(4) [OF s1 _ op "4.prems"(1) t(2) pl(2)])
      then show ?thesis by (simp only: op if_False)
    qed
  qed
next
  case (5 p op e sp s)
  from "5.prems"(2) obtain t where t: "type_of G (function_env p) e = Some t" by (auto split: option.splits)
  from "5.prems"(3) have pl: "expr_plain c e" by simp
  let ?i = "Instruction_new (unary_opcode op) 0 0"
  have code: "code_at (direct_program p) (vm_pc v) (code_of p L v e @ [?i])" using "5.prems"(5) by simp
  have ce: "code_at (direct_program p) (vm_pc v) (code_of p L v e)" using code_at_append [OF code] by simp
  show ?case
    unfolding value_tracks_def eval_expr.simps
  proof (rule tracks_ticked [OF "5.prems"(4)])
    fix s1 assume s1: "tick s = (Inr (), s1)" and rel: "related p m V G f L base A s1 v"
    show "tracks (direct_program p) m v (bnd (eval_expr p e s1) (\<lambda>a. lift_res (eval_unary op a)))
        (\<lambda>x t w. arrives p m f base A v (x # vm_stack v) (vm_pc v + length (code_of p L v (E_Unary op e sp))) t w)"
    proof (rule value_step [OF "5.prems"(1) t pl rel "5.IH" [OF s1 "5.prems"(1) t pl rel ce]])
      fix a s2 w
      assume h: "is_i32 a" "related p m V G f L base A s2 w"
        "arrives p m f base A v (a # vm_stack v) (vm_pc v + length (code_of p L v e)) s2 w"
        "vm_stack w = a # vm_stack v" "vm_pc w = vm_pc v + length (code_of p L v e)"
      have i: "at (direct_program p) (vm_pc w) ?i"
        using code_at_Cons [OF conjunct2 [OF code_at_append [OF code]]] h(5) by simp
      show "tracks (direct_program p) m w (lift_res (eval_unary op a) s2)
          (\<lambda>x t w. arrives p m f base A v (x # vm_stack v) (vm_pc v + length (code_of p L v (E_Unary op e sp))) t w)"
        unfolding lift_res_def
        by (rule tracks_mono [OF unary_tracks [OF i relatedD(4) [OF h(2)] h(4,1)]])
          (use arrives_trans [OF h(3)] h(5) in \<open>auto simp: add.assoc\<close>)
    qed
  qed
next
  case (6 p name args sp s)
  from "6.prems"(2) obtain y where y: "function_env p name = Some y" "args_ok G (function_env p) args (sym_param_types y)"
    by (auto split: option.splits if_splits)
  from "6.prems"(3) have pl: "args_plain c args" and m: "c \<or> name \<noteq> ''main''" by simp_all
  let ?ca = "args_code L (program_env p) (vm_pc v) args"
  let ?i = "Instruction_new Op_Call (usize_as_i32 (the (snd (program_env p) name))) (usize_as_i32 (length args))"
  have code: "code_at (direct_program p) (vm_pc v) (?ca @ [?i])" using "6.prems"(5) by simp
  have ca: "code_at (direct_program p) (vm_pc v) ?ca" using code_at_append [OF code] by simp
  show ?case
    unfolding value_tracks_def eval_expr.simps
  proof (rule tracks_ticked [OF "6.prems"(4)])
    fix s1 assume s1: "tick s = (Inr (), s1)" and rel: "related p m V G f L base A s1 v"
    note a = "6.IH"(1) [OF s1 "6.prems"(1) y(2) pl rel ca, unfolded args_track_def]
    show "tracks (direct_program p) m v (bnd (eval_args p args s1) (call_function p name))
        (\<lambda>x t w. arrives p m f base A v (x # vm_stack v) (vm_pc v + length (code_of p L v (E_Call name args sp))) t w)"
    proof (rule tracks_bnd [OF a])
      fix vs s2 w
      assume vs: "eval_args p args s1 = (Inr vs, s2)" and w: "arrives p m f base A v (rev vs @ vm_stack v) (vm_pc v + length ?ca) s2 w"
      from execution_safe(2) [OF compilable_typed [OF "6.prems"(1)] y(2) pl relatedD(1) [OF rel]] vs
      have t: "length vs = length args" "\<forall>x \<in> set vs. is_i32 x" "typed_state p V G s2" by (auto simp: args_safe_def)
      have len: "length vs = length (sym_param_types y)" using args_ok_length [OF y(2)] t(1) by simp
      have i: "at (direct_program p) (vm_pc w)
          (Instruction_new Op_Call (usize_as_i32 (the (snd (program_env p) name))) (usize_as_i32 (length vs)))"
        using code_at_Cons [OF conjunct2 [OF code_at_append [OF code]]] w t(1) by (simp add: arrives_def)
      have st: "vm_stack w = rev vs @ vm_stack v" and pc: "vm_pc w = vm_pc v + length ?ca" using w by (simp_all add: arrives_def)
      note call = "6.IH"(2) [OF s1 vs "6.prems"(1) y(1) len t(2) typed_globals_fit [OF t(3)] m arrives_rel [OF w] st i]
      show "tracks (direct_program p) m w (call_function p name vs s2)
          (\<lambda>x t w. arrives p m f base A v (x # vm_stack v) (vm_pc v + length (code_of p L v (E_Call name args sp))) t w)"
        by (rule tracks_mono [OF call]) (use arrives_trans [OF w] pc in \<open>simp add: add.assoc\<close>)
    qed
  qed
next
  case (7 p name index sp s)
  from "7.prems"(2) obtain y t where y: "G name = Some y" "sym_is_array y" and t: "type_of G (function_env p) index = Some t"
    by (auto split: option.splits if_splits)
  from y relatedD(1) [OF "7.prems"(4)] have nf: "\<not> sym_is_function y" by (auto simp: typed_state_def env_fits_def)
  from "7.prems"(3) have pl: "expr_plain c index" by simp
  have ci: "code_at (direct_program p) (vm_pc v) (code_of p L v index)"
    using code_at_append [of "direct_program p" "vm_pc v" "code_of p L v index"] "7.prems"(5) by simp
  show ?case
    unfolding value_tracks_def eval_expr.simps
  proof (rule tracks_ticked [OF "7.prems"(4)])
    fix s1 assume s1: "tick s = (Inr (), s1)" and rel: "related p m V G f L base A s1 v"
    show "tracks (direct_program p) m v (bnd (eval_expr p index s1) (\<lambda>raw s.
        bnd (lift_res (checked_array_index raw) s) (\<lambda>i s. lift_res (read_array name i s) s)))
        (\<lambda>x t w. arrives p m f base A v (x # vm_stack v) (vm_pc v + length (code_of p L v (E_ArrayIndex name index sp))) t w)"
      by (rule index_case [OF "7.prems"(1) t pl rel "7.IH" [OF s1 "7.prems"(1) t pl rel ci] y(1) nf y(2) "7.prems"(5)])
  qed
next
  case (8 p s)
  then show ?case
    unfolding args_track_def by (auto simp: related_def arrives_def keeps_same intro!: tracks_Inr)
next
  case (9 p a as s)
  from "9.prems"(2) obtain t ts' where t: "type_of G (function_env p) a = Some t" "args_ok G (function_env p) as ts'"
    by (auto split: list.splits option.splits)
  from "9.prems"(3) have pl: "expr_plain c a" "args_plain c as" by simp_all
  have ca: "code_at (direct_program p) (vm_pc v) (code_of p L v a)"
    using "9.prems"(5) by (auto simp: Let_def dest: code_at_append)
  show ?case
    by (rule args_case [OF "9.prems"(1) t(1) pl(1) "9.prems"(4) "9.IH"(1) [OF "9.prems"(1) t(1) pl(1) "9.prems"(4) ca] "9.prems"(5)])
      (rule "9.IH"(2) [OF _ "9.prems"(1) t(2) pl(2)])
next
  case (10 p name args s)
  show ?case
  proof (rule call_case [OF "10.prems"(1-9)])
    fix t g base A v
    assume h: "tick s = (Inr (), t)" "\<not> MAX_FRAMES \<le> length (os_frames t)" "function_named p name = Some g"
      "\<not> length args \<noteq> length (fn_params g)" "g \<in> set (p_functions p)"
      "related p m (var_sizes g) (body_env p g) g (fst (param_env g)) base A (push_frame g args t) v"
      "code_at (direct_program p) (vm_pc v) (stmts_code (param_env g) (program_env p) (vm_pc v) (fn_body g))"
    note facts = function_facts [OF compilable_typed [OF "10.prems"(1)] h(5)]
    show "block_tracks p m g base A (param_env g) (fn_body g) (push_frame g args t) v"
      by (rule "10.IH" [OF h(1-4) "10.prems"(1) facts(1-3) h(6) _ frame_env_body h(7)]) (simp add: push_frame_def)
  qed
next
  case (11 p s)
  then show ?case
    unfolding block_tracks_def by (auto simp: related_def finishes_def keeps_same intro!: tracks_Inr)
next
  case (12 p stm ss s)
  from "12.prems"(2-4) have ok: "stmt_ok G (function_env p) stm" "stmt_plain c stm" "decls_fit (var_sizes f) (decls_of stm)"
    and rest: "stmts_ok (bind_stmt stm G) (function_env p) ss" "stmts_plain c ss" "decls_fit (var_sizes f) (decls_of_list ss)"
    by simp_all
  have E: "env_le (bind_locals stm E) (frame_env f)" and E': "env_le (bind_locals_list ss (bind_locals stm E)) (frame_env f)"
    using "12.prems"(7) env_le_trans [OF bind_locals_le(2)] by simp_all
  have cs: "code_at (direct_program p) (vm_pc v) (stmt_code E (program_env p) (vm_pc v) stm)"
    using "12.prems"(8) by (auto simp: Let_def dest: code_at_append)
  show ?case
    by (rule block_case [OF "12.prems"(1) ok "12.prems"(5,6) E "12.prems"(8)
        "12.IH"(1) [OF "12.prems"(1) ok "12.prems"(5,6) E cs]])
      (rule "12.IH"(2) [OF _ refl "12.prems"(1) rest _ _ E'])
next
  case (13 p t name init sz sp s)
  let ?G = "G(name \<mapsto> declared name t False sz)"
  from "13.prems"(2-4) have szok: "size_ok sz" and val: "value_ok ?G (function_env p) init t"
    and pl: "opt_plain c init" "i32_option sz" and V: "var_sizes f name = Some sz" by simp_all
  have E: "env_le (bind_local name sz E) (frame_env f)" using "13.prems"(7) by simp
  have code: "code_at (direct_program p) (vm_pc v) (decl_code E (program_env p) (vm_pc v) name init sz)"
    using "13.prems"(8) by simp
  show ?case
    unfolding stmt_tracks_def exec_stmt.simps stmt_code.simps
  proof (rule tracks_ticked [OF "13.prems"(5)])
    fix s1 assume s1: "tick s = (Inr (), s1)" "os_frames s1 = os_frames s" and rel: "related p m (var_sizes f) G f (fst E) base A s1 v"
    have ne: "os_frames s1 \<noteq> []" using s1(2) "13.prems"(6) by simp
    show "tracks (direct_program p) m v (case sz of
        Some n \<Rightarrow> bnd (lift_res (zero_array n) s1) (\<lambda>slot s. bnd (declare_or_update name slot s) continue)
      | None \<Rightarrow>
          (case init of
             Some e \<Rightarrow> bnd (ensure_declared name s1) (\<lambda>_ s. bnd (eval_expr p e s) (\<lambda>v s. bnd (assign_scalar name v s) continue))
           | None \<Rightarrow> bnd (ensure_declared name s1) continue))
        (finishes p m f base A v (vm_stack v) (vm_pc v + length (decl_code E (program_env p) (vm_pc v) name init sz)))"
    proof (cases sz)
      case (Some n)
      with szok pl have n: "0 < n" "is_i32 n" by (simp_all add: size_ok_def i32_option_def)
      have "vlen (vm_locals v) + 2147483648 \<le> MAX_LOCAL_SLOTS + os_cycles s1 * 2147483648"
        using s1(1) relatedD(4) [OF "13.prems"(5)] by (simp add: tick_Inr state_rel_def)
      from array_declaration [OF rel ne E [unfolded Some] V [unfolded Some] n this code [unfolded Some]] Some
      show ?thesis by simp
    next
      case None
      have "tracks (direct_program p) m v
          (case init of
             Some e \<Rightarrow> bnd (ensure_declared name s1) (\<lambda>_ s. bnd (eval_expr p e s) (\<lambda>v s. bnd (assign_scalar name v s) continue))
           | None \<Rightarrow> bnd (ensure_declared name s1) continue)
          (finishes p m f base A v (vm_stack v) (vm_pc v + length (decl_code E (program_env p) (vm_pc v) name init None)))"
      proof (rule scalar_declaration [where t = t, OF "13.prems"(1) rel ne E [unfolded None] V [unfolded None] _ _ code [unfolded None]])
        fix e assume e: "init = Some e"
        from val e None show typed: "(\<exists>ty. type_of (G(name \<mapsto> declared name t False None)) (function_env p) e = Some ty) \<and> expr_plain c e"
          using pl(1) by (auto simp: value_ok_def has_type_def opt_plain_def split: option.splits)
        fix u t' assume h: "ensure_declared name s1 = (Inr u, t')"
          "related p m (var_sizes f) (G(name \<mapsto> declared name t False None)) f (fst (bind_local name None E)) base A t' v"
          "code_at (direct_program p) (vm_pc v) (code_of p (fst (bind_local name None E)) v e)"
        from typed obtain ty where ty: "type_of (G(name \<mapsto> declared name t False None)) (function_env p) e = Some ty" "expr_plain c e"
          by blast
        show "value_tracks p m f base A (fst (bind_local name None E)) e t' v"
          by (rule "13.IH" [OF s1(1) None e h(1) "13.prems"(1) ty h(2,3)])
      qed
      with None show ?thesis by simp
    qed
  qed
next
  case (14 p target idx e sp s)
  from "14.prems"(2) obtain y where y: "G target = Some y" "\<not> sym_is_function y" "sym_is_array y \<longleftrightarrow> idx \<noteq> None"
    and ti: "case idx of None \<Rightarrow> True | Some i \<Rightarrow> has_type G (function_env p) i Ty_Int"
    and tv: "has_type G (function_env p) e (sym_type y)"
    by (auto simp: assign_ok_def split: option.splits)
  from tv obtain te where te: "type_of G (function_env p) e = Some te" by (auto simp: has_type_def split: option.splits)
  from "14.prems"(3) have pl: "opt_plain c idx" "expr_plain c e" by simp_all
  show ?case
    unfolding stmt_tracks_def exec_stmt.simps stmt_code.simps
  proof (rule tracks_ticked [OF "14.prems"(5)])
    fix s1 assume s1: "tick s = (Inr (), s1)" and rel: "related p m (var_sizes f) G f (fst E) base A s1 v"
    obtain j where j: "store_instr (fst E) (program_env p) target (idx \<noteq> None) = Some j"
      by (rule store_instr_Some [OF "14.prems"(1) rel y(1,2)])
    show "tracks (direct_program p) m v (case idx of
        Some i \<Rightarrow>
          bnd (eval_expr p i s1) (\<lambda>raw s.
          bnd (lift_res (checked_array_index raw) s) (\<lambda>index s.
          bnd (eval_expr p e s) (\<lambda>x s.
          bnd (assign_array target index x s) continue)))
      | None \<Rightarrow> bnd (eval_expr p e s1) (\<lambda>x s. bnd (assign_scalar target x s) continue))
        (finishes p m f base A v (vm_stack v) (vm_pc v + length (assign_code (fst E) (program_env p) (vm_pc v) target idx e)))"
    proof (cases idx)
      case None
      have split: "assign_code (fst E) (program_env p) (vm_pc v) target idx e = code_of p (fst E) v e @ [j]"
        using None j by (simp add: assign_code_def)
      have code: "code_at (direct_program p) (vm_pc v) (code_of p (fst E) v e @ [j])" using "14.prems"(8) by (simp add: split)
      have ce: "code_at (direct_program p) (vm_pc v) (code_of p (fst E) v e)" using code_at_append [OF code] by simp
      have na: "\<not> sym_is_array y" and j': "store_instr (fst E) (program_env p) target False = Some j"
        using y(3) None j by simp_all
      from scalar_case [OF "14.prems"(1) te pl(2) rel "14.IH"(1) [OF s1 None "14.prems"(1) te pl(2) rel ce] y(1,2) na j' code] None
      show ?thesis by (simp add: split [unfolded None])
    next
      case (Some i)
      with ti obtain ti' where ti': "type_of G (function_env p) i = Some ti'" by (auto simp: has_type_def split: option.splits)
      from pl Some have pli: "expr_plain c i" by (simp add: opt_plain_def)
      let ?ci = "code_of p (fst E) v i"
      have split: "assign_code (fst E) (program_env p) (vm_pc v) target idx e =
          ?ci @ expr_code (fst E) (program_env p) (vm_pc v + length ?ci) e @ [j]"
        using Some j by (simp add: assign_code_def Let_def)
      have code: "code_at (direct_program p) (vm_pc v) (?ci @ expr_code (fst E) (program_env p) (vm_pc v + length ?ci) e @ [j])"
        using "14.prems"(8) by (simp only: split stmt_code.simps)
      have ci: "code_at (direct_program p) (vm_pc v) ?ci" using code_at_append [OF code] by simp
      have ar: "sym_is_array y" and j': "store_instr (fst E) (program_env p) target True = Some j"
        using y(3) Some j by simp_all
      note tri = "14.IH"(2) [OF s1 Some "14.prems"(1) ti' pli rel ci]
      have "tracks (direct_program p) m v
          (bnd (eval_expr p i s1) (\<lambda>raw s. bnd (lift_res (checked_array_index raw) s) (\<lambda>index s.
             bnd (eval_expr p e s) (\<lambda>x s. bnd (assign_array target index x s) continue))))
          (finishes p m f base A v (vm_stack v) (vm_pc v +
            length (?ci @ expr_code (fst E) (program_env p) (vm_pc v + length ?ci) e @ [j])))"
      proof (rule element_case [OF "14.prems"(1) ti' pli te pl(2) rel tri _ y(1,2) ar j' code])
        fix raw t w
        assume h: "eval_expr p i s1 = (Inr raw, t)" "0 \<le> raw" "related p m (var_sizes f) G f (fst E) base A t w"
          "code_at (direct_program p) (vm_pc w) (code_of p (fst E) w e)"
        have chk: "lift_res (checked_array_index raw) t = (Inr (nat raw), t)" using h(2) by (simp add: checked_array_index_def)
        show "value_tracks p m f base A (fst E) e t w"
          by (rule "14.IH"(3) [OF s1 Some h(1) chk "14.prems"(1) te pl(2) h(3,4)])
      qed
      then show ?thesis unfolding split unfolding Some by simp
    qed
  qed
next
  case (15 p cond th el sp s)
  from "15.prems"(2) obtain tc where tc: "type_of G (function_env p) cond = Some tc"
    by (auto simp: condition_ok_def split: option.splits)
  from "15.prems"(2-4) have ok: "expr_plain c cond" "stmts_ok G (function_env p) th" "stmts_plain c th"
    "decls_fit (var_sizes f) (decls_of_list th)" by simp_all
  have cc: "code_at (direct_program p) (vm_pc v) (code_of p (fst E) v cond)"
    using "15.prems"(8) by (auto simp: Let_def split: option.splits dest: code_at_append)
  have Eth: "env_le (bind_locals_list th E) (frame_env f)"
    using "15.prems"(7) env_le_trans [OF bind_locals_le(2)] by (auto simp: Let_def split: option.splits)
  show ?case
    unfolding stmt_tracks_def exec_stmt.simps
  proof (rule tracks_ticked [OF "15.prems"(5)])
    fix s1 assume s1: "tick s = (Inr (), s1)" "os_frames s1 = os_frames s" and rel: "related p m (var_sizes f) G f (fst E) base A s1 v"
    have ne: "os_frames s1 \<noteq> []" using s1(2) "15.prems"(6) by simp
    note tr = "15.IH"(1) [OF s1(1) "15.prems"(1) tc ok(1) rel cc]
    note then_branch = "15.IH"(2) [OF s1(1) _ _ "15.prems"(1) ok(2-4) _ _ Eth]
    show "tracks (direct_program p) m v (bnd (eval_expr p cond s1) (\<lambda>v s. if v \<noteq> 0 then exec_block p th s
          else case el of Some ss \<Rightarrow> exec_block p ss s | None \<Rightarrow> (Inr CContinue, s)))
        (finishes p m f base A v (vm_stack v) (vm_pc v + stmt_length p E v (S_If cond th el sp)))"
    proof (cases el)
      case None
      show ?thesis
        unfolding None option.case
        by (rule if_case [OF "15.prems"(1) tc ok(1) rel ne tr "15.prems"(8) [unfolded None]])
          (rule then_branch)
    next
      case (Some ss)
      from Some "15.prems"(2-4,7) have el: "stmts_ok G (function_env p) ss" "stmts_plain c ss"
        "decls_fit (var_sizes f) (decls_of_list ss)" "env_le (bind_locals_list ss (bind_locals_list th E)) (frame_env f)"
        by (simp_all add: Let_def)
      show ?thesis
        unfolding Some option.case
        by (rule if_else_case [OF "15.prems"(1) tc ok(1) rel ne tr Eth "15.prems"(8) [unfolded Some]])
          (rule then_branch, assumption+, rule "15.IH"(3) [OF s1(1) _ _ Some "15.prems"(1) el(1-3) _ _ el(4)])
    qed
  qed
next
  case (16 p cond body sp s)
  from "16.prems"(2-4) have ok: "condition_ok G (function_env p) cond" "expr_plain c cond" "stmts_ok G (function_env p) body"
    "stmts_plain c body" "decls_fit (var_sizes f) (decls_of_list body)" by simp_all
  have E: "env_le (bind_locals_list body E) (frame_env f)" using "16.prems"(7) by simp
  show ?case
    unfolding stmt_tracks_def exec_stmt.simps
  proof (rule tracks_ticked [OF "16.prems"(5)])
    fix s1 assume s1: "tick s = (Inr (), s1)" "os_frames s1 = os_frames s" and rel: "related p m (var_sizes f) G f (fst E) base A s1 v"
    have ne: "os_frames s1 \<noteq> []" using s1(2) "16.prems"(6) by simp
    show "tracks (direct_program p) m v (exec_while p cond body s1)
        (finishes p m f base A v (vm_stack v) (vm_pc v + stmt_length p E v (S_While cond body sp)))"
      by (rule "16.IH" [OF s1(1) "16.prems"(1) ok rel ne E "16.prems"(8), unfolded while_tracks_def])
  qed
next
  case (17 p e sp s)
  from "17.prems"(2) obtain t where t: "type_of G (function_env p) e = Some t" by (auto simp: has_type_def split: option.splits)
  from "17.prems"(3) have pl: "expr_plain c e" by simp
  have ce: "code_at (direct_program p) (vm_pc v) (code_of p (fst E) v e)" using "17.prems"(8) by (auto dest: code_at_append)
  show ?case
    unfolding stmt_tracks_def exec_stmt.simps
    by (rule tracks_ticked [OF "17.prems"(5)], rule return_case [OF "17.prems"(1) t pl _ _ "17.prems"(8)], assumption,
        rule "17.IH" [OF _ "17.prems"(1) t pl _ ce])
next
  case (18 p e sp s)
  from "18.prems"(2) obtain t where t: "type_of G (function_env p) e = Some t" by auto
  from "18.prems"(3) have pl: "expr_plain c e" by simp
  have ce: "code_at (direct_program p) (vm_pc v) (code_of p (fst E) v e)" using "18.prems"(8) by (auto dest: code_at_append)
  show ?case
    unfolding stmt_tracks_def exec_stmt.simps
    by (rule tracks_ticked [OF "18.prems"(5)], rule print_case [OF "18.prems"(1) t pl _ _ "18.prems"(8)], assumption,
        rule "18.IH" [OF _ "18.prems"(1) t pl _ ce])
next
  case (19 p e sp s)
  from "19.prems"(2) obtain t where t: "type_of G (function_env p) e = Some t" by auto
  from "19.prems"(3) have pl: "expr_plain c e" by simp
  have ce: "code_at (direct_program p) (vm_pc v) (code_of p (fst E) v e)" using "19.prems"(8) by (auto dest: code_at_append)
  show ?case
    unfolding stmt_tracks_def exec_stmt.simps
    by (rule tracks_ticked [OF "19.prems"(5)], rule expression_case [OF "19.prems"(1) t pl _ _ "19.prems"(8)], assumption,
        rule "19.IH" [OF _ "19.prems"(1) t pl _ ce])
next
  case (20 p cond body s)
  from "20.prems"(2) obtain tc where tc: "type_of G (function_env p) cond = Some tc"
    by (auto simp: condition_ok_def split: option.splits)
  have cc: "code_at (direct_program p) (vm_pc v) (code_of p (fst E) v cond)"
    using "20.prems"(10) by (auto simp: Let_def dest: code_at_append)
  note tr = "20.IH"(1) [OF "20.prems"(1) tc "20.prems"(3,7) cc]
  show ?case
    by (rule while_case [OF "20.prems"(1) tc "20.prems"(3-8) tr "20.prems"(10)])
      (rule "20.IH"(2) [OF _ _ "20.prems"(1,4-6) _ _ "20.prems"(9)], assumption+,
       rule "20.IH"(3) [OF _ _ _ _ "20.prems"(1-6) _ _ "20.prems"(9)])
qed

end
