(* ===== verification/Compiler_Correct.thy ===== *)
theory Compiler_Correct
  imports Code_Simulation
begin

text \<open>
  Whole programs: the machine that runs the compiled program ends as the interpreter does, or at a
  resource limit of its own.
\<close>

section \<open>The compiled program is valid\<close>

lemma direct_slots_fit:
  assumes "\<forall>g \<in> set gs. size_ok (gv_array_size g) \<and> i32_option (gv_array_size g)"
    and "k + sum_list (map global_slots gs) \<le> MAX_GLOBAL_SLOTS"
  shows "\<exists>n. required_global_slots (map snd (global_table k gs)) b = Inr n \<and> n \<le> max b MAX_GLOBAL_SLOTS"
  using assms
proof (induction gs arbitrary: k b)
  case (Cons g gs)
  let ?w = "global_slots g"
  have w: "(case gv_array_size g of None \<Rightarrow> 1 | Some n \<Rightarrow> as_usize n) = ?w" by (simp add: global_slots_def)
  have pos: "gv_array_size g = Some n \<Longrightarrow> as_usize n = nat n \<and> 0 < n" for n
    using Cons.prems(1) by (auto simp: size_ok_def i32_option_def as_usize_id is_i32_is_i64)
  have fits: "checked_add k ?w = Some (k + ?w)" using Cons.prems(2) by (simp add: checked_add_def limit_defs)
  have "required_global_slots (map snd (global_table k (g # gs))) b =
      required_global_slots (map snd (global_table (k + ?w) gs)) (max b (k + ?w))"
    using fits pos by (cases "gv_array_size g") (simp_all add: Let_def global_slots_def decl_size_def)
  moreover have "\<exists>n. required_global_slots (map snd (global_table (k + ?w) gs)) (max b (k + ?w)) = Inr n \<and>
      n \<le> max (max b (k + ?w)) MAX_GLOBAL_SLOTS"
    using Cons.prems by (intro Cons.IH) (simp_all add: add.assoc)
  ultimately show ?case using Cons.prems(2) by auto
qed simp

lemma function_table_infos:
  "x \<in> set (map snd (function_table gs e i pc fs)) \<Longrightarrow> \<exists>j pc f. f \<in> set fs \<and> x = info_of j pc f"
proof (induction fs arbitrary: i pc)
  case (Cons f fs)
  show ?case
  proof (cases "x = info_of i pc f")
    case False
    with Cons.prems have "x \<in> set (map snd (function_table gs e (i + 1) (pc + length (function_code gs e pc f)) fs))" by auto
    from Cons.IH [OF this] show ?thesis by auto
  qed auto
qed simp

lemma direct_valid:
  assumes c: "compilable c p"
  shows "validate_program (direct_program p) = None"
proof -
  have "validate_function x = None" if "x \<in> set (map snd (prog_functions (direct_program p)))" for x
  proof -
    from that function_table_infos obtain j pc f where f: "f \<in> set (p_functions p)" "x = info_of j pc f"
      unfolding direct_program_def compiled_program.simps by blast
    have "length (fn_params f) \<le> snd (frame_env f)"
      using bind_locals_le(2) [of "param_env f" "fn_body f"] by (simp add: env_le_def frame_env_def param_env_slots)
    with function_facts(7) [OF compilable_typed [OF c] f(1)] f(2) show ?thesis
      by (simp add: validate_function_def info_of_def frame_env_size)
  qed
  then have "first_error validate_function (map snd (prog_functions (direct_program p))) = None"
    unfolding first_error_None by blast
  moreover obtain n where "required_global_slots (map snd (prog_globals (direct_program p))) 0 = Inr n" "n \<le> MAX_GLOBAL_SLOTS"
  proof -
    have "\<forall>g \<in> set (p_globals p). size_ok (gv_array_size g) \<and> i32_option (gv_array_size g)"
      using globals_facts [OF compilable_typed [OF c]] by blast
    moreover have "0 + sum_list (map global_slots (p_globals p)) \<le> MAX_GLOBAL_SLOTS"
      using c by (simp add: compilable_def typed_source_def well_formed_def)
    ultimately show ?thesis
      using direct_slots_fit [of "p_globals p" 0 0] that by (auto simp: direct_program_def)
  qed
  ultimately show ?thesis
    using c by (simp add: validate_program_def compilable_def)
qed

section \<open>The start of a run\<close>

lemma start_rel:
  assumes gl: "declare_globals (p_globals p) Map.empty = Inr gl"
    "\<forall>g \<in> set (p_globals p). gl (gv_name g) =
       Some (case gv_array_size g of None \<Rightarrow> SScalar (Some 0) | Some n \<Rightarrow> SArray (replicate (nat n) 0))"
    and fit: "globals_fit p gl" and c: "compilable c p" and f: "f \<in> set (p_functions p)"
    and i: "fun_lookup (direct_program p) i = Some (info_of i entry f)"
  shows "state_rel p m f 0 MAX_LOCAL_SLOTS (oracle_new gl) (vm_start (info_of i entry f) (with_max_cycles m vm_new))"
proof -
  let ?v = "vm_start (info_of i entry f) (with_max_cycles m vm_new)"
  have slots: "snd (frame_env f) \<le> MAX_LOCAL_SLOTS"
    using function_facts(7) [OF compilable_typed [OF c] f] by (simp add: frame_env_size)
  have top: "top_scope (oracle_new gl) = Map.empty" by (simp add: top_scope_def oracle_new_def)
  have fields: "vm_locals ?v = vec_repeat i64_min MAX_LOCAL_SLOTS" "vm_globals ?v = vec_repeat 0 MAX_GLOBAL_SLOTS"
    by (simp_all add: vm_start_def with_max_cycles_def vm_new_def)
  have "frame_rel f Map.empty 0 MAX_LOCAL_SLOTS ?v"
    using slots by (auto simp: frame_rel_def local_rel_def arrays_apart_def fields vec_repeat_def intro!: exI [of _ "\<lambda>_. 0"])
  moreover have "globals_rel p gl ?v"
    unfolding globals_rel_def
  proof (intro allI impI)
    fix n x assume x: "fst (program_env p) n = Some x"
    obtain sz where sz: "global_sizes p n = Some sz" by (rule program_global_sizes [OF x])
    then have "(n, sz) \<in> set (map (\<lambda>g. (gv_name g, gv_array_size g)) (p_globals p))"
      unfolding global_sizes_def by (rule map_of_SomeD)
    then obtain g where "g \<in> set (p_globals p)" "n = gv_name g" by auto
    with gl(2) show "case gl n of Some (SScalar (Some y)) \<Rightarrow> glob ?v (gi_slot x) = y
        | Some (SArray vs) \<Rightarrow> \<forall>i < length vs. glob ?v (gi_slot x + i) = vs ! i | _ \<Rightarrow> True"
      by (auto simp: fields vec_repeat_def split: option.split)
  qed
  moreover have "in_frame p f 0 ?v"
    using slots f i by (simp add: in_frame_def vm_start_def with_max_cycles_def vm_new_def) (simp add: info_of_def)
  ultimately show ?thesis
    unfolding state_rel_def top
    by (simp add: steady_def oracle_new_def vm_start_def with_max_cycles_def vm_new_def vec_repeat_def)
qed

section \<open>Initialisers\<close>

lemma assign_global:
  assumes "os_frames s = []" "os_globals s n = Some (SScalar w)"
  shows "assign_global_scalar n x s = assign_scalar n x s"
  using assms by (simp add: assign_global_scalar_def assign_scalar_def lookup_slot_def set_slot_def)

lemma inits_track:
  assumes c: "compilable c p" and gs: "set gs \<subseteq> set (p_globals p)" and L: "covers Map.empty (top_env p) f L"
    and gl: "globals_fit p (os_globals s)" "os_frames s = []" and rel: "state_rel p m f base A s v"
    and code: "code_at (direct_program p) (vm_pc v) (init_code L (program_env p) (vm_pc v) gs)"
  shows "tracks (direct_program p) m v (initialize_globals p gs s) (\<lambda>_ t w.
    stored p m f base A v (vm_stack v) (vm_pc v + length (init_code L (program_env p) (vm_pc v) gs)) t w)"
  using gs gl rel code
proof (induction gs arbitrary: s v)
  case Nil
  then show ?case by (auto simp: stored_def keeps_same intro!: tracks_Inr)
next
  case (Cons g gs)
  show ?case
  proof (cases "gv_init g")
    case None
    with Cons show ?thesis by simp
  next
    case (Some e)
    let ?p = "direct_program p" and ?goal = "\<lambda>u t w. stored p m f base A v (vm_stack v)
        (vm_pc v + length (init_code L (program_env p) (vm_pc v) (g # gs))) t w"
    note p = compilable_typed [OF c]
    from Cons.prems(1) have g: "g \<in> set (p_globals p)" and sub: "set gs \<subseteq> set (p_globals p)" by simp_all
    note facts = globals_facts [OF p g]
    from facts(4) Some obtain t where t: "type_of (top_env p) (function_env p) e = Some t"
      by (auto simp: value_ok_def has_type_def split: option.splits)
    from facts(5) Some have pl: "expr_plain c e" by (simp add: opt_plain_def)
    have sz: "global_sizes p (gv_name g) = Some None" using facts(1,6) Some by simp
    from global_sizes_env(1) [of p "gv_name g" None] sz p obtain y where y: "top_env p (gv_name g) = Some y"
      "\<not> sym_is_function y" "\<not> sym_is_array y" by (auto simp: typed_source_def)
    have ty: "typed_state p Map.empty (top_env p) s" by (rule top_typed [OF p Cons.prems(2,3)])
    have r: "related p m Map.empty (top_env p) f L base A s v" using ty L Cons.prems(4) by (simp add: related_def)
    obtain x where x: "fst (program_env p) (gv_name g) = Some x" by (rule program_global [OF p sz])
    let ?i = "Instruction_new Op_StoreGlobal (usize_as_i32 (gi_slot x)) 0"
    have "L (gv_name g) = None" using L y(1) by (auto simp: covers_def)
    then have i: "store_instr L (program_env p) (gv_name g) False = Some ?i" by (simp add: store_instr_def x)
    let ?ce = "code_of p L v e"
    have split: "init_code L (program_env p) (vm_pc v) (g # gs) =
        (?ce @ [?i]) @ init_code L (program_env p) (vm_pc v + length (?ce @ [?i])) gs"
      using Some x by (simp add: Let_def)
    note parts = code_at_append [OF Cons.prems(5) [unfolded split]]
    have ce: "code_at ?p (vm_pc v) ?ce" using code_at_append [of ?p "vm_pc v" ?ce "[?i]"] parts by simp
    have "tracks ?p m v (bnd (eval_expr p e s) (\<lambda>v s. bnd (assign_global_scalar (gv_name g) v s) (\<lambda>_ s. initialize_globals p gs s))) ?goal"
    proof (rule value_step [OF c t pl r simulation(1) [OF c t pl r ce]])
      fix z s1 w
      assume h: "is_i32 z" "os_frames s1 = os_frames s" "related p m Map.empty (top_env p) f L base A s1 w"
        "arrives p m f base A v (z # vm_stack v) (vm_pc v + length ?ce) s1 w"
        "vm_stack w = z # vm_stack v" "vm_pc w = vm_pc v + length ?ce"
      have at: "at ?p (vm_pc w) ?i"
        using code_at_Cons [of ?p "vm_pc w" ?i "[]"] code_at_append [of ?p "vm_pc v" ?ce "[?i]"] parts h(6) by simp
      have fit: "globals_fit p (os_globals s1)" using relatedD(1) [OF h(3)] by (rule typed_globals_fit)
      from fit sz obtain slot where "os_globals s1 (gv_name g) = Some slot" "slot_fits None slot"
        by (force simp: globals_fit_def dest: spec [of _ "gv_name g"])
      then obtain u where u: "os_globals s1 (gv_name g) = Some (SScalar u)"
        by (auto simp: slot_fits_def split: oracle_slot.splits)
      have fr: "os_frames s1 = []" using h(2) Cons.prems(3) by simp
      have asg: "assign_global_scalar (gv_name g) z s1 = assign_scalar (gv_name g) z s1"
        by (rule assign_global [OF fr u])
      let ?t = "s1\<lparr>os_globals := (os_globals s1)(gv_name g \<mapsto> SScalar (Some (normalize_i32 z)))\<rparr>"
      have res: "assign_scalar (gv_name g) z s1 = (Inr (), ?t)"
        using u fr by (simp add: assign_scalar_def lookup_slot_def set_slot_def)
      have fit': "globals_fit p (os_globals ?t)" using globals_fit_update [OF fit sz] by (simp add: slot_fits_def)
      show "tracks ?p m w (bnd (assign_global_scalar (gv_name g) z s1) (\<lambda>_ s. initialize_globals p gs s)) ?goal"
        unfolding asg
      proof (rule tracks_bnd [OF assign_scalar_tracks [OF p relatedD(4,1) [OF h(3)] y relatedD(2,3) [OF h(3)] i at h(5,1)]])
        fix d t' w' assume d: "assign_scalar (gv_name g) z s1 = (Inr d, t')" "stored p m f base A w (vm_stack v) (vm_pc w + 1) t' w'"
        from d(1) res have t': "t' = ?t" by simp
        from d(2) h(6) have w': "state_rel p m f base A ?t w'" "vm_stack w' = vm_stack v" "vm_pc w' = vm_pc v + length (?ce @ [?i])"
          by (simp_all add: stored_def t')
        have code': "code_at ?p (vm_pc w') (init_code L (program_env p) (vm_pc w') gs)" using parts w'(3) by simp
        have wi: "within base A v w'"
          by (rule within_trans [OF arrives_within [OF h(4) relatedD(4) [OF r]] stored_within [OF d(2)]])
        have pc: "vm_pc v + length (init_code L (program_env p) (vm_pc v) (g # gs)) =
            vm_pc w' + length (init_code L (program_env p) (vm_pc w') gs)" unfolding split using w'(3) by simp
        have "os_frames ?t = []" using fr by simp
        from Cons.IH [OF sub fit' this w'(1) code']
        show "tracks ?p m w' (initialize_globals p gs t') ?goal"
          unfolding pc t' by (rule tracks_mono) (use stored_later [OF wi] w'(2) in simp)
      qed
    qed
    with Some show ?thesis by simp
  qed
qed


section \<open>The run of main\<close>

lemma main_facts:
  assumes p: "typed_source c p"
  obtains f where "f \<in> set (p_functions p)" "fn_name f = ''main''" "fn_params f = []" "function_named p ''main'' = Some f"
proof -
  obtain y where y: "function_env p ''main'' = Some y" "sym_param_types y = []"
    using p main_function [of p] by (auto simp: typed_source_def)
  obtain f where "f \<in> set (p_functions p)" "fn_name f = ''main''" "function_named p ''main'' = Some f"
    "sym_param_types y = map par_type (fn_params f)"
    by (rule function_env_Some [OF p y(1)])
  with y(2) that show ?thesis by simp
qed

text \<open>The return from the first frame ends the run.\<close>

definition exits_with :: "i64 \<Rightarrow> string list \<Rightarrow> vm_exit \<Rightarrow> bool" where
  "exits_with x out e \<longleftrightarrow>
     (case fst e of
        Inl _ \<Rightarrow> False
      | Inr r \<Rightarrow> success r \<and> return_value r = x \<and> trap_code r = TrapNone \<and> res_output r = out)"

lemma exit_leads:
  assumes st: "steady m w" and calls: "vm_calls w = [\<lparr>return_pc = usize_max, base_ptr = b, frame_func = i\<rparr>]"
    and stack: "vm_stack w = [x]" and at: "at q (vm_pc w) (Instruction_new Op_Return 0 0)"
  shows "leads q m w (\<lambda>out. \<exists>e. out = Inl e \<and> exits_with x (vm_output w) e)"
proof -
  let ?w = "(counted w)\<lparr>vm_stack := [x], vm_calls := []\<rparr>"
  have ex: "execute_instruction q (opcode (Instruction_new Op_Return 0 0)) (arg1 (Instruction_new Op_Return 0 0))
      (arg2 (Instruction_new Op_Return 0 0)) (counted w) = (Inr False, ?w)"
    by (simp add: exec_return_def pop_def stack calls push_def Let_def limit_defs)
  show ?thesis
    by (rule leads_exit [OF at st ex]) (use st in \<open>simp_all add: exits_with_def steady_def finish_def exit_result_def take_top_def Let_def\<close>)
qed

text \<open>The body of \<open>main\<close>, run in the first frame.\<close>

lemma main_leads:
  assumes c: "compilable c p" and f: "f \<in> set (p_functions p)" "fn_params f = []" "function_named p ''main'' = Some f"
    and rel: "state_rel p m f 0 MAX_LOCAL_SLOTS s v" and fr: "os_frames s = []" and gl: "globals_fit p (os_globals s)"
    and calls: "vm_calls v = [\<lparr>return_pc = usize_max, base_ptr = 0, frame_func = i\<rparr>]" and stack: "vm_stack v = []"
    and code: "code_at (direct_program p) (vm_pc v) (stmts_code (param_env f) (program_env p) (vm_pc v) (fn_body f) @
       [Instruction_new Op_LoadConst 0 0, Instruction_new Op_Return 0 0])"
  shows "tracks (direct_program p) m v (call_function p ''main'' [] s) (\<lambda>x t w.
    leads (direct_program p) m w (\<lambda>out. \<exists>e. out = Inl e \<and> exits_with x (os_output t) e))"
proof -
  let ?p = "direct_program p" and ?goal = "\<lambda>x t w. leads (direct_program p) m w (\<lambda>out. \<exists>e. out = Inl e \<and> exits_with x (os_output t) e)"
  note p = compilable_typed [OF c]
  note facts = function_facts [OF p f(1)]
  let ?n = "length (stmts_code (param_env f) (program_env p) (vm_pc v) (fn_body f))"
  show ?thesis
    unfolding call_function.simps
  proof (rule tracks_tick)
    fix t assume t: "tick s = (Inr (), t)" "t = s\<lparr>os_cycles := os_cycles s + 1\<rparr>"
    let ?s = "push_frame f [] t"
    have frt: "os_frames t = []" and glt: "globals_fit p (os_globals t)" using t(2) fr gl by simp_all
    have relt: "state_rel p m f 0 MAX_LOCAL_SLOTS t v" using state_rel_tick [OF rel] t by (simp add: tick_Inr)
    have "top_scope t = Map.empty" "top_scope ?s = Map.empty" using frt f(2) by (simp add: top_scope_def, simp)
    then have rels: "state_rel p m f 0 MAX_LOCAL_SLOTS ?s v"
      using relt frt calls by (simp add: state_rel_def) (simp add: push_frame_def)
    have ty: "typed_state p (var_sizes f) (body_env p f) ?s" by (rule pushed_typed [OF p f(1) glt]) (simp add: f(2))
    have env: "param_env f = (Map.empty, 0)" by (simp add: param_env_def param_locals_def f(2))
    have nov: "var_sizes f n = None" if "body_env p f n \<noteq> None" for n
      using facts(4) [of n] that by (cases "var_sizes f n") (auto simp: body_env_def f(2))
    have "covers (var_sizes f) (body_env p f) f (fst (param_env f))"
      by (rule covers_frame) (use nov in \<open>simp_all add: env\<close>)
    with ty rels have r: "related p m (var_sizes f) (body_env p f) f (fst (param_env f)) 0 MAX_LOCAL_SLOTS ?s v"
      by (simp add: related_def)
    have ne: "os_frames ?s \<noteq> []" by (simp add: push_frame_def)
    have body: "code_at ?p (vm_pc v) (stmts_code (param_env f) (program_env p) (vm_pc v) (fn_body f))"
      and tail: "code_at ?p (vm_pc v + ?n) [Instruction_new Op_LoadConst 0 0, Instruction_new Op_Return 0 0]"
      using code_at_append [OF code] by simp_all
    note b = simulation(4) [OF c facts(1-3) r ne frame_env_body body, unfolded block_tracks_def]
    have "tracks ?p m v (bnd (exec_block p (fn_body f) ?s) (\<lambda>ctl s. (Inr (returned ctl), pop_frame s))) ?goal"
    proof (rule tracks_bnd [OF b])
      fix ctl t' w
      assume h: "exec_block p (fn_body f) ?s = (Inr ctl, t')"
        "finishes p m f 0 MAX_LOCAL_SLOTS v (vm_stack v) (vm_pc v + ?n) ctl t' w"
      from execution_safe(4) [OF p facts(1-3) ty ne] h(1) have ctl: "i32_control ctl" by (auto simp: block_safe_def)
      have out: "os_output (pop_frame t') = os_output t'" by (simp add: pop_frame_def)
      from h(2) have rw: "state_rel p m f 0 MAX_LOCAL_SLOTS t' w" and cw: "vm_calls w = vm_calls v" by (simp_all add: finishes_def)
      have ret: "leads ?p m u (\<lambda>out. \<exists>e. out = Inl e \<and> exits_with z (os_output (pop_frame t')) e)"
        if u: "state_rel p m f 0 MAX_LOCAL_SLOTS t' u" "vm_calls u = vm_calls v" "vm_stack u = [z]"
          "at ?p (vm_pc u) (Instruction_new Op_Return 0 0)" for u z
        using exit_leads [OF state_rel_steady [OF u(1)] u(2) [unfolded calls] u(3,4)] u(1) out by (simp add: state_rel_def)
      show "tracks ?p m w (Inr (returned ctl), pop_frame t') ?goal"
      proof (cases ctl)
        case (CReturn z)
        with ctl have z: "returned ctl = z" by (simp add: returned_def)
        from CReturn h(2) stack have "vm_stack w = [z]" "at ?p (vm_pc w) (Instruction_new Op_Return 0 0)"
          by (simp_all add: finishes_def)
        with ret [OF rw cw] show ?thesis unfolding z by (intro tracks_Inr) blast
      next
        case CContinue
        with finishes_at h(2) stack have w': "vm_stack w = []" "vm_pc w = vm_pc v + ?n" by auto
        have i: "at ?p (vm_pc w) (Instruction_new Op_LoadConst 0 0)" and j: "at ?p (vm_pc w + 1) (Instruction_new Op_Return 0 0)"
          using tail w'(2) by (auto dest!: code_at_Cons)
        have z: "returned ctl = 0" by (simp add: CContinue returned_def normalize_i32_id)
        show ?thesis
          unfolding z
        proof (rule tracks_then [OF const_tracks [OF i rw]], elim conjE)
          fix u assume u: "arrives p m f 0 MAX_LOCAL_SLOTS w (0 # vm_stack w) (vm_pc w + 1) t' u"
          then have "vm_calls u = vm_calls v" "vm_stack u = [0]" "at ?p (vm_pc u) (Instruction_new Op_Return 0 0)"
            using w' cw j by (simp_all add: arrives_def)
          with ret [OF arrives_rel [OF u]] show "tracks ?p m u (Inr 0, pop_frame t') ?goal" by (intro tracks_Inr) blast
        qed
      qed
    qed
    then show "tracks ?p m v (if MAX_FRAMES \<le> length (os_frames t)
          then (Inl (Trap StackOverflow (fmt [''Call stack overflow (max '', show_nat MAX_FRAMES, '' frames)''])), t)
          else case function_named p ''main'' of
            None \<Rightarrow> (Inl (Trap UndefinedFunction (fmt [''Undefined function '', ''main''])), t)
          | Some f \<Rightarrow>
              if length [] \<noteq> length (fn_params f)
              then (Inl (Trap InvalidInstruction
                      (fmt [''Call has '', show_nat (length []), '' arguments but function '', ''main'',
                            '' expects '', show_nat (length (fn_params f))])), t)
              else bnd (exec_block p (fn_body f) (push_frame f [] t)) (\<lambda>ctl s. (Inr (returned ctl), pop_frame s))) ?goal"
      by (simp add: f(2,3) frt MAX_FRAMES_def)
  qed
qed

section \<open>Correctness of the compiler\<close>

definition agrees :: "nat \<Rightarrow> oracle_outcome \<Rightarrow> vm_result \<Rightarrow> bool" where
  "agrees m out r \<longleftrightarrow>
     success r = oo_success out \<and> return_value r = oo_return_value out \<and> trap_code r = oo_trap_code out \<and>
       res_output r = oo_output out \<or>
     \<not> success r \<and> (trap_code r = StackOverflow \<or> trap_code r = CycleLimit \<and> 0 < m)"

lemma leads_iterate:
  assumes l: "leads q m v (\<lambda>out. \<exists>x. out = Inl x \<and> P x)" and R: "\<And>x. resource_stop m x \<or> P x \<Longrightarrow> R x"
  shows "\<exists>x. iterate (vm_step q) v = Some x \<and> R x"
proof -
  from l have "\<exists>n x. turns (vm_step q) n v = Inl x \<and> (resource_stop m x \<or> P x)"
    unfolding leads_def by (elim exE, rule_tac x = n in exI) (auto split: sum.splits)
  then obtain n x where n: "turns (vm_step q) n v = Inl x" "resource_stop m x \<or> P x" by blast
  then show ?thesis using R iterate_turns [of "vm_step q" v n] by simp
qed

lemma direct_runs:
  assumes c: "compilable c p" and run: "run_ast_oracle p = Inr out"
    and cmp: "oo_success out \<or> comparable (Trap (oo_trap_code out) (oo_trap_message out))"
  shows "\<exists>r t. vm_run (direct_program p) (with_max_cycles m vm_new) = Some (Inr r, t) \<and> agrees m out r"
proof -
  let ?p = "direct_program p"
  note p = compilable_typed [OF c]
  obtain gl where gl: "declare_globals (p_globals p) Map.empty = Inr gl" "globals_fit p gl"
    "\<forall>g \<in> set (p_globals p). gl (gv_name g) =
       Some (case gv_array_size g of None \<Rightarrow> SScalar (Some 0) | Some n \<Rightarrow> SArray (replicate (nat n) 0))"
    by (rule initial_globals [OF p])
  obtain f where f: "f \<in> set (p_functions p)" "fn_name f = ''main''" "fn_params f = []" "function_named p ''main'' = Some f"
    by (rule main_facts [OF p])
  obtain i entry where i: "snd (program_env p) (fn_name f) = Some i" "fun_lookup ?p i = Some (info_of i entry f)"
    and code: "code_at ?p entry (function_code (p_globals p) (program_env p) entry f)"
    by (rule program_function [OF p f(1)])
  let ?v = "vm_start (info_of i entry f) (with_max_cycles m vm_new)" and ?s = "oracle_new gl"
  have rel: "state_rel p m f 0 MAX_LOCAL_SLOTS ?s ?v" by (rule start_rel [OF gl(1,3,2) c f(1) i(2)])
  have v: "vm_pc ?v = entry" "vm_stack ?v = []" "vm_calls ?v = [\<lparr>return_pc = usize_max, base_ptr = 0, frame_func = i\<rparr>]"
    by (simp_all add: vm_start_def with_max_cycles_def vm_new_def info_of_def)
  let ?L = "fst (param_env f)"
  let ?ci = "init_code ?L (program_env p) (vm_pc ?v) (p_globals p)"
  have split: "function_code (p_globals p) (program_env p) entry f =
      ?ci @ stmts_code (param_env f) (program_env p) (vm_pc ?v + length ?ci) (fn_body f) @
        [Instruction_new Op_LoadConst 0 0, Instruction_new Op_Return 0 0]"
    by (simp add: function_code_def prologue_code_def f(2) Let_def v(1))
  note parts = code_at_append [OF code [unfolded split]]
  have cov: "covers Map.empty (top_env p) f ?L" by (simp add: covers_def param_env_def param_locals_def f(3))
  have s: "globals_fit p (os_globals ?s)" "os_frames ?s = []" using gl(2) by (simp_all add: oracle_new_def)
  have ci: "code_at ?p (vm_pc ?v) ?ci" using parts v(1) by simp
  let ?run = "bnd (initialize_globals p (p_globals p) ?s) (\<lambda>_ s. call_function p ''main'' [] s)"
  have tr: "tracks ?p m ?v ?run (\<lambda>x t w. leads ?p m w (\<lambda>out. \<exists>e. out = Inl e \<and> exits_with x (os_output t) e))"
  proof (rule tracks_bnd [OF inits_track [OF c subset_refl cov s rel ci]])
    fix u :: unit and t w
    assume h: "initialize_globals p (p_globals p) ?s = (Inr u, t)"
      "stored p m f 0 MAX_LOCAL_SLOTS ?v (vm_stack ?v) (vm_pc ?v + length ?ci) t w"
    from initialize_globals_safe [OF p subset_refl s] h(1) have t: "globals_fit p (os_globals t)" "os_frames t = []"
      by simp_all
    from h(2) v have w: "state_rel p m f 0 MAX_LOCAL_SLOTS t w" "vm_stack w = []" "vm_pc w = vm_pc ?v + length ?ci"
      "vm_calls w = [\<lparr>return_pc = usize_max, base_ptr = 0, frame_func = i\<rparr>]" by (simp_all add: stored_def)
    show "tracks ?p m w (call_function p ''main'' [] t) (\<lambda>x t w. leads ?p m w (\<lambda>out. \<exists>e. out = Inl e \<and> exits_with x (os_output t) e))"
      by (rule main_leads [OF c f(1,3,4) w(1) t(2,1) w(4,2)]) (use parts w(3) v(1) in simp)
  qed
  have "\<exists>x. iterate (vm_step ?p) ?v = Some x \<and> (\<exists>r. fst x = Inr r \<and> agrees m out r)"
  proof (cases "fst ?run")
    case (Inr x)
    let ?R = "\<lambda>out. \<exists>e. out = Inl e \<and> exits_with x (os_output (snd ?run)) e"
    from tr Inr have "leads ?p m ?v (\<lambda>out. \<exists>w. out = Inr w \<and> leads ?p m w ?R)"
      unfolding tracks_def by simp
    then have l: "leads ?p m ?v ?R" by (rule leads_trans) (elim exE conjE, simp)+
    have ok: "out = outcome_ok x (os_output (snd ?run))"
      using run Inr by (cases ?run) (simp add: run_ast_oracle_def gl(1) oracle_run_def)
    show ?thesis
      by (rule leads_iterate [OF l])
        (auto simp: ok resource_stop_def exits_with_def agrees_def outcome_ok_def split: sum.splits)
  next
    case (Inl e)
    with run obtain code msg where e: "e = Trap code msg" "out = outcome_trap code msg (os_output (snd ?run))"
      by (cases ?run; cases e) (auto simp: run_ast_oracle_def gl(1) oracle_run_def)
    with cmp have "comparable e" by (simp add: outcome_trap_def)
    with tr Inl have "leads ?p m ?v (\<lambda>out. \<exists>x. out = Inl x \<and> stops_as e (os_output (snd ?run)) x)"
      by (simp add: tracks_def)
    then show ?thesis
      by (rule leads_iterate)
        (auto simp: e resource_stop_def stops_as_def agrees_def outcome_trap_def split: sum.splits)
  qed
  moreover have "vm_run ?p (with_max_cycles m vm_new) = iterate (vm_step ?p) ?v"
  proof -
    have "fun_lookup ?p (main_func_id ?p) = Some (info_of i entry f)"
      using i f(2) by (simp add: direct_program_def)
    moreover have "local_count (info_of i entry f) \<le> MAX_LOCAL_SLOTS"
      using function_facts(7) [OF p f(1)] by (simp add: info_of_def frame_env_size)
    ultimately show ?thesis using direct_valid [OF c] by (simp add: vm_run_def)
  qed
  ultimately show ?thesis by auto
qed

end
