(* ===== verification/Language_Props.thy ===== *)
theory Language_Props
  imports Compiler_Correct
begin

text \<open>
  What a MiniLang program means and that every stage after the analyser keeps this meaning: type
  safety of the reference interpreter, correctness of the compiler and the machine against it, and the
  three ways in which the two differ on programs outside the hypotheses.
\<close>

section \<open>Programs\<close>

abbreviation nowhere :: span where "nowhere \<equiv> Span_new 0 0"
abbreviation lit :: "i32 \<Rightarrow> expr" where "lit n \<equiv> E_IntLiteral n nowhere"
abbreviation var :: "string \<Rightarrow> expr" where "var n \<equiv> E_Identifier n nowhere"

definition main_of :: "stmt list \<Rightarrow> func" where
  "main_of ss = \<lparr>fn_name = ''main'', fn_params = [], fn_body = ss, fn_span = nowhere\<rparr>"

text \<open>
  \<open>int g = 3; int sq(int x) { return x * x; }\<close> and a \<open>main\<close> that fills \<open>int a[2]\<close> in a loop with
  \<open>a[i] = sq(i) + g\<close>, prints \<open>a[0]\<close> and returns \<open>a[1]\<close>.
\<close>

definition squares :: program where
  "squares = \<lparr>p_globals = [
      \<lparr>gv_type = Ty_Int, gv_name = ''g'', gv_init = Some (lit 3), gv_array_size = None, gv_span = nowhere\<rparr>],
     p_functions = [
       \<lparr>fn_name = ''sq'', fn_params = [\<lparr>par_type = Ty_Int, par_name = ''x'', par_span = nowhere\<rparr>],
        fn_body = [S_Return (E_Binary Bin_Mul (var ''x'') (var ''x'') nowhere) nowhere], fn_span = nowhere\<rparr>,
       main_of [S_VarDecl Ty_Int ''i'' (Some (lit 0)) None nowhere, S_VarDecl Ty_Int ''a'' None (Some 2) nowhere,
         S_While (E_Binary Bin_Lt (var ''i'') (lit 2) nowhere)
          [S_Assign ''a'' (Some (var ''i''))
             (E_Binary Bin_Add (E_Call ''sq'' [var ''i''] nowhere) (var ''g'') nowhere) nowhere,
           S_Assign ''i'' None (E_Binary Bin_Add (var ''i'') (lit 1) nowhere) nowhere] nowhere,
         S_Print (E_ArrayIndex ''a'' (lit 0) nowhere) nowhere,
         S_Return (E_ArrayIndex ''a'' (lit 1) nowhere) nowhere]]\<rparr>"

text \<open>Sibling blocks that declare \<open>a\<close> as an array and as an integer.\<close>

definition siblings :: program where
  "siblings = \<lparr>p_globals = [], p_functions = [main_of [
     S_If (lit 1) [S_VarDecl Ty_Int ''a'' None (Some 2) nowhere] None nowhere,
     S_If (lit 1) [S_VarDecl Ty_Int ''a'' (Some (lit 5)) None nowhere, S_Return (var ''a'') nowhere] None nowhere,
     S_Return (lit 0) nowhere]]\<rparr>"

text \<open>A \<open>main\<close> that changes an initialised global and calls itself once.\<close>

definition again :: program where
  "again = \<lparr>p_globals = [
      \<lparr>gv_type = Ty_Int, gv_name = ''again'', gv_init = None, gv_array_size = None, gv_span = nowhere\<rparr>,
      \<lparr>gv_type = Ty_Int, gv_name = ''n'', gv_init = Some (lit 5), gv_array_size = None, gv_span = nowhere\<rparr>],
     p_functions = [main_of [
        S_If (E_Binary Bin_Eq (var ''again'') (lit 0) nowhere)
          [S_Assign ''again'' None (lit 1) nowhere, S_Assign ''n'' None (lit 6) nowhere,
           S_Return (E_Call ''main'' [] nowhere) nowhere] None nowhere,
        S_Return (var ''n'') nowhere]]\<rparr>"

text \<open>An assignment to a negative index of a value whose computation prints.\<close>

definition late_index :: program where
  "late_index = \<lparr>p_globals = [],
     p_functions = [
       \<lparr>fn_name = ''f'', fn_params = [], fn_body = [S_Print (lit 7) nowhere, S_Return (lit 1) nowhere], fn_span = nowhere\<rparr>,
       main_of [S_VarDecl Ty_Int ''a'' None (Some 2) nowhere,
        S_Assign ''a'' (Some (E_Unary Un_Neg (lit 1) nowhere)) (E_Call ''f'' [] nowhere) nowhere,
        S_Return (lit 0) nowhere]]\<rparr>"

section \<open>Their results\<close>

definition vm_summary :: "vm_exit option \<Rightarrow> (bool \<times> i64 \<times> trap_code \<times> string list) option" where
  "vm_summary x =
     (case x of
        Some (Inr r, s) \<Rightarrow> Some (success r, return_value r, trap_code r, res_output r)
      | _ \<Rightarrow> None)"

definition oracle_summary :: "string + oracle_outcome \<Rightarrow> (bool \<times> i64 \<times> trap_code \<times> string list) option" where
  "oracle_summary x =
     (case x of
        Inr r \<Rightarrow> Some (oo_success r, oo_return_value r, oo_trap_code r, oo_output r)
      | Inl _ \<Rightarrow> None)"

text \<open>Evaluation of the interpreter: the continuation of \<open>bnd\<close> waits for its argument.\<close>

lemma bnd_weak_cong: "r = r' \<Longrightarrow> bnd r k = bnd r' k"
  by simp

lemmas oracle_eval = run_ast_oracle_def oracle_run_def oracle_new_def call_function.simps exec_while.simps
  function_named_def tick_def Let_def push_frame_def pop_frame_def returned_def continue_def lift_res_def zero_array_def
  declare_or_update_def ensure_declared_def assign_scalar_def assign_array_def assign_global_scalar_def read_scalar_def
  read_array_def lookup_slot_def set_slot_def insert_slot_def checked_array_index_def eval_binary_def eval_unary_def
  oracle_print_def outcome_ok_def outcome_trap_def truth_def limit_defs normalize_i32_wrap32 wrap32_def wrap64_def
  fmt_def show_int_def show_nat.simps digit_char_def main_of_def

lemma squares_oracle: "run_ast_oracle squares = Inr (outcome_ok 4 [''OUTPUT: 3''])"
  by (simp add: oracle_eval squares_def cong: bnd_weak_cong)

lemma squares_typed: "typed_source False squares"
  by code_simp

lemma squares_small: "length (instructions (direct_program squares)) \<le> MAX_INSTRUCTIONS"
  by code_simp

lemma siblings_oracle: "oracle_summary (run_ast_oracle siblings) = Some (False, 0, InvalidInstruction, [])"
  by (simp add: oracle_eval siblings_def oracle_summary_def cong: bnd_weak_cong)

lemma again_oracle: "oracle_summary (run_ast_oracle again) = Some (True, 6, TrapNone, [])"
  by (simp add: oracle_eval again_def oracle_summary_def cong: bnd_weak_cong)

lemma late_index_oracle: "oracle_summary (run_ast_oracle late_index) = Some (False, 0, ArrayOutOfBounds, [])"
  by (simp add: oracle_eval late_index_def oracle_summary_def cong: bnd_weak_cong)

lemma siblings_compiled: "compile siblings = Inr (direct_program siblings)"
  by (rule compile_well_formed) code_simp

lemma again_compiled: "compile again = Inr (direct_program again)"
  by (rule compile_well_formed) code_simp

lemma late_index_compiled: "compile late_index = Inr (direct_program late_index)"
  by (rule compile_well_formed) code_simp

section \<open>The compiler generates the direct code\<close>

text \<open>
  C5: A well-formed program compiles, and the back-patching compiler produces the program whose code
  is given directly by the structure of the source: every jump target is the position computed from
  the lengths of the parts, every name has its slot, every function its entry.
\<close>
theorem compile_is_direct:
  assumes "well_formed p"
  shows "compile p = Inr (direct_program p)"
  using assms by (rule compile_well_formed)

lemma compile_is_direct_witness: "compile siblings = Inr (direct_program siblings)"
  by (rule compile_is_direct) code_simp

section \<open>Type safety\<close>

text \<open>
  C4: Type safety: the interpreter never panics on a typed program, and it ends with a 32-bit value
  or with one of the five traps of the language; type errors, undefined names and wrong argument
  counts do not occur.
\<close>
theorem oracle_type_safe:
  assumes "typed_source m p"
  shows "\<exists>out. run_ast_oracle p = Inr out \<and>
    (if oo_success out then is_i32 (oo_return_value out)
     else oo_trap_code out \<in> {DivideByZero, ArrayOutOfBounds, UndefinedLocal, StackOverflow, CycleLimit})"
  using assms by (rule oracle_outcome)

lemma oracle_type_safe_witness:
  "\<exists>out. run_ast_oracle squares = Inr out \<and>
    (if oo_success out then is_i32 (oo_return_value out)
     else oo_trap_code out \<in> {DivideByZero, ArrayOutOfBounds, UndefinedLocal, StackOverflow, CycleLimit})"
  by (rule oracle_type_safe [OF squares_typed])

section \<open>Correctness of compiled programs\<close>

lemma compiled_compilable:
  assumes p: "typed_source c p" "c \<longrightarrow> no_inits p" and q: "compile p = Inr q" "length (instructions q) \<le> MAX_INSTRUCTIONS"
  shows "compilable c p" "q = direct_program p"
proof -
  have "compile p = Inr (direct_program p)" using p(1) by (intro compile_well_formed) (simp add: typed_source_def)
  then show "q = direct_program p" using q(1) by simp
  with p q(2) show "compilable c p" by (simp add: compilable_def)
qed





section \<open>Where compiled programs and the interpreter differ\<close>

text \<open>
  C31: Declarations of one name in sibling blocks share the slot and the kind of the first: a
  well-formed program with an array and an integer \<open>a\<close> succeeds on the machine, with the address of
  the array elements for the value 5, and traps in the interpreter.
\<close>
theorem sibling_scopes_differ:
  "well_formed siblings \<and> compile siblings = Inr (direct_program siblings) \<and>
   vm_summary (vm_run (direct_program siblings) vm_new) = Some (True, 1026, TrapNone, []) \<and>
   oracle_summary (run_ast_oracle siblings) = Some (False, 0, InvalidInstruction, [])"
proof (intro conjI)
  show "well_formed siblings" by code_simp
  show "vm_summary (vm_run (direct_program siblings) vm_new) = Some (True, 1026, TrapNone, [])" by code_simp
qed (rule siblings_compiled, rule siblings_oracle)

text \<open>
  C32: The initialisers of globals are code of \<open>main\<close>: a program that calls \<open>main\<close> runs them again
  on the machine, which returns 5, and once in the interpreter, which returns 6.
\<close>
theorem initialisers_run_again:
  "typed_source True again \<and> compile again = Inr (direct_program again) \<and>
   vm_summary (vm_run (direct_program again) vm_new) = Some (True, 5, TrapNone, []) \<and>
   oracle_summary (run_ast_oracle again) = Some (True, 6, TrapNone, [])"
proof (intro conjI)
  show "typed_source True again" by code_simp
  show "vm_summary (vm_run (direct_program again) vm_new) = Some (True, 5, TrapNone, [])" by code_simp
qed (rule again_compiled, rule again_oracle)

text \<open>
  C33: A negative index on the left of an assignment: the interpreter traps before it computes the
  value, the machine after, so that the output differs.
\<close>
theorem negative_index_order_differs:
  "typed_source False late_index \<and> compile late_index = Inr (direct_program late_index) \<and>
   vm_summary (vm_run (direct_program late_index) vm_new) = Some (False, 0, ArrayOutOfBounds, [''OUTPUT: 7'']) \<and>
   oracle_summary (run_ast_oracle late_index) = Some (False, 0, ArrayOutOfBounds, [])"
proof (intro conjI)
  show "typed_source False late_index" by code_simp
  show "vm_summary (vm_run (direct_program late_index) vm_new) = Some (False, 0, ArrayOutOfBounds, [''OUTPUT: 7''])" by code_simp
qed (rule late_index_compiled, rule late_index_oracle)

end
