(* ===== verification/Trace.thy ===== *)
theory Trace
  imports Bytecode "HOL-Library.Word"
begin

text \<open>
  Execution traces (trace.rs): Rust's debug formatting of the values a trace holds, the JSON
  writers, the FNV-1a hasher with the fingerprint of a trace, summaries, and the two comparisons of
  traces, field by field and up to the representation of array references. A writer that appends to
  an output buffer is the function that yields the appended text. Characters are the code points
  below 256, as in the lexer.
\<close>

section \<open>Debug formatting\<close>

definition hex_char :: "nat \<Rightarrow> char" where
  "hex_char d = ''0123456789abcdef'' ! d"

text \<open>\<open>{:x}\<close> and \<open>{:0<n>x}\<close> of a number of at most n digits.\<close>

fun show_hex :: "nat \<Rightarrow> string" where
  "show_hex n = (if n < 16 then [hex_char n] else show_hex (n div 16) @ [hex_char (n mod 16)])"

declare show_hex.simps [simp del]

definition hex_fixed :: "nat \<Rightarrow> nat \<Rightarrow> string" where
  "hex_fixed n v = List.map (\<lambda>i. hex_char (v div 16 ^ i mod 16)) (rev [0..<n])"

text \<open>\<open>escape_debug\<close> inside a string: a single quote stays, what does not print is a code point.\<close>

definition debug_char :: "char \<Rightarrow> string" where
  "debug_char c =
     (let n = of_char c :: nat in
      if n = 0 then [CHR 0x5C, CHR ''0'']
      else if n = 9 then [CHR 0x5C, CHR ''t'']
      else if n = 10 then [CHR 0x5C, CHR ''n'']
      else if n = 13 then [CHR 0x5C, CHR ''r'']
      else if n = 34 \<or> n = 92 then [CHR 0x5C, c]
      else if 32 \<le> n \<and> n < 127 \<or> 160 < n \<and> n \<noteq> 173 then [c]
      else fmt [[CHR 0x5C, CHR ''u'', CHR ''{''], show_hex n, ''}''])"

definition debug_str :: "string \<Rightarrow> string" where
  "debug_str s = fmt [[CHR 0x22], concat (List.map debug_char s), [CHR 0x22]]"

fun separated :: "string \<Rightarrow> string list \<Rightarrow> string" where
  "separated s [] = []"
| "separated s [x] = x"
| "separated s (x # y # zs) = x @ s @ separated s (y # zs)"

definition debug_list :: "('a \<Rightarrow> string) \<Rightarrow> 'a list \<Rightarrow> string" where
  "debug_list dbg xs = fmt [''['', separated '', '' (List.map dbg xs), '']'']"

fun debug_trap_code :: "trap_code \<Rightarrow> string" where
  "debug_trap_code TrapNone = ''None''"
| "debug_trap_code DivideByZero = ''DivideByZero''"
| "debug_trap_code UndefinedLocal = ''UndefinedLocal''"
| "debug_trap_code ArrayOutOfBounds = ''ArrayOutOfBounds''"
| "debug_trap_code StackOverflow = ''StackOverflow''"
| "debug_trap_code CycleLimit = ''CycleLimit''"
| "debug_trap_code UndefinedFunction = ''UndefinedFunction''"
| "debug_trap_code StackUnderflow = ''StackUnderflow''"
| "debug_trap_code InvalidInstruction = ''InvalidInstruction''"

text \<open>\<open>code as u8\<close>.\<close>

fun trap_code_u8 :: "trap_code \<Rightarrow> nat" where
  "trap_code_u8 TrapNone = 0"
| "trap_code_u8 DivideByZero = 1"
| "trap_code_u8 UndefinedLocal = 2"
| "trap_code_u8 ArrayOutOfBounds = 3"
| "trap_code_u8 StackOverflow = 4"
| "trap_code_u8 CycleLimit = 5"
| "trap_code_u8 UndefinedFunction = 6"
| "trap_code_u8 StackUnderflow = 7"
| "trap_code_u8 InvalidInstruction = 8"

fun debug_outcome :: "trace_outcome \<Rightarrow> string" where
  "debug_outcome OContinue = ''Continue''"
| "debug_outcome OJump = ''Jump''"
| "debug_outcome OExit = ''Exit''"
| "debug_outcome (OTrap code message) =
     fmt [''Trap { code: '', debug_trap_code code, '', message: '', debug_str message, '' }'']"

section \<open>Divergences\<close>

record trace_divergence =
  td_event_index :: usize
  td_field :: string
  td_left :: string
  td_right :: string

definition TraceDivergence_new :: "usize \<Rightarrow> string \<Rightarrow> string \<Rightarrow> string \<Rightarrow> trace_divergence" where
  "TraceDivergence_new i field l r = \<lparr>td_event_index = i, td_field = field, td_left = l, td_right = r\<rparr>"

definition show_divergence :: "trace_divergence \<Rightarrow> string" where
  "show_divergence d =
     fmt [''event #'', show_nat (td_event_index d), '' field '', td_field d, '' differs: '',
          td_left d, '' vs '', td_right d]"

definition or_else :: "'a option \<Rightarrow> 'a option \<Rightarrow> 'a option" where
  "or_else a b = (case a of Some x \<Rightarrow> Some x | None \<Rightarrow> b)"

definition field_divergence ::
  "('a \<Rightarrow> string) \<Rightarrow> usize \<Rightarrow> string \<Rightarrow> 'a \<Rightarrow> 'a \<Rightarrow> trace_divergence option" where
  "field_divergence dbg index field l r =
     (if l = r then None else Some (TraceDivergence_new index field (dbg l) (dbg r)))"

definition summarize_event :: "trace_event \<Rightarrow> string" where
  "summarize_event e =
     fmt [''pc='', show_nat (ev_pc e), '' opcode='', ev_opcode e, '' stack_after='',
          debug_list show_int (ev_stack_after e), '' outcome='', debug_outcome (ev_outcome e)]"

definition compare_event :: "usize \<Rightarrow> trace_event \<Rightarrow> trace_event \<Rightarrow> trace_divergence option" where
  "compare_event i l r =
     or_else (field_divergence show_nat i ''cycle'' (ev_cycle l) (ev_cycle r))
    (or_else (field_divergence show_nat i ''pc'' (ev_pc l) (ev_pc r))
    (or_else (field_divergence debug_str i ''opcode'' (ev_opcode l) (ev_opcode r))
    (or_else (field_divergence show_int i ''arg1'' (ev_arg1 l) (ev_arg1 r))
    (or_else (field_divergence show_int i ''arg2'' (ev_arg2 l) (ev_arg2 r))
    (or_else (field_divergence (debug_list show_int) i ''stack_before''
                (ev_stack_before l) (ev_stack_before r))
    (or_else (field_divergence (debug_list show_int) i ''stack_after''
                (ev_stack_after l) (ev_stack_after r))
    (or_else (field_divergence show_nat i ''frame_depth_before''
                (ev_frame_depth_before l) (ev_frame_depth_before r))
    (or_else (field_divergence show_nat i ''frame_depth_after''
                (ev_frame_depth_after l) (ev_frame_depth_after r))
    (or_else (field_divergence show_nat i ''next_pc'' (ev_next_pc l) (ev_next_pc r))
       (field_divergence debug_outcome i ''outcome'' (ev_outcome l) (ev_outcome r)))))))))))"

text \<open>The loop over the zipped traces, with the index of the next pair of events.\<close>

fun first_event_divergence ::
  "usize \<Rightarrow> trace_event list \<Rightarrow> trace_event list \<Rightarrow> trace_divergence option" where
  "first_event_divergence i (l # ls) (r # rs) =
     (case compare_event i l r of
        Some d \<Rightarrow> Some d
      | None \<Rightarrow> first_event_divergence (i + 1) ls rs)"
| "first_event_divergence i [] rs = None"
| "first_event_divergence i (l # ls) [] = None"

definition length_divergence :: "trace_event list \<Rightarrow> trace_event list \<Rightarrow> trace_divergence option" where
  "length_divergence l r =
     (if length l = length r then None
      else if length l < length r
      then Some (TraceDivergence_new (length l) ''length'' ''<end>'' (summarize_event (r ! length l)))
      else Some (TraceDivergence_new (length r) ''length'' (summarize_event (l ! length r)) ''<end>''))"

definition first_trace_divergence :: "trace_event list \<Rightarrow> trace_event list \<Rightarrow> trace_divergence option" where
  "first_trace_divergence l r =
     (case first_event_divergence 0 l r of
        Some d \<Rightarrow> Some d
      | None \<Rightarrow> length_divergence l r)"

section \<open>Normalised stacks\<close>

datatype normalized_value = NInt i64 | NArrayRef usize

fun debug_normalized :: "normalized_value \<Rightarrow> string" where
  "debug_normalized (NInt v) = fmt [''Int('', show_int v, '')'']"
| "debug_normalized (NArrayRef n) = fmt [''ArrayRef('', show_nat n, '')'']"

record normalized_stack_event =
  ne_before :: "normalized_value list"
  ne_after :: "normalized_value list"

record trace_normalizer =
  nz_stack :: "normalized_value list"
  nz_next_array_ref :: usize

definition normalizer_new :: trace_normalizer where
  "normalizer_new = \<lparr>nz_stack = [], nz_next_array_ref = 0\<rparr>"

definition normalize_before :: "trace_normalizer \<Rightarrow> trace_event \<Rightarrow> normalized_value list" where
  "normalize_before n e =
     (if length (nz_stack n) = length (ev_stack_before e) then nz_stack n
      else List.map NInt (ev_stack_before e))"

text \<open>A raw value that did not change keeps its normalised form.\<close>

definition preserved_value ::
  "i64 list \<Rightarrow> normalized_value list \<Rightarrow> nat \<Rightarrow> i64 \<Rightarrow> normalized_value" where
  "preserved_value raw_before before i v =
     (if i < length raw_before \<and> raw_before ! i = v
      then if i < length before then before ! i else NInt v
      else NInt v)"

definition preserve_stack_prefix ::
  "i64 list \<Rightarrow> normalized_value list \<Rightarrow> i64 list \<Rightarrow> normalized_value list" where
  "preserve_stack_prefix raw_before before raw_after =
     List.map (\<lambda>(i, v). preserved_value raw_before before i v) (List.enumerate 0 raw_after)"

definition is_allocation :: "trace_event \<Rightarrow> bool" where
  "is_allocation e \<longleftrightarrow>
     (ev_opcode e = ''AllocArray'' \<or> ev_opcode e = ''ArrayNew'') \<and>
     length (ev_stack_after e) = length (ev_stack_before e) + 1"

definition normalize_after ::
  "trace_event \<Rightarrow> normalized_value list \<Rightarrow> trace_normalizer \<Rightarrow> normalized_value list \<times> trace_normalizer" where
  "normalize_after e before n =
     (let after = preserve_stack_prefix (ev_stack_before e) before (ev_stack_after e)
      in if is_allocation e
         then (if after = [] then (after, n)
               else (butlast after @ [NArrayRef (nz_next_array_ref n)],
                     n\<lparr>nz_next_array_ref := nz_next_array_ref n + 1\<rparr>))
         else (after, n))"

definition normalize_event ::
  "trace_event \<Rightarrow> trace_normalizer \<Rightarrow> normalized_stack_event \<times> trace_normalizer" where
  "normalize_event e n =
     (let before = normalize_before n e;
          (after, n) = normalize_after e before n
      in (\<lparr>ne_before = before, ne_after = after\<rparr>, n\<lparr>nz_stack := after\<rparr>))"

definition compare_event_semantic ::
  "usize \<Rightarrow> trace_event \<Rightarrow> trace_event \<Rightarrow> normalized_stack_event \<Rightarrow> normalized_stack_event \<Rightarrow>
     trace_divergence option" where
  "compare_event_semantic i l r ls rs =
     or_else (field_divergence show_nat i ''cycle'' (ev_cycle l) (ev_cycle r))
    (or_else (field_divergence show_nat i ''pc'' (ev_pc l) (ev_pc r))
    (or_else (field_divergence debug_str i ''opcode'' (ev_opcode l) (ev_opcode r))
    (or_else (field_divergence show_int i ''arg1'' (ev_arg1 l) (ev_arg1 r))
    (or_else (field_divergence show_int i ''arg2'' (ev_arg2 l) (ev_arg2 r))
    (or_else (field_divergence (debug_list debug_normalized) i ''stack_before''
                (ne_before ls) (ne_before rs))
    (or_else (field_divergence (debug_list debug_normalized) i ''stack_after''
                (ne_after ls) (ne_after rs))
    (or_else (field_divergence show_nat i ''frame_depth_before''
                (ev_frame_depth_before l) (ev_frame_depth_before r))
    (or_else (field_divergence show_nat i ''frame_depth_after''
                (ev_frame_depth_after l) (ev_frame_depth_after r))
    (or_else (field_divergence show_nat i ''next_pc'' (ev_next_pc l) (ev_next_pc r))
       (field_divergence debug_outcome i ''outcome'' (ev_outcome l) (ev_outcome r)))))))))))"

fun first_semantic_event_divergence ::
  "usize \<Rightarrow> trace_normalizer \<Rightarrow> trace_normalizer \<Rightarrow> trace_event list \<Rightarrow> trace_event list \<Rightarrow>
     trace_divergence option" where
  "first_semantic_event_divergence i nl nr (l # ls) (r # rs) =
     (let (l_stack, nl) = normalize_event l nl;
          (r_stack, nr) = normalize_event r nr
      in case compare_event_semantic i l r l_stack r_stack of
           Some d \<Rightarrow> Some d
         | None \<Rightarrow> first_semantic_event_divergence (i + 1) nl nr ls rs)"
| "first_semantic_event_divergence i nl nr [] rs = None"
| "first_semantic_event_divergence i nl nr (l # ls) [] = None"

definition first_semantic_trace_divergence ::
  "trace_event list \<Rightarrow> trace_event list \<Rightarrow> trace_divergence option" where
  "first_semantic_trace_divergence l r =
     (case first_semantic_event_divergence 0 normalizer_new normalizer_new l r of
        Some d \<Rightarrow> Some d
      | None \<Rightarrow> length_divergence l r)"

section \<open>The stable hasher\<close>

type_synonym byte = "8 word"

text \<open>\<open>to_le_bytes\<close> of an n-byte integer, signed or unsigned; \<open>as_bytes\<close> of a string is UTF-8.\<close>

definition le_bytes :: "nat \<Rightarrow> int \<Rightarrow> byte list" where
  "le_bytes n v = List.map (\<lambda>i. word_of_int (v div 256 ^ i)) [0..<n]"

definition utf8_char :: "char \<Rightarrow> byte list" where
  "utf8_char c =
     (let n = of_char c :: nat in
      if n < 128 then [word_of_nat n] else [word_of_nat (192 + n div 64), word_of_nat (128 + n mod 64)])"

definition as_bytes :: "string \<Rightarrow> byte list" where
  "as_bytes s = concat (List.map utf8_char s)"

record stable_hasher =
  hs_state :: "64 word"

definition HASH_OFFSET :: "64 word" where "HASH_OFFSET = 0xcbf29ce484222325"
definition HASH_PRIME :: "64 word" where "HASH_PRIME = 0x00000100000001b3"

definition hasher_new :: stable_hasher where
  "hasher_new = \<lparr>hs_state = HASH_OFFSET\<rparr>"

definition write_byte :: "byte \<Rightarrow> stable_hasher \<Rightarrow> stable_hasher" where
  "write_byte b h = h\<lparr>hs_state := (hs_state h XOR ucast b) * HASH_PRIME\<rparr>"

definition write_bytes :: "byte list \<Rightarrow> stable_hasher \<Rightarrow> stable_hasher" where
  "write_bytes bs h = fold write_byte bs h"

definition write_u8 :: "nat \<Rightarrow> stable_hasher \<Rightarrow> stable_hasher" where
  "write_u8 v = write_bytes [word_of_nat v]"

definition write_u64 :: "nat \<Rightarrow> stable_hasher \<Rightarrow> stable_hasher" where
  "write_u64 v = write_bytes (le_bytes 8 (int v))"

definition write_i64 :: "i64 \<Rightarrow> stable_hasher \<Rightarrow> stable_hasher" where
  "write_i64 v = write_bytes (le_bytes 8 v)"

definition write_i32 :: "i32 \<Rightarrow> stable_hasher \<Rightarrow> stable_hasher" where
  "write_i32 v = write_bytes (le_bytes 4 v)"

definition write_usize :: "usize \<Rightarrow> stable_hasher \<Rightarrow> stable_hasher" where
  "write_usize v = write_u64 v"

definition write_string :: "string \<Rightarrow> stable_hasher \<Rightarrow> stable_hasher" where
  "write_string s h = write_bytes (as_bytes s) (write_usize (length (as_bytes s)) h)"

definition hash_i64_slice :: "i64 list \<Rightarrow> stable_hasher \<Rightarrow> stable_hasher" where
  "hash_i64_slice vs h = fold write_i64 vs (write_usize (length vs) h)"

fun hash_outcome :: "trace_outcome \<Rightarrow> stable_hasher \<Rightarrow> stable_hasher" where
  "hash_outcome OContinue h = write_u8 0 h"
| "hash_outcome OJump h = write_u8 1 h"
| "hash_outcome OExit h = write_u8 2 h"
| "hash_outcome (OTrap code message) h =
     write_string message (write_u8 (trap_code_u8 code) (write_u8 3 h))"

definition hash_event :: "trace_event \<Rightarrow> stable_hasher \<Rightarrow> stable_hasher" where
  "hash_event e h =
     (let h = write_u64 (ev_cycle e) h;
          h = write_usize (ev_pc e) h;
          h = write_string (ev_opcode e) h;
          h = write_i32 (ev_arg1 e) h;
          h = write_i32 (ev_arg2 e) h;
          h = hash_i64_slice (ev_stack_before e) h;
          h = hash_i64_slice (ev_stack_after e) h;
          h = write_usize (ev_frame_depth_before e) h;
          h = write_usize (ev_frame_depth_after e) h;
          h = write_usize (ev_next_pc e) h
      in hash_outcome (ev_outcome e) h)"

definition trace_fingerprint :: "trace_event list \<Rightarrow> 64 word" where
  "trace_fingerprint es =
     hs_state (fold hash_event es
       (write_usize (length es) (write_bytes (as_bytes ''minilang.trace.v1'') hasher_new)))"

definition stable_fingerprint_bytes :: "byte list \<Rightarrow> 64 word" where
  "stable_fingerprint_bytes bs =
     hs_state (write_bytes bs
       (write_usize (length bs) (write_bytes (as_bytes ''minilang.audit.v1'') hasher_new)))"

section \<open>Summaries\<close>

record trace_summary =
  sm_event_count :: usize
  sm_first_pc :: "usize option"
  sm_last_pc :: "usize option"
  sm_final_stack_depth :: usize
  sm_final_stack_top :: "i64 option"
  sm_jumps :: usize
  sm_exits :: usize
  sm_traps :: usize
  sm_fingerprint :: "64 word"

fun count_outcome :: "trace_outcome \<Rightarrow> usize \<times> usize \<times> usize \<Rightarrow> usize \<times> usize \<times> usize" where
  "count_outcome OContinue (jumps, exits, traps) = (jumps, exits, traps)"
| "count_outcome OJump (jumps, exits, traps) = (jumps + 1, exits, traps)"
| "count_outcome OExit (jumps, exits, traps) = (jumps, exits + 1, traps)"
| "count_outcome (OTrap _ _) (jumps, exits, traps) = (jumps, exits, traps + 1)"

definition first_of :: "'a list \<Rightarrow> 'a option" where
  "first_of xs = (case xs of [] \<Rightarrow> None | x # _ \<Rightarrow> Some x)"

definition last_of :: "'a list \<Rightarrow> 'a option" where
  "last_of xs = first_of (rev xs)"

definition summarize_trace :: "trace_event list \<Rightarrow> trace_summary" where
  "summarize_trace es =
     (let (jumps, exits, traps) = fold (\<lambda>e. count_outcome (ev_outcome e)) es (0, 0, 0);
          final_stack = (case last_of es of Some e \<Rightarrow> ev_stack_after e | None \<Rightarrow> [])
      in \<lparr>sm_event_count = length es, sm_first_pc = map_option ev_pc (first_of es),
          sm_last_pc = map_option ev_pc (last_of es), sm_final_stack_depth = length final_stack,
          sm_final_stack_top = last_of final_stack, sm_jumps = jumps, sm_exits = exits,
          sm_traps = traps, sm_fingerprint = trace_fingerprint es\<rparr>)"

definition hex64 :: "64 word \<Rightarrow> string" where
  "hex64 w = hex_fixed 16 (unat w)"

definition fingerprint_hex :: "trace_summary \<Rightarrow> string" where
  "fingerprint_hex s = hex64 (sm_fingerprint s)"

section \<open>JSON\<close>

definition json_char :: "char \<Rightarrow> string" where
  "json_char c =
     (if c = CHR 0x22 then [CHR 0x5C, CHR 0x22]
      else if c = CHR 0x5C then [CHR 0x5C, CHR 0x5C]
      else if c = CHR 0x0A then [CHR 0x5C, CHR ''n'']
      else if c = CHR 0x0D then [CHR 0x5C, CHR ''r'']
      else if c = CHR 0x09 then [CHR 0x5C, CHR ''t'']
      else if (of_char c :: nat) \<le> 0x1f then CHR 0x5C # CHR ''u'' # hex_fixed 4 (of_char c)
      else [c])"

definition json_string :: "string \<Rightarrow> string" where
  "json_string s = fmt [[CHR 0x22], concat (List.map json_char s), [CHR 0x22]]"

text \<open>A key of an object, with its quotes and colon.\<close>

definition json_key :: "string \<Rightarrow> string" where
  "json_key k = fmt [[CHR 0x22], k, [CHR 0x22], '':'']"

definition json_optional :: "('a \<Rightarrow> string) \<Rightarrow> 'a option \<Rightarrow> string" where
  "json_optional f v = (case v of Some x \<Rightarrow> f x | None \<Rightarrow> ''null'')"

definition json_i64_array :: "i64 list \<Rightarrow> string" where
  "json_i64_array vs = fmt [''['', separated '','' (List.map show_int vs), '']'']"

fun json_outcome :: "trace_outcome \<Rightarrow> string" where
  "json_outcome OContinue = fmt [''{'', json_key ''kind'', json_string ''continue'', ''}'']"
| "json_outcome OJump = fmt [''{'', json_key ''kind'', json_string ''jump'', ''}'']"
| "json_outcome OExit = fmt [''{'', json_key ''kind'', json_string ''exit'', ''}'']"
| "json_outcome (OTrap code message) =
     fmt [''{'', json_key ''kind'', json_string ''trap'', '','', json_key ''code'', show_nat (trap_code_u8 code),
          '','', json_key ''trap'', json_string (debug_trap_code code),
          '','', json_key ''message'', json_string message, ''}'']"

definition json_event :: "trace_event \<Rightarrow> string" where
  "json_event e =
     fmt [''{'', json_key ''cycle'', show_nat (ev_cycle e),
          '','', json_key ''pc'', show_nat (ev_pc e),
          '','', json_key ''opcode'', json_string (ev_opcode e),
          '','', json_key ''arg1'', show_int (ev_arg1 e),
          '','', json_key ''arg2'', show_int (ev_arg2 e),
          '','', json_key ''stack_before'', json_i64_array (ev_stack_before e),
          '','', json_key ''stack_after'', json_i64_array (ev_stack_after e),
          '','', json_key ''frame_depth_before'', show_nat (ev_frame_depth_before e),
          '','', json_key ''frame_depth_after'', show_nat (ev_frame_depth_after e),
          '','', json_key ''next_pc'', show_nat (ev_next_pc e),
          '','', json_key ''outcome'', json_outcome (ev_outcome e), ''}'']"

definition json_summary :: "trace_summary \<Rightarrow> string" where
  "json_summary s =
     fmt [''{'', json_key ''event_count'', show_nat (sm_event_count s),
          '','', json_key ''first_pc'', json_optional show_nat (sm_first_pc s),
          '','', json_key ''last_pc'', json_optional show_nat (sm_last_pc s),
          '','', json_key ''final_stack_depth'', show_nat (sm_final_stack_depth s),
          '','', json_key ''final_stack_top'', json_optional show_int (sm_final_stack_top s),
          '','', json_key ''jumps'', show_nat (sm_jumps s),
          '','', json_key ''exits'', show_nat (sm_exits s),
          '','', json_key ''traps'', show_nat (sm_traps s),
          '','', json_key ''fingerprint'', json_string (fingerprint_hex s), ''}'']"

definition trace_summary_to_json :: "string \<Rightarrow> trace_event list \<Rightarrow> string" where
  "trace_summary_to_json backend es =
     fmt [''{'', [CHR 10], ''  '', json_key ''backend'', '' '', json_string backend,
          '','', [CHR 10], ''  '', json_key ''summary'', '' '', json_summary (summarize_trace es),
          [CHR 10], ''}'']"

definition events_to_json :: "string \<Rightarrow> trace_event list \<Rightarrow> string" where
  "events_to_json backend es =
     fmt [''{'', [CHR 10], ''  '', json_key ''backend'', '' '', json_string backend,
          '','', [CHR 10], ''  '', json_key ''events'', '' ['',
          separated '','' (List.map (\<lambda>e. fmt [[CHR 10], ''    '', json_event e]) es),
          [CHR 10], ''  ]'', [CHR 10], ''}'']"

end
