(* ===== verification/Trace_Props.thy ===== *)
theory Trace_Props
  imports Trace Lexer_Props "HOL-Library.Sublist"
begin

text \<open>
  The comparisons of traces find the first differing event, exactly or up to normalised stacks. The
  byte stream under the fingerprint and the JSON text determine the trace; the locale
  \<open>unique_code\<close> holds what these encodings share. A JSON string decodes to the string it was made from.
\<close>

section \<open>First divergences\<close>

lemma or_else_simps [simp]: "or_else None b = b" "or_else (Some x) b = Some x"
  by (simp_all add: or_else_def)

lemma or_else_None: "or_else a b = None \<longleftrightarrow> a = None \<and> b = None"
  by (cases a) simp_all

lemma field_divergence_None [simp]: "field_divergence dbg i f l r = None \<longleftrightarrow> l = r"
  by (simp add: field_divergence_def)

text \<open>Every divergence that a comparison of events reports carries the index it was given.\<close>

definition reports_index :: "usize \<Rightarrow> trace_divergence option \<Rightarrow> bool" where
  "reports_index i d \<longleftrightarrow> (\<forall>x. d = Some x \<longrightarrow> td_event_index x = i)"

lemma reports_index_intros [simp]:
  "reports_index i (field_divergence dbg i f l r)"
  "reports_index i a \<Longrightarrow> reports_index i b \<Longrightarrow> reports_index i (or_else a b)"
  by (cases a; simp add: reports_index_def field_divergence_def TraceDivergence_new_def)+

text \<open>Both loops over zipped traces are this walk; a comparison sees a view of the events.\<close>

fun walk :: "(usize \<Rightarrow> 'e \<Rightarrow> 'e \<Rightarrow> trace_divergence option) \<Rightarrow> usize \<Rightarrow> 'e list \<Rightarrow> 'e list \<Rightarrow>
    trace_divergence option" where
  "walk cmp i (l # ls) (r # rs) = or_else (cmp i l r) (walk cmp (i + 1) ls rs)"
| "walk cmp i ls rs = None"

locale event_comparison =
  fixes cmp :: "usize \<Rightarrow> 'e \<Rightarrow> 'e \<Rightarrow> trace_divergence option" and view :: "'e \<Rightarrow> 'v"
  assumes same_view: "cmp i l r = None \<longleftrightarrow> view l = view r"
    and index: "reports_index i (cmp i l r)"
begin

lemma walk_index:
  "map_option td_event_index (walk cmp i ls rs) =
     (let n = length (longest_common_prefix (List.map view ls) (List.map view rs))
      in if n = min (length ls) (length rs) then None else Some (i + n))"
proof (induction ls arbitrary: i rs)
  case (Cons l ls)
  show ?case
  proof (cases rs)
    case (Cons r rs')
    show ?thesis
    proof (cases "cmp i l r")
      case None
      with Cons.IH [of "i + 1" rs'] Cons same_view [of i l r] show ?thesis by (simp add: Let_def)
    next
      case (Some d)
      with Cons same_view [of i l r] index [of i l r] show ?thesis by (simp add: reports_index_def)
    qed
  qed simp
qed simp_all

end

definition event_view :: "trace_event \<Rightarrow> trace_event" where
  "event_view e = e"

interpretation exact: event_comparison compare_event event_view
  by unfold_locales (simp_all add: compare_event_def or_else_None event_view_def trace_event.equality, auto)


lemma lcp_whole: "length xs = length ys \<Longrightarrow> length (longest_common_prefix xs ys) = length xs \<longleftrightarrow> xs = ys"
  by (induction xs ys rule: longest_common_prefix.induct) auto

lemma lcp_bound: "length (longest_common_prefix xs ys) \<le> min (length xs) (length ys)"
  by (induction xs ys rule: longest_common_prefix.induct) auto

text \<open>What a comparison followed by the comparison of the lengths finds.\<close>

lemma walk_then_length:
  assumes "map_option td_event_index d =
      (let n = length (longest_common_prefix us vs) in if n = min (length us) (length vs) then None else Some n)"
    and "length us = length l" "length vs = length r"
  shows "map_option td_event_index (case d of Some x \<Rightarrow> Some x | None \<Rightarrow> length_divergence l r) =
    (if us = vs then None else Some (length (longest_common_prefix us vs)))"
proof (cases d)
  case None
  with assms have n: "length (longest_common_prefix us vs) = min (length l) (length r)"
    by (simp add: Let_def split: if_splits)
  show ?thesis
  proof (cases "length l = length r")
    case True
    with n lcp_whole [of us vs] None assms(2,3) show ?thesis by (simp add: length_divergence_def)
  next
    case False
    then have "us \<noteq> vs" using assms(2,3) by auto
    with n None False show ?thesis by (simp add: length_divergence_def TraceDivergence_new_def)
  qed
next
  case (Some x)
  with assms(1) have "length (longest_common_prefix us vs) \<noteq> min (length us) (length vs)"
      "td_event_index x = length (longest_common_prefix us vs)"
    by (simp_all add: Let_def split: if_splits)
  moreover from this(1) have "us \<noteq> vs" using lcp_whole [of us vs] by auto
  ultimately show ?thesis using Some by simp
qed

lemma first_event_divergence_walk: "first_event_divergence i l r = walk compare_event i l r"
  by (induction i l r rule: first_event_divergence.induct) (auto simp: or_else_def split: option.split)

text \<open>
  C34: The comparison of traces is exact: it reports nothing iff the traces are equal, and otherwise an
  event at the length of their longest common prefix.
\<close>
theorem first_trace_divergence_exact:
  "map_option td_event_index (first_trace_divergence l r) =
     (if l = r then None else Some (length (longest_common_prefix l r)))"
  unfolding first_trace_divergence_def first_event_divergence_walk
  by (rule walk_then_length) (simp_all add: exact.walk_index event_view_def [abs_def] Let_def)

section \<open>Normalised traces\<close>

text \<open>What the semantic comparison sees of an event: the stacks are replaced by normalised ones.\<close>

type_synonym semantic_view = "trace_event \<times> normalized_stack_event"

definition semantic_view :: "trace_event \<times> normalized_stack_event \<Rightarrow> semantic_view" where
  "semantic_view = (\<lambda>(e, s). (e\<lparr>ev_stack_before := [], ev_stack_after := []\<rparr>, s))"

fun annotate :: "trace_normalizer \<Rightarrow> trace_event list \<Rightarrow> (trace_event \<times> normalized_stack_event) list" where
  "annotate n [] = []"
| "annotate n (e # es) = (e, fst (normalize_event e n)) # annotate (snd (normalize_event e n)) es"

definition semantic_trace :: "trace_event list \<Rightarrow> semantic_view list" where
  "semantic_trace es = List.map semantic_view (annotate normalizer_new es)"

definition compare_annotated ::
  "usize \<Rightarrow> trace_event \<times> normalized_stack_event \<Rightarrow> trace_event \<times> normalized_stack_event \<Rightarrow>
     trace_divergence option" where
  "compare_annotated i x y = compare_event_semantic i (fst x) (fst y) (snd x) (snd y)"

interpretation semantic: event_comparison compare_annotated semantic_view
proof
  fix i and x y :: "trace_event \<times> normalized_stack_event"
  show "compare_annotated i x y = None \<longleftrightarrow> semantic_view x = semantic_view y"
    by (cases x; cases y; cases "fst x"; cases "fst y"; cases "snd x"; cases "snd y")
      (auto simp: compare_annotated_def compare_event_semantic_def or_else_None semantic_view_def)
  show "reports_index i (compare_annotated i x y)"
    by (simp add: compare_annotated_def compare_event_semantic_def)
qed

lemma length_annotate [simp]: "length (annotate n es) = length es"
  by (induction es arbitrary: n) simp_all

lemma first_semantic_event_divergence_walk:
  "first_semantic_event_divergence i nl nr l r = walk compare_annotated i (annotate nl l) (annotate nr r)"
  by (induction i nl nr l r rule: first_semantic_event_divergence.induct)
    (auto simp: or_else_def compare_annotated_def Let_def split: option.split prod.split)

text \<open>
  The semantic comparison is the exact comparison of the normalised traces.
\<close>

lemma first_semantic_trace_divergence_exact:
  "map_option td_event_index (first_semantic_trace_divergence l r) =
     (if semantic_trace l = semantic_trace r then None
      else Some (length (longest_common_prefix (semantic_trace l) (semantic_trace r))))"
  unfolding first_semantic_trace_divergence_def first_semantic_event_divergence_walk semantic_trace_def
  by (rule walk_then_length) (simp_all add: semantic.walk_index Let_def)


section \<open>Encodings\<close>

text \<open>
  An encoding whose texts determine the value and where they end, as long as what follows is a
  possible continuation (\<open>stop\<close>): all continuations for the byte encodings, those that do not start
  with a digit for decimal numbers.
\<close>

locale unique_code =
  fixes enc :: "'a \<Rightarrow> 'b list" and ok :: "'a \<Rightarrow> bool" and stop :: "'b list \<Rightarrow> bool"
  assumes unique: "\<lbrakk>enc a @ x = enc b @ y; ok a; ok b; stop x; stop y\<rbrakk> \<Longrightarrow> a = b \<and> x = y"
begin

lemma repeated:
  assumes "concat (List.map enc xs) @ x = concat (List.map enc ys) @ y" "length xs = length ys"
    and "\<forall>a \<in> set xs. ok a" "\<forall>a \<in> set ys. ok a" "\<forall>z. stop z"
  shows "xs = ys \<and> x = y"
  using assms(2,1,3,4)
proof (induction xs ys rule: list_induct2)
  case (Cons a as b bs)
  then have "enc a @ concat (List.map enc as) @ x = enc b @ concat (List.map enc bs) @ y" by simp
  from unique [OF this] Cons assms(5) show ?case by simp
qed simp

lemma unique_iff:
  "ok a \<Longrightarrow> ok b \<Longrightarrow> stop x \<Longrightarrow> stop y \<Longrightarrow> enc a @ x = enc b @ y \<longleftrightarrow> a = b \<and> x = y"
  using unique [of a x b y] by auto

lemma alone_iff: "ok a \<Longrightarrow> ok b \<Longrightarrow> stop [] \<Longrightarrow> enc a = enc b \<longleftrightarrow> a = b"
  using unique_iff [of a b "[]" "[]"] by simp

end

section \<open>The bytes of a trace\<close>

definition fits_u64 :: "nat \<Rightarrow> bool" where
  "fits_u64 n \<longleftrightarrow> n < 18446744073709551616"

definition any :: "'a list \<Rightarrow> bool" where
  "any x \<longleftrightarrow> True"

lemma any_True [simp]: "any x" by (simp add: any_def)

lemma length_le_bytes [simp]: "length (le_bytes n v) = n"
  by (simp add: le_bytes_def)

lemma le_bytes_Suc: "le_bytes (Suc n) v = word_of_int v # le_bytes n (v div 256)"
proof -
  have "[0..<Suc n] = 0 # List.map Suc [0..<n]" by (simp add: map_Suc_upt upt_conv_Cons del: upt_Suc)
  then show ?thesis by (simp add: le_bytes_def zdiv_zmult2_eq)
qed

lemma byte_eq: "(word_of_int v :: byte) = word_of_int w \<longleftrightarrow> v mod 256 = w mod 256"
  by (simp add: word_of_int_eq_iff take_bit_eq_mod)

lemma le_bytes_eq: "le_bytes n v = le_bytes n w \<longleftrightarrow> v mod 256 ^ n = w mod 256 ^ n"
proof (induction n arbitrary: v w)
  case 0
  show ?case by (simp add: le_bytes_def)
next
  case (Suc n)
  have split: "u mod 256 ^ Suc n = 256 * (u div 256 mod 256 ^ n) + u mod 256" for u :: int
    by (simp add: zmod_zmult2_eq)
  show ?case
  proof
    assume "le_bytes (Suc n) v = le_bytes (Suc n) w"
    then have "v mod 256 = w mod 256" "v div 256 mod 256 ^ n = w div 256 mod 256 ^ n"
      by (simp_all add: le_bytes_Suc byte_eq Suc)
    then show "v mod 256 ^ Suc n = w mod 256 ^ Suc n" unfolding split by simp
  next
    assume eq: "v mod 256 ^ Suc n = w mod 256 ^ Suc n"
    then have "v mod 256 ^ Suc n mod 256 = w mod 256 ^ Suc n mod 256"
      and "v mod 256 ^ Suc n div 256 = w mod 256 ^ Suc n div 256" by simp_all
    then have "v mod 256 = w mod 256" "v div 256 mod 256 ^ n = w div 256 mod 256 ^ n"
      unfolding split by simp_all
    then show "le_bytes (Suc n) v = le_bytes (Suc n) w" by (simp add: le_bytes_Suc byte_eq Suc)
  qed
qed

interpretation u64: unique_code "\<lambda>n. le_bytes 8 (int n)" fits_u64 any
proof
  fix x y a b
  assume "le_bytes 8 (int a) @ x = le_bytes 8 (int b) @ y" and ok: "fits_u64 a" "fits_u64 b"
  then have "x = y" "int a mod 256 ^ 8 = int b mod 256 ^ 8" by (simp_all add: le_bytes_eq)
  with ok show "a = b \<and> x = y" by (simp add: fits_u64_def)
qed

interpretation i64: unique_code "le_bytes 8" is_i64 any
proof
  fix x y a b
  assume "le_bytes 8 a @ x = le_bytes 8 b @ y" and ok: "is_i64 a" "is_i64 b"
  then have "x = y" "a mod 18446744073709551616 = b mod 18446744073709551616" by (simp_all add: le_bytes_eq)
  moreover from this(2) have "wrap64 a = wrap64 b"
    unfolding wrap64_def by (intro arg_cong2 [of _ _ _ _ minus] mod_add_cong) simp_all
  ultimately show "a = b \<and> x = y" using ok by (simp add: wrap64_id)
qed

interpretation i32: unique_code "le_bytes 4" is_i32 any
proof
  fix x y a b
  assume "le_bytes 4 a @ x = le_bytes 4 b @ y" and ok: "is_i32 a" "is_i32 b"
  then have "x = y" "a mod 4294967296 = b mod 4294967296" by (simp_all add: le_bytes_eq)
  moreover from this(2) have "wrap32 a = wrap32 b"
    unfolding wrap32_def by (intro arg_cong2 [of _ _ _ _ minus] mod_add_cong) simp_all
  ultimately show "a = b \<and> x = y" using ok by (simp add: wrap32_id)
qed

text \<open>The bytes of a string, of a slice, of an outcome and of an event.\<close>

lemma word8_of_nat_eq: "m < 256 \<Longrightarrow> n < 256 \<Longrightarrow> (word_of_nat m :: byte) = word_of_nat n \<longleftrightarrow> m = n"
  by (simp add: word_of_nat_eq_iff take_bit_nat_eq_self)

lemma of_char_less: "(of_char c :: nat) < 256"
  by (rule nat_of_char_less_256)

lemma utf8_unique: "utf8_char c @ x = utf8_char d @ y \<Longrightarrow> c = d \<and> x = y"
proof -
  define m n where "m = (of_char c :: nat)" and "n = (of_char d :: nat)"
  have b: "m < 256" "n < 256" unfolding m_def n_def by (rule of_char_less)+
  have div': "192 + m div 64 < 256" "192 + n div 64 < 256"
    using b by (auto simp: less_mult_imp_div_less)
  have eq: "utf8_char c = (if m < 128 then [word_of_nat m] else [word_of_nat (192 + m div 64), word_of_nat (128 + m mod 64)])"
    "utf8_char d = (if n < 128 then [word_of_nat n] else [word_of_nat (192 + n div 64), word_of_nat (128 + n mod 64)])"
    by (simp_all add: utf8_char_def m_def n_def Let_def)
  assume h: "utf8_char c @ x = utf8_char d @ y"
  have "m = n \<and> x = y"
  proof (cases "m < 128"; cases "n < 128")
    assume "m < 128" "n < 128"
    with h b show ?thesis by (simp add: eq word8_of_nat_eq del: of_nat_add)
  next
    assume "m < 128" "\<not> n < 128"
    with h b div' show ?thesis by (simp add: eq word8_of_nat_eq del: of_nat_add)
  next
    assume "\<not> m < 128" "n < 128"
    with h b div' show ?thesis by (simp add: eq word8_of_nat_eq del: of_nat_add)
  next
    assume "\<not> m < 128" "\<not> n < 128"
    with h b div' have "m div 64 = n div 64" "m mod 64 = n mod 64" "x = y"
      by (simp_all add: eq word8_of_nat_eq del: of_nat_add)
    then show ?thesis by (metis mult_div_mod_eq)
  qed
  then show ?thesis by (simp add: m_def n_def)
qed

lemma as_bytes_inj: "as_bytes s = as_bytes t \<Longrightarrow> s = t"
proof (induction s arbitrary: t)
  case Nil
  then show ?case by (cases t) (auto simp: as_bytes_def utf8_char_def Let_def split: if_splits)
next
  case (Cons c s)
  show ?case
  proof (cases t)
    case Nil
    with Cons.prems show ?thesis by (auto simp: as_bytes_def utf8_char_def Let_def split: if_splits)
  next
    case (Cons d t')
    with Cons.prems have "utf8_char c @ as_bytes s = utf8_char d @ as_bytes t'" by (simp add: as_bytes_def)
    from utf8_unique [OF this] Cons.IH Cons show ?thesis by simp
  qed
qed

definition string_bytes :: "string \<Rightarrow> byte list" where
  "string_bytes s = le_bytes 8 (int (length (as_bytes s))) @ as_bytes s"

definition slice_bytes :: "i64 list \<Rightarrow> byte list" where
  "slice_bytes vs = le_bytes 8 (int (length vs)) @ concat (List.map (le_bytes 8) vs)"

fun outcome_bytes :: "trace_outcome \<Rightarrow> byte list" where
  "outcome_bytes OContinue = [0]"
| "outcome_bytes OJump = [1]"
| "outcome_bytes OExit = [2]"
| "outcome_bytes (OTrap code message) = [3, word_of_nat (trap_code_u8 code)] @ string_bytes message"

definition event_bytes :: "trace_event \<Rightarrow> byte list" where
  "event_bytes e =
     le_bytes 8 (int (ev_cycle e)) @ le_bytes 8 (int (ev_pc e)) @ string_bytes (ev_opcode e) @
     le_bytes 4 (ev_arg1 e) @ le_bytes 4 (ev_arg2 e) @
     slice_bytes (ev_stack_before e) @ slice_bytes (ev_stack_after e) @
     le_bytes 8 (int (ev_frame_depth_before e)) @ le_bytes 8 (int (ev_frame_depth_after e)) @
     le_bytes 8 (int (ev_next_pc e)) @ outcome_bytes (ev_outcome e)"

definition trace_bytes :: "trace_event list \<Rightarrow> byte list" where
  "trace_bytes es =
     as_bytes ''minilang.trace.v1'' @ le_bytes 8 (int (length es)) @ concat (List.map event_bytes es)"

text \<open>The ranges of the Rust types of the fields.\<close>

definition string_fits :: "string \<Rightarrow> bool" where
  "string_fits s \<longleftrightarrow> fits_u64 (length (as_bytes s))"

definition slice_fits :: "i64 list \<Rightarrow> bool" where
  "slice_fits vs \<longleftrightarrow> fits_u64 (length vs) \<and> (\<forall>v \<in> set vs. is_i64 v)"

fun outcome_fits :: "trace_outcome \<Rightarrow> bool" where
  "outcome_fits (OTrap code message) \<longleftrightarrow> string_fits message"
| "outcome_fits _ \<longleftrightarrow> True"

definition event_fits :: "trace_event \<Rightarrow> bool" where
  "event_fits e \<longleftrightarrow>
     fits_u64 (ev_cycle e) \<and> fits_u64 (ev_pc e) \<and> string_fits (ev_opcode e) \<and>
     is_i32 (ev_arg1 e) \<and> is_i32 (ev_arg2 e) \<and> slice_fits (ev_stack_before e) \<and>
     slice_fits (ev_stack_after e) \<and> fits_u64 (ev_frame_depth_before e) \<and>
     fits_u64 (ev_frame_depth_after e) \<and> fits_u64 (ev_next_pc e) \<and> outcome_fits (ev_outcome e)"

definition trace_fits :: "trace_event list \<Rightarrow> bool" where
  "trace_fits es \<longleftrightarrow> fits_u64 (length es) \<and> (\<forall>e \<in> set es. event_fits e)"

interpretation string_code: unique_code string_bytes string_fits any
proof
  fix x y s t
  assume h: "string_bytes s @ x = string_bytes t @ y" and ok: "string_fits s" "string_fits t"
  from ok have "fits_u64 (length (as_bytes s))" "fits_u64 (length (as_bytes t))" by (simp_all add: string_fits_def)
  with h have "length (as_bytes s) = length (as_bytes t)" "as_bytes s @ x = as_bytes t @ y"
    by (simp_all add: string_bytes_def u64.unique_iff u64.alone_iff)
  with as_bytes_inj [of s t] show "s = t \<and> x = y" by simp
qed

interpretation slice_code: unique_code slice_bytes slice_fits any
proof
  fix x y vs ws
  assume h: "slice_bytes vs @ x = slice_bytes ws @ y" and ok: "slice_fits vs" "slice_fits ws"
  from ok have fits: "fits_u64 (length vs)" "fits_u64 (length ws)"
    and vals: "\<forall>v \<in> set vs. is_i64 v" "\<forall>v \<in> set ws. is_i64 v" by (simp_all add: slice_fits_def)
  from h fits have "length vs = length ws"
    "concat (List.map (le_bytes 8) vs) @ x = concat (List.map (le_bytes 8) ws) @ y"
    by (simp_all add: slice_bytes_def u64.unique_iff u64.alone_iff)
  with i64.repeated vals show "vs = ws \<and> x = y" by simp
qed

lemma trap_code_u8_inj: "trap_code_u8 c = trap_code_u8 d \<longleftrightarrow> c = d"
  by (cases c; cases d) simp_all

lemma trap_code_u8_less: "trap_code_u8 c < 9"
  by (cases c) simp_all

interpretation outcome_code: unique_code outcome_bytes outcome_fits any
proof
  fix x y a b
  assume h: "outcome_bytes a @ x = outcome_bytes b @ y" and ok: "outcome_fits a" "outcome_fits b"
  have byte: "(word_of_nat (trap_code_u8 c) :: byte) = word_of_nat (trap_code_u8 d) \<longleftrightarrow> c = d" for c d
    using word8_of_nat_eq [of "trap_code_u8 c" "trap_code_u8 d"] trap_code_u8_less [of c] trap_code_u8_less [of d]
    by (simp add: trap_code_u8_inj)
  from h ok show "a = b \<and> x = y"
    by (cases a; cases b) (auto simp: byte string_code.unique_iff)
qed

lemmas byte_codes =
  u64.unique_iff u64.alone_iff i32.unique_iff i32.alone_iff string_code.unique_iff slice_code.unique_iff
  outcome_code.unique_iff

interpretation event_code: unique_code event_bytes event_fits any
proof
  fix x y e f
  assume "event_bytes e @ x = event_bytes f @ y" "event_fits e" "event_fits f"
  then show "e = f \<and> x = y"
    unfolding event_bytes_def event_fits_def append_assoc
    by (auto simp: byte_codes intro: trace_event.equality)
qed

section \<open>Fingerprints\<close>

lemma write_bytes_append: "write_bytes (xs @ ys) h = write_bytes ys (write_bytes xs h)"
  by (simp add: write_bytes_def)

lemma write_bytes_Cons: "write_bytes (b # bs) h = write_bytes bs (write_byte b h)"
  by (simp add: write_bytes_def)

lemma write_bytes_concat: "fold (\<lambda>a. write_bytes (f a)) as h = write_bytes (concat (List.map f as)) h"
  by (induction as arbitrary: h) (simp_all add: write_bytes_append, simp add: write_bytes_def)

lemma hash_slice_bytes: "hash_i64_slice vs h = write_bytes (slice_bytes vs) h"
  using write_bytes_concat [of "le_bytes 8" vs]
  by (simp add: hash_i64_slice_def slice_bytes_def write_bytes_append write_i64_def [abs_def] write_usize_def
      write_u64_def)

lemma hash_outcome_bytes: "hash_outcome out h = write_bytes (outcome_bytes out) h"
  by (cases out)
    (simp_all add: write_u8_def write_string_def string_bytes_def write_usize_def write_u64_def
      flip: write_bytes_append)

lemma hash_event_bytes: "hash_event e h = write_bytes (event_bytes e) h"
  by (simp add: hash_event_def event_bytes_def Let_def hash_slice_bytes hash_outcome_bytes write_usize_def
      write_u64_def write_i32_def write_string_def string_bytes_def write_bytes_append)

text \<open>
  C35: The fingerprint of a trace is the FNV-1a hash of a byte stream that determines the trace, for
  traces whose fields are in the ranges of their types.
\<close>
theorem trace_fingerprint_stream:
  assumes "trace_fits es" "trace_fits fs"
  shows "trace_fingerprint es = hs_state (write_bytes (trace_bytes es) hasher_new) \<and>
    (trace_bytes es = trace_bytes fs \<longleftrightarrow> es = fs)"
proof
  show "trace_fingerprint es = hs_state (write_bytes (trace_bytes es) hasher_new)"
    by (simp add: trace_fingerprint_def trace_bytes_def write_bytes_append hash_event_bytes [abs_def]
        write_bytes_concat write_usize_def write_u64_def)
  show "trace_bytes es = trace_bytes fs \<longleftrightarrow> es = fs"
    using assms event_code.repeated [of es "[]" fs "[]"]
    by (auto simp: trace_bytes_def trace_fits_def u64.unique_iff u64.alone_iff)
qed

text \<open>A trace of one event, as in the tests of trace.rs.\<close>

definition sample_event :: trace_event where
  "sample_event =
     \<lparr>ev_cycle = 1, ev_pc = 0, ev_opcode = ''LoadConst'', ev_arg1 = 42, ev_arg2 = 0, ev_stack_before = [],
      ev_stack_after = [42], ev_frame_depth_before = 1, ev_frame_depth_after = 1, ev_next_pc = 1,
      ev_outcome = OContinue\<rparr>"

lemma sample_fits: "trace_fits [sample_event]" "trace_fits [sample_event\<lparr>ev_stack_after := [43]\<rparr>]"
  by (simp_all add: trace_fits_def event_fits_def sample_event_def fits_u64_def string_fits_def slice_fits_def
      is_i32_def is_i64_def as_bytes_def utf8_char_def)

theorem trace_fingerprint_stream_witness:
  "trace_fingerprint [sample_event] = hs_state (write_bytes (trace_bytes [sample_event]) hasher_new) \<and>
   trace_bytes [sample_event] \<noteq> trace_bytes [sample_event\<lparr>ev_stack_after := [43]\<rparr>]"
  using trace_fingerprint_stream [OF sample_fits] by (simp add: sample_event_def)

text \<open>One step of the hash can be undone, as the prime is odd, and tells all bytes apart.\<close>

definition HASH_INVERSE :: "64 word" where
  "HASH_INVERSE = 0xce965057aff6957b"

lemma prime_inverse: "HASH_PRIME * HASH_INVERSE = 1"
  by (simp add: HASH_PRIME_def HASH_INVERSE_def)

lemma times_prime_inj: "x * HASH_PRIME = y * HASH_PRIME \<longleftrightarrow> x = y"
proof
  assume "x * HASH_PRIME = y * HASH_PRIME"
  then have "x * (HASH_PRIME * HASH_INVERSE) = y * (HASH_PRIME * HASH_INVERSE)"
    by (simp only: flip: mult.assoc)
  then show "x = y" by (simp only: prime_inverse mult_1_right)
qed simp

lemma xor_cancel: "x XOR z = y XOR z \<longleftrightarrow> x = (y :: 64 word)"
  by (auto simp: bit_eq_iff bit_xor_iff)

lemma byte_ucast_inj: "(ucast b :: 64 word) = ucast c \<longleftrightarrow> b = (c :: byte)"
proof
  assume eq: "(ucast b :: 64 word) = ucast c"
  show "b = c"
  proof (rule bit_word_eqI)
    fix n
    assume "n < LENGTH(8)"
    moreover from eq have "bit (ucast b :: 64 word) n \<longleftrightarrow> bit (ucast c :: 64 word) n" by simp
    ultimately show "bit b n \<longleftrightarrow> bit c n" by (simp add: bit_ucast_iff)
  qed
qed simp

lemma xor_cancel_left: "z XOR x = z XOR y \<longleftrightarrow> x = (y :: 64 word)"
  using xor_cancel [of x z y] by (simp add: xor.commute)

lemma write_byte_state_inj: "write_byte b h = write_byte b k \<longleftrightarrow> h = k"
  by (cases h; cases k) (simp add: write_byte_def times_prime_inj xor_cancel)

lemma write_byte_inj: "write_byte b h = write_byte c h \<longleftrightarrow> b = c"
  by (cases h) (simp add: write_byte_def times_prime_inj xor_cancel_left byte_ucast_inj)

lemma write_bytes_state_inj: "write_bytes bs h = write_bytes bs k \<longleftrightarrow> h = k"
  by (induction bs arbitrary: h k) (simp_all add: write_bytes_def write_byte_state_inj)

text \<open>
  C36: A change of a single byte always changes the fingerprint of a report.
\<close>
theorem single_byte_change_detected:
  "stable_fingerprint_bytes (xs @ b # ys) = stable_fingerprint_bytes (xs @ c # ys) \<longleftrightarrow> b = c"
proof -
  have state: "hs_state h = hs_state k \<longleftrightarrow> h = k" for h k :: stable_hasher by (cases h; cases k) simp
  have "write_bytes (xs @ b # ys) h = write_bytes (xs @ c # ys) h \<longleftrightarrow> b = c" for h
    by (simp add: write_bytes_append write_bytes_Cons write_bytes_state_inj write_byte_inj)
  then show ?thesis by (simp add: stable_fingerprint_bytes_def state)
qed

end
