(* ===== verification/Run_Audit.thy ===== *)
theory Run_Audit
  imports Trace Gc_Vm
begin

text \<open>
  Audit reports over traced runs (audit.rs): the replay of the reference machine, the difference of
  the traces of the two machines, and their JSON evidence. A run that panics aborts the report
  (\<open>Inl\<close>), one that does not return has no report (\<open>None\<close>).
\<close>

section \<open>Runs\<close>

type_synonym 'a run = "(string + 'a) option"

definition with_run :: "'a run \<Rightarrow> ('a \<Rightarrow> 'b run) \<Rightarrow> 'b run" where
  "with_run r f = (case r of None \<Rightarrow> None | Some (Inl m) \<Rightarrow> Some (Inl m) | Some (Inr a) \<Rightarrow> f a)"

lemma with_run_simps [simp]:
  "with_run None f = None" "with_run (Some (Inl m)) f = Some (Inl m)" "with_run (Some (Inr a)) f = f a"
  by (simp_all add: with_run_def)

definition exit_run :: "('s \<Rightarrow> 'b) \<Rightarrow> ((string + 'a) \<times> 's) option \<Rightarrow> ('a \<times> 'b) run" where
  "exit_run f e =
     (case e of
        None \<Rightarrow> None
      | Some (Inl m, t) \<Rightarrow> Some (Inl m)
      | Some (Inr r, t) \<Rightarrow> Some (Inr (r, f t)))"

lemma exit_run_simps [simp]:
  "exit_run f None = None" "exit_run f (Some (Inl m, t)) = Some (Inl m)"
  "exit_run f (Some (Inr r, t)) = Some (Inr (r, f t))"
  by (simp_all add: exit_run_def)

definition traced_vm_run :: "compiled_program \<Rightarrow> (vm_result \<times> trace_event list) run" where
  "traced_vm_run p = exit_run trace_events (vm_run p (with_trace vm_new))"

definition traced_gc_run :: "compiled_program \<Rightarrow> (gc_vm_result \<times> trace_event list) run" where
  "traced_gc_run p = exit_run gc_trace_events (gc_run p (gc_with_trace gc_new))"

section \<open>Outcomes\<close>

record execution_summary =
  es_success :: bool
  es_return_value :: i64
  es_trap_code :: trap_code
  es_output :: "string list"

definition summary_from_vm :: "vm_result \<Rightarrow> execution_summary" where
  "summary_from_vm r =
     \<lparr>es_success = success r, es_return_value = return_value r, es_trap_code = trap_code r,
      es_output = res_output r\<rparr>"

definition summary_from_gc_vm :: "gc_vm_result \<Rightarrow> execution_summary" where
  "summary_from_gc_vm r =
     \<lparr>es_success = gr_success r, es_return_value = gr_return_value r, es_trap_code = gr_trap_code r,
      es_output = gr_output r\<rparr>"

definition format_summary :: "execution_summary \<Rightarrow> string" where
  "format_summary s =
     fmt [''success='', show_bool (es_success s), '', return='', show_int (es_return_value s),
          '', trap='', debug_trap_code (es_trap_code s), '', output='', debug_list debug_str (es_output s)]"

definition outcome_mismatch :: "execution_summary \<Rightarrow> execution_summary \<Rightarrow> string option" where
  "outcome_mismatch l r =
     (if l = r then None else Some (fmt [format_summary l, '' vs '', format_summary r]))"

section \<open>Replay\<close>

record trace_replay_report =
  rr_replayable :: bool
  rr_event_count :: usize
  rr_original_summary :: trace_summary
  rr_replay_summary :: trace_summary
  rr_original_outcome :: execution_summary
  rr_replay_outcome :: execution_summary
  rr_divergence :: "trace_divergence option"
  rr_outcome_mismatch :: "string option"

definition replay_report ::
  "vm_result \<times> trace_event list \<Rightarrow> vm_result \<times> trace_event list \<Rightarrow> trace_replay_report" where
  "replay_report original replay =
     (let original_summary = summarize_trace (snd original);
          replay_summary = summarize_trace (snd replay);
          original_outcome = summary_from_vm (fst original);
          replay_outcome = summary_from_vm (fst replay);
          mismatch = outcome_mismatch original_outcome replay_outcome;
          divergence = first_trace_divergence (snd original) (snd replay)
      in \<lparr>rr_replayable = (mismatch = None \<and> divergence = None),
          rr_event_count = sm_event_count original_summary,
          rr_original_summary = original_summary, rr_replay_summary = replay_summary,
          rr_original_outcome = original_outcome, rr_replay_outcome = replay_outcome,
          rr_divergence = divergence, rr_outcome_mismatch = mismatch\<rparr>)"

definition replay_vm_trace :: "compiled_program \<Rightarrow> trace_replay_report run" where
  "replay_vm_trace p =
     with_run (traced_vm_run p) (\<lambda>original.
     with_run (traced_vm_run p) (\<lambda>replay. Some (Inr (replay_report original replay))))"

section \<open>Difference of the machines\<close>

record trace_diff_report =
  dr_equivalent :: bool
  dr_left_backend :: string
  dr_right_backend :: string
  dr_left_events :: usize
  dr_right_events :: usize
  dr_left_summary :: trace_summary
  dr_right_summary :: trace_summary
  dr_left_outcome :: execution_summary
  dr_right_outcome :: execution_summary
  dr_divergence :: "trace_divergence option"
  dr_outcome_mismatch :: "string option"

definition diff_report ::
  "vm_result \<times> trace_event list \<Rightarrow> gc_vm_result \<times> trace_event list \<Rightarrow> trace_diff_report" where
  "diff_report v g =
     (let left_summary = summarize_trace (snd v);
          right_summary = summarize_trace (snd g);
          left_outcome = summary_from_vm (fst v);
          right_outcome = summary_from_gc_vm (fst g);
          mismatch = outcome_mismatch left_outcome right_outcome;
          divergence = first_semantic_trace_divergence (snd v) (snd g)
      in \<lparr>dr_equivalent = (mismatch = None \<and> divergence = None),
          dr_left_backend = ''VM'', dr_right_backend = ''GC VM'',
          dr_left_events = sm_event_count left_summary, dr_right_events = sm_event_count right_summary,
          dr_left_summary = left_summary, dr_right_summary = right_summary,
          dr_left_outcome = left_outcome, dr_right_outcome = right_outcome,
          dr_divergence = divergence, dr_outcome_mismatch = mismatch\<rparr>)"

definition diff_vm_gc_traces :: "compiled_program \<Rightarrow> trace_diff_report run" where
  "diff_vm_gc_traces p =
     with_run (traced_vm_run p) (\<lambda>v.
     with_run (traced_gc_run p) (\<lambda>g. Some (Inr (diff_report v g))))"

section \<open>Evidence\<close>

definition json_bool :: "bool \<Rightarrow> string" where
  "json_bool b = (if b then ''true'' else ''false'')"

definition json_string_array :: "string list \<Rightarrow> string" where
  "json_string_array vs = fmt [''['', separated '','' (List.map json_string vs), '']'']"

definition json_execution_summary :: "execution_summary \<Rightarrow> string" where
  "json_execution_summary s =
     fmt [''{'', json_key ''success'', json_bool (es_success s),
          '','', json_key ''return_value'', show_int (es_return_value s),
          '','', json_key ''trap_code'', show_nat (trap_code_u8 (es_trap_code s)),
          '','', json_key ''trap'', json_string (debug_trap_code (es_trap_code s)),
          '','', json_key ''output'', json_string_array (es_output s), ''}'']"

definition json_divergence :: "trace_divergence option \<Rightarrow> string" where
  "json_divergence d =
     (case d of
        None \<Rightarrow> ''null''
      | Some d \<Rightarrow>
          fmt [''{'', json_key ''event_index'', show_nat (td_event_index d),
               '','', json_key ''field'', json_string (td_field d),
               '','', json_key ''left'', json_string (td_left d),
               '','', json_key ''right'', json_string (td_right d), ''}''])"

text \<open>
  The fingerprint of a report is the hash of its evidence without the fingerprint, which the evidence
  then includes; the two calls of the source are the two values of the optional argument.
\<close>

definition json_fingerprint :: "64 word option \<Rightarrow> string" where
  "json_fingerprint f =
     (case f of None \<Rightarrow> '''' | Some w \<Rightarrow> fmt ['','', json_key ''fingerprint'', json_string (hex64 w)])"

definition trace_replay_evidence_json :: "64 word option \<Rightarrow> trace_replay_report \<Rightarrow> string" where
  "trace_replay_evidence_json f r =
     fmt [''{'', json_key ''kind'', json_string ''trace_replay'',
          '','', json_key ''schema_version'', ''1'', json_fingerprint f,
          '','', json_key ''replayable'', json_bool (rr_replayable r),
          '','', json_key ''event_count'', show_nat (rr_event_count r),
          '','', json_key ''original_trace'', json_summary (rr_original_summary r),
          '','', json_key ''replay_trace'', json_summary (rr_replay_summary r),
          '','', json_key ''original_outcome'', json_execution_summary (rr_original_outcome r),
          '','', json_key ''replay_outcome'', json_execution_summary (rr_replay_outcome r),
          '','', json_key ''outcome_mismatch'', json_optional json_string (rr_outcome_mismatch r),
          '','', json_key ''divergence'', json_divergence (rr_divergence r), ''}'']"

definition replay_fingerprint :: "trace_replay_report \<Rightarrow> 64 word" where
  "replay_fingerprint r = stable_fingerprint_bytes (as_bytes (trace_replay_evidence_json None r))"

definition replay_evidence_json :: "trace_replay_report \<Rightarrow> string" where
  "replay_evidence_json r = trace_replay_evidence_json (Some (replay_fingerprint r)) r"

definition backend_trace_diff_evidence_json :: "64 word option \<Rightarrow> trace_diff_report \<Rightarrow> string" where
  "backend_trace_diff_evidence_json f r =
     fmt [''{'', json_key ''kind'', json_string ''backend_trace_diff'',
          '','', json_key ''schema_version'', ''1'', json_fingerprint f,
          '','', json_key ''equivalent'', json_bool (dr_equivalent r),
          '','', json_key ''left_backend'', json_string (dr_left_backend r),
          '','', json_key ''right_backend'', json_string (dr_right_backend r),
          '','', json_key ''left_events'', show_nat (dr_left_events r),
          '','', json_key ''right_events'', show_nat (dr_right_events r),
          '','', json_key ''left_trace'', json_summary (dr_left_summary r),
          '','', json_key ''right_trace'', json_summary (dr_right_summary r),
          '','', json_key ''left_outcome'', json_execution_summary (dr_left_outcome r),
          '','', json_key ''right_outcome'', json_execution_summary (dr_right_outcome r),
          '','', json_key ''outcome_mismatch'', json_optional json_string (dr_outcome_mismatch r),
          '','', json_key ''divergence'', json_divergence (dr_divergence r), ''}'']"

definition diff_fingerprint :: "trace_diff_report \<Rightarrow> 64 word" where
  "diff_fingerprint r = stable_fingerprint_bytes (as_bytes (backend_trace_diff_evidence_json None r))"

definition diff_evidence_json :: "trace_diff_report \<Rightarrow> string" where
  "diff_evidence_json r = backend_trace_diff_evidence_json (Some (diff_fingerprint r)) r"

section \<open>Text for people\<close>

definition line :: "string list \<Rightarrow> string" where
  "line parts = fmt parts @ [CHR 10]"

definition show_mismatches :: "string option \<Rightarrow> trace_divergence option \<Rightarrow> string" where
  "show_mismatches mismatch divergence =
     fmt [(case mismatch of None \<Rightarrow> ''''
           | Some m \<Rightarrow> fmt [line [], line [''Outcome Mismatch''], line [''  '', m]]),
          (case divergence of None \<Rightarrow> ''''
           | Some d \<Rightarrow> fmt [line [], line [''First Trace Divergence''], line [''  '', show_divergence d]])]"

definition show_replay_report :: "trace_replay_report \<Rightarrow> string" where
  "show_replay_report r =
     fmt [line [''Trace Replay''],
          line [''  status: '', if rr_replayable r then ''replayable'' else ''diverged''],
          line [''  events: '', show_nat (rr_event_count r)],
          line [''  original: '', format_summary (rr_original_outcome r)],
          line [''  replay:   '', format_summary (rr_replay_outcome r)],
          show_mismatches (rr_outcome_mismatch r) (rr_divergence r)]"

definition show_diff_report :: "trace_diff_report \<Rightarrow> string" where
  "show_diff_report r =
     fmt [line [''Backend Trace Diff''],
          line [''  status: '', if dr_equivalent r then ''equivalent'' else ''mismatch''],
          line [''  '', dr_left_backend r, '' events: '', show_nat (dr_left_events r)],
          line [''  '', dr_right_backend r, '' events: '', show_nat (dr_right_events r)],
          line [''  '', dr_left_backend r, '': '', format_summary (dr_left_outcome r)],
          line [''  '', dr_right_backend r, '': '', format_summary (dr_right_outcome r)],
          show_mismatches (dr_outcome_mismatch r) (dr_divergence r)]"

end
