(* ===== verification/Json_Props.thy ===== *)
theory Json_Props
  imports Trace_Props Run_Audit
begin

text \<open>
  The JSON texts of traces: a reader of JSON strings undoes the escapes of the writer, and the text of
  a trace determines the backend and all events. The instances of \<open>unique_code\<close> are the writers of
  numbers, strings, arrays, outcomes and events.
\<close>

section \<open>Reading a JSON string\<close>

definition hex_value :: "char \<Rightarrow> nat" where
  "hex_value c = (let n = of_char c :: nat in if n < 58 then n - 48 else n - 87)"

definition simple_escape :: "char \<Rightarrow> char" where
  "simple_escape c =
     (if c = CHR ''n'' then CHR 0x0A else if c = CHR ''r'' then CHR 0x0D
      else if c = CHR ''t'' then CHR 0x09 else c)"

text \<open>The characters up to the closing quote, and what follows it.\<close>

fun read_json_chars :: "string \<Rightarrow> (string \<times> string) option" where
  "read_json_chars [] = None"
| "read_json_chars (c # cs) =
     (if c = CHR 0x22 then Some ([], cs)
      else if c = CHR 0x5C
      then (case cs of
              [] \<Rightarrow> None
            | e # ds \<Rightarrow>
                if e = CHR ''u''
                then (case ds of
                        h3 # h2 # h1 # h0 # tl_text \<Rightarrow>
                          map_option (apfst ((#) (char_of
                            (((hex_value h3 * 16 + hex_value h2) * 16 + hex_value h1) * 16 + hex_value h0))))
                            (read_json_chars tl_text)
                      | _ \<Rightarrow> None)
                else map_option (apfst ((#) (simple_escape e))) (read_json_chars ds))
      else map_option (apfst ((#) c)) (read_json_chars cs))"

declare read_json_chars.simps [simp del]

definition read_json_string :: "string \<Rightarrow> (string \<times> string) option" where
  "read_json_string s =
     (case s of c # cs \<Rightarrow> if c = CHR 0x22 then read_json_chars cs else None | [] \<Rightarrow> None)"

lemma control_escapes:
  "\<forall>n \<in> {..<32}. \<exists>a b c d. hex_fixed 4 n = [a, b, c, d] \<and>
     ((hex_value a * 16 + hex_value b) * 16 + hex_value c) * 16 + hex_value d = n"
proof -
  have "\<forall>n \<in> set [0..<32].
      ((hex_value (hex_fixed 4 n ! 0) * 16 + hex_value (hex_fixed 4 n ! 1)) * 16 +
        hex_value (hex_fixed 4 n ! 2)) * 16 + hex_value (hex_fixed 4 n ! 3) = n"
    by code_simp
  moreover have "hex_fixed 4 n = [hex_fixed 4 n ! 0, hex_fixed 4 n ! 1, hex_fixed 4 n ! 2, hex_fixed 4 n ! 3]" for n
    by (simp add: hex_fixed_def upt_rec)
  ultimately show ?thesis by (metis atLeast0LessThan set_upt)
qed

lemma read_json_char:
  "read_json_chars (json_char c @ cs) = map_option (apfst ((#) c)) (read_json_chars cs)"
proof (cases "c \<in> {CHR 0x22, CHR 0x5C, CHR 0x0A, CHR 0x0D, CHR 0x09}")
  case True
  then show ?thesis by (auto simp: json_char_def read_json_chars.simps(2) simple_escape_def)
next
  case False
  show ?thesis
  proof (cases "(of_char c :: nat) \<le> 0x1f")
    case True
    then have "(of_char c :: nat) \<in> {..<32}" by simp
    with control_escapes obtain a b d e where "hex_fixed 4 (of_char c) = [a, b, d, e]"
      "((hex_value a * 16 + hex_value b) * 16 + hex_value d) * 16 + hex_value e = of_char c" by metis
    with True False show ?thesis by (simp add: json_char_def read_json_chars.simps(2))
  next
    case high: False
    with False show ?thesis by (simp add: json_char_def read_json_chars.simps(2))
  qed
qed

lemma read_json_chars_escaped:
  "read_json_chars (concat (List.map json_char s) @ CHR 0x22 # tl_text) = Some (s, tl_text)"
  by (induction s) (simp_all add: read_json_char, simp add: read_json_chars.simps)

lemma json_string_eq: "json_string s = CHR 0x22 # concat (List.map json_char s) @ [CHR 0x22]"
  by (simp add: json_string_def fmt_def)

text \<open>C37: A JSON reader that undoes the escapes reads every written string back, and stops after it.\<close>
theorem json_string_round_trip:
  "read_json_string (json_string s @ tl_text) = Some (s, tl_text)"
  by (simp add: read_json_string_def json_string_eq read_json_chars_escaped)

section \<open>The codes of values\<close>

definition text_stop :: "string \<Rightarrow> bool" where
  "text_stop x \<longleftrightarrow> x = [] \<or> \<not> is_digit (hd x)"

lemma text_stop_simps [simp]: "text_stop []" "text_stop (c # cs) \<longleftrightarrow> \<not> is_digit c"
  by (simp_all add: text_stop_def)

definition every :: "'a \<Rightarrow> bool" where
  "every a \<longleftrightarrow> True"

lemma every_True [simp]: "every a" by (simp add: every_def)

locale text_code = unique_code enc every text_stop for enc :: "'a \<Rightarrow> string"
begin

lemmas text_iff = unique_iff [OF every_True every_True]
lemmas text_alone_iff = alone_iff [OF every_True every_True]

text \<open>A list of texts separated by a character, before a closing text that no element starts with.\<close>

lemma separated_Cons:
  "separated [sep] (List.map enc (c # cs)) @ z =
     enc c @ (case cs of [] \<Rightarrow> z | _ \<Rightarrow> sep # separated [sep] (List.map enc cs) @ z)"
  by (cases cs) simp_all

lemma separated_unique:
  assumes "separated [sep] (List.map enc xs) @ f # fs @ x = separated [sep] (List.map enc ys) @ f # fs @ y"
    and "\<not> is_digit sep" "\<not> is_digit f" "f \<noteq> sep" "\<forall>a u v. enc a @ u \<noteq> f # fs @ v"
  shows "xs = ys \<and> x = y"
  using assms(1)
proof (induction xs arbitrary: ys)
  case Nil
  then show ?case
  proof (cases ys)
    case (Cons b bs)
    with Nil assms(5) show ?thesis unfolding separated_Cons Cons by (metis List.list.map(1) append_Nil separated.simps(1))
  qed simp
next
  case (Cons a as)
  show ?case
  proof (cases ys)
    case Nil
    with Cons.prems assms(5) show ?thesis unfolding separated_Cons by simp
  next
    case ys: (Cons b bs)
    have "a = b \<and> (case as of [] \<Rightarrow> f # fs @ x | _ \<Rightarrow> sep # separated [sep] (List.map enc as) @ f # fs @ x) =
        (case bs of [] \<Rightarrow> f # fs @ y | _ \<Rightarrow> sep # separated [sep] (List.map enc bs) @ f # fs @ y)"
      using Cons.prems assms(2,3) unfolding ys separated_Cons
      by (subst (asm) text_iff) (simp_all split: list.split)
    with Cons.IH [of bs] ys assms(4) show ?thesis by (cases as; cases bs) auto
  qed
qed

end

lemma takeWhile_show_nat: "text_stop x \<Longrightarrow> takeWhile is_digit (show_nat n @ x) = show_nat n"
  using show_nat_digits [of n] by (cases x) (auto simp: takeWhile_append)

interpretation nat_text: text_code show_nat
proof
  fix x y m n
  assume h: "show_nat m @ x = show_nat n @ y" and "text_stop x" "text_stop y"
  then have "show_nat m = show_nat n" using takeWhile_show_nat by metis
  with h decimal_show_nat show "m = n \<and> x = y" by (metis same_append_eq)
qed

lemma show_nat_hd: "is_digit (hd (show_nat n @ x))"
  using show_nat_digits [of n] by (cases "show_nat n") auto

lemma minus_not_digit: "\<not> is_digit (CHR ''-'')" by (simp add: is_digit_def)

interpretation int_text: text_code show_int
proof
  fix x y a b
  assume h: "show_int a @ x = show_int b @ y" and s: "text_stop x" "text_stop y"
  have minus: "CHR ''-'' # u \<noteq> show_nat n @ v" for u n v
    using show_nat_hd [of n v] by (metis list.sel(1) minus_not_digit)
  show "a = b \<and> x = y"
    using h s minus minus [symmetric]
    by (cases "a < 0"; cases "b < 0") (auto simp add: show_int_def nat_text.text_iff eq_nat_nat_iff)
qed

interpretation string_text: text_code json_string
proof
  fix x y s t
  assume "json_string s @ x = json_string t @ y"
  moreover have "read_json_string (json_string s @ x) = Some (s, x)" for s x
    by (simp add: read_json_string_def json_string_eq read_json_chars_escaped)
  ultimately show "s = t \<and> x = y" by (metis option.inject prod.inject)
qed

lemma minus_bracket: "\<not> is_digit (CHR '']'')" "\<not> is_digit (CHR '','')" "\<not> is_digit (CHR ''}'')"
  "\<not> is_digit (CHR 0x22)" "\<not> is_digit (CHR 0x0A)"
  by (simp_all add: is_digit_def)

interpretation array_text: text_code json_i64_array
proof
  fix x y vs ws
  assume h: "json_i64_array vs @ x = json_i64_array ws @ y"
  have "show_int v @ u \<noteq> CHR '']'' # [] @ w" for v u w
    using show_nat_hd [of "nat v" u] by (cases "v < 0") (auto simp: show_int_def minus_bracket)
  with h show "vs = ws \<and> x = y"
    by (intro int_text.separated_unique [of "CHR '',''" vs "CHR '']''" "[]" x ws y])
      (simp_all add: json_i64_array_def fmt_def minus_bracket)
qed

lemma debug_trap_code_inj: "debug_trap_code c = debug_trap_code d \<longleftrightarrow> c = d"
  by (cases c; cases d) simp_all

interpretation outcome_text: text_code json_outcome
proof
  fix x y a b
  assume "json_outcome a @ x = json_outcome b @ y"
  then show "a = b \<and> x = y"
    by (cases a; cases b)
      (auto simp: fmt_def json_key_def string_text.text_iff nat_text.text_iff debug_trap_code_inj minus_bracket)
qed

lemmas text_codes =
  nat_text.text_iff int_text.text_iff string_text.text_iff array_text.text_iff outcome_text.text_iff

interpretation event_text: text_code json_event
proof
  fix x y e f
  assume "json_event e @ x = json_event f @ y"
  then show "e = f \<and> x = y"
    unfolding json_event_def fmt_def json_key_def
    by (auto simp: text_codes minus_bracket intro: trace_event.equality)
qed

definition json_event_line :: "trace_event \<Rightarrow> string" where
  "json_event_line e = fmt [[CHR 10], ''    '', json_event e]"

interpretation event_line_text: text_code json_event_line
  by unfold_locales (auto simp: json_event_line_def fmt_def dest: event_text.unique)

text \<open>C38: The JSON text of a trace determines the backend and every event of the trace.\<close>
theorem events_to_json_injective:
  "events_to_json b es = events_to_json c fs \<longleftrightarrow> b = c \<and> es = fs"
proof
  let ?fin = "[CHR 10] @ ''  ]'' @ [CHR 10] @ ''}''"
  assume "events_to_json b es = events_to_json c fs"
  then have "b = c" and
    "separated '','' (List.map json_event_line es) @ ?fin = separated '','' (List.map json_event_line fs) @ ?fin"
    by (simp_all add: events_to_json_def fmt_def json_key_def string_text.text_iff minus_bracket
        json_event_line_def [abs_def])
  moreover have "json_event_line e @ u \<noteq> CHR 10 # tl ?fin @ v" for e u v
    by (simp add: json_event_line_def fmt_def)
  ultimately show "b = c \<and> es = fs"
    using event_line_text.separated_unique [of "CHR '',''" es "CHR 10" "tl ?fin" "[]" fs "[]"]
    by (simp add: minus_bracket)
qed simp

end
