(* ===== verification/Lockstep.thy ===== *)
theory Lockstep
  imports Gc_Runs
begin

text \<open>
  The two machines side by side: when a program keeps integers and array references apart, the
  reference machine and the garbage collecting machine execute every instruction alike. The
  reference machine keeps the elements of local arrays at addresses behind its local slots and of
  global arrays in the global slots, the other on its heap; \<open>addresses\<close> links the two.
\<close>

section \<open>Kinds of slots\<close>

text \<open>
  The function that owns an instruction, the arrays among the local slots of a function with their
  sizes, and the first slots of the global arrays with their sizes.
\<close>

record code_kinds =
  ck_owner :: "nat \<Rightarrow> usize"
  ck_locals :: "usize \<Rightarrow> nat \<Rightarrow> nat option"
  ck_globals :: "nat \<Rightarrow> nat option"

text \<open>The array that lies on the stack before an instruction: the one the previous instruction allocated.\<close>

definition expected :: "compiled_program \<Rightarrow> nat \<Rightarrow> nat option" where
  "expected p pc =
     (if 0 < pc \<and> pc \<le> length (instructions p) \<and> opcode (instructions p ! (pc - 1)) = Op_AllocArray
      then Some (nat (arg1 (instructions p ! (pc - 1)))) else None)"

definition owned :: "compiled_program \<Rightarrow> code_kinds \<Rightarrow> nat \<Rightarrow> usize \<Rightarrow> bool" where
  "owned p K pc i \<longleftrightarrow> (pc < length (instructions p) \<longrightarrow> ck_owner K pc = i)"

definition scalar_global :: "code_kinds \<Rightarrow> nat \<Rightarrow> bool" where
  "scalar_global K k \<longleftrightarrow> (\<forall>s n. ck_globals K s = Some n \<longrightarrow> k < s \<or> s + n \<le> k)"

text \<open>Where control may go on in the function \<open>i\<close> with only integers on the stack.\<close>

definition calm :: "compiled_program \<Rightarrow> code_kinds \<Rightarrow> nat \<Rightarrow> usize \<Rightarrow> bool" where
  "calm p K pc i \<longleftrightarrow> owned p K pc i \<and> expected p pc = None"

fun kind_ok :: "compiled_program \<Rightarrow> code_kinds \<Rightarrow> usize \<Rightarrow> nat \<Rightarrow> nat option \<Rightarrow> opcode \<Rightarrow> i32 \<Rightarrow> i32 \<Rightarrow> bool" where
  "kind_ok p K i n ex Op_LoadLocal a b \<longleftrightarrow> 0 \<le> a \<and> nat a < n \<and> ck_locals K i (nat a) = None"
| "kind_ok p K i n ex Op_StoreLocal a b \<longleftrightarrow> 0 \<le> a \<and> nat a < n \<and> ck_locals K i (nat a) = ex"
| "kind_ok p K i n ex Op_LoadGlobal a b \<longleftrightarrow> 0 \<le> a \<and> nat a < MAX_GLOBAL_SLOTS \<and> scalar_global K (nat a)"
| "kind_ok p K i n ex Op_StoreGlobal a b \<longleftrightarrow> 0 \<le> a \<and> nat a < MAX_GLOBAL_SLOTS \<and> scalar_global K (nat a)"
| "kind_ok p K i n ex Op_Jump a b \<longleftrightarrow> calm p K (as_usize a) i"
| "kind_ok p K i n ex Op_JumpIfFalse a b \<longleftrightarrow> calm p K (as_usize a) i"
| "kind_ok p K i n ex Op_JumpIfTrue a b \<longleftrightarrow> calm p K (as_usize a) i"
| "kind_ok p K i n ex Op_Call a b \<longleftrightarrow> 0 \<le> a \<and> 0 \<le> b \<and>
     (\<exists>f. fun_lookup p (nat a) = Some f \<and> nat b = param_count f)"
| "kind_ok p K i n ex Op_ArrayLoad a b \<longleftrightarrow> 0 \<le> a \<and> 0 \<le> b \<and> ck_globals K (nat a) = Some (nat b)"
| "kind_ok p K i n ex Op_ArrayStore a b \<longleftrightarrow> 0 \<le> a \<and> 0 \<le> b \<and> ck_globals K (nat a) = Some (nat b)"
| "kind_ok p K i n ex Op_LocalArrayLoad a b \<longleftrightarrow> 0 \<le> a \<and> 0 \<le> b \<and> nat a < n \<and> ck_locals K i (nat a) = Some (nat b)"
| "kind_ok p K i n ex Op_LocalArrayStore a b \<longleftrightarrow> 0 \<le> a \<and> 0 \<le> b \<and> nat a < n \<and> ck_locals K i (nat a) = Some (nat b)"
| "kind_ok p K i n ex Op_AllocArray a b \<longleftrightarrow> 0 \<le> a \<and> a < 2147483648"
| "kind_ok p K i n ex Op_ArrayNew a b \<longleftrightarrow> False"
| "kind_ok p K i n ex Op_Dup a b \<longleftrightarrow> False"
| "kind_ok p K i n ex Op_Halt a b \<longleftrightarrow> False"
| "kind_ok p K i n ex opc a b \<longleftrightarrow> True"

definition instr_kind_ok :: "compiled_program \<Rightarrow> code_kinds \<Rightarrow> nat \<Rightarrow> bool" where
  "instr_kind_ok p K pc \<longleftrightarrow>
     (\<exists>f. fun_lookup p (ck_owner K pc) = Some f \<and>
        kind_ok p K (ck_owner K pc) (local_count f) (expected p pc)
          (opcode (instructions p ! pc)) (arg1 (instructions p ! pc)) (arg2 (instructions p ! pc))) \<and>
     (expected p pc \<noteq> None \<longrightarrow> opcode (instructions p ! pc) = Op_StoreLocal) \<and>
     (opcode (instructions p ! pc) \<notin> {Op_Jump, Op_Return} \<longrightarrow> owned p K (pc + 1) (ck_owner K pc))"

definition kinded :: "compiled_program \<Rightarrow> code_kinds \<Rightarrow> bool" where
  "kinded p K \<longleftrightarrow>
     (\<forall>pc < length (instructions p). instr_kind_ok p K pc) \<and>
     (\<forall>i f. fun_lookup p i = Some f \<longrightarrow> calm p K (entry_pc f) i \<and> (\<forall>k < param_count f. ck_locals K i k = None)) \<and>
     (\<forall>s n. ck_globals K s = Some n \<longrightarrow> 0 < n \<and> s + n \<le> MAX_GLOBAL_SLOTS) \<and>
     (\<forall>s n t m. ck_globals K s = Some n \<longrightarrow> ck_globals K t = Some m \<longrightarrow> s \<noteq> t \<longrightarrow> s + n \<le> t \<or> t + m \<le> s)"

section \<open>Related memories\<close>

text \<open>The address and the size of the array with an id.\<close>

type_synonym addresses = "nat \<Rightarrow> (nat \<times> nat) option"

definition cell_rel :: "addresses \<Rightarrow> nat option \<Rightarrow> i64 \<Rightarrow> gc_value \<Rightarrow> bool \<Rightarrow> bool" where
  "cell_rel ad kind raw v is_init \<longleftrightarrow>
     (if is_init
      then (case kind of
              None \<Rightarrow> v = GInt raw \<and> raw \<noteq> i64_min
            | Some n \<Rightarrow> \<exists>i b. v = GArray i \<and> ad i = Some (b, n) \<and> raw = int b)
      else raw = i64_min)"

definition frame_top :: "compiled_program \<Rightarrow> call_frame \<Rightarrow> nat" where
  "frame_top p f = base_ptr f + (case fun_lookup p (frame_func f) of None \<Rightarrow> 0 | Some h \<Rightarrow> local_count h)"

definition cells_rel :: "compiled_program \<Rightarrow> code_kinds \<Rightarrow> addresses \<Rightarrow> (nat \<Rightarrow> i64) \<Rightarrow> call_frame \<Rightarrow> gc_frame \<Rightarrow> bool" where
  "cells_rel p K ad m f g \<longleftrightarrow>
     (\<exists>h. fun_lookup p (frame_func f) = Some h \<and> length (gf_locals g) = local_count h \<and>
        length (gf_init g) = local_count h \<and> base_ptr f + local_count h \<le> MAX_LOCAL_SLOTS \<and>
        (\<forall>k < local_count h. cell_rel ad (ck_locals K (frame_func f) k) (m (base_ptr f + k))
           (gf_locals g ! k) (gf_init g ! k)))"

definition frames_base :: "compiled_program \<Rightarrow> call_frame list \<Rightarrow> nat" where
  "frames_base p fs = (case fs of [] \<Rightarrow> 0 | f # _ \<Rightarrow> frame_top p f)"

fun frames_linked :: "compiled_program \<Rightarrow> code_kinds \<Rightarrow> addresses \<Rightarrow> (nat \<Rightarrow> i64) \<Rightarrow> nat \<Rightarrow>
    call_frame list \<Rightarrow> gc_frame list \<Rightarrow> bool" where
  "frames_linked p K ad m pc [] [] \<longleftrightarrow> True"
| "frames_linked p K ad m pc (f # fs) (g # gs) \<longleftrightarrow>
     gf_return_pc g = return_pc f \<and> owned p K pc (frame_func f) \<and> cells_rel p K ad m f g \<and>
     frames_base p fs = base_ptr f \<and>
     (fs \<noteq> [] \<longrightarrow> expected p (return_pc f) = None \<and> return_pc f \<noteq> usize_max) \<and>
     frames_linked p K ad m (return_pc f) fs gs"
| "frames_linked p K ad m pc _ _ \<longleftrightarrow> False"

definition arrays_rel :: "addresses \<Rightarrow> vec64 \<Rightarrow> gc_vm \<Rightarrow> bool" where
  "arrays_rel ad m g \<longleftrightarrow>
     (\<forall>i b n. ad i = Some (b, n) \<longrightarrow>
        elements g i = Some (List.map (vget m) [b..<b + n]) \<and> MAX_LOCAL_SLOTS \<le> b \<and> b + n \<le> vlen m) \<and>
     (\<forall>i j b n c k. ad i = Some (b, n) \<longrightarrow> ad j = Some (c, k) \<longrightarrow> i \<noteq> j \<longrightarrow> b + n \<le> c \<or> c + k \<le> b)"

definition globals_linked :: "code_kinds \<Rightarrow> addresses \<Rightarrow> vec64 \<Rightarrow> gc_vm \<Rightarrow> bool" where
  "globals_linked K ad vg g \<longleftrightarrow>
     vlen vg = MAX_GLOBAL_SLOTS \<and> length (gv_globals g) = MAX_GLOBAL_SLOTS \<and>
     (\<forall>k < MAX_GLOBAL_SLOTS. scalar_global K k \<longrightarrow> gv_globals g ! k = GInt (vget vg k)) \<and>
     (\<forall>s n. ck_globals K s = Some n \<longrightarrow> (\<exists>i. gv_globals g ! s = GArray i \<and> ad i = None \<and>
        elements g i = Some (List.map (vget vg) [s..<s + n]))) \<and>
     (\<forall>s t. ck_globals K s \<noteq> None \<longrightarrow> ck_globals K t \<noteq> None \<longrightarrow> s \<noteq> t \<longrightarrow> gv_globals g ! s \<noteq> gv_globals g ! t)"

definition stack_rel :: "addresses \<Rightarrow> nat option \<Rightarrow> i64 list \<Rightarrow> gc_value list \<Rightarrow> bool" where
  "stack_rel ad ex vs gs \<longleftrightarrow>
     (case ex of
        None \<Rightarrow> gs = List.map GInt vs
      | Some n \<Rightarrow> \<exists>i b zs. vs = int b # zs \<and> gs = GArray i # List.map GInt zs \<and> ad i = Some (b, n))"

text \<open>Both machines before the instruction at \<open>pc\<close>.\<close>

definition lock :: "compiled_program \<Rightarrow> code_kinds \<Rightarrow> addresses \<Rightarrow> nat \<Rightarrow> vm \<Rightarrow> gc_vm \<Rightarrow> bool" where
  "lock p K ad pc v g \<longleftrightarrow>
     gv_pc g = vm_pc v \<and> gv_cycles g = vm_cycles v \<and> gv_max_cycles g = vm_max_cycles v \<and>
     gv_output g = vm_output v \<and> vm_calls v \<noteq> [] \<and>
     stack_rel ad (expected p pc) (vm_stack v) (gv_stack g) \<and>
     frames_linked p K ad (vget (vm_locals v)) pc (vm_calls v) (gv_calls g) \<and>
     MAX_LOCAL_SLOTS \<le> vlen (vm_locals v) \<and>
     vlen (vm_locals v) \<le> MAX_LOCAL_SLOTS + vm_cycles v * 2147483648 \<and>
     arrays_rel ad (vm_locals v) g \<and> globals_linked K ad (vm_globals v) g"

text \<open>Both machines when a run ends: the stacks are the same as integers.\<close>

definition alike :: "vm \<Rightarrow> gc_vm \<Rightarrow> bool" where
  "alike v g \<longleftrightarrow>
     gv_pc g = vm_pc v \<and> gv_cycles g = vm_cycles v \<and> gv_max_cycles g = vm_max_cycles v \<and>
     gv_output g = vm_output v \<and> length (gv_calls g) = length (vm_calls v) \<and>
     gv_stack g = List.map GInt (vm_stack v)"

text \<open>The limits on local storage, which only the reference machine has, and arrays used before their declaration.\<close>

definition escapes :: "vm_error \<Rightarrow> bool" where
  "escapes e \<longleftrightarrow> (\<exists>msg. e = Trap StackOverflow msg \<or> e = Trap UndefinedLocal msg)"

text \<open>The results of one instruction.\<close>

definition same_result :: "compiled_program \<Rightarrow> code_kinds \<Rightarrow> bool vm_res \<Rightarrow> bool gc_res \<Rightarrow> bool" where
  "same_result p K r r' \<longleftrightarrow>
     (case fst r of
        Inl e \<Rightarrow> escapes e \<or> fst r' = Inl e \<and> alike (snd r) (snd r')
      | Inr a \<Rightarrow> fst r' = Inr a \<and>
          (if vm_calls (snd r) = [] then alike (snd r) (snd r')
           else expected p (if a then vm_pc (snd r) + 1 else vm_pc (snd r)) = None \<and>
            (\<exists>ad. lock p K ad (if a then vm_pc (snd r) + 1 else vm_pc (snd r)) (snd r) (snd r'))))"

section \<open>Frames\<close>

lemma frames_linked_length: "frames_linked p K ad m pc fs gs \<Longrightarrow> length gs = length fs"
  by (induction p K ad m pc fs gs rule: frames_linked.induct) simp_all

lemma cells_top: "cells_rel p K ad m f g \<Longrightarrow> frame_top p f \<le> MAX_LOCAL_SLOTS"
  by (auto simp: cells_rel_def frame_top_def)

lemma frames_base_bound: "frames_linked p K ad m pc fs gs \<Longrightarrow> frames_base p fs \<le> MAX_LOCAL_SLOTS"
  by (cases fs; cases gs) (auto simp: frames_base_def dest: cells_top)

lemma cells_rel_cong:
  assumes "cells_rel p K ad m f g" "\<And>a. a < frame_top p f \<Longrightarrow> base_ptr f \<le> a \<Longrightarrow> m' a = m a" "\<And>i. i \<in> frame_roots g \<Longrightarrow> ad' i = ad i"
  shows "cells_rel p K ad' m' f g"
proof -
  from assms(1) obtain h where h: "fun_lookup p (frame_func f) = Some h" "length (gf_locals g) = local_count h"
    "length (gf_init g) = local_count h" "base_ptr f + local_count h \<le> MAX_LOCAL_SLOTS"
    and cell: "\<And>k. k < local_count h \<Longrightarrow> cell_rel ad (ck_locals K (frame_func f) k) (m (base_ptr f + k)) (gf_locals g ! k) (gf_init g ! k)"
    by (auto simp: cells_rel_def)
  have "cell_rel ad' (ck_locals K (frame_func f) k) (m' (base_ptr f + k)) (gf_locals g ! k) (gf_init g ! k)"
    if "k < local_count h" for k
  proof -
    have "m' (base_ptr f + k) = m (base_ptr f + k)" using that h(1) by (intro assms(2)) (simp_all add: frame_top_def)
    moreover have "ad' i = ad i" if "gf_init g ! k" "gf_locals g ! k = GArray i" for i
      using that \<open>k < local_count h\<close> h(2) by (intro assms(3)) (auto simp: frame_roots_def)
    ultimately show ?thesis using cell [OF that] by (auto simp: cell_rel_def split: option.splits if_splits)
  qed
  with h show ?thesis by (auto simp: cells_rel_def)
qed

lemma frames_linked_cong:
  assumes "frames_linked p K ad m pc fs gs" "\<And>a. a < frames_base p fs \<Longrightarrow> m' a = m a"
    "\<And>i g. g \<in> set gs \<Longrightarrow> i \<in> frame_roots g \<Longrightarrow> ad' i = ad i"
  shows "frames_linked p K ad' m' pc fs gs"
  using assms
proof (induction p K ad m pc fs gs rule: frames_linked.induct)
  case (2 p K ad m pc f fs g gs)
  have below: "frames_base p fs \<le> frame_top p f" using 2(2) by (simp add: frame_top_def)
  from 2(2) have cells: "cells_rel p K ad m f g" and tail: "frames_linked p K ad m (return_pc f) fs gs" by simp_all
  have "cells_rel p K ad' m' f g"
  proof (rule cells_rel_cong [OF cells])
    show "m' a = m a" if "a < frame_top p f" for a using that by (intro 2(3)) (simp add: frames_base_def)
    show "ad' i = ad i" if "i \<in> frame_roots g" for i by (rule 2(4) [OF _ that]) simp
  qed
  moreover have "frames_linked p K ad' m' (return_pc f) fs gs"
  proof (rule 2(1))
    show "m' a = m a" if "a < frames_base p fs" for a
      using that below by (intro 2(3)) (simp add: frames_base_def)
    show "ad' i = ad i" if "g \<in> set gs" "i \<in> frame_roots g" for i g by (rule 2(4) [OF _ that(2)]) (simp add: that(1))
  qed (rule tail)
  ultimately show ?case using 2(2) by simp
qed simp_all

lemma frames_linked_pc: "frames_linked p K ad m pc (f # fs) gs \<Longrightarrow> owned p K pc' (frame_func f) \<Longrightarrow> frames_linked p K ad m pc' (f # fs) gs"
  by (cases gs) simp_all

section \<open>Steps on the operand stack\<close>

lemma elements_fields [simp]:
  "elements (g\<lparr>gv_stack := x1\<rparr>) = elements g" "elements (g\<lparr>gv_calls := x2\<rparr>) = elements g"
  "elements (g\<lparr>gv_pc := x3\<rparr>) = elements g" "elements (g\<lparr>gv_output := x4\<rparr>) = elements g"
  "elements (g\<lparr>gv_cycles := x5\<rparr>) = elements g" "elements (g\<lparr>gv_globals := x6\<rparr>) = elements g"
  "elements (g\<lparr>gv_trace := x7\<rparr>) = elements g"
  by (simp_all add: elements_def get_array_def fun_eq_iff)

lemma arrays_rel_elements: "elements g' = elements g \<Longrightarrow> arrays_rel ad m g' = arrays_rel ad m g"
  by (simp add: arrays_rel_def)

lemma globals_linked_elements:
  "elements g' = elements g \<Longrightarrow> gv_globals g' = gv_globals g \<Longrightarrow> globals_linked K ad vg g' = globals_linked K ad vg g"
  by (simp add: globals_linked_def)

lemmas lock_fields [simp] = arrays_rel_elements [OF elements_fields(1)] arrays_rel_elements [OF elements_fields(2)]
  arrays_rel_elements [OF elements_fields(3)] arrays_rel_elements [OF elements_fields(4)]
  arrays_rel_elements [OF elements_fields(5)] arrays_rel_elements [OF elements_fields(6)]
  arrays_rel_elements [OF elements_fields(7)]

lemma globals_fields [simp]:
  "globals_linked K ad vg (g\<lparr>gv_stack := x1\<rparr>) = globals_linked K ad vg g" "globals_linked K ad vg (g\<lparr>gv_calls := x2\<rparr>) = globals_linked K ad vg g"
  "globals_linked K ad vg (g\<lparr>gv_pc := x3\<rparr>) = globals_linked K ad vg g" "globals_linked K ad vg (g\<lparr>gv_output := x4\<rparr>) = globals_linked K ad vg g"
  "globals_linked K ad vg (g\<lparr>gv_cycles := x5\<rparr>) = globals_linked K ad vg g" "globals_linked K ad vg (g\<lparr>gv_trace := x7\<rparr>) = globals_linked K ad vg g"
  by (simp_all add: globals_linked_def)

text \<open>An instruction that finds only integers on the stack, and one after which control may go on.\<close>

definition aligned :: "compiled_program \<Rightarrow> code_kinds \<Rightarrow> addresses \<Rightarrow> vm \<Rightarrow> gc_vm \<Rightarrow> bool" where
  "aligned p K ad v g \<longleftrightarrow>
     lock p K ad (vm_pc v) v g \<and> expected p (vm_pc v) = None"

definition going :: "compiled_program \<Rightarrow> code_kinds \<Rightarrow> vm \<Rightarrow> bool" where
  "going p K v \<longleftrightarrow> calm p K (vm_pc v + 1) (frame_func (hd (vm_calls v)))"

lemma going_expected: "going p K v \<Longrightarrow> expected p (Suc (vm_pc v)) = None"
  by (simp add: going_def calm_def)

lemma calm_expected: "calm p K pc i \<Longrightarrow> expected p pc = None"
  by (simp add: calm_def)

lemma aligned_stack: "aligned p K ad v g \<Longrightarrow> gv_stack g = List.map GInt (vm_stack v)"
  by (auto simp: aligned_def lock_def stack_rel_def)

lemma aligned_calls:
  assumes "aligned p K ad v g"
  obtains f fs g' gs where "vm_calls v = f # fs" "gv_calls g = g' # gs"
    "frames_linked p K ad (vget (vm_locals v)) (vm_pc v) (f # fs) (g' # gs)"
proof -
  from assms have fr: "frames_linked p K ad (vget (vm_locals v)) (vm_pc v) (vm_calls v) (gv_calls g)"
    and ne: "vm_calls v \<noteq> []"
    by (simp_all add: aligned_def lock_def)
  from ne obtain f fs where f: "vm_calls v = f # fs" by (cases "vm_calls v") auto
  with fr obtain g' gs where "gv_calls g = g' # gs" by (cases "gv_calls g") auto
  with f fr that show ?thesis by simp
qed

lemma alike_stack:
  assumes "lock p K ad pc v g"
  shows "alike (v\<lparr>vm_stack := xs\<rparr>) (g\<lparr>gv_stack := List.map GInt xs\<rparr>)"
  using assms frames_linked_length by (auto simp: lock_def alike_def)

lemma aligned_alike:
  assumes "aligned p K ad v g"
  shows "alike v g" "alike (v\<lparr>vm_stack := xs\<rparr>) (g\<lparr>gv_stack := List.map GInt xs\<rparr>)"
  using assms alike_stack [of p K ad "vm_pc v" v g] aligned_stack [OF assms]
  by (auto simp: aligned_def alike_def)

text \<open>Control goes on at \<open>pc\<close> with only integers on the stack.\<close>

lemma lock_go:
  assumes "aligned p K ad v g" "calm p K pc (frame_func (hd (vm_calls v)))"
  shows "lock p K ad pc (v\<lparr>vm_stack := xs\<rparr>) (g\<lparr>gv_stack := List.map GInt xs\<rparr>)"
proof -
  obtain f fs g' gs where c: "vm_calls v = f # fs" "gv_calls g = g' # gs"
    "frames_linked p K ad (vget (vm_locals v)) (vm_pc v) (f # fs) (g' # gs)" by (rule aligned_calls [OF assms(1)])
  from assms(2) c(1) have "owned p K pc (frame_func f)" by (simp add: calm_def)
  from frames_linked_pc [OF c(3) this]
  have "frames_linked p K ad (vget (vm_locals v)) pc (f # fs) (g' # gs)" .
  with assms c(1,2) show ?thesis by (simp add: aligned_def lock_def stack_rel_def calm_def)
qed

lemma same_push:
  assumes "aligned p K ad v g" "going p K v"
  shows "same_result p K (push_next x (v\<lparr>vm_stack := xs\<rparr>)) (gc_push_next (GInt x) (g\<lparr>gv_stack := List.map GInt xs\<rparr>))"
proof -
  have "lock p K ad (vm_pc v + 1) (v\<lparr>vm_stack := x # xs\<rparr>) (g\<lparr>gv_stack := List.map GInt (x # xs)\<rparr>)"
    by (rule lock_go [OF assms(1)]) (use assms(2) in \<open>simp add: going_def\<close>)
  then show ?thesis
    using aligned_alike(2) [OF assms(1), of xs] assms
    by (auto simp: same_result_def push_next_def gc_push_next_def push_def gc_push_def aligned_def lock_def going_expected)
qed

lemma same_push_top:
  assumes "aligned p K ad v g" "going p K v"
  shows "same_result p K (push_next x v) (gc_push_next (GInt x) g)"
proof -
  have "g\<lparr>gv_stack := List.map GInt (vm_stack v)\<rparr> = g" "v\<lparr>vm_stack := vm_stack v\<rparr> = v"
    using aligned_stack [OF assms(1)] by (cases g; simp)+
  then show ?thesis using same_push [OF assms, of x "vm_stack v"] by simp
qed

lemma same_next:
  assumes "aligned p K ad v g" "going p K v"
  shows "same_result p K (Inr True, v\<lparr>vm_stack := xs\<rparr>) (Inr True, g\<lparr>gv_stack := List.map GInt xs\<rparr>)"
proof -
  have "lock p K ad (vm_pc v + 1) (v\<lparr>vm_stack := xs\<rparr>) (g\<lparr>gv_stack := List.map GInt xs\<rparr>)"
    by (rule lock_go [OF assms(1)]) (use assms(2) in \<open>simp add: going_def\<close>)
  then show ?thesis using assms by (auto simp: same_result_def aligned_def lock_def going_expected)
qed

lemma same_trap:
  assumes "aligned p K ad v g"
  shows "same_result p K (Inl e, v\<lparr>vm_stack := xs\<rparr>) (Inl e, g\<lparr>gv_stack := List.map GInt xs\<rparr>)"
  using aligned_alike(2) [OF assms] by (simp add: same_result_def)

text \<open>One way to pop an operand.\<close>

lemma pop_eq: "pop v = (case vm_stack v of [] \<Rightarrow> (Inl (Trap StackUnderflow ''Stack underflow''), v)
    | x # xs \<Rightarrow> (Inr x, v\<lparr>vm_stack := xs\<rparr>))"
  by (simp add: pop_def)

lemma same_pop:
  assumes "aligned p K ad v g" "\<And>x xs. vm_stack v = x # xs \<Longrightarrow>
      same_result p K (k x (v\<lparr>vm_stack := xs\<rparr>)) (k' (GInt x) (g\<lparr>gv_stack := List.map GInt xs\<rparr>))"
  shows "same_result p K (bnd (pop v) k) (bnd (gc_pop g) k')"
proof (cases "vm_stack v")
  case Nil
  with same_trap [OF assms(1), of _ "[]"] aligned_stack [OF assms(1)] aligned_alike(1) [OF assms(1)]
  show ?thesis by (simp add: pop_def gc_pop_def same_result_def)
next
  case (Cons x xs)
  with assms(2) [OF Cons] aligned_stack [OF assms(1)] show ?thesis by (simp add: pop_def gc_pop_def)
qed

text \<open>After a pop, the machines are aligned on the shorter stack.\<close>

lemma aligned_pop:
  assumes "aligned p K ad v g"
  shows "aligned p K ad (v\<lparr>vm_stack := xs\<rparr>) (g\<lparr>gv_stack := List.map GInt xs\<rparr>)"
proof -
  obtain f fs g' gs where c: "vm_calls v = f # fs" "gv_calls g = g' # gs"
    "frames_linked p K ad (vget (vm_locals v)) (vm_pc v) (f # fs) (g' # gs)" by (rule aligned_calls [OF assms(1)])
  then have "owned p K (vm_pc v) (frame_func f)" by simp
  with assms c lock_go [OF assms, of "vm_pc v" xs] show ?thesis by (simp add: aligned_def calm_def)
qed

lemma bnd_assoc: "bnd (bnd r f) k = bnd r (\<lambda>a s. bnd (f a s) k)"
  by (auto simp: bnd_def split: sum.splits prod.splits)

lemma pop_int_bnd: "bnd (pop_int g) k = bnd (gc_pop g) (\<lambda>v. k (to_i64 v))"
  by (simp add: pop_int_def bnd_assoc)

lemma same_binary:
  assumes "aligned p K ad v g" "going p K v"
  shows "same_result p K (binary_op f v) (gc_binary_op f g)"
  unfolding binary_op_def gc_binary_op_def pop_int_bnd
  by (intro same_pop [OF assms(1)] same_pop [OF aligned_pop [OF assms(1)]])
    (simp_all add: same_push [OF assms])

lemma same_logic:
  assumes "aligned p K ad v g" "going p K v"
  shows "same_result p K (binary_op (\<lambda>a b. truth (f (a \<noteq> 0) (b \<noteq> 0))) v) (gc_logic_op f g)"
  unfolding binary_op_def gc_logic_op_def
  by (intro same_pop [OF assms(1)] same_pop [OF aligned_pop [OF assms(1)]]) (simp_all add: same_push [OF assms])

lemma same_not:
  assumes "aligned p K ad v g" "going p K v"
  shows "same_result p K (unary_op (\<lambda>a. truth (a = 0)) v) (gc_exec_not g)"
  unfolding unary_op_def gc_exec_not_def
  by (intro same_pop [OF assms(1)]) (simp add: same_push [OF assms])

lemma same_div:
  assumes "aligned p K ad v g" "going p K v"
  shows "same_result p K (exec_div v) (gc_exec_div g)"
  unfolding exec_div_def gc_exec_div_def pop_int_bnd
  by (intro same_pop [OF assms(1)] same_pop [OF aligned_pop [OF assms(1)]])
    (simp_all add: same_push [OF assms] same_trap [OF assms(1)])

lemma same_neg:
  assumes "aligned p K ad v g" "going p K v"
  shows "same_result p K (exec_neg v) (gc_exec_neg g)"
  unfolding exec_neg_def gc_exec_neg_def pop_int_bnd
  by (intro same_pop [OF assms(1)]) (simp_all add: same_push [OF assms] same_trap [OF assms(1)])

lemma same_jump:
  assumes "aligned p K ad v g" "calm p K (as_usize a) (frame_func (hd (vm_calls v)))"
  shows "same_result p K (jump_to a (v\<lparr>vm_stack := xs\<rparr>)) (gc_jump_to a (g\<lparr>gv_stack := List.map GInt xs\<rparr>))"
  using lock_go [OF assms, of xs] calm_expected [OF assms(2)] by (auto simp: same_result_def jump_to_def gc_jump_to_def lock_def)

lemma same_jump_if:
  assumes "aligned p K ad v g" "calm p K (as_usize a) (frame_func (hd (vm_calls v)))" "going p K v"
    and "\<And>x. taken x = taken' (x \<noteq> 0)"
  shows "same_result p K (exec_jump_if taken a v) (gc_jump_if taken' a g)"
  unfolding exec_jump_if_def gc_jump_if_def
  by (intro same_pop [OF assms(1)]) (simp add: assms(4) same_jump [OF assms(1,2)] same_next [OF assms(1,3)])

lemma same_print:
  assumes "aligned p K ad v g" "going p K v"
  shows "same_result p K (exec_print v) (gc_exec_print g)"
  unfolding exec_print_def gc_exec_print_def pop_int_bnd
proof (rule same_pop [OF assms(1)])
  fix x xs
  have "lock p K ad (vm_pc v + 1) (v\<lparr>vm_stack := xs\<rparr>) (g\<lparr>gv_stack := List.map GInt xs\<rparr>)"
    by (rule lock_go [OF assms(1)]) (use assms(2) in \<open>simp add: going_def\<close>)
  then show "same_result p K (Inr True, v\<lparr>vm_stack := xs, vm_output := vm_output (v\<lparr>vm_stack := xs\<rparr>) @ [fmt [''OUTPUT: '', show_int x]]\<rparr>)
     (Inr True, g\<lparr>gv_stack := List.map GInt xs, gv_output := gv_output (g\<lparr>gv_stack := List.map GInt xs\<rparr>) @
        [fmt [''OUTPUT: '', show_int (to_i64 (GInt x))]]\<rparr>)"
    using assms by (auto simp: same_result_def lock_def aligned_def going_expected)
qed

lemma same_exec_pop:
  assumes "aligned p K ad v g" "going p K v"
  shows "same_result p K (exec_pop v) (gc_exec_pop g)"
  unfolding exec_pop_def gc_exec_pop_def
  by (intro same_pop [OF assms(1)]) (simp add: same_next [OF assms])

section \<open>Local variables\<close>

lemma slot_fields [simp]:
  "current_local_slot p a (v\<lparr>vm_stack := xs\<rparr>) = current_local_slot p a v"
  "gc_local_slot a (g\<lparr>gv_stack := ys\<rparr>) = gc_local_slot a g"
  "current_frame (g\<lparr>gv_stack := ys\<rparr>) = current_frame g"
  "locals_get (v\<lparr>vm_stack := xs\<rparr>) = locals_get v" "global_slot a (v\<lparr>vm_stack := xs\<rparr>) = global_slot a v"
  "gc_global_slot a (g\<lparr>gv_stack := ys\<rparr>) = gc_global_slot a g"
  by (simp_all add: current_local_slot_def gc_local_slot_def current_frame_def locals_get_def global_slot_def
      gc_global_slot_def fun_eq_iff Let_def split: option.split list.split)

lemma local_slots:
  assumes "lock p K ad pc v g" "vm_calls v = f # fs" "gv_calls g = g' # gs" "fun_lookup p (frame_func f) = Some h"
    "0 \<le> a" "nat a < local_count h"
  shows "current_local_slot p a v = Inr (base_ptr f + nat a)" "gc_local_slot a g = Inr (nat a)"
    "base_ptr f + nat a < vlen (vm_locals v)"
    "locals_get v (base_ptr f + nat a) = Inr (vget (vm_locals v) (base_ptr f + nat a))"
    "cell_rel ad (ck_locals K (frame_func f) (nat a)) (vget (vm_locals v) (base_ptr f + nat a))
       (gf_locals g' ! nat a) (gf_init g' ! nat a)"
    "nat a < length (gf_locals g')" "current_frame g = Inr g'"
proof -
  from assms(1-3) have cells: "cells_rel p K ad (vget (vm_locals v)) f g'" and len: "MAX_LOCAL_SLOTS \<le> vlen (vm_locals v)"
    by (simp_all add: lock_def)
  with assms(4) have c: "length (gf_locals g') = local_count h" "base_ptr f + local_count h \<le> MAX_LOCAL_SLOTS"
    and cell: "\<forall>k < local_count h. cell_rel ad (ck_locals K (frame_func f) k) (vget (vm_locals v) (base_ptr f + k))
           (gf_locals g' ! k) (gf_init g' ! k)" by (auto simp: cells_rel_def)
  from c assms(6) have less: "base_ptr f + nat a < MAX_LOCAL_SLOTS" by simp
  then show "current_local_slot p a v = Inr (base_ptr f + nat a)"
    using assms by (simp add: current_local_slot_def Let_def checked_add_def limit_defs)
  show "gc_local_slot a g = Inr (nat a)" "current_frame g = Inr g'" "nat a < length (gf_locals g')"
    using assms c by (simp_all add: gc_local_slot_def current_frame_def Let_def)
  show "base_ptr f + nat a < vlen (vm_locals v)" using less len by simp
  then show "locals_get v (base_ptr f + nat a) = Inr (vget (vm_locals v) (base_ptr f + nat a))" by (simp add: locals_get_def)
  show "cell_rel ad (ck_locals K (frame_func f) (nat a)) (vget (vm_locals v) (base_ptr f + nat a))
       (gf_locals g' ! nat a) (gf_init g' ! nat a)" using cell assms(6) by simp
qed

lemma same_load_local:
  assumes S: "aligned p K ad v g" and go: "going p K v" and h: "fun_lookup p (frame_func (hd (vm_calls v))) = Some h"
    and a: "0 \<le> a" "nat a < local_count h" "ck_locals K (frame_func (hd (vm_calls v))) (nat a) = None"
  shows "same_result p K (exec_load_local p a v) (gc_load_local a g)"
proof -
  obtain f fs g' gs where c: "vm_calls v = f # fs" "gv_calls g = g' # gs" by (rule aligned_calls [OF S])
  have L: "lock p K ad (vm_pc v) v g" using S by (simp add: aligned_def)
  have h': "fun_lookup p (frame_func f) = Some h" using h c by simp
  note s = local_slots [OF L c h' a(1,2)]
  show ?thesis
  proof (cases "gf_init g' ! nat a")
    case True
    with s(5) a(3) c have "gf_locals g' ! nat a = GInt (vget (vm_locals v) (base_ptr f + nat a))"
      "vget (vm_locals v) (base_ptr f + nat a) \<noteq> i64_min" by (simp_all add: cell_rel_def)
    with s True same_push_top [OF S go]
    show ?thesis by (simp add: exec_load_local_def gc_load_local_def frame_get_def)
  next
    case False
    with s(5) have "vget (vm_locals v) (base_ptr f + nat a) = i64_min" by (simp add: cell_rel_def)
    with s show ?thesis by (simp add: exec_load_local_def same_result_def escapes_def)
  qed
qed

lemma vget_set: "vget (vec_set m i x) = (vget m)(i := x)"
  by (simp add: fun_eq_iff)

lemma cells_write:
  assumes "cells_rel p K ad m f g" "fun_lookup p (frame_func f) = Some h" "k < local_count h"
    "cell_rel ad (ck_locals K (frame_func f) k) x w True"
  shows "cells_rel p K ad (m(base_ptr f + k := x)) f (frame_set k w g)"
  using assms by (auto simp: cells_rel_def frame_set_def nth_list_update)

lemma frames_write:
  assumes "frames_linked p K ad m pc (f # fs) (g # gs)" "fun_lookup p (frame_func f) = Some h" "k < local_count h"
    "cell_rel ad (ck_locals K (frame_func f) k) x w True" "owned p K pc' (frame_func f)"
  shows "frames_linked p K ad (m(base_ptr f + k := x)) pc' (f # fs) (frame_set k w g # gs)"
proof -
  from assms(1) have "cells_rel p K ad m f g" and tail: "frames_linked p K ad m (return_pc f) fs gs"
    and base: "frames_base p fs = base_ptr f" by simp_all
  from cells_write [OF this(1) assms(2-4)] have "cells_rel p K ad (m(base_ptr f + k := x)) f (frame_set k w g)" .
  moreover have "frames_linked p K ad (m(base_ptr f + k := x)) (return_pc f) fs gs"
    by (rule frames_linked_cong [OF tail]) (simp_all add: base)
  moreover have "gf_return_pc (frame_set k w g) = gf_return_pc g" by (simp add: frame_set_def)
  ultimately show ?thesis using assms(1,5) by simp
qed

lemma arrays_relD:
  assumes "arrays_rel ad m g" "ad i = Some (b, n)"
  shows "elements g i = Some (List.map (vget m) [b..<b + n])" "MAX_LOCAL_SLOTS \<le> b" "b + n \<le> vlen m"
    "ad j = Some (c, k) \<Longrightarrow> i \<noteq> j \<Longrightarrow> b + n \<le> c \<or> c + k \<le> b"
  using assms by (auto simp: arrays_rel_def)

lemma arrays_rel_memory:
  assumes A: "arrays_rel ad m g" and "vlen m \<le> vlen m'"
    and same: "\<And>i b n a. ad i = Some (b, n) \<Longrightarrow> b \<le> a \<Longrightarrow> a < b + n \<Longrightarrow> vget m' a = vget m a"
  shows "arrays_rel ad m' g"
  unfolding arrays_rel_def
proof (intro conjI allI impI)
  fix i b n
  assume i: "ad i = Some (b, n)"
  from same [OF i] have "List.map (vget m') [b..<b + n] = List.map (vget m) [b..<b + n]" by simp
  with arrays_relD [OF A i] assms(2)
  show "elements g i = Some (List.map (vget m') [b..<b + n])" "MAX_LOCAL_SLOTS \<le> b" "b + n \<le> vlen m'" by simp_all
qed (use A in \<open>auto simp: arrays_rel_def\<close>)

lemma arrays_rel_low:
  assumes "a < MAX_LOCAL_SLOTS" "arrays_rel ad m g"
  shows "arrays_rel ad (vec_set m a x) g"
proof (rule arrays_rel_memory [OF assms(2)])
  show "vget (vec_set m a x) a' = vget m a'" if "ad i = Some (b, n)" "b \<le> a'" for i b n a'
    using arrays_relD(2) [OF assms(2) that(1)] that(2) assms(1) by simp
qed simp

lemma store_local_runs:
  assumes L: "lock p K ad (vm_pc v) v g" and st: "vm_stack v = x # xs" "gv_stack g = w # List.map GInt xs"
    and h: "fun_lookup p (frame_func (hd (vm_calls v))) = Some h" and a: "0 \<le> a" "nat a < local_count h"
    and cell: "cell_rel ad (ck_locals K (frame_func (hd (vm_calls v))) (nat a)) x w True"
    and calm: "calm p K (vm_pc v + 1) (frame_func (hd (vm_calls v)))"
  obtains u u' where "exec_store_local p a v = (Inr True, u)" "gc_store_local a g = (Inr True, u')"
    "lock p K ad (vm_pc u + 1) u u'" "vm_stack u = xs" "vm_pc u = vm_pc v" "vm_calls u = vm_calls v"
proof -
  have fr: "frames_linked p K ad (vget (vm_locals v)) (vm_pc v) (vm_calls v) (gv_calls g)" and "vm_calls v \<noteq> []"
    using L by (simp_all add: lock_def)
  then obtain f fs g' gs where c: "vm_calls v = f # fs" "gv_calls g = g' # gs"
    by (cases "vm_calls v"; cases "gv_calls g") auto
  have h': "fun_lookup p (frame_func f) = Some h" and cell': "cell_rel ad (ck_locals K (frame_func f) (nat a)) x w True"
    and own: "owned p K (vm_pc v + 1) (frame_func f)" using h c cell calm by (simp_all add: calm_def)
  note s = local_slots [OF L c h' a]
  let ?v = "v\<lparr>vm_stack := xs, vm_locals := vec_set (vm_locals v) (base_ptr f + nat a) x\<rparr>"
  let ?g = "g\<lparr>gv_stack := List.map GInt xs, gv_calls := frame_set (nat a) w g' # gs\<rparr>"
  have low: "base_ptr f + nat a < MAX_LOCAL_SLOTS" using fr c a(2) h' by (auto simp: cells_rel_def)
  have "frames_linked p K ad (vget (vm_locals ?v)) (vm_pc v + 1) (vm_calls ?v) (gv_calls ?g)"
    using frames_write [OF fr [unfolded c] h' a(2) cell' own] c by (simp add: vget_set del: frames_linked.simps)
  moreover have "arrays_rel ad (vm_locals ?v) ?g" using L arrays_rel_low [OF low] by (simp add: lock_def)
  ultimately have "lock p K ad (vm_pc v + 1) ?v ?g"
    using L calm c by (simp add: lock_def calm_def stack_rel_def del: frames_linked.simps)
  moreover have "exec_store_local p a v = (Inr True, ?v)" "gc_store_local a g = (Inr True, ?g)"
    using s st c by (simp_all add: exec_store_local_def pop_def locals_set_def gc_store_local_def gc_pop_def set_current_frame_def)
  ultimately show ?thesis using c that by simp
qed

lemma same_store_local:
  assumes S: "aligned p K ad v g" and go: "going p K v" and h: "fun_lookup p (frame_func (hd (vm_calls v))) = Some h"
    and a: "0 \<le> a" "nat a < local_count h" "ck_locals K (frame_func (hd (vm_calls v))) (nat a) = None"
    and ints: "\<forall>x \<in> set (vm_stack v). x \<noteq> i64_min"
  shows "same_result p K (exec_store_local p a v) (gc_store_local a g)"
proof (cases "vm_stack v")
  case Nil
  obtain f fs g' gs where c: "vm_calls v = f # fs" "gv_calls g = g' # gs" by (rule aligned_calls [OF S])
  have L: "lock p K ad (vm_pc v) v g" using S by (simp add: aligned_def)
  note s = local_slots [OF L c _ a(1,2)]
  from Nil aligned_stack [OF S] have "gv_stack g = []" by simp
  with Nil c h s show ?thesis
    using aligned_alike(1) [OF S] by (simp add: exec_store_local_def gc_store_local_def pop_def gc_pop_def same_result_def)
next
  case (Cons x xs)
  have L: "lock p K ad (vm_pc v) v g" using S by (simp add: aligned_def)
  have st: "gv_stack g = GInt x # List.map GInt xs" using aligned_stack [OF S] Cons by simp
  have cell: "cell_rel ad (ck_locals K (frame_func (hd (vm_calls v))) (nat a)) x (GInt x) True"
    using a(3) ints Cons by (simp add: cell_rel_def)
  obtain u u' where "exec_store_local p a v = (Inr True, u)" "gc_store_local a g = (Inr True, u')"
    "lock p K ad (vm_pc u + 1) u u'" "vm_pc u = vm_pc v" "vm_calls u = vm_calls v"
    by (rule store_local_runs [OF L Cons st h a(1,2) cell go [unfolded going_def]])
  then show ?thesis using going_expected [OF go] L by (auto simp: same_result_def lock_def)
qed

end
