(* ===== verification/Lockstep_Steps.thy ===== *)
theory Lockstep_Steps
  imports Lockstep
begin

text \<open>
  The instructions that change globals, frames and arrays, and that every instruction of a program
  whose code keeps the kinds of values apart has the same result on both machines.
\<close>

section \<open>Globals\<close>

lemma globals_linkedD:
  assumes "globals_linked K ad vg g"
  shows "vlen vg = MAX_GLOBAL_SLOTS" "length (gv_globals g) = MAX_GLOBAL_SLOTS"
    "k < MAX_GLOBAL_SLOTS \<Longrightarrow> scalar_global K k \<Longrightarrow> gv_globals g ! k = GInt (vget vg k)"
  using assms by (simp_all add: globals_linked_def)

lemma same_load_global:
  assumes S: "aligned p K ad v g" and go: "going p K v" and a: "0 \<le> a" "nat a < MAX_GLOBAL_SLOTS" "scalar_global K (nat a)"
  shows "same_result p K (exec_load_global a v) (gc_load_global a g)"
proof -
  have G: "globals_linked K ad (vm_globals v) g" using S by (simp add: aligned_def lock_def)
  show ?thesis
    using globals_linkedD [OF G] a same_push_top [OF S go]
    by (simp add: exec_load_global_def gc_load_global_def global_slot_def gc_global_slot_def globals_get_def Let_def)
qed

lemma scalar_not_head:
  "kinded p K \<Longrightarrow> scalar_global K k \<Longrightarrow> ck_globals K s = Some n \<Longrightarrow> s \<noteq> k \<and> (k < s \<or> s + n \<le> k)"
  by (fastforce simp: kinded_def scalar_global_def)

lemma globals_write:
  assumes "globals_linked K ad vg g" "kinded p K" "k < MAX_GLOBAL_SLOTS" "scalar_global K k"
  shows "globals_linked K ad (vec_set vg k x) (g\<lparr>gv_globals := (gv_globals g)[k := GInt x]\<rparr>)"
proof -
  note D = globals_linkedD [OF assms(1)]
  have keep: "List.map ((vget vg)(k := x)) [s..<s + n] = List.map (vget vg) [s..<s + n]"
    and head: "(gv_globals g)[k := GInt x] ! s = gv_globals g ! s" if "ck_globals K s = Some n" for s n
    using scalar_not_head [OF assms(2,4) that] by (auto simp: nth_list_update)
  have G: "ck_globals K s = Some n \<Longrightarrow> \<exists>i. gv_globals g ! s = GArray i \<and> ad i = None \<and>
        elements g i = Some (List.map (vget vg) [s..<s + n])"
    "ck_globals K s = Some n \<Longrightarrow> ck_globals K t = Some m \<Longrightarrow> s \<noteq> t \<Longrightarrow> gv_globals g ! s \<noteq> gv_globals g ! t" for s n t m
    using assms(1) by (auto simp: globals_linked_def)
  have heads: "\<exists>i. (gv_globals g)[k := GInt x] ! s = GArray i \<and> ad i = None \<and>
      elements g i = Some (List.map ((vget vg)(k := x)) [s..<s + n])" if "ck_globals K s = Some n" for s n
    unfolding keep [OF that] head [OF that] by (rule G(1) [OF that])
  have apart: "(gv_globals g)[k := GInt x] ! s \<noteq> (gv_globals g)[k := GInt x] ! t"
    if "ck_globals K s = Some n" "ck_globals K t = Some m" "s \<noteq> t" for s n t m
    unfolding head [OF that(1)] head [OF that(2)] by (rule G(2) [OF that])
  show ?thesis
    unfolding globals_linked_def vget_set
    using D heads apart by (auto simp: nth_list_update)
qed

lemma lock_globals:
  assumes "lock p K ad pc v g" "globals_linked K ad vg g'" "g' = g\<lparr>gv_globals := gs\<rparr>"
  shows "lock p K ad pc (v\<lparr>vm_globals := vg\<rparr>) g'"
  using assms by (simp add: lock_def)

lemma same_store_global:
  assumes S: "aligned p K ad v g" and go: "going p K v" and K: "kinded p K"
    and a: "0 \<le> a" "nat a < MAX_GLOBAL_SLOTS" "scalar_global K (nat a)"
  shows "same_result p K (exec_store_global a v) (gc_store_global a g)"
proof -
  have G: "globals_linked K ad (vm_globals v) g" using S by (simp add: aligned_def lock_def)
  note D = globals_linkedD [OF G]
  have slots: "global_slot a v = Inr (nat a)" "gc_global_slot a g = Inr (nat a)"
    using D a by (simp_all add: global_slot_def gc_global_slot_def Let_def)
  have "same_result p K (bnd (pop v) (\<lambda>x s. bnd (globals_set (nat a) x s) (\<lambda>_ s. (Inr True, s))))
     (bnd (gc_pop g) (\<lambda>x s. (Inr True, s\<lparr>gv_globals := (gv_globals s)[nat a := x]\<rparr>)))"
  proof (rule same_pop [OF S])
    fix x xs
    let ?v = "v\<lparr>vm_stack := xs\<rparr>" and ?g = "g\<lparr>gv_stack := List.map GInt xs\<rparr>"
    have L: "lock p K ad (vm_pc v + 1) ?v ?g" by (rule lock_go [OF S]) (use go in \<open>simp add: going_def\<close>)
    have "globals_linked K ad (vec_set (vm_globals v) (nat a) x) (?g\<lparr>gv_globals := (gv_globals ?g)[nat a := GInt x]\<rparr>)"
      by (rule globals_write [OF _ K a(2,3)]) (simp add: G)
    from lock_globals [OF L this refl] S
    show "same_result p K (bnd (globals_set (nat a) x ?v) (\<lambda>_ s. (Inr True, s)))
       (Inr True, ?g\<lparr>gv_globals := (gv_globals ?g)[nat a := GInt x]\<rparr>)"
      using D a by (auto simp: globals_set_def same_result_def aligned_def lock_def going_expected [OF go])
  qed
  then show ?thesis by (simp add: exec_store_global_def gc_store_global_def slots)
qed

section \<open>Calls\<close>

lemma pop_args_eq:
  "pop_args n args g =
     (if n \<le> length (gv_stack g) then (Inr (args @ take n (gv_stack g)), g\<lparr>gv_stack := drop n (gv_stack g)\<rparr>)
      else (Inl (Trap StackUnderflow ''Stack underflow''), g\<lparr>gv_stack := []\<rparr>))"
proof (induction n arbitrary: args g)
  case (Suc n)
  show ?case
  proof (cases "gv_stack g")
    case Nil
    then have "g\<lparr>gv_stack := []\<rparr> = g" by (cases g) simp
    with Nil show ?thesis by (simp add: gc_pop_def)
  qed (simp add: gc_pop_def Suc)
qed simp

lemma init_params_nth:
  assumes "length (gf_init f) = length (gf_locals f)" "k < length (gf_locals f)"
  shows "gf_locals (init_params i vs f) ! k = (if i \<le> k \<and> k < i + length vs then vs ! (k - i) else gf_locals f ! k) \<and>
     gf_init (init_params i vs f) ! k = ((i \<le> k \<and> k < i + length vs) \<or> gf_init f ! k) \<and>
     gf_return_pc (init_params i vs f) = gf_return_pc f"
  using assms
proof (induction i vs f rule: init_params.induct)
  case (2 i v vs f)
  then have "length (gf_init (frame_set i v f)) = length (gf_locals (frame_set i v f))" by (simp add: frame_set_def)
  from "2.IH" [OF this] "2.prems" show ?case
    by (auto simp: frame_set_def nth_list_update nth_Cons' Suc_diff_le not_less_eq_eq)
qed auto

lemma init_params_return: "gf_return_pc (init_params i vs f) = gf_return_pc f"
  by (induction i vs f rule: init_params.induct) (simp_all add: frame_set_def)

lemma same_resultI:
  assumes "post r (\<lambda>a t. same_result p K (Inr a, t) r') (\<lambda>e t. same_result p K (Inl e, t) r')"
  shows "same_result p K r r'"
  using assms by (cases r; cases "fst r") (auto simp: post_def)

lemma new_frame_cells:
  assumes f: "fun_lookup p i = Some f" and n: "n \<le> local_count f" "n \<le> length st"
    and kinds: "\<forall>k < n. ck_locals K i k = None" and b: "b + local_count f \<le> MAX_LOCAL_SLOTS"
    and ints: "\<forall>x \<in> set st. x \<noteq> i64_min"
  shows "cells_rel p K ad (vget (call_locals b n (local_count f) st m))
    \<lparr>return_pc = r, base_ptr = b, frame_func = i\<rparr>
    (init_params 0 (rev (List.map GInt (take n st))) (GcCallFrame_new (local_count f) r))"
proof -
  let ?g = "init_params 0 (rev (List.map GInt (take n st))) (GcCallFrame_new (local_count f) r)"
  have len: "length (gf_locals ?g) = local_count f" "length (gf_init ?g) = local_count f"
    using init_params_ok [of "GcCallFrame_new (local_count f) r"] by simp_all
  have nth: "gf_locals ?g ! k = (if k < n then rev (List.map GInt (take n st)) ! k else GInt 0) \<and>
      gf_init ?g ! k = (k < n)" if "k < local_count f" for k
    using init_params_nth [of "GcCallFrame_new (local_count f) r" k 0 "rev (List.map GInt (take n st))"] that n
    by (auto simp: GcCallFrame_new_def)
  have "cell_rel ad (ck_locals K i k) (vget (call_locals b n (local_count f) st m) (b + k)) (gf_locals ?g ! k) (gf_init ?g ! k)"
    if k: "k < local_count f" for k
  proof (cases "k < n")
    case True
    then have "rev (List.map GInt (take n st)) ! k = GInt (st ! (n - 1 - k))"
      using n by (simp add: rev_nth)
    moreover have "st ! (n - 1 - k) \<in> set st" using True n by simp
    ultimately show ?thesis using True nth [OF k] kinds ints by (simp add: cell_rel_def)
  next
    case False
    with nth [OF k] k show ?thesis by (simp add: cell_rel_def)
  qed
  with f b len show ?thesis by (auto simp: cells_rel_def)
qed

lemma aligned_ints:
  assumes "aligned p K ad v g" "ints_ok g"
  shows "\<forall>x \<in> set (vm_stack v). x \<noteq> i64_min"
  using aligned_stack [OF assms(1)] assms(2) by (force simp: ints_ok_def)

lemma same_call:
  assumes S: "aligned p K ad v g" and go: "going p K v" and K: "kinded p K" and ints: "ints_ok g" and small: "functions_valid p"
    and pc: "vm_pc v + 1 < usize_max"
    and a: "0 \<le> a" "0 \<le> b" "fun_lookup p (nat a) = Some f" "nat b = param_count f"
  shows "same_result p K (exec_call p a b v) (gc_exec_call p a b g)"
proof (rule same_resultI)
  let ?n = "param_count f" and ?st = "vm_stack v"
  obtain cf fs g' gs where c: "vm_calls v = cf # fs" "gv_calls g = g' # gs"
    and fr: "frames_linked p K ad (vget (vm_locals v)) (vm_pc v) (cf # fs) (g' # gs)" by (rule aligned_calls [OF S])
  have calm: "calm p K (vm_pc v + 1) (frame_func cf)" using go c by (simp add: going_def)
  from S have L: "lock p K ad (vm_pc v) v g" by (simp add: aligned_def)
  note gst = aligned_stack [OF S]
  have len: "length (gv_calls g) = length (vm_calls v)" using frames_linked_length [OF fr] c by simp
  from K a(3) have entry: "calm p K (entry_pc f) (nat a)" and kinds: "\<forall>k < ?n. ck_locals K (nat a) k = None"
    by (simp_all add: kinded_def)
  have valid: "?n \<le> local_count f" using small a(3) by (auto simp: functions_valid_def fun_lookup_def dest!: map_of_SomeD)
  let ?base = "caller_base v + caller_locals p v"
  have base: "?base = frame_top p cf" using c by (simp add: caller_base_def caller_locals_def frame_top_def)
  have ml: "MAX_LOCAL_SLOTS \<le> vlen (vm_locals v)" using L by (simp add: lock_def)
  let ?r = "gc_exec_call p a b g"
  have gc: "?r = (if length (vm_calls v) \<ge> MAX_FRAMES
      then (Inl (Trap StackOverflow (fmt [''Call stack overflow (max '', show_nat MAX_FRAMES, '' frames)''])), g)
      else if ?n \<le> length ?st
      then (Inr False, g\<lparr>gv_stack := List.map GInt (drop ?n ?st),
             gv_calls := init_params 0 (rev (List.map GInt (take ?n ?st))) (GcCallFrame_new (local_count f) (vm_pc v + 1)) # gv_calls g,
             gv_pc := entry_pc f\<rparr>)
      else (Inl (Trap StackUnderflow ''Stack underflow''), g\<lparr>gv_stack := []\<rparr>))"
    using a len gst L by (simp add: gc_exec_call_def pop_args_eq Let_def drop_map take_map rev_map lock_def)
  let ?Q = "\<lambda>x t. same_result p K (Inr x, t) ?r" and ?E = "\<lambda>e t. same_result p K (Inl e, t) ?r"
  show "post (exec_call p a b v) ?Q ?E"
  proof (cases "length (vm_calls v) \<ge> MAX_FRAMES")
    case True
    then show ?thesis using a aligned_alike(1) [OF S] by (simp add: exec_call_def gc same_result_def)
  next
    case False
    have "post (enter_function p (nat a) ?n f v) ?Q ?E"
    proof (rule post_enter_function [OF ml valid])
      show "?E (Trap StackOverflow m) v" for m by (simp add: same_result_def escapes_def)
      show "?E (Trap StackUnderflow ''Stack underflow'') (v\<lparr>vm_stack := [], vm_locals := ls\<rparr>)"
        if "length (vm_stack v) < ?n" for ls :: vec64
        using that False aligned_alike(2) [OF S, of "[]"] by (simp add: gc same_result_def alike_def)
    next
      assume fits: "?base + local_count f \<le> MAX_LOCAL_SLOTS" "?n \<le> length (vm_stack v)"
      let ?ls = "call_locals ?base ?n (local_count f) ?st (vm_locals v)"
      let ?fr = "\<lparr>return_pc = vm_pc v + 1, base_ptr = ?base, frame_func = nat a\<rparr>"
      let ?gf = "init_params 0 (rev (List.map GInt (take ?n ?st))) (GcCallFrame_new (local_count f) (vm_pc v + 1))"
      let ?v = "v\<lparr>vm_stack := drop ?n ?st, vm_locals := ?ls, vm_calls := ?fr # vm_calls v, vm_pc := entry_pc f\<rparr>"
      let ?g = "g\<lparr>gv_stack := List.map GInt (drop ?n ?st), gv_calls := ?gf # gv_calls g, gv_pc := entry_pc f\<rparr>"
      have "cells_rel p K ad (vget ?ls) ?fr ?gf"
        by (rule new_frame_cells [OF a(3) valid fits(2) kinds fits(1) aligned_ints [OF S ints]])
      moreover have "frames_linked p K ad (vget ?ls) (vm_pc v + 1) (cf # fs) (g' # gs)"
      proof (rule frames_linked_cong)
        show "frames_linked p K ad (vget (vm_locals v)) (vm_pc v + 1) (cf # fs) (g' # gs)"
          using frames_linked_pc [OF fr] calm by (simp add: calm_def del: frames_linked.simps)
        show "vget ?ls a = vget (vm_locals v) a" if "a < frames_base p (cf # fs)" for a
          using that base by (simp add: frames_base_def)
      qed simp
      moreover have "gf_return_pc ?gf = vm_pc v + 1"
        by (cases "local_count f") (simp_all add: init_params_return GcCallFrame_new_def)
      ultimately have frames: "frames_linked p K ad (vget ?ls) (entry_pc f) (?fr # vm_calls v) (?gf # gv_calls g)"
        using c base entry calm pc by (simp add: calm_def frames_base_def del: frames_linked.simps(2), simp add: frames_base_def)
      have "arrays_rel ad ?ls ?g"
      proof -
        have "arrays_rel ad ?ls g"
        proof (rule arrays_rel_memory)
          show A: "arrays_rel ad (vm_locals v) g" using L by (simp add: lock_def)
          show "vget ?ls x = vget (vm_locals v) x" if "ad i = Some (d, n)" "d \<le> x" for i d n x
            using arrays_relD(2) [OF A that(1)] that(2) fits(1) valid by simp
        qed simp
        then show ?thesis by simp
      qed
      with L frames entry have "lock p K ad (entry_pc f) ?v ?g"
        by (simp add: lock_def stack_rel_def calm_def del: frames_linked.simps)
      with fits False calm_expected [OF entry] show "?Q False ?v" by (auto simp: gc same_result_def)
    qed
    then show ?thesis using a False by (simp add: exec_call_def)
  qed
qed

lemma same_return:
  assumes S: "aligned p K ad v g" and ok: "gc_ok g"
  shows "same_result p K (exec_return v) (gc_exec_return g)"
  unfolding exec_return_def gc_exec_return_def
proof (rule same_pop [OF S])
  fix x xs
  assume st: "vm_stack v = x # xs"
  obtain cf fs g' gs where c: "vm_calls v = cf # fs" "gv_calls g = g' # gs"
    and fr: "frames_linked p K ad (vget (vm_locals v)) (vm_pc v) (cf # fs) (g' # gs)" by (rule aligned_calls [OF S])
  from S have L: "lock p K ad (vm_pc v) v g" by (simp add: aligned_def)
  have room: "length xs < MAX_OPERAND_STACK"
    using ok aligned_stack [OF S] st by (simp add: gc_ok_def)
  have ret: "gf_return_pc g' = return_pc cf" and tail: "frames_linked p K ad (vget (vm_locals v)) (return_pc cf) fs gs"
    and calm: "fs \<noteq> [] \<Longrightarrow> expected p (return_pc cf) = None \<and> return_pc cf \<noteq> usize_max"
    using fr by simp_all
  let ?pc = "if return_pc cf = usize_max then vm_pc v else return_pc cf"
  let ?v = "v\<lparr>vm_stack := x # xs, vm_calls := fs, vm_pc := ?pc\<rparr>"
  let ?g = "g\<lparr>gv_stack := List.map GInt (x # xs), gv_calls := gs, gv_pc := ?pc\<rparr>"
  have pc: "gv_pc g = vm_pc v" using L by (simp add: lock_def)
  have ids: "v\<lparr>vm_calls := fs, vm_stack := ys\<rparr> = v\<lparr>vm_stack := ys, vm_calls := fs, vm_pc := vm_pc v\<rparr>"
    "g\<lparr>gv_calls := gs, gv_stack := zs\<rparr> = g\<lparr>gv_stack := zs, gv_calls := gs, gv_pc := vm_pc v\<rparr>"
    "v\<lparr>vm_calls := fs, vm_stack := ys, vm_pc := q\<rparr> = v\<lparr>vm_stack := ys, vm_calls := fs, vm_pc := q\<rparr>"
    "g\<lparr>gv_calls := gs, gv_pc := q, gv_stack := zs\<rparr> = g\<lparr>gv_stack := zs, gv_calls := gs, gv_pc := q\<rparr>" for ys zs q
    using pc by simp_all
  have "same_result p K (Inr False, ?v) (Inr False, ?g)"
  proof (cases "fs = []")
    case True
    with tail have "gs = []" by (cases gs) auto
    with True aligned_alike(1) [OF S] show ?thesis by (simp add: same_result_def alike_def)
  next
    case False
    with L tail calm have "lock p K ad (return_pc cf) ?v ?g"
      by (simp add: lock_def stack_rel_def)
    with False calm show ?thesis by (auto simp: same_result_def)
  qed
  then show "same_result p K
      (case vm_calls (v\<lparr>vm_stack := xs\<rparr>) of
         [] \<Rightarrow> (Inl (Panic ''called Option::unwrap() on a None value''), v\<lparr>vm_stack := xs\<rparr>)
       | frame # rest \<Rightarrow>
           let s = v\<lparr>vm_stack := xs, vm_calls := rest\<rparr>
           in if return_pc frame = usize_max then bnd (push x s) (\<lambda>_ s. (Inr False, s))
              else bnd (push x s) (\<lambda>_ s. (Inr False, s\<lparr>vm_pc := return_pc frame\<rparr>)))
      (case gv_calls (g\<lparr>gv_stack := List.map GInt xs\<rparr>) of
         [] \<Rightarrow> (Inl (Panic ''called Option::unwrap() on a None value''), g\<lparr>gv_stack := List.map GInt xs\<rparr>)
       | frame # rest \<Rightarrow>
           let s = g\<lparr>gv_stack := List.map GInt xs, gv_calls := rest\<rparr>
           in if gf_return_pc frame = usize_max then bnd (gc_push (GInt x) s) (\<lambda>_ s. (Inr False, s))
              else bnd (gc_push (GInt x) (s\<lparr>gv_pc := gf_return_pc frame\<rparr>)) (\<lambda>_ s. (Inr False, s)))"
    using c ret room by (cases "return_pc cf = usize_max") (simp_all add: push_def gc_push_def ids)
qed

section \<open>Arrays\<close>

text \<open>Both machines check an index against the size in the instruction.\<close>

lemma array_index_fields: "array_index raw n = Inr k \<Longrightarrow> k < n"
  by (auto simp: array_index_def Let_def split: if_splits)

lemma array_index_cases:
  obtains e where "array_index raw n = Inl e" | k where "array_index raw n = Inr k" "k < n"
  using array_index_fields by (cases "array_index raw n") auto

lemma same_index:
  assumes "\<And>e. same_result p K (Inl e, s) (Inl e, t)"
    and "\<And>k. array_index x n = Inr k \<Longrightarrow> same_result p K (f k s) (f' k t)"
  shows "same_result p K (bnd (array_index x n, s) f) (bnd (array_index x n, t) f')"
  using assms by (cases "array_index x n") simp_all

lemma global_array:
  assumes "aligned p K ad v g" "kinded p K" "0 \<le> a" "0 \<le> b" "ck_globals K (nat a) = Some (nat b)"
  obtains i where "global_array_range a b v = Inr (nat a, nat b)" "gc_array_range a b g = Inr (nat a, nat b)"
    "gv_globals g ! nat a = GArray i" "ad i = None" "nat a + nat b \<le> vlen (vm_globals v)"
    "elements g i = Some (List.map (vget (vm_globals v)) [nat a..<nat a + nat b])"
proof -
  from assms(1) have G: "globals_linked K ad (vm_globals v) g" by (simp add: aligned_def lock_def)
  from assms(2,5) have fits: "0 < nat b" "nat a + nat b \<le> MAX_GLOBAL_SLOTS"
    unfolding kinded_def by blast+
  from G assms(5) have "\<exists>i. gv_globals g ! nat a = GArray i \<and> ad i = None \<and>
      elements g i = Some (List.map (vget (vm_globals v)) [nat a..<nat a + nat b])"
    unfolding globals_linked_def by blast
  then obtain i where i: "gv_globals g ! nat a = GArray i" "ad i = None"
    "elements g i = Some (List.map (vget (vm_globals v)) [nat a..<nat a + nat b])" by blast
  have "global_array_range a b v = Inr (nat a, nat b)" "gc_array_range a b g = Inr (nat a, nat b)"
    using globals_linkedD(1,2) [OF G] assms(3,4) fits
    by (simp_all add: global_array_range_def gc_array_range_def global_slot_def gc_global_slot_def array_size_def
        checked_add_def limit_defs Let_def)
  with that i fits globals_linkedD(1) [OF G] show ?thesis by simp
qed

lemma elements_get: "elements g i = Some xs \<Longrightarrow> \<exists>arr. get_array g i = Some arr \<and> arr_data arr = xs"
  by (auto simp: elements_def)

lemma load_element_eq:
  "elements g i = Some xs \<Longrightarrow> k < length xs \<Longrightarrow> load_element i k g = Inr (GInt (xs ! k))"
  by (auto simp: load_element_def dest!: elements_get)

lemma get_array_stack [simp]: "get_array (g\<lparr>gv_stack := st\<rparr>) i = get_array g i"
  by (simp add: get_array_def)

lemma elements_set_array:
  "get_array g i = Some arr \<Longrightarrow>
     elements (set_array i (arr\<lparr>arr_data := ys\<rparr>) g) = (elements g)(i := Some ys)"
  by (auto simp: elements_def get_array_def set_array_def fun_eq_iff nth_list_update split: if_splits)

lemma store_element_eq:
  assumes "elements g i = Some xs" "k < length xs"
  obtains g' where "store_element i k x g = (Inr (), g')" "elements g' = (elements g)(i := Some (xs[k := x]))"
    "g' = g\<lparr>gv_heap := gv_heap g'\<rparr>"
proof -
  from elements_get [OF assms(1)] obtain arr where arr: "get_array g i = Some arr" "arr_data arr = xs" by blast
  show ?thesis
    by (rule that [of "set_array i (arr\<lparr>arr_data := xs[k := x]\<rparr>) g"])
      (use arr assms(2) in \<open>simp_all add: store_element_def elements_set_array\<close>, simp add: set_array_def)
qed

lemma same_array_load:
  assumes S: "aligned p K ad v g" and go: "going p K v" and K: "kinded p K" and a: "0 \<le> a" "0 \<le> b" "ck_globals K (nat a) = Some (nat b)"
  shows "same_result p K (exec_array_load a b v) (gc_array_load a b g)"
proof -
  obtain i where i: "global_array_range a b v = Inr (nat a, nat b)" "gc_array_range a b g = Inr (nat a, nat b)"
    "gv_globals g ! nat a = GArray i" "nat a + nat b \<le> vlen (vm_globals v)"
    "elements g i = Some (List.map (vget (vm_globals v)) [nat a..<nat a + nat b])"
    by (rule global_array [OF S K a])
  have load: "load_element i k g = Inr (GInt (vget (vm_globals v) (nat a + k)))" "nat a + k < vlen (vm_globals v)"
    if "array_index x (nat b) = Inr k" for x k
    using load_element_eq [of g i _ k] i(4,5) array_index_fields [OF that] by simp_all
  show ?thesis
    unfolding exec_array_load_def gc_array_load_def pop_int_bnd i(1,2) lift_res_simps bnd_simps
    by (rule same_pop [OF S])
      (auto simp: bnd_def globals_get_def load i(3,4) same_trap [OF S] same_push [OF S go] split: sum.split)
qed

lemma map_upt_update:
  "k < n \<Longrightarrow> List.map (h(b + k := x)) [b..<b + n] = (List.map h [b..<b + n])[k := x]"
  by (rule nth_equalityI) (auto simp: nth_list_update)

lemma arrays_rel_heap:
  assumes A: "arrays_rel ad m g" and "\<And>i. ad i \<noteq> None \<Longrightarrow> elements g' i = elements g i"
  shows "arrays_rel ad m g'"
  using assms unfolding arrays_rel_def by (metis option.distinct(1))

lemma globals_array_write:
  assumes G: "globals_linked K ad vg g" and K: "kinded p K" and s: "ck_globals K s = Some n" "k < n"
    and i: "gv_globals g ! s = GArray i" "elements g i = Some (List.map (vget vg) [s..<s + n])"
    and g': "elements g' = (elements g)(i := Some ((List.map (vget vg) [s..<s + n])[k := x]))" "gv_globals g' = gv_globals g"
  shows "globals_linked K ad (vec_set vg (s + k) x) g'"
proof -
  have apart: "t + m \<le> s \<or> s + n \<le> t" if "ck_globals K t = Some m" "t \<noteq> s" for t m
    using K s(1) that unfolding kinded_def by blast
  have heads: "\<exists>j. gv_globals g' ! t = GArray j \<and> ad j = None \<and>
      elements g' j = Some (List.map ((vget vg)(s + k := x)) [t..<t + m])" if t: "ck_globals K t = Some m" for t m
  proof (cases "t = s")
    case True
    with t s have "m = n" by simp
    moreover have "ad i = None" using G s i(1) by (fastforce simp: globals_linked_def)
    moreover note map_upt_update [OF s(2), of "vget vg" s x]
    ultimately show ?thesis using True i(1) by (metis g' fun_upd_same)
  next
    case False
    from G t obtain j where j: "gv_globals g ! t = GArray j" "ad j = None" "elements g j = Some (List.map (vget vg) [t..<t + m])"
      unfolding globals_linked_def by blast
    have "gv_globals g ! t \<noteq> gv_globals g ! s" using G t s(1) False unfolding globals_linked_def by blast
    with i(1) j(1) have "j \<noteq> i" by auto
    moreover have "List.map ((vget vg)(s + k := x)) [t..<t + m] = List.map (vget vg) [t..<t + m]"
      using apart [OF t False] s(2) by auto
    ultimately show ?thesis using j g' by simp
  qed
  have scalars: "gv_globals g' ! j = GInt (((vget vg)(s + k := x)) j)" if "j < MAX_GLOBAL_SLOTS" "scalar_global K j" for j
  proof -
    have "j < s \<or> s + n \<le> j" using that(2) s(1) by (simp add: scalar_global_def)
    then have "j \<noteq> s + k" using s(2) by auto
    then show ?thesis using globals_linkedD(3) [OF G that] g'(2) by simp
  qed
  show ?thesis
    unfolding globals_linked_def vget_set
    using globals_linkedD(1,2) [OF G] heads scalars G g'(2) by (auto simp: globals_linked_def)
qed

lemma same_array_store:
  assumes S: "aligned p K ad v g" and go: "going p K v" and K: "kinded p K" and a: "0 \<le> a" "0 \<le> b" "ck_globals K (nat a) = Some (nat b)"
  shows "same_result p K (exec_array_store a b v) (gc_array_store a b g)"
proof -
  obtain i where i: "global_array_range a b v = Inr (nat a, nat b)" "gc_array_range a b g = Inr (nat a, nat b)"
    "gv_globals g ! nat a = GArray i" "ad i = None" "nat a + nat b \<le> vlen (vm_globals v)"
    "elements g i = Some (List.map (vget (vm_globals v)) [nat a..<nat a + nat b])"
    by (rule global_array [OF S K a])
  have store: "same_result p K
      (bnd (globals_set (nat a + k) x (v\<lparr>vm_stack := zs\<rparr>)) (\<lambda>_ s. (Inr True, s)))
      (bnd (store_element i k x (g\<lparr>gv_stack := List.map GInt zs\<rparr>)) (\<lambda>_ s. (Inr True, s)))"
    if k: "array_index y (nat b) = Inr k" for x y k zs
  proof -
    let ?v = "v\<lparr>vm_stack := zs\<rparr>" and ?g = "g\<lparr>gv_stack := List.map GInt zs\<rparr>"
    note k = array_index_fields [OF k]
    obtain g' where g': "store_element i k x ?g = (Inr (), g')"
      "elements g' = (elements ?g)(i := Some ((List.map (vget (vm_globals v)) [nat a..<nat a + nat b])[k := x]))"
      "g' = ?g\<lparr>gv_heap := gv_heap g'\<rparr>"
      by (rule store_element_eq [of ?g i _ k x]) (use i k in auto)
    have fields: "gv_globals g' = gv_globals g" "gv_pc g' = gv_pc g" "gv_cycles g' = gv_cycles g"
      "gv_max_cycles g' = gv_max_cycles g" "gv_output g' = gv_output g" "gv_stack g' = List.map GInt zs"
      "gv_calls g' = gv_calls g" by (subst g'(3), simp)+
    have L: "lock p K ad (vm_pc v + 1) ?v ?g" by (rule lock_go [OF S]) (use go in \<open>simp add: going_def\<close>)
    then have G: "globals_linked K ad (vm_globals v) g" and A: "arrays_rel ad (vm_locals v) g" by (simp_all add: lock_def)
    have "globals_linked K ad (vec_set (vm_globals v) (nat a + k) x) g'"
      by (rule globals_array_write [OF G K a(3) k i(3,6)]) (use g' fields in simp_all)
    moreover have "arrays_rel ad (vm_locals v) g'"
      by (rule arrays_rel_heap [OF A]) (use i(4) g'(2) in auto)
    ultimately have "lock p K ad (vm_pc v + 1) (?v\<lparr>vm_globals := vec_set (vm_globals v) (nat a + k) x\<rparr>) g'"
      using L fields by (simp add: lock_def)
    then show ?thesis using g'(1) k i(5) L by (auto simp: globals_set_def same_result_def going_expected [OF go] lock_def)
  qed
  show ?thesis
    unfolding exec_array_store_def gc_array_store_def pop_int_bnd i(1,2) lift_res_simps bnd_simps
    by (intro same_pop [OF S] same_pop [OF aligned_pop [OF S]])
      (simp add: i(3), rule same_index, simp add: same_trap [OF S], simp add: store i(3))
qed

text \<open>The array in a local slot.\<close>

lemma frames_high:
  assumes "frames_linked p K ad (vget m) pc fs gs" "MAX_LOCAL_SLOTS \<le> j"
  shows "frames_linked p K ad (vget (vec_set m j x)) pc fs gs"
  using frames_base_bound [OF assms(1)] assms(2) by (intro frames_linked_cong [OF assms(1)]) simp_all

lemma arrays_write:
  assumes A: "arrays_rel ad m g" and i: "ad i = Some (b, n)" "k < n"
    and g': "elements g' = (elements g)(i := Some ((List.map (vget m) [b..<b + n])[k := x]))"
  shows "arrays_rel ad (vec_set m (b + k) x) g'"
  unfolding arrays_rel_def vget_set
proof (intro conjI allI impI)
  fix j c l
  assume j: "ad j = Some (c, l)"
  note D = arrays_relD [OF A j]
  show "elements g' j = Some (List.map ((vget m)(b + k := x)) [c..<c + l])"
  proof (cases "j = i")
    case True
    with i j have "c = b" "l = n" by simp_all
    then show ?thesis using True g' map_upt_update [OF i(2), of "vget m" b x] by (metis fun_upd_same)
  next
    case False
    have "c + l \<le> b \<or> b + n \<le> c" by (rule D(4) [OF i(1) False])
    then have "List.map ((vget m)(b + k := x)) [c..<c + l] = List.map (vget m) [c..<c + l]" using i(2) by auto
    with D(1) False g' show ?thesis by simp
  qed
  show "MAX_LOCAL_SLOTS \<le> c" "c + l \<le> vlen (vec_set m (b + k) x)" using D(2,3) by simp_all
qed (use A in \<open>auto simp: arrays_rel_def\<close>)

lemma globals_linked_heap:
  assumes "globals_linked K ad vg g" "gv_globals g' = gv_globals g"
    "\<And>i. i \<in> vals_refs (gv_globals g) \<Longrightarrow> ad i = None \<Longrightarrow> ad' i = None \<and> elements g' i = elements g i"
    "kinded p K"
  shows "globals_linked K ad' vg g'"
proof -
  have "\<exists>i. gv_globals g' ! s = GArray i \<and> ad' i = None \<and> elements g' i = Some (List.map (vget vg) [s..<s + n])"
    if s: "ck_globals K s = Some n" for s n
  proof -
    obtain i where i: "gv_globals g ! s = GArray i" "ad i = None" "elements g i = Some (List.map (vget vg) [s..<s + n])"
      using assms(1) s unfolding globals_linked_def by blast
    have "0 < n" "s + n \<le> MAX_GLOBAL_SLOTS" using assms(4) s unfolding kinded_def by blast+
    then have "i \<in> vals_refs (gv_globals g)"
      using i(1) globals_linkedD(2) [OF assms(1)] by (metis vals_refs_def mem_Collect_eq nth_mem add_pos_nonneg le_add1 less_le_trans less_add_same_cancel1)
    with assms(2,3) i show ?thesis by auto
  qed
  then show ?thesis using assms(1,2) by (auto simp: globals_linked_def)
qed

lemma local_array_base_fields: "local_array_base r n (v\<lparr>vm_stack := zs\<rparr>) = local_array_base r n v"
  by (simp add: local_array_base_def Let_def cong: sum.case_cong option.case_cong if_cong)

lemma local_array:
  assumes L: "lock p K ad pc v g" and c: "vm_calls v = f # fs" "gv_calls g = g' # gs"
    and h: "fun_lookup p (frame_func f) = Some h" and a: "0 \<le> a" "nat a < local_count h" "0 \<le> b"
    and kind: "ck_locals K (frame_func f) (nat a) = Some (nat b)" and cyc: "vm_cycles v \<le> 4294967296"
  obtains e where "local_array_base (base_ptr f + nat a) (nat b) v = Inl e" "escapes e"
    | i d where "local_array_base (base_ptr f + nat a) (nat b) v = Inr d" "ad i = Some (d, nat b)"
      "frame_get g' (nat a) = Some (GArray i)" "array_size b = Inr (nat b)"
proof -
  note s = local_slots [OF L c h a(1,2)]
  have A: "arrays_rel ad (vm_locals v) g" and room: "vlen (vm_locals v) \<le> MAX_LOCAL_SLOTS + vm_cycles v * 2147483648"
    using L by (simp_all add: lock_def)
  show ?thesis
  proof (cases "gf_init g' ! nat a")
    case True
    with s(5) kind obtain i d where i: "gf_locals g' ! nat a = GArray i" "ad i = Some (d, nat b)"
      "vget (vm_locals v) (base_ptr f + nat a) = int d" by (auto simp: cell_rel_def)
    note D = arrays_relD [OF A i(2)]
    have "int d \<noteq> i64_min" by (simp add: i64_min_def)
    moreover have "d + nat b < 18446744073709551616"
    proof -
      have "vm_cycles v * 2147483648 \<le> 4294967296 * 2147483648" using cyc by (rule mult_right_mono) simp
      with D(3) room show ?thesis by (simp add: limit_defs)
    qed
    ultimately have "local_array_base (base_ptr f + nat a) (nat b) v = Inr d"
      using s(4) i(3) D(3) by (simp add: local_array_base_def checked_add_def Let_def)
    then show ?thesis using that(2) i s(6) True a(3) by (simp add: frame_get_def array_size_def)
  next
    case False
    with s(5) have "vget (vm_locals v) (base_ptr f + nat a) = i64_min" by (simp add: cell_rel_def)
    with s(4) that(1) show ?thesis by (simp add: local_array_base_def escapes_def)
  qed
qed

text \<open>What a local array access needs of the two machines.\<close>

lemma same_local_array_load:
  assumes S: "aligned p K ad v g" and go: "going p K v" and h: "fun_lookup p (frame_func (hd (vm_calls v))) = Some h"
    and a: "0 \<le> a" "nat a < local_count h" "0 \<le> b"
    and kind: "ck_locals K (frame_func (hd (vm_calls v))) (nat a) = Some (nat b)" and cyc: "vm_cycles v \<le> 4294967296"
  shows "same_result p K (exec_local_array_load p a b v) (gc_local_array_load a b g)"
proof -
  obtain f fs g' gs where c: "vm_calls v = f # fs" "gv_calls g = g' # gs" by (rule aligned_calls [OF S])
  have L: "lock p K ad (vm_pc v) v g" using S by (simp add: aligned_def)
  have h': "fun_lookup p (frame_func f) = Some h" and kind': "ck_locals K (frame_func f) (nat a) = Some (nat b)"
    using h kind c by simp_all
  note s = local_slots [OF L c h' a(1,2)]
  have A: "arrays_rel ad (vm_locals v) g" using L by (simp add: lock_def)
  have sz: "array_size b = Inr (nat b)" using a(3) by (simp add: array_size_def)
  have load: "same_result p K
      (bnd (lift_res (local_array_base (base_ptr f + nat a) (nat b) (v\<lparr>vm_stack := zs\<rparr>)) (v\<lparr>vm_stack := zs\<rparr>)) (\<lambda>d s.
         bnd (lift_res (locals_get s (d + k)) s) push_next))
      (bnd (lift_res (case frame_get g' (nat a) of
            Some (GArray i) \<Rightarrow> load_element i k (g\<lparr>gv_stack := List.map GInt zs\<rparr>)
          | Some (GInt v) \<Rightarrow> Inr (GInt v)
          | None \<Rightarrow> Inl (Trap UndefinedLocal (fmt [''Undefined local at slot '', show_nat (nat a)])))
          (g\<lparr>gv_stack := List.map GInt zs\<rparr>)) gc_push_next)" if k: "array_index y (nat b) = Inr k" for y k zs
  proof (rule local_array [OF L c h' a kind' cyc])
    fix e
    assume "local_array_base (base_ptr f + nat a) (nat b) v = Inl e" "escapes e"
    then show ?thesis by (simp add: local_array_base_fields same_result_def)
  next
    fix i d
    assume i: "local_array_base (base_ptr f + nat a) (nat b) v = Inr d" "ad i = Some (d, nat b)"
      "frame_get g' (nat a) = Some (GArray i)"
    note D = arrays_relD [OF A i(2)]
    note k = array_index_fields [OF k]
    have "load_element i k g = Inr (GInt (vget (vm_locals v) (d + k)))"
      using load_element_eq [OF D(1), of k] k by simp
    moreover have "locals_get v (d + k) = Inr (vget (vm_locals v) (d + k))" using D(3) k by (simp add: locals_get_def)
    ultimately show ?thesis using i same_push [OF S go] by (simp add: local_array_base_fields)
  qed
  show ?thesis
    unfolding exec_local_array_load_def gc_local_array_load_def pop_int_bnd sz s(2) lift_res_simps bnd_simps
    by (intro same_pop [OF S])
      (simp add: s sz, rule same_index, simp add: same_trap [OF S], use load in \<open>simp add: s\<close>)
qed

lemma same_local_array_store:
  assumes S: "aligned p K ad v g" and go: "going p K v" and K: "kinded p K" and h: "fun_lookup p (frame_func (hd (vm_calls v))) = Some h"
    and a: "0 \<le> a" "nat a < local_count h" "0 \<le> b"
    and kind: "ck_locals K (frame_func (hd (vm_calls v))) (nat a) = Some (nat b)" and cyc: "vm_cycles v \<le> 4294967296"
  shows "same_result p K (exec_local_array_store p a b v) (gc_local_array_store a b g)"
proof -
  obtain f fs g' gs where c: "vm_calls v = f # fs" "gv_calls g = g' # gs" by (rule aligned_calls [OF S])
  have L: "lock p K ad (vm_pc v) v g" using S by (simp add: aligned_def)
  have h': "fun_lookup p (frame_func f) = Some h" and kind': "ck_locals K (frame_func f) (nat a) = Some (nat b)"
    using h kind c by simp_all
  note s = local_slots [OF L c h' a(1,2)]
  have sz: "array_size b = Inr (nat b)" using a(3) by (simp add: array_size_def)
  have store: "same_result p K
      (bnd (lift_res (local_array_base (base_ptr f + nat a) (nat b) (v\<lparr>vm_stack := zs\<rparr>)) (v\<lparr>vm_stack := zs\<rparr>)) (\<lambda>d s.
         bnd (locals_set (d + k) x s) (\<lambda>_ s. (Inr True, s))))
      (case frame_get g' (nat a) of
         Some (GArray i) \<Rightarrow> bnd (store_element i k x (g\<lparr>gv_stack := List.map GInt zs\<rparr>)) (\<lambda>_ s. (Inr True, s))
       | _ \<Rightarrow> (Inl (Trap InvalidInstruction ''Expected array reference''), g\<lparr>gv_stack := List.map GInt zs\<rparr>))"
    if k: "array_index y (nat b) = Inr k" for x y k zs
  proof (rule local_array [OF L c h' a kind' cyc])
    fix e
    assume "local_array_base (base_ptr f + nat a) (nat b) v = Inl e" "escapes e"
    then show ?thesis by (simp add: local_array_base_fields same_result_def)
  next
    fix i d
    assume i: "local_array_base (base_ptr f + nat a) (nat b) v = Inr d" "ad i = Some (d, nat b)"
      "frame_get g' (nat a) = Some (GArray i)"
    let ?v = "v\<lparr>vm_stack := zs\<rparr>" and ?g = "g\<lparr>gv_stack := List.map GInt zs\<rparr>"
    have L': "lock p K ad (vm_pc v + 1) ?v ?g" by (rule lock_go [OF S]) (use go in \<open>simp add: going_def\<close>)
    then have A: "arrays_rel ad (vm_locals v) g" and G: "globals_linked K ad (vm_globals v) g"
      and F: "frames_linked p K ad (vget (vm_locals v)) (vm_pc v + 1) (vm_calls v) (gv_calls g)" by (simp_all add: lock_def)
    note D = arrays_relD [OF A i(2)]
    note k = array_index_fields [OF k]
    obtain g'' where g'': "store_element i k x ?g = (Inr (), g'')"
      "elements g'' = (elements ?g)(i := Some ((List.map (vget (vm_locals v)) [d..<d + nat b])[k := x]))"
      "g'' = ?g\<lparr>gv_heap := gv_heap g''\<rparr>"
      by (rule store_element_eq [of ?g i _ k x]) (use D(1) k in auto)
    have fields: "gv_globals g'' = gv_globals g" "gv_pc g'' = gv_pc g" "gv_cycles g'' = gv_cycles g"
      "gv_max_cycles g'' = gv_max_cycles g" "gv_output g'' = gv_output g" "gv_stack g'' = List.map GInt zs"
      "gv_calls g'' = gv_calls g" by (subst g''(3), simp)+
    have "globals_linked K ad (vm_globals v) g''"
      by (rule globals_linked_heap [OF G fields(1) _ K]) (use i(2) g''(2) in auto)
    moreover have "arrays_rel ad (vec_set (vm_locals v) (d + k) x) g''"
      by (rule arrays_write [OF A i(2) k]) (use g''(2) in simp)
    moreover have "frames_linked p K ad (vget (vec_set (vm_locals v) (d + k) x)) (vm_pc v + 1) (vm_calls v) (gv_calls g)"
      by (rule frames_high [OF F]) (use D(2) in simp)
    ultimately have "lock p K ad (vm_pc v + 1) (?v\<lparr>vm_locals := vec_set (vm_locals v) (d + k) x\<rparr>) g''"
      using L' fields by (simp add: lock_def)
    then show ?thesis using g''(1) k i D(3) L by (auto simp: locals_set_def same_result_def going_expected [OF go] lock_def local_array_base_fields)
  qed
  show ?thesis
    unfolding exec_local_array_store_def gc_local_array_store_def pop_int_bnd sz s(2) lift_res_simps bnd_simps
    by (intro same_pop [OF S] same_pop [OF aligned_pop [OF S]])
      (simp add: s sz, rule same_index, simp add: same_trap [OF S], use store in \<open>simp add: s cong: option.case_cong gc_value.case_cong\<close>)
qed

section \<open>Allocation\<close>

lemma roots_cover:
  assumes "gc_ok g"
  shows "gv_calls g = fs \<Longrightarrow> f \<in> set fs \<Longrightarrow> frame_roots f \<subseteq> roots g" "vals_refs (gv_globals g) \<subseteq> roots g"
  using roots_frames [of g] assms by (auto simp: gc_ok_def)

text \<open>The addresses after an allocation: those of the arrays that are still referred to, and the new one.\<close>

definition extended :: "addresses \<Rightarrow> gc_vm \<Rightarrow> nat \<Rightarrow> nat \<Rightarrow> nat \<Rightarrow> addresses" where
  "extended ad g i b n = (ad |` roots g)(i \<mapsto> (b, n))"

lemma lock_alloc:
  assumes L: "lock p K ad pc v g" and K: "kinded p K" and ok: "gc_ok g" and al: "allocated n g i g'"
    and ex: "expected p (pc + 1) = Some n" "owned p K (pc + 1) (frame_func (hd (vm_calls v)))"
    and st: "gv_stack g = List.map GInt (vm_stack v)"
    and room: "vlen (vm_locals v) + n \<le> MAX_LOCAL_SLOTS + vm_cycles v * 2147483648"
  shows "lock p K (extended ad g i (vlen (vm_locals v)) n) (pc + 1)
    (v\<lparr>vm_locals := vec_extend (vm_locals v) 0 n, vm_stack := int (vlen (vm_locals v)) # vm_stack v\<rparr>)
    (g'\<lparr>gv_stack := GArray i # gv_stack g'\<rparr>)"
proof -
  let ?b = "vlen (vm_locals v)" and ?m = "vec_extend (vm_locals v) 0 n"
  let ?ad = "extended ad g i ?b n"
  from al have out: "same_outside_heap g g'" and new: "i \<notin> roots g" "elements g' i = Some (replicate n 0)"
    and kept: "\<And>j. j \<in> roots g \<Longrightarrow> elements g' j = elements g j" by (simp_all add: allocated_def)
  from out have fields: "gv_globals g' = gv_globals g" "gv_pc g' = gv_pc g" "gv_cycles g' = gv_cycles g"
    "gv_max_cycles g' = gv_max_cycles g" "gv_output g' = gv_output g" "gv_stack g' = gv_stack g"
    "gv_calls g' = gv_calls g" by (simp_all add: same_outside_heap_def)
  from L have F: "frames_linked p K ad (vget (vm_locals v)) pc (vm_calls v) (gv_calls g)" and ne: "vm_calls v \<noteq> []"
    and A: "arrays_rel ad (vm_locals v) g" and G: "globals_linked K ad (vm_globals v) g"
    and low: "MAX_LOCAL_SLOTS \<le> ?b" by (simp_all add: lock_def)
  have ad: "?ad j = (if j = i then Some (?b, n) else if j \<in> roots g then ad j else None)" for j
    by (simp add: extended_def restrict_map_def)
  obtain f fs where c: "vm_calls v = f # fs" using ne by (cases "vm_calls v") auto
  have "frames_linked p K ?ad (vget ?m) pc (vm_calls v) (gv_calls g)"
  proof (rule frames_linked_cong [OF F])
    show "vget ?m a = vget (vm_locals v) a" if "a < frames_base p (vm_calls v)" for a
      using that frames_base_bound [OF F] low by simp
    show "?ad j = ad j" if "f \<in> set (gv_calls g)" "j \<in> frame_roots f" for j f
      using roots_cover(1) [OF ok refl that(1)] that(2) new(1) by (auto simp: ad)
  qed
  then have frames: "frames_linked p K ?ad (vget ?m) (pc + 1) (vm_calls v) (gv_calls g)"
    using c ex(2) frames_linked_pc by (simp del: frames_linked.simps)
  have arrays: "arrays_rel ?ad ?m g'"
  proof -
    have old: "j \<noteq> i \<and> j \<in> roots g \<and> ad j = Some (d, k)" if "?ad j = Some (d, k)" "j \<noteq> i" for j d k
      using that by (simp add: ad split: if_splits)
    show ?thesis
      unfolding arrays_rel_def
    proof (intro conjI allI impI)
      fix j d k
      assume j: "?ad j = Some (d, k)"
      show "elements g' j = Some (List.map (vget ?m) [d..<d + k])"
      proof (cases "j = i")
        case True
        with j have "d = ?b" "k = n" by (simp_all add: ad)
        then show ?thesis using True new(2) by (auto intro!: nth_equalityI)
      next
        case False
        note o = old [OF j False]
        note D = arrays_relD [OF A conjunct2 [OF conjunct2 [OF o]]]
        have "List.map (vget ?m) [d..<d + k] = List.map (vget (vm_locals v)) [d..<d + k]" using D(3) by simp
        then show ?thesis using D(1) kept o by simp
      qed
      show "MAX_LOCAL_SLOTS \<le> d" "d + k \<le> vlen ?m"
        using j low arrays_relD(2,3) [OF A] old [OF j] by (cases "j = i"; fastforce simp: ad)+
    next
      fix j j' d k d' k'
      assume j: "?ad j = Some (d, k)" "?ad j' = Some (d', k')" "j \<noteq> j'"
      consider "j = i" "j' \<noteq> i" | "j' = i" "j \<noteq> i" | "j \<noteq> i" "j' \<noteq> i" using j(3) by blast
      then show "d + k \<le> d' \<or> d' + k' \<le> d"
      proof cases
        case 1
        with j have "d = ?b" "d' + k' \<le> ?b" using old [OF j(2)] arrays_relD(3) [OF A] by (auto simp: ad)
        then show ?thesis by simp
      next
        case 2
        with j have "d' = ?b" "d + k \<le> ?b" using old [OF j(1)] arrays_relD(3) [OF A] by (auto simp: ad)
        then show ?thesis by simp
      next
        case 3
        with old j have "ad j = Some (d, k)" "ad j' = Some (d', k')" by blast+
        then show ?thesis using arrays_relD(4) [OF A] j(3) by blast
      qed
    qed
  qed
  have globals: "globals_linked K ?ad (vm_globals v) g'"
  proof (rule globals_linked_heap [OF G fields(1) _ K])
    fix j
    assume "j \<in> vals_refs (gv_globals g)" "ad j = None"
    moreover from this roots_cover(2) [OF ok] have "j \<in> roots g" by blast
    ultimately show "?ad j = None \<and> elements g' j = elements g j" using new(1) kept by (auto simp: ad)
  qed
  show ?thesis
    using L frames arrays globals fields room st ex by (simp add: lock_def stack_rel_def ad)
qed
end
