(* ===== verification/Lockstep_Instructions.thy ===== *)
theory Lockstep_Instructions
  imports Lockstep_Steps
begin

text \<open>
  Every instruction of a program that keeps kinds of values apart has the same result on both machines.
\<close>

section \<open>Every instruction\<close>

definition ticked :: "vm \<Rightarrow> vm" where
  "ticked v = v\<lparr>vm_cycles := vm_cycles v + 1\<rparr>"

definition gc_ticked :: "gc_vm \<Rightarrow> gc_vm" where
  "gc_ticked g = g\<lparr>gv_cycles := gv_cycles g + 1\<rparr>"

lemma ticked_fields [simp]:
  "vm_pc (ticked v) = vm_pc v" "vm_calls (ticked v) = vm_calls v" "vm_stack (ticked v) = vm_stack v"
  "vm_locals (ticked v) = vm_locals v" "vm_cycles (ticked v) = vm_cycles v + 1"
  "gv_stack (gc_ticked g) = gv_stack g" "gv_heap (gc_ticked g) = gv_heap g" "gv_calls (gc_ticked g) = gv_calls g"
  by (simp_all add: ticked_def gc_ticked_def)

lemma lock_ticked: "lock p K ad pc v g \<Longrightarrow> lock p K ad pc (ticked v) (gc_ticked g)"
  by (simp add: lock_def ticked_def gc_ticked_def)

lemma gc_ticked_ok: "gc_running p g \<Longrightarrow> gc_ok (gc_ticked g) \<and> ints_ok (gc_ticked g) \<and> heap_small (gc_ticked g)"
  by (simp add: gc_running_def gc_ticked_def)

text \<open>Both machines before an instruction of a program that keeps kinds apart.\<close>

definition paired :: "compiled_program \<Rightarrow> code_kinds \<Rightarrow> addresses \<Rightarrow> vm \<Rightarrow> gc_vm \<Rightarrow> bool" where
  "paired p K ad v g \<longleftrightarrow>
     kinded p K \<and> functions_valid p \<and> length (instructions p) < usize_max \<and> gc_running p g \<and>
     lock p K ad (vm_pc v) v g \<and> vm_cycles v < 4294967296"

lemma lock_owner:
  assumes "lock p K ad (vm_pc v) v g" "vm_pc v < length (instructions p)"
  shows "ck_owner K (vm_pc v) = frame_func (hd (vm_calls v))"
  using assms frames_linked_length
  by (cases "vm_calls v"; cases "gv_calls g") (auto simp: lock_def owned_def)

lemma paired_kind:
  assumes "paired p K ad v g" "vm_pc v < length (instructions p)"
  obtains f where "fun_lookup p (frame_func (hd (vm_calls v))) = Some f"
    "kind_ok p K (frame_func (hd (vm_calls v))) (local_count f) (expected p (vm_pc v))
       (opcode (instructions p ! vm_pc v)) (arg1 (instructions p ! vm_pc v)) (arg2 (instructions p ! vm_pc v))"
    "expected p (vm_pc v) \<noteq> None \<longrightarrow> opcode (instructions p ! vm_pc v) = Op_StoreLocal"
    "opcode (instructions p ! vm_pc v) \<notin> {Op_Jump, Op_Return} \<longrightarrow> owned p K (vm_pc v + 1) (frame_func (hd (vm_calls v)))"
  using assms lock_owner [of p K ad v g] by (auto simp: paired_def kinded_def instr_kind_ok_def)

lemma same_stack_update: "vm_stack v = xs \<Longrightarrow> v\<lparr>vm_stack := xs\<rparr> = v" "gv_stack g = ys \<Longrightarrow> g\<lparr>gv_stack := ys\<rparr> = g"
  by (cases v; simp) (cases g; simp)

lemma expected_Suc:
  "pc < length (instructions p) \<Longrightarrow> expected p (Suc pc) =
     (if opcode (instructions p ! pc) = Op_AllocArray then Some (nat (arg1 (instructions p ! pc))) else None)"
  by (simp add: expected_def)

lemma same_instruction:
  assumes P: "paired p K ad v g" and pc: "vm_pc v < length (instructions p)"
    and ex: "expected p (vm_pc v) = None" and opc: "opcode (instructions p ! vm_pc v) \<noteq> Op_AllocArray"
  shows "same_result p K (exec_current p v) (gc_exec_current p g)"
proof -
  let ?i = "instructions p ! vm_pc v" and ?v = "ticked v" and ?g = "gc_ticked g"
  obtain f where f: "fun_lookup p (frame_func (hd (vm_calls v))) = Some f"
    and kind: "kind_ok p K (frame_func (hd (vm_calls v))) (local_count f) None (opcode ?i) (arg1 ?i) (arg2 ?i)"
    and own: "opcode ?i \<notin> {Op_Jump, Op_Return} \<Longrightarrow> owned p K (vm_pc v + 1) (frame_func (hd (vm_calls v)))"
    using paired_kind [OF P pc] ex by metis
  have S: "aligned p K ad ?v ?g" using P ex lock_ticked by (simp add: paired_def aligned_def)
  have go: "going p K ?v" if "opcode ?i \<notin> {Op_Jump, Op_Return}"
    using own [OF that] expected_Suc [OF pc] opc by (simp add: going_def calm_def)
  have ok: "gc_ok ?g" "ints_ok ?g" using P gc_ticked_ok by (auto simp: paired_def)
  have K: "kinded p K" "functions_valid p" "vm_pc ?v + 1 < usize_max" "vm_cycles ?v \<le> 4294967296"
    using P pc by (auto simp: paired_def)
  note ints = aligned_ints [OF S ok(2)]
  have f': "fun_lookup p (frame_func (hd (vm_calls ?v))) = Some f" using f by simp
  have g: "gc_exec_current p g = gc_execute p (opcode ?i) (arg1 ?i) (arg2 ?i) ?g"
    using P by (simp add: gc_exec_current_def gc_ticked_def paired_def lock_def Let_def)
  have v: "exec_current p v = execute_instruction p (opcode ?i) (arg1 ?i) (arg2 ?i) ?v"
    by (simp add: exec_current_def ticked_def Let_def)
  note binary = same_binary [OF S go]
  note logic = same_logic [OF S go, of "(\<and>)"]
  show ?thesis
    unfolding g v
  proof (cases "opcode ?i")
    case Op_Call
    then obtain h where "0 \<le> arg1 ?i" "0 \<le> arg2 ?i" "fun_lookup p (nat (arg1 ?i)) = Some h" "nat (arg2 ?i) = param_count h"
      using kind by auto
    from same_call [OF S go K(1) ok(2) K(2,3) this] Op_Call
    show "same_result p K (execute_instruction p (opcode ?i) (arg1 ?i) (arg2 ?i) ?v) (gc_execute p (opcode ?i) (arg1 ?i) (arg2 ?i) ?g)"
      by simp
  next
    case Op_Or
    with same_logic [OF S go, of "(\<or>)"]
    show "same_result p K (execute_instruction p (opcode ?i) (arg1 ?i) (arg2 ?i) ?v) (gc_execute p (opcode ?i) (arg1 ?i) (arg2 ?i) ?g)"
      by simp
  next
    case Op_Jump
    have "?v\<lparr>vm_stack := vm_stack v\<rparr> = ?v" "?g\<lparr>gv_stack := List.map GInt (vm_stack ?v)\<rparr> = ?g"
      using aligned_stack [OF S] by (simp_all add: same_stack_update ticked_fields)
    with same_jump [OF S, of "arg1 ?i" "vm_stack v"] kind Op_Jump
    show "same_result p K (execute_instruction p (opcode ?i) (arg1 ?i) (arg2 ?i) ?v) (gc_execute p (opcode ?i) (arg1 ?i) (arg2 ?i) ?g)"
      by simp
  qed (use kind go opc f in \<open>auto simp: binary logic same_push_top [OF S] same_load_local [OF S _ f'] same_store_local [OF S _ f' _ _ _ ints]
      same_load_global [OF S] same_store_global [OF S _ K(1)] same_div [OF S] same_neg [OF S] same_not [OF S]
      same_jump_if [OF S] same_return [OF S ok(1)] same_print [OF S] same_exec_pop [OF S]
      same_array_load [OF S _ K(1)] same_array_store [OF S _ K(1)]
      same_local_array_load [OF S _ f' _ _ _ _ K(4)] same_local_array_store [OF S _ K(1) f' _ _ _ _ K(4)]\<close>)
qed

lemma exec_current_ticked:
  "exec_current p v = (let i = instructions p ! vm_pc v in execute_instruction p (opcode i) (arg1 i) (arg2 i) (ticked v))"
  "gv_pc g = vm_pc v \<Longrightarrow>
     gc_exec_current p g = (let i = instructions p ! vm_pc v in gc_execute p (opcode i) (arg1 i) (arg2 i) (gc_ticked g))"
  by (simp_all add: exec_current_def ticked_def gc_exec_current_def gc_ticked_def Let_def)

text \<open>An allocation, and the instruction after it, which stores the new array in its local slot.\<close>

lemma same_alloc:
  assumes P: "paired p K ad v g" and pc: "vm_pc v < length (instructions p)"
    and opc: "opcode (instructions p ! vm_pc v) = Op_AllocArray"
  obtains e u where "exec_current p v = (Inl e, u)" "escapes e"
    | b i u u' ad' where "exec_current p v = (Inr True, u)" "gc_exec_current p g = (Inr True, u')"
      "lock p K ad' (vm_pc v + 1) u u'" "vm_pc u = vm_pc v" "vm_calls u = vm_calls v" "vm_stack u = b # vm_stack v"
      "gv_stack u' = GArray i # gv_stack g" "gv_stack g = List.map GInt (vm_stack v)" "expected p (vm_pc v) = None"
proof -
  let ?i = "instructions p ! vm_pc v" and ?v = "ticked v" and ?g = "gc_ticked g"
  let ?n = "nat (arg1 ?i)" and ?b = "vlen (vm_locals v)"
  obtain f where "fun_lookup p (frame_func (hd (vm_calls v))) = Some f" and k: "kind_ok p K (frame_func (hd (vm_calls v))) (local_count f) (expected p (vm_pc v)) (opcode ?i) (arg1 ?i) (arg2 ?i)"
    and ref: "expected p (vm_pc v) \<noteq> None \<longrightarrow> opcode ?i = Op_StoreLocal"
    and own: "opcode ?i \<notin> {Op_Jump, Op_Return} \<longrightarrow> owned p K (vm_pc v + 1) (frame_func (hd (vm_calls v)))"
    by (rule paired_kind [OF P pc])
  have kind: "0 \<le> arg1 ?i" "arg1 ?i < 2147483648" and ex: "expected p (vm_pc v) = None"
    and own: "owned p K (vm_pc v + 1) (frame_func (hd (vm_calls v)))"
    using k ref own opc by auto
  from P have L: "lock p K ad (vm_pc v) v g" by (simp add: paired_def)
  from L have L': "lock p K ad (vm_pc v) ?v ?g" by (rule lock_ticked)
  have st: "gv_stack g = List.map GInt (vm_stack v)" and pcs: "gv_pc g = vm_pc v" using L ex by (simp_all add: lock_def stack_rel_def)
  have ex': "expected p (vm_pc v + 1) = Some ?n" using expected_Suc [OF pc] opc by simp
  have v: "exec_current p v = push_next (int ?b) (?v\<lparr>vm_locals := vec_extend (vm_locals v) 0 ?n\<rparr>)"
    using opc kind by (simp add: exec_current_ticked Let_def exec_alloc_array_def array_size_def)
  show ?thesis
  proof (cases "length (vm_stack v) \<ge> MAX_OPERAND_STACK")
    case True
    then obtain msg u where "exec_current p v = (Inl (Trap StackOverflow msg), u)"
      unfolding v by (simp add: push_next_def push_def)
    then show ?thesis using that(1) by (auto simp: escapes_def)
  next
    case False
    have ok: "gc_ok ?g" "heap_small ?g" using P gc_ticked_ok by (auto simp: paired_def)
    have "post (alloc_array ?n ?g) (allocated ?n ?g) (\<lambda>_ _. False)"
      by (rule post_alloc [OF ok(1) heap_small_u32 [OF ok(2)]])
    then obtain i g' where al: "alloc_array ?n ?g = (Inr i, g')" "allocated ?n ?g i g'"
      by (auto simp: post_def prod_eq_iff split: sum.splits)
    then have st': "gv_stack g' = gv_stack g" by (simp add: allocated_def same_outside_heap_def)
    have room: "vlen (vm_locals ?v) + ?n \<le> MAX_LOCAL_SLOTS + vm_cycles ?v * 2147483648"
    proof -
      have "?n \<le> 2147483648" "?b \<le> MAX_LOCAL_SLOTS + vm_cycles v * 2147483648"
        using L kind by (simp_all add: lock_def nat_le_iff)
      then show ?thesis by simp
    qed
    let ?u = "?v\<lparr>vm_locals := vec_extend (vm_locals v) 0 ?n, vm_stack := int ?b # vm_stack v\<rparr>"
    let ?u' = "g'\<lparr>gv_stack := GArray i # gv_stack g'\<rparr>"
    have "lock p K (extended ad ?g i ?b ?n) (vm_pc v + 1) ?u ?u'"
      using lock_alloc [OF L' _ ok(1) al(2) ex' _ _ room] P own st by (simp add: paired_def)
    moreover have "exec_current p v = (Inr True, ?u)"
      using False by (simp add: v push_next_def push_def)
    moreover have "gc_exec_current p g = (Inr True, ?u')"
      using False opc kind al(1) st st' pcs
      by (simp add: exec_current_ticked Let_def gc_alloc_array_def array_size_def gc_push_next_def gc_push_def)
    ultimately show ?thesis using that(2) st st' ex by simp
  qed
qed

lemma same_store_array:
  assumes P: "paired p K ad v g" and pc: "vm_pc v < length (instructions p)" and ex: "expected p (vm_pc v) = Some n"
  obtains b i xs u u' where "exec_current p v = (Inr True, u)" "gc_exec_current p g = (Inr True, u')"
      "lock p K ad (vm_pc v + 1) u u'" "vm_pc u = vm_pc v" "vm_calls u = vm_calls v"
      "vm_stack v = b # xs" "vm_stack u = xs" "gv_stack g = GArray i # List.map GInt xs"
      "opcode (instructions p ! vm_pc v) = Op_StoreLocal"
proof -
  let ?i = "instructions p ! vm_pc v" and ?v = "ticked v" and ?g = "gc_ticked g"
  obtain f where f: "fun_lookup p (frame_func (hd (vm_calls v))) = Some f"
    and kind: "kind_ok p K (frame_func (hd (vm_calls v))) (local_count f) (expected p (vm_pc v)) (opcode ?i) (arg1 ?i) (arg2 ?i)"
    and ref: "expected p (vm_pc v) \<noteq> None \<longrightarrow> opcode ?i = Op_StoreLocal"
    and own: "opcode ?i \<notin> {Op_Jump, Op_Return} \<longrightarrow> owned p K (vm_pc v + 1) (frame_func (hd (vm_calls v)))"
    by (rule paired_kind [OF P pc])
  have opc: "opcode ?i = Op_StoreLocal" and own: "owned p K (vm_pc v + 1) (frame_func (hd (vm_calls v)))"
    using ref own ex by auto
  from P have L: "lock p K ad (vm_pc v) v g" by (simp add: paired_def)
  from L have L': "lock p K ad (vm_pc ?v) ?v ?g" using lock_ticked by simp
  obtain i d xs where st: "vm_stack ?v = int d # xs" "gv_stack ?g = GArray i # List.map GInt xs" "ad i = Some (d, n)"
    using L ex by (auto simp: lock_def stack_rel_def)
  have k: "0 \<le> arg1 ?i" "nat (arg1 ?i) < local_count f" using kind opc ex by simp_all
  have cell: "cell_rel ad (ck_locals K (frame_func (hd (vm_calls ?v))) (nat (arg1 ?i))) (int d) (GArray i) True"
    using kind opc ex st(3) by (simp add: cell_rel_def)
  have calm: "calm p K (vm_pc ?v + 1) (frame_func (hd (vm_calls ?v)))"
    using own expected_Suc [OF pc] opc by (simp add: calm_def)
  have f': "fun_lookup p (frame_func (hd (vm_calls ?v))) = Some f" using f by simp
  obtain u u' where u: "exec_store_local p (arg1 ?i) ?v = (Inr True, u)" "gc_store_local (arg1 ?i) ?g = (Inr True, u')"
    "lock p K ad (vm_pc u + 1) u u'" "vm_stack u = xs" "vm_pc u = vm_pc ?v" "vm_calls u = vm_calls ?v"
    by (rule store_local_runs [OF L' st(1,2) f' k cell calm])
  have "gv_pc g = vm_pc v" using L by (simp add: lock_def)
  with u opc have "exec_current p v = (Inr True, u)" "gc_exec_current p g = (Inr True, u')"
    by (simp_all add: exec_current_ticked Let_def)
  with u st opc that show ?thesis by simp
qed

end
