(* ===== verification/Lockstep_Traces.thy ===== *)
theory Lockstep_Traces
  imports Lockstep_Instructions Trace_Props
begin

text \<open>
  The traces that the two machines record while they run in lockstep: the raw events differ only in
  the value that stands for a new array, which the normaliser replaces by the same reference.
\<close>

section \<open>The normaliser along a trace\<close>

definition normalizer_after :: "trace_event list \<Rightarrow> trace_normalizer" where
  "normalizer_after es = fold (\<lambda>e n. snd (normalize_event e n)) es normalizer_new"

lemma annotate_snoc:
  "annotate n (es @ [e]) = annotate n es @ [(e, fst (normalize_event e (fold (\<lambda>e n. snd (normalize_event e n)) es n)))]"
  by (induction es arbitrary: n) simp_all

lemma semantic_trace_snoc:
  "semantic_trace (es @ [e]) = semantic_trace es @ [semantic_view (e, fst (normalize_event e (normalizer_after es)))]"
  by (simp add: semantic_trace_def annotate_snoc normalizer_after_def)

lemma normalizer_after_snoc: "normalizer_after (es @ [e]) = snd (normalize_event e (normalizer_after es))"
  by (simp add: normalizer_after_def)

text \<open>The normalised form of a stack, whose top may be the array that was just allocated.\<close>

definition normal_form :: "nat option \<Rightarrow> i64 list \<Rightarrow> normalized_value list \<Rightarrow> bool" where
  "normal_form ex st ns \<longleftrightarrow>
     (case ex of None \<Rightarrow> ns = List.map NInt (rev st)
      | Some _ \<Rightarrow> \<exists>k. ns = List.map NInt (rev (tl st)) @ [NArrayRef k] \<and> st \<noteq> [])"

lemma preserve_prefix:
  assumes "length raw = length ns" "\<And>i. i < length ys \<Longrightarrow> i < length ns \<Longrightarrow> raw ! i = ys ! i \<Longrightarrow> ns ! i = NInt (raw ! i)"
  shows "preserve_stack_prefix raw ns ys = List.map NInt ys"
  using assms
  by (auto simp: preserve_stack_prefix_def preserved_value_def nth_enumerate_eq intro!: nth_equalityI)

lemma normalize_plain:
  assumes "\<not> is_allocation e" "ns = List.map NInt (ev_stack_before e)" "nz_stack n = ns"
  shows "normalize_event e n = (\<lparr>ne_before = ns, ne_after = List.map NInt (ev_stack_after e)\<rparr>,
    n\<lparr>nz_stack := List.map NInt (ev_stack_after e)\<rparr>)"
  using assms preserve_prefix [of "ev_stack_before e" ns "ev_stack_after e"]
  by (simp add: normalize_event_def normalize_before_def normalize_after_def Let_def)

lemma normalize_allocation:
  assumes "is_allocation e" "ev_stack_before e = xs" "ev_stack_after e = xs @ [b]" "nz_stack n = List.map NInt xs"
  shows "normalize_event e n = (\<lparr>ne_before = List.map NInt xs, ne_after = List.map NInt xs @ [NArrayRef (nz_next_array_ref n)]\<rparr>,
    n\<lparr>nz_stack := List.map NInt xs @ [NArrayRef (nz_next_array_ref n)], nz_next_array_ref := nz_next_array_ref n + 1\<rparr>)"
  using assms preserve_prefix [of xs "List.map NInt xs" "xs @ [b]"]
  by (simp add: normalize_event_def normalize_before_def normalize_after_def Let_def)

lemma normalize_store:
  assumes "\<not> is_allocation e" "ev_stack_before e = xs @ [b]" "ev_stack_after e = xs" "nz_stack n = List.map NInt xs @ [r]"
  shows "normalize_event e n = (\<lparr>ne_before = List.map NInt xs @ [r], ne_after = List.map NInt xs\<rparr>,
    n\<lparr>nz_stack := List.map NInt xs\<rparr>)"
  using assms preserve_prefix [of "xs @ [b]" "List.map NInt xs @ [r]" xs]
  by (simp add: normalize_event_def normalize_before_def normalize_after_def Let_def nth_append)

section \<open>Recorded events\<close>

text \<open>Traces the semantic comparison does not tell apart, and what they are while the machines run.\<close>

definition same_traces :: "trace_event list option \<Rightarrow> trace_event list option \<Rightarrow> bool" where
  "same_traces = rel_option (\<lambda>es es'. semantic_trace es = semantic_trace es')"

definition recorded :: "nat option \<Rightarrow> vm \<Rightarrow> gc_vm \<Rightarrow> bool" where
  "recorded ex v g \<longleftrightarrow> rel_option (\<lambda>es es'. semantic_trace es = semantic_trace es' \<and>
     normalizer_after es = normalizer_after es' \<and> normal_form ex (vm_stack v) (nz_stack (normalizer_after es)))
     (vm_trace v) (gv_trace g)"

lemma recorded_same: "recorded ex v g \<Longrightarrow> same_traces (vm_trace v) (gv_trace g)"
  unfolding recorded_def same_traces_def by (erule option.rel_mono_strong) simp

lemma opcode_name_alloc [simp]:
  "opcode_name opc = ''AllocArray'' \<longleftrightarrow> opc = Op_AllocArray" "opcode_name opc = ''ArrayNew'' \<longleftrightarrow> opc = Op_ArrayNew"
  by (cases opc; simp)+

lemma int_stacks [simp]:
  "gv_stack g = List.map GInt xs \<Longrightarrow> stack_as_i64 g = rev xs"
  by (simp add: stack_as_i64_def rev_map o_def)

lemma recorded_step:
  assumes rec: "recorded ex v g" and frames: "length (gv_calls g) = length (vm_calls v)" "gv_pc g = vm_pc v"
    and traces: "vm_trace u = vm_trace v" "gv_trace u' = gv_trace g"
    and after: "gv_cycles u' = vm_cycles u" "gv_pc u' = vm_pc u" "length (gv_calls u') = length (vm_calls u)"
    and event: "\<And>n e e'. normal_form ex (vm_stack v) (nz_stack n) \<Longrightarrow>
        e' = e\<lparr>ev_stack_before := stack_as_i64 g, ev_stack_after := stack_as_i64 u'\<rparr> \<Longrightarrow>
        ev_stack_before e = rev (vm_stack v) \<Longrightarrow> ev_stack_after e = rev (vm_stack u) \<Longrightarrow> ev_opcode e = opcode_name (opcode i) \<Longrightarrow>
        normalize_event e' n = normalize_event e n \<and> normal_form ex' (vm_stack u) (nz_stack (snd (normalize_event e n)))"
  shows "recorded ex' (record_trace (fetch_step i v) oc u) (gc_record_trace (gc_fetch_step i g) oc u')"
proof (cases "vm_trace v")
  case None
  with rec traces show ?thesis by (simp add: recorded_def record_trace_def gc_record_trace_def)
next
  case (Some es)
  with rec obtain es' where es': "gv_trace g = Some es'" "semantic_trace es = semantic_trace es'"
    "normalizer_after es = normalizer_after es'" "normal_form ex (vm_stack v) (nz_stack (normalizer_after es))"
    by (auto simp: recorded_def option_rel_Some1)
  let ?e = "\<lparr>ev_cycle = vm_cycles u, ev_pc = vm_pc v, ev_opcode = opcode_name (opcode i), ev_arg1 = arg1 i, ev_arg2 = arg2 i,
    ev_stack_before = rev (vm_stack v), ev_stack_after = rev (vm_stack u), ev_frame_depth_before = length (vm_calls v),
    ev_frame_depth_after = length (vm_calls u), ev_next_pc = vm_pc u, ev_outcome = oc\<rparr>"
  let ?e' = "?e\<lparr>ev_stack_before := stack_as_i64 g, ev_stack_after := stack_as_i64 u'\<rparr>"
  have "normalize_event ?e' (normalizer_after es) = normalize_event ?e (normalizer_after es) \<and>
      normal_form ex' (vm_stack u) (nz_stack (snd (normalize_event ?e (normalizer_after es))))"
    by (rule event [OF es'(4)]) simp_all
  moreover have "record_trace (fetch_step i v) oc u = u\<lparr>vm_trace := Some (es @ [?e])\<rparr>"
    "gc_record_trace (gc_fetch_step i g) oc u' = u'\<lparr>gv_trace := Some (es' @ [?e'])\<rparr>"
    using Some es'(1) traces after frames by (simp_all add: record_trace_def gc_record_trace_def fetch_step_def gc_fetch_step_def)
  moreover have "semantic_view (?e, x) = semantic_view (?e', x)" for x by (simp add: semantic_view_def)
  ultimately show ?thesis using es' by (simp add: recorded_def semantic_trace_snoc normalizer_after_snoc)
qed

lemma recorded_plain:
  assumes rec: "recorded None v g" and frames: "length (gv_calls g) = length (vm_calls v)" "gv_pc g = vm_pc v"
    and st: "gv_stack g = List.map GInt (vm_stack v)"
    and traces: "vm_trace u = vm_trace v" "gv_trace u' = gv_trace g" and after: "alike u u'"
    and opc: "opcode i \<notin> {Op_AllocArray, Op_ArrayNew}"
  shows "recorded None (record_trace (fetch_step i v) oc u) (gc_record_trace (gc_fetch_step i g) oc u')"
proof (rule recorded_step [OF rec frames traces])
  fix n :: trace_normalizer and e e' :: trace_event
  assume e: "normal_form None (vm_stack v) (nz_stack n)"
    "e' = e\<lparr>ev_stack_before := stack_as_i64 g, ev_stack_after := stack_as_i64 u'\<rparr>"
    "ev_stack_before e = rev (vm_stack v)" "ev_stack_after e = rev (vm_stack u)" "ev_opcode e = opcode_name (opcode i)"
  then have "\<not> is_allocation e" using opc by (simp add: is_allocation_def)
  moreover have "gv_stack u' = List.map GInt (vm_stack u)" using after by (simp add: alike_def)
  then have "e' = e" using e st by simp
  ultimately show "normalize_event e' n = normalize_event e n \<and> normal_form None (vm_stack u) (nz_stack (snd (normalize_event e n)))"
    using e normalize_plain [of e "nz_stack n" n] by (simp add: normal_form_def)
qed (use after in \<open>simp_all add: alike_def\<close>)


lemma recorded_alloc:
  assumes rec: "recorded None v g" and frames: "length (gv_calls g) = length (vm_calls v)" "gv_pc g = vm_pc v"
    and st: "gv_stack g = List.map GInt (vm_stack v)" "vm_stack u = b # vm_stack v" "gv_stack u' = r # gv_stack g"
    and traces: "vm_trace u = vm_trace v" "gv_trace u' = gv_trace g"
    and after: "gv_cycles u' = vm_cycles u" "gv_pc u' = vm_pc u" "length (gv_calls u') = length (vm_calls u)"
    and opc: "opcode i = Op_AllocArray"
  shows "recorded (Some m) (record_trace (fetch_step i v) oc u) (gc_record_trace (gc_fetch_step i g) oc u')"
proof (rule recorded_step [OF rec frames traces after])
  fix n :: trace_normalizer and e e' :: trace_event
  assume e: "normal_form None (vm_stack v) (nz_stack n)"
    "e' = e\<lparr>ev_stack_before := stack_as_i64 g, ev_stack_after := stack_as_i64 u'\<rparr>"
    "ev_stack_before e = rev (vm_stack v)" "ev_stack_after e = rev (vm_stack u)" "ev_opcode e = opcode_name (opcode i)"
  let ?xs = "rev (vm_stack v)"
  have after': "stack_as_i64 u' = ?xs @ [to_i64 r]" using st by (simp add: stack_as_i64_def rev_map o_def)
  with e opc st have "is_allocation e" "is_allocation e'" by (simp_all add: is_allocation_def)
  moreover have ns: "nz_stack n = List.map NInt ?xs" using e(1) by (simp add: normal_form_def)
  ultimately show "normalize_event e' n = normalize_event e n \<and> normal_form (Some m) (vm_stack u) (nz_stack (snd (normalize_event e n)))"
    using e(2-4) st after' normalize_allocation [of e ?xs b n] normalize_allocation [of e' ?xs "to_i64 r" n]
    by (simp add: normal_form_def)
qed

lemma recorded_store:
  assumes rec: "recorded (Some m) v g" and frames: "length (gv_calls g) = length (vm_calls v)" "gv_pc g = vm_pc v"
    and st: "vm_stack v = b # vm_stack u" "gv_stack g = r # gv_stack u'" "gv_stack u' = List.map GInt (vm_stack u)"
    and traces: "vm_trace u = vm_trace v" "gv_trace u' = gv_trace g"
    and after: "gv_cycles u' = vm_cycles u" "gv_pc u' = vm_pc u" "length (gv_calls u') = length (vm_calls u)"
    and opc: "opcode i = Op_StoreLocal"
  shows "recorded None (record_trace (fetch_step i v) oc u) (gc_record_trace (gc_fetch_step i g) oc u')"
proof (rule recorded_step [OF rec frames traces after])
  fix n :: trace_normalizer and e e' :: trace_event
  assume e: "normal_form (Some m) (vm_stack v) (nz_stack n)"
    "e' = e\<lparr>ev_stack_before := stack_as_i64 g, ev_stack_after := stack_as_i64 u'\<rparr>"
    "ev_stack_before e = rev (vm_stack v)" "ev_stack_after e = rev (vm_stack u)" "ev_opcode e = opcode_name (opcode i)"
  let ?xs = "rev (vm_stack u)"
  have before': "stack_as_i64 g = ?xs @ [to_i64 r]" using st by (simp add: stack_as_i64_def rev_map o_def)
  from e opc have "\<not> is_allocation e" "\<not> is_allocation e'" by (simp_all add: is_allocation_def)
  moreover obtain k where "nz_stack n = List.map NInt ?xs @ [NArrayRef k]" using e(1) st by (auto simp: normal_form_def)
  ultimately show "normalize_event e' n = normalize_event e n \<and> normal_form None (vm_stack u) (nz_stack (snd (normalize_event e n)))"
    using e(2-4) st before' normalize_store [of e ?xs b n] normalize_store [of e' ?xs "to_i64 r" n]
    by (simp add: normal_form_def)
qed

end
