(* ===== verification/Lockstep_Runs.thy ===== *)
theory Lockstep_Runs
  imports Lockstep_Traces
begin

text \<open>
  Whole runs of the two machines in lockstep.
\<close>

section \<open>Loops of two machines, of which one may give up\<close>

lemma iterate_rel_unless:
  assumes rel: "R s s'" and body: "\<And>s s'. R s s' \<Longrightarrow> (\<exists>r. step s = Inl r \<and> E r) \<or> rel_sum Q R (step s) (step' s')"
    and ret: "iterate step s = Some r"
  shows "E r \<or> (\<exists>r'. iterate step' s' = Some r' \<and> Q r r')"
proof -
  have "step = step \<longrightarrow> (\<forall>s'. R s s' \<longrightarrow> E r \<or> (\<exists>r'. iterate step' s' = Some r' \<and> Q r r'))"
  proof (rule iterate.raw_induct [where P = "\<lambda>st x y. st = step \<longrightarrow>
           (\<forall>s'. R x s' \<longrightarrow> E y \<or> (\<exists>r'. iterate step' s' = Some r' \<and> Q y r'))", OF _ ret], intro impI allI)
    fix iter st x y s'
    assume IH: "\<And>st x y. iter st x = Some y \<Longrightarrow>
             st = step \<longrightarrow> (\<forall>s'. R x s' \<longrightarrow> E y \<or> (\<exists>r'. iterate step' s' = Some r' \<and> Q y r'))"
      and ret: "(case st x of Inl r \<Rightarrow> Some r | Inr t \<Rightarrow> iter st t) = Some y"
      and st: "st = step" and R: "R x s'"
    from body [OF R] show "E y \<or> (\<exists>r'. iterate step' s' = Some r' \<and> Q y r')"
    proof
      assume "\<exists>r. step x = Inl r \<and> E r"
      with ret st show ?thesis by auto
    next
      assume "rel_sum Q R (step x) (step' s')"
      then show ?thesis
      proof (cases rule: rel_sum.cases)
        case (1 r r')
        with ret st have "y = r" by simp
        with 1 show ?thesis by (auto simp: iterate_Inl)
      next
        case (2 t t')
        with IH ret st have "E y \<or> (\<exists>r'. iterate step' t' = Some r' \<and> Q y r')" by auto
        with 2 show ?thesis by (simp add: iterate_Inr [of step' s' t'])
      qed
    qed
  qed
  with rel show ?thesis by simp
qed

section \<open>Exits\<close>

definition same_report :: "vm_result \<Rightarrow> gc_vm_result \<Rightarrow> bool" where
  "same_report r r' \<longleftrightarrow>
     gr_success r' = success r \<and> gr_return_value r' = return_value r \<and> gr_trap_code r' = trap_code r \<and>
     gr_trap_message r' = trap_message r \<and> gr_cycles r' = res_cycles r \<and> gr_output r' = res_output r \<and>
     gr_pc r' = res_pc r \<and> gr_stack_depth r' = stack_depth r \<and> gr_frame_depth r' = frame_depth r"

definition same_exit :: "vm_exit \<Rightarrow> gc_exit \<Rightarrow> bool" where
  "same_exit x y \<longleftrightarrow> rel_sum (=) same_report (fst x) (fst y) \<and> same_traces (vm_trace (snd x)) (gv_trace (snd y))"

text \<open>The exits that only the reference machine has.\<close>

definition own_exit :: "vm_exit \<Rightarrow> bool" where
  "own_exit x \<longleftrightarrow> (\<exists>r. fst x = Inr r \<and> trap_code r \<in> {StackOverflow, UndefinedLocal})"

lemma same_exit_trap:
  assumes "gv_cycles g = vm_cycles v" "gv_output g = vm_output v" "gv_pc g = vm_pc v"
    "length (gv_stack g) = length (vm_stack v)" "length (gv_calls g) = length (vm_calls v)"
    "same_traces (vm_trace v) (gv_trace g)"
  shows "same_exit (finish (make_trap_result code msg v)) (gc_finish (gc_make_trap_result code msg g))"
  using assms by (simp add: same_exit_def finish_def make_trap_result_def gc_finish_def gc_make_trap_result_def same_report_def)

lemma same_exit_result:
  assumes "alike v g" "same_traces (vm_trace v) (gv_trace g)"
  shows "same_exit (finish (exit_result v)) (gc_finish (gc_exit_result g))"
  using assms
  by (cases "vm_stack v") (auto simp: same_exit_def finish_def exit_result_def gc_finish_def gc_exit_result_def same_report_def
      alike_def take_top_def gc_take_top_def Let_def)

section \<open>One turn\<close>

definition joined :: "compiled_program \<Rightarrow> code_kinds \<Rightarrow> nat \<Rightarrow> vm \<Rightarrow> gc_vm \<Rightarrow> bool" where
  "joined p K k v g \<longleftrightarrow>
     kinded p K \<and> functions_valid p \<and> length (instructions p) < usize_max \<and> gc_running p g \<and> vm_max_cycles v = k \<and>
     recorded (expected p (vm_pc v)) v g \<and> (\<exists>ad. lock p K ad (vm_pc v) v g)"

lemma lock_lengths:
  assumes "lock p K ad pc v g"
  shows "gv_cycles g = vm_cycles v" "gv_output g = vm_output v" "gv_pc g = vm_pc v"
    "length (gv_stack g) = length (vm_stack v)" "length (gv_calls g) = length (vm_calls v)"
  using assms frames_linked_length by (auto simp: lock_def stack_rel_def split: option.splits)

lemma lock_alike: "lock p K ad pc v g \<Longrightarrow> expected p pc = None \<Longrightarrow> alike v g"
  using frames_linked_length by (auto simp: lock_def alike_def stack_rel_def)

lemma lock_pc: "lock p K ad pc v g \<Longrightarrow> lock p K ad pc (v\<lparr>vm_pc := i\<rparr>) (g\<lparr>gv_pc := i\<rparr>)"
  by (simp add: lock_def)

lemma lock_record: "lock p K ad pc v g \<Longrightarrow> lock p K ad pc (record_trace st oc v) (gc_record_trace st' oc' g)"
  by (simp add: lock_def record_trace_def gc_record_trace_def split: option.split)

lemma recorded_pc: "recorded ex (v\<lparr>vm_pc := i\<rparr>) (g\<lparr>gv_pc := j\<rparr>) = recorded ex v g"
  by (simp add: recorded_def)

lemma turn_trace:
  assumes "exec_current p v = (x, u)"
  shows "vm_trace u = vm_trace v" "vm_max_cycles u = vm_max_cycles v"
  using exec_current_same_control [of p v] assms by (cases x; auto simp: post_def same_control_def)+

lemma gc_turn_trace:
  assumes "gc_exec_current p g = (x, u)"
  shows "gv_trace u = gv_trace g"
  using gc_execute_control [of p "opcode (instructions p ! gv_pc g)" "arg1 (instructions p ! gv_pc g)" "arg2 (instructions p ! gv_pc g)"
      "g\<lparr>gv_cycles := gv_cycles g + 1\<rparr>"] assms
  by (cases x) (auto simp: post_def gc_exec_current_def Let_def gc_same_control_def)

text \<open>A turn after which both machines go on.\<close>

lemma joined_next:
  assumes J: "joined p K k v g" and limit: "\<not> (vm_max_cycles v > 0 \<and> vm_cycles v \<ge> vm_max_cycles v)"
    and pc: "vm_pc v < length (instructions p)"
    and u: "exec_current p v = (Inr a, u)" "gc_exec_current p g = (Inr a, u')" "vm_calls u \<noteq> []"
    and L: "lock p K ad (if a then vm_pc u + 1 else vm_pc u) u u'"
    and rec: "\<And>oc s s'. s = (if a then u\<lparr>vm_pc := vm_pc u + 1\<rparr> else u) \<Longrightarrow> s' = (if a then u'\<lparr>gv_pc := gv_pc u' + 1\<rparr> else u') \<Longrightarrow>
       recorded (expected p (vm_pc s)) (record_trace (fetch_step (instructions p ! vm_pc v) v) oc s)
         (gc_record_trace (gc_fetch_step (instructions p ! vm_pc v) g) oc s')"
  shows "rel_sum same_exit (joined p K k) (vm_step p v) (gc_step p g)"
proof -
  let ?s = "if a then u\<lparr>vm_pc := vm_pc u + 1\<rparr> else u" and ?s' = "if a then u'\<lparr>gv_pc := gv_pc u' + 1\<rparr> else u'"
  let ?oc = "if a then OContinue else OJump"
  let ?t = "record_trace (fetch_step (instructions p ! vm_pc v) v) ?oc ?s"
  let ?t' = "gc_record_trace (gc_fetch_step (instructions p ! vm_pc v) g) ?oc ?s'"
  obtain ad' where L0: "lock p K ad' (vm_pc v) v g" using J by (auto simp: joined_def)
  have same: "gv_pc g = vm_pc v" "gv_cycles g = vm_cycles v" "gv_max_cycles g = vm_max_cycles v" using L0 by (simp_all add: lock_def)
  have calls: "gv_calls u' \<noteq> []" and pcs: "gv_pc u' = vm_pc u" using lock_lengths [OF L] u(3) by auto
  have "vm_step p v = Inr ?t" "gc_step p g = Inr ?t'"
    using limit pc u calls same by (auto simp: vm_step_def gc_step_def after_instruction_def gc_after_instruction_def Let_def)
  moreover have "lock p K ad (vm_pc ?s) ?s ?s'" using L pcs lock_pc [of p K ad _ u u' "vm_pc u + 1"] by auto
  then have "lock p K ad (vm_pc ?t) ?t ?t'" using lock_record [of p K ad "vm_pc ?s" ?s ?s'] by simp
  moreover have "vm_max_cycles ?t = k" using J turn_trace [OF u(1)] by (simp add: joined_def)
  moreover have "recorded (expected p (vm_pc ?t)) ?t ?t'" using rec [of ?s ?s' ?oc] by simp
  moreover have "gc_running p ?t'" using J calculation(2) by (auto simp: joined_def intro: gc_step_running)
  ultimately show ?thesis using J by (auto simp: joined_def)
qed

text \<open>The events of an instruction that finds and leaves only integers on the stack.\<close>

lemma joined_records:
  assumes J: "joined p K k v g" and ex: "expected p (vm_pc v) = None"
    and opc: "opcode i \<notin> {Op_AllocArray, Op_ArrayNew}"
    and u: "exec_current p v = (x, u)" "gc_exec_current p g = (x', u')"
    and s: "alike s s'" "vm_trace s = vm_trace u" "gv_trace s' = gv_trace u'"
  shows "recorded None (record_trace (fetch_step i v) oc s) (gc_record_trace (gc_fetch_step i g) oc s')"
proof -
  obtain ad where L: "lock p K ad (vm_pc v) v g" using J by (auto simp: joined_def)
  have rec: "recorded None v g" using J ex by (simp add: joined_def)
  have before: "length (gv_calls g) = length (vm_calls v)" "gv_stack g = List.map GInt (vm_stack v)" "gv_pc g = vm_pc v"
    using lock_alike [OF L ex] by (simp_all add: alike_def)
  show ?thesis
    by (rule recorded_plain [OF rec before(1,3,2) _ _ s(1) opc])
      (use s turn_trace(1) [OF u(1)] gc_turn_trace [OF u(2)] in simp_all)
qed

lemma alike_pc: "alike u u' \<Longrightarrow> alike (u\<lparr>vm_pc := vm_pc u + 1\<rparr>) (u'\<lparr>gv_pc := gv_pc u' + 1\<rparr>)"
  by (simp add: alike_def)

lemma alike_record: "alike s s' \<Longrightarrow> alike (record_trace st oc s) (gc_record_trace st' oc' s')"
  by (simp add: alike_def)

lemma joined_trap:
  assumes J: "joined p K k v g" and ex: "expected p (vm_pc v) = None" and opc: "opcode i \<notin> {Op_AllocArray, Op_ArrayNew}"
    and u: "exec_current p v = (Inl e, u)" "gc_exec_current p g = (Inl e, u')" and al: "alike u u'"
  shows "rel_sum same_exit R (after_instruction (fetch_step i v) (Inl e, u)) (gc_after_instruction (gc_fetch_step i g) (Inl e, u'))"
proof (cases e)
  case (Trap code msg)
  have "same_exit (finish (make_trap_result code msg (record_trace (fetch_step i v) (OTrap code msg) u)))
      (gc_finish (gc_make_trap_result code msg (gc_record_trace (gc_fetch_step i g) (OTrap code msg) u')))"
    by (rule same_exit_trap)
      (use al recorded_same [OF joined_records [OF J ex opc u al refl refl]] in \<open>simp_all add: alike_def\<close>)
  with Trap show ?thesis by (simp add: after_instruction_def gc_after_instruction_def)
next
  case (Panic msg)
  have "recorded None v g" using J ex by (simp add: joined_def)
  then have "same_traces (vm_trace u) (gv_trace u')"
    using recorded_same turn_trace(1) [OF u(1)] gc_turn_trace [OF u(2)] by simp
  with Panic show ?thesis by (simp add: after_instruction_def gc_after_instruction_def same_exit_def)
qed

lemma joined_exit:
  assumes J: "joined p K k v g" and ex: "expected p (vm_pc v) = None" and opc: "opcode i \<notin> {Op_AllocArray, Op_ArrayNew}"
    and u: "exec_current p v = (Inr a, u)" "gc_exec_current p g = (Inr a, u')" and al: "alike u u'" and calls: "vm_calls u = []"
  shows "rel_sum same_exit R (after_instruction (fetch_step i v) (Inr a, u)) (gc_after_instruction (gc_fetch_step i g) (Inr a, u'))"
proof -
  let ?s = "if a then u\<lparr>vm_pc := vm_pc u + 1\<rparr> else u" and ?s' = "if a then u'\<lparr>gv_pc := gv_pc u' + 1\<rparr> else u'"
  have calls': "gv_calls u' = []" and al': "alike ?s ?s'" using al calls alike_pc [OF al] by (auto simp: alike_def)
  have "same_exit (finish (exit_result (record_trace (fetch_step i v) OExit ?s)))
      (gc_finish (gc_exit_result (gc_record_trace (gc_fetch_step i g) OExit ?s')))"
    by (rule same_exit_result [OF alike_record [OF al']]) (rule recorded_same [OF joined_records [OF J ex opc u al']]; simp)
  with calls calls' show ?thesis by (auto simp: after_instruction_def gc_after_instruction_def Let_def)
qed

lemma own_trap: "escapes e \<Longrightarrow> \<exists>r. after_instruction st (Inl e, u) = Inl r \<and> own_exit r"
  by (auto simp: escapes_def after_instruction_def own_exit_def finish_def make_trap_result_def)

lemma joined_plain:
  assumes J: "joined p K k v g" and limit: "\<not> (vm_max_cycles v > 0 \<and> vm_cycles v \<ge> vm_max_cycles v)"
    and pc: "vm_pc v < length (instructions p)" and ex: "expected p (vm_pc v) = None"
    and opc: "opcode (instructions p ! vm_pc v) \<notin> {Op_AllocArray, Op_ArrayNew}"
    and same: "same_result p K (exec_current p v) (gc_exec_current p g)"
  shows "(\<exists>r. vm_step p v = Inl r \<and> own_exit r) \<or> rel_sum same_exit (joined p K k) (vm_step p v) (gc_step p g)"
proof -
  let ?i = "instructions p ! vm_pc v"
  obtain ad where L: "lock p K ad (vm_pc v) v g" using J by (auto simp: joined_def)
  obtain x u where u: "exec_current p v = (x, u)" by fastforce
  obtain x' u' where u': "gc_exec_current p g = (x', u')" by fastforce
  have step: "vm_step p v = after_instruction (fetch_step ?i v) (x, u)"
    "gc_step p g = gc_after_instruction (gc_fetch_step ?i g) (x', u')"
    using limit pc L u u' by (auto simp: vm_step_def gc_step_def lock_def)
  show ?thesis
  proof (cases x)
    case (Inl e)
    show ?thesis
    proof (cases "escapes e")
      case True
      with own_trap show ?thesis unfolding step Inl by blast
    next
      case False
      with same Inl u u' have x': "x' = Inl e" and al: "alike u u'" by (simp_all add: same_result_def)
      show ?thesis unfolding step Inl x' by (intro disjI2 joined_trap [OF J ex opc u [unfolded Inl] u' [unfolded x'] al])
    qed
  next
    case (Inr a)
    have x': "x' = Inr a" using same u u' Inr by (simp add: same_result_def)
    have S: "same_result p K (Inr a, u) (Inr a, u')" using same u u' Inr x' by simp
    show ?thesis
    proof (cases "vm_calls u = []")
      case True
      with S have al: "alike u u'" by (simp add: same_result_def)
      show ?thesis unfolding step Inr x' by (intro disjI2 joined_exit [OF J ex opc u [unfolded Inr] u' [unfolded x'] al True])
    next
      case False
      with S obtain ad' where L': "lock p K ad' (if a then vm_pc u + 1 else vm_pc u) u u'"
        and ex': "expected p (if a then vm_pc u + 1 else vm_pc u) = None" by (cases a) (auto simp: same_result_def)
      have "alike u u'" by (rule lock_alike [OF L' ex'])
      then have al: "alike (if a then u\<lparr>vm_pc := vm_pc u + 1\<rparr> else u) (if a then u'\<lparr>gv_pc := gv_pc u' + 1\<rparr> else u')"
        using alike_pc by auto
      show ?thesis
        by (intro disjI2 joined_next [OF J limit pc u [unfolded Inr] u' [unfolded x'] False L'])
          (use joined_records [OF J ex opc u u' al] ex' in \<open>cases a; simp\<close>)
    qed
  qed
qed

lemma joined_paired:
  assumes "joined p K k v g" "\<not> (vm_max_cycles v > 0 \<and> vm_cycles v \<ge> vm_max_cycles v)" "0 < k" "k \<le> 4294967296"
  obtains ad where "paired p K ad v g"
  using assms by (auto simp: joined_def paired_def)

lemma joined_alloc:
  assumes J: "joined p K k v g" and k: "0 < k" "k \<le> 4294967296"
    and limit: "\<not> (vm_max_cycles v > 0 \<and> vm_cycles v \<ge> vm_max_cycles v)"
    and pc: "vm_pc v < length (instructions p)" and opc: "opcode (instructions p ! vm_pc v) = Op_AllocArray"
  shows "(\<exists>r. vm_step p v = Inl r \<and> own_exit r) \<or> rel_sum same_exit (joined p K k) (vm_step p v) (gc_step p g)"
proof -
  let ?i = "instructions p ! vm_pc v"
  obtain ad where P: "paired p K ad v g" by (rule joined_paired [OF J limit k])
  then have L: "lock p K ad (vm_pc v) v g" by (simp add: paired_def)
  show ?thesis
  proof (rule same_alloc [OF P pc opc])
    fix e u
    assume "exec_current p v = (Inl e, u)" "escapes e"
    then show ?thesis using own_trap [of e "fetch_step ?i v" u] limit pc by (auto simp: vm_step_def)
  next
    fix b r u u' ad'
    assume u: "exec_current p v = (Inr True, u)" "gc_exec_current p g = (Inr True, u')"
      "lock p K ad' (vm_pc v + 1) u u'" "vm_pc u = vm_pc v" "vm_calls u = vm_calls v" "vm_stack u = b # vm_stack v"
      "gv_stack u' = GArray r # gv_stack g" "gv_stack g = List.map GInt (vm_stack v)" "expected p (vm_pc v) = None"
    have rec: "recorded None v g" using J u(9) by (simp add: joined_def)
    note len = lock_lengths [OF L]
    have L': "lock p K ad' (if True then vm_pc u + 1 else vm_pc u) u u'" using u(3,4) by simp
    have "vm_calls u \<noteq> []" using u(5) L by (simp add: lock_def)
    from joined_next [OF J limit pc u(1,2) this L']
    show ?thesis
      using recorded_alloc [OF rec len(5,3) u(8) _ _ _ _ _ _ _ opc, of "u\<lparr>vm_pc := vm_pc u + 1\<rparr>" b "u'\<lparr>gv_pc := gv_pc u' + 1\<rparr>" "GArray r"]
        u turn_trace [OF u(1)] gc_turn_trace [OF u(2)] lock_lengths [OF u(3)] expected_Suc [OF pc] opc by simp
  qed
qed

lemma joined_store:
  assumes J: "joined p K k v g" and k: "0 < k" "k \<le> 4294967296"
    and limit: "\<not> (vm_max_cycles v > 0 \<and> vm_cycles v \<ge> vm_max_cycles v)"
    and pc: "vm_pc v < length (instructions p)" and ex: "expected p (vm_pc v) = Some m"
  shows "rel_sum same_exit (joined p K k) (vm_step p v) (gc_step p g)"
proof -
  let ?i = "instructions p ! vm_pc v"
  obtain ad where P: "paired p K ad v g" by (rule joined_paired [OF J limit k])
  then have L: "lock p K ad (vm_pc v) v g" by (simp add: paired_def)
  show ?thesis
  proof (rule same_store_array [OF P pc ex])
    fix b r xs u u'
    assume u: "exec_current p v = (Inr True, u)" "gc_exec_current p g = (Inr True, u')"
      "lock p K ad (vm_pc v + 1) u u'" "vm_pc u = vm_pc v" "vm_calls u = vm_calls v"
      "vm_stack v = b # xs" "vm_stack u = xs" "gv_stack g = GArray r # List.map GInt xs" "opcode ?i = Op_StoreLocal"
    have rec: "recorded (Some m) v g" using J ex by (simp add: joined_def)
    have ex': "expected p (vm_pc v + 1) = None" using expected_Suc [OF pc] u(9) by simp
    have al: "alike u u'" by (rule lock_alike [OF u(3) ex'])
    note len = lock_lengths [OF L]
    have L': "lock p K ad (if True then vm_pc u + 1 else vm_pc u) u u'" using u(3,4) by simp
    have "vm_calls u \<noteq> []" using u(5) L by (simp add: lock_def)
    from joined_next [OF J limit pc u(1,2) this L']
    show ?thesis
      using recorded_store [OF rec len(5,3) _ _ _ _ _ _ _ _ u(9), of b "u\<lparr>vm_pc := vm_pc u + 1\<rparr>" "GArray r" "u'\<lparr>gv_pc := gv_pc u' + 1\<rparr>"]
        u turn_trace [OF u(1)] gc_turn_trace [OF u(2)] al ex' by (simp add: alike_def)
  qed
qed

lemma joined_step:
  assumes J: "joined p K k v g" and k: "0 < k" "k \<le> 4294967296"
  shows "(\<exists>r. vm_step p v = Inl r \<and> own_exit r) \<or> rel_sum same_exit (joined p K k) (vm_step p v) (gc_step p g)"
proof -
  let ?i = "instructions p ! vm_pc v"
  obtain ad where L: "lock p K ad (vm_pc v) v g" using J by (auto simp: joined_def)
  have fields: "gv_pc g = vm_pc v" "gv_cycles g = vm_cycles v" "gv_max_cycles g = vm_max_cycles v" using L by (simp_all add: lock_def)
  have traces: "same_traces (vm_trace v) (gv_trace g)" using J by (auto simp: joined_def intro: recorded_same)
  note same_trap = same_exit_trap [OF lock_lengths [OF L] traces]
  consider (limit) "vm_max_cycles v > 0 \<and> vm_cycles v \<ge> vm_max_cycles v"
    | (pc) "\<not> (vm_max_cycles v > 0 \<and> vm_cycles v \<ge> vm_max_cycles v)" "length (instructions p) \<le> vm_pc v"
    | (instr) "\<not> (vm_max_cycles v > 0 \<and> vm_cycles v \<ge> vm_max_cycles v)" "vm_pc v < length (instructions p)" by linarith
  then show ?thesis
  proof cases
    case instr
    obtain ad' where P: "paired p K ad' v g" by (rule joined_paired [OF J instr(1) k])
    obtain f where f: "fun_lookup p (frame_func (hd (vm_calls v))) = Some f"
      and kind: "kind_ok p K (frame_func (hd (vm_calls v))) (local_count f) (expected p (vm_pc v)) (opcode ?i) (arg1 ?i) (arg2 ?i)"
      by (rule paired_kind [OF P instr(2)])
    show ?thesis
    proof (cases "opcode ?i = Op_AllocArray")
      case True
      show ?thesis by (rule joined_alloc [OF J k instr True])
    next
      case other: False
      show ?thesis
      proof (cases "expected p (vm_pc v)")
        case None
        show ?thesis
          by (rule joined_plain [OF J instr None _ same_instruction [OF P instr(2) None other]]) (use other kind in auto)
      next
        case (Some m)
        from joined_store [OF J k instr Some] show ?thesis ..
      qed
    qed
  qed (use fields same_trap in \<open>auto simp: vm_step_def gc_step_def\<close>)
qed

end
