(* ===== verification/Lockstep_Start.thy ===== *)
theory Lockstep_Start
  imports Lockstep_Runs
begin

text \<open>
  The two machines when a run starts, the global arrays allocated on the heap of the second, and
  that complete runs agree.
\<close>

section \<open>Global arrays\<close>

text \<open>The array globals of a program are those the kinds name.\<close>

definition global_kinds :: "compiled_program \<Rightarrow> code_kinds \<Rightarrow> bool" where
  "global_kinds p K \<longleftrightarrow>
     (\<forall>s n. ck_globals K s = Some n \<longleftrightarrow>
        (\<exists>info \<in> set (map snd (prog_globals p)). gi_is_array info \<and> gi_slot info = s \<and> gi_array_size info = n))"

text \<open>The state while the slots \<open>S\<close> hold their arrays.\<close>

definition arrays_ready :: "code_kinds \<Rightarrow> nat set \<Rightarrow> gc_vm \<Rightarrow> gc_vm \<Rightarrow> bool" where
  "arrays_ready K S s0 s \<longleftrightarrow>
     gc_ready s \<and> gv_stack s = [] \<and> gv_max_cycles s = gv_max_cycles s0 \<and> gv_cycles s = gv_cycles s0 \<and>
     gv_output s = gv_output s0 \<and> gv_trace s = gv_trace s0 \<and>
     length (gv_globals s) = MAX_GLOBAL_SLOTS \<and> S \<subseteq> {..<MAX_GLOBAL_SLOTS} \<and>
     (\<forall>k < MAX_GLOBAL_SLOTS. k \<notin> S \<longrightarrow> gv_globals s ! k = GInt 0) \<and>
     (\<forall>k \<in> S. \<exists>n i. ck_globals K k = Some n \<and> gv_globals s ! k = GArray i \<and> elements s i = Some (replicate n 0)) \<and>
     inj_on (\<lambda>k. gv_globals s ! k) S"

lemma global_root:
  assumes "gc_ok s" "gv_globals s ! k = GArray i" "k < length (gv_globals s)"
  shows "i \<in> roots s"
  using assms nth_mem [OF assms(3)] roots_cover(2) [OF assms(1)] by (auto simp: vals_refs_def)

lemma arrays_ready_slot:
  assumes A: "arrays_ready K S s0 s" and al: "allocated n s i t" and t: "gc_ready t"
    and k: "ck_globals K k = Some n" "k < MAX_GLOBAL_SLOTS"
  shows "arrays_ready K (insert k S) s0 (t\<lparr>gv_globals := (gv_globals t)[k := GArray i]\<rparr>)"
proof -
  let ?t = "t\<lparr>gv_globals := (gv_globals t)[k := GArray i]\<rparr>"
  from A have ok: "gc_ok s" by (simp add: arrays_ready_def gc_ready_def)
  from al have out: "same_outside_heap s t" and new: "i \<notin> roots s" "elements t i = Some (replicate n 0)" "i \<in> live t"
    and kept: "\<And>j. j \<in> roots s \<Longrightarrow> elements t j = elements s j" by (simp_all add: allocated_def)
  have len: "length (gv_globals t) = MAX_GLOBAL_SLOTS" and gl: "gv_globals t = gv_globals s"
    using A out by (simp_all add: arrays_ready_def same_outside_heap_def)
  have old: "\<exists>m j. ck_globals K a = Some m \<and> gv_globals s ! a = GArray j \<and> j \<in> roots s \<and> elements s j = Some (replicate m 0)"
    if "a \<in> S" for a
    using A that global_root [OF ok] by (fastforce simp: arrays_ready_def)
  have "gc_ready ?t" using gc_ready_set_global [of t i k] t new(3) k(2) len by (simp add: gc_ready_def)
  moreover have "\<exists>m j. ck_globals K a = Some m \<and> gv_globals ?t ! a = GArray j \<and> elements ?t j = Some (replicate m 0)"
    if "a \<in> insert k S" for a
  proof (cases "a = k")
    case True
    then show ?thesis using k new(2) len by auto
  next
    case False
    with that old [of a] kept len gl show ?thesis by auto
  qed
  moreover have "inj_on (\<lambda>a. gv_globals ?t ! a) (insert k S)"
  proof (rule inj_onI)
    fix a b
    assume ab: "a \<in> insert k S" "b \<in> insert k S" "gv_globals ?t ! a = gv_globals ?t ! b"
    have other: "gv_globals ?t ! c \<noteq> GArray i" if "c \<in> S" "c \<noteq> k" for c using old [OF that(1)] that(2) new(1) gl by auto
    have "gv_globals ?t ! k = GArray i" using k(2) len by simp
    with ab other show "a = b" using A gl
      by (cases "a = k"; cases "b = k") (auto simp: arrays_ready_def dest: inj_onD)
  qed
  ultimately show ?thesis
    using A k(2) len gl out by (simp add: arrays_ready_def same_outside_heap_def)
qed

lemma init_globals_arrays:
  assumes "arrays_ready K S s0 s"
    and "\<forall>info \<in> set infos. gi_is_array info \<longrightarrow> ck_globals K (gi_slot info) = Some (gi_array_size info) \<and> gi_slot info < MAX_GLOBAL_SLOTS"
  shows "\<exists>t. init_globals infos s = (Inr (), t) \<and> arrays_ready K (S \<union> gi_slot ` {info \<in> set infos. gi_is_array info}) s0 t"
  using assms
proof (induction infos arbitrary: s S)
  case (Cons info infos)
  show ?case
  proof (cases "gi_is_array info")
    case True
    let ?n = "gi_array_size info" and ?k = "gi_slot info"
    have s: "gc_ready s" and k: "ck_globals K ?k = Some ?n" "?k < MAX_GLOBAL_SLOTS" using Cons.prems True by (auto simp: arrays_ready_def)
    from alloc_ready [OF s, of ?n] have "post (alloc_array ?n s) (\<lambda>i t. gc_ready t) (\<lambda>_ _. False)"
      by (rule post_mono) simp_all
    moreover have "post (alloc_array ?n s) (allocated ?n s) (\<lambda>_ _. False)"
      using s by (intro post_alloc heap_small_u32) (simp_all add: gc_ready_def)
    ultimately obtain i t where t: "alloc_array ?n s = (Inr i, t)" "gc_ready t" "allocated ?n s i t"
      by (auto simp: post_def prod_eq_iff split: sum.splits)
    have "arrays_ready K (insert ?k S) s0 (t\<lparr>gv_globals := (gv_globals t)[?k := GArray i]\<rparr>)" (is "arrays_ready K _ s0 ?t")
      by (rule arrays_ready_slot [OF Cons.prems(1) t(3,2) k])
    from Cons.IH [OF this] Cons.prems(2) obtain u where u: "init_globals infos ?t = (Inr (), u)"
      "arrays_ready K (insert ?k S \<union> gi_slot ` {info \<in> set infos. gi_is_array info}) s0 u" by auto
    have "?k < length (gv_globals t)" using t(3) k(2) Cons.prems(1) by (simp add: allocated_def same_outside_heap_def arrays_ready_def)
    moreover have "insert ?k S \<union> gi_slot ` {info \<in> set infos. gi_is_array info} =
        S \<union> gi_slot ` {i \<in> set (info # infos). gi_is_array i}" using True by auto
    ultimately show ?thesis using True t(1) u by simp
  next
    case False
    then have "{i \<in> set (info # infos). gi_is_array i} = {i \<in> set infos. gi_is_array i}" by auto
    with False Cons show ?thesis by simp
  qed
qed simp

section \<open>The start of a run\<close>

definition vm_machine :: "nat \<Rightarrow> bool \<Rightarrow> vm" where
  "vm_machine k tr = (if tr then with_trace else (\<lambda>s. s)) (with_max_cycles k vm_new)"

lemma machine_fields:
  "vm_stack (vm_machine k tr) = []" "vm_locals (vm_machine k tr) = vec_repeat i64_min MAX_LOCAL_SLOTS"
  "vm_globals (vm_machine k tr) = vec_repeat 0 MAX_GLOBAL_SLOTS" "vm_calls (vm_machine k tr) = []" "vm_cycles (vm_machine k tr) = 0"
  "vm_max_cycles (vm_machine k tr) = k" "vm_output (vm_machine k tr) = []" "vm_trace (vm_machine k tr) = (if tr then Some [] else None)"
  "vm_pc (vm_machine k tr) = 0"
  "gv_stack (gc_machine k tr) = []" "gv_globals (gc_machine k tr) = replicate MAX_GLOBAL_SLOTS (GInt 0)" "gv_calls (gc_machine k tr) = []"
  "gv_cycles (gc_machine k tr) = 0" "gv_output (gc_machine k tr) = []" "gv_trace (gc_machine k tr) = (if tr then Some [] else None)"
  "gv_pc (gc_machine k tr) = 0"
  by (simp_all add: vm_machine_def with_trace_def with_max_cycles_def vm_new_def gc_machine_def gc_with_trace_def
      gc_with_max_cycles_def gc_new_def)

lemma arrays_ready_start: "arrays_ready K {} (gc_machine k tr) (gc_machine k tr)"
  using gc_machine_ready(1) by (simp add: arrays_ready_def machine_fields)

lemma start_globals:
  assumes A: "arrays_ready K S s0 s" and S: "\<And>k. k \<in> S \<longleftrightarrow> (\<exists>n. ck_globals K k = Some n)" and K: "kinded p K"
  shows "globals_linked K (\<lambda>_. None) (vec_repeat 0 MAX_GLOBAL_SLOTS) s"
proof -
  have size: "0 < n \<and> k + n \<le> MAX_GLOBAL_SLOTS" if "ck_globals K k = Some n" for k n using K that by (auto simp: kinded_def)
  have scalars: "k \<notin> S" if "scalar_global K k" for k
    using that size unfolding S by (fastforce simp: scalar_global_def)
  have zeros: "List.map (vget (vec_repeat 0 MAX_GLOBAL_SLOTS)) [a..<a + n] = replicate n 0" for a n
    by (simp add: map_replicate_const list_eq_iff_nth_eq)
  have heads: "\<exists>i. gv_globals s ! a = GArray i \<and> elements s i = Some (replicate n 0)" if "ck_globals K a = Some n" for a n
    using A S [of a] that by (fastforce simp: arrays_ready_def)
  have "gv_globals s ! a \<noteq> gv_globals s ! b" if "ck_globals K a \<noteq> None" "ck_globals K b \<noteq> None" "a \<noteq> b" for a b
    using A S [of a] S [of b] that by (auto simp: arrays_ready_def dest: inj_onD)
  with A scalars heads show ?thesis unfolding globals_linked_def zeros by (simp add: arrays_ready_def)
qed

lemma validate_facts:
  assumes "validate_program p = None"
  shows "functions_valid p" "length (instructions p) < usize_max" "fun_lookup p i = Some f \<Longrightarrow> local_count f \<le> MAX_LOCAL_SLOTS"
proof -
  have none: "first_error validate_function (map snd (prog_functions p)) = None" and len: "length (instructions p) \<le> MAX_INSTRUCTIONS"
    using assms by (auto simp: validate_program_def split: if_splits option.splits)
  have "first_error g xs = None \<Longrightarrow> \<forall>x \<in> set xs. g x = None" for g :: "function_info \<Rightarrow> (trap_code \<times> string) option" and xs
    by (induction xs) (auto split: option.splits)
  with none have "\<forall>f \<in> set (map snd (prog_functions p)). validate_function f = None" by blast
  then show "functions_valid p" by (auto simp: functions_valid_def validate_function_def split: if_splits)
  show "length (instructions p) < usize_max" using len by (simp add: limit_defs usize_max_def)
  show "fun_lookup p i = Some f \<Longrightarrow> local_count f \<le> MAX_LOCAL_SLOTS"
    using fun_lookup_small [OF validate_functions_small [OF assms]] .
qed

lemma start_lock:
  assumes K: "kinded p K" and G: "globals_linked K (\<lambda>_. None) (vec_repeat 0 MAX_GLOBAL_SLOTS) s"
    and valid: "validate_program p = None" and main: "fun_lookup p (main_func_id p) = Some f" "fi_id f = main_func_id p"
    and s: "gv_stack s = []" "gv_calls s = []" "gv_cycles s = 0" "gv_max_cycles s = k" "gv_output s = []"
  shows "lock p K (\<lambda>_. None) (entry_pc f) (vm_start f (vm_machine k tr)) (gc_start f s)"
proof -
  have calm: "owned p K (entry_pc f) (main_func_id p)" "expected p (entry_pc f) = None"
    using K main(1) by (auto simp: kinded_def calm_def)
  have "cells_rel p K (\<lambda>_. None) (\<lambda>_. i64_min) \<lparr>return_pc = usize_max, base_ptr = 0, frame_func = main_func_id p\<rparr>
      (GcCallFrame_new (local_count f) usize_max)"
    using main(1) validate_facts(3) [OF valid main(1)]
    by (auto simp: cells_rel_def GcCallFrame_new_def cell_rel_def)
  moreover have "vget (vec_repeat i64_min MAX_LOCAL_SLOTS) = (\<lambda>_. i64_min)" by (simp add: fun_eq_iff)
  moreover have "globals_linked K (\<lambda>_. None) (vec_repeat 0 MAX_GLOBAL_SLOTS) (gc_start f s)"
    using G by (simp add: gc_start_def)
  moreover have "arrays_rel (\<lambda>_. None) (vec_repeat i64_min MAX_LOCAL_SLOTS) (gc_start f s)" by (simp add: arrays_rel_def)
  ultimately show ?thesis
    using calm main(2) s by (simp add: lock_def vm_start_def gc_start_def machine_fields stack_rel_def frames_base_def GcCallFrame_new_def)
qed

lemma start_joined:
  assumes K: "kinded p K" "global_kinds p K" and valid: "validate_program p = None" and typed: "typed_program p"
    and main: "fun_lookup p (main_func_id p) = Some f" "fi_id f = main_func_id p"
  obtains s where "init_globals (map snd (prog_globals p)) (gc_machine k tr) = (Inr (), s)"
    "joined p K k (vm_start f (vm_machine k tr)) (gc_start f s)"
proof -
  let ?infos = "map snd (prog_globals p)"
  let ?S = "gi_slot ` {info \<in> set ?infos. gi_is_array info}"
  have infos: "\<forall>info \<in> set ?infos. gi_is_array info \<longrightarrow> ck_globals K (gi_slot info) = Some (gi_array_size info) \<and> gi_slot info < MAX_GLOBAL_SLOTS"
    using K(2) validate_slots [OF valid] by (fastforce simp: global_kinds_def)
  obtain s where s: "init_globals ?infos (gc_machine k tr) = (Inr (), s)" "arrays_ready K ?S (gc_machine k tr) s"
    using init_globals_arrays [OF arrays_ready_start infos, of k tr] by auto
  have S: "a \<in> ?S \<longleftrightarrow> (\<exists>n. ck_globals K a = Some n)" for a using K(2) by (fastforce simp: global_kinds_def)
  have ready: "gc_ready s" "gv_stack s = []" "gv_cycles s = 0" "gv_max_cycles s = k" "gv_output s = []"
    "gv_trace s = (if tr then Some [] else None)" using s(2) by (simp_all add: arrays_ready_def machine_fields gc_machine_ready)
  then have L: "lock p K (\<lambda>_. None) (entry_pc f) (vm_start f (vm_machine k tr)) (gc_start f s)"
    by (intro start_lock [OF K(1) start_globals [OF s(2) S K(1)] valid main]) (simp_all add: gc_ready_def)
  have "gc_running p (gc_start f s)" by (rule gc_start_running [OF ready(1,3) typed valid main(1)])
  moreover have "expected p (entry_pc f) = None" using K(1) main(1) by (auto simp: kinded_def calm_def)
  moreover have "normalizer_after [] = normalizer_new" by (simp add: normalizer_after_def)
  ultimately have "joined p K k (vm_start f (vm_machine k tr)) (gc_start f s)"
    using K(1) validate_facts [OF valid] L ready(6)
    by (auto simp: joined_def vm_start_def gc_start_def machine_fields recorded_def normal_form_def normalizer_new_def)
  with s(1) that show ?thesis by blast
qed

section \<open>Complete runs\<close>

lemma lockstep_runs:
  assumes K: "kinded p K" "global_kinds p K" and typed: "typed_program p" and k: "0 < k" "k \<le> 4294967296"
    and main: "\<And>f. fun_lookup p (main_func_id p) = Some f \<Longrightarrow> fi_id f = main_func_id p"
    and x: "vm_run p (vm_machine k tr) = Some x"
  shows "own_exit x \<or> (\<exists>y. gc_run p (gc_machine k tr) = Some y \<and> same_exit x y)"
proof -
  have trap: "same_exit (finish (make_trap_result code msg (vm_machine k tr))) (gc_finish (gc_make_trap_result code msg (gc_machine k tr)))"
    for code msg
    by (rule same_exit_trap) (simp_all add: machine_fields same_traces_def)
  show ?thesis
  proof (cases "validate_program p")
    case (Some e)
    with x trap show ?thesis by (auto simp: vm_run_def gc_run_def gc_validate_program_def)
  next
    case valid: None
    show ?thesis
    proof (cases "fun_lookup p (main_func_id p)")
      case None
      with valid x trap show ?thesis by (auto simp: vm_run_def gc_run_def gc_validate_program_def)
    next
      case (Some f)
      obtain s where s: "init_globals (map snd (prog_globals p)) (gc_machine k tr) = (Inr (), s)"
        "joined p K k (vm_start f (vm_machine k tr)) (gc_start f s)"
        by (rule start_joined [OF K valid typed Some main [OF Some]])
      have "iterate (vm_step p) (vm_start f (vm_machine k tr)) = Some x"
        using x valid Some validate_facts(3) [OF valid Some] by (simp add: vm_run_def)
      from iterate_rel_unless [where R = "joined p K k", OF s(2) joined_step [OF _ k] this]
      show ?thesis using valid Some s(1) by (simp add: gc_run_def gc_validate_program_def)
    qed
  qed
qed

end
