(* ===== verification/Code_Kinds.thy ===== *)
theory Code_Kinds
  imports Code_Simulation Lockstep_Start
begin

text \<open>
  Compiled code keeps integers and array references apart: every segment of code is judged on its own,
  with the targets of the jumps that leave it, and segments are put together.
\<close>

section \<open>Segments of code\<close>

definition jumps :: "opcode \<Rightarrow> bool" where
  "jumps opc \<longleftrightarrow> opc \<in> {Op_Jump, Op_JumpIfFalse, Op_JumpIfTrue}"

text \<open>A place in the code \<open>is\<close> at \<open>pc\<close> where no array lies on the stack.\<close>

definition joint :: "nat \<Rightarrow> instruction list \<Rightarrow> nat \<Rightarrow> bool" where
  "joint pc is t \<longleftrightarrow> pc \<le> t \<and> t \<le> pc + length is \<and> (pc < t \<longrightarrow> opcode (is ! (t - pc - 1)) \<noteq> Op_AllocArray)"

definition prior :: "instruction list \<Rightarrow> nat \<Rightarrow> nat option" where
  "prior is j = (if 0 < j \<and> opcode (is ! (j - 1)) = Op_AllocArray then Some (nat (arg1 (is ! (j - 1)))) else None)"

definition instr_fits :: "compiled_program \<Rightarrow> code_kinds \<Rightarrow> nat \<Rightarrow> nat \<Rightarrow> nat set \<Rightarrow> nat \<Rightarrow> instruction list \<Rightarrow> nat \<Rightarrow> bool" where
  "instr_fits p K i n T pc is j \<longleftrightarrow>
     (if jumps (opcode (is ! j)) then as_usize (arg1 (is ! j)) \<in> T \<or> joint pc is (as_usize (arg1 (is ! j)))
      else kind_ok p K i n (prior is j) (opcode (is ! j)) (arg1 (is ! j)) (arg2 (is ! j))) \<and>
     (prior is j \<noteq> None \<longrightarrow> opcode (is ! j) = Op_StoreLocal)"

definition segment :: "compiled_program \<Rightarrow> code_kinds \<Rightarrow> nat \<Rightarrow> nat \<Rightarrow> nat set \<Rightarrow> nat \<Rightarrow> instruction list \<Rightarrow> bool" where
  "segment p K i n T pc is \<longleftrightarrow>
     (\<forall>j < length is. instr_fits p K i n T pc is j) \<and> (is \<noteq> [] \<longrightarrow> opcode (last is) \<noteq> Op_AllocArray)"

lemma segment_Nil [simp]: "segment p K i n T pc []"
  by (simp add: segment_def)

lemma segment_last: "segment p K i n T pc is \<Longrightarrow> is \<noteq> [] \<Longrightarrow> opcode (is ! (length is - 1)) \<noteq> Op_AllocArray"
  by (simp add: segment_def last_conv_nth)

lemma joint_start [simp]: "joint pc is pc"
  by (simp add: joint_def)

lemma joint_end: "segment p K i n T pc is \<Longrightarrow> joint pc is (pc + length is)"
  using segment_last [of p K i n T pc "is"] by (cases "is") (auto simp: joint_def)

lemma joint_left: "joint pc xs t \<Longrightarrow> joint pc (xs @ ys) t"
  by (auto simp: joint_def nth_append)

lemma joint_right:
  assumes "segment p K i n T pc xs" "joint (pc + length xs) ys t"
  shows "joint pc (xs @ ys) t"
proof (cases "pc + length xs < t")
  case True
  then have "t - pc - 1 - length xs = t - (pc + length xs) - 1" by simp
  with True assms(2) show ?thesis by (auto simp: joint_def nth_append)
next
  case False
  with assms(2) have "t = pc + length xs" by (simp add: joint_def)
  with joint_left [OF joint_end [OF assms(1)], of ys] show ?thesis by simp
qed

lemma segment_append:
  assumes x: "segment p K i n T pc xs" and y: "segment p K i n T (pc + length xs) ys"
  shows "segment p K i n T pc (xs @ ys)"
proof -
  have "instr_fits p K i n T pc (xs @ ys) j" if j: "j < length xs + length ys" for j
  proof (cases "j < length xs")
    case True
    then have "j - 1 < length xs" by simp
    with True have "prior (xs @ ys) j = prior xs j" by (simp add: prior_def nth_append)
    with True x joint_left [of pc xs _ ys] show ?thesis
      by (auto simp: segment_def instr_fits_def nth_append split: if_splits)
  next
    case False
    let ?j = "j - length xs"
    have "prior (xs @ ys) j = prior ys ?j"
    proof (cases "j = length xs")
      case True
      then have "xs = [] \<or> (xs @ ys) ! (j - 1) = xs ! (length xs - 1)" by (cases "xs = []") (simp_all add: nth_append)
      with True segment_last [OF x] show ?thesis by (auto simp: prior_def)
    next
      case other: False
      with False have "j - 1 - length xs = ?j - 1" "\<not> j - 1 < length xs" "0 < ?j" "0 < j" by simp_all
      then show ?thesis by (simp add: prior_def nth_append)
    qed
    moreover have "instr_fits p K i n T (pc + length xs) ys ?j" using y j False by (simp add: segment_def)
    ultimately show ?thesis using False joint_right [OF x]
      by (auto simp: instr_fits_def nth_append split: if_splits)
  qed
  moreover have "opcode (last (xs @ ys)) \<noteq> Op_AllocArray" if "xs @ ys \<noteq> []"
    using x y that by (cases ys) (auto simp: segment_def)
  ultimately show ?thesis by (simp add: segment_def)
qed

lemma segment_Cons:
  "segment p K i n T pc [x] \<Longrightarrow> segment p K i n T (pc + 1) xs \<Longrightarrow> segment p K i n T pc (x # xs)"
  using segment_append [of p K i n T pc "[x]" xs] by simp

lemma segment_mono: "segment p K i n T pc is \<Longrightarrow> T \<subseteq> U \<Longrightarrow> segment p K i n U pc is"
  by (auto simp: segment_def instr_fits_def split: if_splits)

lemma segment_close:
  assumes "segment p K i n (insert t T) pc is" "joint pc is t"
  shows "segment p K i n T pc is"
  using assms by (auto simp: segment_def instr_fits_def split: if_splits)

lemma segment_single:
  assumes "\<not> jumps opc" "opc \<noteq> Op_AllocArray" "kind_ok p K i n None opc a b"
  shows "segment p K i n T pc [Instruction_new opc a b]"
  using assms by (simp add: segment_def instr_fits_def prior_def Instruction_new_def)

lemma segment_jump:
  assumes "jumps opc" "t \<in> T" "t < 2147483648"
  shows "segment p K i n T pc [Instruction_new opc (usize_as_i32 t) 0]"
proof -
  have "as_usize (usize_as_i32 t) = t" using assms(3) by (simp add: usize_as_i32_id as_usize_def)
  with assms show ?thesis by (auto simp: segment_def instr_fits_def prior_def Instruction_new_def jumps_def)
qed

lemma segment_alloc:
  assumes "0 \<le> a" "a < 2147483648" "0 \<le> s" "nat s < n" "ck_locals K i (nat s) = Some (nat a)"
  shows "segment p K i n T pc [Instruction_new Op_AllocArray a 0, Instruction_new Op_StoreLocal s 0]"
  using assms by (auto simp: segment_def instr_fits_def prior_def Instruction_new_def jumps_def less_Suc_eq)

section \<open>Names\<close>

text \<open>The arrays among the local slots of a function and among the globals.\<close>

definition local_kind :: "func \<Rightarrow> nat \<Rightarrow> nat option" where
  "local_kind f k = map_option lv_array_size (find (\<lambda>l. lv_slot l = k \<and> lv_is_array l)
     (List.map_filter (fst (frame_env f)) (map fst (decls_of_list (fn_body f)))))"

definition global_kind :: "program \<Rightarrow> nat \<Rightarrow> nat option" where
  "global_kind p = map_of (map (\<lambda>x. (gi_slot x, gi_array_size x)) (filter gi_is_array (map snd (global_table 0 (p_globals p)))))"

lemma local_kind_at:
  assumes l: "fst (frame_env f) n = Some l"
  shows "local_kind f (lv_slot l) = (if lv_is_array l then Some (lv_array_size l) else None)"
proof -
  let ?ls = "List.map_filter (fst (frame_env f)) (map fst (decls_of_list (fn_body f)))"
  have mem: "l' = l" if "l' \<in> set ?ls" "lv_slot l' = lv_slot l" for l'
  proof -
    from that(1) obtain n' where "fst (frame_env f) n' = Some l'" by (auto simp: List.map_filter_def)
    with frame_slot_inj [OF this l that(2)] l show ?thesis by simp
  qed
  show ?thesis
  proof (cases "lv_is_array l")
    case True
    obtain sz where sz: "var_sizes f n = Some sz" using l frame_env_None [of f n] by auto
    then have "sz \<noteq> None" using frame_env_var [OF sz] l True by auto
    with sz have "(n, sz) \<in> set (decls_of_list (fn_body f))"
      by (auto simp: var_sizes_def dest!: map_of_SomeD)
    with l have "l \<in> set ?ls" by (force simp: List.map_filter_def)
    with True mem obtain l' where "find (\<lambda>l'. lv_slot l' = lv_slot l \<and> lv_is_array l') ?ls = Some l'" "l' = l"
      by (cases "find (\<lambda>l'. lv_slot l' = lv_slot l \<and> lv_is_array l') ?ls")
        (auto simp: find_None_iff find_Some_iff dest: nth_mem)
    with True show ?thesis by (simp add: local_kind_def)
  next
    case False
    with mem have "find (\<lambda>l'. lv_slot l' = lv_slot l \<and> lv_is_array l') ?ls = None" by (auto simp: find_None_iff)
    with False show ?thesis by (simp add: local_kind_def)
  qed
qed


lemma declared_sizes:
  "stmt_ok G F st \<Longrightarrow> stmt_plain c st \<Longrightarrow> (n, sz) \<in> set (decls_of st) \<Longrightarrow> size_ok sz \<and> i32_option sz"
  "stmts_ok G F ss \<Longrightarrow> stmts_plain c ss \<Longrightarrow> (n, sz) \<in> set (decls_of_list ss) \<Longrightarrow> size_ok sz \<and> i32_option sz"
  by (induction st and ss arbitrary: G and G rule: decls_of_decls_of_list.induct) (fastforce split: option.splits)+

lemma size_bounds:
  assumes "size_ok (Some k)" "i32_option (Some k)"
  shows "0 < decl_size (Some k)" "decl_size (Some k) < 2147483648"
  using assms by (auto simp: size_ok_def i32_option_def decl_size_def as_usize_def is_i32_def)

lemma local_size:
  assumes p: "typed_source c p" and f: "f \<in> set (p_functions p)" and l: "fst (frame_env f) n = Some l" "lv_is_array l"
  shows "0 < lv_array_size l \<and> lv_array_size l < 2147483648"
proof -
  obtain sz where sz: "var_sizes f n = Some sz" using l frame_env_None [of f n] by auto
  then have l': "sz \<noteq> None" "lv_array_size l = decl_size sz" using frame_env_var [OF sz] l by auto
  then obtain k where k: "sz = Some k" by blast
  with sz have "(n, Some k) \<in> set (decls_of_list (fn_body f))" by (auto simp: var_sizes_def dest!: map_of_SomeD)
  with declared_sizes(2) [OF function_facts(1,2) [OF p f]] size_bounds [of k] l' k show ?thesis by simp
qed

lemma global_entry:
  assumes p: "typed_source c p" and x: "(n, x) \<in> set (global_table 0 (p_globals p))"
  shows "fst (program_env p) n = Some x" "gi_slot x + global_width x \<le> MAX_GLOBAL_SLOTS" "0 < global_width x"
proof -
  have d: "distinct (map gv_name (p_globals p))" and wf: "well_formed p" and plain: "program_plain c p"
    using p well_formed_names(1) by (simp_all add: typed_source_def)
  then show e: "fst (program_env p) n = Some x" using x by (simp add: program_env_def)
  obtain sz where sz: "global_sizes p n = Some sz" "gi_is_array x = (sz \<noteq> None)" "gi_array_size x = decl_size sz"
    by (rule program_global_sizes [OF e])
  from program_global [OF p sz(1)] e show "gi_slot x + global_width x \<le> MAX_GLOBAL_SLOTS" by auto
  from sz(1) obtain g where g: "g \<in> set (p_globals p)" "sz = gv_array_size g"
    by (auto simp: global_sizes_def dest!: map_of_SomeD)
  have "size_ok sz" using wf g by (auto simp: well_formed_def global_ok_def)
  moreover have "i32_option sz" using plain g by (auto simp: program_plain_def list_all_iff)
  ultimately show "0 < global_width x" using size_bounds sz(2,3) by (cases sz) (auto simp: global_width_def)
qed

lemma global_kind_Some:
  assumes "global_kind p s = Some m"
  obtains n x where "(n, x) \<in> set (global_table 0 (p_globals p))" "gi_is_array x" "gi_slot x = s" "gi_array_size x = m"
  using assms by (auto simp: global_kind_def dest!: map_of_SomeD)

lemma global_kind_at:
  assumes p: "typed_source c p" and x: "(n, x) \<in> set (global_table 0 (p_globals p))"
  shows "gi_is_array x \<Longrightarrow> global_kind p (gi_slot x) = Some (gi_array_size x)"
    "\<not> gi_is_array x \<Longrightarrow> global_kind p s = Some m \<Longrightarrow> gi_slot x < s \<or> s + m \<le> gi_slot x"
proof -
  note e = global_entry [OF p x]
  assume a: "gi_is_array x"
  then have "(gi_slot x, gi_array_size x) \<in> set (map (\<lambda>x. (gi_slot x, gi_array_size x)) (filter gi_is_array (map snd (global_table 0 (p_globals p)))))"
    using x by force
  then obtain m where m: "global_kind p (gi_slot x) = Some m"
    unfolding global_kind_def by (blast dest: weak_map_of_SomeI)
  obtain n' x' where x': "(n', x') \<in> set (global_table 0 (p_globals p))" "gi_slot x' = gi_slot x" "gi_array_size x' = m"
    by (rule global_kind_Some [OF m])
  note e' = global_entry [OF p x'(1)]
  have "n' = n" using program_globals_disjoint [OF e(1) e'(1)] e(3) e'(3) x'(2) by auto
  with e(1) e'(1) x'(3) m show "global_kind p (gi_slot x) = Some (gi_array_size x)" by simp
next
  note e = global_entry [OF p x]
  assume a: "\<not> gi_is_array x" and m: "global_kind p s = Some m"
  obtain n' x' where x': "(n', x') \<in> set (global_table 0 (p_globals p))" "gi_is_array x'" "gi_slot x' = s" "gi_array_size x' = m"
    by (rule global_kind_Some [OF m])
  note e' = global_entry [OF p x'(1)]
  have "n' \<noteq> n" using a x'(2) e(1) e'(1) by auto
  with program_globals_disjoint [OF e(1) e'(1)] a x' show "gi_slot x < s \<or> s + m \<le> gi_slot x"
    by (auto simp: global_width_def)
qed


section \<open>The kinds of a program\<close>

text \<open>The function whose code holds an instruction.\<close>

fun owner_of :: "global_var list \<Rightarrow> global_env \<Rightarrow> nat \<Rightarrow> nat \<Rightarrow> func list \<Rightarrow> nat \<Rightarrow> nat" where
  "owner_of gs g i start [] pc = i"
| "owner_of gs g i start (f # fs) pc =
     (let e = start + length (function_code gs g start f)
      in if pc < e then i else owner_of gs g (i + 1) e fs pc)"

definition program_kinds :: "program \<Rightarrow> code_kinds" where
  "program_kinds p =
     \<lparr>ck_owner = owner_of (p_globals p) (program_env p) 0 0 (p_functions p),
      ck_locals = (\<lambda>i k. if i < length (p_functions p) then local_kind (p_functions p ! i) k else None),
      ck_globals = global_kind p\<rparr>"

definition names_ok :: "program \<Rightarrow> sizes \<Rightarrow> env \<Rightarrow> func \<Rightarrow> (string \<Rightarrow> local_var option) \<Rightarrow> bool" where
  "names_ok p V G f L \<longleftrightarrow> env_fits p V G \<and> covers V G f L \<and> (V = Map.empty \<or> V = var_sizes f)"

text \<open>A function of a program, and the segments of its code.\<close>

definition function_at :: "bool \<Rightarrow> program \<Rightarrow> func \<Rightarrow> nat \<Rightarrow> bool" where
  "function_at c p f i \<longleftrightarrow> compilable c p \<and> i < length (p_functions p) \<and> p_functions p ! i = f"

abbreviation fits_at :: "program \<Rightarrow> func \<Rightarrow> nat \<Rightarrow> nat set \<Rightarrow> nat \<Rightarrow> instruction list \<Rightarrow> bool" where
  "fits_at p f i \<equiv> segment (direct_program p) (program_kinds p) i (snd (frame_env f))"

lemma function_at_facts:
  assumes "function_at c p f i"
  shows "typed_source c p" "f \<in> set (p_functions p)" "ck_locals (program_kinds p) i = local_kind f"
    "snd (frame_env f) \<le> MAX_LOCAL_SLOTS" "compilable c p"
  using assms function_facts(7) [of c p f]
  by (auto simp: function_at_def program_kinds_def fun_eq_iff frame_env_size compilable_typed)

lemma variable_kinds:
  assumes f: "function_at c p f i" and N: "names_ok p V G f L" and y: "G n = Some y" "\<not> sym_is_function y"
  obtains
    (local) l where "L n = Some l" "fst (frame_env f) n = Some l" "lv_is_array l = sym_is_array y"
  | (global) x where "L n = None" "fst (program_env p) n = Some x" "(n, x) \<in> set (global_table 0 (p_globals p))"
      "gi_is_array x = sym_is_array y"
proof -
  note p = function_at_facts [OF f]
  from N have fit: "env_fits p V G" and cov: "covers V G f L" and V: "V = Map.empty \<or> V = var_sizes f" by (simp_all add: names_ok_def)
  from fit y obtain sz where sz: "size_at p V n = Some sz" "sym_is_array y = (sz \<noteq> None)" by (force simp: env_fits_def)
  show ?thesis
  proof (cases "V n")
    case None
    with sz have "global_sizes p n = Some sz" by (simp add: size_at_def)
    from program_global [OF p(1) this] obtain x where x: "fst (program_env p) n = Some x" "gi_is_array x = (sz \<noteq> None)" .
    then have "(n, x) \<in> set (global_table 0 (p_globals p))" by (simp add: program_env_def map_of_SomeD)
    moreover have "L n = None" using cov y(1) None by (auto simp: covers_def)
    ultimately show ?thesis using global x sz(2) by simp
  next
    case (Some sz')
    with sz V have "sz' = sz" "var_sizes f n = Some sz" by (auto simp: size_at_def)
    moreover obtain l where "L n = Some l" "fst (frame_env f) n = Some l" using cov y(1) Some by (force simp: covers_def)
    ultimately show ?thesis using local frame_env_var [of f n sz] sz(2) by auto
  qed
qed

lemma slot_operand: "k < 2147483648 \<Longrightarrow> usize_as_i32 k = int k"
  by (rule usize_as_i32_id)

lemma local_operand:
  assumes f: "function_at c p f i" and l: "fst (frame_env f) n = Some l"
  shows "usize_as_i32 (lv_slot l) = int (lv_slot l)" "lv_slot l < snd (frame_env f)"
    "ck_locals (program_kinds p) i (lv_slot l) = (if lv_is_array l then Some (lv_array_size l) else None)"
    "lv_is_array l \<Longrightarrow> usize_as_i32 (lv_array_size l) = int (lv_array_size l)"
    "lv_is_array l \<Longrightarrow> int (lv_array_size l) < 2147483648"
proof -
  note p = function_at_facts [OF f]
  show less: "lv_slot l < snd (frame_env f)" by (rule frame_slot_less [OF l])
  with p(4) show "usize_as_i32 (lv_slot l) = int (lv_slot l)" by (simp add: usize_as_i32_id limit_defs)
  show "ck_locals (program_kinds p) i (lv_slot l) = (if lv_is_array l then Some (lv_array_size l) else None)"
    using local_kind_at [OF l] p(3) by simp
  show "usize_as_i32 (lv_array_size l) = int (lv_array_size l)" "int (lv_array_size l) < 2147483648" if "lv_is_array l"
    using local_size [OF p(1,2) l that] by (simp_all add: usize_as_i32_id)
qed

lemma global_operand:
  assumes p: "typed_source c p" and x: "(n, x) \<in> set (global_table 0 (p_globals p))"
  shows "usize_as_i32 (gi_slot x) = int (gi_slot x)" "gi_slot x < MAX_GLOBAL_SLOTS"
    "gi_is_array x \<Longrightarrow> usize_as_i32 (gi_array_size x) = int (gi_array_size x)"
    "gi_is_array x \<Longrightarrow> ck_globals (program_kinds p) (gi_slot x) = Some (gi_array_size x)"
    "\<not> gi_is_array x \<Longrightarrow> scalar_global (program_kinds p) (gi_slot x)"
proof -
  note e = global_entry [OF p x]
  show less: "gi_slot x < MAX_GLOBAL_SLOTS" using e by simp
  then show "usize_as_i32 (gi_slot x) = int (gi_slot x)" by (simp add: usize_as_i32_id limit_defs)
  show "gi_is_array x \<Longrightarrow> usize_as_i32 (gi_array_size x) = int (gi_array_size x)"
    using e(2) by (simp add: usize_as_i32_id limit_defs global_width_def)
  show "gi_is_array x \<Longrightarrow> ck_globals (program_kinds p) (gi_slot x) = Some (gi_array_size x)"
    using global_kind_at(1) [OF p x] by (simp add: program_kinds_def)
  show "\<not> gi_is_array x \<Longrightarrow> scalar_global (program_kinds p) (gi_slot x)"
    using global_kind_at(2) [OF p x] by (simp add: program_kinds_def scalar_global_def)
qed

lemma load_fits:
  assumes f: "function_at c p f i" and N: "names_ok p V G f L" and y: "G n = Some y" "\<not> sym_is_function y" "\<not> sym_is_array y"
  shows "fits_at p f i T pc (load_code L (program_env p) n)"
proof (rule variable_kinds [OF f N y(1,2)])
  fix l
  assume l: "L n = Some l" "fst (frame_env f) n = Some l" "lv_is_array l = sym_is_array y"
  from local_operand [OF f l(2)] l y(3) show ?thesis
    by (auto simp: load_code_def jumps_def intro!: segment_single)
next
  fix x
  assume x: "L n = None" "fst (program_env p) n = Some x" "(n, x) \<in> set (global_table 0 (p_globals p))" "gi_is_array x = sym_is_array y"
  from global_operand [OF function_at_facts(1) [OF f] x(3)] x y(3) show ?thesis
    by (auto simp: load_code_def jumps_def intro!: segment_single)
qed

lemma array_load_fits:
  assumes f: "function_at c p f i" and N: "names_ok p V G f L" and y: "G n = Some y" "\<not> sym_is_function y" "sym_is_array y"
  shows "fits_at p f i T pc (array_load_code L (program_env p) n)"
proof (rule variable_kinds [OF f N y(1,2)])
  fix l
  assume l: "L n = Some l" "fst (frame_env f) n = Some l" "lv_is_array l = sym_is_array y"
  from local_operand [OF f l(2)] l y(3) show ?thesis
    by (auto simp: array_load_code_def jumps_def intro!: segment_single)
next
  fix x
  assume x: "L n = None" "fst (program_env p) n = Some x" "(n, x) \<in> set (global_table 0 (p_globals p))" "gi_is_array x = sym_is_array y"
  from global_operand [OF function_at_facts(1) [OF f] x(3)] x y(3) show ?thesis
    by (auto simp: array_load_code_def jumps_def intro!: segment_single)
qed

lemma store_fits:
  assumes f: "function_at c p f i" and N: "names_ok p V G f L"
    and y: "G n = Some y" "\<not> sym_is_function y" "sym_is_array y = b" and st: "store_instr L (program_env p) n b = Some j"
  shows "fits_at p f i T pc [j]"
proof (rule variable_kinds [OF f N y(1,2)])
  fix l
  assume l: "L n = Some l" "fst (frame_env f) n = Some l" "lv_is_array l = sym_is_array y"
  from local_operand [OF f l(2)] l y(3) st show ?thesis
    by (auto simp: store_instr_def store_local_def jumps_def intro!: segment_single)
next
  fix x
  assume x: "L n = None" "fst (program_env p) n = Some x" "(n, x) \<in> set (global_table 0 (p_globals p))" "gi_is_array x = sym_is_array y"
  from global_operand [OF function_at_facts(1) [OF f] x(3)] x y(3) st show ?thesis
    by (auto simp: store_instr_def jumps_def intro!: segment_single)
qed

end
