(* ===== verification/Code_Kinds_Exprs.thy ===== *)
theory Code_Kinds_Exprs
  imports Code_Kinds
begin

text \<open>
  The code of expressions keeps integers and array references apart: the stack grows by one value of
  the kind of the expression's type, and every operand an instruction takes has the kind it needs.
\<close>

section \<open>Calls\<close>

lemma call_fits:
  assumes f: "function_at c p f i" and y: "function_env p name = Some y" and args: "length args = length (sym_param_types y)"
  shows "fits_at p f i T pc [Instruction_new Op_Call (usize_as_i32 (the (snd (program_env p) name))) (usize_as_i32 (length args))]"
proof -
  note p = function_at_facts [OF f]
  obtain g where g: "g \<in> set (p_functions p)" "fn_name g = name" "sym_param_types y = map par_type (fn_params g)"
    by (rule function_env_Some [OF p(1) y])
  obtain k entry where k: "snd (program_env p) (fn_name g) = Some k" "k < length (instructions (direct_program p))"
    "fun_lookup (direct_program p) k = Some (info_of k entry g)" by (rule program_function [OF p(1) g(1)])
  have "length (fn_params g) \<le> MAX_LOCAL_SLOTS" using function_facts(7) [OF p(1) g(1)] by (simp add: frame_slots_def)
  then have small: "length args < 2147483648" using args g(3) by (simp add: limit_defs)
  have "k < 2147483648" using k(2) p(5) by (simp add: compilable_def limit_defs)
  then show ?thesis
    using k g args small by (intro segment_single) (simp_all add: jumps_def usize_as_i32_id info_of_def)
qed

lemma binary_plain: "op \<noteq> Bin_And \<Longrightarrow> op \<noteq> Bin_Or \<Longrightarrow>
    \<not> jumps (binary_opcode op) \<and> binary_opcode op \<noteq> Op_AllocArray \<and> kind_ok p K i n None (binary_opcode op) a b"
  by (cases op) (simp_all add: jumps_def binary_opcode_def)

lemma unary_plain: "\<not> jumps (unary_opcode op) \<and> unary_opcode op \<noteq> Op_AllocArray \<and> kind_ok p K i n None (unary_opcode op) a b"
  by (cases op) (simp_all add: jumps_def unary_opcode_def)

lemma value_fits [simp]: "fits_at p f i T pc [Instruction_new Op_LoadConst v 0]" "fits_at p f i T pc [Instruction_new Op_Ne 0 0]"
  by (rule segment_single; simp add: jumps_def)+

lemma short_circuit_fits:
  assumes l: "\<And>T. fits_at p f i T pc cl" and r: "\<And>T. fits_at p f i T (pc + length cl + 1) cr"
    and short: "short = pc + length cl + 1 + length cr + 3" "short + 1 < 2147483648" and opc: "opc \<in> {Op_JumpIfFalse, Op_JumpIfTrue}"
  shows "fits_at p f i T pc (cl @ Instruction_new opc (usize_as_i32 short) 0 #
           cr @ [Instruction_new Op_LoadConst 0 0, Instruction_new Op_Ne 0 0,
                 Instruction_new Op_Jump (usize_as_i32 (short + 1)) 0, Instruction_new Op_LoadConst v 0])"
proof -
  let ?T = "insert short (insert (short + 1) T)"
  let ?tail = "[Instruction_new Op_LoadConst 0 0, Instruction_new Op_Ne 0 0, Instruction_new Op_Jump (usize_as_i32 (short + 1)) 0]"
  let ?xs = "cl @ Instruction_new opc (usize_as_i32 short) 0 # cr @ ?tail"
  have tail: "fits_at p f i ?T q ?tail" for q
    using short(2) by (intro segment_Cons [OF value_fits(1)] segment_Cons [OF value_fits(2)] segment_jump) (simp_all add: jumps_def)
  have jump: "fits_at p f i ?T (pc + length cl) [Instruction_new opc (usize_as_i32 short) 0]"
    using short opc by (intro segment_jump) (auto simp: jumps_def)
  have x: "fits_at p f i ?T pc ?xs"
    by (intro segment_append [OF l] segment_Cons [OF jump] segment_append [OF r] tail)
  have whole: "fits_at p f i ?T pc (?xs @ [Instruction_new Op_LoadConst v 0])"
    by (rule segment_append [OF x value_fits(1)])
  have "pc + length ?xs = short" "pc + length (?xs @ [Instruction_new Op_LoadConst v 0]) = short + 1"
    using short(1) by simp_all
  with joint_left [OF joint_end [OF x]] joint_end [OF whole]
  have stop: "joint pc (?xs @ [Instruction_new Op_LoadConst v 0]) short"
    and after: "joint pc (?xs @ [Instruction_new Op_LoadConst v 0]) (short + 1)" by metis+
  show ?thesis using segment_close [OF segment_close [OF whole stop] after] by simp
qed

lemma args_fit:
  "args_ok G F (a # as) ts \<Longrightarrow> \<exists>t ts'. type_of G F a = Some t \<and> args_ok G F as ts'"
  by (cases ts) (auto split: option.splits)

lemma expr_fits:
  assumes f: "function_at c p f i" and N: "names_ok p V G f L"
  shows "type_of G (function_env p) e = Some t \<Longrightarrow> pc + length (expr_code L (program_env p) pc e) \<le> MAX_INSTRUCTIONS \<Longrightarrow>
      fits_at p f i T pc (expr_code L (program_env p) pc e)"
    and "args_ok G (function_env p) es ts \<Longrightarrow> pc + length (args_code L (program_env p) pc es) \<le> MAX_INSTRUCTIONS \<Longrightarrow>
      fits_at p f i T pc (args_code L (program_env p) pc es)"
  using N
proof (induction L "program_env p" pc e and L "program_env p" pc es arbitrary: t T and ts T rule: expr_code_args_code.induct)
  case (3 L pc n sp)
  then obtain y where "G n = Some y" "\<not> sym_is_function y" "\<not> sym_is_array y" by (auto split: option.splits if_splits)
  from load_fits [OF f "3.prems"(3) this] show ?case by simp
next
  case (4 L pc op l r sp)
  let ?g = "program_env p"
  let ?cl = "expr_code L ?g pc l"
  obtain tl tr where ty: "type_of G (function_env p) l = Some tl" "type_of G (function_env p) r = Some tr"
    using "4.prems"(1) by (rule type_of_binaryE)
  show ?case
  proof (cases "op = Bin_And \<or> op = Bin_Or")
    case True
    let ?cr = "expr_code L ?g (pc + length ?cl + 1) r"
    have bound: "pc + length ?cl + 1 + length ?cr + 4 \<le> MAX_INSTRUCTIONS" using "4.prems"(2) True by (simp add: Let_def)
    have "fits_at p f i T pc ?cl" for T using "4.hyps"(1) [OF ty(1) _ "4.prems"(3)] bound by simp
    moreover have "fits_at p f i T (pc + length ?cl + 1) ?cr" for T
      using "4.hyps"(2) [OF refl True ty(2) _ "4.prems"(3)] bound by simp
    ultimately show ?thesis
      using short_circuit_fits [of p i f pc ?cl ?cr _ "if op = Bin_And then Op_JumpIfFalse else Op_JumpIfTrue" T] True bound
      by (simp add: Let_def limit_defs)
  next
    case False
    let ?cr = "expr_code L ?g (pc + length ?cl) r"
    have bound: "pc + length ?cl + length ?cr \<le> MAX_INSTRUCTIONS" using "4.prems"(2) False by (simp add: Let_def)
    have "fits_at p f i T pc ?cl" using "4.hyps"(1) [OF ty(1) _ "4.prems"(3)] bound by simp
    moreover have "fits_at p f i T (pc + length ?cl) ?cr" using "4.hyps"(3) [OF refl False ty(2) _ "4.prems"(3)] bound by simp
    moreover have "fits_at p f i T q [Instruction_new (binary_opcode op) 0 0]" for q
      using binary_plain [of op] False by (auto intro: segment_single)
    ultimately show ?thesis using False by (auto simp: Let_def intro!: segment_append)
  qed
next
  case (5 L pc op e sp)
  then obtain t' where "type_of G (function_env p) e = Some t'" by (auto split: option.splits)
  moreover have "fits_at p f i T q [Instruction_new (unary_opcode op) 0 0]" for q using unary_plain [of op] by (auto intro: segment_single)
  ultimately show ?case using 5 by (auto intro!: segment_append)
next
  case (6 L pc name args sp)
  then obtain y where y: "function_env p name = Some y" "args_ok G (function_env p) args (sym_param_types y)"
    by (auto split: option.splits if_splits)
  from call_fits [OF f y(1) args_ok_length [OF y(2)]] "6.hyps" [OF y(2)] "6.prems" show ?case
    by (auto intro!: segment_append)
next
  case (7 L pc name index sp)
  then obtain y t' where y: "G name = Some y" "sym_is_array y" and t': "type_of G (function_env p) index = Some t'"
    by (auto split: option.splits if_splits)
  have "\<not> sym_is_function y" using "7.prems"(3) y by (auto simp: names_ok_def env_fits_def)
  from array_load_fits [OF f "7.prems"(3) y(1) this y(2)] "7.hyps" [OF t'] "7.prems" show ?case
    by (auto intro!: segment_append)
next
  case (9 L pc a as)
  let ?ca = "expr_code L (program_env p) pc a"
  obtain t' ts' where t': "type_of G (function_env p) a = Some t'" "args_ok G (function_env p) as ts'"
    using args_fit [OF "9.prems"(1)] by blast
  have bound: "pc + length ?ca + length (args_code L (program_env p) (pc + length ?ca) as) \<le> MAX_INSTRUCTIONS"
    using "9.prems"(2) by (simp add: Let_def)
  have "fits_at p f i T pc ?ca" using "9.hyps"(1) [OF t'(1) _ "9.prems"(3)] bound by simp
  moreover have "fits_at p f i T (pc + length ?ca) (args_code L (program_env p) (pc + length ?ca) as)"
    using "9.hyps"(2) [OF refl t'(2) _ "9.prems"(3)] bound by simp
  ultimately show ?case by (simp add: Let_def segment_append)
qed simp_all

end
