(* ===== verification/Code_Kinds_Stmts.thy ===== *)
theory Code_Kinds_Stmts
  imports Code_Kinds_Exprs
begin

text \<open>
  Statements, functions and whole programs keep kinds of values apart.
\<close>

section \<open>Statements\<close>

lemma plain_fits [simp]:
  "fits_at p f i T pc [Instruction_new Op_Return 0 0]" "fits_at p f i T pc [Instruction_new Op_Print 0 0]"
  "fits_at p f i T pc [Instruction_new Op_Pop 0 0]"
  by (rule segment_single; simp add: jumps_def)+

lemma names_stmt:
  assumes "names_ok p (var_sizes f) G f (fst E)" "env_le (bind_locals st E) (frame_env f)" "decls_fit (var_sizes f) (decls_of st)"
  shows "names_ok p (var_sizes f) (bind_stmt st G) f (fst (bind_locals st E))"
proof -
  have "env_fits p (var_sizes f) (bind_stmt st G)"
    using assms(1,3) by (cases st) (auto simp: names_ok_def decls_fit_def intro: env_fits_bind)
  with assms(1,2) covers_stmt show ?thesis by (simp add: names_ok_def)
qed

lemma decl_fits:
  assumes f: "function_at c p f i" and N: "names_ok p (var_sizes f) G f (fst E)" and ok: "stmt_ok G (function_env p) (S_VarDecl t n init sz sp)"
    and V: "var_sizes f n = Some sz" and E: "env_le (bind_local n sz E) (frame_env f)"
    and pc: "pc + length (decl_code E (program_env p) pc n init sz) \<le> MAX_INSTRUCTIONS"
  shows "fits_at p f i T pc (decl_code E (program_env p) pc n init sz)"
proof -
  obtain l where l: "fst (bind_local n sz E) n = Some l" "fst (frame_env f) n = Some l" "lv_is_array l = (sz \<noteq> None)"
    by (rule declared_slot [OF E V])
  note k = local_operand [OF f l(2)]
  show ?thesis
  proof (cases "lv_is_array l")
    case True
    with l k show ?thesis by (auto simp: decl_code_def Let_def store_local_def intro!: segment_alloc)
  next
    case False
    then have store: "fits_at p f i T q [store_local l]" for q
      using k by (auto simp: store_local_def jumps_def intro!: segment_single)
    show ?thesis
    proof (cases init)
      case None
      with False l show ?thesis by (simp add: decl_code_def Let_def)
    next
      case (Some e)
      with ok obtain t' where t': "type_of (G(n \<mapsto> declared n t False sz)) (function_env p) e = Some t'"
        by (auto simp: value_ok_def has_type_def split: option.splits)
      have "names_ok p (var_sizes f) (G(n \<mapsto> declared n t False sz)) f (fst (bind_local n sz E))"
        using names_stmt [OF N, of "S_VarDecl t n init sz sp"] E V by simp
      from expr_fits(1) [OF f this t'] pc Some False l store show ?thesis
        by (auto simp: decl_code_def Let_def intro!: segment_append)
    qed
  qed
qed

lemma assign_fits:
  assumes f: "function_at c p f i" and N: "names_ok p V G f L" and ok: "assign_ok G (function_env p) target idx v"
    and pc: "pc + length (assign_code L (program_env p) pc target idx v) \<le> MAX_INSTRUCTIONS"
  shows "fits_at p f i T pc (assign_code L (program_env p) pc target idx v)"
proof (cases "store_instr L (program_env p) target (idx \<noteq> None)")
  case None
  then show ?thesis by (simp add: assign_code_def)
next
  case (Some st)
  let ?ci = "case idx of None \<Rightarrow> [] | Some i \<Rightarrow> expr_code L (program_env p) pc i"
  from ok obtain y tv where y: "G target = Some y" "\<not> sym_is_function y" "sym_is_array y = (idx \<noteq> None)"
    and tv: "type_of G (function_env p) v = Some tv"
    by (auto simp: assign_ok_def has_type_def split: option.splits)
  have code: "assign_code L (program_env p) pc target idx v = ?ci @ expr_code L (program_env p) (pc + length ?ci) v @ [st]"
    unfolding assign_code_def Some Let_def by simp
  have "fits_at p f i T pc ?ci"
  proof (cases idx)
    case (Some e)
    with ok obtain te where "type_of G (function_env p) e = Some te" by (auto simp: assign_ok_def has_type_def split: option.splits)
    from expr_fits(1) [OF f N this] pc Some code show ?thesis by simp
  qed simp
  moreover have "fits_at p f i T (pc + length ?ci) (expr_code L (program_env p) (pc + length ?ci) v)"
    using expr_fits(1) [OF f N tv] pc code by simp
  moreover have "fits_at p f i T q [st]" for q by (rule store_fits [OF f N y Some])
  ultimately show ?thesis unfolding code by (intro segment_append)
qed

text \<open>Branches and loops.\<close>

lemma branch_jump:
  "t \<in> T \<Longrightarrow> t \<le> MAX_INSTRUCTIONS \<Longrightarrow> jumps opc \<Longrightarrow> fits_at p f i T pc [Instruction_new opc (usize_as_i32 t) 0]"
  by (rule segment_jump) (simp_all add: limit_defs)

lemma if_fits:
  assumes "\<And>T. fits_at p f i T pc cc" "\<And>T. fits_at p f i T (pc + length cc + 1) ct"
    "t = pc + length cc + 1 + length ct" "t \<le> MAX_INSTRUCTIONS"
  shows "fits_at p f i T pc (cc @ Instruction_new Op_JumpIfFalse (usize_as_i32 t) 0 # ct)"
proof -
  have whole: "fits_at p f i (insert t T) pc (cc @ Instruction_new Op_JumpIfFalse (usize_as_i32 t) 0 # ct)"
    by (intro segment_append [OF assms(1)] segment_Cons [OF branch_jump assms(2)]) (use assms(4) in \<open>simp_all add: jumps_def\<close>)
  have "pc + length (cc @ Instruction_new Op_JumpIfFalse (usize_as_i32 t) 0 # ct) = t" using assms(3) by simp
  with joint_end [OF whole] have "joint pc (cc @ Instruction_new Op_JumpIfFalse (usize_as_i32 t) 0 # ct) t" by metis
  from segment_close [OF whole this] show ?thesis .
qed

lemma if_else_fits:
  assumes "\<And>T. fits_at p f i T pc cc" "\<And>T. fits_at p f i T (pc + length cc + 1) ct" "\<And>T. fits_at p f i T t ce"
    and t: "t = pc + length cc + 1 + length ct + 1" "u = t + length ce" "u \<le> MAX_INSTRUCTIONS"
  shows "fits_at p f i T pc (cc @ Instruction_new Op_JumpIfFalse (usize_as_i32 t) 0 # ct @ Instruction_new Op_Jump (usize_as_i32 u) 0 # ce)"
proof -
  let ?T = "insert t (insert u T)"
  let ?xs = "cc @ Instruction_new Op_JumpIfFalse (usize_as_i32 t) 0 # ct @ [Instruction_new Op_Jump (usize_as_i32 u) 0]"
  have x: "fits_at p f i ?T pc ?xs"
    by (intro segment_append [OF assms(1)] segment_Cons [OF branch_jump] segment_append [OF assms(2)] branch_jump)
      (use t in \<open>simp_all add: jumps_def\<close>)
  have len: "pc + length ?xs = t" "pc + length (?xs @ ce) = u" using t by simp_all
  have whole: "fits_at p f i ?T pc (?xs @ ce)" by (rule segment_append [OF x]) (simp only: len assms(3))
  have "joint pc (?xs @ ce) t" "joint pc (?xs @ ce) u" using joint_left [OF joint_end [OF x]] joint_end [OF whole] len by metis+
  from segment_close [OF segment_close [OF whole this(1)] this(2)] show ?thesis by simp
qed

lemma while_fits:
  assumes "\<And>T. fits_at p f i T pc cc" "\<And>T. fits_at p f i T (pc + length cc + 1) cb"
    and t: "t = pc + length cc + 1 + length cb + 1" "t \<le> MAX_INSTRUCTIONS"
  shows "fits_at p f i T pc (cc @ Instruction_new Op_JumpIfFalse (usize_as_i32 t) 0 # cb @ [Instruction_new Op_Jump (usize_as_i32 pc) 0])"
proof -
  let ?T = "insert pc (insert t T)"
  let ?xs = "cc @ Instruction_new Op_JumpIfFalse (usize_as_i32 t) 0 # cb @ [Instruction_new Op_Jump (usize_as_i32 pc) 0]"
  have x: "fits_at p f i ?T pc ?xs"
    by (intro segment_append [OF assms(1)] segment_Cons [OF branch_jump] segment_append [OF assms(2)] branch_jump)
      (use t in \<open>simp_all add: jumps_def\<close>)
  have "pc + length ?xs = t" using t by simp
  with joint_end [OF x] have "joint pc ?xs t" by metis
  from segment_close [OF segment_close [OF x joint_start] this] show ?thesis .
qed

lemma stmt_fits:
  assumes f: "function_at c p f i"
  shows "names_ok p (var_sizes f) G f (fst E) \<Longrightarrow> stmt_ok G (function_env p) st \<Longrightarrow> decls_fit (var_sizes f) (decls_of st) \<Longrightarrow>
      env_le (bind_locals st E) (frame_env f) \<Longrightarrow> pc + length (stmt_code E (program_env p) pc st) \<le> MAX_INSTRUCTIONS \<Longrightarrow>
      fits_at p f i T pc (stmt_code E (program_env p) pc st)"
    and "names_ok p (var_sizes f) G f (fst E) \<Longrightarrow> stmts_ok G (function_env p) ss \<Longrightarrow> decls_fit (var_sizes f) (decls_of_list ss) \<Longrightarrow>
      env_le (bind_locals_list ss E) (frame_env f) \<Longrightarrow> pc + length (stmts_code E (program_env p) pc ss) \<le> MAX_INSTRUCTIONS \<Longrightarrow>
      fits_at p f i T pc (stmts_code E (program_env p) pc ss)"
proof (induction E "program_env p" pc st and E "program_env p" pc ss arbitrary: G T and G T rule: stmt_code_stmts_code.induct)
  case (1 E pc t n init sz sp)
  then show ?case using decl_fits [OF f, of G E t n init sz sp pc T] by simp
next
  case (2 E pc target idx v sp)
  then show ?case using assign_fits [OF f, of "var_sizes f" G "fst E" target idx v pc T] by simp
next
  case (5 E pc v sp)
  then obtain t where "type_of G (function_env p) v = Some t" by (auto simp: has_type_def split: option.splits)
  from expr_fits(1) [OF f 5(1) this, of pc T] 5(5) show ?case by (auto intro: segment_append)
next
  case (6 E pc v sp)
  then obtain t where "type_of G (function_env p) v = Some t" by auto
  from expr_fits(1) [OF f 6(1) this, of pc T] 6(5) show ?case by (auto intro: segment_append)
next
  case (7 E pc v sp)
  then obtain t where "type_of G (function_env p) v = Some t" by auto
  from expr_fits(1) [OF f 7(1) this, of pc T] 7(5) show ?case by (auto intro: segment_append)
next
  case (3 E pc cond th el sp)
  let ?g = "program_env p"
  let ?cc = "expr_code (fst E) ?g pc cond"
  let ?ct = "stmts_code E ?g (pc + length ?cc + 1) th"
  obtain t where t: "type_of G (function_env p) cond = Some t" using "3.prems"(2) by (auto simp: condition_ok_def split: option.splits)
  have th: "stmts_ok G (function_env p) th" "decls_fit (var_sizes f) (decls_of_list th)" using "3.prems"(2,3) by simp_all
  have E: "env_le (bind_locals_list th E) (frame_env f)"
    using "3.prems"(4) env_le_trans [OF bind_locals_le(2)] by (auto simp: Let_def split: option.splits)
  have bound: "pc + length ?cc + 1 + length ?ct \<le> MAX_INSTRUCTIONS"
    using "3.prems"(5) by (auto simp: Let_def split: option.splits)
  have cc: "fits_at p f i T pc ?cc" for T using expr_fits(1) [OF f "3.prems"(1) t] bound by simp
  have ct: "fits_at p f i T (pc + length ?cc + 1) ?ct" for T
    using "3.hyps"(1) [OF refl "3.prems"(1) th E] bound by simp
  show ?case
  proof (cases el)
    case None
    with if_fits [OF cc ct refl] bound show ?thesis by (simp add: Let_def)
  next
    case (Some ss)
    let ?E = "bind_locals_list th E"
    let ?ce = "stmts_code ?E ?g (pc + length ?cc + 1 + length ?ct + 1) ss"
    have ss: "stmts_ok G (function_env p) ss" "decls_fit (var_sizes f) (decls_of_list ss)" "env_le (bind_locals_list ss ?E) (frame_env f)"
      using "3.prems"(2-4) Some by (simp_all add: Let_def)
    have names: "names_ok p (var_sizes f) G f (fst ?E)"
      using "3.prems"(1) covers_grow [of f G E ?E G] bind_locals_le(2) E by (simp add: names_ok_def)
    have bound': "pc + length ?cc + 1 + length ?ct + 1 + length ?ce \<le> MAX_INSTRUCTIONS"
      using "3.prems"(5) Some by (simp add: Let_def)
    have ce: "fits_at p f i T (pc + length ?cc + 1 + length ?ct + 1) ?ce" for T
      using "3.hyps"(2) [OF refl refl refl Some names ss] bound' by simp
    from if_else_fits [OF cc ct ce refl refl bound'] Some show ?thesis by (simp add: Let_def)
  qed
next
  case (4 E pc cond body sp)
  let ?g = "program_env p"
  let ?cc = "expr_code (fst E) ?g pc cond"
  let ?cb = "stmts_code E ?g (pc + length ?cc + 1) body"
  obtain t where t: "type_of G (function_env p) cond = Some t" using "4.prems"(2) by (auto simp: condition_ok_def split: option.splits)
  have bound: "pc + length ?cc + 1 + length ?cb + 1 \<le> MAX_INSTRUCTIONS" using "4.prems"(5) by (simp add: Let_def)
  have cc: "fits_at p f i T pc ?cc" for T using expr_fits(1) [OF f "4.prems"(1) t] bound by simp
  have cb: "fits_at p f i T (pc + length ?cc + 1) ?cb" for T
    using "4.hyps" [OF refl "4.prems"(1)] "4.prems"(2-4) bound by simp
  from while_fits [OF cc cb refl bound] show ?case by (simp add: Let_def)
next
  case (9 E pc s ss)
  let ?cs = "stmt_code E (program_env p) pc s"
  let ?E = "bind_locals s E"
  have E: "env_le ?E (frame_env f)" using "9.prems"(4) env_le_trans [OF bind_locals_le(2)] by simp
  have d: "decls_fit (var_sizes f) (decls_of s)" "decls_fit (var_sizes f) (decls_of_list ss)" using "9.prems"(3) by simp_all
  have ok: "stmt_ok G (function_env p) s" "stmts_ok (bind_stmt s G) (function_env p) ss" using "9.prems"(2) by simp_all
  have bound: "pc + length ?cs + length (stmts_code ?E (program_env p) (pc + length ?cs) ss) \<le> MAX_INSTRUCTIONS"
    using "9.prems"(5) by (simp add: Let_def)
  have "fits_at p f i T pc ?cs" using "9.hyps"(1) [OF "9.prems"(1) ok(1) d(1) E] bound by simp
  moreover have "fits_at p f i T (pc + length ?cs) (stmts_code ?E (program_env p) (pc + length ?cs) ss)"
    using "9.hyps"(2) [OF refl names_stmt [OF "9.prems"(1) E d(1)] ok(2) d(2)] "9.prems"(4) bound by simp
  ultimately show ?case by (simp add: Let_def segment_append)
qed simp

end
