(* ===== verification/Code_Kinds_Programs.thy ===== *)
theory Code_Kinds_Programs
  imports Code_Kinds_Stmts
begin

text \<open>
  The code of every function of a compiled program, and so the program, keeps kinds of values apart.
\<close>

section \<open>Functions\<close>

lemma covers_body:
  assumes "typed_source c p" "f \<in> set (p_functions p)"
  shows "covers (var_sizes f) (body_env p f) f (fst (param_env f))"
proof (rule covers_frame; intro allI impI)
  fix n l assume "fst (param_env f) n = Some l"
  then show "fst (frame_env f) n = Some l"
    using bind_locals_le(2) [of "param_env f" "fn_body f"] by (simp add: env_le_def frame_env_def)
next
  fix n assume "body_env p f n \<noteq> None" "var_sizes f n \<noteq> None"
  then have "n \<in> par_name ` set (fn_params f)"
    using function_facts(4) [OF assms, of n] fold_bind_param(1) [of "fn_params f" "top_env p" n]
    by (auto simp: body_env_def split: if_splits)
  then show "fst (param_env f) n \<noteq> None" unfolding param_env_dom [symmetric] by auto
qed

lemma main_params:
  assumes p: "typed_source c p" and f: "f \<in> set (p_functions p)" "fn_name f = ''main''"
  shows "fn_params f = []"
proof -
  from p obtain g where g: "g \<in> set (p_functions p)" "fn_name g = ''main''" "fn_params g = []"
    by (auto simp: typed_source_def well_formed_def has_main_def)
  have "inj_on fn_name (set (p_functions p))"
    using p well_formed_names(2) by (simp add: typed_source_def distinct_map)
  then have "f = g" by (rule inj_onD) (use f g in simp_all)
  with g show ?thesis by simp
qed

text \<open>A function without its last two instructions.\<close>

definition body_code :: "program \<Rightarrow> nat \<Rightarrow> func \<Rightarrow> instruction list" where
  "body_code p pc f =
     (let cp = prologue_code (p_globals p) (program_env p) pc f
      in cp @ stmts_code (param_env f) (program_env p) (pc + length cp) (fn_body f))"

lemma function_code_body:
  "function_code (p_globals p) (program_env p) pc f =
     body_code p pc f @ [Instruction_new Op_LoadConst 0 0, Instruction_new Op_Return 0 0]"
  by (simp add: function_code_def body_code_def Let_def)

lemma inits_fit:
  assumes f: "function_at c p f i" and N: "names_ok p Map.empty (top_env p) f L" and gs: "set gs \<subseteq> set (p_globals p)"
    and pc: "pc + length (init_code L (program_env p) pc gs) \<le> MAX_INSTRUCTIONS"
  shows "fits_at p f i T pc (init_code L (program_env p) pc gs)"
  using gs pc
proof (induction gs arbitrary: pc)
  case (Cons x gs)
  note p = function_at_facts [OF f]
  show ?case
  proof (cases "gv_init x")
    case None
    with Cons show ?thesis by simp
  next
    case (Some e)
    let ?ce = "expr_code L (program_env p) pc e"
    have x: "x \<in> set (p_globals p)" using Cons.prems(1) by simp
    then have "global_ok p x" "gv_array_size x = None"
      using p(1) Some by (auto simp: typed_source_def well_formed_def program_plain_def list_all_iff)
    then obtain t where t: "type_of (top_env p) (function_env p) e = Some t"
      using Some by (auto simp: global_ok_def value_ok_def has_type_def split: option.splits)
    have "distinct (map gv_name (p_globals p))" using p(1) well_formed_names(1) by (simp add: typed_source_def)
    with x have "global_sizes p (gv_name x) = Some None"
      using \<open>gv_array_size x = None\<close> by (force simp: global_sizes_def comp_def intro!: map_of_is_SomeI)
    from program_global [OF p(1) this] obtain g where g: "fst (program_env p) (gv_name x) = Some g" "\<not> gi_is_array g" by auto
    then have "(gv_name x, g) \<in> set (global_table 0 (p_globals p))" by (simp add: program_env_def map_of_SomeD)
    from global_operand [OF p(1) this] g
    have store: "fits_at p f i T q [Instruction_new Op_StoreGlobal (usize_as_i32 (gi_slot (the (fst (program_env p) (gv_name x))))) 0]" for q
      by (auto simp: jumps_def intro!: segment_single)
    have bound: "pc + length ?ce \<le> MAX_INSTRUCTIONS" using Cons.prems(2) Some by (simp add: Let_def)
    have "fits_at p f i T pc ?ce" by (rule expr_fits(1) [OF f N t bound])
    from segment_append [OF this store]
    have "fits_at p f i T pc (?ce @ [Instruction_new Op_StoreGlobal (usize_as_i32 (gi_slot (the (fst (program_env p) (gv_name x))))) 0])"
      (is "fits_at p f i T pc ?cx") .
    moreover have "fits_at p f i T (pc + length ?cx) (init_code L (program_env p) (pc + length ?cx) gs)"
      using Cons.IH [of "pc + length ?cx"] Cons.prems Some by (simp add: Let_def)
    ultimately have "fits_at p f i T pc (?cx @ init_code L (program_env p) (pc + length ?cx) gs)" by (rule segment_append)
    then show ?thesis using Some by (simp add: Let_def)
  qed
qed simp

lemma body_fits:
  assumes f: "function_at c p f i" and pc: "pc + length (body_code p pc f) \<le> MAX_INSTRUCTIONS"
  shows "fits_at p f i T pc (body_code p pc f)"
proof -
  note p = function_at_facts [OF f]
  note facts = function_facts [OF p(1,2)]
  let ?cp = "prologue_code (p_globals p) (program_env p) pc f"
  have "fits_at p f i T pc ?cp"
  proof (cases "fn_name f = ''main''")
    case True
    have "fn_params f = []" by (rule main_params [OF p(1,2) True])
    then have "covers Map.empty (top_env p) f (fst (param_env f))" by (simp add: covers_def param_env_def param_locals_def)
    moreover have "env_fits p Map.empty (top_env p)"
      using global_sizes_env(2,3) [of p] p(1) by (auto simp: env_fits_def size_at_def typed_source_def)
    ultimately have "names_ok p Map.empty (top_env p) f (fst (param_env f))" by (simp add: names_ok_def)
    from inits_fit [OF f this subset_refl] pc True show ?thesis by (simp add: prologue_code_def body_code_def Let_def)
  qed (simp add: prologue_code_def)
  moreover have "names_ok p (var_sizes f) (body_env p f) f (fst (param_env f))"
    using covers_body [OF p(1,2)] facts(5) by (simp add: names_ok_def)
  from stmt_fits(2) [OF f this facts(1,3), of "pc + length ?cp" T] pc
  have "fits_at p f i T (pc + length ?cp) (stmts_code (param_env f) (program_env p) (pc + length ?cp) (fn_body f))"
    by (simp add: frame_env_def body_code_def Let_def)
  ultimately show ?thesis by (simp add: body_code_def Let_def segment_append)
qed

section \<open>Where functions are\<close>

definition entry_of :: "program \<Rightarrow> nat \<Rightarrow> nat" where
  "entry_of p i = length (functions_code (p_globals p) (program_env p) 0 (take i (p_functions p)))"

lemma functions_code_append:
  "functions_code gs g pc (xs @ ys) = functions_code gs g pc xs @ functions_code gs g (pc + length (functions_code gs g pc xs)) ys"
  by (induction xs arbitrary: pc) (simp_all add: Let_def add.assoc)

lemma function_table_append:
  "function_table gs g k pc (xs @ ys) =
     function_table gs g k pc xs @ function_table gs g (k + length xs) (pc + length (functions_code gs g pc xs)) ys"
  by (induction xs arbitrary: pc k) (simp_all add: Let_def add.assoc)

lemma function_table_keys: "map fst (function_table gs g k pc fs) = [k..<k + length fs]"
  by (induction fs arbitrary: k pc) (simp_all add: upt_rec)

lemma owner_of_append:
  "pc + length (functions_code gs g pc xs) \<le> a \<Longrightarrow>
     owner_of gs g k pc (xs @ ys) a = owner_of gs g (k + length xs) (pc + length (functions_code gs g pc xs)) ys a"
  by (induction xs arbitrary: pc k) (simp_all add: Let_def add.assoc)

lemma split_at: "i < length xs \<Longrightarrow> xs = take i xs @ xs ! i # drop (Suc i) xs"
  by (rule id_take_nth_drop)

lemma program_at:
  assumes i: "i < length (p_functions p)"
  shows "\<exists>post. instructions (direct_program p) = functions_code (p_globals p) (program_env p) 0 (take i (p_functions p)) @
      function_code (p_globals p) (program_env p) (entry_of p i) (p_functions p ! i) @ post"
    "fun_lookup (direct_program p) i = Some (info_of i (entry_of p i) (p_functions p ! i))"
    "entry_of p i \<le> pc \<Longrightarrow> pc < entry_of p i + length (function_code (p_globals p) (program_env p) (entry_of p i) (p_functions p ! i)) \<Longrightarrow>
       ck_owner (program_kinds p) pc = i"
    "entry_of p (Suc i) = entry_of p i + length (function_code (p_globals p) (program_env p) (entry_of p i) (p_functions p ! i))"
proof -
  let ?gs = "p_globals p" and ?g = "program_env p" and ?fs = "p_functions p"
  let ?xs = "take i ?fs" and ?ys = "drop (Suc i) ?fs"
  note fs = split_at [OF i]
  have len: "length ?xs = i" "length (functions_code ?gs ?g 0 ?xs) = entry_of p i" using i by (simp_all add: entry_of_def)
  have "functions_code ?gs ?g 0 ?fs = functions_code ?gs ?g 0 ?xs @ functions_code ?gs ?g (entry_of p i) (?fs ! i # ?ys)"
    by (subst fs, subst functions_code_append) (simp add: len)
  then show "\<exists>post. instructions (direct_program p) = functions_code ?gs ?g 0 ?xs @ function_code ?gs ?g (entry_of p i) (?fs ! i) @ post"
    by (simp add: direct_program_def Let_def)
  have "function_table ?gs ?g 0 0 ?fs = function_table ?gs ?g 0 0 ?xs @ function_table ?gs ?g i (entry_of p i) (?fs ! i # ?ys)"
    by (subst fs, subst function_table_append) (use i in \<open>simp add: len min_absorb2\<close>)
  moreover have "map_of (function_table ?gs ?g 0 0 ?xs) i = None"
    using function_table_keys [of ?gs ?g 0 0 ?xs] len(1) by (simp add: map_of_eq_None_iff flip: set_map)
  ultimately show "fun_lookup (direct_program p) i = Some (info_of i (entry_of p i) (?fs ! i))"
    by (simp add: fun_lookup_def direct_program_def map_add_def)
  show "ck_owner (program_kinds p) pc = i"
    if "entry_of p i \<le> pc" "pc < entry_of p i + length (function_code ?gs ?g (entry_of p i) (?fs ! i))"
  proof -
    have "owner_of ?gs ?g 0 0 ?fs pc = owner_of ?gs ?g i (entry_of p i) (?fs ! i # ?ys) pc"
      by (subst fs, subst owner_of_append) (use that(1) i in \<open>simp_all add: len min_absorb2\<close>)
    with that(2) show ?thesis by (simp add: program_kinds_def Let_def)
  qed
  show "entry_of p (Suc i) = entry_of p i + length (function_code ?gs ?g (entry_of p i) (?fs ! i))"
    using i by (simp add: entry_of_def take_Suc_conv_app_nth functions_code_append Let_def)
qed


section \<open>Programs\<close>

lemma code_body_at:
  assumes i: "i < length (p_functions p)"
  defines "f \<equiv> p_functions p ! i" and "e \<equiv> entry_of p i"
  shows "e + length (body_code p e f) + 2 \<le> length (instructions (direct_program p))" "entry_of p (Suc i) = e + length (body_code p e f) + 2"
    "j < length (body_code p e f) \<Longrightarrow> instructions (direct_program p) ! (e + j) = body_code p e f ! j"
    "instructions (direct_program p) ! (e + length (body_code p e f)) = Instruction_new Op_LoadConst 0 0"
    "instructions (direct_program p) ! (e + length (body_code p e f) + 1) = Instruction_new Op_Return 0 0"
proof -
  let ?pre = "functions_code (p_globals p) (program_env p) 0 (take i (p_functions p))"
  obtain post where c: "instructions (direct_program p) =
      ?pre @ (body_code p e f @ [Instruction_new Op_LoadConst 0 0, Instruction_new Op_Return 0 0]) @ post"
    using program_at(1) [OF i] unfolding function_code_body f_def e_def by blast
  have e: "length ?pre = e" by (simp add: e_def entry_of_def)
  show "e + length (body_code p e f) + 2 \<le> length (instructions (direct_program p))" using c e by simp
  show "entry_of p (Suc i) = e + length (body_code p e f) + 2"
    using program_at(4) [OF i] by (simp add: function_code_body e_def f_def)
  show "j < length (body_code p e f) \<Longrightarrow> instructions (direct_program p) ! (e + j) = body_code p e f ! j"
    "instructions (direct_program p) ! (e + length (body_code p e f)) = Instruction_new Op_LoadConst 0 0"
    "instructions (direct_program p) ! (e + length (body_code p e f) + 1) = Instruction_new Op_Return 0 0"
    unfolding c by (simp_all add: nth_append e)
qed

lemma owner_range:
  assumes i: "i < length (p_functions p)"
    and pc: "entry_of p i \<le> pc" "pc \<le> entry_of p i + length (body_code p (entry_of p i) (p_functions p ! i)) + 1"
  shows "ck_owner (program_kinds p) pc = i"
  by (rule program_at(3) [OF i pc(1)]) (use pc(2) in \<open>simp add: function_code_body\<close>)

lemma entry_calm:
  assumes i: "i < length (p_functions p)"
  shows "expected (direct_program p) (entry_of p i) = None"
proof (cases i)
  case 0
  then show ?thesis by (simp add: expected_def entry_of_def)
next
  case (Suc k)
  with i have k: "k < length (p_functions p)" by simp
  let ?b = "body_code p (entry_of p k) (p_functions p ! k)"
  have "entry_of p i - 1 = entry_of p k + length ?b + 1" using code_body_at(2) [OF k] Suc by simp
  then have "opcode (instructions (direct_program p) ! (entry_of p i - 1)) = Op_Return"
    using code_body_at(5) [OF k] by (simp add: Instruction_new_def)
  then show ?thesis by (simp add: expected_def)
qed

text \<open>Every instruction is in some function.\<close>

lemma instruction_place:
  assumes "pc < length (instructions (direct_program p))"
  obtains i where "i < length (p_functions p)" "entry_of p i \<le> pc"
    "pc \<le> entry_of p i + length (body_code p (entry_of p i) (p_functions p ! i)) + 1"
proof -
  have "k \<le> length (p_functions p) \<Longrightarrow> pc < entry_of p k \<Longrightarrow> \<exists>i < k. entry_of p i \<le> pc \<and> pc < entry_of p (Suc i)" for k
  proof (induction k)
    case (Suc k)
    show ?case
    proof (cases "pc < entry_of p k")
      case True
      with Suc show ?thesis by (meson Suc_leD less_SucI)
    next
      case False
      with Suc show ?thesis by (intro exI [of _ k]) simp
    qed
  qed (simp add: entry_of_def)
  from this [of "length (p_functions p)"] assms obtain i where i: "i < length (p_functions p)" "entry_of p i \<le> pc" "pc < entry_of p (Suc i)"
    by (auto simp: entry_of_def direct_program_def)
  from i(3) code_body_at(2) [OF i(1)]
  have "pc \<le> entry_of p i + length (body_code p (entry_of p i) (p_functions p ! i)) + 1" by linarith
  with i that show ?thesis by blast
qed

lemma target_calm:
  assumes f: "function_at c p f i" and t: "joint (entry_of p i) (body_code p (entry_of p i) f) t"
  shows "calm (direct_program p) (program_kinds p) t i"
proof -
  let ?e = "entry_of p i"
  let ?b = "body_code p ?e f"
  from f have i: "i < length (p_functions p)" "p_functions p ! i = f" by (simp_all add: function_at_def)
  have range: "?e \<le> t" "t \<le> ?e + length ?b" using t by (simp_all add: joint_def)
  have "expected (direct_program p) t = None"
  proof (cases "t = ?e")
    case True
    with entry_calm [OF i(1)] show ?thesis by simp
  next
    case False
    with range have less: "t - ?e - 1 < length ?b" and t': "t - 1 = ?e + (t - ?e - 1)" by auto
    have "instructions (direct_program p) ! (t - 1) = ?b ! (t - ?e - 1)"
      unfolding t' using code_body_at(3) [OF i(1)] i(2) less by simp
    then show ?thesis using t False range(1) by (simp add: expected_def joint_def)
  qed
  with owner_range [OF i(1)] i(2) range show ?thesis by (simp add: calm_def owned_def)
qed


lemma body_instruction:
  assumes f: "function_at c p f i" and j: "j < length (body_code p (entry_of p i) f)"
  shows "instr_kind_ok (direct_program p) (program_kinds p) (entry_of p i + j)"
proof -
  let ?P = "direct_program p" and ?K = "program_kinds p" and ?e = "entry_of p i"
  let ?b = "body_code p ?e f"
  let ?i = "instructions ?P ! (?e + j)"
  from f have i: "i < length (p_functions p)" "p_functions p ! i = f" by (simp_all add: function_at_def)
  have bound: "?e + length ?b \<le> MAX_INSTRUCTIONS"
    using code_body_at(1) [OF i(1)] i(2) function_at_facts(5) [OF f] by (simp add: compilable_def)
  have at: "?i = ?b ! j" using code_body_at(3) [OF i(1)] i(2) j by simp
  have ex: "expected ?P (?e + j) = prior ?b j"
  proof (cases j)
    case 0
    with entry_calm [OF i(1)] show ?thesis by (simp add: prior_def)
  next
    case (Suc k)
    then have "instructions ?P ! (?e + k) = ?b ! k" using code_body_at(3) [OF i(1)] i(2) j by simp
    moreover have "?e + j \<le> length (instructions ?P)" using code_body_at(1) [OF i(1)] i(2) j by simp
    ultimately show ?thesis using Suc by (simp add: expected_def prior_def)
  qed
  have own: "ck_owner ?K (?e + j) = i" "owned ?P ?K (?e + j + 1) i"
    using owner_range [OF i(1)] i(2) j by (simp_all add: owned_def)
  have fits: "instr_fits ?P ?K i (snd (frame_env f)) {} ?e ?b j" using body_fits [OF f bound, of "{}"] j by (simp add: segment_def)
  have "kind_ok ?P ?K i (snd (frame_env f)) (prior ?b j) (opcode ?i) (arg1 ?i) (arg2 ?i)"
  proof (cases "jumps (opcode ?i)")
    case True
    then have "calm ?P ?K (as_usize (arg1 ?i)) i" using target_calm [OF f] fits at by (auto simp: instr_fits_def)
    with True show ?thesis by (auto simp: jumps_def)
  next
    case False
    with fits at show ?thesis by (simp add: instr_fits_def)
  qed
  moreover have "prior ?b j \<noteq> None \<longrightarrow> opcode ?i = Op_StoreLocal" using fits at by (simp add: instr_fits_def)
  ultimately show ?thesis
    using program_at(2) [OF i(1)] i(2) own ex by (simp add: instr_kind_ok_def info_of_def)
qed

lemma last_instructions:
  assumes f: "function_at c p f i" and b: "b = body_code p (entry_of p i) f"
  shows "instr_kind_ok (direct_program p) (program_kinds p) (entry_of p i + length b)"
    "instr_kind_ok (direct_program p) (program_kinds p) (entry_of p i + length b + 1)"
proof -
  let ?P = "direct_program p" and ?K = "program_kinds p" and ?e = "entry_of p i"
  from f b have i: "i < length (p_functions p)" "p_functions p ! i = f" "b = body_code p ?e (p_functions p ! i)" by (simp_all add: function_at_def)
  have bound: "?e + length b \<le> MAX_INSTRUCTIONS"
    using code_body_at(1) [OF i(1)] i(2,3) function_at_facts(5) [OF f] by (simp add: compilable_def)
  note parts = code_body_at(4,5) [OF i(1), folded i(3)]
  have own: "ck_owner ?K (?e + length b) = i" "ck_owner ?K (?e + length b + 1) = i"
    using owner_range [OF i(1)] i(3) by simp_all
  have "joint ?e b (?e + length b)" using joint_end [OF body_fits [OF f bound [unfolded b]]] b by simp
  with target_calm [OF f] b have ex: "expected ?P (?e + length b) = None" by (simp add: calm_def)
  have ex': "expected ?P (?e + length b + 1) = None" using parts(1) by (simp add: expected_def Instruction_new_def)
  show "instr_kind_ok ?P ?K (?e + length b)"
    using program_at(2) [OF i(1)] own ex parts(1) by (simp add: instr_kind_ok_def owned_def Instruction_new_def)
  show "instr_kind_ok ?P ?K (?e + length b + 1)"
    using program_at(2) [OF i(1)] own ex' parts(2) by (simp add: instr_kind_ok_def Instruction_new_def)
qed

lemma function_table_range:
  assumes "fun_lookup (direct_program p) i = Some g"
  shows "i < length (p_functions p)"
proof -
  have "i \<in> set (map fst (function_table (p_globals p) (program_env p) 0 0 (p_functions p)))"
    using assms by (force simp: fun_lookup_def direct_program_def dest!: map_of_SomeD)
  then show ?thesis unfolding function_table_keys by simp
qed

lemma parameter_kinds:
  assumes f: "function_at c p f i" and k: "k < length (fn_params f)"
  shows "local_kind f k = None"
proof -
  note p = function_at_facts [OF f]
  let ?n = "par_name (fn_params f ! k)"
  have "fst (param_env f) ?n = Some \<lparr>lv_slot = k, lv_is_array = False, lv_array_size = 0\<rparr>"
    using param_locals_slot [OF function_facts(6) [OF p(1,2)] k, of "(Map.empty, 0)"] by (simp add: param_env_def)
  then have "fst (frame_env f) ?n = Some \<lparr>lv_slot = k, lv_is_array = False, lv_array_size = 0\<rparr>"
    using bind_locals_le(2) [of "param_env f" "fn_body f"] by (simp add: env_le_def frame_env_def)
  from local_kind_at [OF this] show ?thesis by simp
qed

lemma compiled_kinds:
  assumes c: "compilable c p"
  shows "kinded (direct_program p) (program_kinds p)" "global_kinds (direct_program p) (program_kinds p)"
proof -
  let ?P = "direct_program p" and ?K = "program_kinds p"
  note p = compilable_typed [OF c]
  have at: "function_at c p (p_functions p ! i) i" if "i < length (p_functions p)" for i using c that by (simp add: function_at_def)
  have instrs: "instr_kind_ok ?P ?K pc" if pc: "pc < length (instructions ?P)" for pc
  proof (rule instruction_place [OF pc])
    fix i
    assume i: "i < length (p_functions p)" "entry_of p i \<le> pc"
      "pc \<le> entry_of p i + length (body_code p (entry_of p i) (p_functions p ! i)) + 1"
    let ?b = "body_code p (entry_of p i) (p_functions p ! i)"
    consider "pc - entry_of p i < length ?b" | "pc = entry_of p i + length ?b" | "pc = entry_of p i + length ?b + 1"
      using i(2,3) by linarith
    then show ?thesis
    proof cases
      case 1
      from body_instruction [OF at [OF i(1)] this] i(2) show ?thesis by simp
    next
      case 2
      with last_instructions(1) [OF at [OF i(1)] refl] show ?thesis by simp
    next
      case 3
      with last_instructions(2) [OF at [OF i(1)] refl] show ?thesis by simp
    qed
  qed
  have funs: "calm ?P ?K (entry_pc g) i \<and> (\<forall>k < param_count g. ck_locals ?K i k = None)" if g: "fun_lookup ?P i = Some g" for i g
  proof -
    have i: "i < length (p_functions p)" by (rule function_table_range [OF g])
    with g program_at(2) [OF i] have "g = info_of i (entry_of p i) (p_functions p ! i)" by simp
    moreover have "calm ?P ?K (entry_of p i) i" by (rule target_calm [OF at [OF i] joint_start])
    ultimately show ?thesis using parameter_kinds [OF at [OF i]] function_at_facts(3) [OF at [OF i]] by (simp add: info_of_def)
  qed
  have size: "0 < n \<and> s + n \<le> MAX_GLOBAL_SLOTS" if s: "ck_globals ?K s = Some n" for s n
  proof -
    from s have "global_kind p s = Some n" by (simp add: program_kinds_def)
    then obtain m x where x: "(m, x) \<in> set (global_table 0 (p_globals p))" "gi_is_array x" "gi_slot x = s" "gi_array_size x = n"
      by (rule global_kind_Some)
    with global_entry [OF p x(1)] show ?thesis by (simp add: global_width_def)
  qed
  have apart: "s + n \<le> t \<or> t + m \<le> s" if s: "ck_globals ?K s = Some n" "ck_globals ?K t = Some m" "s \<noteq> t" for s n t m
  proof -
    from s have "global_kind p s = Some n" "global_kind p t = Some m" by (simp_all add: program_kinds_def)
    then obtain a x b y where x: "(a, x) \<in> set (global_table 0 (p_globals p))" "gi_is_array x" "gi_slot x = s" "gi_array_size x = n"
      and y: "(b, y) \<in> set (global_table 0 (p_globals p))" "gi_is_array y" "gi_slot y = t" "gi_array_size y = m"
      by (metis global_kind_Some)
    have "a \<noteq> b" using global_entry(1) [OF p x(1)] global_entry(1) [OF p y(1)] s(3) x y by auto
    with program_globals_disjoint [OF global_entry(1) [OF p x(1)] global_entry(1) [OF p y(1)]] x y show ?thesis
      by (simp add: global_width_def)
  qed
  show "kinded ?P ?K" unfolding kinded_def using instrs funs size apart by blast
  show "global_kinds ?P ?K"
    unfolding global_kinds_def
  proof (intro allI)
    fix s n
    have "prog_globals ?P = global_table 0 (p_globals p)" by (simp add: direct_program_def)
    moreover have "ck_globals ?K s = global_kind p s" by (simp add: program_kinds_def)
    ultimately show "ck_globals ?K s = Some n \<longleftrightarrow>
        (\<exists>info \<in> set (map snd (prog_globals ?P)). gi_is_array info \<and> gi_slot info = s \<and> gi_array_size info = n)"
      using global_kind_at(1) [OF p] by (force elim!: global_kind_Some)
  qed
qed

end
