(* ===== verification/Compare.thy ===== *)
theory Compare
  imports Run_Audit Optimizer Verifier Oracle
begin

text \<open>
  Comparison of backends (compare.rs) and of the backends with the reference interpreter (the report
  at the start of oracle.rs). The code of the native compiler and its execution is a parameter: the
  function \<open>jit\<close> yields the value the machine code returns, or nothing when the compiler rejects
  the program; \<open>jit_target\<close> says whether the build is for Linux on x86-64.
\<close>

section \<open>Runs of backends\<close>

record backend_outcome =
  bo_success :: bool
  bo_return_value :: i64
  bo_trap_code :: trap_code
  bo_output :: "string list"

datatype backend_run_status = Executed backend_outcome | Skipped string

record backend_run =
  br_name :: string
  br_status :: backend_run_status

record backend_comparison_report =
  cr_equivalent :: bool
  cr_reference_backend :: "string option"
  cr_runs :: "backend_run list"
  cr_mismatches :: "string list"

definition run_executed :: "string \<Rightarrow> backend_outcome \<Rightarrow> backend_run" where
  "run_executed name outcome = \<lparr>br_name = name, br_status = Executed outcome\<rparr>"

definition run_skipped :: "string \<Rightarrow> string \<Rightarrow> backend_run" where
  "run_skipped name why = \<lparr>br_name = name, br_status = Skipped why\<rparr>"

definition outcome_from_vm :: "vm_result \<Rightarrow> backend_outcome" where
  "outcome_from_vm r =
     \<lparr>bo_success = success r, bo_return_value = return_value r, bo_trap_code = trap_code r,
      bo_output = res_output r\<rparr>"

definition outcome_from_gc_vm :: "gc_vm_result \<Rightarrow> backend_outcome" where
  "outcome_from_gc_vm r =
     \<lparr>bo_success = gr_success r, bo_return_value = gr_return_value r, bo_trap_code = gr_trap_code r,
      bo_output = gr_output r\<rparr>"

definition outcome_from_jit_return :: "i64 \<Rightarrow> backend_outcome" where
  "outcome_from_jit_return v =
     \<lparr>bo_success = True, bo_return_value = v, bo_trap_code = TrapNone, bo_output = []\<rparr>"

section \<open>Comparison of outcomes\<close>

definition format_outcome :: "backend_outcome \<Rightarrow> string" where
  "format_outcome b =
     fmt [''success='', show_bool (bo_success b), '', return='', show_int (bo_return_value b),
          '', trap='', debug_trap_code (bo_trap_code b), '', output='', debug_list debug_str (bo_output b)]"

text \<open>\<open>runs.iter().find_map\<close>.\<close>

fun first_executed :: "backend_run list \<Rightarrow> (string \<times> backend_outcome) option" where
  "first_executed [] = None"
| "first_executed (r # rs) =
     (case br_status r of
        Executed outcome \<Rightarrow> Some (br_name r, outcome)
      | Skipped _ \<Rightarrow> first_executed rs)"

fun outcome_mismatches :: "string \<Rightarrow> backend_outcome \<Rightarrow> backend_run list \<Rightarrow> string list" where
  "outcome_mismatches reference_name reference [] = []"
| "outcome_mismatches reference_name reference (r # rs) =
     (case br_status r of
        Skipped _ \<Rightarrow> outcome_mismatches reference_name reference rs
      | Executed outcome \<Rightarrow>
          (if outcome \<noteq> reference
           then [fmt [br_name r, '' differs from '', reference_name, '': '', format_outcome outcome,
                      '' vs '', format_outcome reference]]
           else []) @ outcome_mismatches reference_name reference rs)"

definition compare_observable_outcomes :: "backend_run list \<Rightarrow> string option \<times> string list" where
  "compare_observable_outcomes runs =
     (case first_executed runs of
        None \<Rightarrow> (None, [''no backend executed''])
      | Some (name, outcome) \<Rightarrow> (Some name, outcome_mismatches name outcome runs))"

section \<open>Comparison of backends\<close>

definition backend_reason :: "backend_status \<Rightarrow> string" where
  "backend_reason status = (case reason status of Some r \<Rightarrow> r | None \<Rightarrow> ''backend is not eligible'')"

definition run_jit_eligible :: "bool \<Rightarrow> (compiled_program \<Rightarrow> i64 option) \<Rightarrow> compiled_program \<Rightarrow> backend_run" where
  "run_jit_eligible jit_target jit p =
     (if jit_target
      then case jit p of
             None \<Rightarrow> run_skipped ''JIT'' ''JIT compiler rejected bytecode''
           | Some v \<Rightarrow> run_executed ''JIT'' (outcome_from_jit_return v)
      else run_skipped ''JIT'' ''current build target is not linux x86-64'')"

definition run_jit :: "bool \<Rightarrow> (compiled_program \<Rightarrow> i64 option) \<Rightarrow> compiled_program \<Rightarrow> backend_run run" where
  "run_jit jit_target jit p =
     with_run (verify p) (\<lambda>report.
       let status = be_jit (rep_backends report)
       in Some (Inr (if \<not> eligible status then run_skipped ''JIT'' (backend_reason status)
                     else run_jit_eligible jit_target jit p)))"

definition comparison_report :: "backend_run list \<Rightarrow> backend_comparison_report" where
  "comparison_report runs =
     (let (reference, mismatches) = compare_observable_outcomes runs
      in \<lparr>cr_equivalent = (mismatches = []), cr_reference_backend = reference, cr_runs = runs,
          cr_mismatches = mismatches\<rparr>)"

definition untraced_vm_run :: "compiled_program \<Rightarrow> vm_result run" where
  "untraced_vm_run p = map_option (map_sum id fst) (exit_run id (vm_run p vm_new))"

definition untraced_gc_run :: "compiled_program \<Rightarrow> gc_vm_result run" where
  "untraced_gc_run p = map_option (map_sum id fst) (exit_run id (gc_run p gc_new))"

definition compare_backends ::
  "bool \<Rightarrow> (compiled_program \<Rightarrow> i64 option) \<Rightarrow> compiled_program \<Rightarrow> backend_comparison_report run" where
  "compare_backends jit_target jit p =
     with_run (untraced_vm_run p) (\<lambda>v.
     with_run (untraced_gc_run p) (\<lambda>g.
     with_run (map_option Inr (optimize p stats_default)) (\<lambda>(optimized, _).
     with_run (untraced_vm_run optimized) (\<lambda>w.
     with_run (run_jit jit_target jit p) (\<lambda>j.
       Some (Inr (comparison_report
         [run_executed ''VM'' (outcome_from_vm v),
          run_executed ''GC VM'' (outcome_from_gc_vm g),
          run_executed ''Optimized VM'' (outcome_from_vm w), j])))))))"

definition show_run :: "backend_run \<Rightarrow> string" where
  "show_run r =
     (case br_status r of
        Executed outcome \<Rightarrow> line [''  '', br_name r, '': '', format_outcome outcome]
      | Skipped why \<Rightarrow> line [''  '', br_name r, '': skipped ('', why, '')''])"

definition show_mismatch_list :: "string \<Rightarrow> string list \<Rightarrow> string" where
  "show_mismatch_list title ms =
     (if ms = [] then '''' else fmt [line [], line [title], concat (List.map (\<lambda>m. line [''  '', m]) ms)])"

definition show_comparison_report :: "backend_comparison_report \<Rightarrow> string" where
  "show_comparison_report r =
     fmt [line [''Backend Comparison''],
          line [''  status: '', if cr_equivalent r then ''equivalent'' else ''mismatch''],
          (case cr_reference_backend r of
             Some name \<Rightarrow> line [''  reference: '', name]
           | None \<Rightarrow> line [''  reference: none'']),
          line [], line [''Runs''], concat (List.map show_run (cr_runs r)),
          show_mismatch_list ''Mismatches'' (cr_mismatches r)]"

section \<open>Comparison with the interpreter\<close>

record oracle_comparison_report =
  or_equivalent :: bool
  or_oracle :: oracle_outcome
  or_backend_report :: backend_comparison_report
  or_mismatches :: "string list"

definition oracle_summary :: "oracle_outcome \<Rightarrow> string" where
  "oracle_summary out =
     fmt [''success='', show_bool (oo_success out), '', return='', show_int (oo_return_value out),
          '', trap='', debug_trap_code (oo_trap_code out), '', output='', debug_list debug_str (oo_output out)]"

definition differs_from_oracle :: "oracle_outcome \<Rightarrow> backend_outcome \<Rightarrow> bool" where
  "differs_from_oracle out b \<longleftrightarrow>
     bo_success b \<noteq> oo_success out \<or> bo_return_value b \<noteq> oo_return_value out \<or>
     bo_trap_code b \<noteq> oo_trap_code out \<or> bo_output b \<noteq> oo_output out"

fun oracle_mismatches :: "oracle_outcome \<Rightarrow> backend_run list \<Rightarrow> string list" where
  "oracle_mismatches out [] = []"
| "oracle_mismatches out (r # rs) =
     (case br_status r of
        Skipped _ \<Rightarrow> oracle_mismatches out rs
      | Executed b \<Rightarrow>
          (if differs_from_oracle out b
           then [fmt [br_name r, '' differs from AST oracle: '', format_outcome b, '' vs '', oracle_summary out]]
           else []) @ oracle_mismatches out rs)"

definition compare_ast_oracle ::
  "bool \<Rightarrow> (compiled_program \<Rightarrow> i64 option) \<Rightarrow> program \<Rightarrow> compiled_program \<Rightarrow> oracle_comparison_report run" where
  "compare_ast_oracle jit_target jit prog compiled =
     with_run (Some (run_ast_oracle prog)) (\<lambda>out.
     with_run (compare_backends jit_target jit compiled) (\<lambda>report.
       let mismatches = oracle_mismatches out (cr_runs report)
       in Some (Inr \<lparr>or_equivalent = (cr_equivalent report \<and> mismatches = []), or_oracle = out,
                     or_backend_report = report, or_mismatches = mismatches\<rparr>)))"

definition show_oracle_report :: "oracle_comparison_report \<Rightarrow> string" where
  "show_oracle_report r =
     fmt [line [''AST Oracle Comparison''],
          line [''  status: '', if or_equivalent r then ''equivalent'' else ''mismatch''],
          line [''  oracle: '', oracle_summary (or_oracle r)], line [],
          show_comparison_report (or_backend_report r),
          show_mismatch_list ''Oracle Mismatches'' (or_mismatches r)]"

end
