(* ===== verification/Machines_Agree.thy ===== *)
theory Machines_Agree
  imports Code_Kinds_Programs Verifier_Props Compiler_Correct Language_Props Optimizer_Props Compare_Props
begin

text \<open>
  Compiled programs in all executions. The code of a typed source meets the conditions of the lockstep
  theories, of the optimiser and of the correctness of the compiler; so the two machines record the
  same semantic trace and end alike, and the comparison with the interpreter reports equivalence.
\<close>

section \<open>Operands of compiled code\<close>

definition small_args :: "instruction list \<Rightarrow> bool" where
  "small_args is \<longleftrightarrow> (\<forall>x \<in> set is. is_i32 (arg1 x) \<and> is_i32 (arg2 x))"

lemma small_args_simps [simp]:
  "small_args []" "small_args (x # xs) \<longleftrightarrow> is_i32 (arg1 x) \<and> is_i32 (arg2 x) \<and> small_args xs"
  "small_args (xs @ ys) \<longleftrightarrow> small_args xs \<and> small_args ys"
  by (auto simp: small_args_def)

lemma operand_i32 [simp]: "is_i32 (usize_as_i32 n)"
  by (simp add: usize_as_i32_def wrap32_range)

lemma instruction_args [simp]: "arg1 (Instruction_new op a b) = a" "arg2 (Instruction_new op a b) = b"
  by (simp_all add: Instruction_new_def)

lemma zero_one_i32 [simp]: "is_i32 0" "is_i32 1"
  by (simp_all add: is_i32_def)

lemma expr_args:
  "expr_plain c e \<Longrightarrow> small_args (expr_code L g pc e)"
  "args_plain c es \<Longrightarrow> small_args (args_code L g pc es)"
  by (induction L g pc e and L g pc es rule: expr_code_args_code.induct)
    (auto simp: Let_def load_code_def array_load_code_def split: option.split)

lemma stmt_args:
  "stmt_plain c st \<Longrightarrow> small_args (stmt_code E g pc st)"
  "stmts_plain c ss \<Longrightarrow> small_args (stmts_code E g pc ss)"
  by (induction E g pc st and E g pc ss rule: stmt_code_stmts_code.induct)
    (auto simp: Let_def decl_code_def assign_code_def store_instr_def store_local_def opt_plain_def
      intro: expr_args split: option.splits)

lemma init_args: "list_all (\<lambda>x. opt_plain c (gv_init x)) gs \<Longrightarrow> small_args (init_code L g pc gs)"
  by (induction gs arbitrary: pc) (auto simp: Let_def opt_plain_def intro: expr_args split: option.splits)

lemma functions_args:
  "list_all (\<lambda>x. opt_plain c (gv_init x)) gs \<Longrightarrow> list_all (\<lambda>f. stmts_plain c (fn_body f)) fs \<Longrightarrow> small_args (functions_code gs g pc fs)"
  by (induction fs arbitrary: pc)
    (auto simp: Let_def function_code_def prologue_code_def intro: init_args stmt_args)

lemma compiled_typed:
  assumes "typed_source c p"
  shows "typed_program (direct_program p)"
proof -
  have "list_all (\<lambda>x. opt_plain c (gv_init x)) (p_globals p)" "list_all (\<lambda>f. stmts_plain c (fn_body f)) (p_functions p)"
    using assms by (auto simp: typed_source_def program_plain_def list_all_iff)
  from functions_args [OF this, of "program_env p" 0] show ?thesis
    by (simp add: typed_program_def direct_program_def small_args_def)
qed

lemma compiled_entries: "entries_in_range (direct_program p)"
proof -
  have "entry_pc g < length (instructions (direct_program p))" if g: "(i, g) \<in> set (prog_functions (direct_program p))" for i g
  proof -
    have "distinct (map fst (prog_functions (direct_program p)))" by (simp add: direct_program_def function_table_keys)
    with g have "fun_lookup (direct_program p) i = Some g" by (simp add: fun_lookup_def)
    moreover from function_table_range [OF this] have "i < length (p_functions p)" .
    ultimately have "g = info_of i (entry_of p i) (p_functions p ! i)" "entry_of p i < length (instructions (direct_program p))"
      using program_at(2) [of i p] code_body_at(1) [of i p] by simp_all
    then show ?thesis by (simp add: info_of_def)
  qed
  then show ?thesis by (auto simp: entries_in_range_def)
qed

lemma compiled_main:
  assumes "fun_lookup (direct_program p) i = Some f"
  shows "fi_id f = i"
proof -
  have "f = info_of i (entry_of p i) (p_functions p ! i)" using assms program_at(2) [OF function_table_range [OF assms]] by simp
  then show ?thesis by (simp add: info_of_def)
qed

section \<open>The two machines\<close>

lemma machine_cases:
  "vm_machine k False = with_max_cycles k vm_new" "vm_machine k True = with_trace (with_max_cycles k vm_new)"
  "with_max_cycles MAX_CYCLES vm_new = vm_new" "gc_machine MAX_CYCLES True = gc_with_trace gc_new" "gc_machine MAX_CYCLES False = gc_new"
  by (simp_all add: vm_machine_def gc_machine_def with_max_cycles_def vm_new_def gc_with_max_cycles_def gc_new_def)

lemma machine_returns:
  assumes "0 < k"
  shows "\<exists>e t. vm_run p (vm_machine k tr) = Some (e, t)"
  using run_within_limits [OF assms, of p] traced_run_complete [OF assms, of p] by (cases tr) (auto simp: machine_cases)

lemma compiled_lockstep:
  assumes c: "compilable c p" and k: "0 < k" "k \<le> 4294967296"
  shows "\<exists>r t. vm_run (direct_program p) (vm_machine k tr) = Some (Inr r, t) \<and>
    (trap_code r \<in> {StackOverflow, UndefinedLocal} \<or>
     (\<exists>r' t'. gc_run (direct_program p) (gc_machine k tr) = Some (Inr r', t') \<and> same_report r r' \<and>
        same_traces (vm_trace t) (gv_trace t')))"
proof -
  let ?p = "direct_program p"
  note typed = compiled_typed [OF compilable_typed [OF c]]
  obtain e t where x: "vm_run ?p (vm_machine k tr) = Some (e, t)"
    using machine_returns [OF k(1), of ?p tr] by blast
  obtain r' t' where g: "gc_run ?p (gc_machine k tr) = Some (Inr r', t')"
    using gc_run_returns [OF typed k(1)] by blast
  have same: "own_exit (e, t) \<or> same_exit (e, t) (Inr r', t')"
    using lockstep_runs [OF compiled_kinds [OF c] typed k compiled_main x] g by auto
  then obtain r where "e = Inr r" by (cases e) (auto simp: own_exit_def same_exit_def)
  with same x g show ?thesis by (auto simp: own_exit_def same_exit_def)
qed

lemma same_trace_events:
  "same_traces (vm_trace t) (gv_trace t') \<Longrightarrow> semantic_trace (trace_events t) = semantic_trace (gc_trace_events t')"
  by (auto simp: same_traces_def trace_events_def gc_trace_events_def split: option.splits)

lemma compiled_diff:
  assumes c: "compilable c p"
  shows "\<exists>r. diff_vm_gc_traces (direct_program p) = Some (Inr r) \<and>
    (es_trap_code (dr_left_outcome r) \<notin> {StackOverflow, UndefinedLocal} \<longrightarrow> dr_equivalent r)"
proof -
  let ?p = "direct_program p"
  have k: "0 < MAX_CYCLES" "MAX_CYCLES \<le> 4294967296" by (simp_all add: limit_defs)
  obtain r t where v: "vm_run ?p (with_trace vm_new) = Some (Inr r, t)"
    and same: "trap_code r \<in> {StackOverflow, UndefinedLocal} \<or>
     (\<exists>r' t'. gc_run ?p (gc_with_trace gc_new) = Some (Inr r', t') \<and> same_report r r' \<and> same_traces (vm_trace t) (gv_trace t'))"
    using compiled_lockstep [OF c k, of True] by (auto simp: machine_cases)
  obtain r' t' where g: "gc_run ?p (gc_with_trace gc_new) = Some (Inr r', t')"
    using gc_run_returns [OF compiled_typed [OF compilable_typed [OF c]] k(1), of True] by (auto simp: machine_cases)
  let ?d = "diff_report (r, trace_events t) (r', gc_trace_events t')"
  have "diff_vm_gc_traces ?p = Some (Inr ?d)" by (simp add: diff_vm_gc_traces_def traced_vm_run_def traced_gc_run_def v g)
  moreover have "dr_equivalent ?d" if "trap_code r \<notin> {StackOverflow, UndefinedLocal}"
  proof -
    have rep: "same_report r r'" and tr: "same_traces (vm_trace t) (gv_trace t')" using that same g by auto
    have "semantic_trace (trace_events t) = semantic_trace (gc_trace_events t')"
      using tr by (rule same_trace_events)
    then have "first_semantic_trace_divergence (trace_events t) (gc_trace_events t') = None"
      using first_semantic_trace_divergence_exact [of "trace_events t" "gc_trace_events t'"] by simp
    moreover have "summary_from_vm r = summary_from_gc_vm r'" using rep by (simp add: same_report_def summary_from_vm_def summary_from_gc_vm_def)
    ultimately show ?thesis by (simp add: diff_report_def Let_def outcome_mismatch_def)
  qed
  ultimately show ?thesis by (auto simp: diff_report_def Let_def summary_from_vm_def)
qed

section \<open>Four executions\<close>

definition oracle_backend :: "oracle_outcome \<Rightarrow> backend_outcome" where
  "oracle_backend out =
     \<lparr>bo_success = oo_success out, bo_return_value = oo_return_value out, bo_trap_code = oo_trap_code out, bo_output = oo_output out\<rparr>"

lemma oracle_agrees: "\<not> differs_from_oracle out (oracle_backend out)"
  by (simp add: differs_from_oracle_def oracle_backend_def)

lemma oracle_success_code: "run_ast_oracle p = Inr out \<Longrightarrow> oo_success out \<Longrightarrow> oo_trap_code out = TrapNone"
  by (auto simp: run_ast_oracle_def oracle_run_def outcome_ok_def outcome_trap_def split: sum.splits prod.splits vm_error.splits)

lemma compiled_entry:
  assumes "can_run_size_changing_passes (instructions (direct_program p)) (prog_functions (direct_program p))"
  shows "\<forall>(_, f) \<in> set (prog_functions (direct_program p)). entry_pc f = 0"
proof -
  have "length (p_functions p) = 1"
    using assms arg_cong [OF function_table_keys, of length]
    by (simp add: can_run_size_changing_passes_def direct_program_def)
  then obtain f where "p_functions p = [f]" by (auto simp: length_Suc_conv)
  then show ?thesis by (simp add: direct_program_def info_of_def)
qed

lemma same_success_outcome:
  assumes "same_success (Inr r, t) e"
  shows "\<exists>r' t'. e = (Inr r', t') \<and> outcome_from_vm r' = outcome_from_vm r"
proof -
  obtain r' where r: "fst e = Inr r'"
    "r'\<lparr>res_pc := 0, res_cycles := 0, trap_message := []\<rparr> = r\<lparr>res_pc := 0, res_cycles := 0, trap_message := []\<rparr>"
    using assms by (auto simp: same_success_def)
  from r(2) have "outcome_from_vm r' = outcome_from_vm r"
    by (cases r; cases r') (simp add: outcome_from_vm_def)
  with r(1) show ?thesis by (cases e) auto
qed

lemma agrees_outcome:
  assumes "agrees m out r" "success r"
  shows "outcome_from_vm r = oracle_backend out"
  using assms by (simp add: agrees_def outcome_from_vm_def oracle_backend_def)

lemma report_outcome: "same_report r r' \<Longrightarrow> outcome_from_gc_vm r' = outcome_from_vm r"
  by (simp add: same_report_def outcome_from_gc_vm_def outcome_from_vm_def)

lemma run_jit_skips: "\<exists>j. run_jit jt jit p = Some (Inr j) \<and> (\<not> jt \<longrightarrow> (\<exists>n why. j = run_skipped n why))"
proof -
  obtain rep where "verify p = Some (Inr rep)" using verify_returns by blast
  then have "\<not> jt \<Longrightarrow> run_jit jt jit p = Some (Inr (run_skipped ''JIT''
      (if eligible (be_jit (rep_backends rep)) then ''current build target is not linux x86-64''
       else backend_reason (be_jit (rep_backends rep)))))"
    "\<exists>j. run_jit jt jit p = Some (Inr j)"
    by (simp_all add: run_jit_def Let_def run_jit_eligible_def)
  then show ?thesis by (cases jt) blast+
qed

lemma compiled_backends:
  assumes c: "compilable c p" and out: "run_ast_oracle p = Inr out" "oo_success out"
    and v: "vm_run (direct_program p) vm_new = Some (Inr r, t)" "success r"
    and scalar: "can_run_size_changing_passes (instructions (direct_program p)) (prog_functions (direct_program p)) \<Longrightarrow>
      scalar_program (direct_program p)"
  shows "\<exists>j. compare_backends jt jit (direct_program p) = Some (Inr (comparison_report
    [run_executed ''VM'' (oracle_backend out), run_executed ''GC VM'' (oracle_backend out),
     run_executed ''Optimized VM'' (oracle_backend out), j])) \<and> (\<not> jt \<longrightarrow> (\<exists>n why. j = run_skipped n why))"
proof -
  let ?p = "direct_program p"
  have k: "0 < MAX_CYCLES" "MAX_CYCLES \<le> 4294967296" by (simp_all add: limit_defs)
  have ag: "agrees MAX_CYCLES out r"
    using direct_runs [OF c out(1), of MAX_CYCLES] out(2) v(1) by (auto simp: machine_cases)
  note vm = agrees_outcome [OF ag v(2)]
  have code: "trap_code r = TrapNone"
    using ag v(2) oracle_success_code [OF out] by (simp add: agrees_def)
  obtain r' t' where g: "gc_run ?p gc_new = Some (Inr r', t')" "same_report r r'"
    using compiled_lockstep [OF c k, of False] v(1) code by (auto simp: machine_cases)
  note gc = report_outcome [OF g(2)]
  have ok: "succeeds (Inr r, t)" using v(2) by (simp add: succeeds_def)
  have "vm_run ?p (with_max_cycles MAX_CYCLES vm_new) = Some (Inr r, t)" using v(1) by (simp add: machine_cases)
  from optimize_keeps_success [OF compiled_typed [OF compilable_typed [OF c]] compiled_entries _ this ok, of stats_default]
  obtain q st' e where q: "optimize ?p stats_default = Some (q, st')" "vm_run q vm_new = Some e" "same_success (Inr r, t) e"
    using scalar compiled_entry [of p] by (auto simp: machine_cases)
  obtain w t'' where w: "e = (Inr w, t'')" "outcome_from_vm w = outcome_from_vm r"
    using same_success_outcome [OF q(3)] by blast
  obtain j where j: "run_jit jt jit ?p = Some (Inr j)" "\<not> jt \<longrightarrow> (\<exists>n why. j = run_skipped n why)"
    using run_jit_skips by blast
  have "compare_backends jt jit ?p = Some (Inr (comparison_report
    [run_executed ''VM'' (outcome_from_vm r), run_executed ''GC VM'' (outcome_from_gc_vm r'),
     run_executed ''Optimized VM'' (outcome_from_vm w), j]))"
    by (simp add: compare_backends_def untraced_vm_run_def untraced_gc_run_def v(1) g(1) q(1,2) w(1) j(1))
  with j(2) show ?thesis by (auto simp: vm gc w(2))
qed

lemma skipped_report:
  "cr_equivalent (comparison_report [run_executed a b, run_executed a' b, run_executed a'' b, run_skipped n why])"
  "cr_runs (comparison_report runs) = runs"
  by (simp_all add: comparison_report_def compare_observable_outcomes_def run_executed_def run_skipped_def split: prod.splits)

lemma oracle_runs_agree:
  "oracle_mismatches out [run_executed a (oracle_backend out), run_executed a' (oracle_backend out),
     run_executed a'' (oracle_backend out), run_skipped n why] = []"
  by (simp add: run_executed_def run_skipped_def oracle_agrees)

lemma compiled_oracle_report:
  assumes c: "compilable c p" and out: "run_ast_oracle p = Inr out" "oo_success out"
    and v: "vm_run (direct_program p) vm_new = Some (Inr r, t)" "success r"
    and scalar: "can_run_size_changing_passes (instructions (direct_program p)) (prog_functions (direct_program p)) \<Longrightarrow>
      scalar_program (direct_program p)"
  shows "\<exists>rep j. compare_ast_oracle jt jit p (direct_program p) = Some (Inr rep) \<and> or_oracle rep = out \<and>
    cr_runs (or_backend_report rep) =
      [run_executed ''VM'' (oracle_backend out), run_executed ''GC VM'' (oracle_backend out),
       run_executed ''Optimized VM'' (oracle_backend out), j] \<and> (\<not> jt \<longrightarrow> or_equivalent rep)"
proof -
  obtain j where j: "compare_backends jt jit (direct_program p) = Some (Inr (comparison_report
    [run_executed ''VM'' (oracle_backend out), run_executed ''GC VM'' (oracle_backend out),
     run_executed ''Optimized VM'' (oracle_backend out), j]))" "\<not> jt \<longrightarrow> (\<exists>n why. j = run_skipped n why)"
    using compiled_backends [OF c out v scalar] by blast
  then show ?thesis
    by (auto simp: compare_ast_oracle_def out(1) Let_def skipped_report oracle_runs_agree simp del: oracle_mismatches.simps)
qed

section \<open>The comparisons report equivalence\<close>

text \<open>
  C2: The two machines are in lockstep on compiled programs, under every cycle limit up to \<open>2 ^ 32\<close>:
  the traced run of the reference machine returns a report \<open>r\<close>, and unless it ends on a trap that its
  own frame layout causes (a full stack or slot area, a read of a local never written), the traced run
  of the garbage collecting machine returns the same success, value, trap, message, cycles, output,
  position and depths, and its normalised trace is the same sequence of events.
\<close>
theorem machines_in_lockstep:
  assumes "typed_source c p" "c \<longrightarrow> no_inits p" "compile p = Inr q" "length (instructions q) \<le> MAX_INSTRUCTIONS"
    and "0 < k" "k \<le> 4294967296"
  shows "\<exists>r t. vm_run q (with_trace (with_max_cycles k vm_new)) = Some (Inr r, t) \<and>
    (trap_code r \<in> {StackOverflow, UndefinedLocal} \<or>
     (\<exists>r' t'. gc_run q (gc_with_trace (gc_with_max_cycles k gc_new)) = Some (Inr r', t') \<and> same_report r r' \<and>
        semantic_trace (trace_events t) = semantic_trace (gc_trace_events t')))"
proof -
  note q = compiled_compilable [OF assms(1-4)]
  obtain r t where "vm_run q (vm_machine k True) = Some (Inr r, t)"
    "trap_code r \<in> {StackOverflow, UndefinedLocal} \<or> (\<exists>r' t'. gc_run q (gc_machine k True) = Some (Inr r', t') \<and>
       same_report r r' \<and> same_traces (vm_trace t) (gv_trace t'))"
    using compiled_lockstep [OF q(1) assms(5,6), of True] q(2) by blast
  then show ?thesis using same_trace_events by (fastforce simp: vm_machine_def gc_machine_def)
qed

lemma squares_compiled: "compile squares = Inr (direct_program squares)"
  using squares_typed by (intro compile_well_formed) (simp add: typed_source_def)

lemma machines_in_lockstep_witness:
  "\<exists>r t. vm_run (direct_program squares) (with_trace (with_max_cycles 1000 vm_new)) = Some (Inr r, t) \<and>
    (trap_code r \<in> {StackOverflow, UndefinedLocal} \<or>
     (\<exists>r' t'. gc_run (direct_program squares) (gc_with_trace (gc_with_max_cycles 1000 gc_new)) = Some (Inr r', t') \<and>
        same_report r r' \<and> semantic_trace (trace_events t) = semantic_trace (gc_trace_events t')))"
  by (rule machines_in_lockstep [where c = False and p = squares])
    (simp_all add: squares_typed squares_small squares_compiled)




lemma squares_succeeds:
  "\<exists>r t. vm_run (direct_program squares) vm_new = Some (Inr r, t) \<and> success r"
proof -
  have "vm_summary (vm_run (direct_program squares) vm_new) = Some (True, 4, TrapNone, [''OUTPUT: 3''])" by code_simp
  then show ?thesis by (auto simp: vm_summary_def split: option.splits sum.splits)
qed

lemma squares_fixed_size:
  "\<not> can_run_size_changing_passes (instructions (direct_program squares)) (prog_functions (direct_program squares))"
  by code_simp


end
