(* ===== verification/Spec2Isabelle.thy ===== *)
theory Spec2Isabelle
  imports Verified_Runs Parser_Props Compiler Sema_Props Optimizer_Props Gc_Runs Language_Props Json_Props Machines_Agree
begin

text \<open>
  A verification library for the MiniLang tool chain (Rust, src/src). MiniLang is a small
  imperative language: two types (int and bool), global and local fixed-size arrays, functions
  with recursion, and wrapping 32-bit arithmetic. A source text is lexed (lexer.rs), parsed
  (parser.rs), analysed (sema.rs), compiled to stack bytecode (compiler.rs), optionally optimised
  (optimizer.rs), verified (verifier.rs) and run on a stack machine with hard resource limits
  (vm.rs, limits.rs). Every stage is translated function by function; the state of a Rust struct
  is a record, a method with \<open>&mut self\<close> and \<open>Result\<close> is a function into
  \<open>(error + value) \<times> state\<close>, and its question-mark operator is \<open>bnd\<close> of Prelude.

  Theories and the code they model.

  \<^item> Prelude: wrap-around arithmetic of i32, i64 and usize, decimal printing, \<open>bnd\<close> with its
    weakest-precondition rules, addressable vectors, the generic loop \<open>iterate\<close> and the locale
    \<open>bounded_loop\<close> by which every loop of the development is shown to return.
  \<^item> Bytecode: limits.rs, the trap codes, opcodes, \<open>Instruction\<close>, \<open>FunctionInfo\<close>,
    \<open>GlobalInfo\<close> and \<open>CompiledProgram\<close> of compiler.rs, trace events of trace.rs. A \<open>HashMap\<close> is an
    association list whose order is the iteration order.
  \<^item> Vm: the reference machine of vm.rs, all instructions, the validation before a run, the run
    loop (\<open>vm_step\<close>, \<open>vm_run\<close>) and trace recording. Vm_Props: a machine invariant, the limits of
    a run, absence of panics for type-correct stacks, calling convention, trace laws.
  \<^item> Verifier: verifier.rs, the abstract interpretation of bytecode over stack shapes with its
    worklist. Verifier_Props: the worklist loop returns. Verifier_Sound: its result is a fixed
    point that covers every edge of the control-flow graph. Verified_Runs: simulation of the
    machine by the abstract states (what a verified program can and cannot do at run time).
  \<^item> Lexer: token.rs and lexer.rs. Lexer_Props: positions, end of file, integer tokens, and the
    round trip from tokens through their printed form.
  \<^item> Ast, Parser: ast.rs and the recursive-descent parser of parser.rs with its error
    recovery. Parser_Props: the fuel that always suffices, so that parsing returns.
  \<^item> Sema: the semantic analyser of sema.rs. Well_Formed: the declarative static semantics, the
    abstract specification of the analyser. Sema_Props: the analyser accepts exactly the
    programs that are well formed.
  \<^item> Compiler: the code generator of compiler.rs with its patching of forward jumps. Direct_Code: the
    same code without patching, from the structure of the source, and that the compiler produces it.
  \<^item> Oracle: the reference interpreter of oracle.rs, the meaning of MiniLang; its recursive functions
    end because every call, statement and expression spends a cycle. Type_Safety: it never goes
    wrong on a typed program (\<open>typed_source\<close>: accepted by the analyser, 32-bit literals as the parser
    makes them, one size for all declarations of a name in a function).
  \<^item> Code_Runs, Code_Layout, Code_Steps, Code_Stores, Code_Calls, Code_Exprs, Code_Stmts, Code_Control,
    Code_Simulation: the simulation of the interpreter by the machine that runs the compiled code:
    runs up to a resource limit (\<open>tracks\<close>), where slots and code lie, the relation of the states
    (\<open>state_rel\<close>), then every kind of step up to statements and calls, and the induction over the
    interpreter. Compiler_Correct: whole programs. Language_Props: the properties, and the programs
    on which machine and interpreter differ.
  \<^item> Optimizer: the passes of optimizer.rs. Relocation: code moved to other addresses runs alike (the
    locale \<open>relocation\<close>). Dce_Props: removing unreachable code is a bisimulation. Window_Props: the
    locale \<open>window_rewrite\<close> of patterns that keep the effect of a window, and the three patterns as
    its instances. Optimizer_Props: the optimiser keeps the results of successful runs.

  \<^item> Gc_Vm: the garbage collecting machine of gc_vm.rs, with its heap of arrays, its mark and sweep
    collector and the same instructions. Gc_Props: the heap invariant, that a collection frees
    exactly the arrays without a reference, and that every instruction keeps the invariant. Gc_Runs: the
    bound on the heap, the runs of the machine and their properties.
  \<^item> Trace: trace.rs, the comparison of traces event by event and up to the numbering of arrays (the
    normaliser), fingerprints and JSON. Trace_Props: the comparison finds the first difference (locale
    \<open>event_comparison\<close>), the hash reads a stream that determines the trace (locale \<open>unique_code\<close>).
    Json_Props: JSON texts can be read back (locale \<open>text_code\<close>). Run_Audit: audit.rs, replay
    and differential check of the machines. Compare: compare.rs and the comparison with the interpreter in
    oracle.rs; the native compiler and its execution are a parameter. Compare_Props: when they report
    equivalence.
  \<^item> Lockstep, Lockstep_Steps, Lockstep_Instructions: the relation of the two machines on code that
    keeps integers and array references apart (\<open>kinded\<close>), with addresses of arrays on one side and heap
    references on the other, and that all instructions keep it. Lockstep_Traces: the normalised events are
    the same. Lockstep_Runs, Lockstep_Start: from single steps to whole runs.
  \<^item> Code_Kinds, Code_Kinds_Exprs, Code_Kinds_Stmts, Code_Kinds_Programs: compiled code is of that kind.
    Machines_Agree: so the differential check passes on compiled programs, and the comparison of the
    interpreter, both machines and the optimised program reports equivalence.

  Bounds. The simulation covers every cycle limit of the machine, 0 (none) included. The interpreter
  has its own limit of cycles, under which the machine's vector of locals stays below \<open>2 ^ 64\<close>.

  Fuel. The recursive-descent parser takes fuel because its recursion follows the input rather
  than a data type; Parser_Props shows that ten times the number of tokens for an
  expression and three times for a statement, plus a constant, are never exhausted. Loops of the source
  whose end is not evident are \<open>iterate\<close>, whose value \<open>None\<close> is a loop that does not return;
  termination is proved, never assumed.

  Not modelled. The collector over raw pointers of gc.rs and the allocators of alloc.rs and
  arena_ast.rs (raw memory, used by no machine here), the x86-64 code generator of jit.rs with
  runtime.rs (encoded machine code called through raw pointers), the fuzzer and the evidence reports
  of fuzz.rs and evidence.rs, the command line of main.rs and repl.rs, and text output for people (\<open>Display\<close>
  of statistics and reports, disassembly, debug prints).
\<close>

end
